(* ===== verification/Prelude.thy ===== *)
theory Prelude
  imports Complex_Main "HOL-Library.Sublist" "HOL-Library.Code_Target_Numeral"
begin

text \<open>
  Shared vocabulary of the development: fallible computations as values of a sum type
  (\<open>Inl\<close> is the error of a Rust \<open>Result\<close>), the checked arithmetic of a 64-bit
  \<open>usize\<close>, and the insertion-ordered map (\<open>indexmap::IndexMap\<close>) with the interface
  its clients rely on.
\<close>

section \<open>Collections of rewrite rules\<close>

named_theorems result_simps "rewriting of sequenced fallible computations"
named_theorems std_defs "definitions that model the Rust standard library"

section \<open>Fallible computations\<close>

text \<open>\<open>rbind m f\<close> is Rust's \<open>f(m?)\<close>: the error of \<open>m\<close> is returned at once.\<close>

definition rbind :: "'e + 'a \<Rightarrow> ('a \<Rightarrow> 'e + 'b) \<Rightarrow> 'e + 'b" where
  "rbind m f = (case m of Inl e \<Rightarrow> Inl e | Inr x \<Rightarrow> f x)"

lemma rbind_simps [simp, result_simps]:
  "rbind (Inl e) f = Inl e"
  "rbind (Inr x) f = f x"
  by (simp_all add: rbind_def)

lemma rbind_cong [fundef_cong]:
  "m = m' \<Longrightarrow> (\<And>x. m' = Inr x \<Longrightarrow> f x = g x) \<Longrightarrow> rbind m f = rbind m' g"
  by (cases m') (auto simp: rbind_def)

lemma rbind_eq_Inr: "rbind m f = Inr y \<longleftrightarrow> (\<exists>x. m = Inr x \<and> f x = Inr y)"
  by (cases m) auto

lemma rbind_eq_Inl: "rbind m f = Inl e \<longleftrightarrow> m = Inl e \<or> (\<exists>x. m = Inr x \<and> f x = Inl e)"
  by (cases m) auto

lemma rbind_split:
  "P (rbind m f) = ((\<forall>e. m = Inl e \<longrightarrow> P (Inl e)) \<and> (\<forall>x. m = Inr x \<longrightarrow> P (f x)))"
  by (cases m) auto

lemma rbind_assoc: "rbind (rbind m f) g = rbind m (\<lambda>x. rbind (f x) g)"
  by (cases m) auto

text \<open>\<open>xs.iter().map(f).collect::<Result<Vec<_>, _>>()\<close>: stops at the first error.\<close>

primrec rmap :: "('a \<Rightarrow> 'e + 'b) \<Rightarrow> 'a list \<Rightarrow> 'e + 'b list" where
  "rmap f [] = Inr []"
| "rmap f (x # xs) = rbind (f x) (\<lambda>y. rbind (rmap f xs) (\<lambda>ys. Inr (y # ys)))"

lemma rmap_cong [fundef_cong]:
  "xs = ys \<Longrightarrow> (\<And>x. x \<in> set ys \<Longrightarrow> f x = g x) \<Longrightarrow> rmap f xs = rmap g ys"
  by (induction ys arbitrary: xs) (auto cong: rbind_cong)

lemma rmap_length: "rmap f xs = Inr ys \<Longrightarrow> length ys = length xs"
  by (induction xs arbitrary: ys) (auto simp: rbind_eq_Inr)

lemma rmap_nth: "rmap f xs = Inr ys \<Longrightarrow> i < length xs \<Longrightarrow> f (xs ! i) = Inr (ys ! i)"
  by (induction xs arbitrary: ys i) (auto simp: rbind_eq_Inr nth_Cons' )

text \<open>
  \<open>outcome E Q m\<close>: the error of \<open>m\<close> satisfies \<open>E\<close>, its result satisfies
  \<open>Q\<close>. The rules below are the proof rules of sequencing, applied backwards.
\<close>

definition outcome :: "('e \<Rightarrow> bool) \<Rightarrow> ('a \<Rightarrow> bool) \<Rightarrow> 'e + 'a \<Rightarrow> bool" where
  "outcome E Q m = (case m of Inl e \<Rightarrow> E e | Inr x \<Rightarrow> Q x)"

lemma outcome_simps [simp]:
  "outcome E Q (Inl e) = E e"
  "outcome E Q (Inr x) = Q x"
  by (simp_all add: outcome_def)

lemma outcome_rbind:
  "outcome E R m \<Longrightarrow> (\<And>x. m = Inr x \<Longrightarrow> R x \<Longrightarrow> outcome E Q (f x)) \<Longrightarrow> outcome E Q (rbind m f)"
  by (cases m) auto

lemma outcome_mono:
  "outcome E Q m \<Longrightarrow> (\<And>x. Q x \<Longrightarrow> R x) \<Longrightarrow> outcome E R m"
  by (cases m) auto

lemma outcome_Inr: "outcome E Q m \<Longrightarrow> m = Inr x \<Longrightarrow> Q x"
  by simp

lemma outcome_Inl: "outcome E Q m \<Longrightarrow> m = Inl e \<Longrightarrow> E e"
  by simp

section \<open>Checked arithmetic of \<open>usize\<close>\<close>

definition usize_max :: nat where
  "usize_max = 2 ^ 64 - 1"

definition checked_add :: "nat \<Rightarrow> nat \<Rightarrow> nat option" where
  "checked_add a b = (if a + b \<le> usize_max then Some (a + b) else None)"

definition checked_mul :: "nat \<Rightarrow> nat \<Rightarrow> nat option" where
  "checked_mul a b = (if a * b \<le> usize_max then Some (a * b) else None)"

lemma checked_add_Some: "checked_add a b = Some c \<longleftrightarrow> c = a + b \<and> a + b \<le> usize_max"
  by (auto simp: checked_add_def)

lemma checked_mul_Some: "checked_mul a b = Some c \<longleftrightarrow> c = a * b \<and> a * b \<le> usize_max"
  by (auto simp: checked_mul_def)

section \<open>The largest element of a list, or 0\<close>

definition max_list0 :: "nat list \<Rightarrow> nat" where
  "max_list0 xs = fold max xs 0"

lemma max_list0_le: "max_list0 xs \<le> m \<longleftrightarrow> (\<forall>x \<in> set xs. x \<le> m)"
proof -
  have "fold max xs a \<le> m \<longleftrightarrow> a \<le> m \<and> (\<forall>x \<in> set xs. x \<le> m)" for a
    by (induction xs arbitrary: a) auto
  then show ?thesis by (simp add: max_list0_def)
qed

lemma max_list0_ge: "x \<in> set xs \<Longrightarrow> x \<le> max_list0 xs"
  using max_list0_le [of xs "max_list0 xs"] by simp

section \<open>Insertion-ordered maps\<close>

text \<open>
  \<open>IndexMap::insert\<close> replaces the value in place when the key is present and appends the
  entry otherwise; \<open>get\<close> finds the entry of a key.
\<close>

type_synonym ('k, 'v) index_map = "('k \<times> 'v) list"

primrec im_insert :: "'k \<Rightarrow> 'v \<Rightarrow> ('k, 'v) index_map \<Rightarrow> ('k, 'v) index_map" where
  "im_insert k v [] = [(k, v)]"
| "im_insert k v (e # es) = (if fst e = k then (k, v) # es else e # im_insert k v es)"

definition im_get :: "('k, 'v) index_map \<Rightarrow> 'k \<Rightarrow> 'v option" where
  "im_get m k = map_of m k"

definition im_keys :: "('k, 'v) index_map \<Rightarrow> 'k list" where
  "im_keys m = map fst m"

text \<open>
  What a client of a keyed map relies on. \<open>put_all\<close> is the loop that inserts every entry of
  a layer; the laws say that the last write of a key wins and that keys keep the position of
  their first write.
\<close>

locale keyed_map =
  fixes empty :: 'm
    and insert :: "'k \<Rightarrow> 'v \<Rightarrow> 'm \<Rightarrow> 'm"
    and get :: "'m \<Rightarrow> 'k \<Rightarrow> 'v option"
    and keys :: "'m \<Rightarrow> 'k list"
  assumes get_empty: "get empty k = None"
    and get_insert: "get (insert k v m) k' = (if k' = k then Some v else get m k')"
    and keys_empty: "keys empty = []"
    and keys_insert: "keys (insert k v m) = (if k \<in> set (keys m) then keys m else keys m @ [k])"
    and get_keys: "get m k = None \<longleftrightarrow> k \<notin> set (keys m)"
begin

definition put_all :: "('k \<times> 'v) list \<Rightarrow> 'm \<Rightarrow> 'm" where
  "put_all es m = fold (\<lambda>(k, v). insert k v) es m"

lemma put_all_Nil: "put_all [] m = m"
  by (simp add: put_all_def)

lemma put_all_Cons: "put_all ((k, v) # es) m = put_all es (insert k v m)"
  by (simp add: put_all_def)

lemma put_all_append: "put_all (es @ fs) m = put_all fs (put_all es m)"
  by (simp add: put_all_def)

lemma get_put_all:
  "get (put_all es m) k = (case map_of (rev es) k of None \<Rightarrow> get m k | Some v \<Rightarrow> Some v)"
  by (induction es arbitrary: m)
     (auto simp: put_all_Nil put_all_Cons get_insert map_add_def split: option.splits)

lemma keys_put_all_prefix: "\<exists>ks. keys (put_all es m) = keys m @ ks"
proof (induction es arbitrary: m)
  case Nil
  then show ?case by (simp add: put_all_Nil)
next
  case (Cons e es)
  obtain k v where e: "e = (k, v)" by (cases e)
  obtain ks where "keys (put_all es (insert k v m)) = keys (insert k v m) @ ks"
    using Cons.IH by blast
  then show ?case by (auto simp: e put_all_Cons keys_insert)
qed

lemma distinct_keys_put_all: "distinct (keys m) \<Longrightarrow> distinct (keys (put_all es m))"
proof (induction es arbitrary: m)
  case Nil
  then show ?case by (simp add: put_all_Nil)
next
  case (Cons e es)
  obtain k v where e: "e = (k, v)" by (cases e)
  have "distinct (keys (insert k v m))"
    using Cons.prems by (simp add: keys_insert)
  then show ?case by (simp add: e put_all_Cons Cons.IH)
qed

end

lemma im_empty [simp]: "im_keys [] = []" "im_get [] k = None"
  by (simp_all add: im_keys_def im_get_def)

lemma im_get_insert: "im_get (im_insert k v m) k' = (if k' = k then Some v else im_get m k')"
  by (induction m) (auto simp: im_get_def)

lemma im_keys_insert:
  "im_keys (im_insert k v m) = (if k \<in> set (im_keys m) then im_keys m else im_keys m @ [k])"
  by (induction m) (auto simp: im_keys_def)

lemma im_get_keys: "im_get m k = None \<longleftrightarrow> k \<notin> set (im_keys m)"
  by (simp add: im_get_def im_keys_def map_of_eq_None_iff)

interpretation im: keyed_map "[]" im_insert im_get im_keys
  by unfold_locales
     (simp_all add: im_get_insert im_keys_insert im_get_keys)

lemma im_insert_fresh: "k \<notin> set (im_keys m) \<Longrightarrow> im_insert k v m = m @ [(k, v)]"
  by (induction m) (auto simp: im_keys_def)

text \<open>Inserting every entry of another map, in its order.\<close>

definition im_put_all :: "('k \<times> 'v) list \<Rightarrow> ('k, 'v) index_map \<Rightarrow> ('k, 'v) index_map" where
  "im_put_all es m = fold (\<lambda>(k, v). im_insert k v) es m"

lemma im_put_all_eq: "im_put_all = im.put_all"
  by (intro ext) (simp add: im_put_all_def im.put_all_def)

lemma im_get_put_all:
  assumes "distinct (im_keys es)"
  shows "im_get (im_put_all es m) k = (case im_get es k of None \<Rightarrow> im_get m k | Some v \<Rightarrow> Some v)"
proof -
  have "map_of (rev es) = map_of es"
    using assms by (subst map_of_inject_set) (simp_all add: im_keys_def rev_map [symmetric])
  then show ?thesis unfolding im_put_all_eq im.get_put_all by (simp add: im_get_def)
qed

end
