(* ===== verification/Rust_Text.thy ===== *)
theory Rust_Text
  imports Prelude
begin

text \<open>
  Rust strings. A \<open>String\<close> is the list of its Unicode scalar values, so that offsets of
  \<open>chars()\<close>, UTF-16 lengths and UTF-8 lengths are all computable from it. The operations
  are those of \<open>core::str\<close> and \<open>core::char\<close> that the sources call. The full Unicode
  uppercase table (\<open>char::to_uppercase\<close>) is data rather than logic: the definitions that
  need it take it as an argument of type \<open>casing\<close>.
\<close>

type_synonym uchar = nat
type_synonym ustr = "uchar list"
type_synonym casing = "uchar \<Rightarrow> ustr"

definition lit :: "string \<Rightarrow> ustr" where
  "lit s = map of_char s"

abbreviation cp :: "char \<Rightarrow> uchar" where
  "cp c \<equiv> of_char c"

lemma lit_inj [simp]: "lit a = lit b \<longleftrightarrow> a = b"
proof -
  have "inj (of_char :: char \<Rightarrow> nat)"
    by (rule injI) (metis char_of_char)
  then show ?thesis
    by (simp add: lit_def inj_map_eq_map)
qed

lemma lit_Nil [simp]: "lit [] = []" "lit s = [] \<longleftrightarrow> s = []"
  by (simp_all add: lit_def)

lemma length_lit [simp]: "length (lit s) = length s"
  by (simp add: lit_def)

lemma lit_append: "lit (a @ b) = lit a @ lit b"
  by (simp add: lit_def)

section \<open>Character classes\<close>

definition is_ascii_digit :: "uchar \<Rightarrow> bool" where
  "is_ascii_digit c \<longleftrightarrow> 48 \<le> c \<and> c \<le> 57"

definition is_ascii_alphabetic :: "uchar \<Rightarrow> bool" where
  "is_ascii_alphabetic c \<longleftrightarrow> (65 \<le> c \<and> c \<le> 90) \<or> (97 \<le> c \<and> c \<le> 122)"

definition is_ascii_alphanumeric :: "uchar \<Rightarrow> bool" where
  "is_ascii_alphanumeric c \<longleftrightarrow> is_ascii_alphabetic c \<or> is_ascii_digit c"

definition is_ascii_hexdigit :: "uchar \<Rightarrow> bool" where
  "is_ascii_hexdigit c \<longleftrightarrow> is_ascii_digit c \<or> (65 \<le> c \<and> c \<le> 70) \<or> (97 \<le> c \<and> c \<le> 102)"

text \<open>\<open>char::is_whitespace\<close>: the 25 code points of the \<open>White_Space\<close> property.\<close>

definition is_whitespace :: "uchar \<Rightarrow> bool" where
  "is_whitespace c \<longleftrightarrow> (9 \<le> c \<and> c \<le> 13) \<or> c = 32 \<or> c = 133 \<or> c = 160 \<or> c = 5760 \<or>
     (8192 \<le> c \<and> c \<le> 8202) \<or> c = 8232 \<or> c = 8233 \<or> c = 8239 \<or> c = 8287 \<or> c = 12288"

definition ascii_lower :: "uchar \<Rightarrow> uchar" where
  "ascii_lower c = (if 65 \<le> c \<and> c \<le> 90 then c + 32 else c)"

definition to_ascii_lowercase :: "ustr \<Rightarrow> ustr" where
  "to_ascii_lowercase s = map ascii_lower s"

definition eq_ignore_ascii_case :: "ustr \<Rightarrow> ustr \<Rightarrow> bool" where
  "eq_ignore_ascii_case a b \<longleftrightarrow> to_ascii_lowercase a = to_ascii_lowercase b"

lemmas char_class_defs [std_defs] = is_ascii_digit_def is_ascii_alphabetic_def
  is_ascii_alphanumeric_def is_ascii_hexdigit_def is_whitespace_def

lemma ascii_lower_idem [simp]: "ascii_lower (ascii_lower c) = ascii_lower c"
  by (simp add: ascii_lower_def)

lemma to_ascii_lowercase_idem [simp]:
  "to_ascii_lowercase (to_ascii_lowercase s) = to_ascii_lowercase s"
  by (simp add: to_ascii_lowercase_def)

lemma eq_ignore_ascii_case_equiv:
  "eq_ignore_ascii_case a a"
  "eq_ignore_ascii_case a b \<Longrightarrow> eq_ignore_ascii_case b a"
  "eq_ignore_ascii_case a b \<Longrightarrow> eq_ignore_ascii_case b c \<Longrightarrow> eq_ignore_ascii_case a c"
  by (auto simp: eq_ignore_ascii_case_def)

section \<open>Encodings\<close>

definition utf16_units :: "uchar \<Rightarrow> nat list" where
  "utf16_units c = (if c < 65536 then [c]
     else [55296 + (c - 65536) div 1024, 56320 + (c - 65536) mod 1024])"

definition encode_utf16 :: "ustr \<Rightarrow> nat list" where
  "encode_utf16 s = concat (map utf16_units s)"

definition len_utf16 :: "uchar \<Rightarrow> nat" where
  "len_utf16 c = (if c < 65536 then 1 else 2)"

definition len_utf8 :: "uchar \<Rightarrow> nat" where
  "len_utf8 c = (if c < 128 then 1 else if c < 2048 then 2 else if c < 65536 then 3 else 4)"

definition str_len :: "ustr \<Rightarrow> nat" where
  "str_len s = sum_list (map len_utf8 s)"

lemma length_encode_utf16: "length (encode_utf16 s) = sum_list (map len_utf16 s)"
  by (induction s) (auto simp: encode_utf16_def utf16_units_def len_utf16_def)

text \<open>Unicode scalar values: code points that are not surrogates.\<close>

definition is_scalar :: "uchar \<Rightarrow> bool" where
  "is_scalar c \<longleftrightarrow> c < 55296 \<or> (57344 \<le> c \<and> c < 1114112)"

definition valid_str :: "ustr \<Rightarrow> bool" where
  "valid_str s \<longleftrightarrow> list_all is_scalar s"

definition valid_casing :: "casing \<Rightarrow> bool" where
  "valid_casing up \<longleftrightarrow> (\<forall>c. is_scalar c \<longrightarrow> valid_str (up c))"

lemma utf16_units_inj:
  assumes "is_scalar c" "is_scalar d" "utf16_units c @ xs = utf16_units d @ ys"
  shows "c = d \<and> xs = ys"
proof -
  have "c = d" if "(c - 65536) div 1024 = (d - 65536) div 1024"
    "(c - 65536) mod 1024 = (d - 65536) mod 1024" "\<not> c < 65536" "\<not> d < 65536"
  proof -
    have "c - 65536 = d - 65536" using that(1,2) by (metis mult_div_mod_eq)
    with that(3,4) show ?thesis by simp
  qed
  moreover have "(c - 65536) div 1024 < 1024" "(d - 65536) div 1024 < 1024"
    using assms(1,2) by (auto simp: is_scalar_def less_mult_imp_div_less)
  ultimately show ?thesis
    using assms by (auto simp: utf16_units_def is_scalar_def split: if_splits)
qed

lemma encode_utf16_inj:
  "valid_str a \<Longrightarrow> valid_str b \<Longrightarrow> encode_utf16 a = encode_utf16 b \<Longrightarrow> a = b"
proof (induction a arbitrary: b)
  case Nil
  then show ?case by (cases b) (auto simp: encode_utf16_def utf16_units_def split: if_splits)
next
  case (Cons c a)
  then obtain d b' where b: "b = d # b'"
    by (cases b) (auto simp: encode_utf16_def utf16_units_def split: if_splits)
  have "c = d \<and> encode_utf16 a = encode_utf16 b'"
    using Cons.prems by (intro utf16_units_inj) (auto simp: b valid_str_def encode_utf16_def)
  with Cons b show ?case by (auto simp: valid_str_def)
qed

lemma str_len_append [simp]: "str_len (a @ b) = str_len a + str_len b"
  by (simp add: str_len_def)

lemma length_le_str_len: "length s \<le> str_len s"
  by (induction s) (auto simp: str_len_def len_utf8_def)

section \<open>Prefixes, suffixes, substrings\<close>

definition strip_prefix :: "ustr \<Rightarrow> ustr \<Rightarrow> ustr option" where
  "strip_prefix p s = (if prefix p s then Some (drop (length p) s) else None)"

definition strip_suffix :: "ustr \<Rightarrow> ustr \<Rightarrow> ustr option" where
  "strip_suffix p s = (if suffix p s then Some (take (length s - length p) s) else None)"

definition str_contains :: "ustr \<Rightarrow> ustr \<Rightarrow> bool" where
  "str_contains s p \<longleftrightarrow> sublist p s"

definition trim :: "ustr \<Rightarrow> ustr" where
  "trim s = rev (dropWhile is_whitespace (rev (dropWhile is_whitespace s)))"

lemma strip_prefix_Some: "strip_prefix p s = Some r \<longleftrightarrow> s = p @ r"
  by (auto simp: strip_prefix_def prefix_def)

lemma strip_suffix_Some: "strip_suffix p s = Some r \<longleftrightarrow> s = r @ p"
  by (auto simp: strip_suffix_def suffix_def)

lemma trim_Nil [simp]: "trim [] = []"
  by (simp add: trim_def)

lemma trim_id:
  assumes "s \<noteq> []" "\<not> is_whitespace (hd s)" "\<not> is_whitespace (last s)"
  shows "trim s = s"
proof -
  have a: "dropWhile is_whitespace s = s"
    using assms(1,2) by (cases s) auto
  have b: "dropWhile is_whitespace (rev s) = rev s"
    using assms(1,3) by (cases s rule: rev_cases) auto
  show ?thesis by (simp add: trim_def a b)
qed

text \<open>\<open>str::split_once\<close> with a string pattern: around the first occurrence.\<close>

fun split_once :: "ustr \<Rightarrow> ustr \<Rightarrow> (ustr \<times> ustr) option" where
  "split_once p [] = (if p = [] then Some ([], []) else None)"
| "split_once p (c # cs) = (if prefix p (c # cs) then Some ([], drop (length p) (c # cs))
     else map_option (\<lambda>(a, b). (c # a, b)) (split_once p cs))"

lemma split_once_Some: "split_once p s = Some (a, b) \<Longrightarrow> s = a @ p @ b"
  by (induction p s arbitrary: a rule: split_once.induct)
     (auto simp: prefix_def split: if_splits)

lemma split_once_None: "split_once p s = None \<longleftrightarrow> \<not> sublist p s"
  by (induction p s rule: split_once.induct) (auto simp: sublist_Cons_right)

lemma split_once_char_first:
  "split_once [x] s = Some (a, b) \<Longrightarrow> x \<notin> set a"
  by (induction "[x]" s arbitrary: a rule: split_once.induct) (auto split: if_splits)

lemma split_once_char_iff:
  "split_once [x] s = Some (a, b) \<longleftrightarrow> s = a @ x # b \<and> x \<notin> set a"
proof
  assume "split_once [x] s = Some (a, b)"
  then show "s = a @ x # b \<and> x \<notin> set a"
    using split_once_Some split_once_char_first by fastforce
next
  assume "s = a @ x # b \<and> x \<notin> set a"
  then show "split_once [x] s = Some (a, b)"
    by (induction a arbitrary: s) auto
qed

section \<open>Replacement, lines, joining\<close>

text \<open>\<open>str::replace\<close> with a non-empty pattern: leftmost, non-overlapping occurrences.\<close>

function str_replace :: "ustr \<Rightarrow> ustr \<Rightarrow> ustr \<Rightarrow> ustr" where
  "str_replace p t s = (case s of [] \<Rightarrow> [] | c # cs \<Rightarrow>
     (if p \<noteq> [] \<and> prefix p s then t @ str_replace p t (drop (length p) s)
      else c # str_replace p t cs))"
  by pat_completeness auto
termination
  by (relation "measure (\<lambda>(p, t, s). length s)") (auto simp: le_imp_less_Suc)

declare str_replace.simps [simp del]

lemma str_replace_Nil [simp]: "str_replace p t [] = []"
  by (simp add: str_replace.simps)

lemma str_replace_Cons:
  "str_replace p t (c # cs) = (if p \<noteq> [] \<and> prefix p (c # cs)
     then t @ str_replace p t (drop (length p) (c # cs)) else c # str_replace p t cs)"
  by (simp add: str_replace.simps [of p t "c # cs"])

lemma str_replace_absent: "\<not> sublist p s \<Longrightarrow> str_replace p t s = s"
  by (induction s) (auto simp: str_replace_Cons sublist_Cons_right)

text \<open>
  \<open>str::lines\<close>: lines end at \<open>LF\<close> or \<open>CRLF\<close>; a final line without terminator is kept
  as it is, and the empty rest after a final terminator is not a line.
\<close>

definition strip_cr :: "ustr \<Rightarrow> ustr" where
  "strip_cr l = (if l \<noteq> [] \<and> last l = 13 then butlast l else l)"

function str_lines :: "ustr \<Rightarrow> ustr list" where
  "str_lines s = (if s = [] then [] else
     (case dropWhile (\<lambda>c. c \<noteq> 10) s of
        [] \<Rightarrow> [s]
      | _ # rest \<Rightarrow> strip_cr (takeWhile (\<lambda>c. c \<noteq> 10) s) # str_lines rest))"
  by pat_completeness auto
termination
proof (relation "measure length", goal_cases)
  case (2 s x rest)
  have "length (dropWhile (\<lambda>c. c \<noteq> 10) s) \<le> length s" by (rule length_dropWhile_le)
  with 2 show ?case by simp
qed simp

declare str_lines.simps [simp del]

lemma str_lines_Nil [simp]: "str_lines [] = []"
  by (simp add: str_lines.simps)

lemma str_lines_line:
  assumes "10 \<notin> set l"
  shows "str_lines (l @ 10 # rest) = strip_cr l # str_lines rest"
proof -
  have "dropWhile (\<lambda>c. c \<noteq> 10) (l @ 10 # rest) = 10 # rest"
    "takeWhile (\<lambda>c. c \<noteq> 10) (l @ 10 # rest) = l"
    using assms by (auto simp: dropWhile_append takeWhile_append)
  then show ?thesis by (simp add: str_lines.simps [of "l @ 10 # rest"])
qed

lemma str_lines_no_nl: "l \<in> set (str_lines s) \<Longrightarrow> 10 \<notin> set l"
proof (induction s rule: str_lines.induct)
  case (1 s)
  have strip: "set (strip_cr l') \<subseteq> set l'" for l'
    by (auto simp: strip_cr_def dest: in_set_butlastD)
  from 1 strip [of "takeWhile (\<lambda>c. c \<noteq> 10) s"] show ?case
    by (subst (asm) str_lines.simps)
       (fastforce simp: dropWhile_eq_Nil_conv dest: set_takeWhileD
          split: if_splits list.splits)
qed

fun join_with :: "ustr \<Rightarrow> ustr list \<Rightarrow> ustr" where
  "join_with sep [] = []"
| "join_with sep [x] = x"
| "join_with sep (x # xs) = x @ sep @ join_with sep xs"

text \<open>\<open>str::split\<close> with a character: the pieces between its occurrences, empty ones too.\<close>

fun split_char :: "uchar \<Rightarrow> ustr \<Rightarrow> ustr list" where
  "split_char x [] = [[]]"
| "split_char x (c # s) = (if c = x then [] # split_char x s
     else (case split_char x s of [] \<Rightarrow> [[c]] | l # ls \<Rightarrow> (c # l) # ls))"

lemma split_char_not_Nil [simp]: "split_char x s \<noteq> []"
  by (induction s) (auto split: list.splits)

lemma split_char_none: "x \<notin> set s \<Longrightarrow> split_char x s = [s]"
  by (induction s) auto

lemma split_char_append: "x \<notin> set a \<Longrightarrow> split_char x (a @ x # b) = a # split_char x b"
  by (induction a) auto

lemma split_char_pieces: "l \<in> set (split_char x s) \<Longrightarrow> x \<notin> set l"
  by (induction s arbitrary: l) (fastforce split: list.splits if_splits)+

lemma join_split_char: "join_with [x] (split_char x s) = s"
proof (induction s)
  case (Cons c s)
  then show ?case
    by (cases "split_char x s"; cases "tl (split_char x s)") (auto split: list.splits)
qed simp

lemma split_join_with:
  "ls \<noteq> [] \<Longrightarrow> \<forall>l \<in> set ls. x \<notin> set l \<Longrightarrow> split_char x (join_with [x] ls) = ls"
  by (induction ls rule: induct_list012) (simp_all add: split_char_none split_char_append)

text \<open>\<open>str::rsplit_once\<close> with a character: around its last occurrence.\<close>

definition rsplit_once :: "uchar \<Rightarrow> ustr \<Rightarrow> (ustr \<times> ustr) option" where
  "rsplit_once x s = (case split_once [x] (rev s) of
     None \<Rightarrow> None | Some (a, b) \<Rightarrow> Some (rev b, rev a))"

lemma rsplit_once_iff: "rsplit_once x s = Some (a, b) \<longleftrightarrow> s = a @ x # b \<and> x \<notin> set b"
proof -
  have "rsplit_once x s = Some (a, b) \<longleftrightarrow> split_once [x] (rev s) = Some (rev b, rev a)"
    by (auto simp: rsplit_once_def split: option.splits)
  also have "\<dots> \<longleftrightarrow> rev s = rev b @ x # rev a \<and> x \<notin> set b"
    by (simp add: split_once_char_iff)
  also have "\<dots> \<longleftrightarrow> s = a @ x # b \<and> x \<notin> set b"
    by (metis append.assoc append_Cons append_Nil rev.simps(2) rev_append rev_rev_ident)
  finally show ?thesis .
qed

section \<open>Decimal numerals\<close>

definition digit_char :: "nat \<Rightarrow> uchar" where
  "digit_char d = 48 + d"

fun dec_string :: "nat \<Rightarrow> ustr" where
  "dec_string n = (if n < 10 then [digit_char n] else dec_string (n div 10) @ [digit_char (n mod 10)])"

declare dec_string.simps [simp del]

definition dec_value :: "ustr \<Rightarrow> nat" where
  "dec_value s = foldl (\<lambda>a c. 10 * a + (c - 48)) 0 s"

lemma dec_value_snoc: "dec_value (s @ [c]) = 10 * dec_value s + (c - 48)"
  by (simp add: dec_value_def)

lemma dec_value_dec_string [simp]: "dec_value (dec_string n) = n"
proof (induction n rule: dec_string.induct)
  case (1 n)
  show ?case
  proof (cases "n < 10")
    case True
    then show ?thesis by (simp add: dec_string.simps [of n] dec_value_def digit_char_def)
  next
    case False
    with 1 have "dec_value (dec_string (n div 10)) = n div 10" by simp
    with False show ?thesis
      by (simp add: dec_string.simps [of n] dec_value_snoc digit_char_def)
  qed
qed

lemma dec_string_digits: "c \<in> set (dec_string n) \<Longrightarrow> is_ascii_digit c"
proof (induction n rule: dec_string.induct)
  case (1 n)
  then show ?case
    by (subst (asm) dec_string.simps)
       (auto simp: digit_char_def is_ascii_digit_def split: if_splits)
qed

lemma dec_string_not_Nil [simp]: "dec_string n \<noteq> []"
  by (subst dec_string.simps) simp

text \<open>An upper-casing for examples.\<close>

definition ascii_upper :: casing where
  "ascii_upper c = [if 97 \<le> c \<and> c \<le> 122 then c - 32 else c]"

end
