(* ===== verification/F64.thy ===== *)
theory F64
  imports Rust_Text
begin

text \<open>
  Rust's \<open>f64\<close>. A value is not-a-number, an infinity, or a sign with a non-negative
  rational magnitude (so that the two zeros differ); the finite values a program can reach are
  those that rounding to 53 significant bits produces. Parsing (\<open>str::parse::<f64>\<close>) and the
  \<open>{:.14e}\<close> formatting are correctly rounded, ties to even, as in the standard library.
\<close>

datatype f64 = NaN | Infinite bool | Finite bool rat

fun f64_neg_sign :: "f64 \<Rightarrow> bool" where
  "f64_neg_sign (Finite s _) = s"
| "f64_neg_sign (Infinite s) = s"
| "f64_neg_sign NaN = False"

definition is_nan :: "f64 \<Rightarrow> bool" where
  "is_nan x \<longleftrightarrow> x = NaN"

definition signed :: "bool \<Rightarrow> rat \<Rightarrow> rat" where
  "signed s m = (if s then - m else m)"

text \<open>IEEE comparison: false whenever an operand is not a number, and \<open>0 = -0\<close>.\<close>

fun f64_eq :: "f64 \<Rightarrow> f64 \<Rightarrow> bool" where
  "f64_eq (Finite s m) (Finite t n) = (signed s m = signed t n)"
| "f64_eq (Infinite s) (Infinite t) = (s = t)"
| "f64_eq _ _ = False"

fun f64_less :: "f64 \<Rightarrow> f64 \<Rightarrow> bool" where
  "f64_less (Finite s m) (Finite t n) = (signed s m < signed t n)"
| "f64_less (Infinite s) (Infinite t) = (s \<and> \<not> t)"
| "f64_less (Infinite s) (Finite _ _) = s"
| "f64_less (Finite _ _) (Infinite t) = (\<not> t)"
| "f64_less _ _ = False"

definition f64_of_int :: "int \<Rightarrow> f64" where
  "f64_of_int i = Finite (i < 0) (of_int \<bar>i\<bar>)"

definition f64_of_nat :: "nat \<Rightarrow> f64" where
  "f64_of_nat n = Finite False (of_nat n)"

lemma f64_eq_sym: "f64_eq x y = f64_eq y x"
  by (cases x; cases y) auto

lemma f64_eq_trans: "f64_eq x y \<Longrightarrow> f64_eq y z \<Longrightarrow> f64_eq x z"
  by (cases x; cases y; cases z) auto

lemma f64_less_irrefl [simp]: "\<not> f64_less x x"
  by (cases x) auto

lemma f64_less_trans: "f64_less x y \<Longrightarrow> f64_less y z \<Longrightarrow> f64_less x z"
  by (cases x; cases y; cases z) auto

lemma f64_trichotomy:
  "x \<noteq> NaN \<Longrightarrow> y \<noteq> NaN \<Longrightarrow> f64_less x y \<or> f64_eq x y \<or> f64_less y x"
  by (cases x; cases y) auto

lemma f64_less_not_eq: "f64_less x y \<Longrightarrow> \<not> f64_eq x y"
  by (cases x; cases y) auto

lemma f64_NaN [simp]: "\<not> f64_eq NaN x" "\<not> f64_eq x NaN" "\<not> f64_less NaN x" "\<not> f64_less x NaN"
  by (cases x; simp)+

section \<open>Rounding to binary64\<close>

fun bit_length :: "nat \<Rightarrow> nat" where
  "bit_length n = (if n = 0 then 0 else Suc (bit_length (n div 2)))"

declare bit_length.simps [simp del]

definition pow2 :: "int \<Rightarrow> rat" where
  "pow2 e = (if 0 \<le> e then 2 ^ nat e else 1 / 2 ^ nat (- e))"

definition pow10 :: "int \<Rightarrow> rat" where
  "pow10 e = (if 0 \<le> e then 10 ^ nat e else 1 / 10 ^ nat (- e))"

definition round_half_even :: "rat \<Rightarrow> int" where
  "round_half_even q = (let f = \<lfloor>q\<rfloor>; r = q - of_int f in
     if r < 1 / 2 then f else if 1 / 2 < r then f + 1 else if even f then f else f + 1)"

text \<open>
  The exponent of the last of 53 significant bits of a positive rational; subnormal numbers
  share the least one.
\<close>

definition ulp_exp :: "rat \<Rightarrow> int" where
  "ulp_exp q = (let (n, d) = quotient_of q;
       k = int (bit_length (nat n)) - int (bit_length (nat d)) - 53
     in max (- 1074) (if 2 ^ 53 \<le> q / pow2 k then k + 1 else k))"

definition round_f64 :: "bool \<Rightarrow> rat \<Rightarrow> f64" where
  "round_f64 s q = (if q = 0 then Finite s 0 else
     (let e = ulp_exp q; m = of_int (round_half_even (q / pow2 e)) * pow2 e in
      if 2 ^ 1024 \<le> m then Infinite s else Finite s m))"

lemma round_half_even_of_int [simp]: "round_half_even (of_int i) = i"
  by (simp add: round_half_even_def Let_def)

lemma bit_length_bounds: "0 < n \<Longrightarrow> 2 ^ (bit_length n - 1) \<le> n \<and> n < 2 ^ bit_length n"
proof (induction n rule: bit_length.induct)
  case (1 n)
  show ?case
  proof (cases "n div 2 = 0")
    case True
    with 1 have "n = 1" by auto
    then show ?thesis by (simp add: bit_length.simps [of "Suc 0"] bit_length.simps [of 0])
  next
    case False
    with 1 have "2 ^ (bit_length (n div 2) - 1) \<le> n div 2" "n div 2 < 2 ^ bit_length (n div 2)"
      by auto
    moreover from False have "bit_length (n div 2) \<noteq> 0"
      by (simp add: bit_length.simps [of "n div 2"])
    ultimately show ?thesis using 1(2)
      by (cases "bit_length (n div 2)") (auto simp: bit_length.simps [of n])
  qed
qed

lemma pow2_pos [simp]: "0 < pow2 e"
  by (simp add: pow2_def)

text \<open>Integers of at most 53 bits are represented exactly.\<close>

lemma round_f64_of_nat:
  assumes "n < 2 ^ 53"
  shows "round_f64 s (of_nat n) = Finite s (of_nat n)"
proof (cases "n = 0")
  case True
  then show ?thesis by (simp add: round_f64_def)
next
  case False
  define b where "b = bit_length n"
  have lo: "2 ^ (b - 1) \<le> n" and hi: "n < 2 ^ b"
    using False bit_length_bounds [of n] by (auto simp: b_def)
  have bpos: "0 < b" using False by (simp add: b_def bit_length.simps [of n])
  have ble: "b \<le> 53"
  proof (rule ccontr)
    assume "\<not> b \<le> 53"
    then have "(2::nat) ^ 53 \<le> 2 ^ (b - 1)" by (intro power_increasing) auto
    with lo assms show False by simp
  qed
  have q: "quotient_of (of_nat n) = (int n, 1)"
    by (simp add: of_nat_rat quotient_of_Fract normalize_def)
  have b1: "bit_length (Suc 0) = 1"
    by (simp add: bit_length.simps [of "Suc 0"] bit_length.simps [of 0])
  define k where "k = int b - 1 - 53"
  have p: "pow2 k = 1 / 2 ^ (54 - b)"
    using ble by (simp add: pow2_def k_def nat_diff_distrib)
  have "(2::rat) ^ 53 = 2 ^ (b - 1) * 2 ^ (54 - b)"
    using bpos ble by (simp flip: power_add)
  also have "\<dots> \<le> of_nat n * 2 ^ (54 - b)"
    using lo by (simp flip: of_nat_power [of 2, simplified] add: of_nat_le_iff)
  finally have ge: "2 ^ 53 \<le> (of_nat n :: rat) / pow2 k" by (simp add: p)
  have u: "ulp_exp (of_nat n) = int b - 53"
    using ge ble by (simp add: ulp_exp_def q Let_def b1 k_def b_def)
  have p2: "pow2 (int b - 53) = 1 / 2 ^ (53 - b)"
    using ble by (cases "b = 53") (auto simp: pow2_def nat_diff_distrib)
  have i: "(of_nat n :: rat) / pow2 (int b - 53) = of_int (int n * 2 ^ (53 - b))"
    by (simp add: p2)
  have m: "of_int (int n * 2 ^ (53 - b)) * pow2 (int b - 53) = (of_nat n :: rat)"
    by (simp add: p2)
  have "(of_nat n :: rat) < of_nat (2 ^ 53)" using assms by (simp only: of_nat_less_iff)
  also have "\<dots> \<le> 2 ^ 1024" by simp
  finally have small: "\<not> (2 ^ 1024 \<le> (of_nat n :: rat))" by simp
  show ?thesis
    using False small
    unfolding round_f64_def u Let_def i round_half_even_of_int m by simp
qed

section \<open>Parsing decimal literals\<close>

text \<open>
  \<open>f64::from_str\<close> on texts without the words for infinity and not-a-number: an optional
  sign, digits with at most one point and at least one digit, an optional exponent.
\<close>

definition take_sign :: "ustr \<Rightarrow> bool \<times> ustr" where
  "take_sign s = (case s of c # cs \<Rightarrow> (if c = cp CHR ''-'' then (True, cs)
     else if c = cp CHR ''+'' then (False, cs) else (False, s)) | [] \<Rightarrow> (False, []))"

definition split_digits :: "ustr \<Rightarrow> ustr \<times> ustr" where
  "split_digits s = (takeWhile is_ascii_digit s, dropWhile is_ascii_digit s)"

definition parse_exponent :: "ustr \<Rightarrow> int option" where
  "parse_exponent s = (case s of [] \<Rightarrow> Some 0 | c # cs \<Rightarrow>
     (if c = cp CHR ''e'' \<or> c = cp CHR ''E'' then
        (let (neg, ds) = take_sign cs in
         if ds \<noteq> [] \<and> list_all is_ascii_digit ds
         then Some (if neg then - int (dec_value ds) else int (dec_value ds)) else None)
      else None))"

definition parse_decimal :: "ustr \<Rightarrow> f64 option" where
  "parse_decimal s =
     (let (neg, body) = take_sign s;
          (ip, r1) = split_digits body;
          (fp, r2) = (case r1 of c # cs \<Rightarrow> if c = cp CHR ''.'' then split_digits cs else ([], r1)
                      | [] \<Rightarrow> ([], []))
      in if ip @ fp = [] then None
         else map_option (\<lambda>e. round_f64 neg
                (of_nat (dec_value (ip @ fp)) * pow10 (e - int (length fp)))) (parse_exponent r2))"

text \<open>\<open>i32::from_str_radix\<close> on digits of the radix: the value, or an error past \<open>i32::MAX\<close>.\<close>

definition radix_digit :: "uchar \<Rightarrow> nat" where
  "radix_digit c = (if is_ascii_digit c then c - 48 else if 97 \<le> c then c - 87 else c - 55)"

definition i32_from_str_radix :: "ustr \<Rightarrow> nat \<Rightarrow> nat option" where
  "i32_from_str_radix s r = (let n = foldl (\<lambda>a c. r * a + radix_digit c) 0 s in
     if n \<le> 2147483647 then Some n else None)"

lemma split_digits_all: "list_all is_ascii_digit s \<Longrightarrow> split_digits s = (s, [])"
  by (simp add: split_digits_def takeWhile_eq_all_conv dropWhile_eq_Nil_conv list_all_iff)

lemma take_sign_digit: "s = [] \<or> is_ascii_digit (hd s) \<Longrightarrow> take_sign s = (False, s)"
  by (cases s) (auto simp: take_sign_def is_ascii_digit_def)

lemma parse_decimal_dec_string:
  assumes "n < 2 ^ 53"
  shows "parse_decimal (dec_string n) = Some (f64_of_nat n)"
    and "parse_decimal (cp CHR ''-'' # dec_string n) = Some (Finite True (of_nat n))"
proof -
  have d: "list_all is_ascii_digit (dec_string n)"
    by (auto simp: list_all_iff dest: dec_string_digits)
  then have h: "is_ascii_digit (hd (dec_string n))"
    by (simp add: list_all_iff)
  note facts = split_digits_all [OF d] round_f64_of_nat [OF assms]
  show "parse_decimal (dec_string n) = Some (f64_of_nat n)"
    using h by (simp add: parse_decimal_def take_sign_digit facts parse_exponent_def pow10_def
        f64_of_nat_def)
  have "take_sign (cp CHR ''-'' # dec_string n) = (True, dec_string n)"
    by (simp add: take_sign_def)
  then show "parse_decimal (cp CHR ''-'' # dec_string n) = Some (Finite True (of_nat n))"
    by (simp add: parse_decimal_def facts parse_exponent_def pow10_def)
qed

section \<open>Formatting in scientific notation\<close>

text \<open>
  \<open>format!("{:.14e}", x)\<close> for a positive finite number: fifteen significant digits and the
  decimal exponent of the first of them.
\<close>

definition dec_exp :: "rat \<Rightarrow> int" where
  "dec_exp q = (let (n, d) = quotient_of q;
       k = int (length (dec_string (nat n))) - int (length (dec_string (nat d)))
     in if pow10 k \<le> q then k else k - 1)"

definition sci15 :: "rat \<Rightarrow> ustr \<times> int" where
  "sci15 q = (let p = dec_exp q; m = nat (round_half_even (q / pow10 (p - 14))) in
     if m = 10 ^ 15 then (dec_string (10 ^ 14), p + 1) else (dec_string m, p))"

end
