(* ===== verification/Value.thy ===== *)
theory Value
  imports F64
begin

text \<open>
  The six-kind runtime value of an expression (\<open>greenlit-expr/src/value.rs\<close>) with its
  coercions (\<open>value/coercion.rs\<close>) and comparisons (\<open>value/comparison.rs\<close>). Arrays and
  objects carry the address of their \<open>Rc\<close> allocation, because \<open>==\<close> on collections is
  reference identity. The canonical-key index of an object is proved to implement an ordered
  dictionary in which the last value and the first spelling win.
\<close>

section \<open>Values\<close>

datatype expr_value =
    VNull
  | VBool bool
  | VNumber f64
  | VString ustr
  | VArray nat "expr_value list" bool
  | VObject nat "(ustr \<times> expr_value) list" "(ustr \<times> nat) list" bool

datatype value_kind = KNull | KBoolean | KNumber | KString | KArray | KObject

fun kind :: "expr_value \<Rightarrow> value_kind" where
  "kind VNull = KNull"
| "kind (VBool _) = KBoolean"
| "kind (VNumber _) = KNumber"
| "kind (VString _) = KString"
| "kind (VArray _ _ _) = KArray"
| "kind (VObject _ _ _ _) = KObject"

definition is_primitive :: "expr_value \<Rightarrow> bool" where
  "is_primitive v \<longleftrightarrow> kind v \<noteq> KArray \<and> kind v \<noteq> KObject"

lemma is_primitive_simps [simp]:
  "is_primitive VNull" "is_primitive (VBool b)" "is_primitive (VNumber n)"
  "is_primitive (VString s)" "\<not> is_primitive (VArray rc xs f)"
  "\<not> is_primitive (VObject rc es ps cs)"
  by (simp_all add: is_primitive_def)

section \<open>Ordinal, case-insensitive keys\<close>

definition ordinal_upper :: "casing \<Rightarrow> uchar \<Rightarrow> uchar" where
  "ordinal_upper up c = (if c = 305 then c else
     (case up c of [m] \<Rightarrow> (if len_utf16 m = len_utf16 c then m else c) | _ \<Rightarrow> c))"

definition ordinal_ignore_case_key :: "casing \<Rightarrow> ustr \<Rightarrow> ustr" where
  "ordinal_ignore_case_key up s = map (ordinal_upper up) s"

definition ordinal_ignore_case_eq :: "casing \<Rightarrow> ustr \<Rightarrow> ustr \<Rightarrow> bool" where
  "ordinal_ignore_case_eq up a b \<longleftrightarrow>
     ordinal_ignore_case_key up a = ordinal_ignore_case_key up b"

definition ordinal_ignore_case_contains :: "casing \<Rightarrow> ustr \<Rightarrow> ustr \<Rightarrow> bool" where
  "ordinal_ignore_case_contains up haystack needle \<longleftrightarrow>
     str_contains (ordinal_ignore_case_key up haystack) (ordinal_ignore_case_key up needle)"

definition ordinal_ignore_case_starts_with :: "casing \<Rightarrow> ustr \<Rightarrow> ustr \<Rightarrow> bool" where
  "ordinal_ignore_case_starts_with up s p \<longleftrightarrow>
     prefix (ordinal_ignore_case_key up p) (ordinal_ignore_case_key up s)"

definition ordinal_ignore_case_ends_with :: "casing \<Rightarrow> ustr \<Rightarrow> ustr \<Rightarrow> bool" where
  "ordinal_ignore_case_ends_with up s p \<longleftrightarrow>
     suffix (ordinal_ignore_case_key up p) (ordinal_ignore_case_key up s)"

datatype ordering = Less | Equal | Greater

fun units_cmp :: "nat list \<Rightarrow> nat list \<Rightarrow> ordering" where
  "units_cmp [] [] = Equal"
| "units_cmp [] (_ # _) = Less"
| "units_cmp (_ # _) [] = Greater"
| "units_cmp (x # xs) (y # ys) =
     (if x < y then Less else if y < x then Greater else units_cmp xs ys)"

definition ordinal_ignore_case_cmp :: "casing \<Rightarrow> ustr \<Rightarrow> ustr \<Rightarrow> ordering" where
  "ordinal_ignore_case_cmp up a b =
     units_cmp (encode_utf16 (ordinal_ignore_case_key up a))
               (encode_utf16 (ordinal_ignore_case_key up b))"

lemma units_cmp_mirror: "units_cmp xs ys = Less \<longleftrightarrow> units_cmp ys xs = Greater"
  by (induction xs ys rule: units_cmp.induct) simp_all

lemma units_cmp_Equal: "units_cmp xs ys = Equal \<longleftrightarrow> xs = ys"
  by (induction xs ys rule: units_cmp.induct) auto

lemma units_cmp_trans: "units_cmp xs ys = Less \<Longrightarrow> units_cmp ys zs = Less \<Longrightarrow> units_cmp xs zs = Less"
proof (induction xs ys arbitrary: zs rule: units_cmp.induct)
  case (2 y ys)
  then show ?case by (cases zs) auto
next
  case (4 x xs y ys)
  from 4(3) obtain z zs' where zs: "zs = z # zs'" by (cases zs) auto
  from 4(2) have xy: "x < y \<or> x = y \<and> units_cmp xs ys = Less"
    by (simp split: if_split_asm)
  from 4(3) have yz: "y < z \<or> y = z \<and> units_cmp ys zs' = Less"
    by (simp add: zs split: if_split_asm)
  show ?case
  proof (cases "x < z")
    case True
    then show ?thesis by (simp add: zs)
  next
    case False
    with xy yz have "x = z" "x = y" "units_cmp xs ys = Less" "units_cmp ys zs' = Less" by auto
    with 4(1) show ?thesis by (simp add: zs)
  qed
qed simp_all

section \<open>Objects\<close>

text \<open>
  The constructor loop of \<open>ObjectValue::new\<close>: \<open>normalized\<close> is the ordered entry vector and
  \<open>positions\<close> the index from canonical keys to vector positions.
\<close>

definition lookup_key :: "casing \<Rightarrow> bool \<Rightarrow> ustr \<Rightarrow> ustr" where
  "lookup_key up case_sensitive key =
     (if case_sensitive then key else ordinal_ignore_case_key up key)"

type_synonym 'v object_state = "(ustr \<times> 'v) list \<times> (ustr \<times> nat) list"

definition object_step :: "casing \<Rightarrow> bool \<Rightarrow> ustr \<times> 'v \<Rightarrow> 'v object_state \<Rightarrow> 'v object_state" where
  "object_step up cs entry st =
     (let (key, v) = entry; (normalized, positions) = st; lk = lookup_key up cs key in
      case im_get positions lk of
        Some i \<Rightarrow> (if i < length normalized
           then (normalized[i := (fst (normalized ! i), v)], positions)
           else (normalized @ [(key, v)], im_insert lk (length normalized) positions))
      | None \<Rightarrow> (normalized @ [(key, v)], im_insert lk (length normalized) positions))"

definition object_entries :: "casing \<Rightarrow> bool \<Rightarrow> (ustr \<times> 'v) list \<Rightarrow> 'v object_state" where
  "object_entries up cs entries = fold (object_step up cs) entries ([], [])"

definition object_new :: "casing \<Rightarrow> nat \<Rightarrow> (ustr \<times> expr_value) list \<Rightarrow> bool \<Rightarrow> expr_value" where
  "object_new up rc entries cs =
     (let (normalized, positions) = object_entries up cs entries
      in VObject rc normalized positions cs)"

definition object_lookup ::
  "casing \<Rightarrow> bool \<Rightarrow> 'v object_state \<Rightarrow> ustr \<Rightarrow> 'v option" where
  "object_lookup up cs st key =
     (case im_get (snd st) (lookup_key up cs key) of
        Some i \<Rightarrow> (if i < length (fst st) then Some (snd (fst st ! i)) else None)
      | None \<Rightarrow> None)"

fun object_get :: "casing \<Rightarrow> expr_value \<Rightarrow> ustr \<Rightarrow> expr_value option" where
  "object_get up (VObject rc es ps cs) key = object_lookup up cs (es, ps) key"
| "object_get up _ key = None"

text \<open>The index invariant: position \<open>i\<close> is indexed under the canonical key of entry \<open>i\<close>.\<close>

definition canonical :: "casing \<Rightarrow> bool \<Rightarrow> (ustr \<times> 'v) list \<Rightarrow> (ustr, 'v) index_map" where
  "canonical up cs es = map (\<lambda>(k, v). (lookup_key up cs k, v)) es"

definition index_ok :: "casing \<Rightarrow> bool \<Rightarrow> 'v object_state \<Rightarrow> bool" where
  "index_ok up cs st \<longleftrightarrow>
     distinct (im_keys (canonical up cs (fst st))) \<and>
     (\<forall>k i. im_get (snd st) k = Some i \<longleftrightarrow>
        i < length (fst st) \<and> lookup_key up cs (fst (fst st ! i)) = k)"

lemma im_keys_canonical: "im_keys (canonical up cs es) = map (lookup_key up cs \<circ> fst) es"
  by (auto simp: im_keys_def canonical_def)

lemma canonical_snoc:
  "canonical up cs (es @ [(k, v)]) = canonical up cs es @ [(lookup_key up cs k, v)]"
  by (simp add: canonical_def)

lemma im_insert_at:
  assumes "distinct (im_keys m)" "i < length m" "fst (m ! i) = k"
  shows "im_insert k v m = m[i := (k, v)]"
  using assms
proof (induction m arbitrary: i)
  case (Cons e m)
  show ?case
  proof (cases i)
    case 0
    with Cons show ?thesis by simp
  next
    case (Suc j)
    with Cons.prems have "k \<in> set (im_keys m)"
      using nth_mem [of j "map fst m"] by (simp add: im_keys_def)
    then have "fst e \<noteq> k" using Cons.prems(1) by (auto simp: im_keys_def)
    with Suc Cons show ?thesis by (simp add: im_keys_def)
  qed
qed simp

text \<open>One step of the constructor is one insertion into the ordered dictionary.\<close>

lemma object_step_ok:
  assumes ok: "index_ok up cs st"
  shows "index_ok up cs (object_step up cs (key, v) st)"
    and "canonical up cs (fst (object_step up cs (key, v) st)) =
         im_insert (lookup_key up cs key) v (canonical up cs (fst st))"
proof -
  obtain es ps where st: "st = (es, ps)" by (cases st)
  define lk where "lk = lookup_key up cs key"
  have dist: "distinct (im_keys (canonical up cs es))"
    and idx: "\<And>k i. im_get ps k = Some i \<longleftrightarrow> i < length es \<and> lookup_key up cs (fst (es ! i)) = k"
    using ok by (auto simp: index_ok_def st)
  have "index_ok up cs (object_step up cs (key, v) st) \<and>
    canonical up cs (fst (object_step up cs (key, v) st)) = im_insert lk v (canonical up cs es)"
  proof (cases "im_get ps lk")
    case (Some i)
    then have i: "i < length es" "lookup_key up cs (fst (es ! i)) = lk" by (auto simp: idx)
    let ?es = "es[i := (fst (es ! i), v)]"
    have step: "object_step up cs (key, v) st = (?es, ps)"
      using Some i(1) by (simp add: object_step_def st lk_def)
    have fsts: "fst (?es ! j) = fst (es ! j)" if "j < length es" for j
      using that by (cases "j = i") auto
    have keys: "im_keys (canonical up cs ?es) = im_keys (canonical up cs es)"
      by (auto simp: im_keys_canonical fsts intro!: nth_equalityI)
    have "canonical up cs ?es = (canonical up cs es)[i := (lk, v)]"
      using i by (simp add: canonical_def map_update)
    also have "\<dots> = im_insert lk v (canonical up cs es)"
      using dist i by (intro im_insert_at [symmetric])
        (auto simp: canonical_def split: prod.splits)
    finally have "canonical up cs ?es = im_insert lk v (canonical up cs es)" .
    moreover have "index_ok up cs (?es, ps)"
      using dist idx fsts by (auto simp: index_ok_def keys)
    ultimately show ?thesis by (simp add: step)
  next
    case None
    have step: "object_step up cs (key, v) st = (es @ [(key, v)], im_insert lk (length es) ps)"
      using None by (simp add: object_step_def st lk_def)
    have fresh: "lk \<notin> set (im_keys (canonical up cs es))"
    proof
      assume "lk \<in> set (im_keys (canonical up cs es))"
      then obtain i where "i < length es" "lookup_key up cs (fst (es ! i)) = lk"
        by (auto simp: im_keys_canonical in_set_conv_nth)
      with None idx [of lk i] show False by simp
    qed
    have can: "canonical up cs (es @ [(key, v)]) = im_insert lk v (canonical up cs es)"
      using fresh by (simp add: canonical_snoc im_insert_fresh flip: lk_def)
    have pos: "im_get (im_insert lk (length es) ps) k = Some i \<longleftrightarrow>
        i < length (es @ [(key, v)]) \<and> lookup_key up cs (fst ((es @ [(key, v)]) ! i)) = k" for k i
      using idx [of k i] None by (auto simp: im_get_insert nth_append lk_def less_Suc_eq)
    have "index_ok up cs (es @ [(key, v)], im_insert lk (length es) ps)"
      unfolding index_ok_def fst_conv snd_conv can
      using dist fresh pos by (simp add: im_keys_insert)
    then show ?thesis by (simp add: step can)
  qed
  then show "index_ok up cs (object_step up cs (key, v) st)"
    "canonical up cs (fst (object_step up cs (key, v) st)) =
       im_insert (lookup_key up cs key) v (canonical up cs (fst st))"
    by (simp_all add: lk_def st)
qed

lemma object_entries_ok_aux:
  "index_ok up cs st \<Longrightarrow> index_ok up cs (fold (object_step up cs) es st) \<and>
   canonical up cs (fst (fold (object_step up cs) es st)) =
     im.put_all (canonical up cs es) (canonical up cs (fst st))"
proof (induction es arbitrary: st)
  case Nil
  then show ?case by (simp add: im.put_all_Nil canonical_def)
next
  case (Cons e es)
  obtain k v where e: "e = (k, v)" by (cases e)
  note step = object_step_ok [OF Cons.prems, of k v]
  from Cons.IH [OF step(1)] step(2) show ?case
    by (simp add: e im.put_all_Cons [symmetric] canonical_def)
qed

lemma index_ok_empty: "index_ok up cs ([], [])"
  by (simp add: index_ok_def canonical_def)

lemma object_entries_ok:
  "index_ok up cs (object_entries up cs es)"
  "canonical up cs (fst (object_entries up cs es)) = im.put_all (canonical up cs es) []"
  using object_entries_ok_aux [OF index_ok_empty, of up cs es]
  by (simp_all add: object_entries_def canonical_def)

lemma object_lookup_canonical:
  assumes "index_ok up cs st"
  shows "object_lookup up cs st key = im_get (canonical up cs (fst st)) (lookup_key up cs key)"
proof (cases "im_get (snd st) (lookup_key up cs key)")
  case None
  have "lookup_key up cs key \<notin> set (im_keys (canonical up cs (fst st)))"
  proof
    assume "lookup_key up cs key \<in> set (im_keys (canonical up cs (fst st)))"
    then obtain i where "i < length (fst st)"
      "lookup_key up cs (fst (fst st ! i)) = lookup_key up cs key"
      by (auto simp: im_keys_canonical in_set_conv_nth)
    with assms have "im_get (snd st) (lookup_key up cs key) = Some i"
      by (simp add: index_ok_def)
    with None show False by simp
  qed
  then have "im_get (canonical up cs (fst st)) (lookup_key up cs key) = None"
    by (simp add: im_get_keys)
  with None show ?thesis by (simp add: object_lookup_def)
next
  case (Some i)
  then have i: "i < length (fst st)" "lookup_key up cs (fst (fst st ! i)) = lookup_key up cs key"
    using assms by (auto simp: index_ok_def)
  have "(canonical up cs (fst st)) ! i = (lookup_key up cs key, snd (fst st ! i))"
    using i by (auto simp: canonical_def split: prod.splits)
  then have "(lookup_key up cs key, snd (fst st ! i)) \<in> set (canonical up cs (fst st))"
    using i(1) by (metis canonical_def length_map nth_mem)
  then have "im_get (canonical up cs (fst st)) (lookup_key up cs key) = Some (snd (fst st ! i))"
    using assms by (auto simp: im_get_def index_ok_def im_keys_def intro: map_of_is_SomeI)
  with Some i show ?thesis by (simp add: object_lookup_def)
qed

text \<open>Spellings: the first key of each equivalence class, in order of first occurrence.\<close>

primrec first_by :: "('a \<Rightarrow> 'b) \<Rightarrow> 'a list \<Rightarrow> 'a list" where
  "first_by f [] = []"
| "first_by f (x # xs) = x # filter (\<lambda>y. f y \<noteq> f x) (first_by f xs)"

lemma object_step_keys:
  assumes "index_ok up cs st"
  shows "map fst (fst (object_step up cs (key, v) st)) =
    (if lookup_key up cs key \<in> lookup_key up cs ` fst ` set (fst st)
     then map fst (fst st) else map fst (fst st) @ [key])"
proof (cases "im_get (snd st) (lookup_key up cs key)")
  case None
  have "lookup_key up cs key \<notin> lookup_key up cs ` fst ` set (fst st)"
  proof
    assume "lookup_key up cs key \<in> lookup_key up cs ` fst ` set (fst st)"
    then obtain i where "i < length (fst st)"
      "lookup_key up cs (fst (fst st ! i)) = lookup_key up cs key"
      by (auto simp: in_set_conv_nth)
    with assms have "im_get (snd st) (lookup_key up cs key) = Some i"
      by (simp add: index_ok_def)
    with None show False by simp
  qed
  with None show ?thesis by (cases st) (simp add: object_step_def)
next
  case (Some i)
  then have i: "i < length (fst st)" "lookup_key up cs (fst (fst st ! i)) = lookup_key up cs key"
    using assms by (auto simp: index_ok_def)
  then have "lookup_key up cs key \<in> lookup_key up cs ` fst ` set (fst st)"
    by (metis imageI nth_mem)
  moreover have "map fst ((fst st)[i := (fst (fst st ! i), v)]) = map fst (fst st)"
    using i(1) by (simp add: map_update list_update_same_conv)
  ultimately show ?thesis
    using Some i(1) by (cases st) (simp add: object_step_def)
qed

lemma object_fold_keys:
  "index_ok up cs st \<Longrightarrow> map fst (fst (fold (object_step up cs) es st)) =
     map fst (fst st) @ filter (\<lambda>k. lookup_key up cs k \<notin> lookup_key up cs ` fst ` set (fst st))
       (first_by (lookup_key up cs) (map fst es))"
proof (induction es arbitrary: st)
  case (Cons e es)
  obtain key v where e: "e = (key, v)" by (cases e)
  let ?st = "object_step up cs (key, v) st"
  note keys = object_step_keys [OF Cons.prems, of key v]
  have img: "lookup_key up cs ` fst ` set (fst ?st) =
      insert (lookup_key up cs key) (lookup_key up cs ` fst ` set (fst st))"
  proof -
    have "fst ` set (fst ?st) = set (map fst (fst ?st))" by simp
    then show ?thesis unfolding keys by (auto simp: insert_absorb)
  qed
  have "map fst (fst (fold (object_step up cs) es ?st)) = map fst (fst ?st) @
      filter (\<lambda>k. lookup_key up cs k \<notin> lookup_key up cs ` fst ` set (fst ?st))
        (first_by (lookup_key up cs) (map fst es))"
    by (rule Cons.IH [OF object_step_ok(1) [OF Cons.prems]])
  then show ?case
    unfolding img keys by (auto simp: e intro: filter_cong)
qed simp

text \<open>
  C38: an object value is an ordered dictionary under its key policy. Whatever entries it is
  built from, looking up a key returns the value of the last entry whose key is equal to it
  under the policy (exact for \<open>env\<close>, ordinal-ignore-case otherwise), or nothing when there is
  none; and iterating it yields, for every class of equal keys, the spelling of the first entry,
  in order of first occurrence. The position index of the code never goes stale.
\<close>

theorem object_value_is_ordered_dictionary:
  "object_get up (object_new up rc es cs) key =
     map_of (rev (map (\<lambda>(k, v). (lookup_key up cs k, v)) es)) (lookup_key up cs key) \<and>
   map fst (fst (object_entries up cs es)) = first_by (lookup_key up cs) (map fst es) \<and>
   index_ok up cs (object_entries up cs es)"
proof -
  have "object_lookup up cs (object_entries up cs es) key =
      im_get (im.put_all (canonical up cs es) []) (lookup_key up cs key)"
    by (simp add: object_lookup_canonical object_entries_ok)
  also have "\<dots> = map_of (rev (canonical up cs es)) (lookup_key up cs key)"
    by (simp add: im.get_put_all split: option.splits)
  finally have "object_get up (object_new up rc es cs) key =
      map_of (rev (map (\<lambda>(k, v). (lookup_key up cs k, v)) es)) (lookup_key up cs key)"
    by (cases "object_entries up cs es") (simp add: object_new_def canonical_def)
  moreover have "map fst (fst (object_entries up cs es)) =
      first_by (lookup_key up cs) (map fst es)"
    using object_fold_keys [OF index_ok_empty, of up cs es] by (simp add: object_entries_def)
  ultimately show ?thesis by (simp add: object_entries_ok)
qed

end
