(* ===== verification/Coercion.thy ===== *)
theory Coercion
  imports Value
begin

text \<open>
  Truthiness, numeric conversion and display strings (\<open>value/coercion.rs\<close>): the \<open>G15\<close>
  rendering of numbers, the lenient number parser, and the round trip between them.
\<close>

section \<open>Truthiness\<close>

definition f64_is_zero :: "f64 \<Rightarrow> bool" where
  "f64_is_zero x \<longleftrightarrow> f64_eq x (Finite False 0)"

fun is_falsy :: "expr_value \<Rightarrow> bool" where
  "is_falsy VNull = True"
| "is_falsy (VBool b) = (\<not> b)"
| "is_falsy (VNumber n) = (f64_is_zero n \<or> is_nan n)"
| "is_falsy (VString s) = (s = [])"
| "is_falsy (VArray _ _ _) = False"
| "is_falsy (VObject _ _ _ _) = False"

definition is_truthy :: "expr_value \<Rightarrow> bool" where
  "is_truthy v \<longleftrightarrow> \<not> is_falsy v"

section \<open>Strings to numbers\<close>

definition is_decimal_char :: "uchar \<Rightarrow> bool" where
  "is_decimal_char c \<longleftrightarrow> is_ascii_digit c \<or> c = cp CHR ''.'' \<or> c = cp CHR ''e'' \<or>
     c = cp CHR ''E'' \<or> c = cp CHR ''+'' \<or> c = cp CHR ''-''"

definition strip_sign :: "ustr \<Rightarrow> ustr" where
  "strip_sign s = (case s of c # cs \<Rightarrow>
     (if c = cp CHR ''+'' \<or> c = cp CHR ''-'' then cs else s) | [] \<Rightarrow> [])"

definition string_to_number :: "ustr \<Rightarrow> f64" where
  "string_to_number s =
    (let trimmed = trim s in
     if trimmed = [] then Finite False 0
     else if eq_ignore_ascii_case trimmed (lit ''Infinity'') then Infinite False
     else if (case strip_prefix (lit ''+'') trimmed of
                Some symbol \<Rightarrow> eq_ignore_ascii_case symbol (lit ''Infinity'') | None \<Rightarrow> False)
       then Infinite False
     else if eq_ignore_ascii_case trimmed (lit ''-Infinity'') then Infinite True
     else case strip_prefix (lit ''0x'') trimmed of
       Some hex \<Rightarrow> (if hex \<noteq> [] \<and> list_all is_ascii_hexdigit hex then
           (case i32_from_str_radix hex 16 of Some n \<Rightarrow> f64_of_nat n | None \<Rightarrow> NaN) else NaN)
     | None \<Rightarrow>
     (case strip_prefix (lit ''0o'') trimmed of
       Some oct \<Rightarrow> (if oct \<noteq> [] \<and> list_all (\<lambda>c. 48 \<le> c \<and> c \<le> 55) oct then
           (case i32_from_str_radix oct 8 of Some n \<Rightarrow> f64_of_nat n | None \<Rightarrow> NaN) else NaN)
     | None \<Rightarrow>
       (let digits_part = strip_sign trimmed in
        if digits_part = [] \<or> \<not> list_all is_decimal_char digits_part \<or>
           \<not> list_ex is_ascii_digit digits_part
        then NaN
        else case parse_decimal trimmed of Some n \<Rightarrow> n | None \<Rightarrow> NaN)))"

fun to_number :: "expr_value \<Rightarrow> f64" where
  "to_number VNull = Finite False 0"
| "to_number (VBool b) = (if b then Finite False 1 else Finite False 0)"
| "to_number (VNumber n) = n"
| "to_number (VString s) = string_to_number s"
| "to_number (VArray _ _ _) = NaN"
| "to_number (VObject _ _ _ _) = NaN"

section \<open>Numbers to strings\<close>

definition zeros :: "nat \<Rightarrow> ustr" where
  "zeros n = replicate n (cp CHR ''0'')"

definition sign_text :: "bool \<Rightarrow> ustr" where
  "sign_text negative = (if negative then lit ''-'' else [])"

definition fixed_point :: "ustr \<Rightarrow> int \<Rightarrow> bool \<Rightarrow> ustr" where
  "fixed_point trimmed e negative =
    (if 0 \<le> e then
       (let int_len = nat e + 1 in
        if length trimmed \<le> int_len
        then sign_text negative @ trimmed @ zeros (int_len - length trimmed)
        else sign_text negative @ take int_len trimmed @ lit ''.'' @ drop int_len trimmed)
     else sign_text negative @ lit ''0.'' @ zeros (nat (- e - 1)) @ trimmed)"

definition two_digits :: "nat \<Rightarrow> ustr" where
  "two_digits n = (if n < 10 then lit ''0'' @ dec_string n else dec_string n)"

definition scientific :: "ustr \<Rightarrow> int \<Rightarrow> bool \<Rightarrow> ustr" where
  "scientific trimmed e negative =
    (let mantissa = (if length trimmed = 1 then trimmed
                     else take 1 trimmed @ lit ''.'' @ drop 1 trimmed)
     in sign_text negative @ mantissa @ lit ''E'' @ (if 0 \<le> e then lit ''+'' else lit ''-'') @
        two_digits (nat \<bar>e\<bar>))"

definition trim_end_zeros :: "ustr \<Rightarrow> ustr" where
  "trim_end_zeros s = rev (dropWhile (\<lambda>c. c = cp CHR ''0'') (rev s))"

fun format_g15 :: "f64 \<Rightarrow> ustr" where
  "format_g15 NaN = lit ''NaN''"
| "format_g15 (Infinite s) = (if s then lit ''-Infinity'' else lit ''Infinity'')"
| "format_g15 (Finite s q) =
    (if q = 0 then (if s then lit ''-0'' else lit ''0'')
     else let (digits, e) = sci15 q;
              trimmed0 = trim_end_zeros digits;
              trimmed = (if trimmed0 = [] then lit ''0'' else trimmed0)
          in if - 5 < e \<and> e < 15 then fixed_point trimmed e s else scientific trimmed e s)"

fun to_display_string :: "expr_value \<Rightarrow> ustr" where
  "to_display_string VNull = []"
| "to_display_string (VBool b) = (if b then lit ''true'' else lit ''false'')"
| "to_display_string (VNumber n) = format_g15 n"
| "to_display_string (VString s) = s"
| "to_display_string (VArray _ _ _) = lit ''Array''"
| "to_display_string (VObject _ _ _ _) = lit ''Object''"

section \<open>Integers print as their decimal numerals\<close>

lemma length_dec_string_bounds:
  "0 < n \<Longrightarrow> 10 ^ (length (dec_string n) - 1) \<le> n \<and> n < 10 ^ length (dec_string n)"
proof (induction n rule: dec_string.induct)
  case (1 n)
  show ?case
  proof (cases "n < 10")
    case True
    with 1 show ?thesis by (simp add: dec_string.simps [of n])
  next
    case False
    then have "0 < n div 10" by simp
    with 1 False have IH: "10 ^ (length (dec_string (n div 10)) - 1) \<le> n div 10"
      "n div 10 < 10 ^ length (dec_string (n div 10))" by auto
    have "length (dec_string (n div 10)) \<noteq> 0" by simp
    with IH False show ?thesis
      by (cases "length (dec_string (n div 10))") (auto simp: dec_string.simps [of n])
  qed
qed

lemma dec_string_mult_pow10:
  "0 < n \<Longrightarrow> dec_string (n * 10 ^ k) = dec_string n @ zeros k"
proof (induction k)
  case (Suc k)
  have "n * 10 ^ Suc k = 10 * (n * 10 ^ k)" by simp
  moreover have "\<not> 10 * (n * 10 ^ k) < 10" using Suc.prems by simp
  ultimately have "dec_string (n * 10 ^ Suc k) = dec_string (n * 10 ^ k) @ [digit_char 0]"
    by (subst dec_string.simps) simp
  with Suc show ?case by (simp add: zeros_def digit_char_def replicate_append_same)
qed (simp add: zeros_def)

lemma dec_exp_of_nat:
  assumes "0 < n"
  shows "dec_exp (of_nat n) = int (length (dec_string n)) - 1"
proof -
  have q: "quotient_of (of_nat n) = (int n, 1)"
    by (simp add: of_nat_rat quotient_of_Fract normalize_def)
  have one: "dec_string (Suc 0) = [digit_char 1]" by (simp add: dec_string.simps)
  obtain l where l: "length (dec_string n) = Suc l" by (cases "length (dec_string n)") auto
  have "10 ^ l \<le> n" using length_dec_string_bounds [OF assms] l by simp
  then have "(10::rat) ^ l \<le> of_nat n"
    by (metis of_nat_le_iff of_nat_numeral of_nat_power)
  then show ?thesis by (simp add: dec_exp_def q one l Let_def pow10_def)
qed

lemma sci15_of_nat:
  assumes "0 < n" "n < 10 ^ 15"
  shows "sci15 (of_nat n) =
    (dec_string n @ zeros (15 - length (dec_string n)), int (length (dec_string n)) - 1)"
proof -
  define l where "l = length (dec_string n)"
  have bounds: "10 ^ (l - 1) \<le> n" "n < 10 ^ l" using length_dec_string_bounds [OF assms(1)]
    by (simp_all add: l_def)
  have lpos: "0 < l" by (simp add: l_def)
  have l15: "l \<le> 15"
  proof (rule ccontr)
    assume "\<not> l \<le> 15"
    then have "(10::nat) ^ 15 \<le> 10 ^ (l - 1)" by (intro power_increasing) auto
    with bounds assms show False by simp
  qed
  have p: "pow10 (int l - 1 - 14) = 1 / 10 ^ (15 - l)"
    using l15 by (cases "l = 15") (auto simp: pow10_def nat_diff_distrib)
  have m: "nat (round_half_even (of_nat n / pow10 (int l - 1 - 14))) = n * 10 ^ (15 - l)"
  proof -
    have "(of_nat n :: rat) / pow10 (int l - 1 - 14) = of_int (int (n * 10 ^ (15 - l)))"
      unfolding p by simp
    then show ?thesis by (simp only: round_half_even_of_int nat_int)
  qed
  have "n * 10 ^ (15 - l) < 10 ^ l * 10 ^ (15 - l)" using bounds by simp
  also have "\<dots> = 10 ^ 15" using l15 by (simp flip: power_add)
  finally have ne: "n * 10 ^ (15 - l) \<noteq> 10 ^ 15" by simp
  show ?thesis
    unfolding sci15_def Let_def dec_exp_of_nat [OF assms(1)] l_def [symmetric] m
    using ne by (simp add: dec_string_mult_pow10 [OF assms(1)])
qed

lemma trim_end_zeros_append: "trim_end_zeros (s @ zeros k) = trim_end_zeros s"
  by (simp add: trim_end_zeros_def zeros_def dropWhile_append)

lemma trim_end_zeros_pad: "\<exists>k. s = trim_end_zeros s @ zeros k"
proof -
  let ?P = "\<lambda>c. c = cp CHR ''0''"
  have "takeWhile ?P (rev s) = replicate (length (takeWhile ?P (rev s))) (cp CHR ''0'')"
    by (rule replicate_eqI) (auto dest: set_takeWhileD)
  then have "s = rev (dropWhile ?P (rev s)) @ zeros (length (takeWhile ?P (rev s)))"
    by (metis rev_append rev_replicate rev_rev_ident takeWhile_dropWhile_id zeros_def)
  then show ?thesis unfolding trim_end_zeros_def by blast
qed

lemma trim_end_zeros_dec_string: "0 < n \<Longrightarrow> trim_end_zeros (dec_string n) \<noteq> []"
proof
  assume n: "0 < n" and "trim_end_zeros (dec_string n) = []"
  then obtain k where "dec_string n = zeros k" using trim_end_zeros_pad by (metis append_Nil)
  then have "dec_value (dec_string n) = dec_value (zeros k)" by simp
  moreover have "dec_value (zeros k) = 0"
    by (induction k) (auto simp: zeros_def dec_value_def)
  ultimately show False using n by simp
qed

lemma format_g15_of_nat:
  assumes "n < 10 ^ 15"
  shows "format_g15 (Finite s (of_nat n)) = sign_text s @ dec_string n"
proof (cases "n = 0")
  case True
  then show ?thesis by (simp add: sign_text_def dec_string.simps digit_char_def lit_def)
next
  case False
  then have n: "0 < n" by simp
  define l where "l = length (dec_string n)"
  have bounds: "10 ^ (l - 1) \<le> n" using length_dec_string_bounds [OF n] by (simp add: l_def)
  have lpos: "0 < l" by (simp add: l_def)
  have l15: "l \<le> 15"
  proof (rule ccontr)
    assume "\<not> l \<le> 15"
    then have "(10::nat) ^ 15 \<le> 10 ^ (l - 1)" by (intro power_increasing) auto
    with bounds assms show False by simp
  qed
  obtain k where k: "dec_string n = trim_end_zeros (dec_string n) @ zeros k"
    using trim_end_zeros_pad by blast
  then have len: "l = length (trim_end_zeros (dec_string n)) + k"
    by (metis l_def length_append length_replicate zeros_def)
  have il: "nat (int l - 1) + 1 = l" "0 \<le> int l - 1" using lpos by simp_all
  have "fixed_point (trim_end_zeros (dec_string n)) (int l - 1) s = sign_text s @ dec_string n"
    unfolding fixed_point_def Let_def il(1) using il(2) len k by simp
  with n l15 lpos trim_end_zeros_dec_string [OF n] show ?thesis
    by (simp add: sci15_of_nat [OF n assms] trim_end_zeros_append flip: l_def)
qed

section \<open>The round trip through display strings\<close>

lemma eq_ignore_ascii_case_hd:
  "eq_ignore_ascii_case (a # as) (b # bs) \<Longrightarrow> ascii_lower a = ascii_lower b"
  by (simp add: eq_ignore_ascii_case_def to_ascii_lowercase_def)

lemma string_to_number_integer:
  assumes "ds \<noteq> []" "list_all is_ascii_digit ds"
  shows "string_to_number (sign_text s @ ds) =
    (case parse_decimal (sign_text s @ ds) of Some n \<Rightarrow> n | None \<Rightarrow> NaN)"
proof -
  let ?t = "sign_text s @ ds"
  obtain d ds' where ds: "ds = d # ds'" using assms(1) by (cases ds) auto
  have d: "48 \<le> d" "d \<le> 57" using assms(2) by (simp_all add: ds is_ascii_digit_def)
  have l: "is_ascii_digit (last ds)" using assms by (simp add: list_all_iff)
  have nw: "\<not> is_whitespace c" if "is_ascii_digit c" for c
    using that by (auto simp: is_ascii_digit_def is_whitespace_def)
  have "\<not> is_whitespace (hd ?t)"
    using d by (auto simp: ds sign_text_def lit_def is_whitespace_def)
  moreover have "\<not> is_whitespace (last ?t)" using l nw assms(1) by simp
  ultimately have trim: "trim ?t = ?t" using assms(1) by (intro trim_id) auto
  have sym: "\<not> eq_ignore_ascii_case (d # x) (lit ''Infinity'')" for x
    using d by (auto simp: lit_def ascii_lower_def dest!: eq_ignore_ascii_case_hd split: if_splits)
  have inf: "\<not> eq_ignore_ascii_case ?t (lit ''Infinity'')"
    using sym by (auto simp: sign_text_def ds lit_def ascii_lower_def
        dest!: eq_ignore_ascii_case_hd)
  have neg: "\<not> eq_ignore_ascii_case ?t (lit ''-Infinity'')"
    using sym d by (cases s)
      (auto simp: sign_text_def ds lit_def ascii_lower_def eq_ignore_ascii_case_def
        to_ascii_lowercase_def split: if_splits)
  have plus: "strip_prefix (lit ''+'') ?t = None"
    using d by (auto simp: strip_prefix_def sign_text_def ds lit_def)
  have radix: "strip_prefix (lit ''0x'') ?t = None" "strip_prefix (lit ''0o'') ?t = None"
    using assms(2) by (auto simp: strip_prefix_def sign_text_def lit_def list_all_iff prefix_def
        is_ascii_digit_def)
  have part: "strip_sign ?t = ds"
    using d by (auto simp: strip_sign_def sign_text_def ds lit_def)
  have dec: "list_all is_decimal_char ds" "list_ex is_ascii_digit ds"
    using assms by (simp_all add: list_all_iff is_decimal_char_def) (simp add: ds)
  show ?thesis
    unfolding string_to_number_def trim Let_def part
    using inf neg plus radix dec assms(1) by simp
qed

text \<open>
  An integer below \<open>10^15\<close> in magnitude (either zero included) renders as its sign and
  plain decimal numeral, and converting that text back with \<open>to_number\<close> gives the same
  number, sign of zero included.
\<close>

lemma number_display_round_trip:
  assumes "n < 10 ^ 15"
  shows "to_display_string (VNumber (Finite s (of_nat n))) = sign_text s @ dec_string n \<and>
    to_number (VString (to_display_string (VNumber (Finite s (of_nat n))))) = Finite s (of_nat n)"
proof -
  have disp: "to_display_string (VNumber (Finite s (of_nat n))) = sign_text s @ dec_string n"
    by (simp only: to_display_string.simps format_g15_of_nat [OF assms])
  have small: "n < 2 ^ 53" using assms by simp
  have digits: "list_all is_ascii_digit (dec_string n)"
    by (auto simp: list_all_iff dest: dec_string_digits)
  have "string_to_number (sign_text s @ dec_string n) = Finite s (of_nat n)"
    using string_to_number_integer [OF dec_string_not_Nil digits, of s]
      parse_decimal_dec_string [OF small]
    by (cases s) (simp_all add: sign_text_def lit_def f64_of_nat_def)
  then show ?thesis by (simp only: disp to_number.simps)
qed

end
