(* ===== verification/Comparison.thy ===== *)
theory Comparison
  imports Coercion
begin

text \<open>
  Loose equality and relational comparison (\<open>value/comparison.rs\<close>): the coercion loop,
  \<open>abstract_equal\<close>, \<open>less_than\<close>, \<open>greater_than\<close> and the derived operators, with the
  order-theoretic facts the expression operators rely on.
\<close>

fun same_instance :: "expr_value \<Rightarrow> expr_value \<Rightarrow> bool" where
  "same_instance (VArray r _ _) (VArray r' _ _) = (r = r')"
| "same_instance (VObject r _ _ _) (VObject r' _ _ _) = (r = r')"
| "same_instance _ _ = False"

definition is_bool_or_null :: "expr_value \<Rightarrow> bool" where
  "is_bool_or_null v \<longleftrightarrow> kind v = KBoolean \<or> kind v = KNull"

text \<open>
  The loop of \<open>coerce_for_compare\<close>. Every further round has turned a boolean, null or string
  operand into a number, which no round undoes.
\<close>

definition coerce_measure :: "expr_value \<Rightarrow> nat" where
  "coerce_measure v = (if kind v = KNumber then 0 else 1)"

function coerce_for_compare :: "expr_value \<Rightarrow> expr_value \<Rightarrow> expr_value \<times> expr_value" where
  "coerce_for_compare a b =
    (if kind a = kind b then (a, b)
     else if kind a = KNumber \<and> kind b = KString then coerce_for_compare a (VNumber (to_number b))
     else if kind a = KString \<and> kind b = KNumber then coerce_for_compare (VNumber (to_number a)) b
     else if is_bool_or_null a \<or> is_bool_or_null b then
       coerce_for_compare (if is_bool_or_null a then VNumber (to_number a) else a)
         (if is_bool_or_null b then VNumber (to_number b) else b)
     else (a, b))"
  by pat_completeness auto
termination
  by (relation "measure (\<lambda>(a, b). coerce_measure a + coerce_measure b)")
     (auto simp: coerce_measure_def is_bool_or_null_def)

declare coerce_for_compare.simps [simp del]

definition abstract_equal :: "casing \<Rightarrow> expr_value \<Rightarrow> expr_value \<Rightarrow> bool" where
  "abstract_equal up a b =
    (case coerce_for_compare a b of
       (VNull, VNull) \<Rightarrow> True
     | (VNumber x, VNumber y) \<Rightarrow> (if is_nan x \<or> is_nan y then False else f64_eq x y)
     | (VString x, VString y) \<Rightarrow> ordinal_ignore_case_eq up x y
     | (VBool x, VBool y) \<Rightarrow> x = y
     | (VArray r xs f, VArray r' ys g) \<Rightarrow> same_instance (VArray r xs f) (VArray r' ys g)
     | (VObject r es ps c, VObject r' es' ps' c') \<Rightarrow>
         same_instance (VObject r es ps c) (VObject r' es' ps' c')
     | _ \<Rightarrow> False)"

definition abstract_not_equal :: "casing \<Rightarrow> expr_value \<Rightarrow> expr_value \<Rightarrow> bool" where
  "abstract_not_equal up a b \<longleftrightarrow> \<not> abstract_equal up a b"

definition less_than :: "casing \<Rightarrow> expr_value \<Rightarrow> expr_value \<Rightarrow> bool" where
  "less_than up a b =
    (case coerce_for_compare a b of
       (VNumber x, VNumber y) \<Rightarrow> (if is_nan x \<or> is_nan y then False else f64_less x y)
     | (VString x, VString y) \<Rightarrow> ordinal_ignore_case_cmp up x y = Less
     | (VBool x, VBool y) \<Rightarrow> \<not> x \<and> y
     | _ \<Rightarrow> False)"

definition greater_than :: "casing \<Rightarrow> expr_value \<Rightarrow> expr_value \<Rightarrow> bool" where
  "greater_than up a b =
    (case coerce_for_compare a b of
       (VNumber x, VNumber y) \<Rightarrow> (if is_nan x \<or> is_nan y then False else f64_less y x)
     | (VString x, VString y) \<Rightarrow> ordinal_ignore_case_cmp up x y = Greater
     | (VBool x, VBool y) \<Rightarrow> x \<and> \<not> y
     | _ \<Rightarrow> False)"

definition less_or_equal :: "casing \<Rightarrow> expr_value \<Rightarrow> expr_value \<Rightarrow> bool" where
  "less_or_equal up a b \<longleftrightarrow> abstract_equal up a b \<or> less_than up a b"

definition greater_or_equal :: "casing \<Rightarrow> expr_value \<Rightarrow> expr_value \<Rightarrow> bool" where
  "greater_or_equal up a b \<longleftrightarrow> abstract_equal up a b \<or> greater_than up a b"

lemmas comparison_defs = abstract_equal_def less_than_def greater_than_def

section \<open>What the coercion loop computes\<close>

text \<open>
  In closed form: equal kinds are left alone, a pair without a collection becomes a pair of
  numbers, and a pair of different kinds with a collection stays of different kinds.
\<close>

lemma coerce_same [simp]: "kind a = kind b \<Longrightarrow> coerce_for_compare a b = (a, b)"
  by (simp add: coerce_for_compare.simps)

lemma coerce_primitives:
  assumes "kind a \<noteq> kind b" "is_primitive a" "is_primitive b"
  shows "coerce_for_compare a b = (VNumber (to_number a), VNumber (to_number b))"
  using assms
  by (cases a; cases b)
     (simp_all add: coerce_for_compare.simps is_bool_or_null_def)

lemma coerce_collection:
  assumes "kind a \<noteq> kind b" "\<not> (is_primitive a \<and> is_primitive b)"
  shows "kind (fst (coerce_for_compare a b)) \<noteq> kind (snd (coerce_for_compare a b))"
  using assms
  by (cases a; cases b) (simp_all add: coerce_for_compare.simps is_bool_or_null_def)

lemma coerce_swap: "coerce_for_compare b a = prod.swap (coerce_for_compare a b)"
proof (cases "kind a = kind b")
  case True
  then show ?thesis by simp
next
  case False
  then show ?thesis
    by (cases a; cases b) (simp_all add: coerce_for_compare.simps is_bool_or_null_def)
qed

lemma abstract_equal_sym: "abstract_equal up a b = abstract_equal up b a"
  by (subst (2) abstract_equal_def, subst coerce_swap)
     (auto simp: abstract_equal_def f64_eq_sym ordinal_ignore_case_eq_def
        split: prod.splits expr_value.splits)

lemma greater_than_mirror: "greater_than up a b = less_than up b a"
  by (subst less_than_def, subst coerce_swap)
     (auto simp: greater_than_def ordinal_ignore_case_cmp_def units_cmp_mirror
        split: prod.splits expr_value.splits)

text \<open>The operands a comparison can order: two strings, or two primitives, none not-a-number.\<close>

definition comparable :: "expr_value \<Rightarrow> expr_value \<Rightarrow> bool" where
  "comparable a b \<longleftrightarrow> is_primitive a \<and> is_primitive b \<and>
     (kind a = KString \<and> kind b = KString \<or> to_number a \<noteq> NaN \<and> to_number b \<noteq> NaN)"

definition valid_text :: "expr_value \<Rightarrow> bool" where
  "valid_text v = (case v of VString s \<Rightarrow> valid_str s | _ \<Rightarrow> True)"

lemma valid_str_key:
  assumes "valid_casing up" "valid_str s"
  shows "valid_str (ordinal_ignore_case_key up s)"
proof -
  have "is_scalar (ordinal_upper up c)" if "is_scalar c" for c
  proof -
    have "valid_str (up c)" using assms(1) that by (simp add: valid_casing_def)
    then show ?thesis using that
      by (auto simp: ordinal_upper_def valid_str_def split: list.splits)
  qed
  with assms(2) show ?thesis
    by (auto simp: valid_str_def ordinal_ignore_case_key_def list_all_iff)
qed

lemma cmp_Equal_iff:
  assumes "valid_casing up" "valid_str a" "valid_str b"
  shows "ordinal_ignore_case_cmp up a b = Equal \<longleftrightarrow> ordinal_ignore_case_eq up a b"
proof -
  note keys = valid_str_key [OF assms(1,2)] valid_str_key [OF assms(1,3)]
  show ?thesis
    using encode_utf16_inj [OF keys]
    by (auto simp: ordinal_ignore_case_cmp_def ordinal_ignore_case_eq_def units_cmp_Equal)
qed

lemma comparison_numbers:
  assumes "kind a \<noteq> KString \<or> kind b \<noteq> KString" "comparable a b" "kind a \<noteq> KBoolean \<or> kind b \<noteq> KBoolean"
    "kind a \<noteq> KNull \<or> kind b \<noteq> KNull"
  shows "abstract_equal up a b \<longleftrightarrow> f64_eq (to_number a) (to_number b)"
    and "less_than up a b \<longleftrightarrow> f64_less (to_number a) (to_number b)"
proof -
  have co: "coerce_for_compare a b = (VNumber (to_number a), VNumber (to_number b))"
  proof (cases "kind a = kind b")
    case True
    with assms show ?thesis by (cases a; cases b) (simp_all add: comparable_def)
  next
    case False
    with assms show ?thesis by (intro coerce_primitives) (auto simp: comparable_def)
  qed
  have "to_number a \<noteq> NaN" "to_number b \<noteq> NaN"
    using assms by (auto simp: comparable_def)
  with co show "abstract_equal up a b \<longleftrightarrow> f64_eq (to_number a) (to_number b)"
    "less_than up a b \<longleftrightarrow> f64_less (to_number a) (to_number b)"
    by (simp_all add: comparison_defs is_nan_def)
qed

definition exactly_one :: "bool \<Rightarrow> bool \<Rightarrow> bool \<Rightarrow> bool" where
  "exactly_one p q r \<longleftrightarrow> (p \<or> q \<or> r) \<and> \<not> (p \<and> q) \<and> \<not> (p \<and> r) \<and> \<not> (q \<and> r)"

lemma f64_exactly_one:
  "x \<noteq> NaN \<Longrightarrow> y \<noteq> NaN \<Longrightarrow> exactly_one (f64_less x y) (f64_eq x y) (f64_less y x)"
  using f64_trichotomy [of x y] f64_less_not_eq [of x y] f64_less_not_eq [of y x] f64_eq_sym [of x y]
    f64_less_trans [of x y x] f64_less_irrefl [of x]
  unfolding exactly_one_def by blast

lemma strings_exactly_one:
  assumes "valid_casing up" "valid_str x" "valid_str y"
  shows "exactly_one (less_than up (VString x) (VString y))
    (abstract_equal up (VString x) (VString y)) (greater_than up (VString x) (VString y))"
  using cmp_Equal_iff [OF assms]
  by (cases "ordinal_ignore_case_cmp up x y") (auto simp: exactly_one_def comparison_defs)

text \<open>
  The relational operators are coherent. For two comparable operands (two strings, or two
  primitives neither of which converts to not-a-number) exactly one of \<open><\<close>, \<open>==\<close> and \<open>>\<close>
  holds; for every other pair (a collection or a non-numeric operand is involved) neither
  \<open><\<close> nor \<open>>\<close> holds, and \<open>==\<close> holds only for one and the same collection instance.
\<close>

lemma comparison_trichotomy:
  assumes "valid_casing up" "valid_text a" "valid_text b"
  shows "if comparable a b
    then exactly_one (less_than up a b) (abstract_equal up a b) (greater_than up a b)
    else \<not> less_than up a b \<and> \<not> greater_than up a b \<and>
         (abstract_equal up a b \<longleftrightarrow> same_instance a b)"
proof (cases "comparable a b")
  case True
  consider (str) x y where "a = VString x" "b = VString y"
    | (bool) x y where "a = VBool x" "b = VBool y" | (null) "a = VNull" "b = VNull"
    | (num) "kind a \<noteq> KString \<or> kind b \<noteq> KString" "kind a \<noteq> KBoolean \<or> kind b \<noteq> KBoolean"
      "kind a \<noteq> KNull \<or> kind b \<noteq> KNull"
    by (cases a; cases b) auto
  then have "exactly_one (less_than up a b) (abstract_equal up a b) (greater_than up a b)"
  proof cases
    case str
    with assms show ?thesis by (simp add: valid_text_def strings_exactly_one)
  next
    case bool
    then show ?thesis by (auto simp: comparison_defs exactly_one_def)
  next
    case null
    then show ?thesis by (simp add: comparison_defs exactly_one_def)
  next
    case num
    have sym: "comparable b a" using True by (auto simp: comparable_def)
    have "to_number a \<noteq> NaN" "to_number b \<noteq> NaN" using True num by (auto simp: comparable_def)
    moreover have "less_than up b a \<longleftrightarrow> f64_less (to_number b) (to_number a)"
      using num by (intro comparison_numbers(2) [OF _ sym]) auto
    ultimately show ?thesis
      by (simp add: greater_than_mirror f64_exactly_one comparison_numbers [OF num(1) True num(2,3)])
  qed
  with True show ?thesis by simp
next
  case False
  then have "\<not> less_than up a b \<and> \<not> less_than up b a \<and>
      (abstract_equal up a b \<longleftrightarrow> same_instance a b)"
    by (cases a; cases b) (auto simp: comparison_defs comparable_def is_nan_def
        coerce_for_compare.simps is_bool_or_null_def split: if_splits)
  with False show ?thesis by (simp add: greater_than_mirror)
qed

text \<open>
  \<open>==\<close> is symmetric, \<open>!=\<close> is its negation, \<open>>\<close> is \<open><\<close> with the operands exchanged, and
  \<open><=\<close>, \<open>>=\<close> are exchanged the same way: the order in which an author writes the operands of
  a comparison never changes its truth.
\<close>

lemma comparison_operand_order:
  "abstract_equal up a b = abstract_equal up b a \<and>
   abstract_not_equal up a b = (\<not> abstract_equal up b a) \<and>
   greater_than up a b = less_than up b a \<and>
   greater_or_equal up a b = less_or_equal up b a"
  unfolding abstract_not_equal_def greater_or_equal_def less_or_equal_def
  using abstract_equal_sym [of up a b] greater_than_mirror [of up a b] by blast

end
