(* ===== verification/Ast.thy ===== *)
theory Ast
  imports Comparison
begin

text \<open>
  The expression syntax tree (\<open>greenlit-expr/src/ast.rs\<close>), the errors of the parser
  (\<open>error.rs\<close>), and the explicit-stack walks over trees: the search for a status function
  and the two depth checks (\<open>parser/depth.rs\<close>). Each walk is proved equal to the recursive
  function it stands for.
\<close>

datatype bin_op = Eq | NotEq | Lt | Le | Gt | Ge | And | Or

datatype expr =
    ENull
  | EBool bool
  | ENumber f64
  | EStr ustr
  | ENamedValue ustr
  | ECall ustr "expr list"
  | EIndex expr expr
  | EWildcard expr
  | ENot expr
  | EBinary bin_op expr expr

datatype tok =
    LParen | RParen | LBracket | RBracket | Comma | Dot | Star | TNot
  | EqEq | TNotEq | TLt | TLe | TGt | TGe | AndAnd | OrOr
  | TNull | TTrue | TFalse | TNumber f64 | TStr ustr | Ident ustr

text \<open>
  The \<open>found\<close> field of an error is the \<open>Debug\<close> text of a token or operator, or a fixed
  word; the model keeps what the text is made from.
\<close>

datatype found = FoundTok tok | FoundOp bin_op | FoundText string

datatype parse_error =
    TooLong nat
  | UnterminatedString nat
  | InvalidNumber ustr nat
  | UnexpectedChar uchar nat
  | UnexpectedEof string
  | UnexpectedToken found string
  | TooDeep
  | WrongArity ustr nat string
  | EvenCaseParameters
  | UnrecognizedFunction ustr
  | UnrecognizedNamedValue ustr
  | TrailingInput string

definition MAX_EXPRESSION_LENGTH :: nat where
  "MAX_EXPRESSION_LENGTH = 21000"

definition MAX_EXPRESSION_DEPTH :: nat where
  "MAX_EXPRESSION_DEPTH = 50"

fun children :: "expr \<Rightarrow> expr list" where
  "children (ECall _ args) = args"
| "children (EIndex t i) = [t, i]"
| "children (EWildcard t) = [t]"
| "children (ENot t) = [t]"
| "children (EBinary _ l r) = [l, r]"
| "children _ = []"

lemma size_children: "x \<in> set (children e) \<Longrightarrow> size x < size e"
  by (cases e) (auto simp: less_Suc_eq_le dest: size_list_estimation' [OF _ order_refl])

fun stack_size :: "expr list \<Rightarrow> nat" where
  "stack_size [] = 0"
| "stack_size (e # es) = Suc (2 * size e) + stack_size es"

lemma stack_size_append [simp]: "stack_size (xs @ ys) = stack_size xs + stack_size ys"
  by (induction xs) auto

lemma stack_size_rev [simp]: "stack_size (rev xs) = stack_size xs"
  by (induction xs) auto

lemma stack_size_args: "stack_size args \<le> 2 * size_list size args"
  by (induction args) auto

lemma stack_size_children: "stack_size (children e) < Suc (2 * size e)"
proof (cases e)
  case (ECall n args)
  then show ?thesis using stack_size_args [of args] by simp
qed auto

section \<open>Status functions\<close>

definition STATUS_FUNCTIONS :: "ustr list" where
  "STATUS_FUNCTIONS = [lit ''success'', lit ''failure'', lit ''cancelled'', lit ''always'']"

definition is_status_call :: "expr \<Rightarrow> bool" where
  "is_status_call e = (case e of
     ECall name _ \<Rightarrow> list_ex (\<lambda>f. eq_ignore_ascii_case f name) STATUS_FUNCTIONS | _ \<Rightarrow> False)"

text \<open>
  The walk pops a node off the end of the stack; the list is kept with the top first, so the
  children pushed last come first.
\<close>

function status_walk :: "expr list \<Rightarrow> bool" where
  "status_walk [] = False"
| "status_walk (node # stack) =
     (if is_status_call node then True else status_walk (rev (children node) @ stack))"
  by pat_completeness auto
termination
  by (relation "measure stack_size") (use stack_size_children in auto)

definition expr_calls_status_function :: "expr \<Rightarrow> bool" where
  "expr_calls_status_function e = status_walk [e]"

text \<open>The tree search it stands for.\<close>

primrec mentions_status :: "expr \<Rightarrow> bool" where
  "mentions_status ENull = False"
| "mentions_status (EBool _) = False"
| "mentions_status (ENumber _) = False"
| "mentions_status (EStr _) = False"
| "mentions_status (ENamedValue _) = False"
| "mentions_status (ECall name args) =
     (list_ex (\<lambda>f. eq_ignore_ascii_case f name) STATUS_FUNCTIONS \<or>
      list_ex id (map mentions_status args))"
| "mentions_status (EIndex t i) = (mentions_status t \<or> mentions_status i)"
| "mentions_status (EWildcard t) = mentions_status t"
| "mentions_status (ENot t) = mentions_status t"
| "mentions_status (EBinary _ l r) = (mentions_status l \<or> mentions_status r)"

lemma mentions_status_children:
  "mentions_status e \<longleftrightarrow> is_status_call e \<or> list_ex mentions_status (children e)"
  by (cases e) (auto simp: is_status_call_def list_ex_iff)

lemma status_walk_iff: "status_walk es \<longleftrightarrow> list_ex mentions_status es"
proof (induction es rule: status_walk.induct)
  case (2 node stack)
  then show ?case using mentions_status_children [of node] by (auto simp: list_ex_iff)
qed simp

text \<open>
  The search for a status function is complete. The explicit-stack walk answers yes exactly
  when some call in the tree, however deeply nested, names \<open>success\<close>, \<open>failure\<close>,
  \<open>cancelled\<close> or \<open>always\<close> in any casing; this is what suppresses the implicit
  \<open>success()\<close> gate of an \<open>if:\<close>.
\<close>

lemma expr_calls_status_function_complete:
  "expr_calls_status_function e \<longleftrightarrow> mentions_status e"
  by (simp add: expr_calls_status_function_def status_walk_iff)

section \<open>Depth checks\<close>

text \<open>A stack of nodes with their depths; the top comes first.\<close>

fun dstack_size :: "(expr \<times> nat) list \<Rightarrow> nat" where
  "dstack_size [] = 0"
| "dstack_size ((e, d) # es) = Suc (2 * size e) + dstack_size es"

lemma dstack_size_append [simp]: "dstack_size (xs @ ys) = dstack_size xs + dstack_size ys"
  by (induction xs rule: dstack_size.induct) auto

lemma dstack_size_map: "dstack_size (map (\<lambda>e. (e, d e)) es) = stack_size es"
  by (induction es) auto

fun same_op :: "bin_op \<Rightarrow> expr \<Rightarrow> bool" where
  "same_op op (EBinary op' _ _) = (op' = op)"
| "same_op op _ = False"

definition push_logical_child :: "bin_op \<Rightarrow> nat \<Rightarrow> expr \<Rightarrow> expr \<times> nat" where
  "push_logical_child parent_op parent_depth child =
     (child, if same_op parent_op child then parent_depth else parent_depth + 1)"

definition is_logical :: "bin_op \<Rightarrow> bool" where
  "is_logical op \<longleftrightarrow> op = And \<or> op = Or"

definition depth_children :: "expr \<Rightarrow> nat \<Rightarrow> (expr \<times> nat) list" where
  "depth_children node d = (case node of
     EBinary op l r \<Rightarrow> (if is_logical op
        then [push_logical_child op d l, push_logical_child op d r] else [(l, d + 1), (r, d + 1)])
   | _ \<Rightarrow> map (\<lambda>c. (c, d + 1)) (children node))"

lemma dstack_size_depth_children: "dstack_size (rev (depth_children e d)) < Suc (2 * size e)"
proof -
  have "dstack_size (rev (depth_children e d)) = stack_size (children e)"
    by (cases e) (simp_all add: depth_children_def push_logical_child_def rev_map dstack_size_map)
  then show ?thesis using stack_size_children by simp
qed

function ensure_depth_walk :: "(expr \<times> nat) list \<Rightarrow> parse_error + unit" where
  "ensure_depth_walk [] = Inr ()"
| "ensure_depth_walk ((node, d) # stack) =
     (if MAX_EXPRESSION_DEPTH < d then Inl TooDeep
      else ensure_depth_walk (rev (depth_children node d) @ stack))"
  by pat_completeness auto
termination
  by (relation "measure dstack_size") (use dstack_size_depth_children in auto)

definition ensure_expression_depth :: "expr \<Rightarrow> parse_error + unit" where
  "ensure_expression_depth e = ensure_depth_walk [(e, 1)]"

function safe_depth_walk :: "(expr \<times> nat) list \<Rightarrow> bool" where
  "safe_depth_walk [] = False"
| "safe_depth_walk ((node, d) # stack) =
     (if MAX_EXPRESSION_DEPTH < d then True
      else safe_depth_walk (rev (map (\<lambda>c. (c, d + 1)) (children node)) @ stack))"
  by pat_completeness auto
termination
  by (relation "measure dstack_size")
     (use stack_size_children in \<open>auto simp: rev_map dstack_size_map\<close>)

definition exceeds_safe_evaluation_depth :: "expr \<Rightarrow> bool" where
  "exceeds_safe_evaluation_depth e = safe_depth_walk [(e, 1)]"

text \<open>
  The quantities they bound: the height of the concrete tree, and the height when a chain of
  the same logical operator counts as one container.
\<close>

primrec height :: "expr \<Rightarrow> nat" where
  "height ENull = 1"
| "height (EBool _) = 1"
| "height (ENumber _) = 1"
| "height (EStr _) = 1"
| "height (ENamedValue _) = 1"
| "height (ECall _ args) = Suc (max_list0 (map height args))"
| "height (EIndex t i) = Suc (max (height t) (height i))"
| "height (EWildcard t) = Suc (height t)"
| "height (ENot t) = Suc (height t)"
| "height (EBinary _ l r) = Suc (max (height l) (height r))"

primrec sem_height :: "expr \<Rightarrow> nat" where
  "sem_height ENull = 1"
| "sem_height (EBool _) = 1"
| "sem_height (ENumber _) = 1"
| "sem_height (EStr _) = 1"
| "sem_height (ENamedValue _) = 1"
| "sem_height (ECall _ args) = Suc (max_list0 (map sem_height args))"
| "sem_height (EIndex t i) = Suc (max (sem_height t) (sem_height i))"
| "sem_height (EWildcard t) = Suc (sem_height t)"
| "sem_height (ENot t) = Suc (sem_height t)"
| "sem_height (EBinary op l r) =
     (if is_logical op
      then max (if same_op op l then sem_height l else Suc (sem_height l))
               (if same_op op r then sem_height r else Suc (sem_height r))
      else Suc (max (sem_height l) (sem_height r)))"

lemma height_pos: "0 < height e" "0 < sem_height e"
  by (induction e) (auto simp: is_logical_def)

lemma max_list0_less: "max_list0 xs < Suc m \<longleftrightarrow> (\<forall>x \<in> set xs. x < Suc m)"
  by (simp add: less_Suc_eq_le max_list0_le)

lemma height_children:
  "d + height e \<le> Suc m \<longleftrightarrow> d \<le> m \<and> (\<forall>c \<in> set (children e). Suc d + height c \<le> Suc m)"
proof (cases e)
  case (ECall n args)
  then show ?thesis using max_list0_le [of "map height args" "m - d"]
    by (auto simp: le_diff_conv2 add.commute)
qed auto

lemma sem_height_children:
  "d + sem_height e \<le> Suc m \<longleftrightarrow>
     d \<le> m \<and> (\<forall>(c, d') \<in> set (depth_children e d). d' + sem_height c \<le> Suc m)"
proof (cases e)
  case (EBinary op l r)
  have "0 < sem_height l" "0 < sem_height r" by (rule height_pos)+
  then show ?thesis
    unfolding EBinary depth_children_def push_logical_child_def by auto
next
  case (ECall n args)
  then show ?thesis using max_list0_le [of "map sem_height args" "m - d"]
    by (auto simp: depth_children_def le_diff_conv2 add.commute)
qed (auto simp: depth_children_def)

lemma safe_depth_walk_iff:
  "\<not> safe_depth_walk es \<longleftrightarrow> (\<forall>(e, d) \<in> set es. d + height e \<le> Suc MAX_EXPRESSION_DEPTH)"
proof (induction es rule: safe_depth_walk.induct)
  case (2 node d stack)
  show ?case
  proof (cases "MAX_EXPRESSION_DEPTH < d")
    case True
    then show ?thesis using height_children [of d node MAX_EXPRESSION_DEPTH] by simp
  next
    case False
    with 2 show ?thesis
      using height_children [of d node MAX_EXPRESSION_DEPTH] by (simp add: ball_Un)
  qed
qed simp

lemma ensure_depth_walk_iff:
  "ensure_depth_walk es = (if \<forall>(e, d) \<in> set es. d + sem_height e \<le> Suc MAX_EXPRESSION_DEPTH
     then Inr () else Inl TooDeep)"
proof (induction es rule: ensure_depth_walk.induct)
  case (2 node d stack)
  then show ?case
    using sem_height_children [of d node MAX_EXPRESSION_DEPTH] by (auto simp: not_less)
qed simp

text \<open>
  The two depth checks bound exactly what they document. The parser's check accepts a tree
  just when its height, a chain of one logical operator counting as a single container, is at
  most 50; the evaluator's guard fires just when the concrete tree is higher than 50. Both
  explicit-stack walks agree with the recursive heights.
\<close>

lemma depth_checks_exact:
  "ensure_expression_depth e =
     (if sem_height e \<le> MAX_EXPRESSION_DEPTH then Inr () else Inl TooDeep) \<and>
   (exceeds_safe_evaluation_depth e \<longleftrightarrow> MAX_EXPRESSION_DEPTH < height e)"
proof -
  have "\<not> exceeds_safe_evaluation_depth e \<longleftrightarrow> height e \<le> MAX_EXPRESSION_DEPTH"
    unfolding exceeds_safe_evaluation_depth_def safe_depth_walk_iff by simp
  then show ?thesis
    by (auto simp: ensure_expression_depth_def ensure_depth_walk_iff)
qed

lemma sem_height_le_height: "sem_height e \<le> height e"
proof (induction e)
  case (ECall n args)
  then show ?case by (auto simp: max_list0_le intro: order_trans)
    (metis (no_types, lifting) image_eqI list.set_map max_list0_le order_refl order_trans)
qed (auto simp: is_logical_def)

end
