(* ===== verification/Lexer.thy ===== *)
theory Lexer
  imports Ast
begin

text \<open>
  The tokenizer (\<open>greenlit-expr/src/lexer.rs\<close>). The loop over the character vector is a
  function of the current offset, the previous token and the characters that remain.
\<close>

record token_span =
  tok :: tok
  offset :: nat

fun is_value_position :: "tok option \<Rightarrow> bool" where
  "is_value_position None = True"
| "is_value_position (Some t) = (case t of
     LParen \<Rightarrow> True | LBracket \<Rightarrow> True | Comma \<Rightarrow> True | TNot \<Rightarrow> True | AndAnd \<Rightarrow> True
   | OrOr \<Rightarrow> True | EqEq \<Rightarrow> True | TNotEq \<Rightarrow> True | TLt \<Rightarrow> True | TLe \<Rightarrow> True | TGt \<Rightarrow> True
   | TGe \<Rightarrow> True
   | RParen \<Rightarrow> False | RBracket \<Rightarrow> False | Star \<Rightarrow> False | Dot \<Rightarrow> False | TNull \<Rightarrow> False
   | TTrue \<Rightarrow> False | TFalse \<Rightarrow> False
   | TNumber _ \<Rightarrow> False | TStr _ \<Rightarrow> False | Ident _ \<Rightarrow> False)"

definition is_ident_continue :: "uchar \<Rightarrow> bool" where
  "is_ident_continue ch \<longleftrightarrow> is_ascii_alphanumeric ch \<or> ch = cp CHR ''_'' \<or> ch = cp CHR ''-''"

definition is_number_boundary :: "uchar \<Rightarrow> bool" where
  "is_number_boundary ch \<longleftrightarrow> ch \<in> set (lit ''()[],!<>=&|'') \<or> is_whitespace ch"

definition parse_number :: "ustr \<Rightarrow> f64 option" where
  "parse_number text =
    (if text = lit ''Infinity'' then Some (Infinite False)
     else if text = lit ''-Infinity'' then Some (Infinite True)
     else case strip_prefix (lit ''0x'') text of
       Some hex \<Rightarrow> (if hex \<noteq> [] \<and> list_all is_ascii_hexdigit hex
          then map_option f64_of_nat (i32_from_str_radix hex 16) else None)
     | None \<Rightarrow>
     (case strip_prefix (lit ''0o'') text of
       Some oct \<Rightarrow> (if oct \<noteq> [] \<and> list_all (\<lambda>c. 48 \<le> c \<and> c \<le> 55) oct
          then map_option f64_of_nat (i32_from_str_radix oct 8) else None)
     | None \<Rightarrow>
       (if text = [] then None
        else let digits_part = strip_sign text in
          if digits_part = [] \<or> \<not> list_all is_decimal_char digits_part then None
          else if \<not> list_ex is_ascii_digit digits_part then None
          else (case parse_decimal text of
                  Some n \<Rightarrow> if is_nan n then None else Some n | None \<Rightarrow> None))))"

text \<open>
  The body of a quoted string after its opening quote: the text, the number of characters
  consumed (the closing quote included) and the rest; \<open>None\<close> when it never closes.
\<close>

fun scan_string :: "ustr \<Rightarrow> (ustr \<times> nat \<times> ustr) option" where
  "scan_string [] = None"
| "scan_string (c # cs) =
    (if c = cp CHR 0x27 then
       (case cs of
          c' # cs' \<Rightarrow> (if c' = cp CHR 0x27
             then map_option (\<lambda>(s, n, r). (cp CHR 0x27 # s, n + 2, r)) (scan_string cs')
             else Some ([], 1, cs))
        | [] \<Rightarrow> Some ([], 1, []))
     else map_option (\<lambda>(s, n, r). (c # s, n + 1, r)) (scan_string cs))"

lemma scan_string_rest:
  "scan_string cs = Some (s, n, r) \<Longrightarrow> length r < length cs \<and> r = drop n cs \<and> n \<le> length cs"
proof (induction cs arbitrary: s n r rule: scan_string.induct)
  case (2 c cs)
  then show ?case
    by (fastforce split: if_splits list.splits)
qed simp

definition keyword_or_ident :: "bool \<Rightarrow> ustr \<Rightarrow> tok" where
  "keyword_or_ident prev_was_dot text =
    (if prev_was_dot then Ident text
     else if text = lit ''null'' then TNull
     else if text = lit ''true'' then TTrue
     else if text = lit ''false'' then TFalse
     else if text = lit ''NaN'' then TNumber NaN
     else if text = lit ''Infinity'' then TNumber (Infinite False)
     else Ident text)"

definition peek_is :: "ustr \<Rightarrow> uchar \<Rightarrow> bool" where
  "peek_is cs x \<longleftrightarrow> (case cs of c # _ \<Rightarrow> c = x | [] \<Rightarrow> False)"

text \<open>A punctuation or operator token at \<open>ch\<close> with its length, given what follows.\<close>

definition punct :: "uchar \<Rightarrow> ustr \<Rightarrow> nat \<Rightarrow> parse_error + tok \<times> nat" where
  "punct ch rest start =
    (if ch = cp CHR ''('' then Inr (LParen, 1)
     else if ch = cp CHR '')'' then Inr (RParen, 1)
     else if ch = cp CHR ''['' then Inr (LBracket, 1)
     else if ch = cp CHR '']'' then Inr (RBracket, 1)
     else if ch = cp CHR '','' then Inr (Comma, 1)
     else if ch = cp CHR ''.'' then Inr (Dot, 1)
     else if ch = cp CHR ''*'' then Inr (Star, 1)
     else if ch = cp CHR ''!'' then
       (if peek_is rest (cp CHR ''='') then Inr (TNotEq, 2) else Inr (TNot, 1))
     else if ch = cp CHR ''<'' then
       (if peek_is rest (cp CHR ''='') then Inr (TLe, 2) else Inr (TLt, 1))
     else if ch = cp CHR ''>'' then
       (if peek_is rest (cp CHR ''='') then Inr (TGe, 2) else Inr (TGt, 1))
     else if ch = cp CHR ''='' then
       (if peek_is rest (cp CHR ''='') then Inr (EqEq, 2) else Inl (UnexpectedChar ch start))
     else if ch = cp CHR ''&'' then
       (if peek_is rest (cp CHR ''&'') then Inr (AndAnd, 2) else Inl (UnexpectedChar ch start))
     else if ch = cp CHR ''|'' then
       (if peek_is rest (cp CHR ''|'') then Inr (OrOr, 2) else Inl (UnexpectedChar ch start))
     else Inl (UnexpectedChar ch start))"

definition starts_number :: "tok option \<Rightarrow> uchar \<Rightarrow> bool" where
  "starts_number prev ch \<longleftrightarrow> is_ascii_digit ch \<or>
     ((ch = cp CHR ''+'' \<or> ch = cp CHR ''-'' \<or> ch = cp CHR ''.'') \<and> is_value_position prev)"

definition starts_ident :: "uchar \<Rightarrow> bool" where
  "starts_ident ch \<longleftrightarrow> is_ascii_alphabetic ch \<or> ch = cp CHR ''_''"

text \<open>The token that starts at \<open>ch\<close> (not a blank): the token, its length, the rest.\<close>

definition next_token :: "tok option \<Rightarrow> nat \<Rightarrow> uchar \<Rightarrow> ustr \<Rightarrow> parse_error + tok \<times> nat \<times> ustr" where
  "next_token prev i ch rest =
    (if ch = cp CHR 0x27 then
       (case scan_string rest of
          None \<Rightarrow> Inl (UnterminatedString i)
        | Some (s, n, r) \<Rightarrow> Inr (TStr s, n + 1, r))
     else if starts_number prev ch then
       (let more = takeWhile (\<lambda>c. \<not> is_number_boundary c) rest; text = ch # more in
        case parse_number text of
          Some n \<Rightarrow> Inr (TNumber n, length text, drop (length more) rest)
        | None \<Rightarrow> Inl (InvalidNumber text i))
     else if starts_ident ch then
       (let more = takeWhile is_ident_continue rest; text = ch # more in
        Inr (keyword_or_ident (prev = Some Dot) text, length text, drop (length more) rest))
     else rbind (punct ch rest i) (\<lambda>(t, n). Inr (t, n, drop (n - 1) rest)))"

lemma next_token_rest: "next_token prev i ch rest = Inr (t, n, r) \<Longrightarrow> length r \<le> length rest"
  by (auto simp: next_token_def Let_def rbind_eq_Inr dest!: scan_string_rest
      split: if_splits option.splits)

function lex_loop :: "nat \<Rightarrow> tok option \<Rightarrow> ustr \<Rightarrow> parse_error + token_span list" where
  "lex_loop i prev [] = Inr []"
| "lex_loop i prev (ch # rest) =
    (if is_whitespace ch then lex_loop (i + 1) prev rest
     else rbind (next_token prev i ch rest) (\<lambda>(t, n, r).
       rbind (lex_loop (i + n) (Some t) r) (\<lambda>ts. Inr (\<lparr>tok = t, offset = i\<rparr> # ts))))"
  by pat_completeness auto
termination
  by (relation "measure (\<lambda>(i, prev, cs). length cs)")
     (auto simp: less_Suc_eq_le dest: next_token_rest)

definition tokenize :: "ustr \<Rightarrow> parse_error + token_span list" where
  "tokenize source =
    (let utf16_len = length (encode_utf16 source) in
     if MAX_EXPRESSION_LENGTH < utf16_len then Inl (TooLong utf16_len)
     else lex_loop 0 None source)"

section \<open>Offsets\<close>

lemma punct_length: "punct ch rest i = Inr (t, n) \<Longrightarrow> 0 < n \<and> n \<le> Suc (length rest)"
  by (auto simp: punct_def peek_is_def split: if_splits list.splits)

lemma next_token_consumes:
  assumes "next_token prev i ch rest = Inr (t, n, r)"
  shows "0 < n" "n \<le> Suc (length rest)" "r = drop n (ch # rest)"
proof -
  have tw: "length (takeWhile P rest) \<le> length rest" for P :: "uchar \<Rightarrow> bool"
    by (rule length_takeWhile_le)
  have "0 < n \<and> n \<le> Suc (length rest) \<and> r = drop n (ch # rest)"
    using assms tw
    by (auto simp: next_token_def Let_def rbind_eq_Inr drop_Cons' dest!: scan_string_rest punct_length
        split: if_splits option.splits)
  then show "0 < n" "n \<le> Suc (length rest)" "r = drop n (ch # rest)" by auto
qed

lemma lex_loop_offsets:
  "lex_loop i prev cs = Inr ts \<Longrightarrow>
     sorted_wrt (<) (map offset ts) \<and>
     (\<forall>t \<in> set ts. i \<le> offset t \<and> offset t - i < length cs \<and> \<not> is_whitespace (cs ! (offset t - i)))"
proof (induction i prev cs arbitrary: ts rule: lex_loop.induct)
  case (2 i prev ch rest)
  show ?case
  proof (cases "is_whitespace ch")
    case True
    with 2 have "sorted_wrt (<) (map offset ts)"
      and IH: "\<forall>t \<in> set ts. i + 1 \<le> offset t \<and> offset t - (i + 1) < length rest \<and>
        \<not> is_whitespace (rest ! (offset t - (i + 1)))" by simp_all
    then show ?thesis by (fastforce simp: nth_Cons')
  next
    case False
    with 2(3) obtain t n r ts' where nt: "next_token prev i ch rest = Inr (t, n, r)"
      and lp: "lex_loop (i + n) (Some t) r = Inr ts'"
      and ts: "ts = \<lparr>tok = t, offset = i\<rparr> # ts'"
      by (auto simp: rbind_eq_Inr)
    note c = next_token_consumes [OF nt]
    from 2(2) [OF False nt refl refl lp] have srt: "sorted_wrt (<) (map offset ts')"
      and IH: "\<And>x. x \<in> set ts' \<Longrightarrow> i + n \<le> offset x \<and> offset x - (i + n) < length r \<and>
        \<not> is_whitespace (r ! (offset x - (i + n)))" by auto
    have all: "i \<le> offset x \<and> offset x - i < length (ch # rest) \<and>
        \<not> is_whitespace ((ch # rest) ! (offset x - i)) \<and> i < offset x" if "x \<in> set ts'" for x
    proof -
      from IH [OF that] c have "i + n \<le> offset x" "offset x - (i + n) < Suc (length rest) - n"
        "\<not> is_whitespace ((ch # rest) ! (n + (offset x - (i + n))))"
        by auto
      moreover from this(1) have "n + (offset x - (i + n)) = offset x - i" by simp
      ultimately show ?thesis using c(1) by auto
    qed
    have "\<forall>x \<in> set ts. i \<le> offset x \<and> offset x - i < length (ch # rest) \<and>
        \<not> is_whitespace ((ch # rest) ! (offset x - i))"
      unfolding ts using False all by (simp del: nth_Cons_pos nth_Cons_numeral)
    with srt all show ?thesis by (simp add: ts)
  qed
qed simp

text \<open>
  The tokenizer reports faithful positions. Whenever it succeeds, the offsets of its tokens
  are strictly increasing, lie inside the source, and point at a character that is not white
  space; so every diagnostic that carries a token offset names a real character of the
  expression.
\<close>

lemma tokenize_offsets:
  assumes "tokenize source = Inr ts"
  shows "sorted_wrt (<) (map offset ts) \<and>
    (\<forall>t \<in> set ts. offset t < length source \<and> \<not> is_whitespace (source ! offset t)) \<and>
    length (encode_utf16 source) \<le> MAX_EXPRESSION_LENGTH"
  using assms lex_loop_offsets [of 0 None source ts]
  by (auto simp: tokenize_def Let_def split: if_splits)

section \<open>Quoted strings\<close>

text \<open>The source text of a string literal: every quote doubled, between two quotes.\<close>

definition quote_body :: "ustr \<Rightarrow> ustr" where
  "quote_body s = concat (map (\<lambda>c. if c = cp CHR 0x27 then [c, c] else [c]) s)"

lemma scan_string_quote_body:
  assumes "case rest of [] \<Rightarrow> True | c # _ \<Rightarrow> c \<noteq> cp CHR 0x27"
  shows "scan_string (quote_body s @ cp CHR 0x27 # rest) = Some (s, length (quote_body s) + 1, rest)"
proof (induction s)
  case Nil
  then show ?case using assms by (cases rest) (auto simp: quote_body_def)
next
  case (Cons c s)
  then show ?case by (cases "c = cp CHR 0x27") (simp_all add: quote_body_def)
qed

lemma scan_string_injective:
  "scan_string cs = Some (s, n, r) \<Longrightarrow> cs = quote_body s @ cp CHR 0x27 # r"
proof (induction cs arbitrary: s n r rule: scan_string.induct)
  case (2 c cs)
  then show ?case
    by (fastforce simp: quote_body_def split: if_splits list.splits)
qed simp

text \<open>
  String literals are lexed exactly. A quoted text with its quotes doubled, not followed by
  a further quote, is one string token holding the original text; and conversely whatever the
  scanner accepts is the doubled form of the text it returns, so no two texts share a spelling.
\<close>

lemma string_literal_round_trip:
  assumes "case rest of [] \<Rightarrow> True | c # _ \<Rightarrow> c \<noteq> cp CHR 0x27"
  shows "next_token prev i (cp CHR 0x27) (quote_body s @ cp CHR 0x27 # rest) =
      Inr (TStr s, length (quote_body s) + 2, rest) \<and>
    (\<forall>cs n r. scan_string cs = Some (s, n, r) \<longrightarrow> cs = quote_body s @ cp CHR 0x27 # r)"
  using scan_string_quote_body [OF assms] scan_string_injective
  by (simp add: next_token_def)

end
