(* ===== verification/Parser.thy ===== *)
theory Parser
  imports Lexer
begin

text \<open>
  The explicit-frame parser: the function registry (\<open>functions/mod.rs\<close>), the validation and
  entry point (\<open>parser.rs\<close>), balanced logical chains (\<open>parser/depth.rs\<close>), one frame's
  operand and operator stacks (\<open>parser/iterative/state.rs\<close>) and the token loop
  (\<open>parser/iterative.rs\<close>). Stacks are lists with the top first.
\<close>

definition quoted :: "string \<Rightarrow> string" where
  "quoted s = [CHR 0x27] @ s @ [CHR 0x27]"

section \<open>Function registry and validation\<close>

record arity =
  min_args :: nat
  max_args :: nat
  display :: string

abbreviation arity_of :: "nat \<Rightarrow> nat \<Rightarrow> string \<Rightarrow> arity" where
  "arity_of lo hi d \<equiv> \<lparr>min_args = lo, max_args = hi, display = d\<rparr>"

definition ARITIES :: "(ustr \<times> arity) list" where
  "ARITIES =
    [(lit ''contains'', arity_of 2 2 ''2''), (lit ''startswith'', arity_of 2 2 ''2''),
     (lit ''endswith'', arity_of 2 2 ''2''), (lit ''format'', arity_of 1 255 ''1-255''),
     (lit ''join'', arity_of 1 2 ''1-2''), (lit ''tojson'', arity_of 1 1 ''1''),
     (lit ''fromjson'', arity_of 1 1 ''1''), (lit ''hashfiles'', arity_of 1 255 ''1-255''),
     (lit ''case'', arity_of 3 255 ''3-255''), (lit ''success'', arity_of 0 0 ''0''),
     (lit ''failure'', arity_of 0 0 ''0''), (lit ''cancelled'', arity_of 0 0 ''0''),
     (lit ''always'', arity_of 0 0 ''0'')]"

definition lookup_arity :: "ustr \<Rightarrow> arity option" where
  "lookup_arity name = map_of ARITIES (to_ascii_lowercase name)"

definition ROOT_NAMES :: "ustr list" where
  "ROOT_NAMES = map lit [''github'', ''env'', ''vars'', ''secrets'', ''needs'', ''matrix'',
     ''strategy'', ''steps'', ''runner'', ''job'', ''inputs'']"

definition validate_function :: "ustr \<Rightarrow> nat \<Rightarrow> parse_error + unit" where
  "validate_function name given =
    (case lookup_arity name of
       None \<Rightarrow> Inl (UnrecognizedFunction name)
     | Some a \<Rightarrow>
        (if given < min_args a \<or> max_args a < given then Inl (WrongArity name given (display a))
         else if eq_ignore_ascii_case name (lit ''case'') \<and> even given then Inl EvenCaseParameters
         else Inr ()))"

definition validate_named_value :: "ustr \<Rightarrow> parse_error + unit" where
  "validate_named_value name =
    (if list_ex (\<lambda>root. eq_ignore_ascii_case root name) ROOT_NAMES then Inr ()
     else Inl (UnrecognizedNamedValue name))"

section \<open>Balanced logical chains\<close>

fun pair_up :: "bin_op \<Rightarrow> expr list \<Rightarrow> expr list" where
  "pair_up op (lhs # rhs # es) = EBinary op lhs rhs # pair_up op es"
| "pair_up op [lhs] = [lhs]"
| "pair_up op [] = []"

lemma length_pair_up: "length (pair_up op es) = (length es + 1) div 2"
  by (induction op es rule: pair_up.induct) auto

function balance :: "bin_op \<Rightarrow> expr list \<Rightarrow> expr list" where
  "balance op es = (if 1 < length es then balance op (pair_up op es) else es)"
  by pat_completeness auto
termination
  by (relation "measure (\<lambda>(op, es). length es)") (auto simp: length_pair_up)

declare balance.simps [simp del]

definition build_balanced_logical :: "expr list \<Rightarrow> bin_op \<Rightarrow> parse_error + expr" where
  "build_balanced_logical operands op =
    (case balance op operands of
       [] \<Rightarrow> Inl (UnexpectedEof ''an expression'')
     | e # _ \<Rightarrow> rbind (ensure_expression_depth e) (\<lambda>_. Inr e))"

section \<open>One frame's operands and operators\<close>

datatype pending = Atom expr | Logical bin_op "expr list"

record operand =
  opd_value :: pending
  postfixable :: bool

datatype operator = OpNot | OpBinary bin_op

fun precedence :: "operator \<Rightarrow> nat" where
  "precedence OpNot = 5"
| "precedence (OpBinary op) = (case op of
     Lt \<Rightarrow> 4 | Le \<Rightarrow> 4 | Gt \<Rightarrow> 4 | Ge \<Rightarrow> 4 | Eq \<Rightarrow> 3 | NotEq \<Rightarrow> 3 | And \<Rightarrow> 2 | Or \<Rightarrow> 1)"

record expression_state =
  operands :: "operand list"
  operators :: "operator list"
  expecting_operand :: bool
  started :: bool

definition empty_state :: expression_state where
  "empty_state = \<lparr>operands = [], operators = [], expecting_operand = True, started = False\<rparr>"

definition atom :: "expr \<Rightarrow> bool \<Rightarrow> operand" where
  "atom e pf = \<lparr>opd_value = Atom e, postfixable = pf\<rparr>"

fun into_expr :: "pending \<Rightarrow> parse_error + expr" where
  "into_expr (Atom e) = rbind (ensure_expression_depth e) (\<lambda>_. Inr e)"
| "into_expr (Logical op es) = build_balanced_logical es op"

definition logical_operands :: "bin_op \<Rightarrow> pending \<Rightarrow> parse_error + expr list" where
  "logical_operands op p = (case p of
     Logical op' es \<Rightarrow> (if op' = op then Inr es else rbind (into_expr p) (\<lambda>e. Inr [e]))
   | Atom _ \<Rightarrow> rbind (into_expr p) (\<lambda>e. Inr [e]))"

definition merge_logical :: "bin_op \<Rightarrow> pending \<Rightarrow> pending \<Rightarrow> parse_error + pending" where
  "merge_logical op lhs rhs =
     rbind (logical_operands op lhs) (\<lambda>ls.
     rbind (logical_operands op rhs) (\<lambda>rs. Inr (Logical op (ls @ rs))))"

definition push_operand :: "operand \<Rightarrow> expression_state \<Rightarrow> parse_error + expression_state" where
  "push_operand opd st =
    (if \<not> expecting_operand st then Inl (UnexpectedToken (FoundText ''expression'') ''an operator'')
     else Inr (st\<lparr>operands := opd # operands st, expecting_operand := False, started := True\<rparr>))"

definition push_not :: "expression_state \<Rightarrow> parse_error + expression_state" where
  "push_not st =
    (if \<not> expecting_operand st then Inl (UnexpectedToken (FoundText ''Not'') ''an operator'')
     else Inr (st\<lparr>operators := OpNot # operators st, started := True\<rparr>))"

definition reduce_value :: "operator \<Rightarrow> operand \<Rightarrow> operand list \<Rightarrow>
    parse_error + pending \<times> operand list" where
  "reduce_value operator rhs rest = (case operator of
     OpNot \<Rightarrow> rbind (into_expr (opd_value rhs)) (\<lambda>inner.
       rbind (ensure_expression_depth (ENot inner)) (\<lambda>_. Inr (Atom (ENot inner), rest)))
   | OpBinary op \<Rightarrow> (case rest of
       [] \<Rightarrow> Inl (UnexpectedEof ''a left-hand operand'')
     | lhs # rest' \<Rightarrow>
        (if is_logical op then
           rbind (merge_logical op (opd_value lhs) (opd_value rhs)) (\<lambda>v. Inr (v, rest'))
         else
           rbind (into_expr (opd_value lhs)) (\<lambda>l.
           rbind (into_expr (opd_value rhs)) (\<lambda>r.
           rbind (ensure_expression_depth (EBinary op l r)) (\<lambda>_.
             Inr (Atom (EBinary op l r), rest')))))))"

definition reduce_top :: "expression_state \<Rightarrow> parse_error + expression_state" where
  "reduce_top st = (case operators st of
     [] \<Rightarrow> Inl (UnexpectedEof ''an operator'')
   | operator # ops \<Rightarrow> (case operands st of
       [] \<Rightarrow> Inl (UnexpectedEof ''a right-hand operand'')
     | rhs # rest \<Rightarrow> rbind (reduce_value operator rhs rest) (\<lambda>(v, rest').
         Inr (st\<lparr>operators := ops, operands := \<lparr>opd_value = v, postfixable = False\<rparr> # rest'\<rparr>))))"

lemma reduce_top_operators:
  "reduce_top st = Inr st' \<Longrightarrow> operators st = hd (operators st) # operators st'"
  by (auto simp: reduce_top_def rbind_eq_Inr split: list.splits)

text \<open>The two reduction loops: while a condition on the top operator holds.\<close>

function reduce_loop :: "(operator \<Rightarrow> bool) \<Rightarrow> expression_state \<Rightarrow> parse_error + expression_state" where
  "reduce_loop c st = (case operators st of
     [] \<Rightarrow> Inr st
   | op # _ \<Rightarrow> (if c op then rbind (reduce_top st) (reduce_loop c) else Inr st))"
  by pat_completeness auto
termination
proof (relation "measure (\<lambda>(c, st). length (operators st))", goal_cases)
  case (2 c st op ops st')
  then have "operators st = hd (operators st) # operators st'"
    by (intro reduce_top_operators) simp
  then have "length (operators st') < length (operators st)" by (metis length_Cons lessI)
  then show ?case by simp
qed simp

declare reduce_loop.simps [simp del]

definition push_binary :: "bin_op \<Rightarrow> expression_state \<Rightarrow> parse_error + expression_state" where
  "push_binary op st =
    (if expecting_operand st then Inl (UnexpectedToken (FoundOp op) ''an expression'')
     else rbind (reduce_loop (\<lambda>t. precedence (OpBinary op) \<le> precedence t) st) (\<lambda>st'.
       Inr (st'\<lparr>operators := OpBinary op # operators st', expecting_operand := True\<rparr>)))"

definition take_postfix_target ::
  "expression_state \<Rightarrow> parse_error + expr \<times> expression_state" where
  "take_postfix_target st =
    (if expecting_operand st
     then Inl (UnexpectedToken (FoundText ''postfix operator'') ''an expression'')
     else case operands st of
       [] \<Rightarrow> Inl (UnexpectedEof ''an expression before a postfix operator'')
     | opd # rest \<Rightarrow>
        (if \<not> postfixable opd then Inl (UnexpectedToken (FoundText ''postfix operator'')
            ''a named value, function call, group, or index target'')
         else rbind (into_expr (opd_value opd)) (\<lambda>e. Inr (e, st\<lparr>operands := rest\<rparr>))))"

definition put_postfix :: "expr \<Rightarrow> expression_state \<Rightarrow> expression_state" where
  "put_postfix e st =
     st\<lparr>operands := atom e True # operands st, expecting_operand := False, started := True\<rparr>"

definition finish :: "expression_state \<Rightarrow> parse_error + pending" where
  "finish st =
    (if \<not> started st then Inl (UnexpectedEof ''an expression'')
     else if expecting_operand st then Inl (UnexpectedEof ''an expression after an operator'')
     else rbind (reduce_loop (\<lambda>_. True) st) (\<lambda>st'. case operands st' of
       [opd] \<Rightarrow> Inr (opd_value opd)
     | _ \<Rightarrow> Inl (TrailingInput ''multiple expressions'')))"

section \<open>Frames and the token loop\<close>

datatype frame_kind = Root | Group | Function ustr "expr list" | IndexOf expr

record frame =
  fkind :: frame_kind
  fstate :: expression_state

definition new_frame :: "frame_kind \<Rightarrow> frame" where
  "new_frame k = \<lparr>fkind = k, fstate = empty_state\<rparr>"

text \<open>\<open>current_frame(frames)?.state.op(..)?\<close>\<close>

definition on_current :: "(expression_state \<Rightarrow> parse_error + expression_state) \<Rightarrow>
    frame list \<Rightarrow> parse_error + frame list" where
  "on_current f frames = (case frames of
     [] \<Rightarrow> Inl (UnexpectedEof ''an expression'')
   | fr # rest \<Rightarrow> rbind (f (fstate fr)) (\<lambda>st. Inr (fr\<lparr>fstate := st\<rparr> # rest)))"

definition ensure_operand_position :: "frame list \<Rightarrow> tok \<Rightarrow> parse_error + unit" where
  "ensure_operand_position frames t = (case frames of
     [] \<Rightarrow> Inl (UnexpectedEof ''an expression'')
   | fr # _ \<Rightarrow> (if expecting_operand (fstate fr) then Inr ()
               else Inl (UnexpectedToken (FoundTok t) ''an operator'')))"

definition take_target :: "frame list \<Rightarrow> parse_error + expr \<times> frame list" where
  "take_target frames = (case frames of
     [] \<Rightarrow> Inl (UnexpectedEof ''an expression'')
   | fr # rest \<Rightarrow> rbind (take_postfix_target (fstate fr)) (\<lambda>(e, st).
       Inr (e, fr\<lparr>fstate := st\<rparr> # rest)))"

definition close_parenthesis :: "frame list \<Rightarrow> parse_error + frame list" where
  "close_parenthesis frames = (case frames of
     [] \<Rightarrow> Inl (UnexpectedToken (FoundTok RParen) ''an operator'')
   | fr # rest \<Rightarrow> (case fkind fr of
       Group \<Rightarrow> rbind (finish (fstate fr)) (\<lambda>v.
         on_current (push_operand \<lparr>opd_value = v, postfixable = True\<rparr>) rest)
     | Function name args \<Rightarrow>
         rbind (if started (fstate fr)
             then rbind (finish (fstate fr)) (\<lambda>v. rbind (into_expr v) (\<lambda>e. Inr (args @ [e])))
             else if args \<noteq> [] then Inl (UnexpectedToken (FoundText ''RParen'')
                (''an expression after '' @ quoted '',''))
             else Inr args) (\<lambda>args'.
         rbind (validate_function name (length args')) (\<lambda>_.
         rbind (ensure_expression_depth (ECall name args')) (\<lambda>_.
           on_current (push_operand (atom (ECall name args') True)) rest)))
     | _ \<Rightarrow> Inl (UnexpectedToken (FoundTok RParen) ''an operator'')))"

definition close_index :: "frame list \<Rightarrow> parse_error + frame list" where
  "close_index frames = (case frames of
     [] \<Rightarrow> Inl (UnexpectedToken (FoundTok RBracket) ''an operator'')
   | fr # rest \<Rightarrow> (case fkind fr of
       IndexOf target \<Rightarrow> rbind (finish (fstate fr)) (\<lambda>v. rbind (into_expr v) (\<lambda>index.
         rbind (ensure_expression_depth (EIndex target index)) (\<lambda>_.
           on_current (\<lambda>st. Inr (put_postfix (EIndex target index) st)) rest)))
     | _ \<Rightarrow> Inl (UnexpectedToken (FoundTok RBracket) ''an operator'')))"

definition finish_function_argument :: "frame list \<Rightarrow> parse_error + frame list" where
  "finish_function_argument frames = (case frames of
     [] \<Rightarrow> Inl (UnexpectedEof ''an expression'')
   | fr # rest \<Rightarrow> (case fkind fr of
       Function name args \<Rightarrow> rbind (finish (fstate fr)) (\<lambda>v. rbind (into_expr v) (\<lambda>e.
         Inr (\<lparr>fkind = Function name (args @ [e]), fstate = empty_state\<rparr> # rest)))
     | _ \<Rightarrow> Inl (UnexpectedToken (FoundTok Comma) ''an operator'')))"

definition after_postfix :: "expr \<Rightarrow> frame list \<Rightarrow> 'a \<Rightarrow> parse_error + frame list \<times> 'a" where
  "after_postfix e frames rest =
     rbind (ensure_expression_depth e) (\<lambda>_.
     rbind (on_current (\<lambda>st. Inr (put_postfix e st)) frames) (\<lambda>frames'. Inr (frames', rest)))"

definition with_rest :: "'a \<Rightarrow> parse_error + frame list \<Rightarrow> parse_error + frame list \<times> 'a" where
  "with_rest rest m = rbind m (\<lambda>frames. Inr (frames, rest))"

definition push_literal :: "expr \<Rightarrow> frame list \<Rightarrow> parse_error + frame list" where
  "push_literal e = on_current (push_operand (atom e False))"

text \<open>\<open>eat\<close> is the test of the token at the position, consumed when it matches.\<close>

definition eat :: "tok \<Rightarrow> tok list \<Rightarrow> tok list option" where
  "eat t toks = (if toks \<noteq> [] \<and> hd toks = t then Some (tl toks) else None)"

definition parse_ident :: "frame list \<Rightarrow> ustr \<Rightarrow> tok list \<Rightarrow>
    parse_error + frame list \<times> tok list" where
  "parse_ident frames name rest =
     rbind (ensure_operand_position frames (Ident name)) (\<lambda>_. case eat LParen rest of
       Some rest' \<Rightarrow> Inr (new_frame (Function name []) # frames, rest')
     | None \<Rightarrow> rbind (validate_named_value name) (\<lambda>_.
         with_rest rest (on_current (push_operand (atom (ENamedValue name) True)) frames)))"

definition parse_bracket :: "frame list \<Rightarrow> tok list \<Rightarrow> parse_error + frame list \<times> tok list" where
  "parse_bracket frames rest =
     rbind (take_target frames) (\<lambda>(target, frames'). case eat Star rest of
       Some rest' \<Rightarrow> (case eat RBracket rest' of
          Some rest'' \<Rightarrow> after_postfix (EWildcard target) frames' rest''
        | None \<Rightarrow> Inl (UnexpectedToken (FoundText ''Star'') (quoted '']'' @ '' after '' @ quoted ''[*'')))
     | None \<Rightarrow> Inr (new_frame (IndexOf target) # frames', rest))"

definition dot_expectation :: string where
  "dot_expectation = ''a property name or '' @ quoted ''*'' @ '' after '' @ quoted ''.''"

definition parse_dot :: "frame list \<Rightarrow> tok list \<Rightarrow> parse_error + frame list \<times> tok list" where
  "parse_dot frames rest =
     rbind (take_target frames) (\<lambda>(target, frames'). case rest of
       [] \<Rightarrow> Inl (UnexpectedEof dot_expectation)
     | t # rest' \<Rightarrow> (case t of
         Ident name \<Rightarrow> after_postfix (EIndex target (EStr name)) frames' rest'
       | Star \<Rightarrow> after_postfix (EWildcard target) frames' rest'
       | _ \<Rightarrow> Inl (UnexpectedToken (FoundTok t) dot_expectation)))"

text \<open>One iteration of the loop: the frames and the tokens that remain after it.\<close>

definition parse_step :: "frame list \<Rightarrow> tok \<Rightarrow> tok list \<Rightarrow> parse_error + frame list \<times> tok list" where
  "parse_step frames t rest = (case t of
     TNull \<Rightarrow> with_rest rest (push_literal ENull frames)
   | TTrue \<Rightarrow> with_rest rest (push_literal (EBool True) frames)
   | TFalse \<Rightarrow> with_rest rest (push_literal (EBool False) frames)
   | TNumber n \<Rightarrow> with_rest rest (push_literal (ENumber n) frames)
   | TStr s \<Rightarrow> with_rest rest (push_literal (EStr s) frames)
   | Ident name \<Rightarrow> parse_ident frames name rest
   | TNot \<Rightarrow> with_rest rest (on_current push_not frames)
   | EqEq \<Rightarrow> with_rest rest (on_current (push_binary Eq) frames)
   | TNotEq \<Rightarrow> with_rest rest (on_current (push_binary NotEq) frames)
   | TLt \<Rightarrow> with_rest rest (on_current (push_binary Lt) frames)
   | TLe \<Rightarrow> with_rest rest (on_current (push_binary Le) frames)
   | TGt \<Rightarrow> with_rest rest (on_current (push_binary Gt) frames)
   | TGe \<Rightarrow> with_rest rest (on_current (push_binary Ge) frames)
   | AndAnd \<Rightarrow> with_rest rest (on_current (push_binary And) frames)
   | OrOr \<Rightarrow> with_rest rest (on_current (push_binary Or) frames)
   | LParen \<Rightarrow> rbind (ensure_operand_position frames LParen) (\<lambda>_.
       Inr (new_frame Group # frames, rest))
   | RParen \<Rightarrow> with_rest rest (close_parenthesis frames)
   | LBracket \<Rightarrow> parse_bracket frames rest
   | RBracket \<Rightarrow> with_rest rest (close_index frames)
   | Dot \<Rightarrow> parse_dot frames rest
   | Comma \<Rightarrow> with_rest rest (finish_function_argument frames)
   | Star \<Rightarrow> Inl (UnexpectedToken (FoundTok Star) ''an expression''))"

lemma with_rest_Inr: "with_rest r m = Inr (fs, r') \<longleftrightarrow> m = Inr fs \<and> r' = r"
  by (auto simp: with_rest_def rbind_eq_Inr)

lemma after_postfix_Inr:
  "after_postfix e frames r = Inr (fs, r') \<longleftrightarrow> r' = r \<and> ensure_expression_depth e = Inr () \<and>
     on_current (\<lambda>st. Inr (put_postfix e st)) frames = Inr fs"
  by (auto simp: after_postfix_def rbind_eq_Inr)

lemma eat_Some: "eat t toks = Some r \<longleftrightarrow> toks = t # r"
  by (cases toks) (auto simp: eat_def)

lemma parse_ident_Inr:
  "parse_ident frames name rest = Inr (frames', rest') \<longleftrightarrow>
     ensure_operand_position frames (Ident name) = Inr () \<and>
     (case eat LParen rest of
        Some r \<Rightarrow> frames' = new_frame (Function name []) # frames \<and> rest' = r
      | None \<Rightarrow> validate_named_value name = Inr () \<and> rest' = rest \<and>
          on_current (push_operand (atom (ENamedValue name) True)) frames = Inr frames')"
  by (auto simp: parse_ident_def rbind_eq_Inr with_rest_Inr split: option.splits)

lemma parse_bracket_Inr:
  "parse_bracket frames rest = Inr (frames', rest') \<longleftrightarrow>
     (\<exists>target fs. take_target frames = Inr (target, fs) \<and>
       ((\<exists>r. rest = Star # RBracket # r \<and> after_postfix (EWildcard target) fs r = Inr (frames', rest')) \<or>
        (eat Star rest = None \<and> frames' = new_frame (IndexOf target) # fs \<and> rest' = rest)))"
proof (cases "eat Star rest")
  case None
  then show ?thesis by (auto simp: parse_bracket_def rbind_eq_Inr eat_def)
next
  case (Some r)
  then show ?thesis
    by (cases "eat RBracket r") (auto simp: parse_bracket_def rbind_eq_Inr eat_Some, auto simp: eat_def)
qed

lemma parse_dot_Inr:
  "parse_dot frames rest = Inr (frames', rest') \<longleftrightarrow>
     (\<exists>target fs r. take_target frames = Inr (target, fs) \<and>
       ((\<exists>name. rest = Ident name # r \<and>
           after_postfix (EIndex target (EStr name)) fs r = Inr (frames', rest')) \<or>
        (rest = Star # r \<and> after_postfix (EWildcard target) fs r = Inr (frames', rest'))))"
proof (cases rest)
  case (Cons t r)
  then show ?thesis by (cases t) (auto simp: parse_dot_def rbind_eq_Inr)
qed (auto simp: parse_dot_def rbind_eq_Inr)

lemma parse_step_rest:
  assumes "parse_step frames t rest = Inr (frames', rest')"
  shows "length rest' \<le> length rest"
proof (cases t)
  case (Ident name)
  with assms show ?thesis
    by (auto simp: parse_step_def parse_ident_Inr eat_Some split: option.splits)
next
  case LBracket
  with assms show ?thesis
    by (auto simp: parse_step_def parse_bracket_Inr after_postfix_Inr)
next
  case Dot
  with assms show ?thesis
    by (auto simp: parse_step_def parse_dot_Inr after_postfix_Inr)
qed (use assms in \<open>auto simp: parse_step_def rbind_eq_Inr with_rest_Inr\<close>)

function parse_loop :: "frame list \<Rightarrow> tok list \<Rightarrow> parse_error + frame list" where
  "parse_loop frames [] = Inr frames"
| "parse_loop frames (t # rest) =
     rbind (parse_step frames t rest) (\<lambda>(frames', rest'). parse_loop frames' rest')"
  by pat_completeness auto
termination
  by (relation "measure (\<lambda>(frames, toks). length toks)")
     (auto simp: less_Suc_eq_le dest: parse_step_rest)

definition parse_tokens :: "tok list \<Rightarrow> parse_error + expr" where
  "parse_tokens toks =
     rbind (parse_loop [new_frame Root] toks) (\<lambda>frames. case frames of
       [fr] \<Rightarrow> rbind (finish (fstate fr)) into_expr
     | [] \<Rightarrow> Inl (UnexpectedEof ''an expression'')
     | fr # _ \<Rightarrow> Inl (UnexpectedEof (case fkind fr of
           Group \<Rightarrow> quoted '')'' @ '' to close '' @ quoted ''(''
         | Function _ _ \<Rightarrow> quoted '')'' @ '' to close '' @ quoted ''(''
         | IndexOf _ \<Rightarrow> quoted '']'' @ '' to close '' @ quoted ''[''
         | Root \<Rightarrow> ''an expression'')))"

definition parse :: "ustr \<Rightarrow> parse_error + expr" where
  "parse source =
     rbind (tokenize source) (\<lambda>tokens.
     rbind (parse_tokens (map tok tokens)) (\<lambda>e.
     rbind (ensure_expression_depth e) (\<lambda>_. Inr e)))"

section \<open>What the parser guarantees\<close>

text \<open>
  Well-formed trees: every call names a registered function with an accepted number of
  arguments, every named value is a context root.
\<close>

primrec well_formed :: "expr \<Rightarrow> bool" where
  "well_formed ENull = True"
| "well_formed (EBool _) = True"
| "well_formed (ENumber _) = True"
| "well_formed (EStr _) = True"
| "well_formed (ENamedValue name) = (validate_named_value name = Inr ())"
| "well_formed (ECall name args) =
     (validate_function name (length args) = Inr () \<and> list_all id (map well_formed args))"
| "well_formed (EIndex t i) = (well_formed t \<and> well_formed i)"
| "well_formed (EWildcard t) = well_formed t"
| "well_formed (ENot t) = well_formed t"
| "well_formed (EBinary _ l r) = (well_formed l \<and> well_formed r)"

text \<open>The errors that report a broken stack and not a malformed input.\<close>

definition stack_error :: "parse_error \<Rightarrow> bool" where
  "stack_error e \<longleftrightarrow> (\<exists>s. e = TrailingInput s) \<or>
     (\<exists>s. e = UnexpectedEof s \<and> s \<in> {''a left-hand operand'', ''a right-hand operand'',
        ''an operator'', ''an expression before a postfix operator''})"

abbreviation parses :: "('a \<Rightarrow> bool) \<Rightarrow> parse_error + 'a \<Rightarrow> bool" where
  "parses \<equiv> outcome (\<lambda>e. \<not> stack_error e)"

lemma stack_error_simps [simp]:
  "\<not> stack_error (UnexpectedToken f s)" "\<not> stack_error TooDeep" "\<not> stack_error (TooLong k)"
  "\<not> stack_error (WrongArity n g d)" "\<not> stack_error EvenCaseParameters"
  "\<not> stack_error (UnrecognizedFunction n)" "\<not> stack_error (UnrecognizedNamedValue n)"
  "\<not> stack_error (UnexpectedEof ''an expression'')"
  "\<not> stack_error (UnexpectedEof ''an expression after an operator'')"
  by (simp_all add: stack_error_def)

fun pending_ok :: "pending \<Rightarrow> bool" where
  "pending_ok (Atom e) = well_formed e"
| "pending_ok (Logical op es) = list_all well_formed es"

definition binaries :: "operator list \<Rightarrow> nat" where
  "binaries ops = length (filter (\<lambda>t. t \<noteq> OpNot) ops)"

lemma binaries_simps [simp]:
  "binaries [] = 0" "binaries (OpNot # ops) = binaries ops"
  "binaries (OpBinary op # ops) = Suc (binaries ops)"
  by (simp_all add: binaries_def)

text \<open>
  A frame's stacks: every operand is well formed and the operands outnumber the binary
  operators by one, less one while an operand is expected, less one while the target of an
  index expression is taken out.
\<close>

definition state_ok :: "bool \<Rightarrow> expression_state \<Rightarrow> bool" where
  "state_ok taken st \<longleftrightarrow> list_all (\<lambda>opd. pending_ok (opd_value opd)) (operands st) \<and>
     (taken \<longrightarrow> \<not> expecting_operand st) \<and>
     length (operands st) + of_bool taken + of_bool (expecting_operand st) =
       Suc (binaries (operators st))"

fun kind_ok :: "frame_kind \<Rightarrow> bool" where
  "kind_ok (Function name args) = list_all well_formed args"
| "kind_ok (IndexOf target) = well_formed target"
| "kind_ok _ = True"

fun is_index :: "frame_kind \<Rightarrow> bool" where
  "is_index (IndexOf _) = True"
| "is_index _ = False"

fun frames_ok :: "bool \<Rightarrow> frame list \<Rightarrow> bool" where
  "frames_ok taken [] = False"
| "frames_ok taken (fr # rest) =
     (state_ok taken (fstate fr) \<and> kind_ok (fkind fr) \<and>
      (if rest = [] then fkind fr = Root
       else fkind fr \<noteq> Root \<and> frames_ok (is_index (fkind fr)) rest))"

lemma depth_parses: "parses (\<lambda>_. True) (ensure_expression_depth e)"
  by (simp add: ensure_expression_depth_def ensure_depth_walk_iff)

lemma pair_up_ok: "list_all well_formed es \<Longrightarrow> list_all well_formed (pair_up op es)"
  by (induction op es rule: pair_up.induct) auto

lemma balance_ok: "list_all well_formed es \<Longrightarrow> list_all well_formed (balance op es)"
proof (induction op es rule: balance.induct)
  case (1 op es)
  then show ?case by (subst balance.simps) (simp add: pair_up_ok)
qed

lemma into_expr_parses: "pending_ok p \<Longrightarrow> parses well_formed (into_expr p)"
proof (cases p)
  case (Atom e)
  then show "pending_ok p \<Longrightarrow> ?thesis" by (auto intro: outcome_rbind [OF depth_parses])
next
  case (Logical op es)
  assume "pending_ok p"
  then have "list_all well_formed (balance op es)" using Logical by (simp add: balance_ok)
  then show ?thesis
    by (auto simp: Logical build_balanced_logical_def intro: outcome_rbind [OF depth_parses]
        split: list.splits)
qed

lemma logical_operands_parses:
  "pending_ok p \<Longrightarrow> parses (list_all well_formed) (logical_operands op p)"
  by (cases p)
     (auto simp: logical_operands_def intro!: outcome_rbind [OF into_expr_parses] simp del: into_expr.simps)

lemma merge_logical_parses:
  "pending_ok p \<Longrightarrow> pending_ok q \<Longrightarrow> parses pending_ok (merge_logical op p q)"
  unfolding merge_logical_def
  by (auto intro!: outcome_rbind [OF logical_operands_parses])

lemma reduce_value_parses:
  assumes "pending_ok (opd_value rhs)" "list_all (\<lambda>opd. pending_ok (opd_value opd)) rest"
    and "operator \<noteq> OpNot \<longrightarrow> rest \<noteq> []"
  shows "parses (\<lambda>(v, rest'). pending_ok v \<and> list_all (\<lambda>opd. pending_ok (opd_value opd)) rest' \<and>
      length rest' + of_bool (operator \<noteq> OpNot) = length rest) (reduce_value operator rhs rest)"
proof (cases operator)
  case OpNot
  with assms show ?thesis
    by (auto simp: reduce_value_def
        intro!: outcome_rbind [OF into_expr_parses] outcome_rbind [OF depth_parses])
next
  case (OpBinary op)
  then obtain lhs rest' where "rest = lhs # rest'" using assms by (cases rest) auto
  with assms OpBinary show ?thesis
    by (auto simp: reduce_value_def intro!: outcome_rbind [OF merge_logical_parses]
        outcome_rbind [OF into_expr_parses] outcome_rbind [OF depth_parses])
qed

lemma reduce_top_parses:
  assumes "state_ok False st" "\<not> expecting_operand st" "operators st \<noteq> []"
  shows "parses (\<lambda>st'. state_ok False st' \<and> \<not> expecting_operand st' \<and> started st' = started st \<and>
    operators st' = tl (operators st)) (reduce_top st)"
proof -
  obtain operator ops where ops: "operators st = operator # ops" using assms(3) by (cases "operators st") auto
  have len: "length (operands st) = Suc (binaries (operator # ops))"
    using assms ops by (simp add: state_ok_def)
  then obtain rhs rest where opds: "operands st = rhs # rest" by (cases "operands st") auto
  have ne: "operator \<noteq> OpNot \<longrightarrow> rest \<noteq> []" using len opds by (cases operator) auto
  have ok: "pending_ok (opd_value rhs)" "list_all (\<lambda>opd. pending_ok (opd_value opd)) rest"
    using assms(1) opds by (auto simp: state_ok_def)
  show ?thesis
    unfolding reduce_top_def ops opds list.case
  proof (rule outcome_rbind [OF reduce_value_parses [OF ok ne]], clarify)
    fix v and rest' :: "operand list"
    assume *: "pending_ok v" "list_all (\<lambda>opd. pending_ok (opd_value opd)) rest'"
      "length rest' + of_bool (operator \<noteq> OpNot) = length rest"
    then show "parses (\<lambda>st'. state_ok False st' \<and> \<not> expecting_operand st' \<and>
        started st' = started st \<and> operators st' = tl (operator # ops))
      (Inr (st\<lparr>operators := ops, operands := \<lparr>opd_value = v, postfixable = False\<rparr> # rest'\<rparr>))"
      using assms len opds by (cases operator) (simp_all add: state_ok_def)
  qed
qed

lemma reduce_loop_parses:
  "state_ok False st \<Longrightarrow> \<not> expecting_operand st \<Longrightarrow>
   parses (\<lambda>st'. state_ok False st' \<and> \<not> expecting_operand st' \<and> started st' = started st \<and>
     ((\<forall>t. c t) \<longrightarrow> operators st' = [])) (reduce_loop c st)"
proof (induction c st rule: reduce_loop.induct)
  case (1 c st)
  show ?case
  proof (cases "operators st")
    case Nil
    with 1 show ?thesis by (subst reduce_loop.simps) simp
  next
    case (Cons op ops)
    have "parses (\<lambda>st'. state_ok False st' \<and> \<not> expecting_operand st' \<and> started st' = started st \<and>
        ((\<forall>t. c t) \<longrightarrow> operators st' = [])) (rbind (reduce_top st) (reduce_loop c))" if "c op"
      using "1.prems" Cons "1.IH" [OF Cons that]
      by (auto intro!: outcome_rbind [OF reduce_top_parses] elim!: outcome_mono)
    with Cons "1.prems" show ?thesis by (subst reduce_loop.simps) auto
  qed
qed

lemma finish_parses:
  assumes "state_ok False st"
  shows "parses pending_ok (finish st)"
proof -
  have "parses pending_ok (rbind (reduce_loop (\<lambda>_. True) st) (\<lambda>st'. case operands st' of
       [opd] \<Rightarrow> Inr (opd_value opd) | _ \<Rightarrow> Inl (TrailingInput ''multiple expressions'')))"
    if "\<not> expecting_operand st"
  proof (rule outcome_rbind [OF reduce_loop_parses [OF assms that]])
    fix st'
    assume "state_ok False st' \<and> \<not> expecting_operand st' \<and> started st' = started st \<and>
      ((\<forall>t::operator. True) \<longrightarrow> operators st' = [])"
    then show "parses pending_ok (case operands st' of [opd] \<Rightarrow> Inr (opd_value opd)
        | _ \<Rightarrow> Inl (TrailingInput ''multiple expressions''))"
      by (auto simp: state_ok_def split: list.splits)
  qed
  then show ?thesis by (auto simp: finish_def)
qed

lemma push_operand_parses:
  "state_ok False st \<Longrightarrow> pending_ok (opd_value opd) \<Longrightarrow> parses (state_ok False) (push_operand opd st)"
  by (auto simp: push_operand_def state_ok_def)

lemma push_not_parses: "state_ok False st \<Longrightarrow> parses (state_ok False) (push_not st)"
  by (auto simp: push_not_def state_ok_def)

lemma push_binary_parses:
  assumes "state_ok False st"
  shows "parses (state_ok False) (push_binary op st)"
proof (cases "expecting_operand st")
  case False
  then show ?thesis
    unfolding push_binary_def
    by (auto intro!: outcome_rbind [OF reduce_loop_parses [OF assms False]] simp: state_ok_def)
qed (simp add: push_binary_def)

lemma take_postfix_target_parses:
  assumes "state_ok False st"
  shows "parses (\<lambda>(e, st'). well_formed e \<and> state_ok True st') (take_postfix_target st)"
proof (cases "expecting_operand st")
  case False
  then obtain opd rest where "operands st = opd # rest"
    using assms by (cases "operands st") (auto simp: state_ok_def)
  with assms False show ?thesis
    by (auto simp: take_postfix_target_def state_ok_def intro!: outcome_rbind [OF into_expr_parses])
qed (simp add: take_postfix_target_def)

lemma put_postfix_ok: "well_formed e \<Longrightarrow> state_ok True st \<Longrightarrow> state_ok False (put_postfix e st)"
  by (auto simp: put_postfix_def atom_def state_ok_def)

lemma empty_state_ok [simp]: "state_ok False empty_state"
  by (simp add: empty_state_def state_ok_def)

lemma new_frame_ok:
  "frames_ok (is_index k) frames \<Longrightarrow> kind_ok k \<Longrightarrow> k \<noteq> Root \<Longrightarrow> frames_ok False (new_frame k # frames)"
  by (cases frames) (auto simp: new_frame_def)

lemma on_current_parses:
  assumes "frames_ok taken frames"
    and "\<And>st. state_ok taken st \<Longrightarrow> parses (state_ok taken') (f st)"
  shows "parses (frames_ok taken') (on_current f frames)"
proof (cases frames)
  case (Cons fr rest)
  with assms show ?thesis
    by (auto simp: on_current_def intro!: outcome_rbind [where R = "state_ok taken'"] split: if_splits)
qed (use assms in simp)

lemmas push_parses =
  on_current_parses [OF _ push_operand_parses]
  on_current_parses [OF _ push_not_parses]
  on_current_parses [OF _ push_binary_parses]

lemma take_target_parses:
  assumes "frames_ok False frames"
  shows "parses (\<lambda>(e, frames'). well_formed e \<and> frames_ok True frames') (take_target frames)"
proof (cases frames)
  case (Cons fr rest)
  with assms show ?thesis
    by (auto simp: take_target_def intro!: outcome_rbind [OF take_postfix_target_parses] split: if_splits)
qed (use assms in simp)

lemma validate_function_parses: "parses (\<lambda>_. True) (validate_function name n)"
  by (auto simp: validate_function_def split: option.splits)

lemma validate_named_value_parses: "parses (\<lambda>_. True) (validate_named_value name)"
  by (auto simp: validate_named_value_def)

lemma call_arguments_parses:
  assumes "state_ok False st" "list_all well_formed args"
  shows "parses (list_all well_formed) (if started st
             then rbind (finish st) (\<lambda>v. rbind (into_expr v) (\<lambda>e. Inr (args @ [e])))
             else if args \<noteq> [] then Inl (UnexpectedToken (FoundText ''RParen'')
                (''an expression after '' @ quoted '',''))
             else Inr args)"
  using assms by (auto intro!: outcome_rbind [OF finish_parses] outcome_rbind [OF into_expr_parses])

lemma close_parenthesis_parses:
  assumes "frames_ok False frames"
  shows "parses (frames_ok False) (close_parenthesis frames)"
proof (cases frames)
  case (Cons fr rest)
  show ?thesis
  proof (cases "fkind fr")
    case Group
    with assms Cons show ?thesis
      by (auto simp: close_parenthesis_def intro!: outcome_rbind [OF finish_parses] push_parses
          split: if_splits)
  next
    case (Function name args)
    then have ok: "state_ok False (fstate fr)" "list_all well_formed args" "frames_ok False rest"
      using assms Cons by (auto split: if_splits)
    show ?thesis
      unfolding close_parenthesis_def Cons list.case Function frame_kind.case
      by (rule outcome_rbind [OF call_arguments_parses [OF ok(1,2)]],
          rule outcome_rbind [OF validate_function_parses],
          rule outcome_rbind [OF depth_parses], rule push_parses [OF ok(3)])
         (auto simp: atom_def list_all_iff)
  qed (use Cons in \<open>auto simp: close_parenthesis_def\<close>)
qed (use assms in simp)

lemma close_index_parses:
  assumes "frames_ok False frames"
  shows "parses (frames_ok False) (close_index frames)"
proof (cases frames)
  case (Cons fr rest)
  show ?thesis
  proof (cases "fkind fr")
    case (IndexOf target)
    with assms Cons show ?thesis
      by (auto simp: close_index_def put_postfix_ok intro!: outcome_rbind [OF finish_parses]
          outcome_rbind [OF into_expr_parses] outcome_rbind [OF depth_parses] on_current_parses
          split: if_splits)
  qed (use Cons in \<open>auto simp: close_index_def\<close>)
qed (use assms in simp)

lemma finish_function_argument_parses:
  assumes "frames_ok False frames"
  shows "parses (frames_ok False) (finish_function_argument frames)"
proof (cases frames)
  case (Cons fr rest)
  show ?thesis
  proof (cases "fkind fr")
    case (Function name args)
    with assms Cons show ?thesis
      by (auto simp: finish_function_argument_def intro!: outcome_rbind [OF finish_parses]
          outcome_rbind [OF into_expr_parses] split: if_splits)
  qed (use Cons in \<open>auto simp: finish_function_argument_def\<close>)
qed (use assms in simp)

lemma with_rest_parses: "parses Q m \<Longrightarrow> parses (\<lambda>(fs, _). Q fs) (with_rest r m)"
  by (auto simp: with_rest_def intro: outcome_rbind)

lemma after_postfix_parses:
  assumes "well_formed e" "frames_ok True frames"
  shows "parses (\<lambda>(fs, _). frames_ok False fs) (after_postfix e frames r)"
  unfolding after_postfix_def
  using assms by (auto simp: put_postfix_ok intro!: outcome_rbind [OF depth_parses]
      outcome_rbind [OF on_current_parses])

lemma ensure_operand_position_parses:
  "frames_ok False frames \<Longrightarrow> parses (\<lambda>_. True) (ensure_operand_position frames t)"
  by (auto simp: ensure_operand_position_def split: list.splits)

lemma parse_ident_parses:
  assumes "frames_ok False frames"
  shows "parses (\<lambda>(fs, _). frames_ok False fs) (parse_ident frames name rest)"
  unfolding parse_ident_def
proof (rule outcome_rbind [OF ensure_operand_position_parses [OF assms]], goal_cases)
  case 1
  show ?case
  proof (cases "eat LParen rest")
    case None
    have "parses (\<lambda>(fs, _). frames_ok False fs) (rbind (validate_named_value name) (\<lambda>_.
        with_rest rest (on_current (push_operand (atom (ENamedValue name) True)) frames)))"
      using assms by (intro outcome_rbind [OF validate_named_value_parses] with_rest_parses push_parses)
        (auto simp: atom_def)
    then show ?thesis by (simp add: None)
  next
    case (Some r)
    then show ?thesis using assms by (simp add: new_frame_ok del: frames_ok.simps)
  qed
qed

lemma parse_bracket_parses:
  assumes "frames_ok False frames"
  shows "parses (\<lambda>(fs, _). frames_ok False fs) (parse_bracket frames rest)"
  unfolding parse_bracket_def
  by (rule outcome_rbind [OF take_target_parses [OF assms]])
     (auto simp del: frames_ok.simps intro!: after_postfix_parses new_frame_ok split: option.splits)

lemma parse_dot_parses:
  assumes "frames_ok False frames"
  shows "parses (\<lambda>(fs, _). frames_ok False fs) (parse_dot frames rest)"
  unfolding parse_dot_def
proof (rule outcome_rbind [OF take_target_parses [OF assms]], clarify)
  fix target fs
  assume "well_formed target" "frames_ok True fs"
  moreover have "\<not> stack_error (UnexpectedEof dot_expectation)"
    by (simp add: stack_error_def dot_expectation_def)
  ultimately show "parses (\<lambda>(fs, _). frames_ok False fs) (case rest of
       [] \<Rightarrow> Inl (UnexpectedEof dot_expectation)
     | t # rest' \<Rightarrow> (case t of
         Ident name \<Rightarrow> after_postfix (EIndex target (EStr name)) fs rest'
       | Star \<Rightarrow> after_postfix (EWildcard target) fs rest'
       | _ \<Rightarrow> Inl (UnexpectedToken (FoundTok t) dot_expectation)))"
    by (cases rest; cases "hd rest") (auto intro!: after_postfix_parses)
qed

lemma parse_step_parses:
  assumes "frames_ok False frames"
  shows "parses (\<lambda>(fs, _). frames_ok False fs) (parse_step frames t rest)"
proof (cases t)
  case LParen
  have "parses (\<lambda>(fs, _). frames_ok False fs) (rbind (ensure_operand_position frames LParen) (\<lambda>_.
       Inr (new_frame Group # frames, rest)))"
    by (rule outcome_rbind [OF ensure_operand_position_parses [OF assms]])
       (use assms in \<open>simp add: new_frame_ok del: frames_ok.simps\<close>)
  with LParen show ?thesis by (simp add: parse_step_def)
qed (use assms in \<open>auto simp: parse_step_def push_literal_def atom_def
      intro!: with_rest_parses push_parses close_parenthesis_parses close_index_parses
        finish_function_argument_parses parse_ident_parses parse_bracket_parses parse_dot_parses\<close>)

lemma parse_loop_parses: "frames_ok False frames \<Longrightarrow> parses (frames_ok False) (parse_loop frames toks)"
proof (induction frames toks rule: parse_loop.induct)
  case (2 frames t rest)
  show ?case
    unfolding parse_loop.simps
    by (rule outcome_rbind [OF parse_step_parses [OF "2.prems"]]) (use "2.IH" in auto)
qed simp

lemma parse_tokens_parses: "parses well_formed (parse_tokens toks)"
proof -
  have root: "frames_ok False [new_frame Root]" by (simp add: new_frame_def)
  have "parses well_formed (case frames of
       [fr] \<Rightarrow> rbind (finish (fstate fr)) into_expr
     | [] \<Rightarrow> Inl (UnexpectedEof ''an expression'')
     | fr # _ \<Rightarrow> Inl (UnexpectedEof (case fkind fr of
           Group \<Rightarrow> quoted '')'' @ '' to close '' @ quoted ''(''
         | Function _ _ \<Rightarrow> quoted '')'' @ '' to close '' @ quoted ''(''
         | IndexOf _ \<Rightarrow> quoted '']'' @ '' to close '' @ quoted ''[''
         | Root \<Rightarrow> ''an expression'')))" if ok: "frames_ok False frames" for frames
  proof (cases frames)
    case (Cons fr rest)
    show ?thesis
    proof (cases rest)
      case Nil
      with ok Cons show ?thesis
        by (auto intro!: outcome_rbind [OF finish_parses] into_expr_parses)
    next
      case (Cons fr' rest')
      with ok \<open>frames = fr # rest\<close> show ?thesis
        by (auto simp: stack_error_def quoted_def split: frame_kind.splits)
    qed
  qed (use ok in simp)
  then show ?thesis
    unfolding parse_tokens_def by (auto intro: outcome_rbind [OF parse_loop_parses [OF root]])
qed




lemma next_token_parses: "parses (\<lambda>_. True) (next_token prev i ch rest)"
proof -
  have "parses (\<lambda>_. True) (punct ch rest i)" by (simp add: punct_def stack_error_def)
  then show ?thesis
    by (auto simp: next_token_def Let_def stack_error_def intro: outcome_rbind split: option.splits)
qed

lemma lex_loop_parses: "parses (\<lambda>_. True) (lex_loop i prev cs)"
proof (induction i prev cs rule: lex_loop.induct)
  case (2 i prev ch rest)
  show ?case
  proof (cases "is_whitespace ch")
    case False
    have "parses (\<lambda>_. True) (rbind (next_token prev i ch rest) (\<lambda>(t, n, r).
       rbind (lex_loop (i + n) (Some t) r) (\<lambda>ts. Inr (\<lparr>tok = t, offset = i\<rparr> # ts))))"
      by (rule outcome_rbind [OF next_token_parses])
         (auto intro: outcome_rbind [OF "2.IH"(2) [OF False]])
    with False show ?thesis by simp
  qed (use "2.IH"(1) in simp)
qed simp

text \<open>
  The operand and operator stacks of the explicit-frame parser never run dry. No token
  sequence, well formed or not, makes it report one of the errors that stand for a broken
  stack (a missing left or right operand, a missing operator, several results left over): a
  syntax error is always reported where the input has it.
\<close>

lemma parse_stacks_never_break:
  assumes "parse source = Inl err"
  shows "\<not> stack_error err"
proof -
  have "parses (\<lambda>_. True) (tokenize source)"
    by (simp add: tokenize_def Let_def lex_loop_parses)
  then have "parses (\<lambda>_. True) (parse source)"
    unfolding parse_def
    by (auto intro!: outcome_rbind [where R = "\<lambda>_. True"] outcome_rbind [OF parse_tokens_parses]
        outcome_rbind [OF depth_parses])
  then show ?thesis using assms by simp
qed

end
