(* ===== verification/Memory.thy ===== *)
theory Memory
  imports Parser
begin

text \<open>
  The errors of evaluation (\<open>greenlit-expr/src/error.rs\<close>) and the accounting of live
  results (\<open>memory.rs\<close>): a counter for one amplified result, and the memory of an
  evaluation, one slot per depth of the expression tree. Arithmetic is that of a 64-bit
  \<open>usize\<close>.
\<close>

section \<open>Errors\<close>

datatype json_message =
    Msg string
  | MsgChar string uchar
  | MsgText string ustr

record from_json_error =
  position :: nat
  message :: json_message

datatype hash_files_error =
    InvalidOption ustr
  | RelativePathingNotAllowed ustr
  | HashIo ustr
  | InvalidPattern ustr
  | Timeout ustr nat
  | WorkerStart
  | WorkerStopped
  | DirectoryCountLimit nat
  | DirectoryPathBytesLimit nat
  | StrandedWorkerLimit nat
  | DanglingSymlink ustr

text \<open>The two kinds of error contain each other; an error of \<open>format\<close> is parametrised by what an argument raises.\<close>

datatype 'e format_error =
    InvalidFormatString
  | TooManyArgumentsReferenced nat nat
  | UnsupportedFormatSpecifier ustr value_kind
  | ArgumentEvaluation 'e

datatype eval_error =
    ExpressionTooDeep
  | MemoryLimitExceeded nat
  | EvUnrecognizedFunction ustr
  | EvUnrecognizedNamedValue ustr
  | EvWrongArity ustr nat string
  | InvalidCaseArity
  | InvalidCasePredicate nat value_kind
  | Format "eval_error format_error"
  | FromJson from_json_error
  | HashFiles hash_files_error

section \<open>Sizes\<close>

definition MIN_OBJECT_BYTES :: nat where
  "MIN_OBJECT_BYTES = 24"

definition STRING_BASE_BYTES :: nat where
  "STRING_BASE_BYTES = 26"

definition POINTER_BYTES :: nat where
  "POINTER_BYTES = 8"

definition ok_or :: "'a option \<Rightarrow> 'e \<Rightarrow> 'e + 'a" where
  "ok_or x e = (case x of None \<Rightarrow> Inl e | Some y \<Rightarrow> Inr y)"

definition string_bytes :: "ustr \<Rightarrow> nat \<Rightarrow> eval_error + nat" where
  "string_bytes s limit =
     rbind (ok_or (checked_mul (length (encode_utf16 s)) 2) (MemoryLimitExceeded limit)) (\<lambda>payload.
       ok_or (checked_add STRING_BASE_BYTES payload) (MemoryLimitExceeded limit))"

definition value_bytes :: "expr_value \<Rightarrow> nat \<Rightarrow> eval_error + nat" where
  "value_bytes v limit = (case v of VString s \<Rightarrow> string_bytes s limit | _ \<Rightarrow> Inr MIN_OBJECT_BYTES)"

definition wrapped_primitive_bytes :: "expr_value \<Rightarrow> nat \<Rightarrow> eval_error + nat option" where
  "wrapped_primitive_bytes v limit =
    (if \<not> is_primitive v then Inr None
     else rbind (value_bytes v limit) (\<lambda>c.
       rbind (ok_or (checked_add MIN_OBJECT_BYTES c) (MemoryLimitExceeded limit)) (\<lambda>n. Inr (Some n))))"

text \<open>The size meant, without the width of the machine.\<close>

definition string_size :: "ustr \<Rightarrow> nat" where
  "string_size s = 26 + 2 * length (encode_utf16 s)"

definition value_size :: "expr_value \<Rightarrow> nat" where
  "value_size v = (case v of VString s \<Rightarrow> string_size s | _ \<Rightarrow> 24)"

lemma ok_or_Inr [simp]: "ok_or x e = Inr y \<longleftrightarrow> x = Some y"
  by (auto simp: ok_or_def split: option.splits)

lemma string_bytes_eq:
  "string_bytes s limit =
     (if string_size s \<le> usize_max then Inr (string_size s) else Inl (MemoryLimitExceeded limit))"
  by (auto simp: string_bytes_def string_size_def ok_or_def checked_mul_def checked_add_def
      STRING_BASE_BYTES_def)

lemma value_bytes_eq:
  "value_bytes v limit =
     (if value_size v \<le> usize_max then Inr (value_size v) else Inl (MemoryLimitExceeded limit))"
  by (cases v) (auto simp: value_bytes_def value_size_def string_bytes_eq MIN_OBJECT_BYTES_def usize_max_def)

section \<open>The counter of one result\<close>

record memory_counter =
  current_bytes :: nat
  counter_max :: nat

definition new_counter :: "nat \<Rightarrow> memory_counter" where
  "new_counter limit = \<lparr>current_bytes = 0, counter_max = limit\<rparr>"

definition counter_add :: "nat \<Rightarrow> memory_counter \<Rightarrow> eval_error + memory_counter" where
  "counter_add amount c =
     rbind (ok_or (checked_add (current_bytes c) amount) (MemoryLimitExceeded (counter_max c))) (\<lambda>n.
       if counter_max c < n then Inl (MemoryLimitExceeded (counter_max c))
       else Inr (c\<lparr>current_bytes := n\<rparr>))"

definition counter_add_string :: "ustr \<Rightarrow> memory_counter \<Rightarrow> eval_error + memory_counter" where
  "counter_add_string s c = rbind (string_bytes s (counter_max c)) (\<lambda>n. counter_add n c)"

text \<open>A counter accepts an amount exactly when the sum stays within the limit.\<close>

lemma counter_add_eq:
  assumes "counter_max c \<le> usize_max"
  shows "counter_add n c =
    (if current_bytes c + n \<le> counter_max c then Inr (c\<lparr>current_bytes := current_bytes c + n\<rparr>)
     else Inl (MemoryLimitExceeded (counter_max c)))"
  using assms by (auto simp: counter_add_def ok_or_def checked_add_def)

lemma counter_add_string_eq:
  assumes "counter_max c \<le> usize_max"
  shows "counter_add_string s c =
    (if current_bytes c + string_size s \<le> counter_max c
     then Inr (c\<lparr>current_bytes := current_bytes c + string_size s\<rparr>)
     else Inl (MemoryLimitExceeded (counter_max c)))"
  using assms by (auto simp: counter_add_string_def string_bytes_eq counter_add_eq)

text \<open>Counting a sequence of strings, the way \<open>join\<close>, \<open>format\<close> and \<open>toJSON\<close> do.\<close>

primrec count_strings :: "ustr list \<Rightarrow> memory_counter \<Rightarrow> eval_error + memory_counter" where
  "count_strings [] c = Inr c"
| "count_strings (s # ss) c = rbind (counter_add_string s c) (count_strings ss)"

lemma count_strings_eq:
  assumes "counter_max c \<le> usize_max" "current_bytes c \<le> counter_max c"
  shows "count_strings ss c =
    (if current_bytes c + sum_list (map string_size ss) \<le> counter_max c
     then Inr (c\<lparr>current_bytes := current_bytes c + sum_list (map string_size ss)\<rparr>)
     else Inl (MemoryLimitExceeded (counter_max c)))"
  using assms
proof (induction ss arbitrary: c)
  case (Cons s ss)
  then show ?case
    by (cases "current_bytes c + string_size s \<le> counter_max c")
       (auto simp: counter_add_string_eq add.assoc)
qed simp

section \<open>The memory of an evaluation\<close>

record result_memory =
  bytes :: "nat option"
  is_total :: bool
  has_raw :: bool

definition no_result_memory :: result_memory where
  "no_result_memory = \<lparr>bytes = None, is_total = False, has_raw = False\<rparr>"

record evaluation_memory =
  depths :: "nat list"
  max_active_depth :: "nat option"
  total_bytes :: nat
  max_bytes :: nat

definition new_memory :: "nat \<Rightarrow> evaluation_memory" where
  "new_memory limit = \<lparr>depths = [], max_active_depth = None, total_bytes = 0, max_bytes = limit\<rparr>"

definition clear_slot :: "nat \<Rightarrow> evaluation_memory \<Rightarrow> evaluation_memory" where
  "clear_slot k m =
     m\<lparr>total_bytes := total_bytes m - (if k < length (depths m) then depths m ! k else 0),
       depths := (depths m)[k := 0]\<rparr>"

fun trim_loop :: "nat \<Rightarrow> nat \<Rightarrow> evaluation_memory \<Rightarrow> evaluation_memory" where
  "trim_loop depth 0 m = m\<lparr>max_active_depth := Some 0\<rparr>"
| "trim_loop depth (Suc k) m =
     (if depth < Suc k then trim_loop depth k (clear_slot (Suc k) m)
      else m\<lparr>max_active_depth := Some (Suc k)\<rparr>)"

definition trim_deeper_than :: "nat \<Rightarrow> evaluation_memory \<Rightarrow> evaluation_memory" where
  "trim_deeper_than depth m = (case max_active_depth m of
     None \<Rightarrow> m
   | Some active \<Rightarrow> trim_loop depth active m)"

definition trims :: "expr_value \<Rightarrow> result_memory \<Rightarrow> bool" where
  "trims v rm \<longleftrightarrow> is_total rm \<or> (is_primitive v \<and> \<not> has_raw rm)"

definition resize_to :: "nat \<Rightarrow> nat list \<Rightarrow> nat list" where
  "resize_to n xs = (if length xs \<le> n then xs @ replicate (n + 1 - length xs) 0 else xs)"

definition activate :: "nat \<Rightarrow> evaluation_memory \<Rightarrow> evaluation_memory" where
  "activate depth m =
     m\<lparr>depths := resize_to depth (depths m),
       max_active_depth := Some (case max_active_depth m of None \<Rightarrow> depth | Some c \<Rightarrow> max c depth)\<rparr>"

definition add_bytes :: "nat \<Rightarrow> nat \<Rightarrow> evaluation_memory \<Rightarrow> eval_error + evaluation_memory" where
  "add_bytes depth n m =
     rbind (ok_or (checked_add (depths m ! depth) n) (MemoryLimitExceeded (max_bytes m))) (\<lambda>depth_total.
     rbind (ok_or (checked_add (total_bytes m) n) (MemoryLimitExceeded (max_bytes m))) (\<lambda>total.
       if max_bytes m < total then Inl (MemoryLimitExceeded (max_bytes m))
       else Inr (m\<lparr>depths := (depths m)[depth := depth_total], total_bytes := total\<rparr>)))"

definition add_result ::
  "nat \<Rightarrow> expr_value \<Rightarrow> result_memory \<Rightarrow> evaluation_memory \<Rightarrow> eval_error + evaluation_memory" where
  "add_result depth v rm m =
    (let m1 = activate depth (if trims v rm then trim_deeper_than depth m else m) in
     rbind (case bytes rm of Some n \<Rightarrow> Inr n | None \<Rightarrow> value_bytes v (max_bytes m1)) (\<lambda>n.
       add_bytes depth n m1))"

subsection \<open>The accounting invariant\<close>

definition memory_ok :: "evaluation_memory \<Rightarrow> bool" where
  "memory_ok m \<longleftrightarrow> total_bytes m = sum_list (depths m) \<and> total_bytes m \<le> max_bytes m \<and>
     (\<forall>i < length (depths m). depths m ! i \<noteq> 0 \<longrightarrow> (\<exists>a. max_active_depth m = Some a \<and> i \<le> a))"

lemma new_memory_ok: "memory_ok (new_memory limit)"
  by (simp add: memory_ok_def new_memory_def)

lemma sum_list_update_zero:
  fixes xs :: "nat list"
  shows "k < length xs \<Longrightarrow> sum_list (xs[k := 0]) = sum_list xs - xs ! k"
  by (simp add: sum_list_update)

lemma clear_slot_sum:
  "total_bytes m = sum_list (depths m) \<Longrightarrow>
   total_bytes (clear_slot k m) = sum_list (depths (clear_slot k m))"
  by (simp add: clear_slot_def sum_list_update_zero list_update_beyond)

text \<open>Trimming clears exactly the slots deeper than \<open>depth\<close>, and keeps the sum right.\<close>

lemma trim_loop_spec:
  assumes "total_bytes m = sum_list (depths m)"
  shows "total_bytes (trim_loop d k m) = sum_list (depths (trim_loop d k m))"
    and "length (depths (trim_loop d k m)) = length (depths m)"
    and "max_bytes (trim_loop d k m) = max_bytes m"
    and "max_active_depth (trim_loop d k m) = Some (min d k)"
    and "i < length (depths m) \<Longrightarrow> depths (trim_loop d k m) ! i =
      (if d < i \<and> i \<le> k then 0 else depths m ! i)"
  using assms
proof (induction d k m arbitrary: i rule: trim_loop.induct)
  case (1 depth m)
  {
    case 4
    show ?case by simp
  }
qed (auto simp: clear_slot_sum, auto simp: clear_slot_def nth_list_update)

lemma sum_list_zero_suffix:
  fixes xs :: "nat list"
  assumes "\<And>i. i < length xs \<Longrightarrow> n \<le> i \<Longrightarrow> xs ! i = 0"
  shows "sum_list xs = sum_list (take n xs)"
proof -
  have "sum_list (drop n xs) = 0"
    using assms by (auto simp: in_set_conv_nth sum_list_eq_0_iff)
  then show ?thesis
    by (metis add.right_neutral append_take_drop_id sum_list.append)
qed

definition kept_bytes :: "nat \<Rightarrow> expr_value \<Rightarrow> result_memory \<Rightarrow> evaluation_memory \<Rightarrow> nat" where
  "kept_bytes depth v rm m =
     (if trims v rm then sum_list (take (Suc depth) (depths m)) else total_bytes m)"

lemma trim_deeper_than_ok:
  assumes "memory_ok m"
  shows "memory_ok (trim_deeper_than d m)"
    and "total_bytes (trim_deeper_than d m) = sum_list (take (Suc d) (depths m))"
    and "max_bytes (trim_deeper_than d m) = max_bytes m"
proof -
  have sum: "total_bytes m = sum_list (depths m)" and le: "total_bytes m \<le> max_bytes m"
    and act: "\<And>i. i < length (depths m) \<Longrightarrow> depths m ! i \<noteq> 0 \<Longrightarrow> \<exists>a. max_active_depth m = Some a \<and> i \<le> a"
    using assms by (auto simp: memory_ok_def)
  have "memory_ok (trim_deeper_than d m) \<and>
      total_bytes (trim_deeper_than d m) = sum_list (take (Suc d) (depths m)) \<and>
      max_bytes (trim_deeper_than d m) = max_bytes m"
  proof (cases "max_active_depth m")
    case None
    then have "sum_list (depths m) = sum_list (take (Suc d) (depths m))"
      using act by (intro sum_list_zero_suffix) auto
    then show ?thesis using None assms sum by (simp add: trim_deeper_than_def)
  next
    case (Some k)
    define m' where "m' = trim_loop d k m"
    note spec = trim_loop_spec(1-4) [OF sum, of d k, folded m'_def]
      trim_loop_spec(5) [OF sum, of _ d k, folded m'_def]
    have nth: "depths m' ! i = (if d < i then 0 else depths m ! i)" if "i < length (depths m)" for i
      using spec(5) [OF that] act [OF that] Some by auto
    have "sum_list (depths m') = sum_list (take (Suc d) (depths m'))"
      by (rule sum_list_zero_suffix) (simp add: spec(2) nth)
    also have "take (Suc d) (depths m') = take (Suc d) (depths m)"
      by (rule nth_equalityI) (auto simp: spec(2) nth)
    finally have total: "total_bytes m' = sum_list (take (Suc d) (depths m))"
      by (simp add: spec(1))
    moreover have "sum_list (take (Suc d) (depths m)) \<le> sum_list (depths m)"
      by (metis append_take_drop_id le_add1 sum_list.append)
    moreover have "\<exists>a. max_active_depth m' = Some a \<and> i \<le> a"
      if "i < length (depths m')" "depths m' ! i \<noteq> 0" for i
      using that nth [of i] act [of i] Some spec(2,4) by (auto split: if_splits)
    ultimately show ?thesis
      using Some spec(1,3) le sum unfolding m'_def
      by (simp add: trim_deeper_than_def memory_ok_def)
  qed
  then show "memory_ok (trim_deeper_than d m)"
    "total_bytes (trim_deeper_than d m) = sum_list (take (Suc d) (depths m))"
    "max_bytes (trim_deeper_than d m) = max_bytes m" by auto
qed

lemma activate_ok:
  assumes "memory_ok m"
  shows "memory_ok (activate d m)" and "d < length (depths (activate d m))"
    and "total_bytes (activate d m) = total_bytes m" and "max_bytes (activate d m) = max_bytes m"
  using assms by (auto simp: memory_ok_def activate_def resize_to_def sum_list_replicate nth_append
      less_max_iff_disj max_def split: option.splits if_splits)

lemma add_bytes_eq:
  assumes "memory_ok m" "d < length (depths m)" "max_bytes m \<le> usize_max"
  shows "add_bytes d n m = (if total_bytes m + n \<le> max_bytes m
     then Inr (m\<lparr>depths := (depths m)[d := depths m ! d + n], total_bytes := total_bytes m + n\<rparr>)
     else Inl (MemoryLimitExceeded (max_bytes m)))"
proof -
  have "depths m ! d \<le> total_bytes m"
    using assms(1,2) by (auto simp: memory_ok_def member_le_sum_list)
  then show ?thesis
    using assms(3) by (auto simp: add_bytes_def ok_or_def checked_add_def)
qed

text \<open>
  The memory after a result: the invariant, the accounted total, and the limit. It is one
  relation so that the proofs about evaluation can carry it.
\<close>

lemma add_result_eq:
  assumes "memory_ok m" "max_bytes m \<le> usize_max"
    and "n = (case bytes rm of Some n \<Rightarrow> n | None \<Rightarrow> value_size v)"
  shows "outcome (\<lambda>e. e = MemoryLimitExceeded (max_bytes m) \<and> max_bytes m < kept_bytes d v rm m + n)
     (\<lambda>m'. memory_ok m' \<and> max_bytes m' = max_bytes m \<and> total_bytes m' = kept_bytes d v rm m + n)
     (add_result d v rm m)"
proof -
  define m1 where "m1 = activate d (if trims v rm then trim_deeper_than d m else m)"
  have m1: "memory_ok m1" "d < length (depths m1)" "total_bytes m1 = kept_bytes d v rm m"
    "max_bytes m1 = max_bytes m"
    using assms(1) trim_deeper_than_ok [OF assms(1), of d] activate_ok
    by (auto simp: m1_def kept_bytes_def)
  have add: "outcome (\<lambda>e. e = MemoryLimitExceeded (max_bytes m) \<and> max_bytes m < kept_bytes d v rm m + n)
     (\<lambda>m'. memory_ok m' \<and> max_bytes m' = max_bytes m \<and> total_bytes m' = kept_bytes d v rm m + n)
     (add_bytes d n m1)"
    using m1 assms(2) activate_ok(1)
    by (subst add_bytes_eq [OF m1(1,2)])
       (auto simp: memory_ok_def sum_list_update nth_list_update member_le_sum_list m1_def activate_def
          split: option.splits)
  show ?thesis
  proof (cases "bytes rm")
    case None
    then show ?thesis using add assms(2,3) m1(4)
      by (auto simp: add_result_def Let_def m1_def [symmetric] value_bytes_eq)
  next
    case (Some k)
    then show ?thesis using add assms(3)
      by (simp add: add_result_def Let_def m1_def [symmetric])
  qed
qed

end
