(* ===== verification/Json.thy ===== *)
theory Json
  imports Memory
begin

text \<open>
  \<open>toJSON\<close> and \<open>fromJSON\<close> (\<open>greenlit-expr/src/functions/json.rs\<close> and
  \<open>json/from_json\<close>). The writer is an explicit stack of tasks that counts every fragment it
  appends; the reader is Newtonsoft's lenient grammar with comments, single quotes, bare keys,
  trailing commas and constructors. The general category of a character comes from a
  third-party table and is a parameter.
\<close>

section \<open>Writing\<close>

definition hex_digit :: "nat \<Rightarrow> uchar" where
  "hex_digit n = (if n < 10 then 48 + n else 87 + n)"

definition json_escape :: "uchar \<Rightarrow> ustr" where
  "json_escape c =
    (if c = 34 then [92, 34] else if c = 92 then [92, 92]
     else if c = 8 then [92, cp CHR ''b''] else if c = 12 then [92, cp CHR ''f'']
     else if c = 10 then [92, cp CHR ''n''] else if c = 13 then [92, cp CHR ''r'']
     else if c = 9 then [92, cp CHR ''t'']
     else if c < 32 then [92, cp CHR ''u'', 48, 48, hex_digit (c div 16), hex_digit (c mod 16)]
     else [c])"

definition write_json_string :: "ustr \<Rightarrow> ustr" where
  "write_json_string s = 34 # concat (map json_escape s) @ [34]"

definition spaces :: "nat \<Rightarrow> ustr" where
  "spaces n = replicate n 32"

datatype parent = InArray bool | InObject

datatype write_task =
    WriteValue expr_value nat "parent option"
  | MappingKey ustr nat bool
  | CollectionEnd uchar nat

type_synonym writer = "ustr \<times> memory_counter"

definition append_raw :: "ustr \<Rightarrow> writer \<Rightarrow> eval_error + writer" where
  "append_raw segment w = rbind (counter_add_string segment (snd w)) (\<lambda>c. Inr (fst w @ segment, c))"

text \<open>The fragment a value contributes, given where it stands.\<close>

definition sequence_fragment :: "ustr \<Rightarrow> nat \<Rightarrow> bool \<Rightarrow> ustr" where
  "sequence_fragment s depth is_first = (if is_first then [] else lit '','') @ 10 # spaces (depth * 2) @ s"

definition prefixed_fragment :: "ustr \<Rightarrow> nat \<Rightarrow> parent option \<Rightarrow> ustr" where
  "prefixed_fragment s depth parent = (case parent of
     Some InObject \<Rightarrow> lit '': '' @ s
   | Some (InArray is_first) \<Rightarrow> sequence_fragment s depth is_first
   | None \<Rightarrow> s)"

definition append_prefixed :: "ustr \<Rightarrow> nat \<Rightarrow> parent option \<Rightarrow> writer \<Rightarrow> eval_error + writer" where
  "append_prefixed s depth parent = append_raw (prefixed_fragment s depth parent)"

fun primitive_or_empty :: "expr_value \<Rightarrow> ustr" where
  "primitive_or_empty VNull = lit ''null''"
| "primitive_or_empty (VBool b) = (if b then lit ''true'' else lit ''false'')"
| "primitive_or_empty (VNumber n) = format_g15 n"
| "primitive_or_empty (VString s) = write_json_string s"
| "primitive_or_empty (VArray _ _ _) = lit ''[]''"
| "primitive_or_empty (VObject _ _ _ _) = lit ''{}''"

definition item_tasks :: "nat \<Rightarrow> expr_value list \<Rightarrow> write_task list" where
  "item_tasks depth items =
     map (\<lambda>(i, item). WriteValue item depth (Some (InArray (i = 0)))) (enumerate 0 items)"

definition entry_tasks :: "nat \<Rightarrow> (ustr \<times> expr_value) list \<Rightarrow> write_task list" where
  "entry_tasks depth entries =
     concat (map (\<lambda>(i, (key, item)). [MappingKey key depth (i = 0), WriteValue item depth (Some InObject)])
       (enumerate 0 entries))"

text \<open>One task: the fragment it appends and the tasks it pushes, the next one first.\<close>

fun write_task_step :: "write_task \<Rightarrow> ustr \<times> write_task list" where
  "write_task_step (WriteValue v depth parent) = (case v of
     VArray _ items _ \<Rightarrow> (if items \<noteq> []
       then (prefixed_fragment (lit ''['') depth parent,
             item_tasks (depth + 1) items @ [CollectionEnd (cp CHR '']'') depth])
       else (prefixed_fragment (primitive_or_empty v) depth parent, []))
   | VObject _ entries _ _ \<Rightarrow> (if entries \<noteq> []
       then (prefixed_fragment (lit ''{'') depth parent,
             entry_tasks (depth + 1) entries @ [CollectionEnd (cp CHR ''}'') depth])
       else (prefixed_fragment (primitive_or_empty v) depth parent, []))
   | _ \<Rightarrow> (prefixed_fragment (primitive_or_empty v) depth parent, []))"
| "write_task_step (MappingKey key depth is_first) =
     (sequence_fragment (write_json_string key) depth is_first, [])"
| "write_task_step (CollectionEnd closing depth) = (10 # spaces (depth * 2) @ [closing], [])"

primrec value_weight :: "expr_value \<Rightarrow> nat" where
  "value_weight VNull = 1"
| "value_weight (VBool _) = 1"
| "value_weight (VNumber _) = 1"
| "value_weight (VString _) = 1"
| "value_weight (VArray _ items _) = Suc (sum_list (map value_weight items))"
| "value_weight (VObject _ entries _ _) =
     Suc (sum_list (map (\<lambda>e. Suc (snd e)) (map (map_prod id value_weight) entries)))"

fun task_weight :: "write_task \<Rightarrow> nat" where
  "task_weight (WriteValue v _ _) = 2 * value_weight v"
| "task_weight _ = 1"

lemma value_weight_pos: "0 < value_weight v"
  by (cases v) auto

lemma item_tasks_weight:
  "sum_list (map task_weight (item_tasks d items)) = 2 * sum_list (map value_weight items)"
proof -
  have "sum_list (map task_weight (map (\<lambda>(i, item). WriteValue item d (Some (InArray (i = 0))))
      (enumerate k items))) = 2 * sum_list (map value_weight items)" for k
    by (induction items arbitrary: k) auto
  then show ?thesis by (simp add: item_tasks_def)
qed

lemma entry_tasks_weight:
  "sum_list (map task_weight (entry_tasks d entries)) \<le>
     2 * sum_list (map (\<lambda>e. Suc (snd e)) (map (map_prod id value_weight) entries))"
proof -
  have "sum_list (map task_weight (concat (map (\<lambda>(i, (key, item)).
      [MappingKey key d (i = 0), WriteValue item d (Some InObject)]) (enumerate k entries)))) \<le>
    2 * sum_list (map (\<lambda>e. Suc (snd e)) (map (map_prod id value_weight) entries))" for k
    by (induction entries arbitrary: k) (auto intro: le_SucI)
  then show ?thesis by (simp add: entry_tasks_def)
qed

lemma write_task_step_weight:
  "sum_list (map task_weight (snd (write_task_step t))) < task_weight t"
proof (cases t)
  case (WriteValue v d p)
  then show ?thesis
    using item_tasks_weight entry_tasks_weight value_weight_pos [of v]
    by (cases v) (auto simp: less_Suc_eq_le)
qed auto

function write_loop :: "write_task list \<Rightarrow> writer \<Rightarrow> eval_error + writer" where
  "write_loop [] w = Inr w"
| "write_loop (t # tasks) w =
     rbind (append_raw (fst (write_task_step t)) w) (write_loop (snd (write_task_step t) @ tasks))"
  by pat_completeness auto
termination
  by (relation "measure (\<lambda>(ts, w). sum_list (map task_weight ts))")
     (use write_task_step_weight in auto)

definition to_json :: "expr_value \<Rightarrow> nat \<Rightarrow> eval_error + expr_value" where
  "to_json v limit =
     rbind (write_loop [WriteValue v 0 None] ([], new_counter limit)) (\<lambda>w. Inr (VString (fst w)))"

section \<open>Reading: the grammar's tokens\<close>

datatype general_category =
    UppercaseLetter | LowercaseLetter | TitlecaseLetter | ModifierLetter | OtherLetter
  | DecimalNumber | OtherCategory

text \<open>
  A failure of the reader keeps how much input was left and why; the position is computed at
  the end. \<open>OutOfFuel\<close> is the model's own: the reader's recursion is bounded by fuel, and
  the fuel given is proved to be enough.
\<close>

datatype json_failure = JsonFailure nat json_message | OutOfFuel

definition jerr :: "ustr \<Rightarrow> json_message \<Rightarrow> json_failure + 'a" where
  "jerr cs m = Inl (JsonFailure (length cs) m)"

definition is_newtonsoft_whitespace :: "uchar \<Rightarrow> bool" where
  "is_newtonsoft_whitespace c \<longleftrightarrow> (9 \<le> c \<and> c \<le> 13) \<or> c = 32 \<or> c = 133 \<or> c = 160 \<or> c = 5760 \<or>
     (8192 \<le> c \<and> c \<le> 8202) \<or> c = 8232 \<or> c = 8233 \<or> c = 8239 \<or> c = 8287 \<or> c = 12288"

definition skip_json_whitespace :: "ustr \<Rightarrow> ustr" where
  "skip_json_whitespace cs = dropWhile is_newtonsoft_whitespace cs"

definition is_dotnet_letter_or_digit :: "(uchar \<Rightarrow> general_category) \<Rightarrow> uchar \<Rightarrow> bool" where
  "is_dotnet_letter_or_digit gc c \<longleftrightarrow> c \<le> 65535 \<and> gc c \<noteq> OtherCategory"

definition is_newtonsoft_identifier_char :: "(uchar \<Rightarrow> general_category) \<Rightarrow> uchar \<Rightarrow> bool" where
  "is_newtonsoft_identifier_char gc c \<longleftrightarrow> c = cp CHR ''_'' \<or> c = 36 \<or> is_dotnet_letter_or_digit gc c"

definition is_keyword_separator :: "bool \<Rightarrow> ustr \<Rightarrow> bool" where
  "is_keyword_separator in_constructor cs = (case cs of
     [] \<Rightarrow> True
   | c # r \<Rightarrow> is_newtonsoft_whitespace c \<or> c = cp CHR ''}'' \<or> c = cp CHR '']'' \<or> c = cp CHR '','' \<or>
      (c = cp CHR '')'' \<and> in_constructor) \<or>
      (c = cp CHR ''/'' \<and> r \<noteq> [] \<and> (hd r = cp CHR ''*'' \<or> hd r = cp CHR ''/'')))"

definition parse_comment :: "ustr \<Rightarrow> json_failure + ustr \<times> ustr" where
  "parse_comment cs = (case cs of
     [] \<Rightarrow> jerr [] (Msg ''expected a comment'')
   | c # r \<Rightarrow> (if c \<noteq> cp CHR ''/'' then jerr r (Msg ''expected a comment'') else
     (case r of
        [] \<Rightarrow> jerr [] (Msg ''unexpected end while parsing comment'')
      | d # r' \<Rightarrow>
        (if d = cp CHR ''/'' then
           (let content = takeWhile (\<lambda>c. c \<noteq> 13 \<and> c \<noteq> 10) r'; rest = drop (length content) r' in
            if rest = [] \<and> content = [] then jerr [] (Msg ''unexpected end while parsing comment'')
            else Inr (content, rest))
         else if d = cp CHR ''*'' then
           (case split_once (lit ''*/'') r' of
              Some (comment, rest) \<Rightarrow> Inr (comment, rest)
            | None \<Rightarrow> jerr cs (Msg ''unexpected end while parsing comment''))
         else jerr r' (MsgChar ''expected * or / after comment opener, got '' d)))))"

lemma split_once_length: "split_once p s = Some (a, b) \<Longrightarrow> length b \<le> length s"
  by (induction p s arbitrary: a b rule: split_once.induct) (auto split: if_splits)

lemma parse_comment_rest: "parse_comment cs = Inr (s, r) \<Longrightarrow> length r < length cs"
  by (auto simp: parse_comment_def jerr_def Let_def dest!: split_once_length
      split: list.splits if_splits option.splits)

function skip_insignificant :: "ustr \<Rightarrow> json_failure + ustr" where
  "skip_insignificant cs = (case cs of
     [] \<Rightarrow> Inr []
   | c # r \<Rightarrow> (if is_newtonsoft_whitespace c then skip_insignificant r
      else if c = cp CHR ''/'' then rbind (parse_comment cs) (\<lambda>(_, r'). skip_insignificant r')
      else Inr cs))"
  by pat_completeness auto
termination
  by (relation "measure length") (auto dest: parse_comment_rest)

declare skip_insignificant.simps [simp del]

section \<open>Reading: strings\<close>

definition to_digit :: "nat \<Rightarrow> uchar \<Rightarrow> nat option" where
  "to_digit radix c =
    (let d = (if is_ascii_digit c then c - 48 else if 97 \<le> c \<and> c \<le> 122 then c - 87
              else if 65 \<le> c \<and> c \<le> 90 then c - 55 else radix)
     in if d < radix then Some d else None)"

primrec hex_loop :: "nat \<Rightarrow> nat \<Rightarrow> ustr \<Rightarrow> json_failure + nat \<times> ustr" where
  "hex_loop 0 code cs = Inr (code, cs)"
| "hex_loop (Suc n) code cs = (case cs of
     [] \<Rightarrow> jerr [] (Msg ''invalid unicode escape'')
   | c # r \<Rightarrow> (case to_digit 16 c of
       Some d \<Rightarrow> hex_loop n (code * 16 + d) r
     | None \<Rightarrow> jerr r (Msg ''invalid unicode escape'')))"

definition parse_hex_u16 :: "ustr \<Rightarrow> json_failure + nat \<times> ustr" where
  "parse_hex_u16 = hex_loop 4 0"

lemma hex_loop_rest: "hex_loop n code cs = Inr (u, r) \<Longrightarrow> length cs = length r + n"
  by (induction n arbitrary: code cs) (auto simp: jerr_def split: option.splits list.splits)

definition is_low :: "nat \<Rightarrow> bool" where
  "is_low u \<longleftrightarrow> 56320 \<le> u \<and> u \<le> 57343"

definition is_high :: "nat \<Rightarrow> bool" where
  "is_high u \<longleftrightarrow> 55296 \<le> u \<and> u \<le> 56319"

text \<open>The loop of \<open>parse_unicode_escape\<close>: the characters it pushes and the rest.\<close>

function unicode_units :: "nat \<Rightarrow> ustr \<Rightarrow> json_failure + ustr \<times> ustr" where
  "unicode_units u cs =
    (if is_low u then Inr ([65533], cs)
     else if \<not> is_high u then
       (if is_scalar u then Inr ([u], cs) else jerr cs (Msg ''invalid unicode escape codepoint''))
     else if \<not> prefix [92, cp CHR ''u''] cs then Inr ([65533], cs)
     else rbind (parse_hex_u16 (drop 2 cs)) (\<lambda>(next, r).
       if is_low next then
         (let scalar = 65536 + (u - 55296) * 1024 + (next - 56320) in
          if is_scalar scalar then Inr ([scalar], r) else jerr r (Msg ''invalid UTF-16 surrogate pair''))
       else rbind (unicode_units next r) (\<lambda>(out, r'). Inr (65533 # out, r'))))"
  by pat_completeness auto
termination
  by (relation "measure (\<lambda>(u, cs). length cs)")
     (auto simp: parse_hex_u16_def prefix_def dest!: hex_loop_rest)

declare unicode_units.simps [simp del]

definition parse_unicode_escape :: "ustr \<Rightarrow> json_failure + ustr \<times> ustr" where
  "parse_unicode_escape cs = rbind (parse_hex_u16 cs) (\<lambda>(u, r). unicode_units u r)"

definition simple_escape :: "uchar \<Rightarrow> uchar option" where
  "simple_escape e = map_of [(34, 34), (39, 39), (92, 92), (cp CHR ''/'', cp CHR ''/''),
     (cp CHR ''b'', 8), (cp CHR ''f'', 12), (cp CHR ''n'', 10), (cp CHR ''r'', 13), (cp CHR ''t'', 9)] e"

lemma unicode_units_rest: "unicode_units u cs = Inr (s, r) \<Longrightarrow> length r \<le> length cs"
proof (induction u cs arbitrary: s r rule: unicode_units.induct)
  case (1 u cs)
  show ?case
  proof (cases "is_high u \<and> \<not> is_low u \<and> prefix [92, cp CHR ''u''] cs")
    case False
    with "1.prems" show ?thesis
      by (subst (asm) unicode_units.simps) (auto simp: jerr_def split: if_splits)
  next
    case True
    then obtain v t where hex: "parse_hex_u16 (drop 2 cs) = Inr (v, t)"
      using "1.prems" by (subst (asm) unicode_units.simps) (auto simp: rbind_eq_Inr)
    then have t: "length t \<le> length cs" by (auto simp: parse_hex_u16_def dest!: hex_loop_rest)
    show ?thesis
    proof (cases "is_low v")
      case low: True
      with "1.prems" True hex t show ?thesis
        by (subst (asm) unicode_units.simps) (auto simp: Let_def jerr_def split: if_splits)
    next
      case low: False
      with "1.prems" True hex obtain out where "unicode_units v t = Inr (out, r)"
        by (subst (asm) unicode_units.simps) (auto simp: rbind_eq_Inr)
      with "1.IH" [of "(v, t)" v t] True hex low t show ?thesis by fastforce
    qed
  qed
qed

function quoted_loop :: "uchar \<Rightarrow> ustr \<Rightarrow> json_failure + ustr \<times> ustr" where
  "quoted_loop quote [] = jerr [] (Msg ''unterminated string'')"
| "quoted_loop quote (c # r) =
    (if c = quote then Inr ([], r)
     else if c = 92 then
       (case r of
          [] \<Rightarrow> jerr [] (Msg ''invalid escape sequence'')
        | e # r' \<Rightarrow>
          (if e = cp CHR ''u'' then
             rbind (parse_unicode_escape r') (\<lambda>(out, r'').
               rbind (quoted_loop quote r'') (\<lambda>(s, t). Inr (out @ s, t)))
           else (case simple_escape e of
             Some x \<Rightarrow> rbind (quoted_loop quote r') (\<lambda>(s, t). Inr (x # s, t))
           | None \<Rightarrow> jerr r' (Msg ''invalid escape sequence''))))
     else rbind (quoted_loop quote r) (\<lambda>(s, t). Inr (c # s, t)))"
  by pat_completeness auto
termination
  by (relation "measure (\<lambda>(q, cs). length cs)")
     (auto simp: parse_unicode_escape_def parse_hex_u16_def rbind_eq_Inr less_Suc_eq_le
       dest!: hex_loop_rest unicode_units_rest)

definition parse_quoted_string :: "ustr \<Rightarrow> json_failure + ustr \<times> ustr" where
  "parse_quoted_string cs = (case cs of
     [] \<Rightarrow> jerr [] (Msg ''expected a string'')
   | quote # r \<Rightarrow> quoted_loop quote r)"

section \<open>Reading: numbers\<close>

definition is_newtonsoft_number_char :: "uchar \<Rightarrow> bool" where
  "is_newtonsoft_number_char c \<longleftrightarrow> c = cp CHR ''-'' \<or> c = cp CHR ''+'' \<or> (97 \<le> c \<and> c \<le> 102) \<or>
     (65 \<le> c \<and> c \<le> 70) \<or> c = cp CHR ''x'' \<or> c = cp CHR ''X'' \<or> c = cp CHR ''.'' \<or> is_ascii_digit c"

definition is_number_separator :: "uchar \<Rightarrow> bool" where
  "is_number_separator c \<longleftrightarrow> is_newtonsoft_whitespace c \<or> c = cp CHR '','' \<or> c = cp CHR ''}'' \<or>
     c = cp CHR '']'' \<or> c = cp CHR '')'' \<or> c = cp CHR ''/''"

text \<open>\<open>u64::from_str_radix\<close>: an optional plus sign, digits of the radix, no overflow.\<close>

definition u64_from_str_radix :: "ustr \<Rightarrow> nat \<Rightarrow> nat option" where
  "u64_from_str_radix s radix =
    (let ds = (if 1 < length s \<and> hd s = cp CHR ''+'' then tl s else s);
         n = foldl (\<lambda>a c. radix * a + (case to_digit radix c of None \<Rightarrow> 0 | Some d \<Rightarrow> d)) 0 ds in
     if ds \<noteq> [] \<and> list_all (\<lambda>c. to_digit radix c \<noteq> None) ds \<and> n < 2 ^ 64 then Some n else None)"

definition u64_as_i64 :: "nat \<Rightarrow> int" where
  "u64_as_i64 n = (if n < 2 ^ 63 then int n else int n - 2 ^ 64)"

definition i64_string :: "int \<Rightarrow> ustr" where
  "i64_string i = (if i < 0 then lit ''-'' else []) @ dec_string (nat \<bar>i\<bar>)"

definition i64_as_f64 :: "int \<Rightarrow> f64" where
  "i64_as_f64 i = round_f64 (i < 0) (of_int \<bar>i\<bar>)"

text \<open>
  The shortest decimal digits that read back as a positive number: for a growing number of
  digits, the two neighbours of that precision, the nearer one first. \<open>Display\<close> writes them
  positionally.
\<close>

definition shortest_candidate :: "rat \<Rightarrow> int \<Rightarrow> nat \<Rightarrow> (nat \<times> int) option" where
  "shortest_candidate q p n =
    (let k = p - int n + 1; lo = nat \<lfloor>q / pow10 k\<rfloor>; hi = lo + 1;
         near = (if q / pow10 k - of_nat lo \<le> 1 / 2 then [lo, hi] else [hi, lo]);
         good = filter (\<lambda>m. round_f64 False (of_nat m * pow10 k) = Finite False q) near
     in case good of [] \<Rightarrow> None | m # _ \<Rightarrow> Some (m, k))"

definition shortest_decimal :: "rat \<Rightarrow> nat \<times> int" where
  "shortest_decimal q =
    (case List.map_filter (shortest_candidate q (dec_exp q)) [1..<18] of
       [] \<Rightarrow> (0, 0) | r # _ \<Rightarrow> r)"

definition positional :: "nat \<Rightarrow> int \<Rightarrow> ustr" where
  "positional m k =
    (if 0 \<le> k then dec_string m @ zeros (nat k)
     else (let ds = dec_string m; f = nat (- k);
               padded = zeros (f + 1 - length ds) @ ds; i = length padded - f in
           take i padded @ lit ''.'' @ drop i padded))"

definition f64_display :: "bool \<Rightarrow> rat \<Rightarrow> ustr" where
  "f64_display s q = sign_text s @
     (if q = 0 then lit ''0'' else case shortest_decimal q of (m, k) \<Rightarrow> positional m k)"

definition normalize_big_integer :: "ustr \<Rightarrow> ustr" where
  "normalize_big_integer text =
    (let negative = prefix (lit ''-'') text;
         ds = dropWhile (\<lambda>c. c = 48) (if negative then tl text else text)
     in if ds = [] then lit ''0'' else if negative then lit ''-'' @ ds else ds)"

definition format_exponent :: "bool \<Rightarrow> ustr \<Rightarrow> int \<Rightarrow> ustr" where
  "format_exponent negative mantissa e =
     sign_text negative @ mantissa @ lit ''E'' @ (if e < 0 then lit ''-'' else lit ''+'') @
     two_digits (nat \<bar>e\<bar>)"

definition scientific_notation :: "ustr \<Rightarrow> ustr" where
  "scientific_notation shortest =
    (let negative = prefix (lit ''-'') shortest;
         body = (if negative then tl shortest else shortest);
         decimal = length (takeWhile (\<lambda>c. c \<noteq> cp CHR ''.'') body);
         digits = filter (\<lambda>c. c \<noteq> cp CHR ''.'') body;
         first_nonzero = (let z = length (takeWhile (\<lambda>c. c = 48) digits) in
           if z = length digits then 0 else z);
         significant = trim_end_zeros (drop first_nonzero digits);
         mantissa = (if significant = [] then lit ''0'' else
           (if 1 < length significant then hd significant # lit ''.'' @ tl significant else significant))
     in format_exponent negative mantissa (int decimal - int first_nonzero - 1))"

fun format_dotnet_roundtrip :: "f64 \<Rightarrow> ustr" where
  "format_dotnet_roundtrip NaN = lit ''NaN''"
| "format_dotnet_roundtrip (Infinite s) = (if s then lit ''-Infinity'' else lit ''Infinity'')"
| "format_dotnet_roundtrip (Finite s q) =
    (let shortest = f64_display s q;
         small = f64_less (Finite False q) (round_f64 False (1 / 10000));
         large = \<not> f64_less (Finite False q) (Finite False (10 ^ 17));
         rendered = (if q \<noteq> 0 \<and> (small \<or> large) then scientific_notation shortest else shortest)
     in if list_ex (\<lambda>c. c = cp CHR ''.'' \<or> c = cp CHR ''e'' \<or> c = cp CHR ''E'') rendered
        then rendered else rendered @ lit ''.0'')"

record parsed_number =
  number_value :: f64
  rendering :: ustr

definition parsed_number_of :: "f64 \<Rightarrow> ustr \<Rightarrow> parsed_number" where
  "parsed_number_of v r = \<lparr>number_value = v, rendering = r\<rparr>"

definition non_base_ten :: "ustr \<Rightarrow> bool" where
  "non_base_ten text \<longleftrightarrow> 1 < length text \<and> text ! 0 = 48 \<and>
     text ! 1 \<notin> {cp CHR ''.'', cp CHR ''e'', cp CHR ''E''}"

definition parse_scanned_number :: "ustr \<Rightarrow> ustr \<Rightarrow> json_failure + parsed_number" where
  "parse_scanned_number here text =
    (if non_base_ten text then
       (let (ds, radix) = (if eq_ignore_ascii_case (take 2 text) (lit ''0x'') then (drop 2 text, 16)
                           else (text, 8)) in
        case (if ds = [] then None else u64_from_str_radix ds radix) of
          None \<Rightarrow> jerr here (MsgText ''invalid number literal'' text)
        | Some n \<Rightarrow> Inr (parsed_number_of (i64_as_f64 (u64_as_i64 n)) (i64_string (u64_as_i64 n))))
     else
       (let negative = prefix (lit ''-'') text; ds = (if negative then tl text else text) in
        if ds \<noteq> [] \<and> list_all is_ascii_digit ds then
          (let i = (if negative then - int (dec_value ds) else int (dec_value ds)) in
           if length ds \<le> 19 \<and> - (2 ^ 63) \<le> i \<and> i < 2 ^ 63
           then Inr (parsed_number_of (i64_as_f64 i) (i64_string i))
           else if 380 < length text then jerr here (MsgText ''number literal is too large to parse'' text)
           else (case parse_decimal text of
               None \<Rightarrow> jerr here (MsgText ''invalid number literal'' text)
             | Some v \<Rightarrow> Inr (parsed_number_of (if f64_is_zero v then Finite False 0 else v)
                 (normalize_big_integer text))))
        else (case parse_decimal text of
            None \<Rightarrow> jerr here (MsgText ''invalid number literal'' text)
          | Some v \<Rightarrow> Inr (parsed_number_of v (format_dotnet_roundtrip v)))))"

definition parse_number_or_signed_keyword ::
  "bool \<Rightarrow> ustr \<Rightarrow> json_failure + parsed_number \<times> ustr" where
  "parse_number_or_signed_keyword in_constructor cs =
    (if prefix (lit ''-Infinity'') cs \<and> is_keyword_separator in_constructor (drop 9 cs)
     then Inr (parsed_number_of (Infinite True) (lit ''-Infinity''), drop 9 cs)
     else (let text = takeWhile is_newtonsoft_number_char cs; rest = dropWhile is_newtonsoft_number_char cs in
       if rest \<noteq> [] \<and> \<not> is_number_separator (hd rest)
       then jerr rest (MsgChar ''unexpected character while parsing a number'' (hd rest))
       else rbind (parse_scanned_number rest text) (\<lambda>n. Inr (n, rest))))"

section \<open>Reading: values\<close>

datatype parsed_value =
    PNull
  | PBool bool
  | PNumber parsed_number
  | PString ustr
  | PArray "parsed_value list"
  | PObject "(ustr \<times> parsed_value) list"
  | PUndefined
  | PConstructor ustr "parsed_value list"

text \<open>
  \<open>ParsedValue::object\<close>: the ordinal, case-sensitive collapse of duplicate keys, through
  the same index of positions that \<open>ObjectValue\<close> keeps.
\<close>

definition parsed_object_step ::
  "ustr \<times> 'v \<Rightarrow> 'v object_state \<Rightarrow> 'v object_state" where
  "parsed_object_step entry st =
     (let (key, v) = entry; (entries, positions) = st in
      case im_get positions key of
        Some i \<Rightarrow> (entries[i := (fst (entries ! i), v)], positions)
      | None \<Rightarrow> (entries @ [(key, v)], im_insert key (length entries) positions))"

definition parsed_object :: "(ustr \<times> parsed_value) list \<Rightarrow> parsed_value" where
  "parsed_object authored = PObject (fst (fold parsed_object_step authored ([], [])))"

definition MAX_JSON_DEPTH :: nat where
  "MAX_JSON_DEPTH = 64"

definition enter_container :: "nat \<Rightarrow> ustr \<Rightarrow> json_failure + nat" where
  "enter_container enclosing_depth cs =
    (if MAX_JSON_DEPTH \<le> enclosing_depth
     then jerr cs (Msg ''the maximum depth of 64 has been exceeded'')
     else Inr (enclosing_depth + 1))"

definition bare_keywords :: "(ustr \<times> parsed_value) list" where
  "bare_keywords =
    [(lit ''null'', PNull), (lit ''true'', PBool True), (lit ''false'', PBool False),
     (lit ''NaN'', PNumber (parsed_number_of NaN (lit ''NaN''))),
     (lit ''Infinity'', PNumber (parsed_number_of (Infinite False) (lit ''Infinity''))),
     (lit ''undefined'', PUndefined)]"

definition consume_keyword :: "ustr \<Rightarrow> bool \<Rightarrow> ustr \<Rightarrow> ustr option" where
  "consume_keyword word in_constructor cs =
    (if prefix word cs \<and> is_keyword_separator in_constructor (drop (length word) cs)
     then Some (drop (length word) cs) else None)"

definition parse_bare_keyword :: "bool \<Rightarrow> ustr \<Rightarrow> json_failure + parsed_value \<times> ustr" where
  "parse_bare_keyword in_constructor cs =
    (case List.map_filter (\<lambda>(word, v). map_option (\<lambda>r. (v, r)) (consume_keyword word in_constructor cs))
        bare_keywords of
       hit # _ \<Rightarrow> Inr hit
     | [] \<Rightarrow> jerr cs (Msg ''unrecognized token''))"

definition parse_key :: "(uchar \<Rightarrow> general_category) \<Rightarrow> ustr \<Rightarrow> json_failure + ustr \<times> ustr" where
  "parse_key gc cs =
    (if cs \<noteq> [] \<and> (hd cs = 34 \<or> hd cs = 39) then parse_quoted_string cs
     else if cs \<noteq> [] \<and> is_newtonsoft_identifier_char gc (hd cs)
     then Inr (takeWhile (is_newtonsoft_identifier_char gc) cs, dropWhile (is_newtonsoft_identifier_char gc) cs)
     else jerr cs (Msg ''expected an object key''))"

definition expect_char :: "uchar \<Rightarrow> string \<Rightarrow> ustr \<Rightarrow> json_failure + ustr" where
  "expect_char ch m cs = (case cs of
     [] \<Rightarrow> jerr [] (Msg m) | c # r \<Rightarrow> (if c = ch then Inr r else jerr r (Msg m)))"

text \<open>The head of a constructor: \<open>new Name (\<close>; the name and what follows.\<close>

definition constructor_head ::
  "(uchar \<Rightarrow> general_category) \<Rightarrow> ustr \<Rightarrow> json_failure + ustr \<times> ustr" where
  "constructor_head gc cs =
    (if \<not> (prefix (lit ''new'') cs \<and> is_keyword_separator False (drop 3 cs))
     then jerr cs (Msg ''unexpected content while parsing JSON'')
     else (let cs1 = skip_json_whitespace (drop 3 cs);
               name = takeWhile (is_dotnet_letter_or_digit gc) cs1;
               cs2 = dropWhile (is_dotnet_letter_or_digit gc) cs1 in
       if name = [] then jerr cs2 (Msg ''constructor name cannot be empty'')
       else rbind (expect_char (cp CHR ''('') ''expected ( after constructor name'' (skip_json_whitespace cs2))
         (\<lambda>r. Inr (name, r))))"

definition starts_with_char :: "uchar \<Rightarrow> ustr \<Rightarrow> bool" where
  "starts_with_char c cs \<longleftrightarrow> cs \<noteq> [] \<and> hd cs = c"

text \<open>
  The bodies of the mutually recursive readers, with the recursive calls as arguments:
  \<open>parse_value\<close>, the loop of \<open>parse_object\<close>, and the loop that \<open>parse_array\<close> and
  \<open>parse_constructor\<close> share.
\<close>

type_synonym 'a reader = "ustr \<Rightarrow> json_failure + 'a \<times> ustr"

definition read_sequence :: "uchar \<Rightarrow> 'a reader \<Rightarrow> ('a \<Rightarrow> 'b) \<Rightarrow> 'b \<Rightarrow> 'b reader" where
  "read_sequence closing items wrap none cs =
     rbind (skip_insignificant cs) (\<lambda>r.
       if starts_with_char closing r then Inr (none, tl r)
       else rbind (items r) (\<lambda>(xs, r). Inr (wrap xs, r)))"

definition value_body :: "(uchar \<Rightarrow> general_category) \<Rightarrow>
    (nat \<Rightarrow> (ustr \<times> parsed_value) list reader) \<Rightarrow>
    (nat \<Rightarrow> bool \<Rightarrow> uchar \<Rightarrow> string \<Rightarrow> parsed_value list reader) \<Rightarrow>
    nat \<Rightarrow> bool \<Rightarrow> parsed_value reader" where
  "value_body gc members items depth in_constructor cs =
     rbind (skip_insignificant cs) (\<lambda>cs. case cs of
       [] \<Rightarrow> jerr [] (Msg ''unexpected end of input'')
     | c # r \<Rightarrow>
       (if c = cp CHR ''{'' then rbind (enter_container depth cs) (\<lambda>d.
          read_sequence (cp CHR ''}'') (members d) parsed_object (parsed_object []) r)
        else if c = cp CHR ''['' then rbind (enter_container depth cs) (\<lambda>d.
          read_sequence (cp CHR '']'') (items d False (cp CHR '']'') ''expected , or ] in array'')
            PArray (PArray []) r)
        else if c = 34 \<or> c = 39 then rbind (parse_quoted_string cs) (\<lambda>(s, r). Inr (PString s, r))
        else if c = cp CHR '','' then Inr (PUndefined, cs)
        else if c = cp CHR ''-'' \<or> is_ascii_digit c \<or> c = cp CHR ''.'' then
          rbind (parse_number_or_signed_keyword in_constructor cs) (\<lambda>(m, r). Inr (PNumber m, r))
        else if c = cp CHR ''n'' \<and> starts_with_char (cp CHR ''e'') r then
          rbind (enter_container depth cs) (\<lambda>d. rbind (constructor_head gc cs) (\<lambda>(name, r).
            read_sequence (cp CHR '')'') (items d True (cp CHR '')'') ''expected , or ) in constructor'')
              (PConstructor name) (PConstructor name []) r))
        else if is_ascii_alphabetic c then parse_bare_keyword in_constructor cs
        else jerr cs (MsgChar ''unexpected character'' c)))"

text \<open>What follows an element: a comma and more elements, a trailing comma, or the end.\<close>

definition after_element :: "uchar \<Rightarrow> string \<Rightarrow> 'a \<Rightarrow> 'a list reader \<Rightarrow> 'a list reader" where
  "after_element closing m x again cs =
     rbind (skip_insignificant cs) (\<lambda>cs.
       if starts_with_char (cp CHR '','') cs then
         rbind (skip_insignificant (tl cs)) (\<lambda>r.
           if starts_with_char closing r then Inr ([x], tl r)
           else rbind (again r) (\<lambda>(xs, r). Inr (x # xs, r)))
       else if starts_with_char closing cs then Inr ([x], tl cs)
       else jerr cs (Msg m))"

definition members_body :: "(uchar \<Rightarrow> general_category) \<Rightarrow> parsed_value reader \<Rightarrow>
    (ustr \<times> parsed_value) list reader \<Rightarrow> (ustr \<times> parsed_value) list reader" where
  "members_body gc val again cs =
     rbind (skip_insignificant cs) (\<lambda>cs.
     rbind (parse_key gc cs) (\<lambda>(key, cs).
     rbind (expect_char (cp CHR '':'') ''expected : after object key'' (skip_json_whitespace cs)) (\<lambda>cs.
     rbind (val cs) (\<lambda>(v, cs).
       after_element (cp CHR ''}'') ''expected , or } in object'' (key, v) again cs))))"

fun parse_value :: "(uchar \<Rightarrow> general_category) \<Rightarrow> nat \<Rightarrow> nat \<Rightarrow> bool \<Rightarrow> parsed_value reader"
  and parse_members :: "(uchar \<Rightarrow> general_category) \<Rightarrow> nat \<Rightarrow> nat \<Rightarrow> (ustr \<times> parsed_value) list reader"
  and parse_items :: "(uchar \<Rightarrow> general_category) \<Rightarrow> nat \<Rightarrow> nat \<Rightarrow> bool \<Rightarrow> uchar \<Rightarrow> string \<Rightarrow>
    parsed_value list reader"
where
  "parse_value gc 0 depth in_constructor cs = Inl OutOfFuel"
| "parse_value gc (Suc n) depth in_constructor cs =
     value_body gc (parse_members gc n) (parse_items gc n) depth in_constructor cs"
| "parse_members gc 0 depth cs = Inl OutOfFuel"
| "parse_members gc (Suc n) depth cs =
     members_body gc (parse_value gc n depth False) (parse_members gc n depth) cs"
| "parse_items gc 0 depth in_constructor closing m cs = Inl OutOfFuel"
| "parse_items gc (Suc n) depth in_constructor closing m cs =
     rbind (parse_value gc n depth in_constructor cs) (\<lambda>(v, cs).
       after_element closing m v (parse_items gc n depth in_constructor closing m) cs)"

section \<open>From parsed values to expression values\<close>

definition indent :: "nat \<Rightarrow> ustr" where
  "indent depth = spaces (depth * 2)"

text \<open>The lines of a rendered sequence: each element, a comma on all but the last.\<close>

definition render_lines :: "nat \<Rightarrow> ustr list \<Rightarrow> ustr" where
  "render_lines depth texts =
     concat (map (\<lambda>(i, t). indent (depth + 1) @ t @ (if i + 1 \<noteq> length texts then lit '','' else []) @ [10])
       (enumerate 0 texts)) @ indent depth"

primrec render_at_depth :: "parsed_value \<Rightarrow> nat \<Rightarrow> ustr" where
  "render_at_depth PNull = (\<lambda>depth. lit ''null'')"
| "render_at_depth (PBool b) = (\<lambda>depth. if b then lit ''true'' else lit ''false'')"
| "render_at_depth (PNumber n) = (\<lambda>depth. rendering n)"
| "render_at_depth (PString s) = (\<lambda>depth. write_json_string s)"
| "render_at_depth PUndefined = (\<lambda>depth. lit ''undefined'')"
| "render_at_depth (PArray items) = (\<lambda>depth.
     if items = [] then lit ''[]''
     else lit ''['' @ 10 # render_lines depth (map (\<lambda>f. f (depth + 1)) (map render_at_depth items)) @ lit '']'')"
| "render_at_depth (PObject entries) = (\<lambda>depth.
     if entries = [] then lit ''{}''
     else lit ''{'' @ 10 # render_lines depth (map (\<lambda>(key, f). write_json_string key @ lit '': '' @ f (depth + 1))
       (map (map_prod id render_at_depth) entries)) @ lit ''}'')"
| "render_at_depth (PConstructor name arguments) = (\<lambda>depth.
     lit ''new '' @ name @ lit ''('' @
     10 # render_lines depth (map (\<lambda>f. f (depth + 1)) (map render_at_depth arguments)) @ lit '')'')"

text \<open>
  Every array and object is a new allocation; the counter supplies its identity.
\<close>

primrec run_all :: "(nat \<Rightarrow> 'a \<times> nat) list \<Rightarrow> nat \<Rightarrow> 'a list \<times> nat" where
  "run_all [] rc = ([], rc)"
| "run_all (f # fs) rc = (let (x, rc') = f rc; (xs, rc'') = run_all fs rc' in (x # xs, rc''))"

primrec into_expression_value :: "casing \<Rightarrow> parsed_value \<Rightarrow> nat \<Rightarrow> expr_value \<times> nat" where
  "into_expression_value up PNull = (\<lambda>rc. (VNull, rc))"
| "into_expression_value up (PBool b) = (\<lambda>rc. (VBool b, rc))"
| "into_expression_value up (PNumber n) = (\<lambda>rc. (VNumber (number_value n), rc))"
| "into_expression_value up (PString s) = (\<lambda>rc. (VString s, rc))"
| "into_expression_value up (PArray items) = (\<lambda>rc.
     let (vs, rc') = run_all (map (into_expression_value up) items) rc in (VArray rc' vs False, rc' + 1))"
| "into_expression_value up (PObject entries) = (\<lambda>rc.
     let (vs, rc') = run_all (map snd (map (map_prod id (into_expression_value up)) entries)) rc
     in (object_new up rc' (zip (map fst entries) vs) False, rc' + 1))"
| "into_expression_value up PUndefined = (\<lambda>rc. (VString [], rc))"
| "into_expression_value up (PConstructor name arguments) =
     (\<lambda>rc. (VString (render_at_depth (PConstructor name arguments) 0), rc))"

definition json_fuel :: "ustr \<Rightarrow> nat" where
  "json_fuel cs = 2 * length cs + 1"

text \<open>The reader, before its failures are given their positions.\<close>

definition read_json :: "casing \<Rightarrow> (uchar \<Rightarrow> general_category) \<Rightarrow> ustr \<Rightarrow> nat \<Rightarrow>
    json_failure + expr_value \<times> nat" where
  "read_json up gc text rc =
    (let cs = skip_json_whitespace text in
     if starts_with_char (cp CHR ''/'') cs then rbind (parse_comment cs) (\<lambda>(s, r). Inr (VString s, rc))
     else rbind (parse_value gc (json_fuel cs) 0 False cs) (\<lambda>(p, r). Inr (into_expression_value up p rc)))"

definition from_json :: "casing \<Rightarrow> (uchar \<Rightarrow> general_category) \<Rightarrow> ustr \<Rightarrow> nat \<Rightarrow>
    from_json_error + expr_value \<times> nat" where
  "from_json up gc text rc = (case read_json up gc text rc of
     Inr res \<Rightarrow> Inr res
   | Inl (JsonFailure left m) \<Rightarrow> Inl \<lparr>position = length text - left, message = m\<rparr>
   | Inl OutOfFuel \<Rightarrow> Inl \<lparr>position = length text, message = Msg ''out of fuel''\<rparr>)"

end
