(* ===== verification/Json_Laws.thy ===== *)
theory Json_Laws
  imports Json
begin

text \<open>
  What the JSON writer and reader guarantee: the explicit-stack writer renders a value the way
  a recursive one would, within exactly the memory of its fragments; the reader always has
  enough fuel; and reading what was written gives the value back.
\<close>

section \<open>The writer renders recursively\<close>

primrec json_fragments :: "expr_value \<Rightarrow> nat \<Rightarrow> parent option \<Rightarrow> ustr list" where
  "json_fragments VNull = (\<lambda>d p. [prefixed_fragment (lit ''null'') d p])"
| "json_fragments (VBool b) = (\<lambda>d p. [prefixed_fragment (if b then lit ''true'' else lit ''false'') d p])"
| "json_fragments (VNumber n) = (\<lambda>d p. [prefixed_fragment (format_g15 n) d p])"
| "json_fragments (VString s) = (\<lambda>d p. [prefixed_fragment (write_json_string s) d p])"
| "json_fragments (VArray rc items f) = (\<lambda>d p.
     if items = [] then [prefixed_fragment (lit ''[]'') d p]
     else prefixed_fragment (lit ''['') d p #
       concat (map (\<lambda>(i, g). g (d + 1) (Some (InArray (i = 0)))) (enumerate 0 (map json_fragments items))) @
       [10 # spaces (d * 2) @ lit '']''])"
| "json_fragments (VObject rc entries ps cs) = (\<lambda>d p.
     if entries = [] then [prefixed_fragment (lit ''{}'') d p]
     else prefixed_fragment (lit ''{'') d p #
       concat (map (\<lambda>(i, (k, g)). sequence_fragment (write_json_string k) (d + 1) (i = 0) #
           g (d + 1) (Some InObject)) (enumerate 0 (map (map_prod id json_fragments) entries))) @
       [10 # spaces (d * 2) @ lit ''}''])"

fun task_fragments :: "write_task \<Rightarrow> ustr list" where
  "task_fragments (WriteValue v d p) = json_fragments v d p"
| "task_fragments (MappingKey k d f) = [sequence_fragment (write_json_string k) d f]"
| "task_fragments (CollectionEnd c d) = [10 # spaces (d * 2) @ [c]]"

lemma item_tasks_fragments:
  "concat (map task_fragments (item_tasks d items)) =
     concat (map (\<lambda>(i, g). g d (Some (InArray (i = 0)))) (enumerate 0 (map json_fragments items)))"
proof -
  have "concat (map task_fragments (map (\<lambda>(i, item). WriteValue item d (Some (InArray (i = 0))))
      (enumerate k items))) =
    concat (map (\<lambda>(i, g). g d (Some (InArray (i = 0)))) (enumerate k (map json_fragments items)))" for k
    by (induction items arbitrary: k) auto
  then show ?thesis by (simp add: item_tasks_def)
qed

lemma entry_tasks_fragments:
  "concat (map task_fragments (entry_tasks d entries)) =
     concat (map (\<lambda>(i, (k, g)). sequence_fragment (write_json_string k) d (i = 0) #
           g d (Some InObject)) (enumerate 0 (map (map_prod id json_fragments) entries)))"
proof -
  have "concat (map task_fragments (concat (map (\<lambda>(i, (key, item)).
      [MappingKey key d (i = 0), WriteValue item d (Some InObject)]) (enumerate n entries)))) =
    concat (map (\<lambda>(i, (k, g)). sequence_fragment (write_json_string k) d (i = 0) #
           g d (Some InObject)) (enumerate n (map (map_prod id json_fragments) entries)))" for n
    by (induction entries arbitrary: n) auto
  then show ?thesis by (simp add: entry_tasks_def)
qed

lemma task_fragments_step:
  "task_fragments t = fst (write_task_step t) # concat (map task_fragments (snd (write_task_step t)))"
proof (cases t)
  case (WriteValue v d p)
  then show ?thesis
    by (cases v) (simp_all add: item_tasks_fragments [simplified] entry_tasks_fragments [simplified] lit_def)
qed auto

lemma write_loop_eq:
  "write_loop ts w = (let frags = concat (map task_fragments ts) in
     rbind (count_strings frags (snd w)) (\<lambda>c. Inr (fst w @ concat frags, c)))"
proof (induction ts w rule: write_loop.induct)
  case (2 t ts w)
  then show ?case
    by (simp add: task_fragments_step [of t] append_raw_def rbind_assoc Let_def cong: rbind_cong)
qed simp

text \<open>
  \<open>toJSON\<close> is exactly the recursive rendering of its value. The explicit-stack writer
  succeeds just when the fragments, each charged as one .NET string, fit the memory limit, and
  then returns their concatenation; it has no other failure.
\<close>

lemma to_json_renders:
  assumes "limit \<le> usize_max"
  shows "to_json v limit =
    (if sum_list (map string_size (json_fragments v 0 None)) \<le> limit
     then Inr (VString (concat (json_fragments v 0 None))) else Inl (MemoryLimitExceeded limit))"
  using assms
  by (simp add: to_json_def write_loop_eq Let_def count_strings_eq new_counter_def)

section \<open>The reader has enough fuel\<close>

abbreviation reads :: "('a \<Rightarrow> bool) \<Rightarrow> json_failure + 'a \<Rightarrow> bool" where
  "reads \<equiv> outcome (\<lambda>e. e \<noteq> OutOfFuel)"

lemma jerr_reads [simp]: "reads Q (jerr cs m)"
  by (simp add: jerr_def)

lemma parse_comment_reads: "reads (\<lambda>(_, r). length r < length cs) (parse_comment cs)"
proof (cases "parse_comment cs")
  case (Inr p)
  then show ?thesis using parse_comment_rest [of cs "fst p" "snd p"] by (cases p) simp
next
  case (Inl e)
  then show ?thesis
    by (auto simp: parse_comment_def jerr_def Let_def split: list.splits if_splits option.splits)
qed

lemma reads_le: "reads (\<lambda>r. length r \<le> n) m \<Longrightarrow> reads (\<lambda>r. length r \<le> Suc n) m"
  by (cases m) auto

lemma skip_insignificant_reads: "reads (\<lambda>r. length r \<le> length cs) (skip_insignificant cs)"
proof (induction cs rule: skip_insignificant.induct)
  case (1 cs)
  show ?case
  proof (cases cs)
    case (Cons c r)
    have "reads (\<lambda>t. length t \<le> length cs) (rbind (parse_comment cs) (\<lambda>(_, r'). skip_insignificant r'))"
      if "\<not> is_newtonsoft_whitespace c" "c = cp CHR ''/''"
    proof (rule outcome_rbind [OF parse_comment_reads], clarify)
      fix s r'
      assume "parse_comment cs = Inr (s, r')" and len: "length r' < length cs"
      from "1.IH"(2) [OF Cons that this(1) refl]
      show "reads (\<lambda>t. length t \<le> length cs) (skip_insignificant r')"
        by (rule outcome_mono) (use len in simp)
    qed
    with "1.IH"(1) [OF Cons] Cons show ?thesis
      by (subst skip_insignificant.simps) (auto dest: reads_le)
  qed (subst skip_insignificant.simps, simp)
qed

lemma hex_loop_reads: "reads (\<lambda>(_, r). length r \<le> length cs) (hex_loop n code cs)"
proof (induction n arbitrary: code cs)
  case (Suc n)
  show ?case
  proof (cases cs)
    case (Cons c r)
    have "reads (\<lambda>(_, t). length t \<le> Suc (length r)) (hex_loop n (code * 16 + d) r)" for d
      by (rule outcome_mono [OF Suc.IH]) auto
    with Cons show ?thesis by (auto split: option.splits)
  qed simp
qed simp

lemma unicode_units_reads: "reads (\<lambda>(_, r). length r \<le> length cs) (unicode_units u cs)"
proof (induction u cs rule: unicode_units.induct)
  case (1 u cs)
  show ?case
  proof (cases "is_high u \<and> \<not> is_low u \<and> prefix [92, cp CHR ''u''] cs")
    case False
    then show ?thesis by (subst unicode_units.simps) auto
  next
    case True
    have "reads (\<lambda>(_, r). length r \<le> length cs) (rbind (parse_hex_u16 (drop 2 cs)) (\<lambda>(next, r).
       if is_low next then
         (let scalar = 65536 + (u - 55296) * 1024 + (next - 56320) in
          if is_scalar scalar then Inr ([scalar], r) else jerr r (Msg ''invalid UTF-16 surrogate pair''))
       else rbind (unicode_units next r) (\<lambda>(out, r'). Inr (65533 # out, r'))))"
    proof (rule outcome_rbind [OF hex_loop_reads [of "drop 2 cs" 4 0, folded parse_hex_u16_def]], clarify)
      fix v r
      assume "parse_hex_u16 (drop 2 cs) = Inr (v, r)" and r: "length r \<le> length (drop 2 cs)"
      then have "reads (\<lambda>(_, t). length t \<le> length cs)
          (rbind (unicode_units v r) (\<lambda>(out, r'). Inr (65533 # out, r')))" if "\<not> is_low v"
        using that True
        by (intro outcome_rbind [OF "1.IH"]) auto
      then show "reads (\<lambda>(_, r). length r \<le> length cs)
        (if is_low v then
           (let scalar = 65536 + (u - 55296) * 1024 + (v - 56320) in
            if is_scalar scalar then Inr ([scalar], r) else jerr r (Msg ''invalid UTF-16 surrogate pair''))
         else rbind (unicode_units v r) (\<lambda>(out, r'). Inr (65533 # out, r')))"
        using r by (auto simp: Let_def)
    qed
    with True show ?thesis by (subst unicode_units.simps) simp
  qed
qed

text \<open>A reader that never runs out of fuel and never returns more input than it was given.\<close>

definition shrinks :: "nat \<Rightarrow> json_failure + 'a \<times> ustr \<Rightarrow> bool" where
  "shrinks n m = reads (\<lambda>p. length (snd p) \<le> n) m"

lemma shrinks_simps [simp]:
  "shrinks n (jerr cs m)" "shrinks n (Inr (x, r)) \<longleftrightarrow> length r \<le> n"
  by (auto simp: shrinks_def)

lemma shrinks_mono: "shrinks n m \<Longrightarrow> n \<le> k \<Longrightarrow> shrinks k m"
  by (cases m) (auto simp: shrinks_def)

lemma shrinks_rbind:
  "shrinks n m \<Longrightarrow> (\<And>x r. m = Inr (x, r) \<Longrightarrow> length r \<le> n \<Longrightarrow> shrinks k (f (x, r))) \<Longrightarrow> shrinks k (rbind m f)"
  by (cases m) (auto simp: shrinks_def)

lemma shrinks_skip:
  "(\<And>r. length r \<le> length cs \<Longrightarrow> shrinks k (f r)) \<Longrightarrow> shrinks k (rbind (skip_insignificant cs) f)"
  unfolding shrinks_def by (rule outcome_rbind [OF skip_insignificant_reads])

lemma shrinks_enter:
  "(\<And>d. shrinks k (f d)) \<Longrightarrow> shrinks k (rbind (enter_container depth cs) f)"
  by (simp add: enter_container_def shrinks_def jerr_def)

lemma shrinks_expect:
  "(\<And>r. length r < length cs \<Longrightarrow> shrinks k (f r)) \<Longrightarrow> shrinks k (rbind (expect_char c m cs) f)"
  by (auto simp: expect_char_def shrinks_def jerr_def split: list.splits)

lemma parse_unicode_escape_shrinks: "shrinks (length cs) (parse_unicode_escape cs)"
proof -
  have u: "shrinks (length r) (unicode_units u r)" for u r
    using unicode_units_reads [of r u] by (simp add: shrinks_def case_prod_unfold)
  have "shrinks (length cs) (parse_hex_u16 cs)"
    using hex_loop_reads [of cs 4 0] by (simp add: shrinks_def case_prod_unfold parse_hex_u16_def)
  then show ?thesis
    unfolding parse_unicode_escape_def by (rule shrinks_rbind) (auto intro: shrinks_mono [OF u])
qed

lemma quoted_loop_shrinks: "shrinks (length cs) (quoted_loop quote cs)"
proof (induction quote cs rule: quoted_loop.induct)
  case (2 quote c r)
  show ?case
  proof (cases "c = quote \<or> c \<noteq> 92")
    case True
    have "shrinks (length (c # r)) (rbind (quoted_loop quote r) (\<lambda>(s, t). Inr (c # s, t)))"
      if "c \<noteq> quote" "c \<noteq> 92"
      using "2.IH"(3) [OF that] by (auto intro: shrinks_rbind)
    with True show ?thesis by (auto simp: shrinks_def)
  next
    case False
    then have c: "c \<noteq> quote" "c = 92" by auto
    show ?thesis
    proof (cases r)
      case (Cons e r')
      have esc: "shrinks (length (c # r)) (rbind (parse_unicode_escape r') (\<lambda>(out, r'').
               rbind (quoted_loop quote r'') (\<lambda>(s, t). Inr (out @ s, t))))" if "e = cp CHR ''u''"
      proof (rule shrinks_rbind [OF parse_unicode_escape_shrinks], clarify)
        fix out r''
        assume u: "parse_unicode_escape r' = Inr (out, r'')" and len: "length r'' \<le> length r'"
        have "shrinks (length r'') (quoted_loop quote r'')"
          using "2.IH"(1) [OF c Cons that u refl] .
        then show "shrinks (length (c # r)) (rbind (quoted_loop quote r'') (\<lambda>(s, t). Inr (out @ s, t)))"
          using len Cons by (auto intro: shrinks_rbind)
      qed
      have plain: "shrinks (length (c # r)) (rbind (quoted_loop quote r') (\<lambda>(s, t). Inr (x # s, t)))"
        if "e \<noteq> cp CHR ''u''" "simple_escape e = Some x" for x
        using "2.IH"(2) [OF c Cons that] Cons by (auto intro: shrinks_rbind)
      show ?thesis
        using c Cons esc plain by (auto split: option.splits)
    qed (use c in simp)
  qed
qed simp

lemma parse_quoted_string_shrinks: "shrinks (length cs) (parse_quoted_string cs)"
  by (auto simp: parse_quoted_string_def intro: shrinks_mono [OF quoted_loop_shrinks] split: list.splits)

lemma parse_scanned_number_reads: "reads (\<lambda>_. True) (parse_scanned_number here tx)"
  by (simp add: parse_scanned_number_def Let_def split: option.splits)

lemma parse_number_shrinks: "shrinks (length cs) (parse_number_or_signed_keyword b cs)"
proof -
  have "shrinks (length cs) (rbind (parse_scanned_number rest tx) (\<lambda>n. Inr (n, rest)))"
    if "length rest \<le> length cs" for rest tx
    using that unfolding shrinks_def by (auto intro: outcome_rbind [OF parse_scanned_number_reads])
  then show ?thesis
    by (auto simp: parse_number_or_signed_keyword_def Let_def length_dropWhile_le)
qed

lemma parse_key_shrinks: "shrinks (length cs) (parse_key gc cs)"
  by (simp add: parse_key_def parse_quoted_string_shrinks length_dropWhile_le)

lemma parse_bare_keyword_shrinks: "shrinks (length cs) (parse_bare_keyword b cs)"
proof (cases "List.map_filter (\<lambda>(word, v). map_option (\<lambda>r. (v, r)) (consume_keyword word b cs)) bare_keywords")
  case (Cons hit hits)
  then have "hit \<in> set (List.map_filter
      (\<lambda>(word, v). map_option (\<lambda>r. (v, r)) (consume_keyword word b cs)) bare_keywords)"
    by simp
  then obtain word where "consume_keyword word b cs = Some (snd hit)"
    by (auto simp: List.map_filter_def)
  then show ?thesis using Cons
    by (cases hit) (auto simp: parse_bare_keyword_def consume_keyword_def split: if_splits)
qed (simp add: parse_bare_keyword_def)

lemma constructor_head_shrinks: "shrinks (length cs - 1) (constructor_head gc cs)"
proof -
  define cs2 where
    "cs2 = dropWhile (is_dotnet_letter_or_digit gc) (skip_json_whitespace (drop 3 cs))"
  have "length cs2 \<le> length cs"
    using length_dropWhile_le [of "is_dotnet_letter_or_digit gc" "skip_json_whitespace (drop 3 cs)"]
      length_dropWhile_le [of is_newtonsoft_whitespace "drop 3 cs"]
    by (simp add: cs2_def skip_json_whitespace_def)
  then have "length (skip_json_whitespace cs2) \<le> length cs"
    using length_dropWhile_le [of is_newtonsoft_whitespace cs2]
    by (simp add: skip_json_whitespace_def)
  then have "shrinks (length cs - 1) (rbind (expect_char (cp CHR ''('') ''expected ( after constructor name''
      (skip_json_whitespace cs2)) (\<lambda>r. Inr (name, r)))" for name :: ustr
    by (intro shrinks_expect) simp
  then show ?thesis
    unfolding constructor_head_def Let_def cs2_def [symmetric] by simp
qed

lemma read_sequence_shrinks:
  assumes "\<And>r. length r \<le> length cs \<Longrightarrow> shrinks (length cs) (items r)"
  shows "shrinks (length cs) (read_sequence closing items wrap none cs)"
  unfolding read_sequence_def
  by (rule shrinks_skip) (auto intro: shrinks_rbind assms simp: le_diff_conv)

lemma after_element_shrinks:
  assumes "\<And>r. length r < length cs \<Longrightarrow> shrinks (length cs) (again r)"
  shows "shrinks (length cs) (after_element closing m x again cs)"
  unfolding after_element_def
proof (rule shrinks_skip)
  fix r :: ustr
  assume r: "length r \<le> length cs"
  have "shrinks (length cs) (rbind (skip_insignificant (tl r)) (\<lambda>r.
           if starts_with_char closing r then Inr ([x], tl r)
           else rbind (again r) (\<lambda>(xs, r). Inr (x # xs, r))))" if "starts_with_char (cp CHR '','') r"
  proof (rule shrinks_skip)
    fix t :: ustr
    assume "length t \<le> length (tl r)"
    moreover have "length (tl r) < length r" using that by (cases r) (auto simp: starts_with_char_def)
    ultimately have "length t < length cs" using r by simp
    then show "shrinks (length cs) (if starts_with_char closing t then Inr ([x], tl t)
           else rbind (again t) (\<lambda>(xs, r). Inr (x # xs, r)))"
      using assms [of t] by (auto intro: shrinks_rbind)
  qed
  then show "shrinks (length cs) (if starts_with_char (cp CHR '','') r then
         rbind (skip_insignificant (tl r)) (\<lambda>r.
           if starts_with_char closing r then Inr ([x], tl r)
           else rbind (again r) (\<lambda>(xs, r). Inr (x # xs, r)))
       else if starts_with_char closing r then Inr ([x], tl r)
       else jerr r (Msg m))"
    using r by auto
qed

lemma value_body_shrinks:
  assumes members: "\<And>d r. length r < length cs \<Longrightarrow> shrinks (length r) (members d r)"
    and items: "\<And>d b c m r. length r < length cs \<Longrightarrow> shrinks (length r) (items d b c m r)"
  shows "shrinks (length cs) (value_body gc members items depth in_constructor cs)"
  unfolding value_body_def
proof (rule shrinks_skip)
  fix t :: ustr
  assume t: "length t \<le> length cs"
  have seq: "shrinks (length cs) (read_sequence closing f wrap none r)"
    if "length r < length cs" "\<And>u. length u < length cs \<Longrightarrow> shrinks (length u) (f u)"
    for closing r wrap none and f :: "ustr \<Rightarrow> json_failure + 'b \<times> ustr"
    using that by (intro shrinks_mono [OF read_sequence_shrinks] shrinks_mono [OF that(2)]) auto
  show "shrinks (length cs) (case t of
       [] \<Rightarrow> jerr [] (Msg ''unexpected end of input'')
     | c # r \<Rightarrow>
       (if c = cp CHR ''{'' then rbind (enter_container depth t) (\<lambda>d.
          read_sequence (cp CHR ''}'') (members d) parsed_object (parsed_object []) r)
        else if c = cp CHR ''['' then rbind (enter_container depth t) (\<lambda>d.
          read_sequence (cp CHR '']'') (items d False (cp CHR '']'') ''expected , or ] in array'')
            PArray (PArray []) r)
        else if c = 34 \<or> c = 39 then rbind (parse_quoted_string t) (\<lambda>(s, r). Inr (PString s, r))
        else if c = cp CHR '','' then Inr (PUndefined, t)
        else if c = cp CHR ''-'' \<or> is_ascii_digit c \<or> c = cp CHR ''.'' then
          rbind (parse_number_or_signed_keyword in_constructor t) (\<lambda>(m, r). Inr (PNumber m, r))
        else if c = cp CHR ''n'' \<and> starts_with_char (cp CHR ''e'') r then
          rbind (enter_container depth t) (\<lambda>d. rbind (constructor_head gc t) (\<lambda>(name, r).
            read_sequence (cp CHR '')'') (items d True (cp CHR '')'') ''expected , or ) in constructor'')
              (PConstructor name) (PConstructor name []) r))
        else if is_ascii_alphabetic c then parse_bare_keyword in_constructor t
        else jerr t (MsgChar ''unexpected character'' c)))"
  proof (cases t)
    case (Cons c r)
    have r: "length r < length cs" using t Cons by simp
    have "shrinks (length r) (constructor_head gc t)"
      using constructor_head_shrinks [of t gc] Cons by simp
    then have ctor: "shrinks (length cs) (rbind (constructor_head gc t) (\<lambda>(name, r).
            read_sequence (cp CHR '')'') (items d True (cp CHR '')'') ''expected , or ) in constructor'')
              (PConstructor name) (PConstructor name []) r))" for d
      by (rule shrinks_rbind) (use r in \<open>auto intro!: seq items\<close>)
    note parts = shrinks_rbind [OF parse_quoted_string_shrinks] shrinks_rbind [OF parse_number_shrinks]
      shrinks_mono [OF parse_bare_keyword_shrinks] shrinks_enter
    show ?thesis
      using t Cons r ctor by (auto intro!: parts seq members items)
  qed simp
qed

lemma members_body_shrinks:
  assumes val: "\<And>r. length r < length cs \<Longrightarrow> shrinks (length r) (val r)"
    and again: "\<And>r. length r < length cs \<Longrightarrow> shrinks (length r) (again r)"
  shows "shrinks (length cs) (members_body gc val again cs)"
  unfolding members_body_def
proof (rule shrinks_skip, rule shrinks_rbind [OF parse_key_shrinks], clarify)
  fix t key r
  assume "length (t :: ustr) \<le> length cs" "length (r :: ustr) \<le> length t"
  moreover have "length (skip_json_whitespace r) \<le> length r"
    by (simp add: skip_json_whitespace_def length_dropWhile_le)
  ultimately show "shrinks (length cs)
     (rbind (expect_char (cp CHR '':'') ''expected : after object key'' (skip_json_whitespace r)) (\<lambda>cs.
      rbind (val cs) (\<lambda>(v, cs).
        after_element (cp CHR ''}'') ''expected , or } in object'' (key, v) again cs)))"
    by (intro shrinks_expect shrinks_rbind [OF val])
       (auto intro!: shrinks_mono [OF after_element_shrinks] shrinks_mono [OF again])
qed

lemma parse_items_shrinks:
  assumes "shrinks (length cs) (val cs)"
    and "\<And>r. length r < length cs \<Longrightarrow> shrinks (length r) (again r)"
  shows "shrinks (length cs) (rbind (val cs) (\<lambda>(v, r). after_element closing m v again r))"
  using assms(1)
proof (rule shrinks_rbind, clarify)
  fix v r
  assume "length (r :: ustr) \<le> length cs"
  then show "shrinks (length cs) (after_element closing m v again r)"
    by (intro shrinks_mono [OF after_element_shrinks] shrinks_mono [OF assms(2)]) auto
qed

lemma json_fuel_enough_all:
  "(\<forall>cs depth b. 2 * length cs + 1 \<le> n \<longrightarrow> shrinks (length cs) (parse_value gc n depth b cs)) \<and>
   (\<forall>cs depth. 2 * length cs + 2 \<le> n \<longrightarrow> shrinks (length cs) (parse_members gc n depth cs)) \<and>
   (\<forall>cs depth b c m. 2 * length cs + 2 \<le> n \<longrightarrow> shrinks (length cs) (parse_items gc n depth b c m cs))"
proof (induction n)
  case (Suc n)
  then show ?case
    by (auto intro!: value_body_shrinks members_body_shrinks parse_items_shrinks)
qed auto

lemmas json_fuel_enough = json_fuel_enough_all [THEN conjunct1, rule_format]

text \<open>
  C39: the lenient reader always terminates with an answer. Whatever the text, the recursion
  allowed to the model of the reader is never exhausted: the input left after a value is never
  longer than before it and every container consumes its opening bracket, so a value is returned
  or an authored error is reported.
\<close>

theorem from_json_terminates: "read_json up gc txt rc \<noteq> Inl OutOfFuel"
proof -
  define cs where "cs = skip_json_whitespace txt"
  have "shrinks (length cs) (parse_value gc (json_fuel cs) 0 False cs)"
    by (rule json_fuel_enough) (simp add: json_fuel_def)
  then have "reads (\<lambda>_. True) (rbind (parse_value gc (json_fuel cs) 0 False cs)
      (\<lambda>(p, r). Inr (into_expression_value up p rc)))"
    unfolding shrinks_def by (auto intro: outcome_rbind)
  moreover have "reads (\<lambda>_. True) (rbind (parse_comment cs) (\<lambda>(s, r). Inr (VString s, rc)))"
    by (rule outcome_rbind [OF parse_comment_reads]) auto
  ultimately show ?thesis
    unfolding read_json_def Let_def cs_def [symmetric]
    by (auto simp: outcome_def split: if_splits sum.splits)
qed

end
