(* ===== verification/Json_Round_Trip.thy ===== *)
theory Json_Round_Trip
  imports Json_Laws
begin

text \<open>
  \<open>fromJSON(toJSON(v))\<close> is \<open>v\<close>: token by token for strings, numbers and keywords, then
  for whole values by induction. Identities of arrays and objects are new, so values are compared
  with them erased.
\<close>

section \<open>Tokens\<close>

lemma quoted_loop_escape:
  "quoted_loop 34 (json_escape c @ cs) = rbind (quoted_loop 34 cs) (\<lambda>(s, t). Inr (c # s, t))"
proof (cases "c < 32 \<and> c \<notin> {8, 9, 10, 12, 13}")
  case True
  have dig: "to_digit 16 (hex_digit d) = Some d" if "d < 16" for d
    by (cases "d < 10") (use that in \<open>simp_all add: to_digit_def hex_digit_def is_ascii_digit_def\<close>)
  have four: "(4 :: nat) = Suc (Suc (Suc (Suc 0)))" by simp
  have zero: "to_digit 16 48 = Some 0" using dig [of 0] by (simp add: hex_digit_def)
  have "to_digit 16 (hex_digit (c div 16)) = Some (c div 16)"
    "to_digit 16 (hex_digit (c mod 16)) = Some (c mod 16)"
    using True by (auto intro: dig)
  then have "parse_hex_u16 (48 # 48 # hex_digit (c div 16) # hex_digit (c mod 16) # cs) = Inr (c, cs)"
    unfolding parse_hex_u16_def four hex_loop.simps list.case zero by simp
  moreover have "unicode_units c cs = Inr ([c], cs)"
    using True by (subst unicode_units.simps) (simp add: is_low_def is_high_def is_scalar_def)
  ultimately show ?thesis
    using True by (simp add: json_escape_def parse_unicode_escape_def)
next
  case False
  then show ?thesis
    by (auto simp: json_escape_def simple_escape_def)
qed

lemma quoted_loop_string:
  "quoted_loop 34 (concat (map json_escape s) @ 34 # rest) = Inr (s, rest)"
  by (induction s) (simp_all add: quoted_loop_escape)

lemma parse_quoted_string_round_trip:
  "parse_quoted_string (write_json_string s @ rest) = Inr (s, rest)"
  by (simp add: parse_quoted_string_def write_json_string_def quoted_loop_string)

text \<open>What may follow a value in written text: nothing, a comma or a line break.\<close>

definition delimited :: "ustr \<Rightarrow> bool" where
  "delimited rest \<longleftrightarrow> rest = [] \<or> hd rest = cp CHR '','' \<or> hd rest = 10"

lemma delimited_cases:
  assumes "delimited rest"
  obtains "rest = []" | r where "rest = 44 # r" | r where "rest = 10 # r"
  using assms by (cases rest) (auto simp: delimited_def)

lemma delimited_separators:
  assumes "delimited rest"
  shows "is_keyword_separator b rest"
    and "rest \<noteq> [] \<Longrightarrow> is_number_separator (hd rest) \<and> \<not> is_newtonsoft_number_char (hd rest)"
  using assms
  by (cases rule: delimited_cases; simp add: is_keyword_separator_def is_newtonsoft_whitespace_def
      is_number_separator_def is_newtonsoft_number_char_def is_ascii_digit_def)+

lemma takeWhile_delimited:
  assumes "delimited rest" "list_all is_newtonsoft_number_char ds"
  shows "takeWhile is_newtonsoft_number_char (ds @ rest) = ds"
    and "dropWhile is_newtonsoft_number_char (ds @ rest) = rest"
proof -
  have "takeWhile is_newtonsoft_number_char rest = []" "dropWhile is_newtonsoft_number_char rest = rest"
    using delimited_separators(2) [OF assms(1)] by (cases rest; simp)+
  then show "takeWhile is_newtonsoft_number_char (ds @ rest) = ds"
    "dropWhile is_newtonsoft_number_char (ds @ rest) = rest"
    using assms(2) by (simp_all add: list_all_iff)
qed

definition integer_number :: "bool \<Rightarrow> nat \<Rightarrow> parsed_number" where
  "integer_number s n = parsed_number_of (Finite s (of_nat n))
     (i64_string (if s then - int n else int n))"

lemma dec_string_leading_zero: "hd (dec_string n) = 48 \<Longrightarrow> n = 0"
proof (induction n rule: dec_string.induct)
  case (1 n)
  show ?case
  proof (cases "n < 10")
    case True
    with "1.prems" show ?thesis by (simp add: dec_string.simps [of n] digit_char_def)
  next
    case False
    with "1.prems" have "hd (dec_string (n div 10)) = 48" by (simp add: dec_string.simps [of n])
    with 1 False show ?thesis by auto
  qed
qed

lemma dec_string_digit_hd: "48 \<le> hd (dec_string n) \<and> hd (dec_string n) \<le> 57"
  using dec_string_digits [of "hd (dec_string n)" n] by (simp add: is_ascii_digit_def)

lemma length_dec_string_le:
  assumes "n < 10 ^ k" "0 < k"
  shows "length (dec_string n) \<le> k"
proof (rule ccontr)
  assume *: "\<not> length (dec_string n) \<le> k"
  then have "0 < n" using assms(2) by (cases n) (auto simp: dec_string.simps)
  then have "10 ^ (length (dec_string n) - 1) \<le> n" using length_dec_string_bounds by blast
  moreover have "(10::nat) ^ k \<le> 10 ^ (length (dec_string n) - 1)"
    using * by (intro power_increasing) auto
  ultimately show False using assms by linarith
qed

lemma parse_scanned_integer:
  assumes "n < 10 ^ 15" "s \<longrightarrow> 0 < n"
  shows "parse_scanned_number here (sign_text s @ dec_string n) = Inr (integer_number s n)"
proof -
  have digits: "list_all is_ascii_digit (dec_string n)"
    by (auto simp: list_all_iff dest: dec_string_digits)
  obtain d ds where ds: "dec_string n = d # ds" by (cases "dec_string n") auto
  have d: "48 \<le> d" "d \<le> 57" using dec_string_digit_hd [of n] by (simp_all add: ds)
  have one: "ds = []" if "d = 48"
    using that dec_string_leading_zero [of n] ds by (simp add: dec_string.simps digit_char_def)
  have base: "\<not> non_base_ten (sign_text s @ dec_string n)"
    using one by (cases s) (auto simp: non_base_ten_def sign_text_def lit_def ds)
  have len: "length (dec_string n) \<le> 19"
    using length_dec_string_le [OF assms(1)] by simp
  have val: "i64_as_f64 (if s then - int n else int n) = Finite s (of_nat n)"
    using assms round_f64_of_nat [of n s] by (auto simp: i64_as_f64_def)
  have neg: "prefix (lit ''-'') (sign_text s @ dec_string n) \<longleftrightarrow> s"
    using d by (cases s) (auto simp: sign_text_def lit_def ds)
  show ?thesis
    unfolding parse_scanned_number_def Let_def neg
    using base digits len assms val
    by (cases s) (auto simp: integer_number_def sign_text_def lit_def)
qed

lemma parse_number_round_trip:
  assumes "n < 10 ^ 15" "s \<longrightarrow> 0 < n" "delimited rest"
  shows "parse_number_or_signed_keyword b (sign_text s @ dec_string n @ rest) =
    Inr (integer_number s n, rest)"
proof -
  obtain d ds where ds: "dec_string n = d # ds" by (cases "dec_string n") auto
  have d: "48 \<le> d" "d \<le> 57" using dec_string_digit_hd [of n] by (simp_all add: ds)
  have ninf: "\<not> prefix (lit ''-Infinity'') (sign_text s @ dec_string n @ rest)"
    using d by (cases s) (auto simp: sign_text_def lit_def ds)
  have chars: "list_all is_newtonsoft_number_char (sign_text s @ dec_string n)"
    by (auto simp: list_all_iff sign_text_def lit_def is_newtonsoft_number_char_def dest: dec_string_digits)
  note tw = takeWhile_delimited [OF assms(3) chars, unfolded append_assoc]
  show ?thesis
    unfolding parse_number_or_signed_keyword_def Let_def tw
    using ninf delimited_separators(2) [OF assms(3)] parse_scanned_integer [OF assms(1,2)]
    by auto
qed

lemma keyword_round_trip:
  assumes "delimited rest" "(word, p) \<in> set (take 3 bare_keywords)"
  shows "parse_bare_keyword b (word @ rest) = Inr (p, rest)"
proof -
  have sep: "is_keyword_separator b rest" by (rule delimited_separators(1) [OF assms(1)])
  consider "word = lit ''null''" "p = PNull" | "word = lit ''true''" "p = PBool True"
    | "word = lit ''false''" "p = PBool False"
    using assms(2) by (auto simp: bare_keywords_def)
  then show ?thesis
    by cases (simp_all add: parse_bare_keyword_def bare_keywords_def consume_keyword_def
        List.map_filter_simps sep lit_def)
qed

section \<open>Values\<close>

text \<open>The text of a value at a depth, and the line break before an element.\<close>

definition json_text :: "expr_value \<Rightarrow> nat \<Rightarrow> ustr" where
  "json_text v d = concat (json_fragments v d None)"

definition line_break :: "nat \<Rightarrow> ustr" where
  "line_break d = 10 # spaces (d * 2)"

definition json_prefix :: "nat \<Rightarrow> parent option \<Rightarrow> ustr" where
  "json_prefix d p = (case p of
     Some InObject \<Rightarrow> lit '': '' | Some (InArray f) \<Rightarrow> (if f then [] else lit '','') @ line_break d | None \<Rightarrow> [])"

lemma prefixed_fragment_eq: "prefixed_fragment s d p = json_prefix d p @ s"
  by (simp add: prefixed_fragment_def json_prefix_def sequence_fragment_def line_break_def
      split: option.splits parent.splits)

lemma concat_json_fragments: "concat (json_fragments v d p) = json_prefix d p @ json_text v d"
  by (cases v) (simp_all add: json_text_def prefixed_fragment_eq, simp_all add: json_prefix_def)

text \<open>The elements of an array and the members of an object, without the first line break.\<close>

fun items_text :: "nat \<Rightarrow> expr_value list \<Rightarrow> ustr" where
  "items_text d [] = []"
| "items_text d [v] = json_text v d"
| "items_text d (v # vs) = json_text v d @ 44 # line_break d @ items_text d vs"

definition member_text :: "nat \<Rightarrow> ustr \<times> expr_value \<Rightarrow> ustr" where
  "member_text d e = write_json_string (fst e) @ lit '': '' @ json_text (snd e) d"

fun members_text :: "nat \<Rightarrow> (ustr \<times> expr_value) list \<Rightarrow> ustr" where
  "members_text d [] = []"
| "members_text d [e] = member_text d e"
| "members_text d (e # es) = member_text d e @ 44 # line_break d @ members_text d es"

lemma items_fragments:
  assumes "vs \<noteq> []"
  shows "concat (concat (map (\<lambda>(i, g). g d (Some (InArray (i = 0)))) (enumerate k (map json_fragments vs)))) =
    (if k = 0 then [] else lit '','') @ line_break d @ items_text d vs"
  using assms
proof (induction d vs arbitrary: k rule: items_text.induct)
  case (3 d v w vs)
  then show ?case by (simp add: concat_json_fragments json_prefix_def lit_def)
qed (simp_all add: concat_json_fragments json_prefix_def)

lemma members_fragments:
  assumes "es \<noteq> []"
  shows "concat (concat (map (\<lambda>(i, (key, g)). sequence_fragment (write_json_string key) d (i = 0) #
       g d (Some InObject)) (enumerate k (map (map_prod id json_fragments) es)))) =
    (if k = 0 then [] else lit '','') @ line_break d @ members_text d es"
  using assms
proof (induction d es arbitrary: k rule: members_text.induct)
  case (3 d v w vs)
  show ?case
    using "3.IH" [of "Suc k"] by (cases v) (simp add: concat_json_fragments json_prefix_def sequence_fragment_def member_text_def
        line_break_def lit_def)
next
  case (2 d e)
  then show ?case
    by (cases e) (simp add: concat_json_fragments json_prefix_def sequence_fragment_def member_text_def
        line_break_def)
qed simp

lemma json_text_simps [simp]:
  "json_text VNull d = lit ''null''"
  "json_text (VBool b) d = (if b then lit ''true'' else lit ''false'')"
  "json_text (VNumber n) d = format_g15 n"
  "json_text (VString s) d = write_json_string s"
  "json_text (VArray rc [] f) d = lit ''[]''"
  "json_text (VObject rc [] ps cs) d = lit ''{}''"
  by (simp_all add: json_text_def prefixed_fragment_def)

lemma json_text_array:
  "vs \<noteq> [] \<Longrightarrow> json_text (VArray rc vs f) d = 91 # line_break (d + 1) @ items_text (d + 1) vs @ line_break d @ [93]"
  using items_fragments [of vs "d + 1" 0]
  by (simp add: json_text_def prefixed_fragment_def lit_def line_break_def)

lemma json_text_object:
  "es \<noteq> [] \<Longrightarrow> json_text (VObject rc es ps cs) d =
     123 # line_break (d + 1) @ members_text (d + 1) es @ line_break d @ [125]"
  using members_fragments [of es "d + 1" 0]
  by (simp add: json_text_def prefixed_fragment_def lit_def line_break_def)

text \<open>
  The values that survive: integers below \<open>10^15\<close> in magnitude, no negative zero, and
  objects as \<open>Value::object\<close> builds them.
\<close>

fun survives_number :: "f64 \<Rightarrow> bool" where
  "survives_number (Finite s q) = (\<exists>n < 10 ^ 15. q = of_nat n \<and> (s \<longrightarrow> 0 < n))"
| "survives_number _ = False"

primrec survives :: "casing \<Rightarrow> expr_value \<Rightarrow> bool" where
  "survives up VNull = True"
| "survives up (VBool b) = True"
| "survives up (VNumber n) = survives_number n"
| "survives up (VString s) = True"
| "survives up (VArray rc vs f) = list_all id (map (survives up) vs)"
| "survives up (VObject rc es ps cs) = (\<not> cs \<and> object_entries up False (map (\<lambda>(k, _). (k, ())) es) =
     (map (\<lambda>(k, _). (k, ())) es, ps) \<and> list_all snd (map (map_prod id (survives up)) es))"

primrec nesting :: "expr_value \<Rightarrow> nat" where
  "nesting VNull = 0"
| "nesting (VBool b) = 0"
| "nesting (VNumber n) = 0"
| "nesting (VString s) = 0"
| "nesting (VArray rc vs f) = Suc (max_list0 (map nesting vs))"
| "nesting (VObject rc es ps cs) = Suc (max_list0 (map snd (map (map_prod id nesting) es)))"

primrec erase :: "expr_value \<Rightarrow> expr_value" where
  "erase VNull = VNull"
| "erase (VBool b) = VBool b"
| "erase (VNumber n) = VNumber n"
| "erase (VString s) = VString s"
| "erase (VArray rc vs f) = VArray 0 (map erase vs) False"
| "erase (VObject rc es ps cs) = VObject 0 (map (map_prod id erase) es) ps cs"

definition parsed_of_number :: "f64 \<Rightarrow> parsed_number" where
  "parsed_of_number x = (case x of Finite s q \<Rightarrow> integer_number s (nat \<lfloor>q\<rfloor>) | _ \<Rightarrow> parsed_number_of x [])"

primrec parsed_of :: "expr_value \<Rightarrow> parsed_value" where
  "parsed_of VNull = PNull"
| "parsed_of (VBool b) = PBool b"
| "parsed_of (VNumber n) = PNumber (parsed_of_number n)"
| "parsed_of (VString s) = PString s"
| "parsed_of (VArray rc vs f) = PArray (map parsed_of vs)"
| "parsed_of (VObject rc es ps cs) = PObject (map (map_prod id parsed_of) es)"

primrec read_weight :: "expr_value \<Rightarrow> nat" where
  "read_weight VNull = 1"
| "read_weight (VBool b) = 1"
| "read_weight (VNumber n) = 1"
| "read_weight (VString s) = 1"
| "read_weight (VArray rc vs f) = Suc (sum_list (map Suc (map read_weight vs)))"
| "read_weight (VObject rc es ps cs) = Suc (sum_list (map (Suc \<circ> snd) (map (map_prod id read_weight) es)))"

lemma skip_blank:
  assumes "list_all is_newtonsoft_whitespace pre"
  shows "skip_insignificant (pre @ cs) = skip_insignificant cs"
  using assms by (induction pre) (simp_all add: skip_insignificant.simps [of "_ # _"])

lemma skip_stop:
  "\<not> is_newtonsoft_whitespace c \<Longrightarrow> c \<noteq> cp CHR ''/'' \<Longrightarrow> skip_insignificant (c # cs) = Inr (c # cs)"
  by (simp add: skip_insignificant.simps [of "_ # _"])

lemma blank_line_break: "list_all is_newtonsoft_whitespace (line_break d)"
  by (simp add: line_break_def spaces_def list_all_iff is_newtonsoft_whitespace_def)

lemma skip_line_break [simp]: "skip_insignificant (line_break d @ cs) = skip_insignificant cs"
  by (rule skip_blank [OF blank_line_break])

definition json_start :: "uchar \<Rightarrow> bool" where
  "json_start c \<longleftrightarrow> c \<in> {34, 45, 91, 123} \<or> is_ascii_digit c \<or> is_ascii_alphabetic c"

lemma json_start_stop:
  assumes "json_start c"
  shows "skip_insignificant (c # cs) = Inr (c # cs)" "c \<noteq> 93" "c \<noteq> 125" "c \<noteq> 44"
proof -
  have "\<not> is_newtonsoft_whitespace c" "c \<noteq> 47"
    using assms by (auto simp: json_start_def is_ascii_digit_def is_ascii_alphabetic_def
        is_newtonsoft_whitespace_def)
  then show "skip_insignificant (c # cs) = Inr (c # cs)" by (intro skip_stop) auto
  show "c \<noteq> 93" "c \<noteq> 125" "c \<noteq> 44"
    using assms by (auto simp: json_start_def is_ascii_digit_def is_ascii_alphabetic_def)
qed

lemma survives_number_text:
  assumes "survives_number x"
  obtains s n where "x = Finite s (of_nat n)" "n < 10 ^ 15" "s \<longrightarrow> 0 < n"
    "format_g15 x = sign_text s @ dec_string n" "parsed_of_number x = integer_number s n"
proof -
  obtain s n where x: "x = Finite s (of_nat n)" "n < 10 ^ 15" "s \<longrightarrow> 0 < n"
    using assms by (cases x) auto
  show thesis
    by (rule that [OF x]) (simp_all only: x(1) format_g15_of_nat [OF x(2)], simp add: parsed_of_number_def)
qed

lemma json_text_start:
  assumes "survives up v"
  obtains c t where "json_text v d = c # t" "json_start c"
proof (cases v)
  case (VNumber x)
  then obtain s n where t: "json_text v d = sign_text s @ dec_string n"
    using assms by (auto elim: survives_number_text)
  obtain e ds where ds: "dec_string n = e # ds" by (cases "dec_string n") auto
  have "is_ascii_digit e" using dec_string_digits [of e n] ds by simp
  with t ds show ?thesis
    by (cases s) (auto simp: sign_text_def lit_def json_start_def intro!: that)
next
  case (VBool b)
  then show ?thesis
    by (cases b) (auto simp: lit_def json_start_def is_ascii_alphabetic_def intro!: that)
next
  case (VArray rc vs f)
  then show ?thesis
    by (cases "vs = []") (auto simp: json_text_array lit_def json_start_def intro!: that)
next
  case (VObject rc es ps cs)
  then show ?thesis
    by (cases "es = []") (auto simp: json_text_object lit_def json_start_def intro!: that)
qed (auto simp: lit_def json_start_def is_ascii_alphabetic_def write_json_string_def intro!: that split: if_splits)

lemma items_text_start:
  assumes "vs \<noteq> []" "\<forall>v \<in> set vs. survives up v"
  obtains c t where "items_text d vs = c # t" "json_start c"
proof -
  obtain v ws where vs: "vs = v # ws" using assms(1) by (cases vs) auto
  then have "survives up v" using assms(2) by simp
  then obtain c t where "json_text v d = c # t" "json_start c" by (rule json_text_start)
  then show thesis using vs by (cases ws) (auto intro: that)
qed

lemma members_text_start: "es \<noteq> [] \<Longrightarrow> \<exists>t. members_text d es = 34 # t"
  by (induction d es rule: members_text.induct) (auto simp: member_text_def write_json_string_def)

text \<open>A value reads back at any amount of fuel from its weight on, whatever delimits it.\<close>

definition reads_back :: "(uchar \<Rightarrow> general_category) \<Rightarrow> nat \<Rightarrow> expr_value \<Rightarrow> bool" where
  "reads_back gc d v \<longleftrightarrow> (\<forall>n pre k rest. read_weight v \<le> n \<longrightarrow> list_all is_newtonsoft_whitespace pre \<longrightarrow>
     delimited rest \<longrightarrow> parse_value gc n d False (pre @ json_text v k @ rest) = Inr (parsed_of v, rest))"

lemma reads_backD:
  assumes "reads_back gc d v" "read_weight v \<le> n" "delimited rest"
  shows "parse_value gc n d False (json_text v k @ rest) = Inr (parsed_of v, rest)"
    and "parse_value gc n d False (32 # json_text v k @ rest) = Inr (parsed_of v, rest)"
proof -
  have "parse_value gc n d False (pre @ json_text v k @ rest) = Inr (parsed_of v, rest)"
    if "list_all is_newtonsoft_whitespace pre" for pre
    using assms that by (simp add: reads_back_def)
  from this [of "[]"] this [of "[32]"]
  show "parse_value gc n d False (json_text v k @ rest) = Inr (parsed_of v, rest)"
    "parse_value gc n d False (32 # json_text v k @ rest) = Inr (parsed_of v, rest)"
    by (simp_all add: is_newtonsoft_whitespace_def)
qed

lemma delimited_tail: "delimited (44 # cs)" "delimited (line_break d @ cs)"
  by (simp_all add: delimited_def line_break_def)

lemma after_last:
  assumes "closing \<notin> {44, 47}" "\<not> is_newtonsoft_whitespace closing"
  shows "after_element closing m x again (line_break j @ closing # rest) = Inr ([x], rest)"
  using assms by (simp add: after_element_def skip_stop starts_with_char_def)

lemma after_comma:
  assumes "json_start c" "c \<noteq> closing"
  shows "after_element closing m x again (44 # line_break j @ c # rest) =
    rbind (again (c # rest)) (\<lambda>(xs, r). Inr (x # xs, r))"
proof -
  have "skip_insignificant (44 # cs) = Inr (44 # cs)" for cs
    by (rule skip_stop) (simp_all add: is_newtonsoft_whitespace_def)
  with assms show ?thesis
    by (simp add: after_element_def json_start_stop starts_with_char_def)
qed

lemma parse_items_text:
  assumes "vs \<noteq> []" "\<forall>v \<in> set vs. survives up v \<and> reads_back gc d v"
    and "sum_list (map Suc (map read_weight vs)) \<le> n"
  shows "parse_items gc n d False 93 m (items_text k vs @ line_break j @ 93 # rest) =
    Inr (map parsed_of vs, rest)"
  using assms
proof (induction k vs arbitrary: n rule: items_text.induct)
  case (2 k v)
  then obtain n' where n: "n = Suc n'" "read_weight v \<le> n'" by (cases n) auto
  have "parse_value gc n' d False (json_text v k @ line_break j @ 93 # rest) =
      Inr (parsed_of v, line_break j @ 93 # rest)"
    using 2(2) n(2) by (intro reads_backD delimited_tail) auto
  then show ?case
    by (simp add: n(1) after_last is_newtonsoft_whitespace_def)
next
  case (3 k v w vs)
  then obtain n' where n: "n = Suc n'" "read_weight v \<le> n'"
    "sum_list (map Suc (map read_weight (w # vs))) \<le> n'" by (cases n) auto
  have v: "parse_value gc n' d False (json_text v k @ 44 # cs) = Inr (parsed_of v, 44 # cs)" for cs
    using 3(3) n(2) by (intro reads_backD delimited_tail) auto
  obtain c t where ct: "items_text k (w # vs) = c # t" "json_start c"
    by (rule items_text_start [of "w # vs" up k]) (use 3(3) in auto)
  have "parse_items gc n' d False 93 m (items_text k (w # vs) @ line_break j @ 93 # rest) =
      Inr (map parsed_of (w # vs), rest)"
    using 3 n(3) by (intro "3.IH") auto
  then show ?case
    using ct json_start_stop(2) [OF ct(2)] by (simp add: n(1) v after_comma)
qed simp

lemma member_round_trip:
  assumes "reads_back gc d (snd e)" "read_weight (snd e) \<le> n" "delimited rest"
  shows "members_body gc (parse_value gc n d False) again (member_text k e @ rest) =
    after_element 125 ''expected , or } in object'' (map_prod id parsed_of e) again rest"
proof -
  let ?t = "write_json_string (fst e) @ 58 # 32 # json_text (snd e) k @ rest"
  have skip: "skip_insignificant ?t = Inr ?t"
    by (simp add: write_json_string_def skip_stop is_newtonsoft_whitespace_def)
  have key: "parse_key gc ?t = Inr (fst e, 58 # 32 # json_text (snd e) k @ rest)"
    using parse_quoted_string_round_trip [of "fst e"]
    by (simp add: parse_key_def write_json_string_def)
  have colon: "skip_json_whitespace (58 # cs) = 58 # cs" for cs
    by (simp add: skip_json_whitespace_def is_newtonsoft_whitespace_def)
  have m: "member_text k e @ rest = ?t" by (simp add: member_text_def lit_def)
  show ?thesis
    unfolding m members_body_def skip rbind_simps key case_prod_conv colon
    using assms by (cases e) (simp add: expect_char_def reads_backD)
qed

lemma parse_members_text:
  assumes "es \<noteq> []" "\<forall>e \<in> set es. reads_back gc d (snd e)"
    and "sum_list (map (Suc \<circ> snd) (map (map_prod id read_weight) es)) \<le> n"
  shows "parse_members gc n d (members_text k es @ line_break j @ 125 # rest) =
    Inr (map (map_prod id parsed_of) es, rest)"
  using assms
proof (induction k es arbitrary: n rule: members_text.induct)
  case (2 k e)
  then obtain n' where n: "n = Suc n'" "read_weight (snd e) \<le> n'" by (cases n) (auto simp: id_def)
  then show ?case
    using 2(2) by (simp add: member_round_trip delimited_tail after_last is_newtonsoft_whitespace_def id_def)
next
  case (3 k e f es)
  then obtain n' where n: "n = Suc n'" "read_weight (snd e) \<le> n'"
    "sum_list (map (Suc \<circ> snd) (map (map_prod id read_weight) (f # es))) \<le> n'"
    by (cases n) (auto simp: id_def comp_def)
  obtain t where t: "members_text k (f # es) = 34 # t" using members_text_start by blast
  have "parse_members gc n' d (members_text k (f # es) @ line_break j @ 125 # rest) =
      Inr (map (map_prod id parsed_of) (f # es), rest)"
    using 3 n(3) by (intro "3.IH") (auto simp: id_def comp_def)
  then show ?case
    using t n 3(3) by (simp add: member_round_trip delimited_tail after_comma json_start_def id_def)
qed simp

text \<open>Objects: distinct keys are kept as they are, in order.\<close>

lemma parsed_object_distinct:
  assumes "distinct (map fst es)"
  shows "parsed_object es = PObject es"
proof -
  have "\<exists>ps. fold parsed_object_step es ([], []) = (es, ps) \<and> im_keys ps = map fst es"
    using assms
  proof (induction es rule: rev_induct)
    case (snoc e es)
    then obtain ps where ps: "fold parsed_object_step es ([], []) = (es, ps)" "im_keys ps = map fst es"
      by auto
    have "im_get ps (fst e) = None" using snoc.prems ps(2) by (auto simp: im_get_keys)
    then have "parsed_object_step e (es, ps) = (es @ [e], im_insert (fst e) (length es) ps)"
      by (cases e) (simp add: parsed_object_step_def)
    with ps snoc.prems show ?case by (auto simp: im_keys_insert)
  qed simp
  then show ?thesis by (auto simp: parsed_object_def)
qed

text \<open>Building an object commutes with a change of the values.\<close>

lemma object_step_map:
  "object_step up cs (k, f v) (map (map_prod id f) es, ps) =
     map_prod (map (map_prod id f)) id (object_step up cs (k, v) (es, ps))"
  by (auto simp: object_step_def Let_def map_update split: option.splits)

lemma object_entries_map:
  "object_entries up cs (map (map_prod id f) es) = map_prod (map (map_prod id f)) id (object_entries up cs es)"
proof -
  have "fold (object_step up cs) (map (map_prod id f) es) (map_prod (map (map_prod id f)) id st) =
      map_prod (map (map_prod id f)) id (fold (object_step up cs) es st)" for st
  proof (induction es arbitrary: st)
    case (Cons e es)
    obtain k v where e: "e = (k, v)" by (cases e)
    obtain xs ps where st: "st = (xs, ps)" by (cases st)
    have "object_step up cs (k, f v) (map_prod (map (map_prod id f)) id st) =
        map_prod (map (map_prod id f)) id (object_step up cs (k, v) st)"
      by (simp add: st object_step_map)
    with Cons.IH show ?case by (simp add: e id_def)
  qed simp
  from this [of "([], [])"] show ?thesis by (simp add: object_entries_def)
qed

lemma survives_object_keys:
  assumes "object_entries up False (map (\<lambda>(k, _). (k, ())) es) = (map (\<lambda>(k, _). (k, ())) es, ps)"
  shows "distinct (map fst es)"
proof -
  let ?us = "map (\<lambda>(k, _). (k, ())) es"
  have "index_ok up False (?us, ps)" using object_entries_ok(1) assms by metis
  then have "distinct (map (lookup_key up False \<circ> fst) ?us)"
    by (simp add: index_ok_def im_keys_canonical)
  then have "distinct (map (lookup_key up False) (map fst es))"
    by (simp add: comp_def case_prod_unfold)
  then show ?thesis using distinct_map by blast
qed

lemma enter_container_ok: "d < 64 \<Longrightarrow> enter_container d cs = Inr (d + 1)"
  by (simp add: enter_container_def MAX_JSON_DEPTH_def)

lemma skip_before:
  assumes "list_all is_newtonsoft_whitespace pre" "json_start c"
  shows "skip_insignificant (pre @ c # cs) = Inr (c # cs)"
  using assms by (simp add: skip_blank json_start_stop)

lemma read_sequence_text:
  assumes "json_start c" "c \<noteq> closing" "items (c # t) = Inr (xs, r)"
  shows "read_sequence closing items wrap none (line_break k @ c # t) = Inr (wrap xs, r)"
  using assms by (simp add: read_sequence_def json_start_stop starts_with_char_def)

lemma array_reads_back:
  assumes "d < 64" "vs \<noteq> []" "\<forall>v \<in> set vs. survives up v \<and> reads_back gc (d + 1) v"
  shows "reads_back gc d (VArray rc vs f)"
  unfolding reads_back_def
proof (intro allI impI)
  fix n pre k rest
  assume n: "read_weight (VArray rc vs f) \<le> n" and pre: "list_all is_newtonsoft_whitespace pre"
  obtain m where m: "n = Suc m" "sum_list (map Suc (map read_weight vs)) \<le> m"
    using n by (cases n) auto
  obtain c t where ct: "items_text (k + 1) vs = c # t" "json_start c"
    by (rule items_text_start [of vs up "k + 1"]) (use assms in auto)
  have "read_sequence 93 (parse_items gc m (d + 1) False 93 ''expected , or ] in array'') PArray (PArray [])
      (line_break (k + 1) @ items_text (k + 1) vs @ line_break k @ 93 # rest) =
    Inr (PArray (map parsed_of vs), rest)"
    using parse_items_text [OF assms(2,3) m(2), of _ "k + 1" k rest] json_start_stop(2) [OF ct(2)]
    unfolding ct(1) append_Cons by (intro read_sequence_text ct(2)) auto
  then show "parse_value gc n d False (pre @ json_text (VArray rc vs f) k @ rest) =
      Inr (parsed_of (VArray rc vs f), rest)"
    using assms(1,2) pre
    by (simp add: m(1) value_body_def json_text_array skip_before json_start_def enter_container_ok)
qed

lemma object_reads_back:
  assumes "d < 64" "es \<noteq> []" "\<forall>e \<in> set es. reads_back gc (d + 1) (snd e)" "distinct (map fst es)"
  shows "reads_back gc d (VObject rc es ps cs)"
  unfolding reads_back_def
proof (intro allI impI)
  fix n pre k rest
  assume n: "read_weight (VObject rc es ps cs) \<le> n" and pre: "list_all is_newtonsoft_whitespace pre"
  obtain m where m: "n = Suc m" "sum_list (map (Suc \<circ> snd) (map (map_prod id read_weight) es)) \<le> m"
    using n by (cases n) auto
  obtain t where ct: "members_text (k + 1) es = 34 # t" using members_text_start [OF assms(2)] by blast
  have "read_sequence 125 (parse_members gc m (d + 1)) parsed_object (parsed_object [])
      (line_break (k + 1) @ members_text (k + 1) es @ line_break k @ 125 # rest) =
    Inr (parsed_object (map (map_prod id parsed_of) es), rest)"
    using parse_members_text [OF assms(2,3) m(2), of "k + 1" k rest]
    unfolding ct append_Cons by (intro read_sequence_text) (auto simp: json_start_def)
  moreover have "parsed_object (map (map_prod id parsed_of) es) = PObject (map (map_prod id parsed_of) es)"
    using assms(4) by (intro parsed_object_distinct) simp
  ultimately show "parse_value gc n d False (pre @ json_text (VObject rc es ps cs) k @ rest) =
      Inr (parsed_of (VObject rc es ps cs), rest)"
    using assms(1,2) pre
    by (simp add: m(1) value_body_def json_text_object skip_before json_start_def enter_container_ok)
qed

lemma survivor_reads_back: "survives up v \<Longrightarrow> d + nesting v \<le> 64 \<Longrightarrow> reads_back gc d v"
proof (induction v arbitrary: d)
  case VNull
  have "parse_bare_keyword b (lit ''null'' @ rest) = Inr (PNull, rest)" if "delimited rest" for b rest
    by (rule keyword_round_trip [OF that]) (simp add: bare_keywords_def)
  moreover have "lit ''null'' = [110, 117, 108, 108]" by (simp add: lit_def)
  ultimately show ?case
    unfolding reads_back_def
    by (auto simp: Suc_le_eq gr0_conv_Suc value_body_def skip_before json_start_def
        is_ascii_alphabetic_def is_ascii_digit_def starts_with_char_def)
next
  case (VBool b)
  have "parse_bare_keyword c ((if b then lit ''true'' else lit ''false'') @ rest) = Inr (PBool b, rest)"
    if "delimited rest" for c rest
    by (rule keyword_round_trip [OF that]) (simp add: bare_keywords_def)
  moreover have "lit ''true'' = [116, 114, 117, 101]" "lit ''false'' = [102, 97, 108, 115, 101]"
    by (simp_all add: lit_def)
  ultimately show ?case
    unfolding reads_back_def
    by (cases b) (auto simp: Suc_le_eq gr0_conv_Suc value_body_def skip_before json_start_def
        is_ascii_alphabetic_def is_ascii_digit_def starts_with_char_def)
next
  case (VNumber x)
  then obtain s n where x: "n < 10 ^ 15" "s \<longrightarrow> 0 < n" "format_g15 x = sign_text s @ dec_string n"
    "parsed_of_number x = integer_number s n"
    using survives_number_text [of x] by (metis survives.simps(3))
  obtain c t where ct: "sign_text s @ dec_string n = c # t" "c = 45 \<or> is_ascii_digit c"
    using dec_string_digit_hd [of n]
    by (cases s; cases "dec_string n") (auto simp: sign_text_def lit_def is_ascii_digit_def)
  have nc: "c \<noteq> 123" "c \<noteq> 91" "c \<noteq> 34" "c \<noteq> 39" "c \<noteq> 44" "json_start c"
    using ct(2) by (auto simp: is_ascii_digit_def json_start_def)
  have "parse_number_or_signed_keyword b (c # t @ rest) = Inr (integer_number s n, rest)"
    if "delimited rest" for b rest
    using parse_number_round_trip [OF x(1,2) that, of b] ct(1) by (metis append_Cons append_assoc)
  then show ?case
    unfolding reads_back_def using ct nc
    by (auto simp: Suc_le_eq gr0_conv_Suc x(3,4) value_body_def skip_before)
next
  case (VString s)
  have "parse_quoted_string (34 # concat (map json_escape s) @ 34 # rest) = Inr (s, rest)" for rest
    using parse_quoted_string_round_trip [of s rest] by (simp add: write_json_string_def)
  then show ?case
    unfolding reads_back_def
    by (auto simp: Suc_le_eq gr0_conv_Suc value_body_def skip_before json_start_def write_json_string_def)
next
  case (VArray rc vs f)
  have d: "d < 64" using VArray.prems by simp
  have vs: "\<forall>v \<in> set vs. survives up v \<and> reads_back gc (d + 1) v"
  proof
    fix v
    assume v: "v \<in> set vs"
    have "nesting v \<le> max_list0 (map nesting vs)" using v by (intro max_list0_ge) simp
    then show "survives up v \<and> reads_back gc (d + 1) v"
      using VArray v by (auto simp: list_all_iff)
  qed
  show ?case
  proof (cases "vs = []")
    case True
    then show ?thesis
      unfolding reads_back_def
      by (auto simp: Suc_le_eq gr0_conv_Suc value_body_def skip_before json_start_def lit_def
          enter_container_ok [OF d] read_sequence_def skip_stop is_newtonsoft_whitespace_def starts_with_char_def)
  next
    case False
    then show ?thesis using d vs by (intro array_reads_back)
  qed
next
  case (VObject rc es ps cs)
  have d: "d < 64" using VObject.prems by simp
  have es: "\<forall>e \<in> set es. reads_back gc (d + 1) (snd e)"
  proof
    fix e
    assume e: "e \<in> set es"
    have "nesting (snd e) \<le> max_list0 (map snd (map (map_prod id nesting) es))"
      using e by (intro max_list0_ge) force
    moreover have "survives up (snd e)" using VObject.prems e by (force simp: list_all_iff)
    ultimately show "reads_back gc (d + 1) (snd e)"
      using VObject.prems VObject.IH [OF e, of "snd e" "d + 1"] by (cases e) auto
  qed
  have keys: "distinct (map fst es)"
    using VObject.prems by (auto intro: survives_object_keys)
  show ?case
  proof (cases "es = []")
    case True
    then show ?thesis
      unfolding reads_back_def
      by (auto simp: Suc_le_eq gr0_conv_Suc value_body_def skip_before json_start_def lit_def
          enter_container_ok [OF d] read_sequence_def skip_stop is_newtonsoft_whitespace_def starts_with_char_def
          parsed_object_distinct)
  next
    case False
    then show ?thesis using d es keys by (intro object_reads_back)
  qed
qed

section \<open>The whole round trip\<close>

lemma run_all_erase:
  assumes "\<And>v rc. v \<in> set vs \<Longrightarrow> erase (fst (f v rc)) = g v"
  shows "map erase (fst (run_all (map f vs) rc)) = map g vs"
  using assms
proof (induction vs arbitrary: rc)
  case (Cons v vs)
  then show ?case by (simp add: case_prod_unfold Let_def)
qed simp

lemma length_run_all: "length (fst (run_all fs rc)) = length fs"
  by (induction fs arbitrary: rc) (auto simp: case_prod_unfold Let_def)

lemma erase_object_new:
  "erase (object_new up rc es cs) =
     VObject 0 (fst (object_entries up cs (map (map_prod id erase) es)))
       (snd (object_entries up cs (map (map_prod id erase) es))) cs"
  by (simp add: object_new_def case_prod_unfold Let_def object_entries_map)

lemma zip_map_erase:
  "length ks = length vs \<Longrightarrow> map (map_prod id erase) (zip ks vs) = zip ks (map erase vs)"
  by (induction ks vs rule: list_induct2) auto

lemma object_entries_distinct:
  assumes "distinct (map (lookup_key up cs \<circ> fst) es)"
  shows "fst (object_entries up cs es) = es"
  using assms
proof (induction es rule: rev_induct)
  case (snoc e es)
  let ?st = "object_entries up cs es"
  have st: "fst ?st = es" using snoc by simp
  have "im_get (snd ?st) (lookup_key up cs (fst e)) = None"
  proof (rule ccontr)
    assume "\<not> ?thesis"
    then obtain i where "i < length es" "lookup_key up cs (fst (es ! i)) = lookup_key up cs (fst e)"
      using object_entries_ok(1) [of up cs es] st by (auto simp: index_ok_def)
    then have "lookup_key up cs (fst e) \<in> set (map (lookup_key up cs \<circ> fst) es)"
      by (metis comp_apply length_map nth_map nth_mem)
    with snoc.prems show False by simp
  qed
  then have "fst (object_step up cs e ?st) = es @ [e]"
    using st by (cases e; cases ?st) (simp add: object_step_def)
  then show ?case by (simp add: object_entries_def)
qed (simp add: object_entries_def)

lemma object_entries_keys:
  assumes "map (\<lambda>(k, _). (k, ())) xs = us" "object_entries up False us = (us, ps)"
  shows "object_entries up False xs = (xs, ps)"
proof -
  have us: "us = map (map_prod id (\<lambda>_. ())) xs"
    unfolding assms(1) [symmetric] by (simp add: map_prod_def case_prod_unfold)
  have ps: "snd (object_entries up False xs) = ps"
    using object_entries_map [of up False "\<lambda>_. ()" xs] assms(2) us by (cases "object_entries up False xs") simp
  have "index_ok up False (us, ps)" using object_entries_ok(1) assms(2) by metis
  then have "distinct (map (lookup_key up False \<circ> fst) us)"
    by (simp add: index_ok_def im_keys_canonical)
  then have "distinct (map (lookup_key up False \<circ> fst) xs)"
    by (simp add: us comp_def)
  then show ?thesis using ps object_entries_distinct [of up False xs] by (metis prod.collapse)
qed

lemma into_expression_value_erase:
  "survives up v \<Longrightarrow> erase (fst (into_expression_value up (parsed_of v) rc)) = erase v"
proof (induction v arbitrary: rc)
  case (VNumber x)
  then obtain s n where "x = Finite s (of_nat n)" "parsed_of_number x = integer_number s n"
    using survives_number_text [of x] by (metis survives.simps(3))
  then show ?case by (simp add: integer_number_def parsed_number_of_def)
next
  case (VArray r vs f)
  have "map erase (fst (run_all (map (\<lambda>v. into_expression_value up (parsed_of v)) vs) rc)) = map erase vs"
    using VArray by (intro run_all_erase) (auto simp: list_all_iff)
  then show ?case by (simp add: case_prod_unfold Let_def comp_def)
next
  case (VObject r es ps cs)
  let ?us = "map (\<lambda>(k, _). (k, ())) es" and ?fs = "map (\<lambda>e. into_expression_value up (parsed_of (snd e))) es"
  have cs: "\<not> cs" and us: "object_entries up False ?us = (?us, ps)"
    and sv: "\<And>e. e \<in> set es \<Longrightarrow> survives up (snd e)"
    using VObject.prems by (force simp: list_all_iff)+
  have vs: "map erase (fst (run_all ?fs rc)) = map (\<lambda>e. erase (snd e)) es"
    using VObject.IH sv by (intro run_all_erase) (metis prod.collapse snds.intros)
  have es: "map (map_prod id erase) (zip (map fst es) (fst (run_all ?fs rc))) = map (map_prod id erase) es"
    by (simp add: zip_map_erase length_run_all vs) (simp add: zip_map_map map_prod_def case_prod_unfold zip_same_conv_map)
  have "object_entries up False (map (map_prod id erase) es) = (map (map_prod id erase) es, ps)"
    by (rule object_entries_keys [OF _ us]) (simp add: case_prod_unfold)
  moreover have "fst (into_expression_value up (parsed_of (VObject r es ps cs)) rc) =
      object_new up (snd (run_all ?fs rc)) (zip (map fst es) (fst (run_all ?fs rc))) False"
    by (simp add: case_prod_unfold Let_def comp_def)
  ultimately show ?case
    using cs es by (simp add: erase_object_new)
qed auto

lemma read_weight_le_text: "survives up v \<Longrightarrow> read_weight v \<le> length (json_text v d)"
proof (induction v arbitrary: d)
  case (VNumber x)
  then obtain s n where "format_g15 x = sign_text s @ dec_string n"
    using survives_number_text [of x] by (metis survives.simps(3))
  moreover have "0 < length (dec_string n)" by simp
  ultimately show ?case by (simp del: length_greater_0_conv)
next
  case (VArray rc vs f)
  have "sum_list (map Suc (map read_weight vs)) \<le> Suc (length (items_text k vs))"
    if "\<forall>v \<in> set vs. read_weight v \<le> length (json_text v k)" for k
    using that by (induction k vs rule: items_text.induct) (auto simp: line_break_def)
  with VArray have "sum_list (map Suc (map read_weight vs)) \<le> Suc (length (items_text (d + 1) vs))"
    by (auto simp: list_all_iff)
  then show ?case
    by (cases "vs = []") (simp_all add: json_text_array line_break_def lit_def)
next
  case (VObject rc es ps cs)
  have "sum_list (map (Suc \<circ> snd) (map (map_prod id read_weight) es)) \<le> Suc (length (members_text k es))"
    if "\<forall>e \<in> set es. read_weight (snd e) \<le> length (json_text (snd e) k)" for k
    using that by (induction k es rule: members_text.induct) (auto simp: line_break_def member_text_def id_def)
  moreover have "\<forall>e \<in> set es. read_weight (snd e) \<le> length (json_text (snd e) (d + 1))"
    using VObject by (force simp: list_all_iff)
  ultimately have "sum_list (map (Suc \<circ> snd) (map (map_prod id read_weight) es)) \<le>
      Suc (length (members_text (d + 1) es))" by blast
  then show ?case
    by (cases "es = []") (simp_all add: json_text_object line_break_def lit_def)
qed (auto simp: lit_def write_json_string_def)

text \<open>
  C32: \<open>fromJSON(toJSON(v))\<close> gives the contents of \<open>v\<close> back. For every value nested at most 64 deep
  whose numbers are integers below \<open>10^15\<close> in magnitude other than negative zero, and whose objects are
  as \<open>Value::object\<close> builds them with case-insensitive keys (any strings, any mix of arrays and
  objects), if the writer stays within its memory the lenient reader accepts what it rendered and rebuilds the
  same value except for two things \<open>erase\<close> forgets: the identity of arrays and objects, and the
  mark of an array that it is the result of a filter.
\<close>

theorem json_round_trip:
  assumes "survives up v" "nesting v \<le> 64" "to_json v limit = Inr w"
  shows "\<exists>v' rc'. from_json up gc (to_display_string w) rc = Inr (v', rc') \<and> erase v' = erase v"
proof -
  have w: "to_display_string w = json_text v 0"
    using assms(3) unfolding to_json_def write_loop_eq Let_def
    by (auto simp: rbind_eq_Inr json_text_def)
  obtain c t where ct: "json_text v 0 = c # t" "json_start c"
    using assms(1) by (rule json_text_start)
  have ns: "\<not> is_newtonsoft_whitespace c" "c \<noteq> 47"
    using ct(2) by (auto simp: json_start_def is_ascii_digit_def is_ascii_alphabetic_def
        is_newtonsoft_whitespace_def)
  have "reads_back gc 0 v" using assms(1,2) by (intro survivor_reads_back) auto
  then have "parse_value gc (json_fuel (json_text v 0)) 0 False (json_text v 0 @ []) = Inr (parsed_of v, [])"
    using read_weight_le_text [OF assms(1), of 0]
    by (intro reads_backD) (auto simp: json_fuel_def delimited_def)
  then have "read_json up gc (json_text v 0) rc = Inr (into_expression_value up (parsed_of v) rc)"
    using ct ns by (simp add: read_json_def skip_json_whitespace_def starts_with_char_def)
  then have "from_json up gc (json_text v 0) rc = Inr (into_expression_value up (parsed_of v) rc)"
    by (simp add: from_json_def)
  then show ?thesis
    using into_expression_value_erase [OF assms(1)] by (metis w prod.collapse)
qed

theorem json_round_trip_witness:
  "\<exists>v' rc'. from_json (\<lambda>c. [c]) (\<lambda>c. OtherCategory) (lit ''[\<newline>  true,\<newline>  \"a\"\<newline>]'') 7 = Inr (v', rc') \<and>
     erase v' = VArray 0 [VBool True, VString (lit ''a'')] False"
proof -
  let ?v = "VArray 0 [VBool True, VString (lit ''a'')] False"
  have two: "replicate 2 (32 :: nat) = [32, 32]" by code_simp
  have out: "to_json ?v 1000 = Inr (VString (lit ''[\<newline>  true,\<newline>  \"a\"\<newline>]''))"
    by (simp add: to_json_def item_tasks_def append_raw_def counter_add_string_eq new_counter_def usize_max_def
        prefixed_fragment_def sequence_fragment_def write_json_string_def json_escape_def
        spaces_def string_size_def encode_utf16_def utf16_units_def lit_def two)
  have "survives (\<lambda>c. [c]) ?v" "nesting ?v \<le> 64" by (simp_all add: max_list0_def)
  from json_round_trip [OF this out, of "\<lambda>c. OtherCategory" 7] show ?thesis by simp
qed

end
