(* ===== verification/Functions.thy ===== *)
theory Functions
  imports Json
begin

text \<open>
  The built-in functions that work on evaluated values: \<open>contains\<close>, \<open>startsWith\<close>,
  \<open>endsWith\<close>, \<open>join\<close> and \<open>format\<close> with its pattern scanner
  (\<open>greenlit-expr/src/functions\<close>). \<open>join\<close> and \<open>format\<close> call back into the evaluator,
  so they pass its state along.
\<close>

section \<open>Substrings and affixes\<close>

definition contains :: "casing \<Rightarrow> expr_value \<Rightarrow> expr_value \<Rightarrow> expr_value" where
  "contains up search item = (case search of
     VArray _ items _ \<Rightarrow> VBool (list_ex (\<lambda>el. abstract_equal up item el) items)
   | VObject _ _ _ _ \<Rightarrow> VBool False
   | _ \<Rightarrow> (if \<not> is_primitive item then VBool False
      else VBool (ordinal_ignore_case_contains up (to_display_string search) (to_display_string item))))"

definition starts_with :: "casing \<Rightarrow> expr_value \<Rightarrow> expr_value \<Rightarrow> expr_value" where
  "starts_with up s p =
    (if \<not> is_primitive s \<or> \<not> is_primitive p then VBool False
     else VBool (ordinal_ignore_case_starts_with up (to_display_string s) (to_display_string p)))"

definition ends_with :: "casing \<Rightarrow> expr_value \<Rightarrow> expr_value \<Rightarrow> expr_value" where
  "ends_with up s p =
    (if \<not> is_primitive s \<or> \<not> is_primitive p then VBool False
     else VBool (ordinal_ignore_case_ends_with up (to_display_string s) (to_display_string p)))"

section \<open>join\<close>

fun join_rest :: "ustr \<Rightarrow> expr_value list \<Rightarrow> ustr \<Rightarrow> memory_counter \<Rightarrow> eval_error + ustr" where
  "join_rest separator [] result c = Inr result"
| "join_rest separator (item # items) result c =
     rbind (counter_add_string separator c) (\<lambda>c.
     rbind (counter_add_string (to_display_string item) c) (\<lambda>c.
       join_rest separator items (result @ separator @ to_display_string item) c))"

definition separator_text :: "expr_value \<Rightarrow> ustr" where
  "separator_text v = (if is_primitive v then to_display_string v else lit '','')"

definition join :: "expr_value \<Rightarrow> ('s \<Rightarrow> eval_error + expr_value \<times> 's) option \<Rightarrow> nat \<Rightarrow> 's \<Rightarrow>
    eval_error + expr_value \<times> 's" where
  "join array eval_separator limit st = (case array of
     VArray _ items _ \<Rightarrow> (case items of
       [] \<Rightarrow> Inr (VString [], st)
     | i # rest \<Rightarrow>
        rbind (counter_add_string (to_display_string i) (new_counter limit)) (\<lambda>c.
          if rest = [] then Inr (VString (to_display_string i), st)
          else rbind (case eval_separator of
                  None \<Rightarrow> Inr (lit '','', st)
                | Some f \<Rightarrow> rbind (f st) (\<lambda>(v, st). Inr (separator_text v, st))) (\<lambda>(separator, st).
               rbind (join_rest separator rest (to_display_string i) c) (\<lambda>result.
                 Inr (VString result, st)))))
   | VObject _ _ _ _ \<Rightarrow> Inr (VString [], st)
   | _ \<Rightarrow> Inr (VString (to_display_string array), st))"

section \<open>The format scanner\<close>

datatype format_token = Literal uchar | Placeholder nat ustr

abbreviation lbrace :: uchar where "lbrace \<equiv> 123"
abbreviation rbrace :: uchar where "rbrace \<equiv> 125"

text \<open>
  The specifier of a placeholder: \<open>}}\<close> stands for a brace, a single one ends it; the brace
  stays in the rest.
\<close>

function scan_spec :: "ustr \<Rightarrow> (ustr \<times> ustr) option" where
  "scan_spec cs = (case cs of
     [] \<Rightarrow> None
   | c # r \<Rightarrow>
     (if c = rbrace then
        (if r \<noteq> [] \<and> hd r = rbrace then map_option (\<lambda>(s, t). (rbrace # s, t)) (scan_spec (tl r))
         else Some ([], cs))
      else map_option (\<lambda>(s, t). (c # s, t)) (scan_spec r)))"
  by pat_completeness auto
termination
  by (relation "measure length") (auto simp: less_Suc_eq_le)

declare scan_spec.simps [simp del]

text \<open>\<open>str::parse::<usize>\<close> on a non-empty run of digits.\<close>

definition parse_usize :: "ustr \<Rightarrow> nat option" where
  "parse_usize ds = (if dec_value ds \<le> usize_max then Some (dec_value ds) else None)"

text \<open>What follows the opening brace: the placeholder and the rest.\<close>

definition scan_placeholder :: "nat \<Rightarrow> ustr \<Rightarrow> eval_error format_error + format_token \<times> ustr" where
  "scan_placeholder value_arg_count cs =
    (let digits = takeWhile is_ascii_digit cs; r = dropWhile is_ascii_digit cs in
     if digits = [] then Inl InvalidFormatString
     else case parse_usize digits of
       None \<Rightarrow> Inl InvalidFormatString
     | Some index \<Rightarrow>
       (case (if r \<noteq> [] \<and> hd r = cp CHR '':'' then scan_spec (tl r) else Some ([], r)) of
          None \<Rightarrow> Inl InvalidFormatString
        | Some (spec, r') \<Rightarrow>
          (if r' = [] \<or> hd r' \<noteq> rbrace then Inl InvalidFormatString
           else if value_arg_count \<le> index then Inl (TooManyArgumentsReferenced index value_arg_count)
           else Inr (Placeholder index spec, tl r'))))"

definition next_format_token :: "nat \<Rightarrow> ustr \<Rightarrow> eval_error format_error + (format_token \<times> ustr) option" where
  "next_format_token value_arg_count cs = (case cs of
     [] \<Rightarrow> Inr None
   | c # r \<Rightarrow>
     (if c = lbrace then
        (if r \<noteq> [] \<and> hd r = lbrace then Inr (Some (Literal lbrace, tl r))
         else rbind (scan_placeholder value_arg_count r) (\<lambda>t. Inr (Some t)))
      else if c = rbrace then
        (if r \<noteq> [] \<and> hd r = rbrace then Inr (Some (Literal rbrace, tl r)) else Inl InvalidFormatString)
      else Inr (Some (Literal c, r))))"

lemma scan_spec_rest: "scan_spec cs = Some (s, t) \<Longrightarrow> length t \<le> length cs"
proof (induction cs arbitrary: s t rule: scan_spec.induct)
  case (1 cs)
  show ?case
  proof (cases cs)
    case (Cons c r)
    have "length (tl r) \<le> length cs" using Cons by simp
    with 1 Cons show ?thesis
      by (subst (asm) (3) scan_spec.simps) (fastforce split: if_splits)
  qed (use "1.prems" in \<open>simp add: scan_spec.simps\<close>)
qed

lemma scan_placeholder_rest:
  assumes "scan_placeholder n cs = Inr (t, r)"
  shows "length r \<le> length cs"
proof -
  have "length (dropWhile is_ascii_digit cs) \<le> length cs" by (rule length_dropWhile_le)
  then show ?thesis
    using assms by (auto simp: scan_placeholder_def Let_def dest!: scan_spec_rest
        split: if_splits option.splits)
qed

lemma next_format_token_rest:
  "next_format_token n cs = Inr (Some (t, r)) \<Longrightarrow> length r < length cs"
  by (auto simp: next_format_token_def rbind_eq_Inr less_Suc_eq_le dest: scan_placeholder_rest
      split: list.splits if_splits)

section \<open>format\<close>

record format_state =
  f_out :: ustr
  f_segment :: ustr
  f_counter :: memory_counter
  f_cache :: "expr_value option list"

definition append_segment :: "format_state \<Rightarrow> eval_error + format_state" where
  "append_segment f =
    (if f_segment f = [] then Inr f
     else rbind (counter_add_string (f_segment f) (f_counter f)) (\<lambda>c.
       Inr (f\<lparr>f_out := f_out f @ f_segment f, f_segment := [], f_counter := c\<rparr>)))"

definition get_or_eval :: "(nat \<Rightarrow> 's \<Rightarrow> eval_error + expr_value \<times> 's) \<Rightarrow> nat \<Rightarrow> format_state \<Rightarrow> 's \<Rightarrow>
    eval_error + expr_value \<times> format_state \<times> 's" where
  "get_or_eval eval_arg index f st = (case f_cache f ! index of
     Some v \<Rightarrow> Inr (v, f, st)
   | None \<Rightarrow> (case eval_arg index st of
       Inl e \<Rightarrow> Inl (Format (ArgumentEvaluation e))
     | Inr (v, st') \<Rightarrow> Inr (v, f\<lparr>f_cache := (f_cache f)[index := Some v]\<rparr>, st')))"

definition format_token_step :: "(nat \<Rightarrow> 's \<Rightarrow> eval_error + expr_value \<times> 's) \<Rightarrow> format_token \<Rightarrow>
    format_state \<times> 's \<Rightarrow> eval_error + format_state \<times> 's" where
  "format_token_step eval_arg t fs = (case t of
     Literal c \<Rightarrow>
       (let f = (fst fs)\<lparr>f_segment := f_segment (fst fs) @ [c]\<rparr> in
        if c = lbrace \<or> c = rbrace then rbind (append_segment f) (\<lambda>f. Inr (f, snd fs))
        else Inr (f, snd fs))
   | Placeholder index spec \<Rightarrow>
       rbind (append_segment (fst fs)) (\<lambda>f.
       rbind (get_or_eval eval_arg index f (snd fs)) (\<lambda>(v, f, st).
         if spec \<noteq> [] then Inl (Format (UnsupportedFormatSpecifier spec (kind v)))
         else (let rendered = to_display_string v in
           if rendered = [] then Inr (f, st)
           else rbind (counter_add_string rendered (f_counter f)) (\<lambda>c.
             Inr (f\<lparr>f_out := f_out f @ rendered, f_counter := c\<rparr>, st))))))"

function format_loop :: "(nat \<Rightarrow> 's \<Rightarrow> eval_error + expr_value \<times> 's) \<Rightarrow> nat \<Rightarrow> ustr \<Rightarrow>
    format_state \<times> 's \<Rightarrow> eval_error + format_state \<times> 's" where
  "format_loop eval_arg n cs fs = (case next_format_token n cs of
     Inl e \<Rightarrow> Inl (Format e)
   | Inr None \<Rightarrow> Inr fs
   | Inr (Some (t, r)) \<Rightarrow> rbind (format_token_step eval_arg t fs) (format_loop eval_arg n r))"
  by pat_completeness auto
termination
  by (relation "measure (\<lambda>(e, n, cs, fs). length cs)") (auto dest: next_format_token_rest)

declare format_loop.simps [simp del]

definition format :: "ustr \<Rightarrow> nat \<Rightarrow> nat \<Rightarrow> (nat \<Rightarrow> 's \<Rightarrow> eval_error + expr_value \<times> 's) \<Rightarrow> 's \<Rightarrow>
    eval_error + expr_value \<times> 's" where
  "format fmt value_arg_count limit eval_arg st =
     rbind (format_loop eval_arg value_arg_count fmt
       (\<lparr>f_out = [], f_segment = [], f_counter = new_counter limit,
         f_cache = replicate value_arg_count None\<rparr>, st)) (\<lambda>(f, st).
     rbind (append_segment f) (\<lambda>f. Inr (VString (f_out f), st)))"

section \<open>What they compute\<close>

lemma key_append: "ordinal_ignore_case_key up (a @ b) = ordinal_ignore_case_key up a @ ordinal_ignore_case_key up b"
  by (simp add: ordinal_ignore_case_key_def)

text \<open>
  The substring tests agree with each other and ignore case. On primitive arguments a
  \<open>startsWith\<close> or \<open>endsWith\<close> that holds makes \<open>contains\<close> hold, every part of a text is
  contained in it, and replacing an argument by one that differs only in case changes no answer.
\<close>

lemma substring_tests_agree:
  "(starts_with up (VString s) (VString p) = VBool True \<or> ends_with up (VString s) (VString p) = VBool True \<longrightarrow>
      contains up (VString s) (VString p) = VBool True) \<and>
   contains up (VString (a @ p @ b)) (VString p) = VBool True \<and>
   starts_with up (VString (p @ b)) (VString p) = VBool True \<and>
   ends_with up (VString (a @ p)) (VString p) = VBool True \<and>
   (ordinal_ignore_case_eq up s s' \<and> ordinal_ignore_case_eq up p p' \<longrightarrow>
      contains up (VString s) (VString p) = contains up (VString s') (VString p') \<and>
      starts_with up (VString s) (VString p) = starts_with up (VString s') (VString p') \<and>
      ends_with up (VString s) (VString p) = ends_with up (VString s') (VString p'))"
proof -
  have sub: "prefix x y \<Longrightarrow> sublist x y" "suffix x y \<Longrightarrow> sublist x y" for x y :: ustr
    by (auto intro: prefix_imp_sublist suffix_imp_sublist)
  have mid: "sublist x (u @ x @ w)" for x u w :: ustr by (auto simp: sublist_def)
  show ?thesis
    by (auto simp: contains_def starts_with_def ends_with_def ordinal_ignore_case_contains_def
        ordinal_ignore_case_starts_with_def ordinal_ignore_case_ends_with_def str_contains_def
        ordinal_ignore_case_eq_def key_append suffix_def intro: sub mid)
qed

lemma join_with_Cons: "xs \<noteq> [] \<Longrightarrow> join_with sep (x # xs) = x @ sep @ join_with sep xs"
  by (cases xs) auto

definition join_fragments :: "ustr \<Rightarrow> expr_value list \<Rightarrow> ustr list" where
  "join_fragments separator items = concat (map (\<lambda>i. [separator, to_display_string i]) items)"

lemma join_rest_eq:
  "join_rest separator items result c =
     rbind (count_strings (join_fragments separator items) c) (\<lambda>_.
       Inr (result @ concat (join_fragments separator items)))"
proof (induction separator items result c rule: join_rest.induct)
  case (2 separator item items result c)
  then show ?case by (simp add: join_fragments_def rbind_assoc cong: rbind_cong)
qed (simp add: join_fragments_def)

lemma join_with_fragments:
  "x @ concat (join_fragments sep items) = join_with sep (x # map to_display_string items)"
proof (induction items arbitrary: x)
  case (Cons i items)
  then show ?case by (simp add: join_fragments_def)
qed (simp add: join_fragments_def)

text \<open>
  \<open>join\<close> of an array of at least two elements. The separator expression is evaluated
  exactly once, after the first element has been charged; a separator that is not primitive is
  replaced by a comma; the result is the elements' texts with the separator between them, and it is
  refused exactly when the texts and the separators, each charged as one string, exceed the limit.
\<close>

lemma join_exact:
  assumes "items \<noteq> []" "limit \<le> usize_max" "f st = Inr (sep, st')"
    and "string_size (to_display_string i) \<le> limit"
  shows "join (VArray rc (i # items) flt) (Some f) limit st =
    (if string_size (to_display_string i) +
        sum_list (map (\<lambda>x. string_size (separator_text sep) + string_size (to_display_string x)) items) \<le> limit
     then Inr (VString (join_with (separator_text sep) (map to_display_string (i # items))), st')
     else Inl (MemoryLimitExceeded limit))"
proof -
  have sum: "sum_list (map string_size (join_fragments s xs)) =
      sum_list (map (\<lambda>x. string_size s + string_size (to_display_string x)) xs)" for s xs
    by (induction xs) (auto simp: join_fragments_def)
  show ?thesis
    using assms
    by (simp add: join_def new_counter_def counter_add_string_eq join_rest_eq count_strings_eq sum
        join_with_fragments)
qed

subsection \<open>format\<close>

text \<open>The tokens of a pattern, and the arguments they refer to.\<close>

function format_tokens :: "nat \<Rightarrow> ustr \<Rightarrow> eval_error format_error + format_token list" where
  "format_tokens n cs = (case next_format_token n cs of
     Inl e \<Rightarrow> Inl e
   | Inr None \<Rightarrow> Inr []
   | Inr (Some (t, r)) \<Rightarrow> rbind (format_tokens n r) (\<lambda>ts. Inr (t # ts)))"
  by pat_completeness auto
termination
  by (relation "measure (\<lambda>(n, cs). length cs)") (auto dest: next_format_token_rest)

declare format_tokens.simps [simp del]

fun references :: "format_token list \<Rightarrow> nat list" where
  "references [] = []"
| "references (Literal c # ts) = references ts"
| "references (Placeholder i spec # ts) = i # references ts"

fun render_token :: "expr_value list \<Rightarrow> format_token \<Rightarrow> ustr" where
  "render_token vs (Literal c) = [c]"
| "render_token vs (Placeholder i spec) = to_display_string (vs ! i)"

fun plain_token :: "format_token \<Rightarrow> bool" where
  "plain_token (Literal c) = True"
| "plain_token (Placeholder i spec) = (spec = [])"

text \<open>An evaluator of arguments that records what it was asked for.\<close>

definition logging_arg :: "expr_value list \<Rightarrow> nat \<Rightarrow> nat list \<Rightarrow> eval_error + expr_value \<times> nat list" where
  "logging_arg vs i asked = Inr (vs ! i, asked @ [i])"

definition cache_ok :: "expr_value list \<Rightarrow> format_state \<Rightarrow> nat list \<Rightarrow> bool" where
  "cache_ok vs f asked \<longleftrightarrow> f_cache f = map (\<lambda>i. if i \<in> set asked then Some (vs ! i) else None) [0..<length vs]"

definition written :: "format_state \<Rightarrow> ustr" where
  "written f = f_out f @ f_segment f"

lemma append_segment_Inr:
  "append_segment f = Inr f' \<Longrightarrow> written f' = written f \<and> f_segment f' = [] \<and> f_cache f' = f_cache f"
  by (auto simp: append_segment_def written_def rbind_eq_Inr split: if_splits)

lemma get_or_eval_Inr:
  assumes "cache_ok vs f asked" "i < length vs"
    and "get_or_eval (logging_arg vs) i f asked = Inr (v, f', asked')"
  shows "v = vs ! i \<and> asked' = (if i \<in> set asked then asked else asked @ [i]) \<and> cache_ok vs f' asked' \<and>
    written f' = written f \<and> f_segment f' = f_segment f \<and> f_out f' = f_out f"
proof (cases "i \<in> set asked")
  case True
  with assms show ?thesis by (auto simp: get_or_eval_def cache_ok_def)
next
  case False
  then have "f_cache f ! i = None" using assms(1,2) by (simp add: cache_ok_def)
  with assms False show ?thesis
    by (auto simp: get_or_eval_def logging_arg_def cache_ok_def written_def intro!: nth_equalityI
        simp: nth_list_update)
qed

lemma format_token_step_Inr:
  assumes "cache_ok vs f asked" "references [t] = [] \<or> hd (references [t]) < length vs"
    and "format_token_step (logging_arg vs) t (f, asked) = Inr (f', asked')"
  shows "plain_token t \<and> written f' = written f @ render_token vs t \<and> cache_ok vs f' asked' \<and>
    asked' = asked @ filter (\<lambda>i. i \<notin> set asked) (references [t])"
proof (cases t)
  case (Literal c)
  with assms show ?thesis
    by (auto simp: format_token_step_def Let_def rbind_eq_Inr cache_ok_def written_def
        dest!: append_segment_Inr split: if_splits)
next
  case (Placeholder i spec)
  then obtain f1 f2 v asked2 where f1: "append_segment f = Inr f1"
    and g: "get_or_eval (logging_arg vs) i f1 asked = Inr (v, f2, asked2)" and spec: "spec = []"
    and out: "(if to_display_string v = [] then Inr (f2, asked2)
       else rbind (counter_add_string (to_display_string v) (f_counter f2)) (\<lambda>c.
         Inr (f2\<lparr>f_out := f_out f2 @ to_display_string v, f_counter := c\<rparr>, asked2))) = Inr (f', asked')"
    using assms(3) by (auto simp: format_token_step_def Let_def rbind_eq_Inr split: if_splits)
  have "cache_ok vs f1 asked" using assms(1) append_segment_Inr [OF f1] by (simp add: cache_ok_def)
  from get_or_eval_Inr [OF this _ g] assms(2) Placeholder append_segment_Inr [OF f1]
  show ?thesis
    using out spec by (auto simp: rbind_eq_Inr cache_ok_def written_def split: if_splits)
qed

lemma next_format_token_reference:
  "next_format_token n cs = Inr (Some (t, r)) \<Longrightarrow> references [t] = [] \<or> hd (references [t]) < n"
  by (auto simp: next_format_token_def scan_placeholder_def Let_def rbind_eq_Inr
      split: list.splits if_splits option.splits)

lemma references_Cons: "references (t # ts) = references [t] @ references ts"
  by (cases t) auto

lemma first_by_append_filter:
  "filter P (first_by id (xs @ ys)) = filter P (first_by id xs) @ filter (\<lambda>y. P y \<and> y \<notin> set xs) (first_by id ys)"
  by (induction xs arbitrary: P) (auto simp: conj_commute conj_left_commute intro!: filter_cong)

lemma format_loop_Inr:
  assumes "cache_ok vs f asked" "format_loop (logging_arg vs) (length vs) cs (f, asked) = Inr (f', asked')"
  shows "\<exists>ts. format_tokens (length vs) cs = Inr ts \<and> list_all plain_token ts \<and>
    written f' = written f @ concat (map (render_token vs) ts) \<and>
    asked' = asked @ filter (\<lambda>i. i \<notin> set asked) (first_by id (references ts))"
  using assms
proof (induction "logging_arg vs" "length vs" cs "(f, asked)" arbitrary: f asked rule: format_loop.induct)
  case (1 cs f asked)
  consider "next_format_token (length vs) cs = Inr None"
    | t r where "next_format_token (length vs) cs = Inr (Some (t, r))"
    using "1.prems"(2) by (subst (asm) format_loop.simps) (auto split: sum.splits option.splits)
  then show ?case
  proof cases
    case 1
    with "1.prems" show ?thesis by (subst (asm) format_loop.simps) (auto simp: format_tokens.simps)
  next
    case (2 t r)
    then obtain f1 asked1 where step: "format_token_step (logging_arg vs) t (f, asked) = Inr (f1, asked1)"
      and loop: "format_loop (logging_arg vs) (length vs) r (f1, asked1) = Inr (f', asked')"
      using "1.prems"(2) by (subst (asm) format_loop.simps) (auto simp: rbind_eq_Inr)
    note st = format_token_step_Inr [OF "1.prems"(1) next_format_token_reference [OF 2] step]
    obtain ts where ts: "format_tokens (length vs) r = Inr ts" "list_all plain_token ts"
      "written f' = written f1 @ concat (map (render_token vs) ts)"
      "asked' = asked1 @ filter (\<lambda>i. i \<notin> set asked1) (first_by id (references ts))"
      using "1.hyps" [OF 2 refl refl step] st loop by auto
    have "format_tokens (length vs) cs = Inr (t # ts)" using 2 ts(1) by (simp add: format_tokens.simps [of _ cs])
    moreover have "asked' = asked @ filter (\<lambda>i. i \<notin> set asked) (first_by id (references (t # ts)))"
      unfolding ts(4) references_Cons [of t ts] first_by_append_filter using st
      by (cases t) (auto intro!: filter_cong)
    ultimately show ?thesis using st ts by auto
  qed
qed

text \<open>
  C36: \<open>format\<close> renders its pattern and evaluates lazily. Whenever it succeeds, the pattern
  scanned into tokens with no format specifier, the result is the literals and the texts of the
  referenced arguments in order, and each referenced argument was evaluated exactly once, at its
  first reference; the others never were.
\<close>

theorem format_renders_lazily:
  assumes "format fmt (length vs) limit (logging_arg vs) [] = Inr (v, asked)"
  shows "\<exists>ts. format_tokens (length vs) fmt = Inr ts \<and> list_all plain_token ts \<and>
    v = VString (concat (map (render_token vs) ts)) \<and> asked = first_by id (references ts)"
proof -
  let ?f = "\<lparr>f_out = [], f_segment = [], f_counter = new_counter limit,
         f_cache = replicate (length vs) None\<rparr>"
  obtain f1 f2 where loop: "format_loop (logging_arg vs) (length vs) fmt (?f, []) = Inr (f1, asked)"
    and seg: "append_segment f1 = Inr f2" and v: "v = VString (f_out f2)"
    using assms by (auto simp: format_def rbind_eq_Inr)
  have "cache_ok vs ?f []" by (simp add: cache_ok_def map_replicate_const)
  from format_loop_Inr [OF this loop] obtain ts where
    "format_tokens (length vs) fmt = Inr ts" "list_all plain_token ts"
    "written f1 = concat (map (render_token vs) ts)" "asked = first_by id (references ts)"
    by (auto simp: written_def)
  moreover have "f_out f2 = written f1" using append_segment_Inr [OF seg] by (auto simp: written_def)
  ultimately show ?thesis using v by auto
qed

theorem format_renders_lazily_witness:
  "\<exists>ts. format_tokens 2 (lit ''{1}-{{{1}'') = Inr ts \<and> list_all plain_token ts \<and>
     VString (lit ''b-{b'') = VString (concat (map (render_token [VNull, VString (lit ''b'')]) ts)) \<and>
     [1] = first_by id (references ts)"
proof -
  have "format (lit ''{1}-{{{1}'') (length [VNull, VString (lit ''b'')]) 1000
      (logging_arg [VNull, VString (lit ''b'')]) [] = Inr (VString (lit ''b-{b''), [1])"
    by code_simp
  from format_renders_lazily [OF this] show ?thesis by (simp add: numeral_2_eq_2)
qed

end
