(* ===== verification/Eval.thy ===== *)
theory Eval
  imports Functions
begin

text \<open>
  The evaluator (\<open>greenlit-expr/src/eval.rs\<close>, \<open>eval/access.rs\<close>, \<open>eval/calls.rs\<close>)
  over the typed context (\<open>context.rs\<close>). The mutable state of an evaluation is the memory
  accounting and a counter that gives every new array or object its identity. The operands of a
  call are passed unevaluated, as functions of the state, so the order and the laziness of
  evaluation are those of the code. What the context holds from outside the crate (the
  upper-casing and general-category tables, the supervised file-system worker of
  \<open>hashFiles\<close>) are fields of the context record.
\<close>

section \<open>Context\<close>

datatype run_status = Success | Failure | Cancelled | Blocked

record ctx =
  github :: expr_value
  env :: expr_value
  vars :: expr_value
  secrets :: expr_value
  needs :: expr_value
  matrix :: expr_value
  strategy :: expr_value
  steps :: expr_value
  runner :: expr_value
  job :: expr_value
  inputs :: expr_value
  status :: run_status
  upper :: casing
  category :: "uchar \<Rightarrow> general_category"
  host_hash :: "nat \<Rightarrow> bool \<Rightarrow> ustr list \<Rightarrow> hash_files_error + ustr"

definition resolve_root :: "ctx \<Rightarrow> ustr \<Rightarrow> expr_value option" where
  "resolve_root c name =
    (if eq_ignore_ascii_case name (lit ''github'') then Some (github c)
     else if eq_ignore_ascii_case name (lit ''env'') then Some (env c)
     else if eq_ignore_ascii_case name (lit ''vars'') then Some (vars c)
     else if eq_ignore_ascii_case name (lit ''secrets'') then Some (secrets c)
     else if eq_ignore_ascii_case name (lit ''needs'') then Some (needs c)
     else if eq_ignore_ascii_case name (lit ''matrix'') then Some (matrix c)
     else if eq_ignore_ascii_case name (lit ''strategy'') then Some (strategy c)
     else if eq_ignore_ascii_case name (lit ''steps'') then Some (steps c)
     else if eq_ignore_ascii_case name (lit ''runner'') then Some (runner c)
     else if eq_ignore_ascii_case name (lit ''job'') then Some (job c)
     else if eq_ignore_ascii_case name (lit ''inputs'') then Some (inputs c)
     else None)"

text \<open>\<open>Context::new\<close> and the normalisation of \<open>with_env\<close>; \<open>rc\<close> identifies the new objects.\<close>

definition new_context :: "casing \<Rightarrow> (uchar \<Rightarrow> general_category) \<Rightarrow>
    (nat \<Rightarrow> bool \<Rightarrow> ustr list \<Rightarrow> hash_files_error + ustr) \<Rightarrow> nat \<Rightarrow> ctx" where
  "new_context up gc host rc =
     (let obj = (\<lambda>i. object_new up (rc + i) [] False) in
      \<lparr>github = obj 0, env = object_new up (rc + 1) [] True, vars = obj 2, secrets = obj 3,
       needs = obj 4, matrix = VNull, strategy = VNull, steps = obj 5, runner = obj 6,
       job = obj 7, inputs = obj 8, status = Success, upper = up, category = gc, host_hash = host\<rparr>)"

definition with_env :: "nat \<Rightarrow> expr_value \<Rightarrow> ctx \<Rightarrow> ctx" where
  "with_env rc v c = c\<lparr>env := (case v of
     VObject _ es _ _ \<Rightarrow> object_new (upper c) rc es True | _ \<Rightarrow> v)\<rparr>"

definition with_github :: "expr_value \<Rightarrow> ctx \<Rightarrow> ctx" where
  "with_github v c = c\<lparr>github := v\<rparr>"

definition with_vars :: "expr_value \<Rightarrow> ctx \<Rightarrow> ctx" where
  "with_vars v c = c\<lparr>vars := v\<rparr>"

definition with_secrets :: "expr_value \<Rightarrow> ctx \<Rightarrow> ctx" where
  "with_secrets v c = c\<lparr>secrets := v\<rparr>"

definition with_needs :: "expr_value \<Rightarrow> ctx \<Rightarrow> ctx" where
  "with_needs v c = c\<lparr>needs := v\<rparr>"

definition with_matrix :: "expr_value \<Rightarrow> ctx \<Rightarrow> ctx" where
  "with_matrix v c = c\<lparr>matrix := v\<rparr>"

definition with_strategy :: "expr_value \<Rightarrow> ctx \<Rightarrow> ctx" where
  "with_strategy v c = c\<lparr>strategy := v\<rparr>"

definition with_steps :: "expr_value \<Rightarrow> ctx \<Rightarrow> ctx" where
  "with_steps v c = c\<lparr>steps := v\<rparr>"

definition with_runner :: "expr_value \<Rightarrow> ctx \<Rightarrow> ctx" where
  "with_runner v c = c\<lparr>runner := v\<rparr>"

definition with_job :: "expr_value \<Rightarrow> ctx \<Rightarrow> ctx" where
  "with_job v c = c\<lparr>job := v\<rparr>"

definition with_inputs :: "expr_value \<Rightarrow> ctx \<Rightarrow> ctx" where
  "with_inputs v c = c\<lparr>inputs := v\<rparr>"

definition with_status :: "run_status \<Rightarrow> ctx \<Rightarrow> ctx" where
  "with_status s c = c\<lparr>status := s\<rparr>"

section \<open>Property, index and wildcard access\<close>

text \<open>The position an index value selects in an array, if any.\<close>

definition array_index :: "f64 \<Rightarrow> nat option" where
  "array_index n =
    (if is_nan n \<or> f64_less n (Finite False 0) then None
     else case n of
       Finite s q \<Rightarrow> (let floored = \<lfloor>q\<rfloor> in if 2147483647 < floored then None else Some (nat floored))
     | _ \<Rightarrow> None)"

definition nth_opt :: "'a list \<Rightarrow> nat \<Rightarrow> 'a option" where
  "nth_opt xs i = (if i < length xs then Some (xs ! i) else None)"

definition index_into_plain_array :: "expr_value list \<Rightarrow> expr_value \<Rightarrow> expr_value option" where
  "index_into_plain_array items index =
     (case array_index (to_number index) of None \<Rightarrow> None | Some i \<Rightarrow> nth_opt items i)"

text \<open>What one element of a filtered array contributes.\<close>

definition filtered_pick :: "casing \<Rightarrow> expr_value \<Rightarrow> expr_value \<Rightarrow> expr_value option" where
  "filtered_pick up index item = (case item of
     VObject _ _ _ _ \<Rightarrow> object_get up item (to_display_string index)
   | VArray _ items _ \<Rightarrow> index_into_plain_array items index
   | _ \<Rightarrow> None)"

text \<open>Appending values to a new filtered array, each charged as one pointer.\<close>

fun collect :: "expr_value list \<Rightarrow> memory_counter \<Rightarrow> eval_error + memory_counter" where
  "collect [] c = Inr c"
| "collect (v # vs) c = rbind (counter_add POINTER_BYTES c) (collect vs)"

definition index_into_filtered :: "casing \<Rightarrow> expr_value list \<Rightarrow> expr_value \<Rightarrow> nat \<Rightarrow> nat \<Rightarrow>
    eval_error + expr_value \<times> nat" where
  "index_into_filtered up items index limit rc =
    (if \<not> is_primitive index then Inr (VArray rc [] True, 0)
     else (let out = List.map_filter (filtered_pick up index) items in
       rbind (collect out (new_counter limit)) (\<lambda>c. Inr (VArray rc out True, current_bytes c))))"

record access =
  acc_value :: "expr_value option"
  acc_bytes :: "nat option"
  acc_raw :: bool

definition access_of :: "expr_value option \<Rightarrow> nat \<Rightarrow> eval_error + access" where
  "access_of v limit =
     rbind (case v of Some x \<Rightarrow> wrapped_primitive_bytes x limit | None \<Rightarrow> Inr None) (\<lambda>b.
       Inr \<lparr>acc_value = v, acc_bytes = b, acc_raw = (b \<noteq> None)\<rparr>)"

definition no_access :: access where
  "no_access = \<lparr>acc_value = None, acc_bytes = None, acc_raw = False\<rparr>"

definition index_into :: "casing \<Rightarrow> expr_value \<Rightarrow> expr_value \<Rightarrow> nat \<Rightarrow> nat \<Rightarrow> eval_error + access" where
  "index_into up target index limit rc = (case target of
     VObject _ _ _ _ \<Rightarrow>
       (if \<not> is_primitive index then Inr no_access
        else access_of (object_get up target (to_display_string index)) limit)
   | VArray _ items filtered \<Rightarrow>
       (if filtered then
          rbind (index_into_filtered up items index limit rc) (\<lambda>(v, b).
            Inr \<lparr>acc_value = Some v, acc_bytes = Some b, acc_raw = False\<rparr>)
        else access_of (index_into_plain_array items index) limit)
   | _ \<Rightarrow> Inr no_access)"

fun flatten_item :: "expr_value \<Rightarrow> expr_value list" where
  "flatten_item (VObject _ es _ _) = map snd es"
| "flatten_item (VArray _ items _) = items"
| "flatten_item _ = []"

definition wildcard_filter :: "expr_value \<Rightarrow> nat \<Rightarrow> nat \<Rightarrow> eval_error + expr_value \<times> nat option" where
  "wildcard_filter target limit rc =
    (let gather = (\<lambda>out c. rbind (collect out c) (\<lambda>c. Inr (VArray rc out True, Some (current_bytes c)))) in
     case target of
       VArray _ items filtered \<Rightarrow>
         (if filtered then gather (concat (map flatten_item items)) (new_counter limit)
          else rbind (counter_add MIN_OBJECT_BYTES (new_counter limit)) (gather items))
     | VObject _ es _ _ \<Rightarrow>
         rbind (counter_add MIN_OBJECT_BYTES (new_counter limit)) (gather (map snd es))
     | _ \<Rightarrow> Inr (VArray rc [] True, None))"

section \<open>Calls\<close>

type_synonym ev_state = "evaluation_memory \<times> nat"
type_synonym evaluator = "nat \<Rightarrow> ev_state \<Rightarrow> eval_error + expr_value \<times> ev_state"

text \<open>\<open>hashFiles\<close>: the option word, then the supervised worker; the host may answer each call anew.\<close>

definition hash_files :: "ctx \<Rightarrow> ustr list \<Rightarrow> nat \<Rightarrow> hash_files_error + ustr" where
  "hash_files c args now = (case args of
     [] \<Rightarrow> host_hash c now False []
   | a # rest \<Rightarrow>
      (if prefix (lit ''--'') a then
         (if eq_ignore_ascii_case a (lit ''--follow-symbolic-links'') then host_hash c now True rest
          else Inl (InvalidOption a))
       else host_hash c now False args))"

definition lift_error :: "('e \<Rightarrow> eval_error) \<Rightarrow> 'e + 'a \<Rightarrow> eval_error + 'a" where
  "lift_error f m = (case m of Inl e \<Rightarrow> Inl (f e) | Inr x \<Rightarrow> Inr x)"

fun display_all :: "evaluator list \<Rightarrow> nat \<Rightarrow> ev_state \<Rightarrow> eval_error + ustr list \<times> ev_state" where
  "display_all [] depth st = Inr ([], st)"
| "display_all (a # as) depth st =
     rbind (a depth st) (\<lambda>(v, st). rbind (display_all as depth st) (\<lambda>(ss, st).
       Inr (to_display_string v # ss, st)))"

fun case_loop :: "evaluator list \<Rightarrow> nat \<Rightarrow> nat \<Rightarrow> ev_state \<Rightarrow> eval_error + expr_value \<times> ev_state" where
  "case_loop (p # v # rest) index depth st =
     rbind (p depth st) (\<lambda>(x, st). case x of
       VBool b \<Rightarrow> (if b then v depth st else case_loop rest (index + 1) depth st)
     | _ \<Rightarrow> Inl (InvalidCasePredicate index (kind x)))"
| "case_loop [d] index depth st = d depth st"
| "case_loop [] index depth st = Inl InvalidCaseArity"

definition eval_case :: "evaluator list \<Rightarrow> evaluator" where
  "eval_case args parent_depth st =
    (if even (length args) then Inl InvalidCaseArity else case_loop args 1 (parent_depth + 1) st)"

text \<open>A two-argument test whose second argument is evaluated only when the first allows it.\<close>

definition guarded_test :: "(expr_value \<Rightarrow> bool) \<Rightarrow> (expr_value \<Rightarrow> expr_value \<Rightarrow> expr_value) \<Rightarrow> evaluator list \<Rightarrow> evaluator" where
  "guarded_test needs_second f args depth st =
     rbind ((args ! 0) depth st) (\<lambda>(a, st).
       if needs_second a then rbind ((args ! 1) depth st) (\<lambda>(b, st). Inr (f a b, st))
       else Inr (VBool False, st))"

definition contains_needs_item :: "expr_value \<Rightarrow> bool" where
  "contains_needs_item search = (case search of
     VObject _ _ _ _ \<Rightarrow> False | VArray _ items _ \<Rightarrow> items \<noteq> [] | _ \<Rightarrow> True)"

definition call_body :: "ctx \<Rightarrow> ustr \<Rightarrow> evaluator list \<Rightarrow> evaluator" where
  "call_body c name args parent_depth st =
    (let depth = parent_depth + 1; lower = to_ascii_lowercase name in
     if lower = lit ''contains'' then guarded_test contains_needs_item (contains (upper c)) args depth st
     else if lower = lit ''startswith'' then guarded_test is_primitive (starts_with (upper c)) args depth st
     else if lower = lit ''endswith'' then guarded_test is_primitive (ends_with (upper c)) args depth st
     else if lower = lit ''format'' then
       rbind ((args ! 0) depth st) (\<lambda>(v, st).
         format (to_display_string v) (length (tl args)) (max_bytes (fst st))
           (\<lambda>i. (tl args ! i) depth) st)
     else if lower = lit ''join'' then
       rbind ((args ! 0) depth st) (\<lambda>(v, st).
         join v (if 1 < length args then Some ((args ! 1) depth) else None) (max_bytes (fst st)) st)
     else if lower = lit ''tojson'' then
       rbind ((args ! 0) depth st) (\<lambda>(v, st). rbind (to_json v (max_bytes (fst st))) (\<lambda>s. Inr (s, st)))
     else if lower = lit ''fromjson'' then
       rbind ((args ! 0) depth st) (\<lambda>(v, (m, rc)).
         rbind (lift_error FromJson (from_json (upper c) (category c) (to_display_string v) rc)) (\<lambda>(x, rc).
           Inr (x, (m, rc))))
     else if lower = lit ''hashfiles'' then
       rbind (display_all args depth st) (\<lambda>(ss, (m, rc)).
         rbind (lift_error HashFiles (hash_files c ss rc)) (\<lambda>s. Inr (VString s, (m, rc + 1))))
     else if lower = lit ''case'' then eval_case args parent_depth st
     else if lower = lit ''success'' then Inr (VBool (status c = Success), st)
     else if lower = lit ''failure'' then Inr (VBool (status c = Failure), st)
     else if lower = lit ''cancelled'' then Inr (VBool (status c = Cancelled), st)
     else if lower = lit ''always'' then Inr (VBool True, st)
     else Inl (EvUnrecognizedFunction name))"

definition eval_call :: "ctx \<Rightarrow> ustr \<Rightarrow> evaluator list \<Rightarrow> evaluator" where
  "eval_call c name args parent_depth st = (case lookup_arity name of
     None \<Rightarrow> Inl (EvUnrecognizedFunction name)
   | Some a \<Rightarrow>
      (if length args < min_args a \<or> max_args a < length args
       then Inl (EvWrongArity name (length args) (display a))
       else call_body c name args parent_depth st))"

section \<open>Evaluation\<close>

definition charge :: "nat \<Rightarrow> expr_value \<Rightarrow> result_memory \<Rightarrow> ev_state \<Rightarrow> eval_error + expr_value \<times> ev_state" where
  "charge depth v rm st = rbind (add_result depth v rm (fst st)) (\<lambda>m. Inr (v, (m, snd st)))"

definition raw_memory :: "nat option \<Rightarrow> bool \<Rightarrow> result_memory" where
  "raw_memory b raw = no_result_memory\<lparr>bytes := b, has_raw := raw\<rparr>"

definition compare_op :: "casing \<Rightarrow> bin_op \<Rightarrow> expr_value \<Rightarrow> expr_value \<Rightarrow> bool" where
  "compare_op up op l r = (case op of
     Eq \<Rightarrow> abstract_equal up l r | NotEq \<Rightarrow> abstract_not_equal up l r
   | Lt \<Rightarrow> less_than up l r | Le \<Rightarrow> less_or_equal up l r
   | Gt \<Rightarrow> greater_than up l r | Ge \<Rightarrow> greater_or_equal up l r
   | _ \<Rightarrow> False)"

definition eval_binary :: "ctx \<Rightarrow> bin_op \<Rightarrow> evaluator \<Rightarrow> evaluator \<Rightarrow> evaluator" where
  "eval_binary c op lhs rhs parent_depth st =
    (let depth = parent_depth + 1 in
     rbind (lhs depth st) (\<lambda>(l, st). case op of
       And \<Rightarrow> (if is_falsy l then Inr (l, st) else rhs depth st)
     | Or \<Rightarrow> (if is_truthy l then Inr (l, st) else rhs depth st)
     | _ \<Rightarrow> rbind (rhs depth st) (\<lambda>(r, st). Inr (VBool (compare_op (upper c) op l r), st))))"

definition eval_named :: "ctx \<Rightarrow> ustr \<Rightarrow> evaluator" where
  "eval_named c name depth st = (case resolve_root c name of
     None \<Rightarrow> Inl (EvUnrecognizedNamedValue name)
   | Some v \<Rightarrow> rbind (wrapped_primitive_bytes v (max_bytes (fst st))) (\<lambda>b.
       charge depth v (raw_memory b (b \<noteq> None)) st))"

definition eval_index :: "ctx \<Rightarrow> evaluator \<Rightarrow> evaluator \<Rightarrow> evaluator" where
  "eval_index c target index depth st =
     rbind (target (depth + 1) st) (\<lambda>(t, st).
       if is_primitive t then charge depth VNull no_result_memory st
       else rbind (index (depth + 1) st) (\<lambda>(i, (m, rc)).
         rbind (index_into (upper c) t i (max_bytes m) rc) (\<lambda>a.
           charge depth (case acc_value a of Some v \<Rightarrow> v | None \<Rightarrow> VNull)
             (raw_memory (acc_bytes a) (acc_raw a)) (m, rc + 1))))"

definition eval_wildcard :: "evaluator \<Rightarrow> evaluator" where
  "eval_wildcard target depth st =
     rbind (target (depth + 1) st) (\<lambda>(t, (m, rc)).
     rbind (if is_primitive t then Inr m
            else add_result (depth + 1) (VString (lit ''*'')) no_result_memory m) (\<lambda>m.
     rbind (wildcard_filter t (max_bytes m) rc) (\<lambda>(v, b).
       charge depth v (raw_memory b False) (m, rc + 1))))"

primrec evaluate_inner :: "ctx \<Rightarrow> expr \<Rightarrow> evaluator" where
  "evaluate_inner c ENull = (\<lambda>depth st. charge depth VNull no_result_memory st)"
| "evaluate_inner c (EBool b) = (\<lambda>depth st. charge depth (VBool b) no_result_memory st)"
| "evaluate_inner c (ENumber n) = (\<lambda>depth st. charge depth (VNumber n) no_result_memory st)"
| "evaluate_inner c (EStr s) = (\<lambda>depth st. charge depth (VString s) no_result_memory st)"
| "evaluate_inner c (ENamedValue name) = eval_named c name"
| "evaluate_inner c (ENot e) = (\<lambda>depth st.
     rbind (evaluate_inner c e (depth + 1) st) (\<lambda>(v, st).
       charge depth (VBool (is_falsy v)) no_result_memory st))"
| "evaluate_inner c (EBinary op l r) = (\<lambda>depth st.
     rbind (eval_binary c op (evaluate_inner c l) (evaluate_inner c r) depth st) (\<lambda>(v, st).
       charge depth v no_result_memory st))"
| "evaluate_inner c (EIndex t i) = eval_index c (evaluate_inner c t) (evaluate_inner c i)"
| "evaluate_inner c (EWildcard t) = eval_wildcard (evaluate_inner c t)"
| "evaluate_inner c (ECall name args) = (\<lambda>depth st.
     rbind (eval_call c name (map (evaluate_inner c) args) depth st) (\<lambda>(v, st).
       if eq_ignore_ascii_case name (lit ''fromjson'') then
         rbind (wrapped_primitive_bytes v (max_bytes (fst st))) (\<lambda>b.
           charge depth v (raw_memory b (b \<noteq> None)) st)
       else charge depth v no_result_memory st))"

definition DEFAULT_MAX_MEMORY_BYTES :: nat where
  "DEFAULT_MAX_MEMORY_BYTES = 1048576"

definition WORKFLOW_TEMPLATE_MAX_MEMORY_BYTES :: nat where
  "WORKFLOW_TEMPLATE_MAX_MEMORY_BYTES = 10 * 1024 * 1024"

definition effective_max_memory_bytes :: "nat \<Rightarrow> nat" where
  "effective_max_memory_bytes n = (if n = 0 then DEFAULT_MAX_MEMORY_BYTES else n)"

definition evaluate_with_options :: "ctx \<Rightarrow> nat \<Rightarrow> nat \<Rightarrow> expr \<Rightarrow> eval_error + expr_value \<times> ev_state" where
  "evaluate_with_options c max_memory rc e =
    (if exceeds_safe_evaluation_depth e then Inl ExpressionTooDeep
     else evaluate_inner c e 0 (new_memory (effective_max_memory_bytes max_memory), rc))"

definition evaluate :: "ctx \<Rightarrow> nat \<Rightarrow> expr \<Rightarrow> eval_error + expr_value" where
  "evaluate c rc e = rbind (evaluate_with_options c 0 rc e) (\<lambda>(v, _). Inr v)"

end
