(* ===== verification/Eval_Laws.thy ===== *)
theory Eval_Laws
  imports Eval Json_Laws
begin

text \<open>
  What every evaluation keeps. The locale states the contract between the evaluator and what it
  calls: an invariant of the state that the charging of results keeps, and a class of errors that
  contains those the built-in functions raise. Inside it one induction over the tree shows that
  the evaluator stays within the contract; it is interpreted twice, for the memory accounting and
  for the absence of registry errors on parsed trees.
\<close>

locale evaluation_contract =
  fixes E :: "eval_error \<Rightarrow> bool"
    and I :: "ev_state \<Rightarrow> bool"
    and lenient :: bool
  assumes add_result_keeps: "I (m, rc) \<Longrightarrow> outcome E (\<lambda>m'. I (m', rc)) (add_result depth v rm m)"
    and fresh_keeps: "I (m, rc) \<Longrightarrow> I (m, rc')"
    and memory_error: "E (MemoryLimitExceeded n)"
    and format_error: "E (Format InvalidFormatString)" "E (Format (TooManyArgumentsReferenced i n))"
      "E (Format (UnsupportedFormatSpecifier s k))"
    and argument_error: "E e \<Longrightarrow> E (Format (ArgumentEvaluation e))"
    and json_error: "E (FromJson j)"
    and hash_error: "E (HashFiles h)"
    and predicate_error: "E (InvalidCasePredicate n k)"
    and lenient_error: "lenient \<Longrightarrow> E e"
begin

abbreviation keeps :: "eval_error + expr_value \<times> ev_state \<Rightarrow> bool" where
  "keeps \<equiv> outcome E (\<lambda>(v, st). I st)"

definition preserves :: "evaluator \<Rightarrow> bool" where
  "preserves f \<longleftrightarrow> (\<forall>depth st. I st \<longrightarrow> keeps (f depth st))"

lemma preservesD: "preserves f \<Longrightarrow> I st \<Longrightarrow> keeps (f depth st)"
  unfolding preserves_def by blast

lemma keeps_rbind:
  "keeps m \<Longrightarrow> (\<And>v st. m = Inr (v, st) \<Longrightarrow> I st \<Longrightarrow> outcome E Q (f (v, st))) \<Longrightarrow> outcome E Q (rbind m f)"
  by (cases m) auto

lemma only_memory:
  "outcome (\<lambda>e. \<exists>n. e = MemoryLimitExceeded n) (\<lambda>_. True) m \<Longrightarrow> (\<And>x. m = Inr x \<Longrightarrow> outcome E Q (f x)) \<Longrightarrow>
   outcome E Q (rbind m f)"
  using memory_error by (cases m) auto

lemma charge_keeps: "I st \<Longrightarrow> keeps (charge depth v rm st)"
  unfolding charge_def by (cases st) (auto intro: outcome_rbind [OF add_result_keeps])

end

text \<open>Counting raises nothing but the memory error.\<close>

abbreviation counts :: "eval_error + 'a \<Rightarrow> bool" where
  "counts \<equiv> outcome (\<lambda>e. \<exists>n. e = MemoryLimitExceeded n) (\<lambda>_. True)"

lemma counts_ok_or: "counts (ok_or x (MemoryLimitExceeded n))"
  by (simp add: ok_or_def split: option.splits)

lemma counts_rbind: "counts m \<Longrightarrow> (\<And>x. counts (f x)) \<Longrightarrow> counts (rbind m f)"
  by (cases m) auto

lemma counting:
  "counts (string_bytes s n)" "counts (counter_add k c)" "counts (counter_add_string s c)"
  "counts (wrapped_primitive_bytes v n)" "counts (count_strings ss c)" "counts (collect vs c)"
proof -
  show a: "counts (string_bytes s n)" for s n
    unfolding string_bytes_def by (auto intro: counts_rbind counts_ok_or)
  show b: "counts (counter_add k c)" for k c
    unfolding counter_add_def by (auto intro: counts_rbind counts_ok_or)
  show d: "counts (counter_add_string s c)" for s c
    unfolding counter_add_string_def by (auto intro: counts_rbind a b)
  have "counts (value_bytes v n)" by (auto simp: value_bytes_def a split: expr_value.splits)
  then show "counts (wrapped_primitive_bytes v n)"
    unfolding wrapped_primitive_bytes_def by (auto intro!: counts_rbind counts_ok_or)
  show "counts (count_strings ss c)" by (induction ss arbitrary: c) (auto intro: counts_rbind d)
  show "counts (collect vs c)" by (induction vs arbitrary: c) (auto intro: counts_rbind b)
qed

lemma join_rest_counts: "counts (join_rest sep items result c)"
  unfolding join_rest_eq by (auto intro: counts_rbind counting)

lemma to_json_counts: "counts (to_json v n)"
  unfolding to_json_def write_loop_eq Let_def by (auto intro!: counts_rbind counting)

lemma append_segment_counts: "counts (append_segment f)"
  unfolding append_segment_def by (auto intro: counts_rbind counting)

lemma access_counts: "counts (access_of v n)"
  unfolding access_of_def by (auto intro!: counts_rbind counting split: option.splits)

lemma index_into_counts: "counts (index_into up t i n rc)"
  unfolding index_into_def index_into_filtered_def
  by (auto simp: Let_def intro!: counts_rbind counting access_counts split: expr_value.splits)

lemma wildcard_filter_counts: "counts (wildcard_filter t n rc)"
  unfolding wildcard_filter_def
  by (auto simp: Let_def intro!: counts_rbind counting split: expr_value.splits)

context evaluation_contract
begin

lemma display_all_keeps:
  "\<forall>a \<in> set args. preserves a \<Longrightarrow> I st \<Longrightarrow> outcome E (\<lambda>(ss, st'). I st') (display_all args depth st)"
proof (induction args arbitrary: st)
  case (Cons a as)
  show ?case
    unfolding display_all.simps
  proof (rule keeps_rbind)
    show "keeps (a depth st)" using Cons.prems by (simp add: preservesD)
    fix v st'
    assume "I st'"
    then show "outcome E (\<lambda>(ss, st'). I st') (case (v, st') of (v, st) \<Rightarrow>
        rbind (display_all as depth st) (\<lambda>(ss, st). Inr (to_display_string v # ss, st)))"
      using Cons.prems by (auto intro!: outcome_rbind [OF Cons.IH])
  qed
qed simp

lemma guarded_test_keeps:
  assumes "preserves (args ! 0)" "preserves (args ! 1)" "I st"
  shows "keeps (guarded_test g f args depth st)"
  unfolding guarded_test_def
  using assms by (auto intro!: keeps_rbind [OF preservesD])

lemma case_loop_keeps:
  "\<forall>a \<in> set args. preserves a \<Longrightarrow> odd (length args) \<Longrightarrow> I st \<Longrightarrow> keeps (case_loop args n depth st)"
proof (induction args n depth st rule: case_loop.induct)
  case (1 p v rest n depth st)
  show ?case
    unfolding case_loop.simps
  proof (rule keeps_rbind)
    show "keeps (p depth st)" using 1 by (simp add: preservesD)
    fix x st'
    assume p: "p depth st = Inr (x, st')" and st': "I st'"
    have "keeps (case_loop rest (n + 1) depth st')" if "x = VBool False"
      using "1.IH" [OF p refl that] "1.prems" st' by simp
    then show "keeps (case (x, st') of (x, st) \<Rightarrow> case x of
        VBool b \<Rightarrow> (if b then v depth st else case_loop rest (n + 1) depth st)
      | _ \<Rightarrow> Inl (InvalidCasePredicate n (kind x)))"
      using "1.prems" st' by (cases x) (auto simp: predicate_error preservesD)
  qed
qed (auto simp: preservesD)

lemma join_keeps:
  assumes "\<And>f. sep = Some f \<Longrightarrow> keeps (f st)" "I st"
  shows "keeps (join array sep n st)"
proof (cases array)
  case (VArray rc items flt)
  have sep: "outcome E (\<lambda>(s, st'). I st') (case sep of None \<Rightarrow> Inr (lit '','', st)
      | Some f \<Rightarrow> rbind (f st) (\<lambda>(v, st). Inr (separator_text v, st)))"
    using assms by (auto intro!: keeps_rbind split: option.splits)
  have rest: "keeps (rbind (case sep of None \<Rightarrow> Inr (lit '','', st)
      | Some f \<Rightarrow> rbind (f st) (\<lambda>(v, st). Inr (separator_text v, st))) (\<lambda>(separator, st).
        rbind (join_rest separator xs x c) (\<lambda>result. Inr (VString result, st))))" for xs x c
    by (rule outcome_rbind [OF sep]) (auto intro!: only_memory [OF join_rest_counts])
  show ?thesis
  proof (cases items)
    case (Cons i xs)
    show ?thesis
      unfolding join_def VArray expr_value.case Cons list.case
      by (rule only_memory [OF counting(3)]) (auto simp: assms(2) intro: rest)
  qed (simp add: join_def VArray assms)
qed (simp_all add: join_def assms)

definition format_keeps_state :: "nat \<Rightarrow> format_state \<times> ev_state \<Rightarrow> bool" where
  "format_keeps_state n fs \<longleftrightarrow> length (f_cache (fst fs)) = n \<and> I (snd fs)"

lemma get_or_eval_keeps:
  assumes "\<And>st. I st \<Longrightarrow> keeps (ev i st)" "I st"
  shows "outcome E (\<lambda>(v, f', st'). length (f_cache f') = length (f_cache f) \<and> I st') (get_or_eval ev i f st)"
  using assms(1) [OF assms(2)] assms(2)
  by (auto simp: get_or_eval_def outcome_def argument_error split: option.splits sum.splits)

lemma format_token_step_keeps:
  assumes "\<And>i st. i < n \<Longrightarrow> I st \<Longrightarrow> keeps (ev i st)" "format_keeps_state n fs"
    and "references [t] = [] \<or> hd (references [t]) < n"
  shows "outcome E (format_keeps_state n) (format_token_step ev t fs)"
proof -
  have seg: "outcome E (\<lambda>f'. length (f_cache f') = n) (append_segment f)" if "length (f_cache f) = n" for f
    using that append_segment_counts [of f] append_segment_Inr [of f] memory_error
    by (cases "append_segment f") auto
  show ?thesis
  proof (cases t)
    case (Literal c)
    with assms(2) show ?thesis
      unfolding format_token_step_def
      by (auto simp: Let_def format_keeps_state_def intro!: outcome_rbind [OF seg])
  next
    case (Placeholder i spec)
    have "outcome E (format_keeps_state n)
       (rbind (append_segment (fst fs)) (\<lambda>f.
        rbind (get_or_eval ev i f (snd fs)) (\<lambda>(v, f, st).
          if spec \<noteq> [] then Inl (Format (UnsupportedFormatSpecifier spec (kind v)))
          else (let rendered = to_display_string v in
            if rendered = [] then Inr (f, st)
            else rbind (counter_add_string rendered (f_counter f)) (\<lambda>c.
              Inr (f\<lparr>f_out := f_out f @ rendered, f_counter := c\<rparr>, st))))))"
      using assms Placeholder
      by (intro outcome_rbind [OF seg] outcome_rbind [OF get_or_eval_keeps [OF assms(1)]])
         (auto simp: format_keeps_state_def format_error Let_def intro!: only_memory [OF counting(3)])
    with Placeholder show ?thesis by (simp add: format_token_step_def)
  qed
qed

lemma next_format_token_error:
  "next_format_token n cs = Inl e \<Longrightarrow> E (Format e)"
  by (auto simp: next_format_token_def scan_placeholder_def Let_def rbind_eq_Inl format_error
      split: list.splits if_splits option.splits)

lemma format_loop_keeps:
  assumes "\<And>i st. i < n \<Longrightarrow> I st \<Longrightarrow> keeps (ev i st)" "format_keeps_state n fs"
  shows "outcome E (format_keeps_state n) (format_loop ev n cs fs)"
  using assms
proof (induction ev n cs fs rule: format_loop.induct)
  case (1 ev n cs fs)
  show ?case
  proof (cases "next_format_token n cs")
    case (Inl e)
    then show ?thesis by (subst format_loop.simps) (simp add: next_format_token_error)
  next
    case (Inr res)
    show ?thesis
    proof (cases res)
      case None
      with Inr "1.prems" show ?thesis by (subst format_loop.simps) simp
    next
      case (Some p)
      obtain t r where p: "p = (t, r)" by (cases p)
      have nx: "next_format_token n cs = Inr (Some (t, r))" using Inr Some p by simp
      have "outcome E (format_keeps_state n) (rbind (format_token_step ev t fs) (format_loop ev n r))"
        using "1.prems" next_format_token_reference [OF nx]
        by (intro outcome_rbind [OF format_token_step_keeps] "1.IH" [OF nx refl refl]) auto
      with nx show ?thesis by (subst format_loop.simps) simp
    qed
  qed
qed

lemma format_keeps:
  assumes "\<And>i st. i < n \<Longrightarrow> I st \<Longrightarrow> keeps (ev i st)" "I st"
  shows "keeps (format fmt n limit ev st)"
  unfolding format_def
  using assms
  by (intro outcome_rbind [OF format_loop_keeps])
     (auto simp: format_keeps_state_def intro!: only_memory [OF append_segment_counts])

lemma keeps_if: "(b \<Longrightarrow> keeps m) \<Longrightarrow> (\<not> b \<Longrightarrow> keeps m') \<Longrightarrow> keeps (if b then m else m')"
  by simp

lemma call_body_keeps:
  assumes arity: "lookup_arity name = Some a" "min_args a \<le> length args" "length args \<le> max_args a"
    and args: "\<forall>f \<in> set args. preserves f"
    and odd: "lenient \<or> (to_ascii_lowercase name = lit ''case'' \<longrightarrow> odd (length args))"
    and st: "I st"
  shows "keeps (call_body c name args depth st)"
proof -
  let ?l = "to_ascii_lowercase name"
  have known: "map_of ARITIES ?l = Some a" using arity(1) by (simp add: lookup_arity_def)
  have nth: "preserves (args ! i)" if "i < length args" for i using args that by simp
  have two: "preserves (args ! 0) \<and> preserves (args ! 1)"
    if "?l = lit ''contains'' \<or> ?l = lit ''startswith'' \<or> ?l = lit ''endswith''"
    using that known arity nth by (auto simp: ARITIES_def)
  have ne: "args \<noteq> []"
    if "?l = lit ''format'' \<or> ?l = lit ''join'' \<or> ?l = lit ''tojson'' \<or> ?l = lit ''fromjson''"
    using that known arity by (auto simp: ARITIES_def)
  have one: "preserves (args ! 0)"
    if "?l = lit ''format'' \<or> ?l = lit ''join'' \<or> ?l = lit ''tojson'' \<or> ?l = lit ''fromjson''"
    using ne [OF that] nth [of 0] by simp
  have tl: "preserves (tl args ! i)" if "i < length (tl args)" for i
    using nth [of "Suc i"] that by (simp add: nth_tl)
  have json: "keeps (rbind ((args ! 0) d st) (\<lambda>(v, (m, rc)).
         rbind (lift_error FromJson (from_json (upper c) (category c) (to_display_string v) rc)) (\<lambda>(x, rc).
           Inr (x, (m, rc)))))" if "?l = lit ''fromjson''" for d
    using one that st fresh_keeps json_error
    by (intro keeps_rbind [OF preservesD]) (auto simp: lift_error_def split: sum.splits)
  have hash: "keeps (rbind (display_all args d st) (\<lambda>(ss, (m, rc)).
         rbind (lift_error HashFiles (hash_files c ss rc)) (\<lambda>s. Inr (VString s, (m, rc + 1)))))" for d
    using fresh_keeps hash_error
    by (intro outcome_rbind [OF display_all_keeps [OF args st]]) (auto simp: lift_error_def split: sum.splits)
  have case_: "keeps (eval_case args depth st)" if "?l = lit ''case''"
    using odd that case_loop_keeps [OF args _ st] lenient_error
    by (auto simp: eval_case_def)
  have names: "?l \<in> fst ` set ARITIES" using known by (metis map_of_eq_None_iff option.distinct(1))
  show ?thesis
    unfolding call_body_def Let_def
    apply (intro keeps_if)
    subgoal using two st by (simp add: guarded_test_keeps)
    subgoal using two st by (simp add: guarded_test_keeps)
    subgoal using two st by (simp add: guarded_test_keeps)
    subgoal using st
      by (intro keeps_rbind [OF preservesD [OF one]]) (auto intro!: format_keeps preservesD [OF tl])
    subgoal using st
      by (intro keeps_rbind [OF preservesD [OF one]])
         (auto intro!: join_keeps preservesD [OF nth] split: if_splits)
    subgoal using st
      by (intro keeps_rbind [OF preservesD [OF one]]) (auto intro!: only_memory [OF to_json_counts])
    subgoal using json by simp
    subgoal using hash by simp
    subgoal using case_ by simp
    subgoal using st by simp
    subgoal using st by simp
    subgoal using st by simp
    subgoal using st by simp
    subgoal using names by (simp add: ARITIES_def)
    done
qed

lemma eval_call_keeps:
  assumes "\<forall>f \<in> set args. preserves f" "I st" "lenient \<or> validate_function name (length args) = Inr ()"
  shows "keeps (eval_call c name args depth st)"
proof (cases "lookup_arity name")
  case None
  then show ?thesis
    using assms(3) lenient_error by (auto simp: eval_call_def validate_function_def)
next
  case (Some a)
  have eq: "eq_ignore_ascii_case name (lit ''case'') \<longleftrightarrow> to_ascii_lowercase name = lit ''case''"
    by (simp add: eq_ignore_ascii_case_def to_ascii_lowercase_def lit_def ascii_lower_def)
  show ?thesis
  proof (cases "length args < min_args a \<or> max_args a < length args")
    case True
    with Some show ?thesis
      using assms(3) lenient_error by (auto simp: eval_call_def validate_function_def)
  next
    case False
    with Some assms eq have "keeps (call_body c name args depth st)"
      by (intro call_body_keeps) (auto simp: validate_function_def split: if_splits)
    with Some False show ?thesis by (simp add: eval_call_def)
  qed
qed

lemma eval_binary_keeps:
  assumes "preserves l" "preserves r" "I st"
  shows "keeps (eval_binary c op l r depth st)"
  unfolding eval_binary_def Let_def
  using assms(3) by (intro keeps_rbind [OF preservesD [OF assms(1)]])
    (auto intro!: keeps_rbind [OF preservesD [OF assms(2)]] preservesD [OF assms(2)] split: bin_op.splits)

lemma eval_index_keeps:
  assumes "preserves t" "preserves i"
  shows "preserves (eval_index c t i)"
  unfolding preserves_def eval_index_def
  using assms fresh_keeps
  by (auto intro!: keeps_rbind [OF preservesD] charge_keeps only_memory [OF index_into_counts])

lemma eval_wildcard_keeps:
  assumes "preserves t"
  shows "preserves (eval_wildcard t)"
proof -
  have star: "outcome E (\<lambda>m'. I (m', rc)) (if is_primitive v then Inr m
      else add_result d (VString (lit ''*'')) no_result_memory m)" if "I (m, rc)" for v m rc d
    using that add_result_keeps by simp
  show ?thesis
    unfolding preserves_def eval_wildcard_def
    using assms fresh_keeps
    by (auto intro!: keeps_rbind [OF preservesD] outcome_rbind [OF star] charge_keeps
        only_memory [OF wildcard_filter_counts])
qed

theorem evaluate_inner_keeps:
  "lenient \<or> well_formed e \<Longrightarrow> preserves (evaluate_inner c e)"
proof (induction e)
  case (ENamedValue name)
  have "resolve_root c name \<noteq> None" if "validate_named_value name = Inr ()"
    using that by (auto simp: validate_named_value_def ROOT_NAMES_def resolve_root_def
        eq_ignore_ascii_case_def split: if_splits)
  with ENamedValue show ?case
    unfolding preserves_def evaluate_inner.simps eval_named_def
    by (auto intro!: charge_keeps only_memory [OF counting(4)] lenient_error split: option.splits)
next
  case (ECall name args)
  have "\<forall>f \<in> set (map (evaluate_inner c) args). preserves f"
    using ECall by (auto simp: list_all_iff)
  then have call: "keeps (eval_call c name (map (evaluate_inner c) args) depth st)" if "I st" for depth st
    using that ECall.prems by (intro eval_call_keeps) auto
  show ?case
    unfolding preserves_def evaluate_inner.simps
    by (auto intro!: keeps_rbind [OF call] charge_keeps only_memory [OF counting(4)])
next
  case (EIndex t i)
  then show ?case by (auto intro: eval_index_keeps)
next
  case (EWildcard t)
  then show ?case by (auto intro: eval_wildcard_keeps)
next
  case (ENot e)
  then have e: "preserves (evaluate_inner c e)" by auto
  show ?case
    unfolding preserves_def evaluate_inner.simps
    by (auto intro!: keeps_rbind [OF preservesD [OF e]] charge_keeps)
next
  case (EBinary op l r)
  then have lr: "preserves (evaluate_inner c l)" "preserves (evaluate_inner c r)" by auto
  show ?case
    unfolding preserves_def evaluate_inner.simps
    by (auto intro!: keeps_rbind [OF eval_binary_keeps [OF lr]] charge_keeps)
qed (auto simp: preserves_def intro: charge_keeps)

end

section \<open>Memory\<close>

definition accounted :: "nat \<Rightarrow> ev_state \<Rightarrow> bool" where
  "accounted limit st \<longleftrightarrow> memory_ok (fst st) \<and> max_bytes (fst st) = limit \<and> limit \<le> usize_max"

interpretation accounting: evaluation_contract "\<lambda>_. True" "accounted limit" True for limit
proof unfold_locales
  fix m rc depth v rm
  assume "accounted limit (m, rc)"
  then show "outcome (\<lambda>_. True) (\<lambda>m'. accounted limit (m', rc)) (add_result depth v rm m)"
    using add_result_eq [where m = m and rm = rm and v = v and d = depth, OF _ _ refl] by (cases "add_result depth v rm m") (auto simp: accounted_def)
qed (auto simp: accounted_def)

text \<open>
  C23: every evaluation stays within its memory limit. Whatever the expression, when
  \<open>evaluate_with_options\<close> returns a value, the bytes accounted live are the sum over the depths
  of the tree and do not exceed the effective limit (1 MiB when the option is zero).
\<close>

theorem evaluation_stays_within_memory:
  assumes "evaluate_with_options c max_memory rc e = Inr (v, (m, rc'))"
    and "effective_max_memory_bytes max_memory \<le> usize_max"
  shows "total_bytes m = sum_list (depths m) \<and> total_bytes m \<le> effective_max_memory_bytes max_memory"
proof -
  let ?limit = "effective_max_memory_bytes max_memory"
  have run: "evaluate_inner c e 0 (new_memory ?limit, rc) = Inr (v, (m, rc'))"
    using assms(1) by (simp add: evaluate_with_options_def split: if_splits)
  have "accounted ?limit (new_memory ?limit, rc)"
    using assms(2) new_memory_ok by (simp add: accounted_def new_memory_def)
  from accounting.preservesD [OF accounting.evaluate_inner_keeps [of e ?limit c] this, of 0] run
  have "accounted ?limit (m, rc')" by simp
  then show ?thesis by (simp add: accounted_def memory_ok_def)
qed

theorem evaluation_stays_within_memory_witness:
  "\<exists>m :: evaluation_memory. total_bytes m = sum_list (depths m) \<and> total_bytes m \<le> effective_max_memory_bytes 0 \<and> depths m \<noteq> []"
proof -
  let ?c = "new_context (\<lambda>c. [c]) (\<lambda>_. OtherCategory) (\<lambda>_ _ _. Inl WorkerStopped) 0"
  let ?e = "ENot (EStr (lit ''a''))"
  have "map_sum id (\<lambda>(v, (m, rc)). depths m) (evaluate_with_options ?c 0 100 ?e) = Inr [24, 0]"
    by code_simp
  then obtain v m rc where run: "evaluate_with_options ?c 0 100 ?e = Inr (v, (m, rc))" "depths m = [24, 0]"
    by (cases "evaluate_with_options ?c 0 100 ?e") auto
  have "effective_max_memory_bytes 0 \<le> usize_max"
    by (simp add: effective_max_memory_bytes_def DEFAULT_MAX_MEMORY_BYTES_def usize_max_def)
  from evaluation_stays_within_memory [OF run(1) this] run(2) show ?thesis by (intro exI [of _ m]) simp
qed

section \<open>Parsed trees raise no registry error\<close>

fun registry_error :: "eval_error \<Rightarrow> bool" where
  "registry_error (EvUnrecognizedFunction n) = True"
| "registry_error (EvUnrecognizedNamedValue n) = True"
| "registry_error (EvWrongArity n g d) = True"
| "registry_error InvalidCaseArity = True"
| "registry_error (Format (ArgumentEvaluation e)) = registry_error e"
| "registry_error _ = False"

lemma add_result_counts: "counts (add_result depth v rm m)"
proof -
  have "counts (value_bytes v n)" for n by (auto simp: value_bytes_def counting split: expr_value.splits)
  then show ?thesis
    unfolding add_result_def add_bytes_def Let_def
    by (auto intro!: counts_rbind counts_ok_or split: option.splits)
qed

interpretation registry: evaluation_contract "\<lambda>e. \<not> registry_error e" "\<lambda>_. True" False
proof unfold_locales
  fix m rc depth v rm
  show "outcome (\<lambda>e. \<not> registry_error e) (\<lambda>m'. True) (add_result depth v rm m)"
    using add_result_counts [of depth v rm m] by (cases "add_result depth v rm m") auto
qed auto

text \<open>
  C40: what the parser accepts, the evaluator knows. Evaluating a parsed expression never reports
  an unknown function, an unknown named value, a wrong number of arguments or an even
  \<open>case()\<close>, not even inside the arguments of \<open>format\<close>: the defensive checks of the
  evaluator are never the ones that fail.
\<close>

theorem parsed_expressions_raise_no_registry_error:
  assumes "parse source = Inr e" "evaluate_with_options c max_memory rc e = Inl err"
  shows "\<not> registry_error err"
proof (cases "exceeds_safe_evaluation_depth e")
  case True
  with assms(2) show ?thesis by (auto simp: evaluate_with_options_def)
next
  case False
  obtain toks where "parse_tokens toks = Inr e"
    using assms(1) by (auto simp: parse_def rbind_eq_Inr)
  then have "well_formed e" by (rule outcome_Inr [OF parse_tokens_parses])
  then have "outcome (\<lambda>e. \<not> registry_error e) (\<lambda>_. True)
      (evaluate_inner c e 0 (new_memory (effective_max_memory_bytes max_memory), rc))"
    using registry.preservesD [OF registry.evaluate_inner_keeps [of e c]]
    by (simp add: case_prod_unfold)
  then show ?thesis using assms(2) False by (simp add: evaluate_with_options_def)
qed

theorem parsed_expressions_raise_no_registry_error_witness:
  "\<exists>err. evaluate_with_options (new_context (\<lambda>c. [c]) (\<lambda>_. OtherCategory) (\<lambda>_ _ _. Inl WorkerStopped) 0) 0 0
     (ECall (lit ''format'') [EStr (lit ''{0}''), ECall (lit ''fromJSON'') [EStr (lit ''{'')]]) = Inl err \<and> \<not> registry_error err"
proof -
  let ?c = "new_context (\<lambda>c. [c]) (\<lambda>_. OtherCategory) (\<lambda>_ _ _. Inl WorkerStopped) 0"
  let ?e = "ECall (lit ''format'') [EStr (lit ''{0}''), ECall (lit ''fromJSON'') [EStr (lit ''{'')]]"
  have p: "parse (lit ''format('' @ [39] @ lit ''{0}'' @ [39] @ lit '', fromJSON('' @ [39] @ lit ''{'' @ [39] @ lit ''))'') = Inr ?e"
    by code_simp
  have "(case evaluate_with_options ?c 0 0 ?e of Inl _ \<Rightarrow> True | Inr _ \<Rightarrow> False)" by code_simp
  then obtain err where e: "evaluate_with_options ?c 0 0 ?e = Inl err" by (auto split: sum.splits)
  from parsed_expressions_raise_no_registry_error [OF p e] e show ?thesis by blast
qed

section \<open>Logical chains\<close>

text \<open>The operands of a chain of one logical operator, left to right.\<close>

fun chain_operands :: "bin_op \<Rightarrow> expr \<Rightarrow> expr list" where
  "chain_operands op (EBinary op' l r) =
     (if op' = op then chain_operands op l @ chain_operands op r else [EBinary op' l r])"
| "chain_operands op e = [e]"

lemma chain_operands_pair_up:
  "concat (map (chain_operands op) (pair_up op es)) = concat (map (chain_operands op) es)"
  by (induction op es rule: pair_up.induct) auto

lemma chain_operands_balance:
  "concat (map (chain_operands op) (balance op es)) = concat (map (chain_operands op) es)"
proof (induction op es rule: balance.induct)
  case (1 op es)
  then show ?case by (subst balance.simps) (simp add: chain_operands_pair_up)
qed

lemma length_balance: "length (balance op es) \<le> 1"
proof (induction op es rule: balance.induct)
  case (1 op es)
  then show ?case by (subst balance.simps) auto
qed

text \<open>A value that decides a chain: a falsy one for \<open>&&\<close>, a truthy one for \<open>||\<close>.\<close>

definition decides :: "bin_op \<Rightarrow> expr_value \<Rightarrow> bool" where
  "decides op v \<longleftrightarrow> (if op = And then is_falsy v else is_truthy v)"

definition evaluates_to :: "ctx \<Rightarrow> expr \<Rightarrow> expr_value \<Rightarrow> bool" where
  "evaluates_to c e v \<longleftrightarrow> (\<exists>depth st st'. evaluate_inner c e depth st = Inr (v, st'))"

definition first_decisive :: "ctx \<Rightarrow> bin_op \<Rightarrow> expr list \<Rightarrow> expr_value \<Rightarrow> bool" where
  "first_decisive c op es v \<longleftrightarrow> (\<exists>k < length es.
     (\<forall>i < k. \<exists>w. evaluates_to c (es ! i) w \<and> \<not> decides op w) \<and> evaluates_to c (es ! k) v \<and>
     (decides op v \<or> Suc k = length es))"

lemma first_decisive_append1:
  "first_decisive c op es v \<Longrightarrow> decides op v \<Longrightarrow> first_decisive c op (es @ fs) v"
proof -
  assume "first_decisive c op es v" "decides op v"
  then obtain k where k: "k < length es" "\<forall>i < k. \<exists>w. evaluates_to c (es ! i) w \<and> \<not> decides op w"
    "evaluates_to c (es ! k) v" unfolding first_decisive_def by blast
  then have "\<forall>i < k. \<exists>w. evaluates_to c ((es @ fs) ! i) w \<and> \<not> decides op w"
    by (simp add: nth_append)
  with k \<open>decides op v\<close> show ?thesis
    unfolding first_decisive_def by (intro exI [of _ k]) (simp add: nth_append)
qed

lemma first_decisive_append2:
  assumes "first_decisive c op es w" "\<not> decides op w" "first_decisive c op fs v"
  shows "first_decisive c op (es @ fs) v"
proof -
  obtain k where k: "Suc k = length es" "evaluates_to c (es ! k) w"
    "\<And>i. i < k \<Longrightarrow> \<exists>w. evaluates_to c (es ! i) w \<and> \<not> decides op w"
    using assms(1,2) unfolding first_decisive_def by blast
  obtain j where j: "j < length fs" "evaluates_to c (fs ! j) v" "decides op v \<or> Suc j = length fs"
    "\<And>i. i < j \<Longrightarrow> \<exists>w. evaluates_to c (fs ! i) w \<and> \<not> decides op w"
    using assms(3) unfolding first_decisive_def by blast
  have "\<exists>w. evaluates_to c ((es @ fs) ! i) w \<and> \<not> decides op w" if "i < length es + j" for i
  proof (cases "i < length es")
    case True
    then show ?thesis using k assms(2) by (cases "i = k") (auto simp: nth_append)
  next
    case False
    then show ?thesis using j(4) [of "i - length es"] that by (simp add: nth_append)
  qed
  then show ?thesis
    unfolding first_decisive_def using j by (intro exI [of _ "length es + j"]) auto
qed

lemma charge_value: "charge depth v rm st = Inr (w, st') \<Longrightarrow> w = v"
  by (auto simp: charge_def rbind_eq_Inr)

lemma first_decisive_single:
  assumes "evaluate_inner c e depth st = Inr (v, st')"
  shows "first_decisive c op [e] v"
proof -
  have "evaluates_to c e v" unfolding evaluates_to_def using assms by blast
  then show ?thesis unfolding first_decisive_def by (intro exI [of _ 0]) simp
qed

lemma chain_first_decisive:
  assumes "is_logical op"
  shows "evaluate_inner c e depth st = Inr (v, st') \<Longrightarrow> first_decisive c op (chain_operands op e) v"
proof (induction e arbitrary: depth st v st')
  case (EBinary op' l r)
  show ?case
  proof (cases "op' = op")
    case False
    with first_decisive_single [OF EBinary.prems] show ?thesis by simp
  next
    case True
    obtain w st1 where l: "evaluate_inner c l (depth + 1) st = Inr (w, st1)"
      and rest: "if decides op w then v = w else \<exists>st2. evaluate_inner c r (depth + 1) st1 = Inr (v, st2)"
      using EBinary.prems True assms
      by (auto simp: eval_binary_def Let_def rbind_eq_Inr is_logical_def decides_def
          dest!: charge_value split: if_splits)
    note lw = EBinary.IH(1) [OF l]
    show ?thesis
    proof (cases "decides op w")
      case dec: True
      then show ?thesis using rest lw True by (simp add: first_decisive_append1)
    next
      case dec: False
      then obtain st2 where "evaluate_inner c r (depth + 1) st1 = Inr (v, st2)" using rest by auto
      from first_decisive_append2 [OF lw dec EBinary.IH(2) [OF this]] True show ?thesis by simp
    qed
  qed
qed (simp_all only: chain_operands.simps first_decisive_single)

text \<open>
  C33: balancing a chain of \<open>&&\<close> or \<open>||\<close> does not change its meaning. The tree the parser
  builds from the operands of a chain has exactly those operands, in the order written, and its
  value is that of the first operand, left to right, that decides the chain (falsy for
  \<open>&&\<close>, truthy for \<open>||\<close>), or of the last one when none does.
\<close>

theorem balanced_chain_first_decisive:
  assumes "is_logical op" "build_balanced_logical es op = Inr e"
    and "evaluate_inner c e depth st = Inr (v, st')"
  shows "chain_operands op e = concat (map (chain_operands op) es) \<and>
    first_decisive c op (concat (map (chain_operands op) es)) v"
proof -
  obtain rest where "balance op es = e # rest"
    using assms(2) by (auto simp: build_balanced_logical_def rbind_eq_Inr split: list.splits)
  then have "balance op es = [e]" using length_balance [of op es] by simp
  then have ops: "chain_operands op e = concat (map (chain_operands op) es)"
    using chain_operands_balance [of op es] by simp
  then show ?thesis using chain_first_decisive [OF assms(1,3)] by simp
qed

theorem balanced_chain_first_decisive_witness:
  "first_decisive (new_context (\<lambda>c. [c]) (\<lambda>_. OtherCategory) (\<lambda>_ _ _. Inl WorkerStopped) 0) Or
     [EBool False, EStr (lit ''x''), EBool True] (VString (lit ''x''))"
proof -
  let ?c = "new_context (\<lambda>c. [c]) (\<lambda>_. OtherCategory) (\<lambda>_ _ _. Inl WorkerStopped) 0"
  let ?e = "EBinary Or (EBinary Or (EBool False) (EStr (lit ''x''))) (EBool True)"
  have b: "build_balanced_logical [EBool False, EStr (lit ''x''), EBool True] Or = Inr ?e" by code_simp
  have "map_sum id fst (evaluate_inner ?c ?e 0 (new_memory 1000, 0)) = Inr (VString (lit ''x''))"
    by code_simp
  then obtain st where "evaluate_inner ?c ?e 0 (new_memory 1000, 0) = Inr (VString (lit ''x''), st)"
    by (cases "evaluate_inner ?c ?e 0 (new_memory 1000, 0)") auto
  from balanced_chain_first_decisive [OF _ b this] show ?thesis by (simp add: is_logical_def)
qed

text \<open>
  The two depth limits do not agree. The parser counts a logical chain as one level and
  accepts this text at depth 50; the evaluator counts every node of the balanced tree and refuses
  the accepted tree as too deep.
\<close>

lemma accepted_expression_too_deep_to_evaluate:
  "\<exists>source e. parse source = Inr e \<and> sem_height e = MAX_EXPRESSION_DEPTH \<and>
     evaluate c rc e = Inl ExpressionTooDeep"
proof -
  let ?s = "lit (''env || env || env || '' @ replicate 48 (CHR ''!'') @ ''env'')"
  have "map_sum id (\<lambda>e. (exceeds_safe_evaluation_depth e, sem_height e)) (parse ?s) = Inr (True, 50)"
    by code_simp
  then show ?thesis
    by (cases "parse ?s") (auto simp: evaluate_def evaluate_with_options_def MAX_EXPRESSION_DEPTH_def)
qed

end
