(* ===== verification/Engine_Base.thy ===== *)
theory Engine_Base
  imports Coercion
begin

text \<open>
  What every planning component shares: source locations
  (\<open>greenlit-workflow/src/span.rs\<close>) and the non-blocking plan warnings
  (\<open>greenlit-engine/src/lints.rs\<close>).
\<close>

section \<open>Source locations\<close>

record location =
  line :: nat
  column :: nat

record span =
  span_file :: ustr
  span_start :: location
  span_end :: location

record 'a spanned =
  node :: 'a
  node_span :: span

definition location_display :: "location \<Rightarrow> ustr" where
  "location_display l = dec_string (line l) @ lit '':'' @ dec_string (column l)"

definition span_display :: "span \<Rightarrow> ustr" where
  "span_display s = span_file s @ lit '':'' @ location_display (span_start s)"

text \<open>A location for concrete examples.\<close>

definition sample_span :: span where
  "sample_span = \<lparr>span_file = [], span_start = \<lparr>line = 1, column = 1\<rparr>, span_end = \<lparr>line = 1, column = 2\<rparr>\<rparr>"

section \<open>Plan warnings\<close>

datatype lint_kind = DeadExclude | UndeclaredNeededOutput | MatrixOutputsCollision | DuplicateNeeds

record lint =
  lint_span :: span
  lint_message :: ustr
  lint_tag :: lint_kind

definition dead_exclude :: "span \<Rightarrow> lint" where
  "dead_exclude s = \<lparr>lint_span = s,
     lint_message = lit ''this `exclude` entry matched no surviving matrix combination'',
     lint_tag = DeadExclude\<rparr>"

definition undeclared_needed_output :: "span \<Rightarrow> ustr \<Rightarrow> ustr \<Rightarrow> lint" where
  "undeclared_needed_output s job output = \<lparr>lint_span = s,
     lint_message = lit ''job '' @ [39] @ job @ [39] @ lit '' declares no output '' @ [39] @ output @ [39] @
       lit ''; this reference resolves to an empty string at runtime'',
     lint_tag = UndeclaredNeededOutput\<rparr>"

definition matrix_outputs_collision :: "span \<Rightarrow> ustr \<Rightarrow> lint" where
  "matrix_outputs_collision s job = \<lparr>lint_span = s,
     lint_message = lit ''job '' @ [39] @ job @ [39] @
       lit '' is a matrix job with declared outputs read by a dependent; the last leg to finish wins (a well-known GitHub Actions limitation)'',
     lint_tag = MatrixOutputsCollision\<rparr>"

definition duplicate_needs :: "span \<Rightarrow> ustr \<Rightarrow> lint" where
  "duplicate_needs s name = \<lparr>lint_span = s,
     lint_message = lit ''duplicate `needs` entry '' @ [39] @ name @ [39] @ lit '' (deduplicated)'',
     lint_tag = DuplicateNeeds\<rparr>"

end
