(* ===== verification/Matrix.thy ===== *)
theory Matrix
  imports Engine_Base
begin

text \<open>
  Matrix expansion (\<open>greenlit-engine/src/matrix\<close>): the value domain with the deep equality
  \<open>PartialEq\<close> derives for it, the cardinality check, and the product, exclude and include
  phases of \<open>run_algorithm\<close>, with the conversion of an expression value into a matrix. The
  expansion is proved equal to a reference definition that computes every leg from its own
  combination alone.
\<close>

section \<open>Matrix values\<close>

datatype matrix_value =
    MNull
  | MBool bool
  | MNumber f64
  | MString ustr
  | MSequence "matrix_value list"
  | MMapping "(ustr, matrix_value) index_map"

text \<open>
  \<open>PartialEq\<close> on \<open>IndexMap\<close> ignores the order of the entries: as many keys, and every key of
  the left one bound to an equal value on the right.
\<close>

function (sequential) mv_eq :: "matrix_value \<Rightarrow> matrix_value \<Rightarrow> bool" where
  "mv_eq MNull MNull = True"
| "mv_eq (MBool a) (MBool b) = (a = b)"
| "mv_eq (MNumber a) (MNumber b) = f64_eq a b"
| "mv_eq (MString a) (MString b) = (a = b)"
| "mv_eq (MSequence xs) (MSequence ys) = (length xs = length ys \<and> list_all (\<lambda>(x, y). mv_eq x y) (zip xs ys))"
| "mv_eq (MMapping m) (MMapping n) = (length m = length n \<and>
     list_all (\<lambda>(k, v). case im_get n k of None \<Rightarrow> False | Some w \<Rightarrow> mv_eq v w) m)"
| "mv_eq _ _ = False"
  by pat_completeness auto

termination
  by (relation "measure (size \<circ> fst)")
     (auto simp: less_Suc_eq_le dest!: set_zip_leftD intro: size_list_estimation' order_trans)

fun display_value :: "matrix_value \<Rightarrow> ustr" where
  "display_value MNull = lit ''null''"
| "display_value (MBool b) = (if b then lit ''true'' else lit ''false'')"
| "display_value (MNumber n) = format_g15 n"
| "display_value (MString s) = s"
| "display_value (MSequence _) = [cp CHR ''['', 8230, cp CHR '']'']"
| "display_value (MMapping _) = [cp CHR ''{'', 8230, cp CHR ''}'']"

datatype leg_origin = Product | Include nat

record matrix_leg =
  leg_index :: nat
  leg_values :: "(ustr, matrix_value) index_map"
  leg_origin :: leg_origin

definition display_suffix :: "matrix_leg \<Rightarrow> ustr" where
  "display_suffix l = (if leg_values l = [] then []
     else lit '' ('' @ join_with (lit '', '') (map (display_value \<circ> snd) (leg_values l)) @ lit '')'')"

datatype matrix_error =
    EmptyExcludeEntry span
  | TooManyLegs nat nat span
  | CardinalityOverflow nat span
  | ExpressionNotMatrixShaped span
  | ExpressionFieldNotArray ustr string span
  | ExpressionEntryNotObject string nat string span

type_synonym resolved_entry = "(ustr \<times> matrix_value) list"
type_synonym combo = "(ustr, matrix_value) index_map"
type_synonym axis = "ustr \<times> matrix_value list"

definition DEFAULT_MAX_MATRIX_LEGS :: nat where
  "DEFAULT_MAX_MATRIX_LEGS = 256"

section \<open>The four phases\<close>

primrec try_product :: "nat list \<Rightarrow> nat \<Rightarrow> nat option" where
  "try_product [] product = Some product"
| "try_product (n # ns) product = Option.bind (checked_mul product n) (try_product ns)"

definition checked_product_cardinality :: "nat list \<Rightarrow> nat \<Rightarrow> span \<Rightarrow> matrix_error + nat" where
  "checked_product_cardinality ns cap sp =
    rbind (if ns = [] \<or> 0 \<in> set ns then Inr 0
       else case try_product ns 1 of None \<Rightarrow> Inl (CardinalityOverflow cap sp) | Some n \<Rightarrow> Inr n) (\<lambda>n.
      if cap < n then Inl (TooManyLegs n cap sp) else Inr n)"

primrec product_loop :: "nat \<Rightarrow> span \<Rightarrow> axis list \<Rightarrow> combo list \<Rightarrow> matrix_error + combo list" where
  "product_loop cap sp [] combos = Inr combos"
| "product_loop cap sp (a # as) combos =
    (case checked_mul (length combos) (length (snd a)) of
       None \<Rightarrow> Inl (CardinalityOverflow cap sp)
     | Some _ \<Rightarrow> product_loop cap sp as
         (concat (map (\<lambda>combo. map (\<lambda>v. im_insert (fst a) v combo) (snd a)) combos)))"

text \<open>\<open>combo.get(key) == Some(value)\<close>.\<close>

definition has_value :: "combo \<Rightarrow> ustr \<times> matrix_value \<Rightarrow> bool" where
  "has_value combo kv = (case im_get combo (fst kv) of None \<Rightarrow> False | Some w \<Rightarrow> mv_eq w (snd kv))"

definition matches_exclude :: "resolved_entry \<Rightarrow> combo \<Rightarrow> bool" where
  "matches_exclude entry combo = list_all (has_value combo) entry"

primrec exclude_loop :: "combo list \<Rightarrow> (resolved_entry \<times> span) list \<Rightarrow> bool list \<times> lint list \<Rightarrow>
    matrix_error + bool list \<times> lint list" where
  "exclude_loop product [] st = Inr st"
| "exclude_loop product (ex # exs) st =
    (if fst ex = [] then Inl (EmptyExcludeEntry (snd ex))
     else let removed = map (\<lambda>(s, combo). s \<and> matches_exclude (fst ex) combo) (zip (fst st) product)
       in exclude_loop product exs
         (map (\<lambda>(s, r). s \<and> \<not> r) (zip (fst st) removed),
          if list_ex id removed then snd st else snd st @ [dead_exclude (snd ex)]))"

definition fits :: "ustr list \<Rightarrow> resolved_entry \<Rightarrow> combo \<Rightarrow> bool" where
  "fits original_keys entry combo =
     list_all (\<lambda>kv. fst kv \<in> set original_keys \<longrightarrow> has_value combo kv) entry"

definition insert_all :: "resolved_entry \<Rightarrow> combo \<Rightarrow> combo" where
  "insert_all entry combo = fold (\<lambda>(k, v). im_insert k v) entry combo"

primrec include_loop :: "ustr list \<Rightarrow> nat \<Rightarrow> span \<Rightarrow> (nat \<times> resolved_entry \<times> span) list \<Rightarrow>
    matrix_leg list \<times> matrix_leg list \<Rightarrow> matrix_error + matrix_leg list \<times> matrix_leg list" where
  "include_loop keys cap sp [] st = Inr st"
| "include_loop keys cap sp (inc # incs) st =
    (let entry = fst (snd inc); legs = fst st; standalone = snd st;
         legs' = map (\<lambda>leg. if fits keys entry (leg_values leg)
            then leg\<lparr>leg_values := insert_all entry (leg_values leg)\<rparr> else leg) legs
     in if list_ex (\<lambda>leg. fits keys entry (leg_values leg)) legs
        then include_loop keys cap sp incs (legs', standalone)
        else case Option.bind (checked_add (length legs) (length standalone)) (\<lambda>n. checked_add n 1) of
          None \<Rightarrow> Inl (CardinalityOverflow cap sp)
        | Some count \<Rightarrow>
           (if cap < count then Inl (TooManyLegs count cap sp)
            else include_loop keys cap sp incs (legs', standalone @
              [\<lparr>leg_index = 0, leg_values = insert_all entry [], leg_origin = Include (fst inc)\<rparr>])))"

definition run_algorithm :: "axis list \<Rightarrow> (nat \<times> resolved_entry \<times> span) list \<Rightarrow>
    (resolved_entry \<times> span) list \<Rightarrow> nat \<Rightarrow> span \<Rightarrow> matrix_error + matrix_leg list \<times> lint list" where
  "run_algorithm axes include exclude cap sp =
    rbind (checked_product_cardinality (map (length \<circ> snd) axes) cap sp) (\<lambda>cardinality.
    rbind (if cardinality = 0 then Inr [] else product_loop cap sp axes [[]]) (\<lambda>product.
    rbind (exclude_loop product exclude (replicate (length product) True, [])) (\<lambda>(surviving, lints).
    let legs = map (\<lambda>(_, combo). \<lparr>leg_index = 0, leg_values = combo, leg_origin = Product\<rparr>)
          (filter fst (zip surviving product)) in
    rbind (include_loop (map fst axes) cap sp include (legs, [])) (\<lambda>(legs, standalone).
      Inr (map (\<lambda>(i, leg). leg\<lparr>leg_index := i\<rparr>) (enumerate 0 (legs @ standalone)), lints)))))"

section \<open>Matrices from expression values\<close>

definition value_kind_name :: "expr_value \<Rightarrow> string" where
  "value_kind_name v = (case kind v of
     KNull \<Rightarrow> ''null'' | KBoolean \<Rightarrow> ''boolean'' | KNumber \<Rightarrow> ''number''
   | KString \<Rightarrow> ''string'' | KArray \<Rightarrow> ''array'' | KObject \<Rightarrow> ''object'')"

fun expr_value_to_matrix_value :: "expr_value \<Rightarrow> matrix_value" where
  "expr_value_to_matrix_value VNull = MNull"
| "expr_value_to_matrix_value (VBool b) = MBool b"
| "expr_value_to_matrix_value (VNumber n) = MNumber n"
| "expr_value_to_matrix_value (VString s) = MString s"
| "expr_value_to_matrix_value (VArray _ items _) = MSequence (map expr_value_to_matrix_value items)"
| "expr_value_to_matrix_value (VObject _ entries _ _) =
     MMapping (insert_all (map (\<lambda>(k, v). (k, expr_value_to_matrix_value v)) entries) [])"

definition entry_of_item :: "string \<Rightarrow> span \<Rightarrow> nat \<times> expr_value \<Rightarrow> matrix_error + nat \<times> resolved_entry \<times> span" where
  "entry_of_item field sp iv = (case snd iv of
     VObject _ entries _ _ \<Rightarrow> Inr (fst iv, map (\<lambda>(k, v). (k, expr_value_to_matrix_value v)) entries, sp)
   | v \<Rightarrow> Inl (ExpressionEntryNotObject field (fst iv) (value_kind_name v) sp))"

definition value_to_matrix_entries :: "expr_value \<Rightarrow> string \<Rightarrow> span \<Rightarrow>
    matrix_error + (nat \<times> resolved_entry \<times> span) list" where
  "value_to_matrix_entries v field sp = (case v of
     VArray _ items _ \<Rightarrow> rmap (entry_of_item field sp) (enumerate 0 items)
   | _ \<Rightarrow> Inl (ExpressionFieldNotArray (lit field) (value_kind_name v) sp))"

record matrix_parts =
  axes_of :: "axis list"
  include_of :: "(nat \<times> resolved_entry \<times> span) list"
  exclude_of :: "(resolved_entry \<times> span) list"

primrec split_fields :: "span \<Rightarrow> (ustr \<times> expr_value) list \<Rightarrow> matrix_parts \<Rightarrow> matrix_error + matrix_parts" where
  "split_fields sp [] parts = Inr parts"
| "split_fields sp (kv # kvs) parts =
    rbind (if eq_ignore_ascii_case (fst kv) (lit ''include'')
        then rbind (value_to_matrix_entries (snd kv) ''include'' sp) (\<lambda>inc. Inr (parts\<lparr>include_of := inc\<rparr>))
      else if eq_ignore_ascii_case (fst kv) (lit ''exclude'')
        then rbind (value_to_matrix_entries (snd kv) ''exclude'' sp) (\<lambda>exc.
          Inr (parts\<lparr>exclude_of := map snd exc\<rparr>))
      else case snd kv of
          VArray _ items _ \<Rightarrow> Inr (parts\<lparr>axes_of := axes_of parts @ [(fst kv, map expr_value_to_matrix_value items)]\<rparr>)
        | v \<Rightarrow> Inl (ExpressionFieldNotArray (fst kv) (value_kind_name v) sp))
      (split_fields sp kvs)"

definition expand_expression_value :: "expr_value \<Rightarrow> span \<Rightarrow> nat \<Rightarrow> matrix_error + matrix_leg list \<times> lint list" where
  "expand_expression_value v sp cap = (case v of
     VObject _ entries _ _ \<Rightarrow>
       rbind (split_fields sp entries \<lparr>axes_of = [], include_of = [], exclude_of = []\<rparr>) (\<lambda>parts.
         run_algorithm (axes_of parts) (include_of parts) (exclude_of parts) cap sp)
   | _ \<Rightarrow> Inl (ExpressionNotMatrixShaped sp))"

section \<open>Deep equality\<close>

text \<open>Every mapping inside a value has distinct keys, as an \<open>IndexMap\<close> guarantees.\<close>

fun wf_mv :: "matrix_value \<Rightarrow> bool" where
  "wf_mv (MSequence xs) = list_all wf_mv xs"
| "wf_mv (MMapping m) = (distinct (im_keys m) \<and> list_all (\<lambda>(k, v). wf_mv v) m)"
| "wf_mv _ = True"

lemma mv_eq_sequence: "mv_eq (MSequence xs) (MSequence ys) = list_all2 mv_eq xs ys"
  by (simp add: list_all2_iff list_all_iff case_prod_beta)

lemma mv_eq_mapping:
  "mv_eq (MMapping m) (MMapping n) \<longleftrightarrow> length m = length n \<and>
     (\<forall>k v. (k, v) \<in> set m \<longrightarrow> (\<exists>w. im_get n k = Some w \<and> mv_eq v w))"
proof -
  have "(case im_get n k of None \<Rightarrow> False | Some w \<Rightarrow> mv_eq v w) \<longleftrightarrow> (\<exists>w. im_get n k = Some w \<and> mv_eq v w)" for k v
    by (cases "im_get n k") simp_all
  then show ?thesis by (simp add: list_all_iff Ball_def)
qed

lemma mv_eq_trans: "mv_eq a b \<Longrightarrow> mv_eq b c \<Longrightarrow> mv_eq a c"
proof (induction a arbitrary: b c)
  case (MSequence xs)
  from MSequence.prems obtain ys zs where [simp]: "b = MSequence ys" "c = MSequence zs"
    by (cases b; cases c) auto
  show ?case
    using MSequence by (auto simp: mv_eq_sequence list_all2_conv_all_nth simp del: mv_eq.simps)
next
  case (MMapping m)
  from MMapping.prems obtain n q where [simp]: "b = MMapping n" "c = MMapping q"
    by (cases b; cases c) auto
  show ?case unfolding \<open>c = MMapping q\<close> mv_eq_mapping
  proof (intro conjI allI impI)
    show "length m = length q"
      using MMapping.prems by (simp add: mv_eq_mapping del: mv_eq.simps)
  next
    fix k v
    assume kv: "(k, v) \<in> set m"
    then obtain w where w: "im_get n k = Some w" "mv_eq v w"
      using MMapping.prems(1) by (auto simp: mv_eq_mapping simp del: mv_eq.simps)
    then obtain x where "im_get q k = Some x" "mv_eq w x"
      using MMapping.prems(2) map_of_SomeD [of n k w]
      by (auto simp: mv_eq_mapping im_get_def simp del: mv_eq.simps)
    then show "\<exists>x. im_get q k = Some x \<and> mv_eq v x"
      using MMapping.IH [OF kv, of v w x] w by (simp add: snds.intros)
  qed
next
  case (MNumber x)
  then obtain y z where "b = MNumber y" "c = MNumber z" "f64_eq x y" "f64_eq y z"
    by (cases b; cases c) simp_all
  then show ?case by (simp add: f64_eq_trans [of x y z])
qed (case_tac b; case_tac c; simp)+

lemma mapping_keys_eq:
  assumes "mv_eq (MMapping m) (MMapping n)" "distinct (im_keys m)"
  shows "set (im_keys m) = set (im_keys n)"
proof -
  have "k \<in> set (im_keys n)" if kv: "(k, v) \<in> set m" for k v
    using assms(1) kv im_get_keys [of n k] unfolding mv_eq_mapping by fastforce
  then have "set (im_keys m) \<subseteq> set (im_keys n)"
    by (auto simp: im_keys_def)
  moreover have "card (set (im_keys n)) \<le> card (set (im_keys m))"
    using assms card_length [of "im_keys n"] distinct_card [OF assms(2)]
    by (simp add: mv_eq_mapping im_keys_def del: mv_eq.simps)
  ultimately show ?thesis
    by (simp add: card_seteq)
qed

lemma mv_eq_sym: "wf_mv a \<Longrightarrow> wf_mv b \<Longrightarrow> mv_eq a b \<Longrightarrow> mv_eq b a"
proof (induction a arbitrary: b)
  case (MSequence xs)
  from MSequence.prems(3) obtain ys where [simp]: "b = MSequence ys" by (cases b) auto
  show ?case
    using MSequence
    by (auto simp: mv_eq_sequence list_all2_conv_all_nth list_all_length simp del: mv_eq.simps)
next
  case (MMapping m)
  from MMapping.prems(3) obtain n where [simp]: "b = MMapping n" by (cases b) auto
  have keys: "set (im_keys m) = set (im_keys n)"
    using MMapping.prems mapping_keys_eq by (simp del: mv_eq.simps)
  show ?case unfolding \<open>b = MMapping n\<close> mv_eq_mapping
  proof (intro conjI allI impI)
    show "length n = length m"
      using MMapping.prems by (simp add: mv_eq_mapping del: mv_eq.simps)
  next
    fix k w
    assume kw: "(k, w) \<in> set n"
    then have "k \<in> set (im_keys m)"
      using keys by (force simp: im_keys_def)
    then obtain v where v: "im_get m k = Some v"
      using im_get_keys [of m k] by auto
    then have kv: "(k, v) \<in> set m"
      by (auto simp: im_get_def dest: map_of_SomeD)
    have "im_get n k = Some w"
      using kw MMapping.prems(2) by (simp add: im_get_def im_keys_def)
    then have "mv_eq v w"
      using kv MMapping.prems(3) mv_eq_mapping [of m n] by fastforce
    moreover have "wf_mv v" "wf_mv w"
      using MMapping.prems kv kw by (auto simp: list_all_iff)
    ultimately show "\<exists>x. im_get m k = Some x \<and> mv_eq w x"
      using MMapping.IH [OF kv, of v w] v by (simp add: snds.intros)
  qed
next
  case (MNumber x)
  then show ?case by (cases b) (simp_all add: f64_eq_sym)
qed (case_tac b; simp)+

section \<open>The reference expansion\<close>

text \<open>
  The cartesian product as a list of assignments, first axis outermost; an include entry
  extends every combination whose own values it agrees with, and an entry that agrees with
  none becomes a leg of its own.
\<close>

definition cartesian :: "axis list \<Rightarrow> combo list" where
  "cartesian axes = (if axes = [] then [] else map (zip (map fst axes)) (product_lists (map snd axes)))"

definition excluded :: "(resolved_entry \<times> span) list \<Rightarrow> combo \<Rightarrow> bool" where
  "excluded exclude combo = list_ex (\<lambda>ex. matches_exclude (fst ex) combo) exclude"

primrec dead_excludes :: "(resolved_entry \<times> span) list \<Rightarrow> combo list \<Rightarrow> lint list" where
  "dead_excludes [] combos = []"
| "dead_excludes (ex # exs) combos =
     (if list_ex (matches_exclude (fst ex)) combos then [] else [dead_exclude (snd ex)]) @
     dead_excludes exs (filter (\<lambda>c. \<not> matches_exclude (fst ex) c) combos)"

definition extended :: "ustr list \<Rightarrow> (nat \<times> resolved_entry \<times> span) list \<Rightarrow> combo \<Rightarrow> combo" where
  "extended keys include combo =
     insert_all (concat (map (fst \<circ> snd) (filter (\<lambda>inc. fits keys (fst (snd inc)) combo) include))) combo"

definition unfitted :: "ustr list \<Rightarrow> combo list \<Rightarrow> (nat \<times> resolved_entry \<times> span) list \<Rightarrow>
    (nat \<times> resolved_entry \<times> span) list" where
  "unfitted keys combos include = filter (\<lambda>inc. \<not> list_ex (fits keys (fst (snd inc))) combos) include"

definition product_leg :: "combo \<Rightarrow> matrix_leg" where
  "product_leg combo = \<lparr>leg_index = 0, leg_values = combo, leg_origin = Product\<rparr>"

definition include_leg :: "nat \<times> resolved_entry \<times> span \<Rightarrow> matrix_leg" where
  "include_leg inc = \<lparr>leg_index = 0, leg_values = insert_all (fst (snd inc)) [], leg_origin = Include (fst inc)\<rparr>"

definition numbered :: "matrix_leg list \<Rightarrow> matrix_leg list" where
  "numbered legs = map (\<lambda>(i, leg). leg\<lparr>leg_index := i\<rparr>) (enumerate 0 legs)"

definition cardinality :: "axis list \<Rightarrow> nat" where
  "cardinality axes = (if axes = [] then 0 else prod_list (map (length \<circ> snd) axes))"

definition reference_expansion :: "axis list \<Rightarrow> (nat \<times> resolved_entry \<times> span) list \<Rightarrow>
    (resolved_entry \<times> span) list \<Rightarrow> nat \<Rightarrow> span \<Rightarrow> matrix_error + matrix_leg list \<times> lint list" where
  "reference_expansion axes include exclude cap sp =
    (let keys = map fst axes;
         combos = filter (\<lambda>c. \<not> excluded exclude c) (cartesian axes);
         created = unfitted keys combos include
     in if usize_max < cardinality axes then Inl (CardinalityOverflow cap sp)
        else if cap < cardinality axes then Inl (TooManyLegs (cardinality axes) cap sp)
        else case find (\<lambda>ex. fst ex = []) exclude of
          Some ex \<Rightarrow> Inl (EmptyExcludeEntry (snd ex))
        | None \<Rightarrow>
           (if cap < length combos + length created then Inl (TooManyLegs (cap + 1) cap sp)
            else Inr (numbered (map (product_leg \<circ> extended keys include) combos @ map include_leg created),
                      dead_excludes exclude (cartesian axes))))"

subsection \<open>The product\<close>

lemma try_product_eq:
  "0 \<notin> set ns \<Longrightarrow> 0 < m \<Longrightarrow> m \<le> usize_max \<Longrightarrow>
   try_product ns m = (if m * prod_list ns \<le> usize_max then Some (m * prod_list ns) else None)"
proof (induction ns arbitrary: m)
  case (Cons n ns)
  have "1 \<le> prod_list ns"
    using Cons.prems(1) by (induction ns) (auto simp: Suc_le_eq)
  then have "m * n \<le> m * (n * prod_list ns)" by simp
  then have "m * n \<le> usize_max" if "m * (n * prod_list ns) \<le> usize_max"
    using that by (rule order_trans)
  then show ?case
    using Cons by (auto simp: checked_mul_def mult.assoc)
qed simp

lemma checked_product_cardinality_eq:
  "checked_product_cardinality (map (length \<circ> snd) axes) cap sp =
     (if usize_max < cardinality axes then Inl (CardinalityOverflow cap sp)
      else if cap < cardinality axes then Inl (TooManyLegs (cardinality axes) cap sp)
      else Inr (cardinality axes))"
proof -
  let ?ns = "map (length \<circ> snd) axes"
  have "0 \<in> set ?ns \<Longrightarrow> prod_list ?ns = 0"
    by (simp add: prod_list_zero_iff)
  moreover have "try_product ?ns 1 = (if prod_list ?ns \<le> usize_max then Some (prod_list ?ns) else None)"
    if "0 \<notin> set ?ns"
    using try_product_eq [OF that, of 1] by (simp add: usize_max_def)
  ultimately show ?thesis
    by (auto simp: checked_product_cardinality_def cardinality_def simp del: set_map)
qed

lemma concat_concat_map: "concat (concat (map g xs)) = concat (map (\<lambda>x. concat (g x)) xs)"
  by (induction xs) auto

lemma product_loop_eq:
  assumes "distinct (map fst axes)" "\<forall>c \<in> set combos. set (im_keys c) \<inter> set (map fst axes) = {}"
    and "length combos * prod_list (map (length \<circ> snd) axes) \<le> usize_max"
    and "0 \<notin> set (map (length \<circ> snd) axes)"
  shows "product_loop cap sp axes combos =
    Inr (concat (map (\<lambda>c. map (\<lambda>vs. c @ zip (map fst axes) vs) (product_lists (map snd axes))) combos))"
  using assms
proof (induction axes arbitrary: combos)
  case Nil
  then show ?case by (simp add: concat_map_singleton)
next
  case (Cons a axes)
  let ?next = "concat (map (\<lambda>c. map (\<lambda>v. im_insert (fst a) v c) (snd a)) combos)"
  let ?next' = "concat (map (\<lambda>c. map (\<lambda>v. c @ [(fst a, v)]) (snd a)) combos)"
  have same: "?next = ?next'"
    using Cons.prems(2) by (auto intro!: arg_cong [of _ _ concat] map_cong simp: im_insert_fresh)
  have size: "length ?next' = length combos * length (snd a)"
    by (induction combos) (auto simp: algebra_simps)
  have "1 \<le> prod_list (map (length \<circ> snd) axes)"
    using Cons.prems(4) by (induction axes) (auto simp: Suc_le_eq)
  then have "length combos * length (snd a) \<le> length combos * prod_list (map (length \<circ> snd) (a # axes))"
    by simp
  then have "length combos * length (snd a) \<le> usize_max"
    using Cons.prems(3) by (rule order_trans)
  then have "product_loop cap sp (a # axes) combos = product_loop cap sp axes ?next'"
    by (simp add: checked_mul_def same)
  also have "\<dots> = Inr (concat (map (\<lambda>c. map (\<lambda>vs. c @ zip (map fst axes) vs) (product_lists (map snd axes))) ?next'))"
    using Cons.prems by (intro Cons.IH) (auto simp: size im_keys_def mult.assoc)
  also have "\<dots> = Inr (concat (map (\<lambda>c. map (\<lambda>vs. c @ zip (map fst (a # axes)) vs)
      (product_lists (map snd (a # axes)))) combos))"
    by (simp add: map_concat comp_def concat_concat_map)
  finally show ?case .
qed

lemma product_eq:
  assumes "distinct (map fst axes)" "cardinality axes \<le> usize_max"
  shows "(if cardinality axes = 0 then Inr [] else product_loop cap sp axes [[]]) = Inr (cartesian axes)"
proof (cases "cardinality axes = 0")
  case True
  have empty_axis: "[] \<in> set xss \<Longrightarrow> product_lists xss = []" for xss :: "matrix_value list list"
    by (induction xss) auto
  have "axes = [] \<or> [] \<in> set (map snd axes)"
    using True by (force simp: cardinality_def prod_list_zero_iff split: if_splits)
  then show ?thesis
    using True empty_axis by (auto simp: cartesian_def simp del: set_map)
next
  case False
  then have "0 \<notin> set (map (length \<circ> snd) axes)"
    using prod_list_zero_iff [of "map (length \<circ> snd) axes"]
    by (simp add: cardinality_def del: set_map split: if_splits)
  then show ?thesis
    using False assms product_loop_eq [of axes "[[]]" cap sp]
    by (simp add: cartesian_def cardinality_def del: set_map split: if_splits)
qed

lemma length_cartesian: "length (cartesian axes) = cardinality axes"
proof -
  have "length (product_lists xss) = prod_list (map length xss)" for xss :: "matrix_value list list"
    by (induction xss) (auto simp: length_concat comp_def sum_list_triv)
  then show ?thesis by (simp add: cartesian_def cardinality_def)
qed

subsection \<open>The exclude phase\<close>

lemma exclude_loop_eq:
  "exclude_loop product exclude (map p product, lints) =
    (case find (\<lambda>ex. fst ex = []) exclude of
       Some ex \<Rightarrow> Inl (EmptyExcludeEntry (snd ex))
     | None \<Rightarrow> Inr (map (\<lambda>c. p c \<and> \<not> excluded exclude c) product,
                   lints @ dead_excludes exclude (filter p product)))"
proof (induction exclude arbitrary: p lints)
  case Nil
  then show ?case by (simp add: excluded_def)
next
  case (Cons ex exclude)
  have zips: "map (\<lambda>(s, c). s \<and> q c) (zip (map p product) product) = map (\<lambda>c. p c \<and> q c) product"
    "map (\<lambda>(s, r). s \<and> \<not> r) (zip (map p product) (map (\<lambda>c. p c \<and> q c) product)) =
       map (\<lambda>c. p c \<and> \<not> q c) product" for q
    by (induction product) auto
  have any: "list_ex id (map (\<lambda>c. p c \<and> q c) product) = list_ex q (filter p product)" for q
    by (auto simp: list_ex_iff)
  show ?case
    by (auto simp: Let_def zips any Cons.IH excluded_def conj_ac split: option.split
        intro!: arg_cong [of _ _ "dead_excludes exclude"] filter_cong)
qed

lemma survivors_eq: "map f (filter fst (zip (map p xs) xs)) = map (\<lambda>x. f (p x, x)) (filter p xs)"
  by (induction xs) auto

subsection \<open>The include phase\<close>

lemma insert_all_eq: "insert_all = im.put_all"
  by (intro ext) (simp add: insert_all_def im.put_all_def)

lemma insert_all_append: "insert_all (es @ fs) c = insert_all fs (insert_all es c)"
  by (simp add: insert_all_eq im.put_all_append)

text \<open>What an extended leg still has of its combination: equal values on the axes.\<close>

definition same_axes :: "ustr list \<Rightarrow> combo \<Rightarrow> combo \<Rightarrow> bool" where
  "same_axes keys c c' \<longleftrightarrow> (\<forall>k \<in> set keys. \<exists>v w. im_get c k = Some v \<and> im_get c' k = Some w \<and>
     wf_mv v \<and> wf_mv w \<and> (w = v \<or> mv_eq v w))"

definition wf_entry :: "resolved_entry \<Rightarrow> bool" where
  "wf_entry entry = list_all (wf_mv \<circ> snd) entry"

lemma same_axes_has_value:
  assumes "same_axes keys c c'" "fst kv \<in> set keys" "wf_mv (snd kv)"
  shows "has_value c' kv = has_value c kv"
proof -
  obtain v w where vw: "im_get c (fst kv) = Some v" "im_get c' (fst kv) = Some w" "wf_mv v" "wf_mv w"
      "w = v \<or> mv_eq v w"
    using assms(1,2) unfolding same_axes_def by blast
  then have "mv_eq w (snd kv) = mv_eq v (snd kv)"
    using mv_eq_trans mv_eq_sym by blast
  then show ?thesis by (simp add: has_value_def vw)
qed

lemma same_axes_fits:
  "same_axes keys c c' \<Longrightarrow> wf_entry entry \<Longrightarrow> fits keys entry c' = fits keys entry c"
  using same_axes_has_value unfolding fits_def wf_entry_def list_all_iff by fastforce

lemma same_axes_insert_all:
  assumes "same_axes keys c c'" "wf_entry entry" "fits keys entry c'"
  shows "same_axes keys c (insert_all entry c')"
  unfolding same_axes_def
proof
  fix k
  assume k: "k \<in> set keys"
  then obtain v w where vw: "im_get c k = Some v" "im_get c' k = Some w" "wf_mv v" "wf_mv w" "w = v \<or> mv_eq v w"
    using assms(1) unfolding same_axes_def by blast
  show "\<exists>v w. im_get c k = Some v \<and> im_get (insert_all entry c') k = Some w \<and>
     wf_mv v \<and> wf_mv w \<and> (w = v \<or> mv_eq v w)"
  proof (cases "map_of (rev entry) k")
    case None
    then show ?thesis using vw by (simp add: insert_all_eq im.get_put_all)
  next
    case (Some x)
    then have kx: "(k, x) \<in> set entry" using map_of_SomeD by fastforce
    have "mv_eq w x"
      using assms(3) kx k vw by (fastforce simp: fits_def list_all_iff has_value_def)
    then have "mv_eq v x" using vw mv_eq_trans by blast
    moreover have "wf_mv x" using assms(2) kx by (fastforce simp: wf_entry_def list_all_iff)
    ultimately show ?thesis using Some vw by (simp add: insert_all_eq im.get_put_all)
  qed
qed

lemma extended_snoc:
  "extended keys (incs @ [inc]) c =
     (if fits keys (fst (snd inc)) c then insert_all (fst (snd inc)) (extended keys incs c)
      else extended keys incs c)"
  by (simp add: extended_def insert_all_append) (simp add: insert_all_def)

lemma extended_same_axes:
  assumes "same_axes keys c c" "\<forall>inc \<in> set incs. wf_entry (fst (snd inc))"
  shows "same_axes keys c (extended keys incs c)"
  using assms(2)
proof (induction incs rule: rev_induct)
  case Nil
  then show ?case using assms(1) by (simp add: extended_def insert_all_def)
next
  case (snoc inc incs)
  then show ?case
    by (auto simp: extended_snoc same_axes_fits intro!: same_axes_insert_all)
qed

lemma include_loop_eq:
  assumes "\<forall>c \<in> set combos. same_axes keys c c" "\<forall>inc \<in> set (past @ incs). wf_entry (fst (snd inc))"
    and "length combos + length created \<le> cap" "cap < usize_max"
  shows "include_loop keys cap sp incs (map (product_leg \<circ> extended keys past) combos, created) =
    (if cap < length combos + length created + length (unfitted keys combos incs)
     then Inl (TooManyLegs (cap + 1) cap sp)
     else Inr (map (product_leg \<circ> extended keys (past @ incs)) combos,
               created @ map include_leg (unfitted keys combos incs)))"
  using assms(2,3)
proof (induction incs arbitrary: past created)
  case Nil
  then show ?case by (simp add: unfitted_def)
next
  case (Cons inc incs)
  let ?entry = "fst (snd inc)"
  have fits: "fits keys ?entry (extended keys past c) = fits keys ?entry c" if "c \<in> set combos" for c
    using that Cons.prems(1) assms(1) by (auto intro!: same_axes_fits extended_same_axes)
  have legs: "map (\<lambda>leg. if fits keys ?entry (leg_values leg)
        then leg\<lparr>leg_values := insert_all ?entry (leg_values leg)\<rparr> else leg)
      (map (product_leg \<circ> extended keys past) combos) =
    map (product_leg \<circ> extended keys (past @ [inc])) combos"
    using fits by (auto simp: product_leg_def extended_snoc)
  have any: "list_ex (\<lambda>leg. fits keys ?entry (leg_values leg)) (map (product_leg \<circ> extended keys past) combos) =
      list_ex (fits keys ?entry) combos"
    using fits by (auto simp: list_ex_iff product_leg_def)
  have IH: "length combos + length created' \<le> cap \<Longrightarrow>
      include_loop keys cap sp incs (map (product_leg \<circ> extended keys (past @ [inc])) combos, created') =
      (if cap < length combos + length created' + length (unfitted keys combos incs)
       then Inl (TooManyLegs (cap + 1) cap sp)
       else Inr (map (product_leg \<circ> extended keys (past @ inc # incs)) combos,
                 created' @ map include_leg (unfitted keys combos incs)))" for created'
    using Cons.IH [of "past @ [inc]" created'] Cons.prems(1) by (simp only: append_assoc append_Cons append_Nil)
  have count: "Option.bind (checked_add (length combos) (length created)) (\<lambda>n. checked_add n 1) =
      Some (length combos + length created + 1)"
    using Cons.prems(2) assms(4) by (simp add: checked_add_def)
  have step: "include_loop keys cap sp (inc # incs) (map (product_leg \<circ> extended keys past) combos, created) =
    (if list_ex (fits keys ?entry) combos
     then include_loop keys cap sp incs (map (product_leg \<circ> extended keys (past @ [inc])) combos, created)
     else if cap < length combos + length created + 1
     then Inl (TooManyLegs (length combos + length created + 1) cap sp)
     else include_loop keys cap sp incs
       (map (product_leg \<circ> extended keys (past @ [inc])) combos, created @ [include_leg inc]))"
    by (simp only: include_loop.simps Let_def fst_conv snd_conv legs any length_map count option.case
        include_leg_def)
  show ?case
    unfolding step using Cons.prems(2) IH [of created] IH [of "created @ [include_leg inc]"]
    by (auto simp: unfitted_def simp del: include_loop.simps)
qed

subsection \<open>The whole expansion\<close>

definition wf_axes :: "axis list \<Rightarrow> bool" where
  "wf_axes axes \<longleftrightarrow> distinct (map fst axes) \<and> list_all (\<lambda>a. list_all wf_mv (snd a)) axes"

lemma im_get_zip:
  assumes "distinct ks" "length ks = length vs" "i < length ks"
  shows "im_get (zip ks vs) (ks ! i) = Some (vs ! i)"
  using assms by (simp add: im_get_def map_of_zip_nth)

lemma cartesian_same_axes:
  assumes "wf_axes axes" "c \<in> set (cartesian axes)"
  shows "same_axes (map fst axes) c c"
proof -
  obtain vs where vs: "vs \<in> set (product_lists (map snd axes))" "c = zip (map fst axes) vs"
    using assms(2) by (auto simp: cartesian_def split: if_splits)
  then have member: "list_all2 (\<lambda>v xs. v \<in> set xs) vs (map snd axes)"
    by (simp add: product_lists_set)
  have "\<exists>v. im_get c k = Some v \<and> wf_mv v" if k: "k \<in> set (map fst axes)" for k
  proof -
    obtain i where i: "i < length axes" "fst (axes ! i) = k"
      using k by (auto simp: in_set_conv_nth [of _ axes])
    have "length vs = length axes"
      using list_all2_lengthD [OF member] by simp
    then have "im_get c k = Some (vs ! i)"
      using im_get_zip [of "map fst axes" vs i] assms(1) i by (simp add: vs(2) wf_axes_def)
    moreover have "vs ! i \<in> set (snd (axes ! i))"
      using member i by (auto simp: list_all2_conv_all_nth)
    ultimately show ?thesis
      using assms(1) i by (auto simp: wf_axes_def list_all_iff)
  qed
  then show ?thesis unfolding same_axes_def by blast
qed

lemma numbered_member:
  "leg \<in> set (numbered legs) \<Longrightarrow>
   \<exists>l \<in> set legs. leg_values leg = leg_values l \<and> leg_origin leg = leg_origin l"
  by (force simp: numbered_def in_set_enumerate_eq)

lemma numbered_index: "map leg_index (numbered legs) = [0..<length legs]" "length (numbered legs) = length legs"
  by (simp_all add: numbered_def comp_def case_prod_beta enumerate_eq_zip)

lemma run_algorithm_reference:
  assumes "wf_axes axes" "\<forall>inc \<in> set include. wf_entry (fst (snd inc))" "cap < usize_max"
  shows "run_algorithm axes include exclude cap sp = reference_expansion axes include exclude cap sp"
proof (cases "usize_max < cardinality axes \<or> cap < cardinality axes")
  case True
  then show ?thesis
    by (auto simp: run_algorithm_def reference_expansion_def checked_product_cardinality_eq Let_def)
next
  case False
  let ?combos = "filter (\<lambda>c. \<not> excluded exclude c) (cartesian axes)"
  let ?keys = "map fst axes"
  have product: "(if cardinality axes = 0 then Inr [] else product_loop cap sp axes [[]]) = Inr (cartesian axes)"
    using False assms(1) by (intro product_eq) (auto simp: wf_axes_def)
  have exclude: "exclude_loop (cartesian axes) exclude (replicate (length (cartesian axes)) True, []) =
    (case find (\<lambda>ex. fst ex = []) exclude of
       Some ex \<Rightarrow> Inl (EmptyExcludeEntry (snd ex))
     | None \<Rightarrow> Inr (map (\<lambda>c. \<not> excluded exclude c) (cartesian axes), dead_excludes exclude (cartesian axes)))"
    using exclude_loop_eq [of "cartesian axes" exclude "\<lambda>_. True" "[]"]
    by (simp add: map_replicate_const split: option.splits)
  have legs: "map (\<lambda>(_, combo). \<lparr>leg_index = 0, leg_values = combo, leg_origin = Product\<rparr>)
      (filter fst (zip (map (\<lambda>c. \<not> excluded exclude c) (cartesian axes)) (cartesian axes))) =
    map (product_leg \<circ> extended ?keys []) ?combos"
    by (simp add: survivors_eq product_leg_def extended_def insert_all_def)
  have "length ?combos \<le> cap"
    using False length_filter_le [of _ "cartesian axes"] by (simp add: length_cartesian) (meson le_trans not_le)
  then have "include_loop ?keys cap sp include (map (product_leg \<circ> extended ?keys []) ?combos, []) =
    (if cap < length ?combos + length (unfitted ?keys ?combos include)
     then Inl (TooManyLegs (cap + 1) cap sp)
     else Inr (map (product_leg \<circ> extended ?keys include) ?combos,
               map include_leg (unfitted ?keys ?combos include)))"
    using include_loop_eq [of ?combos ?keys "[]" "include" "[]" cap sp] assms cartesian_same_axes
    by simp
  then show ?thesis
    using False
    by (simp add: run_algorithm_def reference_expansion_def checked_product_cardinality_eq Let_def product
        exclude legs numbered_def split: option.split)
qed

text \<open>
  C16: matrix expansion is exactly the documented product, exclude and include algorithm. For
  axes with distinct names the four loops return what the reference definition returns: the
  cartesian product in order with the first axis outermost, less the combinations an exclude
  entry matches; each remaining combination extended by every include entry that agrees with
  its own axis values, whatever earlier entries added to it; one further leg per include
  entry that agrees with none; all numbered in order. It fails exactly when the product or
  the legs exceed the limit, or an exclude entry is empty.
\<close>

theorem matrix_expansion_reference:
  assumes "wf_axes axes" "\<forall>inc \<in> set include. wf_entry (fst (snd inc))" "cap < usize_max"
  shows "run_algorithm axes include exclude cap sp = reference_expansion axes include exclude cap sp"
  using assms by (rule run_algorithm_reference)

definition sample_axes :: "axis list" where
  "sample_axes = [(lit ''os'', [MString (lit ''a''), MString (lit ''b'')]), (lit ''v'', [MBool True, MBool False])]"

definition sample_include :: "(nat \<times> resolved_entry \<times> span) list" where
  "sample_include =
    [(0, [(lit ''os'', MString (lit ''a'')), (lit ''x'', MNull)], sample_span),
     (1, [(lit ''os'', MString (lit ''c''))], sample_span)]"

theorem matrix_expansion_reference_witness:
  "run_algorithm sample_axes sample_include [] 256 sample_span = reference_expansion sample_axes sample_include [] 256 sample_span \<and>
   map_sum id (\<lambda>(legs, _). map (map fst \<circ> leg_values) legs)
     (run_algorithm sample_axes sample_include [] 256 sample_span) =
   Inr [[lit ''os'', lit ''v'', lit ''x''], [lit ''os'', lit ''v'', lit ''x''], [lit ''os'', lit ''v''],
        [lit ''os'', lit ''v''], [lit ''os'']]"
proof
  show "run_algorithm sample_axes sample_include [] 256 sample_span = reference_expansion sample_axes sample_include [] 256 sample_span"
    by (rule matrix_expansion_reference)
       (simp_all add: sample_axes_def sample_include_def wf_axes_def wf_entry_def usize_max_def lit_def)
qed code_simp

text \<open>
  What every expanded matrix guarantees its job. There are at most as many legs as the
  limit allows, numbered from 0 in order, and every leg of the product still has, on every
  axis, a value equal to that of a combination no exclude entry matches: include entries add
  keys but never change an axis.
\<close>

lemma matrix_legs_keep_axes:
  assumes "wf_axes axes" "\<forall>inc \<in> set include. wf_entry (fst (snd inc))" "cap < usize_max"
    and "run_algorithm axes include exclude cap sp = Inr (legs, lints)"
  shows "length legs \<le> cap \<and> map leg_index legs = [0..<length legs] \<and>
    (\<forall>leg \<in> set legs. leg_origin leg = Product \<longrightarrow>
      (\<exists>c \<in> set (cartesian axes). \<not> excluded exclude c \<and> same_axes (map fst axes) c (leg_values leg)))"
proof -
  let ?combos = "filter (\<lambda>c. \<not> excluded exclude c) (cartesian axes)"
  let ?created = "unfitted (map fst axes) ?combos include"
  have "reference_expansion axes include exclude cap sp = Inr (legs, lints)"
    using run_algorithm_reference [OF assms(1-3)] assms(4) by metis
  then have legs: "legs = numbered (map (product_leg \<circ> extended (map fst axes) include) ?combos @ map include_leg ?created)"
    and size: "length ?combos + length ?created \<le> cap"
    by (auto simp: reference_expansion_def Let_def split: if_splits option.splits)
  have "same_axes (map fst axes) c (extended (map fst axes) include c)" if "c \<in> set (cartesian axes)" for c
    using extended_same_axes [OF cartesian_same_axes [OF assms(1) that] assms(2)] .
  then have "\<exists>c \<in> set (cartesian axes). \<not> excluded exclude c \<and> same_axes (map fst axes) c (leg_values leg)"
    if "leg \<in> set legs" "leg_origin leg = Product" for leg
    using numbered_member [OF that(1) [unfolded legs]] that(2)
    by (auto simp: product_leg_def include_leg_def)
  then show ?thesis
    using size by (simp add: legs numbered_index)
qed

end
