(* ===== verification/Utf8.thy ===== *)
theory Utf8
  imports Rust_Text
begin

text \<open>
  UTF-8 as the Rust standard library has it: \<open>str::as_bytes\<close> encodes, and
  \<open>String::from_utf8_lossy\<close> decodes any byte sequence, replacing every maximal ill-formed
  part by U+FFFD. Decoding inverts encoding on every string of scalar values.
\<close>

section \<open>Encoding\<close>

definition utf8_char :: "uchar \<Rightarrow> nat list" where
  "utf8_char c =
    (if c < 128 then [c]
     else if c < 2048 then [192 + c div 64, 128 + c mod 64]
     else if c < 65536 then [224 + c div 4096, 128 + c div 64 mod 64, 128 + c mod 64]
     else [240 + c div 262144, 128 + c div 4096 mod 64, 128 + c div 64 mod 64, 128 + c mod 64])"

definition as_bytes :: "ustr \<Rightarrow> nat list" where
  "as_bytes s = concat (map utf8_char s)"

lemma as_bytes_simps [simp]:
  "as_bytes [] = []"
  "as_bytes (c # s) = utf8_char c @ as_bytes s"
  by (simp_all add: as_bytes_def)

lemma length_utf8_char: "length (utf8_char c) = len_utf8 c"
  by (simp add: utf8_char_def len_utf8_def)

lemma length_as_bytes: "length (as_bytes s) = str_len s"
  by (induction s) (simp_all add: length_utf8_char str_len_def)

section \<open>Lossy decoding\<close>

definition is_cont :: "nat \<Rightarrow> bool" where
  "is_cont b \<longleftrightarrow> 128 \<le> b \<and> b \<le> 191"

text \<open>The second byte a three- or four-byte sequence admits after its first byte.\<close>

definition second_ok :: "nat \<Rightarrow> nat \<Rightarrow> bool" where
  "second_ok b x \<longleftrightarrow> is_cont x \<and> (b = 224 \<longrightarrow> 160 \<le> x) \<and> (b = 237 \<longrightarrow> x \<le> 159)
     \<and> (b = 240 \<longrightarrow> 144 \<le> x) \<and> (b = 244 \<longrightarrow> x \<le> 143)"

text \<open>The next character and the number of bytes it takes.\<close>

fun utf8_next :: "nat list \<Rightarrow> uchar \<times> nat" where
  "utf8_next [] = (65533, 1)"
| "utf8_next (b # bs) =
    (if b < 128 then (b, 1)
     else if 194 \<le> b \<and> b \<le> 223 then
       (case bs of x # _ \<Rightarrow> if is_cont x then ((b - 192) * 64 + (x - 128), 2) else (65533, 1)
        | [] \<Rightarrow> (65533, 1))
     else if 224 \<le> b \<and> b \<le> 239 then
       (case bs of x # ys \<Rightarrow> if second_ok b x then
            (case ys of y # _ \<Rightarrow> if is_cont y
                 then ((b - 224) * 4096 + (x - 128) * 64 + (y - 128), 3) else (65533, 2)
             | [] \<Rightarrow> (65533, 2))
          else (65533, 1)
        | [] \<Rightarrow> (65533, 1))
     else if 240 \<le> b \<and> b \<le> 244 then
       (case bs of x # ys \<Rightarrow> if second_ok b x then
            (case ys of y # zs \<Rightarrow> if is_cont y then
                 (case zs of z # _ \<Rightarrow> if is_cont z
                      then ((b - 240) * 262144 + (x - 128) * 4096 + (y - 128) * 64 + (z - 128), 4)
                      else (65533, 3)
                  | [] \<Rightarrow> (65533, 3))
               else (65533, 2)
             | [] \<Rightarrow> (65533, 2))
          else (65533, 1)
        | [] \<Rightarrow> (65533, 1))
     else (65533, 1))"

lemma utf8_next_pos: "0 < snd (utf8_next bs)"
  by (induction bs rule: utf8_next.induct) (auto split: list.splits)

function from_utf8_lossy :: "nat list \<Rightarrow> ustr" where
  "from_utf8_lossy bs = (if bs = [] then [] else
     (let (c, n) = utf8_next bs in c # from_utf8_lossy (drop n bs)))"
  by pat_completeness auto
termination
proof (relation "measure length", goal_cases)
  case (2 bs x c n)
  then have "0 < n" using utf8_next_pos [of bs] by (metis snd_conv)
  with 2 show ?case by simp
qed simp

declare from_utf8_lossy.simps [simp del] utf8_next.simps [simp del]

lemma from_utf8_lossy_Nil [simp]: "from_utf8_lossy [] = []"
  by (simp add: from_utf8_lossy.simps)

lemma from_utf8_lossy_ascii:
  "b < 128 \<Longrightarrow> from_utf8_lossy (b # bs) = b # from_utf8_lossy bs"
  by (subst from_utf8_lossy.simps) (simp add: utf8_next.simps)

text \<open>The base-64 digits of a code point.\<close>

lemma digits64:
  fixes c :: nat
  shows "c div 64 * 64 + c mod 64 = c"
    and "c div 4096 * 64 + c div 64 mod 64 = c div 64"
    and "c div 262144 * 64 + c div 4096 mod 64 = c div 4096"
proof -
  show "c div 64 * 64 + c mod 64 = c" by simp
  have "c div 64 div 64 = c div 4096" "c div 4096 div 64 = c div 262144"
    by (simp_all add: div_mult2_eq [symmetric])
  then show "c div 4096 * 64 + c div 64 mod 64 = c div 64"
    "c div 262144 * 64 + c div 4096 mod 64 = c div 4096"
    by (metis div_mult_mod_eq)+
qed

lemma utf8_next_two:
  assumes "128 \<le> c" "c < 2048"
  shows "utf8_next (utf8_char c @ bs) = (c, 2)"
proof -
  have "c div 64 < 32" "2 \<le> c div 64" using assms by auto
  then show ?thesis using assms
    by (auto simp: utf8_char_def utf8_next.simps is_cont_def)
qed

lemma utf8_next_three:
  assumes "2048 \<le> c" "c < 65536" "is_scalar c"
  shows "utf8_next (utf8_char c @ bs) = (c, 3)"
proof -
  define q r d where "q = c div 4096" and "r = c div 64 mod 64" and "d = c mod 64"
  have c: "c = q * 4096 + r * 64 + d"
    using digits64 (1,2) [of c] unfolding q_def r_def d_def by linarith
  have "r < 64" "d < 64" by (simp_all add: r_def d_def)
  moreover have "q < 16" using c assms(2) by linarith
  moreover have "second_ok (224 + q) (128 + r)"
    using assms c \<open>r < 64\<close> \<open>d < 64\<close>
    by (auto simp: second_ok_def is_cont_def is_scalar_def)
  ultimately show ?thesis using assms(1,2)
    by (simp add: utf8_char_def utf8_next.simps is_cont_def c [symmetric]
          flip: q_def r_def d_def)
qed

lemma utf8_next_four:
  assumes "65536 \<le> c" "c < 1114112"
  shows "utf8_next (utf8_char c @ bs) = (c, 4)"
proof -
  define p q r d where "p = c div 262144" and "q = c div 4096 mod 64"
    and "r = c div 64 mod 64" and "d = c mod 64"
  have c: "c = p * 262144 + q * 4096 + r * 64 + d"
    using digits64 [of c] unfolding p_def q_def r_def d_def by linarith
  have "q < 64" "r < 64" "d < 64" by (simp_all add: q_def r_def d_def)
  moreover have "p < 5" using c assms(2) by linarith
  moreover have "second_ok (240 + p) (128 + q)"
    using assms c \<open>q < 64\<close> \<open>r < 64\<close> \<open>d < 64\<close>
    by (auto simp: second_ok_def is_cont_def)
  ultimately show ?thesis using assms
    by (simp add: utf8_char_def utf8_next.simps is_cont_def c [symmetric]
          flip: p_def q_def r_def d_def)
qed

lemma utf8_next_char:
  assumes "is_scalar c"
  shows "utf8_next (utf8_char c @ bs) = (c, length (utf8_char c))"
proof -
  consider "c < 128" | "128 \<le> c" "c < 2048" | "2048 \<le> c" "c < 65536" | "65536 \<le> c" "c < 1114112"
    using assms by (fastforce simp: is_scalar_def)
  then show ?thesis
    using utf8_next_two [of c bs] utf8_next_three [of c bs] utf8_next_four [of c bs] assms
    by cases (auto simp: length_utf8_char len_utf8_def utf8_next.simps utf8_char_def)
qed

lemma from_utf8_lossy_char:
  assumes "is_scalar c"
  shows "from_utf8_lossy (utf8_char c @ bs) = c # from_utf8_lossy bs"
proof -
  have "utf8_char c @ bs \<noteq> []" by (simp add: utf8_char_def)
  then show ?thesis
    by (subst from_utf8_lossy.simps) (simp add: utf8_next_char [OF assms])
qed

lemma from_utf8_lossy_as_bytes: "valid_str s \<Longrightarrow> from_utf8_lossy (as_bytes s) = s"
  by (induction s) (simp_all add: valid_str_def from_utf8_lossy_char)

text \<open>No byte of a multi-byte character is an ASCII byte.\<close>

lemma utf8_char_ascii: "b \<in> set (utf8_char c) \<Longrightarrow> b < 128 \<Longrightarrow> b = c"
  by (auto simp: utf8_char_def split: if_splits)

end
