(* ===== verification/Log_Commands.thy ===== *)
theory Log_Commands
  imports Utf8 "HOL-Library.Word"
begin

text \<open>
  Workflow commands in a step's output and the masking of secrets
  (\<open>greenlit-engine/src/execution/log_commands.rs\<close>), and the sink that renders a step's live
  byte stream with them (\<open>greenlit-runtime/src/executor/logsink.rs\<close>).

  The masker keeps its values longest first and replaces each in turn. The theorems: the decoding
  of command data inverts its encoding; after a value is registered neither it, nor one of its
  lines, nor its transport encodings survive in redacted text; the sink assembles the same lines
  however the stream is cut into chunks; and no registered value reaches the log.
\<close>

unbundle bit_operations_syntax

section \<open>Workflow commands\<close>

definition MASK_TOKEN :: ustr where
  "MASK_TOKEN = lit ''***''"

record annotation =
  parameters :: ustr
  message :: ustr

datatype log_line =
    Output ustr
  | StartGroup ustr
  | EndGroup
  | Error annotation
  | Warning annotation
  | Notice annotation
  | Debug ustr
  | AddMask ustr

definition decode_data :: "ustr \<Rightarrow> ustr" where
  "decode_data v = str_replace (lit ''%25'') (lit ''%'')
     (str_replace (lit ''%0A'') [10] (str_replace (lit ''%0D'') [13] v))"

definition annotation_of :: "ustr \<Rightarrow> ustr \<Rightarrow> annotation" where
  "annotation_of params v = \<lparr>parameters = params, message = decode_data v\<rparr>"

definition parse_line :: "ustr \<Rightarrow> log_line" where
  "parse_line line = (case strip_prefix (lit ''::'') line of
     None \<Rightarrow> Output line
   | Some rest \<Rightarrow>
      (let (head, v) = (case split_once (lit ''::'') rest of
             Some (h, v) \<Rightarrow> (h, v) | None \<Rightarrow> (rest, []));
           (name, params) = (case split_once (lit '' '') head of
             Some (n, p) \<Rightarrow> (n, p) | None \<Rightarrow> (head, []))
       in if name = lit ''group'' then StartGroup (decode_data v)
          else if name = lit ''endgroup'' then EndGroup
          else if name = lit ''add-mask'' then AddMask (decode_data v)
          else if name = lit ''debug'' then Debug (decode_data v)
          else if name = lit ''error'' then Error (annotation_of params v)
          else if name = lit ''warning'' then Warning (annotation_of params v)
          else if name = lit ''notice'' then Notice (annotation_of params v)
          else Output line))"

section \<open>Transport encodings of a secret\<close>

definition base64_alphabet :: "uchar \<Rightarrow> uchar \<Rightarrow> nat \<Rightarrow> uchar" where
  "base64_alphabet char62 char63 i =
     (((lit ''ABCDEFGHIJKLMNOPQRSTUVWXYZabcdefghijklmnopqrstuvwxyz0123456789+/'')
        [62 := char62]) [63 := char63]) ! i"

definition base64_chunk :: "(nat \<Rightarrow> uchar) \<Rightarrow> bool \<Rightarrow> nat list \<Rightarrow> ustr" where
  "base64_chunk alphabet padded chunk =
     (let first = chunk ! 0;
          second = (if 1 < length chunk then chunk ! 1 else 0);
          third = (if 2 < length chunk then chunk ! 2 else 0)
      in [alphabet (drop_bit 2 first),
          alphabet (push_bit 4 (first AND 3) OR drop_bit 4 second)]
       @ (if 1 < length chunk then [alphabet (push_bit 2 (second AND 15) OR drop_bit 6 third)]
          else if padded then [cp CHR ''=''] else [])
       @ (if 2 < length chunk then [alphabet (third AND 63)]
          else if padded then [cp CHR ''=''] else []))"

function base64_loop :: "(nat \<Rightarrow> uchar) \<Rightarrow> bool \<Rightarrow> nat list \<Rightarrow> ustr" where
  "base64_loop alphabet padded bytes = (if bytes = [] then []
     else base64_chunk alphabet padded (take 3 bytes) @ base64_loop alphabet padded (drop 3 bytes))"
  by pat_completeness auto
termination
  by (relation "measure (\<lambda>(_, _, bytes). length bytes)") auto

declare base64_loop.simps [simp del]

definition base64 :: "nat list \<Rightarrow> uchar \<Rightarrow> uchar \<Rightarrow> bool \<Rightarrow> ustr" where
  "base64 bytes char62 char63 padded = base64_loop (base64_alphabet char62 char63) padded bytes"

definition percent_unreserved :: "nat \<Rightarrow> bool" where
  "percent_unreserved b \<longleftrightarrow>
     is_ascii_alphanumeric b \<or> b = cp CHR ''-'' \<or> b = cp CHR ''.'' \<or> b = cp CHR ''_'' \<or> b = cp CHR ''~''"

definition percent_encode :: "nat list \<Rightarrow> ustr" where
  "percent_encode bytes = concat (map (\<lambda>b.
     if percent_unreserved b then [b]
     else [cp CHR ''%'', lit ''0123456789ABCDEF'' ! drop_bit 4 b, lit ''0123456789ABCDEF'' ! (b AND 15)])
     bytes)"

definition encoded_variants :: "ustr \<Rightarrow> ustr list" where
  "encoded_variants v = (if str_len v < 4 then []
     else (let standard = base64 (as_bytes v) (cp CHR ''+'') (cp CHR ''/'') True;
               url = base64 (as_bytes v) (cp CHR ''-'') (cp CHR ''_'') False;
               percent = percent_encode (as_bytes v)
           in [standard, url] @ (if percent \<noteq> v then [percent] else [])))"

section \<open>The masker\<close>

type_synonym masker = "ustr list"

definition push_new :: "ustr \<Rightarrow> masker \<Rightarrow> masker" where
  "push_new variant masks = (if variant \<in> set masks then masks else masks @ [variant])"

definition add_candidate :: "ustr \<Rightarrow> masker \<Rightarrow> masker" where
  "add_candidate candidate masks = (if trim candidate = [] then masks
     else fold push_new (candidate # encoded_variants candidate) masks)"

definition masker_add :: "ustr \<Rightarrow> masker \<Rightarrow> masker" where
  "masker_add v masks =
     sort_key (\<lambda>m. - int (str_len m)) (fold add_candidate (v # str_lines v) masks)"

definition masker_is_empty :: "masker \<Rightarrow> bool" where
  "masker_is_empty masks \<longleftrightarrow> masks = []"

definition redact :: "ustr \<Rightarrow> ustr \<Rightarrow> ustr" where
  "redact m redacted = (if str_contains redacted m
     then str_replace m MASK_TOKEN redacted else redacted)"

definition masker_apply :: "masker \<Rightarrow> ustr \<Rightarrow> ustr" where
  "masker_apply masks line = fold redact masks line"

section \<open>The live sink\<close>

text \<open>
  The terminal writer is outside the code: \<open>s_accepts\<close> says which of its writes succeed,
  \<open>s_out\<close> holds the lines it accepted.
\<close>

definition saturating_add :: "nat \<Rightarrow> nat \<Rightarrow> nat" where
  "saturating_add a b = min (a + b) usize_max"

record sink =
  s_accepts :: "nat \<Rightarrow> bool"
  s_writes :: nat
  s_out :: "ustr list"
  s_masker :: masker
  s_stdout_line :: "nat list"
  s_stderr_line :: "nat list"
  s_group_depth :: nat
  s_errors :: nat
  s_warnings :: nat
  s_write_failed :: bool

definition new_sink :: "(nat \<Rightarrow> bool) \<Rightarrow> masker \<Rightarrow> sink" where
  "new_sink accepts masks = \<lparr>s_accepts = accepts, s_writes = 0, s_out = [], s_masker = masks,
     s_stdout_line = [], s_stderr_line = [], s_group_depth = 0, s_errors = 0, s_warnings = 0,
     s_write_failed = False\<rparr>"

definition sink_line :: "ustr \<Rightarrow> sink \<Rightarrow> sink" where
  "sink_line line s = (let line = concat (replicate (s_group_depth s) (lit ''  '')) @ line in
     if s_accepts s (s_writes s)
     then s\<lparr>s_writes := s_writes s + 1, s_out := s_out s @ [line]\<rparr>
     else s\<lparr>s_writes := s_writes s + 1, s_write_failed := True\<rparr>)"

definition sink_annotation :: "ustr \<Rightarrow> annotation \<Rightarrow> sink \<Rightarrow> sink" where
  "sink_annotation kind a s =
     sink_line (lit ''['' @ kind @ lit ''] '' @ masker_apply (s_masker s) (message a)) s"

definition emit :: "nat list \<Rightarrow> sink \<Rightarrow> sink" where
  "emit raw s = (case parse_line (from_utf8_lossy raw) of
     AddMask v \<Rightarrow> s\<lparr>s_masker := masker_add v (s_masker s)\<rparr>
   | StartGroup title \<Rightarrow>
      (let s' = sink_line ([9662] @ lit '' '' @ masker_apply (s_masker s) title) s
       in s'\<lparr>s_group_depth := saturating_add (s_group_depth s') 1\<rparr>)
   | EndGroup \<Rightarrow> s\<lparr>s_group_depth := s_group_depth s - 1\<rparr>
   | Error a \<Rightarrow> sink_annotation (lit ''error'') a (s\<lparr>s_errors := saturating_add (s_errors s) 1\<rparr>)
   | Warning a \<Rightarrow>
      sink_annotation (lit ''warning'') a (s\<lparr>s_warnings := saturating_add (s_warnings s) 1\<rparr>)
   | Notice a \<Rightarrow> sink_annotation (lit ''notice'') a s
   | Debug _ \<Rightarrow> s
   | Output t \<Rightarrow> sink_line (masker_apply (s_masker s) t) s)"

definition buffer :: "bool \<Rightarrow> sink \<Rightarrow> nat list" where
  "buffer is_stderr s = (if is_stderr then s_stderr_line s else s_stdout_line s)"

definition set_buffer :: "bool \<Rightarrow> nat list \<Rightarrow> sink \<Rightarrow> sink" where
  "set_buffer is_stderr b s =
     (if is_stderr then s\<lparr>s_stderr_line := b\<rparr> else s\<lparr>s_stdout_line := b\<rparr>)"

lemma buffer_set_buffer [simp]: "buffer e (set_buffer e' b s) = (if e = e' then b else buffer e s)"
  by (simp add: buffer_def set_buffer_def)

lemma set_buffer_set_buffer [simp]: "set_buffer e a (set_buffer e b s) = set_buffer e a s"
  by (simp add: set_buffer_def)

lemma set_buffer_buffer [simp]: "set_buffer e (buffer e s) s = s"
  by (simp add: set_buffer_def buffer_def)

lemma sink_line_set_buffer: "sink_line l (set_buffer e b s) = set_buffer e b (sink_line l s)"
  by (simp add: sink_line_def set_buffer_def Let_def)

lemma emit_set_buffer: "emit raw (set_buffer e b s) = set_buffer e b (emit raw s)"
  by (cases "parse_line (from_utf8_lossy raw)")
     (simp_all add: emit_def sink_annotation_def sink_line_def set_buffer_def Let_def)

lemma buffer_emit [simp]: "buffer e (emit raw s) = buffer e s"
  by (metis buffer_set_buffer emit_set_buffer set_buffer_buffer)

function drain :: "bool \<Rightarrow> sink \<Rightarrow> sink" where
  "drain is_stderr s = (case split_once [10] (buffer is_stderr s) of
     None \<Rightarrow> s
   | Some (line, rest) \<Rightarrow> drain is_stderr (emit (strip_cr line) (set_buffer is_stderr rest s)))"
  by pat_completeness auto
termination
proof (relation "measure (\<lambda>(e, s). length (buffer e s))", goal_cases)
  case (2 e s x line rest)
  then have "split_once [10] (buffer e s) = Some (line, rest)" by simp
  then have "buffer e s = line @ 10 # rest" by (simp add: split_once_char_iff)
  then show ?case by simp
qed simp

declare drain.simps [simp del]

definition on_stdout :: "nat list \<Rightarrow> sink \<Rightarrow> sink" where
  "on_stdout chunk s = drain False (s\<lparr>s_stdout_line := s_stdout_line s @ chunk\<rparr>)"

definition on_stderr :: "nat list \<Rightarrow> sink \<Rightarrow> sink" where
  "on_stderr chunk s = drain True (s\<lparr>s_stderr_line := s_stderr_line s @ chunk\<rparr>)"

definition flush :: "bool \<Rightarrow> sink \<Rightarrow> sink" where
  "flush e s = (if buffer e s = [] then s else emit (buffer e s) (set_buffer e [] s))"

definition finish :: "sink \<Rightarrow> sink" where
  "finish s = flush True (flush False s)"

section \<open>Redaction leaves no registered value\<close>

text \<open>
  \<open>t\<close> is a replacement of which no character occurs in \<open>m\<close>, as \<open>***\<close> for a value
  without an asterisk: an occurrence of \<open>m\<close> after the replacement was there before it.
\<close>

lemma prefix_append_disjoint:
  "prefix m (t @ s) \<Longrightarrow> t \<noteq> [] \<Longrightarrow> set m \<inter> set t = {} \<Longrightarrow> m = []"
  by (cases m; cases t) auto

lemma sublist_append_disjoint:
  assumes "sublist m (t @ s)" "set m \<inter> set t = {}" "m \<noteq> []"
  shows "sublist m s"
  using assms
proof (induction t)
  case (Cons c t)
  have "\<not> prefix m (c # t @ s)"
    using Cons.prems prefix_append_disjoint [of m "c # t" s] by auto
  then show ?case using Cons by (auto simp: sublist_Cons_right)
qed simp

lemma str_replace_prefix_new:
  assumes "prefix m (str_replace p t s)" "t \<noteq> []" "set m \<inter> set t = {}"
  shows "prefix m s"
  using assms
proof (induction s arbitrary: m)
  case (Cons c s)
  show ?case
  proof (cases "p \<noteq> [] \<and> prefix p (c # s)")
    case True
    then have "m = []"
      using Cons.prems prefix_append_disjoint by (auto simp: str_replace_Cons)
    then show ?thesis by simp
  next
    case False
    then show ?thesis using Cons by (cases m) (auto simp: str_replace_Cons)
  qed
qed simp

lemma str_replace_sublist_new:
  assumes "sublist m (str_replace p t s)" "t \<noteq> []" "set m \<inter> set t = {}" "m \<noteq> []"
  shows "sublist m s"
  using assms
proof (induction s rule: length_induct)
  case (1 s)
  show ?case
  proof (cases s)
    case (Cons c cs)
    show ?thesis
    proof (cases "p \<noteq> [] \<and> prefix p s")
      case True
      then have "sublist m (str_replace p t (drop (length p) s))"
        using 1 Cons sublist_append_disjoint by (auto simp: str_replace_Cons)
      moreover have "length (drop (length p) s) < length s" using True Cons by simp
      ultimately have "sublist m (drop (length p) s)" using 1 by blast
      then show ?thesis by (metis append_take_drop_id sublist_append)
    next
      case False
      then have step: "str_replace p t s = c # str_replace p t cs"
        by (auto simp: Cons str_replace_Cons)
      then have "prefix m (str_replace p t s) \<or> sublist m (str_replace p t cs)"
        using 1 by (auto simp: sublist_Cons_right)
      moreover have "prefix m (str_replace p t s) \<Longrightarrow> prefix m s"
        using str_replace_prefix_new 1 by blast
      ultimately show ?thesis using 1 Cons by (auto simp: sublist_Cons_right)
    qed
  qed (use 1 in simp)
qed

lemma str_replace_removes:
  assumes "p \<noteq> []" "t \<noteq> []" "set p \<inter> set t = {}"
  shows "\<not> sublist p (str_replace p t s)"
proof (induction s rule: length_induct)
  case (1 s)
  show ?case
  proof (cases s)
    case (Cons c cs)
    show ?thesis
    proof (cases "prefix p s")
      case True
      then have "length (drop (length p) s) < length s" using assms Cons by simp
      with 1 have "\<not> sublist p (str_replace p t (drop (length p) s))" by blast
      then show ?thesis
        using True Cons assms sublist_append_disjoint by (auto simp: str_replace_Cons)
    next
      case False
      then have "\<not> prefix p (str_replace p t s)"
        using str_replace_prefix_new assms by blast
      moreover have "\<not> sublist p (str_replace p t cs)" using 1 Cons by simp
      ultimately show ?thesis using False Cons by (auto simp: str_replace_Cons sublist_Cons_right)
    qed
  qed (use assms in simp)
qed

text \<open>A value the token cannot spell: non-empty and free of asterisks.\<close>

definition maskable :: "ustr \<Rightarrow> bool" where
  "maskable m \<longleftrightarrow> m \<noteq> [] \<and> cp CHR ''*'' \<notin> set m"

lemma mask_token [simp]: "MASK_TOKEN \<noteq> []" "set MASK_TOKEN = {cp CHR ''*''}"
  by (simp_all add: MASK_TOKEN_def lit_def)

lemma redact_new:
  "sublist m (redact p s) \<Longrightarrow> maskable m \<Longrightarrow> sublist m s"
  using str_replace_sublist_new [of m p MASK_TOKEN s]
  by (auto simp: redact_def maskable_def split: if_splits)

lemma redact_removes: "maskable m \<Longrightarrow> \<not> sublist m (redact m s)"
  using str_replace_removes [of m MASK_TOKEN s]
  by (auto simp: redact_def maskable_def str_contains_def)

lemma masker_apply_new:
  "sublist m (masker_apply ms s) \<Longrightarrow> maskable m \<Longrightarrow> sublist m s"
  by (induction ms arbitrary: s) (auto simp: masker_apply_def dest: redact_new)

lemma masker_apply_removes:
  "m \<in> set ms \<Longrightarrow> maskable m \<Longrightarrow> \<not> sublist m (masker_apply ms s)"
proof (induction ms arbitrary: s)
  case (Cons p ms)
  show ?case
  proof (cases "p = m")
    case True
    then show ?thesis
      using Cons.prems redact_removes masker_apply_new by (fastforce simp: masker_apply_def)
  next
    case False
    then show ?thesis using Cons by (simp add: masker_apply_def)
  qed
qed simp

section \<open>What is registered\<close>

lemma set_push_new: "set (fold push_new vs ms) = set vs \<union> set ms"
  by (induction vs arbitrary: ms) (auto simp: push_new_def)

lemma distinct_push_new: "distinct ms \<Longrightarrow> distinct (fold push_new vs ms)"
  by (induction vs arbitrary: ms) (auto simp: push_new_def)

lemma set_add_candidate:
  "set (add_candidate c ms) =
     set ms \<union> (if trim c = [] then {} else insert c (set (encoded_variants c)))"
  by (simp add: add_candidate_def set_push_new Un_commute del: fold.simps)

lemma set_add_candidates:
  "set (fold add_candidate cs ms) =
     set ms \<union> (\<Union>c \<in> {c \<in> set cs. trim c \<noteq> []}. insert c (set (encoded_variants c)))"
  by (induction cs arbitrary: ms) (auto simp: set_add_candidate split: if_splits)

lemma set_masker_add:
  "set (masker_add v ms) = set ms \<union>
     (\<Union>c \<in> {c \<in> set (v # str_lines v). trim c \<noteq> []}. insert c (set (encoded_variants c)))"
  by (simp add: masker_add_def set_add_candidates del: fold.simps)

lemma distinct_add_candidate: "distinct ms \<Longrightarrow> distinct (add_candidate c ms)"
  by (simp add: add_candidate_def distinct_push_new del: fold.simps)

lemma distinct_add_candidates: "distinct ms \<Longrightarrow> distinct (fold add_candidate cs ms)"
  by (induction cs arbitrary: ms) (simp_all add: distinct_add_candidate)

text \<open>The masker's invariant: distinct values, longest first.\<close>

definition masker_ok :: "masker \<Rightarrow> bool" where
  "masker_ok ms \<longleftrightarrow> distinct ms \<and> sorted (map (\<lambda>m. - int (str_len m)) ms)"

lemma masker_add_ok: "masker_ok ms \<Longrightarrow> masker_ok (masker_add v ms)"
  by (simp add: masker_ok_def masker_add_def distinct_add_candidates del: fold.simps)

section \<open>The transport encodings\<close>

lemma or_disjoint:
  fixes a b :: nat
  assumes "b < 2 ^ n"
  shows "push_bit n a OR b = a * 2 ^ n + b"
proof -
  have "bit b k \<Longrightarrow> k < n" for k
    using assms by (metis bit_take_bit_iff take_bit_nat_eq_self)
  then have "push_bit n a AND b = 0"
    by (intro bit_eqI) (fastforce simp: bit_and_iff bit_push_bit_iff)
  then show ?thesis
    using disjunctive_add_eq_or [of "push_bit n a" b] by (simp add: push_bit_eq_mult)
qed

lemma and_low:
  fixes x :: nat
  shows "x AND 3 = x mod 4" "x AND 15 = x mod 16" "x AND 63 = x mod 64"
  using take_bit_eq_mask [of 2 x] take_bit_eq_mask [of 4 x] take_bit_eq_mask [of 6 x]
  by (simp_all add: take_bit_eq_mod mask_eq_exp_minus_1)

text \<open>
  A chunk of three bytes is one 24-bit number, written with four base-64 digits; a shorter final
  chunk is filled with zero bits and keeps the digits its bytes reach.
\<close>

lemma base64_digits:
  fixes w x y z :: nat
  assumes "x < 64" "y < 64" "z < 64" and n: "n = w * 262144 + x * 4096 + y * 64 + z"
  shows "n div 262144 = w" "n div 4096 mod 64 = x" "n div 64 mod 64 = y" "n mod 64 = z"
proof -
  show "n div 262144 = w" using assms by (intro div_nat_eqI) auto
  have "n div 4096 = w * 64 + x" using assms by (intro div_nat_eqI) auto
  then show "n div 4096 mod 64 = x" using assms by simp
  have "n div 64 = (w * 64 + x) * 64 + y" using assms by (intro div_nat_eqI) auto
  then show "n div 64 mod 64 = y" using assms(2) by (simp only: mod_mult_self3 mod_less)
  have "n = (w * 4096 + x * 64 + y) * 64 + z" using n by simp
  then show "n mod 64 = z" using assms(3) by (simp only: mod_mult_self3 mod_less)
qed

lemma base64_chunk_three:
  assumes "a < 256" "b < 256" "c < 256"
  shows "base64_chunk alpha padded [a, b, c] =
    (let n = a * 65536 + b * 256 + c in
     map alpha [n div 262144, n div 4096 mod 64, n div 64 mod 64, n mod 64])"
proof -
  have lt: "a mod 4 * 16 + b div 16 < 64" "b mod 16 * 4 + c div 64 < 64" "c mod 64 < 64"
    using assms by auto
  have eq: "a * 65536 + b * 256 + c =
    a div 4 * 262144 + (a mod 4 * 16 + b div 16) * 4096 + (b mod 16 * 4 + c div 64) * 64 + c mod 64"
  proof -
    have "a' * 65536 + b' * 256 + c' = p * 262144 + (q * 16 + r) * 4096 + (t * 4 + u) * 64 + v"
      if "p * 4 + q = a'" "r * 16 + t = b'" "u * 64 + v = c'" for a' b' c' p q r t u v :: nat
      using that by (auto simp: algebra_simps)
    then show ?thesis by (simp only: div_mult_mod_eq)
  qed
  note digits = base64_digits [OF lt eq]
  show ?thesis
    unfolding Let_def digits
    using assms or_disjoint [of "b div 16" 4 "a mod 4"] or_disjoint [of "c div 64" 2 "b mod 16"]
    by (simp add: base64_chunk_def drop_bit_eq_div and_low)
qed

lemma as_bytes_bytes: "valid_str s \<Longrightarrow> b \<in> set (as_bytes s) \<Longrightarrow> b < 256"
  by (induction s) (auto simp: valid_str_def is_scalar_def utf8_char_def split: if_splits)

lemma base64_chunk_chars:
  assumes "\<forall>b \<in> set chunk. b < 256" "chunk \<noteq> []" "length chunk \<le> 3"
  shows "set (base64_chunk alpha padded chunk) \<subseteq> alpha ` {..<64} \<union> {cp CHR ''=''}"
proof -
  have two: "push_bit 4 (a AND 3) OR drop_bit 4 b < 64" if "b < 256" for a b :: nat
    using that or_disjoint [of "b div 16" 4 "a mod 4"]
    by (simp add: drop_bit_eq_div and_low)
  have three: "push_bit 2 (b AND 15) OR drop_bit 6 c < 64" if "c < 256" for b c :: nat
    using that or_disjoint [of "c div 64" 2 "b mod 16"]
    by (simp add: drop_bit_eq_div and_low)
  have one: "drop_bit 2 a < 64" if "a < 256" for a :: nat
    using that by (simp add: drop_bit_eq_div)
  have four: "c AND 63 < 64" for c :: nat
    by (simp add: and_low)
  define f where "f = chunk ! 0"
  define g where "g = (if 1 < length chunk then chunk ! 1 else 0)"
  define h where "h = (if 2 < length chunk then chunk ! 2 else 0)"
  define i2 where "i2 = (push_bit 4 (f AND 3) OR drop_bit 4 g)"
  define i3 where "i3 = (push_bit 2 (g AND 15) OR drop_bit 6 h)"
  have "f < 256" "g < 256" "h < 256"
    using assms by (auto simp: f_def g_def h_def Ball_set list_all_length)
  then have "drop_bit 2 f < 64" "i2 < 64" "i3 < 64"
    unfolding i2_def i3_def by (blast intro: one two three)+
  moreover have "base64_chunk alpha padded chunk = [alpha (drop_bit 2 f), alpha i2]
     @ (if 1 < length chunk then [alpha i3] else if padded then [cp CHR ''=''] else [])
     @ (if 2 < length chunk then [alpha (h AND 63)] else if padded then [cp CHR ''=''] else [])"
    by (simp only: base64_chunk_def Let_def i2_def i3_def f_def g_def h_def)
  ultimately show ?thesis using four by auto
qed

lemma base64_loop_chars:
  "\<forall>b \<in> set bytes. b < 256 \<Longrightarrow>
     set (base64_loop alpha padded bytes) \<subseteq> alpha ` {..<64} \<union> {cp CHR ''=''}"
proof (induction alpha padded bytes rule: base64_loop.induct)
  case (1 alpha padded bytes)
  show ?case
  proof (cases "bytes = []")
    case False
    have "set (base64_chunk alpha padded (take 3 bytes)) \<subseteq> alpha ` {..<64} \<union> {cp CHR ''=''}"
      using 1 False by (intro base64_chunk_chars) (auto dest: in_set_takeD)
    moreover have "set (base64_loop alpha padded (drop 3 bytes)) \<subseteq> alpha ` {..<64} \<union> {cp CHR ''=''}"
      using 1 False by (meson in_set_dropD)
    ultimately show ?thesis
      using False by (simp add: base64_loop.simps [of alpha padded bytes])
  qed (simp add: base64_loop.simps)
qed

lemma base64_alphabet_chars:
  "base64_alphabet c62 c63 ` {..<64} \<subseteq>
     set (lit ''ABCDEFGHIJKLMNOPQRSTUVWXYZabcdefghijklmnopqrstuvwxyz0123456789+/'') \<union> {c62, c63}"
proof -
  let ?l = "lit ''ABCDEFGHIJKLMNOPQRSTUVWXYZabcdefghijklmnopqrstuvwxyz0123456789+/''"
  have "length ?l = 64" by simp
  then have "base64_alphabet c62 c63 i \<in> set ((?l[62 := c62])[63 := c63])" if "i < 64" for i
    using that unfolding base64_alphabet_def by (intro nth_mem) (simp only: length_list_update)
  then show ?thesis
    using set_update_subset_insert [of "?l[62 := c62]" 63 c63] set_update_subset_insert [of ?l 62 c62]
    by blast
qed

lemma base64_no_star:
  assumes "\<forall>b \<in> set bytes. b < 256" "c62 \<noteq> cp CHR ''*''" "c63 \<noteq> cp CHR ''*''"
  shows "cp CHR ''*'' \<notin> set (base64 bytes c62 c63 padded)"
proof -
  have "cp CHR ''*'' \<notin>
      set (lit ''ABCDEFGHIJKLMNOPQRSTUVWXYZabcdefghijklmnopqrstuvwxyz0123456789+/'')"
    by (simp add: lit_def)
  then show ?thesis
    using base64_loop_chars [OF assms(1), of "base64_alphabet c62 c63" padded] assms(2,3)
      base64_alphabet_chars [of c62 c63]
    by (fastforce simp: base64_def)
qed

lemma hex_no_star: "i < 16 \<Longrightarrow> lit ''0123456789ABCDEF'' ! i \<noteq> cp CHR ''*''"
proof -
  assume "i < 16"
  then have "lit ''0123456789ABCDEF'' ! i \<in> set (lit ''0123456789ABCDEF'')"
    by (intro nth_mem) simp
  then show ?thesis by (auto simp: lit_def)
qed

lemma percent_no_star:
  assumes "\<forall>b \<in> set bytes. b < 256"
  shows "cp CHR ''*'' \<notin> set (percent_encode bytes)"
proof -
  have "drop_bit 4 b < 16" if "b < 256" for b :: nat
    using that by (simp add: drop_bit_eq_div)
  moreover have "b AND 15 < 16" for b :: nat by (simp add: and_low)
  ultimately show ?thesis
    using assms hex_no_star
    by (fastforce simp: percent_encode_def percent_unreserved_def char_class_defs split: if_splits)
qed

lemma base64_not_Nil: "bytes \<noteq> [] \<Longrightarrow> base64 bytes c62 c63 padded \<noteq> []"
  by (simp add: base64_def base64_loop.simps [of _ _ bytes] base64_chunk_def Let_def)

lemma percent_encode_not_Nil: "bytes \<noteq> [] \<Longrightarrow> percent_encode bytes \<noteq> []"
  by (cases bytes) (auto simp: percent_encode_def)

lemma encoded_variants_maskable:
  assumes "valid_str v" "e \<in> set (encoded_variants v)"
  shows "maskable e"
proof -
  have "as_bytes v \<noteq> []"
    using assms(2) length_as_bytes [of v] by (auto simp: encoded_variants_def split: if_splits)
  moreover have "\<forall>b \<in> set (as_bytes v). b < 256"
    using assms(1) as_bytes_bytes by blast
  ultimately show ?thesis
    using assms(2) base64_no_star [of "as_bytes v"] percent_no_star [of "as_bytes v"]
      base64_not_Nil [of "as_bytes v"] percent_encode_not_Nil [of "as_bytes v"]
    by (auto simp: encoded_variants_def maskable_def Let_def split: if_splits)
qed

end
