(* ===== verification/Log_Laws.thy ===== *)
theory Log_Laws
  imports Log_Commands
begin

text \<open>
  What the workflow commands, the masker and the live sink guarantee: the decoding of command data
  inverts its documented encoding, redaction hides a registered value in all its registered forms,
  the sink's output does not depend on how the byte stream is cut into chunks, and no registered
  value is written.
\<close>

section \<open>Command data\<close>

text \<open>The documented encoding of command data, which \<open>decode_data\<close> undoes.\<close>

definition encode_data :: "ustr \<Rightarrow> ustr" where
  "encode_data s = concat (map (\<lambda>c. if c = cp CHR ''%'' then lit ''%25''
     else if c = 13 then lit ''%0D'' else if c = 10 then lit ''%0A'' else [c]) s)"

lemma str_replace_Cons_other:
  "p \<noteq> [] \<Longrightarrow> c \<noteq> hd p \<Longrightarrow> str_replace p t (c # s) = c # str_replace p t s"
  by (cases p) (simp_all add: str_replace_Cons)

lemma decode_stages:
  "str_replace (lit ''%0D'') [13] (encode_data s) =
     concat (map (\<lambda>c. if c = cp CHR ''%'' then lit ''%25'' else if c = 10 then lit ''%0A'' else [c]) s)"
  "str_replace (lit ''%0A'') [10]
     (concat (map (\<lambda>c. if c = cp CHR ''%'' then lit ''%25'' else if c = 10 then lit ''%0A'' else [c]) s)) =
     concat (map (\<lambda>c. if c = cp CHR ''%'' then lit ''%25'' else [c]) s)"
  "str_replace (lit ''%25'') (lit ''%'')
     (concat (map (\<lambda>c. if c = cp CHR ''%'' then lit ''%25'' else [c]) s)) = s"
  by (induction s) (simp_all add: encode_data_def lit_def str_replace_Cons)

text \<open>
  The decoding of workflow-command data inverts the documented encoding (a percent sign, a
  carriage return and a line feed are written as an escape), so an annotation or a mask sent with
  it is read back exactly; the order of the three replacements matters.
\<close>

lemma command_data_round_trip:
  "decode_data (encode_data s) = s \<and>
   parse_line (lit ''::add-mask::'' @ encode_data s) = AddMask s"
proof -
  have d: "decode_data (encode_data s) = s"
    by (simp only: decode_data_def decode_stages)
  have "strip_prefix (lit ''::'') (lit ''::add-mask::'' @ encode_data s) =
      Some (lit ''add-mask::'' @ encode_data s)"
    by (simp add: strip_prefix_Some lit_def)
  moreover have "split_once (lit ''::'') (lit ''add-mask::'' @ encode_data s) =
      Some (lit ''add-mask'', encode_data s)"
    by (simp add: lit_def)
  moreover have "split_once (lit '' '') (lit ''add-mask'') = None"
    by (simp add: lit_def)
  ultimately show ?thesis using d by (simp add: parse_line_def)
qed

section \<open>Redaction\<close>

lemma str_lines_subset: "l \<in> set (str_lines s) \<Longrightarrow> set l \<subseteq> set s"
proof (induction s rule: str_lines.induct)
  case (1 s)
  have strip: "set (strip_cr l') \<subseteq> set l'" for l'
    by (auto simp: strip_cr_def dest: in_set_butlastD)
  show ?case
  proof (cases "dropWhile (\<lambda>c. c \<noteq> 10) s")
    case Nil
    then show ?thesis using 1(2) by (subst (asm) str_lines.simps) (simp add: Nil split: if_splits)
  next
    case (Cons c rest)
    then have "set rest \<subseteq> set s" by (metis set_dropWhileD set_subset_Cons subset_iff)
    moreover have "set (takeWhile (\<lambda>c. c \<noteq> 10) s) \<subseteq> set s" by (meson set_takeWhileD subsetI)
    moreover have "l \<in> set (str_lines rest) \<Longrightarrow> set l \<subseteq> set rest" "s \<noteq> []"
      using 1(1) [of c rest] Cons by fastforce+
    ultimately show ?thesis
      using 1(2) Cons strip [of "takeWhile (\<lambda>c. c \<noteq> 10) s"]
      by (subst (asm) str_lines.simps) auto
  qed
qed

lemma str_lines_valid: "valid_str s \<Longrightarrow> l \<in> set (str_lines s) \<Longrightarrow> valid_str l"
  using str_lines_subset by (fastforce simp: valid_str_def list_all_iff)

subsection \<open>The transport encodings by their definition\<close>

text \<open>
  Base 64 as RFC 4648 has it: the bytes are one number, filled with zero bits on the right to whole
  digits of six bits; padding completes the last group of four characters. Percent encoding as RFC
  3986 has it.
\<close>

definition octets_value :: "nat list \<Rightarrow> nat" where
  "octets_value bs = foldl (\<lambda>a b. a * 256 + b) 0 bs"

definition sextets :: "nat list \<Rightarrow> nat list" where
  "sextets bs = (let n = length bs; m = (8 * n + 5) div 6 in
     map (\<lambda>j. octets_value bs * 2 ^ (6 * m - 8 * n) div 64 ^ (m - 1 - j) mod 64) [0..<m])"

definition base64_text :: "string \<Rightarrow> bool \<Rightarrow> nat list \<Rightarrow> ustr" where
  "base64_text marks padded bs =
     map ((!) (lit (''ABCDEFGHIJKLMNOPQRSTUVWXYZabcdefghijklmnopqrstuvwxyz0123456789'' @ marks))) (sextets bs) @
     (if padded then replicate ((3 - length bs mod 3) mod 3) (cp CHR ''='') else [])"

definition percent_text :: "nat list \<Rightarrow> ustr" where
  "percent_text bs = concat (map (\<lambda>b. if is_ascii_alphanumeric b \<or> b \<in> set (lit ''-._~'') then [b]
     else [cp CHR ''%'', lit ''0123456789ABCDEF'' ! (b div 16), lit ''0123456789ABCDEF'' ! (b mod 16)]) bs)"

lemma octets_value_append: "octets_value (xs @ ys) = octets_value xs * 256 ^ length ys + octets_value ys"
  by (induction ys rule: rev_induct) (simp_all add: octets_value_def algebra_simps)

lemma octets_value_less: "\<forall>b \<in> set bs. b < 256 \<Longrightarrow> octets_value bs < 256 ^ length bs"
  by (induction bs rule: rev_induct) (auto simp: octets_value_def)

lemma digits_append:
  assumes "v < (64 :: nat) ^ m"
  shows "map (\<lambda>j. (u * 64 ^ m + v) div 64 ^ (k + m - 1 - j) mod 64) [0..<k + m] =
    map (\<lambda>j. u div 64 ^ (k - 1 - j) mod 64) [0..<k] @ map (\<lambda>j. v div 64 ^ (m - 1 - j) mod 64) [0..<m]"
proof (rule nth_equalityI)
  fix i assume "i < length (map (\<lambda>j. (u * 64 ^ m + v) div 64 ^ (k + m - 1 - j) mod 64) [0..<k + m])"
  then have i: "i < k + m" by simp
  show "map (\<lambda>j. (u * 64 ^ m + v) div 64 ^ (k + m - 1 - j) mod 64) [0..<k + m] ! i =
    (map (\<lambda>j. u div 64 ^ (k - 1 - j) mod 64) [0..<k] @ map (\<lambda>j. v div 64 ^ (m - 1 - j) mod 64) [0..<m]) ! i"
  proof (cases "i < k")
    case True
    then have "k + m - 1 - i = m + (k - 1 - i)" by simp
    then have "(u * 64 ^ m + v) div 64 ^ (k + m - 1 - i) = (u * 64 ^ m + v) div 64 ^ m div 64 ^ (k - 1 - i)"
      by (simp add: power_add div_mult2_eq)
    also have "(u * 64 ^ m + v) div 64 ^ m = u" using assms by simp
    finally show ?thesis using True i by (simp add: nth_append)
  next
    case False
    define e where "e = m - 1 - (i - k)"
    have e: "k + m - 1 - i = e" "e < m" "i - k < m" using False i by (auto simp: e_def)
    then have split: "u * 64 ^ m = u * 64 ^ (m - 1 - e) * 64 * 64 ^ e"
      by (simp add: mult.assoc flip: power_Suc power_add)
    have "(u * 64 ^ m + v) div 64 ^ e mod 64 = v div 64 ^ e mod 64"
      unfolding split by simp
    then have "(u * 64 ^ m + v) div 64 ^ (k + m - 1 - i) mod 64 = v div 64 ^ (m - 1 - (i - k)) mod 64"
      by (simp only: e(1) e_def)
    then show ?thesis using False i e(3) by (simp only: nth_append length_map length_upt nth_map nth_upt) simp
  qed
qed simp

lemma sextets_chunk:
  assumes "\<forall>x \<in> set (a # b # c # bs). x < 256"
  shows "sextets (a # b # c # bs) = (let n = a * 65536 + b * 256 + c in
     [n div 262144, n div 4096 mod 64, n div 64 mod 64, n mod 64]) @ sextets bs"
proof -
  define n where "n = a * 65536 + b * 256 + c"
  define m where "m = (8 * length bs + 5) div 6"
  define fill where "fill = 6 * m - 8 * length bs"
  have m: "(8 * length (a # b # c # bs) + 5) div 6 = 4 + m" by (simp add: m_def)
  have fill: "6 * (4 + m) - 8 * length (a # b # c # bs) = fill" "8 * length bs + fill = 6 * m"
    by (simp_all add: fill_def m_def)
  have pow: "256 ^ length bs * 2 ^ fill = (64 :: nat) ^ m"
  proof -
    have "256 ^ length bs * 2 ^ fill = (2 :: nat) ^ (8 * length bs + fill)" by (simp add: power_add power_mult)
    then show ?thesis by (simp add: fill(2) power_mult)
  qed
  have "octets_value (a # b # c # bs) = n * 256 ^ length bs + octets_value bs"
    using octets_value_append [of "[a, b, c]" bs] by (simp add: octets_value_def n_def)
  then have v: "octets_value (a # b # c # bs) * 2 ^ fill = n * 64 ^ m + octets_value bs * 2 ^ fill"
    by (simp add: add_mult_distrib mult.assoc pow)
  have "octets_value bs * 2 ^ fill < 256 ^ length bs * 2 ^ fill" using octets_value_less [of bs] assms by simp
  then have less: "octets_value bs * 2 ^ fill < 64 ^ m" by (simp only: pow)
  have "n < 16777216" using assms by (simp add: n_def)
  then have "n div 262144 mod 64 = n div 262144" by simp
  then have head: "map (\<lambda>j. n div 64 ^ (4 - 1 - j) mod 64) [0..<4] = [n div 262144, n div 4096 mod 64, n div 64 mod 64, n mod 64]"
    by (simp add: upt_rec)
  have "sextets (a # b # c # bs) = map (\<lambda>j. (n * 64 ^ m + octets_value bs * 2 ^ fill) div 64 ^ (4 + m - 1 - j) mod 64) [0..<4 + m]"
    unfolding sextets_def Let_def m fill(1) v ..
  also have "\<dots> = [n div 262144, n div 4096 mod 64, n div 64 mod 64, n mod 64] @ sextets bs"
    unfolding digits_append [OF less] head by (simp add: sextets_def m_def fill_def Let_def)
  finally show ?thesis by (simp only: n_def Let_def)
qed

lemma sextets_rest:
  "sextets [] = []"
  "a < 256 \<Longrightarrow> sextets [a] = [a div 4, a mod 4 * 16]"
  "a < 256 \<Longrightarrow> b < 256 \<Longrightarrow> sextets [a, b] = [a div 4, a mod 4 * 16 + b div 16, b mod 16 * 4]"
proof -
  show "sextets [] = []" by (simp add: sextets_def)
  show "sextets [a] = [a div 4, a mod 4 * 16]" if "a < 256"
  proof -
    have "a' * 16 = 0 * 262144 + 0 * 4096 + p * 64 + q * 16" if "p * 4 + q = a'" for a' p q :: nat using that by auto
    then have "a * 16 = 0 * 262144 + 0 * 4096 + a div 4 * 64 + a mod 4 * 16" by (simp only: div_mult_mod_eq)
    note digits = base64_digits [OF _ _ _ this]
    have "sextets [a] = [a * 16 div 64 mod 64, a * 16 mod 64]"
      by (simp only: sextets_def octets_value_def Let_def) (simp add: upt_rec del: div_mult_mult2)
    also have "\<dots> = [a div 4, a mod 4 * 16]" using that digits by simp
    finally show ?thesis .
  qed
  show "sextets [a, b] = [a div 4, a mod 4 * 16 + b div 16, b mod 16 * 4]" if "a < 256" "b < 256"
  proof -
    have "(a' * 256 + b') * 4 = 0 * 262144 + p * 4096 + (q * 16 + r) * 64 + t * 4"
      if "p * 4 + q = a'" "r * 16 + t = b'" for a' b' p q r t :: nat using that by auto
    then have "(a * 256 + b) * 4 = 0 * 262144 + a div 4 * 4096 + (a mod 4 * 16 + b div 16) * 64 + b mod 16 * 4"
      by (simp only: div_mult_mod_eq)
    note digits = base64_digits [OF _ _ _ this]
    have "sextets [a, b] = [(a * 256 + b) * 4 div 4096 mod 64, (a * 256 + b) * 4 div 64 mod 64, (a * 256 + b) * 4 mod 64]"
      by (simp add: sextets_def octets_value_def upt_rec)
    also have "\<dots> = [a div 4, a mod 4 * 16 + b div 16, b mod 16 * 4]"
      using that digits by simp
    finally show ?thesis .
  qed
qed

lemma base64_loop_sextets:
  "\<forall>b \<in> set bs. b < 256 \<Longrightarrow> base64_loop alpha padded bs =
     map alpha (sextets bs) @ (if padded then replicate ((3 - length bs mod 3) mod 3) (cp CHR ''='') else [])"
proof (induction alpha padded bs rule: base64_loop.induct)
  case (1 alpha padded bs)
  have pad: "replicate 2 q = [q, q]" for q :: nat by (simp add: numeral_2_eq_2)
  consider "bs = []" | a where "bs = [a]" | a b where "bs = [a, b]" | a b c cs where "bs = a # b # c # cs"
    by (metis list.exhaust)
  then show ?case
  proof cases
    case 1
    then show ?thesis by (simp add: base64_loop.simps sextets_rest)
  next
    case (2 a)
    with "1.prems" show ?thesis using or_disjoint [of 0 4 "a mod 4"]
      by (simp add: base64_loop.simps base64_chunk_def sextets_rest drop_bit_eq_div and_low push_bit_eq_mult pad)
  next
    case (3 a b)
    with "1.prems" have "a < 256" "b < 256" "b div 16 < 2 ^ 4" by auto
    with 3 show ?thesis using or_disjoint [of "b div 16" 4 "a mod 4"]
      by (simp add: base64_loop.simps base64_chunk_def sextets_rest drop_bit_eq_div and_low push_bit_eq_mult pad)
  next
    case (4 a b c cs)
    then have "base64_loop alpha padded cs =
        map alpha (sextets cs) @ (if padded then replicate ((3 - length cs mod 3) mod 3) (cp CHR ''='') else [])"
      using "1.IH" "1.prems" by simp
    moreover have "base64_loop alpha padded bs = base64_chunk alpha padded [a, b, c] @ base64_loop alpha padded cs"
      by (subst base64_loop.simps) (simp add: 4)
    ultimately show ?thesis
      using "1.prems" sextets_chunk [of a b c cs] base64_chunk_three [of a b c alpha padded] by (simp add: 4 Let_def)
  qed
qed

lemma base64_is_text:
  assumes "\<forall>b \<in> set bs. b < 256"
  shows "base64 bs (cp CHR ''+'') (cp CHR ''/'') True = base64_text ''+/'' True bs"
    "base64 bs (cp CHR ''-'') (cp CHR ''_'') False = base64_text ''-_'' False bs"
proof -
  have "((lit ''ABCDEFGHIJKLMNOPQRSTUVWXYZabcdefghijklmnopqrstuvwxyz0123456789+/'')[62 := cp CHR ''+''])[63 := cp CHR ''/''] =
      lit (''ABCDEFGHIJKLMNOPQRSTUVWXYZabcdefghijklmnopqrstuvwxyz0123456789'' @ ''+/'')"
    "((lit ''ABCDEFGHIJKLMNOPQRSTUVWXYZabcdefghijklmnopqrstuvwxyz0123456789+/'')[62 := cp CHR ''-''])[63 := cp CHR ''_''] =
      lit (''ABCDEFGHIJKLMNOPQRSTUVWXYZabcdefghijklmnopqrstuvwxyz0123456789'' @ ''-_'')"
    by code_simp+
  then have "base64_alphabet (cp CHR ''+'') (cp CHR ''/'') =
      (!) (lit (''ABCDEFGHIJKLMNOPQRSTUVWXYZabcdefghijklmnopqrstuvwxyz0123456789'' @ ''+/''))"
    "base64_alphabet (cp CHR ''-'') (cp CHR ''_'') =
      (!) (lit (''ABCDEFGHIJKLMNOPQRSTUVWXYZabcdefghijklmnopqrstuvwxyz0123456789'' @ ''-_''))"
    by (intro ext; simp only: base64_alphabet_def)+
  then show "base64 bs (cp CHR ''+'') (cp CHR ''/'') True = base64_text ''+/'' True bs"
    "base64 bs (cp CHR ''-'') (cp CHR ''_'') False = base64_text ''-_'' False bs"
    by (simp_all only: base64_def base64_text_def base64_loop_sextets [OF assms])
qed

lemma percent_is_text: "percent_encode bs = percent_text bs"
proof -
  have unreserved: "percent_unreserved b \<longleftrightarrow> is_ascii_alphanumeric b \<or> b \<in> set (lit ''-._~'')" for b
    by (simp add: percent_unreserved_def lit_def)
  show ?thesis by (simp add: percent_encode_def percent_text_def unreserved drop_bit_eq_div and_low cong: if_cong)
qed

lemma encodings_registered:
  assumes "valid_str c" "4 \<le> length (as_bytes c)" "e \<in> {base64_text ''+/'' True (as_bytes c), base64_text ''-_'' False (as_bytes c), percent_text (as_bytes c)}"
  shows "e \<in> insert c (set (encoded_variants c))"
  using assms base64_is_text [of "as_bytes c"] as_bytes_bytes [of c]
  by (auto simp: encoded_variants_def percent_is_text length_as_bytes Let_def)

lemma registered_removed:
  "m \<in> set ms \<Longrightarrow> maskable m \<Longrightarrow> \<not> str_contains (masker_apply ms line) m"
  by (simp add: str_contains_def masker_apply_removes)

lemma encoding_removed:
  assumes "valid_str v" "c \<in> set (v # str_lines v)" "trim c \<noteq> [] \<and> 4 \<le> length (as_bytes c)"
  shows "\<not> str_contains (masker_apply (masker_add v ms) line) (base64_text ''+/'' True (as_bytes c))"
    "\<not> str_contains (masker_apply (masker_add v ms) line) (base64_text ''-_'' False (as_bytes c))"
    "\<not> str_contains (masker_apply (masker_add v ms) line) (percent_text (as_bytes c))"
proof -
  have c: "valid_str c" using assms(1,2) str_lines_valid by auto
  have bytes: "\<forall>b \<in> set (as_bytes c). b < 256" "as_bytes c \<noteq> []" using c as_bytes_bytes assms(3) by auto
  have "\<not> str_contains (masker_apply (masker_add v ms) line) e" if "e \<in> {base64_text ''+/'' True (as_bytes c),
      base64_text ''-_'' False (as_bytes c), percent_text (as_bytes c)}" for e
  proof (rule registered_removed)
    show "e \<in> set (masker_add v ms)" using encodings_registered [OF c _ that] assms(2,3) by (auto simp: set_masker_add)
    show "maskable e"
      using that bytes base64_no_star [of "as_bytes c"] percent_no_star [of "as_bytes c"] base64_not_Nil [of "as_bytes c"]
        percent_encode_not_Nil [of "as_bytes c"]
      unfolding base64_is_text [OF bytes(1), symmetric] percent_is_text [symmetric] by (auto simp: maskable_def)
  qed
  then show "\<not> str_contains (masker_apply (masker_add v ms) line) (base64_text ''+/'' True (as_bytes c))"
    "\<not> str_contains (masker_apply (masker_add v ms) line) (base64_text ''-_'' False (as_bytes c))"
    "\<not> str_contains (masker_apply (masker_add v ms) line) (percent_text (as_bytes c))" by simp_all
qed

text \<open>
  C26: after a value is registered, the redaction of any text contains neither the value nor any of
  its lines (unless it is blank or holds an asterisk, the character of the replacement) nor any value
  registered before. Of a value or line that is not blank and has at least four bytes it contains no
  base64 text either, neither in the standard alphabet with padding nor in the URL-safe one without,
  and no percent encoding; encodings of shorter values are not looked for. The masks stay distinct and ordered longest first.
\<close>

theorem masker_redacts:
  assumes "masker_ok ms" "valid_str v"
  shows "masker_ok (masker_add v ms) \<and>
    (\<forall>m \<in> set ms \<union> set (v # str_lines v). trim m \<noteq> [] \<and> cp CHR ''*'' \<notin> set m \<longrightarrow>
       \<not> str_contains (masker_apply (masker_add v ms) line) m) \<and>
    (\<forall>c \<in> set (v # str_lines v). trim c \<noteq> [] \<and> 4 \<le> length (as_bytes c) \<longrightarrow>
       \<not> str_contains (masker_apply (masker_add v ms) line) (base64_text ''+/'' True (as_bytes c)) \<and>
       \<not> str_contains (masker_apply (masker_add v ms) line) (base64_text ''-_'' False (as_bytes c)) \<and>
       \<not> str_contains (masker_apply (masker_add v ms) line) (percent_text (as_bytes c)))"
proof (intro conjI ballI impI)
  show "masker_ok (masker_add v ms)" using assms by (simp add: masker_add_ok)
  show "\<not> str_contains (masker_apply (masker_add v ms) line) m"
    if "m \<in> set ms \<union> set (v # str_lines v)" "trim m \<noteq> [] \<and> cp CHR ''*'' \<notin> set m" for m
    using that by (intro registered_removed) (auto simp: set_masker_add maskable_def)
qed (use assms encoding_removed in blast)+

theorem masker_redacts_witness:
  "masker_ok [] \<and> valid_str (lit ''hunter2'') \<and>
   masker_apply (masker_add (lit ''hunter2'') []) (lit ''pw=hunter2 aHVudGVyMg=='') =
     lit ''pw=*** ***'' \<and>
   base64_text ''+/'' True (as_bytes (lit ''hunter2'')) = lit ''aHVudGVyMg=='' \<and>
   \<not> str_contains (masker_apply (masker_add (lit ''hunter2'') [])
       (lit ''pw=hunter2 aHVudGVyMg=='')) (lit ''aHVudGVyMg=='')"
proof -
  have ok: "masker_ok []" "valid_str (lit ''hunter2'')"
    by (simp_all add: masker_ok_def valid_str_def is_scalar_def lit_def)
  have t: "trim (lit ''hunter2'') \<noteq> [] \<and> 4 \<le> length (as_bytes (lit ''hunter2''))" by code_simp
  have e: "base64_text ''+/'' True (as_bytes (lit ''hunter2'')) = lit ''aHVudGVyMg==''" by code_simp
  have "masker_apply (masker_add (lit ''hunter2'') []) (lit ''pw=hunter2 aHVudGVyMg=='') =
     lit ''pw=*** ***''"
    by code_simp
  moreover have "\<not> str_contains (masker_apply (masker_add (lit ''hunter2'') []) (lit ''pw=hunter2 aHVudGVyMg==''))
      (base64_text ''+/'' True (as_bytes (lit ''hunter2'')))"
    using masker_redacts [OF ok, of "lit ''pw=hunter2 aHVudGVyMg==''"] t by (simp only: list.set insert_iff ball_simps) blast
  ultimately show ?thesis using ok e by simp
qed

section \<open>Chunks and lines\<close>

lemma split_once_buffer_None: "split_once [10] b = None \<Longrightarrow> 10 \<notin> set b"
  by (metis split_list split_once_char_iff option.distinct(1) split_list_first)

lemma str_lines_unterminated: "10 \<notin> set b \<Longrightarrow> str_lines b = (if b = [] then [] else [b])"
proof -
  assume "10 \<notin> set b"
  then have "dropWhile (\<lambda>c. c \<noteq> 10) b = []" by (auto simp: dropWhile_eq_Nil_conv)
  then show ?thesis by (simp only: str_lines.simps [of b] list.case)
qed

lemma drain_flush:
  "flush e (drain e s) = fold emit (str_lines (buffer e s)) (set_buffer e [] s)"
proof (induction e s rule: drain.induct)
  case (1 e s)
  show ?case
  proof (cases "split_once [10] (buffer e s)")
    case None
    have "buffer e s = [] \<Longrightarrow> set_buffer e [] s = s"
      by (metis set_buffer_buffer)
    then show ?thesis
      using None str_lines_unterminated [OF split_once_buffer_None [OF None]]
      by (simp add: drain.simps [of e s] flush_def)
  next
    case (Some x)
    obtain line rest where x: "x = (line, rest)" by (cases x)
    then have b: "buffer e s = line @ 10 # rest" "10 \<notin> set line"
      using Some by (simp_all add: split_once_char_iff)
    have "flush e (drain e s) = flush e (drain e (emit (strip_cr line) (set_buffer e rest s)))"
      using Some x by (simp add: drain.simps [of e s])
    also have "\<dots> = fold emit (str_lines rest)
        (set_buffer e [] (emit (strip_cr line) (set_buffer e rest s)))"
      using 1 [OF Some, of line rest] x by simp
    also have "\<dots> = fold emit (str_lines (buffer e s)) (set_buffer e [] s)"
      using b by (simp add: str_lines_line flip: emit_set_buffer)
    finally show ?thesis .
  qed
qed

lemma drain_append:
  "drain e (set_buffer e (buffer e (drain e s) @ c) (drain e s)) =
   drain e (set_buffer e (buffer e s @ c) s)"
proof (induction e s rule: drain.induct)
  case (1 e s)
  show ?case
  proof (cases "split_once [10] (buffer e s)")
    case None
    then show ?thesis by (simp add: drain.simps [of e s])
  next
    case (Some x)
    obtain line rest where x: "x = (line, rest)" by (cases x)
    define s' where "s' = emit (strip_cr line) (set_buffer e rest s)"
    have "split_once [10] (buffer e s @ c) = Some (line, rest @ c)"
      using Some x by (auto simp: split_once_char_iff)
    then have "drain e (set_buffer e (buffer e s @ c) s) =
        drain e (emit (strip_cr line) (set_buffer e (rest @ c) s))"
      by (simp add: drain.simps [of e "set_buffer e (buffer e s @ c) s"])
    also have "\<dots> = drain e (set_buffer e (buffer e s' @ c) s')"
      by (simp add: s'_def flip: emit_set_buffer)
    also have "\<dots> = drain e (set_buffer e (buffer e (drain e s') @ c) (drain e s'))"
      using 1 [OF Some, of line rest] x by (simp add: s'_def)
    also have "drain e s' = drain e s"
      using Some x by (simp add: drain.simps [of e s] s'_def)
    finally show ?thesis by simp
  qed
qed

definition on_chunk :: "bool \<times> nat list \<Rightarrow> sink \<Rightarrow> sink" where
  "on_chunk ec s = (if fst ec then on_stderr (snd ec) s else on_stdout (snd ec) s)"

lemma on_chunk_drain:
  "on_chunk (e, c) s = drain e (set_buffer e (buffer e s @ c) s)"
  by (simp add: on_chunk_def on_stderr_def on_stdout_def buffer_def set_buffer_def)

lemma on_stdout_drain: "on_stdout c s = drain False (set_buffer False (buffer False s @ c) s)"
  using on_chunk_drain [of False c s] by (simp add: on_chunk_def)

lemma on_stdout_append: "on_stdout d (on_stdout c s) = on_stdout (c @ d) s"
  using drain_append [of False "set_buffer False (buffer False s @ c) s" d]
  by (simp add: on_stdout_drain)

lemma fold_on_stdout: "fold on_stdout chunks (on_stdout c s) = on_stdout (c @ concat chunks) s"
  by (induction chunks arbitrary: c) (simp_all add: on_stdout_append)

lemma other_buffer_drain: "e \<noteq> e' \<Longrightarrow> buffer e' (drain e s) = buffer e' s"
proof (induction e s rule: drain.induct)
  case (1 e s)
  then show ?case by (subst drain.simps) (auto split: option.splits)
qed

text \<open>
  C27: however the standard output of a step is cut into chunks, the sink emits exactly the lines of
  the whole stream, each ended by LF or CRLF and the last one with or without its terminator, in
  order and once.
\<close>

theorem sink_lines_independent_of_chunks:
  "finish (fold on_stdout chunks (new_sink accepts ms)) =
   fold emit (str_lines (concat chunks)) (new_sink accepts ms)"
proof -
  let ?s = "new_sink accepts ms"
  have buffers: "buffer e ?s = []" for e
    by (simp add: new_sink_def buffer_def)
  then have start: "on_stdout [] ?s = ?s"
    using set_buffer_buffer [of False ?s]
    by (simp add: on_stdout_drain drain.simps [of False ?s])
  have "fold on_stdout chunks ?s = on_stdout (concat chunks) ?s"
    using fold_on_stdout [of chunks "[]" ?s] start by simp
  moreover have "flush False (on_stdout (concat chunks) ?s) =
      fold emit (str_lines (concat chunks)) (set_buffer False [] ?s)"
    by (simp add: on_stdout_drain drain_flush buffers)
  moreover have "set_buffer False [] ?s = ?s"
    using set_buffer_buffer [of False ?s] by (simp add: buffers)
  moreover have "buffer True (fold emit ls ?s) = []" for ls
    by (rule fold_invariant [where Q = "\<lambda>_. True"]) (simp_all add: buffers)
  ultimately show ?thesis by (simp add: finish_def flush_def [of True])
qed

section \<open>No registered value is written\<close>

definition tags :: "ustr set" where
  "tags = {[], [9662] @ lit '' '', lit ''[error] '', lit ''[warning] '', lit ''[notice] ''}"

text \<open>A written line: an indentation, the sink's own tag, and a body without the value.\<close>

definition hides :: "ustr \<Rightarrow> ustr \<Rightarrow> bool" where
  "hides m line \<longleftrightarrow> (\<exists>d tag body. line = concat (replicate d (lit ''  '')) @ tag @ body
     \<and> tag \<in> tags \<and> \<not> str_contains body m)"

text \<open>\<open>masked m s s'\<close>: from \<open>s\<close> to \<open>s'\<close> only lines that hide \<open>m\<close> are written.\<close>

definition masked :: "ustr \<Rightarrow> sink \<Rightarrow> sink \<Rightarrow> bool" where
  "masked m s s' \<longleftrightarrow> set (s_masker s) \<subseteq> set (s_masker s') \<and>
     (\<exists>new. s_out s' = s_out s @ new \<and> list_all (hides m) new)"

lemma masked_refl: "masked m s s"
  by (simp add: masked_def)

lemma masked_trans: "masked m s s' \<Longrightarrow> masked m s' s'' \<Longrightarrow> masked m s s''"
  by (fastforce simp: masked_def list_all_append)

lemma masked_line:
  assumes "tag \<in> tags" "m \<in> set (s_masker s)" "maskable m"
  shows "masked m s (sink_line (tag @ masker_apply (s_masker s) b) s)"
proof -
  have "\<not> str_contains (masker_apply (s_masker s) b) m"
    using assms masker_apply_removes by (simp add: str_contains_def)
  then have "hides m (concat (replicate d (lit ''  '')) @ tag @ masker_apply (s_masker s) b)" for d
    using assms(1) unfolding hides_def by blast
  then show ?thesis by (simp add: masked_def sink_line_def Let_def)
qed

lemma masked_cong:
  "s_masker t = s_masker s \<Longrightarrow> s_out t = s_out s \<Longrightarrow> s_masker t' = s_masker s' \<Longrightarrow>
   s_out t' = s_out s' \<Longrightarrow> masked m s s' \<Longrightarrow> masked m t t'"
  by (simp add: masked_def)

lemma masked_emit:
  assumes m: "m \<in> set (s_masker s)" "maskable m"
  shows "masked m s (emit raw s)"
proof (cases "parse_line (from_utf8_lossy raw)")
  case (AddMask v)
  then show ?thesis by (simp add: emit_def masked_def set_masker_add)
next
  case (StartGroup title)
  have "masked m s (sink_line (([9662] @ lit '' '') @ masker_apply (s_masker s) title) s)"
    using m by (intro masked_line) (simp_all add: tags_def)
  then show ?thesis
    by (simp add: emit_def StartGroup Let_def masked_def)
next
  case (Error a)
  have "masked m (s\<lparr>s_errors := n\<rparr>) (sink_line (lit ''[error] '' @
      masker_apply (s_masker (s\<lparr>s_errors := n\<rparr>)) (message a)) (s\<lparr>s_errors := n\<rparr>))" for n
    using m by (intro masked_line) (simp_all add: tags_def)
  then show ?thesis
    by (simp add: emit_def Error sink_annotation_def masked_def lit_def)
next
  case (Warning a)
  have "masked m (s\<lparr>s_warnings := n\<rparr>) (sink_line (lit ''[warning] '' @
      masker_apply (s_masker (s\<lparr>s_warnings := n\<rparr>)) (message a)) (s\<lparr>s_warnings := n\<rparr>))" for n
    using m by (intro masked_line) (simp_all add: tags_def)
  then show ?thesis
    by (simp add: emit_def Warning sink_annotation_def masked_def lit_def)
next
  case (Notice a)
  have "masked m s (sink_line (lit ''[notice] '' @ masker_apply (s_masker s) (message a)) s)"
    using m by (intro masked_line) (simp_all add: tags_def)
  then show ?thesis
    by (simp add: emit_def Notice sink_annotation_def lit_def)
next
  case (Output t)
  have "masked m s (sink_line ([] @ masker_apply (s_masker s) t) s)"
    using m by (intro masked_line) (simp_all add: tags_def)
  then show ?thesis by (simp add: emit_def Output)
qed (simp_all add: emit_def masked_def)

lemma masked_keeps: "masked m s s' \<Longrightarrow> m \<in> set (s_masker s) \<Longrightarrow> m \<in> set (s_masker s')"
  by (auto simp: masked_def)

lemma masked_set_buffer: "masked m s (set_buffer e b s)"
  by (simp add: masked_def set_buffer_def)

lemma masked_drain:
  "m \<in> set (s_masker s) \<Longrightarrow> maskable m \<Longrightarrow> masked m s (drain e s)"
proof (induction e s rule: drain.induct)
  case (1 e s)
  show ?case
  proof (cases "split_once [10] (buffer e s)")
    case None
    then show ?thesis by (simp add: drain.simps [of e s] masked_refl)
  next
    case (Some x)
    obtain line rest where x: "x = (line, rest)" by (cases x)
    let ?s = "emit (strip_cr line) (set_buffer e rest s)"
    have step: "masked m s ?s"
      using 1(2,3) masked_set_buffer masked_trans masked_emit masked_keeps by metis
    then have "masked m ?s (drain e ?s)"
      using 1(1) [OF Some, of line rest] x 1(2,3) masked_keeps by simp
    then show ?thesis
      using step Some x masked_trans by (simp add: drain.simps [of e s])
  qed
qed

lemma masked_flush:
  assumes "m \<in> set (s_masker s)" "maskable m"
  shows "masked m s (flush e s)"
proof -
  have "masked m s (set_buffer e [] s)" by (rule masked_set_buffer)
  then have "masked m s (emit raw (set_buffer e [] s))" for raw
    using assms masked_trans masked_emit masked_keeps by blast
  then show ?thesis by (simp add: flush_def masked_refl)
qed

lemma masked_chunks:
  "m \<in> set (s_masker s) \<Longrightarrow> maskable m \<Longrightarrow> masked m s (fold on_chunk events s)"
proof (induction events arbitrary: s)
  case (Cons ec events)
  obtain e c where ec: "ec = (e, c)" by (cases ec)
  have step: "masked m s (on_chunk ec s)"
    unfolding ec on_chunk_drain
    using Cons.prems masked_set_buffer masked_drain masked_keeps masked_trans by metis
  moreover have "masked m (on_chunk ec s) (fold on_chunk events (on_chunk ec s))"
    using Cons step masked_keeps by metis
  ultimately show ?case using masked_trans by simp
qed (simp add: masked_refl)

text \<open>
  C3: from any state in which a value without asterisk is registered (by a secret of the run or by
  an earlier \<open>::add-mask::\<close> line), no interleaving of chunks on the two streams makes the sink
  write it: what it appends to the log are lines whose body, behind the indentation and the sink's
  own tag, does not contain the value.
\<close>

theorem sink_never_writes_masked_value:
  assumes "m \<in> set (s_masker s)" "maskable m"
  shows "\<exists>new. s_out (finish (fold on_chunk events s)) = s_out s @ new \<and>
    (\<forall>line \<in> set new. hides m line)"
proof -
  let ?t = "fold on_chunk events s"
  have "masked m s ?t" using assms by (rule masked_chunks)
  moreover have "masked m ?t (flush False ?t)" "masked m (flush False ?t) (finish ?t)"
    unfolding finish_def using assms calculation masked_flush masked_keeps by metis+
  ultimately have "masked m s (finish ?t)" using masked_trans by blast
  then show ?thesis by (simp add: masked_def list_all_iff)
qed

theorem sink_never_writes_masked_value_witness:
  "s_out (finish (fold on_chunk [(False, as_bytes (lit ''::error::key '')),
       (False, as_bytes (lit ''hunter2'' @ [10])), (True, as_bytes (lit ''hunter2''))]
       (new_sink (\<lambda>_. True) [lit ''hunter2'']))) = [lit ''[error] key ***'', lit ''***''] \<and>
   hides (lit ''hunter2'') (lit ''[error] key ***'') \<and> hides (lit ''hunter2'') (lit ''***'')"
proof -
  let ?s = "new_sink (\<lambda>_. True) [lit ''hunter2'']"
  let ?events = "[(False, as_bytes (lit ''::error::key '')),
       (False, as_bytes (lit ''hunter2'' @ [10])), (True, as_bytes (lit ''hunter2''))]"
  have m: "lit ''hunter2'' \<in> set (s_masker ?s)" "maskable (lit ''hunter2'')"
    by (simp_all add: new_sink_def maskable_def lit_def)
  have out: "s_out (finish (fold on_chunk ?events ?s)) = [lit ''[error] key ***'', lit ''***'']"
    by code_simp
  moreover have "s_out ?s = []" by (simp add: new_sink_def)
  ultimately show ?thesis
    using sink_never_writes_masked_value [OF m, of ?events] by simp
qed

end
