(* ===== verification/Command_Files.thy ===== *)
theory Command_Files
  imports Log_Commands
begin

text \<open>
  The per-step command files: their parsers
  (\<open>greenlit-engine/src/execution/command_files.rs\<close>) and the runtime side that names them,
  chooses the heredoc delimiter of the step script, reads them back and folds their effects into
  the state of the job (\<open>greenlit-runtime/src/executor/cmdfiles.rs\<close>). Writing and reading a
  file inside the container are calls to the container engine, a parameter here.
\<close>

section \<open>Parsers\<close>

definition MAX_STEP_SUMMARY_BYTES :: nat where
  "MAX_STEP_SUMMARY_BYTES = 1024 * 1024"

datatype env_file_error =
    InvalidLine ustr
  | UnterminatedHeredoc ustr ustr
  | EmptyDelimiter ustr

record assignment =
  a_name :: ustr
  a_value :: ustr

definition heredoc_opener :: "ustr \<Rightarrow> (ustr \<times> ustr) option" where
  "heredoc_opener line = (case split_once (lit ''<<'') line of
     None \<Rightarrow> None
   | Some (name, rest) \<Rightarrow> (if cp CHR ''='' \<in> set name then None else Some (name, rest)))"

text \<open>The inner loop: the body up to the delimiter and the lines after it, if it is there.\<close>

fun heredoc_body :: "ustr \<Rightarrow> ustr list \<Rightarrow> (ustr list \<times> ustr list) option" where
  "heredoc_body delimiter [] = None"
| "heredoc_body delimiter (l # ls) = (if l = delimiter then Some ([], ls)
     else map_option (\<lambda>(body, rest). (l # body, rest)) (heredoc_body delimiter ls))"

lemma heredoc_body_Some:
  "heredoc_body d ls = Some (body, rest) \<Longrightarrow> ls = body @ d # rest \<and> d \<notin> set body"
  by (induction ls arbitrary: body) (auto split: if_splits)

lemma heredoc_body_append: "d \<notin> set body \<Longrightarrow> heredoc_body d (body @ d # rest) = Some (body, rest)"
  by (induction body) auto

function parse_env_lines :: "ustr list \<Rightarrow> env_file_error + assignment list" where
  "parse_env_lines lines = (case lines of [] \<Rightarrow> Inr []
   | line # rest \<Rightarrow>
      (if line = [] then parse_env_lines rest
       else case heredoc_opener line of
         Some (name, delimiter) \<Rightarrow>
           (if delimiter = [] then Inl (EmptyDelimiter name)
            else case heredoc_body delimiter rest of
              None \<Rightarrow> Inl (UnterminatedHeredoc name delimiter)
            | Some (body, after) \<Rightarrow> rbind (parse_env_lines after) (\<lambda>more_assignments.
                Inr (\<lparr>a_name = name, a_value = join_with [10] body\<rparr> # more_assignments)))
       | None \<Rightarrow> (case split_once (lit ''='') line of
           Some (name, v) \<Rightarrow> rbind (parse_env_lines rest) (\<lambda>more_assignments.
             Inr (\<lparr>a_name = name, a_value = v\<rparr> # more_assignments))
         | None \<Rightarrow> Inl (InvalidLine line))))"
  by pat_completeness auto
termination
  by (relation "measure length") (auto dest!: heredoc_body_Some)

declare parse_env_lines.simps [simp del]

definition parse_env_file :: "ustr \<Rightarrow> env_file_error + assignment list" where
  "parse_env_file contents = parse_env_lines (str_lines contents)"

definition parse_path_file :: "ustr \<Rightarrow> ustr list" where
  "parse_path_file contents = filter (\<lambda>line. line \<noteq> []) (str_lines contents)"

definition accept_step_summary :: "ustr \<Rightarrow> ustr option" where
  "accept_step_summary contents =
     (if MAX_STEP_SUMMARY_BYTES < str_len contents then None else Some contents)"

section \<open>The files of a step\<close>

record command_file_paths =
  p_dir :: ustr
  p_env :: ustr
  p_output :: ustr
  p_path :: ustr
  p_summary :: ustr
  p_script :: ustr
  p_pid :: ustr

definition new_command_file_paths :: "ustr \<Rightarrow> nat \<Rightarrow> command_file_paths" where
  "new_command_file_paths base i = (let dir = base @ lit ''/step-'' @ dec_string i in
     \<lparr>p_dir = dir, p_env = dir @ lit ''/env'', p_output = dir @ lit ''/output'',
      p_path = dir @ lit ''/path'', p_summary = dir @ lit ''/summary'',
      p_script = dir @ lit ''/script'', p_pid = dir @ lit ''/pid''\<rparr>)"

definition event_file_path :: "ustr \<Rightarrow> ustr" where
  "event_file_path base = base @ lit ''/event.json''"

record command_file_effects =
  e_env :: "assignment list"
  e_path_additions :: "ustr list"
  e_outputs :: "assignment list"
  e_summary_within_limit :: bool

datatype 'x command_file_error =
    EngineError 'x
  | EnvMalformed env_file_error
  | OutputMalformed env_file_error
  | PrepareFailed int

text \<open>The parsing of the four texts at the end of \<open>collect\<close>.\<close>

definition parse_effects :: "ustr \<Rightarrow> ustr \<Rightarrow> ustr \<Rightarrow> ustr \<Rightarrow>
    'x command_file_error + command_file_effects" where
  "parse_effects env_text output_text path_text summary_text =
    (case parse_env_file env_text of
       Inl e \<Rightarrow> Inl (EnvMalformed e)
     | Inr env_assignments \<Rightarrow> (case parse_env_file output_text of
         Inl e \<Rightarrow> Inl (OutputMalformed e)
       | Inr outputs \<Rightarrow>
           Inr \<lparr>e_env = env_assignments, e_path_additions = parse_path_file path_text,
                e_outputs = outputs,
                e_summary_within_limit = (accept_step_summary summary_text \<noteq> None)\<rparr>))"

definition env_file_error_text :: "env_file_error \<Rightarrow> ustr" where
  "env_file_error_text e = (case e of
     InvalidLine l \<Rightarrow> lit ''invalid environment-file line (expected '' @ [39] @ lit ''NAME=VALUE''
       @ [39] @ lit '' or a '' @ [39] @ lit ''NAME<<DELIMITER'' @ [39] @ lit '' block): '' @ l
   | UnterminatedHeredoc n d \<Rightarrow> lit ''unterminated heredoc block for '' @ [39] @ n @ [39]
       @ lit '' (missing closing delimiter '' @ [39] @ d @ [39] @ lit '')''
   | EmptyDelimiter n \<Rightarrow> lit ''heredoc opener for '' @ [39] @ n @ [39]
       @ lit '' has an empty delimiter'')"

definition command_file_error_text :: "('x \<Rightarrow> ustr) \<Rightarrow> 'x command_file_error \<Rightarrow> ustr" where
  "command_file_error_text show_engine e = (case e of
     EngineError x \<Rightarrow> show_engine x
   | EnvMalformed x \<Rightarrow> lit ''GITHUB_ENV is malformed: '' @ env_file_error_text x
   | OutputMalformed x \<Rightarrow> lit ''GITHUB_OUTPUT is malformed: '' @ env_file_error_text x
   | PrepareFailed n \<Rightarrow> lit ''could not prepare a step'' @ [39]
       @ lit ''s workspace inside the container (exit ''
       @ (if n < 0 then lit ''-'' else []) @ dec_string (nat \<bar>n\<bar>) @ lit '')'' @ [10]
       @ lit ''  fix: ensure the runner image provides a POSIX `sh`, `mkdir`, and `cat`'')"

text \<open>The effects on the job's state: its \<open>GITHUB_ENV\<close> values and its \<open>PATH\<close> additions.\<close>

definition apply_effects :: "command_file_effects \<Rightarrow> (ustr, ustr) index_map \<times> ustr list \<Rightarrow>
    (ustr, ustr) index_map \<times> ((ustr, ustr) index_map \<times> ustr list)" where
  "apply_effects effects st =
    (let accumulated = fold (\<lambda>a. im_insert (a_name a) (a_value a)) (e_env effects) (fst st);
         path_additions = (if e_path_additions effects = [] then snd st
           else e_path_additions effects @ snd st)
     in (fold (\<lambda>a. im_insert (a_name a) (a_value a)) (e_outputs effects) [],
         accumulated, path_additions))"

section \<open>The heredoc delimiter\<close>

text \<open>
  The loop appends \<open>X\<close> while the delimiter is a line of the script; it ends because a script
  has finitely many lines. \<open>nanos\<close> is the clock.
\<close>

function delimiter_loop :: "ustr list \<Rightarrow> ustr \<Rightarrow> ustr" where
  "delimiter_loop lines d = (if d \<in> set lines then delimiter_loop lines (d @ lit ''X'') else d)"
  by pat_completeness auto
termination
proof (relation "measure (\<lambda>(lines, d). card {l \<in> set lines. length d \<le> length l})", goal_cases)
  case (2 lines d)
  have "{l \<in> set lines. length (d @ lit ''X'') \<le> length l} \<subset> {l \<in> set lines. length d \<le> length l}"
    using 2 by (auto simp: Suc_le_eq)
  then show ?case by (simp add: psubset_card_mono)
qed simp

declare delimiter_loop.simps [simp del]

definition heredoc_delimiter :: "nat \<Rightarrow> ustr \<Rightarrow> ustr" where
  "heredoc_delimiter nanos script =
     delimiter_loop (str_lines script) (lit ''GREENLIT_SCRIPT_EOF_'' @ dec_string nanos)"

lemma delimiter_loop_fresh: "delimiter_loop lines d \<notin> set lines"
proof (induction lines d rule: delimiter_loop.induct)
  case (1 lines d)
  then show ?case by (subst delimiter_loop.simps) simp
qed

section \<open>What the parser reads back\<close>

text \<open>
  A writer's rendering of one assignment: \<open>NAME=VALUE\<close> for a value without line break, a
  heredoc block with the given delimiter otherwise.
\<close>

definition render_simple :: "assignment \<Rightarrow> ustr" where
  "render_simple a = a_name a @ lit ''='' @ a_value a @ [10]"

definition render_heredoc :: "ustr \<Rightarrow> assignment \<Rightarrow> ustr" where
  "render_heredoc d a = a_name a @ lit ''<<'' @ d @ [10] @ a_value a @ [10] @ d @ [10]"

definition render_assignment :: "ustr \<Rightarrow> assignment \<Rightarrow> ustr" where
  "render_assignment d a = (if 10 \<in> set (a_value a) then render_heredoc d a else render_simple a)"

text \<open>A piece of text on one line that the line splitter does not shorten.\<close>

definition one_line :: "ustr \<Rightarrow> bool" where
  "one_line s \<longleftrightarrow> 10 \<notin> set s \<and> (s \<noteq> [] \<longrightarrow> last s \<noteq> 13)"

text \<open>
  What a writer has to respect: a name without equals sign, without \<open><\<close> and on one line; a
  delimiter on one line that is not a line of the value; no line of the value ended by a carriage
  return.
\<close>

definition writable :: "ustr \<Rightarrow> assignment \<Rightarrow> bool" where
  "writable d a \<longleftrightarrow> cp CHR ''='' \<notin> set (a_name a) \<and> cp CHR ''<'' \<notin> set (a_name a)
     \<and> 10 \<notin> set (a_name a) \<and> d \<noteq> [] \<and> one_line d \<and> d \<notin> set (split_char 10 (a_value a))
     \<and> list_all one_line (split_char 10 (a_value a))"

lemma strip_cr_one_line: "one_line s \<Longrightarrow> strip_cr s = s"
  by (auto simp: one_line_def strip_cr_def)

lemma str_lines_split_char:
  "list_all one_line (split_char 10 s) \<Longrightarrow> str_lines (s @ 10 # rest) = split_char 10 s @ str_lines rest"
proof (induction "length s" arbitrary: s rule: less_induct)
  case less
  show ?case
  proof (cases "10 \<in> set s")
    case False
    then have "one_line s" using less.prems by (simp add: split_char_none)
    then show ?thesis using False by (simp add: split_char_none str_lines_line strip_cr_one_line)
  next
    case True
    then obtain a b where s: "s = a @ 10 # b" "10 \<notin> set a" by (metis split_list_first)
    have split: "split_char 10 (a @ 10 # b) = a # split_char 10 b" if "10 \<notin> set a" for a
      using that by (induction a) auto
    have "one_line a" "list_all one_line (split_char 10 b)"
      using less.prems by (simp_all add: s split)
    then have "str_lines (b @ 10 # rest) = split_char 10 b @ str_lines rest"
      using less.hyps [of b] by (simp add: s(1))
    then show ?thesis
      using s \<open>one_line a\<close> by (simp add: split str_lines_line strip_cr_one_line)
  qed
qed

lemma split_once_two_first:
  "cp CHR ''<'' \<notin> set name \<Longrightarrow> split_once (lit ''<<'') (name @ lit ''<<'' @ d) = Some (name, d)"
  by (induction name) (auto simp: lit_def)

lemma assignment_eta [simp]: "\<lparr>a_name = a_name a, a_value = a_value a\<rparr> = a"
  by simp

lemma parse_simple:
  assumes "writable d a" "10 \<notin> set (a_value a)"
  shows "parse_env_lines (str_lines (render_simple a @ rest)) =
    rbind (parse_env_lines (str_lines rest)) (\<lambda>as. Inr (a # as))"
proof -
  let ?l = "a_name a @ lit ''='' @ a_value a"
  have v: "one_line (a_value a)" using assms by (simp add: writable_def split_char_none)
  have "10 \<notin> set ?l" using assms by (auto simp: writable_def lit_def)
  moreover have "strip_cr ?l = ?l"
    using v by (auto simp: strip_cr_def one_line_def lit_def)
  ultimately have lines: "str_lines (render_simple a @ rest) = ?l # str_lines rest"
    using str_lines_line [of ?l rest] by (simp add: render_simple_def)
  have "heredoc_opener ?l = None"
  proof (cases "split_once (lit ''<<'') ?l")
    case (Some x)
    obtain n r where x: "x = (n, r)" by (cases x)
    then have "?l = n @ lit ''<<'' @ r" using Some split_once_Some by blast
    then have "cp CHR ''='' \<in> set n"
      using assms
      apply (auto simp: writable_def lit_def append_eq_append_conv2 Cons_eq_append_conv)
      subgoal for us by (cases us) auto
      done
    then show ?thesis using Some x by (simp add: heredoc_opener_def)
  qed (simp add: heredoc_opener_def)
  moreover have "split_once (lit ''='') ?l = Some (a_name a, a_value a)"
    using assms by (simp add: lit_def split_once_char_iff writable_def)
  moreover have "?l \<noteq> []" by (simp add: lit_def)
  ultimately show ?thesis
    by (simp add: lines parse_env_lines.simps [of "?l # str_lines rest"])
qed

lemma parse_heredoc:
  assumes "writable d a"
  shows "parse_env_lines (str_lines (render_heredoc d a @ rest)) =
    rbind (parse_env_lines (str_lines rest)) (\<lambda>as. Inr (a # as))"
proof -
  let ?l = "a_name a @ lit ''<<'' @ d"
  have d: "d \<noteq> []" "one_line d" "d \<notin> set (split_char 10 (a_value a))"
    using assms by (simp_all add: writable_def)
  have "10 \<notin> set ?l" using assms by (auto simp: writable_def lit_def one_line_def)
  moreover have "strip_cr ?l = ?l"
    using d by (auto simp: strip_cr_def one_line_def)
  ultimately have lines: "str_lines (render_heredoc d a @ rest) =
      ?l # split_char 10 (a_value a) @ d # str_lines rest"
    using assms d str_lines_line [of ?l] str_lines_split_char [of "a_value a" "d @ 10 # rest"]
      str_lines_line [of d rest]
    by (simp add: render_heredoc_def writable_def one_line_def strip_cr_one_line)
  have "heredoc_opener ?l = Some (a_name a, d)"
    using assms split_once_two_first by (simp add: heredoc_opener_def writable_def)
  moreover have "?l \<noteq> []" by (simp add: lit_def)
  ultimately show ?thesis
    using d by (simp add: lines parse_env_lines.simps [of "?l # _"] heredoc_body_append join_split_char)
qed

text \<open>
  C25: for assignments a step can write to \<open>GITHUB_ENV\<close> or \<open>GITHUB_OUTPUT\<close> (\<open>writable\<close>: the name
  has no \<open>=\<close>, no \<open><\<close> and no line break; the delimiter is not empty, has no line break, does not end
  with a carriage return and is not a line of the value; and no line of the value ends with a carriage
  return), each written as \<open>NAME=VALUE\<close> or, when its value has line breaks, as a heredoc block with its
  delimiter, the parser reads back exactly these names and values in file order.
\<close>

theorem env_file_round_trip:
  assumes "list_all (\<lambda>(d, a). writable d a) as"
  shows "parse_env_file (concat (map (\<lambda>(d, a). render_assignment d a) as)) = Inr (map snd as)"
  using assms
proof (induction as)
  case Nil
  show ?case by (simp add: parse_env_file_def parse_env_lines.simps)
next
  case (Cons x as)
  obtain d a where x: "x = (d, a)" by (cases x)
  then show ?case
    using Cons by (simp add: parse_env_file_def render_assignment_def parse_simple [of d] parse_heredoc [of d])
qed

theorem env_file_round_trip_witness:
  "list_all (\<lambda>(d, a). writable d a)
     [(lit ''EOF'', \<lparr>a_name = lit ''A'', a_value = lit ''x<<EOF=1''\<rparr>),
      (lit ''EOF'', \<lparr>a_name = lit ''B'', a_value = lit ''one'' @ [10, 10] @ lit ''A=2''\<rparr>)] \<and>
   parse_env_file (lit ''A=x<<EOF=1'' @ [10] @ lit ''B<<EOF'' @ [10] @ lit ''one'' @ [10, 10]
       @ lit ''A=2'' @ [10] @ lit ''EOF'' @ [10]) =
     Inr [\<lparr>a_name = lit ''A'', a_value = lit ''x<<EOF=1''\<rparr>,
          \<lparr>a_name = lit ''B'', a_value = lit ''one'' @ [10, 10] @ lit ''A=2''\<rparr>]"
proof -
  let ?as = "[(lit ''EOF'', \<lparr>a_name = lit ''A'', a_value = lit ''x<<EOF=1''\<rparr>),
      (lit ''EOF'', \<lparr>a_name = lit ''B'', a_value = lit ''one'' @ [10, 10] @ lit ''A=2''\<rparr>)]"
  have ok: "list_all (\<lambda>(d, a). writable d a) ?as" by code_simp
  have text_of: "concat (map (\<lambda>(d, a). render_assignment d a) ?as) =
     lit ''A=x<<EOF=1'' @ [10] @ lit ''B<<EOF'' @ [10] @ lit ''one'' @ [10, 10]
       @ lit ''A=2'' @ [10] @ lit ''EOF'' @ [10]"
    by code_simp
  show ?thesis using env_file_round_trip [OF ok] ok unfolding text_of by simp
qed

end
