(* ===== verification/Uses_Ref.thy ===== *)
theory Uses_Ref
  imports Rust_Text
begin

text \<open>
  The references of \<open>uses\<close> steps (\<open>greenlit-actions/src/uses_ref.rs\<close>): the four documented
  forms, their parser and their display. A parsed reference displays as the text it came from, and
  an accepted local path never leaves the repository; the subdirectory of a repository reference,
  however, may.
\<close>

record repository_ref =
  rr_owner :: ustr
  rr_repo :: ustr
  rr_path :: "ustr option"
  rr_git_ref :: ustr

datatype action_ref = Repository repository_ref | Local ustr | Docker ustr

datatype uses_ref_error =
    EmptyUses
  | EmptyDockerImage
  | EmptyLocalPath
  | LocalPathEscapesRepository ustr
  | MissingRef ustr
  | MissingRepo ustr
  | EmptyRef ustr
  | EmptyPathSegment ustr

definition parse_docker :: "ustr \<Rightarrow> uses_ref_error + action_ref" where
  "parse_docker img = (if img = [] then Inl EmptyDockerImage else Inr (Docker img))"

text \<open>The walk over the components of a local path, with the depth reached so far.\<close>

fun walk_local :: "int \<Rightarrow> ustr list \<Rightarrow> bool" where
  "walk_local depth [] = True"
| "walk_local depth (component # cs) =
    (if component = [] \<or> component = lit ''.'' then walk_local depth cs
     else if component = lit ''..'' then (if depth - 1 < 0 then False else walk_local (depth - 1) cs)
     else walk_local (depth + 1) cs)"

definition parse_local :: "ustr \<Rightarrow> uses_ref_error + action_ref" where
  "parse_local path_text =
    (if path_text = lit ''./'' \<or> path_text = lit ''.'' then Inl EmptyLocalPath
     else if walk_local 0 (drop 1 (split_char (cp CHR ''/'') path_text)) then Inr (Local path_text)
     else Inl (LocalPathEscapesRepository path_text))"

definition parse_repository :: "ustr \<Rightarrow> uses_ref_error + action_ref" where
  "parse_repository input = (case rsplit_once (cp CHR ''@'') input of
     None \<Rightarrow> Inl (MissingRef input)
   | Some (path_part, git_ref) \<Rightarrow>
      (if git_ref = [] then Inl (EmptyRef input)
       else case split_char (cp CHR ''/'') path_part of
         owner # repo # remaining \<Rightarrow>
          (if owner = [] \<or> repo = [] then Inl (MissingRepo input)
           else if remaining = [] then Inr (Repository
             \<lparr>rr_owner = owner, rr_repo = repo, rr_path = None, rr_git_ref = git_ref\<rparr>)
           else if [] \<in> set remaining then Inl (EmptyPathSegment input)
           else Inr (Repository \<lparr>rr_owner = owner, rr_repo = repo,
             rr_path = Some (join_with (lit ''/'') remaining), rr_git_ref = git_ref\<rparr>))
       | _ \<Rightarrow> Inl (MissingRepo input)))"

definition parse_action_ref :: "ustr \<Rightarrow> uses_ref_error + action_ref" where
  "parse_action_ref input =
    (if input = [] then Inl EmptyUses
     else case strip_prefix (lit ''docker://'') input of
       Some img \<Rightarrow> parse_docker img
     | None \<Rightarrow>
        (if input = lit ''.'' \<or> prefix (lit ''./'') input then parse_local input
         else parse_repository input))"

fun display_action_ref :: "action_ref \<Rightarrow> ustr" where
  "display_action_ref (Repository r) = rr_owner r @ lit ''/'' @ rr_repo r
     @ (case rr_path r of Some p \<Rightarrow> lit ''/'' @ p | None \<Rightarrow> []) @ lit ''@'' @ rr_git_ref r"
| "display_action_ref (Local p) = p"
| "display_action_ref (Docker img) = lit ''docker://'' @ img"

section \<open>Display and parse\<close>

lemma parse_repository_display:
  "parse_repository input = Inr r \<Longrightarrow> display_action_ref r = input"
proof -
  assume parsed: "parse_repository input = Inr r"
  then obtain path_part git_ref owner repo remaining where
    input: "rsplit_once (cp CHR ''@'') input = Some (path_part, git_ref)" and
    parts: "split_char (cp CHR ''/'') path_part = owner # repo # remaining" and
    r: "r = Repository \<lparr>rr_owner = owner, rr_repo = repo,
        rr_path = (if remaining = [] then None else Some (join_with (lit ''/'') remaining)),
        rr_git_ref = git_ref\<rparr>"
    by (auto simp: parse_repository_def split: option.splits if_splits list.splits)
  have "join_with [cp CHR ''/''] (owner # repo # remaining) = path_part"
    using join_split_char [of "cp CHR ''/''" path_part] parts by simp
  moreover have "input = path_part @ cp CHR ''@'' # git_ref"
    using input by (simp add: rsplit_once_iff)
  ultimately show ?thesis
    by (cases remaining) (auto simp: r lit_def)
qed

text \<open>A subdirectory that stays inside the repository it is in.\<close>

definition contained_path :: "ustr \<Rightarrow> bool" where
  "contained_path p \<longleftrightarrow> walk_local 0 (split_char (cp CHR ''/'') p)"

text \<open>The depth after each component of a path, starting from the root.\<close>

fun depths :: "int \<Rightarrow> ustr list \<Rightarrow> int list" where
  "depths d [] = []"
| "depths d (c # cs) =
    (let d' = (if c = [] \<or> c = lit ''.'' then d else if c = lit ''..'' then d - 1 else d + 1)
     in d' # depths d' cs)"

lemma walk_local_depths:
  "0 \<le> d \<Longrightarrow> walk_local d cs \<longleftrightarrow> (\<forall>x \<in> set (depths d cs). 0 \<le> x)"
  by (induction d cs rule: walk_local.induct) (auto simp: Let_def lit_def)

text \<open>
  C37: the display of a parsed \<open>uses\<close> reference is the text it was parsed from, so a reference is
  reported and locked under exactly the name the workflow wrote; and a local reference is accepted
  only if no prefix of its components climbs above the repository root.
\<close>

theorem uses_reference_round_trip:
  assumes "parse_action_ref input = Inr r"
  shows "display_action_ref r = input \<and> parse_action_ref (display_action_ref r) = Inr r \<and>
    (\<forall>p. r = Local p \<longrightarrow> (\<forall>d \<in> set (depths 0 (drop 1 (split_char (cp CHR ''/'') p))). 0 \<le> d))"
proof -
  have shown: "display_action_ref r = input"
  proof (cases "strip_prefix (lit ''docker://'') input")
    case (Some img)
    then have "input = lit ''docker://'' @ img" by (simp add: strip_prefix_Some)
    moreover have "r = Docker img"
      using assms Some by (auto simp: parse_action_ref_def parse_docker_def split: if_splits)
    ultimately show ?thesis by simp
  next
    case None
    then show ?thesis
      using assms parse_repository_display
      by (auto simp: parse_action_ref_def parse_local_def split: if_splits)
  qed
  moreover have "\<forall>d \<in> set (depths 0 (drop 1 (split_char (cp CHR ''/'') p))). 0 \<le> d"
    if "r = Local p" for p
  proof -
    have "parse_local input = Inr (Local p)"
      using assms that by (auto simp: parse_action_ref_def parse_docker_def parse_repository_def
          split: if_splits option.splits list.splits)
    then have "walk_local 0 (drop 1 (split_char (cp CHR ''/'') p))"
      by (auto simp: parse_local_def split: if_splits)
    then show ?thesis using walk_local_depths by simp
  qed
  ultimately show ?thesis using assms by simp
qed

theorem uses_reference_round_trip_witness:
  "parse_action_ref (lit ''actions/aws/ec2@main'') = Inr (Repository \<lparr>rr_owner = lit ''actions'',
     rr_repo = lit ''aws'', rr_path = Some (lit ''ec2''), rr_git_ref = lit ''main''\<rparr>) \<and>
   display_action_ref (Repository \<lparr>rr_owner = lit ''actions'', rr_repo = lit ''aws'',
     rr_path = Some (lit ''ec2''), rr_git_ref = lit ''main''\<rparr>) = lit ''actions/aws/ec2@main''"
proof -
  have "parse_action_ref (lit ''actions/aws/ec2@main'') = Inr (Repository
     \<lparr>rr_owner = lit ''actions'', rr_repo = lit ''aws'', rr_path = Some (lit ''ec2''),
      rr_git_ref = lit ''main''\<rparr>)"
    by code_simp
  then show ?thesis using uses_reference_round_trip by blast
qed

text \<open>
  The containment check covers the local form only. A repository reference whose subdirectory
  climbs out of the repository is accepted, although the comment of the parser asks that a fetched
  or authored reference never name a location outside the checkout; the resolver joins this
  subdirectory to the action's directory on the host.
\<close>

lemma repository_subdirectory_may_escape:
  "\<exists>input r p. parse_action_ref input = Inr (Repository r) \<and> rr_path r = Some p
     \<and> \<not> contained_path p"
proof -
  have "parse_action_ref (lit ''o/r/../../x@v1'') = Inr (Repository
     \<lparr>rr_owner = lit ''o'', rr_repo = lit ''r'', rr_path = Some (lit ''../../x''),
      rr_git_ref = lit ''v1''\<rparr>)" "\<not> contained_path (lit ''../../x'')"
    by code_simp+
  then show ?thesis by (metis repository_ref.select_convs(3))
qed

end
