(* ===== verification/Resolve.thy ===== *)
theory Resolve
  imports Eval Parser Engine_Base
begin

text \<open>
  Values the planner left open, and how execution finishes them: the plan-time representation
  (\<open>greenlit-engine/src/planned.rs\<close>, \<open>condition.rs\<close>, \<open>outputs.rs\<close>, \<open>defer.rs\<close>),
  its resolution against the live context (\<open>execution/resolve.rs\<close>), and the templates of an
  action's manifest (\<open>greenlit-runtime/src/executor/actions/template.rs\<close>). The number \<open>rc\<close>
  identifies the objects an evaluation creates.
\<close>

section \<open>Planned values\<close>

datatype step_status_field = OutcomeField | ConclusionField

datatype status_fn = FnSuccess | FnFailure | FnCancelled | FnAlways

datatype defer_reason =
    NeedsOutput ustr "ustr option"
  | NeedsResult ustr
  | StepOutput ustr "ustr option"
  | StepStatus ustr step_status_field
  | StatusFn status_fn
  | HashFiles
  | DynamicEnv ustr
  | GithubContext "ustr option"
  | RunnerContext
  | JobContext
  | MatrixContext
  | StrategyContext
  | SecretsContext
  | NeedsContextWhole
  | StepsContextWhole

record deferred_expr =
  residual :: expr
  residual_text :: ustr
  defers_on :: "defer_reason list"

datatype 'a evaluation = Static 'a | Deferred deferred_expr

record 'a planned =
  pl_span :: span
  pl_source :: ustr
  pl_evaluation :: "'a evaluation"

definition static_value :: "span \<Rightarrow> ustr \<Rightarrow> 'a \<Rightarrow> 'a planned" where
  "static_value sp src v = \<lparr>pl_span = sp, pl_source = src, pl_evaluation = Static v\<rparr>"

datatype planned_cond = StaticCond bool | DeferredCond deferred_expr

record if_condition =
  cond_span :: span
  cond_source :: ustr
  cond_eval :: planned_cond

datatype planned_value = StaticValue ustr | DeferredValue deferred_expr

record planned_output =
  po_span :: span
  po_source :: ustr
  po_value :: planned_value

type_synonym job_outputs_plan = "(ustr, planned_output) index_map"

section \<open>Resolution\<close>

definition resolve_string :: "ustr planned \<Rightarrow> ctx \<Rightarrow> nat \<Rightarrow> eval_error + ustr" where
  "resolve_string p c rc = (case pl_evaluation p of
     Static v \<Rightarrow> Inr v
   | Deferred d \<Rightarrow> rbind (evaluate c rc (residual d)) (\<lambda>v. Inr (to_display_string v)))"

definition resolve_bool :: "bool planned \<Rightarrow> ctx \<Rightarrow> nat \<Rightarrow> eval_error + bool" where
  "resolve_bool p c rc = (case pl_evaluation p of
     Static v \<Rightarrow> Inr v
   | Deferred d \<Rightarrow> rbind (evaluate c rc (residual d)) (\<lambda>v. Inr (case v of
       VBool b \<Rightarrow> b
     | VString t \<Rightarrow> (if eq_ignore_ascii_case t (lit ''true'') then True
         else if eq_ignore_ascii_case t (lit ''false'') then False else is_truthy v)
     | _ \<Rightarrow> is_truthy v)))"

datatype timeout_minutes_error = TimeoutEval eval_error | OutOfRange span f64

text \<open>Whether a number is a whole number of minutes from 1 through 360.\<close>

definition minutes_ok :: "f64 \<Rightarrow> bool" where
  "minutes_ok v = (case v of
     Finite s q \<Rightarrow> signed s q = of_int \<lfloor>signed s q\<rfloor> \<and> 1 \<le> signed s q \<and> signed s q \<le> 360
   | _ \<Rightarrow> False)"

definition resolve_minutes :: "f64 planned \<Rightarrow> ctx \<Rightarrow> nat \<Rightarrow> timeout_minutes_error + f64" where
  "resolve_minutes p c rc = (case pl_evaluation p of
     Static v \<Rightarrow> Inr v
   | Deferred d \<Rightarrow> (case evaluate c rc (residual d) of
       Inl e \<Rightarrow> Inl (TimeoutEval e)
     | Inr v \<Rightarrow> (let n = to_number v in
         if minutes_ok n then Inr n else Inl (OutOfRange (pl_span p) n))))"

definition resolve_condition :: "if_condition \<Rightarrow> ctx \<Rightarrow> nat \<Rightarrow> eval_error + bool" where
  "resolve_condition cond c rc = (case cond_eval cond of
     StaticCond b \<Rightarrow> Inr b
   | DeferredCond d \<Rightarrow> rbind (evaluate c rc (residual d)) (\<lambda>v. Inr (is_truthy v)))"

text \<open>A deferred timeout is in range whenever it resolves at all.\<close>

lemma resolve_minutes_range:
  assumes "resolve_minutes p c rc = Inr n" "pl_evaluation p = Deferred d"
  shows "\<exists>k. 1 \<le> k \<and> k \<le> 360 \<and> f64_eq n (f64_of_int k)"
proof -
  have "minutes_ok n"
    using assms by (auto simp: resolve_minutes_def Let_def split: sum.splits if_splits)
  then obtain s q where n: "n = Finite s q"
    and q: "signed s q = of_int \<lfloor>signed s q\<rfloor>" "1 \<le> signed s q" "signed s q \<le> 360"
    by (auto simp: minutes_ok_def split: f64.splits)
  define k where "k = \<lfloor>signed s q\<rfloor>"
  have "1 \<le> k" "k \<le> 360" using q by (simp_all add: k_def le_floor_iff)
  moreover have "f64_eq n (f64_of_int k)"
    using q(1) n \<open>1 \<le> k\<close> by (simp add: f64_of_int_def signed_def k_def)
  ultimately show ?thesis by blast
qed

section \<open>Templates of an action manifest\<close>

datatype template_error = TemplateParse parse_error | TemplateEval eval_error

text \<open>
  The closing braces after an opening, outside a quoted string in which a quote is doubled. The
  bytes looked for are ASCII, so scanning characters finds the same place.
\<close>

fun find_closing :: "bool \<Rightarrow> ustr \<Rightarrow> (ustr \<times> ustr) option" where
  "find_closing in_string [] = None"
| "find_closing in_string (c # cs) =
    (if c = 39 then
       (if in_string \<and> (case cs of d # _ \<Rightarrow> d = 39 | [] \<Rightarrow> False)
        then map_option (\<lambda>(a, b). (c # hd cs # a, b)) (find_closing in_string (tl cs))
        else map_option (\<lambda>(a, b). (c # a, b)) (find_closing (\<not> in_string) cs))
     else if \<not> in_string \<and> prefix (lit ''}}'') (c # cs) then Some ([], tl cs)
     else map_option (\<lambda>(a, b). (c # a, b)) (find_closing in_string cs))"

lemma find_closing_Some:
  "find_closing q s = Some (a, b) \<Longrightarrow> s = a @ lit ''}}'' @ b"
proof (induction q s arbitrary: a rule: find_closing.induct)
  case (2 q c cs)
  then show ?case
    by (cases cs) (auto simp: lit_def split: if_splits)
qed simp

function resolve_template_loop :: "ctx \<Rightarrow> nat \<Rightarrow> ustr \<Rightarrow> template_error + ustr" where
  "resolve_template_loop c rc rest = (case split_once (lit ''${{'') rest of
     None \<Rightarrow> Inr rest
   | Some (before, after_open) \<Rightarrow> (case find_closing False after_open of
       None \<Rightarrow> Inr rest
     | Some (body, after) \<Rightarrow> (case parse (trim body) of
         Inl e \<Rightarrow> Inl (TemplateParse e)
       | Inr e \<Rightarrow> (case evaluate c rc e of
           Inl x \<Rightarrow> Inl (TemplateEval x)
         | Inr v \<Rightarrow> rbind (resolve_template_loop c rc after)
             (\<lambda>tail. Inr (before @ to_display_string v @ tail))))))"
  by pat_completeness auto
termination
proof (relation "measure (\<lambda>(c, rc, rest). length rest)", goal_cases)
  case (2 c rc rest x before after_open y body after e v)
  then have "split_once (lit ''${{'') rest = Some (before, after_open)"
    "find_closing False after_open = Some (body, after)" by simp_all
  then have "rest = before @ lit ''${{'' @ after_open" "after_open = body @ lit ''}}'' @ after"
    using split_once_Some find_closing_Some by blast+
  then show ?case by simp
qed simp

declare resolve_template_loop.simps [simp del]

definition resolve_template :: "ustr \<Rightarrow> ctx \<Rightarrow> nat \<Rightarrow> template_error + ustr" where
  "resolve_template raw c rc =
     (if \<not> str_contains raw (lit ''${{'') then Inr raw else resolve_template_loop c rc raw)"

text \<open>Both \<open>strip_if_wrapper\<close> of a workflow's \<open>if\<close> and of a manifest's \<open>pre-if\<close>/\<open>post-if\<close>.\<close>

definition strip_if_wrapper :: "ustr \<Rightarrow> ustr" where
  "strip_if_wrapper raw = (let trimmed = trim raw in
     case Option.bind (strip_prefix (lit ''${{'') trimmed) (strip_suffix (lit ''}}'')) of
       Some inner \<Rightarrow> trim inner
     | None \<Rightarrow> trimmed)"

definition resolve_template_condition :: "ustr \<Rightarrow> ctx \<Rightarrow> nat \<Rightarrow> template_error + bool" where
  "resolve_template_condition raw c rc = (case parse (strip_if_wrapper raw) of
     Inl e \<Rightarrow> Inl (TemplateParse e)
   | Inr e \<Rightarrow> (case evaluate c rc e of
       Inl x \<Rightarrow> Inl (TemplateEval x)
     | Inr v \<Rightarrow> Inr (is_truthy v)))"

lemma resolve_template_literal:
  "\<not> sublist (lit ''${{'') raw \<Longrightarrow> resolve_template raw c rc = Inr raw"
  by (simp add: resolve_template_def str_contains_def)

end
