(* ===== verification/Step_Env.thy ===== *)
theory Step_Env
  imports Resolve Command_Files
begin

text \<open>
  What a step runs with: the layered environment and the runner's variables
  (\<open>greenlit-engine/src/execution/env.rs\<close>), the command line of its shell
  (\<open>execution/shell.rs\<close>), and the expression contexts
  (\<open>execution/contexts.rs\<close>, \<open>greenlit-runtime/src/executor/context.rs\<close>).
\<close>

type_synonym env_map = "(ustr, ustr) index_map"

section \<open>Environment layers\<close>

record env_layers =
  l_base :: env_map
  l_workflow :: env_map
  l_job :: env_map
  l_accumulated :: env_map
  l_step :: env_map

definition layer_step_env :: "env_layers \<Rightarrow> env_map" where
  "layer_step_env ls =
     fold im_put_all [l_base ls, l_workflow ls, l_job ls, l_accumulated ls, l_step ls] []"

definition apply_path_additions :: "ustr list \<Rightarrow> env_map \<Rightarrow> env_map" where
  "apply_path_additions additions m = (if additions = [] then m
     else (let segments = (case im_get m (lit ''PATH'') of
             Some existing \<Rightarrow> (if existing \<noteq> [] then additions @ [existing] else additions)
           | None \<Rightarrow> additions)
           in im_insert (lit ''PATH'') (join_with (lit '':'') segments) m))"

record actions_service =
  cache_url :: ustr
  results_url :: ustr
  runtime_token :: ustr

record runner_env =
  re_workflow :: ustr
  re_repository :: ustr
  re_repository_owner :: ustr
  re_sha :: ustr
  re_ref_full :: ustr
  re_ref_name :: ustr
  re_ref_type :: ustr
  re_event_name :: ustr
  re_actor :: ustr
  re_job :: ustr
  re_run_id :: ustr
  re_run_number :: ustr
  re_run_attempt :: ustr
  re_workspace :: ustr
  re_runner_name :: ustr
  re_runner_temp :: ustr
  re_runner_tool_cache :: ustr
  re_actions_service :: "actions_service option"

definition into_map :: "runner_env \<Rightarrow> env_map" where
  "into_map e = im_put_all
    ([(lit ''CI'', lit ''true''), (lit ''GITHUB_ACTIONS'', lit ''true''),
      (lit ''GITHUB_WORKFLOW'', re_workflow e), (lit ''GITHUB_REPOSITORY'', re_repository e),
      (lit ''GITHUB_REPOSITORY_OWNER'', re_repository_owner e), (lit ''GITHUB_SHA'', re_sha e),
      (lit ''GITHUB_REF'', re_ref_full e), (lit ''GITHUB_REF_NAME'', re_ref_name e),
      (lit ''GITHUB_REF_TYPE'', re_ref_type e), (lit ''GITHUB_EVENT_NAME'', re_event_name e),
      (lit ''GITHUB_ACTOR'', re_actor e), (lit ''GITHUB_JOB'', re_job e),
      (lit ''GITHUB_RUN_ID'', re_run_id e), (lit ''GITHUB_RUN_NUMBER'', re_run_number e),
      (lit ''GITHUB_RUN_ATTEMPT'', re_run_attempt e), (lit ''GITHUB_WORKSPACE'', re_workspace e),
      (lit ''GITHUB_SERVER_URL'', lit ''https://github.com''),
      (lit ''GITHUB_API_URL'', lit ''https://api.github.com''),
      (lit ''GITHUB_GRAPHQL_URL'', lit ''https://api.github.com/graphql''),
      (lit ''RUNNER_OS'', lit ''Linux''), (lit ''RUNNER_ARCH'', lit ''X64''),
      (lit ''RUNNER_NAME'', re_runner_name e), (lit ''RUNNER_TEMP'', re_runner_temp e),
      (lit ''RUNNER_TOOL_CACHE'', re_runner_tool_cache e)]
     @ (case re_actions_service e of None \<Rightarrow> []
        | Some service \<Rightarrow>
           [(lit ''ACTIONS_CACHE_URL'', cache_url service),
            (lit ''ACTIONS_RESULTS_URL'', results_url service),
            (lit ''ACTIONS_RUNTIME_TOKEN'', runtime_token service)])) []"

text \<open>The first layer that defines a name, from the most specific one.\<close>

fun first_defined :: "'k \<Rightarrow> ('k, 'v) index_map list \<Rightarrow> 'v option" where
  "first_defined k [] = None"
| "first_defined k (m # ms) = (case im_get m k of Some v \<Rightarrow> Some v | None \<Rightarrow> first_defined k ms)"

lemma get_layers:
  assumes "list_all (\<lambda>m. distinct (im_keys m)) ms"
  shows "im_get (fold im_put_all ms m0) k =
    (case first_defined k (rev ms) of Some v \<Rightarrow> Some v | None \<Rightarrow> im_get m0 k)"
  using assms
proof (induction ms rule: rev_induct)
  case (snoc m ms)
  then show ?case by (auto simp: im_get_put_all split: option.splits)
qed simp

lemma distinct_keys_layers:
  "distinct (im_keys m0) \<Longrightarrow> distinct (im_keys (fold im_put_all ms m0))"
  by (induction ms arbitrary: m0) (simp_all add: im_put_all_eq im.distinct_keys_put_all)

lemma keys_layers_prefix: "\<exists>ks. im_keys (fold im_put_all ms m0) = im_keys m0 @ ks"
proof (induction ms arbitrary: m0)
  case (Cons m ms)
  obtain ks where "im_keys (fold im_put_all ms (im_put_all m m0)) = im_keys (im_put_all m m0) @ ks"
    using Cons by blast
  moreover obtain js where "im_keys (im_put_all m m0) = im_keys m0 @ js"
    using im.keys_put_all_prefix [of m m0] by (auto simp: im_put_all_eq)
  ultimately show ?case by simp
qed simp

text \<open>A well-formed layer maps distinct names; \<open>layers_ok\<close> says it of the five layers.\<close>

definition layers_ok :: "env_layers \<Rightarrow> bool" where
  "layers_ok ls \<longleftrightarrow> list_all (\<lambda>m. distinct (im_keys m))
     [l_base ls, l_workflow ls, l_job ls, l_accumulated ls, l_step ls]"

text \<open>
  C24: a step's environment takes each variable from the most specific of the five layers that
  defines it (step, then \<open>GITHUB_ENV\<close> of earlier steps, then job, workflow and runner), every name
  occurs once, and the \<open>GITHUB_PATH\<close> additions come first in \<open>PATH\<close>, before the layered value.
\<close>

theorem step_env_most_specific_layer_wins:
  assumes "layers_ok ls"
  shows "distinct (im_keys (apply_path_additions additions (layer_step_env ls))) \<and>
    im_get (apply_path_additions additions (layer_step_env ls)) k =
      (let layered = first_defined k
             [l_step ls, l_accumulated ls, l_job ls, l_workflow ls, l_base ls]
       in if k = lit ''PATH'' \<and> additions \<noteq> []
          then Some (join_with (lit '':'') (additions @
            (case layered of Some p \<Rightarrow> (if p = [] then [] else [p]) | None \<Rightarrow> [])))
          else layered)"
proof -
  let ?m = "layer_step_env ls"
  have layered: "im_get ?m x = first_defined x
      [l_step ls, l_accumulated ls, l_job ls, l_workflow ls, l_base ls]" for x
    using get_layers [of "[l_base ls, l_workflow ls, l_job ls, l_accumulated ls, l_step ls]" "[]" x]
      assms
    by (simp add: layers_ok_def layer_step_env_def del: fold.simps first_defined.simps
          split: option.splits)
  moreover have "distinct (im_keys ?m)"
    unfolding layer_step_env_def by (rule distinct_keys_layers) simp
  ultimately show ?thesis
    by (auto simp: apply_path_additions_def Let_def im_get_insert im_keys_insert
          simp del: first_defined.simps split: option.splits)
qed

theorem step_env_most_specific_layer_wins_witness:
  "let ls = \<lparr>l_base = [(lit ''PATH'', lit ''/bin''), (lit ''A'', lit ''1'')],
             l_workflow = [(lit ''A'', lit ''2'')], l_job = [(lit ''B'', lit ''3'')],
             l_accumulated = [(lit ''A'', lit ''4'')], l_step = [(lit ''B'', lit ''5'')]\<rparr>;
       m = apply_path_additions [lit ''/tools''] (layer_step_env ls)
   in layers_ok ls \<and> im_get m (lit ''A'') = Some (lit ''4'') \<and>
      im_get m (lit ''PATH'') = Some (lit ''/tools:/bin'')"
proof -
  let ?ls = "\<lparr>l_base = [(lit ''PATH'', lit ''/bin''), (lit ''A'', lit ''1'')],
             l_workflow = [(lit ''A'', lit ''2'')], l_job = [(lit ''B'', lit ''3'')],
             l_accumulated = [(lit ''A'', lit ''4'')], l_step = [(lit ''B'', lit ''5'')]\<rparr>"
  have ok: "layers_ok ?ls" by code_simp
  show ?thesis
    using ok step_env_most_specific_layer_wins [OF ok, of "[lit ''/tools'']" "lit ''A''"]
      step_env_most_specific_layer_wins [OF ok, of "[lit ''/tools'']" "lit ''PATH''"]
    by (simp add: Let_def im_get_def lit_append [symmetric])
qed

section \<open>The shell\<close>

record shell_invocation =
  program :: ustr
  args :: "ustr list"

record shell_selection =
  step_shell :: "ustr option"
  default_shell :: "ustr option"
  in_container :: bool
  bash_available :: bool

datatype shell_error = UnsupportedShell ustr | EmptyShell

definition default_template :: "bool \<Rightarrow> bool \<Rightarrow> ustr" where
  "default_template in_c bash =
     (if in_c \<or> \<not> bash then lit ''sh -e {0}'' else lit ''bash -e {0}'')"

definition explicit_template :: "ustr \<Rightarrow> shell_error + ustr" where
  "explicit_template shell = (let trimmed = trim shell in
     if trimmed = [] then Inl EmptyShell
     else if trimmed = lit ''bash'' then Inr (lit ''bash --noprofile --norc -eo pipefail {0}'')
     else if trimmed = lit ''sh'' then Inr (lit ''sh -e {0}'')
     else if trimmed = lit ''python'' then Inr (lit ''python {0}'')
     else if trimmed = lit ''pwsh'' \<or> trimmed = lit ''cmd'' \<or> trimmed = lit ''powershell''
       then Inl (UnsupportedShell trimmed)
     else Inr trimmed)"

text \<open>\<open>str::split_whitespace\<close>: the maximal runs of characters that are not white space.\<close>

fun words_loop :: "ustr \<Rightarrow> ustr \<Rightarrow> ustr list" where
  "words_loop acc [] = (if acc = [] then [] else [acc])"
| "words_loop acc (c # cs) = (if is_whitespace c
     then (if acc = [] then words_loop [] cs else acc # words_loop [] cs)
     else words_loop (acc @ [c]) cs)"

definition split_whitespace :: "ustr \<Rightarrow> ustr list" where
  "split_whitespace s = words_loop [] s"

definition PLACEHOLDER :: ustr where
  "PLACEHOLDER = lit ''{0}''"

definition substitute :: "ustr \<Rightarrow> ustr \<Rightarrow> shell_invocation" where
  "substitute template script_path =
    (let tokens = split_whitespace template;
         prog = (case tokens of [] \<Rightarrow> [] | t # _ \<Rightarrow> t);
         rest = (case tokens of [] \<Rightarrow> [] | _ # ts \<Rightarrow> ts);
         had_placeholder = (str_contains prog PLACEHOLDER \<or>
           list_ex (\<lambda>arg. str_contains arg PLACEHOLDER) rest);
         replaced = map (\<lambda>arg. if str_contains arg PLACEHOLDER
           then str_replace PLACEHOLDER script_path arg else arg) rest
     in \<lparr>program = str_replace PLACEHOLDER script_path prog,
         args = (if had_placeholder then replaced else replaced @ [script_path])\<rparr>)"

definition resolve_shell :: "shell_selection \<Rightarrow> ustr \<Rightarrow> shell_error + shell_invocation" where
  "resolve_shell selection script_path =
    (let chosen = (case step_shell selection of Some s \<Rightarrow> Some s | None \<Rightarrow> default_shell selection)
     in rbind (case chosen of
          Some shell \<Rightarrow> explicit_template shell
        | None \<Rightarrow> Inr (default_template (in_container selection) (bash_available selection)))
        (\<lambda>template. Inr (substitute template script_path)))"

lemma str_replace_inserts: "p \<noteq> [] \<Longrightarrow> sublist p s \<Longrightarrow> sublist t (str_replace p t s)"
proof (induction s)
  case (Cons c s)
  then show ?case
    by (auto simp: str_replace_Cons sublist_Cons_right intro: sublist_appendI)
qed simp

text \<open>Whatever the shell, the script's path is on the command line.\<close>

lemma script_on_command_line:
  assumes "resolve_shell selection script_path = Inr cmd"
  shows "\<exists>a \<in> set (program cmd # args cmd). str_contains a script_path"
proof -
  obtain template where cmd: "cmd = substitute template script_path"
    using assms by (auto simp: resolve_shell_def Let_def rbind_eq_Inr)
  have p: "PLACEHOLDER \<noteq> []" by (simp add: PLACEHOLDER_def)
  show ?thesis
    using str_replace_inserts [OF p, of _ script_path]
    by (auto simp: cmd substitute_def Let_def str_contains_def list_ex_iff
        split: list.splits if_splits)
qed

lemma resolve_shell_keywords:
  "resolve_shell \<lparr>step_shell = Some (lit ''bash''), default_shell = d, in_container = c,
     bash_available = b\<rparr> (lit ''/s'') = Inr \<lparr>program = lit ''bash'',
       args = [lit ''--noprofile'', lit ''--norc'', lit ''-eo'', lit ''pipefail'', lit ''/s'']\<rparr>"
  "resolve_shell \<lparr>step_shell = None, default_shell = None, in_container = True,
     bash_available = b\<rparr> (lit ''/s'') = Inr \<lparr>program = lit ''sh'', args = [lit ''-e'', lit ''/s'']\<rparr>"
  "resolve_shell \<lparr>step_shell = None, default_shell = Some (lit ''cmd''), in_container = c,
     bash_available = b\<rparr> p = Inl (UnsupportedShell (lit ''cmd''))"
proof -
  have "explicit_template (lit ''bash'') = Inr (lit ''bash --noprofile --norc -eo pipefail {0}'')"
    "explicit_template (lit ''cmd'') = Inl (UnsupportedShell (lit ''cmd''))"
    "substitute (lit ''bash --noprofile --norc -eo pipefail {0}'') (lit ''/s'') =
       \<lparr>program = lit ''bash'',
        args = [lit ''--noprofile'', lit ''--norc'', lit ''-eo'', lit ''pipefail'', lit ''/s'']\<rparr>"
    "substitute (lit ''sh -e {0}'') (lit ''/s'') = \<lparr>program = lit ''sh'', args = [lit ''-e'', lit ''/s'']\<rparr>"
    by code_simp+
  then show
    "resolve_shell \<lparr>step_shell = Some (lit ''bash''), default_shell = d, in_container = c,
       bash_available = b\<rparr> (lit ''/s'') = Inr \<lparr>program = lit ''bash'',
         args = [lit ''--noprofile'', lit ''--norc'', lit ''-eo'', lit ''pipefail'', lit ''/s'']\<rparr>"
    "resolve_shell \<lparr>step_shell = None, default_shell = None, in_container = True,
       bash_available = b\<rparr> (lit ''/s'') = Inr \<lparr>program = lit ''sh'', args = [lit ''-e'', lit ''/s'']\<rparr>"
    "resolve_shell \<lparr>step_shell = None, default_shell = Some (lit ''cmd''), in_container = c,
       bash_available = b\<rparr> p = Inl (UnsupportedShell (lit ''cmd''))"
    by (simp_all add: resolve_shell_def default_template_def)
qed

section \<open>Results of steps and jobs\<close>

datatype conclusion = CSuccess | CFailure | CCancelled | CSkipped

definition as_github_str :: "conclusion \<Rightarrow> ustr" where
  "as_github_str c = (case c of
     CSuccess \<Rightarrow> lit ''success'' | CFailure \<Rightarrow> lit ''failure''
   | CCancelled \<Rightarrow> lit ''cancelled'' | CSkipped \<Rightarrow> lit ''skipped'')"

record step_record =
  sr_id :: ustr
  sr_outcome :: conclusion
  sr_conclusion :: conclusion
  sr_outputs :: env_map

record need_record =
  nr_job :: ustr
  nr_result :: conclusion
  nr_outputs :: env_map
  nr_chain_failed :: bool
  nr_chain_cancelled :: bool

section \<open>Expression contexts\<close>

definition string_object :: "casing \<Rightarrow> nat \<Rightarrow> env_map \<Rightarrow> expr_value" where
  "string_object up rc m = object_new up rc (map (\<lambda>(k, v). (k, VString v)) m) False"

definition build_steps_context :: "casing \<Rightarrow> nat \<Rightarrow> step_record list \<Rightarrow> expr_value" where
  "build_steps_context up rc records = object_new up rc (map (\<lambda>(i, r).
     (sr_id r, object_new up (rc + 2 * i + 1)
       [(lit ''outputs'', string_object up (rc + 2 * i + 2) (sr_outputs r)),
        (lit ''outcome'', VString (as_github_str (sr_outcome r))),
        (lit ''conclusion'', VString (as_github_str (sr_conclusion r)))] False))
     (enumerate 0 records)) False"

definition build_needs_context :: "casing \<Rightarrow> nat \<Rightarrow> need_record list \<Rightarrow> expr_value" where
  "build_needs_context up rc records = object_new up rc (map (\<lambda>(i, r).
     (nr_job r, object_new up (rc + 2 * i + 1)
       [(lit ''result'', VString (as_github_str (nr_result r))),
        (lit ''outputs'', string_object up (rc + 2 * i + 2) (nr_outputs r))] False))
     (enumerate 0 records)) False"

definition merge_matrix_outputs :: "env_map list \<Rightarrow> env_map" where
  "merge_matrix_outputs legs = fold im_put_all legs []"

text \<open>
  \<open>ContextRoots\<close> are the parts that do not change during the run; \<open>cr_host\<close> is the file
  system of \<open>hashFiles\<close>, and the two Unicode tables come with the standard library.
\<close>

record context_roots =
  cr_github :: expr_value
  cr_vars :: expr_value
  cr_inputs :: expr_value
  cr_secrets :: expr_value
  cr_host :: "nat \<Rightarrow> bool \<Rightarrow> ustr list \<Rightarrow> hash_files_error + ustr"
  cr_upper :: casing
  cr_category :: "uchar \<Rightarrow> general_category"

record live_state =
  ls_runner :: expr_value
  ls_matrix :: expr_value
  ls_env :: env_map
  ls_steps :: "step_record list"
  ls_needs :: "need_record list"
  ls_status :: run_status

definition build_context :: "context_roots \<Rightarrow> nat \<Rightarrow> live_state \<Rightarrow> ctx" where
  "build_context roots rc live =
    (let up = cr_upper roots; after_new = rc + 9;
         after_env = after_new + 2;
         after_steps = after_env + 2 * length (ls_steps live) + 1
     in with_status (ls_status live)
       (with_needs (build_needs_context up after_steps (ls_needs live))
       (with_steps (build_steps_context up after_env (ls_steps live))
       (with_env (after_new + 1) (string_object up after_new (ls_env live))
       (with_matrix (ls_matrix live)
       (with_runner (ls_runner live)
       (with_secrets (cr_secrets roots)
       (with_inputs (cr_inputs roots)
       (with_vars (cr_vars roots)
       (with_github (cr_github roots)
          (new_context up (cr_category roots) (cr_host roots) rc)))))))))))"

definition runner_context :: "casing \<Rightarrow> nat \<Rightarrow> runner_env \<Rightarrow> expr_value" where
  "runner_context up rc e = object_new up rc
     [(lit ''os'', VString (lit ''Linux'')), (lit ''arch'', VString (lit ''X64'')),
      (lit ''environment'', VString (lit ''self-hosted'')),
      (lit ''name'', VString (re_runner_name e)), (lit ''temp'', VString (re_runner_temp e)),
      (lit ''tool_cache'', VString (re_runner_tool_cache e)),
      (lit ''workspace'', VString (re_workspace e))] False"

definition job_github_context :: "casing \<Rightarrow> nat \<Rightarrow> expr_value \<Rightarrow> runner_env \<Rightarrow> ustr \<Rightarrow> expr_value" where
  "job_github_context up rc base e event_path = (case base of
     VObject _ es _ _ \<Rightarrow> object_new up rc (es @
       [(lit ''job'', VString (re_job e)), (lit ''event_path'', VString event_path),
        (lit ''workspace'', VString (re_workspace e)), (lit ''run_id'', VString (re_run_id e)),
        (lit ''run_number'', VString (re_run_number e)),
        (lit ''run_attempt'', VString (re_run_attempt e))]) False
   | _ \<Rightarrow> base)"

definition copy_event_env_vars :: "casing \<Rightarrow> expr_value \<Rightarrow> env_map \<Rightarrow> env_map" where
  "copy_event_env_vars up github_ctx base_env = (case github_ctx of
     VObject _ _ _ _ \<Rightarrow> fold (\<lambda>(key, name) m. case object_get up github_ctx key of
         Some (VString v) \<Rightarrow> im_insert name v m | _ \<Rightarrow> m)
       [(lit ''head_ref'', lit ''GITHUB_HEAD_REF''), (lit ''base_ref'', lit ''GITHUB_BASE_REF''),
        (lit ''workflow_ref'', lit ''GITHUB_WORKFLOW_REF''),
        (lit ''workflow_sha'', lit ''GITHUB_WORKFLOW_SHA'')] base_env
   | _ \<Rightarrow> base_env)"

definition resolve_env_layer :: "(ustr, ustr planned) index_map \<Rightarrow> ctx \<Rightarrow> nat \<Rightarrow> eval_error + env_map" where
  "resolve_env_layer entries c rc = rbind
     (rmap (\<lambda>(name, p). rbind (resolve_string p c rc) (\<lambda>v. Inr (name, v))) entries)
     (\<lambda>es. Inr (im_put_all es []))"

text \<open>Concrete roots for examples: ASCII casing, no files.\<close>

definition sample_roots :: context_roots where
  "sample_roots = \<lparr>cr_github = object_new ascii_upper 0 [] False,
     cr_vars = object_new ascii_upper 1 [] False, cr_inputs = object_new ascii_upper 2 [] False,
     cr_secrets = object_new ascii_upper 3 [] False, cr_host = (\<lambda>_ _ _. Inr []),
     cr_upper = ascii_upper, cr_category = (\<lambda>_. OtherCategory)\<rparr>"

definition sample_live :: live_state where
  "sample_live = \<lparr>ls_runner = VNull, ls_matrix = VNull, ls_env = [], ls_steps = [], ls_needs = [],
     ls_status = Success\<rparr>"

end
