(* ===== verification/Job_Status.thy ===== *)
theory Job_Status
  imports Step_Env Log_Laws
begin

text \<open>
  The result of a step and the rolling status of a job
  (\<open>greenlit-engine/src/execution/outcome.rs\<close>), and the outputs of a finished job
  (\<open>execution/job_outputs.rs\<close>). The rolling status is a small state machine: the lemmas say
  that it computes the worst conclusion so far, and that the status of a job's dependencies reads
  the four cases of \<open>needs_status\<close>.
\<close>

section \<open>Outcome and conclusion\<close>

datatype step_exit = ExitSuccess | ExitFailed | ExitTimedOut | ExitCancelled

record step_result =
  res_outcome :: conclusion
  res_conclusion :: conclusion

definition step_activates :: "run_status \<Rightarrow> bool \<Rightarrow> bool \<Rightarrow> bool" where
  "step_activates st implicit_status_gate condition_true =
     (if implicit_status_gate then st = Success \<and> condition_true else condition_true)"

fun step_result_from_exit :: "step_exit \<Rightarrow> bool \<Rightarrow> step_result" where
  "step_result_from_exit ExitSuccess c = \<lparr>res_outcome = CSuccess, res_conclusion = CSuccess\<rparr>"
| "step_result_from_exit ExitFailed c =
     \<lparr>res_outcome = CFailure, res_conclusion = (if c then CSuccess else CFailure)\<rparr>"
| "step_result_from_exit ExitTimedOut c =
     \<lparr>res_outcome = CFailure, res_conclusion = (if c then CSuccess else CFailure)\<rparr>"
| "step_result_from_exit ExitCancelled c =
     \<lparr>res_outcome = CCancelled, res_conclusion = CCancelled\<rparr>"

definition step_result_skipped :: step_result where
  "step_result_skipped = \<lparr>res_outcome = CSkipped, res_conclusion = CSkipped\<rparr>"

section \<open>The rolling status\<close>

fun advance_status :: "run_status \<Rightarrow> conclusion \<Rightarrow> run_status" where
  "advance_status current CCancelled = Cancelled"
| "advance_status current CFailure = (case current of Cancelled \<Rightarrow> Cancelled | _ \<Rightarrow> Failure)"
| "advance_status current CSuccess = current"
| "advance_status current CSkipped = current"

fun job_result_from_status :: "run_status \<Rightarrow> conclusion" where
  "job_result_from_status Success = CSuccess"
| "job_result_from_status Failure = CFailure"
| "job_result_from_status Cancelled = CCancelled"
| "job_result_from_status Blocked = CSkipped"

definition needs_status :: "need_record list \<Rightarrow> run_status" where
  "needs_status ns =
    (if list_ex nr_chain_cancelled ns then Cancelled
     else if list_ex nr_chain_failed ns then Failure
     else if list_all (\<lambda>n. nr_result n = CSuccess) ns then Success
     else Blocked)"

definition job_result :: "bool \<Rightarrow> run_status \<Rightarrow> conclusion" where
  "job_result did_run final_status = (if did_run then job_result_from_status final_status else CSkipped)"

text \<open>The worst of a list of conclusions, as the status of a job that started in success.\<close>

definition worst :: "conclusion list \<Rightarrow> run_status" where
  "worst cs = (if CCancelled \<in> set cs then Cancelled
     else if CFailure \<in> set cs then Failure else Success)"

lemma worst_snoc: "worst (cs @ [c]) = advance_status (worst cs) c"
  by (cases c) (auto simp: worst_def)

lemma worst_Nil [simp]: "worst [] = Success"
  by (simp add: worst_def)

lemma rolling_status: "foldl advance_status Success cs = worst cs"
  by (induction cs rule: rev_induct) (simp_all add: worst_snoc)

lemma worst_not_Blocked [simp]: "worst cs \<noteq> Blocked"
  by (simp add: worst_def)

lemma worst_Success: "worst cs = Success \<longleftrightarrow> set cs \<subseteq> {CSuccess, CSkipped}"
  by (auto simp: worst_def intro: conclusion.exhaust)

section \<open>Finalizing the outputs of a job\<close>

definition MAX_JOB_OUTPUTS_BYTES :: nat where
  "MAX_JOB_OUTPUTS_BYTES = 1024 * 1024"

datatype job_output_error = OutputEval ustr eval_error | TooLarge nat

definition output_text :: "planned_output \<Rightarrow> ctx \<Rightarrow> nat \<Rightarrow> eval_error + ustr" where
  "output_text p c rc = (case po_value p of
     StaticValue v \<Rightarrow> Inr v
   | DeferredValue d \<Rightarrow> rbind (evaluate c rc (residual d)) (\<lambda>v. Inr (to_display_string v)))"

fun finalize_loop :: "job_outputs_plan \<Rightarrow> ctx \<Rightarrow> nat \<Rightarrow> masker \<Rightarrow> nat \<Rightarrow> env_map \<Rightarrow>
    job_output_error + env_map" where
  "finalize_loop [] c rc ms used outputs = Inr outputs"
| "finalize_loop ((name, p) # es) c rc ms used outputs = (case output_text p c rc of
     Inl e \<Rightarrow> Inl (OutputEval name e)
   | Inr raw \<Rightarrow> (let v = masker_apply ms raw;
         used' = saturating_add (saturating_add used (str_len name)) (str_len v) in
       if MAX_JOB_OUTPUTS_BYTES < used' then Inl (TooLarge MAX_JOB_OUTPUTS_BYTES)
       else finalize_loop es c rc ms used' (im_insert name v outputs)))"

definition finalize_outputs :: "job_outputs_plan \<Rightarrow> ctx \<Rightarrow> nat \<Rightarrow> masker \<Rightarrow>
    job_output_error + env_map" where
  "finalize_outputs plan c rc ms = finalize_loop plan c rc ms 0 []"

definition outputs_size :: "env_map \<Rightarrow> nat" where
  "outputs_size m = sum_list (map (\<lambda>(k, v). str_len k + str_len v) m)"

lemma saturating_small: "saturating_add (saturating_add t a) b \<le> MAX_JOB_OUTPUTS_BYTES \<Longrightarrow>
   saturating_add (saturating_add t a) b = t + a + b"
  by (auto simp: saturating_add_def MAX_JOB_OUTPUTS_BYTES_def usize_max_def min_def
      split: if_splits)

lemma outputs_size_snoc: "outputs_size (m @ [(k, v)]) = outputs_size m + str_len k + str_len v"
  by (simp add: outputs_size_def)

lemma finalize_loop_spec:
  assumes "finalize_loop es c rc ms used out = Inr res"
    and "distinct (im_keys out @ im_keys es)" "used = outputs_size out"
    and "used \<le> MAX_JOB_OUTPUTS_BYTES"
  shows "outputs_size res \<le> MAX_JOB_OUTPUTS_BYTES \<and> (\<exists>vs. length vs = length es \<and>
    res = out @ map2 (\<lambda>(name, p) v. (name, v)) es vs \<and>
    list_all2 (\<lambda>(name, p) v. \<exists>raw. output_text p c rc = Inr raw \<and> v = masker_apply ms raw) es vs)"
  using assms
proof (induction es c rc ms used out rule: finalize_loop.induct)
  case (1 c rc ms used outputs)
  then show ?case by simp
next
  case (2 name p es c rc ms used outputs)
  obtain raw where raw: "output_text p c rc = Inr raw"
    using 2(2) by (auto split: sum.splits)
  define v where "v = masker_apply ms raw"
  define t where "t = saturating_add (saturating_add used (str_len name)) (str_len v)"
  have small: "t \<le> MAX_JOB_OUTPUTS_BYTES"
    and run: "finalize_loop es c rc ms t (im_insert name v outputs) = Inr res"
    using 2(2) raw by (auto simp: v_def t_def Let_def split: if_splits)
  have fresh: "im_insert name v outputs = outputs @ [(name, v)]"
    using 2(3) by (intro im_insert_fresh) (simp add: im_keys_def)
  have "t = outputs_size (outputs @ [(name, v)])"
    using small saturating_small 2(4) by (simp add: outputs_size_snoc t_def)
  moreover have "distinct (im_keys (outputs @ [(name, v)]) @ im_keys es)"
    using 2(3) by (auto simp: im_keys_def)
  ultimately obtain vs where vs: "length vs = length es"
    "outputs_size res \<le> MAX_JOB_OUTPUTS_BYTES"
    "res = (outputs @ [(name, v)]) @ map2 (\<lambda>(name, p) v. (name, v)) es vs"
    "list_all2 (\<lambda>(name, p) v. \<exists>raw. output_text p c rc = Inr raw \<and> v = masker_apply ms raw) es vs"
    using 2(1) [OF raw v_def t_def] small run fresh by (auto simp: not_less)
  then show ?case
    using raw by (intro conjI exI [of _ "v # vs"]) (auto simp: v_def)
qed

text \<open>
  C28: a job's outputs are refused unless names and values together fit one mebibyte; when they are
  accepted they are the declared outputs in their order, each the rendering of its template against
  the final context, and no registered secret without asterisk survives in any of them.
\<close>

theorem job_outputs_capped_and_redacted:
  assumes "finalize_outputs plan c rc ms = Inr res" "distinct (im_keys plan)"
  shows "outputs_size res \<le> MAX_JOB_OUTPUTS_BYTES \<and> im_keys res = im_keys plan \<and>
    (\<forall>name p. im_get plan name = Some p \<longrightarrow>
       (\<exists>raw. output_text p c rc = Inr raw \<and> im_get res name = Some (masker_apply ms raw))) \<and>
    (\<forall>m \<in> set ms. maskable m \<longrightarrow> (\<forall>v \<in> snd ` set res. \<not> str_contains v m))"
proof -
  obtain vs where vs: "length vs = length plan" "outputs_size res \<le> MAX_JOB_OUTPUTS_BYTES"
    "res = map2 (\<lambda>(name, p) v. (name, v)) plan vs"
    "list_all2 (\<lambda>(name, p) v. \<exists>raw. output_text p c rc = Inr raw \<and> v = masker_apply ms raw) plan vs"
    using finalize_loop_spec [of plan c rc ms 0 "[]" res] assms
    by (auto simp: finalize_outputs_def outputs_size_def)
  have keys: "im_keys res = im_keys plan"
    unfolding vs(3) im_keys_def using vs(1) [symmetric]
    by (induction plan vs rule: list_induct2) auto
  have rendered: "\<exists>raw. output_text p c rc = Inr raw \<and> im_get res name = Some (masker_apply ms raw)"
    if get: "im_get plan name = Some p" for name p
  proof -
    obtain i where i: "i < length plan" "plan ! i = (name, p)"
      using get by (metis im_get_def in_set_conv_nth map_of_SomeD)
    obtain raw where raw: "output_text p c rc = Inr raw" "vs ! i = masker_apply ms raw"
      using list_all2_nthD [OF vs(4) i(1)] i(2) by auto
    have "(name, vs ! i) \<in> set res"
      using i vs(1) by (force simp: vs(3) in_set_conv_nth)
    then have "im_get res name = Some (vs ! i)"
      using assms(2) keys by (simp add: im_get_def im_keys_def)
    then show ?thesis using raw by simp
  qed
  have "\<not> str_contains v m" if hyps: "m \<in> set ms" "maskable m" "v \<in> snd ` set res" for v m
  proof -
    obtain i where i: "i < length plan" "v = vs ! i"
      using hyps(3) vs(1) by (auto simp: vs(3) in_set_conv_nth)
    then obtain raw where "v = masker_apply ms raw"
      using list_all2_nthD [OF vs(4) i(1)] by auto
    then show ?thesis
      using hyps masker_apply_removes by (simp add: str_contains_def)
  qed
  with vs(2) keys rendered show ?thesis by blast
qed

theorem job_outputs_capped_and_redacted_witness:
  "let plan = [(lit ''a'', \<lparr>po_span = sample_span, po_source = [],
                   po_value = StaticValue (lit ''tok:hunter2'')\<rparr>),
               (lit ''b'', \<lparr>po_span = sample_span, po_source = [],
                   po_value = DeferredValue \<lparr>residual = EBool True, residual_text = [],
                     defers_on = [RunnerContext]\<rparr>\<rparr>)];
       res = [(lit ''a'', lit ''tok:***''), (lit ''b'', lit ''true'')]
   in finalize_outputs plan (build_context sample_roots 4 sample_live) 20 [lit ''hunter2''] = Inr res
      \<and> distinct (im_keys plan) \<and> outputs_size res \<le> MAX_JOB_OUTPUTS_BYTES
      \<and> list_all (\<lambda>v. \<not> str_contains v (lit ''hunter2'')) (map snd res)"
proof -
  let ?plan = "[(lit ''a'', \<lparr>po_span = sample_span, po_source = [],
                   po_value = StaticValue (lit ''tok:hunter2'')\<rparr>),
               (lit ''b'', \<lparr>po_span = sample_span, po_source = [],
                   po_value = DeferredValue \<lparr>residual = EBool True, residual_text = [],
                     defers_on = [RunnerContext]\<rparr>\<rparr>)]"
  let ?res = "[(lit ''a'', lit ''tok:***''), (lit ''b'', lit ''true'')]"
  let ?c = "build_context sample_roots 4 sample_live"
  have run: "finalize_outputs ?plan ?c 20 [lit ''hunter2''] = Inr ?res" by code_simp
  have keys: "distinct (im_keys ?plan)" by code_simp
  have "maskable (lit ''hunter2'')" by code_simp
  then show ?thesis
    using job_outputs_capped_and_redacted [OF run keys] run keys
    unfolding Let_def by simp
qed

end
