(* ===== verification/Step_Exec.thy ===== *)
theory Step_Exec
  imports Job_Status
begin

text \<open>
  Executing the steps of a job (\<open>greenlit-runtime/src/executor/step.rs\<close>, \<open>cmdfiles.rs\<close>,
  \<open>actions/post_chain.rs\<close>, \<open>job/mod.rs\<close>: \<open>run_job_body\<close>, \<open>job_activates\<close>).

  The container engine is a parameter: a record of functions on a world \<open>'w\<close>, whose errors have
  the type \<open>'x\<close>. The dispatch of a \<open>uses\<close> step to its action and a JavaScript action's pre
  and post scripts are parameters too; they see exactly the parts of the state the code hands to them, which
  do not include the rolling status and the step records. An error of any call ends the job, so it
  carries no state. \<open>jr_pre\<close> gives the \<open>pre\<close> script of a step's resolved JavaScript action with its
  condition, \<open>jr_node_pre\<close> runs it. Lifecycle events and durations are presentation and left out.
\<close>

section \<open>The plan of a step\<close>

datatype step_kind =
    Run "ustr planned" "ustr planned option"
  | Uses ustr span "(ustr, ustr planned) index_map"

record step_plan =
  sp_id :: "ustr option"
  sp_name :: "ustr planned option"
  sp_env :: "(ustr, ustr planned) index_map"
  sp_working_directory :: "ustr planned option"
  sp_continue_on_error :: "bool planned option"
  sp_timeout_minutes :: "f64 planned option"
  sp_condition :: "if_condition option"
  sp_implicit_status_gate :: bool
  sp_kind :: step_kind

section \<open>The engine and the state of a job\<close>

record exec_spec =
  x_cmd :: "ustr list"
  x_env :: "(ustr \<times> ustr) list"
  x_working_dir :: "ustr option"

text \<open>
  \<open>eng_exec\<close> returns the output chunks (on standard error or not) and the exit code;
  \<open>eng_exec_within\<close> is the same under a deadline in minutes, \<open>None\<close> when it elapsed.
\<close>

record ('x, 'w) engine =
  eng_exec :: "exec_spec \<Rightarrow> 'w \<Rightarrow> ((bool \<times> nat list) list \<times> ('x + int)) \<times> 'w"
  eng_exec_within ::
    "f64 \<Rightarrow> exec_spec \<Rightarrow> 'w \<Rightarrow> ((bool \<times> nat list) list \<times> ('x + int) option) \<times> 'w"
  eng_terminate :: "ustr \<Rightarrow> 'w \<Rightarrow> ('x + unit) \<times> 'w"
  eng_nanos :: "'w \<Rightarrow> nat"
  eng_display :: "'x \<Rightarrow> ustr"

datatype 'x exec_error =
    Engine 'x
  | CommandFile ustr
  | JobOutput job_output_error
  | ExecEval eval_error
  | ExecTemplateEval template_error
  | Shell ustr shell_error
  | Timeout ustr timeout_minutes_error
  | Infrastructure ustr ustr

datatype node_version = Node20 | Node24

datatype checkout_post = Noop | CredentialCleanup ustr

record node_post_entry =
  np_action_path :: ustr
  np_post_script :: ustr
  np_post_if :: "ustr option"
  np_input_env :: "(ustr \<times> ustr) list"
  np_step_env :: env_map
  np_node_version :: node_version
  np_state_key :: nat

datatype post_action = PostNode node_post_entry | PostCheckout checkout_post

record post_entry =
  pe_label :: ustr
  pe_action :: post_action

type_synonym post_chain = "post_entry list"

definition post_push :: "post_entry \<Rightarrow> post_chain \<Rightarrow> post_chain" where
  "post_push e chain = chain @ [e]"

definition drain_reverse :: "post_chain \<Rightarrow> post_entry list \<times> post_chain" where
  "drain_reverse chain = (rev chain, [])"

text \<open>The parts of the state an action may change.\<close>

record 'w job_io =
  io_accumulated :: env_map
  io_path_additions :: "ustr list"
  io_post_chain :: post_chain
  io_masker :: masker
  io_log :: "ustr list"
  io_world :: 'w

record 'w loop_state =
  js_io :: "'w job_io"
  js_records :: "step_record list"
  js_status :: run_status

definition new_loop_state :: "masker \<Rightarrow> ustr list \<Rightarrow> 'w \<Rightarrow> 'w loop_state" where
  "new_loop_state ms log_lines w = \<lparr>js_io = \<lparr>io_accumulated = [], io_path_additions = [],
     io_post_chain = [], io_masker = ms, io_log = log_lines, io_world = w\<rparr>,
     js_records = [], js_status = Success\<rparr>"

record ('x, 'w) job_runtime =
  jr_engine :: "('x, 'w) engine"
  jr_roots :: context_roots
  jr_rc :: nat
  jr_runner_ctx :: expr_value
  jr_matrix :: expr_value
  jr_base_env :: env_map
  jr_workflow_env :: env_map
  jr_job_env :: env_map
  jr_default_shell :: "ustr option"
  jr_default_working_directory :: "ustr option"
  jr_in_container :: bool
  jr_bash_available :: bool
  jr_workspace :: ustr
  jr_cmdfiles_base :: ustr
  jr_step_action_ids :: "ustr list"
  jr_accepts :: "nat \<Rightarrow> bool"
  jr_uses :: "need_record list \<Rightarrow> step_plan \<Rightarrow> nat \<Rightarrow> env_map \<Rightarrow> run_status \<Rightarrow> step_record list \<Rightarrow>
    'w job_io \<Rightarrow> 'x exec_error + step_exit \<times> env_map \<times> 'w job_io"
  jr_pre :: "nat \<Rightarrow> (ustr \<times> ustr option) option"
  jr_node_pre :: "step_plan \<Rightarrow> nat \<Rightarrow> ustr \<Rightarrow> env_map \<Rightarrow> 'w job_io \<Rightarrow> 'x exec_error + 'w job_io"
  jr_node_post :: "node_post_entry \<Rightarrow> run_status \<Rightarrow> step_record list \<Rightarrow> 'w job_io \<Rightarrow>
    'x exec_error + step_exit \<times> 'w job_io"

section \<open>Environment and context of a step\<close>

definition layered_env :: "('x, 'w) job_runtime \<Rightarrow> 'w job_io \<Rightarrow> env_map \<Rightarrow> env_map" where
  "layered_env rt io extra = apply_path_additions (io_path_additions io)
     (layer_step_env \<lparr>l_base = jr_base_env rt, l_workflow = jr_workflow_env rt,
        l_job = jr_job_env rt, l_accumulated = io_accumulated io, l_step = extra\<rparr>)"

definition live_context ::
  "('x, 'w) job_runtime \<Rightarrow> need_record list \<Rightarrow> 'w loop_state \<Rightarrow> env_map \<Rightarrow> ctx" where
  "live_context rt ns st m = build_context (jr_roots rt) (jr_rc rt)
     \<lparr>ls_runner = jr_runner_ctx rt, ls_matrix = jr_matrix rt, ls_env = m,
      ls_steps = js_records st, ls_needs = ns, ls_status = js_status st\<rparr>"

text \<open>The first identity an evaluation may give, after the objects of the context.\<close>

definition fresh_rc :: "('x, 'w) job_runtime \<Rightarrow> need_record list \<Rightarrow> 'w loop_state \<Rightarrow> nat" where
  "fresh_rc rt ns st = jr_rc rt + 13 + 2 * length (js_records st) + 2 * length ns"

definition eval_err :: "eval_error + 'a \<Rightarrow> 'x exec_error + 'a" where
  "eval_err r = (case r of Inl e \<Rightarrow> Inl (ExecEval e) | Inr v \<Rightarrow> Inr v)"

definition resolve_opt :: "'p option \<Rightarrow> ('p \<Rightarrow> 'e + 'a) \<Rightarrow> 'e + 'a option" where
  "resolve_opt p f = (case p of None \<Rightarrow> Inr None | Some x \<Rightarrow> rbind (f x) (\<lambda>v. Inr (Some v)))"

definition step_label :: "step_plan \<Rightarrow> nat \<Rightarrow> ctx \<Rightarrow> nat \<Rightarrow> 'x exec_error + ustr" where
  "step_label step i c rc = (case sp_name step of
     Some name \<Rightarrow> eval_err (resolve_string name c rc)
   | None \<Rightarrow> (case sp_id step of
       Some x \<Rightarrow> Inr x
     | None \<Rightarrow> Inr (lit ''step '' @ dec_string (i + 1))))"

definition trim_end_slashes :: "ustr \<Rightarrow> ustr" where
  "trim_end_slashes s = rev (dropWhile (\<lambda>c. c = cp CHR ''/'') (rev s))"

definition resolve_working_dir ::
  "step_plan \<Rightarrow> ('x, 'w) job_runtime \<Rightarrow> ctx \<Rightarrow> nat \<Rightarrow> 'x exec_error + ustr" where
  "resolve_working_dir step rt c rc = rbind
     (case sp_working_directory step of
        Some p \<Rightarrow> rbind (eval_err (resolve_string p c rc)) (\<lambda>v. Inr (Some v))
      | None \<Rightarrow> Inr (jr_default_working_directory rt))
     (\<lambda>authored. Inr (case authored of
        Some dir \<Rightarrow> (if prefix (lit ''/'') dir then dir
           else trim_end_slashes (jr_workspace rt) @ lit ''/'' @ dir)
      | None \<Rightarrow> jr_workspace rt))"

section \<open>Running a script\<close>

definition exec_plain :: "('x, 'w) engine \<Rightarrow> ustr list \<Rightarrow> 'w \<Rightarrow>
    'x + (bool \<times> nat list) list \<times> int \<times> 'w" where
  "exec_plain eng cmd w = (case eng_exec eng \<lparr>x_cmd = cmd, x_env = [], x_working_dir = None\<rparr> w of
     ((chunks, r), w') \<Rightarrow> rbind r (\<lambda>code. Inr (chunks, code, w')))"

definition stdout_text :: "(bool \<times> nat list) list \<Rightarrow> ustr" where
  "stdout_text chunks = from_utf8_lossy (concat (map snd (filter (\<lambda>c. \<not> fst c) chunks)))"

definition read_file :: "('x, 'w) engine \<Rightarrow> ustr \<Rightarrow> 'w \<Rightarrow> 'x + ustr \<times> 'w" where
  "read_file eng file w = rbind (exec_plain eng [lit ''cat'', file] w)
     (\<lambda>(chunks, _, w'). Inr (stdout_text chunks, w'))"

definition engine_error :: "'x + 'a \<Rightarrow> 'x command_file_error + 'a" where
  "engine_error r = (case r of Inl x \<Rightarrow> Inl (EngineError x) | Inr v \<Rightarrow> Inr v)"

definition prepare :: "('x, 'w) engine \<Rightarrow> command_file_paths \<Rightarrow> ustr \<Rightarrow> 'w \<Rightarrow>
    'x command_file_error + 'w" where
  "prepare eng paths script w =
    (let delimiter = heredoc_delimiter (eng_nanos eng w) script;
         program_text = lit ''mkdir -p '' @ p_dir paths @ lit '' && : > '' @ p_env paths
           @ lit '' && : > '' @ p_output paths @ lit '' && : > '' @ p_path paths
           @ lit '' && : > '' @ p_summary paths @ lit '' && : > '' @ p_pid paths
           @ lit '' && cat > '' @ p_script paths @ lit '' <<'' @ [39] @ delimiter @ [39, 10]
           @ script @ [10] @ delimiter @ [10]
     in rbind (engine_error (exec_plain eng [lit ''sh'', lit ''-c'', program_text] w))
       (\<lambda>(_, code, w'). if code \<noteq> 0 then Inl (PrepareFailed code) else Inr w'))"

definition collect_effects :: "('x, 'w) engine \<Rightarrow> command_file_paths \<Rightarrow> 'w \<Rightarrow>
    'x command_file_error + command_file_effects \<times> 'w" where
  "collect_effects eng paths w =
     rbind (engine_error (read_file eng (p_env paths) w)) (\<lambda>(env_text, w).
     rbind (engine_error (read_file eng (p_output paths) w)) (\<lambda>(output_text, w).
     rbind (engine_error (read_file eng (p_path paths) w)) (\<lambda>(path_text, w).
     rbind (engine_error (read_file eng (p_summary paths) w)) (\<lambda>(summary_text, w).
     rbind (parse_effects env_text output_text path_text summary_text) (\<lambda>effects.
     Inr (effects, w))))))"

definition mask_command_file_error ::
  "('x, 'w) engine \<Rightarrow> masker \<Rightarrow> 'x command_file_error + 'a \<Rightarrow> 'x exec_error + 'a" where
  "mask_command_file_error eng ms r = (case r of
     Inl e \<Rightarrow> Inl (CommandFile (masker_apply ms (command_file_error_text (eng_display eng) e)))
   | Inr v \<Rightarrow> Inr v)"

definition exit_from :: "int \<Rightarrow> step_exit" where
  "exit_from code = (if code = 0 then ExitSuccess else ExitFailed)"

definition lift_engine :: "'x + 'a \<Rightarrow> 'x exec_error + 'a" where
  "lift_engine r = (case r of Inl x \<Rightarrow> Inl (Engine x) | Inr v \<Rightarrow> Inr v)"

text \<open>
  The exec itself: its output goes through a fresh sink on the running masker. A step that exceeds
  its deadline is terminated before it is reported.
\<close>

definition run_exec :: "('x, 'w) engine \<Rightarrow> (nat \<Rightarrow> bool) \<Rightarrow> exec_spec \<Rightarrow> ustr \<Rightarrow> f64 option \<Rightarrow>
    'w job_io \<Rightarrow> 'x exec_error + step_exit \<times> 'w job_io" where
  "run_exec eng accepts spec pid_file timeout io =
    (let sunk = (\<lambda>chunks w. let s = finish (fold on_chunk chunks (new_sink accepts (io_masker io)))
            in io\<lparr>io_masker := s_masker s, io_log := io_log io @ s_out s, io_world := w\<rparr>) in
     case timeout of
       None \<Rightarrow> (case eng_exec eng spec (io_world io) of ((chunks, r), w) \<Rightarrow>
         rbind (lift_engine r) (\<lambda>code. Inr (exit_from code, sunk chunks w)))
     | Some minutes \<Rightarrow> (case eng_exec_within eng minutes spec (io_world io) of ((chunks, r), w) \<Rightarrow>
         (case r of
            Some r \<Rightarrow> rbind (lift_engine r) (\<lambda>code. Inr (exit_from code, sunk chunks w))
          | None \<Rightarrow> (case eng_terminate eng pid_file w of (r, w) \<Rightarrow>
              rbind (lift_engine r) (\<lambda>_. Inr (ExitTimedOut, sunk chunks w))))))"

definition exec_env_vec :: "env_map \<Rightarrow> command_file_paths \<Rightarrow> ustr \<Rightarrow> env_map" where
  "exec_env_vec full_env paths action_id = im_put_all
     [(lit ''GITHUB_ACTION'', action_id), (lit ''GITHUB_ENV'', p_env paths),
      (lit ''GITHUB_OUTPUT'', p_output paths), (lit ''GITHUB_PATH'', p_path paths),
      (lit ''GITHUB_STEP_SUMMARY'', p_summary paths)] full_env"

definition summary_warning :: "ustr \<Rightarrow> ustr" where
  "summary_warning label = lit ''  [warning] '' @ label
     @ lit '': GITHUB_STEP_SUMMARY exceeded the 1 MiB limit and was dropped''"

definition apply_to_io :: "(nat \<Rightarrow> bool) \<Rightarrow> command_file_effects \<Rightarrow> ustr \<Rightarrow> 'w job_io \<Rightarrow> env_map \<times> 'w job_io" where
  "apply_to_io accepts effects label io =
    (case apply_effects effects (io_accumulated io, io_path_additions io) of
       (outputs, accumulated, additions) \<Rightarrow>
         (outputs, io\<lparr>io_accumulated := accumulated, io_path_additions := additions,
            io_log := (if e_summary_within_limit effects \<or> \<not> accepts 0 then io_log io
              else io_log io @ [summary_warning label])\<rparr>))"

definition run_script_step :: "('x, 'w) job_runtime \<Rightarrow> step_plan \<Rightarrow> ctx \<Rightarrow> nat \<Rightarrow> env_map \<Rightarrow> nat \<Rightarrow>
    'w job_io \<Rightarrow> 'x exec_error + step_exit \<times> env_map \<times> 'w job_io" where
  "run_script_step rt step c rc full_env i io = (case sp_kind step of
     Uses _ _ _ \<Rightarrow> Inl (Infrastructure
       (lit ''internal error: run_script_step called on a non-run: step'')
       (lit ''report this as a Greenlit defect''))
   | Run script_planned step_shell_planned \<Rightarrow>
     rbind (step_label step i c rc) (\<lambda>label.
     let eng = jr_engine rt; paths = new_command_file_paths (jr_cmdfiles_base rt) i in
     rbind (eval_err (resolve_opt step_shell_planned (\<lambda>p. resolve_string p c rc))) (\<lambda>shell_text.
     rbind (case resolve_shell \<lparr>step_shell = shell_text, default_shell = jr_default_shell rt,
                in_container = jr_in_container rt, bash_available = jr_bash_available rt\<rparr>
                (p_script paths) of
              Inl e \<Rightarrow> Inl (Shell label e) | Inr v \<Rightarrow> Inr v) (\<lambda>shell.
     rbind (eval_err (resolve_string script_planned c rc)) (\<lambda>script.
     rbind (resolve_working_dir step rt c rc) (\<lambda>working_dir.
     rbind (case resolve_opt (sp_timeout_minutes step) (\<lambda>p. resolve_minutes p c rc) of
              Inl e \<Rightarrow> Inl (Timeout label e) | Inr v \<Rightarrow> Inr v) (\<lambda>timeout.
     rbind (mask_command_file_error eng (io_masker io) (prepare eng paths script (io_world io))) (\<lambda>w.
     let spec = \<lparr>x_cmd = [lit ''sh'', lit ''-c'', lit ''echo $$ > '' @ p_pid paths
                    @ lit '' && exec '' @ [34] @ lit ''$0'' @ [34, 32, 34] @ lit ''$@'' @ [34],
                    program shell] @ args shell,
                 x_env = exec_env_vec full_env paths (jr_step_action_ids rt ! i),
                 x_working_dir = Some working_dir\<rparr> in
     rbind (run_exec eng (jr_accepts rt) spec (p_pid paths) timeout (io\<lparr>io_world := w\<rparr>)) (\<lambda>(exit, io).
     rbind (mask_command_file_error eng (io_masker io) (collect_effects eng paths (io_world io)))
       (\<lambda>(effects, w).
     let (outputs, io) = apply_to_io (jr_accepts rt) effects label (io\<lparr>io_world := w\<rparr>) in
     Inr (exit, outputs, io)))))))))))"

section \<open>Executing a step\<close>

record executed_step =
  es_result :: step_result
  es_label :: ustr
  es_ran :: bool

definition record_skip :: "step_plan \<Rightarrow> step_record list \<Rightarrow> step_record list" where
  "record_skip step records = (case sp_id step of
     None \<Rightarrow> records
   | Some x \<Rightarrow> records @ [\<lparr>sr_id = x, sr_outcome = res_outcome step_result_skipped,
       sr_conclusion = res_conclusion step_result_skipped, sr_outputs = []\<rparr>])"

definition execute_body :: "('x, 'w) job_runtime \<Rightarrow> need_record list \<Rightarrow> step_plan \<Rightarrow> nat \<Rightarrow> ctx \<Rightarrow> nat \<Rightarrow>
    env_map \<Rightarrow> 'w loop_state \<Rightarrow> 'x exec_error + step_exit \<times> env_map \<times> 'w job_io" where
  "execute_body rt ns step i c rc full_env st = (case sp_kind step of
     Run _ _ \<Rightarrow> run_script_step rt step c rc full_env i (js_io st)
   | Uses _ _ given \<Rightarrow>
       rbind (eval_err (resolve_env_layer given c rc)) (\<lambda>resolved.
         jr_uses rt ns step i resolved (js_status st) (js_records st) (js_io st)))"

definition execute_step :: "('x, 'w) job_runtime \<Rightarrow> need_record list \<Rightarrow> step_plan \<Rightarrow> nat \<Rightarrow>
    'w loop_state \<Rightarrow> 'x exec_error + executed_step \<times> 'w loop_state" where
  "execute_step rt ns step i st =
    (let pre_env = layered_env rt (js_io st) [];
         pre_ctx = live_context rt ns st pre_env;
         rc = fresh_rc rt ns st in
     rbind (eval_err (resolve_env_layer (sp_env step) pre_ctx rc)) (\<lambda>step_env.
     let full_env = layered_env rt (js_io st) step_env;
         c = live_context rt ns st full_env in
     rbind (step_label step i c rc) (\<lambda>raw_label.
     let label = masker_apply (io_masker (js_io st)) raw_label in
     rbind (case sp_condition step of
              Some cond \<Rightarrow> eval_err (resolve_condition cond c rc) | None \<Rightarrow> Inr True)
       (\<lambda>condition_true.
     if \<not> step_activates (js_status st) (sp_implicit_status_gate step) condition_true
     then Inr (\<lparr>es_result = step_result_skipped, es_label = label, es_ran = False\<rparr>,
               st\<lparr>js_records := record_skip step (js_records st)\<rparr>)
     else
     rbind (case sp_continue_on_error step of
              Some p \<Rightarrow> eval_err (resolve_bool p c rc) | None \<Rightarrow> Inr False)
       (\<lambda>continue_on_error.
     rbind (execute_body rt ns step i c rc full_env st) (\<lambda>(exit, outputs, io).
     let result = step_result_from_exit exit continue_on_error in
     Inr (\<lparr>es_result = result, es_label = label, es_ran = True\<rparr>,
          st\<lparr>js_io := io, js_records := (case sp_id step of
             None \<Rightarrow> js_records st
           | Some x \<Rightarrow> js_records st @ [\<lparr>sr_id = x, sr_outcome = res_outcome result,
               sr_conclusion = res_conclusion result, sr_outputs = outputs\<rparr>])\<rparr>)))))))"

section \<open>Post steps\<close>

definition run_checkout_post :: "('x, 'w) engine \<Rightarrow> checkout_post \<Rightarrow> 'w \<Rightarrow> 'x + 'w" where
  "run_checkout_post eng p w = (case p of
     Noop \<Rightarrow> Inr w
   | CredentialCleanup repo_dir \<Rightarrow>
       rbind (exec_plain eng [lit ''sh'', lit ''-c'', lit ''git -C '' @ repo_dir @
         lit '' config --local --unset-all http.https://github.com/.extraheader 2>/dev/null || true''] w)
       (\<lambda>(_, _, w'). Inr w'))"

definition run_post_entry :: "('x, 'w) job_runtime \<Rightarrow> need_record list \<Rightarrow> post_entry \<Rightarrow>
    'w loop_state \<Rightarrow> 'x exec_error + executed_step \<times> 'w loop_state" where
  "run_post_entry rt ns entry st =
    (let label = masker_apply (io_masker (js_io st)) (pe_label entry);
         c = live_context rt ns st (layered_env rt (js_io st) []) in
     case pe_action entry of
       PostCheckout p \<Rightarrow>
         rbind (lift_engine (run_checkout_post (jr_engine rt) p (io_world (js_io st)))) (\<lambda>w.
         Inr (\<lparr>es_result = step_result_from_exit ExitSuccess False, es_label = label, es_ran = True\<rparr>,
              st\<lparr>js_io := (js_io st)\<lparr>io_world := w\<rparr>\<rparr>))
     | PostNode p \<Rightarrow>
         rbind (case resolve_template_condition
                  (case np_post_if p of Some t \<Rightarrow> t | None \<Rightarrow> lit ''always()'') c (fresh_rc rt ns st) of
                Inl e \<Rightarrow> Inl (ExecTemplateEval e) | Inr v \<Rightarrow> Inr v) (\<lambda>go.
         if go then
           rbind (jr_node_post rt p (js_status st) (js_records st) (js_io st)) (\<lambda>(exit, io).
           Inr (\<lparr>es_result = step_result_from_exit exit False, es_label = label, es_ran = True\<rparr>,
                st\<lparr>js_io := io\<rparr>))
         else Inr (\<lparr>es_result = step_result_skipped, es_label = label, es_ran = False\<rparr>, st)))"

fun run_post_entries :: "('x, 'w) job_runtime \<Rightarrow> need_record list \<Rightarrow> post_entry list \<Rightarrow>
    'w loop_state \<Rightarrow> 'x exec_error + executed_step list \<times> 'w loop_state" where
  "run_post_entries rt ns [] st = Inr ([], st)"
| "run_post_entries rt ns (e # es) st =
     rbind (run_post_entry rt ns e st) (\<lambda>(x, st).
     rbind (run_post_entries rt ns es st) (\<lambda>(xs, st). Inr (x # xs, st)))"

definition run_post_steps :: "('x, 'w) job_runtime \<Rightarrow> need_record list \<Rightarrow> 'w loop_state \<Rightarrow>
    'x exec_error + executed_step list \<times> 'w loop_state" where
  "run_post_steps rt ns st = (case drain_reverse (io_post_chain (js_io st)) of
     (entries, chain) \<Rightarrow>
       run_post_entries rt ns entries (st\<lparr>js_io := (js_io st)\<lparr>io_post_chain := chain\<rparr>\<rparr>))"

section \<open>The body of a job\<close>

fun run_steps :: "('x, 'w) job_runtime \<Rightarrow> need_record list \<Rightarrow> step_plan list \<Rightarrow> nat \<Rightarrow>
    'w loop_state \<Rightarrow> 'x exec_error + executed_step list \<times> 'w loop_state" where
  "run_steps rt ns [] i st = Inr ([], st)"
| "run_steps rt ns (s # ss) i st =
     rbind (execute_step rt ns s i st) (\<lambda>(x, st).
     rbind (run_steps rt ns ss (i + 1)
       (st\<lparr>js_status := advance_status (js_status st) (res_conclusion (es_result x))\<rparr>)) (\<lambda>(xs, st).
     Inr (x # xs, st)))"

text \<open>The pre scripts of the job's JavaScript actions, in the order of the steps, before the first step.\<close>

definition run_pre_step :: "('x, 'w) job_runtime \<Rightarrow> need_record list \<Rightarrow> step_plan \<Rightarrow> nat \<Rightarrow>
    'w loop_state \<Rightarrow> 'x exec_error + 'w loop_state" where
  "run_pre_step rt ns step i st = (case (jr_pre rt i, sp_kind step) of
     (Some (script, pre_if), Uses _ _ given) \<Rightarrow>
       (let c = live_context rt ns st (layered_env rt (js_io st) []); rc = fresh_rc rt ns st in
        rbind (eval_err (resolve_env_layer given c rc)) (\<lambda>resolved.
        rbind (case resolve_template_condition
                 (case pre_if of Some t \<Rightarrow> t | None \<Rightarrow> lit ''always()'') c rc of
               Inl e \<Rightarrow> Inl (ExecTemplateEval e) | Inr v \<Rightarrow> Inr v) (\<lambda>go.
        if go then rbind (jr_node_pre rt step i script resolved (js_io st)) (\<lambda>io.
          Inr (st\<lparr>js_io := io\<rparr>))
        else Inr st)))
   | _ \<Rightarrow> Inr st)"

fun run_pre_steps :: "('x, 'w) job_runtime \<Rightarrow> need_record list \<Rightarrow> step_plan list \<Rightarrow> nat \<Rightarrow>
    'w loop_state \<Rightarrow> 'x exec_error + 'w loop_state" where
  "run_pre_steps rt ns [] i st = Inr st"
| "run_pre_steps rt ns (s # ss) i st =
     rbind (run_pre_step rt ns s i st) (run_pre_steps rt ns ss (i + 1))"

definition run_job_body :: "('x, 'w) job_runtime \<Rightarrow> need_record list \<Rightarrow> step_plan list \<Rightarrow>
    job_outputs_plan \<Rightarrow> 'w loop_state \<Rightarrow>
    'x exec_error + executed_step list \<times> env_map \<times> conclusion \<times> 'w loop_state" where
  "run_job_body rt ns plan_steps plan_outputs st =
     rbind (run_pre_steps rt ns plan_steps 0 st) (\<lambda>st.
     rbind (run_steps rt ns plan_steps 0 st) (\<lambda>(reports, st).
     rbind (run_post_steps rt ns st) (\<lambda>(posts, st).
     let st = st\<lparr>js_status := foldl (\<lambda>s x. advance_status s (res_conclusion (es_result x)))
                 (js_status st) posts\<rparr>;
         final_ctx = live_context rt ns st (layered_env rt (js_io st) []) in
     rbind (case finalize_outputs plan_outputs final_ctx (fresh_rc rt ns st) (io_masker (js_io st)) of
              Inl e \<Rightarrow> Inl (JobOutput e) | Inr v \<Rightarrow> Inr v) (\<lambda>outputs.
     Inr (reports @ posts, outputs, job_result_from_status (js_status st), st)))))"

definition job_activates :: "bool \<Rightarrow> if_condition option \<Rightarrow> bool \<Rightarrow> need_record list \<Rightarrow> ctx \<Rightarrow> nat \<Rightarrow>
    'x exec_error + bool" where
  "job_activates skip cond implicit_gate ns c rc =
    (if skip then Inr False
     else rbind (case cond of
         Some x \<Rightarrow> eval_err (resolve_condition x c rc) | None \<Rightarrow> Inr True) (\<lambda>condition_true.
       if implicit_gate
       then Inr (list_all (\<lambda>n. nr_result n = CSuccess) ns \<and> condition_true)
       else Inr condition_true))"

end
