(* ===== verification/Step_Ids.thy ===== *)
theory Step_Ids
  imports Step_Exec Uses_Ref "HOL-Library.Multiset"
begin

text \<open>
  The \<open>GITHUB_ACTION\<close> value of every step of a job
  (\<open>greenlit-runtime/src/executor/step_ids.rs\<close>) and the validation of authored ids it relies on
  (\<open>greenlit-workflow/src/validate.rs\<close>). The generated ids are pairwise distinct; they are
  distinct from the authored ones only when no authored id has the reserved prefix, which the
  validation does not ask for.
\<close>

section \<open>Validation of authored ids\<close>

definition identifier_char :: "uchar \<Rightarrow> bool" where
  "identifier_char b \<longleftrightarrow> is_ascii_alphanumeric b \<or> b = cp CHR ''_'' \<or> b = cp CHR ''-''"

definition validate_identifier :: "ustr \<Rightarrow> bool" where
  "validate_identifier s = (case s of
     [] \<Rightarrow> False
   | b # bs \<Rightarrow> (is_ascii_alphabetic b \<or> b = cp CHR ''_'') \<and> list_all identifier_char bs)"

datatype step_id_error = InvalidId nat ustr | DuplicateId nat ustr

text \<open>The loop over the steps of a job: each id is valid and new up to ASCII case.\<close>

fun validate_step_ids :: "nat \<Rightarrow> ustr option list \<Rightarrow> ustr list \<Rightarrow> step_id_error + unit" where
  "validate_step_ids i [] taken = Inr ()"
| "validate_step_ids i (None # ids) taken = validate_step_ids (i + 1) ids taken"
| "validate_step_ids i (Some x # ids) taken =
    (if \<not> validate_identifier x then Inl (InvalidId i x)
     else if to_ascii_lowercase x \<in> set taken then Inl (DuplicateId i x)
     else validate_step_ids (i + 1) ids (to_ascii_lowercase x # taken))"

section \<open>Generated ids\<close>

definition raw_generated_id :: "step_plan \<Rightarrow> ustr" where
  "raw_generated_id step = (case sp_kind step of
     Run _ _ \<Rightarrow> lit ''run''
   | Uses reference _ _ \<Rightarrow> (case parse_action_ref reference of
       Inr (Repository r) \<Rightarrow> rr_owner r @ lit ''/'' @ rr_repo r
     | _ \<Rightarrow> lit ''run''))"

definition sanitize_id_segment :: "ustr \<Rightarrow> ustr" where
  "sanitize_id_segment raw = map (\<lambda>c. if identifier_char c then c else cp CHR ''_'') raw"

definition candidate :: "ustr \<Rightarrow> nat \<Rightarrow> ustr" where
  "candidate base attempt = base @ lit ''_'' @ dec_string attempt"

lemma candidate_inj: "candidate base m = candidate base n \<Longrightarrow> m = n"
  by (metis candidate_def dec_value_dec_string same_append_eq)

text \<open>The loop over the suffixes ends because only finitely many ids are in use.\<close>

function dedup_loop :: "ustr \<Rightarrow> ustr list \<Rightarrow> nat \<Rightarrow> ustr" where
  "dedup_loop base used attempt = (if candidate base attempt \<in> set used
     then dedup_loop base used (attempt + 1) else candidate base attempt)"
  by pat_completeness auto
termination
proof (relation "measure (\<lambda>(base, used, attempt).
    card {c \<in> set used. \<exists>n \<ge> attempt. c = candidate base n})", goal_cases)
  case (2 base used attempt)
  have "{c \<in> set used. \<exists>n \<ge> attempt + 1. c = candidate base n} \<subset>
      {c \<in> set used. \<exists>n \<ge> attempt. c = candidate base n}"
  proof (rule psubsetI)
    have "candidate base attempt \<notin> {c \<in> set used. \<exists>n \<ge> attempt + 1. c = candidate base n}"
      using candidate_inj by fastforce
    then show "{c \<in> set used. \<exists>n \<ge> attempt + 1. c = candidate base n} \<noteq>
        {c \<in> set used. \<exists>n \<ge> attempt. c = candidate base n}"
      using 2 by blast
  qed (use Suc_leD in fastforce)
  then show ?case using 2 by (simp add: psubset_card_mono)
qed simp

declare dedup_loop.simps [simp del]

definition dedup_generated_id :: "ustr \<Rightarrow> ustr list \<Rightarrow> ustr \<times> ustr list" where
  "dedup_generated_id raw used = (let base = lit ''__'' @ sanitize_id_segment raw in
     if base \<notin> set used then (base, base # used)
     else (let c = dedup_loop base used 2 in (c, c # used)))"

fun action_ids_loop :: "step_plan list \<Rightarrow> ustr list \<Rightarrow> ustr list" where
  "action_ids_loop [] used = []"
| "action_ids_loop (s # ss) used = (case sp_id s of
     Some x \<Rightarrow> x # action_ids_loop ss used
   | None \<Rightarrow> (case dedup_generated_id (raw_generated_id s) used of
       (x, used') \<Rightarrow> x # action_ids_loop ss used'))"

definition compute_step_action_ids :: "step_plan list \<Rightarrow> ustr list" where
  "compute_step_action_ids plan_steps = action_ids_loop plan_steps []"

section \<open>Distinct ids\<close>

lemma dedup_loop_fresh:
  "dedup_loop base used n \<notin> set used \<and> (\<exists>m. dedup_loop base used n = candidate base m)"
proof (induction base used n rule: dedup_loop.induct)
  case (1 base used n)
  then show ?case by (subst (1 2) dedup_loop.simps) auto
qed

lemma dedup_generated_id_fresh:
  assumes "dedup_generated_id raw used = (x, used')"
  shows "x \<notin> set used \<and> used' = x # used \<and> prefix (lit ''__'') x"
proof -
  let ?base = "lit ''__'' @ sanitize_id_segment raw"
  obtain m where fresh: "dedup_loop ?base used 2 \<notin> set used"
    "dedup_loop ?base used 2 = candidate ?base m"
    using dedup_loop_fresh by blast
  moreover have "prefix (lit ''__'') (candidate ?base m)"
    by (simp add: candidate_def)
  ultimately show ?thesis
    using assms by (auto simp: dedup_generated_id_def Let_def split: if_splits)
qed

text \<open>The ids at the positions without an authored one.\<close>

definition generated :: "step_plan list \<Rightarrow> ustr list \<Rightarrow> ustr list" where
  "generated ss ids = map snd (filter (\<lambda>(s, x). sp_id s = None) (zip ss ids))"

definition authored :: "step_plan list \<Rightarrow> ustr list" where
  "authored ss = List.map_filter sp_id ss"

lemma generated_simps [simp]:
  "generated [] ids = []"
  "generated (s # ss) (x # ids) = (if sp_id s = None then x # generated ss ids else generated ss ids)"
  by (simp_all add: generated_def)

lemma authored_simps [simp]:
  "authored [] = []"
  "authored (s # ss) = (case sp_id s of None \<Rightarrow> authored ss | Some x \<Rightarrow> x # authored ss)"
  by (simp_all add: authored_def map_filter_simps split: option.splits)

lemma action_ids_loop_spec:
  "length (action_ids_loop ss used) = length ss \<and>
   distinct (generated ss (action_ids_loop ss used)) \<and>
   set (generated ss (action_ids_loop ss used)) \<inter> set used = {} \<and>
   (\<forall>x \<in> set (generated ss (action_ids_loop ss used)). prefix (lit ''__'') x) \<and>
   mset (action_ids_loop ss used) = mset (generated ss (action_ids_loop ss used)) + mset (authored ss) \<and>
   (\<forall>i < length ss. \<forall>x. sp_id (ss ! i) = Some x \<longrightarrow> action_ids_loop ss used ! i = x)"
proof (induction ss arbitrary: used)
  case (Cons s ss)
  show ?case
  proof (cases "sp_id s")
    case (Some x)
    then show ?thesis using Cons [of used] by (auto simp: nth_Cons')
  next
    case None
    obtain x used' where d: "dedup_generated_id (raw_generated_id s) used = (x, used')"
      by (cases "dedup_generated_id (raw_generated_id s) used")
    then have "x \<notin> set used" "used' = x # used" "prefix (lit ''__'') x"
      using dedup_generated_id_fresh by auto
    then show ?thesis
      using Cons [of used'] None d by (auto simp: nth_Cons')
  qed
qed simp

lemma validate_step_ids_distinct:
  "validate_step_ids i (map sp_id ss) taken = Inr () \<Longrightarrow>
   distinct (map to_ascii_lowercase (authored ss)) \<and>
   set (map to_ascii_lowercase (authored ss)) \<inter> set taken = {}"
proof (induction ss arbitrary: i taken)
  case (Cons s ss)
  show ?case
  proof (cases "sp_id s")
    case None
    then show ?thesis using Cons by simp
  next
    case (Some x)
    then show ?thesis
      using Cons.IH [of "i + 1" "to_ascii_lowercase x # taken"] Cons.prems
      by (auto split: if_splits)
  qed
qed simp

text \<open>
  Every step of a validated job gets a \<open>GITHUB_ACTION\<close> value: its authored id when it has one,
  otherwise a generated id; the suffix search always ends and the generated ids are pairwise
  distinct. When no authored id has the reserved prefix, all values of the job are distinct.
\<close>

lemma step_action_ids_distinct:
  assumes "validate_step_ids 0 (map sp_id ss) [] = Inr ()"
    and "\<forall>x \<in> set (authored ss). \<not> prefix (lit ''__'') x"
  shows "length (compute_step_action_ids ss) = length ss \<and>
    distinct (compute_step_action_ids ss) \<and>
    (\<forall>i < length ss. \<forall>x. sp_id (ss ! i) = Some x \<longrightarrow> compute_step_action_ids ss ! i = x)"
proof -
  let ?ids = "compute_step_action_ids ss"
  note spec = action_ids_loop_spec [of ss "[]", folded compute_step_action_ids_def]
  have "distinct (authored ss)"
    using validate_step_ids_distinct [OF assms(1)] by (simp add: distinct_map)
  then have "distinct (generated ss ?ids @ authored ss)"
    using spec assms(2) by auto
  moreover have "mset ?ids = mset (generated ss ?ids @ authored ss)"
    using spec by simp
  ultimately have "distinct ?ids"
    by (metis mset_eq_imp_distinct_iff)
  then show ?thesis using spec by blast
qed

definition sample_step :: "ustr option \<Rightarrow> step_plan" where
  "sample_step x = \<lparr>sp_id = x, sp_name = None, sp_env = [], sp_working_directory = None,
     sp_continue_on_error = None, sp_timeout_minutes = None, sp_condition = None,
     sp_implicit_status_gate = True,
     sp_kind = Run (static_value sample_span (lit ''true'') (lit ''true'')) None\<rparr>"

text \<open>
  The validation lets an authored id start with the reserved prefix, so an authored id can be the
  id generated for another step of the job.
\<close>

lemma authored_id_can_collide:
  "validate_step_ids 0 (map sp_id [sample_step (Some (lit ''__run'')), sample_step None]) [] = Inr () \<and>
   compute_step_action_ids [sample_step (Some (lit ''__run'')), sample_step None] =
     [lit ''__run'', lit ''__run'']"
  by code_simp

end
