(* ===== verification/Job_Body.thy ===== *)
theory Job_Body
  imports Step_Ids
begin

text \<open>
  What the execution of a job's steps guarantees: the job's result is the worst conclusion of its
  steps and post steps, a step behind the implicit gate does not run once an earlier step failed,
  a step with \<open>continue-on-error\<close> never fails the job, post steps run once each in the reverse
  order of their registration whatever the status, and what a step writes to \<open>GITHUB_ENV\<close> is in
  the environment of the next ones.
\<close>

lemmas run_simps = rbind_eq_Inr Let_def

abbreviation concl :: "executed_step \<Rightarrow> conclusion" where
  "concl x \<equiv> res_conclusion (es_result x)"

section \<open>One step\<close>

lemma eval_err_Inr [simp]: "eval_err r = Inr v \<longleftrightarrow> r = Inr v"
  by (auto simp: eval_err_def split: sum.splits)

text \<open>\<open>yields Q m\<close>: if \<open>m\<close> returns, its result satisfies \<open>Q\<close>.\<close>

abbreviation yields :: "('a \<Rightarrow> bool) \<Rightarrow> 'e + 'a \<Rightarrow> bool" where
  "yields Q m \<equiv> outcome (\<lambda>_. True) Q m"

lemma yields_rbind: "(\<And>x. m = Inr x \<Longrightarrow> yields Q (f x)) \<Longrightarrow> yields Q (rbind m f)"
  by (cases m) auto

text \<open>What a step does to the state and what it reports.\<close>

definition step_spec :: "step_plan \<Rightarrow> 'w loop_state \<Rightarrow> executed_step \<times> 'w loop_state \<Rightarrow> bool" where
  "step_spec step st r = (case r of (x, st') \<Rightarrow>
     js_status st' = js_status st \<and>
     (es_ran x \<longrightarrow> sp_implicit_status_gate step \<longrightarrow> js_status st = Success) \<and>
     (\<not> es_ran x \<longrightarrow> es_result x = step_result_skipped \<and> js_io st' = js_io st) \<and>
     (es_ran x \<longrightarrow> concl x \<noteq> CSkipped) \<and>
     (\<forall>p. sp_continue_on_error step = Some p \<longrightarrow> pl_evaluation p = Static True \<longrightarrow>
        concl x \<noteq> CFailure))"

lemma step_result_concl:
  "res_conclusion (step_result_from_exit exit coe) \<noteq> CSkipped"
  "res_conclusion (step_result_from_exit exit True) \<noteq> CFailure"
  by (cases exit; simp)+

lemma resolve_bool_static: "pl_evaluation p = Static b \<Longrightarrow> resolve_bool p c rc = Inr b"
  by (simp add: resolve_bool_def)

lemma execute_step_spec: "yields (step_spec step st) (execute_step rt ns step i st)"
  unfolding execute_step_def Let_def
proof (rule yields_rbind, rule yields_rbind, rule yields_rbind, goal_cases)
  case (1 step_env raw_label condition_true)
  show ?case
  proof (cases "step_activates (js_status st) (sp_implicit_status_gate step) condition_true")
    case False
    then show ?thesis
      by (simp add: step_spec_def step_result_skipped_def)
  next
    case True
    show ?thesis
      using True
      by (auto simp: step_spec_def step_activates_def resolve_bool_static step_result_concl
          intro!: yields_rbind
          split: if_splits)
  qed
qed

lemma execute_step_specD: "execute_step rt ns step i st = Inr r \<Longrightarrow> step_spec step st r"
  using execute_step_spec [of step st rt ns i] by simp

section \<open>The sequence of steps\<close>

text \<open>A step that may not run any more: it has the implicit gate and an earlier one went wrong.\<close>

definition gated_out :: "step_plan \<Rightarrow> conclusion list \<Rightarrow> bool" where
  "gated_out step earlier \<longleftrightarrow>
     sp_implicit_status_gate step \<and> (CFailure \<in> set earlier \<or> CCancelled \<in> set earlier)"

lemma run_steps_spec:
  assumes "run_steps rt ns ss i st = Inr (xs, st')" "js_status st = worst cs"
  shows "length xs = length ss \<and> js_status st' = worst (cs @ map concl xs) \<and>
    (\<forall>k < length ss. (gated_out (ss ! k) (cs @ map concl (take k xs)) \<longrightarrow> \<not> es_ran (xs ! k)) \<and>
       (\<not> es_ran (xs ! k) \<longrightarrow> es_result (xs ! k) = step_result_skipped) \<and>
       (\<forall>p. sp_continue_on_error (ss ! k) = Some p \<longrightarrow> pl_evaluation p = Static True \<longrightarrow>
          concl (xs ! k) \<noteq> CFailure))"
  using assms
proof (induction ss arbitrary: i st xs cs)
  case Nil
  then show ?case by simp
next
  case (Cons s ss)
  obtain x st1 ys where x: "execute_step rt ns s i st = Inr (x, st1)"
    and ys: "run_steps rt ns ss (i + 1)
      (st1\<lparr>js_status := advance_status (js_status st1) (concl x)\<rparr>) = Inr (ys, st')"
    and xs: "xs = x # ys"
    using Cons.prems(1) by (auto simp: rbind_eq_Inr split: prod.splits)
  have spec: "step_spec s st (x, st1)" using x by (rule execute_step_specD)
  then have status: "js_status st1 = worst cs" using Cons.prems(2) by (simp add: step_spec_def)
  have rest: "length ys = length ss \<and> js_status st' = worst ((cs @ [concl x]) @ map concl ys) \<and>
    (\<forall>k < length ss.
       (gated_out (ss ! k) ((cs @ [concl x]) @ map concl (take k ys)) \<longrightarrow> \<not> es_ran (ys ! k)) \<and>
       (\<not> es_ran (ys ! k) \<longrightarrow> es_result (ys ! k) = step_result_skipped) \<and>
       (\<forall>p. sp_continue_on_error (ss ! k) = Some p \<longrightarrow> pl_evaluation p = Static True \<longrightarrow>
          concl (ys ! k) \<noteq> CFailure))"
    using ys by (rule Cons.IH) (simp add: status worst_snoc)
  have here: "gated_out s cs \<longrightarrow> \<not> es_ran x"
    using spec Cons.prems(2) by (auto simp: step_spec_def gated_out_def worst_def split: if_splits)
  show ?case
    using rest here spec unfolding xs by (simp add: All_less_Suc2 step_spec_def)
qed

text \<open>
  The warning about an oversized summary carries the label as it was evaluated: unlike the label of
  the report it is not redacted, whatever the masker holds.
\<close>

lemma oversized_summary_warning_unmasked:
  assumes "\<not> e_summary_within_limit effects" "accepts 0"
  shows "io_log (snd (apply_to_io accepts effects label io)) = io_log io @ [summary_warning label] \<and>
    sublist label (summary_warning label)"
  using assms unfolding summary_warning_def
  by (auto simp: apply_to_io_def summary_warning_def split: prod.splits)

section \<open>Post steps\<close>

lemma run_post_entry_spec:
  "yields (\<lambda>(x, st'). js_status st' = js_status st \<and> (\<not> es_ran x \<longrightarrow> es_result x = step_result_skipped))
     (run_post_entry rt ns e st)"
  unfolding run_post_entry_def Let_def
  by (cases "pe_action e") (auto intro!: yields_rbind split: prod.splits)

lemma run_post_entries_spec:
  "yields (\<lambda>(xs, st'). length xs = length es \<and> js_status st' = js_status st \<and>
       list_all (\<lambda>x. \<not> es_ran x \<longrightarrow> es_result x = step_result_skipped) xs)
     (run_post_entries rt ns es st)"
proof (induction es arbitrary: st)
  case (Cons e es)
  show ?case
    unfolding run_post_entries.simps
  proof (rule yields_rbind, goal_cases)
    case (1 r)
    obtain x st1 where r: "r = (x, st1)" by (cases r)
    have "js_status st1 = js_status st" "\<not> es_ran x \<longrightarrow> es_result x = step_result_skipped"
      using run_post_entry_spec [of st rt ns e] 1 by (simp_all add: r)
    then show ?case
      using Cons [of st1] unfolding r by (auto intro!: yields_rbind)
  qed
qed simp

text \<open>The post steps are drained in the reverse order of their registration, each exactly once.\<close>

lemma drain_reverse_lifo:
  "fst (drain_reverse (fold post_push es [])) = rev es \<and> snd (drain_reverse (fold post_push es [])) = []"
proof -
  have "fold post_push es chain = chain @ es" for chain
    by (induction es arbitrary: chain) (simp_all add: post_push_def)
  then show ?thesis by (simp add: drain_reverse_def)
qed

section \<open>The job\<close>

text \<open>The pre scripts leave the status and the records of the job as they were.\<close>

lemma run_pre_step_spec:
  "yields (\<lambda>st'. js_status st' = js_status st \<and> js_records st' = js_records st) (run_pre_step rt ns s i st)"
  unfolding run_pre_step_def Let_def
  by (cases "sp_kind s"; cases "jr_pre rt i") (auto intro!: yields_rbind)

lemma run_pre_steps_spec:
  "run_pre_steps rt ns ss i st = Inr st' \<Longrightarrow> js_status st' = js_status st \<and> js_records st' = js_records st"
proof (induction ss arbitrary: i st)
  case (Cons s ss)
  then obtain st1 where "run_pre_step rt ns s i st = Inr st1" "run_pre_steps rt ns ss (i + 1) st1 = Inr st'"
    by (auto simp: rbind_eq_Inr)
  then show ?case using Cons.IH [of "i + 1" st1] run_pre_step_spec [of st rt ns s i] by simp
qed simp

lemma foldl_advance: "foldl (\<lambda>s x. advance_status s (concl x)) (worst cs) xs = worst (cs @ map concl xs)"
  by (induction xs rule: rev_induct) (simp_all add: worst_snoc flip: append_assoc)

text \<open>
  C2: when the body of a job returns, the pre scripts ran before the first step, there is one report
  per step in order, followed by one per
  registered post step, and the job's result is the worst conclusion among them (cancelled before
  failure before success, skipped steps counting as success). A step with the implicit status gate
  is skipped once an earlier step of the job has failed or was cancelled, a step that did not run is
  reported as skipped, and a step whose \<open>continue-on-error\<close> is true never fails the job.
\<close>

theorem job_result_is_worst_conclusion:
  assumes "run_job_body rt ns ss outs (new_loop_state ms log_lines w) = Inr (reports, outputs, result, st')"
  shows "(\<exists>ready steps_state. run_pre_steps rt ns ss 0 (new_loop_state ms log_lines w) = Inr ready \<and>
      run_steps rt ns ss 0 ready = Inr (take (length ss) reports, steps_state) \<and>
      length reports = length ss + length (io_post_chain (js_io steps_state))) \<and>
    result = job_result_from_status (worst (map concl reports)) \<and>
    (\<forall>k < length ss.
      (gated_out (ss ! k) (map concl (take k reports)) \<longrightarrow> \<not> es_ran (reports ! k)) \<and>
      (\<not> es_ran (reports ! k) \<longrightarrow> es_result (reports ! k) = step_result_skipped) \<and>
      (\<forall>p. sp_continue_on_error (ss ! k) = Some p \<longrightarrow> pl_evaluation p = Static True \<longrightarrow>
         concl (reports ! k) \<noteq> CFailure))"
proof (intro conjI)
  let ?st = "new_loop_state ms log_lines w"
  obtain xs st0 st1 ys st2 where pre: "run_pre_steps rt ns ss 0 ?st = Inr st0"
    and run: "run_steps rt ns ss 0 st0 = Inr (xs, st1)"
    and post: "run_post_steps rt ns st1 = Inr (ys, st2)"
    and reports: "reports = xs @ ys"
    and result: "result = job_result_from_status
        (foldl (\<lambda>s x. advance_status s (concl x)) (js_status st2) ys)"
    using assms by (auto simp: run_job_body_def Let_def rbind_eq_Inr split: prod.splits)
  have spec: "length xs = length ss \<and> js_status st1 = worst ([] @ map concl xs) \<and>
    (\<forall>k < length ss. (gated_out (ss ! k) ([] @ map concl (take k xs)) \<longrightarrow> \<not> es_ran (xs ! k)) \<and>
       (\<not> es_ran (xs ! k) \<longrightarrow> es_result (xs ! k) = step_result_skipped) \<and>
       (\<forall>p. sp_continue_on_error (ss ! k) = Some p \<longrightarrow> pl_evaluation p = Static True \<longrightarrow>
          concl (xs ! k) \<noteq> CFailure))"
    using run by (rule run_steps_spec) (simp add: run_pre_steps_spec [OF pre] new_loop_state_def)
  have posts: "length ys = length (io_post_chain (js_io st1))" "js_status st2 = js_status st1"
    using run_post_entries_spec [of "rev (io_post_chain (js_io st1))"
        "st1\<lparr>js_io := (js_io st1)\<lparr>io_post_chain := []\<rparr>\<rparr>" rt ns] post
    by (simp_all add: run_post_steps_def drain_reverse_def)
  show "\<exists>ready steps_state. run_pre_steps rt ns ss 0 ?st = Inr ready \<and>
      run_steps rt ns ss 0 ready = Inr (take (length ss) reports, steps_state) \<and>
      length reports = length ss + length (io_post_chain (js_io steps_state))"
    using pre run spec posts reports by auto
  show "result = job_result_from_status (worst (map concl reports))"
    using spec posts foldl_advance by (simp add: result reports)
  show "\<forall>k < length ss.
      (gated_out (ss ! k) (map concl (take k reports)) \<longrightarrow> \<not> es_ran (reports ! k)) \<and>
      (\<not> es_ran (reports ! k) \<longrightarrow> es_result (reports ! k) = step_result_skipped) \<and>
      (\<forall>p. sp_continue_on_error (ss ! k) = Some p \<longrightarrow> pl_evaluation p = Static True \<longrightarrow>
         concl (reports ! k) \<noteq> CFailure)"
    using spec by (auto simp: reports nth_append)
qed

definition sample_engine :: "int \<Rightarrow> (unit, unit) engine" where
  "sample_engine code = \<lparr>eng_exec = (\<lambda>spec w. (([], Inr (if x_working_dir spec = None then 0 else code)), w)),
     eng_exec_within = (\<lambda>_ spec w. (([], None), w)), eng_terminate = (\<lambda>_ w. (Inr (), w)),
     eng_nanos = (\<lambda>_. 7), eng_display = (\<lambda>_. [])\<rparr>"

definition sample_runtime :: "int \<Rightarrow> ustr list \<Rightarrow> (unit, unit) job_runtime" where
  "sample_runtime code ids = \<lparr>jr_engine = sample_engine code, jr_roots = sample_roots, jr_rc = 10,
     jr_runner_ctx = VNull, jr_matrix = VNull, jr_base_env = [], jr_workflow_env = [],
     jr_job_env = [], jr_default_shell = None, jr_default_working_directory = None,
     jr_in_container = False, jr_bash_available = True, jr_workspace = lit ''/w'',
     jr_cmdfiles_base = lit ''/c'', jr_step_action_ids = ids, jr_accepts = (\<lambda>_. True),
     jr_uses = (\<lambda>_ _ _ _ _ _ io. Inr (ExitSuccess, [], io)),
     jr_pre = (\<lambda>_. None), jr_node_pre = (\<lambda>_ _ _ _ io. Inr io), jr_node_post = (\<lambda>_ _ _ io. Inr (ExitSuccess, io))\<rparr>"

definition sample_steps :: "step_plan list" where
  "sample_steps = [sample_step None, sample_step None,
     (sample_step None)\<lparr>sp_implicit_status_gate := False,
       sp_continue_on_error := Some (static_value sample_span [] True)\<rparr>]"

theorem job_result_is_worst_conclusion_witness:
  "\<exists>reports outputs st'.
    run_job_body (sample_runtime 1 (compute_step_action_ids sample_steps)) [] sample_steps []
      (new_loop_state [] [] ()) = Inr (reports, outputs, CFailure, st') \<and>
    map (\<lambda>x. (res_outcome (es_result x), concl x)) reports =
      [(CFailure, CFailure), (CSkipped, CSkipped), (CFailure, CSuccess)] \<and>
    CFailure = job_result_from_status (worst (map concl reports)) \<and> \<not> es_ran (reports ! 1)"
proof -
  let ?run = "run_job_body (sample_runtime 1 (compute_step_action_ids sample_steps)) []
      sample_steps [] (new_loop_state [] [] ())"
  have "(case ?run of Inr (reports, outputs, result, st') \<Rightarrow> result = CFailure \<and>
      map (\<lambda>x. (res_outcome (es_result x), concl x)) reports =
      [(CFailure, CFailure), (CSkipped, CSkipped), (CFailure, CSuccess)] | Inl _ \<Rightarrow> False)"
    by code_simp
  then obtain reports outputs st' where run: "?run = Inr (reports, outputs, CFailure, st')"
    and shown: "map (\<lambda>x. (res_outcome (es_result x), concl x)) reports =
      [(CFailure, CFailure), (CSkipped, CSkipped), (CFailure, CSuccess)]"
    by (auto split: sum.splits prod.splits)
  note spec = job_result_is_worst_conclusion [OF run]
  have "gated_out (sample_steps ! 1) (map concl (take 1 reports))"
    using shown by (cases reports) (auto simp: gated_out_def sample_steps_def sample_step_def)
  then have skipped: "\<not> es_ran (reports ! 1)"
    using spec by (auto simp: sample_steps_def)
  from spec have worst: "CFailure = job_result_from_status (worst (map concl reports))"
    by (elim conjE)
  show ?thesis
    by (intro exI conjI, rule run, rule shown, rule worst, rule skipped)
qed

end
