(* ===== verification/Scheduler.thy ===== *)
theory Scheduler
  imports Step_Exec "HOL-Library.Multiset"
begin

text \<open>
  Concurrent scheduling (\<open>greenlit-runtime/src/executor/scheduler.rs\<close>, \<open>executor/mod.rs\<close>:
  \<open>aggregate\<close>, \<open>executor/report.rs\<close>). The legs of a group run concurrently and finish in any
  order with any result: the loop of \<open>run_group\<close> is a step relation, one step per finished leg.
  Materialising a group and running a leg are parameters. The waves of a run are sequential, so
  they are a function of what the groups return.
\<close>

section \<open>Reports\<close>

record job_report =
  jp_id :: ustr
  jp_display :: ustr
  jp_result :: conclusion
  jp_steps :: "executed_step list"
  jp_outputs :: env_map

definition overall_of :: "job_report list \<Rightarrow> conclusion" where
  "overall_of jobs =
    (if list_ex (\<lambda>j. jp_result j = CFailure) jobs then CFailure
     else if list_ex (\<lambda>j. jp_result j = CCancelled) jobs then CCancelled
     else CSuccess)"

definition run_failed :: "conclusion \<Rightarrow> bool" where
  "run_failed overall \<longleftrightarrow> overall = CFailure \<or> overall = CCancelled"

definition aggregate :: "(conclusion \<times> env_map) list \<Rightarrow> conclusion \<times> env_map" where
  "aggregate results =
    ((if results = [] then CSkipped
      else if list_ex (\<lambda>r. fst r = CFailure) results then CFailure
      else if list_ex (\<lambda>r. fst r = CCancelled) results then CCancelled
      else if list_all (\<lambda>r. fst r = CSkipped) results then CSkipped
      else CSuccess),
     merge_matrix_outputs (map snd results))"

section \<open>The legs of a group\<close>

record 'i materialized =
  m_instances :: "'i list"
  m_fail_fast :: bool
  m_max_parallel :: nat

record ('i, 'e) group_state =
  g_pending :: "(nat \<times> 'i) list"
  g_running :: "(nat \<times> 'i) list"
  g_indexed :: "(nat \<times> job_report) list"
  g_error :: "'e option"
  g_fail_fast :: bool

text \<open>The first batch: at most \<open>max_parallel\<close> legs, and at least one.\<close>

definition start_group :: "'i materialized \<Rightarrow> ('i, 'e) group_state" where
  "start_group m = (let legs = enumerate 0 (m_instances m); k = max (m_max_parallel m) 1 in
     \<lparr>g_pending = drop k legs, g_running = take k legs, g_indexed = [], g_error = None,
      g_fail_fast = False\<rparr>)"

definition launch_next :: "('i, 'e) group_state \<Rightarrow> ('i, 'e) group_state" where
  "launch_next s = (if \<not> g_fail_fast s \<and> g_error s = None
     then (case g_pending s of
         [] \<Rightarrow> s
       | leg # rest \<Rightarrow> s\<lparr>g_pending := rest, g_running := g_running s @ [leg]\<rparr>)
     else s)"

text \<open>The loop body for a finished leg with its result.\<close>

definition leg_finished :: "bool \<Rightarrow> nat \<times> 'i \<Rightarrow> 'e + job_report \<Rightarrow> ('i, 'e) group_state \<Rightarrow>
    ('i, 'e) group_state" where
  "leg_finished fail_fast leg result s =
    (let s = s\<lparr>g_running := remove1 leg (g_running s)\<rparr> in
     launch_next (case result of
       Inr report \<Rightarrow> s\<lparr>g_fail_fast := (g_fail_fast s \<or>
           fail_fast \<and> (jp_result report = CFailure \<or> jp_result report = CCancelled)),
         g_indexed := g_indexed s @ [(fst leg, report)]\<rparr>
     | Inl error \<Rightarrow> s\<lparr>g_error := (case g_error s of None \<Rightarrow> Some error | Some e \<Rightarrow> Some e)\<rparr>))"

inductive leg_step :: "bool \<Rightarrow> ('i, 'e) group_state \<Rightarrow> ('i, 'e) group_state \<Rightarrow> bool"
  for fail_fast where
  finished: "leg \<in> set (g_running s) \<Longrightarrow> leg_step fail_fast s (leg_finished fail_fast leg result s)"

inductive_cases leg_stepE: "leg_step fail_fast s s'"

definition cancelled_report :: "ustr \<Rightarrow> ('i \<Rightarrow> ustr) \<Rightarrow> masker \<Rightarrow> 'i \<Rightarrow> job_report" where
  "cancelled_report job_id show_leg ms x = \<lparr>jp_id = job_id, jp_display = masker_apply ms (show_leg x),
     jp_result = CCancelled, jp_steps = [], jp_outputs = []\<rparr>"

text \<open>After the loop: the legs never started are reported as cancelled, reports in leg order.\<close>

definition finish_group :: "ustr \<Rightarrow> ('i \<Rightarrow> ustr) \<Rightarrow> masker \<Rightarrow> ('i, 'e) group_state \<Rightarrow>
    'e + (conclusion \<times> env_map) \<times> job_report list" where
  "finish_group job_id show_leg ms s = (case g_error s of
     Some error \<Rightarrow> Inl error
   | None \<Rightarrow>
      (let indexed = g_indexed s @ (if g_fail_fast s
             then map (\<lambda>(i, x). (i, cancelled_report job_id show_leg ms x)) (g_pending s) else [])
       in Inr (aggregate (map (\<lambda>(_, r). (jp_result r, jp_outputs r)) indexed),
               map snd (sort_key fst indexed))))"

section \<open>The waves of a run\<close>

record completed_job =
  cj_result :: conclusion
  cj_outputs :: env_map
  cj_chain_failed :: bool
  cj_chain_cancelled :: bool

record job_group =
  jg_id :: ustr
  jg_needs :: "ustr list"
  jg_wave :: nat

type_synonym completed_map = "ustr \<Rightarrow> completed_job option"

definition needs_records :: "ustr list \<Rightarrow> completed_map \<Rightarrow> need_record list" where
  "needs_records ids completed = List.map_filter (\<lambda>need. map_option (\<lambda>done_job.
     \<lparr>nr_job = need, nr_result = cj_result done_job, nr_outputs = cj_outputs done_job,
      nr_chain_failed = cj_chain_failed done_job,
      nr_chain_cancelled = cj_chain_cancelled done_job\<rparr>) (completed need)) ids"

definition chain_flag :: "(completed_job \<Rightarrow> bool) \<Rightarrow> ustr list \<Rightarrow> completed_map \<Rightarrow> bool" where
  "chain_flag flag ids completed = list_ex (\<lambda>need. case completed need of
     Some done_job \<Rightarrow> flag done_job | None \<Rightarrow> False) ids"

definition group_completed :: "job_group \<Rightarrow> completed_map \<Rightarrow> conclusion \<times> env_map \<Rightarrow> completed_job" where
  "group_completed g completed aggregated = \<lparr>cj_result = fst aggregated, cj_outputs = snd aggregated,
     cj_chain_failed = (chain_flag cj_chain_failed (jg_needs g) completed \<or> fst aggregated = CFailure),
     cj_chain_cancelled =
       (chain_flag cj_chain_cancelled (jg_needs g) completed \<or> fst aggregated = CCancelled)\<rparr>"

text \<open>
  \<open>legs\<close> stands for the materialisation and the legs of a group, given the records of its needs:
  their aggregated result and their reports.
\<close>

type_synonym 'e legs =
  "job_group \<Rightarrow> need_record list \<Rightarrow> 'e + (conclusion \<times> env_map) \<times> job_report list"

definition run_group :: "'e legs \<Rightarrow> completed_map \<Rightarrow> job_group \<Rightarrow>
    'e + ustr \<times> completed_job \<times> job_report list" where
  "run_group legs completed g =
     rbind (legs g (needs_records (jg_needs g) completed)) (\<lambda>(aggregated, reports).
     Inr (jg_id g, group_completed g completed aggregated, reports))"

text \<open>
  One wave: every group sees what was complete before it, and an error ends the run. The groups of a
  wave run side by side: of several errors the source reports the one that came first in time, here the first
  in the order of the groups; no theorem speaks of which one it is.
\<close>

definition run_wave :: "'e legs \<Rightarrow> job_group list \<Rightarrow>
    completed_map \<times> (ustr \<Rightarrow> job_report list option) \<Rightarrow>
    'e + completed_map \<times> (ustr \<Rightarrow> job_report list option)" where
  "run_wave legs gs st = rbind (rmap (run_group legs (fst st)) gs) (\<lambda>results.
     Inr (fold (\<lambda>(x, c, _) m. m(x \<mapsto> c)) results (fst st),
          fold (\<lambda>(x, _, rs) m. m(x \<mapsto> rs)) results (snd st)))"

fun run_waves :: "'e legs \<Rightarrow> job_group list \<Rightarrow> nat list \<Rightarrow>
    completed_map \<times> (ustr \<Rightarrow> job_report list option) \<Rightarrow>
    'e + completed_map \<times> (ustr \<Rightarrow> job_report list option)" where
  "run_waves legs gs [] st = Inr st"
| "run_waves legs gs (w # ws) st =
     rbind (run_wave legs (filter (\<lambda>g. jg_wave g = w) gs) st) (run_waves legs gs ws)"

definition max_wave :: "job_group list \<Rightarrow> nat" where
  "max_wave gs = max_list0 (map jg_wave gs)"

fun collect_reports :: "job_group list \<Rightarrow> (ustr \<Rightarrow> job_report list option) \<Rightarrow> job_report list" where
  "collect_reports [] reports = []"
| "collect_reports (g # gs) reports = (case reports (jg_id g) of
     Some rs \<Rightarrow> rs @ collect_reports gs (reports(jg_id g := None))
   | None \<Rightarrow> collect_reports gs reports)"

definition run_plan :: "'e legs \<Rightarrow> job_group list \<Rightarrow> 'e + job_report list \<times> conclusion" where
  "run_plan legs gs = rbind (run_waves legs gs [0 ..< max_wave gs + 1] (Map.empty, Map.empty))
     (\<lambda>(_, reports). let jobs = collect_reports gs reports in Inr (jobs, overall_of jobs))"

end
