(* ===== verification/Scheduler_Laws.thy ===== *)
theory Scheduler_Laws
  imports Scheduler
begin

text \<open>
  The legs of a group: the loop keeps at most \<open>max_parallel\<close> legs running, ends after every
  started leg has finished, reports every leg once in declaration order, and starts no leg after
  a failure under fail-fast. The waves of a run: the status a job sees is decided by its direct
  and transitive dependencies.
\<close>

section \<open>The loop over the legs\<close>

abbreviation leg_indices :: "('i, 'e) group_state \<Rightarrow> nat multiset" where
  "leg_indices s \<equiv> mset (map fst (g_pending s)) + mset (map fst (g_running s)) + mset (map fst (g_indexed s))"

text \<open>
  The invariant: no leg is lost or doubled while no error occurred, the pool is bounded, and it is
  full as long as legs wait and nothing stops the group.
\<close>

definition group_inv :: "'i materialized \<Rightarrow> ('i, 'e) group_state \<Rightarrow> bool" where
  "group_inv m s \<longleftrightarrow>
     (g_error s = None \<longrightarrow> leg_indices s = mset [0 ..< length (m_instances m)]) \<and>
     set (g_pending s) \<subseteq> set (enumerate 0 (m_instances m)) \<and>
     length (g_running s) \<le> max (m_max_parallel m) 1 \<and>
     (g_pending s \<noteq> [] \<and> \<not> g_fail_fast s \<and> g_error s = None \<longrightarrow>
        length (g_running s) = max (m_max_parallel m) 1) \<and>
     (g_fail_fast s \<longrightarrow> m_fail_fast m \<and>
        (\<exists>r \<in> snd ` set (g_indexed s). jp_result r = CFailure \<or> jp_result r = CCancelled))"

lemma start_inv: "group_inv m (start_group m)"
proof -
  let ?legs = "enumerate 0 (m_instances m)" and ?k = "max (m_max_parallel m) 1"
  have "mset (map fst (drop ?k ?legs)) + mset (map fst (take ?k ?legs)) = mset (map fst ?legs)"
    by (metis append_take_drop_id map_append mset_append union_commute)
  then show ?thesis
    by (auto simp: group_inv_def start_group_def Let_def 
        dest: in_set_dropD)
qed

lemma remove1_indices:
  "leg \<in> set xs \<Longrightarrow> mset (map fst xs) = add_mset (fst leg) (mset (map fst (remove1 leg xs)))"
  by (induction xs) auto

lemma length_remove1_mem: "x \<in> set xs \<Longrightarrow> length xs = Suc (length (remove1 x xs))"
  by (induction xs) auto

text \<open>One step without the launch: a leg has left the pool.\<close>

definition half_inv :: "'i materialized \<Rightarrow> ('i, 'e) group_state \<Rightarrow> bool" where
  "half_inv m s \<longleftrightarrow>
     (g_error s = None \<longrightarrow> leg_indices s = mset [0 ..< length (m_instances m)]) \<and>
     set (g_pending s) \<subseteq> set (enumerate 0 (m_instances m)) \<and>
     length (g_running s) < max (m_max_parallel m) 1 \<and>
     (g_pending s \<noteq> [] \<and> \<not> g_fail_fast s \<and> g_error s = None \<longrightarrow>
        Suc (length (g_running s)) = max (m_max_parallel m) 1) \<and>
     (g_fail_fast s \<longrightarrow> m_fail_fast m \<and>
        (\<exists>r \<in> snd ` set (g_indexed s). jp_result r = CFailure \<or> jp_result r = CCancelled))"

lemma launch_inv: "half_inv m s \<Longrightarrow> group_inv m (launch_next s)"
  by (cases "g_pending s") (auto simp: half_inv_def group_inv_def launch_next_def)

lemma leg_finished_inv:
  assumes "group_inv m s" "leg \<in> set (g_running s)"
  shows "group_inv m (leg_finished (m_fail_fast m) leg result s)"
  unfolding leg_finished_def Let_def
proof (rule launch_inv)
  note facts = assms(1) [unfolded group_inv_def] remove1_indices [OF assms(2)]
    length_remove1_mem [OF assms(2)]
  show "half_inv m (case result of
       Inr report \<Rightarrow> s\<lparr>g_running := remove1 leg (g_running s), g_fail_fast := (g_fail_fast
           (s\<lparr>g_running := remove1 leg (g_running s)\<rparr>) \<or>
           m_fail_fast m \<and> (jp_result report = CFailure \<or> jp_result report = CCancelled)),
         g_indexed := g_indexed (s\<lparr>g_running := remove1 leg (g_running s)\<rparr>) @ [(fst leg, report)]\<rparr>
     | Inl error \<Rightarrow> s\<lparr>g_running := remove1 leg (g_running s), g_error :=
         (case g_error (s\<lparr>g_running := remove1 leg (g_running s)\<rparr>) of
            None \<Rightarrow> Some error | Some e \<Rightarrow> Some e)\<rparr>)"
    using facts by (cases result) (auto simp: half_inv_def split: option.splits)
qed

lemma leg_step_inv: "leg_step (m_fail_fast m) s s' \<Longrightarrow> group_inv m s \<Longrightarrow> group_inv m s'"
  by (elim leg_stepE) (simp add: leg_finished_inv)

lemma reachable_inv: "(leg_step (m_fail_fast m))\<^sup>*\<^sup>* (start_group m) s \<Longrightarrow> group_inv m s"
  by (induction rule: rtranclp_induct) (auto simp: start_inv leg_step_inv)

text \<open>Every step finishes one leg for good.\<close>

definition open_legs :: "('i, 'e) group_state \<Rightarrow> nat" where
  "open_legs s = length (g_pending s) + length (g_running s)"

lemma leg_step_open: "leg_step fail_fast s s' \<Longrightarrow> open_legs s = Suc (open_legs s')"
  by (elim leg_stepE)
     (auto simp: leg_finished_def launch_next_def open_legs_def Let_def length_remove1_mem
        split: sum.splits list.splits option.splits)

lemma stuck_iff_drained: "(\<nexists>s'. leg_step fail_fast s s') \<longleftrightarrow> g_running s = []"
  by (auto intro: finished elim: leg_stepE) (metis finished list.set_intros(1) neq_Nil_conv)

lemma steps_open:
  "(leg_step fail_fast ^^ n) s s' \<Longrightarrow> open_legs s = n + open_legs s'"
proof (induction n arbitrary: s')
  case (Suc n)
  then show ?case using leg_step_open by (fastforce elim: relpowp_Suc_E)
qed simp

lemma open_start: "open_legs (start_group m) = length (m_instances m)"
  by (simp add: open_legs_def start_group_def Let_def min_def)

text \<open>
  C17: the legs of a matrix job run on a bounded pool that always drains. In every state the loop
  can reach, at most \<open>max-parallel\<close> legs (at least one) run at a time and, while legs wait and
  nothing stopped the group, exactly that many. Whatever the legs return and in whatever order, an
  execution takes no more steps than the group has legs, and it stops only when no leg is running.
\<close>

theorem group_pool_bounded_and_drains:
  fixes s :: "('i, 'e) group_state"
  assumes "(leg_step (m_fail_fast m) ^^ n) (start_group m) s"
  shows "length (g_running s) \<le> max (m_max_parallel m) 1 \<and>
    (g_pending s \<noteq> [] \<and> \<not> g_fail_fast s \<and> g_error s = None \<longrightarrow>
       length (g_running s) = max (m_max_parallel m) 1) \<and>
    n \<le> length (m_instances m) \<and>
    ((\<nexists>s'. leg_step (m_fail_fast m) s s') \<longleftrightarrow> g_running s = [])"
proof -
  have "n \<le> length (m_instances m)"
    using steps_open [OF assms] by (simp add: open_start)
  moreover have "group_inv m s"
    using assms reachable_inv by (metis relpowp_imp_rtranclp)
  ultimately show ?thesis
    unfolding stuck_iff_drained by (simp add: group_inv_def)
qed

definition sample_report :: "conclusion \<Rightarrow> job_report" where
  "sample_report c = \<lparr>jp_id = lit ''j'', jp_display = lit ''j'', jp_result = c, jp_steps = [], jp_outputs = []\<rparr>"

definition sample_group :: "nat materialized" where
  "sample_group = \<lparr>m_instances = [10, 11, 12, 13], m_fail_fast = True, m_max_parallel = 2\<rparr>"

lemma sample_first_step:
  "leg_step (m_fail_fast sample_group) (start_group sample_group)
     (leg_finished True (1, 11) (Inr (sample_report CSuccess)) (start_group sample_group))"
  using finished [of "(1, 11)" "start_group sample_group" True]
  by (simp add: sample_group_def start_group_def Let_def)

theorem group_pool_bounded_and_drains_witness:
  "let s = leg_finished True (1, 11) (Inr (sample_report CSuccess))
             (start_group sample_group :: (nat, unit) group_state)
   in g_running s = [(0, 10), (2, 12)] \<and> g_pending s = [(3, 13)] \<and>
      length (g_running s) = max (m_max_parallel sample_group) 1 \<and>
      (\<exists>s'. leg_step (m_fail_fast sample_group) s s')"
proof -
  let ?s = "leg_finished True (1, 11) (Inr (sample_report CSuccess))
      (start_group sample_group :: (nat, unit) group_state)"
  have "(leg_step (m_fail_fast sample_group) ^^ 1) (start_group sample_group) ?s"
    unfolding relpowp_1 by (rule sample_first_step)
  note spec = group_pool_bounded_and_drains [OF this]
  have "g_running ?s = [(0, 10), (2, 12)]" "g_pending ?s = [(3, 13)]"
    "\<not> g_fail_fast ?s" "g_error ?s = None"
    by code_simp+
  then show ?thesis using spec by simp
qed

section \<open>The reports of a group\<close>

lemma sort_key_fst_upt:
  assumes "mset (map fst xs) = mset [0 ..< n]"
  shows "map fst (sort_key fst xs) = [0 ..< n]"
proof -
  have "sort [0 ..< n] = map fst (sort_key fst xs)"
    using assms by (intro properties_for_sort) (simp_all del: mset_upt)
  then show ?thesis by (simp add: sorted_sort_id)
qed

lemma drained_all_reported:
  assumes "group_inv m s" "g_running s = []" "g_error s = None"
  shows "\<not> g_fail_fast s \<Longrightarrow> g_pending s = []"
    and "mset (map fst (g_pending s)) + mset (map fst (g_indexed s)) = mset [0 ..< length (m_instances m)]"
  using assms by (auto simp: group_inv_def)

text \<open>An execution of the loop with its events: which leg finished, and with what result.\<close>

inductive leg_events :: "bool \<Rightarrow> ('i, 'e) group_state \<Rightarrow> ((nat \<times> 'i) \<times> ('e + job_report)) list \<Rightarrow> ('i, 'e) group_state \<Rightarrow> bool"
  for fail_fast where
  no_event: "leg_events fail_fast s [] s"
| event: "leg \<in> set (g_running s) \<Longrightarrow> leg_events fail_fast (leg_finished fail_fast leg result s) es s' \<Longrightarrow>
    leg_events fail_fast s ((leg, result) # es) s'"

lemma leg_events_steps: "leg_events fail_fast s es s' \<Longrightarrow> (leg_step fail_fast)\<^sup>*\<^sup>* s s'"
  by (induction rule: leg_events.induct) (auto intro: converse_rtranclp_into_rtranclp finished)

lemma leg_finished_error: "g_error (leg_finished fail_fast leg result s) = None \<Longrightarrow> g_error s = None \<and> (\<exists>r. result = Inr r)"
  by (cases result) (auto simp: leg_finished_def launch_next_def Let_def split: list.splits option.splits if_splits)

lemma leg_events_error: "leg_events fail_fast s es s' \<Longrightarrow> g_error s' = None \<Longrightarrow> g_error s = None"
  by (induction rule: leg_events.induct) (auto dest: leg_finished_error)

lemma leg_events_indexed:
  "leg_events fail_fast s es s' \<Longrightarrow> g_error s' = None \<Longrightarrow>
    list_all (\<lambda>(leg, result). \<not> isl result) es \<and>
    g_indexed s' = g_indexed s @ map (\<lambda>(leg, result). (fst leg, projr result)) es"
proof (induction rule: leg_events.induct)
  case (event leg s result es s')
  obtain r where r: "result = Inr r"
    using leg_events_error [OF event.hyps(2) event.prems] leg_finished_error by blast
  then have "g_indexed (leg_finished fail_fast leg result s) = g_indexed s @ [(fst leg, r)]"
    by (auto simp: leg_finished_def launch_next_def Let_def split: list.splits)
  with event r show ?case by simp
qed simp

definition known_legs :: "'i materialized \<Rightarrow> ('i, 'e) group_state \<Rightarrow> bool" where
  "known_legs m s \<longleftrightarrow> set (g_pending s) \<union> set (g_running s) \<subseteq> set (enumerate 0 (m_instances m))"

lemma known_legs_start: "known_legs m (start_group m)"
  by (auto simp: known_legs_def start_group_def Let_def dest: in_set_dropD in_set_takeD)

lemma known_legs_finished: "known_legs m s \<Longrightarrow> known_legs m (leg_finished fail_fast leg result s)"
  by (cases result)
     (auto simp: known_legs_def leg_finished_def launch_next_def Let_def dest: notin_set_remove1 set_remove1_subset [THEN subsetD]
       split: list.splits if_splits)

lemma leg_events_known:
  "leg_events fail_fast s es s' \<Longrightarrow> known_legs m s \<Longrightarrow> fst ` set es \<subseteq> set (enumerate 0 (m_instances m)) \<and> known_legs m s'"
proof (induction rule: leg_events.induct)
  case (event leg s result es s')
  then show ?case using known_legs_finished [OF event.prems] by (auto simp: known_legs_def)
qed simp

text \<open>
  C18: When the loop over the legs of a job has drained without an error, the job's reports are one
  per leg in declaration order. A leg that finished, that is every leg that was started, is
  reported exactly as it returned; a leg that was never started has a cancelled report, and there is one only
  under fail-fast after some leg returned a failure or a cancellation.
\<close>

theorem group_reports_every_leg_once:
  fixes s :: "('i, 'e) group_state"
  assumes "leg_events (m_fail_fast m) (start_group m) es s" "g_running s = []"
    and "finish_group job_id show_leg ms s = Inr (aggregated, reports)"
  shows "length reports = length (m_instances m) \<and>
    (\<forall>i x result. ((i, x), result) \<in> set es \<longrightarrow>
       i < length (m_instances m) \<and> x = m_instances m ! i \<and> result = Inr (reports ! i)) \<and>
    (\<forall>i < length (m_instances m). i \<notin> fst ` fst ` set es \<longrightarrow>
       (i, m_instances m ! i) \<in> set (g_pending s) \<and>
       reports ! i = cancelled_report job_id show_leg ms (m_instances m ! i) \<and> m_fail_fast m \<and>
       (\<exists>leg r. (leg, Inr r) \<in> set es \<and> (jp_result r = CFailure \<or> jp_result r = CCancelled)))"
proof -
  have inv: "group_inv m s" using leg_events_steps [OF assms(1)] by (rule reachable_inv)
  have ok: "g_error s = None" using assms(3) by (simp add: finish_group_def split: option.splits)
  note ev = leg_events_indexed [OF assms(1) ok]
  have indexed: "g_indexed s = map (\<lambda>(leg, result). (fst leg, projr result)) es"
    and right: "list_all (\<lambda>(leg, result). \<not> isl result) es"
    using ev by (simp_all add: start_group_def Let_def)
  define extra where "extra = (if g_fail_fast s
     then map (\<lambda>(i, x). (i, cancelled_report job_id show_leg ms x)) (g_pending s) else [])"
  define xs where "xs = sort_key fst (g_indexed s @ extra)"
  have reports: "reports = map snd xs"
    using assms(3) ok by (simp add: finish_group_def xs_def extra_def Let_def)
  have "map fst extra = map fst (g_pending s)"
    using drained_all_reported(1) [OF inv assms(2) ok] by (auto simp: extra_def)
  then have fst_xs: "map fst xs = [0 ..< length (m_instances m)]"
    unfolding xs_def using drained_all_reported(2) [OF inv assms(2) ok]
    by (intro sort_key_fst_upt) (simp add: add.commute)
  have len: "length xs = length (m_instances m)" using fst_xs by (metis diff_zero length_map length_upt)
  have at: "(i, r) \<in> set (g_indexed s @ extra) \<longleftrightarrow> i < length (m_instances m) \<and> reports ! i = r" for i r
  proof -
    have "xs ! k = (k, reports ! k)" if "k < length xs" for k
      using fst_xs that by (simp add: reports prod_eq_iff) (metis add_0 len nth_map nth_upt)
    then have "(i, r) \<in> set xs \<longleftrightarrow> i < length xs \<and> reports ! i = r" by (metis in_set_conv_nth prod.inject)
    then show ?thesis unfolding len by (simp only: xs_def set_sort)
  qed
  have legs: "fst ` set es \<subseteq> set (enumerate 0 (m_instances m))" "known_legs m s"
    using leg_events_known [OF assms(1) known_legs_start] by auto
  have finished_legs: "i < length (m_instances m) \<and> x = m_instances m ! i \<and> result = Inr (reports ! i)"
    if e: "((i, x), result) \<in> set es" for i x result
  proof -
    have "(i, projr result) \<in> set (g_indexed s)" using e by (force simp: indexed)
    then have "i < length (m_instances m) \<and> reports ! i = projr result" using at by auto
    moreover have "(i, x) \<in> set (enumerate 0 (m_instances m))" using legs(1) e by force
    moreover have "\<not> isl result" using right e by (auto simp: list_all_iff)
    ultimately show ?thesis by (auto simp: in_set_enumerate_eq)
  qed
  have never: "(i, m_instances m ! i) \<in> set (g_pending s) \<and>
       reports ! i = cancelled_report job_id show_leg ms (m_instances m ! i) \<and> m_fail_fast m \<and>
       (\<exists>leg r. (leg, Inr r) \<in> set es \<and> (jp_result r = CFailure \<or> jp_result r = CCancelled))"
    if i: "i < length (m_instances m)" "i \<notin> fst ` fst ` set es" for i
  proof -
    have "(i, reports ! i) \<notin> set (g_indexed s)" using i(2) by (force simp: indexed)
    then have "(i, reports ! i) \<in> set extra" using at [of i "reports ! i"] i(1) by simp
    then obtain x where x: "(i, x) \<in> set (g_pending s)" "reports ! i = cancelled_report job_id show_leg ms x" and ff: "g_fail_fast s"
      by (auto simp: extra_def split: if_splits)
    then have "x = m_instances m ! i" using legs(2) by (auto simp: known_legs_def in_set_enumerate_eq)
    moreover have "m_fail_fast m \<and> (\<exists>r \<in> snd ` set (g_indexed s). jp_result r = CFailure \<or> jp_result r = CCancelled)"
      using inv ff by (simp add: group_inv_def)
    ultimately show ?thesis using x right unfolding indexed by (auto simp: list_all_iff) (metis case_prodD sum.collapse(2))+
  qed
  have "length reports = length (m_instances m)" using len by (simp add: reports)
  with finished_legs never show ?thesis by blast
qed

definition failing_events :: "((nat \<times> nat) \<times> (unit + job_report)) list" where
  "failing_events = [((1, 11), Inr (sample_report CFailure)), ((0, 10), Inr (sample_report CSuccess))]"

definition failing_group :: "nat materialized" where
  "failing_group = \<lparr>m_instances = [10, 11, 12], m_fail_fast = True, m_max_parallel = 2\<rparr>"

theorem group_reports_every_leg_once_witness:
  "\<exists>s aggregated reports. leg_events True (start_group failing_group) failing_events s \<and>
     finish_group (lit ''j'') (\<lambda>_. lit ''leg'') [] s = Inr (aggregated, reports) \<and> length reports = 3 \<and>
     reports ! 0 = sample_report CSuccess \<and> reports ! 1 = sample_report CFailure \<and>
     reports ! 2 = cancelled_report (lit ''j'') (\<lambda>_ :: nat. lit ''leg'') [] 12"
proof -
  let ?s1 = "leg_finished True (1, 11) (Inr (sample_report CFailure)) (start_group failing_group :: (nat, unit) group_state)"
  let ?s = "leg_finished True (0, 10) (Inr (sample_report CSuccess)) ?s1"
  have "leg_events True ?s1 [((0, 10), Inr (sample_report CSuccess))] ?s"
    by (rule event [OF _ no_event]) code_simp
  then have run: "leg_events (m_fail_fast failing_group) (start_group failing_group) failing_events ?s"
    unfolding failing_events_def using event [of "(1, 11)" "start_group failing_group" True]
    by (simp add: start_group_def failing_group_def Let_def)
  have drained: "g_running ?s = []" by code_simp
  have "(case finish_group (lit ''j'') (\<lambda>_. lit ''leg'') [] ?s of Inr _ \<Rightarrow> True | Inl _ \<Rightarrow> False)" by code_simp
  then obtain aggregated reports where f: "finish_group (lit ''j'') (\<lambda>_. lit ''leg'') [] ?s = Inr (aggregated, reports)"
    by (auto split: sum.splits)
  note r = group_reports_every_leg_once [OF run drained f]
  then have "\<forall>i x result. ((i, x), result) \<in> set failing_events \<longrightarrow> result = Inr (reports ! i)" by blast
  moreover have "(2::nat) < length (m_instances failing_group)" "(2::nat) \<notin> fst ` fst ` set failing_events"
    by (auto simp: failing_group_def failing_events_def)
  ultimately show ?thesis using r run f by (intro exI conjI) (auto simp: failing_events_def failing_group_def)
qed

text \<open>No leg starts once fail-fast was triggered or an error was seen.\<close>

lemma stopped_group_starts_nothing:
  "leg_step fail_fast s s' \<Longrightarrow> g_fail_fast s \<or> g_error s \<noteq> None \<Longrightarrow> g_pending s' = g_pending s"
  by (elim leg_stepE) (auto simp: leg_finished_def launch_next_def Let_def split: sum.splits list.splits)

end
