(* ===== verification/Scheduler_Chain.thy ===== *)
theory Scheduler_Chain
  imports Scheduler_Laws
begin

text \<open>
  The waves of a run: when a job starts, the records of its needs tell whether any of its
  dependencies, direct or not, failed or was cancelled. This is the contract of the
  status functions: \<open>failure()\<close> is about all ancestors, \<open>success()\<close> about the direct ones.
\<close>

section \<open>The graph of the groups\<close>

definition needs_edges :: "job_group list \<Rightarrow> (ustr \<times> ustr) set" where
  "needs_edges gs = {(jg_id g, n) | g n. g \<in> set gs \<and> n \<in> set (jg_needs g)}"

text \<open>Distinct ids, and every need is a group of an earlier wave.\<close>

definition waves_ok :: "job_group list \<Rightarrow> bool" where
  "waves_ok gs \<longleftrightarrow> distinct (map jg_id gs) \<and>
     (\<forall>g \<in> set gs. \<forall>n \<in> set (jg_needs g). \<exists>h \<in> set gs. jg_id h = n \<and> jg_wave h < jg_wave g)"

lemma group_of_id: "waves_ok gs \<Longrightarrow> g \<in> set gs \<Longrightarrow> h \<in> set gs \<Longrightarrow> jg_id g = jg_id h \<Longrightarrow> g = h"
  by (auto simp: waves_ok_def distinct_map inj_on_def)

section \<open>One wave\<close>

lemma fold_upd_other:
  "y \<notin> fst ` set rs \<Longrightarrow> fold (\<lambda>r m. m(fst r \<mapsto> f r)) rs m y = m y"
  by (induction rs arbitrary: m) auto

lemma fold_upd_mem:
  "distinct (map fst rs) \<Longrightarrow> r \<in> set rs \<Longrightarrow> fold (\<lambda>r m. m(fst r \<mapsto> f r)) rs m (fst r) = Some (f r)"
proof (induction rs arbitrary: m)
  case (Cons r' rs)
  show ?case
  proof (cases "r = r'")
    case True
    then have "fst r \<notin> fst ` set rs" using Cons.prems by auto
    then show ?thesis
      unfolding fold.simps comp_apply True
      using fold_upd_other [of "fst r'" rs f "m(fst r' \<mapsto> f r')"] True by (simp only: fun_upd_same not_False_eq_True)
  next
    case False
    then have "distinct (map fst rs)" "r \<in> set rs" using Cons.prems by auto
    then show ?thesis unfolding fold.simps comp_apply by (rule Cons.IH)
  qed
qed simp

lemma needs_records_cong:
  "(\<And>n. n \<in> set ids \<Longrightarrow> c n = c' n) \<Longrightarrow> needs_records ids c = needs_records ids c'"
  by (induction ids) (auto simp: needs_records_def map_filter_simps split: option.splits)

lemma chain_flag_cong:
  "(\<And>n. n \<in> set ids \<Longrightarrow> c n = c' n) \<Longrightarrow> chain_flag f ids c = chain_flag f ids c'"
  by (auto simp: chain_flag_def list_ex_iff)

lemma group_completed_cong:
  "(\<And>n. n \<in> set (jg_needs g) \<Longrightarrow> c n = c' n) \<Longrightarrow> group_completed g c a = group_completed g c' a"
  using chain_flag_cong [of "jg_needs g" c c'] by (simp add: group_completed_def)

text \<open>What holds of the completed groups before wave \<open>w\<close>.\<close>

definition wave_inv :: "'e legs \<Rightarrow> job_group list \<Rightarrow> nat \<Rightarrow>
    completed_map \<times> (ustr \<Rightarrow> job_report list option) \<Rightarrow> bool" where
  "wave_inv legs gs w st \<longleftrightarrow>
     (\<forall>x. fst st x \<noteq> None \<longleftrightarrow> (\<exists>g \<in> set gs. jg_id g = x \<and> jg_wave g < w)) \<and>
     (\<forall>g \<in> set gs. jg_wave g < w \<longrightarrow> (\<exists>aggregated rs.
        legs g (needs_records (jg_needs g) (fst st)) = Inr (aggregated, rs) \<and>
        fst st (jg_id g) = Some (group_completed g (fst st) aggregated) \<and>
        snd st (jg_id g) = Some rs))"

lemma run_group_Inr:
  "run_group legs c g = Inr r \<Longrightarrow> \<exists>a rs. legs g (needs_records (jg_needs g) c) = Inr (a, rs) \<and>
     r = (jg_id g, group_completed g c a, rs)"
  by (auto simp: run_group_def rbind_eq_Inr)

lemma run_wave_inv:
  assumes ok: "waves_ok gs" and inv: "wave_inv legs gs w st"
    and run: "run_wave legs (filter (\<lambda>g. jg_wave g = w) gs) st = Inr st'"
  shows "wave_inv legs gs (Suc w) st'"
proof -
  let ?now = "filter (\<lambda>g. jg_wave g = w) gs"
  obtain rs where rs: "rmap (run_group legs (fst st)) ?now = Inr rs"
    and st': "st' = (fold (\<lambda>(x, c, _) m. m(x \<mapsto> c)) rs (fst st),
                     fold (\<lambda>(x, _, rs) m. m(x \<mapsto> rs)) rs (snd st))"
    using run by (auto simp: run_wave_def rbind_eq_Inr)
  have completed: "fst st' = fold (\<lambda>r m. m(fst r \<mapsto> fst (snd r))) rs (fst st)"
    and reports: "snd st' = fold (\<lambda>r m. m(fst r \<mapsto> snd (snd r))) rs (snd st)"
    by (simp_all add: st' case_prod_unfold)
  have each: "\<exists>aggregated reports. legs g (needs_records (jg_needs g) (fst st)) = Inr (aggregated, reports)
      \<and> (jg_id g, group_completed g (fst st) aggregated, reports) \<in> set rs" if now: "g \<in> set ?now" for g
  proof -
    obtain i where i: "i < length ?now" "?now ! i = g" using now by (metis in_set_conv_nth)
    then have "run_group legs (fst st) g = Inr (rs ! i)" "rs ! i \<in> set rs"
      using rmap_nth [OF rs i(1)] rmap_length [OF rs] by simp_all
    then show ?thesis using run_group_Inr by metis
  qed
  have "fst (rs ! i) = jg_id (?now ! i)" if "i < length ?now" for i
    using rmap_nth [OF rs that] run_group_Inr by (metis fst_conv)
  then have ids: "map fst rs = map jg_id ?now"
    using rmap_length [OF rs] by (intro nth_equalityI) simp_all
  then have distinct_ids: "distinct (map fst rs)"
    using ok by (simp add: waves_ok_def distinct_map_filter)
  have old: "fst st' x = fst st x" "snd st' x = snd st x" if "\<not> (\<exists>g \<in> set ?now. jg_id g = x)" for x
  proof -
    have "x \<notin> fst ` set rs" using that ids by (metis (no_types) image_iff list.set_map)
    then show "fst st' x = fst st x" "snd st' x = snd st x"
      by (simp_all add: completed reports fold_upd_other)
  qed
  have before: "fst st' n = fst st n" if "g \<in> set gs" "jg_wave g \<le> w" "n \<in> set (jg_needs g)" for g n
    using ok that group_of_id [OF ok] by (intro old) (fastforce simp: waves_ok_def)
  show ?thesis
    unfolding wave_inv_def
  proof (intro conjI allI ballI impI)
    fix x
    show "fst st' x \<noteq> None \<longleftrightarrow> (\<exists>g \<in> set gs. jg_id g = x \<and> jg_wave g < Suc w)"
    proof (cases "\<exists>g \<in> set ?now. jg_id g = x")
      case True
      then obtain g where g: "g \<in> set ?now" "jg_id g = x" by blast
      then obtain c r where "(x, c, r) \<in> set rs" using each [OF g(1)] by blast
      then have "fst st' x = Some c"
        using fold_upd_mem [OF distinct_ids, of "(x, c, r)" "\<lambda>r. fst (snd r)"] by (simp add: completed)
      then show ?thesis using g by auto
    next
      case False
      then show ?thesis
        using inv by (auto simp: old(1) wave_inv_def less_Suc_eq)
    qed
  next
    fix g
    assume g: "g \<in> set gs" "jg_wave g < Suc w"
    have recs: "needs_records (jg_needs g) (fst st') = needs_records (jg_needs g) (fst st)"
      using g before by (intro needs_records_cong) simp
    have comp: "group_completed g (fst st') a = group_completed g (fst st) a" for a
      using g before by (intro group_completed_cong) simp
    show "\<exists>aggregated rs'. legs g (needs_records (jg_needs g) (fst st')) = Inr (aggregated, rs') \<and>
        fst st' (jg_id g) = Some (group_completed g (fst st') aggregated) \<and> snd st' (jg_id g) = Some rs'"
    proof (cases "jg_wave g = w")
      case True
      then obtain a r where a: "legs g (needs_records (jg_needs g) (fst st)) = Inr (a, r)"
        and r: "(jg_id g, group_completed g (fst st) a, r) \<in> set rs"
        using each [of g] g(1) by auto
      have "fst st' (jg_id g) = Some (group_completed g (fst st) a)"
        using fold_upd_mem [OF distinct_ids r, of "\<lambda>r. fst (snd r)"]
        by (simp only: completed fst_conv snd_conv)
      moreover have "snd st' (jg_id g) = Some r"
        using fold_upd_mem [OF distinct_ids r, of "\<lambda>r. snd (snd r)"]
        by (simp only: reports fst_conv snd_conv)
      ultimately show ?thesis unfolding recs comp using a by blast
    next
      case False
      then have "\<not> (\<exists>h \<in> set ?now. jg_id h = jg_id g)" using group_of_id [OF ok] g by force
      then show ?thesis
        using inv g False unfolding recs comp by (simp add: old wave_inv_def less_Suc_eq)
    qed
  qed
qed

lemma run_waves_inv:
  assumes "waves_ok gs" "wave_inv legs gs a st" "run_waves legs gs [a ..< b] st = Inr st'" "a \<le> b"
  shows "wave_inv legs gs b st'"
  using assms
proof (induction "b - a" arbitrary: a st)
  case 0
  then show ?case by simp
next
  case (Suc k)
  then have "[a ..< b] = a # [Suc a ..< b]" by (simp add: upt_conv_Cons)
  then obtain st1 where
    "run_wave legs (filter (\<lambda>g. jg_wave g = a) gs) st = Inr st1" "run_waves legs gs [Suc a ..< b] st1 = Inr st'"
    using Suc.prems(3) by (auto simp: rbind_eq_Inr)
  then show ?case
    using Suc run_wave_inv [OF Suc.prems(1,2)] by (metis Suc_diff_Suc Suc_inject Suc_leI diff_is_0_eq
        le_neq_implies_less nat.distinct(1))
qed

lemma run_complete:
  assumes "waves_ok gs" "run_waves legs gs [0 ..< max_wave gs + 1] (Map.empty, Map.empty) = Inr st"
  shows "wave_inv legs gs (max_wave gs + 1) st"
  using assms by (intro run_waves_inv [OF assms(1) _ assms(2)]) (simp_all add: wave_inv_def)

lemma wave_le_max: "g \<in> set gs \<Longrightarrow> jg_wave g < max_wave gs + 1"
  using max_list0_ge [of "jg_wave g" "map jg_wave gs"] by (simp add: max_wave_def)

section \<open>Failures of ancestors\<close>

definition concluded :: "completed_map \<Rightarrow> ustr \<Rightarrow> conclusion \<Rightarrow> bool" where
  "concluded completed x c \<longleftrightarrow> (\<exists>j. completed x = Some j \<and> cj_result j = c)"

text \<open>
  Both flags have the same shape: set at a group with the conclusion, inherited from the needs.
\<close>

lemma chain_flag_ancestors:
  assumes ok: "waves_ok gs"
    and completed: "\<And>g. g \<in> set gs \<Longrightarrow> \<exists>j. completed (jg_id g) = Some j \<and>
      flag j = (chain_flag flag (jg_needs g) completed \<or> cj_result j = c)"
    and g: "g \<in> set gs"
  shows "flag (the (completed (jg_id g))) \<longleftrightarrow>
    (\<exists>a. (jg_id g, a) \<in> (needs_edges gs)\<^sup>* \<and> concluded completed a c)"
  using g
proof (induction "jg_wave g" arbitrary: g rule: less_induct)
  case less
  obtain j where j: "completed (jg_id g) = Some j"
    "flag j = (chain_flag flag (jg_needs g) completed \<or> cj_result j = c)"
    using completed less.prems by blast
  have need: "(case completed n of Some d \<Rightarrow> flag d | None \<Rightarrow> False) \<longleftrightarrow>
      (\<exists>a. (n, a) \<in> (needs_edges gs)\<^sup>* \<and> concluded completed a c)" if n: "n \<in> set (jg_needs g)" for n
  proof -
    obtain h where h: "h \<in> set gs" "jg_id h = n" "jg_wave h < jg_wave g"
      using ok less.prems n by (auto simp: waves_ok_def)
    then show ?thesis using less.hyps [OF h(3,1)] completed [OF h(1)] by auto
  qed
  have step: "(jg_id g, n) \<in> needs_edges gs \<longleftrightarrow> n \<in> set (jg_needs g)" for n
    using less.prems group_of_id [OF ok] by (auto simp: needs_edges_def)
  have "(\<exists>a. (jg_id g, a) \<in> (needs_edges gs)\<^sup>* \<and> concluded completed a c) \<longleftrightarrow>
    concluded completed (jg_id g) c \<or>
    (\<exists>n \<in> set (jg_needs g). \<exists>a. (n, a) \<in> (needs_edges gs)\<^sup>* \<and> concluded completed a c)"
    using step by (auto elim: converse_rtranclE intro: converse_rtrancl_into_rtrancl)
  then show ?case
    using j need by (auto simp: chain_flag_def list_ex_iff concluded_def)
qed

text \<open>The proper ancestors of a group: its needs and theirs.\<close>

definition ancestor_concluded :: "job_group list \<Rightarrow> completed_map \<Rightarrow> job_group \<Rightarrow> conclusion \<Rightarrow> bool" where
  "ancestor_concluded gs completed g c \<longleftrightarrow>
     (\<exists>a. (jg_id g, a) \<in> (needs_edges gs)\<^sup>+ \<and> concluded completed a c)"

lemma needs_records_Cons:
  "completed n = Some j \<Longrightarrow> needs_records (n # ids) completed =
     \<lparr>nr_job = n, nr_result = cj_result j, nr_outputs = cj_outputs j,
      nr_chain_failed = cj_chain_failed j, nr_chain_cancelled = cj_chain_cancelled j\<rparr>
     # needs_records ids completed"
  by (simp add: needs_records_def map_filter_simps)

lemma needs_records_flag:
  assumes "\<And>n. n \<in> set ids \<Longrightarrow> completed n \<noteq> None"
  shows "(list_ex nr_chain_failed (needs_records ids completed) \<longleftrightarrow> chain_flag cj_chain_failed ids completed) \<and>
    (list_ex nr_chain_cancelled (needs_records ids completed) \<longleftrightarrow>
       chain_flag cj_chain_cancelled ids completed) \<and>
    (list_all (\<lambda>n. nr_result n = c) (needs_records ids completed) \<longleftrightarrow>
       (\<forall>n \<in> set ids. concluded completed n c))"
  using assms
proof (induction ids)
  case Nil
  then show ?case by (simp add: needs_records_def chain_flag_def map_filter_simps)
next
  case (Cons n ids)
  then obtain j where j: "completed n = Some j" by auto
  show ?case
    using Cons.IH Cons.prems j
    by (simp add: needs_records_Cons [where completed = completed, OF j] chain_flag_def concluded_def)
qed

lemma chain_flag_proper:
  assumes ok: "waves_ok gs"
    and completed: "\<And>g. g \<in> set gs \<Longrightarrow> \<exists>j. completed (jg_id g) = Some j \<and>
      flag j = (chain_flag flag (jg_needs g) completed \<or> cj_result j = c)"
    and g: "g \<in> set gs"
  shows "chain_flag flag (jg_needs g) completed \<longleftrightarrow> ancestor_concluded gs completed g c"
proof -
  have need: "(case completed n of Some d \<Rightarrow> flag d | None \<Rightarrow> False) \<longleftrightarrow>
      (\<exists>a. (n, a) \<in> (needs_edges gs)\<^sup>* \<and> concluded completed a c)" if n: "n \<in> set (jg_needs g)" for n
  proof -
    obtain h where h: "h \<in> set gs" "jg_id h = n" using ok g n by (auto simp: waves_ok_def)
    then show ?thesis
      using chain_flag_ancestors [of gs completed flag c h, OF ok completed h(1)] completed [OF h(1)]
      by auto
  qed
  have step: "(jg_id g, n) \<in> needs_edges gs \<longleftrightarrow> n \<in> set (jg_needs g)" for n
    using g group_of_id [OF ok] by (auto simp: needs_edges_def)
  show ?thesis
    using need step
    by (auto simp: chain_flag_def list_ex_iff ancestor_concluded_def
        dest!: tranclD intro: rtrancl_into_trancl2)
qed

lemma needs_status_of_run:
  assumes "waves_ok gs" "g \<in> set gs"
    and "run_waves legs gs [0 ..< max_wave gs + 1] (Map.empty, Map.empty) = Inr (completed, reports)"
  shows "\<exists>aggregated rs. legs g (needs_records (jg_needs g) completed) = Inr (aggregated, rs) \<and>
    reports (jg_id g) = Some rs \<and> map_option (\<lambda>j. (cj_result j, cj_outputs j)) (completed (jg_id g)) = Some aggregated \<and>
    needs_status (needs_records (jg_needs g) completed) =
      (if ancestor_concluded gs completed g CCancelled then Cancelled
       else if ancestor_concluded gs completed g CFailure then Failure
       else if \<forall>n \<in> set (jg_needs g). concluded completed n CSuccess then Success
       else Blocked)"
proof -
  have inv: "wave_inv legs gs (max_wave gs + 1) (completed, reports)"
    using assms by (intro run_complete)
  have each: "\<exists>aggregated rs. legs h (needs_records (jg_needs h) completed) = Inr (aggregated, rs) \<and>
      completed (jg_id h) = Some (group_completed h completed aggregated) \<and> reports (jg_id h) = Some rs"
    if "h \<in> set gs" for h
    using inv that wave_le_max [OF that] by (simp add: wave_inv_def)
  have failed: "\<exists>j. completed (jg_id h) = Some j \<and>
      cj_chain_failed j = (chain_flag cj_chain_failed (jg_needs h) completed \<or> cj_result j = CFailure)"
    if "h \<in> set gs" for h
    using each [OF that] by (auto simp: group_completed_def)
  have cancelled: "\<exists>j. completed (jg_id h) = Some j \<and> cj_chain_cancelled j =
      (chain_flag cj_chain_cancelled (jg_needs h) completed \<or> cj_result j = CCancelled)"
    if "h \<in> set gs" for h
    using each [OF that] by (auto simp: group_completed_def)
  have present: "completed n \<noteq> None" if "n \<in> set (jg_needs g)" for n
    using that assms(1,2) each by (fastforce simp: waves_ok_def)
  have flags:
    "list_ex nr_chain_failed (needs_records (jg_needs g) completed) \<longleftrightarrow>
       chain_flag cj_chain_failed (jg_needs g) completed"
    "list_ex nr_chain_cancelled (needs_records (jg_needs g) completed) \<longleftrightarrow>
       chain_flag cj_chain_cancelled (jg_needs g) completed"
    "list_all (\<lambda>n. nr_result n = CSuccess) (needs_records (jg_needs g) completed) \<longleftrightarrow>
       (\<forall>n \<in> set (jg_needs g). concluded completed n CSuccess)"
    using needs_records_flag [of "jg_needs g" completed CSuccess] present by blast+
  have ancestors:
    "chain_flag cj_chain_failed (jg_needs g) completed \<longleftrightarrow> ancestor_concluded gs completed g CFailure"
    "chain_flag cj_chain_cancelled (jg_needs g) completed \<longleftrightarrow>
       ancestor_concluded gs completed g CCancelled"
    by (rule chain_flag_proper [OF assms(1) _ assms(2)], erule failed)
       (rule chain_flag_proper [OF assms(1) _ assms(2)], erule cancelled)
  have "needs_status (needs_records (jg_needs g) completed) =
      (if ancestor_concluded gs completed g CCancelled then Cancelled
       else if ancestor_concluded gs completed g CFailure then Failure
       else if \<forall>n \<in> set (jg_needs g). concluded completed n CSuccess then Success
       else Blocked)"
    by (simp only: needs_status_def flags ancestors)
  then show ?thesis
    using each [OF assms(2)] by (auto simp: concluded_def group_completed_def)
qed

text \<open>The same in terms of what the legs of the groups returned.\<close>

definition outcome_of :: "completed_map \<Rightarrow> ustr \<Rightarrow> conclusion \<times> env_map" where
  "outcome_of completed x = (case completed x of Some j \<Rightarrow> (cj_result j, cj_outputs j) | None \<Rightarrow> (CSuccess, []))"

lemma concluded_outcome: "completed x \<noteq> None \<Longrightarrow> concluded completed x c \<longleftrightarrow> fst (outcome_of completed x) = c"
  by (auto simp: concluded_def outcome_of_def)

lemma ancestor_is_group: "waves_ok gs \<Longrightarrow> (x, a) \<in> (needs_edges gs)\<^sup>+ \<Longrightarrow> \<exists>h\<in>set gs. jg_id h = a"
  by (erule tranclE) (force simp: needs_edges_def waves_ok_def)+

lemma needs_records_outcomes:
  "\<forall>n\<in>set ids. completed n \<noteq> None \<Longrightarrow>
    map (\<lambda>r. (nr_job r, nr_result r, nr_outputs r)) (needs_records ids completed) = map (\<lambda>n. (n, outcome_of completed n)) ids"
  by (induction ids) (auto simp: needs_records_Cons outcome_of_def needs_records_def [of "[]"] map_filter_simps)

lemma outcomes_of_run:
  assumes "waves_ok gs" "g \<in> set gs"
    and run: "run_waves legs gs [0 ..< max_wave gs + 1] (Map.empty, Map.empty) = Inr (completed, reports)"
  shows "\<exists>rs. legs g (needs_records (jg_needs g) completed) = Inr (outcome_of completed (jg_id g), rs) \<and> reports (jg_id g) = Some rs \<and>
    map (\<lambda>r. (nr_job r, nr_result r, nr_outputs r)) (needs_records (jg_needs g) completed) =
      map (\<lambda>n. (n, outcome_of completed n)) (jg_needs g) \<and>
    needs_status (needs_records (jg_needs g) completed) =
      (if \<exists>a. (jg_id g, a) \<in> (needs_edges gs)\<^sup>+ \<and> fst (outcome_of completed a) = CCancelled then Cancelled
       else if \<exists>a. (jg_id g, a) \<in> (needs_edges gs)\<^sup>+ \<and> fst (outcome_of completed a) = CFailure then Failure
       else if \<forall>n \<in> set (jg_needs g). fst (outcome_of completed n) = CSuccess then Success
       else Blocked)"
proof -
  note each = needs_status_of_run [OF assms(1) _ run]
  have group: "completed (jg_id h) \<noteq> None" if "h \<in> set gs" for h using each [OF that] by auto
  have ancestors: "ancestor_concluded gs completed g c \<longleftrightarrow>
      (\<exists>a. (jg_id g, a) \<in> (needs_edges gs)\<^sup>+ \<and> fst (outcome_of completed a) = c)" for c
    unfolding ancestor_concluded_def using ancestor_is_group [OF assms(1)] group concluded_outcome by metis
  have needs: "completed n \<noteq> None" if "n \<in> set (jg_needs g)" for n
    using that assms(1,2) group by (force simp: waves_ok_def)
  then have direct: "concluded completed n CSuccess \<longleftrightarrow> fst (outcome_of completed n) = CSuccess" if "n \<in> set (jg_needs g)" for n
    using that concluded_outcome by blast
  obtain aggregated rs where a: "legs g (needs_records (jg_needs g) completed) = Inr (aggregated, rs)" "reports (jg_id g) = Some rs"
      "map_option (\<lambda>j. (cj_result j, cj_outputs j)) (completed (jg_id g)) = Some aggregated"
    and status: "needs_status (needs_records (jg_needs g) completed) =
      (if ancestor_concluded gs completed g CCancelled then Cancelled
       else if ancestor_concluded gs completed g CFailure then Failure
       else if \<forall>n \<in> set (jg_needs g). concluded completed n CSuccess then Success
       else Blocked)"
    using each [OF assms(2)] by blast
  have "aggregated = outcome_of completed (jg_id g)" using a(3) by (auto simp: outcome_of_def)
  moreover have "(\<forall>n \<in> set (jg_needs g). concluded completed n CSuccess) \<longleftrightarrow>
      (\<forall>n \<in> set (jg_needs g). fst (outcome_of completed n) = CSuccess)" using direct by blast
  ultimately show ?thesis
    using a status needs_records_outcomes [of "jg_needs g" completed] needs unfolding ancestors by auto
qed

text \<open>For examples: a job without needs fails, the others are skipped.\<close>

definition sample_legs :: "unit legs" where
  "sample_legs g records = Inr ((if jg_needs g = [] then CFailure else CSkipped, []), [])"

end
