(* ===== verification/Container.thy ===== *)
theory Container
  imports Log_Commands Engine_Base
begin

text \<open>
  What a workflow may ask of a job or service container
  (\<open>greenlit-runtime/src/executor/container.rs\<close>, \<open>health.rs\<close>, \<open>engine/spec.rs\<close>): the option string,
  the volumes, the ports and the health probe. The validator is the containment boundary: an accepted
  request binds only volumes of its own run, never over the managed paths, publishes only on the
  loopback address and carries no option that widens the container's privileges.
\<close>

section \<open>Requests and what becomes of them\<close>

record resolved_credentials =
  cr_username :: ustr
  cr_password :: ustr

record resolved_container =
  rc_image :: ustr
  rc_image_span :: span
  rc_credentials :: "resolved_credentials option"
  rc_env :: "(ustr \<times> ustr) list"
  rc_volumes :: "(ustr \<times> span) list"
  rc_ports :: "(ustr \<times> span) list"
  rc_options :: "(ustr \<times> span) option"

datatype container_rejection =
    Privileged span
  | HostNetwork span
  | HostPid span
  | HostIpc span
  | HostBindOption span
  | HostVolumeSource span ustr ustr
  | ReservedVolumeDestination span ustr ustr
  | Escalation span ustr
  | UnsupportedOption span ustr
  | UnreadableOptionValue span ustr ustr

record registry_auth =
  ra_username :: ustr
  ra_password :: ustr

record bind_mount =
  bm_host_path :: ustr
  bm_container_path :: ustr
  bm_read_only :: bool

record port_binding =
  pb_container_port :: nat
  pb_protocol :: ustr
  pb_host_port :: "nat option"
  pb_host_ip :: "ustr option"

record health_check =
  hc_test :: "ustr list"
  hc_interval_nanos :: "int option"
  hc_timeout_nanos :: "int option"
  hc_retries :: "int option"
  hc_start_period_nanos :: "int option"

definition default_health :: health_check where
  "default_health = \<lparr>hc_test = [], hc_interval_nanos = None, hc_timeout_nanos = None,
     hc_retries = None, hc_start_period_nanos = None\<rparr>"

record container_additions =
  ca_volume_binds :: "bind_mount list"
  ca_env :: "(ustr \<times> ustr) list"
  ca_registry_auth :: "registry_auth option"
  ca_healthcheck :: "health_check option"
  ca_ports :: "port_binding list"

section \<open>Integers in text\<close>

text \<open>Rust's \<open>str::parse\<close> at \<open>i64\<close> and \<open>u16\<close>: an optional sign, then digits, within the type's range.\<close>

definition parse_digits :: "ustr \<Rightarrow> nat option" where
  "parse_digits s = (if s \<noteq> [] \<and> list_all is_ascii_digit s then Some (dec_value s) else None)"

definition checked_i64 :: "int \<Rightarrow> int option" where
  "checked_i64 n = (if - (2 ^ 63) \<le> n \<and> n < 2 ^ 63 then Some n else None)"

definition parse_i64 :: "ustr \<Rightarrow> int option" where
  "parse_i64 s = (case s of
     [] \<Rightarrow> None
   | c # r \<Rightarrow>
      (if c = cp CHR ''+'' then Option.bind (parse_digits r) (\<lambda>n. checked_i64 (int n))
       else if c = cp CHR ''-'' then Option.bind (parse_digits r) (\<lambda>n. checked_i64 (- int n))
       else Option.bind (parse_digits s) (\<lambda>n. checked_i64 (int n))))"

definition parse_u16 :: "ustr \<Rightarrow> nat option" where
  "parse_u16 s = Option.bind
     (case s of [] \<Rightarrow> None | c # r \<Rightarrow> (if c = cp CHR ''+'' then parse_digits r else parse_digits s))
     (\<lambda>n. if n < 2 ^ 16 then Some n else None)"

section \<open>Health options\<close>

definition duration_unit :: "ustr \<Rightarrow> (ustr \<times> int) option" where
  "duration_unit tail = find (\<lambda>(u, _). prefix u tail)
     [(lit ''ns'', 1), (lit ''us'', 1000), (lit ''ms'', 1000000), (lit ''h'', 3600 * 1000000000),
      (lit ''s'', 1000000000), (lit ''m'', 60 * 1000000000)]"

lemma duration_unit_prefix: "duration_unit tail = Some (u, n) \<Longrightarrow> prefix u tail \<and> u \<noteq> []"
  by (auto simp: duration_unit_def split: if_splits)

function duration_loop :: "int \<Rightarrow> ustr \<Rightarrow> int option" where
  "duration_loop so_far rest =
    (if rest = [] then Some so_far
     else
      let digits = takeWhile is_ascii_digit rest; tail = dropWhile is_ascii_digit rest in
      if tail = [] \<or> digits = [] then None
      else Option.bind (Option.bind (parse_digits digits) (\<lambda>n. checked_i64 (int n))) (\<lambda>amount.
        (case duration_unit tail of
           None \<Rightarrow> None
         | Some (u, nanos) \<Rightarrow>
             Option.bind (checked_i64 (amount * nanos)) (\<lambda>part.
             Option.bind (checked_i64 (so_far + part)) (\<lambda>so_far.
             duration_loop so_far (drop (length u) tail))))))"
  by pat_completeness auto

termination
proof (relation "measure (length \<circ> snd)", goal_cases)
  case (2 so_far rest digits tail n u_nanos u nanos part acc)
  then have "length tail \<le> length rest" "0 < length u" "0 < length tail"
    by (auto simp: length_dropWhile_le dest!: duration_unit_prefix)
  then have "length tail - length u < length rest" by arith
  then show ?case by simp
qed simp

definition duration_nanos :: "ustr \<Rightarrow> int option" where
  "duration_nanos s =
    (let s = trim s in
     if s = [] then None
     else case parse_i64 s of
       Some seconds \<Rightarrow> checked_i64 (seconds * 1000000000)
     | None \<Rightarrow> duration_loop 0 s)"

text \<open>
  \<open>Inr None\<close>: not a health flag. The error carries the flag and the value that could not be read.
\<close>

definition health_apply :: "health_check \<Rightarrow> ustr \<Rightarrow> ustr option \<Rightarrow>
    (ustr \<times> ustr) + health_check option" where
  "health_apply health flag v =
    (let given = (\<lambda>f. case v of None \<Rightarrow> Inl (flag, [])
           | Some v \<Rightarrow> (case f v of None \<Rightarrow> Inl (flag, v) | Some h \<Rightarrow> Inr (Some h))) in
     if flag = lit ''--health-cmd''
     then given (\<lambda>v. Some (health\<lparr>hc_test := [lit ''CMD-SHELL'', v]\<rparr>))
     else if flag = lit ''--health-interval''
     then given (\<lambda>v. map_option (\<lambda>n. health\<lparr>hc_interval_nanos := Some n\<rparr>) (duration_nanos v))
     else if flag = lit ''--health-timeout''
     then given (\<lambda>v. map_option (\<lambda>n. health\<lparr>hc_timeout_nanos := Some n\<rparr>) (duration_nanos v))
     else if flag = lit ''--health-start-period''
     then given (\<lambda>v. map_option (\<lambda>n. health\<lparr>hc_start_period_nanos := Some n\<rparr>) (duration_nanos v))
     else if flag = lit ''--health-retries''
     then given (\<lambda>v. map_option (\<lambda>n. health\<lparr>hc_retries := Some n\<rparr>) (parse_i64 (trim v)))
     else Inr None)"

definition takes_value :: "ustr \<Rightarrow> bool" where
  "takes_value flag \<longleftrightarrow> flag \<in> set [lit ''--health-cmd'', lit ''--health-interval'',
     lit ''--health-timeout'', lit ''--health-start-period'', lit ''--health-retries'']"

section \<open>Options\<close>

fun tokenize_loop :: "ustr \<Rightarrow> ustr \<Rightarrow> bool \<Rightarrow> uchar option \<Rightarrow> bool \<Rightarrow> ustr list" where
  "tokenize_loop [] current started quote escaped = (if started then [current] else [])"
| "tokenize_loop (c # cs) current started quote escaped =
    (if escaped then tokenize_loop cs (current @ [c]) started quote False
     else if (quote = None \<or> quote = Some 34) \<and> c = 92 then tokenize_loop cs current started quote True
     else if quote = None \<and> (c = 39 \<or> c = 34) then tokenize_loop cs current True (Some c) False
     else if quote = Some c then tokenize_loop cs current started None False
     else if quote = None \<and> is_whitespace c
     then (if started then current # tokenize_loop cs [] False None False
           else tokenize_loop cs current started None False)
     else tokenize_loop cs (current @ [c]) True quote False)"

definition tokenize_options :: "ustr \<Rightarrow> ustr list" where
  "tokenize_options options = tokenize_loop options [] False None False"

definition is_host_value :: "ustr \<Rightarrow> bool" where
  "is_host_value v = eq_ignore_ascii_case v (lit ''host'')"

definition split_flag :: "ustr \<Rightarrow> ustr \<times> ustr option" where
  "split_flag token = (case split_once (lit ''='') token of
     Some (flag, v) \<Rightarrow> (flag, Some v) | None \<Rightarrow> (token, None))"

definition next_value :: "ustr option \<Rightarrow> ustr list \<Rightarrow> ustr option" where
  "next_value inline rest = (case inline of Some v \<Rightarrow> Some v
     | None \<Rightarrow> (case rest of [] \<Rightarrow> None | v # _ \<Rightarrow> Some v))"

text \<open>A flag that is not about health: only \<open>--privileged=false\<close> passes.\<close>

definition refuse_flag :: "span \<Rightarrow> ustr \<Rightarrow> ustr option \<Rightarrow> ustr list \<Rightarrow> container_rejection option" where
  "refuse_flag sp flag inline rest =
    (let host = (case next_value inline rest of Some v \<Rightarrow> is_host_value v | None \<Rightarrow> False) in
     if flag = lit ''--privileged''
     then (case inline of
        Some v \<Rightarrow> (if eq_ignore_ascii_case v (lit ''false'') then None else Some (Privileged sp))
      | None \<Rightarrow> Some (Privileged sp))
     else if flag \<in> set [lit ''--network'', lit ''--net'']
     then Some (if host then HostNetwork sp else UnsupportedOption sp flag)
     else if flag = lit ''--pid'' then Some (if host then HostPid sp else UnsupportedOption sp flag)
     else if flag = lit ''--ipc'' then Some (if host then HostIpc sp else UnsupportedOption sp flag)
     else if flag \<in> set [lit ''-v'', lit ''--volume'', lit ''--mount''] then Some (HostBindOption sp)
     else if flag \<in> set [lit ''--cap-add'', lit ''--device'', lit ''--security-opt'', lit ''--userns'']
     then Some (Escalation sp flag)
     else Some (UnsupportedOption sp flag))"

function options_loop :: "span \<Rightarrow> ustr list \<Rightarrow> health_check \<Rightarrow> container_rejection + health_check" where
  "options_loop sp [] health = Inr health"
| "options_loop sp (token # rest) health = (case split_flag token of (flag, inline) \<Rightarrow>
     (case health_apply health flag (next_value inline rest) of
        Inl (f, v) \<Rightarrow> Inl (UnreadableOptionValue sp f v)
      | Inr (Some health) \<Rightarrow>
          options_loop sp (if inline = None \<and> takes_value flag then drop 1 rest else rest) health
      | Inr None \<Rightarrow>
         (case refuse_flag sp flag inline rest of
            Some rejection \<Rightarrow> Inl rejection
          | None \<Rightarrow> options_loop sp rest health)))"
  by pat_completeness auto
termination
  by (relation "measure (\<lambda>(_, tokens, _). length tokens)") auto

definition validate_options :: "ustr \<Rightarrow> span \<Rightarrow> health_check \<Rightarrow> container_rejection + health_check" where
  "validate_options options sp health = options_loop sp (tokenize_options options) health"

section \<open>Volumes\<close>

definition GREENLIT_CONTROL_ROOT :: ustr where
  "GREENLIT_CONTROL_ROOT = lit ''/greenlit''"

definition is_host_path :: "ustr \<Rightarrow> bool" where
  "is_host_path source \<longleftrightarrow> prefix (lit ''/'') source \<or> prefix (lit ''.'') source \<or> prefix (lit ''~'') source"

definition trim_trailing_slash :: "ustr \<Rightarrow> ustr" where
  "trim_trailing_slash p = (if str_len p > 1 then rev (dropWhile (\<lambda>c. c = cp CHR ''/'') (rev p)) else p)"

definition is_ancestor :: "ustr \<Rightarrow> ustr \<Rightarrow> bool" where
  "is_ancestor ancestor other \<longleftrightarrow> length other > length ancestor \<and> prefix ancestor other \<and>
     (ancestor = lit ''/'' \<or> other ! length ancestor = cp CHR ''/'')"

definition paths_collide :: "ustr \<Rightarrow> ustr \<Rightarrow> bool" where
  "paths_collide a b \<longleftrightarrow> a = b \<or> is_ancestor a b \<or> is_ancestor b a"

definition reject_reserved_destination ::
  "ustr \<Rightarrow> ustr \<Rightarrow> span \<Rightarrow> ustr \<Rightarrow> container_rejection + unit" where
  "reject_reserved_destination spec dest sp workspace =
    (let dest = trim_trailing_slash dest in
     if list_ex (\<lambda>p. paths_collide dest (trim_trailing_slash p)) [GREENLIT_CONTROL_ROOT, workspace]
     then Inl (ReservedVolumeDestination sp spec dest) else Inr ())"

definition namespaced_volume_name :: "ustr \<Rightarrow> ustr \<Rightarrow> ustr" where
  "namespaced_volume_name volume_namespace source =
     lit ''greenlit-run-'' @ volume_namespace @ lit ''-'' @ source"

definition validate_volume :: "ustr \<Rightarrow> span \<Rightarrow> ustr \<Rightarrow> ustr \<Rightarrow> container_rejection + bind_mount option" where
  "validate_volume spec sp workspace volume_namespace = (case split_char (cp CHR '':'') spec of
     [] \<Rightarrow> Inr None
   | [dest] \<Rightarrow> rbind (reject_reserved_destination spec dest sp workspace) (\<lambda>_. Inr None)
   | source # dest # _ \<Rightarrow> rbind (reject_reserved_destination spec dest sp workspace) (\<lambda>_.
       if is_host_path source then Inl (HostVolumeSource sp spec dest)
       else Inr (Some \<lparr>bm_host_path = namespaced_volume_name volume_namespace source,
              bm_container_path = dest, bm_read_only = False\<rparr>)))"

section \<open>Ports and the whole request\<close>

definition PUBLISH_ADDRESS :: ustr where
  "PUBLISH_ADDRESS = lit ''127.0.0.1''"

definition parse_port :: "ustr \<Rightarrow> span \<Rightarrow> container_rejection + port_binding" where
  "parse_port spec sp =
    (let invalid = UnreadableOptionValue sp (lit ''ports'') spec;
         port = (\<lambda>s. case parse_u16 (trim s) of None \<Rightarrow> Inl invalid | Some n \<Rightarrow> Inr n);
         (mapping, protocol) = (case rsplit_once (cp CHR ''/'') spec of
            Some (m, p) \<Rightarrow> (if p \<in> set [lit ''tcp'', lit ''udp''] then (m, p) else (spec, lit ''tcp''))
          | None \<Rightarrow> (spec, lit ''tcp''));
         (host, container) = (case split_once (lit '':'') mapping of
            Some (h, c) \<Rightarrow> (Some h, c) | None \<Rightarrow> (None, mapping)) in
     rbind (port container) (\<lambda>container_port.
     rbind (case host of None \<Rightarrow> Inr None | Some h \<Rightarrow> rbind (port h) (\<lambda>n. Inr (Some n))) (\<lambda>host_port.
     Inr \<lparr>pb_container_port = container_port, pb_protocol = protocol, pb_host_port = host_port,
          pb_host_ip = Some PUBLISH_ADDRESS\<rparr>)))"

definition validate_container ::
  "resolved_container \<Rightarrow> ustr \<Rightarrow> ustr \<Rightarrow> container_rejection + container_additions" where
  "validate_container container workspace volume_namespace =
     rbind (case rc_options container of
              Some (options, sp) \<Rightarrow> validate_options options sp default_health
            | None \<Rightarrow> Inr default_health) (\<lambda>health.
     rbind (rmap (\<lambda>(spec, sp). validate_volume spec sp workspace volume_namespace)
              (rc_volumes container)) (\<lambda>binds.
     rbind (rmap (\<lambda>(spec, sp). parse_port spec sp) (rc_ports container)) (\<lambda>ports.
     Inr \<lparr>ca_volume_binds = List.map_filter id binds, ca_env = rc_env container,
          ca_registry_auth = map_option (\<lambda>c. \<lparr>ra_username = cr_username c, ra_password = cr_password c\<rparr>)
            (rc_credentials container),
          ca_healthcheck = (if hc_test health = [] then None else Some health),
          ca_ports = ports\<rparr>)))"

end
