(* ===== verification/Container_Laws.thy ===== *)
theory Container_Laws
  imports Container
begin

text \<open>
  The containment promises of the container validator, and the limits of its textual path check.
\<close>

section \<open>Options\<close>

text \<open>How a word is quoted so that it stays one token.\<close>

definition quote_option :: "ustr \<Rightarrow> ustr" where
  "quote_option t = [34] @ concat (map (\<lambda>c. if c = 34 \<or> c = 92 then [92, c] else [c]) t) @ [34]"

lemma tokenize_quoted:
  "tokenize_loop (concat (map (\<lambda>c. if c = 34 \<or> c = 92 then [92, c] else [c]) t) @ 34 # rest)
     current True (Some 34) False = tokenize_loop rest (current @ t) True None False"
  by (induction t arbitrary: current) auto

lemma tokenize_quote_option:
  "tokenize_loop (quote_option t @ rest) [] False None False = tokenize_loop rest t True None False"
  using tokenize_quoted [of t rest "[]"] by (simp add: quote_option_def is_whitespace_def)

text \<open>
  An option string that lists its words between double quotes, with quotes and backslashes
  escaped, is split into exactly these words, whatever characters they contain.
\<close>

lemma tokenize_options_round_trip:
  "tokenize_options (join_with (lit '' '') (map quote_option ts)) = ts"
proof -
  have "tokenize_loop (join_with (lit '' '') (map quote_option ts)) [] False None False = ts"
  proof (induction ts)
    case (Cons t ts)
    show ?case
    proof (cases ts)
      case Nil
      then show ?thesis using tokenize_quote_option [of t "[]"] by simp
    next
      case (Cons u us)
      then show ?thesis
        using Cons.IH tokenize_quote_option [of t "lit '' '' @ join_with (lit '' '') (map quote_option ts)"]
        by (simp add: lit_def is_whitespace_def)
    qed
  qed simp
  then show ?thesis by (simp add: tokenize_options_def)
qed

text \<open>
  A character behind a backslash does not start a word, so a word that begins with an escape is
  glued to the next one; a shell reads two words here.
\<close>

lemma escaped_start_glues_words: "tokenize_options [92, 97, 32, 98] = [[97, 98]]"
  by code_simp

text \<open>What an accepted option string may consist of.\<close>

inductive harmless_options :: "ustr list \<Rightarrow> bool" where
  no_options: "harmless_options []"
| health_inline: "split_flag t = (flag, Some v) \<Longrightarrow> takes_value flag \<Longrightarrow> harmless_options rest \<Longrightarrow>
    harmless_options (t # rest)"
| health_spaced: "split_flag t = (flag, None) \<Longrightarrow> takes_value flag \<Longrightarrow> harmless_options rest \<Longrightarrow>
    harmless_options (t # v # rest)"
| unprivileged: "split_flag t = (lit ''--privileged'', Some v) \<Longrightarrow>
    eq_ignore_ascii_case v (lit ''false'') \<Longrightarrow> harmless_options rest \<Longrightarrow> harmless_options (t # rest)"

lemma health_apply_Some:
  "health_apply h flag v = Inr (Some h') \<Longrightarrow> takes_value flag \<and> v \<noteq> None"
  by (auto simp: health_apply_def takes_value_def Let_def split: if_splits option.splits)

lemma refuse_flag_None:
  "refuse_flag sp flag inline rest = None \<longleftrightarrow> flag = lit ''--privileged'' \<and>
     (\<exists>v. inline = Some v \<and> eq_ignore_ascii_case v (lit ''false''))"
  by (auto simp: refuse_flag_def Let_def split: option.splits)

lemma options_loop_harmless: "options_loop sp ts h = Inr h' \<Longrightarrow> harmless_options ts"
proof (induction sp ts h rule: options_loop.induct)
  case (2 sp token rest health)
  obtain flag inline where token: "split_flag token = (flag, inline)" by (cases "split_flag token")
  show ?case
  proof (cases "health_apply health flag (next_value inline rest)")
    case (Inl e)
    then show ?thesis using 2(3) token by (cases e) simp
  next
    case (Inr r)
    show ?thesis
    proof (cases r)
      case None
      then have passes: "refuse_flag sp flag inline rest = None"
        using 2(3) token Inr by (cases "refuse_flag sp flag inline rest") simp_all
      then have "harmless_options rest"
        using 2(1) [OF token [symmetric] Inr None] 2(3) token Inr None by simp
      then show ?thesis
        using passes token by (auto simp: refuse_flag_None intro: unprivileged)
    next
      case (Some h)
      note health = health_apply_Some [OF Inr [unfolded Some]]
      have rest: "harmless_options (if inline = None \<and> takes_value flag then drop 1 rest else rest)"
        using 2(2) [OF token [symmetric] Inr Some] 2(3) token Inr Some by simp
      show ?thesis
      proof (cases inline)
        case (Some v)
        then show ?thesis using token health rest by (auto intro: health_inline)
      next
        case None
        then obtain v tokens where "rest = v # tokens"
          using health by (cases rest) (auto simp: next_value_def)
        then show ?thesis using token health rest None by (auto intro: health_spaced)
      qed
    qed
  qed
qed (rule no_options)

section \<open>Paths\<close>

text \<open>A clean absolute path is given by its components.\<close>

definition clean :: "ustr list \<Rightarrow> bool" where
  "clean cs \<longleftrightarrow> list_all (\<lambda>c. c \<noteq> [] \<and> cp CHR ''/'' \<notin> set c \<and> c \<noteq> lit ''.'' \<and> c \<noteq> lit ''..'') cs"

definition below_root :: "ustr list \<Rightarrow> ustr" where
  "below_root cs = concat (map (\<lambda>c. cp CHR ''/'' # c) cs)"

definition path_text :: "ustr list \<Rightarrow> ustr" where
  "path_text cs = (if cs = [] then lit ''/'' else below_root cs)"

definition related :: "ustr list \<Rightarrow> ustr list \<Rightarrow> bool" where
  "related a b \<longleftrightarrow> prefix a b \<or> prefix b a"

lemma split_char_snoc: "split_char x (s @ x # r) = split_char x s @ split_char x r"
  by (induction s) (auto split: list.splits)

lemma split_below_root: "clean cs \<Longrightarrow> split_char (cp CHR ''/'') (below_root cs) = [] # cs"
proof (induction cs rule: rev_induct)
  case (snoc c cs)
  then show ?case
    using split_char_snoc [of "cp CHR ''/''" "below_root cs" c]
    by (simp add: clean_def below_root_def split_char_none)
qed (simp add: below_root_def)

lemma below_root_prefix:
  assumes "clean a" "clean b" "a \<noteq> []"
  shows "(\<exists>r. below_root b = below_root a @ cp CHR ''/'' # r) \<longleftrightarrow> strict_prefix a b"
proof
  assume "\<exists>r. below_root b = below_root a @ cp CHR ''/'' # r"
  then obtain r where "[] # b = ([] # a) @ split_char (cp CHR ''/'') r"
    using split_below_root [OF assms(2)] split_below_root [OF assms(1)] split_char_snoc by metis
  then have "b = a @ split_char (cp CHR ''/'') r" by simp
  then show "strict_prefix a b" by (simp add: strict_prefix_def)
next
  assume "strict_prefix a b"
  then obtain c cs where "b = a @ c # cs" by (auto elim: strict_prefixE')
  then show "\<exists>r. below_root b = below_root a @ cp CHR ''/'' # r" by (simp add: below_root_def)
qed

lemma below_root_inj: "clean a \<Longrightarrow> clean b \<Longrightarrow> below_root a = below_root b \<longleftrightarrow> a = b"
  using split_below_root by (metis list.inject)

lemma is_ancestor_iff:
  "p \<noteq> lit ''/'' \<Longrightarrow> is_ancestor p q \<longleftrightarrow> (\<exists>r. q = p @ cp CHR ''/'' # r)"
proof
  assume "p \<noteq> lit ''/''" "is_ancestor p q"
  then obtain s where "q = p @ s" "s \<noteq> []" "(p @ s) ! length p = cp CHR ''/''"
    by (auto simp: is_ancestor_def prefix_def)
  then show "\<exists>r. q = p @ cp CHR ''/'' # r" by (cases s) auto
next
  assume "\<exists>r. q = p @ cp CHR ''/'' # r"
  then show "is_ancestor p q" by (auto simp: is_ancestor_def)
qed

lemma below_root_last:
  assumes "clean cs" "cs \<noteq> []"
  shows "below_root cs \<noteq> []" "last (below_root cs) \<noteq> cp CHR ''/''" "below_root cs \<noteq> lit ''/''"
    "1 < str_len (below_root cs)"
proof -
  obtain ds d where cs: "cs = ds @ [d]" using assms(2) by (metis rev_exhaust)
  then have d: "d \<noteq> []" "last d \<in> set d" "cp CHR ''/'' \<notin> set d" using assms(1) by (auto simp: clean_def)
  then show "below_root cs \<noteq> []" "last (below_root cs) \<noteq> cp CHR ''/''"
    by (simp_all add: cs below_root_def) (metis last_in_set)
  then show "below_root cs \<noteq> lit ''/''" by (auto simp: lit_def)
  have "1 < length (below_root cs)" using d by (cases d) (auto simp: cs below_root_def)
  then show "1 < str_len (below_root cs)" using length_le_str_len [of "below_root cs"] by simp
qed

lemma trim_path_text: "clean cs \<Longrightarrow> trim_trailing_slash (path_text cs) = path_text cs"
proof (cases "cs = []")
  case False
  assume "clean cs"
  note last = below_root_last [OF this False]
  then obtain xs x where "below_root cs = xs @ [x]" by (metis rev_exhaust)
  then show ?thesis using last False by (simp add: trim_trailing_slash_def path_text_def)
qed (simp add: path_text_def trim_trailing_slash_def lit_def str_len_def len_utf8_def)

lemma root_is_ancestor: "is_ancestor (lit ''/'') (path_text b) \<longleftrightarrow> b \<noteq> []" if "clean b" for b
proof (cases "b = []")
  case False
  then obtain c cs where "b = c # cs" by (cases b) auto
  then have "below_root b = cp CHR ''/'' # c @ below_root cs" "c \<noteq> []"
    using that by (auto simp: below_root_def clean_def)
  then show ?thesis using False by (simp add: is_ancestor_def path_text_def lit_def)
qed (simp add: is_ancestor_def path_text_def)

lemma is_ancestor_path_text:
  assumes "clean a" "clean b"
  shows "is_ancestor (path_text a) (path_text b) \<longleftrightarrow> strict_prefix a b"
proof (cases "a = []")
  case True
  then show ?thesis using root_is_ancestor [OF assms(2)] by (auto simp: path_text_def strict_prefix_def)
next
  case False
  note a = below_root_last [OF assms(1) False]
  show ?thesis
  proof (cases "b = []")
    case True
    have "\<not> is_ancestor (below_root a) (lit ''/'')"
      using a(1) by (cases "below_root a") (auto simp: is_ancestor_def lit_def)
    then show ?thesis using True False by (simp add: path_text_def)
  next
    case nonempty: False
    then show ?thesis
      using False below_root_prefix [OF assms False] by (simp add: path_text_def is_ancestor_iff [OF a(3)])
  qed
qed

lemma paths_collide_iff:
  assumes "clean a" "clean b"
  shows "paths_collide (path_text a) (path_text b) \<longleftrightarrow> related a b"
proof -
  have "path_text a = path_text b \<longleftrightarrow> a = b"
    using assms below_root_inj [OF assms] below_root_last(3) by (metis path_text_def)
  then show ?thesis
    using is_ancestor_path_text [OF assms] is_ancestor_path_text [OF assms(2,1)]
    by (auto simp: paths_collide_def related_def strict_prefix_def)
qed

lemma control_root_path: "GREENLIT_CONTROL_ROOT = path_text [lit ''greenlit'']" "clean [lit ''greenlit'']"
  by (simp_all add: GREENLIT_CONTROL_ROOT_def path_text_def below_root_def clean_def lit_def)

lemma reject_reserved_iff:
  assumes "clean ds" "clean ws"
  shows "reject_reserved_destination spec (path_text ds) sp (path_text ws) = Inr () \<longleftrightarrow>
    \<not> related ds [lit ''greenlit''] \<and> \<not> related ds ws"
  using assms control_root_path(2)
  by (simp add: reject_reserved_destination_def control_root_path(1) trim_path_text paths_collide_iff Let_def)

text \<open>
  For clean absolute paths the textual check is exact. A destination is accepted exactly if it is
  neither one of the two reserved directories nor above nor below one of them: an entry that merely
  shares characters with a reserved path is accepted, and the root directory never is.
\<close>

lemma reserved_destinations_exact:
  assumes "clean ds" "clean ws"
  shows "(reject_reserved_destination spec (path_text ds) sp (path_text ws) = Inr () \<longleftrightarrow>
      \<not> prefix ds [lit ''greenlit''] \<and> \<not> prefix [lit ''greenlit''] ds \<and> \<not> prefix ds ws \<and> \<not> prefix ws ds) \<and>
    (reject_reserved_destination spec (path_text ds) sp (path_text ws) \<noteq> Inr () \<longrightarrow>
      reject_reserved_destination spec (path_text ds) sp (path_text ws) =
        Inl (ReservedVolumeDestination sp spec (path_text ds)))"
proof
  show "reject_reserved_destination spec (path_text ds) sp (path_text ws) = Inr () \<longleftrightarrow>
      \<not> prefix ds [lit ''greenlit''] \<and> \<not> prefix [lit ''greenlit''] ds \<and> \<not> prefix ds ws \<and> \<not> prefix ws ds"
    using reject_reserved_iff [OF assms] by (simp only: related_def) blast
  show "reject_reserved_destination spec (path_text ds) sp (path_text ws) \<noteq> Inr () \<longrightarrow>
      reject_reserved_destination spec (path_text ds) sp (path_text ws) =
        Inl (ReservedVolumeDestination sp spec (path_text ds))"
    using trim_path_text [OF assms(1)] by (simp add: reject_reserved_destination_def Let_def)
qed

text \<open>
  The check compares text. A destination that is not clean can name the reserved directory and pass.
\<close>

lemma unclean_destination_passes:
  "reject_reserved_destination [] (lit ''/x/../greenlit/upper'') sample_span (lit ''/w'') = Inr ()"
  "reject_reserved_destination [] (lit ''//greenlit'') sample_span (lit ''/w'') = Inr ()"
  by code_simp+

section \<open>The whole request\<close>

definition volume_dest :: "ustr \<Rightarrow> ustr" where
  "volume_dest spec = (case split_char (cp CHR '':'') spec of
     [dest] \<Rightarrow> dest | _ # dest # _ \<Rightarrow> dest | [] \<Rightarrow> [])"

lemma validate_volume_Inr:
  assumes "validate_volume spec sp workspace ns = Inr r"
  shows "reject_reserved_destination spec (volume_dest spec) sp workspace = Inr () \<and>
    (\<forall>b. r = Some b \<longrightarrow> bm_container_path b = volume_dest spec \<and>
       (\<exists>source. \<not> is_host_path source \<and> bm_host_path b = namespaced_volume_name ns source))"
proof -
  obtain d ds where parts: "split_char (cp CHR '':'') spec = d # ds"
    by (cases "split_char (cp CHR '':'') spec") auto
  show ?thesis
    using assms parts
    by (cases ds) (auto simp: validate_volume_def volume_dest_def rbind_eq_Inr split: if_splits)
qed

lemma parse_digits_u16: "parse_u16 s = Some n \<Longrightarrow> n < 65536"
  by (auto simp: parse_u16_def bind_eq_Some_conv split: if_splits)

lemma parse_port_Inr:
  assumes "parse_port spec sp = Inr p"
  shows "pb_host_ip p = Some PUBLISH_ADDRESS \<and> pb_container_port p < 65536 \<and>
    (\<forall>h. pb_host_port p = Some h \<longrightarrow> h < 65536)"
  using assms
  by (auto simp: parse_port_def Let_def rbind_eq_Inr dest!: parse_digits_u16
      split: prod.splits option.splits)

lemma rmap_set: "rmap f xs = Inr ys \<Longrightarrow> x \<in> set xs \<Longrightarrow> \<exists>y \<in> set ys. f x = Inr y"
  by (metis in_set_conv_nth rmap_length rmap_nth)

lemma rmap_set_conv: "rmap f xs = Inr ys \<Longrightarrow> y \<in> set ys \<Longrightarrow> \<exists>x \<in> set xs. f x = Inr y"
  by (metis in_set_conv_nth rmap_length rmap_nth)

text \<open>
  C4: what the validation of a container request guarantees. Every bind it returns is a volume named
  after the run's own namespace, never a host path, and its destination is that of a volume of the
  request. A destination written as a clean absolute path (components without separators, no empty one,
  no \<open>.\<close> and no \<open>..\<close>) is neither the control directory nor the workspace, nor above, nor
  below one of them, the workspace being a clean absolute path as well; nothing is claimed of other
  spellings of a destination, which the code compares as text. Every port it returns names the loopback
  address and has numbers of 16 bits (for a service the executor later writes the gateway of the job's
  network over that address). The option string has only health options and \<open>--privileged=false\<close>,
  so no flag for privileges, devices, mounts or host namespaces is in it.
\<close>

theorem accepted_container_is_contained:
  assumes "validate_container c (path_text ws) ns = Inr adds" and "clean ws"
  shows "(\<forall>b \<in> set (ca_volume_binds adds). \<exists>source.
       \<not> is_host_path source \<and> bm_host_path b = namespaced_volume_name ns source) \<and>
    (\<forall>(spec, sp) \<in> set (rc_volumes c). \<forall>ds. clean ds \<and> volume_dest spec = path_text ds \<longrightarrow>
       \<not> prefix ds [lit ''greenlit''] \<and> \<not> prefix [lit ''greenlit''] ds \<and> \<not> prefix ds ws \<and> \<not> prefix ws ds) \<and>
    bm_container_path ` set (ca_volume_binds adds) \<subseteq> (volume_dest \<circ> fst) ` set (rc_volumes c) \<and>
    (\<forall>p \<in> set (ca_ports adds). pb_host_ip p = Some (lit ''127.0.0.1'') \<and> pb_container_port p < 65536 \<and>
       (\<forall>h. pb_host_port p = Some h \<longrightarrow> h < 65536)) \<and>
    (\<forall>options sp. rc_options c = Some (options, sp) \<longrightarrow> harmless_options (tokenize_options options))"
proof -
  obtain health binds ports where
    options: "(case rc_options c of Some (options, sp) \<Rightarrow> validate_options options sp default_health
       | None \<Rightarrow> Inr default_health) = Inr health"
    and binds: "rmap (\<lambda>(spec, sp). validate_volume spec sp (path_text ws) ns) (rc_volumes c) = Inr binds"
    and ports: "rmap (\<lambda>(spec, sp). parse_port spec sp) (rc_ports c) = Inr ports"
    and adds: "ca_volume_binds adds = List.map_filter id binds" "ca_ports adds = ports"
    using assms by (auto simp: validate_container_def rbind_eq_Inr)
  have bind: "\<exists>v \<in> set (rc_volumes c). bm_container_path b = volume_dest (fst v) \<and>
      (\<exists>source. \<not> is_host_path source \<and> bm_host_path b = namespaced_volume_name ns source)"
    if "b \<in> set (ca_volume_binds adds)" for b
  proof -
    have "Some b \<in> set binds" using that by (auto simp: adds List.map_filter_def)
    then obtain v where "v \<in> set (rc_volumes c)" "validate_volume (fst v) (snd v) (path_text ws) ns = Inr (Some b)"
      using rmap_set_conv [OF binds] unfolding case_prod_unfold by blast
    then show ?thesis using validate_volume_Inr by blast
  qed
  show ?thesis
  proof (intro conjI)
    show "\<forall>b \<in> set (ca_volume_binds adds). \<exists>source.
       \<not> is_host_path source \<and> bm_host_path b = namespaced_volume_name ns source"
      using bind by blast
    have "reject_reserved_destination spec (volume_dest spec) sp (path_text ws) = Inr ()" if "(spec, sp) \<in> set (rc_volumes c)" for spec sp
      using rmap_set [OF binds] validate_volume_Inr that by (fastforce simp: case_prod_unfold)
    then show "\<forall>(spec, sp) \<in> set (rc_volumes c). \<forall>ds. clean ds \<and> volume_dest spec = path_text ds \<longrightarrow>
       \<not> prefix ds [lit ''greenlit''] \<and> \<not> prefix [lit ''greenlit''] ds \<and> \<not> prefix ds ws \<and> \<not> prefix ws ds"
      using reserved_destinations_exact [OF _ assms(2)] by fastforce
    show "bm_container_path ` set (ca_volume_binds adds) \<subseteq> (volume_dest \<circ> fst) ` set (rc_volumes c)"
      using bind by fastforce
    show "\<forall>p \<in> set (ca_ports adds). pb_host_ip p = Some (lit ''127.0.0.1'') \<and> pb_container_port p < 65536 \<and>
       (\<forall>h. pb_host_port p = Some h \<longrightarrow> h < 65536)"
      using rmap_set_conv [OF ports] parse_port_Inr
      by (fastforce simp: adds PUBLISH_ADDRESS_def [symmetric] case_prod_unfold)
    show "\<forall>options sp. rc_options c = Some (options, sp) \<longrightarrow> harmless_options (tokenize_options options)"
      using options options_loop_harmless by (auto simp: validate_options_def)
  qed
qed

definition sample_service :: resolved_container where
  "sample_service = \<lparr>rc_image = lit ''postgres:16'', rc_image_span = sample_span, rc_credentials = None,
     rc_env = [], rc_volumes = [(lit ''data:/var/lib/postgresql'', sample_span)],
     rc_ports = [(lit ''5432:5432/tcp'', sample_span)],
     rc_options = Some (lit ''--health-cmd pg_isready --health-interval=1m30s --privileged=False'',
       sample_span)\<rparr>"

theorem accepted_container_is_contained_witness:
  "\<exists>adds. validate_container sample_service (path_text [lit ''w'']) (lit ''run'') = Inr adds \<and>
    hc_interval_nanos (the (ca_healthcheck adds)) = Some 90000000000 \<and>
    harmless_options (tokenize_options (fst (the (rc_options sample_service)))) \<and>
    \<not> prefix [lit ''var'', lit ''lib'', lit ''postgresql''] [lit ''w''] \<and>
    list_all (\<lambda>b. \<exists>source. bm_host_path b = namespaced_volume_name (lit ''run'') source)
      (ca_volume_binds adds)"
proof -
  have "(case validate_container sample_service (path_text [lit ''w'']) (lit ''run'') of
     Inr adds \<Rightarrow> hc_interval_nanos (the (ca_healthcheck adds)) = Some 90000000000 | Inl _ \<Rightarrow> False)"
    by code_simp
  then obtain adds where adds: "validate_container sample_service (path_text [lit ''w'']) (lit ''run'') = Inr adds"
    "hc_interval_nanos (the (ca_healthcheck adds)) = Some 90000000000"
    by (auto split: sum.splits)
  have paths: "clean [lit ''w'']" "clean [lit ''var'', lit ''lib'', lit ''postgresql'']" by code_simp+
  moreover have "volume_dest (lit ''data:/var/lib/postgresql'') = path_text [lit ''var'', lit ''lib'', lit ''postgresql'']"
    by code_simp
  ultimately show ?thesis
    using accepted_container_is_contained [OF adds(1) paths(1)] adds
    by (intro exI [of _ adds]) (auto simp: sample_service_def list_all_iff)
qed

end
