(* ===== verification/Job_Lifecycle.thy ===== *)
theory Job_Lifecycle
  imports Scheduler Container
begin

text \<open>
  What a job creates on the container engine and what it removes again
  (\<open>greenlit-runtime/src/executor/job/mod.rs\<close>: \<open>run_instance\<close>, \<open>job/teardown.rs\<close>, \<open>job/boot.rs\<close>,
  \<open>services.rs\<close>, \<open>dind.rs\<close>, \<open>netguard.rs\<close>, and the reconciliation in \<open>docker.rs\<close>).

  A run of a job is seen as the sequence of its creating and removing requests to the engine. What
  every fallible or interruptible phase does is an input, one field of \<open>job_world\<close> per phase: the
  phases are engine calls, downloads and evaluations. Removals are best effort in the code, so a
  removal is a request. The two volumes of a job with a container action come into being with the
  container that binds them.
\<close>

section \<open>Requests\<close>

datatype resource = Network | Service ustr | Guard | JobContainer | Volume ustr | Sidecar

datatype request = Create resource | Remove resource

text \<open>A phase under \<open>tokio::select\<close>: finished, failed, or dropped by a cancellation.\<close>

datatype phase = Ready | Failed | Interrupted

text \<open>The short-lived container that installs the network policy: a dropped one may exist already.\<close>

datatype guard_fate = GuardFailedEarly | GuardRan bool | GuardDropped bool

text \<open>
  A service before its container exists (failed or cancelled), its container not started, the
  policy on it, and the wait for its health.
\<close>

datatype service_fate =
    NotCreated bool
  | NotStarted bool
  | NotGuarded bool
  | Guarded guard_fate
  | Unhealthy bool
  | Healthy

datatype boot_fate = NoContainer | CancelledAfterCreate | StartFailed | Booted

datatype dind_fate = NoSidecar | SidecarFailed | DindDropped bool | SidecarReady

record job_world =
  jw_cancelled :: bool
  jw_network_created :: bool
  jw_network_inspected :: bool
  jw_display :: bool
  jw_activates :: "bool option"
  jw_env :: bool
  jw_actions :: phase
  jw_needs_sibling :: bool
  jw_needs_node :: bool
  jw_node_runtime :: phase
  jw_services :: "(ustr \<times> service_fate) list option"
  jw_image :: phase
  jw_boot :: boot_fate
  jw_locked_image :: bool
  jw_images_locked :: bool
  jw_guard_image_exists :: "bool option"
  jw_guard :: guard_fate
  jw_cancelled_after_guard :: bool
  jw_uses_docker :: bool
  jw_dind :: dind_fate
  jw_wrapper :: bool
  jw_body :: phase
  jw_result :: conclusion
  jw_write_back :: bool

datatype job_end = Reported conclusion | Erred

section \<open>Phases\<close>

definition guard_requests :: "guard_fate \<Rightarrow> request list" where
  "guard_requests g = (case g of
     GuardFailedEarly \<Rightarrow> []
   | GuardRan _ \<Rightarrow> [Create Guard, Remove Guard]
   | GuardDropped created \<Rightarrow> (if created then [Create Guard] else []))"

text \<open>The services in their order; \<open>Inl\<close> carries whether a cancellation ended the start.\<close>

fun start_services :: "(ustr \<times> service_fate) list \<Rightarrow> ustr list \<Rightarrow>
    ((ustr list \<times> bool) + ustr list) \<times> request list" where
  "start_services [] up = (Inr up, [])"
| "start_services ((x, fate) # rest) up = (case fate of
     NotCreated cancelled \<Rightarrow> (Inl (up, cancelled), [])
   | NotStarted cancelled \<Rightarrow> (Inl (up @ [x], cancelled), [Create (Service x)])
   | NotGuarded cancelled \<Rightarrow> (Inl (up @ [x], cancelled), [Create (Service x)])
   | Guarded g \<Rightarrow> (Inl (up @ [x], case g of GuardDropped _ \<Rightarrow> True | _ \<Rightarrow> False),
       Create (Service x) # guard_requests g)
   | Unhealthy cancelled \<Rightarrow> (Inl (up @ [x], cancelled),
       Create (Service x) # guard_requests (GuardRan True))
   | Healthy \<Rightarrow> (case start_services rest (up @ [x]) of (r, qs) \<Rightarrow>
       (r, Create (Service x) # guard_requests (GuardRan True) @ qs)))"

definition stop_services :: "ustr list \<Rightarrow> request list" where
  "stop_services xs = map (\<lambda>x. Remove (Service x)) xs"

definition network_teardown :: "request list" where
  "network_teardown = [Remove Network]"

definition sibling_volumes :: "ustr list" where
  "sibling_volumes = [lit ''workspace'', lit ''cmdfiles'']"

definition create_job_container :: "bool \<Rightarrow> request list" where
  "create_job_container sibling =
     Create JobContainer # (if sibling then map (\<lambda>v. Create (Volume v)) sibling_volumes else [])"

definition boot_requests :: "bool \<Rightarrow> boot_fate \<Rightarrow> request list" where
  "boot_requests sibling fate = (case fate of
     NoContainer \<Rightarrow> []
   | Booted \<Rightarrow> create_job_container sibling
   | _ \<Rightarrow> create_job_container sibling @ [Remove JobContainer])"

definition dind_requests :: "dind_fate \<Rightarrow> request list" where
  "dind_requests fate = (case fate of
     NoSidecar \<Rightarrow> []
   | DindDropped created \<Rightarrow> (if created then [Create Sidecar] else [])
   | _ \<Rightarrow> [Create Sidecar])"

definition teardown :: "bool \<Rightarrow> bool \<Rightarrow> ustr list \<Rightarrow> bool \<Rightarrow> request list" where
  "teardown sibling dind services keep_container =
    (if keep_container then []
     else Remove JobContainer # (if sibling then map (\<lambda>v. Remove (Volume v)) sibling_volumes else []))
    @ (if dind then [Remove Sidecar] else []) @ stop_services services @ network_teardown"

section \<open>The job\<close>

abbreviation doing :: "request list \<Rightarrow> job_end \<times> request list \<Rightarrow> job_end \<times> request list" where
  "doing qs r \<equiv> (fst r, qs @ snd r)"

text \<open>The release on the paths between the container's boot and the job's body.\<close>

definition release_booted :: "ustr list \<Rightarrow> request list" where
  "release_booted services = Remove JobContainer # stop_services services @ network_teardown"

definition run_body :: "job_world \<Rightarrow> ustr list \<Rightarrow> bool \<Rightarrow> job_end \<times> request list" where
  "run_body w services dind =
    ((case jw_body w of
        Ready \<Rightarrow> Reported (jw_result w) | Failed \<Rightarrow> Erred | Interrupted \<Rightarrow> Reported CCancelled),
     teardown (jw_needs_sibling w) dind services (jw_write_back w \<and> jw_body w \<noteq> Interrupted))"

definition after_guard :: "job_world \<Rightarrow> ustr list \<Rightarrow> job_end \<times> request list" where
  "after_guard w services =
    (if jw_uses_docker w
     then doing (dind_requests (jw_dind w))
       (case jw_dind w of
          DindDropped _ \<Rightarrow> (Reported CCancelled, release_booted services)
        | SidecarReady \<Rightarrow>
            (if jw_wrapper w then run_body w services True else (Erred, release_booted services))
        | _ \<Rightarrow> (Erred, release_booted services))
     else run_body w services False)"

definition after_boot :: "job_world \<Rightarrow> ustr list \<Rightarrow> job_end \<times> request list" where
  "after_boot w services =
    (if \<not> jw_locked_image w then (Erred, [])
     else if jw_images_locked w \<and> jw_guard_image_exists w = None then (Erred, [])
     else if jw_images_locked w \<and> jw_guard_image_exists w = Some False
     then (Erred, release_booted services)
     else doing (guard_requests (jw_guard w))
       (case jw_guard w of
          GuardDropped _ \<Rightarrow> (Reported CCancelled, release_booted services)
        | g \<Rightarrow> (if jw_cancelled_after_guard w then (Reported CCancelled, release_booted services)
             else if g = GuardRan True then after_guard w services
             else (Erred, release_booted services))))"

definition after_services :: "job_world \<Rightarrow> ustr list \<Rightarrow> job_end \<times> request list" where
  "after_services w services =
    (let unwind = stop_services services @ network_teardown in
     case jw_image w of
       Failed \<Rightarrow> (Erred, unwind)
     | Interrupted \<Rightarrow> (Reported CCancelled, unwind)
     | Ready \<Rightarrow> doing (boot_requests (jw_needs_sibling w) (jw_boot w))
         (case jw_boot w of
            Booted \<Rightarrow> after_boot w services
          | CancelledAfterCreate \<Rightarrow> (Reported CCancelled, unwind)
          | _ \<Rightarrow> (Erred, unwind)))"

definition after_actions :: "job_world \<Rightarrow> job_end \<times> request list" where
  "after_actions w = (case jw_services w of
     None \<Rightarrow> (Erred, network_teardown)
   | Some ss \<Rightarrow> (case start_services ss [] of
       (Inl (up, cancelled), qs) \<Rightarrow>
         doing qs (if cancelled then Reported CCancelled else Erred, stop_services up @ network_teardown)
     | (Inr up, qs) \<Rightarrow> doing qs (after_services w up)))"

definition after_network :: "job_world \<Rightarrow> job_end \<times> request list" where
  "after_network w =
    (if \<not> jw_display w then (Erred, [])
     else case jw_activates w of
       None \<Rightarrow> (Erred, [])
     | Some False \<Rightarrow> (Reported CSkipped, [])
     | Some True \<Rightarrow>
        (if \<not> jw_env w then (Erred, [])
         else case jw_actions w of
           Failed \<Rightarrow> (Erred, network_teardown)
         | Interrupted \<Rightarrow> (Reported CCancelled, network_teardown)
         | Ready \<Rightarrow>
            (if jw_needs_node w \<and> jw_node_runtime w = Failed then (Erred, network_teardown)
             else if jw_needs_node w \<and> jw_node_runtime w = Interrupted
             then (Reported CCancelled, network_teardown)
             else after_actions w)))"

definition run_instance :: "job_world \<Rightarrow> job_end \<times> request list" where
  "run_instance w =
    (if jw_cancelled w then (Reported CCancelled, [])
     else if \<not> jw_network_created w then (Erred, [])
     else doing [Create Network] (if jw_network_inspected w then after_network w else (Erred, [])))"

section \<open>Reconciliation\<close>

definition resource_belongs_to_run :: "ustr \<Rightarrow> ustr \<Rightarrow> bool" where
  "resource_belongs_to_run name run_id =
    (let p = lit ''greenlit-run-'' @ run_id in
     name = p \<or> (case strip_prefix p name of Some rest \<Rightarrow> prefix (lit ''-'') rest | None \<Rightarrow> False))"

definition job_namespace :: "ustr \<Rightarrow> ustr \<Rightarrow> ustr" where
  "job_namespace volume_namespace instance_key = volume_namespace @ lit ''-'' @ instance_key"

definition network_name :: "ustr \<Rightarrow> ustr" where
  "network_name namespace = lit ''greenlit-run-'' @ namespace"

text \<open>A managed container is reclaimed if its run label is the id of a terminal run.\<close>

definition reclaimable :: "ustr list \<Rightarrow> ustr option \<Rightarrow> bool" where
  "reclaimable terminal run_label = (case run_label of Some x \<Rightarrow> x \<in> set terminal | None \<Rightarrow> False)"

text \<open>The run label of a job's Docker-in-Docker sidecar and of its policy container.\<close>

definition sidecar_label :: "ustr \<Rightarrow> ustr \<Rightarrow> ustr option" where
  "sidecar_label volume_namespace instance_key = Some (job_namespace volume_namespace instance_key)"

end
