(* ===== verification/Lifecycle_Laws.thy ===== *)
theory Lifecycle_Laws
  imports Job_Lifecycle
begin

text \<open>
  Which jobs release what they create. The engine refuses to remove a network while a container is
  attached to it, and a volume while a container uses it; a job that ends on one of the paths with a
  release removes everything exactly once and in an order the engine accepts.
\<close>

section \<open>Sequences of requests\<close>

definition attached :: "resource \<Rightarrow> bool" where
  "attached r \<longleftrightarrow> (case r of Network \<Rightarrow> False | Volume _ \<Rightarrow> False | _ \<Rightarrow> True)"

fun live :: "resource set \<Rightarrow> request list \<Rightarrow> resource set" where
  "live R [] = R"
| "live R (Create r # qs) = live (insert r R) qs"
| "live R (Remove r # qs) = live (R - {r}) qs"

text \<open>Every created resource is new, and every removal is one the engine can carry out.\<close>

definition removable :: "resource set \<Rightarrow> resource \<Rightarrow> bool" where
  "removable R r \<longleftrightarrow> r \<in> R \<and> (case r of
     Network \<Rightarrow> (\<forall>x \<in> R. \<not> attached x) | Volume _ \<Rightarrow> JobContainer \<notin> R | _ \<Rightarrow> True)"

fun orderly :: "resource set \<Rightarrow> request list \<Rightarrow> bool" where
  "orderly R [] \<longleftrightarrow> True"
| "orderly R (Create r # qs) \<longleftrightarrow> r \<notin> R \<and> orderly (insert r R) qs"
| "orderly R (Remove r # qs) \<longleftrightarrow> removable R r \<and> orderly (R - {r}) qs"

definition released :: "resource set \<Rightarrow> request list \<Rightarrow> bool" where
  "released R qs \<longleftrightarrow> orderly R qs \<and> live R qs = {}"

lemma live_append [simp]: "live R (qs @ qs') = live (live R qs) qs'"
  by (induction R qs rule: live.induct) simp_all

lemma orderly_append [simp]: "orderly R (qs @ qs') \<longleftrightarrow> orderly R qs \<and> orderly (live R qs) qs'"
  by (induction R qs rule: live.induct) auto

lemma released_append: "released R (qs @ qs') \<longleftrightarrow> orderly R qs \<and> released (live R qs) qs'"
  by (auto simp: released_def)

lemma released_Cons [simp]:
  "released R (Create r # qs) \<longleftrightarrow> r \<notin> R \<and> released (insert r R) qs"
  "released R (Remove r # qs) \<longleftrightarrow> removable R r \<and> released (R - {r}) qs"
  by (auto simp: released_def)

section \<open>Releases\<close>

definition base :: "ustr list \<Rightarrow> resource set" where
  "base xs = insert Network (Service ` set xs)"

lemma released_network: "released {Network} network_teardown"
  by (simp add: network_teardown_def removable_def attached_def released_def)

lemma released_services:
  "distinct xs \<Longrightarrow> released (base xs) (stop_services xs @ network_teardown)"
proof (induction xs)
  case Nil
  then show ?case using released_network by (simp add: base_def stop_services_def)
next
  case (Cons x xs)
  then have "base (x # xs) - {Service x} = base xs" by (auto simp: base_def)
  then show ?case using Cons by (simp add: stop_services_def removable_def base_def)
qed

lemma released_booted:
  "distinct xs \<Longrightarrow> released (insert JobContainer (base xs)) (release_booted xs)"
proof -
  assume "distinct xs"
  moreover have "insert JobContainer (base xs) - {JobContainer} = base xs" by (auto simp: base_def)
  ultimately show ?thesis
    using released_services by (simp add: release_booted_def removable_def)
qed

definition booted :: "bool \<Rightarrow> ustr list \<Rightarrow> resource set" where
  "booted sibling xs =
     insert JobContainer (base xs) \<union> (if sibling then Volume ` set sibling_volumes else {})"

lemma live_boot: "orderly (base xs) (create_job_container sibling) \<and>
    live (base xs) (create_job_container sibling) = booted sibling xs"
  by (auto simp: create_job_container_def booted_def sibling_volumes_def base_def)

lemma released_teardown:
  assumes "distinct xs"
  shows "released (booted sibling xs \<union> (if dind then {Sidecar} else {})) (teardown sibling dind xs False)"
proof -
  let ?R = "booted sibling xs \<union> (if dind then {Sidecar} else {})"
  let ?first = "Remove JobContainer # (if sibling then map (\<lambda>v. Remove (Volume v)) sibling_volumes else [])"
  have "orderly ?R ?first \<and> live ?R ?first = base xs \<union> (if dind then {Sidecar} else {})"
    by (auto simp: booted_def base_def removable_def sibling_volumes_def lit_def)
  moreover have "base xs \<union> {Sidecar} - {Sidecar} = base xs" by (auto simp: base_def)
  ultimately show ?thesis
    using released_services [OF assms] unfolding teardown_def
    by (simp add: released_append removable_def)
qed

section \<open>Starting the services\<close>

definition dropped_guard :: "service_fate \<Rightarrow> bool" where
  "dropped_guard f \<longleftrightarrow> f = Guarded (GuardDropped True)"

lemma guard_requests_neutral:
  "Guard \<notin> R \<Longrightarrow> g \<noteq> GuardDropped True \<Longrightarrow> orderly R (guard_requests g) \<and> live R (guard_requests g) = R"
  by (cases g) (auto simp: guard_requests_def removable_def)

lemma start_services_live:
  assumes "start_services ss up = (r, qs)" "distinct (up @ map fst ss)"
    "\<forall>s \<in> set ss. \<not> dropped_guard (snd s)"
  shows "orderly (base up) qs \<and>
    (\<exists>up'. (r = Inr up' \<or> (\<exists>c. r = Inl (up', c))) \<and> live (base up) qs = base up' \<and> distinct up')"
  using assms
proof (induction ss up arbitrary: r qs rule: start_services.induct)
  case (1 up)
  then show ?case by auto
next
  case (2 x fate rest up)
  have new: "Service x \<notin> base up" "Guard \<notin> base (up @ [x])"
    and grown: "insert (Service x) (base up) = base (up @ [x])"
    using 2(3) by (auto simp: base_def)
  note neutral = guard_requests_neutral [OF new(2)]
  show ?case
  proof (cases fate)
    case (Guarded g)
    then have "g \<noteq> GuardDropped True" using 2(4) by (simp add: dropped_guard_def)
    then show ?thesis using 2(2,3) new grown neutral [of g] by (auto simp: Guarded)
  next
    case Healthy
    then obtain qs' where "start_services rest (up @ [x]) = (r, qs')"
      and qs: "qs = Create (Service x) # guard_requests (GuardRan True) @ qs'"
      using 2(2) by (auto split: prod.splits)
    then have "orderly (base (up @ [x])) qs' \<and>
      (\<exists>up'. (r = Inr up' \<or> (\<exists>c. r = Inl (up', c))) \<and> live (base (up @ [x])) qs' = base up' \<and> distinct up')"
      using 2(1) [OF Healthy] 2(3,4) by simp
    then show ?thesis using new grown neutral [of "GuardRan True"] by (simp add: qs)
  next
    case (Unhealthy c)
    then show ?thesis using 2(2,3) new grown neutral [of "GuardRan True"] by auto
  qed (use 2(2,3) new grown in auto)
qed

section \<open>The job\<close>

text \<open>
  The paths with a release: no error or skip between the network and the action plan, no failing
  lookup of the policy image, no policy container or sidecar left behind by a dropped or failed
  start, no kept container, and for a job with a container action no exit between its container
  and its body.
\<close>

definition early_phases_pass :: "job_world \<Rightarrow> bool" where
  "early_phases_pass w \<longleftrightarrow>
     jw_network_inspected w \<and> jw_display w \<and> jw_activates w = Some True \<and> jw_env w"

definition guard_safe :: "job_world \<Rightarrow> bool" where
  "guard_safe w \<longleftrightarrow> jw_locked_image w \<and> (jw_images_locked w \<longrightarrow> jw_guard_image_exists w \<noteq> None) \<and>
     jw_guard w \<noteq> GuardDropped True"

definition dind_safe :: "job_world \<Rightarrow> bool" where
  "dind_safe w \<longleftrightarrow> (jw_uses_docker w \<longrightarrow> jw_dind w \<in> {NoSidecar, DindDropped False, SidecarReady} \<and>
     (jw_dind w = SidecarReady \<longrightarrow> jw_wrapper w))"

definition reaches_body :: "job_world \<Rightarrow> bool" where
  "reaches_body w \<longleftrightarrow> jw_boot w \<in> {NoContainer, Booted} \<and>
     (jw_images_locked w \<longrightarrow> jw_guard_image_exists w = Some True) \<and> jw_guard w = GuardRan True \<and>
     \<not> jw_cancelled_after_guard w \<and> (jw_uses_docker w \<longrightarrow> jw_dind w = SidecarReady)"

definition graceful :: "job_world \<Rightarrow> bool" where
  "graceful w \<longleftrightarrow> early_phases_pass w \<and> guard_safe w \<and> dind_safe w \<and> \<not> jw_write_back w \<and>
     (jw_needs_sibling w \<longrightarrow> reaches_body w) \<and>
     (\<forall>ss. jw_services w = Some ss \<longrightarrow> distinct (map fst ss) \<and> (\<forall>s \<in> set ss. \<not> dropped_guard (snd s)))"

lemma released_run_body:
  assumes "\<not> jw_write_back w" "distinct xs"
  shows "released (booted (jw_needs_sibling w) xs \<union> (if dind then {Sidecar} else {}))
    (snd (run_body w xs dind))"
  using released_teardown [OF assms(2)] assms(1) by (simp add: run_body_def)

lemma released_after_guard:
  assumes "dind_safe w" "\<not> jw_write_back w" "jw_needs_sibling w \<longrightarrow> reaches_body w" "distinct xs"
  shows "released (booted (jw_needs_sibling w) xs) (snd (after_guard w xs))"
proof (cases "jw_uses_docker w")
  case False
  then show ?thesis
    using released_run_body [OF assms(2,4), of False] by (simp add: after_guard_def)
next
  case True
  have fresh: "Sidecar \<notin> booted (jw_needs_sibling w) xs" by (auto simp: booted_def base_def)
  show ?thesis
  proof (cases "jw_dind w = SidecarReady")
    case ready: True
    then show ?thesis
      using assms(1) True fresh released_run_body [OF assms(2,4), of True]
      by (simp add: after_guard_def dind_requests_def dind_safe_def)
  next
    case False
    then have "\<not> jw_needs_sibling w" "jw_dind w = NoSidecar \<or> jw_dind w = DindDropped False"
      using assms(1,3) True by (auto simp: dind_safe_def reaches_body_def)
    then show ?thesis
      using True released_booted [OF assms(4)]
      by (auto simp: after_guard_def dind_requests_def booted_def)
  qed
qed

lemma released_after_boot:
  assumes "guard_safe w" "dind_safe w" "\<not> jw_write_back w" "jw_needs_sibling w \<longrightarrow> reaches_body w"
    "distinct xs" "jw_boot w = Booted"
  shows "released (booted (jw_needs_sibling w) xs) (snd (after_boot w xs))"
proof (cases "reaches_body w")
  case True
  have "Guard \<notin> booted (jw_needs_sibling w) xs" by (auto simp: booted_def base_def)
  then show ?thesis
    using True assms(1) released_after_guard [OF assms(2-5)] guard_requests_neutral
    by (auto simp: after_boot_def reaches_body_def guard_safe_def released_append)
next
  case False
  then have plain: "booted (jw_needs_sibling w) xs = insert JobContainer (base xs)"
    using assms(4) by (simp add: booted_def)
  have "Guard \<notin> insert JobContainer (base xs)" by (auto simp: base_def)
  note neutral = guard_requests_neutral [OF this, of "jw_guard w"]
  have after: "released (insert JobContainer (base xs)) (snd (after_guard w xs))"
    using released_after_guard [OF assms(2-5)] by (simp add: plain)
  show ?thesis
    using assms(1) neutral after released_booted [OF assms(5)] unfolding plain
    by (auto simp: after_boot_def guard_safe_def released_append split: guard_fate.splits)
qed

lemma released_after_services:
  assumes "guard_safe w" "dind_safe w" "\<not> jw_write_back w" "jw_needs_sibling w \<longrightarrow> reaches_body w"
    "distinct xs"
  shows "released (base xs) (snd (after_services w xs))"
proof (cases "jw_image w = Ready \<and> jw_boot w \<noteq> NoContainer")
  case False
  then show ?thesis
    using released_services [OF assms(5)]
    by (auto simp: after_services_def boot_requests_def Let_def split: phase.splits)
next
  case True
  show ?thesis
  proof (cases "jw_boot w = Booted")
    case booted: True
    then show ?thesis
      using True live_boot [of xs] released_after_boot [OF assms booted]
      by (simp add: after_services_def boot_requests_def released_append)
  next
    case False
    then have "\<not> jw_needs_sibling w" using assms(4) True by (auto simp: reaches_body_def)
    moreover have "JobContainer \<notin> base xs" by (auto simp: base_def)
    ultimately show ?thesis
      using True False released_services [OF assms(5)]
      by (auto simp: after_services_def boot_requests_def create_job_container_def removable_def
          split: boot_fate.splits)
  qed
qed

lemma released_after_actions:
  assumes "graceful w"
  shows "released {Network} (snd (after_actions w))"
proof (cases "jw_services w")
  case None
  then show ?thesis using released_network by (simp add: after_actions_def)
next
  case (Some ss)
  obtain r qs where start: "start_services ss [] = (r, qs)" by (cases "start_services ss []")
  have "distinct ([] @ map fst ss)" "\<forall>s \<in> set ss. \<not> dropped_guard (snd s)"
    using assms Some by (auto simp: graceful_def)
  from start_services_live [OF start this] obtain xs where
    qs: "orderly {Network} qs" "live {Network} qs = base xs" "distinct xs"
    and r: "r = Inr xs \<or> (\<exists>c. r = Inl (xs, c))"
    by (auto simp: base_def)
  have services: "released (base xs) (snd (after_services w xs))"
    using assms qs(3) by (intro released_after_services) (auto simp: graceful_def)
  from r show ?thesis
    using Some start qs services released_services [OF qs(3)]
    by (auto simp: after_actions_def released_append)
qed

text \<open>
  C19: a job releases what it created on the paths described here: each resource is removed exactly once,
  no network while a container is attached to it and no volume while the container uses it, and
  nothing is left. The paths are: the job is cancelled before it has a network, or the network cannot be
  created; or else (\<open>graceful\<close>) the network can be inspected, the display name, the condition and the environment
  evaluate and the condition is true; the lookup of the policy image does not fail; no policy
  container is dropped by a cancellation after it was created, neither the job's nor a service's; a
  Docker-in-Docker sidecar, if the job uses Docker, is either not created or comes up with its wrapper installed; the
  container is not kept for \<open>--write-back\<close>; a job with a container action reaches its body or
  fails before its container exists; and the names of the services are distinct. On these paths the statement
  holds whatever the actions, the services, the image, the boot, the policy, the steps and a
  cancellation elsewhere do. Of the other paths nothing is claimed: several of them leave something behind.
\<close>

theorem job_releases_everything:
  assumes "jw_cancelled w \<or> \<not> jw_network_created w \<or> graceful w"
  shows "orderly {} (snd (run_instance w)) \<and> live {} (snd (run_instance w)) = {}"
proof (cases "jw_cancelled w \<or> \<not> jw_network_created w")
  case False
  with assms have g: "graceful w" by blast
  then have "released {Network} (snd (after_network w))"
    using released_network released_after_actions [OF g]
    by (auto simp: after_network_def graceful_def early_phases_pass_def split: phase.splits)
  then show ?thesis
    using g by (simp add: run_instance_def graceful_def early_phases_pass_def released_def)
qed (auto simp: run_instance_def)

definition sample_world :: job_world where
  "sample_world = \<lparr>jw_cancelled = False, jw_network_created = True, jw_network_inspected = True,
     jw_display = True, jw_activates = Some True, jw_env = True, jw_actions = Ready,
     jw_needs_sibling = True, jw_needs_node = False, jw_node_runtime = Ready,
     jw_services = Some [(lit ''db'', Healthy), (lit ''cache'', Healthy)], jw_image = Ready,
     jw_boot = Booted, jw_locked_image = True, jw_images_locked = True,
     jw_guard_image_exists = Some True, jw_guard = GuardRan True, jw_cancelled_after_guard = False,
     jw_uses_docker = True, jw_dind = SidecarReady, jw_wrapper = True, jw_body = Failed,
     jw_result = CSuccess, jw_write_back = False\<rparr>"

lemma sample_world_graceful: "graceful sample_world"
  by (simp add: graceful_def early_phases_pass_def guard_safe_def dind_safe_def reaches_body_def
      sample_world_def dropped_guard_def lit_def)

theorem job_releases_everything_witness:
  "run_instance sample_world = (Erred,
     [Create Network, Create (Service (lit ''db'')), Create Guard, Remove Guard,
      Create (Service (lit ''cache'')), Create Guard, Remove Guard, Create JobContainer,
      Create (Volume (lit ''workspace'')), Create (Volume (lit ''cmdfiles'')),
      Create Guard, Remove Guard, Create Sidecar, Remove JobContainer,
      Remove (Volume (lit ''workspace'')), Remove (Volume (lit ''cmdfiles'')), Remove Sidecar,
      Remove (Service (lit ''db'')), Remove (Service (lit ''cache'')), Remove Network]) \<and>
   live {} (snd (run_instance sample_world)) = {}"
proof
  show "live {} (snd (run_instance sample_world)) = {}"
    using job_releases_everything [of sample_world] sample_world_graceful by blast
qed code_simp

section \<open>The paths without a release\<close>

text \<open>
  A job whose condition is false is reported as skipped and leaves its network behind: the
  network is created before the condition is evaluated and never removed on that path.
\<close>

lemma skipped_job_keeps_its_network:
  assumes "\<not> jw_cancelled w" "jw_network_created w" "jw_network_inspected w" "jw_display w"
    "jw_activates w = Some False"
  shows "run_instance w = (Reported CSkipped, [Create Network]) \<and>
    live {} (snd (run_instance w)) = {Network}"
  using assms by (simp add: run_instance_def after_network_def)

text \<open>The other leaks: a failing lookup of the policy image, a sidecar that does not come up.\<close>

lemma policy_image_lookup_leaks:
  "live {} (snd (run_instance (sample_world\<lparr>jw_locked_image := False\<rparr>))) =
    {Network, Service (lit ''db''), Service (lit ''cache''), JobContainer,
     Volume (lit ''workspace''), Volume (lit ''cmdfiles'')}"
  by code_simp

lemma failed_sidecar_leaks:
  "live {} (snd (run_instance (sample_world\<lparr>jw_needs_sibling := False, jw_dind := SidecarFailed\<rparr>))) = {Sidecar}"
  "live {} (snd (run_instance (sample_world\<lparr>jw_needs_sibling := False, jw_wrapper := False\<rparr>))) = {Sidecar}"
  by code_simp+

text \<open>With \<open>--write-back\<close> the network is asked to go while the kept container is attached to it.\<close>

lemma write_back_network_refused:
  "\<not> orderly {} (snd (run_instance (sample_world\<lparr>jw_write_back := True\<rparr>)))"
  by code_simp

text \<open>
  A leaked network is found again by its name, but a leaked sidecar is not found by its label, which
  is that of the job and not of the run.
\<close>

lemma leaked_sidecar_not_reclaimed:
  "resource_belongs_to_run (network_name (job_namespace run_id key)) run_id \<and>
   \<not> reclaimable [run_id] (sidecar_label run_id key)"
  by (simp add: resource_belongs_to_run_def network_name_def job_namespace_def reclaimable_def
      sidecar_label_def strip_prefix_def Let_def lit_def)

end
