(* ===== verification/Graph.thy ===== *)
theory Graph
  imports Engine_Base "HOL-Library.While_Combinator" "HOL-Library.List_Lexorder" "HOL-Library.Option_ord"
begin

text \<open>
  The \<open>needs\<close> graph of a workflow (\<open>greenlit-engine/src/graph.rs\<close>): resolving the names in
  \<open>needs:\<close>, the iterative search for strongly connected components, the search for one loop
  to display per component, the heap-driven topological order and the waves. Stacks are lists
  with their top first; a loop that would not end has the result \<open>None\<close>.
\<close>

section \<open>Jobs and errors\<close>

text \<open>The part of a job the graph reads.\<close>

record job =
  job_id :: "ustr spanned"
  needs :: "ustr spanned list"

record dependency_cycle =
  cycle_span :: span
  members :: "ustr list"

datatype graph_error =
    UnknownNeed span ustr ustr
  | Cycles "dependency_cycle list"

record job_graph =
  ids :: "ustr list"
  by_id :: "(ustr, nat) index_map"
  topo_order :: "nat list"
  wave :: "nat list"

definition idx_of :: "job_graph \<Rightarrow> ustr \<Rightarrow> nat option" where
  "idx_of g i = im_get (by_id g) i"

section \<open>Strongly connected components\<close>

record tarjan =
  visited :: "bool list"
  index :: "nat list"
  lowlink :: "nat list"
  on_stack :: "bool list"
  tarjan_stack :: "nat list"
  next_index :: nat
  sccs :: "nat list list"

type_synonym call_frame = "nat \<times> nat"

definition enter :: "nat \<Rightarrow> tarjan \<Rightarrow> tarjan" where
  "enter w t = t\<lparr>visited := (visited t)[w := True], index := (index t)[w := next_index t],
     lowlink := (lowlink t)[w := next_index t], next_index := next_index t + 1,
     tarjan_stack := w # tarjan_stack t, on_stack := (on_stack t)[w := True]\<rparr>"

definition lower :: "nat \<Rightarrow> nat \<Rightarrow> tarjan \<Rightarrow> tarjan" where
  "lower v l t = t\<lparr>lowlink := (lowlink t)[v := min (lowlink t ! v) l]\<rparr>"

primrec pop_until :: "nat \<Rightarrow> nat list \<Rightarrow> nat list \<times> nat list" where
  "pop_until v [] = ([], [])"
| "pop_until v (w # ws) = (if w = v then ([w], ws) else (let (scc, rest) = pop_until v ws in (w # scc, rest)))"

definition pop_component :: "nat \<Rightarrow> tarjan \<Rightarrow> tarjan" where
  "pop_component v t = (let (scc, rest) = pop_until v (tarjan_stack t) in
     t\<lparr>tarjan_stack := rest, on_stack := fold (\<lambda>w os. os[w := False]) scc (on_stack t),
       sccs := sccs t @ [scc]\<rparr>)"

definition tarjan_step :: "nat list list \<Rightarrow> tarjan \<times> call_frame list \<Rightarrow> tarjan \<times> call_frame list" where
  "tarjan_step deps st = (case snd st of
     [] \<Rightarrow> st
   | (v, c) # rest \<Rightarrow>
      (let t = fst st in
       if c < length (deps ! v) then
         (let w = deps ! v ! c; frames = (v, c + 1) # rest in
          if \<not> visited t ! w then (enter w t, (w, 0) # frames)
          else if on_stack t ! w then (lower v (index t ! w) t, frames)
          else (t, frames))
       else
         (let t = (case rest of [] \<Rightarrow> t | (parent, _) # _ \<Rightarrow> lower parent (lowlink t ! v) t)
          in (if lowlink t ! v = index t ! v then pop_component v t else t, rest))))"

definition tarjan_from :: "nat list list \<Rightarrow> nat \<Rightarrow> tarjan \<Rightarrow> tarjan option" where
  "tarjan_from deps start t = (if visited t ! start then Some t
     else map_option fst
       (while_option (\<lambda>st. snd st \<noteq> []) (tarjan_step deps) (enter start t, [(start, 0)])))"

primrec tarjan_starts :: "nat list list \<Rightarrow> nat list \<Rightarrow> tarjan \<Rightarrow> tarjan option" where
  "tarjan_starts deps [] t = Some t"
| "tarjan_starts deps (s # ss) t = Option.bind (tarjan_from deps s t) (tarjan_starts deps ss)"

definition tarjan_sccs :: "nat list list \<Rightarrow> nat list list option" where
  "tarjan_sccs deps = (let n = length deps in
     map_option sccs (tarjan_starts deps [0..<n]
       \<lparr>visited = replicate n False, index = replicate n 0, lowlink = replicate n 0,
        on_stack = replicate n False, tarjan_stack = [], next_index = 0, sccs = []\<rparr>))"

section \<open>One loop per component\<close>

record search =
  path :: "nat list"
  cursors :: "nat list"
  found :: "nat list option"

definition scc_neighbors :: "ustr list \<Rightarrow> nat list list \<Rightarrow> nat list \<Rightarrow> nat \<Rightarrow> nat list" where
  "scc_neighbors names deps scc v =
     sort_key (\<lambda>j. names ! j) (filter (\<lambda>d. d \<in> set scc) (deps ! v))"

definition search_step :: "(nat \<Rightarrow> nat list) \<Rightarrow> nat \<Rightarrow> search \<Rightarrow> search" where
  "search_step neighbors start s = (case (path s, cursors s) of
     (current # path', cursor # cursors') \<Rightarrow>
       (if length (neighbors current) \<le> cursor then s\<lparr>path := path', cursors := cursors'\<rparr>
        else let w = neighbors current ! cursor; cs = (cursor + 1) # cursors' in
          if w = start then s\<lparr>found := Some (rev (path s))\<rparr>
          else if w \<in> set (path s) then s\<lparr>cursors := cs\<rparr>
          else s\<lparr>path := w # path s, cursors := 0 # cs\<rparr>)
   | _ \<Rightarrow> s\<lparr>path := []\<rparr>)"

definition find_loop :: "(nat \<Rightarrow> nat list) \<Rightarrow> nat \<Rightarrow> nat list option option" where
  "find_loop neighbors start = map_option found
     (while_option (\<lambda>s. path s \<noteq> [] \<and> found s = None) (search_step neighbors start)
       \<lparr>path = [start], cursors = [0], found = None\<rparr>)"

definition build_cycle_display :: "ustr list \<Rightarrow> span list \<Rightarrow> nat list list \<Rightarrow> nat list \<Rightarrow>
    dependency_cycle option option" where
  "build_cycle_display names spans deps scc =
    (if scc = [] then Some None
     else let start = arg_min_list (\<lambda>j. names ! j) scc in
       map_option (map_option (\<lambda>p. \<lparr>cycle_span = spans ! start, members = map (\<lambda>j. names ! j) p\<rparr>))
         (find_loop (scc_neighbors names deps scc) start))"

definition is_cycle :: "nat list list \<Rightarrow> nat list \<Rightarrow> bool" where
  "is_cycle deps scc \<longleftrightarrow> 2 \<le> length scc \<or> (length scc = 1 \<and> hd scc \<in> set (deps ! hd scc))"

primrec display_cycles :: "ustr list \<Rightarrow> span list \<Rightarrow> nat list list \<Rightarrow> nat list list \<Rightarrow>
    dependency_cycle list option" where
  "display_cycles names spans deps [] = Some []"
| "display_cycles names spans deps (scc # rest) =
    (if \<not> is_cycle deps scc then display_cycles names spans deps rest
     else Option.bind (build_cycle_display names spans deps scc) (\<lambda>cycle.
       map_option (\<lambda>cs. case cycle of None \<Rightarrow> cs | Some c \<Rightarrow> c # cs) (display_cycles names spans deps rest)))"

definition first_member :: "dependency_cycle \<Rightarrow> ustr option" where
  "first_member c = (case members c of [] \<Rightarrow> None | m # _ \<Rightarrow> Some m)"

definition find_cycles :: "ustr list \<Rightarrow> span list \<Rightarrow> nat list list \<Rightarrow> dependency_cycle list option" where
  "find_cycles names spans deps =
    Option.bind (tarjan_sccs deps) (\<lambda>components.
      map_option (sort_key first_member) (display_cycles names spans deps components))"

section \<open>The topological order and the waves\<close>

record kahn =
  indegree :: "nat list"
  heap :: "nat list"
  order :: "nat list"

definition release :: "nat \<Rightarrow> kahn \<Rightarrow> kahn" where
  "release d k = (let k = k\<lparr>indegree := (indegree k)[d := indegree k ! d - 1]\<rparr> in
     if indegree k ! d = 0 then k\<lparr>heap := insort d (heap k)\<rparr> else k)"

definition kahn_step :: "nat list list \<Rightarrow> kahn \<Rightarrow> kahn" where
  "kahn_step dependents k = (case heap k of
     [] \<Rightarrow> k
   | i # h \<Rightarrow> fold release (dependents ! i) (k\<lparr>heap := h, order := order k @ [i]\<rparr>))"

definition kahn_topo_order :: "nat list list \<Rightarrow> nat list list \<Rightarrow> nat list option" where
  "kahn_topo_order deps dependents =
    (let degrees = map length deps in
     map_option order (while_option (\<lambda>k. heap k \<noteq> []) (kahn_step dependents)
       \<lparr>indegree = degrees, heap = filter (\<lambda>i. degrees ! i = 0) [0..<length deps], order = []\<rparr>))"

definition compute_waves :: "nat list \<Rightarrow> nat list list \<Rightarrow> nat list" where
  "compute_waves topo deps =
     fold (\<lambda>i w. w[i := max_list0 (map (\<lambda>d. w ! d + 1) (deps ! i))]) topo (replicate (length deps) 0)"

section \<open>The graph of a workflow\<close>

primrec job_deps :: "(ustr, nat) index_map \<Rightarrow> ustr \<Rightarrow> ustr spanned list \<Rightarrow> nat list \<Rightarrow> graph_error + nat list" where
  "job_deps table job [] seen = Inr seen"
| "job_deps table job (need # rest) seen = (case im_get table (node need) of
     None \<Rightarrow> Inl (UnknownNeed (node_span need) job (node need))
   | Some idx \<Rightarrow> job_deps table job rest (if idx \<in> set seen then seen else seen @ [idx]))"

definition add_dependents :: "nat \<times> nat list \<Rightarrow> nat list list \<Rightarrow> nat list list" where
  "add_dependents jd dependents =
     fold (\<lambda>d ds. ds[d := ds ! d @ [fst jd]]) (snd jd) dependents"

definition dependents_of :: "nat list list \<Rightarrow> nat list list" where
  "dependents_of deps = fold add_dependents (enumerate 0 deps) (replicate (length deps) [])"

definition job_table :: "ustr list \<Rightarrow> (ustr, nat) index_map" where
  "job_table names = fold (\<lambda>(i, name). im_insert name i) (enumerate 0 names) []"

definition build_graph :: "job list \<Rightarrow> (graph_error + job_graph) option" where
  "build_graph jobs =
    (let names = map (node \<circ> job_id) jobs; spans = map (node_span \<circ> job_id) jobs;
         table = job_table names
     in case rmap (\<lambda>j. job_deps table (node (job_id j)) (needs j) []) jobs of
       Inl e \<Rightarrow> Some (Inl e)
     | Inr deps \<Rightarrow> Option.bind (find_cycles names spans deps) (\<lambda>cycles.
         if cycles \<noteq> [] then Some (Inl (Cycles cycles))
         else map_option (\<lambda>topo. Inr \<lparr>ids = names, by_id = table, topo_order = topo,
             wave = compute_waves topo deps\<rparr>) (kahn_topo_order deps (dependents_of deps))))"

end
