(* ===== verification/Graph_Search.thy ===== *)
theory Graph_Search
  imports Graph
begin

text \<open>
  The search for one loop per component (\<open>build_cycle_display\<close>): it always ends, what it
  returns is a simple loop through the start, and it returns one whenever the component has
  one. The search enumerates the simple paths from the start in order; completeness follows
  one given loop and shows that the search is never past it.
\<close>

section \<open>Simple loops\<close>

text \<open>\<open>steps N p\<close>: every job of the path is a neighbour of the one before it.\<close>

definition steps :: "(nat \<Rightarrow> nat list) \<Rightarrow> nat list \<Rightarrow> bool" where
  "steps N p = successively (\<lambda>v w. w \<in> set (N v)) p"

definition simple_loop :: "(nat \<Rightarrow> nat list) \<Rightarrow> nat \<Rightarrow> nat list \<Rightarrow> bool" where
  "simple_loop N start p \<longleftrightarrow> p \<noteq> [] \<and> hd p = start \<and> distinct p \<and> steps N p \<and> start \<in> set (N (last p))"

lemma steps_snoc:
  "steps N (p @ [x]) \<longleftrightarrow> steps N p \<and> (p = [] \<or> x \<in> set (N (last p)))"
  by (auto simp: steps_def successively_append_iff)

section \<open>The search ends\<close>

text \<open>
  The cursors, read as the digits of a number in a base larger than every neighbour list, only
  ever grow; what is left to enumerate is the difference to the largest such number.
\<close>

fun digits_left :: "nat \<Rightarrow> nat list \<Rightarrow> nat \<Rightarrow> nat" where
  "digits_left b [] k = 0"
| "digits_left b (c # cs) k = (b - c) * Suc b ^ (k - 1) + digits_left b cs (k - 1)"

lemma digits_left_append:
  "digits_left b (xs @ ys) k = digits_left b xs k + digits_left b ys (k - length xs)"
  by (induction xs arbitrary: k) auto

lemma digits_left_pop: "c < b \<Longrightarrow> digits_left b xs k < digits_left b (xs @ [c]) k"
  by (simp add: digits_left_append)

lemma digits_left_advance:
  "c < b \<Longrightarrow> digits_left b (xs @ [Suc c]) k < digits_left b (xs @ [c]) k"
  by (simp add: digits_left_append)

lemma digits_left_push:
  assumes "c < b" "length xs + 2 \<le> k"
  shows "digits_left b (xs @ [Suc c, 0]) k < digits_left b (xs @ [c]) k"
proof -
  define e where "e = k - length xs - 2"
  have k: "k - length xs = Suc (Suc e)" using assms(2) by (simp add: e_def)
  have "(b - Suc c) * Suc b ^ Suc e + b * Suc b ^ e < (b - Suc c) * Suc b ^ Suc e + Suc b ^ Suc e"
    by simp
  also have "\<dots> = (b - c) * Suc b ^ Suc e"
    using assms(1) by (metis Suc_diff_Suc add.commute mult_Suc)
  finally show ?thesis by (simp add: digits_left_append k)
qed

definition search_ok :: "(nat \<Rightarrow> nat list) \<Rightarrow> nat set \<Rightarrow> nat \<Rightarrow> nat \<Rightarrow> search \<Rightarrow> bool" where
  "search_ok N M b start s \<longleftrightarrow> length (cursors s) = length (path s) \<and> distinct (path s) \<and>
     set (path s) \<subseteq> M \<and> (path s \<noteq> [] \<longrightarrow> hd (rev (path s)) = start) \<and> steps N (rev (path s)) \<and>
     (\<forall>c \<in> set (cursors s). c < b) \<and>
     (case found s of None \<Rightarrow> True | Some p \<Rightarrow> simple_loop N start p)"

definition search_left :: "nat \<Rightarrow> nat \<Rightarrow> search \<Rightarrow> nat" where
  "search_left b k s = (if found s = None then digits_left b (rev (cursors s)) k + 1 else 0)"

lemma search_step_ok:
  assumes ok: "search_ok N M b start s" and run: "path s \<noteq> []" "found s = None"
    and M: "finite M" "\<forall>v \<in> M. set (N v) \<subseteq> M \<and> length (N v) < b"
  shows "search_ok N M b start (search_step N start s) \<and>
    search_left b (card M) (search_step N start s) < search_left b (card M) s"
proof -
  obtain x xs c cs where s: "path s = x # xs" "cursors s = c # cs"
    using ok run(1) unfolding search_ok_def by (cases "path s"; cases "cursors s") auto
  have x: "x \<in> M" "length (N x) < b" "set (N x) \<subseteq> M" using ok M(2) by (auto simp: search_ok_def s)
  have cb: "c < b" using ok by (simp add: search_ok_def s)
  let ?w = "N x ! c"
  consider (pop) "length (N x) \<le> c" | (found) "c < length (N x)" "?w = start"
    | (advance) "c < length (N x)" "?w \<noteq> start" "?w \<in> set (path s)"
    | (push) "c < length (N x)" "?w \<noteq> start" "?w \<notin> set (path s)"
    by linarith
  then show ?thesis
  proof cases
    case pop
    then have "search_step N start s = s\<lparr>path := xs, cursors := cs\<rparr>"
      by (simp add: search_step_def s)
    moreover have "steps N (rev xs)" "xs \<noteq> [] \<longrightarrow> hd (rev xs) = start"
      using ok by (auto simp: search_ok_def s steps_snoc)
    ultimately show ?thesis
      using ok digits_left_pop [OF cb] run(2) by (simp add: search_ok_def s search_left_def)
  next
    case found
    then have step: "search_step N start s = s\<lparr>found := Some (rev (path s))\<rparr>"
      by (simp add: search_step_def s Let_def)
    have "?w \<in> set (N x)" using found(1) by simp
    then have "simple_loop N start (rev (path s))"
      using ok found(2) by (auto simp: search_ok_def simple_loop_def s)
    then show ?thesis
      using ok step run(2) by (simp add: search_ok_def search_left_def)
  next
    case advance
    then have "search_step N start s = s\<lparr>cursors := Suc c # cs\<rparr>"
      by (simp add: search_step_def s Let_def)
    then show ?thesis
      using ok digits_left_advance [OF cb] advance(1) x(2) run(2) by (simp add: search_ok_def s search_left_def)
  next
    case push
    then have step: "search_step N start s = s\<lparr>path := ?w # path s, cursors := 0 # Suc c # cs\<rparr>"
      by (simp add: search_step_def s Let_def)
    have w: "?w \<in> set (N x)" "?w \<in> M" using push(1) x(3) by (auto simp: subset_eq)
    have "length (?w # path s) \<le> card M"
      using ok w push(3) M(1) card_mono [of M "set (?w # path s)"] distinct_card [of "?w # path s"]
      by (simp add: search_ok_def)
    then have "length (rev cs) + 2 \<le> card M"
      using ok by (simp add: search_ok_def s)
    then have "digits_left b (rev cs @ [Suc c, 0]) (card M) < digits_left b (rev cs @ [c]) (card M)"
      using digits_left_push [OF cb] by blast
    moreover have "steps N (rev (?w # path s))"
      using ok w(1) steps_snoc [of N "rev (path s)" ?w] by (simp add: search_ok_def s)
    ultimately show ?thesis
      using ok step w push x(2) run(2) by (auto simp: search_ok_def s search_left_def hd_append)
  qed
qed

section \<open>The search finds a loop\<close>

text \<open>
  \<open>not_past N start q s\<close>: the current path agrees with the loop \<open>q\<close> on some prefix, and the
  cursor at its last job has not passed the job that follows in \<open>q\<close>.
\<close>

definition follower :: "nat \<Rightarrow> nat list \<Rightarrow> nat \<Rightarrow> nat" where
  "follower start q m = (if m < length q then q ! m else start)"

definition not_past :: "(nat \<Rightarrow> nat list) \<Rightarrow> nat \<Rightarrow> nat list \<Rightarrow> nat list \<Rightarrow> nat list \<Rightarrow> bool" where
  "not_past N start q p cs \<longleftrightarrow> (\<exists>m j. 1 \<le> m \<and> m \<le> length p \<and> m \<le> length q \<and> take m p = take m q \<and>
     j < length (N (q ! (m - 1))) \<and> N (q ! (m - 1)) ! j = follower start q m \<and> cs ! (m - 1) \<le> j)"

lemma follower_position:
  assumes "simple_loop N start q" "1 \<le> m" "m \<le> length q"
  obtains j where "j < length (N (q ! (m - 1)))" "N (q ! (m - 1)) ! j = follower start q m"
proof -
  have "follower start q m \<in> set (N (q ! (m - 1)))"
  proof (cases "m < length q")
    case True
    then show ?thesis
      using assms successively_nth [of "\<lambda>v w. w \<in> set (N v)" q "m - 1"]
      by (simp add: follower_def simple_loop_def steps_def)
  next
    case False
    then have "m = length q" using assms(3) by simp
    then show ?thesis
      using assms last_conv_nth [of q] by (simp add: follower_def simple_loop_def)
  qed
  then show ?thesis using that by (metis in_set_conv_nth)
qed

lemma not_past_step:
  assumes ok: "search_ok N M b start s" and run: "path s \<noteq> []" "found s = None"
    and q: "simple_loop N start q" and past: "not_past N start q (rev (path s)) (rev (cursors s))"
  shows "found (search_step N start s) \<noteq> None \<or>
    not_past N start q (rev (path (search_step N start s))) (rev (cursors (search_step N start s)))"
proof -
  obtain x xs c cs where s: "path s = x # xs" "cursors s = c # cs"
    using ok run(1) unfolding search_ok_def by (cases "path s"; cases "cursors s") auto
  have len: "length cs = length xs" using ok by (simp add: search_ok_def s)
  obtain m j where m: "1 \<le> m" "m \<le> Suc (length xs)" "m \<le> length q" "take m (rev xs @ [x]) = take m q"
    and j: "j < length (N (q ! (m - 1)))" "N (q ! (m - 1)) ! j = follower start q m" "(rev cs @ [c]) ! (m - 1) \<le> j"
    using past unfolding not_past_def s by auto
  let ?w = "N x ! c"
  show ?thesis
  proof (cases "m = Suc (length xs)")
    case False
    then have "m \<le> length xs" using m(2) by simp
    then have keep: "not_past N start q (rev xs @ ys) (rev cs @ ds)" for ys ds
      using m j len unfolding not_past_def
      by (intro exI [of _ m] exI [of _ j]) (auto simp: nth_append)
    have "not_past N start q (rev xs) (rev cs)" "not_past N start q (rev xs @ [x]) (rev cs @ [Suc c])"
        "not_past N start q (rev xs @ [x, ?w]) (rev cs @ [Suc c, 0])"
      using keep [of "[]" "[]"] keep by simp_all
    then show ?thesis by (simp add: search_step_def s Let_def)
  next
    case True
    have p: "rev xs @ [x] = take m q" using m(4) True by simp
    then have "(rev xs @ [x]) ! (m - 1) = take m q ! (m - 1)" by simp
    then have x: "q ! (m - 1) = x" using True m(1,3) by (simp add: nth_append)
    have cj: "c \<le> j" using j(3) True len by (simp add: nth_append)
    have c: "c < length (N x)" using cj j(1) x by simp
    show ?thesis
    proof (cases "?w = start")
      case False
      show ?thesis
      proof (cases "c = j")
        case c_j: True
        then have "?w = follower start q m" using j(2) x by simp
        then have mq: "m < length q" "?w = q ! m" using False by (auto simp: follower_def split: if_splits)
        have "distinct q" using q by (simp add: simple_loop_def)
        then have "q ! m \<notin> set (take m q)" using mq(1) by (auto simp: in_set_conv_nth nth_eq_iff_index_eq)
        then have fresh: "?w \<notin> set (path s)" using p mq(2) by (metis s(1) rev.simps(2) set_rev)
        obtain j' where j': "j' < length (N (q ! m))" "N (q ! m) ! j' = follower start q (Suc m)"
          using follower_position [OF q, of "Suc m"] mq(1) by auto
        have "take (Suc m) (rev xs @ [x, ?w]) = take (Suc m) q"
          using p mq True by (simp add: take_Suc_conv_app_nth)
        then have "not_past N start q (rev xs @ [x, ?w]) (rev cs @ [Suc c, 0])"
          using j' mq(1) True len unfolding not_past_def
          by (intro exI [of _ "Suc m"] exI [of _ j']) (auto simp: nth_append)
        then show ?thesis using c False fresh by (simp add: search_step_def s Let_def)
      next
        case c_j: False
        then have "Suc c \<le> j" using cj by simp
        then have keep: "not_past N start q (rev xs @ x # ys) (rev cs @ Suc c # ds)" for ys ds
          using m j True len p unfolding not_past_def
          by (intro exI [of _ m] exI [of _ j]) (auto simp: nth_append)
        then show ?thesis
          using c False keep [of "[]" "[]"] keep [of "[?w]" "[0]"] by (simp add: search_step_def s Let_def)
      qed
    qed (use c in \<open>simp add: search_step_def s Let_def\<close>)
  qed
qed

lemma find_loop_result:
  assumes M: "finite M" "\<forall>v \<in> M. set (N v) \<subseteq> M" "start \<in> M"
  obtains r where "find_loop N start = Some r" "\<And>p. r = Some p \<Longrightarrow> simple_loop N start p"
    "(\<exists>q. simple_loop N start q) \<Longrightarrow> r \<noteq> None"
proof -
  define b where "b = Suc (Max (length ` N ` M))"
  have b: "\<forall>v \<in> M. set (N v) \<subseteq> M \<and> length (N v) < b"
    using M by (auto simp: b_def less_Suc_eq_le)
  let ?run = "\<lambda>s :: search. path s \<noteq> [] \<and> found s = None"
  let ?init = "\<lparr>path = [start], cursors = [0], found = None\<rparr>"
  have init: "search_ok N M b start ?init"
    using M(3) by (simp add: search_ok_def steps_def b_def)
  have step: "search_ok N M b start (search_step N start s) \<and>
      search_left b (card M) (search_step N start s) < search_left b (card M) s"
    if "search_ok N M b start s" "?run s" for s
    using search_step_ok [OF that(1) _ _ M(1) b] that(2) by simp
  obtain s where s: "while_option ?run (search_step N start) ?init = Some s"
    using measure_while_option_Some [of "search_ok N M b start" ?run "search_step N start" "search_left b (card M)",
        OF step init] by blast
  have ok: "search_ok N M b start s"
    using while_option_rule [of "search_ok N M b start" ?run "search_step N start", OF _ s init] step by blast
  have stop: "path s = [] \<or> found s \<noteq> None" using while_option_stop [OF s] by simp
  have "found s \<noteq> None" if q: "simple_loop N start q" for q
  proof -
    let ?P = "\<lambda>s. search_ok N M b start s \<and>
      (found s \<noteq> None \<or> not_past N start q (rev (path s)) (rev (cursors s)))"
    have "1 \<le> length q" "q ! 0 = start" "take 1 q = [start]"
      using q by (cases q; auto simp: simple_loop_def)+
    then have "not_past N start q [start] [0]"
      using follower_position [OF q, of 1] unfolding not_past_def
      by (metis One_nat_def diff_self_eq_0 le0 length_Cons list.size(3) nth_Cons_0 order_refl take_Suc_Cons take0)
    then have "?P ?init" using init by simp
    then have "?P s"
      using while_option_rule [of ?P ?run "search_step N start", OF _ s] step not_past_step [OF _ _ _ q] by blast
    then show ?thesis using stop by (auto simp: not_past_def)
  qed
  moreover have "simple_loop N start p" if "found s = Some p" for p
    using ok that by (simp add: search_ok_def)
  ultimately show ?thesis using that [of "found s"] s by (auto simp: find_loop_def)
qed

end
