(* ===== verification/Graph_Tarjan.thy ===== *)
theory Graph_Tarjan
  imports Graph
begin

text \<open>
  The component search of \<open>graph.rs\<close> is correct: its loop ends, and the components it
  returns partition the jobs, are strongly connected, and are listed so that every dependency
  leads into the same or an earlier component. The invariant splits the component stack into
  one segment per call frame: the frame's job and the finished jobs above it.
\<close>

section \<open>Reachability inside a set\<close>

definition edges :: "nat list list \<Rightarrow> (nat \<times> nat) set" where
  "edges deps = {(v, w). v < length deps \<and> w \<in> set (deps ! v)}"

definition valid_deps :: "nat list list \<Rightarrow> bool" where
  "valid_deps deps \<longleftrightarrow> (\<forall>v < length deps. \<forall>w \<in> set (deps ! v). w < length deps)"

definition walks :: "nat list list \<Rightarrow> nat set \<Rightarrow> (nat \<times> nat) set" where
  "walks deps A = (edges deps \<inter> A \<times> A)\<^sup>*"

lemma walks_refl [simp]: "(u, u) \<in> walks deps A"
  by (simp add: walks_def)

lemma walks_trans: "(u, v) \<in> walks deps A \<Longrightarrow> (v, w) \<in> walks deps A \<Longrightarrow> (u, w) \<in> walks deps A"
  unfolding walks_def by (rule rtrancl_trans)

lemma walks_edge: "(u, v) \<in> edges deps \<Longrightarrow> u \<in> A \<Longrightarrow> v \<in> A \<Longrightarrow> (u, v) \<in> walks deps A"
  unfolding walks_def by blast

lemma walks_mono: "(u, v) \<in> walks deps A \<Longrightarrow> A \<subseteq> B \<Longrightarrow> (u, v) \<in> walks deps B"
  unfolding walks_def by (rule rtrancl_mono [THEN subsetD]) auto

section \<open>The invariant\<close>

definition finished :: "tarjan \<Rightarrow> nat set" where
  "finished t = \<Union> (set ` set (sccs t))"

text \<open>
  \<open>links_back\<close>: a job's low link is the number of a job on the stack it can walk to without
  leaving the part of the stack from there upwards. \<open>seen\<close>: a followed dependency leads to a
  finished component or to a stacked job whose number is at least the frame's low link.
\<close>

definition links_back :: "nat list list \<Rightarrow> tarjan \<Rightarrow> nat set \<Rightarrow> nat \<Rightarrow> bool" where
  "links_back deps t A u \<longleftrightarrow> lowlink t ! u \<le> index t ! u \<and>
     (\<exists>x \<in> A. index t ! x = lowlink t ! u \<and> (u, x) \<in> walks deps {y \<in> A. lowlink t ! u \<le> index t ! y})"

definition seen :: "tarjan \<Rightarrow> nat \<Rightarrow> nat \<Rightarrow> bool" where
  "seen t v w \<longleftrightarrow> w \<in> finished t \<or> (w \<in> set (tarjan_stack t) \<and> lowlink t ! v \<le> index t ! w)"

definition segment_ok :: "nat list list \<Rightarrow> tarjan \<Rightarrow> nat \<Rightarrow> nat \<Rightarrow> nat list \<Rightarrow> nat list \<Rightarrow> bool" where
  "segment_ok deps t v c seg below \<longleftrightarrow> c \<le> length (deps ! v) \<and>
     (\<forall>u \<in> set seg. (v, u) \<in> walks deps (set (v # seg))) \<and>
     (\<forall>u \<in> set seg. lowlink t ! u < index t ! u \<and> lowlink t ! v \<le> lowlink t ! u) \<and>
     (\<forall>u \<in> set (v # seg). links_back deps t (set (seg @ v # below)) u) \<and>
     (\<forall>w \<in> set (take c (deps ! v)). seen t v w) \<and>
     (\<forall>u \<in> set seg. \<forall>w \<in> set (deps ! u). seen t v w)"

lemma segment_okI:
  assumes "c \<le> length (deps ! v)" "\<And>u. u \<in> set seg \<Longrightarrow> (v, u) \<in> walks deps (set (v # seg))"
    and "\<And>u. u \<in> set seg \<Longrightarrow> lowlink t ! u < index t ! u" "\<And>u. u \<in> set seg \<Longrightarrow> lowlink t ! v \<le> lowlink t ! u"
    and "\<And>u. u \<in> set (v # seg) \<Longrightarrow> links_back deps t (set (seg @ v # below)) u"
    and "\<And>w. w \<in> set (take c (deps ! v)) \<Longrightarrow> seen t v w"
    and "\<And>u w. u \<in> set seg \<Longrightarrow> w \<in> set (deps ! u) \<Longrightarrow> seen t v w"
  shows "segment_ok deps t v c seg below"
  using assms unfolding segment_ok_def by blast

lemma segment_okD:
  assumes "segment_ok deps t v c seg below"
  shows "c \<le> length (deps ! v)" "u \<in> set seg \<Longrightarrow> (v, u) \<in> walks deps (set (v # seg))"
    and "u \<in> set seg \<Longrightarrow> lowlink t ! u < index t ! u" "u \<in> set seg \<Longrightarrow> lowlink t ! v \<le> lowlink t ! u"
    and "u \<in> set (v # seg) \<Longrightarrow> links_back deps t (set (seg @ v # below)) u"
    and "w \<in> set (take c (deps ! v)) \<Longrightarrow> seen t v w"
    and "u \<in> set seg \<Longrightarrow> w \<in> set (deps ! u) \<Longrightarrow> seen t v w"
    and "lowlink t ! v \<le> index t ! v"
  using assms unfolding segment_ok_def links_back_def by (blast, blast, blast, blast, blast, blast, blast, simp)

fun stack_ok :: "nat list list \<Rightarrow> tarjan \<Rightarrow> call_frame list \<Rightarrow> nat list \<Rightarrow> bool" where
  "stack_ok deps t [] stack = (stack = [])"
| "stack_ok deps t ((v, c) # frames) stack = (\<exists>seg below. stack = seg @ v # below \<and>
     segment_ok deps t v c seg below \<and>
     (case frames of [] \<Rightarrow> True | (p, _) # _ \<Rightarrow> (p, v) \<in> edges deps) \<and>
     stack_ok deps t frames below)"

text \<open>A component: closed below the components found before it, and strongly connected.\<close>

definition component_ok :: "nat list list \<Rightarrow> nat set \<Rightarrow> nat list \<Rightarrow> bool" where
  "component_ok deps earlier scc \<longleftrightarrow> scc \<noteq> [] \<and> distinct scc \<and> set scc \<inter> earlier = {} \<and>
     set scc \<subseteq> {..<length deps} \<and>
     (\<forall>a \<in> set scc. \<forall>b \<in> set scc. (a, b) \<in> walks deps (set scc)) \<and>
     (\<forall>u \<in> set scc. set (deps ! u) \<subseteq> set scc \<union> earlier)"

fun components_ok :: "nat list list \<Rightarrow> nat set \<Rightarrow> nat list list \<Rightarrow> bool" where
  "components_ok deps earlier [] = True"
| "components_ok deps earlier (scc # rest) =
     (component_ok deps earlier scc \<and> components_ok deps (earlier \<union> set scc) rest)"

lemma components_ok_snoc:
  "components_ok deps earlier (cs @ [c]) \<longleftrightarrow>
     components_ok deps earlier cs \<and> component_ok deps (earlier \<union> \<Union> (set ` set cs)) c"
  by (induction cs arbitrary: earlier) (auto simp: Un_assoc)

definition tarjan_ok :: "nat list list \<Rightarrow> tarjan \<Rightarrow> bool" where
  "tarjan_ok deps t \<longleftrightarrow>
     length (visited t) = length deps \<and> length (index t) = length deps \<and>
     length (lowlink t) = length deps \<and> length (on_stack t) = length deps \<and>
     set (tarjan_stack t) \<subseteq> {..<length deps} \<and>
     set (tarjan_stack t) \<inter> finished t = {} \<and>
     (\<forall>u < length deps. on_stack t ! u \<longleftrightarrow> u \<in> set (tarjan_stack t)) \<and>
     (\<forall>u < length deps. visited t ! u \<longleftrightarrow> u \<in> set (tarjan_stack t) \<union> finished t) \<and>
     sorted_wrt (\<lambda>a b. index t ! b < index t ! a) (tarjan_stack t) \<and>
     (\<forall>u \<in> set (tarjan_stack t). index t ! u < next_index t) \<and>
     components_ok deps {} (sccs t)"

definition tarjan_inv :: "nat list list \<Rightarrow> tarjan \<times> call_frame list \<Rightarrow> bool" where
  "tarjan_inv deps st \<longleftrightarrow> tarjan_ok deps (fst st) \<and> stack_ok deps (fst st) (snd st) (tarjan_stack (fst st))"

section \<open>Frame rules\<close>

text \<open>What a state change must leave alone for a part of the stack to stay well formed.\<close>

definition keeps :: "nat set \<Rightarrow> tarjan \<Rightarrow> tarjan \<Rightarrow> bool" where
  "keeps A t t' \<longleftrightarrow> (\<forall>u \<in> A. lowlink t' ! u = lowlink t ! u) \<and>
     (\<forall>u \<in> set (tarjan_stack t). index t' ! u = index t ! u) \<and>
     finished t \<subseteq> finished t' \<and> set (tarjan_stack t) \<subseteq> finished t' \<union> set (tarjan_stack t')"

lemma links_back_keeps:
  assumes "links_back deps t A u" "u \<in> A" "lowlink t' ! u = lowlink t ! u" "\<forall>u \<in> A. index t' ! u = index t ! u"
  shows "links_back deps t' A u"
proof -
  have "{y \<in> A. lowlink t' ! u \<le> index t' ! y} = {y \<in> A. lowlink t ! u \<le> index t ! y}"
    using assms(2-4) by auto
  then show ?thesis using assms unfolding links_back_def by (metis (no_types, lifting))
qed

lemma links_back_mono: "links_back deps t A u \<Longrightarrow> A \<subseteq> B \<Longrightarrow> links_back deps t B u"
  unfolding links_back_def by (blast intro: walks_mono)

lemma links_back_segment:
  assumes "segment_ok deps t p k segp below" "u \<in> set (p # segp)"
  shows "links_back deps t (set (pre @ segp @ p # below)) u"
  using segment_okD(5) [OF assms] by (rule links_back_mono) auto

lemma seen_keeps:
  assumes "seen t v w" "keeps A t t'" "lowlink t' ! v \<le> lowlink t ! v"
  shows "seen t' v w"
proof (cases "w \<in> finished t'")
  case False
  then have "w \<in> set (tarjan_stack t)" "lowlink t ! v \<le> index t ! w"
    using assms(1,2) unfolding seen_def keeps_def by auto
  then show ?thesis
    using assms(2,3) False unfolding seen_def keeps_def by fastforce
qed (simp add: seen_def)

lemma segment_ok_keeps:
  assumes seg: "segment_ok deps t v c seg below" and k: "keeps (set (v # seg)) t t'"
    and "set (seg @ v # below) \<subseteq> set (tarjan_stack t)"
  shows "segment_ok deps t' v c seg below"
proof -
  have idx: "\<forall>u \<in> set (seg @ v # below). index t' ! u = index t ! u"
    using k assms(3) unfolding keeps_def by blast
  have low: "lowlink t' ! u = lowlink t ! u" if "u \<in> set (v # seg)" for u
    using k that unfolding keeps_def by blast
  have seen: "seen t' v w" if "seen t v w" for w
    using seen_keeps [OF that k] low [of v] by simp
  show ?thesis
  proof (rule segment_okI)
    fix u assume u: "u \<in> set (v # seg)"
    show "links_back deps t' (set (seg @ v # below)) u"
      using segment_okD(5) [OF seg u] _ low [OF u] idx by (rule links_back_keeps) (use u in auto)
  next
    fix u assume u: "u \<in> set seg"
    then have "lowlink t' ! u = lowlink t ! u" "index t' ! u = index t ! u" "lowlink t' ! v = lowlink t ! v"
      using low [of u] low [of v] idx by simp_all
    then show "lowlink t' ! u < index t' ! u" "lowlink t' ! v \<le> lowlink t' ! u"
      using segment_okD(3,4) [OF seg u] by simp_all
  qed (use segment_okD [OF seg] seen in blast)+
qed

lemma stack_ok_keeps:
  "stack_ok deps t frames S \<Longrightarrow> keeps (set S) t t' \<Longrightarrow> set S \<subseteq> set (tarjan_stack t) \<Longrightarrow> stack_ok deps t' frames S"
proof (induction deps t frames S rule: stack_ok.induct)
  case (2 deps t v c frames S)
  then obtain seg below where S: "S = seg @ v # below" "segment_ok deps t v c seg below"
      "case frames of [] \<Rightarrow> True | (p, _) # _ \<Rightarrow> (p, v) \<in> edges deps" "stack_ok deps t frames below"
    by auto
  then have "keeps (set below) t t'" "set below \<subseteq> set (tarjan_stack t)" "keeps (set (v # seg)) t t'"
    using 2(3,4) by (auto simp: keeps_def)
  then have "stack_ok deps t' frames below" "segment_ok deps t' v c seg below"
    using 2(1,4) S segment_ok_keeps by blast+
  then show ?case using S unfolding stack_ok.simps by blast
qed simp

section \<open>The steps\<close>

lemma segment_ok_advance:
  "segment_ok deps t v c seg below \<Longrightarrow> c < length (deps ! v) \<Longrightarrow> seen t v (deps ! v ! c) \<Longrightarrow>
   segment_ok deps t v (Suc c) seg below"
  by (auto simp: segment_ok_def take_Suc_conv_app_nth)

lemma stack_ok_advance:
  "stack_ok deps t ((v, c) # frames) S \<Longrightarrow> c < length (deps ! v) \<Longrightarrow> seen t v (deps ! v ! c) \<Longrightarrow>
   stack_ok deps t ((v, Suc c) # frames) S"
  unfolding stack_ok.simps using segment_ok_advance by blast

lemma stack_bounds:
  assumes "tarjan_ok deps t" "tarjan_stack t = seg @ v # below"
  shows "\<forall>u \<in> set seg. index t ! v < index t ! u" "\<forall>u \<in> set below. index t ! u < index t ! v"
    "distinct (tarjan_stack t)" "v < length deps"
proof -
  have "sorted_wrt (\<lambda>a b. index t ! b < index t ! a) (tarjan_stack t)"
    using assms(1) by (simp add: tarjan_ok_def)
  then show "\<forall>u \<in> set seg. index t ! v < index t ! u" "\<forall>u \<in> set below. index t ! u < index t ! v"
    by (auto simp: assms(2) sorted_wrt_append)
  have "sorted_wrt (\<lambda>a b. index t ! b < index t ! a) xs \<Longrightarrow> distinct xs" for xs
    by (induction xs) auto
  then show "distinct (tarjan_stack t)"
    using \<open>sorted_wrt _ (tarjan_stack t)\<close> by blast
  show "v < length deps"
    using assms by (auto simp: tarjan_ok_def)
qed

subsection \<open>Entering a job\<close>

lemma finished_enter [simp]: "finished (enter w t) = finished t"
  by (simp add: finished_def enter_def)

lemma tarjan_ok_enter:
  assumes "tarjan_ok deps t" "w < length deps" "\<not> visited t ! w"
  shows "tarjan_ok deps (enter w t)"
proof -
  have w: "w \<notin> set (tarjan_stack t)" "w \<notin> finished t"
    using assms by (auto simp: tarjan_ok_def)
  then have "(index t)[w := next_index t] ! u = index t ! u" if "u \<in> set (tarjan_stack t)" for u
    using that by (metis nth_list_update_neq)
  then have "sorted_wrt (\<lambda>a b. (index t)[w := next_index t] ! b < (index t)[w := next_index t] ! a) (tarjan_stack t)"
    using assms(1) by (auto simp: tarjan_ok_def elim!: sorted_wrt_mono_rel [rotated])
  then show ?thesis
    using assms w unfolding tarjan_ok_def
    by (auto simp: enter_def finished_def nth_list_update)
qed

lemma keeps_enter:
  assumes "tarjan_ok deps t" "\<not> visited t ! w" "w < length deps" "A \<subseteq> set (tarjan_stack t)"
  shows "keeps A t (enter w t)"
proof -
  have "w \<notin> set (tarjan_stack t)"
    using assms(1-3) by (auto simp: tarjan_ok_def)
  then have "index (enter w t) ! u = index t ! u \<and> lowlink (enter w t) ! u = lowlink t ! u"
    if "u \<in> set (tarjan_stack t)" for u
    using that by (cases "u = w") (auto simp: enter_def)
  moreover have "set (tarjan_stack t) \<subseteq> set (tarjan_stack (enter w t))"
    by (auto simp: enter_def)
  ultimately show ?thesis
    using assms(4) unfolding keeps_def finished_enter by blast
qed

lemma segment_ok_new:
  "w < length (index t) \<Longrightarrow> w < length (lowlink t) \<Longrightarrow> segment_ok deps (enter w t) w 0 [] below"
  by (auto simp: segment_ok_def links_back_def enter_def)

lemma step_enter:
  assumes "tarjan_inv deps (t, (v, c) # frames)" "valid_deps deps" "c < length (deps ! v)"
    and w: "w = deps ! v ! c" "\<not> visited t ! w"
  shows "tarjan_inv deps (enter w t, (w, 0) # (v, Suc c) # frames)"
proof -
  have ok: "tarjan_ok deps t" and st: "stack_ok deps t ((v, c) # frames) (tarjan_stack t)"
    using assms(1) by (simp_all add: tarjan_inv_def)
  then obtain seg below where S: "tarjan_stack t = seg @ v # below" "segment_ok deps t v c seg below"
    unfolding stack_ok.simps by blast
  have v: "v < length deps" using stack_bounds(4) [OF ok S(1)] .
  have wn: "w < length deps"
    using assms(2,3) v w(1) by (auto simp: valid_deps_def)
  have ok': "tarjan_ok deps (enter w t)" using tarjan_ok_enter [OF ok wn w(2)] .
  have wS: "w \<notin> set (tarjan_stack t)" using ok wn w(2) by (auto simp: tarjan_ok_def)
  have kept: "keeps (set (tarjan_stack t)) t (enter w t)" using keeps_enter [OF ok w(2) wn] by blast
  have "index t ! v < next_index t" using ok S(1) by (auto simp: tarjan_ok_def)
  then have "lowlink t ! v \<le> next_index t"
    using segment_okD(8) [OF S(2)] by linarith
  then have "seen (enter w t) v (deps ! v ! c)"
    using ok wn wS S(1) by (auto simp: seen_def enter_def w(1) [symmetric] nth_list_update tarjan_ok_def)
  then have "stack_ok deps (enter w t) ((v, Suc c) # frames) (tarjan_stack t)"
    using stack_ok_keeps [OF st kept] assms(3) by (intro stack_ok_advance) simp_all
  moreover have "(v, w) \<in> edges deps"
    using v assms(3) w(1) by (auto simp: edges_def)
  moreover have "segment_ok deps (enter w t) w 0 [] (tarjan_stack t)"
    using ok wn by (intro segment_ok_new) (simp_all add: tarjan_ok_def)
  ultimately have "stack_ok deps (enter w t) ((w, 0) # (v, Suc c) # frames) (w # tarjan_stack t)"
    unfolding stack_ok.simps(2) [of _ _ w] by (metis append_Nil list.case(2) old.prod.case)
  then show ?thesis
    using ok' by (simp add: tarjan_inv_def) (simp add: enter_def)
qed

subsection \<open>Following a dependency to a visited job\<close>

lemma finished_lower [simp]: "finished (lower v l t) = finished t"
  and stack_lower [simp]: "tarjan_stack (lower v l t) = tarjan_stack t"
  and index_lower [simp]: "index (lower v l t) = index t"
  by (simp_all add: finished_def lower_def)

lemma tarjan_ok_lower: "tarjan_ok deps t \<Longrightarrow> tarjan_ok deps (lower v l t)"
  unfolding tarjan_ok_def finished_lower stack_lower index_lower by (simp add: lower_def)

lemma keeps_lower: "v \<notin> A \<Longrightarrow> keeps A t (lower v l t)"
  unfolding keeps_def finished_lower stack_lower index_lower by (auto simp: lower_def) (metis nth_list_update_neq)

lemma lowlink_lower:
  "v < length (lowlink t) \<Longrightarrow> lowlink (lower v l t) ! v = min (lowlink t ! v) l"
  "u \<noteq> v \<Longrightarrow> lowlink (lower v l t) ! u = lowlink t ! u"
  by (simp_all add: lower_def)

lemma links_back_lower:
  assumes "links_back deps t A v" "v < length (lowlink t)" "v \<in> A"
    and "x \<in> A" "(v, y) \<in> edges deps" "y \<in> A" "lowlink t ! v > index t ! x \<Longrightarrow> index t ! x \<le> index t ! y"
    and "lowlink t ! v > index t ! x \<Longrightarrow> (y, x) \<in> walks deps {z \<in> A. index t ! x \<le> index t ! z}"
  shows "links_back deps (lower v (index t ! x) t) A v"
proof (cases "lowlink t ! v \<le> index t ! x")
  case True
  then have "lowlink (lower v (index t ! x) t) ! v = lowlink t ! v"
    using assms(2) by (simp add: lowlink_lower)
  then show ?thesis using assms(1) by (simp add: links_back_def)
next
  case False
  let ?B = "{z \<in> A. index t ! x \<le> index t ! z}"
  have low: "lowlink (lower v (index t ! x) t) ! v = index t ! x"
    using assms(2) False by (simp add: lowlink_lower)
  have v: "v \<in> ?B" using False assms(1,3) by (auto simp: links_back_def)
  have "(v, y) \<in> walks deps ?B"
    using assms(5-7) False v by (intro walks_edge) auto
  then have "(v, x) \<in> walks deps ?B"
    using assms(8) False walks_trans by (meson not_le)
  then show ?thesis
    using low v assms(4) False by (auto simp: links_back_def)
qed

lemma segment_ok_lower:
  assumes "segment_ok deps t v c seg below" "v < length (lowlink t)" "v \<notin> set seg" "v \<notin> set below"
    and "links_back deps (lower v l t) (set (seg @ v # below)) v"
  shows "segment_ok deps (lower v l t) v c seg below"
proof -
  have u: "lowlink (lower v l t) ! u = lowlink t ! u" if "u \<in> set seg" for u
    using that assms(3) by (intro lowlink_lower) auto
  have le: "lowlink (lower v l t) ! v \<le> lowlink t ! v"
    using assms(2) by (simp add: lowlink_lower)
  have "seen (lower v l t) v w" if "seen t v w" for w
    using that le by (auto simp: seen_def)
  moreover have "links_back deps (lower v l t) (set (seg @ v # below)) y" if "y \<in> set seg" for y
    using assms(1) u [OF that] that unfolding segment_ok_def links_back_def index_lower by auto
  moreover have "lowlink (lower v l t) ! y < index t ! y \<and> lowlink (lower v l t) ! v \<le> lowlink (lower v l t) ! y"
    if "y \<in> set seg" for y
    using assms(1) u [OF that] that le unfolding segment_ok_def by fastforce
  ultimately show ?thesis
    using assms(1,5) unfolding segment_ok_def index_lower by auto
qed

lemma step_lower:
  assumes "tarjan_inv deps (t, (v, c) # frames)" "c < length (deps ! v)"
    and w: "w = deps ! v ! c" "w \<in> set (tarjan_stack t)"
  shows "tarjan_inv deps (lower v (index t ! w) t, (v, Suc c) # frames)"
proof -
  let ?t = "lower v (index t ! w) t"
  have ok: "tarjan_ok deps t" and st: "stack_ok deps t ((v, c) # frames) (tarjan_stack t)"
    using assms(1) by (simp_all add: tarjan_inv_def)
  then obtain seg below where S: "tarjan_stack t = seg @ v # below" "segment_ok deps t v c seg below"
      "case frames of [] \<Rightarrow> True | (p, _) # _ \<Rightarrow> (p, v) \<in> edges deps" "stack_ok deps t frames below"
    unfolding stack_ok.simps by blast
  have v: "v < length deps" "v < length (lowlink t)" "v \<notin> set seg" "v \<notin> set below"
    using stack_bounds(3,4) [OF ok S(1)] ok S(1) by (auto simp: tarjan_ok_def)
  have "(v, w) \<in> edges deps"
    using v(1) assms(2) w(1) by (auto simp: edges_def)
  then have "links_back deps ?t (set (seg @ v # below)) v"
    using S(2) v(2) w(2) by (intro links_back_lower [where y = w]) (auto simp: S(1) segment_ok_def)
  then have "segment_ok deps ?t v c seg below"
    using segment_ok_lower [OF S(2) v(2-4)] by blast
  moreover have "stack_ok deps ?t frames below"
    using stack_ok_keeps [OF S(4) keeps_lower [OF v(4)]] S(1) by auto
  ultimately have "stack_ok deps ?t ((v, c) # frames) (tarjan_stack t)"
    using S(1,3) unfolding stack_ok.simps by blast
  moreover have "seen ?t v (deps ! v ! c)"
    using w v(2) by (auto simp: seen_def lowlink_lower)
  ultimately show ?thesis
    using stack_ok_advance assms(2) tarjan_ok_lower [OF ok] by (simp add: tarjan_inv_def del: stack_ok.simps)
qed

subsection \<open>Returning from a job that is not the root of its component\<close>

text \<open>The finished job and the jobs above it join the segment of the caller.\<close>

lemma segment_ok_merge:
  assumes v: "segment_ok deps t v c seg (segp @ p # below)" "length (deps ! v) \<le> c" "lowlink t ! v < index t ! v"
    and p: "segment_ok deps t p k segp below" "p < length (lowlink t)" "p \<notin> set (seg @ v # segp)"
    and edge: "(p, v) \<in> edges deps"
    and bk: "links_back deps (lower p (lowlink t ! v) t) (set (seg @ v # segp @ p # below)) p"
  shows "segment_ok deps (lower p (lowlink t ! v) t) p k (seg @ v # segp) below"
proof -
  let ?t = "lower p (lowlink t ! v) t" and ?A = "set (p # seg @ v # segp)"
  have low: "lowlink ?t ! u = lowlink t ! u" if "u \<in> set (seg @ v # segp)" for u
    using that p(3) by (intro lowlink_lower(2)) auto
  have lowp: "lowlink ?t ! p = min (lowlink t ! p) (lowlink t ! v)"
    using p(2) by (rule lowlink_lower(1))
  have seenp: "seen ?t p w" if "seen t p w \<or> seen t v w" for w
    using that lowp by (auto simp: seen_def)
  have pv: "(p, v) \<in> walks deps ?A" using edge by (intro walks_edge) auto
  have all: "set (take c (deps ! v)) = set (deps ! v)" using v(2) by simp
  show ?thesis
  proof (rule segment_okI)
    fix u assume u: "u \<in> set (seg @ v # segp)"
    show "(p, u) \<in> walks deps (set (p # seg @ v # segp))"
    proof (cases "u \<in> set segp")
      case True
      show ?thesis using segment_okD(2) [OF p(1) True] by (rule walks_mono) auto
    next
      case False
      then consider "u = v" | "u \<in> set seg" using u by auto
      then show ?thesis
      proof cases
        case 2
        have "(v, u) \<in> walks deps ?A"
          using segment_okD(2) [OF v(1) 2] by (rule walks_mono) auto
        then show ?thesis using pv walks_trans by blast
      qed (use pv in simp)
    qed
    show "lowlink ?t ! u < index ?t ! u"
      using u v(3) segment_okD(3) [OF v(1), of u] segment_okD(3) [OF p(1), of u] low [OF u] by auto
    show "lowlink ?t ! p \<le> lowlink ?t ! u"
      using u segment_okD(4) [OF v(1), of u] segment_okD(4) [OF p(1), of u] low [OF u] lowp by auto
  next
    fix u assume "u \<in> set (p # seg @ v # segp)"
    then consider "u = p" | "u \<in> set (v # seg)" | "u \<in> set segp" by auto
    then show "links_back deps ?t (set ((seg @ v # segp) @ p # below)) u"
    proof cases
      case 2
      then show ?thesis
        using segment_okD(5) [OF v(1) 2] low [of u] by (auto simp: links_back_def)
    next
      case 3
      then have "links_back deps t (set ((seg @ v # segp) @ p # below)) u"
        using links_back_segment [OF p(1), of u "seg @ [v]"] by simp
      then show ?thesis
        using 3 low [of u] by (auto simp: links_back_def)
    qed (use bk in simp)
  next
    fix w assume "w \<in> set (take k (deps ! p))"
    then show "seen ?t p w" using segment_okD(6) [OF p(1)] seenp by blast
  next
    fix u w assume "u \<in> set (seg @ v # segp)" and w: "w \<in> set (deps ! u)"
    then consider "u = v" | "u \<in> set seg" | "u \<in> set segp" by auto
    then show "seen ?t p w"
      using w segment_okD(6) [OF v(1)] segment_okD(7) [OF v(1)] segment_okD(7) [OF p(1)] seenp
      unfolding all by cases blast+
  qed (use segment_okD(1) [OF p(1)] in simp)
qed

lemma lowest_is_root:
  assumes "tarjan_ok deps t" "tarjan_stack t = seg @ [v]" "links_back deps t (set (seg @ [v])) v"
  shows "lowlink t ! v = index t ! v"
  using assms(3) stack_bounds(1) [OF assms(1,2)] unfolding links_back_def by fastforce

lemma step_return:
  assumes "tarjan_inv deps (t, (v, c) # (p, k) # frames)" "length (deps ! v) \<le> c" "lowlink t ! v \<noteq> index t ! v"
  shows "tarjan_inv deps (lower p (lowlink t ! v) t, (p, k) # frames)"
proof -
  let ?t = "lower p (lowlink t ! v) t"
  have ok: "tarjan_ok deps t" and st: "stack_ok deps t ((v, c) # (p, k) # frames) (tarjan_stack t)"
    using assms(1) by (simp_all add: tarjan_inv_def)
  then obtain seg segp below where S: "tarjan_stack t = seg @ v # segp @ p # below"
      and v: "segment_ok deps t v c seg (segp @ p # below)" and p: "segment_ok deps t p k segp below"
      and edge: "(p, v) \<in> edges deps"
      and rest: "case frames of [] \<Rightarrow> True | (q, _) # _ \<Rightarrow> (q, p) \<in> edges deps" "stack_ok deps t frames below"
    unfolding stack_ok.simps by auto
  have S2: "tarjan_stack t = (seg @ v # segp) @ p # below" using S by simp
  have pn: "p < length (lowlink t)" "p \<notin> set (v # seg)" "p \<notin> set segp" "p \<notin> set below" "p \<noteq> v"
    using stack_bounds(3,4) [OF ok S2] ok S by (auto simp: tarjan_ok_def)
  have "links_back deps t (set (tarjan_stack t)) v"
    using segment_okD(5) [OF v, of v] by (simp add: S)
  then obtain x where x: "x \<in> set (tarjan_stack t)" "index t ! x = lowlink t ! v"
      "(v, x) \<in> walks deps {y \<in> set (tarjan_stack t). lowlink t ! v \<le> index t ! y}"
    unfolding links_back_def by blast
  have "links_back deps t (set (tarjan_stack t)) p"
    using links_back_segment [OF p, of p "seg @ [v]"] by (simp add: S)
  then have "links_back deps ?t (set (tarjan_stack t)) p"
    unfolding x(2) [symmetric] using x edge pn(1) S segment_okD(8) [OF v]
    by (intro links_back_lower [of deps t "set (tarjan_stack t)" p x v]) simp_all
  then have "segment_ok deps ?t p k (seg @ v # segp) below"
    using segment_ok_merge [OF v assms(2) _ p pn(1) _ edge] pn segment_okD(8) [OF v] assms(3) by (simp add: S)
  moreover have "stack_ok deps ?t frames below"
    using stack_ok_keeps [OF rest(2) keeps_lower [OF pn(4)]] S by auto
  ultimately have "stack_ok deps ?t ((p, k) # frames) (tarjan_stack t)"
    using rest(1) S2 unfolding stack_ok.simps by blast
  then show ?thesis
    using tarjan_ok_lower [OF ok] by (simp add: tarjan_inv_def del: stack_ok.simps)
qed

subsection \<open>Returning from the root of a component\<close>

lemma pop_until_split: "v \<notin> set seg \<Longrightarrow> pop_until v (seg @ v # below) = (seg @ [v], below)"
  by (induction seg) auto

lemma length_fold_clear: "length (fold (\<lambda>w os. os[w := False]) ws os) = length os"
  by (induction ws arbitrary: os) auto

lemma fold_clear:
  "u < length os \<Longrightarrow> fold (\<lambda>w os. os[w := False]) ws os ! u = (os ! u \<and> u \<notin> set ws)"
proof (induction ws arbitrary: os)
  case (Cons w ws)
  then show ?case by (cases "w = u") auto
qed simp

lemma root_reached:
  assumes ok: "tarjan_ok deps t" and S: "tarjan_stack t = seg @ v # below"
    and seg: "segment_ok deps t v c seg below" and root: "lowlink t ! v = index t ! v"
  shows "u \<in> set (v # seg) \<Longrightarrow> (u, v) \<in> walks deps (set (v # seg))"
proof (induction "index t ! u" arbitrary: u rule: less_induct)
  case less
  show ?case
  proof (cases "u = v")
    case False
    then have u: "u \<in> set seg" using less.prems by simp
    let ?A = "{y \<in> set (seg @ v # below). lowlink t ! u \<le> index t ! y}"
    obtain x where x: "x \<in> set (seg @ v # below)" "index t ! x = lowlink t ! u" "(u, x) \<in> walks deps ?A"
      using segment_okD(5) [OF seg less.prems] unfolding links_back_def by blast
    have "index t ! v \<le> lowlink t ! u" using segment_okD(4) [OF seg u] root by simp
    then have "?A \<subseteq> set (v # seg)" using stack_bounds(2) [OF ok S] by fastforce
    moreover have "x \<in> ?A" using x(1,2) by simp
    ultimately have "(u, x) \<in> walks deps (set (v # seg))" "x \<in> set (v # seg)"
      using walks_mono [OF x(3)] by blast+
    then show ?thesis
      using less.hyps [of x] segment_okD(3) [OF seg u] x(2) walks_trans by metis
  qed simp
qed

lemma root_component:
  assumes ok: "tarjan_ok deps t" and S: "tarjan_stack t = seg @ v # below"
    and seg: "segment_ok deps t v c seg below" and root: "lowlink t ! v = index t ! v"
    and all: "length (deps ! v) \<le> c"
  shows "component_ok deps (finished t) (seg @ [v])"
proof -
  have bounds: "\<forall>u \<in> set below. index t ! u < index t ! v" "distinct (tarjan_stack t)"
    using stack_bounds [OF ok S] by blast+
  have "(v, u) \<in> walks deps (set (v # seg))" if "u \<in> set (v # seg)" for u
    using segment_okD(2) [OF seg] that by (cases "u = v") auto
  then have "(a, b) \<in> walks deps (set (v # seg))" if "a \<in> set (v # seg)" "b \<in> set (v # seg)" for a b
    using root_reached [OF ok S seg root that(1)] that(2) walks_trans by blast
  then have strong: "\<forall>a \<in> set (seg @ [v]). \<forall>b \<in> set (seg @ [v]). (a, b) \<in> walks deps (set (seg @ [v]))"
    by auto
  have "seen t v w" if "u \<in> set (seg @ [v])" "w \<in> set (deps ! u)" for u w
    using that segment_okD(6,7) [OF seg] all by auto
  then have closed: "\<forall>u \<in> set (seg @ [v]). set (deps ! u) \<subseteq> set (seg @ [v]) \<union> finished t"
    using bounds(1) root unfolding seen_def S by fastforce
  show ?thesis
    using strong closed bounds(2) ok unfolding component_ok_def tarjan_ok_def S by auto
qed

lemma finished_pop:
  "tarjan_stack t = seg @ v # below \<Longrightarrow> v \<notin> set seg \<Longrightarrow> finished (pop_component v t) = finished t \<union> set (seg @ [v])"
  by (auto simp: finished_def pop_component_def pop_until_split)

lemma tarjan_ok_pop:
  assumes ok: "tarjan_ok deps t" and S: "tarjan_stack t = seg @ v # below"
    and comp: "component_ok deps (finished t) (seg @ [v])"
  shows "tarjan_ok deps (pop_component v t)"
proof -
  have dist: "distinct (seg @ v # below)" using stack_bounds(3) [OF ok S] S by simp
  then have fin: "finished (pop_component v t) = finished t \<union> set (seg @ [v])"
    using finished_pop [OF S] by simp
  have pop: "pop_component v t = t\<lparr>tarjan_stack := below,
      on_stack := fold (\<lambda>w os. os[w := False]) (seg @ [v]) (on_stack t), sccs := sccs t @ [seg @ [v]]\<rparr>"
    using dist by (simp add: pop_component_def S pop_until_split)
  have "components_ok deps {} (sccs t @ [seg @ [v]])"
    using ok comp by (simp add: components_ok_snoc tarjan_ok_def finished_def)
  moreover have "fold (\<lambda>w os. os[w := False]) (seg @ [v]) (on_stack t) ! u \<longleftrightarrow> u \<in> set below" if "u < length deps" for u
    using that ok dist by (subst fold_clear) (auto simp: tarjan_ok_def S)
  moreover have "visited t ! u \<longleftrightarrow> u \<in> set below \<union> (finished t \<union> set (seg @ [v]))" if "u < length deps" for u
    using that ok by (auto simp: tarjan_ok_def S)
  ultimately show ?thesis
    using ok dist unfolding tarjan_ok_def fin unfolding pop
    by (auto simp: S length_fold_clear sorted_wrt_append simp del: fold_append fold.simps)
qed

lemma keeps_pop:
  "tarjan_stack t = seg @ v # below \<Longrightarrow> v \<notin> set seg \<Longrightarrow> keeps A t (pop_component v t)"
  by (simp add: keeps_def finished_pop) (auto simp: pop_component_def pop_until_split)

lemma step_pop:
  assumes "tarjan_inv deps (t, (v, c) # frames)" "length (deps ! v) \<le> c" "lowlink t ! v = index t ! v"
  shows "tarjan_inv deps (pop_component v t, frames)"
proof -
  have ok: "tarjan_ok deps t" and st: "stack_ok deps t ((v, c) # frames) (tarjan_stack t)"
    using assms(1) by (simp_all add: tarjan_inv_def)
  then obtain seg below where S: "tarjan_stack t = seg @ v # below" "segment_ok deps t v c seg below"
      "stack_ok deps t frames below"
    unfolding stack_ok.simps by blast
  have v: "v \<notin> set seg" using stack_bounds(3) [OF ok S(1)] by (simp add: S(1))
  have "component_ok deps (finished t) (seg @ [v])"
    using root_component [OF ok S(1,2) assms(3,2)] .
  then have "tarjan_ok deps (pop_component v t)" by (rule tarjan_ok_pop [OF ok S(1)])
  moreover have "stack_ok deps (pop_component v t) frames below"
    using stack_ok_keeps [OF S(3) keeps_pop [OF S(1) v]] S(1) by auto
  moreover have "tarjan_stack (pop_component v t) = below"
    by (simp add: pop_component_def S(1) pop_until_split [OF v])
  ultimately show ?thesis by (simp add: tarjan_inv_def)
qed

lemma lower_root:
  assumes "tarjan_inv deps (t, (v, c) # (p, k) # frames)" "lowlink t ! v = index t ! v"
  shows "lower p (lowlink t ! v) t = t"
proof -
  have ok: "tarjan_ok deps t" and st: "stack_ok deps t ((v, c) # (p, k) # frames) (tarjan_stack t)"
    using assms(1) by (simp_all add: tarjan_inv_def)
  then obtain seg segp below where S: "tarjan_stack t = seg @ v # segp @ p # below"
      and p: "segment_ok deps t p k segp below"
    unfolding stack_ok.simps by auto
  have "index t ! p < index t ! v" using stack_bounds(2) [OF ok S] by simp
  then have "min (lowlink t ! p) (lowlink t ! v) = lowlink t ! p"
    using segment_okD(8) [OF p] assms(2) by simp
  then show ?thesis by (simp add: lower_def)
qed

section \<open>The loops\<close>

lemma tarjan_step_inv:
  assumes inv: "tarjan_inv deps st" and "valid_deps deps" "snd st \<noteq> []"
  shows "tarjan_inv deps (tarjan_step deps st)"
proof -
  obtain t v c frames where st: "st = (t, (v, c) # frames)"
    using assms(3) by (cases st; cases "snd st") auto
  have inv': "tarjan_inv deps (t, (v, c) # frames)" using inv st by simp
  have ok: "tarjan_ok deps t" using inv' by (simp add: tarjan_inv_def)
  obtain seg below where S: "tarjan_stack t = seg @ v # below" and seg: "segment_ok deps t v c seg below"
      and below: "stack_ok deps t frames below"
    using inv' unfolding tarjan_inv_def by auto
  have v: "v < length deps" using stack_bounds(4) [OF ok S] .
  show ?thesis
  proof (cases "c < length (deps ! v)")
    case True
    let ?w = "deps ! v ! c"
    have w: "?w < length deps" using True assms(2) v by (auto simp: valid_deps_def)
    consider "\<not> visited t ! ?w" | "visited t ! ?w" "on_stack t ! ?w" | "visited t ! ?w" "\<not> on_stack t ! ?w" by blast
    then show ?thesis
    proof cases
      case 1
      then show ?thesis
        using step_enter [OF inv' assms(2) True refl] True by (simp add: tarjan_step_def Let_def st)
    next
      case 2
      then have "?w \<in> set (tarjan_stack t)" using ok w by (simp add: tarjan_ok_def)
      then show ?thesis
        using step_lower [OF inv' True refl] 2 True by (simp add: tarjan_step_def Let_def st)
    next
      case 3
      then have "seen t v ?w" using ok w by (auto simp: tarjan_ok_def seen_def)
      then have "stack_ok deps t ((v, Suc c) # frames) (tarjan_stack t)"
        using inv' True by (intro stack_ok_advance) (simp_all add: tarjan_inv_def)
      then show ?thesis
        using 3 True ok by (simp add: tarjan_step_def Let_def st tarjan_inv_def del: stack_ok.simps)
    qed
  next
    case False
    then have over: "length (deps ! v) \<le> c" by simp
    show ?thesis
    proof (cases frames)
      case Nil
      then have "below = []" using below by simp
      then have "lowlink t ! v = index t ! v"
        using lowest_is_root [OF ok] S segment_okD(5) [OF seg, of v] by simp
      then show ?thesis
        using step_pop [OF inv' over] False Nil by (simp add: tarjan_step_def Let_def st)
    next
      case (Cons f fs)
      then obtain p k where f: "frames = (p, k) # fs" by (cases f) simp
      have pv: "p \<noteq> v"
        using below stack_bounds(3) [OF ok S] S f by auto
      show ?thesis
      proof (cases "lowlink t ! v = index t ! v")
        case True
        then show ?thesis
          using step_pop [OF inv' over True] lower_root [OF inv' [unfolded f] True] False f
          by (simp add: tarjan_step_def Let_def st)
      next
        case neq: False
        then show ?thesis
          using step_return [OF inv' [unfolded f] over neq] False f pv
          by (simp add: tarjan_step_def Let_def st lowlink_lower(2))
      qed
    qed
  qed
qed

text \<open>Every step visits a new job, advances a cursor or drops a frame.\<close>

definition work_left :: "nat list list \<Rightarrow> tarjan \<times> call_frame list \<Rightarrow> nat" where
  "work_left deps st =
     sum_list (map (\<lambda>u. if visited (fst st) ! u then 0 else length (deps ! u) + 2) [0..<length deps]) +
     sum_list (map (\<lambda>(v, c). length (deps ! v) - c + 1) (snd st))"

lemma visited_lower [simp]: "visited (lower v l t) = visited t"
  and visited_pop [simp]: "visited (pop_component v t) = visited t"
  by (simp_all add: lower_def pop_component_def split: prod.split)

lemma unvisited_enter:
  assumes "w < length deps" "length (visited t) = length deps" "\<not> visited t ! w"
  shows "sum_list (map (\<lambda>u. if visited (enter w t) ! u then 0 else length (deps ! u) + 2) [0..<length deps]) +
     (length (deps ! w) + 2) =
     sum_list (map (\<lambda>u. if visited t ! u then 0 else length (deps ! u) + 2) [0..<length deps])"
proof -
  let ?f = "\<lambda>u. if visited t ! u then 0 else length (deps ! u) + 2"
  have "sum (\<lambda>u. if visited (enter w t) ! u then 0 else length (deps ! u) + 2) {0..<length deps} =
      sum (\<lambda>u. if u = w then 0 else ?f u) {0..<length deps}"
    using assms by (intro sum.cong) (auto simp: enter_def nth_list_update)
  also have "\<dots> + ?f w = sum ?f {0..<length deps}"
    using assms(1) by (simp add: sum.remove [of _ w] sum.If_cases)
  finally show ?thesis
    using assms(3) by (simp add: sum_list_distinct_conv_sum_set)
qed

lemma tarjan_step_work:
  assumes inv: "tarjan_inv deps st" and "valid_deps deps" "snd st \<noteq> []"
  shows "work_left deps (tarjan_step deps st) < work_left deps st"
proof -
  obtain t v c frames where st: "st = (t, (v, c) # frames)"
    using assms(3) by (cases st; cases "snd st") auto
  have ok: "tarjan_ok deps t" using inv st by (simp add: tarjan_inv_def)
  have v: "v < length deps"
    using inv stack_bounds(4) [OF ok] unfolding st tarjan_inv_def by auto
  show ?thesis
  proof (cases "c < length (deps ! v) \<and> \<not> visited t ! (deps ! v ! c)")
    case True
    let ?w = "deps ! v ! c"
    have "?w < length deps" using True assms(2) v by (auto simp: valid_deps_def)
    then have "work_left deps (enter ?w t, (?w, 0) # (v, Suc c) # frames) < work_left deps st"
      using True unvisited_enter [of ?w deps t] ok unfolding work_left_def st tarjan_ok_def by auto
    then show ?thesis
      using True by (simp add: tarjan_step_def Let_def st)
  next
    case False
    then show ?thesis
      by (auto simp: tarjan_step_def st work_left_def Let_def split: list.split prod.split)
  qed
qed

lemma tarjan_from_ok:
  assumes "tarjan_inv deps (t, [])" "valid_deps deps" "start < length deps"
  obtains t' where "tarjan_from deps start t = Some t'" "tarjan_inv deps (t', [])" "visited t' ! start"
    "\<forall>u. visited t ! u \<longrightarrow> visited t' ! u"
proof (cases "visited t ! start")
  case True
  then show ?thesis using that [of t] assms(1) by (simp add: tarjan_from_def)
next
  case False
  have ok: "tarjan_ok deps t" "tarjan_stack t = []" using assms(1) by (simp_all add: tarjan_inv_def)
  let ?P = "\<lambda>st. tarjan_inv deps st \<and> visited (fst st) ! start \<and> (\<forall>u. visited t ! u \<longrightarrow> visited (fst st) ! u)"
  have keep: "visited (fst (tarjan_step deps st)) ! u" if "visited (fst st) ! u" for st u
  proof -
    have "(visited (fst st))[w := True] ! u" for w
      using that by (cases "w = u"; cases "w < length (visited (fst st))") (auto simp: list_update_beyond)
    then show ?thesis
      using that by (auto simp: tarjan_step_def Let_def enter_def split: list.split prod.split)
  qed
  have step: "?P (tarjan_step deps st) \<and> work_left deps (tarjan_step deps st) < work_left deps st"
    if "?P st" "snd st \<noteq> []" for st
    using that keep tarjan_step_inv [OF _ assms(2)] tarjan_step_work [OF _ assms(2)] by blast
  have "stack_ok deps (enter start t) [(start, 0)] [start]"
    using segment_ok_new [of start t deps "[]"] ok assms(3) by (auto simp: tarjan_ok_def)
  moreover have "tarjan_stack (enter start t) = [start]" by (simp add: enter_def ok(2))
  ultimately have "tarjan_inv deps (enter start t, [(start, 0)])"
    using tarjan_ok_enter [OF ok(1) assms(3) False] by (simp add: tarjan_inv_def)
  then have init: "?P (enter start t, [(start, 0)])"
    using ok(1) assms(3) by (auto simp: enter_def tarjan_ok_def nth_list_update)
  obtain st where st: "while_option (\<lambda>st. snd st \<noteq> []) (tarjan_step deps) (enter start t, [(start, 0)]) = Some st"
    using measure_while_option_Some [of ?P "\<lambda>st. snd st \<noteq> []" "tarjan_step deps" "work_left deps", OF step init]
    by blast
  have "?P st"
    using while_option_rule [of ?P "\<lambda>st. snd st \<noteq> []" "tarjan_step deps", OF _ st init] step by blast
  moreover have "snd st = []" using while_option_stop [OF st] by simp
  ultimately show ?thesis
    using that [of "fst st"] st False by (cases st) (simp add: tarjan_from_def)
qed

lemma tarjan_starts_ok:
  assumes "valid_deps deps"
  shows "set ss \<subseteq> {..<length deps} \<Longrightarrow> tarjan_inv deps (t, []) \<Longrightarrow>
    \<exists>t'. tarjan_starts deps ss t = Some t' \<and> tarjan_inv deps (t', []) \<and>
      (\<forall>u. visited t ! u \<longrightarrow> visited t' ! u) \<and> (\<forall>s \<in> set ss. visited t' ! s)"
proof (induction ss arbitrary: t)
  case (Cons s ss)
  obtain t1 where t1: "tarjan_from deps s t = Some t1" "tarjan_inv deps (t1, [])" "visited t1 ! s"
      "\<forall>u. visited t ! u \<longrightarrow> visited t1 ! u"
    using tarjan_from_ok [OF Cons.prems(2) assms, of s] Cons.prems(1) by auto
  then show ?case using Cons.IH [OF _ t1(2)] Cons.prems(1) by auto
qed simp

text \<open>What the component search returns.\<close>

lemma tarjan_sccs_ok:
  assumes "valid_deps deps"
  obtains cs where "tarjan_sccs deps = Some cs" "components_ok deps {} cs" "\<Union> (set ` set cs) = {..<length deps}"
proof -
  let ?n = "length deps"
  let ?t = "\<lparr>visited = replicate ?n False, index = replicate ?n 0, lowlink = replicate ?n 0,
    on_stack = replicate ?n False, tarjan_stack = [], next_index = 0, sccs = []\<rparr>"
  have "tarjan_inv deps (?t, [])"
    by (simp add: tarjan_inv_def tarjan_ok_def finished_def)
  then obtain t where t: "tarjan_starts deps [0..<?n] ?t = Some t" "tarjan_inv deps (t, [])"
      "\<forall>s \<in> set [0..<?n]. visited t ! s"
    using tarjan_starts_ok [OF assms, of "[0..<?n]" ?t] by (auto simp: subset_eq)
  have "finished t = {..<?n}"
  proof
    have "component_ok deps e c \<Longrightarrow> set c \<subseteq> {..<?n}" for e c by (simp add: component_ok_def)
    then have "components_ok deps e cs \<Longrightarrow> \<Union> (set ` set cs) \<subseteq> {..<?n}" for e cs
      by (induction cs arbitrary: e) (simp, metis Sup_insert Un_subset_iff components_ok.simps(2) image_insert list.simps(15))
    then show "finished t \<subseteq> {..<?n}" using t(2) by (auto simp: tarjan_inv_def tarjan_ok_def finished_def)
    show "{..<?n} \<subseteq> finished t" using t(2,3) by (auto simp: tarjan_inv_def tarjan_ok_def)
  qed
  then show ?thesis
    using that [of "sccs t"] t by (simp add: tarjan_sccs_def tarjan_inv_def tarjan_ok_def finished_def)
qed

end
