(* ===== verification/Graph_Order.thy ===== *)
theory Graph_Order
  imports Graph_Tarjan
begin

text \<open>
  The topological order and the waves of \<open>graph.rs\<close>. The heap always holds exactly the jobs
  whose dependencies are all in the order already, so every job placed is the smallest one
  that could be placed; the order is therefore the lexicographically smallest topological
  order. A job's wave is the length of the longest chain of dependencies from it.
\<close>

section \<open>Dependents\<close>

lemma add_dependents_nth:
  assumes "distinct ds" "i < length acc"
  shows "add_dependents (j, ds) acc ! i = acc ! i @ (if i \<in> set ds then [j] else [])"
    "length (add_dependents (j, ds) acc) = length acc"
proof -
  have "distinct ds \<Longrightarrow> i < length acc \<Longrightarrow>
      fold (\<lambda>d a. a[d := a ! d @ [j]]) ds acc ! i = acc ! i @ (if i \<in> set ds then [j] else [])" for acc
  proof (induction ds arbitrary: acc)
    case (Cons d ds)
    then show ?case by (cases "d = i") auto
  qed simp
  then show "add_dependents (j, ds) acc ! i = acc ! i @ (if i \<in> set ds then [j] else [])"
    using assms by (simp add: add_dependents_def)
  have "length (fold (\<lambda>d a. a[d := a ! d @ [j]]) ds acc) = length acc" for acc
    by (induction ds arbitrary: acc) auto
  then show "length (add_dependents (j, ds) acc) = length acc"
    by (simp add: add_dependents_def)
qed

lemma fold_add_dependents:
  assumes "\<forall>ds \<in> set dss. distinct ds" "i < length acc"
  shows "fold add_dependents (enumerate k dss) acc ! i =
      acc ! i @ map fst (filter (\<lambda>jd. i \<in> set (snd jd)) (enumerate k dss))"
  using assms
proof (induction dss arbitrary: k acc)
  case (Cons ds dss)
  then show ?case by (simp add: add_dependents_nth)
qed simp

lemma dependents_of_nth:
  assumes "\<forall>ds \<in> set deps. distinct ds" "i < length deps"
  shows "dependents_of deps ! i = filter (\<lambda>j. i \<in> set (deps ! j)) [0..<length deps]"
proof -
  have "map fst (filter (\<lambda>jd. i \<in> set (snd jd)) (enumerate 0 deps)) =
      map fst (filter (\<lambda>jd. i \<in> set (deps ! fst jd)) (enumerate 0 deps))"
    by (intro arg_cong [of _ _ "map fst"] filter_cong) (auto simp: in_set_enumerate_eq)
  also have "\<dots> = filter (\<lambda>j. i \<in> set (deps ! j)) (map fst (enumerate 0 deps))"
    unfolding filter_map comp_def ..
  finally show ?thesis
    using fold_add_dependents [OF assms(1), of i "replicate (length deps) []" 0] assms(2)
    by (simp add: dependents_of_def)
qed

section \<open>The greedy order\<close>

definition ready :: "nat list list \<Rightarrow> nat set \<Rightarrow> nat set" where
  "ready deps A = {d. d < length deps \<and> d \<notin> A \<and> set (deps ! d) \<subseteq> A}"

lemma finite_ready [simp]: "finite (ready deps A)"
  by (simp add: ready_def)

definition greedy :: "nat list list \<Rightarrow> nat list \<Rightarrow> bool" where
  "greedy deps p \<longleftrightarrow> (\<forall>i < length p. p ! i \<in> ready deps (set (take i p)) \<and>
     (\<forall>d \<in> ready deps (set (take i p)). p ! i \<le> d))"

lemma greedy_snoc:
  "greedy deps (p @ [x]) \<longleftrightarrow> greedy deps p \<and> x \<in> ready deps (set p) \<and> (\<forall>d \<in> ready deps (set p). x \<le> d)"
  by (auto simp: greedy_def nth_append less_Suc_eq)

lemma greedy_closed: "greedy deps p \<Longrightarrow> d \<in> set p \<Longrightarrow> set (deps ! d) \<subseteq> set p"
  by (induction p rule: rev_induct) (auto simp: greedy_snoc ready_def)

lemma greedy_distinct: "greedy deps p \<Longrightarrow> distinct p \<and> set p \<subseteq> {..<length deps}"
  by (induction p rule: rev_induct) (auto simp: greedy_snoc ready_def)

section \<open>Kahn's loop\<close>

definition kahn_ok :: "nat list list \<Rightarrow> kahn \<Rightarrow> bool" where
  "kahn_ok deps k \<longleftrightarrow> length (indegree k) = length deps \<and>
     (\<forall>d < length deps. indegree k ! d = length (filter (\<lambda>x. x \<notin> set (order k)) (deps ! d))) \<and>
     sorted (heap k) \<and> distinct (heap k) \<and> set (heap k) = ready deps (set (order k)) \<and>
     greedy deps (order k)"

lemma fold_release:
  assumes "distinct ds" "set ds \<subseteq> {..<length (indegree k)}" "sorted (heap k)" "distinct (heap k)"
    and "set ds \<inter> set (heap k) = {}"
  shows "order (fold release ds k) = order k \<and> length (indegree (fold release ds k)) = length (indegree k) \<and>
    (\<forall>d < length (indegree k). indegree (fold release ds k) ! d = indegree k ! d - (if d \<in> set ds then 1 else 0)) \<and>
    sorted (heap (fold release ds k)) \<and> distinct (heap (fold release ds k)) \<and>
    set (heap (fold release ds k)) = set (heap k) \<union> {d \<in> set ds. indegree k ! d - 1 = 0}"
  using assms
proof (induction ds arbitrary: k)
  case (Cons d ds)
  let ?k = "release d k"
  have k: "order ?k = order k" "length (indegree ?k) = length (indegree k)"
      "\<And>e. e < length (indegree k) \<Longrightarrow> indegree ?k ! e = indegree k ! e - (if e = d then 1 else 0)"
      "sorted (heap ?k)" "distinct (heap ?k)"
      "set (heap ?k) = set (heap k) \<union> (if indegree k ! d - 1 = 0 then {d} else {})"
    using Cons.prems by (auto simp: release_def Let_def nth_list_update sorted_insort distinct_insort set_insort_key)
  have "set ds \<inter> set (heap ?k) = {}" using Cons.prems k(6) by auto
  then have IH: "order (fold release ds ?k) = order ?k \<and> length (indegree (fold release ds ?k)) = length (indegree ?k) \<and>
    (\<forall>e < length (indegree ?k). indegree (fold release ds ?k) ! e = indegree ?k ! e - (if e \<in> set ds then 1 else 0)) \<and>
    sorted (heap (fold release ds ?k)) \<and> distinct (heap (fold release ds ?k)) \<and>
    set (heap (fold release ds ?k)) = set (heap ?k) \<union> {e \<in> set ds. indegree ?k ! e - 1 = 0}"
    using Cons.prems k by (intro Cons.IH) auto
  have "indegree ?k ! e = indegree k ! e" if "e \<in> set ds" for e
    using Cons.prems k(3) [of e] that by auto
  then have "{e \<in> set ds. indegree ?k ! e - 1 = 0} = {e \<in> set ds. indegree k ! e - 1 = 0}"
    by auto
  then show ?case using IH k Cons.prems by auto
qed simp

lemma kahn_step_ok:
  assumes ok: "kahn_ok deps k" and run: "heap k \<noteq> []" and deps: "\<forall>ds \<in> set deps. distinct ds"
  shows "kahn_ok deps (kahn_step (dependents_of deps) k) \<and>
    length (order (kahn_step (dependents_of deps) k)) = Suc (length (order k))"
proof -
  obtain i h where h: "heap k = i # h" using run by (cases "heap k") auto
  let ?A = "set (order k)" and ?ds = "dependents_of deps ! i"
  let ?k = "k\<lparr>heap := h, order := order k @ [i]\<rparr>"
  let ?k' = "fold release ?ds ?k"
  have step: "kahn_step (dependents_of deps) k = ?k'" by (simp add: kahn_step_def h)
  have i: "i \<in> ready deps ?A" "\<forall>d \<in> ready deps ?A. i \<le> d" and sorted: "sorted h" "distinct h" "set h = ready deps ?A - {i}"
    using ok unfolding kahn_ok_def h by auto
  have n: "i < length deps" "i \<notin> ?A" "length (indegree k) = length deps" using i ok by (auto simp: ready_def kahn_ok_def)
  have ds: "?ds = filter (\<lambda>j. i \<in> set (deps ! j)) [0..<length deps]"
    using dependents_of_nth [OF deps n(1)] .
  have "set ?ds \<inter> set h = {}" using n(2) by (auto simp: ds sorted(3) ready_def)
  moreover have "distinct ?ds" "set ?ds \<subseteq> {..<length deps}" by (auto simp: ds)
  ultimately have rel: "order ?k' = order k @ [i]" "length (indegree ?k') = length deps"
      "\<And>d. d < length deps \<Longrightarrow> indegree ?k' ! d = indegree k ! d - (if d \<in> set ?ds then 1 else 0)"
      "sorted (heap ?k')" "distinct (heap ?k')" "set (heap ?k') = set h \<union> {d \<in> set ?ds. indegree k ! d - 1 = 0}"
    using fold_release [of ?ds ?k] sorted(1,2) n(3) by simp_all
  have one_less: "length (filter (\<lambda>x. x \<notin> ?A) (deps ! d)) - (if i \<in> set (deps ! d) then 1 else 0) =
      length (filter (\<lambda>x. x \<notin> ?A \<union> {i}) (deps ! d))" if "d < length deps" for d
  proof -
    have "distinct (deps ! d)" using deps that by simp
    moreover have "{x. x \<notin> ?A \<union> {i}} \<inter> set (deps ! d) = ({x. x \<notin> ?A} \<inter> set (deps ! d)) - {i}"
      by auto
    ultimately show ?thesis
      using n(2) by (simp only: distinct_length_filter card_Diff_singleton_if) auto
  qed
  have ind: "indegree ?k' ! d = length (filter (\<lambda>x. x \<notin> set (order k @ [i])) (deps ! d))" if "d < length deps" for d
    using rel(3) [OF that] one_less [OF that] ok that by (auto simp: kahn_ok_def ds)
  have zero: "indegree k ! d - 1 = 0 \<longleftrightarrow> set (deps ! d) \<subseteq> ?A \<union> {i}" if "d \<in> set ?ds" for d
  proof -
    have "indegree k ! d - 1 = length (filter (\<lambda>x. x \<notin> set (order k @ [i])) (deps ! d))"
      using that ind [of d] rel(3) [of d] by (simp add: ds)
    then show ?thesis by (simp only: length_0_conv filter_empty_conv) auto
  qed
  have "d \<notin> ?A \<union> {i}" if "d \<in> set ?ds" for d
    using that greedy_closed [of deps "order k" d] ok n(2) i(1) by (auto simp: ds kahn_ok_def ready_def)
  then have "set h \<union> {d \<in> set ?ds. indegree k ! d - 1 = 0} = ready deps (?A \<union> {i})"
    using zero unfolding sorted(3) ready_def by (auto simp: ds)
  then have "kahn_ok deps ?k'"
    using ok rel ind i by (auto simp: kahn_ok_def greedy_snoc)
  then show ?thesis by (simp add: step rel(1))
qed

lemma kahn_result:
  assumes deps: "\<forall>ds \<in> set deps. distinct ds"
  obtains p where "kahn_topo_order deps (dependents_of deps) = Some p" "greedy deps p" "ready deps (set p) = {}"
proof -
  let ?init = "\<lparr>indegree = map length deps, heap = filter (\<lambda>i. map length deps ! i = 0) [0..<length deps], order = []\<rparr>"
  let ?step = "kahn_step (dependents_of deps)"
  have init: "kahn_ok deps ?init"
    using sorted_filter [of "\<lambda>i. i" "[0..<length deps]"] by (auto simp: kahn_ok_def greedy_def ready_def)
  have "length (order k) \<le> length deps" if "kahn_ok deps k" for k
    using that greedy_distinct [of deps "order k"] card_mono [of "{..<length deps}" "set (order k)"] distinct_card
    by (fastforce simp: kahn_ok_def)
  then have step: "kahn_ok deps (?step k) \<and> length deps - length (order (?step k)) < length deps - length (order k)"
    if "kahn_ok deps k" "heap k \<noteq> []" for k
    using kahn_step_ok [OF that deps] by (metis Suc_le_eq diff_less_mono2 lessI)
  obtain k where k: "while_option (\<lambda>k. heap k \<noteq> []) ?step ?init = Some k"
    using measure_while_option_Some [of "kahn_ok deps" "\<lambda>k. heap k \<noteq> []" ?step "\<lambda>k. length deps - length (order k)",
        OF step init] by blast
  have "kahn_ok deps k"
    using while_option_rule [of "kahn_ok deps" "\<lambda>k. heap k \<noteq> []" ?step, OF _ k init] step by blast
  then show ?thesis
    using that [of "order k"] k while_option_stop [OF k] by (auto simp: kahn_topo_order_def kahn_ok_def)
qed

section \<open>Topological orders\<close>

definition topological :: "nat list list \<Rightarrow> nat list \<Rightarrow> bool" where
  "topological deps p \<longleftrightarrow> distinct p \<and> set p = {..<length deps} \<and>
     (\<forall>i < length p. set (deps ! (p ! i)) \<subseteq> set (take i p))"

lemma finite_edges [simp]: "finite (edges deps)"
proof -
  have "edges deps = (\<Union>v \<in> {..<length deps}. Pair v ` set (deps ! v))"
    by (auto simp: edges_def)
  then show ?thesis by simp
qed

lemma greedy_topological:
  assumes "greedy deps p" "ready deps (set p) = {}" "acyclic (edges deps)"  "valid_deps deps"
  shows "topological deps p"
proof -
  have wf: "wf ((edges deps)\<inverse>)"
    using assms(3) by (intro finite_acyclic_wf) simp_all
  have "{..<length deps} - set p = {}"
  proof (rule ccontr)
    assume "{..<length deps} - set p \<noteq> {}"
    then obtain z where z: "z \<in> {..<length deps} - set p"
        "\<And>w. (w, z) \<in> (edges deps)\<inverse> \<Longrightarrow> w \<notin> {..<length deps} - set p"
      using wfE_min' [OF wf] by metis
    then have "z \<in> ready deps (set p)"
      using assms(4) by (auto simp: ready_def edges_def valid_deps_def)
    then show False using assms(2) by simp
  qed
  then show ?thesis
    using greedy_distinct [OF assms(1)] assms(1) by (auto simp: topological_def greedy_def ready_def)
qed

lemma topological_acyclic:
  assumes "topological deps p"
  shows "acyclic (edges deps)"
proof -
  define pos where "pos v = (THE i. i < length p \<and> p ! i = v)" for v
  have pos: "pos (p ! i) = i" if "i < length p" for i
    using assms that unfolding pos_def topological_def
    by (intro the_equality) (auto simp: nth_eq_iff_index_eq)
  have "pos w < pos v" if "(v, w) \<in> edges deps" for v w
  proof -
    have "v \<in> set p" using that assms by (auto simp: edges_def topological_def)
    then obtain i where i: "i < length p" "v = p ! i" by (auto simp: in_set_conv_nth)
    then have "w \<in> set (take i p)" using that assms by (auto simp: edges_def topological_def)
    then obtain j where "j < i" "w = p ! j" using i by (auto simp: in_set_conv_nth)
    then show ?thesis using pos i by simp
  qed
  then have "edges deps \<subseteq> (measure pos)\<inverse>" by auto
  then show ?thesis
    using acyclic_subset acyclic_converse wf_acyclic [OF wf_measure] by metis
qed

lemma list_less_append: "xs @ ys < xs @ zs \<longleftrightarrow> ys < (zs :: nat list)"
  by (induction xs) auto

lemma greedy_least:
  assumes "greedy deps p" "topological deps p" "topological deps q"
  shows "p \<le> q"
proof (cases "p = q")
  case False
  have len: "length p = length q"
    using assms(2,3) by (metis distinct_card topological_def)
  obtain i where i: "i < length p" "take i p = take i q" "p ! i \<noteq> q ! i"
  proof -
    define i where "i = (LEAST i. p ! i \<noteq> q ! i \<and> i < length p)"
    have "\<exists>i. p ! i \<noteq> q ! i \<and> i < length p" using False len nth_equalityI by blast
    then have "p ! i \<noteq> q ! i \<and> i < length p" unfolding i_def by (rule LeastI_ex)
    moreover have "p ! j = q ! j" if "j < i" for j
      using that not_less_Least [of j "\<lambda>i. p ! i \<noteq> q ! i \<and> i < length p"] calculation unfolding i_def by auto
    ultimately show ?thesis using that [of i] len nth_take_lemma [of i p q] by simp
  qed
  have "q ! i \<in> ready deps (set (take i q))"
    using assms(3) i(1) len unfolding topological_def ready_def
    by (auto simp: in_set_conv_nth nth_eq_iff_index_eq) (metis lessThan_iff nth_mem)
  then have "p ! i \<le> q ! i" using assms(1) i by (auto simp: greedy_def)
  then have "p ! i < q ! i" using i(3) by simp
  moreover have "p = take i p @ p ! i # drop (Suc i) p" "q = take i p @ q ! i # drop (Suc i) q"
    using i len id_take_nth_drop by metis+
  ultimately have "p < q" by (metis Cons_less_Cons list_less_append)
  then show ?thesis by simp
qed simp

section \<open>Waves\<close>

lemma compute_waves_prefix:
  assumes "topological deps p" "k \<le> length p"
  shows "length (compute_waves (take k p) deps) = length deps \<and>
    (\<forall>j \<in> set (take k p). compute_waves (take k p) deps ! j =
       max_list0 (map (\<lambda>d. compute_waves (take k p) deps ! d + 1) (deps ! j)))"
  using assms(2)
proof (induction k)
  case (Suc k)
  let ?w = "compute_waves (take k p) deps" and ?x = "p ! k"
  let ?v = "max_list0 (map (\<lambda>d. ?w ! d + 1) (deps ! ?x))"
  have IH: "length ?w = length deps" "\<forall>j \<in> set (take k p). ?w ! j = max_list0 (map (\<lambda>d. ?w ! d + 1) (deps ! j))"
    using Suc by auto
  have nxt: "compute_waves (take (Suc k) p) deps = ?w[?x := ?v]"
    using Suc.prems by (simp add: compute_waves_def take_Suc_conv_app_nth)
  have x: "?x \<notin> set (take k p)" "?x < length deps"
    using assms(1) Suc.prems unfolding topological_def
    by (auto simp: in_set_conv_nth nth_eq_iff_index_eq) (metis lessThan_iff nth_mem Suc_le_lessD)
  have same: "?w[?x := ?v] ! d = ?w ! d" if "d \<in> set (take k p)" for d
    using that x(1) by (metis nth_list_update_neq)
  have closed: "set (deps ! j) \<subseteq> set (take k p)" if j: "j \<in> set (take (Suc k) p)" for j
  proof -
    obtain i where i: "i \<le> k" "j = p ! i" using j Suc.prems by (auto simp: in_set_conv_nth less_Suc_eq_le)
    then have "set (deps ! j) \<subseteq> set (take i p)" using assms(1) Suc.prems by (simp add: topological_def)
    also have "\<dots> \<subseteq> set (take k p)" using i(1) by (rule set_take_subset_set_take)
    finally show ?thesis .
  qed
  have args: "map (\<lambda>d. ?w[?x := ?v] ! d + 1) (deps ! j) = map (\<lambda>d. ?w ! d + 1) (deps ! j)"
    if "j \<in> set (take (Suc k) p)" for j
    using closed [OF that] same by auto
  have "?w[?x := ?v] ! j = max_list0 (map (\<lambda>d. ?w ! d + 1) (deps ! j))" if "j \<in> set (take (Suc k) p)" for j
  proof (cases "j = ?x")
    case False
    then have "j \<in> set (take k p)" using that Suc.prems by (simp add: take_Suc_conv_app_nth)
    then show ?thesis using IH(2) same by simp
  qed (use x IH(1) in simp)
  then have "?w[?x := ?v] ! j = max_list0 (map (\<lambda>d. ?w[?x := ?v] ! d + 1) (deps ! j))"
    if "j \<in> set (take (Suc k) p)" for j
    unfolding args [OF that] using that by blast
  then show ?case unfolding nxt using IH(1) by (metis length_list_update)
qed (simp add: compute_waves_def)

text \<open>A job has a chain of \<open>k\<close> dependencies below it just when \<open>k\<close> is at most its wave.\<close>

lemma max_list0_Suc: "Suc k \<le> max_list0 (map (\<lambda>d. f d + 1) ds) \<longleftrightarrow> (\<exists>d \<in> set ds. k \<le> f d)"
proof -
  have "\<not> max_list0 (map (\<lambda>d. f d + 1) ds) \<le> k \<longleftrightarrow> \<not> (\<forall>d \<in> set ds. f d + 1 \<le> k)"
    by (simp add: max_list0_le)
  then show ?thesis by (simp add: Suc_le_eq not_le) (metis not_less)
qed

lemma waves_longest_chain:
  assumes "topological deps p" "j < length deps"
  shows "(\<exists>x. (j, x) \<in> edges deps ^^ k) \<longleftrightarrow> k \<le> compute_waves p deps ! j"
  using assms(2)
proof (induction k arbitrary: j)
  case (Suc k)
  have "j \<in> set p" using assms(1) Suc.prems by (simp add: topological_def)
  then have wave: "compute_waves p deps ! j = max_list0 (map (\<lambda>d. compute_waves p deps ! d + 1) (deps ! j))"
    using compute_waves_prefix [OF assms(1), of "length p"] by simp
  have valid: "d < length deps" if "d \<in> set (deps ! j)" for d
  proof -
    obtain i where "i < length p" "j = p ! i" using \<open>j \<in> set p\<close> by (auto simp: in_set_conv_nth)
    then have "d \<in> set p" using that assms(1) set_take_subset [of i p] by (auto simp: topological_def)
    then show ?thesis using assms(1) by (auto simp: topological_def)
  qed
  have "(\<exists>x. (j, x) \<in> edges deps ^^ Suc k) \<longleftrightarrow> (\<exists>d \<in> set (deps ! j). \<exists>x. (d, x) \<in> edges deps ^^ k)"
  proof -
    have "edges deps ^^ Suc k = edges deps O edges deps ^^ k" by (simp add: relpow_commute)
    moreover have "(j, d) \<in> edges deps \<longleftrightarrow> d \<in> set (deps ! j)" for d using Suc.prems by (simp add: edges_def)
    ultimately show ?thesis by blast
  qed
  also have "\<dots> \<longleftrightarrow> (\<exists>d \<in> set (deps ! j). k \<le> compute_waves p deps ! d)"
    using Suc.IH valid by blast
  finally show ?case unfolding wave max_list0_Suc .
qed auto

end
