(* ===== verification/Graph_Laws.thy ===== *)
theory Graph_Laws
  imports Graph_Search Graph_Order
begin

text \<open>
  What \<open>build_graph\<close> promises its callers. The component search is used through the contract
  of a component decomposition, the order through the greedy order; the graph is accepted
  exactly when every name in \<open>needs:\<close> is a job and no job depends on itself, and every cycle
  reported is a real loop of dependencies.
\<close>

section \<open>Simple paths\<close>

lemma simple_path:
  assumes "(a, z) \<in> R\<^sup>*"
  shows "\<exists>p. p \<noteq> [] \<and> hd p = a \<and> last p = z \<and> distinct p \<and> successively (\<lambda>v w. (v, w) \<in> R) p"
  using assms
proof (induction rule: rtrancl_induct)
  case base
  then show ?case by (intro exI [of _ "[a]"]) simp
next
  case (step y z)
  then obtain p where p: "p \<noteq> []" "hd p = a" "last p = y" "distinct p" "successively (\<lambda>v w. (v, w) \<in> R) p"
    by blast
  show ?case
  proof (cases "z \<in> set p")
    case True
    then obtain p1 p2 where split: "p = p1 @ z # p2" by (auto simp: in_set_conv_decomp)
    then show ?thesis
      using p by (intro exI [of _ "p1 @ [z]"]) (auto simp: successively_append_iff hd_append)
  next
    case False
    then show ?thesis
      using p step.hyps(2) by (intro exI [of _ "p @ [z]"]) (auto simp: successively_append_iff)
  qed
qed

lemma list_all2_member:
  assumes "list_all2 P xs ys"
  shows "y \<in> set ys \<Longrightarrow> \<exists>x \<in> set xs. P x y" "x \<in> set xs \<Longrightarrow> \<exists>y \<in> set ys. P x y"
  using assms by (induction rule: list_all2_induct) auto

section \<open>Component decompositions\<close>

lemma components_ok_nth:
  "components_ok deps earlier cs \<Longrightarrow> k < length cs \<Longrightarrow>
   component_ok deps (earlier \<union> \<Union> (set ` set (take k cs))) (cs ! k)"
proof (induction cs arbitrary: earlier k)
  case (Cons c cs)
  show ?case
  proof (cases k)
    case (Suc m)
    then show ?thesis using Cons.IH [of "earlier \<union> set c" m] Cons.prems by (simp add: Un_assoc)
  qed (use Cons.prems in simp)
qed simp

locale component_decomposition =
  fixes deps :: "nat list list"
    and comps :: "nat list list"
  assumes parts: "components_ok deps {} comps"
    and cover: "\<Union> (set ` set comps) = {..<length deps}"
begin

definition rank :: "nat \<Rightarrow> nat" where
  "rank v = (LEAST k. k < length comps \<and> v \<in> set (comps ! k))"

lemma part: "k < length comps \<Longrightarrow> component_ok deps (\<Union> (set ` set (take k comps))) (comps ! k)"
  using components_ok_nth [OF parts] by simp

lemma rank_component: "v < length deps \<Longrightarrow> rank v < length comps \<and> v \<in> set (comps ! rank v)"
proof -
  assume "v < length deps"
  then have "v \<in> \<Union> (set ` set comps)" by (simp add: cover)
  then have "\<exists>k. k < length comps \<and> v \<in> set (comps ! k)" by (auto simp: in_set_conv_nth [of _ comps])
  then show ?thesis unfolding rank_def by (rule LeastI_ex)
qed

lemma rank_unique:
  assumes "k < length comps" "v \<in> set (comps ! k)"
  shows "rank v = k"
proof (rule ccontr)
  assume ne: "rank v \<noteq> k"
  have "rank v \<le> k" unfolding rank_def using assms by (intro Least_le) simp
  then have less: "rank v < k" using ne by simp
  have "v < length deps" using part [OF assms(1)] assms(2) by (auto simp: component_ok_def)
  then have "v \<in> set (comps ! rank v)" using rank_component by blast
  moreover have "comps ! rank v \<in> set (take k comps)"
    using less assms(1) by (auto simp: in_set_conv_nth intro!: exI [of _ "rank v"])
  ultimately show False using part [OF assms(1)] assms(2) by (auto simp: component_ok_def)
qed

lemma rank_edge:
  assumes "(v, w) \<in> edges deps"
  shows "rank w \<le> rank v"
proof -
  have v: "v < length deps" "w \<in> set (deps ! v)" using assms by (auto simp: edges_def)
  have k: "rank v < length comps" "v \<in> set (comps ! rank v)" using rank_component [OF v(1)] by auto
  then have "w \<in> set (comps ! rank v) \<union> \<Union> (set ` set (take (rank v) comps))"
    using part [OF k(1)] v(2) unfolding component_ok_def by blast
  then consider "w \<in> set (comps ! rank v)" | c where "c \<in> set (take (rank v) comps)" "w \<in> set c"
    by blast
  then show ?thesis
  proof cases
    case 1
    then show ?thesis using rank_unique [OF k(1)] by simp
  next
    case 2
    then obtain i where "i < rank v" "w \<in> set (comps ! i)"
      using k(1) by (auto simp: in_set_conv_nth [of _ "take (rank v) comps"])
    then show ?thesis using rank_unique [of i w] k(1) by simp
  qed
qed

lemma rank_walk: "(v, w) \<in> (edges deps)\<^sup>* \<Longrightarrow> rank w \<le> rank v"
  by (induction rule: rtrancl_induct) (auto dest: rank_edge)

lemma component_connected:
  assumes "k < length comps" "a \<in> set (comps ! k)" "b \<in> set (comps ! k)"
  shows "(a, b) \<in> walks deps (set (comps ! k))" "(a, b) \<in> (edges deps)\<^sup>*"
proof -
  show *: "(a, b) \<in> walks deps (set (comps ! k))" using part [OF assms(1)] assms by (simp add: component_ok_def)
  show "(a, b) \<in> (edges deps)\<^sup>*"
    using * rtrancl_mono [of "edges deps \<inter> set (comps ! k) \<times> set (comps ! k)" "edges deps"]
    unfolding walks_def by blast
qed

text \<open>A job that depends on itself lies in a component the code reports.\<close>

lemma cyclic_component:
  assumes "(v, v) \<in> (edges deps)\<^sup>+"
  shows "rank v < length comps \<and> v \<in> set (comps ! rank v) \<and> is_cycle deps (comps ! rank v)"
proof -
  obtain w where w: "(v, w) \<in> edges deps" "(w, v) \<in> (edges deps)\<^sup>*" using assms by (meson tranclD)
  have v: "v < length deps" using w(1) by (simp add: edges_def)
  have k: "rank v < length comps" "v \<in> set (comps ! rank v)" using rank_component [OF v] by auto
  have "rank w = rank v" using rank_edge [OF w(1)] rank_walk [OF w(2)] by simp
  moreover have "w < length deps"
    using w v by (cases rule: converse_rtranclE [OF w(2)]) (auto simp: edges_def)
  ultimately have wk: "w \<in> set (comps ! rank v)" using rank_component [of w] by simp
  have "is_cycle deps (comps ! rank v)"
  proof (cases "w = v")
    case True
    then have "v \<in> set (deps ! v)" using w(1) by (simp add: edges_def)
    moreover have "length (comps ! rank v) = 1 \<Longrightarrow> hd (comps ! rank v) = v"
      using k(2) by (cases "comps ! rank v") auto
    moreover have "length (comps ! rank v) \<ge> 1" using k(2) by (cases "comps ! rank v") auto
    ultimately show ?thesis by (auto simp: is_cycle_def)
  next
    case False
    then have "card {v, w} \<le> card (set (comps ! rank v))" using k(2) wk by (intro card_mono) auto
    then show ?thesis using False card_length [of "comps ! rank v"] by (simp add: is_cycle_def)
  qed
  then show ?thesis using k by blast
qed

text \<open>Inside such a component every job lies on a simple loop.\<close>

lemma component_loop:
  assumes k: "k < length comps" "is_cycle deps (comps ! k)" "v \<in> set (comps ! k)"
  shows "\<exists>q. simple_loop (scc_neighbors names deps (comps ! k)) v q"
proof -
  let ?C = "set (comps ! k)"
  let ?R = "edges deps \<inter> ?C \<times> ?C"
  have dist: "distinct (comps ! k)" using part [OF k(1)] by (simp add: component_ok_def)
  obtain z where z: "(v, z) \<in> ?R\<^sup>*" "(z, v) \<in> ?R"
  proof (cases "length (comps ! k) \<ge> 2")
    case True
    have "?C \<noteq> {v}" using True dist distinct_card by force
    then obtain b where b: "b \<in> ?C" "b \<noteq> v" using k(3) by blast
    have "(v, b) \<in> ?R\<^sup>*" "(b, v) \<in> ?R\<^sup>*"
      using component_connected(1) [OF k(1)] k(3) b(1) unfolding walks_def by auto
    moreover obtain z where "(b, z) \<in> ?R\<^sup>*" "(z, v) \<in> ?R"
      using calculation(2) b(2) by (auto elim: rtranclE)
    ultimately show ?thesis using that by (meson rtrancl_trans)
  next
    case False
    then have "comps ! k = [v]" "v \<in> set (deps ! v)"
      using k(2,3) by (auto simp: is_cycle_def length_Suc_conv)
    moreover have "v < length deps" using part [OF k(1)] k(3) by (auto simp: component_ok_def)
    ultimately show ?thesis using that [of v] by (simp add: edges_def)
  qed
  obtain q where q: "q \<noteq> []" "hd q = v" "last q = z" "distinct q" "successively (\<lambda>v w. (v, w) \<in> ?R) q"
    using simple_path [OF z(1)] by blast
  have N: "w \<in> set (scc_neighbors names deps (comps ! k) u)" if "(u, w) \<in> ?R" for u w
    using that by (auto simp: scc_neighbors_def edges_def)
  have "steps (scc_neighbors names deps (comps ! k)) q"
    unfolding steps_def using q(5) by (rule successively_mono) (use N in blast)
  then show ?thesis using q z(2) N unfolding simple_loop_def by blast
qed

lemma neighbors_closed:
  "finite (set (comps ! k))" "\<forall>v \<in> set (comps ! k). set (scc_neighbors names deps (comps ! k) v) \<subseteq> set (comps ! k)"
  by (auto simp: scc_neighbors_def)

text \<open>What is displayed for a component: a loop from its smallest name.\<close>

definition shows_loop :: "ustr list \<Rightarrow> span list \<Rightarrow> nat list \<Rightarrow> dependency_cycle \<Rightarrow> bool" where
  "shows_loop names spans scc c \<longleftrightarrow> (\<exists>start p. start = arg_min_list (\<lambda>j. names ! j) scc \<and>
     simple_loop (scc_neighbors names deps scc) start p \<and> cycle_span c = spans ! start \<and>
     members c = map (\<lambda>j. names ! j) p)"

lemma build_cycle_display_shows:
  assumes k: "k < length comps" "is_cycle deps (comps ! k)"
  shows "\<exists>c. build_cycle_display names spans deps (comps ! k) = Some (Some c) \<and>
    shows_loop names spans (comps ! k) c"
proof -
  let ?C = "comps ! k" and ?N = "scc_neighbors names deps (comps ! k)"
  let ?start = "arg_min_list (\<lambda>j. names ! j) ?C"
  have ne: "?C \<noteq> []" using part [OF k(1)] by (simp add: component_ok_def)
  then have start: "?start \<in> set ?C" by (rule arg_min_list_in)
  then obtain q where "simple_loop ?N ?start q" using component_loop [OF k] by blast
  moreover obtain r where "find_loop ?N ?start = Some r" "\<And>p. r = Some p \<Longrightarrow> simple_loop ?N ?start p"
      "(\<exists>q. simple_loop ?N ?start q) \<Longrightarrow> r \<noteq> None"
    using find_loop_result [OF neighbors_closed start] by blast
  ultimately obtain p where "find_loop ?N ?start = Some (Some p)" "simple_loop ?N ?start p" by blast
  then show ?thesis using ne by (auto simp: build_cycle_display_def Let_def shows_loop_def)
qed

lemma display_cycles_shows:
  assumes "set cs \<subseteq> set comps"
  shows "\<exists>ds. display_cycles names spans deps cs = Some ds \<and>
    list_all2 (shows_loop names spans) (filter (is_cycle deps) cs) ds"
  using assms
proof (induction cs)
  case (Cons c cs)
  then obtain ds where ds: "display_cycles names spans deps cs = Some ds"
      "list_all2 (shows_loop names spans) (filter (is_cycle deps) cs) ds"
    by auto
  obtain k where k: "k < length comps" "c = comps ! k" using Cons.prems by (auto simp: in_set_conv_nth)
  show ?case
  proof (cases "is_cycle deps c")
    case True
    then show ?thesis using build_cycle_display_shows [of k names spans] k ds by auto
  qed (use ds in simp)
qed simp

end

section \<open>The dependencies of a workflow\<close>

definition names_of :: "job list \<Rightarrow> ustr list" where
  "names_of jobs = map (node \<circ> job_id) jobs"

definition resolve_deps :: "job list \<Rightarrow> graph_error + nat list list" where
  "resolve_deps jobs = rmap (\<lambda>j. job_deps (job_table (names_of jobs)) (node (job_id j)) (needs j) []) jobs"

definition deps_of :: "job list \<Rightarrow> nat list list" where
  "deps_of jobs = (case resolve_deps jobs of Inl _ \<Rightarrow> [] | Inr deps \<Rightarrow> deps)"

text \<open>Job \<open>j\<close> names job \<open>i\<close> in its \<open>needs:\<close>.\<close>

definition job_edges :: "job list \<Rightarrow> (nat \<times> nat) set" where
  "job_edges jobs = {(j, i). j < length jobs \<and> i < length jobs \<and>
     node (job_id (jobs ! i)) \<in> node ` set (needs (jobs ! j))}"

definition needs_known :: "job list \<Rightarrow> bool" where
  "needs_known jobs \<longleftrightarrow> (\<forall>j \<in> set jobs. node ` set (needs j) \<subseteq> set (names_of jobs))"

lemma job_table_get:
  "im_get (job_table names) name = map_of (rev (map (\<lambda>(i, n). (n, i)) (enumerate 0 names))) name"
proof -
  have "fold (\<lambda>(i, n). im_insert n i) xs m = im.put_all (map (\<lambda>(i, n). (n, i)) xs) m" for xs :: "(nat \<times> ustr) list" and m
    by (induction xs arbitrary: m) (auto simp: im.put_all_def)
  then show ?thesis
    by (simp add: job_table_def im.get_put_all split: option.splits)
qed

lemma job_table_Some: "im_get (job_table names) name = Some i \<Longrightarrow> i < length names \<and> names ! i = name"
  unfolding job_table_get by (auto dest!: map_of_SomeD simp: in_set_enumerate_eq)

lemma job_table_None: "im_get (job_table names) name = None \<longleftrightarrow> name \<notin> set names"
proof -
  have "map fst (map (\<lambda>(i, n). (n, i)) (enumerate 0 names)) = names"
    by (simp add: comp_def case_prod_beta)
  then have "fst ` set (map (\<lambda>(i, n). (n, i)) (enumerate 0 names)) = set names"
    by (metis set_map)
  then show ?thesis by (simp add: job_table_get map_of_eq_None_iff)
qed

lemma job_table_distinct:
  assumes "distinct names"
  shows "im_get (job_table names) name = Some i \<longleftrightarrow> i < length names \<and> names ! i = name"
proof
  assume "i < length names \<and> names ! i = name"
  moreover from this obtain j where "im_get (job_table names) name = Some j"
    using job_table_None [of names name] nth_mem by fastforce
  ultimately show "im_get (job_table names) name = Some i"
    using job_table_Some [of names name j] assms nth_eq_iff_index_eq by metis
qed (rule job_table_Some)

lemma job_deps_Inr:
  "job_deps table job ns acc = Inr ds \<Longrightarrow> distinct acc \<Longrightarrow>
   distinct ds \<and> set ds = set acc \<union> {i. \<exists>x \<in> set ns. im_get table (node x) = Some i} \<and>
   (\<forall>x \<in> set ns. im_get table (node x) \<noteq> None)"
proof (induction ns arbitrary: acc)
  case (Cons x ns)
  then obtain i where i: "im_get table (node x) = Some i" by (cases "im_get table (node x)") auto
  let ?acc = "if i \<in> set acc then acc else acc @ [i]"
  have "job_deps table job ns ?acc = Inr ds" "distinct ?acc" using Cons.prems i by auto
  from Cons.IH [OF this] show ?case using i by auto
qed simp

lemma job_deps_Inl:
  "job_deps table job ns acc = Inl e \<Longrightarrow>
   \<exists>x \<in> set ns. im_get table (node x) = None \<and> e = UnknownNeed (node_span x) job (node x)"
  by (induction ns arbitrary: acc) (auto split: option.splits)

lemma resolve_deps_Inr:
  assumes "resolve_deps jobs = Inr deps"
  shows "length deps = length jobs" "needs_known jobs" "\<forall>ds \<in> set deps. distinct ds" "valid_deps deps"
    "distinct (names_of jobs) \<Longrightarrow> edges deps = job_edges jobs"
proof -
  let ?t = "job_table (names_of jobs)"
  show len: "length deps = length jobs" using assms unfolding resolve_deps_def by (rule rmap_length)
  have ds: "distinct (deps ! j)" "set (deps ! j) = {i. \<exists>x \<in> set (needs (jobs ! j)). im_get ?t (node x) = Some i}"
      "\<forall>x \<in> set (needs (jobs ! j)). im_get ?t (node x) \<noteq> None" if "j < length jobs" for j
    using job_deps_Inr [OF rmap_nth [OF assms [unfolded resolve_deps_def] that]] by auto
  show "needs_known jobs"
    unfolding needs_known_def
  proof (intro ballI subsetI)
    fix j n assume "j \<in> set jobs" "n \<in> node ` set (needs j)"
    then obtain k x where "k < length jobs" "x \<in> set (needs (jobs ! k))" "n = node x" by (auto simp: in_set_conv_nth [of _ jobs])
    then show "n \<in> set (names_of jobs)" using ds(3) job_table_None by blast
  qed
  show "\<forall>ds \<in> set deps. distinct ds" using ds(1) len by (auto simp: in_set_conv_nth [of _ deps])
  have "i < length jobs" if "j < length jobs" "i \<in> set (deps ! j)" for i j
    using ds(2) [OF that(1)] that(2) job_table_Some [of "names_of jobs" _ i] by (auto simp: names_of_def)
  then show "valid_deps deps" using len by (simp add: valid_deps_def)
  show "edges deps = job_edges jobs" if "distinct (names_of jobs)"
    using ds(2) len job_table_distinct [OF that] unfolding edges_def job_edges_def
    by (auto simp: names_of_def image_iff) blast
qed

lemma resolve_deps_Inl:
  assumes "resolve_deps jobs = Inl e"
  shows "\<exists>j \<in> set jobs. \<exists>x \<in> set (needs j). node x \<notin> set (names_of jobs) \<and>
    e = UnknownNeed (node_span x) (node (job_id j)) (node x)"
proof -
  have "rmap f xs = Inl e \<Longrightarrow> \<exists>x \<in> set xs. f x = Inl e" for f and xs :: "job list"
    by (induction xs) (auto simp: rbind_eq_Inl)
  then obtain j where "j \<in> set jobs" "job_deps (job_table (names_of jobs)) (node (job_id j)) (needs j) [] = Inl e"
    using assms unfolding resolve_deps_def by blast
  then show ?thesis using job_deps_Inl job_table_None by metis
qed

lemma deps_of_ok: "valid_deps (deps_of jobs)" "\<forall>ds \<in> set (deps_of jobs). distinct ds"
  using resolve_deps_Inr(3,4) [of jobs] by (cases "resolve_deps jobs"; simp add: deps_of_def valid_deps_def)+

interpretation needs_graph: component_decomposition "deps_of jobs" "the (tarjan_sccs (deps_of jobs))" for jobs
proof -
  obtain cs where "tarjan_sccs (deps_of jobs) = Some cs" "components_ok (deps_of jobs) {} cs"
      "\<Union> (set ` set cs) = {..<length (deps_of jobs)}"
    using tarjan_sccs_ok [OF deps_of_ok(1)] by blast
  then show "component_decomposition (deps_of jobs) (the (tarjan_sccs (deps_of jobs)))"
    by unfold_locales simp_all
qed

section \<open>Cycles\<close>

lemma deps_of_Inr: "resolve_deps jobs = Inr deps \<Longrightarrow> deps_of jobs = deps"
  by (simp add: deps_of_def)

lemma tarjan_of_jobs: "tarjan_sccs (deps_of jobs) = Some (the (tarjan_sccs (deps_of jobs)))"
  using tarjan_sccs_ok [OF deps_of_ok(1), of jobs] by (metis option.sel)

lemma find_cycles_shows:
  "\<exists>cs ds. find_cycles names spans (deps_of jobs) = Some cs \<and> set cs = set ds \<and> length cs = length ds \<and>
     list_all2 (needs_graph.shows_loop jobs names spans)
       (filter (is_cycle (deps_of jobs)) (the (tarjan_sccs (deps_of jobs)))) ds"
proof -
  let ?comps = "the (tarjan_sccs (deps_of jobs))"
  obtain ds where ds: "display_cycles names spans (deps_of jobs) ?comps = Some ds"
      "list_all2 (needs_graph.shows_loop jobs names spans) (filter (is_cycle (deps_of jobs)) ?comps) ds"
    using needs_graph.display_cycles_shows [of ?comps jobs names spans] by blast
  obtain comps where comps: "tarjan_sccs (deps_of jobs) = Some comps"
    using tarjan_of_jobs by blast
  have "find_cycles names spans (deps_of jobs) = Some (sort_key first_member ds)"
    using ds(1) comps by (simp add: find_cycles_def)
  then show ?thesis using ds(2) by (metis length_sort set_sort)
qed

lemma no_cycle_acyclic:
  assumes "filter (is_cycle (deps_of jobs)) (the (tarjan_sccs (deps_of jobs))) = []"
  shows "acyclic (edges (deps_of jobs))"
  unfolding acyclic_def
proof (intro allI notI)
  fix v assume "(v, v) \<in> (edges (deps_of jobs))\<^sup>+"
  then show False
    using needs_graph.cyclic_component [of v jobs] assms by (auto simp: filter_empty_conv)
qed

lemma loop_cyclic:
  assumes "simple_loop (scc_neighbors names deps scc) start p" "set scc \<subseteq> {..<length deps}" "start \<in> set scc"
  shows "(start, start) \<in> (edges deps)\<^sup>+" "\<forall>v \<in> set p. v \<in> set scc"
proof -
  let ?R = "edges deps \<inter> set scc \<times> set scc"
  have N: "(v, w) \<in> ?R" if "w \<in> set (scc_neighbors names deps scc v)" "v \<in> set scc" for v w
    using that assms(2) by (auto simp: scc_neighbors_def edges_def)
  have walk: "q \<noteq> [] \<Longrightarrow> steps (scc_neighbors names deps scc) q \<Longrightarrow> hd q \<in> set scc \<Longrightarrow>
      (hd q, last q) \<in> ?R\<^sup>* \<and> set q \<subseteq> set scc" for q
  proof (induction q rule: rev_nonempty_induct)
    case (snoc x q)
    then have "(hd q, last q) \<in> ?R\<^sup>*" "set q \<subseteq> set scc" "x \<in> set (scc_neighbors names deps scc (last q))"
      by (auto simp: steps_snoc)
    moreover have "last q \<in> set scc" using snoc.hyps calculation(2) by auto
    ultimately show ?case using N [of x "last q"] snoc.hyps by (auto intro: rtrancl_into_rtrancl)
  qed simp
  have p: "(start, last p) \<in> ?R\<^sup>*" "set p \<subseteq> set scc" "p \<noteq> []" "start \<in> set (scc_neighbors names deps scc (last p))"
    using walk [of p] assms(1,3) by (auto simp: simple_loop_def)
  then show "\<forall>v \<in> set p. v \<in> set scc" by blast
  have "(last p, start) \<in> ?R" using N p by (simp add: subset_iff)
  then have "(start, start) \<in> ?R\<^sup>+" using p(1) by (rule rtrancl_into_trancl1 [rotated])
  then show "(start, start) \<in> (edges deps)\<^sup>+" by (rule trancl_mono) auto
qed

lemma displayed_cycle:
  assumes "needs_graph.shows_loop jobs names spans scc c" "scc \<in> set (the (tarjan_sccs (deps_of jobs)))"
  shows "\<exists>p. simple_loop (\<lambda>v. deps_of jobs ! v) (hd p) p \<and> members c = map (\<lambda>j. names ! j) p \<and>
    cycle_span c = spans ! hd p \<and> set p \<subseteq> set scc \<and> (\<forall>v \<in> set scc. names ! hd p \<le> names ! v)"
proof -
  let ?deps = "deps_of jobs" and ?comps = "the (tarjan_sccs (deps_of jobs))"
  obtain start p where p: "start = arg_min_list (\<lambda>j. names ! j) scc" "simple_loop (scc_neighbors names ?deps scc) start p"
      "cycle_span c = spans ! start" "members c = map (\<lambda>j. names ! j) p"
    using assms(1) unfolding needs_graph.shows_loop_def by blast
  obtain k where k: "k < length ?comps" "scc = ?comps ! k" using assms(2) by (auto simp: in_set_conv_nth)
  have scc: "scc \<noteq> []" "set scc \<subseteq> {..<length ?deps}"
    using needs_graph.part [OF k(1)] k(2) by (auto simp: component_ok_def)
  have start: "start \<in> set scc" unfolding p(1) using scc(1) by (rule arg_min_list_in)
  have least: "names ! start = Min ((\<lambda>j. names ! j) ` set scc)"
    unfolding p(1) using f_arg_min_list_f [OF scc(1), of "\<lambda>j. names ! j"] by simp
  have "simple_loop (\<lambda>v. ?deps ! v) start p"
    using p(2) unfolding simple_loop_def steps_def
    by (auto simp: scc_neighbors_def elim!: successively_mono)
  moreover have "hd p = start" using p(2) by (simp add: simple_loop_def)
  ultimately show ?thesis
    using p(3,4) loop_cyclic(2) [OF p(2) scc(2) start] least by auto
qed

lemma cycles_iff_cyclic:
  assumes "find_cycles names spans (deps_of jobs) = Some cs"
  shows "cs = [] \<longleftrightarrow> acyclic (edges (deps_of jobs))"
proof -
  let ?deps = "deps_of jobs" and ?comps = "the (tarjan_sccs (deps_of jobs))"
  obtain ds where ds: "length cs = length ds"
      "list_all2 (needs_graph.shows_loop jobs names spans) (filter (is_cycle ?deps) ?comps) ds"
    using find_cycles_shows [of names spans jobs] assms by auto
  show ?thesis
  proof
    assume "cs = []"
    then show "acyclic (edges ?deps)" using ds no_cycle_acyclic [of jobs] by auto
  next
    assume acyclic: "acyclic (edges ?deps)"
    show "cs = []"
    proof (rule ccontr)
      assume "cs \<noteq> []"
      then obtain scc rest where scc: "filter (is_cycle ?deps) ?comps = scc # rest"
        using ds by (cases "filter (is_cycle ?deps) ?comps") auto
      then have "scc \<in> set ?comps" "is_cycle ?deps scc" using filter_eq_ConsD by fastforce+
      then obtain k where k: "k < length ?comps" "scc = ?comps ! k" by (auto simp: in_set_conv_nth)
      have "scc \<noteq> []" "set scc \<subseteq> {..<length ?deps}"
        using needs_graph.part [OF k(1)] k(2) by (auto simp: component_ok_def)
      then obtain v q where "v \<in> set scc" "simple_loop (scc_neighbors names ?deps scc) v q"
        using needs_graph.component_loop [OF k(1)] \<open>is_cycle ?deps scc\<close> k(2) by (metis list.set_intros(1) neq_Nil_conv)
      then show False
        using loop_cyclic(1) [of names ?deps scc v q] \<open>set scc \<subseteq> {..<length ?deps}\<close> acyclic
        unfolding acyclic_def by blast
    qed
  qed
qed

section \<open>What the graph promises\<close>

lemma build_graph_eq:
  "build_graph jobs = (case resolve_deps jobs of
     Inl e \<Rightarrow> Some (Inl e)
   | Inr deps \<Rightarrow> Option.bind (find_cycles (names_of jobs) (map (node_span \<circ> job_id) jobs) deps) (\<lambda>cycles.
       if cycles \<noteq> [] then Some (Inl (Cycles cycles))
       else map_option (\<lambda>topo. Inr \<lparr>ids = names_of jobs, by_id = job_table (names_of jobs), topo_order = topo,
           wave = compute_waves topo deps\<rparr>) (kahn_topo_order deps (dependents_of deps))))"
  unfolding build_graph_def Let_def resolve_deps_def names_of_def ..

lemma build_graph_cases:
  assumes "resolve_deps jobs = Inr deps"
  obtains (accepted) p where "acyclic (edges deps)" "greedy deps p" "topological deps p"
      "build_graph jobs = Some (Inr \<lparr>ids = names_of jobs, by_id = job_table (names_of jobs), topo_order = p,
         wave = compute_waves p deps\<rparr>)"
  | (rejected) cs where "\<not> acyclic (edges deps)" "cs \<noteq> []"
      "find_cycles (names_of jobs) (map (node_span \<circ> job_id) jobs) deps = Some cs"
      "build_graph jobs = Some (Inl (Cycles cs))"
proof -
  have deps: "deps_of jobs = deps" using deps_of_Inr [OF assms] .
  obtain cs where cs: "find_cycles (names_of jobs) (map (node_span \<circ> job_id) jobs) deps = Some cs"
    using find_cycles_shows [of "names_of jobs" "map (node_span \<circ> job_id) jobs" jobs] deps by auto
  then have iff: "cs = [] \<longleftrightarrow> acyclic (edges deps)" using cycles_iff_cyclic deps by metis
  show ?thesis
  proof (cases "cs = []")
    case True
    obtain p where p: "kahn_topo_order deps (dependents_of deps) = Some p" "greedy deps p" "ready deps (set p) = {}"
      using kahn_result [OF resolve_deps_Inr(3) [OF assms]] by blast
    have "topological deps p"
      using greedy_topological [OF p(2,3)] True iff resolve_deps_Inr(4) [OF assms] by blast
    then show ?thesis
      using accepted [of p] True iff p cs assms by (simp add: build_graph_eq)
  next
    case False
    then show ?thesis using rejected [of cs] iff cs assms by (simp add: build_graph_eq)
  qed
qed

definition sample_job :: "string \<Rightarrow> string list \<Rightarrow> job" where
  "sample_job name ns = \<lparr>job_id = \<lparr>node = lit name, node_span = sample_span\<rparr>,
     needs = map (\<lambda>n. \<lparr>node = lit n, node_span = sample_span\<rparr>) ns\<rparr>"

definition sample_jobs :: "job list" where
  "sample_jobs = [sample_job ''deploy'' [''build'', ''test''], sample_job ''build'' [], sample_job ''test'' [''build'']]"

definition cyclic_jobs :: "job list" where
  "cyclic_jobs = [sample_job ''b'' [''c''], sample_job ''a'' [''b''], sample_job ''c'' [''a'', ''b'']]"

lemma sample_jobs_distinct: "distinct (names_of sample_jobs)" "distinct (names_of cyclic_jobs)"
  by (simp_all add: sample_jobs_def cyclic_jobs_def names_of_def sample_job_def lit_def)

text \<open>
  C15: the \<open>needs\<close> graph is accepted exactly when it is one. For job lists with distinct ids
  the planner always returns an answer, and it returns a graph just when every name in a
  \<open>needs:\<close> list is a job of the workflow and no job depends on itself through any chain of
  dependencies; otherwise it returns an error: the unknown name, or a non-empty list of
  cycles.
\<close>

theorem graph_accepted_iff_acyclic:
  assumes "distinct (names_of jobs)"
  shows "\<exists>r. build_graph jobs = Some r \<and>
    (case r of
       Inr g \<Rightarrow> needs_known jobs \<and> acyclic (job_edges jobs)
     | Inl (UnknownNeed sp job need) \<Rightarrow> (\<exists>j \<in> set jobs. \<exists>x \<in> set (needs j).
         need = node x \<and> sp = node_span x \<and> job = node (job_id j) \<and> need \<notin> set (names_of jobs))
     | Inl (Cycles cs) \<Rightarrow> needs_known jobs \<and> \<not> acyclic (job_edges jobs) \<and> cs \<noteq> [])"
proof (cases "resolve_deps jobs")
  case (Inl e)
  then obtain j x where "j \<in> set jobs" "x \<in> set (needs j)" "node x \<notin> set (names_of jobs)"
      "e = UnknownNeed (node_span x) (node (job_id j)) (node x)"
    using resolve_deps_Inl by blast
  then show ?thesis using Inl by (intro exI [of _ "Inl e"]) (simp add: build_graph_eq, blast)
next
  case (Inr deps)
  have "edges deps = job_edges jobs" "needs_known jobs" using resolve_deps_Inr [OF Inr] assms by blast+
  then show ?thesis by (cases rule: build_graph_cases [OF Inr]) auto
qed

theorem graph_accepted_iff_acyclic_witness:
  "needs_known sample_jobs \<and> acyclic (job_edges sample_jobs) \<and>
   map_option (map_sum id topo_order) (build_graph sample_jobs) = Some (Inr [1, 2, 0])"
proof -
  have run: "map_option (map_sum id topo_order) (build_graph sample_jobs) = Some (Inr [1, 2, 0])"
    by code_simp
  obtain r where r: "build_graph sample_jobs = Some r"
    and r': "case r of
       Inr g \<Rightarrow> needs_known sample_jobs \<and> acyclic (job_edges sample_jobs)
     | Inl (UnknownNeed sp job need) \<Rightarrow> (\<exists>j \<in> set sample_jobs. \<exists>x \<in> set (needs j).
         need = node x \<and> sp = node_span x \<and> job = node (job_id j) \<and> need \<notin> set (names_of sample_jobs))
     | Inl (Cycles cs) \<Rightarrow> needs_known sample_jobs \<and> \<not> acyclic (job_edges sample_jobs) \<and> cs \<noteq> []"
    using graph_accepted_iff_acyclic [OF sample_jobs_distinct(1)] by blast
  have "\<exists>g. r = Inr g" using run r by (cases r) auto
  then show ?thesis using r' run by auto
qed

text \<open>
  C21: the order and the waves of an accepted graph. The order lists every job once, after all
  of its dependencies, and is the smallest such order by declaration; a job's wave is the
  length of the longest chain of dependencies that starts at it.
\<close>

theorem graph_order_least_and_waves:
  assumes "distinct (names_of jobs)" "build_graph jobs = Some (Inr g)"
  shows "topological (deps_of jobs) (topo_order g) \<and> edges (deps_of jobs) = job_edges jobs \<and>
    (\<forall>q. topological (deps_of jobs) q \<longrightarrow> topo_order g \<le> q) \<and>
    (\<forall>j < length jobs. \<forall>k. (\<exists>x. (j, x) \<in> job_edges jobs ^^ k) \<longleftrightarrow> k \<le> wave g ! j)"
proof (cases "resolve_deps jobs")
  case (Inl e)
  then show ?thesis using assms(2) by (simp add: build_graph_eq)
next
  case (Inr deps)
  have deps: "deps_of jobs = deps" "edges deps = job_edges jobs" "length deps = length jobs"
    using deps_of_Inr [OF Inr] resolve_deps_Inr [OF Inr] assms(1) by blast+
  show ?thesis
  proof (cases rule: build_graph_cases [OF Inr])
    case (1 p)
    then have "topo_order g = p" "wave g = compute_waves p deps" using assms(2) by auto
    then show ?thesis
      using 1(2,3) greedy_least [OF 1(2,3)] waves_longest_chain [OF 1(3)] deps by simp
  qed (use assms(2) in simp)
qed

theorem graph_order_least_and_waves_witness:
  "\<exists>g. build_graph sample_jobs = Some (Inr g) \<and> topological (deps_of sample_jobs) (topo_order g) \<and>
     wave g = [2, 0, 1]"
proof -
  have "map_option (map_sum id wave) (build_graph sample_jobs) = Some (Inr [2, 0, 1])"
    by code_simp
  then obtain g where g: "build_graph sample_jobs = Some (Inr g)" "wave g = [2, 0, 1]"
    by (cases "build_graph sample_jobs"; cases "the (build_graph sample_jobs)") auto
  then show ?thesis using graph_order_least_and_waves [OF sample_jobs_distinct(1) g(1)] by blast
qed

text \<open>
  C22: every reported cycle is real, and every cycle is reported. Each one lists the ids of a
  loop of distinct jobs, each needing the next and the last needing the first, starting at
  the smallest id, located at that job's declaration; and a job that depends on itself is
  mutually dependent with all the jobs of some reported cycle.
\<close>

theorem graph_cycles_genuine_and_complete:
  assumes "distinct (names_of jobs)" "build_graph jobs = Some (Inl (Cycles cs))"
  shows "(\<forall>c \<in> set cs. \<exists>p. simple_loop (\<lambda>v. deps_of jobs ! v) (hd p) p \<and> set p \<subseteq> {..<length jobs} \<and>
      members c = map (\<lambda>j. names_of jobs ! j) p \<and> cycle_span c = node_span (job_id (jobs ! hd p)) \<and>
      (\<forall>v \<in> set p. names_of jobs ! hd p \<le> names_of jobs ! v)) \<and>
    edges (deps_of jobs) = job_edges jobs \<and>
    (\<forall>v. (v, v) \<in> (job_edges jobs)\<^sup>+ \<longrightarrow> (\<exists>c \<in> set cs. \<exists>p. members c = map (\<lambda>j. names_of jobs ! j) p \<and>
      p \<noteq> [] \<and> (\<forall>w \<in> set p. (v, w) \<in> (job_edges jobs)\<^sup>* \<and> (w, v) \<in> (job_edges jobs)\<^sup>*)))"
proof (cases "resolve_deps jobs")
  case (Inl e)
  then show ?thesis using assms(2) resolve_deps_Inl [OF Inl] by (auto simp: build_graph_eq)
next
  case (Inr deps)
  let ?names = "names_of jobs" and ?spans = "map (node_span \<circ> job_id) jobs"
  let ?comps = "the (tarjan_sccs (deps_of jobs))"
  have deps: "deps_of jobs = deps" "edges deps = job_edges jobs" "length deps = length jobs"
    using deps_of_Inr [OF Inr] resolve_deps_Inr [OF Inr] assms(1) by blast+
  have "find_cycles ?names ?spans (deps_of jobs) = Some cs"
    using assms(2) unfolding deps(1) by (cases rule: build_graph_cases [OF Inr]) simp_all
  then obtain ds where ds: "set cs = set ds"
      "list_all2 (needs_graph.shows_loop jobs ?names ?spans) (filter (is_cycle (deps_of jobs)) ?comps) ds"
    using find_cycles_shows [of ?names ?spans jobs] by auto
  have shown: "\<exists>p. simple_loop (\<lambda>v. deps_of jobs ! v) (hd p) p \<and> members c = map (\<lambda>j. ?names ! j) p \<and>
      cycle_span c = ?spans ! hd p \<and> set p \<subseteq> set scc \<and> (\<forall>v \<in> set scc. ?names ! hd p \<le> ?names ! v)"
    if "needs_graph.shows_loop jobs ?names ?spans scc c" "scc \<in> set ?comps" for scc c
    using displayed_cycle [OF that] .
  have real: "\<exists>p. simple_loop (\<lambda>v. deps_of jobs ! v) (hd p) p \<and> set p \<subseteq> {..<length jobs} \<and>
      members c = map (\<lambda>j. ?names ! j) p \<and> cycle_span c = node_span (job_id (jobs ! hd p)) \<and>
      (\<forall>v \<in> set p. ?names ! hd p \<le> ?names ! v)" if c: "c \<in> set cs" for c
  proof -
    obtain scc where scc: "scc \<in> set ?comps" "needs_graph.shows_loop jobs ?names ?spans scc c"
      using list_all2_member(1) [OF ds(2), of c] ds(1) c by auto
    obtain p where p: "simple_loop (\<lambda>v. deps_of jobs ! v) (hd p) p" "members c = map (\<lambda>j. ?names ! j) p"
        "cycle_span c = ?spans ! hd p" "set p \<subseteq> set scc" "\<forall>v \<in> set scc. ?names ! hd p \<le> ?names ! v"
      using shown [OF scc(2,1)] by blast
    have "set scc \<subseteq> {..<length jobs}"
      using scc(1) needs_graph.cover [of jobs] deps by auto
    moreover have "hd p \<in> set p" using p(1) by (simp add: simple_loop_def)
    ultimately show ?thesis using p by (intro exI [of _ p]) auto
  qed
  have complete: "\<exists>c \<in> set cs. \<exists>p. members c = map (\<lambda>j. ?names ! j) p \<and>
      p \<noteq> [] \<and> (\<forall>w \<in> set p. (v, w) \<in> (job_edges jobs)\<^sup>* \<and> (w, v) \<in> (job_edges jobs)\<^sup>*)"
    if v: "(v, v) \<in> (job_edges jobs)\<^sup>+" for v
  proof -
    let ?k = "needs_graph.rank jobs v"
    have k: "?k < length ?comps" "v \<in> set (?comps ! ?k)" "is_cycle (deps_of jobs) (?comps ! ?k)"
      using needs_graph.cyclic_component [of v jobs] v deps by auto
    then have "?comps ! ?k \<in> set (filter (is_cycle (deps_of jobs)) ?comps)" by simp
    then obtain c where c: "c \<in> set cs" "needs_graph.shows_loop jobs ?names ?spans (?comps ! ?k) c"
      using list_all2_member(2) [OF ds(2)] ds(1) by blast
    obtain p where "simple_loop (\<lambda>v. deps_of jobs ! v) (hd p) p" "members c = map (\<lambda>j. ?names ! j) p"
        "set p \<subseteq> set (?comps ! ?k)"
      using shown [OF c(2)] k(1) by auto
    then show ?thesis
      using c(1) needs_graph.component_connected(2) [OF k(1)] k(2) deps
      by (intro bexI [of _ c] exI [of _ p]) (auto simp: simple_loop_def)
  qed
  show ?thesis using real complete deps by blast
qed

theorem graph_cycles_genuine_and_complete_witness:
  "\<exists>c. build_graph cyclic_jobs = Some (Inl (Cycles [c])) \<and> members c = [lit ''a'', lit ''b'', lit ''c''] \<and>
     (\<exists>p. simple_loop (\<lambda>v. deps_of cyclic_jobs ! v) (hd p) p)"
proof -
  let ?show = "\<lambda>r. case r of Inl (Cycles cs) \<Rightarrow> map members cs | _ \<Rightarrow> []"
  have "map_option ?show (build_graph cyclic_jobs) = Some [[lit ''a'', lit ''b'', lit ''c'']]"
    by code_simp
  then obtain r where r: "build_graph cyclic_jobs = Some r" "?show r = [[lit ''a'', lit ''b'', lit ''c'']]"
    by blast
  then obtain cs where cs: "r = Inl (Cycles cs)" "map members cs = [[lit ''a'', lit ''b'', lit ''c'']]"
    by (auto split: sum.splits graph_error.splits)
  then obtain c where c: "cs = [c]" "members c = [lit ''a'', lit ''b'', lit ''c'']" by auto
  have run: "build_graph cyclic_jobs = Some (Inl (Cycles [c]))" using r(1) cs(1) c(1) by simp
  then show ?thesis
    using graph_cycles_genuine_and_complete [OF sample_jobs_distinct(2) run] c(2) by auto
qed

end
