(* ===== verification/Static_Skip.thy ===== *)
theory Static_Skip
  imports Step_Exec Graph_Laws
begin

text \<open>
  Static skips (\<open>greenlit-engine/src/plan/skip.rs\<close>, the parts of \<open>plan/types.rs\<close> and \<open>plan/job.rs\<close>
  it reads): once every job is planned, the jobs and matrix legs that cannot run are marked, in the
  topological order of the graph, so that a skip reaches the jobs behind it.
\<close>

datatype static_skip = ConditionFalse | NeedSkipped ustr

record leg_plan =
  lg_condition :: "if_condition option"
  lg_skip :: "static_skip option"

text \<open>\<open>pj_matrix\<close>: the job has a matrix, and whether its expansion is deferred to the run.\<close>

record job_plan =
  pj_id :: ustr
  pj_needs :: "ustr list"
  pj_wave :: nat
  pj_condition :: "if_condition option"
  pj_gate :: bool
  pj_skip :: "static_skip option"
  pj_matrix :: "bool option"
  pj_legs :: "leg_plan list"

section \<open>The needs and the wave of a planned job\<close>

fun plan_needs :: "ustr list \<Rightarrow> ustr spanned list \<Rightarrow> ustr list" where
  "plan_needs seen_names [] = []"
| "plan_needs seen_names (n # ns) = (if node n \<in> set seen_names then plan_needs seen_names ns
     else node n # plan_needs (node n # seen_names) ns)"

definition plan_wave :: "job_graph \<Rightarrow> ustr \<Rightarrow> nat" where
  "plan_wave g x = (case im_get (by_id g) x of Some i \<Rightarrow> wave g ! i | None \<Rightarrow> 0)"

section \<open>Propagation\<close>

definition decide_skip :: "if_condition option \<Rightarrow> bool \<Rightarrow> ustr option \<Rightarrow> static_skip option" where
  "decide_skip cond gate first_skipped_need =
    (if (case cond of Some c \<Rightarrow> cond_eval c = StaticCond False | None \<Rightarrow> False) then Some ConditionFalse
     else if gate then map_option NeedSkipped first_skipped_need
     else None)"

definition single :: "job_plan \<Rightarrow> bool" where
  "single j \<longleftrightarrow> pj_matrix j = None \<or> pj_matrix j = Some True"

definition plan_index :: "job_plan list \<Rightarrow> ustr \<Rightarrow> nat option" where
  "plan_index plans = map_of (rev (zip (map pj_id plans) [0 ..< length plans]))"

type_synonym skip_state = "job_plan list \<times> (ustr \<Rightarrow> bool option)"

definition skip_step :: "job_graph \<Rightarrow> (ustr \<Rightarrow> nat option) \<Rightarrow> nat \<Rightarrow> skip_state \<Rightarrow> skip_state" where
  "skip_step g table idx st = (case st of (plans, fully) \<Rightarrow>
     (case table (ids g ! idx) of
        None \<Rightarrow> (plans, fully)
      | Some i \<Rightarrow>
         (let j = plans ! i; need = find (\<lambda>n. fully n = Some True) (pj_needs j) in
          if single j
          then (let skip = decide_skip (pj_condition j) (pj_gate j) need in
                (plans[i := j\<lparr>pj_skip := skip\<rparr>], fully(ids g ! idx \<mapsto> skip \<noteq> None)))
          else (let legs = map (\<lambda>l. l\<lparr>lg_skip := decide_skip (lg_condition l) (pj_gate j) need\<rparr>) (pj_legs j) in
                (plans[i := j\<lparr>pj_legs := legs\<rparr>],
                 fully(ids g ! idx \<mapsto> list_all (\<lambda>l. lg_skip l \<noteq> None) legs \<and> legs \<noteq> []))))))"

definition propagate_static_skip :: "job_graph \<Rightarrow> job_plan list \<Rightarrow> job_plan list" where
  "propagate_static_skip g plans =
     fst (fold (skip_step g (plan_index plans)) (topo_order g) (plans, Map.empty))"

section \<open>What a static skip means\<close>

definition never :: "if_condition option \<Rightarrow> bool" where
  "never cond = (case cond of Some c \<Rightarrow> cond_eval c = StaticCond False | None \<Rightarrow> False)"

text \<open>The conditions of the instances of a job: its own, or those of its legs.\<close>

definition targets :: "job_plan \<Rightarrow> if_condition option list" where
  "targets j = (if single j then [pj_condition j] else map lg_condition (pj_legs j))"

text \<open>A job none of whose instances can run, by itself or through a need behind the implicit gate.\<close>

inductive fully_skipped :: "job_plan list \<Rightarrow> ustr \<Rightarrow> bool" for plans where
  own: "j \<in> set plans \<Longrightarrow> targets j \<noteq> [] \<Longrightarrow> list_all never (targets j) \<Longrightarrow> fully_skipped plans (pj_id j)"
| need: "j \<in> set plans \<Longrightarrow> targets j \<noteq> [] \<Longrightarrow> pj_gate j \<Longrightarrow> n \<in> set (pj_needs j) \<Longrightarrow>
    fully_skipped plans n \<Longrightarrow> fully_skipped plans (pj_id j)"

definition skip_of :: "job_plan list \<Rightarrow> job_plan \<Rightarrow> job_plan" where
  "skip_of plans j = (let need = find (fully_skipped plans) (pj_needs j) in
     if single j then j\<lparr>pj_skip := decide_skip (pj_condition j) (pj_gate j) need\<rparr>
     else j\<lparr>pj_legs := map (\<lambda>l. l\<lparr>lg_skip := decide_skip (lg_condition l) (pj_gate j) need\<rparr>) (pj_legs j)\<rparr>)"

lemma decide_skip_decides: "decide_skip c gate x \<noteq> None \<longleftrightarrow> never c \<or> gate \<and> x \<noteq> None"
  by (auto simp: decide_skip_def never_def split: option.splits)

lemma fully_skipped_iff:
  assumes "distinct (map pj_id plans)" "j \<in> set plans"
  shows "fully_skipped plans (pj_id j) \<longleftrightarrow> targets j \<noteq> [] \<and> (list_all never (targets j) \<or>
    (pj_gate j \<and> (\<exists>n \<in> set (pj_needs j). fully_skipped plans n)))"
proof -
  have "j' = j" if "j' \<in> set plans" "pj_id j' = pj_id j" for j'
    using assms that by (auto simp: distinct_map inj_on_def)
  then show ?thesis
    by (subst fully_skipped.simps) (use assms(2) in metis)
qed

lemma plan_index_nth:
  assumes "distinct (map pj_id plans)" "i < length plans"
  shows "plan_index plans (pj_id (plans ! i)) = Some i"
proof -
  have "distinct (map fst (rev (zip (map pj_id plans) [0 ..< length plans])))"
    using assms(1) by (simp add: rev_map [symmetric])
  moreover have "(pj_id (plans ! i), i) \<in> set (rev (zip (map pj_id plans) [0 ..< length plans]))"
    using assms(2) by (auto simp: in_set_zip intro!: exI [of _ i])
  ultimately show ?thesis unfolding plan_index_def by (rule map_of_is_SomeI)
qed

lemma find_cong': "(\<And>x. x \<in> set xs \<Longrightarrow> P x = Q x) \<Longrightarrow> find P xs = find Q xs"
  by (induction xs) auto

lemma find_None_iff': "find P xs = None \<longleftrightarrow> (\<forall>x \<in> set xs. \<not> P x)"
  by (auto simp: find_None_iff)

text \<open>The state after the jobs in \<open>q\<close>.\<close>

definition skipped_to :: "job_plan list \<Rightarrow> nat set \<Rightarrow> skip_state" where
  "skipped_to plans Q = (map (\<lambda>i. if i \<in> Q then skip_of plans (plans ! i) else plans ! i) [0 ..< length plans],
     \<lambda>x. if \<exists>i \<in> Q. i < length plans \<and> pj_id (plans ! i) = x then Some (fully_skipped plans x) else None)"

lemma skip_step_ok:
  assumes names: "distinct (map pj_id plans)" "ids g = map pj_id plans" "i < length plans" "i \<notin> Q"
    and needs: "\<forall>n \<in> set (pj_needs (plans ! i)). \<exists>k \<in> Q. k < length plans \<and> pj_id (plans ! k) = n"
  shows "skip_step g (plan_index plans) i (skipped_to plans Q) = skipped_to plans (insert i Q)"
proof -
  let ?j = "plans ! i"
  let ?need = "find (fully_skipped plans) (pj_needs ?j)"
  let ?now = "map (\<lambda>i. if i \<in> Q then skip_of plans (plans ! i) else plans ! i) [0 ..< length plans]"
  let ?fully = "\<lambda>x. if \<exists>i \<in> Q. i < length plans \<and> pj_id (plans ! i) = x then Some (fully_skipped plans x) else None"
  have found: "find (\<lambda>n. ?fully n = Some True) (pj_needs ?j) = ?need"
    using needs by (intro find_cong') auto
  have now: "?now ! i = ?j" "?now[i := skip_of plans ?j] =
      map (\<lambda>k. if k \<in> insert i Q then skip_of plans (plans ! k) else plans ! k) [0 ..< length plans]"
    using names(3,4) by (auto simp: nth_list_update intro: nth_equalityI)
  have fully: "?fully(pj_id ?j \<mapsto> fully_skipped plans (pj_id ?j)) = (\<lambda>x. if \<exists>i \<in> insert i Q.
      i < length plans \<and> pj_id (plans ! i) = x then Some (fully_skipped plans x) else None)"
    using names(3) by (intro ext) auto
  have need: "?need = None \<longleftrightarrow> (\<forall>n \<in> set (pj_needs ?j). \<not> fully_skipped plans n)"
    by (rule find_None_iff')
  note iff = fully_skipped_iff [OF names(1), of ?j]
  have index: "plan_index plans (ids g ! i) = Some i" "ids g ! i = pj_id ?j"
    using plan_index_nth [OF names(1,3)] names(2,3) by simp_all
  show ?thesis
  proof (cases "single ?j")
    case True
    have "decide_skip (pj_condition ?j) (pj_gate ?j) ?need \<noteq> None \<longleftrightarrow> fully_skipped plans (pj_id ?j)"
      using iff need names(3) True unfolding decide_skip_decides by (simp add: targets_def)
    then show ?thesis
      using True index found now fully unfolding skip_step_def skipped_to_def
      by (simp add: skip_of_def Let_def)
  next
    case False
    let ?legs = "map (\<lambda>l. l\<lparr>lg_skip := decide_skip (lg_condition l) (pj_gate ?j) ?need\<rparr>) (pj_legs ?j)"
    have "(list_all (\<lambda>l. lg_skip l \<noteq> None) ?legs \<and> ?legs \<noteq> []) \<longleftrightarrow> fully_skipped plans (pj_id ?j)"
    proof -
      have "list_all (\<lambda>l. lg_skip l \<noteq> None) ?legs \<longleftrightarrow>
          (\<forall>l \<in> set (pj_legs ?j). never (lg_condition l) \<or> pj_gate ?j \<and> ?need \<noteq> None)"
        by (simp add: list_all_iff decide_skip_decides del: not_None_eq)
      then show ?thesis
        using iff need names(3) False by (auto simp: targets_def list_all_iff)
    qed
    then show ?thesis
      using False index found now fully unfolding skip_step_def skipped_to_def
      by (simp add: skip_of_def Let_def)
  qed
qed

lemma fold_skip_step:
  assumes "distinct (map pj_id plans)" "ids g = map pj_id plans" "distinct p" "set p \<subseteq> {..<length plans}"
    and "\<forall>k < length p. \<forall>n \<in> set (pj_needs (plans ! (p ! k))).
      \<exists>i \<in> set (take k p). pj_id (plans ! i) = n"
  shows "fold (skip_step g (plan_index plans)) p (plans, Map.empty) = skipped_to plans (set p)"
  using assms(3-5)
proof (induction p rule: rev_induct)
  case Nil
  then show ?case by (auto simp: skipped_to_def map_nth)
next
  case (snoc i p)
  have before: "\<forall>k < length p. \<forall>n \<in> set (pj_needs (plans ! (p ! k))). \<exists>i \<in> set (take k p). pj_id (plans ! i) = n"
  proof (intro allI impI)
    fix k assume "k < length p"
    then show "\<forall>n \<in> set (pj_needs (plans ! (p ! k))). \<exists>i \<in> set (take k p). pj_id (plans ! i) = n"
      using snoc.prems(3) [rule_format, of k] by (simp add: nth_append)
  qed
  have "\<forall>n \<in> set (pj_needs (plans ! i)). \<exists>k \<in> set p. k < length plans \<and> pj_id (plans ! k) = n"
    using snoc.prems(3) [rule_format, of "length p"] snoc.prems(2) by fastforce
  then have "skip_step g (plan_index plans) i (skipped_to plans (set p)) = skipped_to plans (insert i (set p))"
    using snoc.prems(1,2) assms(1,2) by (intro skip_step_ok) auto
  then show ?case using snoc before by simp
qed

section \<open>On an accepted graph\<close>

text \<open>The plans of the jobs of a workflow: same order, same ids, the needs without repetitions.\<close>

definition planned_from :: "job list \<Rightarrow> job_plan list \<Rightarrow> bool" where
  "planned_from jobs plans \<longleftrightarrow> map pj_id plans = names_of jobs \<and>
     map pj_needs plans = map (\<lambda>j. plan_needs [] (needs j)) jobs"

lemma set_plan_needs: "set (plan_needs s ns) = node ` set ns - set s"
  by (induction s ns rule: plan_needs.induct) auto

lemma distinct_plan_needs: "distinct (plan_needs s ns)"
  by (induction s ns rule: plan_needs.induct) (auto simp: set_plan_needs)

lemma planned_from_nth:
  assumes "planned_from jobs plans" "i < length jobs"
  shows "length plans = length jobs" "pj_id (plans ! i) = names_of jobs ! i"
    "set (pj_needs (plans ! i)) = node ` set (needs (jobs ! i))"
proof -
  show len: "length plans = length jobs"
    using assms(1) by (metis length_map planned_from_def)
  have "map pj_id plans ! i = names_of jobs ! i"
      "map pj_needs plans ! i = map (\<lambda>j. plan_needs [] (needs j)) jobs ! i"
    using assms(1) by (simp_all add: planned_from_def)
  then show "pj_id (plans ! i) = names_of jobs ! i"
      "set (pj_needs (plans ! i)) = node ` set (needs (jobs ! i))"
    using assms(2) len by (simp_all add: set_plan_needs)
qed

text \<open>What an accepted graph gives: its order covers the jobs, each after the jobs it needs.\<close>

lemma accepted_order:
  assumes "distinct (names_of jobs)" "build_graph jobs = Some (Inr g)" "planned_from jobs plans"
  shows "ids g = map pj_id plans" "distinct (topo_order g)" "set (topo_order g) = {..<length plans}"
    "\<forall>k < length (topo_order g). \<forall>n \<in> set (pj_needs (plans ! (topo_order g ! k))).
       \<exists>i \<in> set (take k (topo_order g)). pj_id (plans ! i) = n"
proof -
  obtain deps where deps: "resolve_deps jobs = Inr deps"
    using assms(2) by (cases "resolve_deps jobs") (simp_all add: build_graph_eq)
  have edges: "edges deps = job_edges jobs" and len: "length deps = length jobs" and known: "needs_known jobs"
    using resolve_deps_Inr [OF deps] assms(1) by blast+
  obtain p where p: "topological deps p" "topo_order g = p" "ids g = names_of jobs"
    by (cases rule: build_graph_cases [OF deps]) (use assms(2) in auto)
  have plans: "length plans = length jobs" "map pj_id plans = names_of jobs"
    using assms(3) by (auto simp: planned_from_def dest: arg_cong [where f = length])
  show "ids g = map pj_id plans" "distinct (topo_order g)" "set (topo_order g) = {..<length plans}"
    using p plans len by (simp_all add: topological_def)
  show "\<forall>k < length (topo_order g). \<forall>n \<in> set (pj_needs (plans ! (topo_order g ! k))).
       \<exists>i \<in> set (take k (topo_order g)). pj_id (plans ! i) = n"
    unfolding p(2)
  proof (intro allI impI ballI)
    fix k n
    assume k: "k < length p" and n: "n \<in> set (pj_needs (plans ! (p ! k)))"
    have job: "p ! k < length jobs" using k p(1) len by (metis lessThan_iff nth_mem topological_def)
    have "n \<in> node ` set (needs (jobs ! (p ! k)))" using n planned_from_nth(3) [OF assms(3) job] by simp
    moreover from this have "n \<in> set (names_of jobs)"
      using known nth_mem [OF job] unfolding needs_known_def by blast
    then obtain i where i: "i < length jobs" "names_of jobs ! i = n"
      by (auto simp: in_set_conv_nth names_of_def)
    ultimately have "(p ! k, i) \<in> job_edges jobs" using job by (auto simp: job_edges_def names_of_def)
    then have "i \<in> set (deps ! (p ! k))" unfolding edges [symmetric] by (simp add: edges_def)
    then have "i \<in> set (take k p)" using p(1) k by (auto simp: topological_def)
    then show "\<exists>i \<in> set (take k p). pj_id (plans ! i) = n"
      using i planned_from_nth(2) [OF assms(3) i(1)] by auto
  qed
qed

lemma marked_never_activates:
  assumes "decide_skip cond (pj_gate j) (find (fully_skipped plans) (pj_needs j)) \<noteq> None"
    and "\<forall>n \<in> set (pj_needs j). fully_skipped plans n \<longrightarrow>
          (\<exists>r \<in> set records. nr_job r = n \<and> nr_result r \<noteq> CSuccess)"
  shows "job_activates False cond (pj_gate j) records c rc \<noteq> Inr True"
proof (cases "never cond")
  case True
  then show ?thesis
    by (auto simp: job_activates_def never_def resolve_condition_def eval_err_def split: option.splits)
next
  case False
  then obtain n where "pj_gate j" "n \<in> set (pj_needs j)" "fully_skipped plans n"
    using assms(1) unfolding decide_skip_decides find_None_iff' by blast
  then have "\<not> list_all (\<lambda>r. nr_result r = CSuccess) records"
    using assms(2) by (auto simp: list_all_iff)
  then show ?thesis using \<open>pj_gate j\<close> by (auto simp: job_activates_def rbind_eq_Inr)
qed

text \<open>
  C20: static skips are exact and sound. On an accepted graph the one pass in topological order marks
  every job and leg as the least fixed point says: an instance is marked for its own condition if
  that is statically false, and otherwise, behind the implicit gate, for its first need all of
  whose instances are marked. Dropping the marks would change nothing: in a run where a fully
  skipped need is not reported as a success, the condition of a marked instance never holds.
\<close>

theorem static_skip_exact_and_sound:
  assumes "distinct (names_of jobs)" "build_graph jobs = Some (Inr g)" "planned_from jobs plans"
  shows "propagate_static_skip g plans = map (skip_of plans) plans \<and>
    (\<forall>j \<in> set plans. \<forall>cond \<in> set (targets j). \<forall>records c rc.
       decide_skip cond (pj_gate j) (find (fully_skipped plans) (pj_needs j)) \<noteq> None \<longrightarrow>
       (\<forall>n \<in> set (pj_needs j). fully_skipped plans n \<longrightarrow>
          (\<exists>r \<in> set records. nr_job r = n \<and> nr_result r \<noteq> CSuccess)) \<longrightarrow>
       job_activates False cond (pj_gate j) records c rc \<noteq> Inr True)"
proof (intro conjI ballI allI impI)
  note order = accepted_order [OF assms]
  have distinct: "distinct (map pj_id plans)" using assms(1,3) by (simp add: planned_from_def)
  have "fold (skip_step g (plan_index plans)) (topo_order g) (plans, Map.empty) =
      skipped_to plans (set (topo_order g))"
    using order distinct by (intro fold_skip_step) auto
  then show "propagate_static_skip g plans = map (skip_of plans) plans"
    by (auto simp: propagate_static_skip_def skipped_to_def order(3) intro: nth_equalityI)
qed (rule marked_never_activates)

text \<open>A job that is switched off, one behind it, and one that runs whatever happens.\<close>

definition sample_plan :: "job \<Rightarrow> if_condition option \<Rightarrow> bool \<Rightarrow> job_plan" where
  "sample_plan j cond gate = \<lparr>pj_id = node (job_id j), pj_needs = plan_needs [] (needs j), pj_wave = 0,
     pj_condition = cond, pj_gate = gate, pj_skip = None, pj_matrix = None, pj_legs = []\<rparr>"

definition sample_plans :: "job_plan list" where
  "sample_plans = [sample_plan (sample_jobs ! 0) None False,
     sample_plan (sample_jobs ! 1)
       (Some \<lparr>cond_span = sample_span, cond_source = [], cond_eval = StaticCond False\<rparr>) True,
     sample_plan (sample_jobs ! 2) None True]"

theorem static_skip_exact_and_sound_witness:
  "\<exists>g. build_graph sample_jobs = Some (Inr g) \<and>
     propagate_static_skip g sample_plans = map (skip_of sample_plans) sample_plans \<and>
     map pj_skip (propagate_static_skip g sample_plans) =
       [None, Some ConditionFalse, Some (NeedSkipped (lit ''build''))]"
proof -
  have planned: "planned_from sample_jobs sample_plans"
    by (simp add: planned_from_def sample_plans_def sample_plan_def sample_jobs_def names_of_def)
  have "map_option (map_sum id (\<lambda>g. map pj_skip (propagate_static_skip g sample_plans)))
      (build_graph sample_jobs) = Some (Inr [None, Some ConditionFalse, Some (NeedSkipped (lit ''build''))])"
    by code_simp
  then obtain g where g: "build_graph sample_jobs = Some (Inr g)"
    "map pj_skip (propagate_static_skip g sample_plans) =
       [None, Some ConditionFalse, Some (NeedSkipped (lit ''build''))]"
    by (cases "build_graph sample_jobs"; cases "the (build_graph sample_jobs)") auto
  then show ?thesis
    using conjunct1 [OF static_skip_exact_and_sound [OF sample_jobs_distinct(1) g(1) planned]]
    by (intro exI conjI)
qed

end
