(* ===== verification/Planned_Run.thy ===== *)
theory Planned_Run
  imports Scheduler_Chain Static_Skip
begin

text \<open>
  From the plan to the run (\<open>greenlit-engine/src/plan/mod.rs\<close>: the order of an execution plan,
  \<open>greenlit-runtime/src/executor/instance.rs\<close>: \<open>expand\<close>): the groups the scheduler gets from an
  accepted graph are well founded, so a run completes every job after the jobs it needs.
\<close>

definition plan_order :: "job_graph \<Rightarrow> ustr list" where
  "plan_order g = map (\<lambda>i. ids g ! i) (topo_order g)"

definition expand :: "job_plan list \<Rightarrow> ustr list \<Rightarrow> job_group list" where
  "expand plans names = List.map_filter (\<lambda>x. map_option
     (\<lambda>j. \<lparr>jg_id = x, jg_needs = pj_needs j, jg_wave = pj_wave j\<rparr>)
     (find (\<lambda>j. pj_id j = x) plans)) names"

definition waves_from :: "job_graph \<Rightarrow> job_plan list \<Rightarrow> bool" where
  "waves_from g plans \<longleftrightarrow> map pj_wave plans = map (\<lambda>j. plan_wave g (pj_id j)) plans"

definition group_of :: "job_plan \<Rightarrow> job_group" where
  "group_of j = \<lparr>jg_id = pj_id j, jg_needs = pj_needs j, jg_wave = pj_wave j\<rparr>"

lemma find_plan:
  assumes "distinct (map pj_id plans)" "i < length plans"
  shows "find (\<lambda>j. pj_id j = pj_id (plans ! i)) plans = Some (plans ! i)"
proof -
  have "k = i" if "k < length plans" "pj_id (plans ! k) = pj_id (plans ! i)" for k
    using assms that by (metis distinct_conv_nth length_map nth_map)
  then have "\<forall>k < i. pj_id (plans ! k) \<noteq> pj_id (plans ! i)"
    using assms(2) by (metis less_trans nat_neq_iff)
  then show ?thesis using assms(2) by (auto simp: find_Some_iff)
qed

lemma expand_eq:
  assumes "distinct (map pj_id plans)" "set is \<subseteq> {..<length plans}"
  shows "expand plans (map (\<lambda>i. pj_id (plans ! i)) is) = map (\<lambda>i. group_of (plans ! i)) is"
  using assms(2)
  by (induction "is") (simp_all add: expand_def map_filter_simps find_plan [OF assms(1)] group_of_def)

text \<open>A need is in an earlier wave.\<close>

lemma wave_of_need:
  assumes "topological deps p" "(j, i) \<in> edges deps"
  shows "compute_waves p deps ! i < compute_waves p deps ! j"
proof -
  have j: "j < length deps" "j \<in> set p" using assms by (auto simp: edges_def topological_def)
  then obtain k where k: "k < length p" "p ! k = j" by (metis in_set_conv_nth)
  then have "i \<in> set (take k p)" using assms by (auto simp: topological_def edges_def)
  then have i: "i < length deps" using assms(1) by (auto simp: topological_def dest: in_set_takeD)
  obtain x where "(i, x) \<in> edges deps ^^ (compute_waves p deps ! i)"
    using waves_longest_chain [OF assms(1) i] by blast
  then have "(j, x) \<in> edges deps ^^ Suc (compute_waves p deps ! i)"
    using assms(2) by (rule relpow_Suc_I2 [rotated])
  then show ?thesis using waves_longest_chain [OF assms(1) j(1)] by (meson Suc_le_eq)
qed

lemma expand_of_graph:
  assumes "distinct (names_of jobs)" "build_graph jobs = Some (Inr g)" "planned_from jobs plans"
  shows "expand plans (plan_order g) = map (\<lambda>i. group_of (plans ! i)) (topo_order g)"
    "map jg_id (expand plans (plan_order g)) = plan_order g"
proof -
  note order = accepted_order [OF assms]
  have names: "distinct (map pj_id plans)" using assms(1,3) by (simp add: planned_from_def)
  have "plan_order g = map (\<lambda>i. pj_id (plans ! i)) (topo_order g)"
    using order(1,3) by (auto simp: plan_order_def)
  moreover have "expand plans (map (\<lambda>i. pj_id (plans ! i)) (topo_order g)) =
      map (\<lambda>i. group_of (plans ! i)) (topo_order g)"
    using names order(3) by (intro expand_eq) simp_all
  ultimately show "expand plans (plan_order g) = map (\<lambda>i. group_of (plans ! i)) (topo_order g)"
      "map jg_id (expand plans (plan_order g)) = plan_order g"
    by (simp_all add: group_of_def)
qed

lemma expand_waves_ok:
  assumes "distinct (names_of jobs)" "build_graph jobs = Some (Inr g)" "planned_from jobs plans"
    "waves_from g plans"
  shows "waves_ok (expand plans (plan_order g))"
proof -
  note order = accepted_order [OF assms(1-3)]
  note expanded = expand_of_graph [OF assms(1-3)]
  have names: "distinct (map pj_id plans)" using assms(1,3) by (simp add: planned_from_def)
  obtain deps where deps: "resolve_deps jobs = Inr deps"
    using assms(2) by (cases "resolve_deps jobs") (simp_all add: build_graph_eq)
  obtain p where p: "topological deps p" "g = \<lparr>ids = names_of jobs, by_id = job_table (names_of jobs),
      topo_order = p, wave = compute_waves p deps\<rparr>"
    by (cases rule: build_graph_cases [OF deps]) (use assms(2) in auto)
  have wave: "pj_wave (plans ! i) = compute_waves p deps ! i" if "i < length plans" for i
  proof -
    have "im_get (job_table (names_of jobs)) (names_of jobs ! i) = Some i"
      using job_table_distinct [OF assms(1)] that assms(3)
      by (metis length_map names_of_def planned_from_def)
    moreover have "pj_wave (plans ! i) = plan_wave g (pj_id (plans ! i))"
      using assms(4) that by (simp add: waves_from_def)
    moreover have "pj_id (plans ! i) = names_of jobs ! i"
      using assms(3) that by (metis nth_map planned_from_def)
    ultimately show ?thesis by (simp add: plan_wave_def p(2))
  qed
  show ?thesis
    unfolding waves_ok_def
  proof (intro conjI ballI)
    show "distinct (map jg_id (expand plans (plan_order g)))"
    proof -
      have "inj_on (\<lambda>i. pj_id (plans ! i)) {..<length plans}"
        using names by (auto simp: inj_on_def distinct_conv_nth)
      then show ?thesis
        using order(2,3) by (simp add: expanded(1) group_of_def distinct_map comp_def)
    qed
  next
    fix h n
    assume "h \<in> set (expand plans (plan_order g))" "n \<in> set (jg_needs h)"
    then obtain j where j: "j < length plans" "h = group_of (plans ! j)" "n \<in> set (pj_needs (plans ! j))"
      using order(3) by (auto simp: expanded(1) group_of_def)
    have len: "length plans = length jobs" using assms(3) by (metis length_map names_of_def planned_from_def)
    have "n \<in> node ` set (needs (jobs ! j))" using planned_from_nth(3) [OF assms(3)] j len by simp
    moreover from this obtain i where i: "i < length jobs" "names_of jobs ! i = n"
      using resolve_deps_Inr(2) [OF deps] j(1) len unfolding needs_known_def
      by (metis imageI in_set_conv_nth length_map names_of_def nth_mem subsetD)
    ultimately have "(j, i) \<in> edges deps"
      using resolve_deps_Inr(5) [OF deps assms(1)] j(1) len by (auto simp: job_edges_def names_of_def)
    then have "pj_wave (plans ! i) < pj_wave (plans ! j)"
      using wave_of_need [OF p(1)] wave j(1) i(1) len by simp
    moreover have "group_of (plans ! i) \<in> set (expand plans (plan_order g))"
      using i(1) len order(3) by (simp add: expanded(1))
    ultimately show "\<exists>h' \<in> set (expand plans (plan_order g)). jg_id h' = n \<and> jg_wave h' < jg_wave h"
      using j(2) i planned_from_nth(2) [OF assms(3) i(1)]
      by (intro bexI [of _ "group_of (plans ! i)"]) (simp_all add: group_of_def)
  qed
qed

section \<open>Reports\<close>

lemma collect_reports_all:
  assumes "distinct (map jg_id gs)" "\<forall>g \<in> set gs. reports (jg_id g) = Some (rs (jg_id g))"
  shows "collect_reports gs reports = concat (map (\<lambda>g. rs (jg_id g)) gs)"
  using assms
proof (induction gs arbitrary: reports)
  case (Cons g gs)
  then have "collect_reports gs (reports(jg_id g := None)) = concat (map (\<lambda>g. rs (jg_id g)) gs)"
    by (intro Cons.IH) (auto simp: image_iff)
  then show ?case using Cons.prems by simp
qed simp

lemma needs_records_jobs:
  "(\<And>n. n \<in> set ns \<Longrightarrow> completed n \<noteq> None) \<Longrightarrow> map nr_job (needs_records ns completed) = ns"
proof (induction ns)
  case (Cons n ns)
  then obtain j where "completed n = Some j" by auto
  then show ?case using Cons by (simp add: needs_records_Cons)
qed (simp add: needs_records_def map_filter_simps)

end
