(* ===== verification/Partial_Eval.thy ===== *)
theory Partial_Eval
  imports Resolve
begin

text \<open>
  The partial evaluator of the planner (\<open>greenlit-engine/src/partial_eval\<close>): the expression
  folder (\<open>fold.rs\<close>), the folding of calls (\<open>calls.rs\<close>), the classification of runtime
  dependencies (\<open>classify.rs\<close>, \<open>classify/paths.rs\<close>) and the printer of residuals
  (\<open>printer.rs\<close>). The folder, the classifier and the path resolver call one another on the
  parts of an expression; the model computes them together, bottom up, as the \<open>analysis\<close> of a
  node from the analyses of its parts. A planning computation passes on the number from which new
  arrays and objects take their identity, and stops at the first error.
\<close>

section \<open>Planning computations\<close>

datatype partial_eval_error =
    SecretsForbiddenInJobCondition
  | ExprParse parse_error
  | EvalErr eval_error
  | InvalidStaticValue string

type_synonym 'a planning = "nat \<Rightarrow> partial_eval_error + 'a \<times> nat"

definition preturn :: "'a \<Rightarrow> 'a planning" where
  "preturn x = (\<lambda>rc. Inr (x, rc))"

definition pfail :: "partial_eval_error \<Rightarrow> 'a planning" where
  "pfail e = (\<lambda>rc. Inl e)"

definition pbind :: "'a planning \<Rightarrow> ('a \<Rightarrow> 'b planning) \<Rightarrow> 'b planning" where
  "pbind m f = (\<lambda>rc. rbind (m rc) (\<lambda>(x, rc). f x rc))"

definition plift :: "partial_eval_error + 'a \<Rightarrow> 'a planning" where
  "plift m = (\<lambda>rc. rbind m (\<lambda>x. Inr (x, rc)))"

datatype folded = FValue expr_value | FResidual expr "defer_reason set"

section \<open>What is known when the plan is made\<close>

text \<open>
  The declared outputs of a job are looked up by their ordinal, case-insensitive key; so are the
  jobs, where the last entry of a key wins.
\<close>

type_synonym needs_context_slots = "(ustr \<times> ustr list) list"

definition outputs_contain :: "casing \<Rightarrow> ustr list \<Rightarrow> ustr \<Rightarrow> bool" where
  "outputs_contain up declared name \<longleftrightarrow> list_ex (\<lambda>n. ordinal_ignore_case_eq up n name) declared"

definition slot_of :: "casing \<Rightarrow> needs_context_slots \<Rightarrow> ustr \<Rightarrow> (ustr \<times> ustr list) option" where
  "slot_of up slots name = find (\<lambda>slot. ordinal_ignore_case_eq up (fst slot) name) (rev slots)"

definition canonical_job_id :: "casing \<Rightarrow> needs_context_slots \<Rightarrow> ustr \<Rightarrow> ustr option" where
  "canonical_job_id up slots name = map_option fst (slot_of up slots name)"

definition has_declared_outputs :: "casing \<Rightarrow> needs_context_slots \<Rightarrow> ustr \<Rightarrow> bool" where
  "has_declared_outputs up slots name = (case slot_of up slots name of
     None \<Rightarrow> False | Some (_, declared) \<Rightarrow> declared \<noteq> [])"

definition declares_output :: "casing \<Rightarrow> needs_context_slots \<Rightarrow> ustr \<Rightarrow> ustr \<Rightarrow> bool" where
  "declares_output up slots name output = (case slot_of up slots name of
     None \<Rightarrow> False | Some (_, declared) \<Rightarrow> outputs_contain up declared output)"

text \<open>The shape of the \<open>needs\<close> context, with nulls where the values will be.\<close>

definition needs_static_value :: "casing \<Rightarrow> nat \<Rightarrow> needs_context_slots \<Rightarrow> expr_value" where
  "needs_static_value up rc slots = object_new up (rc + 2 * length slots)
     (map (\<lambda>(i, declared_by, declared). (declared_by, object_new up (rc + 2 * i + 1)
        [(lit ''outputs'', object_new up (rc + 2 * i) (map (\<lambda>n. (n, VNull)) declared) False),
         (lit ''result'', VNull)] False)) (List.enumerate 0 slots)) False"

definition steps_contain :: "casing \<Rightarrow> ustr list \<Rightarrow> ustr \<Rightarrow> bool" where
  "steps_contain up slots name \<longleftrightarrow> list_ex (\<lambda>i. ordinal_ignore_case_eq up i name) slots"

record strategy_deferred =
  sd_fail_fast :: bool
  sd_job_index :: bool
  sd_job_total :: bool
  sd_max_parallel :: bool

definition strategy_any :: "strategy_deferred \<Rightarrow> bool" where
  "strategy_any sd \<longleftrightarrow> sd_fail_fast sd \<or> sd_job_index sd \<or> sd_job_total sd \<or> sd_max_parallel sd"

definition strategy_field :: "strategy_deferred \<Rightarrow> ustr \<Rightarrow> bool" where
  "strategy_field sd name =
    (if eq_ignore_ascii_case name (lit ''fail-fast'') then sd_fail_fast sd
     else if eq_ignore_ascii_case name (lit ''job-index'') then sd_job_index sd
     else if eq_ignore_ascii_case name (lit ''job-total'') then sd_job_total sd
     else if eq_ignore_ascii_case name (lit ''max-parallel'') then sd_max_parallel sd
     else False)"

record static_roots =
  sr_github :: expr_value
  sr_github_deferred :: "ustr list"
  sr_vars :: expr_value
  sr_needs :: expr_value
  sr_needs_slots :: needs_context_slots
  sr_matrix :: expr_value
  sr_matrix_deferred :: bool
  sr_strategy :: expr_value
  sr_strategy_deferred :: strategy_deferred
  sr_steps :: expr_value
  sr_steps_slots :: "ustr list"
  sr_inputs :: expr_value

text \<open>The environment known so far (\<open>env.rs\<close>).\<close>

record env_chain =
  ec_resolved :: expr_value
  ec_deferred :: "ustr \<rightharpoonup> defer_reason set"
  ec_runtime_mutable :: bool
  ec_stable_overrides :: "ustr set"

definition is_runtime_mutable :: "env_chain \<Rightarrow> ustr \<Rightarrow> bool" where
  "is_runtime_mutable ec name \<longleftrightarrow> ec_runtime_mutable ec \<and> name \<notin> ec_stable_overrides ec"

record fold_ctx =
  fc_roots :: static_roots
  fc_env :: env_chain
  fc_secrets_forbidden :: bool
  fc_upper :: casing
  fc_category :: "uchar \<Rightarrow> general_category"

definition static_fs :: "nat \<Rightarrow> bool \<Rightarrow> ustr list \<Rightarrow> hash_files_error + ustr" where
  "static_fs now follow patterns =
     Inl (HashIo (lit ''hashFiles() is not available during plan-time partial evaluation''))"

definition static_context :: "fold_ctx \<Rightarrow> nat \<Rightarrow> ctx" where
  "static_context fc rc = (let r = fc_roots fc in
     with_inputs (sr_inputs r)
    (with_steps (sr_steps r)
    (with_strategy (sr_strategy r)
    (with_matrix (sr_matrix r)
    (with_needs (sr_needs r)
    (with_vars (sr_vars r)
    (with_env (rc + 9) (ec_resolved (fc_env fc))
    (with_github (sr_github r)
      (new_context (fc_upper fc) (fc_category fc) static_fs rc)))))))))"

text \<open>Handing a subtree to the evaluator, with the budget of a workflow template.\<close>

definition static_eval :: "fold_ctx \<Rightarrow> expr \<Rightarrow> expr_value planning" where
  "static_eval fc e rc =
    (case evaluate_with_options (static_context fc rc) WORKFLOW_TEMPLATE_MAX_MEMORY_BYTES (rc + 10) e of
       Inl err \<Rightarrow> Inl (EvalErr err) | Inr (v, (m, rc')) \<Rightarrow> Inr (v, rc'))"

section \<open>Literals and their text\<close>

definition value_to_literal_expr :: "expr_value \<Rightarrow> expr" where
  "value_to_literal_expr v = (case v of
     VNull \<Rightarrow> ENull | VBool b \<Rightarrow> EBool b | VNumber n \<Rightarrow> ENumber n | VString s \<Rightarrow> EStr s
   | _ \<Rightarrow> EStr (to_display_string v))"

definition binop_symbol_and_precedence :: "bin_op \<Rightarrow> ustr \<times> nat" where
  "binop_symbol_and_precedence op = (case op of
     Or \<Rightarrow> (lit ''||'', 1) | And \<Rightarrow> (lit ''&&'', 2)
   | Eq \<Rightarrow> (lit ''=='', 3) | NotEq \<Rightarrow> (lit ''!='', 3)
   | Lt \<Rightarrow> (lit ''<'', 4) | Le \<Rightarrow> (lit ''<='', 4) | Gt \<Rightarrow> (lit ''>'', 4) | Ge \<Rightarrow> (lit ''>='', 4))"

definition is_plain_identifier :: "ustr \<Rightarrow> bool" where
  "is_plain_identifier s = (case s of
     [] \<Rightarrow> False
   | c # cs \<Rightarrow> (is_ascii_alphabetic c \<or> c = 95) \<and>
       list_all (\<lambda>c. is_ascii_alphanumeric c \<or> c = 95 \<or> c = 45) cs)"

fun format_number_literal :: "f64 \<Rightarrow> ustr" where
  "format_number_literal NaN = lit ''NaN''"
| "format_number_literal (Infinite neg) = (if neg then lit ''-Infinity'' else lit ''Infinity'')"
| "format_number_literal n = format_g15 n"

primrec print_expr :: "expr \<Rightarrow> nat \<Rightarrow> ustr" where
  "print_expr ENull = (\<lambda>min_prec. lit ''null'')"
| "print_expr (EBool b) = (\<lambda>min_prec. if b then lit ''true'' else lit ''false'')"
| "print_expr (ENumber n) = (\<lambda>min_prec. format_number_literal n)"
| "print_expr (EStr s) = (\<lambda>min_prec. [39] @ str_replace [39] [39, 39] s @ [39])"
| "print_expr (ENamedValue name) = (\<lambda>min_prec. name)"
| "print_expr (ECall name args) = (\<lambda>min_prec.
     name @ [40] @ join_with (lit '', '') (map (\<lambda>p. p 0) (map print_expr args)) @ [41])"
| "print_expr (EIndex t i) = (\<lambda>min_prec. case i of
     EStr s \<Rightarrow> (if is_plain_identifier s then print_expr t 8 @ [46] @ s
                else print_expr t 8 @ [91] @ print_expr i 0 @ [93])
   | _ \<Rightarrow> print_expr t 8 @ [91] @ print_expr i 0 @ [93])"
| "print_expr (EWildcard t) = (\<lambda>min_prec. print_expr t 8 @ lit ''.*'')"
| "print_expr (ENot t) = (\<lambda>min_prec. [33] @ print_expr t 7)"
| "print_expr (EBinary op l r) = (\<lambda>min_prec. let (sym, prec) = binop_symbol_and_precedence op;
      shown = print_expr l prec @ [32] @ sym @ [32] @ print_expr r (prec + 1)
     in if prec < min_prec then [40] @ shown @ [41] else shown)"

definition pretty_print :: "expr \<Rightarrow> ustr" where
  "pretty_print e = print_expr e 0"

section \<open>Classification\<close>

definition DEFERRED_GITHUB_PROPERTIES :: "ustr list" where
  "DEFERRED_GITHUB_PROPERTIES = map lit
     [''action'', ''action_path'', ''action_ref'', ''action_repository'', ''action_status'', ''actor_id'',
      ''env'', ''event_path'', ''job'', ''path'', ''ref_protected'', ''repository_id'',
      ''repository_owner_id'', ''repositoryUrl'', ''retention_days'', ''run_attempt'', ''run_id'',
      ''run_number'', ''secret_source'', ''token'', ''workspace'']"

definition is_status_function :: "ustr \<Rightarrow> status_fn option" where
  "is_status_function name = (let lower = to_ascii_lowercase name in
     if lower = lit ''success'' then Some FnSuccess
     else if lower = lit ''failure'' then Some FnFailure
     else if lower = lit ''cancelled'' then Some FnCancelled
     else if lower = lit ''always'' then Some FnAlways
     else None)"

abbreviation is_root :: "ustr \<Rightarrow> string \<Rightarrow> bool" where
  "is_root name origin \<equiv> eq_ignore_ascii_case name (lit origin)"

definition classify_bare_root :: "fold_ctx \<Rightarrow> ustr \<Rightarrow> partial_eval_error + defer_reason set" where
  "classify_bare_root fc name = (let r = fc_roots fc in
     if is_root name ''secrets'' then
       (if fc_secrets_forbidden fc then Inl SecretsForbiddenInJobCondition else Inr {SecretsContext})
     else if is_root name ''github'' then Inr {GithubContext None}
     else if is_root name ''runner'' then Inr {RunnerContext}
     else if is_root name ''job'' then Inr {JobContext}
     else if is_root name ''needs'' \<and> sr_needs_slots r \<noteq> [] then Inr {NeedsContextWhole}
     else if is_root name ''matrix'' \<and> sr_matrix_deferred r then Inr {MatrixContext}
     else if is_root name ''strategy'' \<and> strategy_any (sr_strategy_deferred r) then Inr {StrategyContext}
     else if is_root name ''steps'' \<and> sr_steps_slots r \<noteq> [] then Inr {StepsContextWhole}
     else Inr {})"

definition strategy_path_is_deferred :: "ustr list \<Rightarrow> fold_ctx \<Rightarrow> bool" where
  "strategy_path_is_deferred segments fc = (let sd = sr_strategy_deferred (fc_roots fc) in
     case segments of [] \<Rightarrow> strategy_any sd | field # _ \<Rightarrow> strategy_field sd field)"

definition classify_needs_path :: "casing \<Rightarrow> ustr list \<Rightarrow> needs_context_slots \<Rightarrow> defer_reason set" where
  "classify_needs_path up segments slots = (case segments of
     [] \<Rightarrow> {}
   | referenced # rest \<Rightarrow> (case canonical_job_id up slots referenced of
       None \<Rightarrow> {}
     | Some j \<Rightarrow> (case rest of
         [] \<Rightarrow> {NeedsResult j} \<union>
           (if has_declared_outputs up slots referenced then {NeedsOutput j None} else {})
       | field # rest' \<Rightarrow>
          (if eq_ignore_ascii_case field (lit ''result'') then {NeedsResult j}
           else if eq_ignore_ascii_case field (lit ''outputs'') then (case rest' of
              [] \<Rightarrow> (if has_declared_outputs up slots referenced then {NeedsOutput j None} else {})
            | output # _ \<Rightarrow> (if declares_output up slots referenced output
                then {NeedsOutput j (Some output)} else {}))
           else {}))))"

definition classify_steps_path :: "casing \<Rightarrow> ustr list \<Rightarrow> ustr list \<Rightarrow> defer_reason set" where
  "classify_steps_path up segments slots = (case segments of
     [] \<Rightarrow> {}
   | s # rest \<Rightarrow>
      (if \<not> steps_contain up slots s then {}
       else case rest of
         [] \<Rightarrow> {StepOutput s None, StepStatus s OutcomeField, StepStatus s ConclusionField}
       | field # rest' \<Rightarrow>
          (if eq_ignore_ascii_case field (lit ''outcome'') then {StepStatus s OutcomeField}
           else if eq_ignore_ascii_case field (lit ''conclusion'') then {StepStatus s ConclusionField}
           else if eq_ignore_ascii_case field (lit ''outputs'') then
             {StepOutput s (case rest' of [] \<Rightarrow> None | output # _ \<Rightarrow> Some output)}
           else {})))"

definition deferred_github_property :: "fold_ctx \<Rightarrow> ustr \<Rightarrow> ustr option" where
  "deferred_github_property fc name =
    (case find (\<lambda>p. eq_ignore_ascii_case p name) DEFERRED_GITHUB_PROPERTIES of
       Some p \<Rightarrow> Some p
     | None \<Rightarrow> find (\<lambda>p. eq_ignore_ascii_case p name) (sr_github_deferred (fc_roots fc)))"

definition classify_path :: "fold_ctx \<Rightarrow> ustr \<Rightarrow> ustr list \<Rightarrow> partial_eval_error + defer_reason set" where
  "classify_path fc origin segments = (let r = fc_roots fc in
     if is_root origin ''secrets'' then
       (if fc_secrets_forbidden fc then Inl SecretsForbiddenInJobCondition else Inr {SecretsContext})
     else if is_root origin ''github'' then
       Inr (case segments of [] \<Rightarrow> {} | name # _ \<Rightarrow> (case deferred_github_property fc name of
              None \<Rightarrow> {} | Some p \<Rightarrow> {GithubContext (Some p)}))
     else if is_root origin ''runner'' then Inr {RunnerContext}
     else if is_root origin ''job'' then Inr {JobContext}
     else if is_root origin ''needs'' then Inr (classify_needs_path (fc_upper fc) segments (sr_needs_slots r))
     else if is_root origin ''matrix'' \<and> sr_matrix_deferred r then Inr {MatrixContext}
     else if is_root origin ''strategy'' \<and> strategy_path_is_deferred segments fc then Inr {StrategyContext}
     else if is_root origin ''steps'' then Inr (classify_steps_path (fc_upper fc) segments (sr_steps_slots r))
     else if is_root origin ''env'' then
       Inr (case segments of [] \<Rightarrow> {} | name # _ \<Rightarrow>
         (case ec_deferred (fc_env fc) name of None \<Rightarrow> {} | Some reasons \<Rightarrow> reasons) \<union>
         (if is_runtime_mutable (fc_env fc) name then {DynamicEnv name} else {}))
     else Inr {})"

text \<open>Whether a path ends in a primitive or in nothing, by the fixed shape of its origin (\<open>paths.rs\<close>).\<close>

definition path_target_is_known_primitive_or_missing :: "fold_ctx \<Rightarrow> ustr \<Rightarrow> ustr list \<Rightarrow> bool" where
  "path_target_is_known_primitive_or_missing fc origin segments = (let r = fc_roots fc; up = fc_upper fc in
     if is_root origin ''github'' then (case segments of
         [] \<Rightarrow> False
       | name # _ \<Rightarrow> list_ex (\<lambda>p. eq_ignore_ascii_case p name) (sr_github_deferred r))
     else if is_root origin ''needs'' then (case segments of
         [] \<Rightarrow> False
       | j # rest \<Rightarrow> canonical_job_id up (sr_needs_slots r) j = None \<or> (case rest of
           [] \<Rightarrow> False
         | field # rest' \<Rightarrow> (if eq_ignore_ascii_case field (lit ''outputs'') then rest' \<noteq> [] else True)))
     else if is_root origin ''steps'' then (case segments of
         [] \<Rightarrow> False
       | s # rest \<Rightarrow> \<not> steps_contain up (sr_steps_slots r) s \<or> (case rest of
           [] \<Rightarrow> False
         | field # rest' \<Rightarrow> (if eq_ignore_ascii_case field (lit ''outputs'') then rest' \<noteq> [] else True)))
     else False)"

primrec expression_root :: "expr \<Rightarrow> ustr option" where
  "expression_root ENull = None"
| "expression_root (EBool _) = None"
| "expression_root (ENumber _) = None"
| "expression_root (EStr _) = None"
| "expression_root (ENamedValue name) = Some name"
| "expression_root (ECall _ _) = None"
| "expression_root (EIndex t _) = expression_root t"
| "expression_root (EWildcard t) = expression_root t"
| "expression_root (ENot _) = None"
| "expression_root (EBinary _ _ _) = None"

section \<open>The analysis of a node\<close>

record analysis =
  an_expr :: expr
  an_reasons :: "defer_reason set planning"
  an_path :: "(ustr \<times> ustr list) option planning"
  an_fold :: "folded planning"

fun split_folded :: "folded \<Rightarrow> expr \<times> defer_reason set" where
  "split_folded (FValue v) = (value_to_literal_expr v, {})"
| "split_folded (FResidual e ds) = (e, ds)"

text \<open>\<open>static_path\<close>: one step of the walk up a chain of accesses.\<close>

definition index_segment :: "analysis \<Rightarrow> ustr option planning" where
  "index_segment i = (case an_expr i of
     EStr s \<Rightarrow> preturn (Some s)
   | _ \<Rightarrow> pbind (an_fold i) (\<lambda>f. preturn (case f of
       FValue v \<Rightarrow> (if is_primitive v then Some (to_display_string v) else None)
     | FResidual _ _ \<Rightarrow> None)))"

definition static_path_index :: "fold_ctx \<Rightarrow> analysis \<Rightarrow> analysis \<Rightarrow> (ustr \<times> ustr list) option planning" where
  "static_path_index fc target i = pbind (an_path target) (\<lambda>p. case p of
     None \<Rightarrow> preturn None
   | Some (origin, segments) \<Rightarrow>
      (if path_target_is_known_primitive_or_missing fc origin segments then preturn (Some (origin, segments))
       else pbind (an_fold target) (\<lambda>f.
         if (case f of FValue v \<Rightarrow> is_primitive v | FResidual _ _ \<Rightarrow> False) then preturn (Some (origin, segments))
         else pbind (index_segment i) (\<lambda>s. preturn (case s of
             Some segment \<Rightarrow> Some (origin, segments @ [segment])
           | None \<Rightarrow> None)))))"

text \<open>\<open>collect_defer_reasons\<close>, one definition per kind of node that does more than its parts.\<close>

fun collect_all :: "analysis list \<Rightarrow> defer_reason set planning" where
  "collect_all [] = preturn {}"
| "collect_all (a # as) = pbind (an_reasons a) (\<lambda>r. pbind (collect_all as) (\<lambda>rs. preturn (r \<union> rs)))"

definition collect_index :: "fold_ctx \<Rightarrow> analysis \<Rightarrow> analysis \<Rightarrow> defer_reason set planning" where
  "collect_index fc target i = pbind (static_path_index fc target i) (\<lambda>p. case p of
     Some (origin, segments) \<Rightarrow> plift (classify_path fc origin segments)
   | None \<Rightarrow> (let wild = (case expression_root (an_expr target) of
         Some origin \<Rightarrow> (if is_root origin ''env'' then {DynamicEnv (lit ''*'')} else {}) | None \<Rightarrow> {})
      in pbind (an_fold target) (\<lambda>f. case f of
          FValue v \<Rightarrow> (if is_primitive v then preturn wild
            else pbind (an_reasons i) (\<lambda>r. preturn (wild \<union> r)))
        | FResidual _ ds \<Rightarrow> pbind (an_reasons i) (\<lambda>r. preturn (wild \<union> ds \<union> r)))))"

definition collect_call :: "ustr \<Rightarrow> analysis list \<Rightarrow> defer_reason set planning" where
  "collect_call name args = pbind (collect_all args) (\<lambda>rs. preturn
     ((case is_status_function name of
         Some f \<Rightarrow> {StatusFn f}
       | None \<Rightarrow> (if eq_ignore_ascii_case name (lit ''hashfiles'') then {HashFiles} else {})) \<union> rs))"

section \<open>Folding\<close>

definition residual_call :: "ustr \<Rightarrow> expr list \<Rightarrow> defer_reason set \<Rightarrow> folded planning" where
  "residual_call name args ds = preturn (FResidual (ECall name args) ds)"

definition evaluate_call :: "fold_ctx \<Rightarrow> ustr \<Rightarrow> expr list \<Rightarrow> folded planning" where
  "evaluate_call fc name args = pbind (static_eval fc (ECall name args)) (\<lambda>v. preturn (FValue v))"

definition finish_call :: "fold_ctx \<Rightarrow> ustr \<Rightarrow> expr list \<Rightarrow> defer_reason set \<Rightarrow> folded planning" where
  "finish_call fc name args ds =
     (if ds = {} then evaluate_call fc name args else residual_call name args ds)"

fun fold_all :: "analysis list \<Rightarrow> (expr list \<times> defer_reason set) planning" where
  "fold_all [] = preturn ([], {})"
| "fold_all (a # as) = pbind (an_fold a) (\<lambda>f. let (e, d) = split_folded f in
     pbind (fold_all as) (\<lambda>(es, ds). preturn (e # es, d \<union> ds)))"

definition fold_all_args :: "fold_ctx \<Rightarrow> ustr \<Rightarrow> analysis list \<Rightarrow> folded planning" where
  "fold_all_args fc name args = pbind (fold_all args) (\<lambda>(es, ds). finish_call fc name es ds)"

definition guarded_call_skips_second :: "ustr \<Rightarrow> expr_value \<Rightarrow> bool" where
  "guarded_call_skips_second name first = (let lower = to_ascii_lowercase name in
     if lower = lit ''contains'' then (case first of
         VObject _ _ _ _ \<Rightarrow> True | VArray _ items _ \<Rightarrow> items = [] | _ \<Rightarrow> False)
     else if lower = lit ''startswith'' \<or> lower = lit ''endswith'' then \<not> is_primitive first
     else False)"

definition fold_guarded_binary_call :: "fold_ctx \<Rightarrow> ustr \<Rightarrow> analysis list \<Rightarrow> folded planning" where
  "fold_guarded_binary_call fc name args = pbind (an_fold (args ! 0)) (\<lambda>first. case first of
     FValue v \<Rightarrow>
       (if guarded_call_skips_second name v
        then evaluate_call fc name [value_to_literal_expr v, an_expr (args ! 1)]
        else pbind (an_fold (args ! 1)) (\<lambda>second. let (second_expr, ds) = split_folded second in
          finish_call fc name [value_to_literal_expr v, second_expr] ds))
   | FResidual e ds \<Rightarrow> pbind (collect_all (tl args)) (\<lambda>rs.
       residual_call name [e, an_expr (args ! 1)] (ds \<union> rs)))"

definition fold_join :: "fold_ctx \<Rightarrow> analysis list \<Rightarrow> folded planning" where
  "fold_join fc args = pbind (an_fold (args ! 0)) (\<lambda>first. case first of
     FValue v \<Rightarrow>
       (if (case v of VArray _ items _ \<Rightarrow> 2 \<le> length items | _ \<Rightarrow> False) \<and> 1 < length args
        then pbind (an_fold (args ! 1)) (\<lambda>separator. let (separator_expr, ds) = split_folded separator in
          finish_call fc (lit ''join'') [value_to_literal_expr v, separator_expr] ds)
        else evaluate_call fc (lit ''join'') (value_to_literal_expr v # map an_expr (take 1 (tl args))))
   | FResidual e ds \<Rightarrow> pbind (collect_all (tl args)) (\<lambda>rs.
       residual_call (lit ''join'') (e # map an_expr (take 1 (tl args))) (ds \<union> rs)))"

record format_fold =
  ff_args :: "expr list"
  ff_seen :: "bool list"
  ff_defers :: "defer_reason set"
  ff_deferred :: bool

text \<open>What the first reference to an argument does; \<open>ff_args\<close> has the pattern in front.\<close>

definition fold_format_arg :: "analysis list \<Rightarrow> nat \<Rightarrow> format_fold \<Rightarrow> format_fold planning" where
  "fold_format_arg args index s =
    (if ff_seen s ! index then preturn s
     else (let s = s\<lparr>ff_seen := (ff_seen s)[index := True]\<rparr> in
       if ff_deferred s then pbind (an_reasons (args ! index)) (\<lambda>r.
         preturn (s\<lparr>ff_defers := ff_defers s \<union> r\<rparr>))
       else pbind (an_fold (args ! index)) (\<lambda>f. let (e, d) = split_folded f in
         preturn (s\<lparr>ff_args := (ff_args s)[index + 1 := e], ff_defers := ff_defers s \<union> d,
                   ff_deferred := (case f of FResidual _ _ \<Rightarrow> True | _ \<Rightarrow> False)\<rparr>))))"

function fold_format_loop :: "fold_ctx \<Rightarrow> analysis list \<Rightarrow> ustr \<Rightarrow> format_fold \<Rightarrow> folded planning" where
  "fold_format_loop fc args cs s =
    (case next_format_token (length args) cs of
       Inl e \<Rightarrow> (if ff_deferred s then finish_call fc (lit ''format'') (ff_args s) (ff_defers s)
                else pfail (EvalErr (Format e)))
     | Inr None \<Rightarrow> finish_call fc (lit ''format'') (ff_args s) (ff_defers s)
     | Inr (Some (Literal c, r)) \<Rightarrow> fold_format_loop fc args r s
     | Inr (Some (Placeholder index spec, r)) \<Rightarrow> pbind (fold_format_arg args index s) (\<lambda>s'.
         if spec \<noteq> [] then
           (if ff_deferred s' then finish_call fc (lit ''format'') (ff_args s') (ff_defers s')
            else evaluate_call fc (lit ''format'') (ff_args s'))
         else fold_format_loop fc args r s'))"
  by pat_completeness auto
termination
  by (relation "measure (\<lambda>(fc, args, cs, s). length cs)") (auto dest: next_format_token_rest)

declare fold_format_loop.simps [simp del]

definition fold_format :: "fold_ctx \<Rightarrow> analysis list \<Rightarrow> folded planning" where
  "fold_format fc args = pbind (an_fold (args ! 0)) (\<lambda>pattern. case pattern of
     FResidual e ds \<Rightarrow> pbind (collect_all (tl args)) (\<lambda>rs.
       residual_call (lit ''format'') (e # map an_expr (tl args)) (ds \<union> rs))
   | FValue v \<Rightarrow> fold_format_loop fc (tl args) (to_display_string v)
       \<lparr>ff_args = value_to_literal_expr v # map an_expr (tl args),
        ff_seen = replicate (length (tl args)) False, ff_defers = {}, ff_deferred = False\<rparr>)"

text \<open>\<open>case\<close>: predicates and results in turn, then the default.\<close>

fun fold_case_loop :: "analysis list \<Rightarrow> nat \<Rightarrow> folded planning" where
  "fold_case_loop (p # v # rest) pos = pbind (an_fold p) (\<lambda>f. case f of
     FValue (VBool b) \<Rightarrow> (if b then an_fold v else fold_case_loop rest (pos + 1))
   | FValue w \<Rightarrow> pfail (EvalErr (InvalidCasePredicate pos (kind w)))
   | FResidual e ds \<Rightarrow> pbind (collect_all (v # rest)) (\<lambda>rs.
       residual_call (lit ''case'') (e # map an_expr (v # rest)) (ds \<union> rs)))"
| "fold_case_loop [d] pos = an_fold d"
| "fold_case_loop [] pos = pfail (EvalErr InvalidCaseArity)"

definition fold_case :: "analysis list \<Rightarrow> folded planning" where
  "fold_case args = fold_case_loop args 1"

definition is_partially_foldable_function :: "ustr \<Rightarrow> bool" where
  "is_partially_foldable_function name \<longleftrightarrow> to_ascii_lowercase name \<in> set (map lit
     [''contains'', ''startswith'', ''endswith'', ''format'', ''join'', ''tojson'', ''fromjson'', ''case''])"

definition fold_call :: "fold_ctx \<Rightarrow> ustr \<Rightarrow> analysis list \<Rightarrow> folded planning" where
  "fold_call fc name args = (let lower = to_ascii_lowercase name in
     if lower = lit ''contains'' \<or> lower = lit ''startswith'' \<or> lower = lit ''endswith''
       then fold_guarded_binary_call fc name args
     else if lower = lit ''format'' then fold_format fc args
     else if lower = lit ''join'' then fold_join fc args
     else if lower = lit ''case'' then fold_case args
     else if lower = lit ''tojson'' \<or> lower = lit ''fromjson'' then fold_all_args fc name args
     else pbind (collect_all args) (residual_call name (map an_expr args)))"

definition fold_not :: "analysis \<Rightarrow> folded planning" where
  "fold_not inner = pbind (an_fold inner) (\<lambda>f. preturn (case f of
     FValue v \<Rightarrow> FValue (VBool (is_falsy v)) | FResidual e ds \<Rightarrow> FResidual (ENot e) ds))"

definition fold_and :: "analysis \<Rightarrow> analysis \<Rightarrow> folded planning" where
  "fold_and lhs rhs = pbind (an_fold lhs) (\<lambda>f. case f of
     FValue l \<Rightarrow> (if is_falsy l then preturn (FValue l) else an_fold rhs)
   | FResidual e ds \<Rightarrow> pbind (an_reasons rhs) (\<lambda>rs.
       preturn (FResidual (EBinary And e (an_expr rhs)) (ds \<union> rs))))"

definition fold_or :: "analysis \<Rightarrow> analysis \<Rightarrow> folded planning" where
  "fold_or lhs rhs = pbind (an_fold lhs) (\<lambda>f. case f of
     FValue l \<Rightarrow> (if is_truthy l then preturn (FValue l) else an_fold rhs)
   | FResidual e ds \<Rightarrow> pbind (an_reasons rhs) (\<lambda>rs.
       preturn (FResidual (EBinary Or e (an_expr rhs)) (ds \<union> rs))))"

text \<open>\<open>apply_strict_op\<close> is the evaluator's comparison.\<close>

definition fold_strict_binary :: "fold_ctx \<Rightarrow> bin_op \<Rightarrow> analysis \<Rightarrow> analysis \<Rightarrow> folded planning" where
  "fold_strict_binary fc op lhs rhs = pbind (an_fold lhs) (\<lambda>l. pbind (an_fold rhs) (\<lambda>r. preturn (case (l, r) of
     (FValue lv, FValue rv) \<Rightarrow> FValue (VBool (compare_op (fc_upper fc) op lv rv))
   | _ \<Rightarrow> (let (le, ld) = split_folded l; (re, rd) = split_folded r
           in FResidual (EBinary op le re) (ld \<union> rd)))))"

text \<open>
  The frame of \<open>fold_expr\<close>: a subtree without runtime dependencies goes to the evaluator, any
  other is folded by its shape.
\<close>

definition analysed :: "fold_ctx \<Rightarrow> expr \<Rightarrow> defer_reason set planning \<Rightarrow>
    (ustr \<times> ustr list) option planning \<Rightarrow> (defer_reason set \<Rightarrow> folded planning) \<Rightarrow> analysis" where
  "analysed fc e reasons path shape = \<lparr>an_expr = e, an_reasons = reasons, an_path = path,
     an_fold = pbind reasons (\<lambda>ds.
       if ds = {} then pbind (static_eval fc e) (\<lambda>v. preturn (FValue v)) else shape ds)\<rparr>"

primrec analyse :: "fold_ctx \<Rightarrow> expr \<Rightarrow> analysis" where
  "analyse fc ENull = analysed fc ENull (preturn {}) (preturn None) (\<lambda>ds. preturn (FResidual ENull ds))"
| "analyse fc (EBool b) =
     analysed fc (EBool b) (preturn {}) (preturn None) (\<lambda>ds. preturn (FResidual (EBool b) ds))"
| "analyse fc (ENumber n) =
     analysed fc (ENumber n) (preturn {}) (preturn None) (\<lambda>ds. preturn (FResidual (ENumber n) ds))"
| "analyse fc (EStr s) =
     analysed fc (EStr s) (preturn {}) (preturn None) (\<lambda>ds. preturn (FResidual (EStr s) ds))"
| "analyse fc (ENamedValue name) = analysed fc (ENamedValue name)
     (plift (classify_bare_root fc name)) (preturn (Some (name, [])))
     (\<lambda>ds. preturn (FResidual (ENamedValue name) ds))"
| "analyse fc (ECall name args) = (let as = map (analyse fc) args in
     analysed fc (ECall name args) (collect_call name as) (preturn None)
       (\<lambda>ds. if is_partially_foldable_function name then fold_call fc name as
             else preturn (FResidual (ECall name args) ds)))"
| "analyse fc (EIndex t i) = (let ta = analyse fc t; ia = analyse fc i in
     analysed fc (EIndex t i) (collect_index fc ta ia) (static_path_index fc ta ia)
       (\<lambda>ds. preturn (FResidual (EIndex t i) ds)))"
| "analyse fc (EWildcard t) = analysed fc (EWildcard t) (an_reasons (analyse fc t)) (preturn None)
     (\<lambda>ds. preturn (FResidual (EWildcard t) ds))"
| "analyse fc (ENot t) = (let ta = analyse fc t in
     analysed fc (ENot t) (an_reasons ta) (preturn None) (\<lambda>ds. fold_not ta))"
| "analyse fc (EBinary op l r) = (let la = analyse fc l; ra = analyse fc r in
     analysed fc (EBinary op l r) (collect_all [la, ra]) (preturn None)
       (\<lambda>ds. case op of And \<Rightarrow> fold_and la ra | Or \<Rightarrow> fold_or la ra
                      | _ \<Rightarrow> fold_strict_binary fc op la ra))"

definition fold_expr :: "fold_ctx \<Rightarrow> expr \<Rightarrow> folded planning" where
  "fold_expr fc e = an_fold (analyse fc e)"

definition collect_defer_reasons :: "fold_ctx \<Rightarrow> expr \<Rightarrow> defer_reason set planning" where
  "collect_defer_reasons fc e = an_reasons (analyse fc e)"

definition static_path :: "fold_ctx \<Rightarrow> expr \<Rightarrow> (ustr \<times> ustr list) option planning" where
  "static_path fc e = an_path (analyse fc e)"

end
