(* ===== verification/Ideal_Eval.thy ===== *)
theory Ideal_Eval
  imports Eval_Laws
begin

text \<open>
  The value an expression denotes, without the accounting of memory and without the identities of
  new objects, for the fragment in which no array or object is created: no wildcard, no
  \<open>fromJSON\<close>, no \<open>hashFiles\<close>. The evaluator computes this value or fails for memory. The
  planner's folding is judged against it.
\<close>

section \<open>Denotation\<close>

text \<open>Accessing a value; a primitive has no properties.\<close>

definition access_value :: "casing \<Rightarrow> expr_value \<Rightarrow> expr_value \<Rightarrow> expr_value" where
  "access_value up t i = (case (case t of
       VObject _ _ _ _ \<Rightarrow> (if is_primitive i then object_get up t (to_display_string i) else None)
     | VArray _ items _ \<Rightarrow> index_into_plain_array items i
     | _ \<Rightarrow> None) of Some v \<Rightarrow> v | None \<Rightarrow> VNull)"

type_synonym answer = "eval_error + expr_value"

function ideal_format :: "answer list \<Rightarrow> ustr \<Rightarrow> eval_error + ustr" where
  "ideal_format vals cs = (case next_format_token (length vals) cs of
     Inl e \<Rightarrow> Inl (Format e)
   | Inr None \<Rightarrow> Inr []
   | Inr (Some (Literal c, r)) \<Rightarrow> rbind (ideal_format vals r) (\<lambda>s. Inr (c # s))
   | Inr (Some (Placeholder i spec, r)) \<Rightarrow> (case vals ! i of
       Inl e \<Rightarrow> Inl (Format (ArgumentEvaluation e))
     | Inr v \<Rightarrow> (if spec \<noteq> [] then Inl (Format (UnsupportedFormatSpecifier spec (kind v)))
         else rbind (ideal_format vals r) (\<lambda>s. Inr (to_display_string v @ s)))))"
  by pat_completeness auto
termination
  by (relation "measure (\<lambda>(vals, cs). length cs)") (auto dest: next_format_token_rest)

declare ideal_format.simps [simp del]

definition ideal_join :: "expr_value \<Rightarrow> answer option \<Rightarrow> answer" where
  "ideal_join array sep = (case array of
     VArray _ items _ \<Rightarrow> (case items of
       [] \<Rightarrow> Inr (VString [])
     | i # rest \<Rightarrow> (if rest = [] then Inr (VString (to_display_string i))
         else rbind (case sep of None \<Rightarrow> Inr (lit '','') | Some a \<Rightarrow> rbind a (\<lambda>v. Inr (separator_text v)))
           (\<lambda>s. Inr (VString (to_display_string i @ concat (join_fragments s rest))))))
   | VObject _ _ _ _ \<Rightarrow> Inr (VString [])
   | _ \<Rightarrow> Inr (VString (to_display_string array)))"

fun ideal_case :: "answer list \<Rightarrow> nat \<Rightarrow> answer" where
  "ideal_case (p # v # rest) index = rbind p (\<lambda>x. case x of
     VBool b \<Rightarrow> (if b then v else ideal_case rest (index + 1))
   | _ \<Rightarrow> Inl (InvalidCasePredicate index (kind x)))"
| "ideal_case [d] index = d"
| "ideal_case [] index = Inl InvalidCaseArity"

definition ideal_guarded :: "(expr_value \<Rightarrow> bool) \<Rightarrow> (expr_value \<Rightarrow> expr_value \<Rightarrow> expr_value) \<Rightarrow> answer list \<Rightarrow> answer" where
  "ideal_guarded needs_second f args = rbind (args ! 0) (\<lambda>a.
     if needs_second a then rbind (args ! 1) (\<lambda>b. Inr (f a b)) else Inr (VBool False))"

definition ideal_body :: "casing \<Rightarrow> run_status \<Rightarrow> ustr \<Rightarrow> answer list \<Rightarrow> answer" where
  "ideal_body up st name args = (let lower = to_ascii_lowercase name in
     if lower = lit ''contains'' then ideal_guarded contains_needs_item (contains up) args
     else if lower = lit ''startswith'' then ideal_guarded is_primitive (starts_with up) args
     else if lower = lit ''endswith'' then ideal_guarded is_primitive (ends_with up) args
     else if lower = lit ''format'' then
       rbind (args ! 0) (\<lambda>v. rbind (ideal_format (tl args) (to_display_string v)) (\<lambda>s. Inr (VString s)))
     else if lower = lit ''join'' then
       rbind (args ! 0) (\<lambda>v. ideal_join v (if 1 < length args then Some (args ! 1) else None))
     else if lower = lit ''tojson'' then
       rbind (args ! 0) (\<lambda>v. Inr (VString (concat (json_fragments v 0 None))))
     else if lower = lit ''case'' then
       (if even (length args) then Inl InvalidCaseArity else ideal_case args 1)
     else if lower = lit ''success'' then Inr (VBool (st = Success))
     else if lower = lit ''failure'' then Inr (VBool (st = Failure))
     else if lower = lit ''cancelled'' then Inr (VBool (st = Cancelled))
     else if lower = lit ''always'' then Inr (VBool True)
     else Inl (EvUnrecognizedFunction name))"

definition ideal_call :: "casing \<Rightarrow> run_status \<Rightarrow> ustr \<Rightarrow> answer list \<Rightarrow> answer" where
  "ideal_call up st name args = (case lookup_arity name of
     None \<Rightarrow> Inl (EvUnrecognizedFunction name)
   | Some a \<Rightarrow> (if length args < min_args a \<or> max_args a < length args
       then Inl (EvWrongArity name (length args) (display a)) else ideal_body up st name args))"

definition ideal_binary :: "casing \<Rightarrow> bin_op \<Rightarrow> answer \<Rightarrow> answer \<Rightarrow> answer" where
  "ideal_binary up op lhs rhs = rbind lhs (\<lambda>l. case op of
     And \<Rightarrow> (if is_falsy l then Inr l else rhs)
   | Or \<Rightarrow> (if is_truthy l then Inr l else rhs)
   | _ \<Rightarrow> rbind rhs (\<lambda>r. Inr (VBool (compare_op up op l r))))"

definition ideal_index :: "casing \<Rightarrow> answer \<Rightarrow> answer \<Rightarrow> answer" where
  "ideal_index up t i = rbind t (\<lambda>t. if is_primitive t then Inr VNull else
     rbind i (\<lambda>i. Inr (access_value up t i)))"

primrec ideal :: "ctx \<Rightarrow> expr \<Rightarrow> answer" where
  "ideal c ENull = Inr VNull"
| "ideal c (EBool b) = Inr (VBool b)"
| "ideal c (ENumber n) = Inr (VNumber n)"
| "ideal c (EStr s) = Inr (VString s)"
| "ideal c (ENamedValue name) = (case resolve_root c name of
     None \<Rightarrow> Inl (EvUnrecognizedNamedValue name) | Some v \<Rightarrow> Inr v)"
| "ideal c (ECall name args) = ideal_call (upper c) (status c) name (map (ideal c) args)"
| "ideal c (EIndex t i) = ideal_index (upper c) (ideal c t) (ideal c i)"
| "ideal c (EWildcard t) = ideal c t"
| "ideal c (ENot t) = rbind (ideal c t) (\<lambda>v. Inr (VBool (is_falsy v)))"
| "ideal c (EBinary op l r) = ideal_binary (upper c) op (ideal c l) (ideal c r)"

text \<open>The fragment: nothing in the tree creates an array or an object.\<close>

primrec creates_nothing :: "expr \<Rightarrow> bool" where
  "creates_nothing ENull = True"
| "creates_nothing (EBool _) = True"
| "creates_nothing (ENumber _) = True"
| "creates_nothing (EStr _) = True"
| "creates_nothing (ENamedValue _) = True"
| "creates_nothing (ECall name args) = (to_ascii_lowercase name \<noteq> lit ''fromjson'' \<and>
     to_ascii_lowercase name \<noteq> lit ''hashfiles'' \<and> list_all id (map creates_nothing args))"
| "creates_nothing (EIndex t i) = (creates_nothing t \<and> creates_nothing i)"
| "creates_nothing (EWildcard _) = False"
| "creates_nothing (ENot t) = creates_nothing t"
| "creates_nothing (EBinary _ l r) = (creates_nothing l \<and> creates_nothing r)"

text \<open>Context data holds no filtered array: only a wildcard creates one.\<close>

primrec unfiltered :: "expr_value \<Rightarrow> bool" where
  "unfiltered VNull = True"
| "unfiltered (VBool _) = True"
| "unfiltered (VNumber _) = True"
| "unfiltered (VString _) = True"
| "unfiltered (VArray rc items filtered) = (\<not> filtered \<and> list_all id (map unfiltered items))"
| "unfiltered (VObject rc es ps cs) = list_all snd (map (map_prod id unfiltered) es)"

definition unfiltered_context :: "ctx \<Rightarrow> bool" where
  "unfiltered_context c \<longleftrightarrow> list_all unfiltered
     [github c, env c, vars c, secrets c, needs c, matrix c, strategy c, steps c, runner c, job c, inputs c]"

fun is_memory_error :: "eval_error \<Rightarrow> bool" where
  "is_memory_error (MemoryLimitExceeded _) = True"
| "is_memory_error (Format (ArgumentEvaluation e)) = is_memory_error e"
| "is_memory_error _ = False"

section \<open>The evaluator computes it\<close>

definition computes :: "eval_error + expr_value \<times> 's \<Rightarrow> answer \<Rightarrow> bool" where
  "computes m a \<longleftrightarrow> (case m of
     Inl e \<Rightarrow> is_memory_error e \<or> a = Inl e | Inr (v, _) \<Rightarrow> a = Inr v \<and> unfiltered v)"

lemma computes_simps [simp]:
  "computes (Inl e) a \<longleftrightarrow> is_memory_error e \<or> a = Inl e"
  "computes (Inr (v, st)) a \<longleftrightarrow> a = Inr v \<and> unfiltered v"
  by (simp_all add: computes_def)

lemma computes_rbind:
  "computes m a \<Longrightarrow> (\<And>v st. a = Inr v \<Longrightarrow> unfiltered v \<Longrightarrow> m = Inr (v, st) \<Longrightarrow> computes (f (v, st)) (g v)) \<Longrightarrow>
   computes (rbind m f) (rbind a g)"
  by (cases m) auto

lemma computes_counts:
  "counts m \<Longrightarrow> (\<And>x. m = Inr x \<Longrightarrow> computes (f x) a) \<Longrightarrow> computes (rbind m f) a"
  by (cases m) auto

lemma computes_charge: "unfiltered v \<Longrightarrow> computes (charge depth v rm st) (Inr v)"
  unfolding charge_def by (auto intro: computes_counts add_result_counts)

lemma computes_then_charge:
  "computes m a \<Longrightarrow> computes (rbind m (\<lambda>(v, st). charge depth v rm st)) a"
  using computes_rbind [of m a "\<lambda>(v, st). charge depth v rm st" Inr]
  by (cases a) (auto simp: computes_charge)

lemma unfiltered_primitive [simp]: "is_primitive v \<Longrightarrow> unfiltered v"
  by (cases v) auto

lemma unfiltered_object_get: "unfiltered t \<Longrightarrow> object_get up t k = Some v \<Longrightarrow> unfiltered v"
  by (cases t) (auto simp: object_lookup_def list_all_length split: option.splits if_splits)

lemma unfiltered_index: "list_all unfiltered items \<Longrightarrow> index_into_plain_array items i = Some v \<Longrightarrow> unfiltered v"
  by (auto simp: index_into_plain_array_def nth_opt_def list_all_length split: option.splits if_splits)

lemma list_all_map_id: "list_all id (map f xs) = list_all f xs"
  by (simp add: list_all_iff)

lemma unfiltered_access: "unfiltered t \<Longrightarrow> unfiltered (access_value up t i)"
  using unfiltered_object_get [of t up "to_display_string i"]
  by (cases t) (auto simp: access_value_def list_all_map_id dest: unfiltered_index split: option.splits)

subsection \<open>The functions\<close>

lemma guarded_computes:
  assumes "computes ((args ! 0) depth st) (vals ! 0)" "\<And>st. computes ((args ! 1) depth st) (vals ! 1)"
    and "\<And>a b. unfiltered (f a b)"
  shows "computes (guarded_test g f args depth st) (ideal_guarded g f vals)"
  unfolding guarded_test_def ideal_guarded_def
  using assms by (auto intro!: computes_rbind)

lemma join_computes:
  assumes "\<And>f st. sep = Some f \<Longrightarrow> computes (f st) (the vsep)" "sep = None \<longleftrightarrow> vsep = None"
  shows "computes (join array sep n st) (ideal_join array vsep)"
proof (cases array)
  case (VArray rc items flt)
  show ?thesis
  proof (cases items)
    case (Cons i rest)
    have rest: "computes (rbind (case sep of None \<Rightarrow> Inr (lit '','', st)
        | Some f \<Rightarrow> rbind (f st) (\<lambda>(v, st). Inr (separator_text v, st))) (\<lambda>(separator, st).
          rbind (join_rest separator rest (to_display_string i) c) (\<lambda>result. Inr (VString result, st))))
       (rbind (case vsep of None \<Rightarrow> Inr (lit '','') | Some a \<Rightarrow> rbind a (\<lambda>v. Inr (separator_text v)))
          (\<lambda>s. Inr (VString (to_display_string i @ concat (join_fragments s rest)))))" for c
    proof (cases sep)
      case None
      then show ?thesis using assms(2)
        by (auto simp: rbind_assoc join_rest_eq intro!: computes_counts counting)
    next
      case (Some f)
      then obtain a where a: "vsep = Some a" using assms(2) by auto
      with Some assms(1) have "computes (f st) a" by auto
      then show ?thesis
        unfolding Some a option.case rbind_assoc
        by (rule computes_rbind) (auto simp: rbind_assoc join_rest_eq intro!: computes_counts counting)
    qed
    show ?thesis
      unfolding join_def ideal_join_def VArray expr_value.case Cons list.case
      by (rule computes_counts [OF counting(3)]) (use rest in \<open>cases "rest = []"; simp\<close>)
  qed (simp add: join_def ideal_join_def VArray)
qed (simp_all add: join_def ideal_join_def)

lemma to_json_computes:
  "computes (rbind (to_json v n) (\<lambda>s. Inr (s, st))) (Inr (VString (concat (json_fragments v 0 None))))"
  unfolding to_json_def write_loop_eq Let_def
  by (auto simp: rbind_assoc intro!: computes_counts counting)

lemma case_loop_computes:
  "\<forall>(f, a) \<in> set (zip args vals). \<forall>depth st. computes (f depth st) a \<Longrightarrow> length args = length vals \<Longrightarrow>
   computes (case_loop args n depth st) (ideal_case vals n)"
proof (induction args n depth st arbitrary: vals rule: case_loop.induct)
  case (1 p v rest n depth st)
  from "1.prems"(2) obtain p' v' rest' where vals: "vals = p' # v' # rest'"
    by (cases vals; cases "tl vals") auto
  show ?case
    unfolding case_loop.simps ideal_case.simps vals
  proof (rule computes_rbind)
    show "computes (p depth st) p'" using "1.prems" vals by (cases st) simp
    fix x st'
    assume p: "p depth st = Inr (x, st')"
    have "computes (case_loop rest (n + 1) depth st') (ideal_case rest' (n + 1))" if "x = VBool False"
      using "1.IH" [OF p refl that] "1.prems" vals by simp
    then show "computes (case (x, st') of (x, st) \<Rightarrow> case x of
        VBool b \<Rightarrow> (if b then v depth st else case_loop rest (n + 1) depth st)
      | _ \<Rightarrow> Inl (InvalidCasePredicate n (kind x))) (case x of
        VBool b \<Rightarrow> (if b then v' else ideal_case rest' (n + 1))
      | _ \<Rightarrow> Inl (InvalidCasePredicate n (kind x)))"
      using "1.prems" vals by (cases x; cases st') auto
  qed
next
  case (2 d n depth st)
  then obtain a where "vals = [a]" by (cases vals) auto
  with 2 show ?case by (cases st) simp
qed simp

text \<open>\<open>format\<close>: what the loop has written and cached so far is what the rest needs.\<close>

definition format_ideal :: "format_state \<Rightarrow> eval_error + ustr \<Rightarrow>
    eval_error + format_state \<times> 's \<Rightarrow> bool" where
  "format_ideal f a m \<longleftrightarrow> (case m of
     Inl e \<Rightarrow> is_memory_error e \<or> a = Inl e
   | Inr (f', _) \<Rightarrow> (\<exists>s. a = Inr s \<and> f_out f' @ f_segment f' = f_out f @ f_segment f @ s))"

definition cache_sound :: "answer list \<Rightarrow> format_state \<Rightarrow> bool" where
  "cache_sound vals f \<longleftrightarrow> length (f_cache f) = length vals \<and>
     (\<forall>i < length vals. \<forall>v. f_cache f ! i = Some v \<longrightarrow> vals ! i = Inr v)"

lemma append_segment_cases:
  obtains n where "append_segment f = Inl (MemoryLimitExceeded n)"
  | f' where "append_segment f = Inr f'" "f_out f' = f_out f @ f_segment f" "f_segment f' = []"
      "f_cache f' = f_cache f"
proof (cases "append_segment f")
  case (Inl e)
  then show ?thesis using append_segment_counts [of f] that(1) by auto
next
  case (Inr f')
  then show ?thesis using that(2) by (auto simp: append_segment_def rbind_eq_Inr split: if_splits)
qed

lemma placeholder_computes:
  assumes ev: "\<And>st. computes (ev i st) (vals ! i)" and "cache_sound vals f" "i < length vals" "f_segment f = []"
  shows "case rbind (get_or_eval ev i f st) (\<lambda>(v, f, st).
       if spec \<noteq> [] then Inl (Format (UnsupportedFormatSpecifier spec (kind v)))
       else (let rendered = to_display_string v in
         if rendered = [] then Inr (f, st)
         else rbind (counter_add_string rendered (f_counter f)) (\<lambda>c.
           Inr (f\<lparr>f_out := f_out f @ rendered, f_counter := c\<rparr>, st)))) of
     Inl e \<Rightarrow> is_memory_error e \<or> (case vals ! i of Inl x \<Rightarrow> e = Format (ArgumentEvaluation x)
       | Inr v \<Rightarrow> spec \<noteq> [] \<and> e = Format (UnsupportedFormatSpecifier spec (kind v)))
   | Inr (f', st') \<Rightarrow> spec = [] \<and> cache_sound vals f' \<and> f_segment f' = [] \<and>
       (\<exists>v. vals ! i = Inr v \<and> f_out f' = f_out f @ to_display_string v)"
proof -
  have got: "case get_or_eval ev i f st of
      Inl e \<Rightarrow> is_memory_error e \<or> (\<exists>x. vals ! i = Inl x \<and> e = Format (ArgumentEvaluation x))
    | Inr (v, f', st') \<Rightarrow> vals ! i = Inr v \<and> cache_sound vals f' \<and> f_segment f' = [] \<and> f_out f' = f_out f"
    using ev [of st] assms(2-4)
    by (auto simp: get_or_eval_def cache_sound_def computes_def nth_list_update
        split: option.splits sum.splits)
  have str: "counts (counter_add_string s c)" for s c by (rule counting)
  show ?thesis
  proof (cases "get_or_eval ev i f st")
    case (Inl e)
    with got show ?thesis by auto
  next
    case (Inr r)
    obtain v f' st' where r: "r = (v, f', st')" by (cases r)
    with got Inr have "vals ! i = Inr v" "cache_sound vals f'" "f_segment f' = []" "f_out f' = f_out f" by auto
    with Inr r show ?thesis
      using str [of "to_display_string v" "f_counter f'"]
      by (cases "counter_add_string (to_display_string v) (f_counter f')") (auto simp: Let_def cache_sound_def)
  qed
qed

lemma format_loop_computes:
  assumes "\<And>i st. i < n \<Longrightarrow> computes (ev i st) (vals ! i)" "n = length vals" "cache_sound vals (fst fs)"
  shows "format_ideal (fst fs) (ideal_format vals cs) (format_loop ev n cs fs)"
  using assms
proof (induction ev n cs fs rule: format_loop.induct)
  case (1 ev n cs fs)
  obtain f st where fs: "fs = (f, st)" by (cases fs)
  show ?case
  proof (cases "next_format_token n cs")
    case (Inl e)
    with "1.prems" show ?thesis
      by (subst format_loop.simps, subst ideal_format.simps) (simp add: format_ideal_def)
  next
    case (Inr res)
    show ?thesis
    proof (cases res)
      case None
      with Inr "1.prems" fs show ?thesis
        by (subst format_loop.simps, subst ideal_format.simps) (simp add: format_ideal_def)
    next
      case (Some p)
      obtain t r where p: "p = (t, r)" by (cases p)
      have nx: "next_format_token n cs = Inr (Some (t, r))" using Inr Some p by simp
      have IH: "format_ideal f' (ideal_format vals r) (format_loop ev n r (f', st'))"
        if "format_token_step ev t fs = Inr (f', st')" "cache_sound vals f'" for f' st'
        using "1.IH" [OF nx refl refl that(1)] "1.prems" that by simp
      have step: "case format_token_step ev t fs of
          Inl e \<Rightarrow> is_memory_error e \<or> ideal_format vals cs = Inl e
        | Inr (f', st') \<Rightarrow> cache_sound vals f' \<and> (\<exists>s. f_out f' @ f_segment f' = f_out f @ f_segment f @ s \<and>
            ideal_format vals cs = rbind (ideal_format vals r) (\<lambda>x. Inr (s @ x)))"
      proof (cases t)
        case (Literal c)
        have i: "ideal_format vals cs = rbind (ideal_format vals r) (\<lambda>x. Inr ([c] @ x))"
          using nx Literal "1.prems"(2) by (subst ideal_format.simps) simp
        let ?f = "f\<lparr>f_segment := f_segment f @ [c]\<rparr>"
        show ?thesis
          unfolding i Literal fs format_token_step_def
          by (rule append_segment_cases [of ?f]) (use "1.prems"(3) fs in \<open>auto simp: Let_def cache_sound_def\<close>)
      next
        case (Placeholder i spec)
        have i: "i < length vals"
          using next_format_token_reference [OF nx] Placeholder "1.prems"(2) by simp
        have ideal: "ideal_format vals cs = (case vals ! i of
            Inl e \<Rightarrow> Inl (Format (ArgumentEvaluation e))
          | Inr v \<Rightarrow> (if spec \<noteq> [] then Inl (Format (UnsupportedFormatSpecifier spec (kind v)))
              else rbind (ideal_format vals r) (\<lambda>s. Inr (to_display_string v @ s))))"
          using nx Placeholder "1.prems"(2) by (subst ideal_format.simps) simp
        show ?thesis
        proof (rule append_segment_cases [of f])
          fix m
          assume "append_segment f = Inl (MemoryLimitExceeded m)"
          then show ?thesis by (simp add: format_token_step_def Placeholder fs)
        next
          fix f1
          assume f1: "append_segment f = Inr f1" "f_out f1 = f_out f @ f_segment f" "f_segment f1 = []"
            "f_cache f1 = f_cache f"
          have "cache_sound vals f1" using "1.prems"(3) fs f1(4) by (simp add: cache_sound_def)
          note ph = placeholder_computes [where ev = ev and i = i and st = st and spec = spec,
              OF _ this i f1(3)]
          show ?thesis
            using ph "1.prems"(1,2) i f1(1,2)
            unfolding format_token_step_def Placeholder fs ideal
            by (auto simp: split: sum.splits)
        qed
      qed
      show ?thesis
      proof (cases "format_token_step ev t fs")
        case (Inl e)
        with step nx show ?thesis by (subst format_loop.simps) (auto simp: format_ideal_def)
      next
        case (Inr q)
        obtain f' st' where q: "q = (f', st')" by (cases q)
        with Inr step have "cache_sound vals f'" by auto
        from IH [OF Inr [unfolded q] this] step Inr q nx show ?thesis
          by (subst format_loop.simps) (auto simp: format_ideal_def fs split: sum.splits)
      qed
    qed
  qed
qed

lemma format_computes:
  assumes "\<And>i st. i < length vals \<Longrightarrow> computes (ev i st) (vals ! i)"
  shows "computes (format fmt (length vals) limit ev st)
    (rbind (ideal_format vals fmt) (\<lambda>s. Inr (VString s)))"
proof -
  let ?f = "\<lparr>f_out = [], f_segment = [], f_counter = new_counter limit,
         f_cache = replicate (length vals) None\<rparr>"
  have "format_ideal ?f (ideal_format vals fmt) (format_loop ev (length vals) fmt (?f, st))"
    using format_loop_computes [OF assms refl, of "(?f, st)" fmt] by (simp add: cache_sound_def)
  moreover have "computes (rbind (append_segment f') (\<lambda>f. Inr (VString (f_out f), st')))
      (Inr (VString (f_out f' @ f_segment f')))" for f' and st' :: 's
    by (rule append_segment_cases [of f']) auto
  ultimately show ?thesis
    unfolding format_def by (auto simp: format_ideal_def split: sum.splits)
qed

subsection \<open>Calls and trees\<close>

lemma unfiltered_tests:
  "unfiltered (contains up a b)" "unfiltered (starts_with up a b)" "unfiltered (ends_with up a b)"
  by (simp_all add: contains_def starts_with_def ends_with_def split: expr_value.splits)

lemma computes_if:
  "(b \<Longrightarrow> computes m a) \<Longrightarrow> (\<not> b \<Longrightarrow> computes m' a') \<Longrightarrow> computes (if b then m else m') (if b then a else a')"
  by simp

lemma call_body_computes:
  assumes arity: "lookup_arity name = Some a" "min_args a \<le> length args" "length args \<le> max_args a"
    and args: "\<And>i depth st. i < length args \<Longrightarrow> computes ((args ! i) depth st) (vals ! i)"
    and len: "length vals = length args"
    and fragment: "to_ascii_lowercase name \<noteq> lit ''fromjson''" "to_ascii_lowercase name \<noteq> lit ''hashfiles''"
  shows "computes (call_body c name args depth st) (ideal_body (upper c) (status c) name vals)"
proof -
  let ?l = "to_ascii_lowercase name"
  have known: "map_of ARITIES ?l = Some a" using arity(1) by (simp add: lookup_arity_def)
  have two: "1 < length args"
    if "?l = lit ''contains'' \<or> ?l = lit ''startswith'' \<or> ?l = lit ''endswith''"
    using that known arity by (auto simp: ARITIES_def)
  have one: "0 < length args"
    if "?l = lit ''format'' \<or> ?l = lit ''join'' \<or> ?l = lit ''tojson''"
    using that known arity by (auto simp: ARITIES_def)
  have zip: "\<forall>(f, a) \<in> set (zip args vals). \<forall>depth st. computes (f depth st) a"
    using args len by (auto simp: set_zip)
  have tl: "computes ((tl args ! i) depth st) (tl vals ! i)" if "i < length (tl vals)" for i depth st
    using args [of "Suc i"] that len by (simp add: nth_tl)
  have lens: "length (tl args) = length (tl vals)" using len by simp
  have case_: "computes (eval_case args depth st)
      (if even (length vals) then Inl InvalidCaseArity else ideal_case vals 1)"
    using case_loop_computes [OF zip, of 1 "depth + 1" st] len by (simp add: eval_case_def)
  show ?thesis
    unfolding call_body_def ideal_body_def Let_def
    apply (intro computes_if)
    subgoal using two by (intro guarded_computes args) (auto simp: unfiltered_tests)
    subgoal using two by (intro guarded_computes args) (auto simp: unfiltered_tests)
    subgoal using two by (intro guarded_computes args) (auto simp: unfiltered_tests)
    subgoal using one unfolding lens
      by (intro computes_rbind [OF args]) (auto simp del: length_tl intro!: format_computes tl)
    subgoal using one len by (auto intro!: computes_rbind [OF args] join_computes args)
    subgoal using one by (auto intro!: computes_rbind [OF args] to_json_computes)
    subgoal using fragment case_ by simp
    done
qed

lemma eval_binary_computes:
  assumes "\<And>depth st. computes (l depth st) a" "\<And>depth st. computes (r depth st) b"
  shows "computes (eval_binary c op l r depth st) (ideal_binary (upper c) op a b)"
  unfolding eval_binary_def ideal_binary_def Let_def
  by (rule computes_rbind [OF assms(1)])
     (auto intro!: computes_rbind [OF assms(2)] assms(2) split: bin_op.splits)

lemma index_into_unfiltered:
  "unfiltered t \<Longrightarrow> \<not> is_primitive t \<Longrightarrow> index_into up t i n rc = Inr a \<Longrightarrow>
   (case acc_value a of Some v \<Rightarrow> v | None \<Rightarrow> VNull) = access_value up t i"
  by (cases t) (auto simp: index_into_def access_value_def access_of_def no_access_def rbind_eq_Inr
      split: if_splits)

lemma eval_index_computes:
  assumes "\<And>depth st. computes (t depth st) a" "\<And>depth st. computes (i depth st) b"
  shows "computes (eval_index c t i depth st) (ideal_index (upper c) a b)"
  unfolding eval_index_def ideal_index_def
proof (rule computes_rbind [OF assms(1)])
  fix v st'
  assume v: "unfiltered v"
  have "computes (rbind (i (depth + 1) st') (\<lambda>(i, (m, rc)).
      rbind (index_into (upper c) v i (max_bytes m) rc) (\<lambda>a.
        charge depth (case acc_value a of Some v \<Rightarrow> v | None \<Rightarrow> VNull)
          (raw_memory (acc_bytes a) (acc_raw a)) (m, rc + 1))))
    (rbind b (\<lambda>i. Inr (access_value (upper c) v i)))" if "\<not> is_primitive v"
  proof (rule computes_rbind [OF assms(2)])
    fix w and s :: ev_state
    show "computes (case (w, s) of (i, m, rc) \<Rightarrow> rbind (index_into (upper c) v i (max_bytes m) rc) (\<lambda>a.
        charge depth (case acc_value a of Some v \<Rightarrow> v | None \<Rightarrow> VNull)
          (raw_memory (acc_bytes a) (acc_raw a)) (m, rc + 1))) (Inr (access_value (upper c) v w))"
      using v that
      by (cases s) (auto simp: index_into_unfiltered unfiltered_access
          intro!: computes_counts [OF index_into_counts] computes_charge)
  qed
  then show "computes (case (v, st') of (t, st) \<Rightarrow> if is_primitive t then charge depth VNull no_result_memory st
      else rbind (i (depth + 1) st) (\<lambda>(i, (m, rc)). rbind (index_into (upper c) t i (max_bytes m) rc) (\<lambda>a.
        charge depth (case acc_value a of Some v \<Rightarrow> v | None \<Rightarrow> VNull)
          (raw_memory (acc_bytes a) (acc_raw a)) (m, rc + 1))))
    (if is_primitive v then Inr VNull else rbind b (\<lambda>i. Inr (access_value (upper c) v i)))"
    by (simp add: computes_charge)
qed

lemma unfiltered_root: "unfiltered_context c \<Longrightarrow> resolve_root c name = Some v \<Longrightarrow> unfiltered v"
  by (auto simp: unfiltered_context_def resolve_root_def split: if_splits)

text \<open>On its fragment the evaluator computes the denotation, or fails for memory.\<close>

theorem evaluator_computes_ideal:
  "creates_nothing e \<Longrightarrow> unfiltered_context c \<Longrightarrow> computes (evaluate_inner c e depth st) (ideal c e)"
proof (induction e arbitrary: depth st)
  case (ENamedValue name)
  then show ?case
    using unfiltered_root [of c name]
    by (auto simp: eval_named_def split: option.splits
        intro!: computes_counts [OF counting(4)] computes_charge)
next
  case (ECall name args)
  have args: "computes ((map (evaluate_inner c) args ! i) d s) (map (ideal c) args ! i)"
    if "i < length (map (evaluate_inner c) args)" for i d s
    using ECall that by (auto simp: list_all_length)
  have "computes (eval_call c name (map (evaluate_inner c) args) depth st)
      (ideal_call (upper c) (status c) name (map (ideal c) args))"
    using ECall.prems
    unfolding eval_call_def ideal_call_def
    by (cases "lookup_arity name") (auto intro!: call_body_computes [OF _ _ _ args])
  then have "computes (evaluate_inner c (ECall name args) depth st)
      (rbind (ideal_call (upper c) (status c) name (map (ideal c) args)) Inr)"
    unfolding evaluate_inner.simps
    by (rule computes_rbind) (auto intro!: computes_charge computes_counts [OF counting(4)])
  then show ?case by (cases "ideal c (ECall name args)") simp_all
next
  case (ENot e)
  then have "computes (evaluate_inner c e (depth + 1) st) (ideal c e)" by simp
  then show ?case
    unfolding evaluate_inner.simps ideal.simps
    by (rule computes_rbind) (auto intro!: computes_charge)
next
  case (EBinary op l r)
  then show ?case
    by (auto intro!: computes_then_charge eval_binary_computes)
next
  case (EIndex t i)
  then show ?case by (auto intro!: eval_index_computes)
qed (simp_all add: computes_charge)

end
