(* ===== verification/Fold_Rules.thy ===== *)
theory Fold_Rules
  imports Partial_Eval Ideal_Eval
begin

text \<open>
  What the folder does, as rules. The locale states, for a relation between an expression and what
  it folds to, one law per way the folder builds its result; inside it the folder is taken apart
  once, call by call, and shown to stay within any relation that has the laws. It is interpreted for
  the shape of residuals here and for their meaning in \<open>Fold_Sound\<close>.
\<close>

section \<open>Planning computations\<close>

lemma preturn_apply [simp]: "preturn x rc = Inr y \<longleftrightarrow> y = (x, rc)"
  by (auto simp: preturn_def)

lemma pfail_apply [simp]: "pfail e rc \<noteq> Inr y"
  by (simp add: pfail_def)

lemma plift_apply [simp]: "plift m rc = Inr y \<longleftrightarrow> m = Inr (fst y) \<and> snd y = rc"
  by (cases y) (auto simp: plift_def rbind_eq_Inr)

lemma pbind_apply: "pbind m f rc = Inr y \<longleftrightarrow> (\<exists>x rc'. m rc = Inr (x, rc') \<and> f x rc' = Inr y)"
  by (auto simp: pbind_def rbind_eq_Inr)

lemma pbindE:
  assumes "pbind m f rc = Inr y"
  obtains x rc' where "m rc = Inr (x, rc')" "f x rc' = Inr y"
  using assms by (auto simp: pbind_apply)

lemma an_expr_analyse [simp]: "an_expr (analyse fc e) = e"
  by (cases e) (simp_all add: analysed_def Let_def)

lemma map_an_expr [simp]: "map an_expr (map (analyse fc) es) = es"
  by (simp add: comp_def)

text \<open>What \<open>fold_expr\<close> does with a node that has runtime dependencies.\<close>

definition fold_shape :: "fold_ctx \<Rightarrow> expr \<Rightarrow> defer_reason set \<Rightarrow> folded planning" where
  "fold_shape fc e ds = (case e of
     ENot t \<Rightarrow> fold_not (analyse fc t)
   | EBinary op l r \<Rightarrow> (case op of
       And \<Rightarrow> fold_and (analyse fc l) (analyse fc r) | Or \<Rightarrow> fold_or (analyse fc l) (analyse fc r)
     | _ \<Rightarrow> fold_strict_binary fc op (analyse fc l) (analyse fc r))
   | ECall name args \<Rightarrow> (if is_partially_foldable_function name
       then fold_call fc name (map (analyse fc) args) else preturn (FResidual e ds))
   | _ \<Rightarrow> preturn (FResidual e ds))"

lemma fold_expr_eq:
  "fold_expr fc e = pbind (collect_defer_reasons fc e) (\<lambda>ds.
     if ds = {} then pbind (static_eval fc e) (\<lambda>v. preturn (FValue v)) else fold_shape fc e ds)"
  by (cases e) (simp_all add: fold_expr_def collect_defer_reasons_def analysed_def fold_shape_def Let_def cong: if_cong)

text \<open>A list of operands some of which were replaced by what they folded to.\<close>

definition spliced :: "(expr \<Rightarrow> folded \<Rightarrow> bool) \<Rightarrow> expr list \<Rightarrow> expr list \<Rightarrow> bool" where
  "spliced Q args args' \<longleftrightarrow>
     list_all2 (\<lambda>a a'. a' = a \<or> (\<exists>f. Q a f \<and> a' = fst (split_folded f))) args args'"

lemma spliced_refl: "spliced Q args args"
  by (simp add: spliced_def list_all2_refl)

lemma spliced_Cons:
  "spliced Q (a # as) (a' # as') \<longleftrightarrow>
     (a' = a \<or> (\<exists>f. Q a f \<and> a' = fst (split_folded f))) \<and> spliced Q as as'"
  by (simp add: spliced_def)

lemma spliced_length: "spliced Q args args' \<Longrightarrow> length args' = length args"
  by (simp add: spliced_def list_all2_lengthD)

lemma spliced_update:
  "spliced Q args args' \<Longrightarrow> i < length args \<Longrightarrow> Q (args ! i) f \<Longrightarrow>
   spliced Q args (args'[i := fst (split_folded f)])"
  unfolding spliced_def list_all2_conv_all_nth by (auto simp: nth_list_update)

lemma spliced_nth:
  "spliced Q args args' \<Longrightarrow> i < length args \<Longrightarrow>
   args' ! i = args ! i \<or> (\<exists>f. Q (args ! i) f \<and> args' ! i = fst (split_folded f))"
  by (simp add: spliced_def list_all2_conv_all_nth)

text \<open>A call whose value does not depend on the context.\<close>

definition decided :: "ustr \<Rightarrow> expr list \<Rightarrow> bool" where
  "decided name args \<longleftrightarrow> (\<forall>c1 c2. upper c1 = upper c2 \<longrightarrow> ideal c1 (ECall name args) = ideal c2 (ECall name args))"

abbreviation scalars :: "(expr \<Rightarrow> folded \<Rightarrow> bool) \<Rightarrow> expr list \<Rightarrow> bool" where
  "scalars Q args \<equiv> \<forall>a \<in> set args. \<forall>v. Q a (FValue v) \<longrightarrow> is_primitive v"

lemma literal_answer: "is_primitive v \<Longrightarrow> ideal c (value_to_literal_expr v) = Inr v"
  by (cases v) (auto simp: value_to_literal_expr_def)

lemma literal_independent: "ideal c1 (value_to_literal_expr v) = ideal c2 (value_to_literal_expr v)"
  by (cases v) (auto simp: value_to_literal_expr_def)

text \<open>Calls other than the status functions do not see the status.\<close>

lemma status_irrelevant:
  "is_status_function name = None \<Longrightarrow> ideal_call up st name vs = ideal_call up st' name vs"
  by (auto simp: is_status_function_def ideal_call_def ideal_body_def Let_def split: if_splits option.splits)

lemma decidedI:
  assumes "is_status_function name = None"
    and "\<And>c1 c2. upper c1 = upper c2 \<Longrightarrow> ideal_call (upper c1) Success name (map (ideal c1) args) =
      ideal_call (upper c2) Success name (map (ideal c2) args)"
  shows "decided name args"
  unfolding decided_def ideal.simps using assms status_irrelevant [OF assms(1)] by metis

lemma decided_literals:
  assumes "is_status_function name = None" "\<forall>a \<in> set args. \<exists>v. a = value_to_literal_expr v"
  shows "decided name args"
proof (rule decidedI [OF assms(1)])
  fix c1 c2 :: ctx
  assume "upper c1 = upper c2"
  moreover have "map (ideal c1) args = map (ideal c2) args"
    using assms(2) literal_independent by auto
  ultimately show "ideal_call (upper c1) Success name (map (ideal c1) args) =
      ideal_call (upper c2) Success name (map (ideal c2) args)" by (simp only:)
qed

lemma guarded_two:
  assumes "validate_function name (length args) = Inr ()"
    "to_ascii_lowercase name \<in> {lit ''contains'', lit ''startswith'', lit ''endswith''}"
  obtains a b where "args = [a, b]"
proof -
  have "length args = 2"
    using assms by (auto simp: validate_function_def lookup_arity_def ARITIES_def split: if_splits)
  then show ?thesis using that by (auto simp: length_Suc_conv eval_nat_numeral)
qed

lemma skips_second_not_scalar: "guarded_call_skips_second name v \<Longrightarrow> \<not> is_primitive v"
  by (cases v) (auto simp: guarded_call_skips_second_def Let_def split: if_splits)

section \<open>The laws\<close>

locale fold_rules =
  fixes fc :: fold_ctx
    and OK :: "expr \<Rightarrow> bool"
    and Q :: "expr \<Rightarrow> folded \<Rightarrow> bool"
    and Qcase :: "expr list \<Rightarrow> folded \<Rightarrow> bool"
  assumes ok_not: "OK (ENot t) \<Longrightarrow> OK t"
    and ok_binary: "OK (EBinary op l r) \<Longrightarrow> OK l \<and> OK r"
    and ok_call: "OK (ECall name args) \<Longrightarrow> validate_function name (length args) = Inr () \<and> (\<forall>a \<in> set args. OK a)"
    and reason: "Q e (FResidual r ds) \<Longrightarrow> ds \<noteq> {}"
    and opaque: "OK e \<Longrightarrow> ds \<noteq> {} \<Longrightarrow> Q e (FResidual e ds)"
    and static: "OK e \<Longrightarrow> (\<And>t rc f rc'. size t < size e \<Longrightarrow> OK t \<Longrightarrow> fold_expr fc t rc = Inr (f, rc') \<Longrightarrow> Q t f) \<Longrightarrow>
      collect_defer_reasons fc e rc = Inr ({}, rc') \<Longrightarrow> static_eval fc e rc' = Inr (v, rc'') \<Longrightarrow> Q e (FValue v)"
    and not_value: "Q t (FValue v) \<Longrightarrow> Q (ENot t) (FValue (VBool (is_falsy v)))"
    and not_residual: "Q t (FResidual r ds) \<Longrightarrow> Q (ENot t) (FResidual (ENot r) ds)"
    and short_circuit: "Q l (FValue v) \<Longrightarrow> op = And \<and> is_falsy v \<or> op = Or \<and> is_truthy v \<Longrightarrow>
      Q (EBinary op l r) (FValue v)"
    and right_operand: "Q l (FValue v) \<Longrightarrow> op = And \<and> \<not> is_falsy v \<or> op = Or \<and> \<not> is_truthy v \<Longrightarrow> Q r f \<Longrightarrow>
      Q (EBinary op l r) f"
    and logical_residual: "OK (EBinary op l r) \<Longrightarrow> is_logical op \<Longrightarrow> Q l (FResidual l' ds) \<Longrightarrow>
      Q (EBinary op l r) (FResidual (EBinary op l' r) (ds \<union> rs))"
    and compare_values: "\<not> is_logical op \<Longrightarrow> Q l (FValue v) \<Longrightarrow> Q r (FValue w) \<Longrightarrow>
      Q (EBinary op l r) (FValue (VBool (compare_op (fc_upper fc) op v w)))"
    and compare_residual: "OK (EBinary op l r) \<Longrightarrow> \<not> is_logical op \<Longrightarrow> Q l f \<Longrightarrow> Q r g \<Longrightarrow> ds \<noteq> {} \<Longrightarrow>
      Q (EBinary op l r) (FResidual (EBinary op (fst (split_folded f)) (fst (split_folded g))) ds)"
    and call_residual: "OK (ECall name args) \<Longrightarrow> spliced Q args args' \<Longrightarrow>
      to_ascii_lowercase name' = to_ascii_lowercase name \<Longrightarrow> ds \<noteq> {} \<Longrightarrow>
      Q (ECall name args) (FResidual (ECall name' args') ds)"
    and call_value: "OK (ECall name args) \<Longrightarrow> spliced Q args args' \<Longrightarrow>
      to_ascii_lowercase name' = to_ascii_lowercase name \<Longrightarrow> (scalars Q args \<Longrightarrow> decided name' args') \<Longrightarrow>
      static_eval fc (ECall name' args') rc = Inr (v, rc') \<Longrightarrow> Q (ECall name args) (FValue v)"
    and case_call: "OK (ECall name args) \<Longrightarrow> to_ascii_lowercase name = lit ''case'' \<Longrightarrow> Qcase args f \<Longrightarrow>
      Q (ECall name args) f"
    and case_true: "Q p (FValue (VBool True)) \<Longrightarrow> Q t f \<Longrightarrow> Qcase (p # t # rest) f"
    and case_false: "Q p (FValue (VBool False)) \<Longrightarrow> Qcase rest f \<Longrightarrow> Qcase (p # t # rest) f"
    and case_default: "Q d f \<Longrightarrow> Qcase [d] f"
    and case_residual: "\<forall>a \<in> set (p # t # rest). OK a \<Longrightarrow> odd (length rest) \<Longrightarrow> length (p # t # rest) \<le> 255 \<Longrightarrow>
      Q p (FResidual r ds) \<Longrightarrow>
      Qcase (p # t # rest) (FResidual (ECall (lit ''case'') (r # t # rest)) (ds \<union> rs))"
begin

definition good :: "expr \<Rightarrow> bool" where
  "good e \<longleftrightarrow> OK e \<and> (\<forall>rc f rc'. fold_expr fc e rc = Inr (f, rc') \<longrightarrow> Q e f)"

lemma goodD: "good e \<Longrightarrow> an_fold (analyse fc e) rc = Inr (f, rc') \<Longrightarrow> Q e f"
  by (auto simp: good_def fold_expr_def)

lemma good_OK: "good e \<Longrightarrow> OK e"
  by (simp add: good_def)

lemma split_reasons: "Q e f \<Longrightarrow> snd (split_folded f) = {} \<longleftrightarrow> (\<exists>v. f = FValue v)"
  by (cases f) (auto dest: reason)

lemma folded_first:
  assumes "good e" "pbind (an_fold (analyse fc e)) k rc = Inr y"
  obtains x rc' where "Q e x" "k x rc' = Inr y"
  using assms by (auto simp: pbind_apply dest: goodD)

lemma fold_not_good:
  assumes "good t" "fold_not (analyse fc t) rc = Inr (f, rc')"
  shows "Q (ENot t) f"
proof -
  obtain x where "Q t x" "f = (case x of FValue v \<Rightarrow> FValue (VBool (is_falsy v)) | FResidual e ds \<Rightarrow> FResidual (ENot e) ds)"
    using folded_first [OF assms(1) assms(2) [unfolded fold_not_def]] by auto
  then show ?thesis by (cases x) (auto intro: not_value not_residual)
qed

lemma fold_and_good:
  assumes "OK (EBinary And l r)" "good l" "good r" "fold_and (analyse fc l) (analyse fc r) rc = Inr (f, rc')"
  shows "Q (EBinary And l r) f"
proof -
  obtain x rc1 where x: "Q l x" and k: "(case x of
     FValue l \<Rightarrow> (if is_falsy l then preturn (FValue l) else an_fold (analyse fc r))
   | FResidual e ds \<Rightarrow> pbind (an_reasons (analyse fc r)) (\<lambda>rs.
       preturn (FResidual (EBinary And e (an_expr (analyse fc r))) (ds \<union> rs)))) rc1 = Inr (f, rc')"
    using folded_first [OF assms(2) assms(4) [unfolded fold_and_def]] by blast
  show ?thesis
  proof (cases x)
    case (FValue v)
    with x k assms(3) show ?thesis
      by (auto intro: short_circuit right_operand dest: goodD split: if_splits)
  next
    case (FResidual l' ds)
    with x k assms(1) show ?thesis
      by (auto simp: pbind_apply is_logical_def intro: logical_residual)
  qed
qed

lemma fold_or_good:
  assumes "OK (EBinary Or l r)" "good l" "good r" "fold_or (analyse fc l) (analyse fc r) rc = Inr (f, rc')"
  shows "Q (EBinary Or l r) f"
proof -
  obtain x rc1 where x: "Q l x" and k: "(case x of
     FValue l \<Rightarrow> (if is_truthy l then preturn (FValue l) else an_fold (analyse fc r))
   | FResidual e ds \<Rightarrow> pbind (an_reasons (analyse fc r)) (\<lambda>rs.
       preturn (FResidual (EBinary Or e (an_expr (analyse fc r))) (ds \<union> rs)))) rc1 = Inr (f, rc')"
    using folded_first [OF assms(2) assms(4) [unfolded fold_or_def]] by blast
  show ?thesis
  proof (cases x)
    case (FValue v)
    with x k assms(3) show ?thesis
      by (auto intro: short_circuit right_operand dest: goodD split: if_splits)
  next
    case (FResidual l' ds)
    with x k assms(1) show ?thesis
      by (auto simp: pbind_apply is_logical_def intro: logical_residual)
  qed
qed

lemma fold_strict_binary_good:
  assumes "OK (EBinary op l r)" "\<not> is_logical op" "good l" "good r"
    and "fold_strict_binary fc op (analyse fc l) (analyse fc r) rc = Inr (f, rc')"
  shows "Q (EBinary op l r) f"
proof -
  obtain fl fr where q: "Q l fl" "Q r fr" and f: "f = (case (fl, fr) of
     (FValue lv, FValue rv) \<Rightarrow> FValue (VBool (compare_op (fc_upper fc) op lv rv))
   | _ \<Rightarrow> (let (le, ld) = split_folded fl; (re, rd) = split_folded fr
           in FResidual (EBinary op le re) (ld \<union> rd)))"
    using assms(5) by (auto simp: fold_strict_binary_def pbind_apply dest!: goodD [OF assms(3)] goodD [OF assms(4)])
  show ?thesis
  proof (cases "\<exists>v w. fl = FValue v \<and> fr = FValue w")
    case True
    with q f assms(2) show ?thesis by (auto intro: compare_values)
  next
    case False
    then have "f = FResidual (EBinary op (fst (split_folded fl)) (fst (split_folded fr)))
        (snd (split_folded fl) \<union> snd (split_folded fr))"
      using f by (cases fl; cases fr) auto
    moreover have "snd (split_folded fl) \<union> snd (split_folded fr) \<noteq> {}"
      using False split_reasons [OF q(1)] split_reasons [OF q(2)] by auto
    ultimately show ?thesis
      using compare_residual [OF assms(1,2) q] by simp
  qed
qed

subsection \<open>Calls\<close>

text \<open>The end of folding a call: evaluated when nothing is deferred, kept otherwise.\<close>

lemma finish_call_good:
  assumes "OK (ECall name args)" "spliced Q args args'" "to_ascii_lowercase name' = to_ascii_lowercase name"
    and "scalars Q args \<Longrightarrow> ds = {} \<Longrightarrow> decided name' args'"
    and "finish_call fc name' args' ds rc = Inr (f, rc')"
  shows "Q (ECall name args) f"
proof (cases "ds = {}")
  case True
  with assms show ?thesis
    by (auto simp: finish_call_def evaluate_call_def pbind_apply intro: call_value)
next
  case False
  with assms show ?thesis
    by (auto simp: finish_call_def residual_call_def intro: call_residual)
qed


lemma fold_guarded_good:
  assumes ok: "OK (ECall name args)"
    and name: "to_ascii_lowercase name \<in> {lit ''contains'', lit ''startswith'', lit ''endswith''}"
    and "\<forall>a \<in> set args. good a"
    and f: "fold_guarded_binary_call fc name (map (analyse fc) args) rc = Inr (f, rc')"
  shows "Q (ECall name args) f"
proof -
  obtain a b where args: "args = [a, b]" using guarded_two [OF conjunct1 [OF ok_call [OF ok]] name] .
  with assms(3) have good: "good a" "good b" by simp_all
  have status: "is_status_function name = None" using name by (auto simp: is_status_function_def)
  let ?k = "\<lambda>x. case x of
     FValue v \<Rightarrow>
       (if guarded_call_skips_second name v
        then evaluate_call fc name [value_to_literal_expr v, b]
        else pbind (an_fold (analyse fc b)) (\<lambda>second. let (second_expr, ds) = split_folded second in
          finish_call fc name [value_to_literal_expr v, second_expr] ds))
   | FResidual e ds \<Rightarrow> pbind (collect_all [analyse fc b]) (\<lambda>rs. residual_call name [e, b] (ds \<union> rs))"
  have nth: "map (analyse fc) args ! 0 = analyse fc a" "map (analyse fc) args ! 1 = analyse fc b"
    "tl (map (analyse fc) args) = [analyse fc b]" by (simp_all add: args)
  have "pbind (an_fold (analyse fc a)) ?k rc = Inr (f, rc')"
    using f unfolding fold_guarded_binary_call_def nth an_expr_analyse .
  then obtain x rc1 where x: "Q a x" and k: "?k x rc1 = Inr (f, rc')"
    by (rule folded_first [OF good(1)])
  show ?thesis
  proof (cases x)
    case (FValue v)
    have first: "spliced Q args [value_to_literal_expr v, b]"
      using x FValue by (force simp: args spliced_Cons spliced_refl)
    show ?thesis
    proof (cases "guarded_call_skips_second name v")
      case True
      then have "\<not> scalars Q args" using x FValue args skips_second_not_scalar by auto
      with k FValue True show ?thesis
        by (auto simp: evaluate_call_def pbind_apply intro: call_value [OF ok first refl])
    next
      case False
      obtain y rc2 where y: "Q b y" and fin: "finish_call fc name [value_to_literal_expr v, fst (split_folded y)]
          (snd (split_folded y)) rc2 = Inr (f, rc')"
        using k FValue False by (auto simp: Let_def split_beta elim: folded_first [OF good(2)])
      show ?thesis
      proof (rule finish_call_good [OF ok _ refl _ fin])
        show "spliced Q args [value_to_literal_expr v, fst (split_folded y)]"
          using x FValue y by (force simp: args spliced_Cons spliced_refl)
        show "decided name [value_to_literal_expr v, fst (split_folded y)]" if "snd (split_folded y) = {}"
          using that split_reasons [OF y] status by (auto intro!: decided_literals)
      qed
    qed
  next
    case (FResidual e ds)
    have "spliced Q args [e, b]" using x FResidual by (force simp: args spliced_Cons spliced_refl)
    with k FResidual reason [of a e ds] x show ?thesis
      by (auto simp: pbind_apply residual_call_def intro: call_residual [OF ok])
  qed
qed

lemma fold_all_good:
  assumes "\<forall>a \<in> set args. good a" "fold_all (map (analyse fc) args) rc = Inr ((es, ds), rc')"
  shows "spliced Q args es \<and> (ds = {} \<longrightarrow> (\<forall>a \<in> set es. \<exists>v. a = value_to_literal_expr v))"
  using assms
proof (induction args arbitrary: es ds rc rc')
  case (Cons a args)
  obtain x es' ds' rc1 where x: "Q a x" and rest: "fold_all (map (analyse fc) args) rc1 = Inr ((es', ds'), rc')"
    and es: "es = fst (split_folded x) # es'" "ds = snd (split_folded x) \<union> ds'"
    using Cons.prems by (auto simp: pbind_apply Let_def split_beta dest!: goodD)
  with Cons.IH [OF _ rest] Cons.prems split_reasons [OF x] show ?case
    by (auto simp: spliced_Cons)
qed (simp add: spliced_refl)

lemma fold_all_args_good:
  assumes ok: "OK (ECall name args)" and status: "is_status_function name = None"
    and "\<forall>a \<in> set args. good a" "fold_all_args fc name (map (analyse fc) args) rc = Inr (f, rc')"
  shows "Q (ECall name args) f"
proof -
  obtain es ds rc1 where all: "fold_all (map (analyse fc) args) rc = Inr ((es, ds), rc1)"
    and fin: "finish_call fc name es ds rc1 = Inr (f, rc')"
    using assms(4) by (auto simp: fold_all_args_def pbind_apply)
  note es = fold_all_good [OF assms(3) all]
  show ?thesis
    using es by (intro finish_call_good [OF ok _ refl _ fin] decided_literals [OF status]) auto
qed

lemma fold_join_good:
  assumes ok: "OK (ECall name args)" and name: "to_ascii_lowercase name = lit ''join''"
    and "\<forall>a \<in> set args. good a" and f: "fold_join fc (map (analyse fc) args) rc = Inr (f, rc')"
  shows "Q (ECall name args) f"
proof -
  have lower: "to_ascii_lowercase (lit ''join'') = to_ascii_lowercase name"
    using name by (simp add: to_ascii_lowercase_def lit_def ascii_lower_def)
  have status: "is_status_function (lit ''join'') = None" by code_simp
  have "args \<noteq> [] \<and> length args \<le> 2"
    using ok_call [OF ok] name
    by (auto simp: validate_function_def lookup_arity_def ARITIES_def split: if_splits)
  then obtain a as where args: "args = a # as" and as: "take 1 as = as" by (cases args) auto
  with assms(3) have good: "good a" "\<forall>b \<in> set as. good b" by simp_all
  let ?k = "\<lambda>x. case x of
     FValue v \<Rightarrow>
       (if (case v of VArray _ items _ \<Rightarrow> 2 \<le> length items | _ \<Rightarrow> False) \<and> 1 < length args
        then pbind (an_fold (map (analyse fc) args ! 1)) (\<lambda>separator. let (separator_expr, ds) = split_folded separator in
          finish_call fc (lit ''join'') [value_to_literal_expr v, separator_expr] ds)
        else evaluate_call fc (lit ''join'') (value_to_literal_expr v # as))
   | FResidual e ds \<Rightarrow> pbind (collect_all (map (analyse fc) as)) (\<lambda>rs.
       residual_call (lit ''join'') (e # as) (ds \<union> rs))"
  have nth: "map (analyse fc) args ! 0 = analyse fc a" "tl (map (analyse fc) args) = map (analyse fc) as"
    "map an_expr (take 1 (map (analyse fc) as)) = as" "length (map (analyse fc) args) = length args"
    using as by (simp_all add: args take_map comp_def)
  have "pbind (an_fold (analyse fc a)) ?k rc = Inr (f, rc')"
    using f unfolding fold_join_def nth .
  then obtain x rc1 where x: "Q a x" and k: "?k x rc1 = Inr (f, rc')"
    by (rule folded_first [OF good(1)])
  show ?thesis
  proof (cases x)
    case (FValue v)
    show ?thesis
    proof (cases "(case v of VArray _ items _ \<Rightarrow> 2 \<le> length items | _ \<Rightarrow> False) \<and> 1 < length args")
      case True
      then obtain b where b: "as = [b]" using args as by (cases as) auto
      with good have gb: "good b" by simp
      obtain y rc2 where y: "Q b y" and fin: "finish_call fc (lit ''join'')
          [value_to_literal_expr v, fst (split_folded y)] (snd (split_folded y)) rc2 = Inr (f, rc')"
        using k FValue True b args by (auto simp: Let_def split_beta elim: folded_first [OF gb])
      show ?thesis
      proof (rule finish_call_good [OF ok _ lower _ fin])
        show "spliced Q args [value_to_literal_expr v, fst (split_folded y)]"
          using x FValue y b by (force simp: args spliced_Cons spliced_refl)
        show "decided (lit ''join'') [value_to_literal_expr v, fst (split_folded y)]" if "snd (split_folded y) = {}"
          using that split_reasons [OF y] status by (auto intro!: decided_literals)
      qed
    next
      case False
      have "decided (lit ''join'') (value_to_literal_expr v # as)" if "is_primitive v"
        using that
        by (intro decidedI [OF status])
           (auto simp: ideal_call_def ideal_body_def literal_answer ideal_join_def Let_def
            to_ascii_lowercase_def lit_def ascii_lower_def split: option.splits expr_value.splits)
      then have dec: "scalars Q args \<Longrightarrow> decided (lit ''join'') (value_to_literal_expr v # as)"
        using x FValue args by simp
      have spl: "spliced Q args (value_to_literal_expr v # as)"
        using x FValue by (force simp: args spliced_Cons spliced_refl)
      obtain w rc2 where f: "f = FValue w"
        and ev: "static_eval fc (ECall (lit ''join'') (value_to_literal_expr v # as)) rc1 = Inr (w, rc2)"
        using k FValue False by (auto simp: evaluate_call_def pbind_apply)
      show ?thesis unfolding f by (rule call_value [OF ok spl lower dec ev])
    qed
  next
    case (FResidual e ds)
    have "spliced Q args (e # as)" using x FResidual by (force simp: args spliced_Cons spliced_refl)
    with k FResidual reason [of a e ds] x show ?thesis
      by (auto simp: pbind_apply residual_call_def intro: call_residual [OF ok _ lower])
  qed
qed

lemma fold_case_good:
  assumes "\<forall>a \<in> set args. good a" "odd (length args)" "length args \<le> 255"
    and "fold_case_loop (map (analyse fc) args) n rc = Inr (f, rc')"
  shows "Qcase args f"
  using assms
proof (induction args arbitrary: n rc rule: induct_list012)
  case (3 p t rest)
  from "3.prems"(1) have p: "good p" by simp
  from "3.prems"(4) [unfolded list.map fold_case_loop.simps]
  obtain x rc1 where x: "Q p x" and k: "(case x of
     FValue (VBool b) \<Rightarrow> (if b then an_fold (analyse fc t) else fold_case_loop (map (analyse fc) rest) (n + 1))
   | FValue w \<Rightarrow> pfail (EvalErr (InvalidCasePredicate n (kind w)))
   | FResidual e ds \<Rightarrow> pbind (collect_all (analyse fc t # map (analyse fc) rest)) (\<lambda>rs.
       residual_call (lit ''case'') (e # an_expr (analyse fc t) # map an_expr (map (analyse fc) rest))
         (ds \<union> rs))) rc1 = Inr (f, rc')"
    by (rule folded_first [OF p])
  show ?case
  proof (cases x)
    case (FResidual r ds)
    with k x "3.prems" show ?thesis
      by (auto simp: pbind_apply residual_call_def comp_def intro!: case_residual good_OK)
  next
    case (FValue v)
    with k obtain b where v: "v = VBool b" by (cases v) auto
    show ?thesis
      using k x FValue v "3.prems" "3.IH"(1) by (cases b) (auto intro: case_true case_false dest: goodD)
  qed
qed (auto intro: case_default dest: goodD)

text \<open>\<open>format\<close>: \<open>pat\<close> is the pattern, \<open>as\<close> the arguments it may refer to.\<close>

definition format_inv :: "expr \<Rightarrow> expr list \<Rightarrow> expr_value \<Rightarrow> format_fold \<Rightarrow> bool" where
  "format_inv pat as v s \<longleftrightarrow> spliced Q (pat # as) (ff_args s) \<and> ff_args s ! 0 = value_to_literal_expr v \<and>
     length (ff_seen s) = length as \<and> (ff_deferred s \<longleftrightarrow> ff_defers s \<noteq> {}) \<and>
     (\<not> ff_deferred s \<longrightarrow> (\<forall>i < length as. ff_seen s ! i \<longrightarrow>
        (\<exists>w. ff_args s ! Suc i = value_to_literal_expr w)))"

lemma fold_format_arg_inv:
  assumes "format_inv pat as v s" "i < length as" "\<forall>a \<in> set as. good a"
    and "fold_format_arg (map (analyse fc) as) i s rc = Inr (s', rc')"
  shows "format_inv pat as v s' \<and> ff_seen s' ! i \<and> (ff_deferred s \<longrightarrow> ff_deferred s') \<and>
    (\<forall>j < length as. ff_seen s ! j \<longrightarrow> ff_seen s' ! j \<and> ff_args s' ! Suc j = ff_args s ! Suc j)"
proof (cases "ff_seen s ! i \<or> ff_deferred s")
  case True
  with assms show ?thesis
    by (auto simp: fold_format_arg_def format_inv_def Let_def pbind_apply nth_list_update split: if_splits)
next
  case False
  then obtain x where x: "Q (as ! i) x" and s': "s' = s\<lparr>ff_seen := (ff_seen s)[i := True],
      ff_args := (ff_args s)[Suc i := fst (split_folded x)], ff_defers := ff_defers s \<union> snd (split_folded x),
      ff_deferred := (case x of FResidual _ _ \<Rightarrow> True | _ \<Rightarrow> False)\<rparr>"
    using assms by (auto simp: fold_format_arg_def Let_def pbind_apply split_beta dest!: goodD)
  have "spliced Q (pat # as) ((ff_args s)[Suc i := fst (split_folded x)])"
    using assms(1,2) x spliced_update [of Q "pat # as" "ff_args s" "Suc i" x] by (simp add: format_inv_def)
  moreover have "length (ff_args s) = Suc (length as)"
    using assms(1) spliced_length by (fastforce simp: format_inv_def)
  ultimately show ?thesis
    using assms(1,2) x False reason [of "as ! i"] unfolding s'
    by (cases x) (auto simp: format_inv_def nth_list_update)
qed

definition format_outcome :: "expr \<Rightarrow> expr list \<Rightarrow> expr_value \<Rightarrow> ustr \<Rightarrow> format_fold \<Rightarrow> folded \<Rightarrow> bool" where
  "format_outcome pat as v cs s f \<longleftrightarrow>
     (\<exists>args' ds. f = FResidual (ECall (lit ''format'') args') ds \<and> ds \<noteq> {} \<and> spliced Q (pat # as) args') \<or>
     (\<exists>args' w rc1 rc2. f = FValue w \<and> \<not> ff_deferred s \<and> spliced Q (pat # as) args' \<and>
        static_eval fc (ECall (lit ''format'') args') rc1 = Inr (w, rc2) \<and> args' ! 0 = value_to_literal_expr v \<and>
        (\<forall>j < length as. ff_seen s ! j \<longrightarrow> args' ! Suc j = ff_args s ! Suc j) \<and>
        (\<forall>c1 c2. ideal_format (map (ideal c1) (tl args')) cs = ideal_format (map (ideal c2) (tl args')) cs))"

lemma format_residualI:
  "spliced Q (pat # as) args' \<Longrightarrow> ds \<noteq> {} \<Longrightarrow>
   format_outcome pat as v cs s (FResidual (ECall (lit ''format'') args') ds)"
  by (auto simp: format_outcome_def)

lemma format_valueI:
  "\<not> ff_deferred s \<Longrightarrow> spliced Q (pat # as) args' \<Longrightarrow> static_eval fc (ECall (lit ''format'') args') rc1 = Inr (w, rc2) \<Longrightarrow>
   args' ! 0 = value_to_literal_expr v \<Longrightarrow>
   (\<And>j. j < length as \<Longrightarrow> ff_seen s ! j \<Longrightarrow> args' ! Suc j = ff_args s ! Suc j) \<Longrightarrow>
   (\<And>c1 c2. ideal_format (map (ideal c1) (tl args')) cs = ideal_format (map (ideal c2) (tl args')) cs) \<Longrightarrow>
   format_outcome pat as v cs s (FValue w)"
  unfolding format_outcome_def by blast

lemma format_outcomeE:
  assumes "format_outcome pat as v cs s f"
  obtains args' ds where "f = FResidual (ECall (lit ''format'') args') ds" "ds \<noteq> {}" "spliced Q (pat # as) args'"
  | args' w rc1 rc2 where "f = FValue w" "\<not> ff_deferred s" "spliced Q (pat # as) args'"
      "static_eval fc (ECall (lit ''format'') args') rc1 = Inr (w, rc2)" "args' ! 0 = value_to_literal_expr v"
      "\<And>j. j < length as \<Longrightarrow> ff_seen s ! j \<Longrightarrow> args' ! Suc j = ff_args s ! Suc j"
      "\<And>c1 c2. ideal_format (map (ideal c1) (tl args')) cs = ideal_format (map (ideal c2) (tl args')) cs"
  using assms unfolding format_outcome_def by blast

lemma format_stops:
  assumes "format_inv pat as v s" "finish_call fc (lit ''format'') (ff_args s) (ff_defers s) rc = Inr (f, rc')"
    and "\<not> ff_deferred s \<Longrightarrow>
      \<forall>c1 c2. ideal_format (map (ideal c1) (tl (ff_args s))) cs = ideal_format (map (ideal c2) (tl (ff_args s))) cs"
  shows "format_outcome pat as v cs s f"
proof (cases "ff_deferred s")
  case True
  with assms(1,2) show ?thesis
    by (auto simp: format_inv_def finish_call_def residual_call_def intro: format_residualI)
next
  case False
  then show ?thesis
    using assms(1,2) assms(3) [OF False]
    by (auto simp: format_inv_def finish_call_def evaluate_call_def pbind_apply intro!: format_valueI)
qed

lemma fold_format_loop_good:
  assumes "format_inv pat as v s" "\<forall>a \<in> set as. good a"
    and "fold_format_loop fc (map (analyse fc) as) cs s rc = Inr (f, rc')"
  shows "format_outcome pat as v cs s f"
  using assms
proof (induction "length cs" arbitrary: cs s rc rule: less_induct)
  case less
  have len: "length (tl (ff_args s)) = length as"
    using less.prems(1) spliced_length by (fastforce simp: format_inv_def)
  show ?case
  proof (cases "next_format_token (length as) cs")
    case (Inl e)
    with less.prems show ?thesis
      by (subst (asm) fold_format_loop.simps) (auto intro: format_stops split: if_splits)
  next
    case (Inr res)
    show ?thesis
    proof (cases res)
      case None
      with Inr less.prems(3) have "finish_call fc (lit ''format'') (ff_args s) (ff_defers s) rc = Inr (f, rc')"
        by (subst (asm) fold_format_loop.simps) simp
      moreover have "ideal_format (map (ideal c) (tl (ff_args s))) cs = Inr []" for c
        using Inr None len by (subst ideal_format.simps) simp
      ultimately show ?thesis using less.prems(1) by (auto intro: format_stops)
    next
      case (Some q)
      obtain t r where q: "q = (t, r)" by (cases q)
      have nx: "next_format_token (length as) cs = Inr (Some (t, r))" using Inr Some q by simp
      note shorter = next_format_token_rest [OF nx]
      show ?thesis
      proof (cases t)
        case (Literal c)
        have loop: "fold_format_loop fc (map (analyse fc) as) r s rc = Inr (f, rc')"
          using less.prems(3) nx Literal by (subst (asm) fold_format_loop.simps) simp
        have "ideal_format (map (ideal c') (tl args')) cs =
            rbind (ideal_format (map (ideal c') (tl args')) r) (\<lambda>x. Inr (c # x))"
          if "spliced Q (pat # as) args'" for c' args'
          using nx Literal spliced_length [OF that] by (subst ideal_format.simps) simp
        note step = this
        from less.hyps [OF shorter less.prems(1,2) loop] show ?thesis
        proof (cases rule: format_outcomeE)
          case 1
          then show ?thesis by (simp add: format_residualI)
        next
          case (2 args' w rc1 rc2)
          have "ideal_format (map (ideal c1) (tl args')) cs = ideal_format (map (ideal c2) (tl args')) cs" for c1 c2
            using step [OF 2(3)] 2(7) [of c1 c2] by simp
          with 2 show ?thesis by (auto intro!: format_valueI)
        qed
      next
        case (Placeholder i spec)
        have i: "i < length as" using next_format_token_reference [OF nx] Placeholder by simp
        obtain s' rc1 where s': "fold_format_arg (map (analyse fc) as) i s rc = Inr (s', rc1)"
          and k: "(if spec \<noteq> [] then
             (if ff_deferred s' then finish_call fc (lit ''format'') (ff_args s') (ff_defers s')
              else evaluate_call fc (lit ''format'') (ff_args s'))
           else fold_format_loop fc (map (analyse fc) as) r s') rc1 = Inr (f, rc')"
          using less.prems(3) nx Placeholder
          by (subst (asm) fold_format_loop.simps) (auto elim: pbindE)
        note inv = fold_format_arg_inv [OF less.prems(1) i less.prems(2) s']
        have ideal: "ideal_format (map (ideal c) (tl args')) cs = (case ideal c (args' ! Suc i) of
            Inl e \<Rightarrow> Inl (Format (ArgumentEvaluation e))
          | Inr v \<Rightarrow> (if spec \<noteq> [] then Inl (Format (UnsupportedFormatSpecifier spec (kind v)))
              else rbind (ideal_format (map (ideal c) (tl args')) r) (\<lambda>x. Inr (to_display_string v @ x))))"
          if "spliced Q (pat # as) args'" for c args'
          using nx Placeholder i spliced_length [OF that] by (subst ideal_format.simps) (simp add: nth_tl)
        have known: "\<exists>w. ff_args s' ! Suc i = value_to_literal_expr w" if "\<not> ff_deferred s'"
          using inv that i by (simp add: format_inv_def)
        show ?thesis
        proof (cases "spec = []")
          case True
          with k have loop: "fold_format_loop fc (map (analyse fc) as) r s' rc1 = Inr (f, rc')" by simp
          from inv have "format_inv pat as v s'" by simp
          from less.hyps [OF shorter this less.prems(2) loop] show ?thesis
          proof (cases rule: format_outcomeE)
            case 1
            then show ?thesis by (simp add: format_residualI)
          next
            case (2 args' w rc2 rc3)
            obtain x where "args' ! Suc i = value_to_literal_expr x"
              using known [OF 2(2)] 2(6) [OF i] inv by auto
            then have "ideal_format (map (ideal c1) (tl args')) cs = ideal_format (map (ideal c2) (tl args')) cs"
              for c1 c2
              using ideal [OF 2(3)] 2(7) [of c1 c2] literal_independent [of c1 x c2] True by (simp split: sum.splits)
            moreover have "args' ! Suc j = ff_args s ! Suc j" if "j < length as" "ff_seen s ! j" for j
              using 2(6) [OF that(1)] inv that by simp
            moreover have "\<not> ff_deferred s" using inv 2(2) by blast
            ultimately show ?thesis using 2 by (auto intro!: format_valueI)
          qed
        next
          case False
          show ?thesis
          proof (cases "ff_deferred s'")
            case True
            with False k have "finish_call fc (lit ''format'') (ff_args s') (ff_defers s') rc1 = Inr (f, rc')" by simp
            with True inv show ?thesis
              by (auto simp: format_inv_def finish_call_def residual_call_def intro: format_residualI)
          next
            case deferred: False
            from known [OF this] obtain x where x: "ff_args s' ! Suc i = value_to_literal_expr x" by blast
            from inv have spl: "spliced Q (pat # as) (ff_args s')" by (simp add: format_inv_def)
            have "ideal_format (map (ideal c1) (tl (ff_args s'))) cs = ideal_format (map (ideal c2) (tl (ff_args s'))) cs"
              for c1 c2
              using ideal [OF spl] literal_independent [of c1 x c2] x False by (simp split: sum.splits)
            moreover obtain w rc2 where "f = FValue w"
              "static_eval fc (ECall (lit ''format'') (ff_args s')) rc1 = Inr (w, rc2)"
              using k False deferred by (auto simp: evaluate_call_def pbind_apply)
            ultimately show ?thesis
              using inv deferred spl by (auto simp: format_inv_def intro!: format_valueI)
          qed
        qed
      qed
    qed
  qed
qed

lemma fold_format_good:
  assumes ok: "OK (ECall name args)" and name: "to_ascii_lowercase name = lit ''format''"
    and "\<forall>a \<in> set args. good a" and f: "fold_format fc (map (analyse fc) args) rc = Inr (f, rc')"
  shows "Q (ECall name args) f"
proof -
  have lower: "to_ascii_lowercase (lit ''format'') = to_ascii_lowercase name"
    using name by (simp add: to_ascii_lowercase_def lit_def ascii_lower_def)
  have status: "is_status_function (lit ''format'') = None" by code_simp
  have "args \<noteq> []"
    using ok_call [OF ok] name
    by (auto simp: validate_function_def lookup_arity_def ARITIES_def split: if_splits)
  then obtain pat as where args: "args = pat # as" by (cases args) auto
  with assms(3) have good: "good pat" "\<forall>a \<in> set as. good a" by simp_all
  have nth: "map (analyse fc) args ! 0 = analyse fc pat" "tl (map (analyse fc) args) = map (analyse fc) as"
    by (simp_all add: args)
  from f [unfolded fold_format_def nth map_an_expr]
  obtain x rc1 where x: "Q pat x" and k: "(case x of
     FResidual e ds \<Rightarrow> pbind (collect_all (map (analyse fc) as)) (\<lambda>rs.
       residual_call (lit ''format'') (e # as) (ds \<union> rs))
   | FValue v \<Rightarrow> fold_format_loop fc (map (analyse fc) as) (to_display_string v)
       \<lparr>ff_args = value_to_literal_expr v # as,
        ff_seen = replicate (length (map (analyse fc) as)) False, ff_defers = {}, ff_deferred = False\<rparr>) rc1 = Inr (f, rc')"
    by (rule folded_first [OF good(1)])
  show ?thesis
  proof (cases x)
    case (FResidual e ds)
    have "spliced Q args (e # as)" using x FResidual by (force simp: args spliced_Cons spliced_refl)
    with k FResidual reason [of pat e ds] x show ?thesis
      by (auto simp: pbind_apply residual_call_def intro: call_residual [OF ok _ lower])
  next
    case (FValue v)
    let ?s = "\<lparr>ff_args = value_to_literal_expr v # as,
        ff_seen = replicate (length as) False, ff_defers = {}, ff_deferred = False\<rparr>"
    have "format_inv pat as v ?s"
      using x FValue by (force simp: format_inv_def spliced_Cons spliced_refl)
    from fold_format_loop_good [OF this good(2)] k FValue
    have "format_outcome pat as v (to_display_string v) ?s f" by simp
    then show ?thesis
    proof (cases rule: format_outcomeE)
      case (1 args' ds)
      then show ?thesis using call_residual [OF ok _ lower, of args' ds] args by simp
    next
      case (2 args' w rc1 rc2)
      have "decided (lit ''format'') args'" if "is_primitive v"
      proof (rule decidedI [OF status])
        fix c1 c2 :: ctx
        have len: "0 < length args'" using spliced_length [OF 2(3)] by simp
        have "map (ideal c) args' ! 0 = Inr v" for c
          using 2(5) literal_answer [OF that] len by simp
        then show "ideal_call (upper c1) Success (lit ''format'') (map (ideal c1) args') =
            ideal_call (upper c2) Success (lit ''format'') (map (ideal c2) args')"
          using 2(7) [of c1 c2]
          by (simp add: ideal_call_def ideal_body_def map_tl Let_def to_ascii_lowercase_def lit_def ascii_lower_def
              split: option.splits)
      qed
      then have dec: "scalars Q args \<Longrightarrow> decided (lit ''format'') args'" using x FValue args by simp
      show ?thesis
        unfolding 2(1) by (rule call_value [OF ok 2(3) [folded args] lower dec 2(4)])
    qed
  qed
qed

lemma fold_call_good:
  assumes ok: "OK (ECall name args)" and fn: "is_partially_foldable_function name"
    and args: "\<forall>a \<in> set args. good a" and f: "fold_call fc name (map (analyse fc) args) rc = Inr (f, rc')"
  shows "Q (ECall name args) f"
proof -
  have case_: "Q (ECall name args) f"
    if "to_ascii_lowercase name = lit ''case''" "fold_case (map (analyse fc) args) rc = Inr (f, rc')"
  proof -
    have "odd (length args)" "length args \<le> 255"
      using ok_call [OF ok] that(1)
      by (auto simp: validate_function_def lookup_arity_def ARITIES_def eq_ignore_ascii_case_def
          to_ascii_lowercase_def lit_def ascii_lower_def split: if_splits)
    from fold_case_good [OF args this] that(2) show ?thesis
      unfolding fold_case_def by (intro case_call [OF ok that(1)])
  qed
  have json: "is_status_function name = None"
    if "to_ascii_lowercase name \<in> {lit ''tojson'', lit ''fromjson''}"
    using that by (auto simp: is_status_function_def)
  show ?thesis
    using f fn case_ json fold_guarded_good [OF ok _ args] fold_format_good [OF ok _ args]
      fold_join_good [OF ok _ args] fold_all_args_good [OF ok _ args]
    by (auto simp: fold_call_def is_partially_foldable_function_def Let_def split: if_splits)
qed

text \<open>Whatever the folder returns for an expression is within the relation.\<close>

theorem fold_within_rules: "OK e \<Longrightarrow> fold_expr fc e rc = Inr (f, rc') \<Longrightarrow> Q e f"
proof -
  have "OK e \<longrightarrow> good e"
  proof (induction "size e" arbitrary: e rule: less_induct)
    case less
    have part: "good t" if "t \<in> set (children e)" "OK t" for t
      using less.hyps [OF size_children [OF that(1)]] that(2) by blast
    have smaller: "Q t f" if "size t < size e" "OK t" "fold_expr fc t rc = Inr (f, rc')" for t rc f rc'
      using less.hyps [OF that(1)] that by (auto simp: good_def)
    have "Q e f" if ok: "OK e" and f: "fold_expr fc e rc = Inr (f, rc')" for rc f rc'
    proof -
      obtain ds rc1 where ds: "collect_defer_reasons fc e rc = Inr (ds, rc1)"
        and k: "(if ds = {} then pbind (static_eval fc e) (\<lambda>v. preturn (FValue v)) else fold_shape fc e ds) rc1 = Inr (f, rc')"
        using f unfolding fold_expr_eq by (rule pbindE)
      show ?thesis
      proof (cases "ds = {}")
        case True
        with k obtain v rc2 where v: "static_eval fc e rc1 = Inr (v, rc2)" and f': "f = FValue v"
          by (auto simp: pbind_apply)
        have "Q e (FValue v)" by (rule static [OF ok smaller ds [unfolded True] v])
        then show ?thesis by (simp add: f')
      next
        case False
        with k have shape: "fold_shape fc e ds rc1 = Inr (f, rc')" by simp
        show ?thesis
        proof (cases e)
          case (ENot t)
          then show ?thesis using shape part ok ok_not [of t] by (auto simp: fold_shape_def intro: fold_not_good)
        next
          case (EBinary op l r)
          then have "good l" "good r" using part ok ok_binary [of op l r] by auto
          then show ?thesis
            using shape ok unfolding EBinary
            by (cases op) (auto simp: fold_shape_def is_logical_def
                intro: fold_and_good fold_or_good fold_strict_binary_good)
        next
          case (ECall name args)
          then have "\<forall>a \<in> set args. good a" using part ok ok_call [of name args] by auto
          then show ?thesis
            using shape ok opaque [OF ok False] unfolding ECall
            by (auto simp: fold_shape_def split: if_splits intro: fold_call_good)
        qed (use shape opaque [OF ok False] in \<open>simp_all add: fold_shape_def\<close>)
      qed
    qed
    then show ?case by (auto simp: good_def)
  qed
  then show "OK e \<Longrightarrow> fold_expr fc e rc = Inr (f, rc') \<Longrightarrow> Q e f" by (auto simp: good_def)
qed

end

end
