(* ===== verification/Fold_Sound.thy ===== *)
theory Fold_Sound
  imports Fold_Rules
begin

text \<open>
  What folding preserves. The first interpretation of the folder's rules shows that a residual is
  again a well-formed tree, no higher than the expression it came from, with at least one reason for
  its deferral. The second shows that folding preserves meaning: in every run-time context that
  agrees with what the planner knew, a folded value is the value of the expression and a residual has
  the value of the expression.
\<close>

section \<open>The shape of residuals\<close>

fun well_shaped :: "expr \<Rightarrow> folded \<Rightarrow> bool" where
  "well_shaped e (FValue v) = True"
| "well_shaped e (FResidual r ds) = (ds \<noteq> {} \<and> well_formed r \<and> height r \<le> height e)"

fun case_shaped :: "expr list \<Rightarrow> folded \<Rightarrow> bool" where
  "case_shaped args (FValue v) = True"
| "case_shaped args (FResidual r ds) = (ds \<noteq> {} \<and> well_formed r \<and> height r \<le> Suc (max_list0 (map height args)))"

lemma literal_shape [simp]:
  "well_formed (value_to_literal_expr v)" "height (value_to_literal_expr v) = 1"
  by (cases v; simp add: value_to_literal_expr_def)+

lemma height_ge_1: "1 \<le> height e"
  using height_pos(1) [of e] by simp

lemma split_shaped:
  "well_shaped e f \<Longrightarrow> well_formed (fst (split_folded f)) \<and> height (fst (split_folded f)) \<le> height e"
  using height_ge_1 [of e] by (cases f) simp_all

lemma max_list0_mono:
  assumes "list_all2 (\<le>) xs ys"
  shows "max_list0 xs \<le> max_list0 ys"
  unfolding max_list0_le
proof
  fix x
  assume "x \<in> set xs"
  then obtain i where "i < length xs" "x = xs ! i" by (auto simp: in_set_conv_nth)
  then have "x \<le> ys ! i" "ys ! i \<in> set ys" using assms by (auto simp: list_all2_conv_all_nth)
  then show "x \<le> max_list0 ys" using max_list0_ge by fastforce
qed

lemma max_list0_Cons [simp]: "max_list0 (x # xs) = max x (max_list0 xs)"
proof (rule antisym)
  show "max_list0 (x # xs) \<le> max x (max_list0 xs)"
    using max_list0_ge by (fastforce simp: max_list0_le intro: le_max_iff_disj [THEN iffD2])
  show "max x (max_list0 xs) \<le> max_list0 (x # xs)"
    using max_list0_ge [of _ "x # xs"] by (simp add: max_list0_le)
qed

lemma spliced_shaped:
  assumes "spliced well_shaped args args'" "list_all well_formed args"
  shows "list_all well_formed args' \<and> max_list0 (map height args') \<le> max_list0 (map height args)"
proof -
  have each: "well_formed (args' ! i) \<and> height (args' ! i) \<le> height (args ! i)" if "i < length args" for i
    using spliced_nth [OF assms(1) that] assms(2) that split_shaped by (fastforce simp: list_all_length)
  then show ?thesis
    using spliced_length [OF assms(1)]
    by (auto simp: list_all_length list_all2_conv_all_nth intro!: max_list0_mono)
qed

lemma validate_function_lower:
  "to_ascii_lowercase name' = to_ascii_lowercase name \<Longrightarrow>
   validate_function name' n = Inr () \<longleftrightarrow> validate_function name n = Inr ()"
  by (simp add: validate_function_def lookup_arity_def eq_ignore_ascii_case_def to_ascii_lowercase_def
      split: option.splits)

lemma case_arity: "3 \<le> n \<Longrightarrow> n \<le> 255 \<Longrightarrow> odd n \<Longrightarrow> validate_function (lit ''case'') n = Inr ()"
  by (simp add: validate_function_def lookup_arity_def ARITIES_def to_ascii_lowercase_def lit_def ascii_lower_def)

interpretation shape: fold_rules fc well_formed well_shaped case_shaped for fc
proof unfold_locales
  fix name args args' name' and ds :: "defer_reason set"
  assume "well_formed (ECall name args)" "spliced well_shaped args args'"
    "to_ascii_lowercase name' = to_ascii_lowercase name" "ds \<noteq> {}"
  then show "well_shaped (ECall name args) (FResidual (ECall name' args') ds)"
    using spliced_shaped [of args args'] validate_function_lower [of name' name "length args"]
      spliced_length [of well_shaped args args'] by (simp add: list_all_map_id)
next
  fix op l r f g and ds :: "defer_reason set"
  assume "well_shaped l f" "well_shaped r g" "ds \<noteq> {}"
  then show "well_shaped (EBinary op l r)
      (FResidual (EBinary op (fst (split_folded f)) (fst (split_folded g))) ds)"
    using split_shaped [of l f] split_shaped [of r g] by auto
next
  fix p t rest r and ds rs :: "defer_reason set"
  assume "\<forall>a \<in> set (p # t # rest). well_formed a" "odd (length rest)" "length (p # t # rest) \<le> 255"
    "well_shaped p (FResidual r ds)"
  then show "case_shaped (p # t # rest) (FResidual (ECall (lit ''case'') (r # t # rest)) (ds \<union> rs))"
    using case_arity [of "length (p # t # rest)"] odd_pos [of "length rest"]
    by (auto simp: list_all_iff Suc_le_eq intro: max.coboundedI2)
next
  fix op l v r f
  assume "well_shaped r f"
  then show "well_shaped (EBinary op l r) f" by (cases f) auto
next
  fix name args f
  assume "case_shaped args f"
  then show "well_shaped (ECall name args) f" by (cases f) auto
next
  fix p t f and rest :: "expr list"
  assume "well_shaped t f"
  then show "case_shaped (p # t # rest) f" by (cases f) auto
next
  fix p t f rest
  assume "case_shaped rest f"
  then show "case_shaped (p # t # rest) f" by (cases f) auto
next
  fix d f
  assume "well_shaped d f"
  then show "case_shaped [d] f" by (cases f) auto
qed (auto simp: list_all_iff)

text \<open>
  C30: folding stays inside the language. Whenever the planner leaves a residual of a parsed
  expression, the residual calls registered functions with accepted numbers of arguments, names
  existing context roots and is no higher than the expression, so the evaluator's depth guard refuses
  it only if it refuses the expression; and it carries at least one reason for the deferral.
\<close>

theorem residual_well_formed:
  assumes "parse source = Inr e" "fold_expr fc e rc = Inr (FResidual r ds, rc')"
  shows "well_formed r \<and> ds \<noteq> {} \<and> height r \<le> height e \<and>
    (exceeds_safe_evaluation_depth r \<longrightarrow> exceeds_safe_evaluation_depth e)"
proof -
  have "well_formed e"
    using assms(1) outcome_Inr [OF parse_tokens_parses] by (auto simp: parse_def rbind_eq_Inr)
  then have "well_shaped e (FResidual r ds)"
    using assms(2) by (rule shape.fold_within_rules)
  then have r: "ds \<noteq> {}" "well_formed r" "height r \<le> height e" by simp_all
  have "\<not> exceeds_safe_evaluation_depth x \<longleftrightarrow> height x \<le> MAX_EXPRESSION_DEPTH" for x
    unfolding exceeds_safe_evaluation_depth_def safe_depth_walk_iff by simp
  from this [of e] this [of r] r show ?thesis by linarith
qed

section \<open>Agreement of a run-time context with what the planner knew\<close>

text \<open>The value at the end of a path of primitive keys.\<close>

definition path_value :: "ctx \<Rightarrow> ustr \<Rightarrow> expr_value list \<Rightarrow> expr_value" where
  "path_value c name ks = foldl (access_value (upper c)) (the (resolve_root c name)) ks"

text \<open>
  A context agrees with the planner's when it has the same value at every root and at every path for
  which the classifier gives no reason to wait, and when the paths that the fixed shapes of the
  contexts make primitive or absent are so.
\<close>

definition agrees :: "fold_ctx \<Rightarrow> ctx \<Rightarrow> bool" where
  "agrees fc c \<longleftrightarrow> upper c = fc_upper fc \<and>
     (\<forall>name. classify_bare_root fc name = Inr {} \<longrightarrow> \<not> is_root name ''env'' \<longrightarrow>
        resolve_root c name = resolve_root (static_context fc 0) name) \<and>
     (\<forall>name ks. ks \<noteq> [] \<longrightarrow> list_all is_primitive ks \<longrightarrow>
        classify_path fc name (map to_display_string ks) = Inr {} \<longrightarrow>
        path_value c name ks = path_value (static_context fc 0) name ks) \<and>
     (\<forall>name ks. list_all is_primitive ks \<longrightarrow>
        path_target_is_known_primitive_or_missing fc name (map to_display_string ks) \<longrightarrow>
        is_primitive (path_value c name ks))"

definition known_context :: "fold_ctx \<Rightarrow> bool" where
  "known_context fc \<longleftrightarrow> agrees fc (static_context fc 0) \<and> unfiltered_context (static_context fc 0) \<and>
     kind (ec_resolved (fc_env fc)) = KObject"

text \<open>The fragment: the environment is only read entry by entry, and operands are scalars.\<close>

primrec env_by_entry :: "expr \<Rightarrow> bool" where
  "env_by_entry ENull = True"
| "env_by_entry (EBool _) = True"
| "env_by_entry (ENumber _) = True"
| "env_by_entry (EStr _) = True"
| "env_by_entry (ENamedValue name) = (\<not> is_root name ''env'')"
| "env_by_entry (ECall name args) = list_all id (map env_by_entry args)"
| "env_by_entry (EIndex t i) = ((case t of ENamedValue _ \<Rightarrow> True | _ \<Rightarrow> env_by_entry t) \<and> env_by_entry i)"
| "env_by_entry (EWildcard t) = env_by_entry t"
| "env_by_entry (ENot t) = env_by_entry t"
| "env_by_entry (EBinary _ l r) = (env_by_entry l \<and> env_by_entry r)"

primrec operands :: "expr \<Rightarrow> expr list" where
  "operands ENull = []"
| "operands (EBool _) = []"
| "operands (ENumber _) = []"
| "operands (EStr _) = []"
| "operands (ENamedValue _) = []"
| "operands (ECall _ args) = args @ concat (map operands args)"
| "operands (EIndex t i) = operands t @ operands i"
| "operands (EWildcard t) = operands t"
| "operands (ENot t) = operands t"
| "operands (EBinary op l r) = (if is_logical op then [] else [l, r]) @ operands l @ operands r"

definition scalar_operands :: "fold_ctx \<Rightarrow> expr \<Rightarrow> bool" where
  "scalar_operands fc e \<longleftrightarrow> list_all (\<lambda>a. case ideal (static_context fc 0) a of
     Inr v \<Rightarrow> is_primitive v | Inl _ \<Rightarrow> True) (operands e)"

definition meaning_ok :: "fold_ctx \<Rightarrow> expr \<Rightarrow> bool" where
  "meaning_ok fc e \<longleftrightarrow> known_context fc \<and> well_formed e \<and> creates_nothing e \<and> env_by_entry e \<and> scalar_operands fc e"

definition answered :: "'e + 'a \<Rightarrow> 'a option" where
  "answered a = (case a of Inl _ \<Rightarrow> None | Inr v \<Rightarrow> Some v)"

fun means :: "fold_ctx \<Rightarrow> expr \<Rightarrow> folded \<Rightarrow> bool" where
  "means fc e (FValue v) = (\<forall>c. agrees fc c \<longrightarrow> ideal c e = Inr v)"
| "means fc e (FResidual r ds) = (ds \<noteq> {} \<and> (creates_nothing e \<longrightarrow> creates_nothing r) \<and>
     (\<forall>c. agrees fc c \<longrightarrow> answered (ideal c r) = answered (ideal c e)))"

fun case_means :: "fold_ctx \<Rightarrow> expr list \<Rightarrow> folded \<Rightarrow> bool" where
  "case_means fc args (FValue v) = (\<forall>c n. agrees fc c \<longrightarrow> ideal_case (map (ideal c) args) n = Inr v)"
| "case_means fc args (FResidual r ds) = (ds \<noteq> {} \<and> (list_all creates_nothing args \<longrightarrow> creates_nothing r) \<and>
     (\<forall>c n. agrees fc c \<longrightarrow> answered (ideal c r) = answered (ideal_case (map (ideal c) args) n)))"

lemma answered_simps [simp]: "answered (Inl e) = None" "answered (Inr v) = Some v"
  by (simp_all add: answered_def)

lemma answered_eq_Some [simp]: "answered a = Some v \<longleftrightarrow> a = Inr v"
  by (cases a) auto

lemma answered_rbind: "answered (rbind a f) = Option.bind (answered a) (\<lambda>v. answered (f v))"
  by (cases a) auto

subsection \<open>Answers depend on answers\<close>

lemma answered_case:
  "map answered as = map answered bs \<Longrightarrow> answered (ideal_case as n) = answered (ideal_case bs m)"
proof (induction as arbitrary: bs n m rule: induct_list012)
  case (3 p v rest)
  then obtain p' v' rest' where bs: "bs = p' # v' # rest'" "answered p = answered p'" "answered v = answered v'"
    "map answered rest = map answered rest'" by (auto simp: map_eq_Cons_conv)
  note IH = "3.IH"(1) [OF bs(4)]
  show ?case
  proof (cases p)
    case (Inl e)
    with bs show ?thesis by (cases p') auto
  next
    case (Inr x)
    with bs have "p' = Inr x" by (cases p') auto
    then show ?thesis using Inr IH [of "n + 1" "m + 1"] bs(1,3) by (cases x) auto
  qed
qed (auto simp: map_eq_Cons_conv)

lemma answered_format:
  "map answered as = map answered bs \<Longrightarrow> answered (ideal_format as cs) = answered (ideal_format bs cs)"
proof (induction "length cs" arbitrary: cs rule: less_induct)
  case less
  have len: "length as = length bs" using less.prems by (rule map_eq_imp_length_eq)
  show ?case
  proof (cases "next_format_token (length bs) cs")
    case (Inl e)
    then show ?thesis by (subst (1 2) ideal_format.simps) (simp add: len)
  next
    case (Inr res)
    show ?thesis
    proof (cases res)
      case None
      with Inr show ?thesis by (subst (1 2) ideal_format.simps) (simp add: len)
    next
      case (Some q)
      obtain t r where q: "q = (t, r)" by (cases q)
      have nx: "next_format_token (length bs) cs = Inr (Some (t, r))" using Inr Some q by simp
      note IH = less.hyps [OF next_format_token_rest [OF nx] less.prems]
      show ?thesis
      proof (cases t)
        case (Literal c)
        with nx IH show ?thesis by (subst (1 2) ideal_format.simps) (simp add: len answered_rbind)
      next
        case (Placeholder i spec)
        have i: "i < length bs" using next_format_token_reference [OF nx] Placeholder by simp
        have "answered (as ! i) = answered (bs ! i)"
          using arg_cong [OF less.prems, of "\<lambda>xs. xs ! i"] i len by simp
        with nx IH Placeholder show ?thesis
          by (subst (1 2) ideal_format.simps)
             (cases "as ! i"; cases "bs ! i"; simp add: len answered_rbind)
      qed
    qed
  qed
qed

lemma answered_nth: "map answered as = map answered bs \<Longrightarrow> i < length as \<Longrightarrow> answered (as ! i) = answered (bs ! i)"
  by (metis length_map nth_map)

lemma answered_rbind_cong:
  "answered a = answered b \<Longrightarrow> (\<And>v. a = Inr v \<Longrightarrow> answered (f v) = answered (g v)) \<Longrightarrow>
   answered (rbind a f) = answered (rbind b g)"
  by (cases a; cases b) auto

lemma answered_join:
  "(s = None \<longleftrightarrow> s' = None) \<Longrightarrow> (s \<noteq> None \<Longrightarrow> answered (the s) = answered (the s')) \<Longrightarrow>
   answered (ideal_join v s) = answered (ideal_join v s')"
  by (cases s; cases s')
     (auto simp: ideal_join_def answered_rbind split: expr_value.splits list.splits)

lemma answered_call:
  assumes "map answered as = map answered bs" "to_ascii_lowercase name = to_ascii_lowercase name'"
  shows "answered (ideal_call up st name as) = answered (ideal_call up st name' bs)"
proof (cases "lookup_arity name")
  case None
  then show ?thesis using assms(2) by (simp add: ideal_call_def lookup_arity_def)
next
  case (Some a)
  have len: "length as = length bs" using assms(1) by (rule map_eq_imp_length_eq)
  have known: "map_of ARITIES (to_ascii_lowercase name') = Some a" "lookup_arity name' = Some a"
    using Some assms(2) by (simp_all add: lookup_arity_def)
  have "answered (ideal_body up st name as) = answered (ideal_body up st name' bs)"
    if ok: "min_args a \<le> length as" "length as \<le> max_args a"
  proof -
    let ?l = "to_ascii_lowercase name'"
    note nth = answered_nth [OF assms(1)]
    have two: "1 < length as" if "?l = lit ''contains'' \<or> ?l = lit ''startswith'' \<or> ?l = lit ''endswith''"
      using that known ok by (auto simp: ARITIES_def)
    have one: "0 < length as" if "?l = lit ''format'' \<or> ?l = lit ''join'' \<or> ?l = lit ''tojson''"
      using that known ok by (auto simp: ARITIES_def)
    have tl: "map answered (tl as) = map answered (tl bs)" using assms(1) by (simp add: map_tl)
    have guarded: "answered (ideal_guarded g f as) = answered (ideal_guarded g f bs)" if "1 < length as" for g f
    proof -
      have "answered (as ! 0) = answered (bs ! 0)" "answered (as ! 1) = answered (bs ! 1)"
        using that by (auto intro!: nth)
      then show ?thesis
        unfolding ideal_guarded_def by (intro answered_rbind_cong) (auto simp: answered_rbind)
    qed
    have join: "answered (ideal_join v (if 1 < length as then Some (as ! 1) else None)) =
        answered (ideal_join v (if 1 < length bs then Some (bs ! 1) else None))" for v
      using nth [of 1] len by (intro answered_join) auto
    show ?thesis
      unfolding ideal_body_def Let_def assms(2)
      using two one guarded nth [of 0] join answered_format [OF tl] answered_case [OF assms(1), of 1 1] len
      by (auto simp: answered_rbind intro!: answered_rbind_cong)
  qed
  with Some known len show ?thesis by (auto simp: ideal_call_def)
qed

subsection \<open>The planner's own context\<close>

abbreviation run_time_only :: "ustr \<Rightarrow> bool" where
  "run_time_only name \<equiv> is_root name ''secrets'' \<or> is_root name ''runner'' \<or> is_root name ''job''"

lemma static_context_fields:
  "upper (static_context fc rc) = fc_upper fc" "status (static_context fc rc) = Success"
  by (simp_all add: static_context_def Let_def with_inputs_def with_steps_def with_strategy_def with_matrix_def
      with_needs_def with_vars_def with_env_def with_github_def new_context_def)

lemma static_context_roots:
  "\<not> run_time_only name \<Longrightarrow> \<not> is_root name ''env'' \<Longrightarrow>
   resolve_root (static_context fc rc) name = resolve_root (static_context fc 0) name"
  by (simp add: resolve_root_def static_context_def Let_def with_inputs_def with_steps_def with_strategy_def
      with_matrix_def with_needs_def with_vars_def with_env_def with_github_def new_context_def)

lemma static_env:
  assumes "is_root name ''env''" "kind (ec_resolved (fc_env fc)) = KObject"
  shows "\<exists>n p. \<forall>rc. resolve_root (static_context fc rc) name = Some (VObject (rc + 9) n p True)"
proof -
  obtain i es ps cs where obj: "ec_resolved (fc_env fc) = VObject i es ps cs"
    using assms(2) by (cases "ec_resolved (fc_env fc)") auto
  have "\<not> eq_ignore_ascii_case name (lit ''github'')"
    using assms(1) by (simp add: eq_ignore_ascii_case_def to_ascii_lowercase_def lit_def ascii_lower_def)
  then show ?thesis
    using assms(1) obj
    by (cases "object_entries (fc_upper fc) True es")
       (simp add: resolve_root_def static_context_def Let_def with_inputs_def with_steps_def with_strategy_def
        with_matrix_def with_needs_def with_vars_def with_env_def with_github_def new_context_def object_new_def)
qed

lemma static_path_value:
  assumes "kind (ec_resolved (fc_env fc)) = KObject" "\<not> run_time_only name" "ks \<noteq> [] \<or> \<not> is_root name ''env''"
  shows "path_value (static_context fc rc) name ks = path_value (static_context fc 0) name ks"
proof (cases "is_root name ''env''")
  case True
  from static_env [OF True assms(1)] obtain n p where
    env: "\<And>rc. resolve_root (static_context fc rc) name = Some (VObject (rc + 9) n p True)" by blast
  from True assms(3) obtain k ks' where ks: "ks = k # ks'" by (cases ks) auto
  have "access_value up (VObject i n p True) k = access_value up (VObject j n p True) k" for up i j
    by (simp add: access_value_def)
  from this [of "fc_upper fc" "rc + 9" 9] show ?thesis
    using env [of rc] env [of 0] by (simp add: path_value_def ks static_context_fields)
next
  case False
  then show ?thesis
    using static_context_roots [OF assms(2) False, of fc rc] by (simp add: path_value_def static_context_fields)
qed

lemma run_time_only_deferred:
  assumes "run_time_only name"
  shows "classify_bare_root fc name \<noteq> Inr {}" "classify_path fc name segs \<noteq> Inr {}"
    "\<not> path_target_is_known_primitive_or_missing fc name segs"
  using assms
  by (auto simp: classify_bare_root_def classify_path_def path_target_is_known_primitive_or_missing_def Let_def
      eq_ignore_ascii_case_def to_ascii_lowercase_def lit_def ascii_lower_def)

lemma env_not_fixed: "is_root name ''env'' \<Longrightarrow> \<not> path_target_is_known_primitive_or_missing fc name segs"
  by (auto simp: path_target_is_known_primitive_or_missing_def Let_def
      eq_ignore_ascii_case_def to_ascii_lowercase_def lit_def ascii_lower_def)

lemma static_agrees:
  assumes "known_context fc"
  shows "agrees fc (static_context fc rc)"
proof -
  have obj: "kind (ec_resolved (fc_env fc)) = KObject" and zero: "agrees fc (static_context fc 0)"
    using assms by (simp_all add: known_context_def)
  note pv = static_path_value [OF obj, of _ _ rc]
  show ?thesis
    unfolding agrees_def
  proof (intro conjI allI impI)
    show "upper (static_context fc rc) = fc_upper fc" by (rule static_context_fields)
    fix name
    show "resolve_root (static_context fc rc) name = resolve_root (static_context fc 0) name"
      if "classify_bare_root fc name = Inr {}" "\<not> is_root name ''env''"
      using that run_time_only_deferred(1) by (intro static_context_roots) auto
    fix ks :: "expr_value list"
    show "path_value (static_context fc rc) name ks = path_value (static_context fc 0) name ks"
      if "ks \<noteq> []" "classify_path fc name (map to_display_string ks) = Inr {}"
      using that run_time_only_deferred(2) by (intro pv) auto
    show "is_primitive (path_value (static_context fc rc) name ks)"
      if prim: "list_all is_primitive ks"
        and fixed: "path_target_is_known_primitive_or_missing fc name (map to_display_string ks)"
    proof -
      have "path_value (static_context fc rc) name ks = path_value (static_context fc 0) name ks"
        using fixed run_time_only_deferred(3) env_not_fixed by (intro pv) blast+
      then show ?thesis using zero prim fixed by (simp add: agrees_def)
    qed
  qed
qed

lemma static_unfiltered:
  assumes "known_context fc"
  shows "unfiltered_context (static_context fc rc)"
proof -
  have "unfiltered_context (static_context fc 0)" using assms by (simp add: known_context_def)
  then show ?thesis
    by (auto simp: unfiltered_context_def static_context_def Let_def with_inputs_def with_steps_def
        with_strategy_def with_matrix_def with_needs_def with_vars_def with_env_def with_github_def new_context_def
        object_new_def object_entries_def split: expr_value.splits prod.splits)
qed

lemma static_eval_ideal:
  assumes "known_context fc" "creates_nothing e" "static_eval fc e rc = Inr (v, rc')"
  shows "ideal (static_context fc rc) e = Inr v"
proof -
  obtain st where "evaluate_inner (static_context fc rc) e 0
      (new_memory (effective_max_memory_bytes WORKFLOW_TEMPLATE_MAX_MEMORY_BYTES), rc + 10) = Inr (v, st)"
    using assms(3) by (auto simp: static_eval_def evaluate_with_options_def split: sum.splits if_splits)
  then show ?thesis
    using evaluator_computes_ideal [OF assms(2) static_unfiltered [OF assms(1), of rc]] by (metis computes_simps(2))
qed

subsection \<open>Paths and reasons\<close>

text \<open>A context root that is only the start of a path.\<close>

abbreviation path_start :: "fold_ctx \<Rightarrow> expr \<Rightarrow> bool" where
  "path_start fc e \<equiv> known_context fc \<and> (\<exists>n. e = ENamedValue n \<and> validate_named_value n = Inr ())"

lemma root_known: "validate_named_value name = Inr () \<Longrightarrow> \<exists>v. resolve_root c name = Some v"
  by (auto simp: validate_named_value_def ROOT_NAMES_def resolve_root_def eq_ignore_ascii_case_def split: if_splits)

lemma meaning_ok_parts:
  "meaning_ok fc (ENot t) \<Longrightarrow> meaning_ok fc t"
  "meaning_ok fc (EBinary op l r) \<Longrightarrow> meaning_ok fc l \<and> meaning_ok fc r"
  "meaning_ok fc (ECall name args) \<Longrightarrow> \<forall>a \<in> set args. meaning_ok fc a"
  "meaning_ok fc (EIndex t i) \<Longrightarrow> meaning_ok fc i \<and> (meaning_ok fc t \<or> path_start fc t)"
proof -
  show "meaning_ok fc (EIndex t i) \<Longrightarrow> meaning_ok fc i \<and> (meaning_ok fc t \<or> path_start fc t)"
    by (cases t) (auto simp: meaning_ok_def scalar_operands_def)
qed (auto simp: meaning_ok_def scalar_operands_def list_all_iff)

text \<open>The induction hypothesis of the folder's rules.\<close>

abbreviation folds_below :: "fold_ctx \<Rightarrow> expr \<Rightarrow> bool" where
  "folds_below fc e \<equiv> \<forall>t rc f rc'. size t < size e \<longrightarrow> meaning_ok fc t \<longrightarrow> fold_expr fc t rc = Inr (f, rc') \<longrightarrow> means fc t f"

lemma folded_primitive:
  assumes "folds_below fc e" "size t < size e" "meaning_ok fc t \<or> path_start fc t"
    and "fold_expr fc t rc = Inr (FValue v, rc')" "is_primitive v" "agrees fc c"
  shows "ideal c t = Inr v"
proof (cases "meaning_ok fc t")
  case True
  then show ?thesis using assms by fastforce
next
  case False
  with assms(3) obtain n where t: "t = ENamedValue n" "validate_named_value n = Inr ()" and k: "known_context fc" by blast
  with False have env: "is_root n ''env''" by (simp add: meaning_ok_def scalar_operands_def)
  have "classify_bare_root fc n = Inr {}"
    using env by (simp add: classify_bare_root_def Let_def eq_ignore_ascii_case_def to_ascii_lowercase_def
        lit_def ascii_lower_def)
  then obtain rc1 where "static_eval fc t rc1 = Inr (v, rc')"
    using assms(4) t(1)
    by (auto simp: fold_expr_eq collect_defer_reasons_def analysed_def pbind_apply)
  from static_eval_ideal [OF k _ this] t(1) have "ideal (static_context fc rc1) t = Inr v" by simp
  moreover obtain m p where "resolve_root (static_context fc rc1) n = Some (VObject (rc1 + 9) m p True)"
    using static_env [OF env, of fc] k unfolding known_context_def by blast
  ultimately show ?thesis using t(1) assms(5) by auto
qed

definition path_means :: "fold_ctx \<Rightarrow> expr \<Rightarrow> ustr \<Rightarrow> expr_value list \<Rightarrow> bool" where
  "path_means fc e name ks \<longleftrightarrow>
     (\<forall>c. agrees fc c \<longrightarrow> ideal c e = Inr (path_value c name ks)) \<and> (ks = [] \<longrightarrow> (\<exists>n. e = ENamedValue n)) \<or>
     (\<forall>c. agrees fc c \<longrightarrow> ideal c e = Inr VNull)"

lemma access_primitive [simp]: "is_primitive t \<Longrightarrow> access_value up t i = VNull"
  by (cases t) (auto simp: access_value_def)

lemma ideal_index_path:
  assumes "path_means fc t name ks" "is_primitive k" "\<And>c. agrees fc c \<Longrightarrow> ideal c i = Inr k"
  shows "path_means fc (EIndex t i) name (ks @ [k])"
  using assms unfolding path_means_def
  by (auto simp: ideal_index_def path_value_def)

lemma ideal_index_null:
  assumes "path_means fc t name ks" "\<And>c. agrees fc c \<Longrightarrow> \<exists>v. ideal c t = Inr v \<and> is_primitive v"
  shows "path_means fc (EIndex t i) name ks"
  using assms unfolding path_means_def by (fastforce simp: ideal_index_def)

lemma static_path_indexE:
  assumes "static_path fc (EIndex t i) rc = Inr (Some (name, segs), rc')"
  obtains segs0 rc1 where "static_path fc t rc = Inr (Some (name, segs0), rc1)"
    "(if path_target_is_known_primitive_or_missing fc name segs0 then preturn (Some (name, segs0))
       else pbind (fold_expr fc t) (\<lambda>f.
         if (case f of FValue v \<Rightarrow> is_primitive v | FResidual _ _ \<Rightarrow> False) then preturn (Some (name, segs0))
         else pbind (index_segment (analyse fc i)) (\<lambda>s. preturn (case s of
             Some segment \<Rightarrow> Some (name, segs0 @ [segment])
           | None \<Rightarrow> None)))) rc1 = Inr (Some (name, segs), rc')"
proof -
  obtain p rc1 where p: "static_path fc t rc = Inr (p, rc1)" and k: "(case p of
     None \<Rightarrow> preturn None
   | Some (origin, segments) \<Rightarrow>
      (if path_target_is_known_primitive_or_missing fc origin segments then preturn (Some (origin, segments))
       else pbind (fold_expr fc t) (\<lambda>f.
         if (case f of FValue v \<Rightarrow> is_primitive v | FResidual _ _ \<Rightarrow> False) then preturn (Some (origin, segments))
         else pbind (index_segment (analyse fc i)) (\<lambda>s. preturn (case s of
             Some segment \<Rightarrow> Some (origin, segments @ [segment])
           | None \<Rightarrow> None))))) rc1 = Inr (Some (name, segs), rc')"
    using assms unfolding static_path_def fold_expr_def analyse.simps analysed_def static_path_index_def Let_def
    by (auto elim: pbindE)
  obtain o' s' where p': "p = Some (o', s')" using k by (cases p) auto
  then have "o' = name"
    using k by (auto simp: pbind_apply split: if_splits option.splits)
  with that p k p' show ?thesis by simp
qed

lemma index_segment_means:
  assumes "folds_below fc e" "size i < size e" "meaning_ok fc i"
    and "index_segment (analyse fc i) rc = Inr (Some s, rc')"
  obtains x where "is_primitive x" "to_display_string x = s" "\<And>c. agrees fc c \<Longrightarrow> ideal c i = Inr x"
proof (cases "\<exists>t. i = EStr t")
  case True
  then show ?thesis using assms(4) that [of "VString s"] by (auto simp: index_segment_def)
next
  case False
  then have "index_segment (analyse fc i) = pbind (fold_expr fc i) (\<lambda>f. preturn (case f of
       FValue v \<Rightarrow> (if is_primitive v then Some (to_display_string v) else None)
     | FResidual _ _ \<Rightarrow> None))"
    unfolding index_segment_def fold_expr_def an_expr_analyse by (cases i) simp_all
  with assms(4) obtain f where f: "fold_expr fc i rc = Inr (f, rc')" and s: "Some s = (case f of
       FValue v \<Rightarrow> (if is_primitive v then Some (to_display_string v) else None)
     | FResidual _ _ \<Rightarrow> None)"
    by (auto simp: pbind_apply)
  then obtain x where "f = FValue x" "is_primitive x" "to_display_string x = s"
    by (cases f) (auto split: if_splits)
  with f assms(1-3) that show ?thesis by fastforce
qed

lemma static_path_means:
  assumes "folds_below fc e" "meaning_ok fc e \<or> path_start fc e"
    and "static_path fc e rc = Inr (Some (name, segs), rc')"
  shows "\<exists>ks. map to_display_string ks = segs \<and> list_all is_primitive ks \<and> path_means fc e name ks"
  using assms
proof (induction e arbitrary: segs rc rc')
  case (ENamedValue n)
  then have "segs = []" "name = n" "validate_named_value n = Inr ()"
    by (auto simp: static_path_def analysed_def meaning_ok_def)
  then have "path_means fc (ENamedValue n) name []"
    using root_known [of n] unfolding path_means_def path_value_def by (metis foldl_Nil ideal.simps(5) option.sel option.simps(5))
  with \<open>segs = []\<close> show ?case by auto
next
  case (EIndex t i)
  then have ok: "meaning_ok fc (EIndex t i)" by simp
  note parts = meaning_ok_parts(4) [OF ok]
  have below: "folds_below fc t" using EIndex.prems(1) by auto
  obtain segs0 rc1 where t: "static_path fc t rc = Inr (Some (name, segs0), rc1)"
    and k: "(if path_target_is_known_primitive_or_missing fc name segs0 then preturn (Some (name, segs0))
       else pbind (fold_expr fc t) (\<lambda>f.
         if (case f of FValue v \<Rightarrow> is_primitive v | FResidual _ _ \<Rightarrow> False) then preturn (Some (name, segs0))
         else pbind (index_segment (analyse fc i)) (\<lambda>s. preturn (case s of
             Some segment \<Rightarrow> Some (name, segs0 @ [segment])
           | None \<Rightarrow> None)))) rc1 = Inr (Some (name, segs), rc')"
    using EIndex.prems(3) by (rule static_path_indexE)
  obtain ks where ks: "map to_display_string ks = segs0" "list_all is_primitive ks" "path_means fc t name ks"
    using EIndex.IH(1) [OF below _ t] parts by blast
  show ?case
  proof (cases "path_target_is_known_primitive_or_missing fc name segs0")
    case True
    then have "\<exists>v. ideal c t = Inr v \<and> is_primitive v" if "agrees fc c" for c
      using ks that unfolding path_means_def agrees_def by fastforce
    from ideal_index_null [OF ks(3) this] ks True k show ?thesis by auto
  next
    case False
    with k obtain f rc2 where f: "fold_expr fc t rc1 = Inr (f, rc2)" and k2: "(
         if (case f of FValue v \<Rightarrow> is_primitive v | FResidual _ _ \<Rightarrow> False) then preturn (Some (name, segs0))
         else pbind (index_segment (analyse fc i)) (\<lambda>s. preturn (case s of
             Some segment \<Rightarrow> Some (name, segs0 @ [segment])
           | None \<Rightarrow> None))) rc2 = Inr (Some (name, segs), rc')" by (auto elim: pbindE)
    show ?thesis
    proof (cases "case f of FValue v \<Rightarrow> is_primitive v | FResidual _ _ \<Rightarrow> False")
      case True
      then obtain v where v: "f = FValue v" "is_primitive v" by (cases f) auto
      have "\<exists>v. ideal c t = Inr v \<and> is_primitive v" if "agrees fc c" for c
        using folded_primitive [OF EIndex.prems(1) _ conjunct2 [OF parts] f [unfolded v(1)] v(2) that] v(2) by simp
      from ideal_index_null [OF ks(3) this] ks True k2 show ?thesis by auto
    next
      case False
      with k2 obtain s rc3 where s: "index_segment (analyse fc i) rc2 = Inr (Some s, rc3)"
        and segs: "segs = segs0 @ [s]" by (auto simp: pbind_apply split: option.splits)
      obtain x where x: "is_primitive x" "to_display_string x = s" "\<And>c. agrees fc c \<Longrightarrow> ideal c i = Inr x"
        using index_segment_means [OF EIndex.prems(1) _ conjunct1 [OF parts] s] by auto
      have "path_means fc (EIndex t i) name (ks @ [x])" by (rule ideal_index_path [OF ks(3) x(1,3)])
      then show ?thesis using ks x segs by (intro exI [of _ "ks @ [x]"]) simp
    qed
  qed
qed (simp_all add: static_path_def analysed_def Let_def)

text \<open>An expression without reasons to wait has the same value in every agreeing context.\<close>

lemma collect_all_empty:
  "collect_all (map (analyse fc) args) rc = Inr ({}, rc') \<Longrightarrow> a \<in> set args \<Longrightarrow>
   \<exists>rc rc'. collect_defer_reasons fc a rc = Inr ({}, rc')"
  by (induction args arbitrary: rc rc') (auto simp: pbind_apply collect_defer_reasons_def)

lemma no_reason_same_value:
  assumes "folds_below fc e" "meaning_ok fc e" "collect_defer_reasons fc e rc = Inr ({}, rc')" "agrees fc c"
  shows "ideal c e = ideal (static_context fc 0) e"
  using assms
proof (induction e arbitrary: rc rc')
  case (ENamedValue n)
  then show ?case
    by (auto simp: collect_defer_reasons_def analysed_def meaning_ok_def agrees_def)
next
  case (ECall name args)
  have below: "folds_below fc a" if "a \<in> set args" for a
    using ECall.prems(1) size_children [of a "ECall name args"] that by auto
  obtain rs where rs: "collect_all (map (analyse fc) args) rc = Inr (rs, rc')"
    and none: "is_status_function name = None" "rs = {}"
    using ECall.prems(3)
    by (auto simp: collect_defer_reasons_def analysed_def collect_call_def pbind_apply Let_def
        split: option.splits if_splits)
  have "ideal c a = ideal (static_context fc 0) a" if a: "a \<in> set args" for a
    using ECall.IH [OF a below [OF a]] collect_all_empty [OF _ a] rs none(2) ECall.prems(2,4)
      meaning_ok_parts(3) [OF ECall.prems(2)] a by blast
  then have "map (ideal c) args = map (ideal (static_context fc 0)) args" by simp
  moreover have "upper c = upper (static_context fc 0)"
    using ECall.prems(4) by (simp add: agrees_def static_context_fields)
  ultimately show ?case
    unfolding ideal.simps by (metis status_irrelevant [OF none(1)])
next
  case (EIndex t i)
  note parts = meaning_ok_parts(4) [OF EIndex.prems(2)]
  have up: "upper c = upper (static_context fc 0)"
    using EIndex.prems(4) by (simp add: agrees_def static_context_fields)
  have zero: "agrees fc (static_context fc 0)" using EIndex.prems(2) by (simp add: meaning_ok_def static_agrees)
  obtain p rc1 where p: "static_path fc (EIndex t i) rc = Inr (p, rc1)" and k: "(case p of
     Some (origin, segments) \<Rightarrow> plift (classify_path fc origin segments)
   | None \<Rightarrow> (let wild = (case expression_root t of
         Some origin \<Rightarrow> (if is_root origin ''env'' then {DynamicEnv (lit ''*'')} else {}) | None \<Rightarrow> {})
      in pbind (fold_expr fc t) (\<lambda>f. case f of
          FValue v \<Rightarrow> (if is_primitive v then preturn wild
            else pbind (collect_defer_reasons fc i) (\<lambda>r. preturn (wild \<union> r)))
        | FResidual _ ds \<Rightarrow> pbind (collect_defer_reasons fc i) (\<lambda>r. preturn (wild \<union> ds \<union> r))))) rc1 = Inr ({}, rc')"
    using EIndex.prems(3)
    unfolding static_path_def fold_expr_def collect_defer_reasons_def analyse.simps analysed_def collect_index_def Let_def
      an_expr_analyse
    by (auto elim!: pbindE)
  show ?case
  proof (cases p)
    case (Some q)
    obtain name segs where q: "q = (name, segs)" by (cases q)
    obtain ks where ks: "map to_display_string ks = segs" "list_all is_primitive ks" "path_means fc (EIndex t i) name ks"
      using static_path_means [OF EIndex.prems(1)] EIndex.prems(2) p Some q by blast
    have "classify_path fc name segs = Inr {}" using k Some q by simp
    with ks have "ks \<noteq> [] \<Longrightarrow> path_value c name ks = path_value (static_context fc 0) name ks"
      using EIndex.prems(4) by (auto simp: agrees_def)
    then show ?thesis
      using ks(3) EIndex.prems(4) zero unfolding path_means_def by fastforce
  next
    case None
    let ?wild = "case expression_root t of
         Some origin \<Rightarrow> (if is_root origin ''env'' then {DynamicEnv (lit ''*'')} else {}) | None \<Rightarrow> {}"
    from k None obtain f rc2 where f: "fold_expr fc t rc1 = Inr (f, rc2)" and k2: "(case f of
          FValue v \<Rightarrow> (if is_primitive v then preturn ?wild
            else pbind (collect_defer_reasons fc i) (\<lambda>r. preturn (?wild \<union> r)))
        | FResidual _ ds \<Rightarrow> pbind (collect_defer_reasons fc i) (\<lambda>r. preturn (?wild \<union> ds \<union> r))) rc2 = Inr ({}, rc')"
      by (auto simp: Let_def elim!: pbindE)
    have wild: "?wild = {}"
      using k2 by (cases f) (auto simp: pbind_apply split: if_splits)
    have t: "meaning_ok fc t"
    proof (rule ccontr)
      assume bad: "\<not> meaning_ok fc t"
      with parts obtain n where "t = ENamedValue n" "validate_named_value n = Inr ()" "known_context fc" by blast
      with bad wild show False by (simp add: meaning_ok_def scalar_operands_def split: if_splits)
    qed
    have "size t < size (EIndex t i)" by simp
    with t f EIndex.prems(1) have m: "means fc t f" by blast
    show ?thesis
    proof (cases f)
      case (FResidual r ds)
      with m k2 show ?thesis by (auto simp: pbind_apply)
    next
      case (FValue v)
      with m have tv: "ideal c t = Inr v" "ideal (static_context fc 0) t = Inr v" using EIndex.prems(4) zero by simp_all
      have "ideal c i = ideal (static_context fc 0) i" if "\<not> is_primitive v"
      proof -
        have "pbind (collect_defer_reasons fc i) (\<lambda>r. preturn (?wild \<union> r)) rc2 = Inr ({}, rc')"
          using k2 FValue that by (auto split: if_splits)
        then obtain rc3 where "collect_defer_reasons fc i rc2 = Inr ({}, rc3)" by (auto simp: pbind_apply)
        moreover have "folds_below fc i" using EIndex.prems(1) by auto
        ultimately show ?thesis using EIndex.IH(2) parts EIndex.prems(4) by blast
      qed
      with tv up show ?thesis by (simp add: ideal_index_def)
    qed
  qed
next
  case (EBinary op l r)
  have below: "folds_below fc l" "folds_below fc r" using EBinary.prems(1) by auto
  have "ideal c l = ideal (static_context fc 0) l" "ideal c r = ideal (static_context fc 0) r"
    using EBinary.IH(1) [OF below(1)] EBinary.IH(2) [OF below(2)] EBinary.prems(3,4) meaning_ok_parts(2) [OF EBinary.prems(2)]
    by (auto simp: collect_defer_reasons_def analysed_def Let_def pbind_apply)
  then show ?case
    using EBinary.prems(4) by (simp add: agrees_def static_context_fields)
next
  case (ENot t)
  have "folds_below fc t" using ENot.prems(1) by auto
  then have "ideal c t = ideal (static_context fc 0) t"
    using ENot.IH ENot.prems(3,4) meaning_ok_parts(1) [OF ENot.prems(2)]
    by (auto simp: collect_defer_reasons_def analysed_def Let_def)
  then show ?case by simp
next
  case (EWildcard t)
  then show ?case by (simp add: meaning_ok_def)
qed simp_all

subsection \<open>The rules hold for meaning\<close>

lemma scalar_folded:
  assumes "scalar_operands fc e" "known_context fc" "a \<in> set (operands e)" "means fc a (FValue v)"
  shows "is_primitive v"
proof -
  have "ideal (static_context fc 0) a = Inr v" using assms(2,4) by (simp add: static_agrees)
  with assms(1,3) show ?thesis by (auto simp: scalar_operands_def list_all_iff)
qed

text \<open>Replacing a scalar operand by what it folded to does not change its answer.\<close>

lemma splice_answered:
  assumes "means fc a f" "\<And>v. f = FValue v \<Longrightarrow> is_primitive v" "agrees fc c"
  shows "answered (ideal c (fst (split_folded f))) = answered (ideal c a)"
  using assms by (cases f) (simp_all add: literal_answer)

lemma splice_creates: "means fc a f \<Longrightarrow> creates_nothing a \<Longrightarrow> creates_nothing (fst (split_folded f))"
proof -
  have "creates_nothing (value_to_literal_expr v)" for v
    by (cases v) (simp_all add: value_to_literal_expr_def)
  then show "means fc a f \<Longrightarrow> creates_nothing a \<Longrightarrow> creates_nothing (fst (split_folded f))"
    by (cases f) simp_all
qed

lemma spliced_answered:
  assumes "spliced (means fc) args args'" "scalars (means fc) args" "agrees fc c"
  shows "map answered (map (ideal c) args') = map answered (map (ideal c) args)"
proof (rule nth_equalityI)
  show "length (map answered (map (ideal c) args')) = length (map answered (map (ideal c) args))"
    using spliced_length [OF assms(1)] by simp
  fix j
  assume "j < length (map answered (map (ideal c) args'))"
  then have j: "j < length args" "j < length args'" using spliced_length [OF assms(1)] by simp_all
  show "map answered (map (ideal c) args') ! j = map answered (map (ideal c) args) ! j"
    using spliced_nth [OF assms(1) j(1)] splice_answered [OF _ _ assms(3)] assms(2) j by fastforce
qed

lemma spliced_creates:
  assumes "spliced (means fc) args args'" "list_all creates_nothing args"
  shows "list_all creates_nothing args'"
  unfolding list_all_length
proof (intro allI impI)
  fix j
  assume "j < length args'"
  then have j: "j < length args" using spliced_length [OF assms(1)] by simp
  then show "creates_nothing (args' ! j)"
    using spliced_nth [OF assms(1) j] splice_creates assms(2) by (fastforce simp: list_all_length)
qed

interpretation meaning: fold_rules fc "meaning_ok fc" "means fc" "case_means fc" for fc
proof unfold_locales
  fix e v and rc rc' rc'' :: nat
  assume ok: "meaning_ok fc e"
    and below: "\<And>t rc f rc'. size t < size e \<Longrightarrow> meaning_ok fc t \<Longrightarrow> fold_expr fc t rc = Inr (f, rc') \<Longrightarrow> means fc t f"
    and reasons: "collect_defer_reasons fc e rc = Inr ({}, rc')"
    and v: "static_eval fc e rc' = Inr (v, rc'')"
  have known: "known_context fc" and creates: "creates_nothing e" using ok by (simp_all add: meaning_ok_def)
  have same: "ideal c e = ideal (static_context fc 0) e" if "agrees fc c" for c
    using below no_reason_same_value [OF _ ok reasons that] by blast
  have "ideal (static_context fc rc') e = Inr v" by (rule static_eval_ideal [OF known creates v])
  with same [OF static_agrees [OF known, of rc']] have "ideal (static_context fc 0) e = Inr v" by simp
  with same show "means fc e (FValue v)" by simp
next
  fix op l r f g and ds :: "defer_reason set"
  assume ok: "meaning_ok fc (EBinary op l r)" and op: "\<not> is_logical op"
    and "means fc l f" "means fc r g" "ds \<noteq> {}"
  have scalar: "is_primitive v" if "a \<in> {l, r}" "means fc a (FValue v)" for a v
    using ok op that by (auto simp: meaning_ok_def intro: scalar_folded [of fc "EBinary op l r" a v])
  have "answered (ideal c (EBinary op (fst (split_folded f)) (fst (split_folded g)))) =
      answered (ideal c (EBinary op l r))" if "agrees fc c" for c
  proof -
    have "answered (ideal c (fst (split_folded f))) = answered (ideal c l)"
      "answered (ideal c (fst (split_folded g))) = answered (ideal c r)"
      using splice_answered [OF \<open>means fc l f\<close> _ that] splice_answered [OF \<open>means fc r g\<close> _ that]
        scalar [of l] scalar [of r] \<open>means fc l f\<close> \<open>means fc r g\<close> by blast+
    then show ?thesis
      using op by (cases op) (auto simp: ideal_binary_def answered_rbind is_logical_def)
  qed
  with \<open>means fc l f\<close> \<open>means fc r g\<close> \<open>ds \<noteq> {}\<close> splice_creates
  show "means fc (EBinary op l r) (FResidual (EBinary op (fst (split_folded f)) (fst (split_folded g))) ds)"
    by simp
next
  fix name args args' name' and ds :: "defer_reason set"
  assume ok: "meaning_ok fc (ECall name args)" and spl: "spliced (means fc) args args'"
    and lower: "to_ascii_lowercase name' = to_ascii_lowercase name" and "ds \<noteq> {}"
  have scalars: "scalars (means fc) args"
    using ok by (auto simp: meaning_ok_def intro: scalar_folded [of fc "ECall name args"])
  have "answered (ideal c (ECall name' args')) = answered (ideal c (ECall name args))" if "agrees fc c" for c
    using answered_call [OF spliced_answered [OF spl scalars that] lower] by simp
  with \<open>ds \<noteq> {}\<close> lower spliced_creates [OF spl]
  show "means fc (ECall name args) (FResidual (ECall name' args') ds)" by (simp add: list_all_map_id)
next
  fix name args args' name' v and rc rc' :: nat
  assume ok: "meaning_ok fc (ECall name args)" and spl: "spliced (means fc) args args'"
    and lower: "to_ascii_lowercase name' = to_ascii_lowercase name"
    and dec: "scalars (means fc) args \<Longrightarrow> decided name' args'"
    and v: "static_eval fc (ECall name' args') rc = Inr (v, rc')"
  have known: "known_context fc" using ok by (simp add: meaning_ok_def)
  have scalars: "scalars (means fc) args"
    using ok by (auto simp: meaning_ok_def intro: scalar_folded [of fc "ECall name args"])
  have "creates_nothing (ECall name' args')"
    using ok lower spliced_creates [OF spl] by (simp add: meaning_ok_def list_all_map_id)
  then have static: "ideal (static_context fc rc) (ECall name' args') = Inr v"
    using static_eval_ideal [OF known _ v] by simp
  have "ideal c (ECall name args) = Inr v" if c: "agrees fc c" for c
  proof -
    have "upper c = upper (static_context fc rc)" using c by (simp add: agrees_def static_context_fields)
    then have "ideal c (ECall name' args') = Inr v"
      using dec [OF scalars] static unfolding decided_def by metis
    moreover have "answered (ideal c (ECall name' args')) = answered (ideal c (ECall name args))"
      using answered_call [OF spliced_answered [OF spl scalars c] lower] by simp
    ultimately show ?thesis by (metis answered_eq_Some answered_simps(2))
  qed
  then show "means fc (ECall name args) (FValue v)" by simp
next
  fix name args f
  assume ok: "meaning_ok fc (ECall name args)" and lower: "to_ascii_lowercase name = lit ''case''"
    and f: "case_means fc args f"
  have "validate_function name (length args) = Inr ()" using ok by (simp add: meaning_ok_def)
  then have "ideal c (ECall name args) = ideal_case (map (ideal c) args) 1" for c
    using lower
    by (auto simp: ideal_call_def ideal_body_def Let_def validate_function_def eq_ignore_ascii_case_def
        to_ascii_lowercase_def lit_def ascii_lower_def split: option.splits if_splits)
  with f ok show "means fc (ECall name args) f" by (cases f) (auto simp: meaning_ok_def list_all_map_id)
next
  fix p t rest r and ds rs :: "defer_reason set"
  assume all: "\<forall>a \<in> set (p # t # rest). meaning_ok fc a" and odd: "odd (length rest)"
    and len: "length (p # t # rest) \<le> 255" and p: "means fc p (FResidual r ds)"
  have "validate_function (lit ''case'') (length (p # t # rest)) = Inr ()"
    using case_arity [of "length (p # t # rest)"] odd_pos [OF odd] odd len by (simp add: Suc_le_eq)
  then have call: "ideal c (ECall (lit ''case'') (r # t # rest)) = ideal_case (map (ideal c) (r # t # rest)) 1" for c
    by (auto simp: ideal_call_def ideal_body_def Let_def validate_function_def eq_ignore_ascii_case_def
        to_ascii_lowercase_def lit_def ascii_lower_def split: option.splits if_splits)
  have "answered (ideal c (ECall (lit ''case'') (r # t # rest))) = answered (ideal_case (map (ideal c) (p # t # rest)) n)"
    if "agrees fc c" for c n
    unfolding call using p that by (intro answered_case) simp
  moreover have "creates_nothing (ECall (lit ''case'') (r # t # rest))"
    using all p by (simp add: meaning_ok_def list_all_iff to_ascii_lowercase_def lit_def ascii_lower_def)
  ultimately show "case_means fc (p # t # rest) (FResidual (ECall (lit ''case'') (r # t # rest)) (ds \<union> rs))"
    using p by simp
next
  fix op l v r f
  assume "means fc l (FValue v)" "op = And \<and> \<not> is_falsy v \<or> op = Or \<and> \<not> is_truthy v" "means fc r f"
  then show "means fc (EBinary op l r) f" by (cases f) (auto simp: ideal_binary_def)
next
  fix p t f and rest :: "expr list"
  assume "means fc p (FValue (VBool True))" "means fc t f"
  then show "case_means fc (p # t # rest) f" by (cases f) (auto simp: list_all_iff)
next
  fix p t f rest
  assume "means fc p (FValue (VBool False))" "case_means fc rest f"
  then show "case_means fc (p # t # rest) f" by (cases f) (auto simp: list_all_iff)
next
  fix d f
  assume "means fc d f"
  then show "case_means fc [d] f" by (cases f) auto
next
  fix t r and ds :: "defer_reason set"
  assume "means fc t (FResidual r ds)"
  then show "means fc (ENot t) (FResidual (ENot r) ds)" by (simp add: answered_rbind)
next
  fix op l r l' and ds rs :: "defer_reason set"
  assume "meaning_ok fc (EBinary op l r)" "means fc l (FResidual l' ds)"
  then show "means fc (EBinary op l r) (FResidual (EBinary op l' r) (ds \<union> rs))"
    by (auto simp: ideal_binary_def answered_rbind meaning_ok_def)
next
  fix op l v r w
  assume "\<not> is_logical op" "means fc l (FValue v)" "means fc r (FValue w)"
  then show "means fc (EBinary op l r) (FValue (VBool (compare_op (fc_upper fc) op v w)))"
    by (cases op) (auto simp: ideal_binary_def is_logical_def agrees_def)
next
  fix name args
  assume ok: "meaning_ok fc (ECall name args)"
  have "validate_function name (length args) = Inr ()" using ok by (simp add: meaning_ok_def)
  with meaning_ok_parts(3) [OF ok]
  show "validate_function name (length args) = Inr () \<and> (\<forall>a \<in> set args. meaning_ok fc a)" by blast
qed (auto simp: ideal_binary_def dest: meaning_ok_parts)

subsection \<open>Concrete contexts\<close>

text \<open>
  Before any job it needs has run and any step has an id, a context that differs from the planner's
  in the run-time roots only agrees with it.
\<close>

lemma empty_object_access: "access_value up (object_new up' rc [] cs) k = VNull"
  by (simp add: access_value_def object_new_def object_entries_def object_lookup_def)

lemma foldl_access_null: "foldl (access_value up) VNull ks = VNull"
  by (induction ks) simp_all

lemma no_slots_agree:
  assumes slots: "sr_needs_slots (fc_roots fc) = []" "sr_steps_slots (fc_roots fc) = []"
      "sr_github_deferred (fc_roots fc) = []"
    and empties: "sr_needs (fc_roots fc) = object_new up i [] False" "sr_steps (fc_roots fc) = object_new up j [] False"
    and env: "kind (ec_resolved (fc_env fc)) = KObject"
    and c: "upper c = fc_upper fc" "\<And>name. \<not> run_time_only name \<Longrightarrow>
      resolve_root c name = resolve_root (static_context fc 0) name"
  shows "agrees fc c"
  unfolding agrees_def
proof (intro conjI allI impI)
  fix name and ks :: "expr_value list"
  show "resolve_root c name = resolve_root (static_context fc 0) name"
    if "classify_bare_root fc name = Inr {}"
    using c(2) that run_time_only_deferred(1) by blast
  show "path_value c name ks = path_value (static_context fc 0) name ks"
    if "classify_path fc name (map to_display_string ks) = Inr {}"
  proof -
    have "\<not> run_time_only name" using that run_time_only_deferred(2) by blast
    from c(2) [OF this] c(1) show ?thesis by (simp add: path_value_def static_context_fields)
  qed
  show "is_primitive (path_value c name ks)"
    if fixed: "path_target_is_known_primitive_or_missing fc name (map to_display_string ks)"
  proof -
    have "is_root name ''needs'' \<or> is_root name ''steps''" "ks \<noteq> []"
      using fixed slots
      by (auto simp: path_target_is_known_primitive_or_missing_def Let_def split: if_splits list.splits)
    moreover have "\<not> run_time_only name" using fixed run_time_only_deferred(3) by blast
    ultimately obtain k ks' m where ks: "ks = k # ks'"
      and v: "resolve_root (static_context fc 0) name = Some (object_new up m [] False)"
      using empties
      by (cases ks) (auto simp: resolve_root_def static_context_def Let_def with_inputs_def with_steps_def
          with_strategy_def with_matrix_def with_needs_def with_vars_def with_env_def with_github_def new_context_def
          eq_ignore_ascii_case_def to_ascii_lowercase_def lit_def ascii_lower_def)
    then show ?thesis
      using c(2) [OF \<open>\<not> run_time_only name\<close>]
      by (simp add: path_value_def empty_object_access foldl_access_null)
  qed
qed (rule c(1))

definition sample_static :: static_roots where
  "sample_static = \<lparr>sr_github = object_new ascii_upper 100 [(lit ''ref'', VString (lit ''main''))] False,
     sr_github_deferred = [], sr_vars = object_new ascii_upper 101 [] False,
     sr_needs = object_new ascii_upper 102 [] False, sr_needs_slots = [], sr_matrix = VNull,
     sr_matrix_deferred = False, sr_strategy = VNull,
     sr_strategy_deferred = \<lparr>sd_fail_fast = False, sd_job_index = False, sd_job_total = False, sd_max_parallel = False\<rparr>,
     sr_steps = object_new ascii_upper 103 [] False, sr_steps_slots = [],
     sr_inputs = object_new ascii_upper 104 [] False\<rparr>"

definition sample_env_chain :: env_chain where
  "sample_env_chain = \<lparr>ec_resolved = object_new ascii_upper 105 [(lit ''A'', VString (lit ''1''))] True,
     ec_deferred = [lit ''B'' \<mapsto> {RunnerContext}], ec_runtime_mutable = False, ec_stable_overrides = {}\<rparr>"

definition sample_fold_ctx :: fold_ctx where
  "sample_fold_ctx = \<lparr>fc_roots = sample_static, fc_env = sample_env_chain, fc_secrets_forbidden = False,
     fc_upper = ascii_upper, fc_category = (\<lambda>_. OtherCategory)\<rparr>"

definition sample_run :: ctx where
  "sample_run = with_status Failure
     (with_runner (object_new ascii_upper 200 [(lit ''os'', VString (lit ''Linux''))] False)
       (static_context sample_fold_ctx 0))"

lemma sample_fold_ctx_known: "known_context sample_fold_ctx"
proof -
  have "agrees sample_fold_ctx (static_context sample_fold_ctx 0)"
    by (rule no_slots_agree) (auto simp: sample_fold_ctx_def sample_static_def sample_env_chain_def object_new_def
        static_context_fields split: prod.splits)
  moreover have "unfiltered_context (static_context sample_fold_ctx 0)" by code_simp
  ultimately show ?thesis
    by (simp add: known_context_def sample_fold_ctx_def sample_env_chain_def object_new_def split: prod.splits)
qed

lemma sample_run_agrees: "agrees sample_fold_ctx sample_run" "unfiltered_context sample_run"
proof -
  show "agrees sample_fold_ctx sample_run"
  proof (rule no_slots_agree)
    show "upper sample_run = fc_upper sample_fold_ctx"
      by (simp add: sample_run_def with_status_def with_runner_def static_context_fields)
    show "resolve_root sample_run name = resolve_root (static_context sample_fold_ctx 0) name"
      if "\<not> run_time_only name" for name
      using that by (simp add: resolve_root_def sample_run_def with_status_def with_runner_def)
  qed (auto simp: sample_fold_ctx_def sample_static_def sample_env_chain_def object_new_def split: prod.splits)
  show "unfiltered_context sample_run" by code_simp
qed

definition sample_condition :: expr where
  "sample_condition = EBinary And
     (EBinary Eq (EIndex (ENamedValue (lit ''github'')) (EStr (lit ''ref''))) (EStr (lit ''main'')))
     (EBinary Eq (EIndex (ENamedValue (lit ''env'')) (EStr (lit ''A'')))
        (ECall (lit ''format'') [EStr (lit ''{0}''), EIndex (ENamedValue (lit ''runner'')) (EStr (lit ''os''))]))"

lemma sample_condition_parsed:
  "parse (lit ''github.ref == '' @ [39] @ lit ''main'' @ [39] @ lit '' && env.A == format('' @ [39] @ lit ''{0}'' @ [39] @
     lit '', runner.os)'') = Inr sample_condition"
  by code_simp

theorem residual_well_formed_witness:
  "\<exists>r ds rc'. fold_expr sample_fold_ctx sample_condition 1000 = Inr (FResidual r ds, rc') \<and> well_formed r \<and>
     ds \<noteq> {} \<and> height r \<le> 5"
proof -
  have "(case fold_expr sample_fold_ctx sample_condition 1000 of Inr (FResidual r ds, rc') \<Rightarrow> True | _ \<Rightarrow> False)"
    by code_simp
  then obtain r ds rc' where f: "fold_expr sample_fold_ctx sample_condition 1000 = Inr (FResidual r ds, rc')"
    by (auto split: sum.splits folded.splits)
  have "height sample_condition = 5" by code_simp
  with residual_well_formed [OF sample_condition_parsed f] f show ?thesis by auto
qed

end
