(* ===== verification/Yaml_Scalar.thy ===== *)
theory Yaml_Scalar
  imports Engine_Base Ast
begin

text \<open>
  The scalars of a workflow file (\<open>greenlit-workflow/src/yaml/scalar.rs\<close>, \<open>yaml/tag.rs\<close>) and the
  errors of its reader (\<open>error.rs\<close>). A plain scalar is null, boolean, integer, float or text, in this
  order; quoted and block scalars are text unless a tag says otherwise. The grammar of floats is shown
  to be the documented regular expression, and every text it accepts to be a number.
\<close>

section \<open>Errors\<close>

text \<open>The message of an invalid expression is the parser's error or a text of its own.\<close>

datatype expression_message = MessageText ustr | MessageParse parse_error

datatype workflow_error =
    Io ustr ustr
  | Encoding ustr ustr
  | SourceLimit ustr nat
  | YamlSyntax ustr nat nat ustr
  | UnknownKey span ustr ustr
  | MissingKey span ustr ustr
  | Schema span ustr
  | YamlLimit span ustr
  | Expression span ustr expression_message
  | UnsupportedTag span ustr
  | TagMismatch span ustr ustr
  | InvalidTagStyle span ustr ustr
  | IntegerOverflow span ustr
  | DuplicateKey span ustr span
  | MultipleDocuments ustr nat
  | EmptyDocument ustr

fun error_span :: "workflow_error \<Rightarrow> span option" where
  "error_span (UnknownKey sp _ _) = Some sp"
| "error_span (MissingKey sp _ _) = Some sp"
| "error_span (Schema sp _) = Some sp"
| "error_span (YamlLimit sp _) = Some sp"
| "error_span (Expression sp _ _) = Some sp"
| "error_span (UnsupportedTag sp _) = Some sp"
| "error_span (TagMismatch sp _ _) = Some sp"
| "error_span (InvalidTagStyle sp _ _) = Some sp"
| "error_span (IntegerOverflow sp _) = Some sp"
| "error_span (DuplicateKey sp _ _) = Some sp"
| "error_span _ = None"

section \<open>The matchers\<close>

datatype yaml_scalar = YNull | YBool bool | YNumber f64 | YString ustr

datatype number_parse_error = RadixIntegerOverflow | NumberOutOfRange

definition as_null :: "ustr \<Rightarrow> bool" where
  "as_null raw \<longleftrightarrow> raw = [] \<or> raw = lit ''null'' \<or> raw = lit ''Null'' \<or> raw = lit ''NULL'' \<or> raw = lit ''~''"

definition as_bool :: "ustr \<Rightarrow> bool option" where
  "as_bool raw = (if raw = lit ''true'' \<or> raw = lit ''True'' \<or> raw = lit ''TRUE'' then Some True
     else if raw = lit ''false'' \<or> raw = lit ''False'' \<or> raw = lit ''FALSE'' then Some False else None)"

definition parse_radix_within_i32 :: "ustr \<Rightarrow> nat \<Rightarrow> number_parse_error + f64" where
  "parse_radix_within_i32 digits radix = (case i32_from_str_radix digits radix of
     Some n \<Rightarrow> Inr (f64_of_nat n) | None \<Rightarrow> Inl RadixIntegerOverflow)"

definition parse_decimal_number :: "ustr \<Rightarrow> number_parse_error + f64" where
  "parse_decimal_number raw = (case parse_decimal raw of Some x \<Rightarrow> Inr x | None \<Rightarrow> Inl NumberOutOfRange)"

definition is_octal_digit :: "uchar \<Rightarrow> bool" where
  "is_octal_digit c \<longleftrightarrow> cp CHR ''0'' \<le> c \<and> c \<le> cp CHR ''7''"

text \<open>The digits behind a radix prefix, if the whole text has that form.\<close>

definition radix_digits :: "string \<Rightarrow> (uchar \<Rightarrow> bool) \<Rightarrow> ustr \<Rightarrow> ustr option" where
  "radix_digits p ok raw = (case strip_prefix (lit p) raw of
     Some ds \<Rightarrow> (if ds \<noteq> [] \<and> list_all ok ds then Some ds else None) | None \<Rightarrow> None)"

definition decimal_digits :: "ustr \<Rightarrow> ustr" where
  "decimal_digits raw = (case raw of c # cs \<Rightarrow> (if c = cp CHR ''+'' \<or> c = cp CHR ''-'' then cs else raw) | [] \<Rightarrow> [])"

definition as_integer :: "ustr \<Rightarrow> (number_parse_error + f64) option" where
  "as_integer raw = (case radix_digits ''0x'' is_ascii_hexdigit raw of
     Some ds \<Rightarrow> Some (parse_radix_within_i32 ds 16)
   | None \<Rightarrow> (case radix_digits ''0o'' is_octal_digit raw of
       Some ds \<Rightarrow> Some (parse_radix_within_i32 ds 8)
     | None \<Rightarrow> (let ds = decimal_digits raw in
         if ds \<noteq> [] \<and> list_all is_ascii_digit ds then Some (parse_decimal_number raw) else None)))"

text \<open>
  \<open>matches_float_grammar\<close> moves an index over the text; here each stage returns the rest of the text,
  or nothing when the source returns false.
\<close>

definition skip_sign :: "ustr \<Rightarrow> ustr" where
  "skip_sign b = (case b of c # cs \<Rightarrow> (if c = cp CHR ''+'' \<or> c = cp CHR ''-'' then cs else b) | [] \<Rightarrow> [])"

definition skip_some_digits :: "ustr \<Rightarrow> ustr option" where
  "skip_some_digits b = (if takeWhile is_ascii_digit b = [] then None else Some (dropWhile is_ascii_digit b))"

definition skip_mantissa :: "ustr \<Rightarrow> ustr option" where
  "skip_mantissa b = (case b of
     c # cs \<Rightarrow> (if c = cp CHR ''.'' then skip_some_digits cs
       else map_option (\<lambda>r. case r of
         d # ds \<Rightarrow> (if d = cp CHR ''.'' then dropWhile is_ascii_digit ds else r) | [] \<Rightarrow> []) (skip_some_digits b))
   | [] \<Rightarrow> None)"

definition skip_exponent :: "ustr \<Rightarrow> ustr option" where
  "skip_exponent b = (case b of
     c # cs \<Rightarrow> (if c = cp CHR ''e'' \<or> c = cp CHR ''E'' then skip_some_digits (skip_sign cs) else Some b)
   | [] \<Rightarrow> Some [])"

definition matches_float_grammar :: "ustr \<Rightarrow> bool" where
  "matches_float_grammar s = (Option.bind (skip_mantissa (skip_sign s)) skip_exponent = Some [])"

definition as_float :: "ustr \<Rightarrow> (number_parse_error + f64) option" where
  "as_float raw =
    (if raw \<in> set (map lit [''.inf'', ''.Inf'', ''.INF'', ''+.inf'', ''+.Inf'', ''+.INF'']) then Some (Inr (Infinite False))
     else if raw \<in> set (map lit [''-.inf'', ''-.Inf'', ''-.INF'']) then Some (Inr (Infinite True))
     else if raw \<in> set (map lit [''.nan'', ''.NaN'', ''.NAN'']) then Some (Inr NaN)
     else if matches_float_grammar raw then Some (parse_decimal_number raw) else None)"

definition resolve_plain :: "ustr \<Rightarrow> number_parse_error + yaml_scalar" where
  "resolve_plain raw =
    (if as_null raw then Inr YNull
     else case as_bool raw of Some b \<Rightarrow> Inr (YBool b)
     | None \<Rightarrow> (case as_integer raw of Some r \<Rightarrow> rbind r (\<lambda>n. Inr (YNumber n))
       | None \<Rightarrow> (case as_float raw of Some r \<Rightarrow> rbind r (\<lambda>n. Inr (YNumber n))
         | None \<Rightarrow> Inr (YString raw))))"

section \<open>Tags and styles\<close>

datatype scalar_style = Plain | SingleQuoted | DoubleQuoted | LiteralBlock | FoldedBlock

datatype core_tag = TagStr | TagBool | TagInt | TagFloat | TagNull

record tag =
  tag_handle :: ustr
  tag_suffix :: ustr
  tag_display :: ustr

text \<open>\<open>error.get_or_insert\<close>: the first violation stays.\<close>

definition get_or_insert :: "workflow_error \<Rightarrow> workflow_error option \<Rightarrow> workflow_error option" where
  "get_or_insert e error = (case error of None \<Rightarrow> Some e | Some _ \<Rightarrow> error)"

definition resolve_scalar_core_tag ::
    "tag option \<Rightarrow> span \<Rightarrow> workflow_error option \<Rightarrow> core_tag option \<times> workflow_error option" where
  "resolve_scalar_core_tag t sp error = (case t of
     None \<Rightarrow> (None, error)
   | Some t \<Rightarrow>
      (if tag_handle t \<noteq> lit ''tag:yaml.org,2002:'' then (None, get_or_insert (UnsupportedTag sp (tag_display t)) error)
       else if tag_suffix t = lit ''str'' then (Some TagStr, error)
       else if tag_suffix t = lit ''bool'' then (Some TagBool, error)
       else if tag_suffix t = lit ''int'' then (Some TagInt, error)
       else if tag_suffix t = lit ''float'' then (Some TagFloat, error)
       else if tag_suffix t = lit ''null'' then (Some TagNull, error)
       else (None, get_or_insert (UnsupportedTag sp (lit ''!!'' @ tag_suffix t)) error)))"

fun core_tag_name :: "core_tag \<Rightarrow> ustr" where
  "core_tag_name TagStr = lit ''str''"
| "core_tag_name TagBool = lit ''bool''"
| "core_tag_name TagInt = lit ''int''"
| "core_tag_name TagFloat = lit ''float''"
| "core_tag_name TagNull = lit ''null''"

fun scalar_style_name :: "scalar_style \<Rightarrow> ustr" where
  "scalar_style_name Plain = lit ''Plain''"
| "scalar_style_name SingleQuoted = lit ''SingleQuoted''"
| "scalar_style_name DoubleQuoted = lit ''DoubleQuoted''"
| "scalar_style_name LiteralBlock = lit ''Literal''"
| "scalar_style_name FoldedBlock = lit ''Folded''"

definition tag_mismatch :: "workflow_error option \<Rightarrow> span \<Rightarrow> ustr \<Rightarrow> core_tag \<Rightarrow> yaml_scalar \<times> workflow_error option" where
  "tag_mismatch error sp raw t = (YString raw, get_or_insert (TagMismatch sp raw (core_tag_name t)) error)"

definition typed_scalar ::
    "ustr \<Rightarrow> scalar_style \<Rightarrow> core_tag option \<Rightarrow> span \<Rightarrow> workflow_error option \<Rightarrow> yaml_scalar \<times> workflow_error option" where
  "typed_scalar raw style t sp error = (case t of
     None \<Rightarrow> (if style = Plain then (case resolve_plain raw of
           Inr v \<Rightarrow> (v, error)
         | Inl RadixIntegerOverflow \<Rightarrow> (YString raw, get_or_insert (IntegerOverflow sp raw) error)
         | Inl NumberOutOfRange \<Rightarrow> (YString raw, get_or_insert
             (Schema sp (lit ''numeric literal '' @ [39] @ raw @ [39] @ lit '' is out of range'')) error))
       else (YString raw, error))
   | Some k \<Rightarrow>
      (if k \<noteq> TagStr \<and> style \<noteq> Plain
       then (YString raw, get_or_insert (InvalidTagStyle sp (scalar_style_name style) (core_tag_name k)) error)
       else case k of
         TagStr \<Rightarrow> (YString raw, error)
       | TagNull \<Rightarrow> (if as_null raw then (YNull, error) else tag_mismatch error sp raw TagNull)
       | TagBool \<Rightarrow> (case as_bool raw of Some b \<Rightarrow> (YBool b, error) | None \<Rightarrow> tag_mismatch error sp raw TagBool)
       | TagInt \<Rightarrow> (case as_integer raw of Some (Inr n) \<Rightarrow> (YNumber n, error) | _ \<Rightarrow> tag_mismatch error sp raw TagInt)
       | TagFloat \<Rightarrow> (case as_float raw of Some (Inr n) \<Rightarrow> (YNumber n, error) | _ \<Rightarrow> tag_mismatch error sp raw TagFloat)))"

section \<open>The grammar of numbers\<close>

definition digits :: "ustr \<Rightarrow> bool" where
  "digits ds \<longleftrightarrow> list_all is_ascii_digit ds"

definition optional_sign :: "ustr \<Rightarrow> bool" where
  "optional_sign s \<longleftrightarrow> s = [] \<or> s = lit ''+'' \<or> s = lit ''-''"

text \<open>\<open>\.[0-9]+|[0-9]+(\.[0-9]*)?\<close>\<close>

definition mantissa_shape :: "ustr \<Rightarrow> bool" where
  "mantissa_shape m \<longleftrightarrow> (\<exists>ds. ds \<noteq> [] \<and> digits ds \<and>
     (m = lit ''.'' @ ds \<or> m = ds \<or> (\<exists>fs. digits fs \<and> m = ds @ lit ''.'' @ fs)))"

text \<open>\<open>([eE][+-]?[0-9]+)?\<close>\<close>

definition exponent_shape :: "ustr \<Rightarrow> bool" where
  "exponent_shape x \<longleftrightarrow> x = [] \<or> (\<exists>e sg ds. (e = lit ''e'' \<or> e = lit ''E'') \<and> optional_sign sg \<and>
     ds \<noteq> [] \<and> digits ds \<and> x = e @ sg @ ds)"

definition float_shape :: "ustr \<Rightarrow> bool" where
  "float_shape s \<longleftrightarrow> (\<exists>sg m x. optional_sign sg \<and> mantissa_shape m \<and> exponent_shape x \<and> s = sg @ m @ x)"

lemma skip_sign_split: "\<exists>sg. optional_sign sg \<and> s = sg @ skip_sign s"
proof (cases s)
  case (Cons c cs)
  then show ?thesis
    by (cases "c = cp CHR ''+'' \<or> c = cp CHR ''-''")
       (auto simp: skip_sign_def optional_sign_def lit_def intro: exI [of _ "[c]"])
qed (simp add: skip_sign_def optional_sign_def)

lemma skip_sign_signed:
  assumes "optional_sign sg" "m \<noteq> []" "is_ascii_digit (hd m) \<or> hd m = cp CHR ''.''"
  shows "skip_sign (sg @ m) = m" "take_sign (sg @ m) = (sg = lit ''-'', m)"
proof -
  obtain c cs where m: "m = c # cs" "c \<noteq> cp CHR ''+''" "c \<noteq> cp CHR ''-''"
    using assms(2,3) by (cases m) (auto simp: is_ascii_digit_def)
  then show "skip_sign (sg @ m) = m" "take_sign (sg @ m) = (sg = lit ''-'', m)"
    using assms(1) by (auto simp: optional_sign_def skip_sign_def take_sign_def lit_def)
qed

lemma span_digits:
  assumes "digits ds" "r = [] \<or> \<not> is_ascii_digit (hd r)"
  shows "takeWhile is_ascii_digit (ds @ r) = ds" "dropWhile is_ascii_digit (ds @ r) = r"
  using assms by (cases r; simp add: digits_def list_all_iff takeWhile_append dropWhile_append)+

lemma skip_some_digits_Some:
  "skip_some_digits b = Some r \<Longrightarrow> \<exists>ds. ds \<noteq> [] \<and> digits ds \<and> b = ds @ r"
  by (auto simp: skip_some_digits_def digits_def list_all_iff dest: set_takeWhileD split: if_splits
      intro!: exI [of _ "takeWhile is_ascii_digit b"])

lemma skip_mantissa_Some: "skip_mantissa b = Some r \<Longrightarrow> \<exists>m. mantissa_shape m \<and> b = m @ r"
proof (cases b)
  case (Cons c cs)
  assume some: "skip_mantissa b = Some r"
  show ?thesis
  proof (cases "c = cp CHR ''.''")
    case True
    with some Cons obtain ds where "ds \<noteq> []" "digits ds" "cs = ds @ r"
      by (auto simp: skip_mantissa_def dest: skip_some_digits_Some)
    then have "mantissa_shape (c # ds) \<and> b = (c # ds) @ r"
      using True Cons by (auto simp: mantissa_shape_def lit_def)
    then show ?thesis by blast
  next
    case False
    with some Cons obtain r' where "skip_some_digits b = Some r'"
      and r: "r = (case r' of d # ds \<Rightarrow> (if d = cp CHR ''.'' then dropWhile is_ascii_digit ds else r') | [] \<Rightarrow> [])"
      by (auto simp: skip_mantissa_def)
    then obtain ds where ds: "ds \<noteq> []" "digits ds" "b = ds @ r'" using skip_some_digits_Some by blast
    show ?thesis
    proof (cases "\<exists>fs. r' = cp CHR ''.'' # fs")
      case True
      then obtain fs where fs: "r' = cp CHR ''.'' # fs" by blast
      let ?fs = "takeWhile is_ascii_digit fs"
      have "digits ?fs" by (auto simp: digits_def list_all_iff dest: set_takeWhileD)
      then have "mantissa_shape (ds @ lit ''.'' @ ?fs)" using ds by (auto simp: mantissa_shape_def)
      moreover have "b = (ds @ lit ''.'' @ ?fs) @ r" using fs r ds(3) by (simp add: lit_def)
      ultimately show ?thesis by blast
    next
      case other: False
      then have "r = r'" using r by (auto split: list.splits)
      then show ?thesis using ds by (auto simp: mantissa_shape_def)
    qed
  qed
qed (simp add: skip_mantissa_def)

lemma skip_exponent_Nil: "skip_exponent b = Some [] \<Longrightarrow> exponent_shape b"
proof (cases b)
  case (Cons c cs)
  assume "skip_exponent b = Some []"
  with Cons have e: "c = cp CHR ''e'' \<or> c = cp CHR ''E''" and d: "skip_some_digits (skip_sign cs) = Some []"
    by (auto simp: skip_exponent_def split: if_splits)
  obtain sg where sg: "optional_sign sg" "cs = sg @ skip_sign cs" using skip_sign_split by blast
  obtain ds where "ds \<noteq> []" "digits ds" "skip_sign cs = ds" using skip_some_digits_Some [OF d] by auto
  with sg e Cons have "(([c] = lit ''e'' \<or> [c] = lit ''E'') \<and> optional_sign sg \<and> ds \<noteq> [] \<and> digits ds \<and> b = [c] @ sg @ ds)"
    by (auto simp: lit_def)
  then show ?thesis unfolding exponent_shape_def by blast
qed (simp add: exponent_shape_def)

lemma digit_not_special:
  "is_ascii_digit c \<Longrightarrow> c \<noteq> cp CHR ''.'' \<and> c \<noteq> cp CHR ''e'' \<and> c \<noteq> cp CHR ''E'' \<and> c \<noteq> cp CHR ''+'' \<and> c \<noteq> cp CHR ''-''"
  by (auto simp: is_ascii_digit_def)

lemma digits_hd: "digits ds \<Longrightarrow> ds \<noteq> [] \<Longrightarrow> is_ascii_digit (hd ds)"
  by (cases ds) (simp_all add: digits_def)

lemma mantissa_start: "mantissa_shape m \<Longrightarrow> m \<noteq> [] \<and> (is_ascii_digit (hd m) \<or> hd m = cp CHR ''.'')"
  unfolding mantissa_shape_def by (auto simp: lit_def hd_append dest: digits_hd)

lemma exponent_start: "exponent_shape x \<Longrightarrow> x = [] \<or> hd x = cp CHR ''e'' \<or> hd x = cp CHR ''E''"
  unfolding exponent_shape_def by (auto simp: lit_def)

lemma exponent_parses:
  assumes "exponent_shape x"
  shows "skip_exponent x = Some []" "parse_exponent x \<noteq> None"
proof -
  have "skip_exponent x = Some [] \<and> parse_exponent x \<noteq> None"
    if "e = lit ''e'' \<or> e = lit ''E''" "optional_sign sg" "ds \<noteq> []" "digits ds" "x = e @ sg @ ds" for e sg ds
    using that skip_sign_signed [OF that(2,3)] digits_hd [OF that(4,3)] span_digits [OF that(4), of "[]"]
    by (auto simp: skip_exponent_def parse_exponent_def skip_some_digits_def lit_def digits_def takeWhile_eq_Nil_iff)
  then show "skip_exponent x = Some []" "parse_exponent x \<noteq> None"
    using assms by (auto simp: exponent_shape_def skip_exponent_def parse_exponent_def)
qed

text \<open>The parts \<open>parse_decimal\<close> reads: integer digits, fraction digits, the rest.\<close>

definition decimal_parts :: "ustr \<Rightarrow> ustr \<times> ustr \<times> ustr" where
  "decimal_parts body = (let (ip, r1) = split_digits body;
     (fp, r2) = (case r1 of c # cs \<Rightarrow> if c = cp CHR ''.'' then split_digits cs else ([], r1) | [] \<Rightarrow> ([], []))
     in (ip, fp, r2))"

lemma parse_decimal_parts:
  "parse_decimal s = (case (take_sign s) of (neg, body) \<Rightarrow> (case decimal_parts body of (ip, fp, r2) \<Rightarrow>
     if ip @ fp = [] then None
     else map_option (\<lambda>e. round_f64 neg (of_nat (dec_value (ip @ fp)) * pow10 (e - int (length fp)))) (parse_exponent r2)))"
  by (simp add: parse_decimal_def decimal_parts_def Let_def split_beta)

lemma mantissa_parses:
  assumes "mantissa_shape m" "exponent_shape x"
  shows "skip_mantissa (m @ x) = Some x \<and> (\<exists>ip fp. decimal_parts (m @ x) = (ip, fp, x) \<and> ip @ fp \<noteq> [])"
proof -
  have x: "x = [] \<or> \<not> is_ascii_digit (hd x)" "x = [] \<or> hd x \<noteq> cp CHR ''.''"
    using exponent_start [OF assms(2)] by (auto simp: is_ascii_digit_def)
  obtain ds where ds: "ds \<noteq> []" "digits ds"
    and m: "m = lit ''.'' @ ds \<or> m = ds \<or> (\<exists>fs. digits fs \<and> m = ds @ lit ''.'' @ fs)"
    using assms(1) by (auto simp: mantissa_shape_def)
  obtain d ds' where d: "ds = d # ds'" "is_ascii_digit d" "d \<noteq> cp CHR ''.''"
    using ds digits_hd [OF ds(2,1)] digit_not_special by (cases ds) auto
  note spans = span_digits [OF ds(2) x(1)]
  have some: "skip_some_digits (ds @ x) = Some x" using spans ds(1) by (simp add: skip_some_digits_def)
  consider "m = lit ''.'' @ ds" | "m = ds" | fs where "digits fs" "m = ds @ lit ''.'' @ fs" using m by blast
  then show ?thesis
  proof cases
    case 1
    then show ?thesis
      using some spans ds(1) by (simp add: skip_mantissa_def decimal_parts_def split_digits_def lit_def is_ascii_digit_def)
  next
    case 2
    have "split_digits (ds @ x) = (ds, x)" using spans by (simp add: split_digits_def)
    then have "decimal_parts (ds @ x) = (ds, [], x)"
      using x(2) by (cases x) (simp_all add: decimal_parts_def)
    moreover have "skip_mantissa (ds @ x) = Some x"
      using some d x(2) by (cases x) (simp_all add: skip_mantissa_def)
    ultimately show ?thesis using 2 ds(1) by simp
  next
    case (3 fs)
    have dot: "takeWhile is_ascii_digit (ds @ cp CHR ''.'' # fs @ x) = ds"
      "dropWhile is_ascii_digit (ds @ cp CHR ''.'' # fs @ x) = cp CHR ''.'' # fs @ x"
      using span_digits [OF ds(2), of "cp CHR ''.'' # fs @ x"] by (simp_all add: is_ascii_digit_def)
    then have "skip_some_digits (m @ x) = Some (cp CHR ''.'' # fs @ x)"
      using 3(2) ds(1) by (simp add: skip_some_digits_def lit_def)
    then show ?thesis
      using 3 d dot span_digits [OF 3(1) x(1)]
      by (simp add: skip_mantissa_def decimal_parts_def split_digits_def lit_def)
  qed
qed

lemma float_grammar_shape: "matches_float_grammar s \<longleftrightarrow> float_shape s"
proof
  assume "matches_float_grammar s"
  then obtain b where b: "skip_mantissa (skip_sign s) = Some b" "skip_exponent b = Some []"
    by (auto simp: matches_float_grammar_def bind_eq_Some_conv)
  then show "float_shape s"
    using skip_sign_split [of s] skip_mantissa_Some [OF b(1)] skip_exponent_Nil [OF b(2)]
    unfolding float_shape_def by metis
next
  assume "float_shape s"
  then obtain sg m x where s: "optional_sign sg" "mantissa_shape m" "exponent_shape x" "s = sg @ m @ x"
    by (auto simp: float_shape_def)
  then have "skip_sign s = m @ x"
    using mantissa_start [OF s(2)] skip_sign_signed(1) [of sg "m @ x"] by (auto simp: hd_append)
  then show "matches_float_grammar s"
    using mantissa_parses [OF s(2,3)] exponent_parses(1) [OF s(3)] by (simp add: matches_float_grammar_def)
qed

lemma float_parses: "float_shape s \<Longrightarrow> parse_decimal s \<noteq> None"
proof -
  assume "float_shape s"
  then obtain sg m x where s: "optional_sign sg" "mantissa_shape m" "exponent_shape x" "s = sg @ m @ x"
    by (auto simp: float_shape_def)
  then have "take_sign s = (sg = lit ''-'', m @ x)"
    using mantissa_start [OF s(2)] skip_sign_signed(2) [of sg "m @ x"] by (auto simp: hd_append)
  with mantissa_parses [OF s(2,3)] exponent_parses(2) [OF s(3)] show ?thesis
    by (auto simp: parse_decimal_parts)
qed

lemma integer_is_float: "decimal_digits raw \<noteq> [] \<Longrightarrow> digits (decimal_digits raw) \<Longrightarrow> float_shape raw"
proof -
  assume ds: "decimal_digits raw \<noteq> []" "digits (decimal_digits raw)"
  then obtain sg where "optional_sign sg" "raw = sg @ decimal_digits raw"
    using skip_sign_split [of raw] by (auto simp: decimal_digits_def skip_sign_def)
  then show ?thesis
    using ds unfolding float_shape_def mantissa_shape_def exponent_shape_def by (metis append_Nil2)
qed

text \<open>The texts of the other kinds.\<close>

definition radix_overflow :: "ustr \<Rightarrow> bool" where
  "radix_overflow raw \<longleftrightarrow>
     (\<exists>ds. radix_digits ''0x'' is_ascii_hexdigit raw = Some ds \<and> i32_from_str_radix ds 16 = None) \<or>
     (\<exists>ds. radix_digits ''0o'' is_octal_digit raw = Some ds \<and> i32_from_str_radix ds 8 = None)"

definition special_float :: "ustr \<Rightarrow> bool" where
  "special_float raw \<longleftrightarrow> raw \<in> set (map lit [''.inf'', ''.Inf'', ''.INF'', ''+.inf'', ''+.Inf'', ''+.INF'',
     ''-.inf'', ''-.Inf'', ''-.INF'', ''.nan'', ''.NaN'', ''.NAN''])"

definition number_text :: "ustr \<Rightarrow> bool" where
  "number_text raw \<longleftrightarrow> radix_digits ''0x'' is_ascii_hexdigit raw \<noteq> None \<or> radix_digits ''0o'' is_octal_digit raw \<noteq> None \<or>
     special_float raw \<or> float_shape raw"

lemma parse_decimal_number_float: "float_shape raw \<Longrightarrow> \<exists>x. parse_decimal_number raw = Inr x"
  using float_parses [of raw] by (auto simp: parse_decimal_number_def split: option.splits)

lemma radix_digits_Some: "radix_digits p ok raw = Some ds \<Longrightarrow> raw = lit p @ ds"
  by (auto simp: radix_digits_def strip_prefix_Some split: option.splits if_splits)

lemma radix_not_word:
  "radix_digits ''0x'' ok raw = Some ds \<or> radix_digits ''0o'' ok' raw = Some ds \<Longrightarrow> \<not> as_null raw \<and> as_bool raw = None"
  by (auto dest!: radix_digits_Some simp: as_null_def as_bool_def lit_def)

lemma radix_exclusive: "radix_digits ''0x'' ok raw = Some ds \<Longrightarrow> radix_digits ''0o'' ok' raw = None"
  by (cases "radix_digits ''0o'' ok' raw") (auto dest!: radix_digits_Some simp: lit_def)

lemma as_integer_overflow:
  "as_integer raw = Some (Inl e) \<longleftrightarrow> e = RadixIntegerOverflow \<and> radix_overflow raw"
proof -
  have "\<exists>x. parse_decimal_number raw = Inr x"
    if "decimal_digits raw \<noteq> []" "list_all is_ascii_digit (decimal_digits raw)"
    using integer_is_float [OF that(1)] that(2) parse_decimal_number_float by (simp add: digits_def)
  then show ?thesis
    using radix_exclusive [of is_ascii_hexdigit raw _ is_octal_digit]
    by (auto simp: as_integer_def radix_overflow_def parse_radix_within_i32_def Let_def split: option.splits if_splits)
qed

lemma as_float_number: "as_float raw \<noteq> Some (Inl e)" "as_float raw = None \<longleftrightarrow> \<not> special_float raw \<and> \<not> float_shape raw"
  using parse_decimal_number_float [of raw]
  by (auto simp: as_float_def special_float_def float_grammar_shape)

lemma as_integer_None:
  "as_integer raw = None \<longleftrightarrow> radix_digits ''0x'' is_ascii_hexdigit raw = None \<and>
     radix_digits ''0o'' is_octal_digit raw = None \<and> \<not> (decimal_digits raw \<noteq> [] \<and> digits (decimal_digits raw))"
  by (auto simp: as_integer_def Let_def digits_def split: option.splits)

lemma number_text_matchers: "number_text raw \<longleftrightarrow> as_integer raw \<noteq> None \<or> as_float raw \<noteq> None"
  using integer_is_float [of raw] by (auto simp: number_text_def as_integer_None as_float_number)

lemma resolve_plain_error: "resolve_plain raw = Inl e \<longleftrightarrow> e = RadixIntegerOverflow \<and> radix_overflow raw"
proof -
  have "radix_overflow raw \<Longrightarrow> \<not> as_null raw \<and> as_bool raw = None"
    using radix_not_word unfolding radix_overflow_def by blast
  then show ?thesis
    using as_integer_overflow [of raw e] as_float_number(1) [of raw e]
    by (auto simp: resolve_plain_def rbind_eq_Inl split: option.splits)
qed

section \<open>What a plain scalar means\<close>

text \<open>The integer that digits of a radix write, and the number a decimal text writes, exactly.\<close>

definition radix_value :: "nat \<Rightarrow> ustr \<Rightarrow> nat" where
  "radix_value r ds = (\<Sum>k<length ds. radix_digit (ds ! k) * r ^ (length ds - 1 - k))"

definition exponent_of :: "ustr \<Rightarrow> int \<Rightarrow> bool" where
  "exponent_of x e \<longleftrightarrow> x = [] \<and> e = 0 \<or> (\<exists>c sg ds. (c = lit ''e'' \<or> c = lit ''E'') \<and> optional_sign sg \<and> ds \<noteq> [] \<and> digits ds \<and>
     x = c @ sg @ ds \<and> e = (if sg = lit ''-'' then - int (dec_value ds) else int (dec_value ds)))"

text \<open>Integer digits, fraction digits and the power of ten of a decimal text without its sign.\<close>

definition decimal_of :: "ustr \<Rightarrow> rat \<Rightarrow> bool" where
  "decimal_of body q \<longleftrightarrow> (\<exists>m ip fp x e. digits ip \<and> digits fp \<and> ip @ fp \<noteq> [] \<and> (m = ip \<and> fp = [] \<or> m = ip @ lit ''.'' @ fp) \<and>
     exponent_of x e \<and> body = m @ x \<and> q = of_nat (dec_value (ip @ fp)) * pow10 (e - int (length fp)))"

text \<open>The core schema: what each spelling of a plain scalar means. A number is the nearest \<open>f64\<close>.\<close>

inductive spells :: "ustr \<Rightarrow> number_parse_error + yaml_scalar \<Rightarrow> bool" where
  null: "raw \<in> set (map lit [[], ''null'', ''Null'', ''NULL'', ''~'']) \<Longrightarrow> spells raw (Inr YNull)"
| true: "raw \<in> set (map lit [''true'', ''True'', ''TRUE'']) \<Longrightarrow> spells raw (Inr (YBool True))"
| false: "raw \<in> set (map lit [''false'', ''False'', ''FALSE'']) \<Longrightarrow> spells raw (Inr (YBool False))"
| hexadecimal: "ds \<noteq> [] \<Longrightarrow> list_all is_ascii_hexdigit ds \<Longrightarrow> radix_value 16 ds < 2 ^ 31 \<Longrightarrow>
    spells (lit ''0x'' @ ds) (Inr (YNumber (f64_of_nat (radix_value 16 ds))))"
| hexadecimal_overflow: "ds \<noteq> [] \<Longrightarrow> list_all is_ascii_hexdigit ds \<Longrightarrow> 2 ^ 31 \<le> radix_value 16 ds \<Longrightarrow>
    spells (lit ''0x'' @ ds) (Inl RadixIntegerOverflow)"
| octal: "ds \<noteq> [] \<Longrightarrow> list_all is_octal_digit ds \<Longrightarrow> radix_value 8 ds < 2 ^ 31 \<Longrightarrow>
    spells (lit ''0o'' @ ds) (Inr (YNumber (f64_of_nat (radix_value 8 ds))))"
| octal_overflow: "ds \<noteq> [] \<Longrightarrow> list_all is_octal_digit ds \<Longrightarrow> 2 ^ 31 \<le> radix_value 8 ds \<Longrightarrow>
    spells (lit ''0o'' @ ds) (Inl RadixIntegerOverflow)"
| infinity: "sg = [] \<or> sg = ''+'' \<Longrightarrow> w \<in> {''.inf'', ''.Inf'', ''.INF''} \<Longrightarrow> spells (lit (sg @ w)) (Inr (YNumber (Infinite False)))"
| minus_infinity: "w \<in> {''.inf'', ''.Inf'', ''.INF''} \<Longrightarrow> spells (lit (''-'' @ w)) (Inr (YNumber (Infinite True)))"
| not_a_number: "w \<in> {''.nan'', ''.NaN'', ''.NAN''} \<Longrightarrow> spells (lit w) (Inr (YNumber NaN))"
| decimal: "optional_sign sg \<Longrightarrow> decimal_of body q \<Longrightarrow> spells (sg @ body) (Inr (YNumber (round_f64 (sg = lit ''-'') q)))"

lemma radix_value_fold: "foldl (\<lambda>a c. r * a + radix_digit c) 0 ds = radix_value r ds"
proof (induction ds rule: rev_induct)
  case (snoc c ds)
  have "radix_value r (ds @ [c]) = (\<Sum>k<length ds. radix_digit (ds ! k) * r ^ (length ds - k)) + radix_digit c"
    by (simp add: radix_value_def nth_append)
  also have "(\<Sum>k<length ds. radix_digit (ds ! k) * r ^ (length ds - k)) = r * radix_value r ds"
    unfolding radix_value_def sum_distrib_left
    by (rule sum.cong) (auto simp: power_Suc [symmetric] Suc_diff_Suc simp del: power_Suc)
  finally show ?case using snoc by simp
qed (simp add: radix_value_def)

lemma exponent_of_parse: "exponent_of x e \<Longrightarrow> parse_exponent x = Some e \<and> exponent_shape x"
proof -
  have "parse_exponent (c @ sg @ ds) = Some (if sg = lit ''-'' then - int (dec_value ds) else int (dec_value ds))"
    if "c = lit ''e'' \<or> c = lit ''E''" "optional_sign sg" "ds \<noteq> []" "digits ds" for c sg ds
    using that skip_sign_signed(2) [OF that(2,3)] digits_hd [OF that(4,3)]
    by (auto simp: parse_exponent_def lit_def digits_def)
  moreover assume x: "exponent_of x e"
  ultimately have "parse_exponent x = Some e" unfolding exponent_of_def by (elim disjE exE conjE) (simp_all add: parse_exponent_def)
  moreover have "exponent_shape x" using x unfolding exponent_of_def exponent_shape_def by blast
  ultimately show ?thesis by blast
qed

lemma exponent_of_ex: "exponent_shape x \<Longrightarrow> \<exists>e. exponent_of x e"
  unfolding exponent_shape_def exponent_of_def by blast

lemma decimal_of_parts:
  assumes "digits ip" "digits fp" "ip @ fp \<noteq> []" "m = ip \<and> fp = [] \<or> m = ip @ lit ''.'' @ fp" "exponent_shape x"
  shows "mantissa_shape m" "decimal_parts (m @ x) = (ip, fp, x)"
proof -
  have x: "x = [] \<or> \<not> is_ascii_digit (hd x)" "x = [] \<or> hd x \<noteq> cp CHR ''.''"
    using exponent_start [OF assms(5)] by (auto simp: is_ascii_digit_def)
  show "mantissa_shape m"
  proof (cases "ip = []")
    case True
    with assms show ?thesis by (auto simp: mantissa_shape_def)
  next
    case False
    with assms show ?thesis unfolding mantissa_shape_def by blast
  qed
  have dot: "split_digits (ip @ lit ''.'' @ fp @ x) = (ip, lit ''.'' @ fp @ x)"
    using span_digits [OF assms(1), of "lit ''.'' @ fp @ x"] by (simp add: split_digits_def lit_def is_ascii_digit_def)
  have frac: "split_digits (fp @ x) = (fp, x)" using span_digits [OF assms(2) x(1)] by (simp add: split_digits_def)
  from assms(4) show "decimal_parts (m @ x) = (ip, fp, x)"
  proof
    assume "m = ip \<and> fp = []"
    moreover have "split_digits (ip @ x) = (ip, x)" using span_digits [OF assms(1) x(1)] by (simp add: split_digits_def)
    ultimately show ?thesis using x(2) by (cases x) (auto simp: decimal_parts_def)
  next
    assume "m = ip @ lit ''.'' @ fp"
    then show ?thesis using dot frac by (simp add: decimal_parts_def) (simp add: lit_def)
  qed
qed

lemma decimal_of_parse:
  assumes "optional_sign sg" "decimal_of body q"
  shows "float_shape (sg @ body)" "parse_decimal (sg @ body) = Some (round_f64 (sg = lit ''-'') q)"
proof -
  from assms(2) obtain m ip fp x e where d: "digits ip" "digits fp" "ip @ fp \<noteq> []" "m = ip \<and> fp = [] \<or> m = ip @ lit ''.'' @ fp"
    and x: "exponent_of x e" and body: "body = m @ x" and q: "q = of_nat (dec_value (ip @ fp)) * pow10 (e - int (length fp))"
    unfolding decimal_of_def by blast
  note e = exponent_of_parse [OF x]
  note parts = decimal_of_parts [OF d conjunct2 [OF e]]
  show "float_shape (sg @ body)" unfolding float_shape_def body using assms(1) parts(1) e by blast
  have "m @ x \<noteq> []" "is_ascii_digit (hd (m @ x)) \<or> hd (m @ x) = cp CHR ''.''"
    using mantissa_start [OF parts(1)] by (auto simp: hd_append)
  from skip_sign_signed(2) [OF assms(1) this] parts(2) e d(3) q
  show "parse_decimal (sg @ body) = Some (round_f64 (sg = lit ''-'') q)"
    unfolding parse_decimal_parts body by auto
qed

lemma float_shape_decimal: "float_shape raw \<Longrightarrow> \<exists>sg body q. optional_sign sg \<and> decimal_of body q \<and> raw = sg @ body"
proof -
  assume "float_shape raw"
  then obtain sg m x where s: "optional_sign sg" "mantissa_shape m" "exponent_shape x" "raw = sg @ m @ x"
    by (auto simp: float_shape_def)
  obtain e where e: "exponent_of x e" using exponent_of_ex [OF s(3)] by blast
  from s(2) obtain ds where ds: "ds \<noteq> []" "digits ds"
    and m: "m = lit ''.'' @ ds \<or> m = ds \<or> (\<exists>fs. digits fs \<and> m = ds @ lit ''.'' @ fs)" by (auto simp: mantissa_shape_def)
  have "\<exists>ip fp. digits ip \<and> digits fp \<and> ip @ fp \<noteq> [] \<and> (m = ip \<and> fp = [] \<or> m = ip @ lit ''.'' @ fp)"
    using m
  proof (elim disjE exE conjE)
    assume "m = lit ''.'' @ ds"
    then show ?thesis using ds by (intro exI [of _ "[]"] exI [of _ ds]) (simp add: digits_def)
  next
    assume "m = ds"
    then show ?thesis using ds by (intro exI [of _ ds] exI [of _ "[]"]) (simp add: digits_def)
  next
    fix fs assume "digits fs" "m = ds @ lit ''.'' @ fs"
    then show ?thesis using ds by (intro exI [of _ ds] exI [of _ fs]) simp
  qed
  with e s(1,4) show ?thesis unfolding decimal_of_def by blast
qed

lemma word_not_float: "as_null raw \<or> as_bool raw \<noteq> None \<or> special_float raw \<Longrightarrow> \<not> float_shape raw"
proof -
  have "list_all (\<lambda>w. \<not> matches_float_grammar (lit w)) [[], ''null'', ''Null'', ''NULL'', ''~'', ''true'', ''True'', ''TRUE'',
      ''false'', ''False'', ''FALSE'', ''.inf'', ''.Inf'', ''.INF'', ''+.inf'', ''+.Inf'', ''+.INF'',
      ''-.inf'', ''-.Inf'', ''-.INF'', ''.nan'', ''.NaN'', ''.NAN'']" by code_simp
  then show "as_null raw \<or> as_bool raw \<noteq> None \<or> special_float raw \<Longrightarrow> \<not> float_shape raw"
    by (auto simp: float_grammar_shape as_null_def as_bool_def special_float_def split: if_splits)
qed

lemma radix_not_float: "radix_digits ''0x'' ok raw = Some ds \<or> radix_digits ''0o'' ok' raw = Some ds \<Longrightarrow> \<not> float_shape raw"
  by (auto dest!: radix_digits_Some simp: float_grammar_shape [symmetric] matches_float_grammar_def skip_sign_def skip_mantissa_def
      skip_some_digits_def skip_exponent_def lit_def is_ascii_digit_def)

lemma radix_digits_of: "ds \<noteq> [] \<Longrightarrow> list_all ok ds \<Longrightarrow> radix_digits p ok (lit p @ ds) = Some ds"
  by (simp add: radix_digits_def strip_prefix_def)

lemma resolve_radix:
  "radix_digits ''0x'' is_ascii_hexdigit raw = Some ds \<Longrightarrow> resolve_plain raw =
     (if radix_value 16 ds < 2 ^ 31 then Inr (YNumber (f64_of_nat (radix_value 16 ds))) else Inl RadixIntegerOverflow)"
  "radix_digits ''0o'' is_octal_digit raw = Some ds \<Longrightarrow> resolve_plain raw =
     (if radix_value 8 ds < 2 ^ 31 then Inr (YNumber (f64_of_nat (radix_value 8 ds))) else Inl RadixIntegerOverflow)"
proof -
  have i32: "parse_radix_within_i32 ds r = (if radix_value r ds < 2 ^ 31 then Inr (f64_of_nat (radix_value r ds)) else Inl RadixIntegerOverflow)" for r
    by (auto simp: parse_radix_within_i32_def i32_from_str_radix_def radix_value_fold Let_def)
  show "resolve_plain raw =
     (if radix_value 16 ds < 2 ^ 31 then Inr (YNumber (f64_of_nat (radix_value 16 ds))) else Inl RadixIntegerOverflow)"
    if "radix_digits ''0x'' is_ascii_hexdigit raw = Some ds"
    using radix_not_word [of is_ascii_hexdigit raw ds] that by (auto simp: resolve_plain_def as_integer_def i32)
  show "resolve_plain raw =
     (if radix_value 8 ds < 2 ^ 31 then Inr (YNumber (f64_of_nat (radix_value 8 ds))) else Inl RadixIntegerOverflow)"
    if o: "radix_digits ''0o'' is_octal_digit raw = Some ds"
  proof -
    have "radix_digits ''0x'' is_ascii_hexdigit raw = None"
      using o radix_exclusive [of is_ascii_hexdigit raw _ is_octal_digit] by (cases "radix_digits ''0x'' is_ascii_hexdigit raw") auto
    with radix_not_word [of _ raw ds is_octal_digit] o show ?thesis by (auto simp: resolve_plain_def as_integer_def i32)
  qed
qed

lemma resolve_decimal:
  assumes "optional_sign sg" "decimal_of body q"
  shows "resolve_plain (sg @ body) = Inr (YNumber (round_f64 (sg = lit ''-'') q))"
proof -
  note d = decimal_of_parse [OF assms]
  have "\<not> as_null (sg @ body)" "as_bool (sg @ body) = None" "\<not> special_float (sg @ body)" using word_not_float d(1) by blast+
  moreover have "radix_digits ''0x'' is_ascii_hexdigit (sg @ body) = None" "radix_digits ''0o'' is_octal_digit (sg @ body) = None"
    using radix_not_float d(1) by (metis not_None_eq)+
  ultimately show ?thesis
    using d by (auto simp: resolve_plain_def as_integer_def as_float_def special_float_def float_grammar_shape parse_decimal_number_def Let_def)
qed

lemma spells_resolves: "spells raw v \<Longrightarrow> resolve_plain raw = v"
proof (induction rule: spells.induct)
  case (infinity sg w)
  have "list_all (\<lambda>w. resolve_plain (lit w) = Inr (YNumber (Infinite False))) [''.inf'', ''.Inf'', ''.INF'', ''+.inf'', ''+.Inf'', ''+.INF'']"
    by code_simp
  with infinity show ?case by auto
next
  case (minus_infinity w)
  have "list_all (\<lambda>w. resolve_plain (lit w) = Inr (YNumber (Infinite True))) [''-.inf'', ''-.Inf'', ''-.INF'']" by code_simp
  with minus_infinity show ?case by auto
next
  case (not_a_number w)
  have "list_all (\<lambda>w. resolve_plain (lit w) = Inr (YNumber NaN)) [''.nan'', ''.NaN'', ''.NAN'']" by code_simp
  with not_a_number show ?case by auto
next
  case (null raw)
  then show ?case by (auto simp: resolve_plain_def as_null_def)
next
  case (true raw)
  moreover have "list_all (\<lambda>w. resolve_plain (lit w) = Inr (YBool True)) [''true'', ''True'', ''TRUE'']" by code_simp
  ultimately show ?case by auto
next
  case (false raw)
  moreover have "list_all (\<lambda>w. resolve_plain (lit w) = Inr (YBool False)) [''false'', ''False'', ''FALSE'']" by code_simp
  ultimately show ?case by auto
qed (simp_all add: resolve_radix [OF radix_digits_of] resolve_decimal)

lemma typed_text_spells: "as_null raw \<or> as_bool raw \<noteq> None \<or> number_text raw \<Longrightarrow> \<exists>v. spells raw v"
proof (elim disjE)
  assume "as_null raw"
  then have "spells raw (Inr YNull)" by (intro spells.null) (auto simp: as_null_def)
  then show ?thesis by blast
next
  assume "as_bool raw \<noteq> None"
  then have "spells raw (Inr (YBool (the (as_bool raw))))" by (auto simp: as_bool_def intro: spells.true spells.false split: if_splits)
  then show ?thesis by blast
next
  assume "number_text raw"
  then consider ds where "radix_digits ''0x'' is_ascii_hexdigit raw = Some ds" | ds where "radix_digits ''0o'' is_octal_digit raw = Some ds"
    | "special_float raw" | "float_shape raw" by (auto simp: number_text_def)
  then show ?thesis
  proof cases
    case (1 ds)
    then have "raw = lit ''0x'' @ ds" "ds \<noteq> []" "list_all is_ascii_hexdigit ds"
      using radix_digits_Some [OF 1] by (auto simp: radix_digits_def strip_prefix_Some split: option.splits if_splits)
    then show ?thesis using spells.hexadecimal spells.hexadecimal_overflow by (metis not_less)
  next
    case (2 ds)
    then have "raw = lit ''0o'' @ ds" "ds \<noteq> []" "list_all is_octal_digit ds"
      using radix_digits_Some [OF 2] by (auto simp: radix_digits_def strip_prefix_Some split: option.splits if_splits)
    then show ?thesis using spells.octal spells.octal_overflow by (metis not_less)
  next
    case 3
    then have "(\<exists>w\<in>{''.inf'', ''.Inf'', ''.INF''}. raw = lit ([] @ w) \<or> raw = lit (''+'' @ w) \<or> raw = lit (''-'' @ w)) \<or>
        (\<exists>w\<in>{''.nan'', ''.NaN'', ''.NAN''}. raw = lit w)" by (auto simp: special_float_def)
    then show ?thesis using spells.infinity spells.minus_infinity spells.not_a_number by blast
  next
    case 4
    then show ?thesis using float_shape_decimal spells.decimal by blast
  qed
qed

text \<open>
  C34: The scalars of a workflow file are read by their spelling. The relation \<open>spells\<close> says, form by form,
  which texts are null, true, false, a hexadecimal or octal integer, an infinity, not a number or a decimal
  number, and with which value: a decimal is the nearest 64-bit float of the number written. A plain
  scalar has the value its spelling gives it and is its own text if it has none of these forms; the only error is
  a hexadecimal or octal literal of \<open>2^31\<close> or more. In a document that error is recorded as an integer overflow
  and the scalar left as text, and a quoted or block scalar without a tag is its own text whatever its spelling.
\<close>

theorem plain_scalar_value:
  "(resolve_plain raw = v \<longleftrightarrow> spells raw v \<or> (\<nexists>w. spells raw w) \<and> v = Inr (YString raw)) \<and>
   typed_scalar raw style None sp error =
     (if style = Plain then (case resolve_plain raw of
        Inr x \<Rightarrow> (x, error) | Inl _ \<Rightarrow> (YString raw, get_or_insert (IntegerOverflow sp raw) error))
      else (YString raw, error))"
proof
  show "resolve_plain raw = v \<longleftrightarrow> spells raw v \<or> (\<nexists>w. spells raw w) \<and> v = Inr (YString raw)"
  proof (cases "\<exists>w. spells raw w")
    case True
    then show ?thesis using spells_resolves by metis
  next
    case False
    then have "\<not> as_null raw \<and> as_bool raw = None \<and> \<not> number_text raw" using typed_text_spells by blast
    then have "resolve_plain raw = Inr (YString raw)"
      unfolding number_text_matchers by (auto simp: resolve_plain_def)
    with False show ?thesis by auto
  qed
  show "typed_scalar raw style None sp error =
     (if style = Plain then (case resolve_plain raw of
        Inr x \<Rightarrow> (x, error) | Inl _ \<Rightarrow> (YString raw, get_or_insert (IntegerOverflow sp raw) error))
      else (YString raw, error))"
  proof (cases "resolve_plain raw")
    case (Inl e)
    then have "e = RadixIntegerOverflow" using resolve_plain_error [of raw e] by simp
    with Inl show ?thesis by (simp add: typed_scalar_def)
  qed (simp add: typed_scalar_def)
qed

end
