(* ===== verification/Yaml_Tree.thy ===== *)
theory Yaml_Tree
  imports Yaml_Scalar
begin

text \<open>
  The tree of a workflow file (\<open>greenlit-workflow/src/yaml/raw.rs\<close>, \<open>raw/receiver.rs\<close>,
  \<open>raw/state.rs\<close>): a state machine over the events of the third-party YAML scanner, which is a
  parameter. Aliases replay a finished subtree; nested collections, traversed events and the bytes of
  the result are limited, counting every replay. Whatever the scanner reports, an accepted tree is
  within the limits and no mapping in it has two keys that differ at most in case.
\<close>

section \<open>Nodes\<close>

record raw_scalar =
  rs_raw :: ustr
  rs_style :: scalar_style
  rs_value :: yaml_scalar

text \<open>\<open>Spanned<RawNode>\<close> is a pair of a node and its span, because the recursion goes through it.\<close>

datatype raw_node =
    RScalar raw_scalar
  | RSequence "(raw_node \<times> span) list"
  | RMapping "((raw_node \<times> span) \<times> (raw_node \<times> span)) list"

type_synonym spanned_node = "raw_node \<times> span"

definition as_key_text :: "raw_node \<Rightarrow> ustr option" where
  "as_key_text n = (case n of RScalar s \<Rightarrow> Some (rs_raw s) | _ \<Rightarrow> None)"

definition MAX_TRAVERSED_YAML_NODES :: nat where
  "MAX_TRAVERSED_YAML_NODES = 50000"

definition MAX_YAML_DEPTH :: nat where
  "MAX_YAML_DEPTH = 50"

definition MAX_YAML_RESULT_BYTES :: nat where
  "MAX_YAML_RESULT_BYTES = 10 * 1024 * 1024"

definition MIN_TOKEN_BYTES :: nat where
  "MIN_TOKEN_BYTES = 24"

definition STRING_BASE_BYTES :: nat where
  "STRING_BASE_BYTES = 26"

definition saturating_add :: "nat \<Rightarrow> nat \<Rightarrow> nat" where
  "saturating_add a b = min (a + b) usize_max"

definition saturating_mul :: "nat \<Rightarrow> nat \<Rightarrow> nat" where
  "saturating_mul a b = min (a * b) usize_max"

definition scalar_result_bytes :: "raw_node \<Rightarrow> nat" where
  "scalar_result_bytes n = (case n of
     RScalar s \<Rightarrow> (case rs_value s of
       YString v \<Rightarrow> saturating_add (saturating_add MIN_TOKEN_BYTES STRING_BASE_BYTES)
         (saturating_mul (length (encode_utf16 v)) 2)
     | _ \<Rightarrow> MIN_TOKEN_BYTES)
   | _ \<Rightarrow> MIN_TOKEN_BYTES)"

section \<open>Positions and events of the scanner\<close>

record marker =
  mk_line :: nat
  mk_col :: nat

definition u32_max :: nat where
  "u32_max = 4294967295"

definition location_from_marker :: "marker \<Rightarrow> location" where
  "location_from_marker m = \<lparr>line = min (mk_line m) u32_max, column = min (min (mk_col m) u32_max + 1) u32_max\<rparr>"

definition span_from :: "ustr \<Rightarrow> marker \<times> marker \<Rightarrow> span" where
  "span_from file s = \<lparr>span_file = file, span_start = location_from_marker (fst s),
     span_end = location_from_marker (snd s)\<rparr>"

datatype yaml_event =
    NothingEvent
  | StreamStart
  | StreamEnd
  | DocumentStart
  | DocumentEnd
  | AliasEvent nat
  | ScalarEvent ustr scalar_style nat "tag option"
  | SequenceStart nat
  | SequenceEnd
  | MappingStart nat
  | MappingEnd

record scan_error =
  se_marker :: marker
  se_info :: ustr

text \<open>What the scanner makes of a text: the events up to its end or to a syntax error.\<close>

type_synonym scanner = "ustr \<Rightarrow> (yaml_event \<times> marker \<times> marker) list \<times> scan_error option"

section \<open>The builder\<close>

text \<open>What a finished node, and an open collection so far, is charged for.\<close>

record charges =
  ch_events :: nat
  ch_depth :: nat
  ch_bytes :: nat

datatype frame =
    SequenceFrame marker nat "spanned_node list" charges
  | MappingFrame marker nat "spanned_node option" "(spanned_node \<times> spanned_node) list" "ustr \<rightharpoonup> span" charges

record anchored_node =
  an_node :: spanned_node
  an_charges :: charges

record builder =
  b_file :: ustr
  b_stack :: "frame list"
  b_anchors :: "nat \<rightharpoonup> anchored_node"
  b_traversed :: nat
  b_bytes :: nat
  b_discard :: bool
  b_documents :: "spanned_node option list"
  b_root :: "spanned_node option"
  b_error :: "workflow_error option"

definition new_builder :: "ustr \<Rightarrow> builder" where
  "new_builder file = \<lparr>b_file = file, b_stack = [], b_anchors = Map.empty, b_traversed = 0, b_bytes = 0,
     b_discard = False, b_documents = [], b_root = None, b_error = None\<rparr>"

definition record_error :: "workflow_error \<Rightarrow> builder \<Rightarrow> builder" where
  "record_error e b = b\<lparr>b_error := get_or_insert e (b_error b)\<rparr>"

definition reject_limit :: "span \<Rightarrow> ustr \<Rightarrow> builder \<Rightarrow> builder" where
  "reject_limit sp msg b = (record_error (YamlLimit sp msg) b)\<lparr>b_discard := True\<rparr>"

text \<open>The two counters return whether the caller may go on.\<close>

definition count_events :: "nat \<Rightarrow> span \<Rightarrow> builder \<Rightarrow> bool \<times> builder" where
  "count_events n sp b = (let total_events = saturating_add (b_traversed b) n in
     if MAX_TRAVERSED_YAML_NODES < total_events
     then (False, reject_limit sp (lit ''workflow YAML exceeds GitHub'' @ [39] @ lit ''s maximum of '' @
       dec_string MAX_TRAVERSED_YAML_NODES @ lit '' traversed nodes after expanding aliases'') b)
     else (True, b\<lparr>b_traversed := total_events\<rparr>))"

definition count_result_bytes :: "nat \<Rightarrow> span \<Rightarrow> builder \<Rightarrow> bool \<times> builder" where
  "count_result_bytes n sp b = (let total_bytes = saturating_add (b_bytes b) n in
     if MAX_YAML_RESULT_BYTES < total_bytes
     then (False, reject_limit sp (lit ''workflow YAML exceeds GitHub'' @ [39] @ lit ''s maximum parsed result size of '' @
       dec_string MAX_YAML_RESULT_BYTES @ lit '' bytes after expanding aliases'') b)
     else (True, b\<lparr>b_bytes := total_bytes\<rparr>))"

definition add_charges :: "charges \<Rightarrow> charges \<Rightarrow> charges" where
  "add_charges parent c = \<lparr>ch_events = saturating_add (ch_events parent) (ch_events c),
     ch_depth = max (ch_depth parent) (ch_depth c), ch_bytes = saturating_add (ch_bytes parent) (ch_bytes c)\<rparr>"

text \<open>A finished key and value of an open mapping: a second key of the same name is an error.\<close>

definition add_entry :: "casing \<Rightarrow> spanned_node \<Rightarrow> (ustr \<rightharpoonup> span) \<Rightarrow> workflow_error option \<Rightarrow>
    (ustr \<rightharpoonup> span) \<times> workflow_error option" where
  "add_entry up key seen_keys error = (case as_key_text (fst key) of
     None \<Rightarrow> (seen_keys, error)
   | Some txt \<Rightarrow> (let dedup_key = ordinal_ignore_case_key up txt in
       case seen_keys dedup_key of
         Some first_span \<Rightarrow> (seen_keys, get_or_insert (DuplicateKey (snd key) txt first_span) error)
       | None \<Rightarrow> (seen_keys(dedup_key \<mapsto> snd key), error)))"

definition finish_node :: "casing \<Rightarrow> spanned_node \<Rightarrow> nat \<Rightarrow> charges \<Rightarrow> builder \<Rightarrow> builder" where
  "finish_node up n anchor_id c b = (let
     b = (if 0 < anchor_id then b\<lparr>b_anchors := (b_anchors b)(anchor_id \<mapsto> \<lparr>an_node = n, an_charges = c\<rparr>)\<rparr> else b)
     in case b_stack b of
       [] \<Rightarrow> b\<lparr>b_root := Some n\<rparr>
     | SequenceFrame start a items cs # rest \<Rightarrow>
         b\<lparr>b_stack := SequenceFrame start a (items @ [n]) (add_charges cs c) # rest\<rparr>
     | MappingFrame start a pending entries seen_keys cs # rest \<Rightarrow> (case pending of
         None \<Rightarrow>
           b\<lparr>b_stack := MappingFrame start a (Some n) entries seen_keys (add_charges cs c) # rest,
             b_error := (if as_key_text (fst n) = None
               then get_or_insert (Schema (snd n) (lit ''mapping keys must be scalars'')) (b_error b) else b_error b)\<rparr>
       | Some key \<Rightarrow> (let (seen_keys', error) = add_entry up key seen_keys (b_error b) in
           b\<lparr>b_stack := MappingFrame start a None (entries @ [(key, n)]) seen_keys' (add_charges cs c) # rest,
             b_error := error\<rparr>)))"

definition depth_message :: ustr where
  "depth_message = lit ''workflow YAML exceeds GitHub'' @ [39] @ lit ''s maximum collection depth of '' @
     dec_string MAX_YAML_DEPTH"

definition on_alias :: "casing \<Rightarrow> nat \<Rightarrow> span \<Rightarrow> builder \<Rightarrow> builder" where
  "on_alias up i sp b = (case b_anchors b i of
     None \<Rightarrow> (let b = record_error (Schema sp (lit ''alias refers to an undefined anchor'')) b;
          (go, b) = count_result_bytes MIN_TOKEN_BYTES sp b
        in if go then finish_node up (RScalar \<lparr>rs_raw = [], rs_style = Plain, rs_value = YNull\<rparr>, sp) 0
             \<lparr>ch_events = 1, ch_depth = 0, ch_bytes = MIN_TOKEN_BYTES\<rparr> b
           else b)
   | Some anchored \<Rightarrow> (let c = an_charges anchored in
       if MAX_YAML_DEPTH < saturating_add (length (b_stack b)) (ch_depth c)
       then reject_limit sp (depth_message @ lit '' after expanding an alias'') b
       else (let (go, b) = count_events (ch_events c - 1) sp b in
         if \<not> go then b
         else (let (go, b) = count_result_bytes (ch_bytes c) sp b in
           if \<not> go then b
           else finish_node up (fst (an_node anchored), sp) 0 c b))))"

definition on_scalar :: "casing \<Rightarrow> ustr \<Rightarrow> scalar_style \<Rightarrow> nat \<Rightarrow> tag option \<Rightarrow> span \<Rightarrow> builder \<Rightarrow> builder" where
  "on_scalar up txt style anchor_id t sp b = (let
     (tag_kind, error) = resolve_scalar_core_tag t sp (b_error b);
     (v, error) = typed_scalar txt style tag_kind sp error;
     n = RScalar \<lparr>rs_raw = txt, rs_style = style, rs_value = v\<rparr>;
     bytes = scalar_result_bytes n;
     (go, b) = count_result_bytes bytes sp (b\<lparr>b_error := error\<rparr>)
     in if go then finish_node up (n, sp) anchor_id \<lparr>ch_events = 1, ch_depth = 0, ch_bytes = bytes\<rparr> b else b)"

definition open_collection :: "(charges \<Rightarrow> frame) \<Rightarrow> span \<Rightarrow> builder \<Rightarrow> builder" where
  "open_collection mk sp b =
    (if MAX_YAML_DEPTH \<le> length (b_stack b) then reject_limit sp depth_message b
     else (let (go, b) = count_result_bytes MIN_TOKEN_BYTES sp b in
       if go then b\<lparr>b_stack := mk \<lparr>ch_events = 1, ch_depth = 0, ch_bytes = MIN_TOKEN_BYTES\<rparr> # b_stack b\<rparr> else b))"

definition close_charges :: "charges \<Rightarrow> charges" where
  "close_charges c = c\<lparr>ch_events := saturating_add (ch_events c) 1, ch_depth := saturating_add (ch_depth c) 1\<rparr>"

definition close_sequence :: "casing \<Rightarrow> marker \<Rightarrow> builder \<Rightarrow> builder" where
  "close_sequence up end_marker b = (case b_stack b of
     SequenceFrame start a items c # rest \<Rightarrow>
       finish_node up (RSequence items, span_from (b_file b) (start, end_marker)) a (close_charges c) (b\<lparr>b_stack := rest\<rparr>)
   | _ # rest \<Rightarrow> b\<lparr>b_stack := rest\<rparr>
   | [] \<Rightarrow> b)"

definition close_mapping :: "casing \<Rightarrow> marker \<Rightarrow> builder \<Rightarrow> builder" where
  "close_mapping up end_marker b = (case b_stack b of
     MappingFrame start a pending entries seen_keys c # rest \<Rightarrow>
       finish_node up (RMapping entries, span_from (b_file b) (start, end_marker)) a (close_charges c) (b\<lparr>b_stack := rest\<rparr>)
   | _ # rest \<Rightarrow> b\<lparr>b_stack := rest\<rparr>
   | [] \<Rightarrow> b)"

fun dispatch_event :: "casing \<Rightarrow> yaml_event \<Rightarrow> marker \<times> marker \<Rightarrow> builder \<Rightarrow> builder" where
  "dispatch_event up DocumentStart s b = b\<lparr>b_root := None\<rparr>"
| "dispatch_event up DocumentEnd s b = b\<lparr>b_documents := b_documents b @ [b_root b], b_root := None\<rparr>"
| "dispatch_event up (AliasEvent i) s b = on_alias up i (span_from (b_file b) s) b"
| "dispatch_event up (ScalarEvent txt style a t) s b = on_scalar up txt style a t (span_from (b_file b) s) b"
| "dispatch_event up (SequenceStart a) s b =
     open_collection (SequenceFrame (fst s) a []) (span_from (b_file b) s) b"
| "dispatch_event up (MappingStart a) s b =
     open_collection (MappingFrame (fst s) a None [] Map.empty) (span_from (b_file b) s) b"
| "dispatch_event up SequenceEnd s b = close_sequence up (fst s) b"
| "dispatch_event up MappingEnd s b = close_mapping up (fst s) b"
| "dispatch_event up _ s b = b"

definition on_event :: "casing \<Rightarrow> yaml_event \<times> marker \<times> marker \<Rightarrow> builder \<Rightarrow> builder" where
  "on_event up e b =
    (if b_discard b then b
     else if fst e = NothingEvent then b
     else (let (go, b) = count_events 1 (span_from (b_file b) (snd e)) b in
       if go then dispatch_event up (fst e) (snd e) b else b))"

definition parse_raw :: "casing \<Rightarrow> scanner \<Rightarrow> ustr \<Rightarrow> ustr \<Rightarrow> workflow_error + spanned_node" where
  "parse_raw up scan file source = (case scan source of (events, failure) \<Rightarrow> (case failure of
     Some e \<Rightarrow> Inl (YamlSyntax file (min (mk_line (se_marker e)) u32_max)
       (min (min (mk_col (se_marker e)) u32_max + 1) u32_max) (se_info e))
   | None \<Rightarrow> (let b = fold (on_event up) events (new_builder file) in
       case b_error b of
         Some e \<Rightarrow> Inl e
       | None \<Rightarrow> (case b_documents b of
           [Some n] \<Rightarrow> Inr n
         | [None] \<Rightarrow> Inl (EmptyDocument file)
         | [] \<Rightarrow> Inl (EmptyDocument file)
         | ds \<Rightarrow> Inl (MultipleDocuments file (length ds))))))"

section \<open>What a tree costs\<close>

fun node_depth :: "raw_node \<Rightarrow> nat" where
  "node_depth (RScalar s) = 0"
| "node_depth (RSequence items) = 1 + max_list0 (map (\<lambda>e. node_depth (fst e)) items)"
| "node_depth (RMapping entries) = 1 + max_list0 (map (\<lambda>e. max (node_depth (fst (fst e))) (node_depth (fst (snd e)))) entries)"

fun node_events :: "raw_node \<Rightarrow> nat" where
  "node_events (RScalar s) = 1"
| "node_events (RSequence items) = 2 + sum_list (map (\<lambda>e. node_events (fst e)) items)"
| "node_events (RMapping entries) = 2 + sum_list (map (\<lambda>e. node_events (fst (fst e)) + node_events (fst (snd e))) entries)"

fun node_bytes :: "raw_node \<Rightarrow> nat" where
  "node_bytes (RScalar s) = scalar_result_bytes (RScalar s)"
| "node_bytes (RSequence items) = MIN_TOKEN_BYTES + sum_list (map (\<lambda>e. node_bytes (fst e)) items)"
| "node_bytes (RMapping entries) = MIN_TOKEN_BYTES + sum_list (map (\<lambda>e. node_bytes (fst (fst e)) + node_bytes (fst (snd e))) entries)"

text \<open>Every key is a scalar and no two keys of a mapping agree up to case.\<close>

definition entry_key :: "casing \<Rightarrow> spanned_node \<times> spanned_node \<Rightarrow> ustr option" where
  "entry_key up e = map_option (ordinal_ignore_case_key up) (as_key_text (fst (fst e)))"

definition keys_ok :: "casing \<Rightarrow> (spanned_node \<times> spanned_node) list \<Rightarrow> bool" where
  "keys_ok up entries \<longleftrightarrow> None \<notin> set (map (entry_key up) entries) \<and> distinct (map (entry_key up) entries)"

fun well_keyed :: "casing \<Rightarrow> raw_node \<Rightarrow> bool" where
  "well_keyed up (RScalar s) = True"
| "well_keyed up (RSequence items) = list_all (\<lambda>e. well_keyed up (fst e)) items"
| "well_keyed up (RMapping entries) = (keys_ok up entries \<and>
     list_all (\<lambda>e. well_keyed up (fst (snd e))) entries)"

section \<open>The invariant\<close>

text \<open>The nodes an open collection holds, a finished key included.\<close>

fun frame_nodes :: "frame \<Rightarrow> raw_node list" where
  "frame_nodes (SequenceFrame start a items c) = map fst items"
| "frame_nodes (MappingFrame start a pending entries seen_keys c) =
     concat (map (\<lambda>(k, v). [fst k, fst v]) entries) @ (case pending of Some k \<Rightarrow> [fst k] | None \<Rightarrow> [])"

fun frame_charges :: "frame \<Rightarrow> charges" where
  "frame_charges (SequenceFrame start a items c) = c"
| "frame_charges (MappingFrame start a pending entries seen_keys c) = c"

definition charged :: "raw_node \<Rightarrow> charges \<Rightarrow> bool" where
  "charged n c \<longleftrightarrow> node_events n \<le> ch_events c \<and> node_depth n \<le> ch_depth c \<and> node_bytes n \<le> ch_bytes c"

definition frame_charged :: "frame \<Rightarrow> bool" where
  "frame_charged f \<longleftrightarrow>
     1 + sum_list (map node_events (frame_nodes f)) \<le> ch_events (frame_charges f) \<and>
     max_list0 (map node_depth (frame_nodes f)) \<le> ch_depth (frame_charges f) \<and>
     MIN_TOKEN_BYTES + sum_list (map node_bytes (frame_nodes f)) \<le> ch_bytes (frame_charges f)"

text \<open>The frames of a stack, the innermost first: each leaves room for the collections around it.\<close>

fun depths_ok :: "frame list \<Rightarrow> bool" where
  "depths_ok [] = True"
| "depths_ok (f # fs) \<longleftrightarrow> length (f # fs) + ch_depth (frame_charges f) \<le> MAX_YAML_DEPTH \<and> depths_ok fs"

definition within_limits :: "raw_node \<Rightarrow> bool" where
  "within_limits n \<longleftrightarrow> node_depth n \<le> MAX_YAML_DEPTH \<and> node_events n \<le> MAX_TRAVERSED_YAML_NODES \<and>
     node_bytes n \<le> MAX_YAML_RESULT_BYTES"

definition open_events :: "frame list \<Rightarrow> nat" where
  "open_events fs = sum_list (map (ch_events \<circ> frame_charges) fs)"

definition open_bytes :: "frame list \<Rightarrow> nat" where
  "open_bytes fs = sum_list (map (ch_bytes \<circ> frame_charges) fs)"

text \<open>The counters cover what is open, and everything held is charged for.\<close>

definition accounts_ok :: "builder \<Rightarrow> bool" where
  "accounts_ok b \<longleftrightarrow>
     b_traversed b \<le> MAX_TRAVERSED_YAML_NODES \<and> b_bytes b \<le> MAX_YAML_RESULT_BYTES \<and>
     open_events (b_stack b) \<le> b_traversed b \<and> open_bytes (b_stack b) \<le> b_bytes b \<and>
     depths_ok (b_stack b) \<and> list_all frame_charged (b_stack b) \<and>
     (\<forall>i a. b_anchors b i = Some a \<longrightarrow> charged (fst (an_node a)) (an_charges a)) \<and>
     (\<forall>n \<in> set_option (b_root b). within_limits (fst n)) \<and>
     (\<forall>d \<in> set (b_documents b). \<forall>n \<in> set_option d. within_limits (fst n))"

fun frame_keyed :: "casing \<Rightarrow> frame \<Rightarrow> bool" where
  "frame_keyed up (SequenceFrame start a items c) = list_all (\<lambda>e. well_keyed up (fst e)) items"
| "frame_keyed up (MappingFrame start a pending entries seen_keys c) =
     (well_keyed up (RMapping entries) \<and> dom seen_keys = {k. Some k \<in> set (map (entry_key up) entries)} \<and>
      (\<forall>k \<in> set_option pending. as_key_text (fst k) \<noteq> None))"

definition keyed_ok :: "casing \<Rightarrow> builder \<Rightarrow> bool" where
  "keyed_ok up b \<longleftrightarrow> list_all (frame_keyed up) (b_stack b) \<and>
     (\<forall>i a. b_anchors b i = Some a \<longrightarrow> well_keyed up (fst (an_node a))) \<and>
     (\<forall>n \<in> set_option (b_root b). well_keyed up (fst n)) \<and>
     (\<forall>d \<in> set (b_documents b). \<forall>n \<in> set_option d. well_keyed up (fst n))"

definition builder_ok :: "casing \<Rightarrow> builder \<Rightarrow> bool" where
  "builder_ok up b \<longleftrightarrow> accounts_ok b \<and> (b_error b = None \<longrightarrow> keyed_ok up b)"

lemmas limit_defs = MAX_TRAVERSED_YAML_NODES_def MAX_YAML_DEPTH_def MAX_YAML_RESULT_BYTES_def usize_max_def

lemma max_list0_snoc [simp]: "max_list0 [] = 0" "max_list0 (xs @ [x]) = max (max_list0 xs) x"
  by (simp_all add: max_list0_def max.commute)

lemma saturating_in_range: "a + b \<le> usize_max \<Longrightarrow> saturating_add a b = a + b"
  by (simp add: saturating_add_def)

subsection \<open>A finished node\<close>

text \<open>What a node may cost when it is added to the builder.\<close>

definition room_for :: "builder \<Rightarrow> charges \<Rightarrow> bool" where
  "room_for b c \<longleftrightarrow> open_events (b_stack b) + ch_events c \<le> b_traversed b \<and>
     open_bytes (b_stack b) + ch_bytes c \<le> b_bytes b \<and> length (b_stack b) + ch_depth c \<le> MAX_YAML_DEPTH"

lemma frame_grows:
  assumes "frame_charged f" "charged n c" "frame_nodes g = frame_nodes f @ [n]"
    "frame_charges g = add_charges (frame_charges f) c"
    "ch_events (frame_charges f) + ch_events c \<le> usize_max" "ch_bytes (frame_charges f) + ch_bytes c \<le> usize_max"
  shows "frame_charged g"
  using assms by (auto simp: frame_charged_def charged_def add_charges_def saturating_in_range)

lemma open_collection_grows:
  assumes "accounts_ok b" "b_stack b = f # rest" "room_for b c" "charged n c"
    "frame_nodes g = frame_nodes f @ [n]" "frame_charges g = add_charges (frame_charges f) c"
  shows "accounts_ok (b\<lparr>b_stack := g # rest\<rparr>)"
proof -
  have small: "ch_events (frame_charges f) + ch_events c \<le> usize_max" "ch_bytes (frame_charges f) + ch_bytes c \<le> usize_max"
    using assms(1-3) by (auto simp: accounts_ok_def room_for_def open_events_def open_bytes_def limit_defs)
  have "frame_charged g"
    using frame_grows [OF _ assms(4-6) small] assms(1,2) by (simp add: accounts_ok_def)
  with small assms(1-3,6) show ?thesis
    by (auto simp: accounts_ok_def room_for_def open_events_def open_bytes_def add_charges_def saturating_in_range)
qed

lemma accounts_anchor:
  "accounts_ok b \<Longrightarrow> charged (fst n) c \<Longrightarrow> accounts_ok (b\<lparr>b_anchors := (b_anchors b)(a \<mapsto> \<lparr>an_node = n, an_charges = c\<rparr>)\<rparr>)"
  by (auto simp: accounts_ok_def)

lemma accounts_error [simp]: "accounts_ok (b\<lparr>b_error := e\<rparr>) = accounts_ok b" "room_for (b\<lparr>b_error := e\<rparr>) c = room_for b c"
  by (simp_all add: accounts_ok_def room_for_def)

lemma finish_node_accounts:
  assumes "accounts_ok b" "room_for b c" "charged (fst n) c"
  shows "accounts_ok (finish_node up n a c b)"
proof -
  define b1 where "b1 = (if 0 < a then b\<lparr>b_anchors := (b_anchors b)(a \<mapsto> \<lparr>an_node = n, an_charges = c\<rparr>)\<rparr> else b)"
  have b1: "accounts_ok b1" "room_for b1 c"
    using assms accounts_anchor [OF assms(1,3)] by (auto simp: b1_def room_for_def)
  have root: "accounts_ok (b1\<lparr>b_root := Some n\<rparr>)" if "b_stack b1 = []"
    using b1 assms(3) that
    by (auto simp: accounts_ok_def room_for_def charged_def within_limits_def open_events_def open_bytes_def)
  have grow: "accounts_ok (b1\<lparr>b_stack := g # rest\<rparr>)"
    if "b_stack b1 = f # rest" "frame_nodes g = frame_nodes f @ [fst n]" "frame_charges g = add_charges (frame_charges f) c"
    for f g rest
    using open_collection_grows [OF b1(1) that(1) b1(2) assms(3) that(2,3)] .
  have "accounts_ok (b1\<lparr>b_stack := g # rest, b_error := e\<rparr>)"
    if "b_stack b1 = f # rest" "frame_nodes g = frame_nodes f @ [fst n]" "frame_charges g = add_charges (frame_charges f) c"
    for f g rest e
    using grow [OF that] accounts_error(1) [of e "b1\<lparr>b_stack := g # rest\<rparr>"] by simp
  note grow' = this
  show ?thesis
  proof (cases "b_stack b1")
    case Nil
    then show ?thesis using root by (simp add: finish_node_def b1_def [symmetric] Let_def)
  next
    case (Cons f rest)
    show ?thesis
    proof (cases f)
      case (SequenceFrame start i items cs)
      then show ?thesis
        using Cons grow [OF Cons, of "SequenceFrame start i (items @ [n]) (add_charges cs c)"]
        by (simp add: finish_node_def b1_def [symmetric] Let_def)
    next
      case (MappingFrame start i pending entries seen_keys cs)
      show ?thesis
      proof (cases pending)
        case None
        then show ?thesis
          using Cons MappingFrame grow' [OF Cons, of "MappingFrame start i (Some n) entries seen_keys (add_charges cs c)"]
          by (simp add: finish_node_def b1_def [symmetric] Let_def)
      next
        case (Some key)
        obtain sk e where "add_entry up key seen_keys (b_error b1) = (sk, e)" by fastforce
        then show ?thesis
          using Cons MappingFrame Some
            grow' [OF Cons, of "MappingFrame start i None (entries @ [(key, n)]) sk (add_charges cs c)" e]
          by (simp add: finish_node_def b1_def [symmetric] Let_def)
      qed
    qed
  qed
qed

lemma get_or_insert_not_None [simp]: "get_or_insert e x \<noteq> None"
  by (simp add: get_or_insert_def split: option.splits)

lemma add_entry_None:
  assumes "add_entry up key sk error = (sk', None)" "as_key_text (fst key) \<noteq> None"
  shows "error = None \<and> (\<exists>k. entry_key up (key, v) = Some k \<and> k \<notin> dom sk \<and> dom sk' = insert k (dom sk))"
  using assms
  by (auto simp: add_entry_def entry_key_def Let_def dom_def split: option.splits if_splits)

lemma finish_node_keyed:
  assumes "keyed_ok up b" "well_keyed up (fst n)" "b_error (finish_node up n a c b) = None"
  shows "b_error b = None \<and> keyed_ok up (finish_node up n a c b)"
proof -
  define b1 where "b1 = (if 0 < a then b\<lparr>b_anchors := (b_anchors b)(a \<mapsto> \<lparr>an_node = n, an_charges = c\<rparr>)\<rparr> else b)"
  have b1: "keyed_ok up b1" "b_error b1 = b_error b" using assms(1,2) by (auto simp: b1_def keyed_ok_def)
  note finish = finish_node_def [of up n a c b, folded b1_def, unfolded Let_def]
  show ?thesis
  proof (cases "b_stack b1")
    case Nil
    then show ?thesis using b1 assms(2,3) by (auto simp: finish keyed_ok_def)
  next
    case (Cons f rest)
    show ?thesis
    proof (cases f)
      case (SequenceFrame start i items cs)
      then show ?thesis using Cons b1 assms(2,3) by (auto simp: finish keyed_ok_def)
    next
      case mapping: (MappingFrame start i pending entries seen_keys cs)
      show ?thesis
      proof (cases pending)
        case None
        then show ?thesis using Cons mapping b1 assms(3) by (auto simp: finish keyed_ok_def split: if_splits)
      next
        case (Some key)
        obtain sk e where entry: "add_entry up key seen_keys (b_error b1) = (sk, e)" by fastforce
        have e: "e = None" using assms(3) Cons mapping Some entry by (simp add: finish)
        have "frame_keyed up f" using b1(1) Cons by (simp add: keyed_ok_def)
        with mapping Some have f: "well_keyed up (RMapping entries)"
          "dom seen_keys = {k. Some k \<in> set (map (entry_key up) entries)}" "as_key_text (fst key) \<noteq> None" by simp_all
        obtain k where k: "b_error b1 = None" "entry_key up (key, n) = Some k" "k \<notin> dom seen_keys"
          "dom sk = insert k (dom seen_keys)"
          using add_entry_None [of up key seen_keys "b_error b1" sk n] entry e f(3) by blast
        have "frame_keyed up (MappingFrame start i None (entries @ [(key, n)]) sk (add_charges cs c))"
          using f(1,2) k assms(2) by (auto simp: keys_ok_def)
        then show ?thesis
          using Cons mapping Some entry e k(1) b1 by (simp add: finish keyed_ok_def)
      qed
    qed
  qed
qed

subsection \<open>Events\<close>

lemma finish_node_error: "b_error b \<noteq> None \<Longrightarrow> b_error (finish_node up n a c b) \<noteq> None"
  by (auto simp: finish_node_def Let_def add_entry_def get_or_insert_def split: list.splits frame.splits option.splits prod.splits if_splits)

text \<open>A node within its room that is added to a correct builder keeps it correct.\<close>

lemma finish_node_ok:
  assumes "builder_ok up b" "room_for b c" "charged (fst n) c" "b_error b = None \<Longrightarrow> well_keyed up (fst n)"
  shows "builder_ok up (finish_node up n a c b)"
proof -
  have "keyed_ok up (finish_node up n a c b)" if none: "b_error (finish_node up n a c b) = None"
  proof -
    have "b_error b = None" using finish_node_error none by blast
    then have "keyed_ok up b" "well_keyed up (fst n)" using assms(1,4) by (simp_all add: builder_ok_def)
    from finish_node_keyed [OF this none] show ?thesis by simp
  qed
  then show ?thesis using finish_node_accounts [OF _ assms(2,3)] assms(1) by (simp add: builder_ok_def)
qed

lemma counted_events:
  assumes "accounts_ok b"
  obtains "count_events n sp b = (True, b\<lparr>b_traversed := b_traversed b + n\<rparr>)" "b_traversed b + n \<le> MAX_TRAVERSED_YAML_NODES"
    | b' where "count_events n sp b = (False, b')" "accounts_ok b'" "b_error b' \<noteq> None"
proof (cases "MAX_TRAVERSED_YAML_NODES < saturating_add (b_traversed b) n")
  case True
  show thesis
    by (rule that(2) [of "snd (count_events n sp b)"])
       (use True assms in \<open>simp_all add: count_events_def Let_def reject_limit_def record_error_def accounts_ok_def\<close>)
next
  case False
  then have "saturating_add (b_traversed b) n = b_traversed b + n"
    by (auto simp: saturating_add_def limit_defs min_def split: if_splits)
  with False that(1) show thesis by (simp add: count_events_def Let_def)
qed

lemma counted_bytes:
  assumes "accounts_ok b"
  obtains "count_result_bytes n sp b = (True, b\<lparr>b_bytes := b_bytes b + n\<rparr>)" "b_bytes b + n \<le> MAX_YAML_RESULT_BYTES"
    | b' where "count_result_bytes n sp b = (False, b')" "accounts_ok b'" "b_error b' \<noteq> None"
proof (cases "MAX_YAML_RESULT_BYTES < saturating_add (b_bytes b) n")
  case True
  show thesis
    by (rule that(2) [of "snd (count_result_bytes n sp b)"])
       (use True assms in \<open>simp_all add: count_result_bytes_def Let_def reject_limit_def record_error_def accounts_ok_def\<close>)
next
  case False
  then have "saturating_add (b_bytes b) n = b_bytes b + n"
    by (auto simp: saturating_add_def limit_defs min_def split: if_splits)
  with False that(1) show thesis by (simp add: count_result_bytes_def Let_def)
qed

lemma builder_ok_counters:
  "builder_ok up b \<Longrightarrow> t \<le> MAX_TRAVERSED_YAML_NODES \<Longrightarrow> b_traversed b \<le> t \<Longrightarrow> builder_ok up (b\<lparr>b_traversed := t\<rparr>)"
  "builder_ok up b \<Longrightarrow> m \<le> MAX_YAML_RESULT_BYTES \<Longrightarrow> b_bytes b \<le> m \<Longrightarrow> builder_ok up (b\<lparr>b_bytes := m\<rparr>)"
  by (auto simp: builder_ok_def accounts_ok_def keyed_ok_def)

lemma failed_ok: "accounts_ok b \<Longrightarrow> b_error b \<noteq> None \<Longrightarrow> builder_ok up b"
  by (auto simp: builder_ok_def)

lemma depths_ok_length: "depths_ok fs \<Longrightarrow> length fs \<le> MAX_YAML_DEPTH"
  by (cases fs) auto

lemma node_events_pos: "0 < node_events n"
  by (cases n) simp_all

text \<open>An event has been counted: there is room for one more.\<close>

definition one_counted :: "builder \<Rightarrow> bool" where
  "one_counted b \<longleftrightarrow> open_events (b_stack b) + 1 \<le> b_traversed b"

text \<open>A node whose bytes are counted before it is added.\<close>

lemma counted_finish_ok:
  assumes "builder_ok up b" "open_events (b_stack b) + ch_events c \<le> b_traversed b"
    and "length (b_stack b) + ch_depth c \<le> MAX_YAML_DEPTH" "charged n c" "b_error b = None \<Longrightarrow> well_keyed up n"
  shows "builder_ok up (case count_result_bytes (ch_bytes c) sp b of (go, b) \<Rightarrow>
    if go then finish_node up (n, sp) a c b else b)"
proof -
  have acc: "accounts_ok b" using assms(1) by (simp add: builder_ok_def)
  show ?thesis
  proof (rule counted_bytes [OF acc, of "ch_bytes c" sp])
    assume m: "count_result_bytes (ch_bytes c) sp b = (True, b\<lparr>b_bytes := b_bytes b + ch_bytes c\<rparr>)"
      "b_bytes b + ch_bytes c \<le> MAX_YAML_RESULT_BYTES"
    let ?b = "b\<lparr>b_bytes := b_bytes b + ch_bytes c\<rparr>"
    have "builder_ok up ?b" using builder_ok_counters(2) [OF assms(1) m(2)] by simp
    moreover have "room_for ?b c" using assms(2,3) acc by (simp add: room_for_def accounts_ok_def)
    ultimately have "builder_ok up (finish_node up (n, sp) a c ?b)" using assms(4,5) by (intro finish_node_ok) simp_all
    then show ?thesis using m(1) by simp
  next
    fix b'
    assume "count_result_bytes (ch_bytes c) sp b = (False, b')" "accounts_ok b'" "b_error b' \<noteq> None"
    then show ?thesis using failed_ok by simp
  qed
qed

lemma on_scalar_ok:
  assumes "builder_ok up b" "one_counted b"
  shows "builder_ok up (on_scalar up txt style a t sp b)"
proof -
  obtain k e1 where tag: "resolve_scalar_core_tag t sp (b_error b) = (k, e1)" by fastforce
  obtain v e where v: "typed_scalar txt style k sp e1 = (v, e)" by fastforce
  have e: "e = None \<Longrightarrow> b_error b = None"
    using tag v by (auto simp: resolve_scalar_core_tag_def typed_scalar_def tag_mismatch_def
        split: option.splits if_splits core_tag.splits sum.splits number_parse_error.splits)
  let ?n = "RScalar \<lparr>rs_raw = txt, rs_style = style, rs_value = v\<rparr>"
  let ?c = "\<lparr>ch_events = 1, ch_depth = 0, ch_bytes = scalar_result_bytes ?n\<rparr>"
  have "builder_ok up (b\<lparr>b_error := e\<rparr>)" using assms(1) e by (auto simp: builder_ok_def keyed_ok_def)
  moreover have "length (b_stack b) \<le> MAX_YAML_DEPTH"
    using assms(1) depths_ok_length by (auto simp: builder_ok_def accounts_ok_def)
  ultimately show ?thesis
    using counted_finish_ok [of up "b\<lparr>b_error := e\<rparr>" ?c ?n sp a] assms(2) tag v
    by (simp add: on_scalar_def Let_def one_counted_def charged_def)
qed

lemma on_alias_ok:
  assumes "builder_ok up b" "one_counted b"
  shows "builder_ok up (on_alias up i sp b)"
proof (cases "b_anchors b i")
  case None
  let ?b = "record_error (Schema sp (lit ''alias refers to an undefined anchor'')) b"
  let ?n = "RScalar \<lparr>rs_raw = [], rs_style = Plain, rs_value = YNull\<rparr>"
  have "builder_ok up ?b" using assms(1) by (simp add: builder_ok_def record_error_def)
  moreover have "length (b_stack b) \<le> MAX_YAML_DEPTH"
    using assms(1) depths_ok_length by (auto simp: builder_ok_def accounts_ok_def)
  ultimately show ?thesis
    using counted_finish_ok [of up ?b "\<lparr>ch_events = 1, ch_depth = 0, ch_bytes = MIN_TOKEN_BYTES\<rparr>" ?n sp 0] assms(2) None
    by (simp add: on_alias_def Let_def one_counted_def charged_def record_error_def scalar_result_bytes_def)
next
  case (Some anchored)
  let ?c = "an_charges anchored" and ?n = "fst (an_node anchored)"
  have acc: "accounts_ok b" using assms(1) by (simp add: builder_ok_def)
  have charged: "charged ?n ?c" using acc Some by (simp add: accounts_ok_def)
  have keyed: "b_error b = None \<Longrightarrow> well_keyed up ?n" using assms(1) Some by (simp add: builder_ok_def keyed_ok_def)
  show ?thesis
  proof (cases "MAX_YAML_DEPTH < saturating_add (length (b_stack b)) (ch_depth ?c)")
    case True
    have "accounts_ok (reject_limit sp m b)" "b_error (reject_limit sp m b) \<noteq> None" for m
      using acc by (simp_all add: reject_limit_def record_error_def accounts_ok_def)
    then show ?thesis using True Some failed_ok by (simp add: on_alias_def Let_def)
  next
    case shallow: False
    then have depth: "length (b_stack b) + ch_depth ?c \<le> MAX_YAML_DEPTH"
      by (auto simp: saturating_add_def limit_defs min_def split: if_splits)
    show ?thesis
    proof (rule counted_events [OF acc, of "ch_events ?c - 1" sp])
      assume e: "count_events (ch_events ?c - 1) sp b = (True, b\<lparr>b_traversed := b_traversed b + (ch_events ?c - 1)\<rparr>)"
        "b_traversed b + (ch_events ?c - 1) \<le> MAX_TRAVERSED_YAML_NODES"
      let ?b = "b\<lparr>b_traversed := b_traversed b + (ch_events ?c - 1)\<rparr>"
      have "builder_ok up ?b" using builder_ok_counters(1) [OF assms(1) e(2)] by simp
      moreover have "open_events (b_stack ?b) + ch_events ?c \<le> b_traversed ?b"
        using assms(2) charged node_events_pos [of ?n] by (simp add: one_counted_def charged_def)
      ultimately show ?thesis
        using counted_finish_ok [of up ?b ?c ?n sp 0] depth charged keyed Some shallow e(1)
        by (auto simp: on_alias_def Let_def split: prod.splits)
    next
      fix b'
      assume "count_events (ch_events ?c - 1) sp b = (False, b')" "accounts_ok b'" "b_error b' \<noteq> None"
      then show ?thesis using Some shallow failed_ok by (simp add: on_alias_def Let_def)
    qed
  qed
qed

lemma open_collection_ok:
  assumes "builder_ok up b" "one_counted b"
    and "\<And>c. frame_charges (mk c) = c" "\<And>c. frame_nodes (mk c) = []" "\<And>c. frame_keyed up (mk c)"
  shows "builder_ok up (open_collection mk sp b)"
proof -
  have acc: "accounts_ok b" using assms(1) by (simp add: builder_ok_def)
  have rejected: "builder_ok up (reject_limit sp m b)" for m
    using acc by (intro failed_ok) (simp_all add: reject_limit_def record_error_def accounts_ok_def)
  show ?thesis
  proof (rule counted_bytes [OF acc, of MIN_TOKEN_BYTES sp])
    assume c: "count_result_bytes MIN_TOKEN_BYTES sp b = (True, b\<lparr>b_bytes := b_bytes b + MIN_TOKEN_BYTES\<rparr>)"
      "b_bytes b + MIN_TOKEN_BYTES \<le> MAX_YAML_RESULT_BYTES"
    then show ?thesis
      using assms rejected
      by (auto simp: open_collection_def Let_def builder_ok_def accounts_ok_def keyed_ok_def one_counted_def
          open_events_def open_bytes_def frame_charged_def)
  next
    fix b'
    assume "count_result_bytes MIN_TOKEN_BYTES sp b = (False, b')" "accounts_ok b'" "b_error b' \<noteq> None"
    then show ?thesis using rejected failed_ok by (simp add: open_collection_def Let_def)
  qed
qed

lemma frame_small:
  assumes "builder_ok up b" "one_counted b" "b_stack b = f # rest"
  shows "saturating_add (ch_events (frame_charges f)) 1 = ch_events (frame_charges f) + 1"
    "saturating_add (ch_depth (frame_charges f)) 1 = ch_depth (frame_charges f) + 1"
proof -
  have "ch_events (frame_charges f) + 1 \<le> usize_max" "ch_depth (frame_charges f) + 1 \<le> usize_max"
    using assms by (auto simp: builder_ok_def accounts_ok_def one_counted_def open_events_def limit_defs)
  then show "saturating_add (ch_events (frame_charges f)) 1 = ch_events (frame_charges f) + 1"
    "saturating_add (ch_depth (frame_charges f)) 1 = ch_depth (frame_charges f) + 1" by (simp_all add: saturating_in_range)
qed

text \<open>Closing a collection: what it holds is charged with the frame, plus the closing event.\<close>

lemma close_ok:
  assumes "builder_ok up b" "one_counted b" "b_stack b = f # rest" "charged n (close_charges (frame_charges f))"
    and "b_error b = None \<Longrightarrow> well_keyed up n"
  shows "builder_ok up (finish_node up (n, sp) a (close_charges (frame_charges f)) (b\<lparr>b_stack := rest\<rparr>))"
proof (rule finish_node_ok)
  have acc: "accounts_ok b" using assms(1) by (simp add: builder_ok_def)
  show "builder_ok up (b\<lparr>b_stack := rest\<rparr>)"
    using assms(1,3) by (auto simp: builder_ok_def accounts_ok_def keyed_ok_def open_events_def open_bytes_def)
  show "room_for (b\<lparr>b_stack := rest\<rparr>) (close_charges (frame_charges f))"
    using acc assms(2,3) frame_small [OF assms(1-3)]
    by (auto simp: accounts_ok_def one_counted_def room_for_def close_charges_def open_events_def open_bytes_def)
qed (use assms(4,5) in simp_all)

lemma popped_ok:
  "builder_ok up b \<Longrightarrow> b_stack b = f # rest \<Longrightarrow> builder_ok up (b\<lparr>b_stack := rest\<rparr>)"
  by (auto simp: builder_ok_def accounts_ok_def keyed_ok_def open_events_def open_bytes_def)

lemma close_sequence_ok:
  assumes "builder_ok up b" "one_counted b"
  shows "builder_ok up (close_sequence up m b)"
proof (cases "b_stack b")
  case (Cons f rest)
  show ?thesis
  proof (cases f)
    case (SequenceFrame start a items c)
    have "frame_charged f" "b_error b = None \<Longrightarrow> frame_keyed up f"
      using assms(1) Cons by (auto simp: builder_ok_def accounts_ok_def keyed_ok_def)
    then have "charged (RSequence items) (close_charges (frame_charges f))" "b_error b = None \<Longrightarrow> well_keyed up (RSequence items)"
      using frame_small [OF assms Cons] SequenceFrame
      by (auto simp: charged_def frame_charged_def close_charges_def comp_def)
    from close_ok [OF assms Cons this] show ?thesis
      using Cons SequenceFrame by (simp add: close_sequence_def)
  next
    case (MappingFrame start a pending entries seen_keys c)
    then show ?thesis using popped_ok [OF assms(1) Cons] Cons by (simp add: close_sequence_def)
  qed
qed (simp add: close_sequence_def assms)

lemma mapping_costs:
  "sum_list (map g (concat (map (\<lambda>(k, v). [fst k, fst v]) es))) = sum_list (map (\<lambda>e. g (fst (fst e)) + g (fst (snd e))) es)"
  for g :: "raw_node \<Rightarrow> nat"
  by (induction es) auto

lemma mapping_depth:
  "max_list0 (map (\<lambda>e. max (node_depth (fst (fst e))) (node_depth (fst (snd e)))) es) \<le>
   max_list0 (map node_depth (concat (map (\<lambda>(k, v). [fst k, fst v]) es) @ xs))" (is "_ \<le> ?r")
proof -
  have "node_depth n \<le> ?r" if "n \<in> set (concat (map (\<lambda>(k, v). [fst k, fst v]) es) @ xs)" for n
    using that unfolding set_map by (intro max_list0_ge) (simp only: set_map, rule imageI)
  then have "node_depth (fst (fst e)) \<le> ?r \<and> node_depth (fst (snd e)) \<le> ?r" if "e \<in> set es" for e
    using that by (cases e) force
  then show ?thesis by (simp add: max_list0_le)
qed

lemma close_mapping_ok:
  assumes "builder_ok up b" "one_counted b"
  shows "builder_ok up (close_mapping up m b)"
proof (cases "b_stack b")
  case (Cons f rest)
  show ?thesis
  proof (cases f)
    case (MappingFrame start a pending entries seen_keys c)
    have f: "frame_charged f" "b_error b = None \<Longrightarrow> frame_keyed up f"
      using assms(1) Cons by (auto simp: builder_ok_def accounts_ok_def keyed_ok_def)
    then have "b_error b = None \<Longrightarrow> well_keyed up (RMapping entries)" using MappingFrame by simp
    moreover have "charged (RMapping entries) (close_charges (frame_charges f))"
      using f(1) frame_small [OF assms Cons] MappingFrame mapping_costs [of _ entries]
        le_trans [OF mapping_depth [of entries "case pending of Some k \<Rightarrow> [fst k] | None \<Rightarrow> []"]]
      by (simp add: charged_def frame_charged_def close_charges_def)
    ultimately show ?thesis
      using close_ok [OF assms Cons] Cons MappingFrame by (simp add: close_mapping_def)
  next
    case (SequenceFrame start a items c)
    then show ?thesis using popped_ok [OF assms(1) Cons] Cons by (simp add: close_mapping_def)
  qed
qed (simp add: close_mapping_def assms)

lemma dispatch_event_ok:
  assumes "builder_ok up b" "one_counted b"
  shows "builder_ok up (dispatch_event up e s b)"
proof (cases e)
  case (SequenceStart a)
  then show ?thesis using assms by (simp add: open_collection_ok)
next
  case (MappingStart a)
  then show ?thesis using assms by (simp add: open_collection_ok keys_ok_def)
qed (use assms in \<open>auto simp: on_alias_ok on_scalar_ok close_sequence_ok close_mapping_ok,
  auto simp: builder_ok_def accounts_ok_def keyed_ok_def\<close>)

lemma on_event_ok:
  assumes "builder_ok up b"
  shows "builder_ok up (on_event up e b)"
proof -
  have acc: "accounts_ok b" using assms by (simp add: builder_ok_def)
  show ?thesis
  proof (rule counted_events [OF acc, of 1 "span_from (b_file b) (snd e)"])
    assume c: "count_events 1 (span_from (b_file b) (snd e)) b = (True, b\<lparr>b_traversed := b_traversed b + 1\<rparr>)"
      "b_traversed b + 1 \<le> MAX_TRAVERSED_YAML_NODES"
    have "builder_ok up (b\<lparr>b_traversed := b_traversed b + 1\<rparr>)" using builder_ok_counters(1) [OF assms c(2)] by simp
    moreover have "one_counted (b\<lparr>b_traversed := b_traversed b + 1\<rparr>)" using acc by (simp add: accounts_ok_def one_counted_def)
    ultimately show ?thesis using c(1) assms dispatch_event_ok by (simp add: on_event_def Let_def)
  next
    fix b'
    assume "count_events 1 (span_from (b_file b) (snd e)) b = (False, b')" "accounts_ok b'" "b_error b' \<noteq> None"
    then show ?thesis using assms failed_ok by (simp add: on_event_def Let_def)
  qed
qed

lemma built_ok: "builder_ok up b \<Longrightarrow> builder_ok up (fold (on_event up) es b)"
  by (induction es arbitrary: b) (simp_all add: on_event_ok)

lemma new_builder_ok: "builder_ok up (new_builder file)"
  by (simp add: builder_ok_def new_builder_def accounts_ok_def keyed_ok_def open_events_def open_bytes_def)

text \<open>
  C10: whatever the scanner reports, the tree of an accepted workflow file is within the limits: at most
  50 nested collections, at most 50,000 events and at most 10 MiB, with every alias counted as often as
  it is expanded; and in every mapping of it all keys are scalars and no two of them agree up to case.
\<close>

theorem accepted_tree_is_bounded:
  assumes "parse_raw up scan file source = Inr (n, sp)"
  shows "node_depth n \<le> MAX_YAML_DEPTH \<and> node_events n \<le> MAX_TRAVERSED_YAML_NODES \<and>
    node_bytes n \<le> MAX_YAML_RESULT_BYTES \<and> well_keyed up n"
proof -
  obtain events failure where scan: "scan source = (events, failure)" by fastforce
  let ?b = "fold (on_event up) events (new_builder file)"
  have "b_error ?b = None" "b_documents ?b = [Some (n, sp)]"
    using assms scan
    by (auto simp: parse_raw_def Let_def split: option.splits list.splits)
  moreover have "builder_ok up ?b" by (rule built_ok [OF new_builder_ok])
  ultimately show ?thesis by (simp add: builder_ok_def accounts_ok_def keyed_ok_def within_limits_def)
qed

text \<open>A mapping with an anchored list that is used twice, as a scanner reports it.\<close>

definition sample_events :: "(yaml_event \<times> marker \<times> marker) list" where
  "sample_events = map (\<lambda>e. (e, \<lparr>mk_line = 1, mk_col = 0\<rparr>, \<lparr>mk_line = 1, mk_col = 1\<rparr>))
     [StreamStart, DocumentStart, MappingStart 0, ScalarEvent (lit ''a'') Plain 0 None, SequenceStart 1,
      ScalarEvent (lit ''0x1F'') Plain 0 None, SequenceEnd, ScalarEvent (lit ''b'') Plain 0 None, AliasEvent 1,
      MappingEnd, DocumentEnd, StreamEnd]"

theorem accepted_tree_is_bounded_witness:
  "\<exists>n sp. parse_raw ascii_upper (\<lambda>_. (sample_events, None)) [] [] = Inr (n, sp) \<and> node_depth n = 2 \<and> node_events n = 10 \<and>
     node_depth n \<le> MAX_YAML_DEPTH \<and> well_keyed ascii_upper n"
proof -
  have "(case parse_raw ascii_upper (\<lambda>_. (sample_events, None)) [] [] of
      Inr (n, sp) \<Rightarrow> node_depth n = 2 \<and> node_events n = 10 | _ \<Rightarrow> False)" by code_simp
  then obtain n sp where n: "parse_raw ascii_upper (\<lambda>_. (sample_events, None)) [] [] = Inr (n, sp)"
      "node_depth n = 2" "node_events n = 10"
    by (auto split: sum.splits)
  from accepted_tree_is_bounded [OF n(1)] n show ?thesis by blast
qed

end
