(* ===== verification/Workflow_Model.thy ===== *)
theory Workflow_Model
  imports Yaml_Tree
begin

text \<open>
  The typed workflow (\<open>greenlit-workflow/src/model/\<close>): what reading a workflow file leaves to the
  planner. Every authored value keeps its span.
\<close>

section \<open>Values\<close>

datatype scalar_or_expr = ScalarLiteral yaml_scalar | ScalarExpression ustr

definition classify :: "ustr \<Rightarrow> yaml_scalar \<Rightarrow> scalar_or_expr" where
  "classify raw literal = (if str_contains raw (lit ''${{'') then ScalarExpression raw else ScalarLiteral literal)"

definition spanned :: "'a \<Rightarrow> span \<Rightarrow> 'a spanned" where
  "spanned v sp = \<lparr>node = v, node_span = sp\<rparr>"

lemma spanned_simps [simp]: "node (spanned v sp) = v" "node_span (spanned v sp) = sp"
  by (simp_all add: spanned_def)

text \<open>The recursion of \<open>YamlValue\<close> goes through spanned values, which are pairs here.\<close>

datatype yaml_value =
    YamlScalar scalar_or_expr
  | YamlSequence "(yaml_value \<times> span) list"
  | YamlMapping "(ustr spanned \<times> (yaml_value \<times> span)) list"

record unsupported_construct =
  uc_name :: ustr
  uc_location :: span

type_synonym scalar_or_expr_map = "(ustr spanned \<times> scalar_or_expr spanned) list"

section \<open>Triggers\<close>

record schedule =
  sc_span :: span
  sc_cron :: "ustr spanned"
  sc_timezone :: "ustr spanned option"

record webhook_filter =
  wh_span :: span
  wh_branches :: "ustr spanned list"
  wh_branches_ignore :: "ustr spanned list"
  wh_tags :: "ustr spanned list"
  wh_tags_ignore :: "ustr spanned list"
  wh_paths :: "ustr spanned list"
  wh_paths_ignore :: "ustr spanned list"
  wh_types :: "ustr spanned list"

datatype workflow_dispatch_input_type =
  InputString | InputBoolean | InputNumber | InputChoice | InputEnvironment

record workflow_dispatch_input =
  in_span :: span
  in_name :: "ustr spanned"
  in_description :: "ustr spanned option"
  in_required :: "bool spanned option"
  in_default :: "(yaml_value \<times> span) option"
  in_type :: "workflow_dispatch_input_type spanned option"
  in_options :: "ustr spanned list"

record workflow_dispatch =
  wd_inputs :: "workflow_dispatch_input list"

datatype trigger =
    Webhook ustr webhook_filter
  | WorkflowDispatch workflow_dispatch
  | ScheduleTrigger "schedule list"
  | RepositoryDispatch "ustr spanned list"
  | WorkflowCall unsupported_construct
  | OtherTrigger ustr "(yaml_value \<times> span) option"

section \<open>Workflow, jobs, steps\<close>

record concurrency =
  cc_group :: "ustr spanned"
  cc_cancel_in_progress :: "scalar_or_expr spanned option"

record run_defaults =
  rd_shell :: "ustr spanned option"
  rd_working_directory :: "scalar_or_expr spanned option"

record defaults =
  df_run :: "run_defaults spanned option"

datatype permission_level_all = ReadAll | WriteAll

datatype permission_level = PermissionRead | PermissionWrite | PermissionNone

datatype permissions =
    PermissionsAll permission_level_all
  | PermissionsScoped "(ustr spanned \<times> permission_level spanned) list"

datatype step_action =
    StepRun "ustr spanned" "ustr spanned option"
  | StepUses "ustr spanned" scalar_or_expr_map

record step =
  st_span :: span
  st_id :: "ustr spanned option"
  st_if :: "ustr spanned option"
  st_name :: "scalar_or_expr spanned option"
  st_env :: scalar_or_expr_map
  st_working_directory :: "scalar_or_expr spanned option"
  st_continue_on_error :: "scalar_or_expr spanned option"
  st_timeout_minutes :: "scalar_or_expr spanned option"
  st_action :: step_action

datatype runs_on =
    RunsOnLabel "ustr spanned"
  | RunsOnLabels "ustr spanned list"
  | RunsOnGroup "ustr spanned option" "ustr spanned list"

type_synonym matrix_entry = "(ustr spanned \<times> (yaml_value \<times> span)) list"

record workflow_matrix =
  wm_axes :: "(ustr spanned \<times> (yaml_value \<times> span) list) list"
  wm_include :: "matrix_entry spanned list"
  wm_exclude :: "matrix_entry spanned list"

datatype matrix_source = MatrixInline workflow_matrix | MatrixExpression "ustr spanned"

record workflow_strategy =
  ws_matrix :: "matrix_source spanned option"
  ws_fail_fast :: "scalar_or_expr spanned option"
  ws_max_parallel :: "scalar_or_expr spanned option"

record credentials =
  cr_username :: "scalar_or_expr spanned option"
  cr_password :: "scalar_or_expr spanned option"

record container_spec =
  cs_image :: "scalar_or_expr spanned"
  cs_credentials :: "credentials spanned option"
  cs_env :: scalar_or_expr_map
  cs_ports :: "scalar_or_expr spanned list"
  cs_volumes :: "scalar_or_expr spanned list"
  cs_options :: "scalar_or_expr spanned option"

record workflow_job =
  wj_span :: span
  wj_id :: "ustr spanned"
  wj_name :: "ustr spanned option"
  wj_runs_on :: "runs_on spanned option"
  wj_needs :: "ustr spanned list"
  wj_if :: "ustr spanned option"
  wj_outputs :: "(ustr spanned \<times> ustr spanned) list"
  wj_env :: scalar_or_expr_map
  wj_defaults :: "defaults spanned option"
  wj_permissions :: "permissions spanned option"
  wj_strategy :: "workflow_strategy spanned option"
  wj_services :: "(ustr spanned \<times> container_spec spanned) list"
  wj_container :: "container_spec spanned option"
  wj_steps :: "step list"
  wj_environment :: "unsupported_construct option"
  wj_concurrency :: "concurrency spanned option"
  wj_reusable_call :: "unsupported_construct option"

record workflow =
  wf_span :: span
  wf_name :: "ustr spanned option"
  wf_run_name :: "ustr spanned option"
  wf_on :: "trigger spanned list"
  wf_env :: scalar_or_expr_map
  wf_defaults :: "defaults spanned option"
  wf_permissions :: "permissions spanned option"
  wf_concurrency :: "concurrency spanned option"
  wf_jobs :: "workflow_job list"

end
