(* ===== verification/Plan_Fields.thy ===== *)
theory Plan_Fields
  imports Fold_Sound Step_Env Workflow_Model "HOL-Library.Product_Lexorder" "HOL-Library.List_Lexorder"
begin

text \<open>
  The planning of single fields: templates (\<open>greenlit-engine/src/partial_eval/template.rs\<close>), the
  layering of \<open>env\<close> (\<open>env.rs\<close>), the planned scalars (\<open>planned.rs\<close>) and conditions
  (\<open>condition.rs\<close>). The theorems connect what is planned here with what execution makes of it
  (\<open>Resolve\<close>), and the lemmas at the end show where the two part.
\<close>

section \<open>The order of reasons\<close>

text \<open>
  The derived order of \<open>DeferReason\<close>: by the position of the variant, then by its fields; the
  list of reasons in a plan is the sorted set.
\<close>

fun reason_key :: "defer_reason \<Rightarrow> nat \<times> ustr \<times> nat \<times> ustr" where
  "reason_key (NeedsOutput j None) = (0, j, 0, [])"
| "reason_key (NeedsOutput j (Some x)) = (0, j, 1, x)"
| "reason_key (NeedsResult j) = (1, j, 0, [])"
| "reason_key (StepOutput s None) = (2, s, 0, [])"
| "reason_key (StepOutput s (Some x)) = (2, s, 1, x)"
| "reason_key (StepStatus s f) = (3, s, (case f of OutcomeField \<Rightarrow> 0 | ConclusionField \<Rightarrow> 1), [])"
| "reason_key (StatusFn f) =
     (4, [], (case f of FnSuccess \<Rightarrow> 0 | FnFailure \<Rightarrow> 1 | FnCancelled \<Rightarrow> 2 | FnAlways \<Rightarrow> 3), [])"
| "reason_key HashFiles = (5, [], 0, [])"
| "reason_key (DynamicEnv x) = (6, x, 0, [])"
| "reason_key (GithubContext None) = (7, [], 0, [])"
| "reason_key (GithubContext (Some x)) = (7, [], 1, x)"
| "reason_key RunnerContext = (8, [], 0, [])"
| "reason_key JobContext = (9, [], 0, [])"
| "reason_key MatrixContext = (10, [], 0, [])"
| "reason_key StrategyContext = (11, [], 0, [])"
| "reason_key SecretsContext = (12, [], 0, [])"
| "reason_key NeedsContextWhole = (13, [], 0, [])"
| "reason_key StepsContextWhole = (14, [], 0, [])"

lemma reason_key_inject: "reason_key a = reason_key b \<Longrightarrow> a = b"
  by (cases a rule: reason_key.cases; cases b rule: reason_key.cases)
     (auto split: step_status_field.splits status_fn.splits)

instantiation defer_reason :: linorder
begin

definition less_eq_defer_reason :: "defer_reason \<Rightarrow> defer_reason \<Rightarrow> bool" where
  "less_eq_defer_reason a b \<longleftrightarrow> reason_key a \<le> reason_key b"

definition less_defer_reason :: "defer_reason \<Rightarrow> defer_reason \<Rightarrow> bool" where
  "less_defer_reason a b \<longleftrightarrow> reason_key a < reason_key b"

instance
  by intro_classes
     (auto simp: less_eq_defer_reason_def less_defer_reason_def intro: reason_key_inject)

end

definition deferred_of :: "expr \<Rightarrow> ustr \<Rightarrow> defer_reason set \<Rightarrow> deferred_expr" where
  "deferred_of e shown ds = \<lparr>residual = e, residual_text = shown, defers_on = sorted_list_of_set ds\<rparr>"

section \<open>Templates\<close>

datatype template_part = PartLiteral ustr | PartPlaceholder ustr

definition find_closing_delimiter :: "ustr \<Rightarrow> (ustr \<times> ustr) option" where
  "find_closing_delimiter = find_closing False"

text \<open>On an unterminated opening the text before it is pushed a second time.\<close>

function split_template :: "ustr \<Rightarrow> template_part list" where
  "split_template rest = (case split_once (lit ''${{'') rest of
     None \<Rightarrow> (if rest = [] then [] else [PartLiteral rest])
   | Some (before, after_open) \<Rightarrow> (if before = [] then [] else [PartLiteral before]) @
      (case find_closing_delimiter after_open of
         None \<Rightarrow> [PartLiteral rest]
       | Some (body, after) \<Rightarrow> PartPlaceholder (trim body) # split_template after))"
  by pat_completeness auto
termination
proof (relation "measure length", goal_cases)
  case (2 rest x before after_open y body after)
  then have "split_once (lit ''${{'') rest = Some (before, after_open)"
    "find_closing False after_open = Some (body, after)" by (simp_all add: find_closing_delimiter_def)
  then have "rest = before @ lit ''${{'' @ after_open" "after_open = body @ lit ''}}'' @ after"
    using split_once_Some find_closing_Some by blast+
  then show ?case by simp
qed simp

declare split_template.simps [simp del]

definition is_placeholder :: "template_part \<Rightarrow> bool" where
  "is_placeholder p = (case p of PartPlaceholder _ \<Rightarrow> True | _ \<Rightarrow> False)"

text \<open>The budget of a mixed template.\<close>

definition template_memory_error :: partial_eval_error where
  "template_memory_error = EvalErr (MemoryLimitExceeded WORKFLOW_TEMPLATE_MAX_MEMORY_BYTES)"

definition add_output_segment :: "ustr \<Rightarrow> nat \<Rightarrow> partial_eval_error + nat" where
  "add_output_segment s spent =
    (if s = [] then Inr spent
     else rbind (ok_or (checked_mul (length (encode_utf16 s)) 2) template_memory_error) (\<lambda>payload.
          rbind (ok_or (checked_add 26 payload) template_memory_error) (\<lambda>added.
          rbind (ok_or (checked_add spent added) template_memory_error) (\<lambda>b.
            if WORKFLOW_TEMPLATE_MAX_MEMORY_BYTES < b then Inl template_memory_error else Inr b))))"

text \<open>The segments of a literal: each ends with a brace, the last one at the end.\<close>

fun literal_segments :: "ustr \<Rightarrow> ustr \<Rightarrow> ustr list" where
  "literal_segments cur [] = [rev cur]"
| "literal_segments cur (c # cs) =
    (if c = lbrace \<or> c = rbrace then rev (c # cur) # literal_segments [] cs else literal_segments (c # cur) cs)"

fun add_segments :: "ustr list \<Rightarrow> nat \<Rightarrow> partial_eval_error + nat" where
  "add_segments [] spent = Inr spent"
| "add_segments (s # ss) spent = rbind (add_output_segment s spent) (add_segments ss)"

definition add_literal :: "ustr \<Rightarrow> nat \<Rightarrow> partial_eval_error + nat" where
  "add_literal s spent = add_segments (literal_segments [] s) spent"

definition add_argument :: "ustr \<Rightarrow> nat \<Rightarrow> partial_eval_error + nat" where
  "add_argument s spent = add_output_segment s spent"

datatype planned_template_part =
    PlannedLiteral ustr
  | PlannedStatic ustr
  | PlannedDeferred ustr expr "defer_reason set"

datatype template_fold =
    TemplateStatic expr_value
  | TemplateDeferred expr ustr "defer_reason set"

fun plan_parts :: "fold_ctx \<Rightarrow> template_part list \<Rightarrow> nat \<Rightarrow> planned_template_part list planning" where
  "plan_parts fc [] spent = preturn []"
| "plan_parts fc (PartLiteral l # ps) spent = pbind (plift (add_literal l spent)) (\<lambda>b.
     pbind (plan_parts fc ps b) (\<lambda>rest. preturn (PlannedLiteral l # rest)))"
| "plan_parts fc (PartPlaceholder src # ps) spent = (case parse src of
     Inl e \<Rightarrow> pfail (ExprParse e)
   | Inr e \<Rightarrow> pbind (fold_expr fc e) (\<lambda>f. case f of
       FValue v \<Rightarrow> pbind (plift (add_argument (to_display_string v) spent)) (\<lambda>b.
         pbind (plan_parts fc ps b) (\<lambda>rest. preturn (PlannedStatic (to_display_string v) # rest)))
     | FResidual r ds \<Rightarrow> pbind (plan_parts fc ps spent) (\<lambda>rest. preturn (PlannedDeferred src r ds # rest))))"

definition escape_format_braces :: "ustr \<Rightarrow> ustr" where
  "escape_format_braces s = concat (map (\<lambda>c. if c = lbrace \<or> c = rbrace then [c, c] else [c]) s)"

text \<open>The residual: the pattern of a \<open>format\<close> call, its arguments, the text and the reasons.\<close>

fun residual_parts :: "planned_template_part list \<Rightarrow> nat \<Rightarrow> ustr \<times> expr list \<times> ustr \<times> defer_reason set" where
  "residual_parts [] idx = ([], [], [], {})"
| "residual_parts (PlannedLiteral l # ps) idx = (let (pat, args, shown, ds) = residual_parts ps idx in
     (escape_format_braces l @ pat, args, l @ shown, ds))"
| "residual_parts (PlannedStatic s # ps) idx = (let (pat, args, shown, ds) = residual_parts ps (idx + 1) in
     ([lbrace] @ dec_string idx @ [rbrace] @ pat, EStr s # args, s @ shown, ds))"
| "residual_parts (PlannedDeferred src e d # ps) idx = (let (pat, args, shown, ds) = residual_parts ps (idx + 1) in
     ([lbrace] @ dec_string idx @ [rbrace] @ pat, e # args, lit ''${{ '' @ src @ lit '' }}'' @ shown, d \<union> ds))"

fun static_text :: "planned_template_part \<Rightarrow> ustr" where
  "static_text (PlannedLiteral l) = l"
| "static_text (PlannedStatic s) = s"
| "static_text (PlannedDeferred src e ds) = []"

fun is_deferred_part :: "planned_template_part \<Rightarrow> bool" where
  "is_deferred_part (PlannedDeferred src e ds) = True"
| "is_deferred_part _ = False"

definition fold_template :: "fold_ctx \<Rightarrow> ustr \<Rightarrow> template_fold planning" where
  "fold_template fc raw = (let parts = split_template raw in
     if \<not> list_ex is_placeholder parts then preturn (TemplateStatic (VString raw))
     else case parts of
       [PartPlaceholder src] \<Rightarrow> (case parse src of
          Inl e \<Rightarrow> pfail (ExprParse e)
        | Inr e \<Rightarrow> pbind (fold_expr fc e) (\<lambda>f. preturn (case f of
            FValue v \<Rightarrow> TemplateStatic v
          | FResidual r ds \<Rightarrow> TemplateDeferred r (pretty_print r) ds)))
     | _ \<Rightarrow> pbind (plan_parts fc parts 0) (\<lambda>planned. preturn
         (if \<not> list_ex is_deferred_part planned
          then TemplateStatic (VString (concat (map static_text planned)))
          else (let (pat, args, shown, ds) = residual_parts planned 0 in
            TemplateDeferred (ECall (lit ''format'') (EStr pat # args)) shown ds))))"

text \<open>\<open>evaluate_template\<close>: the same template against a run-time context.\<close>

fun evaluate_parts :: "template_part list \<Rightarrow> ctx \<Rightarrow> nat \<Rightarrow> nat \<Rightarrow> partial_eval_error + ustr" where
  "evaluate_parts [] c rc spent = Inr []"
| "evaluate_parts (PartLiteral l # ps) c rc spent = rbind (add_literal l spent) (\<lambda>b.
     rbind (evaluate_parts ps c rc b) (\<lambda>out. Inr (l @ out)))"
| "evaluate_parts (PartPlaceholder src # ps) c rc spent = (case parse src of
     Inl e \<Rightarrow> Inl (ExprParse e)
   | Inr e \<Rightarrow> (case evaluate c rc e of
       Inl x \<Rightarrow> Inl (EvalErr x)
     | Inr v \<Rightarrow> rbind (add_argument (to_display_string v) spent) (\<lambda>b.
         rbind (evaluate_parts ps c rc b) (\<lambda>out. Inr (to_display_string v @ out)))))"

definition evaluate_template :: "ustr \<Rightarrow> ctx \<Rightarrow> nat \<Rightarrow> partial_eval_error + expr_value" where
  "evaluate_template raw c rc = (let parts = split_template raw in
     if \<not> list_ex is_placeholder parts then Inr (VString raw)
     else case parts of
       [PartPlaceholder src] \<Rightarrow> (case parse src of
          Inl e \<Rightarrow> Inl (ExprParse e)
        | Inr e \<Rightarrow> (case evaluate c rc e of Inl x \<Rightarrow> Inl (EvalErr x) | Inr v \<Rightarrow> Inr v))
     | _ \<Rightarrow> rbind (evaluate_parts parts c rc 0) (\<lambda>out. Inr (VString out)))"

section \<open>Scalars and conditions\<close>

fun scalar_to_value :: "yaml_scalar \<Rightarrow> expr_value" where
  "scalar_to_value YNull = VNull"
| "scalar_to_value (YBool b) = VBool b"
| "scalar_to_value (YNumber n) = VNumber n"
| "scalar_to_value (YString s) = VString s"

definition fold_scalar_or_expr :: "scalar_or_expr \<Rightarrow> fold_ctx \<Rightarrow> folded planning" where
  "fold_scalar_or_expr v fc = (case v of
     ScalarLiteral s \<Rightarrow> preturn (FValue (scalar_to_value s))
   | ScalarExpression raw \<Rightarrow> pbind (fold_template fc raw) (\<lambda>t. preturn (case t of
       TemplateStatic w \<Rightarrow> FValue w
     | TemplateDeferred e _ ds \<Rightarrow> FResidual e ds)))"

definition scalar_source :: "scalar_or_expr \<Rightarrow> ustr" where
  "scalar_source v = (case v of
     ScalarLiteral s \<Rightarrow> to_display_string (scalar_to_value s) | ScalarExpression raw \<Rightarrow> raw)"

definition plan_scalar_string :: "scalar_or_expr \<Rightarrow> span \<Rightarrow> fold_ctx \<Rightarrow> ustr planned planning" where
  "plan_scalar_string v sp fc = pbind (fold_scalar_or_expr v fc) (\<lambda>f. preturn
     \<lparr>pl_span = sp, pl_source = scalar_source v, pl_evaluation = (case f of
        FValue w \<Rightarrow> Static (to_display_string w)
      | FResidual e ds \<Rightarrow> Deferred (deferred_of e (pretty_print e) ds))\<rparr>)"

definition plan_template_string :: "ustr \<Rightarrow> span \<Rightarrow> fold_ctx \<Rightarrow> ustr planned planning" where
  "plan_template_string raw sp fc = pbind (fold_template fc raw) (\<lambda>t. preturn
     \<lparr>pl_span = sp, pl_source = raw, pl_evaluation = (case t of
        TemplateStatic w \<Rightarrow> Static (to_display_string w)
      | TemplateDeferred e shown ds \<Rightarrow> Deferred (deferred_of e shown ds))\<rparr>)"

definition plan_scalar_bool :: "scalar_or_expr \<Rightarrow> span \<Rightarrow> fold_ctx \<Rightarrow> bool planned planning" where
  "plan_scalar_bool v sp fc = pbind (fold_scalar_or_expr v fc) (\<lambda>f.
     let planned = (\<lambda>e. preturn \<lparr>pl_span = sp, pl_source = scalar_source v, pl_evaluation = e\<rparr>) in
     case f of
       FValue (VBool b) \<Rightarrow> planned (Static b)
     | FValue _ \<Rightarrow> pfail (InvalidStaticValue ''a boolean'')
     | FResidual e ds \<Rightarrow> planned (Deferred (deferred_of e (pretty_print e) ds)))"

definition plan_scalar_number :: "scalar_or_expr \<Rightarrow> span \<Rightarrow> fold_ctx \<Rightarrow> f64 planned planning" where
  "plan_scalar_number v sp fc = pbind (fold_scalar_or_expr v fc) (\<lambda>f.
     let planned = (\<lambda>e. preturn \<lparr>pl_span = sp, pl_source = scalar_source v, pl_evaluation = e\<rparr>);
         bad = pfail (InvalidStaticValue ''an integer from 1 through 360 minutes'') in
     case f of
       FValue w \<Rightarrow> (case w of
           VNumber n \<Rightarrow> (if minutes_ok n then planned (Static n) else bad)
         | _ \<Rightarrow> bad)
     | FResidual e ds \<Rightarrow> planned (Deferred (deferred_of e (pretty_print e) ds)))"

definition plan_condition :: "ustr \<Rightarrow> span \<Rightarrow> fold_ctx \<Rightarrow> if_condition planning" where
  "plan_condition raw sp fc = (case parse (strip_if_wrapper raw) of
     Inl e \<Rightarrow> pfail (ExprParse e)
   | Inr e \<Rightarrow> pbind (fold_expr fc e) (\<lambda>f. preturn
       \<lparr>cond_span = sp, cond_source = raw, cond_eval = (case f of
          FValue v \<Rightarrow> StaticCond (is_truthy v)
        | FResidual r ds \<Rightarrow> DeferredCond (deferred_of r (pretty_print r) ds))\<rparr>))"

section \<open>What is planned is what is executed\<close>

definition out_of_resources :: "eval_error \<Rightarrow> bool" where
  "out_of_resources x \<longleftrightarrow> is_memory_error x \<or> x = ExpressionTooDeep"

text \<open>The fragment of expressions for which folding preserves meaning (\<open>Fold_Sound\<close>).\<close>

definition scalar_expression :: "fold_ctx \<Rightarrow> expr \<Rightarrow> bool" where
  "scalar_expression fc e \<longleftrightarrow> creates_nothing e \<and> env_by_entry e \<and> scalar_operands fc e"

definition run_context :: "fold_ctx \<Rightarrow> ctx \<Rightarrow> bool" where
  "run_context fc c \<longleftrightarrow> known_context fc \<and> agrees fc c \<and> unfiltered_context c"

lemma evaluate_ideal:
  assumes "creates_nothing e" "unfiltered_context c"
  shows "case evaluate c rc e of Inr v \<Rightarrow> ideal c e = Inr v | Inl x \<Rightarrow> out_of_resources x \<or> ideal c e = Inl x"
proof -
  have "computes (evaluate_inner c e 0 (new_memory (effective_max_memory_bytes 0), rc)) (ideal c e)"
    by (rule evaluator_computes_ideal [OF assms])
  then show ?thesis
    by (auto simp: evaluate_def evaluate_with_options_def computes_def out_of_resources_def split: sum.splits)
qed

lemma evaluate_answer:
  assumes "creates_nothing e" "unfiltered_context c"
  shows "evaluate c rc e = Inr v \<Longrightarrow> answered (ideal c e) = Some v"
    and "evaluate c rc e = Inl x \<Longrightarrow> \<not> out_of_resources x \<Longrightarrow> answered (ideal c e) = None"
  using evaluate_ideal [OF assms, of rc] by (auto split: sum.splits)

lemma parsed_meaning_ok:
  "parse src = Inr e \<Longrightarrow> scalar_expression fc e \<Longrightarrow> run_context fc c \<Longrightarrow> meaning_ok fc e"
  using outcome_Inr [OF parse_tokens_parses]
  by (auto simp: meaning_ok_def scalar_expression_def run_context_def parse_def rbind_eq_Inr)

lemma folded_answer:
  assumes "meaning_ok fc e" "fold_expr fc e rc = Inr (f, rc')" "run_context fc c"
  shows "case f of FValue v \<Rightarrow> answered (ideal c e) = Some v
    | FResidual r ds \<Rightarrow> creates_nothing r \<and> answered (ideal c r) = answered (ideal c e)"
proof -
  have "means fc e f" using assms(1,2) by (rule meaning.fold_within_rules)
  then show ?thesis using assms(1,3) by (cases f) (auto simp: meaning_ok_def run_context_def)
qed

text \<open>
  C5: folding an expression at plan time does not change what it evaluates to. The expression is parsed,
  creates no array or object, reads the environment entry by entry and has scalar operands as far as they
  are known (\<open>scalar_expression\<close>). The run's context agrees with what the planner knew wherever the
  classifier saw no reason to wait, the planner's own context has the shapes the classifier assumes, its
  environment is an object, and neither context holds the result of a filter (\<open>run_context\<close>). If folding gave a value, evaluating the expression
  as written in the run gives that value or fails for memory or depth. If folding left a residual,
  the expression and the residual evaluate to the same value whenever both give one, and one of them fails where
  the other gives a value only for memory or depth.
\<close>

theorem folded_expression_evaluates_as_written:
  assumes "parse source = Inr e" "scalar_expression fc e" "run_context fc c"
    and "fold_expr fc e rc = Inr (f, rc')"
  shows "case f of
     FValue v \<Rightarrow> (case evaluate c now e of Inr w \<Rightarrow> w = v | Inl x \<Rightarrow> out_of_resources x)
   | FResidual r ds \<Rightarrow> (case (evaluate c now e, evaluate c now' r) of
       (Inr w, Inr w') \<Rightarrow> w' = w
     | (Inr w, Inl x) \<Rightarrow> out_of_resources x
     | (Inl x, Inr w) \<Rightarrow> out_of_resources x
     | (Inl x, Inl y) \<Rightarrow> True)"
proof -
  have c: "unfiltered_context c" "creates_nothing e"
    using assms(2,3) by (simp_all add: run_context_def scalar_expression_def)
  note means = folded_answer [OF parsed_meaning_ok [OF assms(1-3)] assms(4,3)]
  note orig = evaluate_answer [OF c(2,1), of now]
  show ?thesis
  proof (cases f)
    case (FValue v)
    with means orig show ?thesis by (cases "evaluate c now e") fastforce+
  next
    case (FResidual r ds)
    then have r: "creates_nothing r" "answered (ideal c r) = answered (ideal c e)" using means by simp_all
    from evaluate_answer [OF r(1) c(1), of now'] orig r(2) FResidual show ?thesis
      by (cases "evaluate c now e"; cases "evaluate c now' r") fastforce+
  qed
qed

text \<open>
  C7: planning and executing a condition decides as evaluating it would. For a condition in the
  fragment and a run-time context that agrees with what the planner knew: whenever evaluating the
  condition as written gives a value, the resolution of its plan gives the truth of that value, or
  fails for memory or depth; whenever evaluating it raises an error of the expression, resolving the
  plan raises one too.
\<close>

theorem planned_condition_decides_as_written:
  assumes "parse (strip_if_wrapper raw) = Inr e" "scalar_expression fc e" "run_context fc c"
    and "plan_condition raw sp fc rc = Inr (cond, rc')"
  shows "case evaluate c now e of
     Inr v \<Rightarrow> (case resolve_condition cond c now' of Inr b \<Rightarrow> b = is_truthy v | Inl x \<Rightarrow> out_of_resources x)
   | Inl x \<Rightarrow> out_of_resources x \<or> (\<exists>y. resolve_condition cond c now' = Inl y)"
proof -
  note ok = parsed_meaning_ok [OF assms(1-3)]
  have c: "unfiltered_context c" "creates_nothing e"
    using assms(2,3) by (simp_all add: run_context_def scalar_expression_def)
  obtain f where f: "fold_expr fc e rc = Inr (f, rc')" and cond: "cond_eval cond = (case f of
       FValue v \<Rightarrow> StaticCond (is_truthy v)
     | FResidual r ds \<Rightarrow> DeferredCond (deferred_of r (pretty_print r) ds))"
    using assms(1,4) by (auto simp: plan_condition_def pbind_apply)
  note means = folded_answer [OF ok f assms(3)]
  note orig = evaluate_answer [OF c(2,1), of now]
  show ?thesis
  proof (cases f)
    case (FValue v)
    with means cond orig show ?thesis by (auto simp: resolve_condition_def split: sum.splits)
  next
    case (FResidual r ds)
    then have r: "creates_nothing r" "answered (ideal c r) = answered (ideal c e)" using means by simp_all
    note res = evaluate_answer [OF r(1) c(1), of now']
    have "resolve_condition cond c now' = rbind (evaluate c now' r) (\<lambda>v. Inr (is_truthy v))"
      using cond FResidual by (simp add: resolve_condition_def deferred_of_def)
    with r(2) orig res show ?thesis
      by (cases "evaluate c now e"; cases "evaluate c now' r") fastforce+
  qed
qed

definition sample_condition_source :: ustr where
  "sample_condition_source = lit ''github.ref == '' @ [39] @ lit ''main'' @ [39] @ lit '' && env.A == format('' @ [39] @
     lit ''{0}'' @ [39] @ lit '', runner.os)''"

lemma sample_scalar_expression: "scalar_expression sample_fold_ctx sample_condition"
  by code_simp

lemma sample_run_context: "run_context sample_fold_ctx sample_run"
  using sample_fold_ctx_known sample_run_agrees by (simp add: run_context_def)

theorem folded_expression_evaluates_as_written_witness:
  "\<exists>r ds rc'. fold_expr sample_fold_ctx sample_condition 1000 = Inr (FResidual r ds, rc') \<and>
     r \<noteq> sample_condition \<and>
     (case evaluate sample_run 7 r of Inr w \<Rightarrow> w = VBool False | Inl x \<Rightarrow> out_of_resources x)"
proof -
  have "(case fold_expr sample_fold_ctx sample_condition 1000 of
     Inr (FResidual r ds, rc') \<Rightarrow> r \<noteq> sample_condition | _ \<Rightarrow> False)" by code_simp
  then obtain r ds rc' where f: "fold_expr sample_fold_ctx sample_condition 1000 = Inr (FResidual r ds, rc')"
    "r \<noteq> sample_condition" by (auto split: sum.splits folded.splits)
  note folded_expression_evaluates_as_written
    [OF sample_condition_parsed sample_scalar_expression sample_run_context f(1), where now = 5 and now' = 7]
  moreover have "evaluate sample_run 5 sample_condition = Inr (VBool False)" by code_simp
  ultimately show ?thesis using f by (auto split: sum.splits)
qed

theorem planned_condition_decides_as_written_witness:
  "\<exists>cond rc'. plan_condition sample_condition_source sample_span sample_fold_ctx 1000 = Inr (cond, rc') \<and>
     (case resolve_condition cond sample_run 7 of Inr b \<Rightarrow> \<not> b | Inl x \<Rightarrow> out_of_resources x)"
proof -
  have "(case plan_condition sample_condition_source sample_span sample_fold_ctx 1000 of Inr _ \<Rightarrow> True | _ \<Rightarrow> False)"
    by code_simp
  then obtain cond rc' where p: "plan_condition sample_condition_source sample_span sample_fold_ctx 1000 = Inr (cond, rc')"
    by (auto split: sum.splits)
  have "parse (strip_if_wrapper sample_condition_source) = Inr sample_condition" by code_simp
  note decides = planned_condition_decides_as_written
    [OF this sample_scalar_expression sample_run_context p, where now = 5 and now' = 7]
  moreover have "evaluate sample_run 5 sample_condition = Inr (VBool False)" "\<not> is_truthy (VBool False)" by code_simp+
  ultimately show ?thesis using p by (auto split: sum.splits)
qed

subsection \<open>Templates\<close>

text \<open>What a planned template renders to.\<close>

fun render :: "ctx \<Rightarrow> planned_template_part list \<Rightarrow> eval_error + ustr" where
  "render c [] = Inr []"
| "render c (PlannedLiteral l # ps) = rbind (render c ps) (\<lambda>s. Inr (l @ s))"
| "render c (PlannedStatic t # ps) = rbind (render c ps) (\<lambda>s. Inr (t @ s))"
| "render c (PlannedDeferred src e ds # ps) = (case ideal c e of
     Inl x \<Rightarrow> Inl (Format (ArgumentEvaluation x))
   | Inr v \<Rightarrow> rbind (render c ps) (\<lambda>s. Inr (to_display_string v @ s)))"

lemma format_literal:
  "ideal_format vals (escape_format_braces l @ pat) = rbind (ideal_format vals pat) (\<lambda>s. Inr (l @ s))"
proof (induction l)
  case Nil
  show ?case by (cases "ideal_format vals pat") (simp_all add: escape_format_braces_def)
next
  case (Cons x l)
  have "next_format_token (length vals) (escape_format_braces (x # l) @ pat) =
      Inr (Some (Literal x, escape_format_braces l @ pat))"
    by (simp add: escape_format_braces_def next_format_token_def)
  then show ?case
    by (subst ideal_format.simps) (simp add: Cons.IH rbind_assoc)
qed

lemma format_placeholder:
  assumes "idx < length vals" "idx \<le> usize_max"
  shows "ideal_format vals ([lbrace] @ dec_string idx @ [rbrace] @ pat) = (case vals ! idx of
     Inl e \<Rightarrow> Inl (Format (ArgumentEvaluation e))
   | Inr v \<Rightarrow> rbind (ideal_format vals pat) (\<lambda>s. Inr (to_display_string v @ s)))"
proof -
  have digits: "takeWhile is_ascii_digit (dec_string idx @ rbrace # pat) = dec_string idx"
    "dropWhile is_ascii_digit (dec_string idx @ rbrace # pat) = rbrace # pat"
    using dec_string_digits [of _ idx]
    by (simp_all add: takeWhile_append2 dropWhile_append2 is_ascii_digit_def)
  have "hd (dec_string idx) \<noteq> lbrace"
    using dec_string_digits [of "hd (dec_string idx)" idx] by (auto simp: is_ascii_digit_def)
  then have "next_format_token (length vals) (lbrace # dec_string idx @ rbrace # pat) =
      Inr (Some (Placeholder idx [], pat))"
    using assms digits
    by (simp add: next_format_token_def scan_placeholder_def Let_def parse_usize_def hd_append)
  then show ?thesis
    by (subst ideal_format.simps) (simp split: sum.splits)
qed

lemma residual_renders:
  assumes "residual_parts ps idx = (pat, es, shown, ds)" "length pre = idx" "idx + length es \<le> usize_max"
  shows "ideal_format (pre @ map (ideal c) es) pat = render c ps"
  using assms
proof (induction ps idx arbitrary: pat es shown ds pre rule: residual_parts.induct)
  case (1 idx)
  then show ?case by (subst ideal_format.simps) (simp add: next_format_token_def)
next
  case (2 l ps idx)
  then show ?case
    by (auto simp: Let_def format_literal split: prod.splits)
next
  case (3 t ps idx)
  obtain pat' es' shown' ds' where r: "residual_parts ps (idx + 1) = (pat', es', shown', ds')"
    by (cases "residual_parts ps (idx + 1)") auto
  with 3 have eq: "pat = [lbrace] @ dec_string idx @ [rbrace] @ pat'" "es = EStr t # es'" by auto
  have "ideal_format ((pre @ [Inr (VString t)]) @ map (ideal c) es') pat' = render c ps"
    using "3.IH" [OF r, of "pre @ [Inr (VString t)]"] "3.prems"(2,3) eq by simp
  with format_placeholder [of idx "pre @ map (ideal c) es" pat'] "3.prems"(2,3) eq show ?case
    by (simp add: nth_append)
next
  case (4 src e d ps idx)
  obtain pat' es' shown' ds' where r: "residual_parts ps (idx + 1) = (pat', es', shown', ds')"
    by (cases "residual_parts ps (idx + 1)") auto
  with 4 have eq: "pat = [lbrace] @ dec_string idx @ [rbrace] @ pat'" "es = e # es'" by auto
  have "ideal_format ((pre @ [ideal c e]) @ map (ideal c) es') pat' = render c ps"
    using "4.IH" [OF r, of "pre @ [ideal c e]"] "4.prems"(2,3) eq by simp
  with format_placeholder [of idx "pre @ map (ideal c) es" pat'] "4.prems"(2,3) eq show ?case
    by (simp add: nth_append split: sum.splits)
qed

text \<open>Every placeholder of a template is in the fragment.\<close>

definition part_ok :: "fold_ctx \<Rightarrow> template_part \<Rightarrow> bool" where
  "part_ok fc p = (case p of PartLiteral _ \<Rightarrow> True
     | PartPlaceholder src \<Rightarrow> (case parse src of Inl _ \<Rightarrow> True | Inr e \<Rightarrow> scalar_expression fc e))"

lemma planned_parts_render:
  assumes "list_all (part_ok fc) ps" "run_context fc c" "plan_parts fc ps spent rc = Inr (planned, rc')"
    and "evaluate_parts ps c now spent' = Inr out"
  shows "answered (render c planned) = Some out \<and>
    (\<forall>x \<in> set planned. \<forall>src r ds. x = PlannedDeferred src r ds \<longrightarrow> creates_nothing r)"
  using assms
proof (induction fc ps spent arbitrary: planned rc rc' spent' out rule: plan_parts.induct)
  case (1 fc spent)
  then show ?case by simp
next
  case (2 fc l ps spent)
  then show ?case
    by (fastforce simp: pbind_apply rbind_eq_Inr answered_rbind)
next
  case (3 fc src ps spent)
  from "3.prems"(4) obtain e v b out' where e: "parse src = Inr e" and v: "evaluate c now e = Inr v"
    and rest: "evaluate_parts ps c now b = Inr out'" and out: "out = to_display_string v @ out'"
    by (auto simp: rbind_eq_Inr split: sum.splits)
  have ok: "scalar_expression fc e" using "3.prems"(1) e by (simp add: part_ok_def)
  note mok = parsed_meaning_ok [OF e ok "3.prems"(2)]
  have ideal: "answered (ideal c e) = Some v"
    using evaluate_answer(1) [OF _ _ v] ok "3.prems"(2) by (simp add: scalar_expression_def run_context_def)
  obtain f rc1 where f: "fold_expr fc e rc = Inr (f, rc1)" and k: "(case f of
       FValue v \<Rightarrow> pbind (plift (add_argument (to_display_string v) spent)) (\<lambda>b.
         pbind (plan_parts fc ps b) (\<lambda>rest. preturn (PlannedStatic (to_display_string v) # rest)))
     | FResidual r ds \<Rightarrow> pbind (plan_parts fc ps spent) (\<lambda>rest. preturn (PlannedDeferred src r ds # rest))) rc1 =
       Inr (planned, rc')"
    using "3.prems"(3) e by (auto elim: pbindE)
  note means = folded_answer [OF mok f "3.prems"(2)]
  have all: "list_all (part_ok fc) ps" using "3.prems"(1) by simp
  show ?case
  proof (cases f)
    case (FValue w)
    with k obtain b' rest' where "plan_parts fc ps b' rc1 = Inr (rest', rc')"
      and planned: "planned = PlannedStatic (to_display_string w) # rest'"
      by (auto simp: pbind_apply)
    from "3.IH"(1) [OF e all "3.prems"(2) this(1) rest] planned means ideal FValue out show ?thesis
      by (auto simp: answered_rbind)
  next
    case (FResidual r ds)
    with k obtain rest' where "plan_parts fc ps spent rc1 = Inr (rest', rc')"
      and planned: "planned = PlannedDeferred src r ds # rest'"
      by (auto simp: pbind_apply)
    from "3.IH"(2) [OF e all "3.prems"(2) this(1) rest] planned means ideal FResidual out show ?thesis
      by (auto simp: answered_rbind)
  qed
qed

lemma residual_parts_length:
  "residual_parts ps idx = (pat, es, shown, ds) \<Longrightarrow> length es \<le> length ps"
  by (induction ps idx arbitrary: pat es shown ds rule: residual_parts.induct)
     (fastforce simp: Let_def split: prod.splits)+

lemma residual_parts_creates:
  "residual_parts ps idx = (pat, es, shown, ds) \<Longrightarrow>
   \<forall>x \<in> set ps. \<forall>src r d. x = PlannedDeferred src r d \<longrightarrow> creates_nothing r \<Longrightarrow> list_all creates_nothing es"
  by (induction ps idx arbitrary: pat es shown ds rule: residual_parts.induct)
     (fastforce simp: Let_def split: prod.splits)+

lemma plan_parts_length: "plan_parts fc ps spent rc = Inr (planned, rc') \<Longrightarrow> length planned = length ps"
proof (induction fc ps spent arbitrary: planned rc rc' rule: plan_parts.induct)
  case (3 fc src ps spent)
  then obtain e f rc1 where e: "parse src = Inr e" and k: "(case f of
       FValue v \<Rightarrow> pbind (plift (add_argument (to_display_string v) spent)) (\<lambda>b.
         pbind (plan_parts fc ps b) (\<lambda>rest. preturn (PlannedStatic (to_display_string v) # rest)))
     | FResidual r ds \<Rightarrow> pbind (plan_parts fc ps spent) (\<lambda>rest. preturn (PlannedDeferred src r ds # rest))) rc1 =
       Inr (planned, rc')"
    by (auto elim!: pbindE split: sum.splits)
  with "3.IH" [OF e] show ?case by (cases f) (auto simp: pbind_apply)
qed (auto simp: pbind_apply)

lemma render_static: "\<not> list_ex is_deferred_part planned \<Longrightarrow> render c planned = Inr (concat (map static_text planned))"
  by (induction c planned rule: render.induct) simp_all

text \<open>Resolving a plan whose residual has a value renders that value, or runs out of resources.\<close>

lemma resolve_deferred:
  assumes "pl_evaluation p = Deferred (deferred_of e shown ds)" "creates_nothing e" "unfiltered_context c"
    and "answered (ideal c e) = Some v"
  shows "case resolve_string p c now of Inr s \<Rightarrow> s = to_display_string v | Inl x \<Rightarrow> out_of_resources x"
proof -
  have "resolve_string p c now = rbind (evaluate c now e) (\<lambda>v. Inr (to_display_string v))"
    using assms(1) by (simp add: resolve_string_def deferred_of_def)
  with evaluate_ideal [OF assms(2,3), of now] assms(4) show ?thesis by (auto split: sum.splits)
qed

lemma single_template_answer:
  assumes "split_template raw = [PartPlaceholder src]" "part_ok fc (PartPlaceholder src)" "run_context fc c"
    and "fold_template fc raw rc = Inr (t, rc')" "evaluate_template raw c now = Inr v"
  shows "case t of TemplateStatic w \<Rightarrow> w = v
    | TemplateDeferred r shown ds \<Rightarrow> creates_nothing r \<and> answered (ideal c r) = Some v"
proof -
  from assms(1,5) obtain e where e: "parse src = Inr e" and v: "evaluate c now e = Inr v"
    by (auto simp: evaluate_template_def Let_def is_placeholder_def split: sum.splits)
  have ok: "scalar_expression fc e" using assms(2) e by (simp add: part_ok_def)
  have ideal: "answered (ideal c e) = Some v"
    using evaluate_answer(1) [OF _ _ v] ok assms(3) by (simp add: scalar_expression_def run_context_def)
  obtain f where f: "fold_expr fc e rc = Inr (f, rc')" and t: "t = (case f of
          FValue v \<Rightarrow> TemplateStatic v | FResidual r ds \<Rightarrow> TemplateDeferred r (pretty_print r) ds)"
    using assms(1,4) e by (auto simp: fold_template_def Let_def is_placeholder_def pbind_apply)
  from folded_answer [OF parsed_meaning_ok [OF e ok assms(3)] f assms(3)] ideal t show ?thesis
    by (cases f) auto
qed

lemma format_call_answer:
  assumes "residual_parts planned 0 = (pat, es, shown, ds)" "length planned < 255" "answered (render c planned) = Some out"
  shows "answered (ideal c (ECall (lit ''format'') (EStr pat # es))) = Some (VString out)"
proof -
  have small: "length es < 255" using residual_parts_length [OF assms(1)] assms(2) by simp
  then have "ideal_format (map (ideal c) es) pat = Inr out"
    using residual_renders [OF assms(1), of "[]" c] assms(3) by (simp add: usize_max_def)
  moreover have "lookup_arity (lit ''format'') = Some (arity_of 1 255 ''1-255'')" by code_simp
  ultimately show ?thesis
    using small by (simp add: ideal_call_def ideal_body_def to_ascii_lowercase_def lit_def ascii_lower_def)
qed

lemma mixed_template_answer:
  assumes "list_ex is_placeholder (split_template raw)" "\<And>src. split_template raw \<noteq> [PartPlaceholder src]"
    and "list_all (part_ok fc) (split_template raw)" "length (split_template raw) < 255" "run_context fc c"
    and "fold_template fc raw rc = Inr (t, rc')" "evaluate_template raw c now = Inr v"
  shows "case t of TemplateStatic w \<Rightarrow> w = v
    | TemplateDeferred r shown ds \<Rightarrow> creates_nothing r \<and> answered (ideal c r) = Some v"
proof -
  let ?parts = "split_template raw"
  have shape: "(case ?parts of [PartPlaceholder src] \<Rightarrow> A src | _ \<Rightarrow> B) = B" for A :: "ustr \<Rightarrow> 'x" and B
    using assms(2) by (auto split: list.splits template_part.splits)
  obtain out where out: "evaluate_parts ?parts c now 0 = Inr out" and v: "v = VString out"
    using assms(1,7) by (auto simp: evaluate_template_def Let_def shape rbind_eq_Inr)
  obtain planned where planned: "plan_parts fc ?parts 0 rc = Inr (planned, rc')"
    and t: "t = (if \<not> list_ex is_deferred_part planned
        then TemplateStatic (VString (concat (map static_text planned)))
        else (let (pat, es, shown, ds) = residual_parts planned 0 in
          TemplateDeferred (ECall (lit ''format'') (EStr pat # es)) shown ds))"
    using assms(1,6) by (auto simp: fold_template_def Let_def shape pbind_apply)
  note rend = planned_parts_render [OF assms(3,5) planned out]
  obtain pat es shown ds where r: "residual_parts planned 0 = (pat, es, shown, ds)"
    by (cases "residual_parts planned 0") auto
  have "creates_nothing (ECall (lit ''format'') (EStr pat # es))"
    using residual_parts_creates [OF r conjunct2 [OF rend]]
    by (simp add: list_all_map_id to_ascii_lowercase_def lit_def ascii_lower_def)
  with format_call_answer [OF r _ conjunct1 [OF rend]] plan_parts_length [OF planned] assms(4) rend t v r
  show ?thesis by (auto simp: render_static)
qed

text \<open>
  C6: planning and executing a template renders what evaluating it would. For a template of fewer
  than 255 parts whose placeholders are in the fragment, and a run-time context that agrees with what
  the planner knew: if evaluating the template as written gives a value, resolving its plan gives the
  text of that value or fails for memory or depth, whether the planner rendered it at once, kept a
  single expression, or rebuilt the template as a call of \<open>format\<close> with escaped braces.
\<close>

theorem planned_template_renders_as_written:
  assumes "list_all (part_ok fc) (split_template raw)" "length (split_template raw) < 255" "run_context fc c"
    and "plan_template_string raw sp fc rc = Inr (p, rc')" "evaluate_template raw c now = Inr v"
  shows "case resolve_string p c now' of Inr s \<Rightarrow> s = to_display_string v | Inl x \<Rightarrow> out_of_resources x"
proof -
  let ?parts = "split_template raw"
  obtain t where t: "fold_template fc raw rc = Inr (t, rc')" and p: "pl_evaluation p = (case t of
        TemplateStatic w \<Rightarrow> Static (to_display_string w)
      | TemplateDeferred e shown ds \<Rightarrow> Deferred (deferred_of e shown ds))"
    using assms(4) by (auto simp: plan_template_string_def pbind_apply)
  have c: "unfiltered_context c" using assms(3) by (simp add: run_context_def)
  consider (plain) "\<not> list_ex is_placeholder ?parts" | (single) src where "?parts = [PartPlaceholder src]"
    | (mixed) "list_ex is_placeholder ?parts" "\<And>src. ?parts \<noteq> [PartPlaceholder src]" by blast
  then have "case t of TemplateStatic w \<Rightarrow> w = v
    | TemplateDeferred r shown ds \<Rightarrow> creates_nothing r \<and> answered (ideal c r) = Some v"
  proof cases
    case plain
    with t assms(5) show ?thesis by (auto simp: fold_template_def evaluate_template_def Let_def)
  next
    case single
    with assms(1) single_template_answer [OF single _ assms(3) t assms(5)] show ?thesis by simp
  next
    case mixed
    from mixed_template_answer [OF mixed assms(1-3) t assms(5)] show ?thesis .
  qed
  with p resolve_deferred [OF _ _ c, where now = now'] show ?thesis
    by (cases t) (fastforce simp: resolve_string_def)+
qed

definition sample_template :: ustr where
  "sample_template = lit ''{${{ github.ref }}} on ${{ runner.os }}/${{ env.A }}''"

theorem planned_template_renders_as_written_witness:
  "\<exists>p rc'. plan_template_string sample_template sample_span sample_fold_ctx 1000 = Inr (p, rc') \<and>
     (case resolve_string p sample_run 7 of Inr s \<Rightarrow> s = lit ''{main} on Linux/1'' | Inl x \<Rightarrow> out_of_resources x)"
proof -
  have "(case plan_template_string sample_template sample_span sample_fold_ctx 1000 of Inr _ \<Rightarrow> True | _ \<Rightarrow> False)"
    by code_simp
  then obtain p rc' where p: "plan_template_string sample_template sample_span sample_fold_ctx 1000 = Inr (p, rc')"
    by (auto split: sum.splits)
  have parts: "list_all (part_ok sample_fold_ctx) (split_template sample_template)"
    "length (split_template sample_template) < 255" by code_simp+
  have "evaluate_template sample_template sample_run 5 = Inr (VString (lit ''{main} on Linux/1''))"
    "to_display_string (VString (lit ''{main} on Linux/1'')) = lit ''{main} on Linux/1''" by code_simp+
  from planned_template_renders_as_written [OF parts sample_run_context p this(1), where now' = 7] this(2) p
  show ?thesis by (auto split: sum.splits)
qed

section \<open>Where planning and running part\<close>

text \<open>
  A folded array or object is printed as the literal string of its type, and the residual that
  carries it is evaluated at run time: \<open>contains\<close> searches the word instead of the array.
\<close>

definition array_search :: expr where
  "array_search = ECall (lit ''contains'') [ECall (lit ''fromJSON'') [EStr (lit ''['' @ [34] @ lit ''Linux'' @ [34] @ lit '']'')],
     EIndex (ENamedValue (lit ''runner'')) (EStr (lit ''os''))]"

lemma folded_array_is_lost:
  "\<exists>ds rc. fold_expr sample_fold_ctx array_search 1000 = Inr (FResidual (ECall (lit ''contains'')
     [EStr (lit ''Array''), EIndex (ENamedValue (lit ''runner'')) (EStr (lit ''os''))]) ds, rc)"
  "evaluate sample_run 5 array_search = Inr (VBool True)"
  "evaluate sample_run 5 (ECall (lit ''contains'')
     [EStr (lit ''Array''), EIndex (ENamedValue (lit ''runner'')) (EStr (lit ''os''))]) = Inr (VBool False)"
proof -
  have "(case fold_expr sample_fold_ctx array_search 1000 of Inr (FResidual r ds, _) \<Rightarrow> r = ECall (lit ''contains'')
      [EStr (lit ''Array''), EIndex (ENamedValue (lit ''runner'')) (EStr (lit ''os''))] | _ \<Rightarrow> False)"
    by code_simp
  then show "\<exists>ds rc. fold_expr sample_fold_ctx array_search 1000 = Inr (FResidual (ECall (lit ''contains'')
     [EStr (lit ''Array''), EIndex (ENamedValue (lit ''runner'')) (EStr (lit ''os''))]) ds, rc)"
    by (auto split: sum.splits folded.splits)
qed code_simp+

text \<open>
  When the first argument of \<open>contains\<close> or \<open>join\<close> decides whether the second is read, the fold
  evaluates the call over the printed argument: an object becomes the word \<open>Object\<close>, which contains
  the empty text.
\<close>

lemma guarded_call_misreads_collections:
  "(case fold_expr sample_fold_ctx (ECall (lit ''contains'') [ECall (lit ''fromJSON'') [EStr (lit ''{}'')],
      EIndex (ENamedValue (lit ''runner'')) (EStr (lit ''os''))]) 1000 of
     Inr (FValue (VBool b), _) \<Rightarrow> b | _ \<Rightarrow> False)"
  "evaluate sample_run 5 (ECall (lit ''contains'') [ECall (lit ''fromJSON'') [EStr (lit ''{}'')],
      EIndex (ENamedValue (lit ''runner'')) (EStr (lit ''os''))]) = Inr (VBool False)"
  by code_simp+

text \<open>The whole \<open>env\<close> context counts as known although one of its entries waits for the runner.\<close>

lemma whole_env_is_taken_as_known:
  "(case fold_expr sample_fold_ctx (ECall (lit ''toJSON'') [ENamedValue (lit ''env'')]) 1000 of
     Inr (FValue _, _) \<Rightarrow> True | _ \<Rightarrow> False)"
  "(case fold_expr sample_fold_ctx (EIndex (ENamedValue (lit ''env'')) (EStr (lit ''B''))) 1000 of
     Inr (FResidual _ ds, _) \<Rightarrow> ds = {RunnerContext} | _ \<Rightarrow> False)"
  by code_simp+

text \<open>The right operand of \<open>&&\<close> is analysed even when the left one waits, and its error stops the plan.\<close>

lemma unreached_operand_stops_the_plan:
  "(case fold_expr sample_fold_ctx (EBinary And (EBinary Eq (EIndex (ENamedValue (lit ''runner'')) (EStr (lit ''os'')))
      (EStr (lit ''none''))) (EIndex (ENamedValue (lit ''github''))
        (ECall (lit ''fromJSON'') [EIndex (ENamedValue (lit ''github'')) (EStr (lit ''ref''))]))) 1000 of
     Inl _ \<Rightarrow> True | _ \<Rightarrow> False)"
  "evaluate sample_run 5 (EBinary And (EBinary Eq (EIndex (ENamedValue (lit ''runner'')) (EStr (lit ''os'')))
      (EStr (lit ''none''))) (EIndex (ENamedValue (lit ''github''))
        (ECall (lit ''fromJSON'') [EIndex (ENamedValue (lit ''github'')) (EStr (lit ''ref''))]))) = Inr (VBool False)"
  by code_simp+

end
