(* ===== verification/Env_Chain.thy ===== *)
theory Env_Chain
  imports Plan_Fields
begin

text \<open>
  The environment the planner knows, layer by layer (\<open>greenlit-engine/src/partial_eval/env.rs\<close>).
  A layer is folded against the layers outside it; replacing a key leaves a tombstone in the vector
  of entries and appends the new value, with an index of the positions. The chain is proved to
  refine a map from names to values or reasons, in which the innermost layer that defines a name
  decides it.
\<close>

section \<open>Layers\<close>

type_synonym env_layer = "(ustr \<times> span \<times> scalar_or_expr) list"

record located_eval_error =
  le_span :: span
  le_source :: partial_eval_error

definition env_chain_empty :: "casing \<Rightarrow> nat \<Rightarrow> env_chain" where
  "env_chain_empty up rc = \<lparr>ec_resolved = object_new up rc [] True, ec_deferred = Map.empty,
     ec_runtime_mutable = False, ec_stable_overrides = {}\<rparr>"

definition after_executable_step :: "env_chain \<Rightarrow> env_chain" where
  "after_executable_step ec = ec\<lparr>ec_runtime_mutable := True, ec_stable_overrides := {}\<rparr>"

fun fold_layer :: "fold_ctx \<Rightarrow> env_layer \<Rightarrow> nat \<Rightarrow> located_eval_error + (ustr \<times> folded) list \<times> nat" where
  "fold_layer fc [] rc = Inr ([], rc)"
| "fold_layer fc ((name, sp, v) # rest) rc = (case fold_scalar_or_expr v fc rc of
     Inl e \<Rightarrow> Inl \<lparr>le_span = sp, le_source = e\<rparr>
   | Inr (f, rc') \<Rightarrow> rbind (fold_layer fc rest rc') (\<lambda>(fs, rc''). Inr ((name, f) # fs, rc'')))"

text \<open>\<open>into_iter().flatten()\<close> on a vector of options.\<close>

fun present :: "'a option list \<Rightarrow> 'a list" where
  "present [] = []"
| "present (None # xs) = present xs"
| "present (Some x # xs) = x # present xs"

record layering =
  ly_entries :: "(ustr \<times> expr_value) option list"
  ly_positions :: "ustr \<rightharpoonup> nat"
  ly_deferred :: "ustr \<rightharpoonup> defer_reason set"
  ly_stable :: "ustr set"

definition forget_position :: "ustr \<Rightarrow> layering \<Rightarrow> layering" where
  "forget_position name s = (case ly_positions s name of
     None \<Rightarrow> s
   | Some i \<Rightarrow> s\<lparr>ly_entries := (ly_entries s)[i := None], ly_positions := (ly_positions s)(name := None)\<rparr>)"

definition layer_step :: "bool \<Rightarrow> ustr \<times> folded \<Rightarrow> layering \<Rightarrow> layering" where
  "layer_step stable_overrides entry s = (let name = fst entry;
       s = (forget_position name s)\<lparr>ly_deferred := (ly_deferred s)(name := None), ly_stable := ly_stable s - {name}\<rparr>;
       s = (case snd entry of
         FValue v \<Rightarrow> s\<lparr>ly_positions := (ly_positions s)(name \<mapsto> length (ly_entries s)),
                      ly_entries := ly_entries s @ [Some (name, VString (to_display_string v))]\<rparr>
       | FResidual e ds \<Rightarrow> s\<lparr>ly_deferred := (ly_deferred s)(name \<mapsto> ds)\<rparr>)
     in if stable_overrides then s\<lparr>ly_stable := insert name (ly_stable s)\<rparr> else s)"

definition object_entries_of :: "expr_value \<Rightarrow> (ustr \<times> expr_value) list" where
  "object_entries_of v = (case v of VObject _ es _ _ \<Rightarrow> es | _ \<Rightarrow> [])"

text \<open>The index of an entry vector; a later entry of the same name would win.\<close>

definition positions_of :: "(ustr \<times> expr_value) list \<Rightarrow> ustr \<rightharpoonup> nat" where
  "positions_of es = map_of (rev (zip (map fst es) [0..<length es]))"

definition layering_of :: "env_chain \<Rightarrow> layering" where
  "layering_of outer = (let es = object_entries_of (ec_resolved outer) in
     \<lparr>ly_entries = map Some es, ly_positions = positions_of es, ly_deferred = ec_deferred outer,
      ly_stable = ec_stable_overrides outer\<rparr>)"

definition extend_env_chain :: "fold_ctx \<Rightarrow> env_layer \<Rightarrow> bool \<Rightarrow> nat \<Rightarrow> located_eval_error + env_chain \<times> nat" where
  "extend_env_chain fc layer stable_overrides rc = (let outer = fc_env fc in
     if layer = [] then Inr (outer, rc)
     else rbind (fold_layer (fc\<lparr>fc_secrets_forbidden := False\<rparr>) layer rc) (\<lambda>(fs, rc').
       let s = fold (layer_step stable_overrides) fs (layering_of outer) in
       Inr (\<lparr>ec_resolved = object_new (fc_upper fc) rc' (present (ly_entries s)) True,
             ec_deferred = ly_deferred s, ec_runtime_mutable = ec_runtime_mutable outer,
             ec_stable_overrides = ly_stable s\<rparr>, rc' + 1)))"

text \<open>\<open>build_env_chain\<close>: every layer is evaluated against the chain of the layers outside it.\<close>

fun extend_all :: "fold_ctx \<Rightarrow> env_layer list \<Rightarrow> nat \<Rightarrow> located_eval_error + env_chain \<times> nat" where
  "extend_all fc [] rc = Inr (fc_env fc, rc)"
| "extend_all fc (l # ls) rc = rbind (extend_env_chain fc l False rc) (\<lambda>(ec, rc').
     extend_all (fc\<lparr>fc_env := ec\<rparr>) ls rc')"

definition build_env_chain :: "fold_ctx \<Rightarrow> env_layer list \<Rightarrow> nat \<Rightarrow> located_eval_error + env_chain \<times> nat" where
  "build_env_chain fc layers rc =
     extend_all (fc\<lparr>fc_env := env_chain_empty (fc_upper fc) rc\<rparr>) layers (rc + 1)"

section \<open>The map it stands for\<close>

datatype env_entry = Known ustr | Waits "defer_reason set"

definition entry_of :: "folded \<Rightarrow> env_entry" where
  "entry_of f = (case f of FValue v \<Rightarrow> Known (to_display_string v) | FResidual _ ds \<Rightarrow> Waits ds)"

definition known_text :: "expr_value \<Rightarrow> env_entry" where
  "known_text v = Known (to_display_string v)"

definition chain_map :: "env_chain \<Rightarrow> ustr \<rightharpoonup> env_entry" where
  "chain_map ec name = (case ec_deferred ec name of
     Some ds \<Rightarrow> Some (Waits ds)
   | None \<Rightarrow> map_option known_text (map_of (object_entries_of (ec_resolved ec)) name))"

definition chain_ok :: "casing \<Rightarrow> env_chain \<Rightarrow> bool" where
  "chain_ok up ec \<longleftrightarrow> (\<exists>rc es. ec_resolved ec = object_new up rc es True \<and> distinct (map fst es)) \<and>
     (\<forall>name. ec_deferred ec name \<noteq> None \<longrightarrow> name \<notin> fst ` set (object_entries_of (ec_resolved ec)))"

definition live :: "layering \<Rightarrow> (ustr \<times> expr_value) list" where
  "live s = present (ly_entries s)"

definition layering_ok :: "layering \<Rightarrow> bool" where
  "layering_ok s \<longleftrightarrow> distinct (map fst (live s)) \<and>
     (\<forall>n i. ly_positions s n = Some i \<longleftrightarrow> i < length (ly_entries s) \<and> (\<exists>v. ly_entries s ! i = Some (n, v))) \<and>
     (\<forall>n. ly_deferred s n \<noteq> None \<longrightarrow> n \<notin> fst ` set (live s))"

definition layering_map :: "layering \<Rightarrow> ustr \<rightharpoonup> env_entry" where
  "layering_map s name = (case ly_deferred s name of
     Some ds \<Rightarrow> Some (Waits ds) | None \<Rightarrow> map_option known_text (map_of (live s) name))"

lemma sensitive_entries:
  assumes "distinct (map fst es)"
  shows "object_entries_of (object_new up rc es True) = es"
proof -
  have canon: "canonical up True xs = xs" for xs :: "(ustr \<times> expr_value) list"
    by (induction xs) (auto simp: canonical_def lookup_key_def)
  have put: "im.put_all es m = m @ es" if "distinct (map fst (m @ es))" for m
    using that
  proof (induction es arbitrary: m)
    case (Cons e es)
    then show ?case by (cases e) (simp add: im.put_all_Cons im_insert_fresh im_keys_def)
  qed (simp add: im.put_all_Nil)
  have "fst (object_entries up True es) = es"
    using object_entries_ok(2) [of up True es] canon put [of "[]"] assms by simp
  then show ?thesis by (simp add: object_entries_of_def object_new_def split_beta)
qed

lemma present_append [simp]: "present (xs @ ys) = present xs @ present ys"
  by (induction xs rule: present.induct) auto

lemma present_map_Some [simp]: "present (map Some xs) = xs"
  by (induction xs) auto

lemma set_present: "set (present xs) = {x. Some x \<in> set xs}"
  by (induction xs rule: present.induct) auto

lemma present_update:
  assumes "i < length xs" "xs ! i = Some (n, v)" "distinct (map fst (present xs))"
  shows "present (xs[i := None]) = filter (\<lambda>e. fst e \<noteq> n) (present xs)"
  using assms
proof (induction xs arbitrary: i rule: present.induct)
  case (2 xs)
  then show ?case by (cases i) auto
next
  case (3 x xs)
  show ?case
  proof (cases i)
    case 0
    with "3.prems" have x: "x = (n, v)" "n \<notin> fst ` set (present xs)" by auto
    then have "filter (\<lambda>e. fst e \<noteq> n) (present xs) = present xs"
      by (force simp: filter_id_conv)
    with x 0 show ?thesis by simp
  next
    case (Suc j)
    with "3.prems" have "(n, v) \<in> set (present xs)" by (auto simp: set_present in_set_conv_nth)
    with "3.prems"(3) have "fst x \<noteq> n" by (cases x) (auto simp: rev_image_eqI)
    with "3.IH" [of j] "3.prems" Suc show ?thesis by simp
  qed
qed simp

lemma forget_position_ok:
  assumes "layering_ok s"
  shows "layering_ok (forget_position n s)" "live (forget_position n s) = filter (\<lambda>e. fst e \<noteq> n) (live s)"
    "ly_deferred (forget_position n s) = ly_deferred s" "ly_stable (forget_position n s) = ly_stable s"
proof -
  have pos: "ly_positions s m = Some i \<longleftrightarrow> i < length (ly_entries s) \<and> (\<exists>v. ly_entries s ! i = Some (m, v))" for m i
    using assms by (simp add: layering_ok_def)
  show live: "live (forget_position n s) = filter (\<lambda>e. fst e \<noteq> n) (live s)"
  proof (cases "ly_positions s n")
    case None
    have "n \<notin> fst ` set (live s)"
    proof
      assume "n \<in> fst ` set (live s)"
      then obtain i v where "i < length (ly_entries s)" "ly_entries s ! i = Some (n, v)"
        by (auto simp: live_def set_present in_set_conv_nth)
      with pos [of n i] None show False by simp
    qed
    then have "filter (\<lambda>e. fst e \<noteq> n) (live s) = live s" by (auto simp: filter_id_conv)
    then show ?thesis using None by (simp add: forget_position_def)
  next
    case (Some i)
    with pos obtain v where "i < length (ly_entries s)" "ly_entries s ! i = Some (n, v)" by blast
    then have "present ((ly_entries s)[i := None]) = filter (\<lambda>e. fst e \<noteq> n) (live s)"
      using assms by (simp add: live_def layering_ok_def present_update)
    then show ?thesis using Some by (simp add: forget_position_def live_def)
  qed
  have "distinct (map fst (filter (\<lambda>e. fst e \<noteq> n) (live s)))"
    using assms by (simp add: layering_ok_def distinct_map_filter)
  moreover have "ly_positions (forget_position n s) m = Some i \<longleftrightarrow>
      i < length (ly_entries (forget_position n s)) \<and> (\<exists>v. ly_entries (forget_position n s) ! i = Some (m, v))" for m i
    using pos [of m i] pos [of n i]
    by (auto simp: forget_position_def nth_list_update split: option.splits if_splits)
  moreover show "ly_deferred (forget_position n s) = ly_deferred s" "ly_stable (forget_position n s) = ly_stable s"
    by (simp_all add: forget_position_def split: option.splits)
  ultimately show "layering_ok (forget_position n s)"
    unfolding layering_ok_def live using assms by (auto simp: layering_ok_def)
qed

lemma map_of_filter_other:
  "map_of (filter (\<lambda>e. fst e \<noteq> n) es) m = (if m = n then None else map_of es m)"
  by (induction es) auto

lemma layer_step_ok:
  assumes "layering_ok s"
  shows "layering_ok (layer_step b (n, f) s) \<and>
    layering_map (layer_step b (n, f) s) = (layering_map s)(n \<mapsto> entry_of f)"
proof -
  let ?s = "forget_position n s"
  note forget = forget_position_ok [OF assms, of n]
  have map: "map_of (live ?s) m = (if m = n then None else map_of (live s) m)" for m
    by (simp add: forget(2) map_of_filter_other)
  have absent: "n \<notin> fst ` set (live ?s)" by (auto simp: forget(2))
  have waits: "ly_deferred s m \<noteq> None \<Longrightarrow> m \<notin> fst ` set (live ?s)" for m
    using assms by (auto simp: layering_ok_def forget(2))
  have noidx: "ly_entries ?s ! i \<noteq> Some (n, v)" if "i < length (ly_entries ?s)" for i v
    using absent that by (force simp: live_def set_present in_set_conv_nth)
  show ?thesis
  proof (cases f)
    case (FValue v)
    have "layering_ok (layer_step b (n, f) s)"
      using forget(1) absent waits noidx
      by (auto simp: layering_ok_def layer_step_def FValue live_def Let_def nth_append less_Suc_eq
          split: if_splits)
    moreover have "layering_map (layer_step b (n, f) s) m = ((layering_map s)(n \<mapsto> entry_of f)) m" for m
      using map [of m] absent
      by (auto simp: layering_map_def layer_step_def FValue live_def Let_def entry_of_def known_text_def
          map_add_def map_of_eq_None_iff split: option.splits)
    ultimately show ?thesis by blast
  next
    case (FResidual e ds)
    have "layering_ok (layer_step b (n, f) s)"
      using forget(1) absent waits
      by (auto simp: layering_ok_def layer_step_def FResidual live_def Let_def split: if_splits)
    moreover have "layering_map (layer_step b (n, f) s) m = ((layering_map s)(n \<mapsto> entry_of f)) m" for m
      using map [of m]
      by (auto simp: layering_map_def layer_step_def FResidual live_def Let_def entry_of_def split: option.splits)
    ultimately show ?thesis by blast
  qed
qed

lemma layer_fold_ok:
  "layering_ok s \<Longrightarrow> layering_ok (fold (layer_step b) fs s) \<and>
   layering_map (fold (layer_step b) fs s) = layering_map s ++ map_of (rev (map (\<lambda>(n, f). (n, entry_of f)) fs))"
proof (induction fs arbitrary: s)
  case (Cons x fs)
  obtain n f where x: "x = (n, f)" by (cases x)
  note step = layer_step_ok [OF Cons.prems, of b n f]
  have "layering_map (fold (layer_step b) (x # fs) s) m =
      (layering_map s ++ map_of (rev (map (\<lambda>(n, f). (n, entry_of f)) (x # fs)))) m" for m
    using Cons.IH [of "layer_step b (n, f) s"] step by (simp add: x map_add_def split: option.splits)
  then show ?case using Cons.IH [of "layer_step b (n, f) s"] step by (auto simp: x)
qed simp

lemma positions_of_Some:
  assumes "distinct (map fst es)"
  shows "positions_of es n = Some i \<longleftrightarrow> i < length es \<and> fst (es ! i) = n"
proof -
  have d: "distinct (map fst (rev (zip (map fst es) [0..<length es])))"
    using assms by (simp add: rev_map [symmetric])
  show ?thesis
    unfolding positions_of_def
    using map_of_eq_Some_iff [OF d, of n i] by (auto simp: in_set_zip intro!: exI [of _ i])
qed

text \<open>
  C29: the environment of the planner is the innermost definition of every name. Extending a chain by
  a layer gives a chain whose names stand for what the layer's entries fold to, evaluated against the
  outer chain only and with the last entry of a name deciding, and for the outer chain's meaning
  elsewhere; no name is both known and waiting, and the keys of the known part are distinct, so the
  vector with tombstones and its index of positions refine a plain map.
\<close>

theorem env_layer_decides:
  assumes "chain_ok (fc_upper fc) (fc_env fc)" "extend_env_chain fc layer overriding rc = Inr (ec, rc')"
  shows "chain_ok (fc_upper fc) ec \<and>
    (\<exists>fs rc1. fold_layer (fc\<lparr>fc_secrets_forbidden := False\<rparr>) layer rc = Inr (fs, rc1) \<and>
      chain_map ec = chain_map (fc_env fc) ++ map_of (rev (map (\<lambda>(n, f). (n, entry_of f)) fs)))"
proof (cases "layer = []")
  case True
  with assms show ?thesis by (auto simp: extend_env_chain_def)
next
  case False
  let ?outer = "fc_env fc"
  obtain fs rc1 where fs: "fold_layer (fc\<lparr>fc_secrets_forbidden := False\<rparr>) layer rc = Inr (fs, rc1)"
    and ec: "ec = (let s = fold (layer_step overriding) fs (layering_of ?outer) in
      \<lparr>ec_resolved = object_new (fc_upper fc) rc1 (present (ly_entries s)) True,
       ec_deferred = ly_deferred s, ec_runtime_mutable = ec_runtime_mutable ?outer,
       ec_stable_overrides = ly_stable s\<rparr>)"
    using assms(2) False by (auto simp: extend_env_chain_def Let_def rbind_eq_Inr)
  obtain i es where outer: "ec_resolved ?outer = object_new (fc_upper fc) i es True" "distinct (map fst es)"
    "\<And>n. ec_deferred ?outer n \<noteq> None \<Longrightarrow> n \<notin> fst ` set (object_entries_of (ec_resolved ?outer))"
    using assms(1) unfolding chain_ok_def by blast
  have es: "object_entries_of (ec_resolved ?outer) = es" using outer(1,2) sensitive_entries by simp
  have start: "layering_ok (layering_of ?outer)" "layering_map (layering_of ?outer) = chain_map ?outer"
    using outer(2,3) positions_of_Some [OF outer(2)]
    by (auto simp: layering_ok_def layering_of_def Let_def es live_def layering_map_def chain_map_def fun_eq_iff
        prod_eq_iff split: option.splits)
  let ?s = "fold (layer_step overriding) fs (layering_of ?outer)"
  have s: "layering_ok ?s" "layering_map ?s = chain_map ?outer ++ map_of (rev (map (\<lambda>(n, f). (n, entry_of f)) fs))"
    using layer_fold_ok [OF start(1), of overriding fs] start(2) by simp_all
  have res: "object_entries_of (ec_resolved ec) = live ?s"
    using s(1) by (simp add: ec Let_def sensitive_entries live_def layering_ok_def)
  have "chain_ok (fc_upper fc) ec"
    unfolding chain_ok_def res using s(1) by (auto simp: ec Let_def layering_ok_def live_def)
  moreover have "chain_map ec = layering_map ?s"
    unfolding chain_map_def res layering_map_def by (simp add: ec Let_def)
  ultimately show ?thesis using fs s(2) by auto
qed

text \<open>A layer in which one entry is known, one waits for the runner and one replaces the outer value.\<close>

definition sample_layer :: env_layer where
  "sample_layer = [(lit ''C'', sample_span, ScalarExpression (lit ''${{ github.ref }}'')),
     (lit ''A'', sample_span, ScalarExpression (lit ''on ${{ runner.os }}''))]"

theorem env_layer_decides_witness:
  "\<exists>ec rc'. extend_env_chain sample_fold_ctx sample_layer False 1000 = Inr (ec, rc') \<and> chain_ok ascii_upper ec \<and>
     chain_map ec (lit ''A'') = Some (Waits {RunnerContext}) \<and> chain_map ec (lit ''B'') = Some (Waits {RunnerContext}) \<and>
     chain_map ec (lit ''C'') = Some (Known (lit ''main''))"
proof -
  have "(case extend_env_chain sample_fold_ctx sample_layer False 1000 of Inr _ \<Rightarrow> True | _ \<Rightarrow> False)" by code_simp
  then obtain ec rc' where ec: "extend_env_chain sample_fold_ctx sample_layer False 1000 = Inr (ec, rc')"
    by (auto split: sum.splits)
  have "chain_ok (fc_upper sample_fold_ctx) (fc_env sample_fold_ctx)"
    unfolding chain_ok_def
    by (auto simp: sample_fold_ctx_def sample_env_chain_def sensitive_entries lit_def
        intro!: exI [of _ 105] exI [of _ "[(lit ''A'', VString (lit ''1''))]"])
  from env_layer_decides [OF this ec]
  obtain fs rc1 where layer: "chain_ok (fc_upper sample_fold_ctx) ec"
      "fold_layer (sample_fold_ctx\<lparr>fc_secrets_forbidden := False\<rparr>) sample_layer 1000 = Inr (fs, rc1)"
      "chain_map ec = chain_map sample_env_chain ++ map_of (rev (map (\<lambda>(n, f). (n, entry_of f)) fs))"
    by (auto simp: sample_fold_ctx_def)
  have "(case fold_layer (sample_fold_ctx\<lparr>fc_secrets_forbidden := False\<rparr>) sample_layer 1000 of
      Inr (fs, _) \<Rightarrow> map (\<lambda>(n, f). (n, entry_of f)) fs =
        [(lit ''C'', Known (lit ''main'')), (lit ''A'', Waits {RunnerContext})] | _ \<Rightarrow> False)" by code_simp
  with layer(2) have "map (\<lambda>(n, f). (n, entry_of f)) fs =
      [(lit ''C'', Known (lit ''main'')), (lit ''A'', Waits {RunnerContext})]" by simp
  moreover have "chain_map sample_env_chain (lit ''B'') = Some (Waits {RunnerContext})" by code_simp
  ultimately show ?thesis
    using ec layer(1,3) by (simp add: sample_fold_ctx_def map_add_def lit_def)
qed

end
