(* ===== verification/Workflow_Expr.thy ===== *)
theory Workflow_Expr
  imports Workflow_Model Resolve
begin

text \<open>
  Templates and the availability of contexts (\<open>greenlit-workflow/src/expression.rs\<close>): every
  \<open>${{ }}\<close> of a scalar is parsed when the file is read, and its contexts and special functions are
  checked against the policy of the key it stands at.
\<close>

section \<open>Policies\<close>

datatype expression_policy =
    RunName | WorkflowConcurrency | WorkflowEnv | JobIf | JobStrategy | JobStrategyContext | JobConcurrency
  | JobEnv | JobDefaultsRun | JobOutputs | ContainerPolicy | ContainerCredentials | ContainerEnv | StepPolicy | StepIf

fun contexts :: "expression_policy \<Rightarrow> string list" where
  "contexts RunName = [''github'', ''inputs'', ''vars'']"
| "contexts WorkflowConcurrency = [''github'', ''inputs'', ''vars'']"
| "contexts WorkflowEnv = [''github'', ''secrets'', ''inputs'', ''vars'']"
| "contexts JobIf = [''github'', ''needs'', ''vars'', ''inputs'']"
| "contexts JobStrategy = [''github'', ''needs'', ''vars'', ''inputs'']"
| "contexts JobStrategyContext = [''github'', ''needs'', ''strategy'', ''matrix'', ''vars'', ''inputs'']"
| "contexts JobConcurrency = [''github'', ''needs'', ''strategy'', ''matrix'', ''vars'', ''inputs'']"
| "contexts JobEnv = [''github'', ''needs'', ''strategy'', ''matrix'', ''vars'', ''secrets'', ''inputs'']"
| "contexts JobDefaultsRun = [''github'', ''needs'', ''strategy'', ''matrix'', ''env'', ''vars'', ''inputs'']"
| "contexts JobOutputs = [''github'', ''needs'', ''strategy'', ''matrix'', ''job'', ''runner'', ''env'', ''vars'',
     ''secrets'', ''steps'', ''inputs'']"
| "contexts ContainerPolicy = [''github'', ''needs'', ''strategy'', ''matrix'', ''vars'', ''inputs'']"
| "contexts ContainerCredentials = [''github'', ''needs'', ''strategy'', ''matrix'', ''env'', ''vars'', ''secrets'', ''inputs'']"
| "contexts ContainerEnv = [''github'', ''needs'', ''strategy'', ''matrix'', ''job'', ''runner'', ''env'', ''vars'',
     ''secrets'', ''inputs'']"
| "contexts StepPolicy = [''github'', ''needs'', ''strategy'', ''matrix'', ''job'', ''runner'', ''env'', ''vars'',
     ''secrets'', ''steps'', ''inputs'']"
| "contexts StepIf = [''github'', ''needs'', ''strategy'', ''matrix'', ''job'', ''runner'', ''env'', ''vars'',
     ''steps'', ''inputs'']"

definition allows_hash_files :: "expression_policy \<Rightarrow> bool" where
  "allows_hash_files p \<longleftrightarrow> p = StepPolicy \<or> p = StepIf"

definition allows_status_function :: "expression_policy \<Rightarrow> bool" where
  "allows_status_function p \<longleftrightarrow> p = JobIf \<or> p = StepIf"

section \<open>Templates\<close>

definition parse_body :: "ustr \<Rightarrow> span \<Rightarrow> ustr \<Rightarrow> workflow_error + expr" where
  "parse_body body sp ctxt = (case parse body of
     Inr e \<Rightarrow> Inr e | Inl err \<Rightarrow> Inl (Expression sp ctxt (MessageParse err)))"

text \<open>\<open>find_closing_delimiter\<close> is the scan of the run-time templates (\<open>Resolve\<close>).\<close>

definition single_expression_body :: "ustr \<Rightarrow> ustr option" where
  "single_expression_body txt = (case strip_prefix (lit ''${{'') (trim txt) of
     None \<Rightarrow> None
   | Some after_open \<Rightarrow> (case find_closing False after_open of
       None \<Rightarrow> None
     | Some (body, after) \<Rightarrow> (if trim after = [] then Some (trim body) else None)))"

definition append_runner_format_literal :: "ustr \<Rightarrow> ustr" where
  "append_runner_format_literal literal = concat (map (\<lambda>c.
     if c = 39 then [39, 39] else if c = cp CHR ''{'' \<or> c = cp CHR ''}'' then [c, c] else [c]) literal)"

text \<open>
  The loop of \<open>parse_template\<close>: the expressions, the number of segments, the pattern and the
  arguments of the runner's synthetic \<open>format\<close> call.
\<close>

function template_loop :: "span \<Rightarrow> ustr \<Rightarrow> ustr \<Rightarrow> nat \<Rightarrow> workflow_error + expr list \<times> nat \<times> ustr \<times> ustr" where
  "template_loop sp ctxt rest idx = (case split_once (lit ''${{'') rest of
     None \<Rightarrow> Inr (if rest = [] then ([], 0, [], []) else ([], 1, append_runner_format_literal rest, []))
   | Some (before, after_open) \<Rightarrow> (case find_closing False after_open of
       None \<Rightarrow> Inl (Expression sp ctxt (MessageText (lit ''`${{` is not closed by a quote-aware `}}` delimiter'')))
     | Some (body, after) \<Rightarrow> rbind (parse_body (trim body) sp ctxt) (\<lambda>e.
         rbind (template_loop sp ctxt after (idx + 1)) (\<lambda>(es, n, pat, arguments).
           Inr (e # es, (if before = [] then 1 else 2) + n,
             append_runner_format_literal before @ lit ''{'' @ dec_string idx @ lit ''}'' @ pat,
             lit '', '' @ trim body @ arguments)))))"
  by pat_completeness auto
termination
proof (relation "measure (\<lambda>(sp, ctxt, rest, idx). length rest)", goal_cases)
  case (2 sp ctxt rest idx x before after_open y body after e)
  then have "rest = before @ lit ''${{'' @ after_open" "after_open = body @ lit ''}}'' @ after"
    using split_once_Some find_closing_Some by blast+
  then show ?case by simp
qed simp

declare template_loop.simps [simp del]

definition parse_template :: "ustr \<Rightarrow> span \<Rightarrow> ustr \<Rightarrow> workflow_error + expr list" where
  "parse_template txt sp ctxt = rbind (template_loop sp ctxt txt 0) (\<lambda>(es, n, pat, arguments).
     if 1 < n then rbind (parse_body (lit ''format('' @ [39] @ pat @ [39] @ arguments @ lit '')'') sp ctxt) (\<lambda>_. Inr es)
     else Inr es)"

section \<open>Validation of a site\<close>

definition join_commas :: "string list \<Rightarrow> ustr" where
  "join_commas xs = (case map lit xs of [] \<Rightarrow> [] | y # ys \<Rightarrow> y @ concat (map (\<lambda>z. lit '', '' @ z) ys))"

fun validate_site :: "expression_policy \<Rightarrow> span \<Rightarrow> ustr \<Rightarrow> expr \<Rightarrow> workflow_error + unit"
  and validate_sites :: "expression_policy \<Rightarrow> span \<Rightarrow> ustr \<Rightarrow> expr list \<Rightarrow> workflow_error + unit" where
  "validate_site p sp ctxt (ENamedValue name) =
     (if list_ex (\<lambda>allowed. eq_ignore_ascii_case (lit allowed) name) (contexts p) then Inr ()
      else Inl (Expression sp ctxt (MessageText (lit ''context '' @ [39] @ name @ [39] @
        lit '' is not available here; available contexts: '' @ join_commas (contexts p)))))"
| "validate_site p sp ctxt (ECall name arguments) =
     (if (eq_ignore_ascii_case name (lit ''hashFiles'') \<and> \<not> allows_hash_files p) \<or>
         (list_ex (\<lambda>st. eq_ignore_ascii_case (lit st) name) [''always'', ''cancelled'', ''failure'', ''success''] \<and>
          \<not> allows_status_function p)
      then Inl (Expression sp ctxt (MessageText (lit ''function '' @ [39] @ name @ [39] @ lit '' is not available here'')))
      else validate_sites p sp ctxt arguments)"
| "validate_site p sp ctxt (EIndex target i) =
     rbind (validate_site p sp ctxt target) (\<lambda>_. validate_site p sp ctxt i)"
| "validate_site p sp ctxt (EWildcard target) = validate_site p sp ctxt target"
| "validate_site p sp ctxt (ENot target) = validate_site p sp ctxt target"
| "validate_site p sp ctxt (EBinary op l r) =
     rbind (validate_site p sp ctxt l) (\<lambda>_. validate_site p sp ctxt r)"
| "validate_site p sp ctxt _ = Inr ()"
| "validate_sites p sp ctxt [] = Inr ()"
| "validate_sites p sp ctxt (e # es) = rbind (validate_site p sp ctxt e) (\<lambda>_. validate_sites p sp ctxt es)"

definition validate_template :: "ustr \<Rightarrow> span \<Rightarrow> ustr \<Rightarrow> expression_policy \<Rightarrow> workflow_error + unit" where
  "validate_template txt sp ctxt p = rbind (parse_template txt sp ctxt) (validate_sites p sp ctxt)"

definition validate_if :: "ustr \<Rightarrow> span \<Rightarrow> ustr \<Rightarrow> expression_policy \<Rightarrow> workflow_error + unit" where
  "validate_if txt sp ctxt p =
    (if str_contains txt (lit ''${{'') then validate_template txt sp ctxt p
     else rbind (parse_body txt sp ctxt) (validate_site p sp ctxt))"

definition reject_template :: "ustr \<Rightarrow> span \<Rightarrow> ustr \<Rightarrow> workflow_error + unit" where
  "reject_template txt sp ctxt =
    (if str_contains txt (lit ''${{'')
     then Inl (Expression sp ctxt (MessageText (lit ''expressions are not allowed at this workflow key''))) else Inr ())"

end
