(* ===== verification/Workflow_Validate.thy ===== *)
theory Workflow_Validate
  imports Workflow_Expr Step_Ids
begin

text \<open>
  The validation of a typed workflow (\<open>greenlit-workflow/src/validate.rs\<close>): field by field, every
  template is parsed and its contexts are checked against the policy of the field. A list of the
  sites with their policies says what an accepted workflow guarantees.
\<close>

section \<open>Fields\<close>

text \<open>\<open>for x in xs { f(x)?; }\<close> and \<open>if let Some(x) = x { f(x)?; }\<close>\<close>

primrec each :: "('a \<Rightarrow> 'e + unit) \<Rightarrow> 'a list \<Rightarrow> 'e + unit" where
  "each f [] = Inr ()"
| "each f (x # xs) = rbind (f x) (\<lambda>_. each f xs)"

definition given :: "('a \<Rightarrow> 'e + unit) \<Rightarrow> 'a option \<Rightarrow> 'e + unit" where
  "given f x = (case x of None \<Rightarrow> Inr () | Some y \<Rightarrow> f y)"

lemma each_ok: "each f xs = Inr () \<longleftrightarrow> (\<forall>x\<in>set xs. f x = Inr ())"
  by (induction xs) (auto simp: rbind_eq_Inr)

lemma given_ok: "given f x = Inr () \<longleftrightarrow> (\<forall>y. x = Some y \<longrightarrow> f y = Inr ())"
  by (cases x) (simp_all add: given_def)

definition validate_scalar :: "scalar_or_expr spanned \<Rightarrow> ustr \<Rightarrow> expression_policy \<Rightarrow> workflow_error + unit" where
  "validate_scalar v ctxt p = (case node v of
     ScalarExpression txt \<Rightarrow> validate_template txt (node_span v) ctxt p | ScalarLiteral _ \<Rightarrow> Inr ())"

definition validate_text :: "ustr spanned \<Rightarrow> ustr \<Rightarrow> expression_policy \<Rightarrow> workflow_error + unit" where
  "validate_text v ctxt p = validate_template (node v) (node_span v) ctxt p"

definition reject_text :: "ustr spanned \<Rightarrow> ustr \<Rightarrow> workflow_error + unit" where
  "reject_text v ctxt = reject_template (node v) (node_span v) ctxt"

fun validate_yaml :: "yaml_value \<Rightarrow> span \<Rightarrow> ustr \<Rightarrow> expression_policy \<Rightarrow> workflow_error + unit"
  and validate_items :: "(yaml_value \<times> span) list \<Rightarrow> ustr \<Rightarrow> expression_policy \<Rightarrow> workflow_error + unit"
  and validate_entries :: "(ustr spanned \<times> (yaml_value \<times> span)) list \<Rightarrow> ustr \<Rightarrow> expression_policy \<Rightarrow> workflow_error + unit"
  where
  "validate_yaml (YamlScalar (ScalarExpression txt)) sp ctxt p = validate_template txt sp ctxt p"
| "validate_yaml (YamlScalar (ScalarLiteral _)) sp ctxt p = Inr ()"
| "validate_yaml (YamlSequence items) sp ctxt p = validate_items items ctxt p"
| "validate_yaml (YamlMapping entries) sp ctxt p = validate_entries entries ctxt p"
| "validate_items [] ctxt p = Inr ()"
| "validate_items ((v, sp) # items) ctxt p = rbind (validate_yaml v sp ctxt p) (\<lambda>_. validate_items items ctxt p)"
| "validate_entries [] ctxt p = Inr ()"
| "validate_entries ((k, v, sp) # entries) ctxt p =
     rbind (validate_yaml v sp ctxt p) (\<lambda>_. validate_entries entries ctxt p)"

definition check_identifier :: "ustr spanned \<Rightarrow> string \<Rightarrow> workflow_error + unit" where
  "check_identifier i what = (if validate_identifier (node i) then Inr ()
     else Inl (Schema (node_span i) (lit what @ lit '' '' @ [39] @ node i @ [39] @
       lit '' must start with a letter or '' @ [39] @ lit ''_'' @ [39] @
       lit '' and contain only ASCII letters, digits, '' @ [39] @ lit ''-'' @ [39] @ lit '' or '' @ [39] @ lit ''_'' @ [39])))"

definition validate_step_id :: "ustr spanned \<Rightarrow> ustr \<Rightarrow> workflow_error + unit" where
  "validate_step_id i ctxt = rbind (reject_text i (ctxt @ lit ''.id'')) (\<lambda>_. check_identifier i ''step id'')"

definition runs_on_labels :: "runs_on \<Rightarrow> ustr spanned list" where
  "runs_on_labels r = (case r of
     RunsOnLabel l \<Rightarrow> [l]
   | RunsOnLabels ls \<Rightarrow> ls
   | RunsOnGroup g ls \<Rightarrow> (case g of Some l \<Rightarrow> [l] | None \<Rightarrow> []) @ ls)"

definition validate_runs_on :: "runs_on \<Rightarrow> ustr \<Rightarrow> workflow_error + unit" where
  "validate_runs_on r pre =
     each (\<lambda>l. validate_text l (pre @ lit ''.runs-on'') JobStrategyContext) (runs_on_labels r)"

definition validate_defaults :: "defaults \<Rightarrow> ustr \<Rightarrow> bool \<Rightarrow> workflow_error + unit" where
  "validate_defaults d ctxt workflow_level = given (\<lambda>r.
     rbind (given (\<lambda>sh. if workflow_level then reject_text sh ctxt else validate_text sh ctxt JobDefaultsRun)
       (rd_shell (node r))) (\<lambda>_.
     given (\<lambda>dir. if workflow_level
         then (case node dir of ScalarExpression txt \<Rightarrow> reject_template txt (node_span dir) ctxt | _ \<Rightarrow> Inr ())
         else validate_scalar dir ctxt JobDefaultsRun) (rd_working_directory (node r)))) (df_run d)"

definition validate_matrix :: "workflow_matrix \<Rightarrow> ustr \<Rightarrow> workflow_error + unit" where
  "validate_matrix m ctxt =
     rbind (each (\<lambda>(_, vs). validate_items vs ctxt JobStrategy) (wm_axes m)) (\<lambda>_.
       each (\<lambda>entry. validate_entries (node entry) ctxt JobStrategy) (wm_include m @ wm_exclude m))"

definition validate_strategy :: "workflow_strategy \<Rightarrow> ustr \<Rightarrow> workflow_error + unit" where
  "validate_strategy s pre = (let ctxt = pre @ lit ''.strategy'' in
     rbind (given (\<lambda>m. case node m of
         MatrixExpression e \<Rightarrow> validate_text e (ctxt @ lit ''.matrix'') JobStrategy
       | MatrixInline inl \<Rightarrow> validate_matrix inl ctxt) (ws_matrix s)) (\<lambda>_.
     rbind (given (\<lambda>f. validate_scalar f ctxt JobStrategy) (ws_fail_fast s)) (\<lambda>_.
       given (\<lambda>f. validate_scalar f ctxt JobStrategy) (ws_max_parallel s))))"

definition validate_container_spec :: "container_spec \<Rightarrow> ustr \<Rightarrow> workflow_error + unit" where
  "validate_container_spec c ctxt =
     rbind (validate_scalar (cs_image c) (ctxt @ lit ''.image'') ContainerPolicy) (\<lambda>_.
     rbind (given (\<lambda>cr. rbind
         (given (\<lambda>u. validate_scalar u (ctxt @ lit ''.credentials'') ContainerCredentials) (cr_username (node cr))) (\<lambda>_.
          given (\<lambda>u. validate_scalar u (ctxt @ lit ''.credentials'') ContainerCredentials) (cr_password (node cr))))
       (cs_credentials c)) (\<lambda>_.
     rbind (each (\<lambda>(_, v). validate_scalar v (ctxt @ lit ''.env'') ContainerEnv) (cs_env c)) (\<lambda>_.
     rbind (each (\<lambda>v. validate_scalar v ctxt ContainerPolicy) (cs_ports c @ cs_volumes c)) (\<lambda>_.
       given (\<lambda>v. validate_scalar v ctxt ContainerPolicy) (cs_options c)))))"

definition present_values :: "'a option list \<Rightarrow> 'a list" where
  "present_values xs = map the (filter (\<lambda>x. x \<noteq> None) xs)"

definition validate_step :: "step \<Rightarrow> ustr \<Rightarrow> workflow_error + unit" where
  "validate_step s ctxt =
     rbind (given (\<lambda>c. validate_if (node c) (node_span c) (ctxt @ lit ''.if'') StepIf) (st_if s)) (\<lambda>_.
     rbind (given (\<lambda>v. validate_scalar v (ctxt @ lit ''.name'') StepPolicy) (st_name s)) (\<lambda>_.
     rbind (each (\<lambda>(_, v). validate_scalar v (ctxt @ lit ''.env'') StepPolicy) (st_env s)) (\<lambda>_.
     rbind (each (\<lambda>v. validate_scalar v ctxt StepPolicy)
       (present_values [st_working_directory s, st_continue_on_error s, st_timeout_minutes s])) (\<lambda>_.
     case st_action s of
       StepRun script sh \<Rightarrow> rbind (validate_text script (ctxt @ lit ''.run'') StepPolicy) (\<lambda>_.
         given (\<lambda>x. reject_text x (ctxt @ lit ''.shell'')) sh)
     | StepUses reference w \<Rightarrow> rbind (reject_text reference (ctxt @ lit ''.uses'')) (\<lambda>_.
         each (\<lambda>(_, v). validate_scalar v (ctxt @ lit ''.with'') StepPolicy) w)))))"

text \<open>The loop over the steps of a job, with the ids seen so far.\<close>

fun validate_steps :: "ustr \<Rightarrow> ustr \<Rightarrow> nat \<Rightarrow> step list \<Rightarrow> (ustr \<rightharpoonup> span) \<Rightarrow> workflow_error + unit" where
  "validate_steps job_name pre i [] taken = Inr ()"
| "validate_steps job_name pre i (s # ss) taken = (let ctxt = pre @ lit ''.steps['' @ dec_string i @ lit '']'' in
     rbind (case st_id s of
         None \<Rightarrow> Inr taken
       | Some x \<Rightarrow> rbind (validate_step_id x ctxt) (\<lambda>_. let folded_id = to_ascii_lowercase (node x) in
           case taken folded_id of
             Some first_span \<Rightarrow> Inl (Schema (node_span x) (lit ''step id '' @ [39] @ node x @ [39] @
               lit '' is not unique within job '' @ [39] @ job_name @ [39] @
               lit '' because step ids are case-insensitive; rename it (first declared at '' @
               span_display first_span @ lit '')''))
           | None \<Rightarrow> Inr (taken(folded_id \<mapsto> node_span x)))) (\<lambda>taken'.
     rbind (validate_step s ctxt) (\<lambda>_. validate_steps job_name pre (i + 1) ss taken')))"

definition validate_concurrency :: "concurrency spanned \<Rightarrow> ustr \<Rightarrow> expression_policy \<Rightarrow> workflow_error + unit" where
  "validate_concurrency c ctxt p =
     rbind (validate_text (cc_group (node c)) (ctxt @ lit ''.group'') p) (\<lambda>_.
       given (\<lambda>v. validate_scalar v (ctxt @ lit ''.cancel-in-progress'') p) (cc_cancel_in_progress (node c)))"

definition validate_job :: "workflow_job \<Rightarrow> workflow_error + unit" where
  "validate_job j = rbind (check_identifier (wj_id j) ''job id'') (\<lambda>_. let pre = lit ''jobs.'' @ node (wj_id j) in
     rbind (given (\<lambda>n. validate_text n (pre @ lit ''.name'') JobStrategyContext) (wj_name j)) (\<lambda>_.
     rbind (given (\<lambda>r. validate_runs_on (node r) pre) (wj_runs_on j)) (\<lambda>_.
     rbind (each (\<lambda>n. reject_text n (pre @ lit ''.needs'')) (wj_needs j)) (\<lambda>_.
     rbind (given (\<lambda>c. validate_if (node c) (node_span c) (pre @ lit ''.if'') JobIf) (wj_if j)) (\<lambda>_.
     rbind (each (\<lambda>(_, v). validate_text v (pre @ lit ''.outputs'') JobOutputs) (wj_outputs j)) (\<lambda>_.
     rbind (each (\<lambda>(_, v). validate_scalar v (pre @ lit ''.env'') JobEnv) (wj_env j)) (\<lambda>_.
     rbind (given (\<lambda>d. validate_defaults (node d) (pre @ lit ''.defaults.run'') False) (wj_defaults j)) (\<lambda>_.
     rbind (given (\<lambda>s. validate_strategy (node s) pre) (wj_strategy j)) (\<lambda>_.
     rbind (given (\<lambda>c. validate_concurrency c (pre @ lit ''.concurrency'') JobConcurrency) (wj_concurrency j)) (\<lambda>_.
     rbind (each (\<lambda>(n, c). validate_container_spec (node c) (pre @ lit ''.services.'' @ node n)) (wj_services j)) (\<lambda>_.
     rbind (given (\<lambda>c. validate_container_spec (node c) (pre @ lit ''.container'')) (wj_container j)) (\<lambda>_.
       validate_steps (node (wj_id j)) pre 0 (wj_steps j) Map.empty))))))))))))"

definition validate_workflow :: "workflow \<Rightarrow> workflow_error + unit" where
  "validate_workflow w =
     rbind (given (\<lambda>n. reject_text n (lit ''name'')) (wf_name w)) (\<lambda>_.
     rbind (given (\<lambda>n. validate_text n (lit ''run-name'') RunName) (wf_run_name w)) (\<lambda>_.
     rbind (given (\<lambda>c. validate_concurrency c (lit ''concurrency'') WorkflowConcurrency) (wf_concurrency w)) (\<lambda>_.
     rbind (each (\<lambda>(_, v). validate_scalar v (lit ''env'') WorkflowEnv) (wf_env w)) (\<lambda>_.
     rbind (given (\<lambda>d. validate_defaults (node d) (lit ''defaults.run'') True) (wf_defaults w)) (\<lambda>_.
       each validate_job (wf_jobs w))))))"

end
