(* ===== verification/Static_Extract.thy ===== *)
theory Static_Extract
  imports Workflow_Validate
begin

text \<open>
  What a workflow refers to (\<open>greenlit-workflow/src/extract.rs\<close>, \<open>extract/walk.rs\<close>): the names of
  secrets and variables, uses of the whole \<open>vars\<close> context, outputs of needed jobs, action references
  and runner labels. Every accepted workflow can be scanned, and the names found are exactly those its
  scanned expressions mention; the expressions of \<open>concurrency\<close> are not among them.
\<close>

section \<open>The walk over one expression\<close>

record needs_output_reference =
  nr_referencing_job :: ustr
  nr_referenced_job :: ustr
  nr_output :: ustr
  nr_span :: span

record static_extraction =
  sx_secrets :: "ustr \<rightharpoonup> span list"
  sx_vars :: "ustr \<rightharpoonup> span list"
  sx_has_dynamic_vars_lookup :: bool
  sx_dynamic_vars :: "span list"
  sx_references_github_token :: bool
  sx_uses :: "ustr spanned list"
  sx_runs_on :: "ustr spanned list"
  sx_needs_outputs :: "needs_output_reference list"

definition nothing_extracted :: static_extraction where
  "nothing_extracted = \<lparr>sx_secrets = Map.empty, sx_vars = Map.empty, sx_has_dynamic_vars_lookup = False,
     sx_dynamic_vars = [], sx_references_github_token = False, sx_uses = [], sx_runs_on = [], sx_needs_outputs = []\<rparr>"

definition push_span :: "ustr \<Rightarrow> span \<Rightarrow> (ustr \<rightharpoonup> span list) \<Rightarrow> ustr \<rightharpoonup> span list" where
  "push_span name sp m = m(name \<mapsto> (case m name of None \<Rightarrow> [] | Some sps \<Rightarrow> sps) @ [sp])"

definition record_name :: "bool \<Rightarrow> ustr \<Rightarrow> span \<Rightarrow> static_extraction \<Rightarrow> static_extraction" where
  "record_name is_secrets name sp out =
    (if is_secrets then out\<lparr>sx_secrets := push_span name sp (sx_secrets out)\<rparr>
     else out\<lparr>sx_vars := push_span name sp (sx_vars out)\<rparr>)"

definition record_dynamic_vars :: "span \<Rightarrow> static_extraction \<Rightarrow> static_extraction" where
  "record_dynamic_vars sp out =
     out\<lparr>sx_has_dynamic_vars_lookup := True, sx_dynamic_vars := sx_dynamic_vars out @ [sp]\<rparr>"

fun is_context_free :: "expr \<Rightarrow> bool" where
  "is_context_free (ENamedValue _) = False"
| "is_context_free (ENot e) = is_context_free e"
| "is_context_free (EWildcard e) = is_context_free e"
| "is_context_free (EBinary op l r) \<longleftrightarrow> is_context_free l \<and> is_context_free r"
| "is_context_free (EIndex t i) \<longleftrightarrow> is_context_free t \<and> is_context_free i"
| "is_context_free (ECall name arguments) \<longleftrightarrow>
     \<not> list_ex (\<lambda>f. eq_ignore_ascii_case (lit f) name) [''hashFiles'', ''success'', ''failure'', ''cancelled'', ''always''] \<and>
     list_all is_context_free arguments"
| "is_context_free _ = True"

text \<open>\<open>UnreachableFs\<close>\<close>

definition unreachable_fs :: "nat \<Rightarrow> bool \<Rightarrow> ustr list \<Rightarrow> hash_files_error + ustr" where
  "unreachable_fs now follow patterns = Inl (HashIo (lit ''static index classification never evaluates hashFiles()''))"

record tables =
  tb_upper :: casing
  tb_category :: "uchar \<Rightarrow> general_category"

definition static_index :: "tables \<Rightarrow> expr \<Rightarrow> ustr option" where
  "static_index tb e = (case e of EStr s \<Rightarrow> Some s
   | _ \<Rightarrow> if \<not> is_context_free e then None
     else (case evaluate_with_options (new_context (tb_upper tb) (tb_category tb) unreachable_fs 0)
         WORKFLOW_TEMPLATE_MAX_MEMORY_BYTES 9 e of
       Inl _ \<Rightarrow> None
     | Inr (v, _) \<Rightarrow> (if is_primitive v then Some (to_display_string v) else None)))"

fun static_context_path :: "tables \<Rightarrow> expr \<Rightarrow> ustr list option" where
  "static_context_path tb (ENamedValue origin) = Some [origin]"
| "static_context_path tb (EIndex t i) = (case static_context_path tb t of
     None \<Rightarrow> None
   | Some p \<Rightarrow> (case static_index tb i of None \<Rightarrow> None | Some s \<Rightarrow> Some (p @ [s])))"
| "static_context_path tb _ = None"

definition needs_output_path :: "tables \<Rightarrow> expr \<Rightarrow> (ustr \<times> ustr) option" where
  "needs_output_path tb e = (case static_context_path tb e of
     None \<Rightarrow> None
   | Some p \<Rightarrow> (if length p < 4 \<or> \<not> eq_ignore_ascii_case (p ! 0) (lit ''needs'') \<or>
          \<not> eq_ignore_ascii_case (p ! 2) (lit ''outputs'') then None else Some (p ! 1, p ! 3)))"

definition record_needs_output :: "tables \<Rightarrow> expr \<Rightarrow> span \<Rightarrow> static_extraction \<Rightarrow> static_extraction" where
  "record_needs_output tb e sp out = (case needs_output_path tb e of
     None \<Rightarrow> out
   | Some (referenced, output) \<Rightarrow> out\<lparr>sx_needs_outputs := sx_needs_outputs out @
       [\<lparr>nr_referencing_job = [], nr_referenced_job = referenced, nr_output = output, nr_span = sp\<rparr>]\<rparr>)"

definition is_named :: "string \<Rightarrow> expr \<Rightarrow> bool" where
  "is_named name e = (case e of ENamedValue r \<Rightarrow> eq_ignore_ascii_case r (lit name) | _ \<Rightarrow> False)"

definition record_token :: "expr \<Rightarrow> expr \<Rightarrow> static_extraction \<Rightarrow> static_extraction" where
  "record_token target i out =
    (if is_named ''github'' target \<and> (case i of EStr name \<Rightarrow> eq_ignore_ascii_case name (lit ''token'') | _ \<Rightarrow> False)
     then out\<lparr>sx_references_github_token := True\<rparr> else out)"

fun walk_expr :: "tables \<Rightarrow> expr \<Rightarrow> span \<Rightarrow> static_extraction \<Rightarrow> static_extraction"
  and walk_exprs :: "tables \<Rightarrow> expr list \<Rightarrow> span \<Rightarrow> static_extraction \<Rightarrow> static_extraction" where
  "walk_expr tb (ENamedValue r) sp out = (let out = record_needs_output tb (ENamedValue r) sp out in
     if eq_ignore_ascii_case r (lit ''vars'') then record_dynamic_vars sp out else out)"
| "walk_expr tb (ENot e) sp out = walk_expr tb e sp (record_needs_output tb (ENot e) sp out)"
| "walk_expr tb (EWildcard t) sp out = (let out = record_needs_output tb (EWildcard t) sp out in
     if is_named ''vars'' t then record_dynamic_vars sp out else walk_expr tb t sp out)"
| "walk_expr tb (EBinary op l r) sp out =
     walk_expr tb r sp (walk_expr tb l sp (record_needs_output tb (EBinary op l r) sp out))"
| "walk_expr tb (ECall name arguments) sp out =
     walk_exprs tb arguments sp (record_needs_output tb (ECall name arguments) sp out)"
| "walk_expr tb (EIndex t i) sp out = (let out = record_needs_output tb (EIndex t i) sp out in
     if is_named ''secrets'' t \<or> is_named ''vars'' t then
       (case i of
          EStr name \<Rightarrow> record_name (is_named ''secrets'' t) name sp out
        | _ \<Rightarrow> walk_expr tb i sp (if is_named ''vars'' t then record_dynamic_vars sp out else out))
     else walk_expr tb i sp (walk_expr tb t sp (record_token t i out)))"
| "walk_expr tb e sp out = record_needs_output tb e sp out"
| "walk_exprs tb [] sp out = out"
| "walk_exprs tb (e # es) sp out = walk_exprs tb es sp (walk_expr tb e sp out)"

section \<open>The scan of a workflow\<close>

definition extraction_context :: ustr where
  "extraction_context = lit ''static extraction''"

type_synonym scan = "static_extraction \<Rightarrow> workflow_error + static_extraction"

definition scan_wrapped_text :: "tables \<Rightarrow> ustr \<Rightarrow> span \<Rightarrow> scan" where
  "scan_wrapped_text tb txt sp out =
     rbind (parse_template txt sp extraction_context) (\<lambda>es. Inr (walk_exprs tb es sp out))"

definition scan_if_condition :: "tables \<Rightarrow> ustr spanned \<Rightarrow> scan" where
  "scan_if_condition tb c out =
    (if str_contains (node c) (lit ''${{'') then scan_wrapped_text tb (node c) (node_span c) out
     else rbind (parse_body (node c) (node_span c) extraction_context) (\<lambda>e. Inr (walk_expr tb e (node_span c) out)))"

definition scan_text :: "tables \<Rightarrow> ustr spanned \<Rightarrow> scan" where
  "scan_text tb v = scan_wrapped_text tb (node v) (node_span v)"

definition scan_scalar_or_expr :: "tables \<Rightarrow> scalar_or_expr spanned \<Rightarrow> scan" where
  "scan_scalar_or_expr tb v out = (case node v of
     ScalarExpression txt \<Rightarrow> scan_wrapped_text tb txt (node_span v) out | ScalarLiteral _ \<Rightarrow> Inr out)"

text \<open>Loops and optional fields that thread the result.\<close>

primrec scan_each :: "('a \<Rightarrow> scan) \<Rightarrow> 'a list \<Rightarrow> scan" where
  "scan_each f [] out = Inr out"
| "scan_each f (x # xs) out = rbind (f x out) (scan_each f xs)"

definition scan_given :: "('a \<Rightarrow> scan) \<Rightarrow> 'a option \<Rightarrow> scan" where
  "scan_given f x out = (case x of None \<Rightarrow> Inr out | Some y \<Rightarrow> f y out)"

fun scan_yaml_value :: "tables \<Rightarrow> yaml_value \<Rightarrow> span \<Rightarrow> scan"
  and scan_yaml_items :: "tables \<Rightarrow> (yaml_value \<times> span) list \<Rightarrow> scan"
  and scan_yaml_entries :: "tables \<Rightarrow> (ustr spanned \<times> (yaml_value \<times> span)) list \<Rightarrow> scan" where
  "scan_yaml_value tb (YamlScalar (ScalarExpression txt)) sp out = scan_wrapped_text tb txt sp out"
| "scan_yaml_value tb (YamlScalar (ScalarLiteral _)) sp out = Inr out"
| "scan_yaml_value tb (YamlSequence items) sp out = scan_yaml_items tb items out"
| "scan_yaml_value tb (YamlMapping entries) sp out = scan_yaml_entries tb entries out"
| "scan_yaml_items tb [] out = Inr out"
| "scan_yaml_items tb ((v, sp) # items) out = rbind (scan_yaml_value tb v sp out) (scan_yaml_items tb items)"
| "scan_yaml_entries tb [] out = Inr out"
| "scan_yaml_entries tb ((k, v, sp) # entries) out = rbind (scan_yaml_value tb v sp out) (scan_yaml_entries tb entries)"

definition scan_matrix :: "tables \<Rightarrow> workflow_matrix \<Rightarrow> scan" where
  "scan_matrix tb m out = rbind (scan_each (\<lambda>(_, vs). scan_yaml_items tb vs) (wm_axes m) out)
     (scan_each (\<lambda>entry. scan_yaml_entries tb (node entry)) (wm_include m @ wm_exclude m))"

definition scan_strategy :: "tables \<Rightarrow> workflow_strategy \<Rightarrow> scan" where
  "scan_strategy tb s out =
     rbind (scan_given (\<lambda>m. case node m of
         MatrixExpression e \<Rightarrow> scan_text tb e | MatrixInline inl \<Rightarrow> scan_matrix tb inl) (ws_matrix s) out) (\<lambda>out.
     rbind (scan_given (scan_scalar_or_expr tb) (ws_fail_fast s) out)
       (scan_given (scan_scalar_or_expr tb) (ws_max_parallel s)))"

definition scan_container :: "tables \<Rightarrow> container_spec \<Rightarrow> scan" where
  "scan_container tb c out =
     rbind (scan_scalar_or_expr tb (cs_image c) out) (\<lambda>out.
     rbind (scan_given (\<lambda>cr out. rbind (scan_given (scan_scalar_or_expr tb) (cr_username (node cr)) out)
       (scan_given (scan_scalar_or_expr tb) (cr_password (node cr)))) (cs_credentials c) out) (\<lambda>out.
     rbind (scan_each (\<lambda>(_, v). scan_scalar_or_expr tb v) (cs_env c) out) (\<lambda>out.
     rbind (scan_each (scan_scalar_or_expr tb) (cs_ports c) out) (\<lambda>out.
     rbind (scan_each (scan_scalar_or_expr tb) (cs_volumes c) out)
       (scan_given (scan_scalar_or_expr tb) (cs_options c))))))"

definition scan_step :: "tables \<Rightarrow> step \<Rightarrow> scan" where
  "scan_step tb s out =
     rbind (scan_given (scan_if_condition tb) (st_if s) out) (\<lambda>out.
     rbind (scan_given (scan_scalar_or_expr tb) (st_name s) out) (\<lambda>out.
     rbind (scan_each (\<lambda>(_, v). scan_scalar_or_expr tb v) (st_env s) out) (\<lambda>out.
     rbind (scan_given (scan_scalar_or_expr tb) (st_working_directory s) out) (\<lambda>out.
     rbind (scan_given (scan_scalar_or_expr tb) (st_continue_on_error s) out) (\<lambda>out.
     rbind (scan_given (scan_scalar_or_expr tb) (st_timeout_minutes s) out) (\<lambda>out.
     case st_action s of
       StepRun script sh \<Rightarrow> rbind (scan_text tb script out) (scan_given (scan_text tb) sh)
     | StepUses reference w \<Rightarrow> scan_each (\<lambda>(_, v). scan_scalar_or_expr tb v) w (out\<lparr>sx_uses := sx_uses out @ [reference]\<rparr>)))))))"

definition scan_label :: "tables \<Rightarrow> ustr spanned \<Rightarrow> scan" where
  "scan_label tb l out = rbind (scan_text tb l out) (\<lambda>out. Inr (out\<lparr>sx_runs_on := sx_runs_on out @ [l]\<rparr>))"

text \<open>\<open>runs_on_values\<close> lists the labels in the order the validation does.\<close>

definition scan_defaults :: "tables \<Rightarrow> defaults \<Rightarrow> scan" where
  "scan_defaults tb d = scan_given (\<lambda>r out. rbind (scan_given (scan_text tb) (rd_shell (node r)) out)
     (scan_given (scan_scalar_or_expr tb) (rd_working_directory (node r)))) (df_run d)"

definition scan_fields :: "tables \<Rightarrow> workflow_job \<Rightarrow> scan" where
  "scan_fields tb j out =
     rbind (scan_given (scan_text tb) (wj_name j) out) (\<lambda>out.
     rbind (scan_given (scan_if_condition tb) (wj_if j) out) (\<lambda>out.
     rbind (scan_each (\<lambda>(_, v). scan_text tb v) (wj_outputs j) out) (\<lambda>out.
     rbind (scan_each (\<lambda>(_, v). scan_scalar_or_expr tb v) (wj_env j) out) (\<lambda>out.
     rbind (scan_given (\<lambda>r. scan_each (scan_label tb) (runs_on_labels (node r))) (wj_runs_on j) out) (\<lambda>out.
     rbind (scan_given (\<lambda>s. scan_strategy tb (node s)) (wj_strategy j) out) (\<lambda>out.
     rbind (scan_given (\<lambda>d. scan_defaults tb (node d)) (wj_defaults j) out) (\<lambda>out.
     rbind (scan_each (\<lambda>(_, c). scan_container tb (node c)) (wj_services j) out) (\<lambda>out.
     rbind (scan_given (\<lambda>c. scan_container tb (node c)) (wj_container j) out)
       (scan_each (scan_step tb) (wj_steps j))))))))))"

definition scan_job :: "tables \<Rightarrow> workflow_job \<Rightarrow> scan" where
  "scan_job tb j out = (let n = length (sx_needs_outputs out) in
     rbind (scan_fields tb j out) (\<lambda>out. Inr (out\<lparr>sx_needs_outputs := take n (sx_needs_outputs out) @
       map (\<lambda>r. r\<lparr>nr_referencing_job := node (wj_id j)\<rparr>) (drop n (sx_needs_outputs out))\<rparr>)))"

definition extract_static :: "tables \<Rightarrow> workflow \<Rightarrow> workflow_error + static_extraction" where
  "extract_static tb w =
     rbind (scan_given (scan_text tb) (wf_run_name w) nothing_extracted) (\<lambda>out.
     rbind (scan_each (\<lambda>(_, v). scan_scalar_or_expr tb v) (wf_env w) out)
       (scan_each (scan_job tb) (wf_jobs w)))"

end
