(* ===== verification/Extract_Laws.thy ===== *)
theory Extract_Laws
  imports Static_Extract
begin

text \<open>
  What the scan of an accepted workflow finds. The scan is shown to process one list of items, the
  validation to have parsed every item of that list, and the walk to collect exactly the names an
  expression mentions.
\<close>

section \<open>Parsing does not depend on the location\<close>

lemma parse_body_Inr: "parse_body b sp ctxt = Inr e \<longleftrightarrow> parse b = Inr e"
  by (simp add: parse_body_def split: sum.splits)

lemma template_loop_moves: "template_loop sp ctxt rest idx = Inr r \<Longrightarrow> template_loop sp' ctxt' rest idx = Inr r"
proof (induction sp ctxt rest idx arbitrary: r rule: template_loop.induct)
  case (1 sp ctxt rest idx)
  show ?case
  proof (cases "split_once (lit ''${{'') rest")
    case None
    with "1.prems" show ?thesis by (simp add: template_loop.simps [of sp] template_loop.simps [of sp'])
  next
    case (Some x)
    obtain before after_open where x: "x = (before, after_open)" by fastforce
    from "1.prems" Some x obtain body after e r' where c: "find_closing False after_open = Some (body, after)"
      "parse (trim body) = Inr e" and r': "template_loop sp ctxt after (idx + 1) = Inr r'"
      by (auto simp: template_loop.simps [of sp] rbind_eq_Inr parse_body_Inr split: option.splits)
    have "template_loop sp' ctxt' after (idx + 1) = Inr r'"
      using "1.IH" [OF Some x [symmetric] c(1) refl _ r'] c(2) by (simp add: parse_body_Inr)
    moreover have "parse_body (trim body) s k = Inr e" for s k using c(2) by (simp add: parse_body_Inr)
    ultimately show ?thesis
      using "1.prems" Some x c r' by (simp add: template_loop.simps [of sp] template_loop.simps [of sp'])
  qed
qed

definition template_exprs :: "ustr \<Rightarrow> expr list option" where
  "template_exprs txt = (case parse_template txt sample_span [] of Inr es \<Rightarrow> Some es | Inl _ \<Rightarrow> None)"

lemma parse_template_Inr: "parse_template txt sp ctxt = Inr es \<longleftrightarrow> template_exprs txt = Some es"
proof -
  have "parse_template txt sp' ctxt' = Inr es" if p: "parse_template txt sp ctxt = Inr es" for sp ctxt sp' ctxt'
  proof -
    from p obtain r where "template_loop sp ctxt txt 0 = Inr r" by (auto simp: parse_template_def rbind_eq_Inr)
    with template_loop_moves [OF this] p show ?thesis
      by (cases r) (auto simp: parse_template_def rbind_eq_Inr parse_body_Inr split: if_splits)
  qed
  then show ?thesis
    by (fastforce simp: template_exprs_def split: sum.splits)
qed

definition condition_exprs :: "ustr \<Rightarrow> expr list option" where
  "condition_exprs txt = (if str_contains txt (lit ''${{'') then template_exprs txt
     else (case parse txt of Inr e \<Rightarrow> Some [e] | Inl _ \<Rightarrow> None))"

lemma plain_text_exprs: "\<not> str_contains txt (lit ''${{'') \<Longrightarrow> template_exprs txt = Some []"
proof -
  assume "\<not> str_contains txt (lit ''${{'')"
  then have "split_once (lit ''${{'') txt = None" using split_once_None by (simp add: str_contains_def)
  then have "parse_template txt sample_span [] = Inr []"
    by (simp add: parse_template_def template_loop.simps)
  then show ?thesis by (simp add: template_exprs_def)
qed

section \<open>The items of a scan\<close>

datatype item =
    TextItem ustr span
  | ConditionItem ustr span
  | UsesItem "ustr spanned"
  | LabelItem "ustr spanned"

fun item_exprs :: "item \<Rightarrow> expr list option" where
  "item_exprs (TextItem txt sp) = template_exprs txt"
| "item_exprs (ConditionItem txt sp) = condition_exprs txt"
| "item_exprs (UsesItem r) = Some []"
| "item_exprs (LabelItem l) = Some []"

fun run_item :: "tables \<Rightarrow> item \<Rightarrow> scan" where
  "run_item tb (TextItem txt sp) out = scan_wrapped_text tb txt sp out"
| "run_item tb (ConditionItem txt sp) out = scan_if_condition tb (spanned txt sp) out"
| "run_item tb (UsesItem r) out = Inr (out\<lparr>sx_uses := sx_uses out @ [r]\<rparr>)"
| "run_item tb (LabelItem l) out = Inr (out\<lparr>sx_runs_on := sx_runs_on out @ [l]\<rparr>)"

definition run_items :: "tables \<Rightarrow> item list \<Rightarrow> scan" where
  "run_items tb = scan_each (run_item tb)"

definition text_item :: "ustr spanned \<Rightarrow> item list" where
  "text_item v = [TextItem (node v) (node_span v)]"

definition scalar_item :: "scalar_or_expr spanned \<Rightarrow> item list" where
  "scalar_item v = (case node v of ScalarExpression txt \<Rightarrow> [TextItem txt (node_span v)] | ScalarLiteral _ \<Rightarrow> [])"

definition condition_item :: "ustr spanned \<Rightarrow> item list" where
  "condition_item c = [ConditionItem (node c) (node_span c)]"

definition optional :: "('a \<Rightarrow> item list) \<Rightarrow> 'a option \<Rightarrow> item list" where
  "optional f x = (case x of None \<Rightarrow> [] | Some y \<Rightarrow> f y)"

definition mapping_items :: "scalar_or_expr_map \<Rightarrow> item list" where
  "mapping_items m = concat (map (scalar_item \<circ> snd) m)"

fun yaml_items :: "yaml_value \<Rightarrow> span \<Rightarrow> item list"
  and yaml_list_items :: "(yaml_value \<times> span) list \<Rightarrow> item list"
  and yaml_entry_items :: "(ustr spanned \<times> (yaml_value \<times> span)) list \<Rightarrow> item list" where
  "yaml_items (YamlScalar (ScalarExpression txt)) sp = [TextItem txt sp]"
| "yaml_items (YamlScalar (ScalarLiteral _)) sp = []"
| "yaml_items (YamlSequence vs) sp = yaml_list_items vs"
| "yaml_items (YamlMapping es) sp = yaml_entry_items es"
| "yaml_list_items [] = []"
| "yaml_list_items ((v, sp) # vs) = yaml_items v sp @ yaml_list_items vs"
| "yaml_entry_items [] = []"
| "yaml_entry_items ((k, v, sp) # es) = yaml_items v sp @ yaml_entry_items es"

definition matrix_items :: "workflow_matrix \<Rightarrow> item list" where
  "matrix_items m = concat (map (yaml_list_items \<circ> snd) (wm_axes m)) @
     concat (map (yaml_entry_items \<circ> node) (wm_include m @ wm_exclude m))"

definition strategy_items :: "workflow_strategy \<Rightarrow> item list" where
  "strategy_items s = optional (\<lambda>m. case node m of
       MatrixExpression e \<Rightarrow> text_item e | MatrixInline inl \<Rightarrow> matrix_items inl) (ws_matrix s) @
     optional scalar_item (ws_fail_fast s) @ optional scalar_item (ws_max_parallel s)"

definition container_items :: "container_spec \<Rightarrow> item list" where
  "container_items c = scalar_item (cs_image c) @
     optional (\<lambda>cr. optional scalar_item (cr_username (node cr)) @ optional scalar_item (cr_password (node cr)))
       (cs_credentials c) @
     mapping_items (cs_env c) @ concat (map scalar_item (cs_ports c)) @ concat (map scalar_item (cs_volumes c)) @
     optional scalar_item (cs_options c)"

definition step_items :: "step \<Rightarrow> item list" where
  "step_items s = optional condition_item (st_if s) @ optional scalar_item (st_name s) @ mapping_items (st_env s) @
     optional scalar_item (st_working_directory s) @ optional scalar_item (st_continue_on_error s) @
     optional scalar_item (st_timeout_minutes s) @
     (case st_action s of
        StepRun script sh \<Rightarrow> text_item script @ optional text_item sh
      | StepUses reference w \<Rightarrow> UsesItem reference # mapping_items w)"

definition label_items :: "runs_on \<Rightarrow> item list" where
  "label_items r = concat (map (\<lambda>l. text_item l @ [LabelItem l]) (runs_on_labels r))"

definition defaults_items :: "defaults \<Rightarrow> item list" where
  "defaults_items d = optional (\<lambda>r. optional text_item (rd_shell (node r)) @
     optional scalar_item (rd_working_directory (node r))) (df_run d)"

definition job_items :: "workflow_job \<Rightarrow> item list" where
  "job_items j = optional text_item (wj_name j) @ optional condition_item (wj_if j) @
     concat (map (text_item \<circ> snd) (wj_outputs j)) @ mapping_items (wj_env j) @
     optional (label_items \<circ> node) (wj_runs_on j) @
     optional (strategy_items \<circ> node) (wj_strategy j) @
     optional (defaults_items \<circ> node) (wj_defaults j) @
     concat (map (container_items \<circ> node \<circ> snd) (wj_services j)) @
     optional (container_items \<circ> node) (wj_container j) @ concat (map step_items (wj_steps j))"

definition workflow_items :: "workflow \<Rightarrow> item list" where
  "workflow_items w = optional text_item (wf_run_name w) @ mapping_items (wf_env w) @ concat (map job_items (wf_jobs w))"

lemma run_items_simps [simp]:
  "run_items tb [] out = Inr out"
  "run_items tb (x # xs) out = rbind (run_item tb x out) (run_items tb xs)"
  by (simp_all add: run_items_def)

lemma run_items_append: "rbind (run_items tb xs out) (run_items tb ys) = run_items tb (xs @ ys) out"
  by (induction xs arbitrary: out) (auto simp: rbind_assoc intro!: rbind_cong)

lemma run_items_Nil: "run_items tb [] = Inr"
  by (rule ext) simp

lemma run_items_single: "run_items tb [x] = run_item tb x"
  by (rule ext) (simp add: run_items_Nil rbind_def split: sum.splits)

lemma scan_each_items: "scan_each (\<lambda>x. run_items tb (g x)) xs = run_items tb (concat (map g xs))"
  by (induction xs) (auto simp: run_items_append)

lemma scan_given_items: "scan_given (\<lambda>x. run_items tb (g x)) x = run_items tb (optional g x)"
  by (rule ext, cases x) (simp_all add: scan_given_def optional_def)

lemma scan_text_items: "scan_text tb = (\<lambda>v. run_items tb (text_item v))"
  by (intro ext) (simp add: scan_text_def text_item_def run_items_single del: run_items_simps)

lemma scan_scalar_items: "scan_scalar_or_expr tb = (\<lambda>v. run_items tb (scalar_item v))"
proof (intro ext)
  show "scan_scalar_or_expr tb v out = run_items tb (scalar_item v) out" for v out
    by (cases "node v")
    (simp_all add: scan_scalar_or_expr_def scalar_item_def run_items_single run_items_Nil del: run_items_simps)
qed

lemma scan_condition_items: "scan_if_condition tb = (\<lambda>c. run_items tb (condition_item c))"
  by (intro ext) (simp add: condition_item_def scan_if_condition_def run_items_single del: run_items_simps)

lemma scan_yaml_items_eq:
  "scan_yaml_value tb v sp = run_items tb (yaml_items v sp)"
  "scan_yaml_items tb vs = run_items tb (yaml_list_items vs)"
  "scan_yaml_entries tb es = run_items tb (yaml_entry_items es)"
proof -
  have "scan_yaml_value tb v sp out = run_items tb (yaml_items v sp) out"
    "scan_yaml_items tb vs out = run_items tb (yaml_list_items vs) out"
    "scan_yaml_entries tb es out = run_items tb (yaml_entry_items es) out" for out
  proof (induction tb v sp out and tb vs out and tb es out rule: scan_yaml_value_scan_yaml_items_scan_yaml_entries.induct)
    case (1 tb t sp out)
    show ?case by (simp add: run_items_single del: run_items_simps)
  qed (auto simp: run_items_append [symmetric] intro!: rbind_cong)
  then show "scan_yaml_value tb v sp = run_items tb (yaml_items v sp)"
    "scan_yaml_items tb vs = run_items tb (yaml_list_items vs)"
    "scan_yaml_entries tb es = run_items tb (yaml_entry_items es)" by auto
qed

lemmas scan_items = scan_each_items scan_given_items scan_text_items scan_scalar_items scan_condition_items
  scan_yaml_items_eq run_items_append split_def

lemma scan_matrix_items: "scan_matrix tb m = run_items tb (matrix_items m)"
  by (rule ext) (simp add: scan_matrix_def matrix_items_def scan_items comp_def del: run_items_simps)

lemma scan_strategy_items: "scan_strategy tb s = run_items tb (strategy_items s)"
proof -
  have "(case node m of MatrixExpression e \<Rightarrow> scan_text tb e | MatrixInline inl \<Rightarrow> scan_matrix tb inl)
      = run_items tb (case node m of MatrixExpression e \<Rightarrow> text_item e | MatrixInline inl \<Rightarrow> matrix_items inl)" for m :: "matrix_source spanned"
    by (cases "node m") (simp_all add: scan_text_items scan_matrix_items)
  then show ?thesis
    by (intro ext) (simp add: scan_strategy_def strategy_items_def scan_items del: run_items_simps)
qed

lemma scan_container_items: "scan_container tb = (\<lambda>c. run_items tb (container_items c))"
  by (intro ext) (simp add: scan_container_def container_items_def mapping_items_def scan_items comp_def del: run_items_simps)

lemma scan_action_items:
  "(case st_action s of
       StepRun script sh \<Rightarrow> rbind (scan_text tb script out) (scan_given (scan_text tb) sh)
     | StepUses reference w \<Rightarrow> scan_each (\<lambda>(_, v). scan_scalar_or_expr tb v) w (out\<lparr>sx_uses := sx_uses out @ [reference]\<rparr>))
    = run_items tb (case st_action s of
        StepRun script sh \<Rightarrow> text_item script @ optional text_item sh
      | StepUses reference w \<Rightarrow> UsesItem reference # mapping_items w) out"
proof (cases "st_action s")
  case (StepRun script sh)
  then show ?thesis by (simp add: scan_items del: run_items_simps)
next
  case (StepUses reference w)
  then show ?thesis by (simp add: mapping_items_def comp_def scan_each_items scan_scalar_items split_def)
qed

lemma scan_step_items: "scan_step tb = (\<lambda>s. run_items tb (step_items s))"
  by (intro ext) (simp add: scan_step_def step_items_def mapping_items_def [of "st_env _"] scan_action_items scan_items comp_def
    del: run_items_simps)

lemma scan_label_items: "scan_label tb = (\<lambda>l. run_items tb (text_item l @ [LabelItem l]))"
proof (intro ext)
  fix l :: "ustr spanned" and out
  have "(\<lambda>out. Inr (out\<lparr>sx_runs_on := sx_runs_on out @ [l]\<rparr>)) = run_items tb [LabelItem l]"
    by (rule ext) simp
  then show "scan_label tb l out = run_items tb (text_item l @ [LabelItem l]) out"
    by (simp add: scan_label_def scan_text_items run_items_append del: run_items_simps)
qed

lemma scan_defaults_items: "scan_defaults tb d = run_items tb (defaults_items d)"
  by (simp add: scan_defaults_def defaults_items_def scan_items del: run_items_simps)

lemma scan_fields_items: "scan_fields tb j = run_items tb (job_items j)"
  by (rule ext) (simp add: scan_fields_def job_items_def label_items_def mapping_items_def scan_items scan_strategy_items
    scan_defaults_items scan_label_items scan_container_items scan_step_items comp_def del: run_items_simps)

section \<open>An accepted workflow parses everywhere\<close>

primrec all_parse :: "item list \<Rightarrow> bool" where
  "all_parse [] \<longleftrightarrow> True"
| "all_parse (it # its) \<longleftrightarrow> item_exprs it \<noteq> None \<and> all_parse its"

lemma all_parse_append: "all_parse (xs @ ys) \<longleftrightarrow> all_parse xs \<and> all_parse ys"
  by (induction xs) auto

lemma parses_optional: "all_parse (optional f x) \<longleftrightarrow> (\<forall>y. x = Some y \<longrightarrow> all_parse (f y))"
  by (cases x) (simp_all add: optional_def)

lemma parses_concat: "all_parse (concat (map f xs)) \<longleftrightarrow> (\<forall>x\<in>set xs. all_parse (f x))"
  by (induction xs) (simp_all add: all_parse_append)

lemma validate_template_parses: "validate_template t sp ctxt p = Inr () \<Longrightarrow> template_exprs t \<noteq> None"
  by (auto simp: validate_template_def rbind_eq_Inr parse_template_Inr)

lemma reject_template_parses: "reject_template t sp ctxt = Inr () \<Longrightarrow> template_exprs t \<noteq> None"
  by (simp add: reject_template_def plain_text_exprs split: if_splits)

lemma validate_if_parses: "validate_if t sp ctxt p = Inr () \<Longrightarrow> condition_exprs t \<noteq> None"
  by (auto simp: validate_if_def condition_exprs_def rbind_eq_Inr parse_body_Inr validate_template_def parse_template_Inr
    split: if_splits)

lemma validate_scalar_parses: "validate_scalar v ctxt p = Inr () \<Longrightarrow> all_parse (scalar_item v)"
  by (auto simp: validate_scalar_def scalar_item_def dest: validate_template_parses split: scalar_or_expr.splits)

lemma validate_text_parses: "validate_text v ctxt p = Inr () \<Longrightarrow> all_parse (text_item v)"
  by (auto simp: validate_text_def text_item_def dest: validate_template_parses)

lemma reject_text_parses: "reject_text v ctxt = Inr () \<Longrightarrow> all_parse (text_item v)"
  by (auto simp: reject_text_def text_item_def dest: reject_template_parses)

lemma condition_parses: "validate_if (node c) sp ctxt p = Inr () \<Longrightarrow> all_parse (condition_item c)"
  by (auto simp: condition_item_def dest: validate_if_parses)

lemma validate_yaml_parses:
  "validate_yaml v sp ctxt p = Inr () \<Longrightarrow> all_parse (yaml_items v sp)"
  "validate_items vs ctxt p = Inr () \<Longrightarrow> all_parse (yaml_list_items vs)"
  "validate_entries es ctxt p = Inr () \<Longrightarrow> all_parse (yaml_entry_items es)"
  by (induction v sp ctxt p and vs ctxt p and es ctxt p rule: validate_yaml_validate_items_validate_entries.induct)
    (auto simp: rbind_eq_Inr all_parse_append dest: validate_template_parses)

lemmas site_parses = validate_scalar_parses validate_text_parses reject_text_parses condition_parses validate_yaml_parses

lemmas site_simps = rbind_eq_Inr each_ok given_ok parses_optional parses_concat all_parse_append split_def comp_def

lemma mapping_parses: "(\<forall>x\<in>set m. validate_scalar (snd x) ctxt p = Inr ()) \<Longrightarrow> all_parse (mapping_items m)"
  by (auto simp: mapping_items_def parses_concat intro: site_parses)

lemma validate_matrix_parses: "validate_matrix m ctxt = Inr () \<Longrightarrow> all_parse (matrix_items m)"
  by (fastforce simp: validate_matrix_def matrix_items_def site_simps intro: site_parses)

lemma validate_strategy_parses: "validate_strategy s pre = Inr () \<Longrightarrow> all_parse (strategy_items s)"
  by (fastforce simp: validate_strategy_def strategy_items_def Let_def site_simps
    intro: site_parses validate_matrix_parses split: matrix_source.splits)

lemma validate_container_parses: "validate_container_spec c ctxt = Inr () \<Longrightarrow> all_parse (container_items c)"
  by (fastforce simp: validate_container_spec_def container_items_def site_simps intro: site_parses mapping_parses)

lemma present_ok: "(\<forall>x\<in>set (present_values xs). P x) \<longleftrightarrow> (\<forall>x. Some x \<in> set xs \<longrightarrow> P x)"
  by (force simp: present_values_def image_iff)

lemma validate_step_parses:
  assumes "validate_step s ctxt = Inr ()"
  shows "all_parse (step_items s)"
proof -
  have "all_parse (case st_action s of StepRun script sh \<Rightarrow> text_item script @ optional text_item sh
      | StepUses reference w \<Rightarrow> UsesItem reference # mapping_items w)"
    using assms by (auto simp: validate_step_def site_simps intro: site_parses mapping_parses split: step_action.splits)
  with assms show ?thesis
    by (auto simp: validate_step_def step_items_def site_simps present_ok intro!: site_parses mapping_parses)
qed

lemma validate_steps_parse:
  "validate_steps n pre i ss taken = Inr () \<Longrightarrow> s \<in> set ss \<Longrightarrow> all_parse (step_items s)"
  by (induction n pre i ss taken rule: validate_steps.induct)
    (auto simp: Let_def rbind_eq_Inr dest: validate_step_parses)

lemma validate_defaults_parses: "validate_defaults d ctxt False = Inr () \<Longrightarrow> all_parse (defaults_items d)"
  by (fastforce simp: validate_defaults_def defaults_items_def site_simps intro: site_parses)

lemma validate_labels_parse: "validate_runs_on r pre = Inr () \<Longrightarrow> all_parse (label_items r)"
  by (fastforce simp: validate_runs_on_def label_items_def site_simps intro: site_parses)

lemma validate_job_parses: "validate_job j = Inr () \<Longrightarrow> all_parse (job_items j)"
  by (auto simp: validate_job_def job_items_def Let_def site_simps
    intro!: validate_text_parses condition_parses mapping_parses validate_defaults_parses validate_labels_parse
    intro: validate_strategy_parses validate_container_parses validate_steps_parse)

section \<open>What an expression mentions\<close>

fun subexprs :: "expr \<Rightarrow> expr set" where
  "subexprs (ECall f es) = insert (ECall f es) (\<Union>e\<in>set es. subexprs e)"
| "subexprs (EIndex t i) = insert (EIndex t i) (subexprs t \<union> subexprs i)"
| "subexprs (EWildcard t) = insert (EWildcard t) (subexprs t)"
| "subexprs (ENot t) = insert (ENot t) (subexprs t)"
| "subexprs (EBinary op l r) = insert (EBinary op l r) (subexprs l \<union> subexprs r)"
| "subexprs e = {e}"

text \<open>The names \<open>n\<close> of \<open>secrets.n\<close> or \<open>secrets['n']\<close>, and of \<open>vars.n\<close>.\<close>

definition names_under :: "string \<Rightarrow> expr \<Rightarrow> ustr set" where
  "names_under context e = {n. \<exists>t. is_named context t \<and> EIndex t (EStr n) \<in> subexprs e}"

text \<open>\<open>vars\<close> itself, other than under a literal name.\<close>

fun whole_vars :: "expr \<Rightarrow> bool" where
  "whole_vars (ENamedValue r) = eq_ignore_ascii_case r (lit ''vars'')"
| "whole_vars (ECall f es) = (\<exists>e\<in>set es. whole_vars e)"
| "whole_vars (EIndex t i) = ((whole_vars t \<and> \<not> (is_named ''vars'' t \<and> (\<exists>n. i = EStr n))) \<or> whole_vars i)"
| "whole_vars (EWildcard t) = whole_vars t"
| "whole_vars (ENot t) = whole_vars t"
| "whole_vars (EBinary op l r) = (whole_vars l \<or> whole_vars r)"
| "whole_vars _ = False"

definition mentions_token :: "expr \<Rightarrow> bool" where
  "mentions_token e \<longleftrightarrow> (\<exists>t n. is_named ''github'' t \<and> eq_ignore_ascii_case n (lit ''token'') \<and> EIndex t (EStr n) \<in> subexprs e)"

definition needed_outputs :: "tables \<Rightarrow> expr \<Rightarrow> (ustr \<times> ustr) set" where
  "needed_outputs tb e = {p. \<exists>s\<in>subexprs e. needs_output_path tb s = Some p}"

text \<open>What an extraction has found, without the places.\<close>

record findings =
  fd_secrets :: "ustr set"
  fd_vars :: "ustr set"
  fd_whole_vars :: bool
  fd_token :: bool

definition findings_of :: "static_extraction \<Rightarrow> findings" where
  "findings_of out = \<lparr>fd_secrets = dom (sx_secrets out), fd_vars = dom (sx_vars out),
     fd_whole_vars = sx_has_dynamic_vars_lookup out, fd_token = sx_references_github_token out\<rparr>"

definition adds :: "expr set \<Rightarrow> findings \<Rightarrow> findings" where
  "adds es fd = \<lparr>fd_secrets = fd_secrets fd \<union> (\<Union>e\<in>es. names_under ''secrets'' e),
     fd_vars = fd_vars fd \<union> (\<Union>e\<in>es. names_under ''vars'' e),
     fd_whole_vars = (fd_whole_vars fd \<or> (\<exists>e\<in>es. whole_vars e)),
     fd_token = (fd_token fd \<or> (\<exists>e\<in>es. mentions_token e))\<rparr>"

lemma adds_simps: "adds {} fd = fd" "adds es (adds es' fd) = adds (es' \<union> es) fd"
  by (auto simp: adds_def)

lemma is_named_iff: "is_named c t \<longleftrightarrow> (\<exists>r. t = ENamedValue r \<and> eq_ignore_ascii_case r (lit c))"
  by (cases t) (auto simp: is_named_def)

lemma names_under_simps [simp]:
  "names_under c (ENamedValue nm) = {}"
  "names_under c (ECall f es) = (\<Union>e\<in>set es. names_under c e)"
  "names_under c (EWildcard t) = names_under c t"
  "names_under c (ENot t) = names_under c t"
  "names_under c (EBinary op l r) = names_under c l \<union> names_under c r"
  "names_under c ENull = {}" "names_under c (EBool b) = {}" "names_under c (ENumber x) = {}" "names_under c (EStr nm) = {}"
  "names_under c (EIndex t i) = names_under c t \<union> names_under c i \<union> {n. i = EStr n \<and> is_named c t}"
  by (auto simp: names_under_def)

lemma mentions_token_simps [simp]:
  "mentions_token (ENamedValue nm) = False"
  "mentions_token (ECall f es) = (\<exists>e\<in>set es. mentions_token e)"
  "mentions_token (EWildcard t) = mentions_token t"
  "mentions_token (ENot t) = mentions_token t"
  "mentions_token (EBinary op l r) = (mentions_token l \<or> mentions_token r)"
  "mentions_token ENull = False" "mentions_token (EBool b) = False" "mentions_token (ENumber x) = False"
  "mentions_token (EStr nm) = False"
  "mentions_token (EIndex t i) = (mentions_token t \<or> mentions_token i \<or>
     (is_named ''github'' t \<and> (\<exists>n. i = EStr n \<and> eq_ignore_ascii_case n (lit ''token''))))"
  by (auto simp: mentions_token_def)

lemma findings_of_record [simp]:
  "findings_of (record_needs_output tb e sp out) = findings_of out"
  "findings_of (record_dynamic_vars sp out) = (findings_of out)\<lparr>fd_whole_vars := True\<rparr>"
  by (auto simp: findings_of_def record_needs_output_def record_dynamic_vars_def split: option.splits)

lemma findings_of_name [simp]:
  "findings_of (record_name True nm sp out) = (findings_of out)\<lparr>fd_secrets := insert nm (fd_secrets (findings_of out))\<rparr>"
  "findings_of (record_name False nm sp out) = (findings_of out)\<lparr>fd_vars := insert nm (fd_vars (findings_of out))\<rparr>"
  by (auto simp: findings_of_def record_name_def push_span_def)

lemma findings_of_token [simp]:
  "findings_of (record_token t i out) = (findings_of out)\<lparr>fd_token := fd_token (findings_of out) \<or>
     (is_named ''github'' t \<and> (\<exists>nm. i = EStr nm \<and> eq_ignore_ascii_case nm (lit ''token'')))\<rparr>"
  by (auto simp: findings_of_def record_token_def split: expr.splits)

lemma distinct_names:
  "is_named ''secrets'' t \<Longrightarrow> \<not> is_named ''vars'' t" "is_named ''vars'' t \<Longrightarrow> \<not> is_named ''secrets'' t"
  "is_named ''secrets'' t \<Longrightarrow> \<not> is_named ''github'' t" "is_named ''vars'' t \<Longrightarrow> \<not> is_named ''github'' t"
  by (auto simp: is_named_iff eq_ignore_ascii_case_def to_ascii_lowercase_def lit_def)

lemma whole_vars_named: "is_named ''vars'' t \<Longrightarrow> whole_vars t" "is_named ''secrets'' t \<Longrightarrow> \<not> whole_vars t"
  by (auto simp: is_named_iff eq_ignore_ascii_case_def to_ascii_lowercase_def lit_def)

lemma named_leaf: "is_named c t \<Longrightarrow> names_under c' t = {}" "is_named c t \<Longrightarrow> \<not> mentions_token t"
  by (auto simp: is_named_iff)

lemma walk_findings:
  "findings_of (walk_expr tb e sp out) = adds {e} (findings_of out)"
  "findings_of (walk_exprs tb es sp out) = adds (set es) (findings_of out)"
proof (induction tb e sp out and tb es sp out rule: walk_expr_walk_exprs.induct)
  case (6 tb t i sp out)
  consider "is_named ''secrets'' t" | "is_named ''vars'' t" | "\<not> is_named ''secrets'' t" "\<not> is_named ''vars'' t" by blast
  then show ?case
  proof cases
    case 1
    then show ?thesis using 6 by (cases i) (auto simp: adds_def Let_def distinct_names whole_vars_named named_leaf)
  next
    case 2
    then show ?thesis using 6 by (cases i) (auto simp: adds_def Let_def distinct_names whole_vars_named named_leaf)
  next
    case 3
    then show ?thesis using 6 by (auto simp: adds_def Let_def)
  qed
qed (auto simp: adds_def Let_def whole_vars_named named_leaf)

section \<open>Outputs of needed jobs\<close>

definition output_references :: "needs_output_reference list \<Rightarrow> (ustr \<times> ustr \<times> ustr) set" where
  "output_references rs = (\<lambda>r. (nr_referencing_job r, nr_referenced_job r, nr_output r)) ` set rs"

text \<open>The references an extraction has gained; the job that makes them is filled in later.\<close>

definition grows :: "static_extraction \<Rightarrow> static_extraction \<Rightarrow> (ustr \<times> ustr) set \<Rightarrow> bool" where
  "grows out out' ps \<longleftrightarrow> (\<exists>rs. sx_needs_outputs out' = sx_needs_outputs out @ rs \<and> output_references rs = Pair [] ` ps)"

lemma grows_refl: "grows out out {}"
  by (simp add: grows_def output_references_def)

lemma grows_trans: "grows a b ps \<Longrightarrow> grows b c qs \<Longrightarrow> grows a c (ps \<union> qs)"
  by (auto simp: grows_def output_references_def image_Un)

lemma grows_by_need: "grows out (record_needs_output tb e sp out) {p. needs_output_path tb e = Some p}"
  by (auto simp: grows_def record_needs_output_def output_references_def split: option.splits)

lemma grows_same: "sx_needs_outputs out' = sx_needs_outputs out \<Longrightarrow> grows out out' {}"
  by (simp add: grows_def output_references_def)

lemma needs_kept [simp]:
  "sx_needs_outputs (record_dynamic_vars sp out) = sx_needs_outputs out"
  "sx_needs_outputs (record_name b nm sp out) = sx_needs_outputs out"
  "sx_needs_outputs (record_token t i out) = sx_needs_outputs out"
  by (simp_all add: record_dynamic_vars_def record_name_def record_token_def)

lemma needed_outputs_simps:
  "needed_outputs tb (ECall f es) = {p. needs_output_path tb (ECall f es) = Some p} \<union> (\<Union>e\<in>set es. needed_outputs tb e)"
  "needed_outputs tb (EIndex t i) = {p. needs_output_path tb (EIndex t i) = Some p} \<union> (needed_outputs tb t \<union> needed_outputs tb i)"
  "needed_outputs tb (EWildcard t) = {p. needs_output_path tb (EWildcard t) = Some p} \<union> needed_outputs tb t"
  "needed_outputs tb (ENot t) = {p. needs_output_path tb (ENot t) = Some p} \<union> needed_outputs tb t"
  "needed_outputs tb (EBinary op l r) = {p. needs_output_path tb (EBinary op l r) = Some p} \<union>
     (needed_outputs tb l \<union> needed_outputs tb r)"
  by (auto simp: needed_outputs_def)

lemma needed_outputs_leaf:
  "needed_outputs tb ENull = {p. needs_output_path tb ENull = Some p}"
  "needed_outputs tb (EBool b) = {p. needs_output_path tb (EBool b) = Some p}"
  "needed_outputs tb (ENumber x) = {p. needs_output_path tb (ENumber x) = Some p}"
  "needed_outputs tb (EStr nm) = {p. needs_output_path tb (EStr nm) = Some p}"
  by (auto simp: needed_outputs_def)

lemma leaf_needs_nothing: "needed_outputs tb (ENamedValue nm) = {}" "needed_outputs tb (EStr nm) = {}"
  "is_named c t \<Longrightarrow> needed_outputs tb t = {}"
  by (auto simp: needed_outputs_def needs_output_path_def is_named_iff split: if_splits)

lemma grows_from: "grows out out' ps \<Longrightarrow> sx_needs_outputs out = sx_needs_outputs o0 \<Longrightarrow> grows o0 out' ps"
  by (simp add: grows_def)

lemma walk_index_named:
  assumes "is_named ''secrets'' t \<or> is_named ''vars'' t" and "\<nexists>nm. i = EStr nm"
  shows "walk_expr tb (EIndex t i) sp out = walk_expr tb i sp (if is_named ''vars'' t
    then record_dynamic_vars sp (record_needs_output tb (EIndex t i) sp out) else record_needs_output tb (EIndex t i) sp out)"
  using assms by (cases i) (simp_all only: walk_expr.simps(6) Let_def expr.case if_True simp_thms, simp_all)

lemma walk_exprs_grows:
  "(\<And>e out. e \<in> set es \<Longrightarrow> grows out (walk_expr tb e sp out) (needed_outputs tb e)) \<Longrightarrow>
    grows out (walk_exprs tb es sp out) (\<Union>e\<in>set es. needed_outputs tb e)"
proof (induction es arbitrary: out)
  case (Cons e es)
  have "grows out (walk_expr tb e sp out) (needed_outputs tb e)" by (simp add: Cons.prems)
  moreover have "grows (walk_expr tb e sp out) (walk_exprs tb (e # es) sp out) (\<Union>e\<in>set es. needed_outputs tb e)"
    using Cons.IH Cons.prems by simp
  ultimately show ?case using grows_trans by fastforce
qed (simp add: grows_refl)

lemma walk_grows: "grows out (walk_expr tb e sp out) (needed_outputs tb e)"
proof (induction e arbitrary: out)
  case (ENamedValue nm)
  then show ?case by (simp add: leaf_needs_nothing grows_def output_references_def Let_def record_needs_output_def needs_output_path_def)
next
  case (ECall f es)
  show ?case unfolding needed_outputs_simps walk_expr.simps
    by (rule grows_trans [OF grows_by_need walk_exprs_grows [OF ECall]])
next
  case (EWildcard t)
  show ?case
  proof (cases "is_named ''vars'' t")
    case True
    then show ?thesis
      by (auto simp: needed_outputs_simps leaf_needs_nothing Let_def intro!: grows_by_need [THEN grows_trans, OF grows_same, simplified])
  next
    case False
    then show ?thesis unfolding needed_outputs_simps by (simp add: Let_def grows_trans [OF grows_by_need EWildcard])
  qed
next
  case (EIndex t i)
  let ?o = "record_needs_output tb (EIndex t i) sp out"
  note n = grows_trans [OF grows_by_need [of out tb "EIndex t i" sp]]
  consider nm where "is_named ''secrets'' t \<or> is_named ''vars'' t" "i = EStr nm"
    | "is_named ''secrets'' t \<or> is_named ''vars'' t" "\<nexists>nm. i = EStr nm"
    | "\<not> (is_named ''secrets'' t \<or> is_named ''vars'' t)" by blast
  then show ?case
  proof cases
    case 1
    then have "grows ?o (walk_expr tb (EIndex t i) sp out) {}" by (auto simp: Let_def intro: grows_same)
    from n [OF this] 1 show ?thesis by (auto simp: needed_outputs_simps leaf_needs_nothing)
  next
    case 2
    have "grows ?o (walk_expr tb (EIndex t i) sp out) (needed_outputs tb i)"
      unfolding walk_index_named [OF 2] by (rule grows_from [OF EIndex.IH(2)]) simp
    from n [OF this] 2 show ?thesis by (auto simp: needed_outputs_simps leaf_needs_nothing)
  next
    case 3
    have "grows ?o (record_token t i ?o) {}" by (simp add: grows_same)
    from n [OF grows_trans [OF this grows_trans [OF EIndex.IH]]] 3 show ?thesis
      by (simp add: needed_outputs_simps Let_def)
  qed
qed (auto simp: needed_outputs_simps needed_outputs_leaf intro: grows_trans grows_by_need)

section \<open>The scan of an accepted workflow\<close>

definition exprs_in :: "item list \<Rightarrow> expr set" where
  "exprs_in its = {e. \<exists>it\<in>set its. \<exists>es. item_exprs it = Some es \<and> e \<in> set es}"

definition references_in :: "item list \<Rightarrow> ustr spanned list" where
  "references_in its = concat (map (\<lambda>it. case it of UsesItem r \<Rightarrow> [r] | _ \<Rightarrow> []) its)"

definition labels_in :: "item list \<Rightarrow> ustr spanned list" where
  "labels_in its = concat (map (\<lambda>it. case it of LabelItem l \<Rightarrow> [l] | _ \<Rightarrow> []) its)"

lemma exprs_in_Cons: "exprs_in (it # its) = (case item_exprs it of None \<Rightarrow> {} | Some es \<Rightarrow> set es) \<union> exprs_in its"
  by (auto simp: exprs_in_def split: option.splits)

lemma exprs_in_append: "exprs_in (xs @ ys) = exprs_in xs \<union> exprs_in ys"
  by (auto simp: exprs_in_def)

lemma record_keeps_lists [simp]:
  "sx_uses (record_needs_output tb e sp out) = sx_uses out" "sx_runs_on (record_needs_output tb e sp out) = sx_runs_on out"
  "sx_uses (record_dynamic_vars sp out) = sx_uses out" "sx_runs_on (record_dynamic_vars sp out) = sx_runs_on out"
  "sx_uses (record_name b nm sp out) = sx_uses out" "sx_runs_on (record_name b nm sp out) = sx_runs_on out"
  "sx_uses (record_token t i out) = sx_uses out" "sx_runs_on (record_token t i out) = sx_runs_on out"
  by (auto simp: record_needs_output_def record_dynamic_vars_def record_name_def record_token_def split: option.splits)

lemma walk_exprs_keeps: "(\<And>e out. e \<in> set es \<Longrightarrow> f (walk_expr tb e sp out) = f out) \<Longrightarrow> f (walk_exprs tb es sp out) = f out"
  by (induction es arbitrary: out) simp_all

lemma walk_expr_keeps_lists:
  "sx_uses (walk_expr tb e sp out) = sx_uses out \<and> sx_runs_on (walk_expr tb e sp out) = sx_runs_on out"
proof (induction e arbitrary: out)
  case (ECall g es)
  then show ?case using walk_exprs_keeps [of es sx_uses] walk_exprs_keeps [of es sx_runs_on] by simp
next
  case (EIndex t i)
  consider nm where "is_named ''secrets'' t \<or> is_named ''vars'' t" "i = EStr nm"
    | "is_named ''secrets'' t \<or> is_named ''vars'' t" "\<nexists>nm. i = EStr nm"
    | "\<not> (is_named ''secrets'' t \<or> is_named ''vars'' t)" by blast
  then show ?case
  proof cases
    case 2
    show ?thesis unfolding walk_index_named [OF 2] by (simp add: EIndex.IH)
  qed (auto simp: Let_def EIndex.IH)
qed (auto simp: Let_def)

lemma walk_keeps_lists: "sx_uses (walk_exprs tb es sp out) = sx_uses out" "sx_runs_on (walk_exprs tb es sp out) = sx_runs_on out"
  by (simp_all add: walk_exprs_keeps walk_expr_keeps_lists)

definition scanned :: "tables \<Rightarrow> item list \<Rightarrow> static_extraction \<Rightarrow> static_extraction \<Rightarrow> bool" where
  "scanned tb its out out' \<longleftrightarrow> findings_of out' = adds (exprs_in its) (findings_of out) \<and>
     sx_uses out' = sx_uses out @ references_in its \<and> sx_runs_on out' = sx_runs_on out @ labels_in its"

lemma scanned_Nil: "scanned tb [] out out"
  by (simp add: scanned_def exprs_in_def references_in_def labels_in_def adds_simps)

lemma scanned_append: "scanned tb xs a b \<Longrightarrow> scanned tb ys b c \<Longrightarrow> scanned tb (xs @ ys) a c"
  by (auto simp: scanned_def exprs_in_append references_in_def labels_in_def adds_simps)

lemma item_scanned:
  assumes "item_exprs it = Some es"
  shows "\<exists>out'. run_item tb it out = Inr out' \<and> scanned tb [it] out out' \<and> grows out out' (\<Union>e\<in>set es. needed_outputs tb e)"
proof -
  have walk: "scanned tb [it] out (walk_exprs tb es sp out) \<and> grows out (walk_exprs tb es sp out) (\<Union>e\<in>set es. needed_outputs tb e)"
    if "item_exprs it = Some es" "references_in [it] = []" "labels_in [it] = []" for sp
    using that by (simp add: scanned_def exprs_in_Cons exprs_in_def walk_findings walk_keeps_lists walk_exprs_grows walk_grows)
  show ?thesis
  proof (cases it)
    case (TextItem t sp)
    with assms walk show ?thesis
      by (auto simp: scan_wrapped_text_def rbind_eq_Inr parse_template_Inr references_in_def labels_in_def)
  next
    case (ConditionItem t sp)
    with assms show ?thesis using walk [of sp]
      by (cases "str_contains t (lit ''${{'')") (auto simp: scan_if_condition_def scan_wrapped_text_def condition_exprs_def
        rbind_eq_Inr parse_template_Inr parse_body_Inr references_in_def labels_in_def split: sum.splits)
  qed (use assms in \<open>auto simp: scanned_def exprs_in_def references_in_def labels_in_def adds_def findings_of_def intro: grows_same\<close>)
qed

lemma items_scanned:
  "all_parse its \<Longrightarrow> \<exists>out'. run_items tb its out = Inr out' \<and> scanned tb its out out' \<and>
    grows out out' (\<Union>e\<in>exprs_in its. needed_outputs tb e)"
proof (induction its arbitrary: out)
  case (Cons it its)
  from Cons.prems obtain es where es: "item_exprs it = Some es" by auto
  from item_scanned [OF es] obtain o1 where o1: "run_item tb it out = Inr o1" "scanned tb [it] out o1"
    "grows out o1 (\<Union>e\<in>set es. needed_outputs tb e)" by blast
  from Cons obtain o2 where o2: "run_items tb its o1 = Inr o2" "scanned tb its o1 o2"
    "grows o1 o2 (\<Union>e\<in>exprs_in its. needed_outputs tb e)" by fastforce
  from o1 o2 scanned_append [OF o1(2) o2(2)] grows_trans [OF o1(3) o2(3)] es show ?case
    by (simp add: exprs_in_Cons)
qed (simp add: scanned_Nil exprs_in_def grows_refl)

section \<open>Policies\<close>

definition allowed_context :: "expression_policy \<Rightarrow> ustr \<Rightarrow> bool" where
  "allowed_context p nm = list_ex (\<lambda>c. eq_ignore_ascii_case (lit c) nm) (contexts p)"

lemma validate_site_contexts:
  "validate_site p sp ctxt e = Inr () \<Longrightarrow> ENamedValue nm \<in> subexprs e \<Longrightarrow> allowed_context p nm"
  "validate_sites p sp ctxt es = Inr () \<Longrightarrow> e \<in> set es \<Longrightarrow> ENamedValue nm \<in> subexprs e \<Longrightarrow> allowed_context p nm"
  by (induction p sp ctxt e and p sp ctxt es arbitrary: and e rule: validate_site_validate_sites.induct)
    (auto simp: allowed_context_def rbind_eq_Inr split: if_splits)

lemma subexprs_self: "e \<in> subexprs e"
  by (cases e) simp_all

lemma subexprs_trans: "x \<in> subexprs y \<Longrightarrow> y \<in> subexprs z \<Longrightarrow> x \<in> subexprs z"
  by (induction z) auto

lemma static_path_origin: "static_context_path tb e = Some p \<Longrightarrow> p \<noteq> [] \<and> ENamedValue (hd p) \<in> subexprs e"
  by (induction tb e arbitrary: p rule: static_context_path.induct) (auto split: option.splits)

lemma needed_outputs_policy:
  assumes "validate_site p sp ctxt e = Inr ()" and "\<And>nm. eq_ignore_ascii_case nm (lit ''needs'') \<Longrightarrow> \<not> allowed_context p nm"
  shows "needed_outputs tb e = {}"
proof -
  have False if s: "s \<in> subexprs e" "needs_output_path tb s = Some q" for s q
  proof -
    from s(2) obtain path where path: "static_context_path tb s = Some path" "eq_ignore_ascii_case (path ! 0) (lit ''needs'')"
      by (auto simp: needs_output_path_def split: option.splits if_splits)
    with static_path_origin [OF path(1)] have "ENamedValue (path ! 0) \<in> subexprs s" by (metis hd_conv_nth)
    with s(1) assms path(2) show False using validate_site_contexts(1) subexprs_trans by blast
  qed
  then show ?thesis by (auto simp: needed_outputs_def)
qed

lemma validate_sites_each: "validate_sites p sp ctxt es = Inr () \<longleftrightarrow> (\<forall>e\<in>set es. validate_site p sp ctxt e = Inr ())"
  by (induction es) (auto simp: rbind_eq_Inr)

lemma template_needs_nothing:
  assumes "validate_template t sp ctxt p = Inr ()" "template_exprs t = Some es" "e \<in> set es"
    and "\<And>nm. eq_ignore_ascii_case nm (lit ''needs'') \<Longrightarrow> \<not> allowed_context p nm"
  shows "needed_outputs tb e = {}"
  using assms needed_outputs_policy [of p sp ctxt e]
  by (auto simp: validate_template_def rbind_eq_Inr parse_template_Inr validate_sites_each)

lemma workflow_needs_nothing:
  "eq_ignore_ascii_case nm (lit ''needs'') \<Longrightarrow> \<not> allowed_context RunName nm"
  "eq_ignore_ascii_case nm (lit ''needs'') \<Longrightarrow> \<not> allowed_context WorkflowEnv nm"
  by (auto simp: allowed_context_def eq_ignore_ascii_case_def to_ascii_lowercase_def lit_def)

lemma head_template_needs_nothing:
  "validate_template t sp ctxt p = Inr () \<Longrightarrow> p = RunName \<or> p = WorkflowEnv \<Longrightarrow> template_exprs t = Some es \<Longrightarrow>
    e \<in> set es \<Longrightarrow> needed_outputs tb e = {}"
  by (erule template_needs_nothing) (auto dest: workflow_needs_nothing)

section \<open>The workflow\<close>

definition head_items :: "workflow \<Rightarrow> item list" where
  "head_items w = optional text_item (wf_run_name w) @ mapping_items (wf_env w)"

lemma workflow_items_split: "workflow_items w = head_items w @ concat (map job_items (wf_jobs w))"
  by (simp add: workflow_items_def head_items_def)

lemma head_scanned:
  assumes "validate_workflow w = Inr ()"
  shows "all_parse (head_items w)" "(\<Union>e\<in>exprs_in (head_items w). needed_outputs tb e) = {}"
proof -
  have v: "\<And>n. wf_run_name w = Some n \<Longrightarrow> validate_text n (lit ''run-name'') RunName = Inr ()"
    "\<forall>x\<in>set (wf_env w). validate_scalar (snd x) (lit ''env'') WorkflowEnv = Inr ()"
    using assms by (simp_all add: validate_workflow_def site_simps)
  then show "all_parse (head_items w)"
    by (auto simp: head_items_def all_parse_append parses_optional intro: validate_text_parses mapping_parses)
  have "needed_outputs tb e = {}" if "e \<in> exprs_in (optional text_item (wf_run_name w))" for e
    using that v(1) head_template_needs_nothing [of _ _ _ RunName _ e tb]
    by (cases "wf_run_name w") (auto simp: exprs_in_def optional_def text_item_def validate_text_def)
  moreover have "needed_outputs tb e = {}" if e: "e \<in> exprs_in (mapping_items (wf_env w))" for e
  proof -
    from e obtain x it es where i: "x \<in> set (wf_env w)" "it \<in> set (scalar_item (snd x))" "item_exprs it = Some es" "e \<in> set es"
      by (auto simp: exprs_in_def mapping_items_def)
    then obtain t where x: "x \<in> set (wf_env w)" "node (snd x) = ScalarExpression t" "template_exprs t = Some es" "e \<in> set es"
      by (cases "node (snd x)") (auto simp: scalar_item_def)
    with v(2) have "validate_template t (node_span (snd x)) (lit ''env'') WorkflowEnv = Inr ()" by (fastforce simp: validate_scalar_def)
    from head_template_needs_nothing [OF this] x show ?thesis by blast
  qed
  ultimately show "(\<Union>e\<in>exprs_in (head_items w). needed_outputs tb e) = {}"
    by (auto simp: head_items_def exprs_in_append)
qed

definition scanned_references :: "tables \<Rightarrow> workflow_job \<Rightarrow> (ustr \<times> ustr \<times> ustr) set" where
  "scanned_references tb j = Pair (node (wj_id j)) ` (\<Union>e\<in>exprs_in (job_items j). needed_outputs tb e)"

lemma job_scanned:
  assumes "validate_job j = Inr ()"
  shows "\<exists>out'. scan_job tb j out = Inr out' \<and> scanned tb (job_items j) out out' \<and>
    output_references (sx_needs_outputs out') = output_references (sx_needs_outputs out) \<union> scanned_references tb j"
proof -
  from items_scanned [OF validate_job_parses [OF assms], of tb out] obtain o1 rs where
    o1: "run_items tb (job_items j) out = Inr o1" "scanned tb (job_items j) out o1"
    and rs: "sx_needs_outputs o1 = sx_needs_outputs out @ rs"
      "output_references rs = Pair [] ` (\<Union>e\<in>exprs_in (job_items j). needed_outputs tb e)"
    by (auto simp: grows_def)
  let ?rs = "map (\<lambda>r. r\<lparr>nr_referencing_job := node (wj_id j)\<rparr>) rs"
  let ?out = "o1\<lparr>sx_needs_outputs := sx_needs_outputs out @ ?rs\<rparr>"
  have "output_references ?rs = (\<lambda>(_, q). (node (wj_id j), q)) ` output_references rs"
    by (auto simp: output_references_def image_image)
  then have "output_references ?rs = scanned_references tb j"
    by (simp add: rs(2) scanned_references_def image_image)
  moreover have "scan_job tb j out = Inr ?out" by (simp add: scan_job_def scan_fields_items o1(1) rs(1))
  moreover have "scanned tb (job_items j) out ?out" using o1(2) by (simp add: scanned_def findings_of_def)
  ultimately show ?thesis by (auto simp: output_references_def image_Un)
qed

lemma jobs_scanned:
  "each validate_job js = Inr () \<Longrightarrow> \<exists>out'. scan_each (scan_job tb) js out = Inr out' \<and>
    scanned tb (concat (map job_items js)) out out' \<and>
    output_references (sx_needs_outputs out') = output_references (sx_needs_outputs out) \<union> (\<Union>j\<in>set js. scanned_references tb j)"
proof (induction js arbitrary: out)
  case (Cons j js)
  then have j: "validate_job j = Inr ()" and js: "each validate_job js = Inr ()" by (auto simp: rbind_eq_Inr)
  from job_scanned [OF j, of tb out] obtain o1 where o1: "scan_job tb j out = Inr o1" "scanned tb (job_items j) out o1"
    "output_references (sx_needs_outputs o1) = output_references (sx_needs_outputs out) \<union> scanned_references tb j" by blast
  from Cons.IH [OF js, of o1] obtain o2 where o2: "scan_each (scan_job tb) js o1 = Inr o2"
    "scanned tb (concat (map job_items js)) o1 o2"
    "output_references (sx_needs_outputs o2) = output_references (sx_needs_outputs o1) \<union> (\<Union>j\<in>set js. scanned_references tb j)"
    by blast
  from o1 o2 scanned_append [OF o1(2) o2(2)] show ?case by (simp add: Un_assoc)
qed (simp add: scanned_Nil)

lemma workflow_scanned:
  assumes "validate_workflow w = Inr ()"
  shows "\<exists>out. extract_static tb w = Inr out \<and> scanned tb (workflow_items w) nothing_extracted out \<and>
    output_references (sx_needs_outputs out) = (\<Union>j\<in>set (wf_jobs w). scanned_references tb j)"
proof -
  from items_scanned [OF head_scanned(1) [OF assms], of tb nothing_extracted] obtain o1 where
    o1: "run_items tb (head_items w) nothing_extracted = Inr o1" "scanned tb (head_items w) nothing_extracted o1"
    "sx_needs_outputs o1 = []"
    by (auto simp: grows_def head_scanned(2) [OF assms] output_references_def nothing_extracted_def)
  from assms have "each validate_job (wf_jobs w) = Inr ()" by (simp add: validate_workflow_def rbind_eq_Inr)
  from jobs_scanned [OF this, of tb o1] obtain o2 where o2: "scan_each (scan_job tb) (wf_jobs w) o1 = Inr o2"
    "scanned tb (concat (map job_items (wf_jobs w))) o1 o2"
    "output_references (sx_needs_outputs o2) = (\<Union>j\<in>set (wf_jobs w). scanned_references tb j)"
    using o1(3) by (auto simp: output_references_def)
  have "run_items tb (head_items w) out = rbind (run_items tb (optional text_item (wf_run_name w)) out)
      (run_items tb (mapping_items (wf_env w)))" for out
    by (simp only: head_items_def run_items_append)
  then have "extract_static tb w = rbind (run_items tb (head_items w) nothing_extracted) (scan_each (scan_job tb) (wf_jobs w))"
    by (simp add: extract_static_def mapping_items_def scan_given_items scan_each_items scan_text_items scan_scalar_items
      split_def comp_def rbind_assoc del: run_items_simps)
  then have "extract_static tb w = Inr o2" by (simp add: o1(1) o2(1))
  moreover have "scanned tb (workflow_items w) nothing_extracted o2"
    unfolding workflow_items_split by (rule scanned_append [OF o1(2) o2(2)])
  ultimately show ?thesis using o2(3) by blast
qed

section \<open>The fields that may hold expressions\<close>

text \<open>
  Every field of a workflow whose text the validation examines, in the order of the model and of the
  validation: the fields in which expressions are accepted and the fields in which they are refused.
\<close>

definition concurrency_items :: "concurrency \<Rightarrow> item list" where
  "concurrency_items c = text_item (cc_group c) @ optional scalar_item (cc_cancel_in_progress c)"

definition written_step :: "step \<Rightarrow> item list" where
  "written_step s = optional text_item (st_id s) @ optional condition_item (st_if s) @ optional scalar_item (st_name s) @
     mapping_items (st_env s) @ optional scalar_item (st_working_directory s) @
     optional scalar_item (st_continue_on_error s) @ optional scalar_item (st_timeout_minutes s) @
     (case st_action s of
        StepRun script sh \<Rightarrow> text_item script @ optional text_item sh
      | StepUses reference w \<Rightarrow> text_item reference @ [UsesItem reference] @ mapping_items w)"

definition written_job :: "workflow_job \<Rightarrow> item list" where
  "written_job j = optional text_item (wj_name j) @ optional (label_items \<circ> node) (wj_runs_on j) @
     concat (map text_item (wj_needs j)) @ optional condition_item (wj_if j) @
     concat (map (text_item \<circ> snd) (wj_outputs j)) @ mapping_items (wj_env j) @
     optional (defaults_items \<circ> node) (wj_defaults j) @ optional (strategy_items \<circ> node) (wj_strategy j) @
     concat (map (container_items \<circ> node \<circ> snd) (wj_services j)) @
     optional (container_items \<circ> node) (wj_container j) @ concat (map written_step (wj_steps j)) @
     optional (concurrency_items \<circ> node) (wj_concurrency j)"

definition written_workflow :: "workflow \<Rightarrow> item list" where
  "written_workflow w = optional text_item (wf_name w) @ optional text_item (wf_run_name w) @ mapping_items (wf_env w) @
     optional (defaults_items \<circ> node) (wf_defaults w) @ optional (concurrency_items \<circ> node) (wf_concurrency w) @
     concat (map written_job (wf_jobs w))"

text \<open>No expression in the concurrency settings of the workflow or of a job.\<close>

definition plain_scalar :: "scalar_or_expr \<Rightarrow> bool" where
  "plain_scalar v = (case v of ScalarLiteral _ \<Rightarrow> True | ScalarExpression t \<Rightarrow> \<not> str_contains t (lit ''${{''))"

definition plain_concurrency :: "concurrency spanned option \<Rightarrow> bool" where
  "plain_concurrency c = (case c of None \<Rightarrow> True | Some c \<Rightarrow> \<not> str_contains (node (cc_group (node c))) (lit ''${{'') \<and>
     (case cc_cancel_in_progress (node c) of None \<Rightarrow> True | Some v \<Rightarrow> plain_scalar (node v)))"

definition plain_groups :: "workflow \<Rightarrow> bool" where
  "plain_groups w \<longleftrightarrow> plain_concurrency (wf_concurrency w) \<and> list_all (\<lambda>j. plain_concurrency (wj_concurrency j)) (wf_jobs w)"

definition job_references :: "tables \<Rightarrow> workflow_job \<Rightarrow> (ustr \<times> ustr \<times> ustr) set" where
  "job_references tb j = Pair (node (wj_id j)) ` (\<Union>e\<in>exprs_in (written_job j). needed_outputs tb e)"

text \<open>Items without action references and labels.\<close>

definition mute :: "item list \<Rightarrow> bool" where
  "mute its \<longleftrightarrow> references_in its = [] \<and> labels_in its = []"

lemma exprs_in_concat: "exprs_in (concat xs) = (\<Union>x\<in>set xs. exprs_in x)"
  by (auto simp: exprs_in_def)

lemma lists_append [simp]:
  "references_in (xs @ ys) = references_in xs @ references_in ys" "labels_in (xs @ ys) = labels_in xs @ labels_in ys"
  by (simp_all add: references_in_def labels_in_def)

lemma lists_concat: "references_in (concat xs) = concat (map references_in xs)" "labels_in (concat xs) = concat (map labels_in xs)"
  by (induction xs) (simp_all add: references_in_def labels_in_def)

lemma mute_append [simp]: "mute (xs @ ys) \<longleftrightarrow> mute xs \<and> mute ys"
  by (auto simp: mute_def)

lemma mute_concat: "(\<And>x. mute (f x)) \<Longrightarrow> mute (concat (map f xs))"
  by (auto simp: mute_def references_in_def labels_in_def)

lemma mute_optional: "(\<And>y. mute (f y)) \<Longrightarrow> mute (optional f x)"
  by (cases x) (simp_all add: optional_def mute_def references_in_def labels_in_def)

lemma mute_fields: "mute (text_item v)" "mute (scalar_item a)" "mute (condition_item v)"
  by (auto simp: text_item_def scalar_item_def condition_item_def mute_def references_in_def labels_in_def split: scalar_or_expr.splits)

lemma mute_mapping: "mute (mapping_items m)"
  by (auto simp: mapping_items_def comp_def intro!: mute_concat mute_fields)

lemma mute_yaml: "mute (yaml_items v sp)" "mute (yaml_list_items vs)" "mute (yaml_entry_items es)"
  by (induction v sp and vs and es rule: yaml_items_yaml_list_items_yaml_entry_items.induct)
    (simp_all add: mute_def references_in_def labels_in_def)

lemma mute_strategy: "mute (strategy_items s)"
  by (auto simp: strategy_items_def matrix_items_def intro!: mute_optional mute_concat mute_fields mute_yaml split: matrix_source.splits)

lemma mute_container: "mute (container_items c)"
  by (auto simp: container_items_def intro!: mute_optional mute_concat mute_fields mute_mapping)

lemma mute_defaults: "mute (defaults_items d)"
  by (auto simp: defaults_items_def intro!: mute_optional mute_fields)

lemma mute_concurrency: "mute (concurrency_items c)"
  by (auto simp: concurrency_items_def intro!: mute_optional mute_fields)

lemma exprs_in_optional: "exprs_in (optional f x) = (\<Union>y\<in>set_option x. exprs_in (f y))"
  by (cases x) (simp_all add: optional_def exprs_in_def)

lemma plain_text_no_exprs: "\<not> str_contains (node v) (lit ''${{'') \<Longrightarrow> exprs_in (text_item v) = {}"
  by (simp add: text_item_def exprs_in_def plain_text_exprs)

lemma rejected_no_exprs: "reject_text v ctxt = Inr () \<Longrightarrow> exprs_in (text_item v) = {}"
  by (rule plain_text_no_exprs) (simp add: reject_text_def reject_template_def split: if_splits)

lemma plain_scalar_no_exprs: "plain_scalar (node v) \<Longrightarrow> exprs_in (scalar_item v) = {}"
  by (auto simp: plain_scalar_def scalar_item_def exprs_in_def plain_text_exprs split: scalar_or_expr.splits)

lemma plain_concurrency_no_exprs: "plain_concurrency c \<Longrightarrow> exprs_in (optional (concurrency_items \<circ> node) c) = {}"
  by (auto simp: plain_concurrency_def concurrency_items_def exprs_in_append exprs_in_optional plain_text_no_exprs
    plain_scalar_no_exprs split: option.splits)

lemma workflow_defaults_no_exprs: "validate_defaults d ctxt True = Inr () \<Longrightarrow> exprs_in (defaults_items d) = {}"
proof -
  assume v: "validate_defaults d ctxt True = Inr ()"
  have "exprs_in (optional text_item (rd_shell (node r))) = {}" if "df_run d = Some r" for r
    using v that by (auto simp: validate_defaults_def exprs_in_optional site_simps dest: rejected_no_exprs)
  moreover have "plain_scalar (node dir)" if "df_run d = Some r" "rd_working_directory (node r) = Some dir" for r dir
    using v that by (auto simp: validate_defaults_def plain_scalar_def reject_template_def site_simps split: scalar_or_expr.splits if_splits)
  then have "exprs_in (optional scalar_item (rd_working_directory (node r))) = {}" if "df_run d = Some r" for r
    using that plain_scalar_no_exprs by (auto simp: exprs_in_optional)
  ultimately show ?thesis by (auto simp: defaults_items_def exprs_in_append exprs_in_optional [of _ "df_run d"])
qed

lemma written_step_exprs:
  assumes "validate_step s ctxt = Inr ()" "\<And>x. st_id s = Some x \<Longrightarrow> reject_text x k = Inr ()"
  shows "exprs_in (written_step s) = exprs_in (step_items s)"
proof -
  have "exprs_in (optional text_item (st_id s)) = {}" using assms(2) rejected_no_exprs by (auto simp: exprs_in_optional)
  moreover have "exprs_in (text_item r) = {}" if "st_action s = StepUses r w" for r w
    using assms(1) that by (auto simp: validate_step_def site_simps dest: rejected_no_exprs)
  ultimately show ?thesis
    by (cases "st_action s") (simp_all add: written_step_def step_items_def exprs_in_append exprs_in_Cons exprs_in_def [of "[]"])
qed

lemma written_steps_exprs:
  "validate_steps n pre i ss taken = Inr () \<Longrightarrow> s \<in> set ss \<Longrightarrow> exprs_in (written_step s) = exprs_in (step_items s)"
proof (induction n pre i ss taken rule: validate_steps.induct)
  case (2 n pre i x ss taken)
  show ?case
  proof (cases "s = x")
    case True
    with 2(2) show ?thesis
      by (intro written_step_exprs) (auto simp: Let_def rbind_eq_Inr validate_step_id_def split: option.splits)
  next
    case False
    with 2 show ?thesis by (auto simp: Let_def rbind_eq_Inr)
  qed
qed simp

lemma written_job_exprs:
  assumes "validate_job j = Inr ()" "plain_concurrency (wj_concurrency j)"
  shows "exprs_in (written_job j) = exprs_in (job_items j)"
proof -
  have "\<forall>n\<in>set (wj_needs j). reject_text n (lit ''jobs.'' @ node (wj_id j) @ lit ''.needs'') = Inr ()"
    and steps: "validate_steps (node (wj_id j)) (lit ''jobs.'' @ node (wj_id j)) 0 (wj_steps j) Map.empty = Inr ()"
    using assms(1) by (simp_all add: validate_job_def Let_def site_simps)
  then have "exprs_in (concat (map text_item (wj_needs j))) = {}" by (auto simp: exprs_in_concat dest!: rejected_no_exprs)
  moreover have "exprs_in (concat (map written_step (wj_steps j))) = exprs_in (concat (map step_items (wj_steps j)))"
    using written_steps_exprs [OF steps] by (simp add: exprs_in_concat)
  ultimately show ?thesis
    by (simp add: written_job_def job_items_def exprs_in_append plain_concurrency_no_exprs [OF assms(2)] Un_ac)
qed

lemmas mute_parts = mute_fields mute_mapping mute_strategy mute_container mute_defaults mute_concurrency mute_optional mute_concat

lemma mute_lists: "mute its \<Longrightarrow> references_in its = []" "mute its \<Longrightarrow> labels_in its = []"
  by (simp_all add: mute_def)

lemma reference_lists: "references_in (UsesItem r # its) = r # references_in its" "labels_in (UsesItem r # its) = labels_in its"
  by (simp_all add: references_in_def labels_in_def)

lemma step_lists:
  "references_in (written_step s) = references_in (step_items s)" "labels_in (written_step s) = labels_in (step_items s)"
  by (cases "st_action s"; simp add: written_step_def step_items_def mute_lists mute_parts reference_lists)+

lemma job_lists:
  "references_in (written_job j) = references_in (job_items j)" "labels_in (written_job j) = labels_in (job_items j)"
proof -
  have "mute (concat (map text_item (wj_needs j)))" "mute (concat (map (text_item \<circ> snd) (wj_outputs j)))"
    "mute (concat (map (container_items \<circ> node \<circ> snd) (wj_services j)))" "mute (optional text_item (wj_name j))"
    "mute (optional condition_item (wj_if j))" "mute (mapping_items (wj_env j))"
    "mute (optional (strategy_items \<circ> node) (wj_strategy j))" "mute (optional (defaults_items \<circ> node) (wj_defaults j))"
    "mute (optional (container_items \<circ> node) (wj_container j))" "mute (optional (concurrency_items \<circ> node) (wj_concurrency j))"
    by (auto intro!: mute_optional mute_concat mute_fields mute_mapping mute_strategy mute_container mute_defaults mute_concurrency)
  note parts = this [THEN mute_lists(1)] this [THEN mute_lists(2)]
  have "references_in (concat (map written_step ss)) = references_in (concat (map step_items ss))"
    "labels_in (concat (map written_step ss)) = labels_in (concat (map step_items ss))" for ss
    by (simp_all add: lists_concat step_lists comp_def)
  then show "references_in (written_job j) = references_in (job_items j)" "labels_in (written_job j) = labels_in (job_items j)"
    by (simp_all add: written_job_def job_items_def parts)
qed

lemma written_workflow_holds:
  assumes "validate_workflow w = Inr ()" "plain_groups w"
  shows "exprs_in (written_workflow w) = exprs_in (workflow_items w)"
    "references_in (written_workflow w) = references_in (workflow_items w)"
    "labels_in (written_workflow w) = labels_in (workflow_items w)"
    "\<And>j. j \<in> set (wf_jobs w) \<Longrightarrow> job_references tb j = scanned_references tb j"
proof -
  have jobs: "exprs_in (written_job j) = exprs_in (job_items j)" if "j \<in> set (wf_jobs w)" for j
    using assms that by (intro written_job_exprs) (auto simp: validate_workflow_def site_simps plain_groups_def list_all_iff)
  then show "job_references tb j = scanned_references tb j" if "j \<in> set (wf_jobs w)" for j
    using that by (simp add: job_references_def scanned_references_def)
  have "exprs_in (optional text_item (wf_name w)) = {}" "exprs_in (optional (defaults_items \<circ> node) (wf_defaults w)) = {}"
    using assms(1) by (auto simp: validate_workflow_def exprs_in_optional site_simps rejected_no_exprs workflow_defaults_no_exprs)
  moreover have "exprs_in (optional (concurrency_items \<circ> node) (wf_concurrency w)) = {}"
    using assms(2) by (intro plain_concurrency_no_exprs) (simp add: plain_groups_def)
  ultimately show "exprs_in (written_workflow w) = exprs_in (workflow_items w)"
    using jobs by (simp add: written_workflow_def workflow_items_def exprs_in_append exprs_in_concat)
  show "references_in (written_workflow w) = references_in (workflow_items w)"
    "labels_in (written_workflow w) = labels_in (workflow_items w)"
    by (simp_all add: written_workflow_def workflow_items_def mute_lists mute_parts lists_concat [of "map written_job _"]
      lists_concat [of "map job_items _"] job_lists comp_def)
qed

text \<open>
  C8: Every workflow the validation accepts can be scanned for its static references, and the scan
  finds exactly what the fields of the workflow mention, provided the concurrency settings of the
  workflow and of its jobs hold no expression (the scan leaves those fields out). The fields are all
  those whose text the validation examines, whether it accepts expressions there or refuses them. Found are the names
  of secrets and variables, whether the whole \<open>vars\<close> context or the GitHub token is used, the outputs
  of needed jobs with the job that refers to them, and, in order, the action references and the
  runner labels.
\<close>

theorem accepted_workflow_is_scanned:
  assumes "validate_workflow w = Inr ()" and "plain_groups w"
  shows "\<exists>out. extract_static tb w = Inr out \<and>
    dom (sx_secrets out) = (\<Union>e\<in>exprs_in (written_workflow w). names_under ''secrets'' e) \<and>
    dom (sx_vars out) = (\<Union>e\<in>exprs_in (written_workflow w). names_under ''vars'' e) \<and>
    sx_has_dynamic_vars_lookup out = (\<exists>e\<in>exprs_in (written_workflow w). whole_vars e) \<and>
    sx_references_github_token out = (\<exists>e\<in>exprs_in (written_workflow w). mentions_token e) \<and>
    output_references (sx_needs_outputs out) = (\<Union>j\<in>set (wf_jobs w). job_references tb j) \<and>
    sx_uses out = references_in (written_workflow w) \<and> sx_runs_on out = labels_in (written_workflow w)"
  using workflow_scanned [OF assms(1), of tb] written_workflow_holds [OF assms]
  by (auto simp: scanned_def findings_of_def adds_def nothing_extracted_def)

text \<open>A workflow with a secret, a runner label and two steps, and one whose concurrency group reads a variable.\<close>

definition here :: "'a \<Rightarrow> 'a spanned" where
  "here v = spanned v sample_span"

definition sample_step :: "step_action \<Rightarrow> step" where
  "sample_step action = \<lparr>st_span = sample_span, st_id = None, st_if = None, st_name = None, st_env = [],
     st_working_directory = None, st_continue_on_error = None, st_timeout_minutes = None, st_action = action\<rparr>"

definition sample_job :: workflow_job where
  "sample_job = \<lparr>wj_span = sample_span, wj_id = here (lit ''b''), wj_name = None,
     wj_runs_on = Some (here (RunsOnLabel (here (lit ''u'')))), wj_needs = [],
     wj_if = None, wj_outputs = [], wj_env = [(here (lit ''K''), here (ScalarExpression (lit ''${{secrets.k}}'')))],
     wj_defaults = None, wj_permissions = None, wj_strategy = None, wj_services = [], wj_container = None,
     wj_steps = [sample_step (StepUses (here (lit ''a/b@v1'')) []), sample_step (StepRun (here (lit ''ls'')) None)],
     wj_environment = None, wj_concurrency = None, wj_reusable_call = None\<rparr>"

definition sample_workflow :: workflow where
  "sample_workflow = \<lparr>wf_span = sample_span, wf_name = None, wf_run_name = None, wf_on = [], wf_env = [], wf_defaults = None,
     wf_permissions = None, wf_concurrency = Some (here \<lparr>cc_group = here (lit ''g''), cc_cancel_in_progress = None\<rparr>),
     wf_jobs = [sample_job]\<rparr>"

definition grouped_workflow :: workflow where
  "grouped_workflow = sample_workflow\<lparr>wf_jobs := [],
     wf_concurrency := Some (here \<lparr>cc_group = here (lit ''${{vars.g}}''), cc_cancel_in_progress = None\<rparr>)\<rparr>"

lemma sample_workflow_accepted: "validate_workflow sample_workflow = Inr ()" "plain_groups sample_workflow"
  by code_simp+

lemma grouped_workflow_missed:
  "validate_workflow grouped_workflow = Inr () \<and> template_exprs (lit ''${{vars.g}}'') = Some [EIndex (ENamedValue (lit ''vars'')) (EStr (lit ''g''))]
   \<and> extract_static tb grouped_workflow = Inr nothing_extracted"
proof (intro conjI)
  show "validate_workflow grouped_workflow = Inr ()" by code_simp
  show "template_exprs (lit ''${{vars.g}}'') = Some [EIndex (ENamedValue (lit ''vars'')) (EStr (lit ''g''))]" by code_simp
  show "extract_static tb grouped_workflow = Inr nothing_extracted"
    by (simp add: extract_static_def grouped_workflow_def sample_workflow_def scan_given_def)
qed

lemma sample_lists:
  "references_in (written_workflow sample_workflow) = [here (lit ''a/b@v1'')]"
  "labels_in (written_workflow sample_workflow) = [here (lit ''u'')]"
  "all_parse (written_workflow sample_workflow)"
  by code_simp+

lemma sample_exprs: "exprs_in (written_workflow sample_workflow) = {EIndex (ENamedValue (lit ''secrets'')) (EStr (lit ''k''))}"
proof -
  have "map item_exprs (written_workflow sample_workflow) =
      [Some [], Some [], Some [], Some [EIndex (ENamedValue (lit ''secrets'')) (EStr (lit ''k''))], Some [], Some [], Some []]" by code_simp
  then show ?thesis by (auto simp: exprs_in_def map_eq_Cons_conv)
qed

lemma sample_named: "is_named ''secrets'' (ENamedValue (lit ''secrets''))"
  by code_simp

theorem accepted_workflow_is_scanned_witness:
  "\<exists>out. extract_static \<lparr>tb_upper = ascii_upper, tb_category = (\<lambda>_. OtherCategory)\<rparr> sample_workflow = Inr out \<and>
    dom (sx_secrets out) = {lit ''k''} \<and> sx_uses out = [here (lit ''a/b@v1'')] \<and> sx_runs_on out = [here (lit ''u'')]"
  using accepted_workflow_is_scanned [OF sample_workflow_accepted, of "\<lparr>tb_upper = ascii_upper, tb_category = (\<lambda>_. OtherCategory)\<rparr>"]
  by (auto simp: sample_lists sample_exprs sample_named)

text \<open>
  A condition of several segments passes the validation, which reads it as a template, but planning
  and resolving strip at most one wrapper around the whole text and then fail to parse it.
\<close>

lemma mixed_condition_accepted_not_parsed:
  "validate_if (lit ''${{true}} == 1'') sample_span [] StepIf = Inr () \<and>
   (\<nexists>e. parse (strip_if_wrapper (lit ''${{true}} == 1'')) = Inr e)"
proof
  show "validate_if (lit ''${{true}} == 1'') sample_span [] StepIf = Inr ()" by code_simp
  have "(case parse (strip_if_wrapper (lit ''${{true}} == 1'')) of Inl _ \<Rightarrow> True | Inr _ \<Rightarrow> False)" by code_simp
  then show "\<nexists>e. parse (strip_if_wrapper (lit ''${{true}} == 1'')) = Inr e" by (auto split: sum.splits)
qed

end
