(* ===== verification/Workflow_Parse.thy ===== *)
theory Workflow_Parse
  imports Workflow_Validate Utf8
begin

text \<open>
  Reading a tree into the typed workflow (\<open>greenlit-workflow/src/parse/\<close>): the helpers of
  \<open>util.rs\<close>, triggers and dispatch inputs, steps, containers, strategies, jobs and the root mapping.
  Every mapping is checked against the keys it may have, and what was read is validated before it is
  returned.
\<close>

section \<open>Helpers\<close>

type_synonym entries = "(spanned_node \<times> spanned_node) list"

definition as_mapping :: "spanned_node \<Rightarrow> ustr \<Rightarrow> workflow_error + entries" where
  "as_mapping n ctxt = (case fst n of RMapping es \<Rightarrow> Inr es | _ \<Rightarrow> Inl (Schema (snd n) (ctxt @ lit '' must be a mapping'')))"

definition as_sequence :: "spanned_node \<Rightarrow> ustr \<Rightarrow> workflow_error + spanned_node list" where
  "as_sequence n ctxt = (case fst n of RSequence xs \<Rightarrow> Inr xs | _ \<Rightarrow> Inl (Schema (snd n) (ctxt @ lit '' must be a sequence'')))"

definition as_scalar :: "spanned_node \<Rightarrow> ustr \<Rightarrow> workflow_error + raw_scalar" where
  "as_scalar n ctxt = (case fst n of RScalar s \<Rightarrow> Inr s | _ \<Rightarrow> Inl (Schema (snd n) (ctxt @ lit '' must be a scalar'')))"

definition key_text :: "spanned_node \<Rightarrow> workflow_error + ustr" where
  "key_text n = (case as_key_text (fst n) of Some t \<Rightarrow> Inr t | None \<Rightarrow> Inl (Schema (snd n) (lit ''mapping keys must be scalars'')))"

definition find_pair :: "entries \<Rightarrow> string \<Rightarrow> (spanned_node \<times> spanned_node) option" where
  "find_pair es name = List.find (\<lambda>e. as_key_text (fst (fst e)) = Some (lit name)) es"

definition find_node :: "entries \<Rightarrow> string \<Rightarrow> spanned_node option" where
  "find_node es name = map_option snd (find_pair es name)"

fun reject_unknown_keys :: "entries \<Rightarrow> string list \<Rightarrow> ustr \<Rightarrow> workflow_error + unit" where
  "reject_unknown_keys [] known ctxt = Inr ()"
| "reject_unknown_keys (e # es) known ctxt = rbind (key_text (fst e)) (\<lambda>t.
     if t \<notin> set (map lit known) then Inl (UnknownKey (snd (fst e)) t ctxt) else reject_unknown_keys es known ctxt)"

definition require :: "entries \<Rightarrow> string \<Rightarrow> span \<Rightarrow> ustr \<Rightarrow> workflow_error + spanned_node" where
  "require es name sp ctxt = (case find_node es name of Some v \<Rightarrow> Inr v | None \<Rightarrow> Inl (MissingKey sp (lit name) ctxt))"

text \<open>\<open>find(..).map(f).transpose()?\<close>, and \<open>match find(..) { Some(v) => f(v)?, None => Vec::new() }\<close>.\<close>

definition optional_field :: "entries \<Rightarrow> string \<Rightarrow> (spanned_node \<Rightarrow> workflow_error + 'a) \<Rightarrow> workflow_error + 'a option" where
  "optional_field es name f = (case find_node es name of None \<Rightarrow> Inr None | Some v \<Rightarrow> rbind (f v) (\<lambda>x. Inr (Some x)))"

definition list_field :: "entries \<Rightarrow> string \<Rightarrow> (spanned_node \<Rightarrow> workflow_error + 'a list) \<Rightarrow> workflow_error + 'a list" where
  "list_field es name f = (case find_node es name of None \<Rightarrow> Inr [] | Some v \<Rightarrow> f v)"

text \<open>\<open>Ok(Spanned::new(f(v)?, v.span.clone()))\<close>\<close>

definition with_span :: "(spanned_node \<Rightarrow> workflow_error + 'a) \<Rightarrow> spanned_node \<Rightarrow> workflow_error + 'a spanned" where
  "with_span f v = rbind (f v) (\<lambda>x. Inr (spanned x (snd v)))"

definition read_scalar_or_expr :: "ustr \<Rightarrow> spanned_node \<Rightarrow> workflow_error + scalar_or_expr" where
  "read_scalar_or_expr ctxt n = rbind (as_scalar n ctxt) (\<lambda>s. Inr (classify (rs_raw s) (rs_value s)))"

definition spanned_scalar_or_expr :: "ustr \<Rightarrow> spanned_node \<Rightarrow> workflow_error + scalar_or_expr spanned" where
  "spanned_scalar_or_expr ctxt = with_span (read_scalar_or_expr ctxt)"

definition expect_bool :: "ustr \<Rightarrow> spanned_node \<Rightarrow> workflow_error + bool spanned" where
  "expect_bool ctxt n = rbind (as_scalar n ctxt) (\<lambda>s. case rs_value s of
     YBool b \<Rightarrow> Inr (spanned b (snd n))
   | _ \<Rightarrow> Inl (Schema (snd n) (ctxt @ lit '' must be a boolean (true or false)'')))"

definition expect_string :: "ustr \<Rightarrow> spanned_node \<Rightarrow> workflow_error + ustr spanned" where
  "expect_string ctxt n = rbind (as_scalar n ctxt) (\<lambda>s. case rs_value s of
     YString _ \<Rightarrow> Inr (spanned (rs_raw s) (snd n))
   | _ \<Rightarrow> Inl (Schema (snd n) (ctxt @ lit '' must be a string'')))"

definition expect_string_sequence :: "ustr \<Rightarrow> spanned_node \<Rightarrow> workflow_error + ustr spanned list" where
  "expect_string_sequence ctxt n = rbind (as_sequence n ctxt) (rmap (expect_string ctxt))"

definition raw_string :: "ustr \<Rightarrow> spanned_node \<Rightarrow> workflow_error + ustr spanned" where
  "raw_string ctxt n = rbind (as_scalar n ctxt) (\<lambda>s. Inr (spanned (rs_raw s) (snd n)))"

definition string_list :: "ustr \<Rightarrow> spanned_node \<Rightarrow> workflow_error + ustr spanned list" where
  "string_list ctxt n = (case fst n of
     RScalar s \<Rightarrow> Inr [spanned (rs_raw s) (snd n)]
   | RSequence xs \<Rightarrow> rmap (raw_string ctxt) xs
   | RMapping _ \<Rightarrow> Inl (Schema (snd n) (ctxt @ lit '' must be a string or a list of strings'')))"

definition named :: "(spanned_node \<Rightarrow> workflow_error + 'a) \<Rightarrow> spanned_node \<times> spanned_node \<Rightarrow> workflow_error + ustr spanned \<times> 'a" where
  "named f e = rbind (key_text (fst e)) (\<lambda>t. rbind (f (snd e)) (\<lambda>x. Inr (spanned t (snd (fst e)), x)))"

definition read_scalar_or_expr_map :: "ustr \<Rightarrow> spanned_node \<Rightarrow> workflow_error + scalar_or_expr_map" where
  "read_scalar_or_expr_map ctxt n = rbind (as_mapping n ctxt) (rmap (named (spanned_scalar_or_expr ctxt)))"

definition scalar_or_expr_seq :: "ustr \<Rightarrow> spanned_node \<Rightarrow> workflow_error + scalar_or_expr spanned list" where
  "scalar_or_expr_seq ctxt n = rbind (as_sequence n ctxt) (rmap (spanned_scalar_or_expr ctxt))"

definition parse_run_defaults :: "ustr \<Rightarrow> spanned_node \<Rightarrow> workflow_error + run_defaults" where
  "parse_run_defaults ctxt v = rbind (as_mapping v ctxt) (\<lambda>es.
     rbind (reject_unknown_keys es [''shell'', ''working-directory''] ctxt) (\<lambda>_.
     rbind (optional_field es ''shell'' (raw_string ctxt)) (\<lambda>sh.
     rbind (optional_field es ''working-directory'' (spanned_scalar_or_expr ctxt)) (\<lambda>dir.
       Inr \<lparr>rd_shell = sh, rd_working_directory = dir\<rparr>))))"

definition parse_defaults :: "ustr \<Rightarrow> spanned_node \<Rightarrow> workflow_error + defaults" where
  "parse_defaults ctxt n = rbind (as_mapping n ctxt) (\<lambda>es.
     rbind (reject_unknown_keys es [''run''] ctxt) (\<lambda>_.
     rbind (optional_field es ''run'' (with_span (parse_run_defaults ctxt))) (\<lambda>r. Inr \<lparr>df_run = r\<rparr>)))"

fun to_yaml_value :: "raw_node \<Rightarrow> yaml_value" where
  "to_yaml_value (RScalar s) = YamlScalar (classify (rs_raw s) (rs_value s))"
| "to_yaml_value (RSequence xs) = YamlSequence (map (\<lambda>e. (to_yaml_value (fst e), snd e)) xs)"
| "to_yaml_value (RMapping es) = YamlMapping (map (\<lambda>e.
     (spanned (case as_key_text (fst (fst e)) of Some t \<Rightarrow> t | None \<Rightarrow> []) (snd (fst e)),
      (to_yaml_value (fst (snd e)), snd (snd e)))) es)"

definition quoted :: "ustr \<Rightarrow> ustr" where
  "quoted t = [39] @ t @ [39]"

section \<open>Dispatch inputs\<close>

definition validate_input_name :: "ustr spanned \<Rightarrow> workflow_error + unit" where
  "validate_input_name name = (if (case node name of
       c # cs \<Rightarrow> (is_ascii_alphabetic c \<or> c = cp CHR ''_'') \<and>
         list_all (\<lambda>c. is_ascii_alphanumeric c \<or> c = cp CHR ''-'' \<or> c = cp CHR ''_'') cs
     | [] \<Rightarrow> False) then Inr ()
     else Inl (Schema (node_span name) (lit ''workflow_dispatch input '' @ quoted (node name) @
       lit '' must start with a letter or '' @ quoted (lit ''_'') @ lit '' and contain only letters, digits, '' @
       quoted (lit ''-'') @ lit '' or '' @ quoted (lit ''_''))))"

fun default_matches :: "workflow_dispatch_input_type \<Rightarrow> yaml_value \<Rightarrow> bool" where
  "default_matches InputBoolean (YamlScalar (ScalarLiteral (YBool _))) = True"
| "default_matches InputNumber (YamlScalar (ScalarLiteral (YNumber _))) = True"
| "default_matches k (YamlScalar (ScalarLiteral (YString _))) \<longleftrightarrow> k \<noteq> InputBoolean \<and> k \<noteq> InputNumber"
| "default_matches _ _ = False"

fun input_type_name :: "workflow_dispatch_input_type \<Rightarrow> string" where
  "input_type_name InputString = ''String''"
| "input_type_name InputBoolean = ''Boolean''"
| "input_type_name InputNumber = ''Number''"
| "input_type_name InputChoice = ''Choice''"
| "input_type_name InputEnvironment = ''Environment''"

definition validate_default :: "workflow_dispatch_input_type \<Rightarrow> (yaml_value \<times> span) option \<Rightarrow> workflow_error + unit" where
  "validate_default k d = (case d of None \<Rightarrow> Inr ()
   | Some (v, sp) \<Rightarrow> (if default_matches k v then Inr ()
       else Inl (Schema sp (lit ''workflow_dispatch '' @ lit (input_type_name k) @ lit '' input default must be '' @
         lit (if k = InputBoolean then ''a boolean'' else if k = InputNumber then ''a number'' else ''a string'')))))"

definition validate_input_shape :: "span \<Rightarrow> workflow_dispatch_input_type spanned option \<Rightarrow> (yaml_value \<times> span) option \<Rightarrow>
    ustr spanned list \<Rightarrow> workflow_error + unit" where
  "validate_input_shape sp input_type d options = (let k = (case input_type of Some t \<Rightarrow> node t | None \<Rightarrow> InputString) in
     if k = InputChoice \<and> options = []
     then Inl (Schema sp (lit ''workflow_dispatch choice input must declare at least one option''))
     else if k \<noteq> InputChoice \<and> options \<noteq> []
     then Inl (Schema (node_span (hd options)) (lit ''workflow_dispatch input options are only valid for type '' @
       quoted (lit ''choice'')))
     else validate_default k d)"

definition input_kind :: "ustr \<Rightarrow> workflow_dispatch_input_type option" where
  "input_kind t = (if t = lit ''string'' then Some InputString else if t = lit ''boolean'' then Some InputBoolean
     else if t = lit ''number'' then Some InputNumber else if t = lit ''choice'' then Some InputChoice
     else if t = lit ''environment'' then Some InputEnvironment else None)"

definition parse_input_type :: "spanned_node \<Rightarrow> workflow_error + workflow_dispatch_input_type spanned" where
  "parse_input_type n = rbind (expect_string (lit ''on.workflow_dispatch.inputs.<name>.type'') n) (\<lambda>t.
     case input_kind (node t) of
       Some k \<Rightarrow> Inr (spanned k (node_span t))
     | None \<Rightarrow> Inl (Schema (node_span t) (lit ''input type '' @ quoted (node t) @
         lit '' is not one of string|boolean|number|choice|environment'')))"

definition parse_dispatch_input :: "spanned_node \<times> spanned_node \<Rightarrow> workflow_error + workflow_dispatch_input" where
  "parse_dispatch_input e = (let value_node = snd e; pre = lit ''on.workflow_dispatch.inputs.<name>'' in
     rbind (key_text (fst e)) (\<lambda>t. let name = spanned t (snd (fst e)) in
     rbind (validate_input_name name) (\<lambda>_.
     rbind (as_mapping value_node pre) (\<lambda>es.
     rbind (reject_unknown_keys es [''description'', ''required'', ''default'', ''type'', ''options''] pre) (\<lambda>_.
     rbind (optional_field es ''description'' (expect_string (pre @ lit ''.description''))) (\<lambda>description.
     rbind (optional_field es ''required'' (expect_bool (pre @ lit ''.required''))) (\<lambda>required.
     let d = map_option (\<lambda>n. (to_yaml_value (fst n), snd n)) (find_node es ''default'') in
     rbind (optional_field es ''type'' parse_input_type) (\<lambda>input_type.
     rbind (list_field es ''options'' (expect_string_sequence (pre @ lit ''.options''))) (\<lambda>options.
     rbind (validate_input_shape (snd value_node) input_type d options) (\<lambda>_.
       Inr \<lparr>in_span = snd value_node, in_name = name, in_description = description, in_required = required,
         in_default = d, in_type = input_type, in_options = options\<rparr>))))))))))"

definition parse_inputs :: "spanned_node \<Rightarrow> workflow_error + workflow_dispatch_input list" where
  "parse_inputs n = rbind (as_mapping n (lit ''on.workflow_dispatch.inputs'')) (\<lambda>es.
     if 25 < length es then Inl (Schema (snd n) (lit ''on.workflow_dispatch.inputs defines '' @ dec_string (length es) @
       lit '' inputs, exceeding the maximum of 25''))
     else rmap parse_dispatch_input es)"

definition parse_workflow_dispatch :: "spanned_node \<Rightarrow> workflow_error + workflow_dispatch" where
  "parse_workflow_dispatch n = rbind (as_mapping n (lit ''on.workflow_dispatch'')) (\<lambda>es.
     rbind (reject_unknown_keys es [''inputs''] (lit ''on.workflow_dispatch'')) (\<lambda>_.
     rbind (list_field es ''inputs'' parse_inputs) (\<lambda>ins. Inr \<lparr>wd_inputs = ins\<rparr>)))"

section \<open>Triggers\<close>

definition empty_webhook_filter :: "span \<Rightarrow> webhook_filter" where
  "empty_webhook_filter sp = \<lparr>wh_span = sp, wh_branches = [], wh_branches_ignore = [], wh_tags = [], wh_tags_ignore = [],
     wh_paths = [], wh_paths_ignore = [], wh_types = []\<rparr>"

definition reject_conflict :: "entries \<Rightarrow> ustr \<Rightarrow> string \<times> string \<Rightarrow> workflow_error + unit" where
  "reject_conflict es ctxt p = (case (find_pair es (fst p), find_pair es (snd p)) of
     (Some positive, Some ignored) \<Rightarrow> Inl (Schema (snd (fst ignored)) (ctxt @ lit '' filter '' @ quoted (lit (fst p)) @
       lit '' at '' @ span_display (snd (fst positive)) @ lit '' conflicts with '' @ quoted (lit (snd p)) @ lit '' at '' @
       span_display (snd (fst ignored))))
   | _ \<Rightarrow> Inr ())"

definition reject_conflicting_filters :: "entries \<Rightarrow> ustr \<Rightarrow> workflow_error + unit" where
  "reject_conflicting_filters es ctxt = each (reject_conflict es ctxt)
     [(''branches'', ''branches-ignore''), (''tags'', ''tags-ignore''), (''paths'', ''paths-ignore'')]"

definition is_negative :: "ustr spanned \<Rightarrow> bool" where
  "is_negative p = prefix (lit ''!'') (node p)"

definition validate_negative_patterns :: "ustr spanned list \<Rightarrow> string \<Rightarrow> ustr \<Rightarrow> workflow_error + unit" where
  "validate_negative_patterns patterns key ctxt = (case List.find is_negative patterns of
     Some negative \<Rightarrow> (if list_ex (\<lambda>p. \<not> is_negative p) patterns then Inr ()
       else Inl (Schema (node_span negative) (ctxt @ lit ''.'' @ lit key @
         lit '' uses a negative pattern but has no positive pattern; use '' @ quoted (lit key @ lit ''-ignore'') @
         lit '' for exclusions only'')))
   | None \<Rightarrow> Inr ())"

definition filter_list :: "entries \<Rightarrow> ustr \<Rightarrow> string \<Rightarrow> workflow_error + ustr spanned list" where
  "filter_list es ctxt key = list_field es key (\<lambda>v.
     rbind (string_list (ctxt @ lit ''.'' @ lit key) v) (\<lambda>patterns.
       if patterns = [] then Inl (Schema (snd v) (ctxt @ lit ''.'' @ lit key @ lit '' must contain at least one pattern''))
       else (case List.find (\<lambda>p. node p = []) patterns of
         Some p \<Rightarrow> Inl (Schema (node_span p) (ctxt @ lit ''.'' @ lit key @ lit '' patterns must not be empty''))
       | None \<Rightarrow> Inr patterns)))"

definition filter_keys :: "ustr \<Rightarrow> string list" where
  "filter_keys event_name = (if event_name = lit ''push''
     then [''branches'', ''branches-ignore'', ''tags'', ''tags-ignore'', ''paths'', ''paths-ignore'']
     else [''branches'', ''branches-ignore'', ''paths'', ''paths-ignore'', ''types''])"

definition parse_webhook_filter :: "spanned_node \<Rightarrow> ustr \<Rightarrow> workflow_error + webhook_filter" where
  "parse_webhook_filter n event_name = (let ctxt = lit ''on.'' @ event_name in
     rbind (as_mapping n ctxt) (\<lambda>es.
     rbind (reject_unknown_keys es (filter_keys event_name) ctxt) (\<lambda>_.
     rbind (reject_conflicting_filters es ctxt) (\<lambda>_.
     rbind (filter_list es ctxt ''branches'') (\<lambda>branches.
     rbind (filter_list es ctxt ''branches-ignore'') (\<lambda>branches_ignore.
     rbind (filter_list es ctxt ''tags'') (\<lambda>tags.
     rbind (filter_list es ctxt ''tags-ignore'') (\<lambda>tags_ignore.
     rbind (filter_list es ctxt ''paths'') (\<lambda>paths.
     rbind (filter_list es ctxt ''paths-ignore'') (\<lambda>paths_ignore.
     rbind (filter_list es ctxt ''types'') (\<lambda>types.
     rbind (validate_negative_patterns branches ''branches'' ctxt) (\<lambda>_.
     rbind (validate_negative_patterns tags ''tags'' ctxt) (\<lambda>_.
     rbind (validate_negative_patterns paths ''paths'' ctxt) (\<lambda>_.
       Inr \<lparr>wh_span = snd n, wh_branches = branches, wh_branches_ignore = branches_ignore, wh_tags = tags,
         wh_tags_ignore = tags_ignore, wh_paths = paths, wh_paths_ignore = paths_ignore, wh_types = types\<rparr>))))))))))))))"

definition schedule_timezone :: "span \<Rightarrow> ustr spanned \<Rightarrow> entries \<Rightarrow> workflow_error + schedule" where
  "schedule_timezone sp cron es =
     rbind (optional_field es ''timezone'' (expect_string (lit ''on.schedule[].timezone''))) (\<lambda>timezone.
       case timezone of
         Some tz \<Rightarrow> (if trim (node tz) = [] then Inl (Schema (node_span tz) (lit ''on.schedule[].timezone must not be empty''))
           else Inr \<lparr>sc_span = sp, sc_cron = cron, sc_timezone = Some tz\<rparr>)
       | None \<Rightarrow> Inr \<lparr>sc_span = sp, sc_cron = cron, sc_timezone = None\<rparr>)"

definition parse_schedule_item :: "spanned_node \<Rightarrow> workflow_error + schedule" where
  "parse_schedule_item item = rbind (as_mapping item (lit ''on.schedule[]'')) (\<lambda>es.
     rbind (reject_unknown_keys es [''cron'', ''timezone''] (lit ''on.schedule[]'')) (\<lambda>_.
     rbind (require es ''cron'' (snd item) (lit ''on.schedule[]'')) (\<lambda>cron_node.
     rbind (expect_string (lit ''on.schedule[].cron'') cron_node) (\<lambda>cron.
       if trim (node cron) = [] then Inl (Schema (node_span cron) (lit ''on.schedule[].cron must not be empty''))
       else schedule_timezone (snd item) cron es))))"

definition parse_schedule :: "spanned_node \<Rightarrow> workflow_error + schedule list" where
  "parse_schedule n = rbind (as_sequence n (lit ''on.schedule'')) (\<lambda>xs.
     if xs = [] then Inl (Schema (snd n) (lit ''on.schedule must declare at least one cron mapping''))
     else rmap parse_schedule_item xs)"

definition parse_dispatch_types :: "spanned_node \<Rightarrow> workflow_error + ustr spanned list" where
  "parse_dispatch_types c = rbind (as_mapping c (lit ''on.repository_dispatch'')) (\<lambda>es.
     rbind (reject_unknown_keys es [''types''] (lit ''on.repository_dispatch'')) (\<lambda>_.
       list_field es ''types'' (string_list (lit ''on.repository_dispatch.types''))))"

definition is_webhook :: "ustr \<Rightarrow> bool" where
  "is_webhook name \<longleftrightarrow> name = lit ''push'' \<or> name = lit ''pull_request'' \<or> name = lit ''pull_request_target''"

definition trigger_of :: "ustr spanned \<Rightarrow> spanned_node option \<Rightarrow> span \<Rightarrow> workflow_error + trigger" where
  "trigger_of name config sp =
    (if is_webhook (node name) then
       rbind (case config of Some c \<Rightarrow> parse_webhook_filter c (node name) | None \<Rightarrow> Inr (empty_webhook_filter sp))
         (\<lambda>f. Inr (Webhook (node name) f))
     else if node name = lit ''workflow_dispatch'' then
       rbind (case config of Some c \<Rightarrow> parse_workflow_dispatch c | None \<Rightarrow> Inr \<lparr>wd_inputs = []\<rparr>) (\<lambda>d. Inr (WorkflowDispatch d))
     else if node name = lit ''schedule'' then
       (case config of
          Some c \<Rightarrow> rbind (parse_schedule c) (\<lambda>ss. Inr (ScheduleTrigger ss))
        | None \<Rightarrow> Inl (Schema (node_span name) (lit ''on.schedule must declare at least one cron mapping'')))
     else if node name = lit ''repository_dispatch'' then
       rbind (case config of Some c \<Rightarrow> parse_dispatch_types c | None \<Rightarrow> Inr []) (\<lambda>ts. Inr (RepositoryDispatch ts))
     else if node name = lit ''workflow_call'' then
       Inr (WorkflowCall \<lparr>uc_name = lit ''workflow_call'', uc_location = sp\<rparr>)
     else Inr (OtherTrigger (node name) (map_option (\<lambda>c. (to_yaml_value (fst c), snd c)) config)))"

definition build_trigger :: "ustr spanned \<Rightarrow> spanned_node option \<Rightarrow> workflow_error + trigger spanned" where
  "build_trigger name config = (let sp = (case config of None \<Rightarrow> node_span name | Some c \<Rightarrow> snd c) in
     rbind (trigger_of name config sp) (\<lambda>t. Inr (spanned t sp)))"

definition trigger_from_bare_name :: "spanned_node \<Rightarrow> workflow_error + trigger spanned" where
  "trigger_from_bare_name n = rbind (raw_string (lit ''on'') n) (\<lambda>name. build_trigger name None)"

definition trigger_from_entry :: "spanned_node \<times> spanned_node \<Rightarrow> workflow_error + trigger spanned" where
  "trigger_from_entry e = rbind (key_text (fst e)) (\<lambda>t. build_trigger (spanned t (snd (fst e)))
     (case fst (snd e) of RScalar s \<Rightarrow> (if rs_value s = YNull then None else Some (snd e)) | _ \<Rightarrow> Some (snd e)))"

definition parse_on :: "spanned_node \<Rightarrow> workflow_error + trigger spanned list" where
  "parse_on n = (case fst n of
     RScalar _ \<Rightarrow> rbind (trigger_from_bare_name n) (\<lambda>t. Inr [t])
   | RSequence xs \<Rightarrow> rmap trigger_from_bare_name xs
   | RMapping es \<Rightarrow> rmap trigger_from_entry es)"

section \<open>Steps and containers\<close>

definition step_keys :: "string list" where
  "step_keys = [''id'', ''if'', ''name'', ''uses'', ''run'', ''shell'', ''with'', ''env'', ''working-directory'',
     ''continue-on-error'', ''timeout-minutes'']"

definition parse_action :: "span \<Rightarrow> entries \<Rightarrow> workflow_error + step_action" where
  "parse_action sp es = (case (find_node es ''run'', find_node es ''uses'') of
     (Some run_node, None) \<Rightarrow> rbind (raw_string (lit ''step.run'') run_node) (\<lambda>script.
       rbind (optional_field es ''shell'' (raw_string (lit ''step.shell''))) (\<lambda>sh. Inr (StepRun script sh)))
   | (None, Some uses_node) \<Rightarrow> rbind (raw_string (lit ''step.uses'') uses_node) (\<lambda>reference.
       rbind (list_field es ''with'' (read_scalar_or_expr_map (lit ''step.with''))) (\<lambda>w. Inr (StepUses reference w)))
   | (Some _, Some _) \<Rightarrow> Inl (Schema sp (lit ''step must not have both '' @ quoted (lit ''run'') @ lit '' and '' @ quoted (lit ''uses'')))
   | (None, None) \<Rightarrow> Inl (Schema sp (lit ''step must have either '' @ quoted (lit ''run'') @ lit '' or '' @ quoted (lit ''uses''))))"

definition check_action_keys :: "span \<Rightarrow> entries \<Rightarrow> step_action \<Rightarrow> workflow_error + unit" where
  "check_action_keys sp es action = (case action of
     StepUses _ _ \<Rightarrow> (if find_node es ''shell'' \<noteq> None
       then Inl (Schema sp (quoted (lit ''shell'') @ lit '' is only valid on a '' @ quoted (lit ''run'') @ lit '' step'')) else Inr ())
   | StepRun _ _ \<Rightarrow> (if find_node es ''with'' \<noteq> None
       then Inl (Schema sp (quoted (lit ''with'') @ lit '' is only valid on a '' @ quoted (lit ''uses'') @ lit '' step'')) else Inr ()))"

definition parse_step :: "spanned_node \<Rightarrow> workflow_error + step" where
  "parse_step n = rbind (as_mapping n (lit ''step'')) (\<lambda>es.
     rbind (reject_unknown_keys es step_keys (lit ''step'')) (\<lambda>_.
     rbind (optional_field es ''id'' (raw_string (lit ''step.id''))) (\<lambda>i.
     rbind (optional_field es ''if'' (raw_string (lit ''step.if''))) (\<lambda>c.
     rbind (optional_field es ''name'' (spanned_scalar_or_expr (lit ''step.name''))) (\<lambda>name.
     rbind (list_field es ''env'' (read_scalar_or_expr_map (lit ''step.env''))) (\<lambda>e.
     rbind (optional_field es ''working-directory'' (spanned_scalar_or_expr (lit ''step.working-directory''))) (\<lambda>dir.
     rbind (optional_field es ''continue-on-error'' (spanned_scalar_or_expr (lit ''step.continue-on-error''))) (\<lambda>coe.
     rbind (optional_field es ''timeout-minutes'' (spanned_scalar_or_expr (lit ''step.timeout-minutes''))) (\<lambda>minutes.
     rbind (parse_action (snd n) es) (\<lambda>action.
     rbind (check_action_keys (snd n) es action) (\<lambda>_.
       Inr \<lparr>st_span = snd n, st_id = i, st_if = c, st_name = name, st_env = e, st_working_directory = dir,
         st_continue_on_error = coe, st_timeout_minutes = minutes, st_action = action\<rparr>)))))))))))"

definition parse_steps :: "ustr \<Rightarrow> spanned_node \<Rightarrow> workflow_error + step list" where
  "parse_steps ctxt n = rbind (as_sequence n ctxt) (rmap parse_step)"

definition parse_credentials :: "ustr \<Rightarrow> spanned_node \<Rightarrow> workflow_error + credentials" where
  "parse_credentials ctxt n = rbind (as_mapping n ctxt) (\<lambda>es.
     rbind (reject_unknown_keys es [''username'', ''password''] ctxt) (\<lambda>_.
     rbind (optional_field es ''username'' (spanned_scalar_or_expr ctxt)) (\<lambda>u.
     rbind (optional_field es ''password'' (spanned_scalar_or_expr ctxt)) (\<lambda>p.
       Inr \<lparr>cr_username = u, cr_password = p\<rparr>))))"

definition parse_container :: "ustr \<Rightarrow> spanned_node \<Rightarrow> workflow_error + container_spec" where
  "parse_container ctxt n = (case fst n of
     RScalar _ \<Rightarrow> rbind (spanned_scalar_or_expr ctxt n) (\<lambda>img.
       Inr \<lparr>cs_image = img, cs_credentials = None, cs_env = [], cs_ports = [], cs_volumes = [], cs_options = None\<rparr>)
   | RMapping es \<Rightarrow>
       rbind (reject_unknown_keys es [''image'', ''credentials'', ''env'', ''ports'', ''volumes'', ''options''] ctxt) (\<lambda>_.
       rbind (require es ''image'' (snd n) ctxt) (\<lambda>image_node.
       rbind (spanned_scalar_or_expr ctxt image_node) (\<lambda>img.
       rbind (optional_field es ''credentials'' (with_span (parse_credentials ctxt))) (\<lambda>cr.
       rbind (list_field es ''env'' (read_scalar_or_expr_map ctxt)) (\<lambda>e.
       rbind (list_field es ''ports'' (scalar_or_expr_seq ctxt)) (\<lambda>ports.
       rbind (list_field es ''volumes'' (scalar_or_expr_seq ctxt)) (\<lambda>volumes.
       rbind (optional_field es ''options'' (spanned_scalar_or_expr ctxt)) (\<lambda>options.
         Inr \<lparr>cs_image = img, cs_credentials = cr, cs_env = e, cs_ports = ports, cs_volumes = volumes, cs_options = options\<rparr>))))))))
   | RSequence _ \<Rightarrow> Inl (Schema (snd n) (ctxt @ lit '' must be a string or a mapping'')))"

section \<open>Strategies\<close>

definition axis_error :: "span \<Rightarrow> workflow_error" where
  "axis_error sp = Schema sp (lit ''strategy.matrix.<axis> must be a sequence or a single '' @ quoted (lit ''${{ }}'') @ lit '' expression'')"

definition parse_axis :: "spanned_node \<Rightarrow> workflow_error + (yaml_value \<times> span) list" where
  "parse_axis v = (case fst v of
     RSequence xs \<Rightarrow> Inr (map (\<lambda>e. (to_yaml_value (fst e), snd e)) xs)
   | RScalar _ \<Rightarrow> rbind (read_scalar_or_expr (lit ''strategy.matrix.<axis>'') v) (\<lambda>x. case x of
       ScalarExpression t \<Rightarrow> rbind (parse_template t (snd v) (lit ''strategy.matrix.<axis>'')) (\<lambda>_.
         if single_expression_body t \<noteq> None then Inr [(to_yaml_value (fst v), snd v)] else Inl (axis_error (snd v)))
     | ScalarLiteral _ \<Rightarrow> Inl (axis_error (snd v)))
   | RMapping _ \<Rightarrow> Inl (axis_error (snd v)))"

definition parse_matrix_entry :: "ustr \<Rightarrow> spanned_node \<Rightarrow> workflow_error + matrix_entry" where
  "parse_matrix_entry ctxt item = rbind (as_mapping item ctxt) (rmap (named (\<lambda>v. Inr (to_yaml_value (fst v), snd v))))"

definition parse_matrix_entries :: "ustr \<Rightarrow> spanned_node \<Rightarrow> workflow_error + matrix_entry spanned list" where
  "parse_matrix_entries ctxt n = rbind (as_sequence n ctxt) (rmap (with_span (parse_matrix_entry ctxt)))"

fun matrix_loop :: "entries \<Rightarrow> workflow_matrix \<Rightarrow> workflow_error + workflow_matrix" where
  "matrix_loop [] m = Inr m"
| "matrix_loop (e # es) m = rbind (key_text (fst e)) (\<lambda>name.
     if name = lit ''include''
     then rbind (parse_matrix_entries (lit ''strategy.matrix.include'') (snd e)) (\<lambda>xs. matrix_loop es (m\<lparr>wm_include := xs\<rparr>))
     else if name = lit ''exclude''
     then rbind (parse_matrix_entries (lit ''strategy.matrix.exclude'') (snd e)) (\<lambda>xs. matrix_loop es (m\<lparr>wm_exclude := xs\<rparr>))
     else rbind (parse_axis (snd e)) (\<lambda>vs.
       matrix_loop es (m\<lparr>wm_axes := wm_axes m @ [(spanned name (snd (fst e)), vs)]\<rparr>)))"

definition parse_matrix :: "spanned_node \<Rightarrow> workflow_error + workflow_matrix" where
  "parse_matrix n = rbind (as_mapping n (lit ''strategy.matrix'')) (\<lambda>es.
     matrix_loop es \<lparr>wm_axes = [], wm_include = [], wm_exclude = []\<rparr>)"

definition parse_matrix_source :: "spanned_node \<Rightarrow> workflow_error + matrix_source spanned" where
  "parse_matrix_source n = (case fst n of
     RMapping _ \<Rightarrow> rbind (parse_matrix n) (\<lambda>m. Inr (spanned (MatrixInline m) (snd n)))
   | RScalar _ \<Rightarrow> rbind (read_scalar_or_expr (lit ''strategy.matrix'') n) (\<lambda>x. case x of
       ScalarExpression t \<Rightarrow> rbind (parse_template t (snd n) (lit ''strategy.matrix'')) (\<lambda>_.
         if single_expression_body t = None
         then Inl (Schema (snd n) (lit ''strategy.matrix must be a mapping or a single '' @ quoted (lit ''${{ }}'') @ lit '' expression''))
         else Inr (spanned (MatrixExpression (spanned t (snd n))) (snd n)))
     | ScalarLiteral _ \<Rightarrow> Inl (Schema (snd n) (lit ''strategy.matrix must be a mapping or a '' @ quoted (lit ''${{ }}'') @ lit '' expression'')))
   | RSequence _ \<Rightarrow> Inl (Schema (snd n) (lit ''strategy.matrix must be a mapping or a '' @ quoted (lit ''${{ }}'') @ lit '' expression'')))"

definition parse_strategy :: "spanned_node \<Rightarrow> workflow_error + workflow_strategy" where
  "parse_strategy n = rbind (as_mapping n (lit ''strategy'')) (\<lambda>es.
     rbind (reject_unknown_keys es [''matrix'', ''fail-fast'', ''max-parallel''] (lit ''strategy'')) (\<lambda>_.
     rbind (optional_field es ''matrix'' parse_matrix_source) (\<lambda>m.
     rbind (optional_field es ''fail-fast'' (spanned_scalar_or_expr (lit ''strategy.fail-fast''))) (\<lambda>f.
     rbind (optional_field es ''max-parallel'' (spanned_scalar_or_expr (lit ''strategy.max-parallel''))) (\<lambda>mp.
       Inr \<lparr>ws_matrix = m, ws_fail_fast = f, ws_max_parallel = mp\<rparr>)))))"

section \<open>Permissions and concurrency\<close>

definition permission_scopes :: "string list" where
  "permission_scopes = [''actions'', ''artifact-metadata'', ''attestations'', ''checks'', ''code-quality'', ''contents'',
     ''deployments'', ''discussions'', ''id-token'', ''issues'', ''models'', ''packages'', ''pages'', ''pull-requests'',
     ''security-events'', ''statuses'', ''vulnerability-alerts'']"

definition permission_level_of :: "ustr \<Rightarrow> ustr spanned \<Rightarrow> workflow_error + permission_level" where
  "permission_level_of scope level =
    (if node level = lit ''read'' \<and> scope \<noteq> lit ''id-token'' then Inr PermissionRead
     else if node level = lit ''write'' \<and> scope \<noteq> lit ''models'' \<and> scope \<noteq> lit ''vulnerability-alerts'' then Inr PermissionWrite
     else if node level = lit ''none'' then Inr PermissionNone
     else Inl (Schema (node_span level) (lit ''permission '' @ quoted scope @ lit '' level '' @ quoted (node level) @
       lit '' must be one of '' @ lit (if scope = lit ''id-token'' then ''write|none''
         else if scope = lit ''models'' \<or> scope = lit ''vulnerability-alerts'' then ''read|none'' else ''read|write|none''))))"

definition parse_scope :: "ustr \<Rightarrow> spanned_node \<times> spanned_node \<Rightarrow> workflow_error + ustr spanned \<times> permission_level spanned" where
  "parse_scope ctxt e = rbind (key_text (fst e)) (\<lambda>scope.
     rbind (raw_string (ctxt @ lit ''.<scope>'') (snd e)) (\<lambda>level_text.
     rbind (permission_level_of scope level_text) (\<lambda>level.
       Inr (spanned scope (snd (fst e)), spanned level (node_span level_text)))))"

definition parse_permissions :: "ustr \<Rightarrow> spanned_node \<Rightarrow> workflow_error + permissions" where
  "parse_permissions ctxt n = (case fst n of
     RScalar _ \<Rightarrow> rbind (raw_string ctxt n) (\<lambda>t.
       if node t = lit ''read-all'' then Inr (PermissionsAll ReadAll)
       else if node t = lit ''write-all'' then Inr (PermissionsAll WriteAll)
       else Inl (Schema (node_span t) (lit ''permissions '' @ quoted (node t) @ lit '' must be '' @ quoted (lit ''read-all'') @
         lit '' or '' @ quoted (lit ''write-all''))))
   | RMapping es \<Rightarrow> rbind (reject_unknown_keys es permission_scopes ctxt) (\<lambda>_.
       rbind (rmap (parse_scope ctxt) es) (\<lambda>scopes. Inr (PermissionsScoped scopes)))
   | RSequence _ \<Rightarrow> Inl (Schema (snd n) (lit ''permissions must be a string or a mapping'')))"

definition parse_concurrency :: "spanned_node \<Rightarrow> workflow_error + concurrency spanned" where
  "parse_concurrency n = rbind (case fst n of
       RScalar _ \<Rightarrow> rbind (raw_string (lit ''concurrency'') n) (\<lambda>g. Inr \<lparr>cc_group = g, cc_cancel_in_progress = None\<rparr>)
     | RMapping es \<Rightarrow> rbind (reject_unknown_keys es [''group'', ''cancel-in-progress''] (lit ''concurrency'')) (\<lambda>_.
         rbind (require es ''group'' (snd n) (lit ''concurrency'')) (\<lambda>group_node.
         rbind (raw_string (lit ''concurrency.group'') group_node) (\<lambda>g.
         rbind (optional_field es ''cancel-in-progress'' (spanned_scalar_or_expr (lit ''concurrency.cancel-in-progress''))) (\<lambda>c.
           Inr \<lparr>cc_group = g, cc_cancel_in_progress = c\<rparr>))))
     | RSequence _ \<Rightarrow> Inl (Schema (snd n) (lit ''concurrency must be a string or mapping'')))
     (\<lambda>c. Inr (spanned c (snd n)))"

section \<open>Jobs\<close>

definition parse_runs_on :: "spanned_node \<Rightarrow> workflow_error + runs_on" where
  "parse_runs_on n = (case fst n of
     RScalar _ \<Rightarrow> rbind (raw_string (lit ''runs-on'') n) (\<lambda>l. Inr (RunsOnLabel l))
   | RSequence _ \<Rightarrow> rbind (string_list (lit ''runs-on'') n) (\<lambda>ls. Inr (RunsOnLabels ls))
   | RMapping es \<Rightarrow> rbind (reject_unknown_keys es [''group'', ''labels''] (lit ''runs-on'')) (\<lambda>_.
       rbind (optional_field es ''group'' (raw_string (lit ''runs-on.group''))) (\<lambda>g.
       rbind (list_field es ''labels'' (string_list (lit ''runs-on.labels''))) (\<lambda>ls. Inr (RunsOnGroup g ls)))))"

definition parse_needs :: "entries \<Rightarrow> workflow_error + ustr spanned list" where
  "parse_needs es = list_field es ''needs'' (string_list (lit ''needs''))"

definition parse_outputs :: "ustr \<Rightarrow> entries \<Rightarrow> workflow_error + (ustr spanned \<times> ustr spanned) list" where
  "parse_outputs ctxt es = list_field es ''outputs'' (\<lambda>v. rbind (as_mapping v ctxt) (rmap (named (raw_string ctxt))))"

definition parse_services :: "ustr \<Rightarrow> entries \<Rightarrow> workflow_error + (ustr spanned \<times> container_spec spanned) list" where
  "parse_services ctxt es = list_field es ''services'' (\<lambda>v.
     rbind (as_mapping v ctxt) (rmap (named (with_span (parse_container ctxt)))))"

definition parse_job_permissions :: "ustr \<Rightarrow> entries \<Rightarrow> workflow_error + permissions spanned option" where
  "parse_job_permissions ctxt es =
     optional_field es ''permissions'' (with_span (parse_permissions (ctxt @ lit ''.permissions'')))"

definition reusable_job_keys :: "string list" where
  "reusable_job_keys = [''name'', ''needs'', ''if'', ''uses'', ''with'', ''secrets'', ''strategy'', ''concurrency'', ''permissions'']"

definition job_keys :: "string list" where
  "job_keys = [''name'', ''runs-on'', ''needs'', ''if'', ''outputs'', ''env'', ''defaults'', ''permissions'', ''strategy'',
     ''services'', ''container'', ''steps'', ''environment'', ''concurrency'']"

definition parse_reusable_job :: "ustr spanned \<Rightarrow> span \<Rightarrow> span \<Rightarrow> ustr \<Rightarrow> entries \<Rightarrow> workflow_error + workflow_job" where
  "parse_reusable_job i sp uses_span ctxt es =
     rbind (reject_unknown_keys es reusable_job_keys ctxt) (\<lambda>_.
     rbind (optional_field es ''name'' (raw_string ctxt)) (\<lambda>name.
     rbind (parse_needs es) (\<lambda>nds.
     rbind (optional_field es ''if'' (raw_string ctxt)) (\<lambda>c.
     rbind (parse_job_permissions ctxt es) (\<lambda>perms.
       Inr \<lparr>wj_span = sp, wj_id = i, wj_name = name, wj_runs_on = None, wj_needs = nds, wj_if = c, wj_outputs = [],
         wj_env = [], wj_defaults = None, wj_permissions = perms, wj_strategy = None, wj_services = [], wj_container = None,
         wj_steps = [], wj_environment = None, wj_concurrency = None,
         wj_reusable_call = Some \<lparr>uc_name = lit ''reusable workflow call (jobs.<id>.uses)'', uc_location = uses_span\<rparr>\<rparr>)))))"

definition parse_running_job :: "ustr spanned \<Rightarrow> span \<Rightarrow> ustr \<Rightarrow> entries \<Rightarrow> workflow_error + workflow_job" where
  "parse_running_job i sp ctxt es =
     rbind (reject_unknown_keys es job_keys ctxt) (\<lambda>_.
     rbind (optional_field es ''name'' (raw_string ctxt)) (\<lambda>name.
     rbind (require es ''runs-on'' sp ctxt) (\<lambda>runs_on_node.
     rbind (with_span parse_runs_on runs_on_node) (\<lambda>r.
     rbind (parse_needs es) (\<lambda>nds.
     rbind (optional_field es ''if'' (raw_string ctxt)) (\<lambda>c.
     rbind (parse_outputs ctxt es) (\<lambda>outputs.
     rbind (list_field es ''env'' (read_scalar_or_expr_map ctxt)) (\<lambda>e.
     rbind (optional_field es ''defaults'' (with_span (parse_defaults ctxt))) (\<lambda>d.
     rbind (parse_job_permissions ctxt es) (\<lambda>perms.
     rbind (optional_field es ''strategy'' (with_span parse_strategy)) (\<lambda>s.
     rbind (parse_services ctxt es) (\<lambda>services.
     rbind (optional_field es ''container'' (with_span (parse_container ctxt))) (\<lambda>container.
     rbind (require es ''steps'' sp ctxt) (\<lambda>steps_node.
     rbind (parse_steps ctxt steps_node) (\<lambda>ss.
     if ss = [] then Inl (Schema (snd steps_node) (lit ''job must have at least one step''))
     else let environment = map_option (\<lambda>p. \<lparr>uc_name = lit ''environment'', uc_location = snd (fst p)\<rparr>) (find_pair es ''environment'') in
     rbind (optional_field es ''concurrency'' parse_concurrency) (\<lambda>cc.
       Inr \<lparr>wj_span = sp, wj_id = i, wj_name = name, wj_runs_on = Some r, wj_needs = nds, wj_if = c, wj_outputs = outputs,
         wj_env = e, wj_defaults = d, wj_permissions = perms, wj_strategy = s, wj_services = services,
         wj_container = container, wj_steps = ss, wj_environment = environment, wj_concurrency = cc,
         wj_reusable_call = None\<rparr>))))))))))))))))"

definition parse_job :: "spanned_node \<times> spanned_node \<Rightarrow> workflow_error + workflow_job" where
  "parse_job e = rbind (key_text (fst e)) (\<lambda>t. let i = spanned t (snd (fst e)) in
     rbind (as_mapping (snd e) (lit ''job'')) (\<lambda>es. let ctxt = lit ''job '' @ quoted t in
       case find_pair es ''uses'' of
         Some p \<Rightarrow> parse_reusable_job i (snd (snd e)) (snd (fst p)) ctxt es
       | None \<Rightarrow> parse_running_job i (snd (snd e)) ctxt es))"

definition parse_jobs :: "spanned_node \<Rightarrow> workflow_error + workflow_job list" where
  "parse_jobs n = rbind (as_mapping n (lit ''jobs'')) (\<lambda>es.
     if es = [] then Inl (Schema (snd n) (lit ''workflow must define at least one job'')) else rmap parse_job es)"

section \<open>The workflow\<close>

definition MAX_WORKFLOW_SOURCE_CHARACTERS :: nat where
  "MAX_WORKFLOW_SOURCE_CHARACTERS = 1024 * 1024"

definition workflow_keys :: "string list" where
  "workflow_keys = [''name'', ''run-name'', ''on'', ''env'', ''defaults'', ''permissions'', ''concurrency'', ''jobs'']"

definition read_workflow :: "spanned_node \<Rightarrow> workflow_error + workflow" where
  "read_workflow n = rbind (as_mapping n (lit ''workflow'')) (\<lambda>es.
     rbind (reject_unknown_keys es workflow_keys (lit ''workflow'')) (\<lambda>_.
     rbind (optional_field es ''name'' (raw_string (lit ''workflow.name''))) (\<lambda>name.
     rbind (optional_field es ''run-name'' (raw_string (lit ''workflow.run-name''))) (\<lambda>run_name.
     rbind (require es ''on'' (snd n) (lit ''workflow'')) (\<lambda>on_node.
     rbind (parse_on on_node) (\<lambda>ts.
     rbind (list_field es ''env'' (read_scalar_or_expr_map (lit ''workflow.env''))) (\<lambda>e.
     rbind (optional_field es ''defaults'' (with_span (parse_defaults (lit ''workflow.defaults'')))) (\<lambda>d.
     rbind (optional_field es ''permissions'' (with_span (parse_permissions (lit ''permissions'')))) (\<lambda>perms.
     rbind (optional_field es ''concurrency'' parse_concurrency) (\<lambda>cc.
     rbind (require es ''jobs'' (snd n) (lit ''workflow'')) (\<lambda>jobs_node.
     rbind (parse_jobs jobs_node) (\<lambda>jobs.
       Inr \<lparr>wf_span = snd n, wf_name = name, wf_run_name = run_name, wf_on = ts, wf_env = e, wf_defaults = d,
         wf_permissions = perms, wf_concurrency = cc, wf_jobs = jobs\<rparr>))))))))))))"

definition parse_workflow :: "casing \<Rightarrow> scanner \<Rightarrow> ustr \<Rightarrow> ustr \<Rightarrow> workflow_error + workflow" where
  "parse_workflow up scan file source =
    (if MAX_WORKFLOW_SOURCE_CHARACTERS < length (encode_utf16 source)
     then Inl (SourceLimit file MAX_WORKFLOW_SOURCE_CHARACTERS)
     else rbind (parse_raw up scan file source) (\<lambda>n. rbind (read_workflow n) (\<lambda>w.
       rbind (validate_workflow w) (\<lambda>_. Inr w))))"

text \<open>
  \<open>parse_workflow_file_with_name\<close>: what opening and reading the file gives is a parameter, the text of
  an input error or the bytes; so is the text of \<open>String::from_utf8\<close>'s error. Bytes are valid UTF-8
  exactly when the lossy decoding loses nothing.
\<close>

definition MAX_BOUNDED_SOURCE_BYTES :: nat where
  "MAX_BOUNDED_SOURCE_BYTES = MAX_WORKFLOW_SOURCE_CHARACTERS * 3"

definition from_utf8 :: "nat list \<Rightarrow> ustr option" where
  "from_utf8 bs = (let s = from_utf8_lossy bs in if as_bytes s = bs then Some s else None)"

definition parse_workflow_file :: "casing \<Rightarrow> scanner \<Rightarrow> (nat list \<Rightarrow> ustr) \<Rightarrow> ustr \<Rightarrow> ustr + nat list \<Rightarrow> workflow_error + workflow" where
  "parse_workflow_file up scan utf8_message file contents = (case contents of
     Inl e \<Rightarrow> Inl (Io file e)
   | Inr content \<Rightarrow> (let bytes = take (MAX_BOUNDED_SOURCE_BYTES + 1) content in
       if MAX_BOUNDED_SOURCE_BYTES < length bytes then Inl (SourceLimit file MAX_WORKFLOW_SOURCE_CHARACTERS)
       else (case from_utf8 bytes of
         None \<Rightarrow> Inl (Encoding file (utf8_message bytes))
       | Some source \<Rightarrow> parse_workflow up scan file source)))"

end
