(* ===== verification/Parse_Laws.thy ===== *)
theory Parse_Laws
  imports Workflow_Parse Graph_Laws
begin

text \<open>
  What the rest of the program may rely on in a workflow that was read: bounds, distinct names, the
  shape of jobs, steps and triggers. The names of the jobs are what the dependency graph needs.
\<close>

section \<open>Fields\<close>

lemma find_pair_Some: "find_pair es name = Some e \<Longrightarrow> e \<in> set es \<and> as_key_text (fst (fst e)) = Some (lit name)"
  by (auto simp: find_pair_def find_Some_iff)

lemma find_node_Some: "find_node es name = Some v \<Longrightarrow> \<exists>k. (k, v) \<in> set es \<and> as_key_text (fst k) = Some (lit name)"
  by (force simp: find_node_def dest: find_pair_Some)

lemma unknown_key_absent:
  assumes "reject_unknown_keys es known ctxt = Inr ()" "name \<notin> set known"
  shows "find_pair es name = None"
  using assms
proof (induction es)
  case (Cons e es)
  then obtain t where "as_key_text (fst (fst e)) = Some t" "t \<in> set (map lit known)" "find_pair es name = None"
    by (auto simp: rbind_eq_Inr key_text_def split: option.splits if_splits)
  with Cons.prems(2) show ?case by (auto simp: find_pair_def)
qed (simp add: find_pair_def)

lemma require_Inr: "require es name sp ctxt = Inr v \<longleftrightarrow> find_node es name = Some v"
  by (auto simp: require_def split: option.splits)

lemma rmap_list_all2: "rmap f xs = Inr ys \<Longrightarrow> list_all2 (\<lambda>x y. f x = Inr y) xs ys"
  by (simp add: list_all2_conv_all_nth rmap_length rmap_nth)

lemma rmap_member: "rmap f xs = Inr ys \<Longrightarrow> y \<in> set ys \<Longrightarrow> \<exists>x\<in>set xs. f x = Inr y"
  by (induction xs arbitrary: ys) (auto simp: rbind_eq_Inr)

lemma key_text_Inr: "key_text k = Inr t \<longleftrightarrow> as_key_text (fst k) = Some t"
  by (simp add: key_text_def split: option.splits)

text \<open>Names that are read from the keys of one mapping differ.\<close>

lemma names_distinct:
  assumes "rmap f es = Inr ys" "keys_ok up es" "\<And>e y. f e = Inr y \<Longrightarrow> as_key_text (fst (fst e)) = Some (g y)"
  shows "distinct (map (\<lambda>y. ordinal_ignore_case_key up (g y)) ys)"
proof -
  have "map (entry_key up) es = map (\<lambda>y. Some (ordinal_ignore_case_key up (g y))) ys"
    using rmap_list_all2 [OF assms(1)] assms(3)
    by (intro nth_equalityI) (auto simp: list_all2_conv_all_nth entry_key_def)
  then have "distinct (map Some (map (\<lambda>y. ordinal_ignore_case_key up (g y)) ys))"
    using assms(2) by (simp add: keys_ok_def comp_def)
  then show ?thesis by (simp only: distinct_map)
qed

section \<open>Triggers\<close>

definition positive_exists :: "ustr spanned list \<Rightarrow> bool" where
  "positive_exists ps \<longleftrightarrow> ps = [] \<or> list_ex (\<lambda>p. \<not> is_negative p) ps"

definition patterns_ok :: "ustr spanned list \<Rightarrow> bool" where
  "patterns_ok ps \<longleftrightarrow> list_all (\<lambda>p. node p \<noteq> []) ps"

definition filter_ok :: "webhook_filter \<Rightarrow> bool" where
  "filter_ok f \<longleftrightarrow>
     (wh_branches f = [] \<or> wh_branches_ignore f = []) \<and> (wh_tags f = [] \<or> wh_tags_ignore f = []) \<and>
     (wh_paths f = [] \<or> wh_paths_ignore f = []) \<and>
     positive_exists (wh_branches f) \<and> positive_exists (wh_tags f) \<and> positive_exists (wh_paths f) \<and>
     list_all patterns_ok [wh_branches f, wh_branches_ignore f, wh_tags f, wh_tags_ignore f, wh_paths f, wh_paths_ignore f, wh_types f]"

definition input_ok :: "workflow_dispatch_input \<Rightarrow> bool" where
  "input_ok i \<longleftrightarrow> (let k = (case in_type i of Some t \<Rightarrow> node t | None \<Rightarrow> InputString) in
     (in_options i \<noteq> [] \<longleftrightarrow> k = InputChoice) \<and> (case in_default i of None \<Rightarrow> True | Some d \<Rightarrow> default_matches k (fst d)))"

fun trigger_ok :: "trigger \<Rightarrow> bool" where
  "trigger_ok (Webhook name f) \<longleftrightarrow> is_webhook name \<and> filter_ok f \<and>
     (if name = lit ''push'' then wh_types f = [] else wh_tags f = [] \<and> wh_tags_ignore f = [])"
| "trigger_ok (WorkflowDispatch d) \<longleftrightarrow> length (wd_inputs d) \<le> 25 \<and> list_all input_ok (wd_inputs d)"
| "trigger_ok (ScheduleTrigger ss) \<longleftrightarrow> ss \<noteq> [] \<and> list_all (\<lambda>s. trim (node (sc_cron s)) \<noteq> []) ss"
| "trigger_ok _ \<longleftrightarrow> True"

lemma filter_list_Inr: "filter_list es ctxt key = Inr ps \<Longrightarrow> patterns_ok ps \<and> (find_pair es key = None \<longrightarrow> ps = [])"
  by (auto simp: filter_list_def list_field_def find_node_def patterns_ok_def rbind_eq_Inr find_None_iff list_all_iff
    split: option.splits if_splits)

lemma negative_patterns_Inr: "validate_negative_patterns ps key ctxt = Inr () \<Longrightarrow> positive_exists ps"
  by (cases ps) (auto simp: validate_negative_patterns_def positive_exists_def find_None_iff split: option.splits if_splits)

lemma conflicting_filters_Inr:
  assumes "reject_conflicting_filters es ctxt = Inr ()"
  shows "find_pair es ''branches'' = None \<or> find_pair es ''branches-ignore'' = None"
    "find_pair es ''tags'' = None \<or> find_pair es ''tags-ignore'' = None"
    "find_pair es ''paths'' = None \<or> find_pair es ''paths-ignore'' = None"
  using assms by (auto simp: reject_conflicting_filters_def reject_conflict_def rbind_eq_Inr split: option.splits)

lemma webhook_filter_ok:
  assumes "parse_webhook_filter n event = Inr f"
  shows "filter_ok f" "event = lit ''push'' \<Longrightarrow> wh_types f = []"
    "event \<noteq> lit ''push'' \<Longrightarrow> wh_tags f = [] \<and> wh_tags_ignore f = []"
proof -
  from assms obtain es ctxt where keys: "reject_unknown_keys es (filter_keys event) ctxt = Inr ()"
    and conflict: "reject_conflicting_filters es ctxt = Inr ()"
    and lists: "filter_list es ctxt ''branches'' = Inr (wh_branches f)" "filter_list es ctxt ''branches-ignore'' = Inr (wh_branches_ignore f)"
      "filter_list es ctxt ''tags'' = Inr (wh_tags f)" "filter_list es ctxt ''tags-ignore'' = Inr (wh_tags_ignore f)"
      "filter_list es ctxt ''paths'' = Inr (wh_paths f)" "filter_list es ctxt ''paths-ignore'' = Inr (wh_paths_ignore f)"
      "filter_list es ctxt ''types'' = Inr (wh_types f)"
    and negative: "validate_negative_patterns (wh_branches f) ''branches'' ctxt = Inr ()"
      "validate_negative_patterns (wh_tags f) ''tags'' ctxt = Inr ()" "validate_negative_patterns (wh_paths f) ''paths'' ctxt = Inr ()"
    by (auto simp: parse_webhook_filter_def Let_def rbind_eq_Inr)
  note pats = lists [THEN filter_list_Inr]
  show "filter_ok f"
    using conflicting_filters_Inr [OF conflict] pats negative [THEN negative_patterns_Inr] by (auto simp: filter_ok_def)
  show "wh_types f = []" if "event = lit ''push''"
    using unknown_key_absent [OF keys, of "''types''"] that pats(7) by (simp add: filter_keys_def)
  show "wh_tags f = [] \<and> wh_tags_ignore f = []" if "event \<noteq> lit ''push''"
    using unknown_key_absent [OF keys, of "''tags''"] unknown_key_absent [OF keys, of "''tags-ignore''"] that pats(3,4)
    by (simp add: filter_keys_def)
qed

lemma dispatch_input_ok: "parse_dispatch_input e = Inr i \<Longrightarrow> input_ok i"
  by (auto simp: parse_dispatch_input_def Let_def rbind_eq_Inr validate_input_shape_def validate_default_def input_ok_def
    split: if_splits option.splits)

lemma dispatch_ok:
  assumes "parse_workflow_dispatch c = Inr d"
  shows "trigger_ok (WorkflowDispatch d)"
proof -
  from assms consider "wd_inputs d = []" | es where "\<not> 25 < length es" "rmap parse_dispatch_input es = Inr (wd_inputs d)"
    by (auto simp: parse_workflow_dispatch_def rbind_eq_Inr list_field_def parse_inputs_def split: option.splits if_splits)
  then show ?thesis
  proof cases
    case 2
    with rmap_length [OF 2(2)] rmap_member [OF 2(2)] dispatch_input_ok show ?thesis by (fastforce simp: list_all_iff)
  qed simp
qed

lemma schedule_timezone_cron: "schedule_timezone sp cron es = Inr x \<Longrightarrow> sc_cron x = cron"
  unfolding schedule_timezone_def rbind_eq_Inr by (elim exE conjE) (simp split: option.splits if_splits, auto)

lemma schedule_item_ok:
  assumes "parse_schedule_item n = Inr x"
  shows "trim (node (sc_cron x)) \<noteq> []"
proof -
  from assms obtain es cron where "trim (node cron) \<noteq> []" "schedule_timezone (snd n) cron es = Inr x"
    unfolding parse_schedule_item_def rbind_eq_Inr by (metis sum.distinct(1))
  then show ?thesis using schedule_timezone_cron by blast
qed

lemma schedule_ok:
  assumes "parse_schedule c = Inr ss"
  shows "trigger_ok (ScheduleTrigger ss)"
proof -
  from assms obtain xs where xs: "xs \<noteq> []" "rmap parse_schedule_item xs = Inr ss"
    by (auto simp: parse_schedule_def rbind_eq_Inr split: if_splits)
  then have "ss \<noteq> []" using rmap_length by fastforce
  with rmap_member [OF xs(2)] schedule_item_ok show ?thesis unfolding trigger_ok.simps list_all_iff by blast
qed

lemma empty_filter_ok: "filter_ok (empty_webhook_filter sp)"
  by (simp add: filter_ok_def empty_webhook_filter_def positive_exists_def patterns_ok_def)

lemma trigger_of_ok:
  assumes "trigger_of name config sp = Inr t"
  shows "trigger_ok t"
proof (cases "is_webhook (node name)")
  case True
  with assms show ?thesis
    by (cases config)
      (auto simp: trigger_of_def rbind_eq_Inr webhook_filter_ok empty_filter_ok, simp_all add: empty_webhook_filter_def)
next
  case False
  with assms show ?thesis
    by (auto simp: trigger_of_def rbind_eq_Inr dest: dispatch_ok schedule_ok simp del: trigger_ok.simps(2,3)
      split: if_splits option.splits) simp
qed

lemma build_trigger_ok: "build_trigger name config = Inr t \<Longrightarrow> trigger_ok (node t)"
  by (auto simp: build_trigger_def Let_def rbind_eq_Inr dest: trigger_of_ok)

lemma parse_on_ok: "parse_on n = Inr ts \<Longrightarrow> t \<in> set ts \<Longrightarrow> trigger_ok (node t)"
  by (auto simp: parse_on_def rbind_eq_Inr trigger_from_bare_name_def trigger_from_entry_def
    dest!: rmap_member build_trigger_ok split: raw_node.splits)

section \<open>Jobs\<close>

definition job_shape :: "workflow_job \<Rightarrow> bool" where
  "job_shape j \<longleftrightarrow> (if wj_reusable_call j = None then wj_steps j \<noteq> [] \<and> wj_runs_on j \<noteq> None
     else wj_steps j = [] \<and> wj_runs_on j = None)"

primrec authored_ids :: "step list \<Rightarrow> ustr list" where
  "authored_ids [] = []"
| "authored_ids (s # ss) = (case st_id s of None \<Rightarrow> [] | Some i \<Rightarrow> [to_ascii_lowercase (node i)]) @ authored_ids ss"

lemma reusable_job_Inr: "parse_reusable_job i sp us ctxt es = Inr j \<Longrightarrow> wj_id j = i \<and> job_shape j"
  by (auto simp: parse_reusable_job_def rbind_eq_Inr job_shape_def)

lemma running_job_Inr: "parse_running_job i sp ctxt es = Inr j \<Longrightarrow> wj_id j = i \<and> job_shape j"
  by (auto simp: parse_running_job_def rbind_eq_Inr job_shape_def Let_def split: if_splits)

lemma parse_job_Inr: "parse_job e = Inr j \<Longrightarrow> as_key_text (fst (fst e)) = Some (node (wj_id j)) \<and> job_shape j"
  by (auto simp: parse_job_def rbind_eq_Inr Let_def key_text_Inr dest!: reusable_job_Inr running_job_Inr split: option.splits)

lemma parse_jobs_Inr:
  assumes "parse_jobs n = Inr js" "well_keyed up (fst n)"
  shows "js \<noteq> []" "distinct (map (\<lambda>j. ordinal_ignore_case_key up (node (wj_id j))) js)" "\<forall>j\<in>set js. job_shape j"
proof -
  from assms(1) obtain es where es: "fst n = RMapping es" "es \<noteq> []" "rmap parse_job es = Inr js"
    by (auto simp: parse_jobs_def rbind_eq_Inr as_mapping_def split: raw_node.splits if_splits)
  show "js \<noteq> []" using rmap_length [OF es(3)] es(2) by auto
  show "distinct (map (\<lambda>j. ordinal_ignore_case_key up (node (wj_id j))) js)"
    using assms(2) es(1) parse_job_Inr by (intro names_distinct [OF es(3)]) auto
  show "\<forall>j\<in>set js. job_shape j" using rmap_member [OF es(3)] parse_job_Inr by blast
qed

lemma validate_steps_ids:
  "validate_steps n pre i ss taken = Inr () \<Longrightarrow> distinct (authored_ids ss) \<and> set (authored_ids ss) \<inter> dom taken = {}"
proof (induction ss arbitrary: i taken)
  case Nil
  then show ?case by simp
next
  case (Cons s ss)
  show ?case
  proof (cases "st_id s")
    case None
    with Cons show ?thesis by (fastforce simp: Let_def rbind_eq_Inr)
  next
    case (Some y)
    let ?k = "to_ascii_lowercase (node y)"
    from Cons.prems Some have t: "taken ?k = None" "validate_steps n pre (i + 1) ss (taken(?k \<mapsto> node_span y)) = Inr ()"
      by (auto simp: Let_def rbind_eq_Inr split: option.splits)
    from Cons.IH [OF t(2)] t(1) Some show ?thesis by auto
  qed
qed

lemma validate_job_ids:
  assumes "validate_job j = Inr ()"
  shows "distinct (authored_ids (wj_steps j))" "validate_identifier (node (wj_id j))"
proof -
  from assms obtain pre where "validate_steps (node (wj_id j)) pre 0 (wj_steps j) Map.empty = Inr ()"
    by (auto simp: validate_job_def Let_def rbind_eq_Inr)
  from validate_steps_ids [OF this] show "distinct (authored_ids (wj_steps j))" by blast
  from assms show "validate_identifier (node (wj_id j))"
    by (auto simp: validate_job_def rbind_eq_Inr check_identifier_def split: if_splits)
qed

section \<open>The workflow\<close>

text \<open>The part of the jobs the dependency graph reads.\<close>

definition graph_jobs :: "workflow \<Rightarrow> job list" where
  "graph_jobs w = map (\<lambda>j. \<lparr>job_id = wj_id j, needs = wj_needs j\<rparr>) (wf_jobs w)"

lemma tree_well_keyed:
  assumes "parse_raw up scan file source = Inr n"
  shows "well_keyed up (fst n)"
proof -
  obtain events failure where scan: "scan source = (events, failure)" by fastforce
  let ?b = "fold (on_event up) events (new_builder file)"
  have "b_error ?b = None" "b_documents ?b = [Some n]"
    using assms scan by (auto simp: parse_raw_def Let_def split: option.splits list.splits)
  moreover have "builder_ok up ?b" by (rule built_ok [OF new_builder_ok])
  ultimately show ?thesis by (cases n) (simp add: builder_ok_def keyed_ok_def)
qed

lemma read_workflow_Inr:
  assumes "read_workflow n = Inr w" "well_keyed up (fst n)"
  shows "\<exists>jobs_node. parse_jobs jobs_node = Inr (wf_jobs w) \<and> well_keyed up (fst jobs_node)"
    "\<forall>t\<in>set (wf_on w). trigger_ok (node t)"
proof -
  from assms(1) obtain es jobs_node on_node where es: "fst n = RMapping es" "find_node es ''jobs'' = Some jobs_node"
    "parse_jobs jobs_node = Inr (wf_jobs w)" "parse_on on_node = Inr (wf_on w)"
    by (auto simp: read_workflow_def rbind_eq_Inr require_Inr as_mapping_def split: raw_node.splits)
  from es(1,2) assms(2) have "well_keyed up (fst jobs_node)"
    by (auto dest!: find_node_Some simp: list_all_iff)
  with es(3) show "\<exists>jobs_node. parse_jobs jobs_node = Inr (wf_jobs w) \<and> well_keyed up (fst jobs_node)" by blast
  from parse_on_ok [OF es(4)] show "\<forall>t\<in>set (wf_on w). trigger_ok (node t)" by blast
qed

text \<open>
  C9: A workflow file that is accepted is one the planner can rely on, whatever the scanner reports: the
  source is within the limit of 1,048,576 UTF-16 units, there is at least one job, the ids of the jobs are
  identifiers that differ up to case (so they satisfy the hypothesis of the dependency graph), a job
  either calls a reusable workflow or has a runner and steps, the ids of its steps differ up to case, and
  every trigger is well-formed: no filter together with its ignoring counterpart, no filter of negative
  patterns only, no empty pattern, at most 25 dispatch inputs whose options and defaults fit their type.
\<close>

theorem accepted_file_is_plannable:
  assumes "parse_workflow up scan file source = Inr w"
  shows "length (encode_utf16 source) \<le> MAX_WORKFLOW_SOURCE_CHARACTERS \<and> validate_workflow w = Inr () \<and>
    wf_jobs w \<noteq> [] \<and> distinct (map (\<lambda>j. ordinal_ignore_case_key up (node (wj_id j))) (wf_jobs w)) \<and>
    distinct (names_of (graph_jobs w)) \<and>
    (\<forall>j\<in>set (wf_jobs w). validate_identifier (node (wj_id j)) \<and> job_shape j \<and> distinct (authored_ids (wj_steps j))) \<and>
    (\<forall>t\<in>set (wf_on w). trigger_ok (node t))"
proof -
  from assms obtain n where n: "parse_raw up scan file source = Inr n" "read_workflow n = Inr w"
    and v: "validate_workflow w = Inr ()" and len: "length (encode_utf16 source) \<le> MAX_WORKFLOW_SOURCE_CHARACTERS"
    by (auto simp: parse_workflow_def rbind_eq_Inr split: if_splits)
  note r = read_workflow_Inr [OF n(2) tree_well_keyed [OF n(1)]]
  from r(1) obtain jobs_node where j: "parse_jobs jobs_node = Inr (wf_jobs w)" "well_keyed up (fst jobs_node)" by blast
  note js = parse_jobs_Inr [OF j]
  from js(2) have "distinct (map (\<lambda>j. node (wj_id j)) (wf_jobs w))"
    by (auto simp: distinct_map inj_on_def)
  then have "distinct (names_of (graph_jobs w))" by (simp add: names_of_def graph_jobs_def comp_def)
  moreover have "validate_job j = Inr ()" if "j \<in> set (wf_jobs w)" for j
    using v that by (auto simp: validate_workflow_def rbind_eq_Inr each_ok)
  ultimately show ?thesis using js len v r(2) validate_job_ids by blast
qed

text \<open>The events of a file with a push filter and one job of one step.\<close>

definition key_event :: "string \<Rightarrow> yaml_event" where
  "key_event t = ScalarEvent (lit t) Plain 0 None"

definition sample_file :: "(yaml_event \<times> marker \<times> marker) list" where
  "sample_file = map (\<lambda>e. (e, \<lparr>mk_line = 1, mk_col = 0\<rparr>, \<lparr>mk_line = 1, mk_col = 1\<rparr>))
     ([StreamStart, DocumentStart, MappingStart 0,
        key_event ''on'', MappingStart 0, key_event ''push'', MappingStart 0, key_event ''tags'', key_event ''v*'', MappingEnd, MappingEnd,
        key_event ''jobs'', MappingStart 0, key_event ''b'', MappingStart 0, key_event ''runs-on'', key_event ''u'',
          key_event ''steps'', SequenceStart 0, MappingStart 0, key_event ''run'', key_event ''ls'', MappingEnd, SequenceEnd,
        MappingEnd, MappingEnd, MappingEnd, DocumentEnd, StreamEnd])"

theorem accepted_file_is_plannable_witness:
  "\<exists>w. parse_workflow ascii_upper (\<lambda>_. (sample_file, None)) [] [] = Inr w \<and> names_of (graph_jobs w) = [lit ''b''] \<and>
     validate_workflow w = Inr () \<and> distinct (names_of (graph_jobs w))"
proof -
  have "(case parse_workflow ascii_upper (\<lambda>_. (sample_file, None)) [] [] of
      Inr w \<Rightarrow> names_of (graph_jobs w) = [lit ''b''] | Inl _ \<Rightarrow> False)" by code_simp
  then obtain w where "parse_workflow ascii_upper (\<lambda>_. (sample_file, None)) [] [] = Inr w" "names_of (graph_jobs w) = [lit ''b'']"
    by (auto split: sum.splits)
  with accepted_file_is_plannable [OF this(1)] show ?thesis by blast
qed

section \<open>The bounded read\<close>

lemma utf8_within_utf16: "str_len s \<le> 3 * length (encode_utf16 s)"
  by (induction s) (auto simp: length_encode_utf16 str_len_def len_utf8_def len_utf16_def)

text \<open>
  C35: The cap on the bytes read from disk never changes the answer. For every Unicode text, of any length,
  reading its UTF-8 bytes through the cap gives exactly what parsing the whole text gives; in
  particular a file within the limit on characters is never refused by the limit on bytes.
\<close>

theorem bounded_read_decides_as_whole_text:
  assumes "valid_str s"
  shows "parse_workflow_file up scan msg file (Inr (as_bytes s)) = parse_workflow up scan file s"
proof (cases "MAX_BOUNDED_SOURCE_BYTES < length (as_bytes s)")
  case True
  then have "MAX_WORKFLOW_SOURCE_CHARACTERS < length (encode_utf16 s)"
    using utf8_within_utf16 [of s] by (simp add: length_as_bytes MAX_BOUNDED_SOURCE_BYTES_def)
  with True show ?thesis by (simp add: parse_workflow_file_def parse_workflow_def Let_def)
next
  case False
  then show ?thesis
    by (simp add: parse_workflow_file_def Let_def from_utf8_def from_utf8_lossy_as_bytes [OF assms])
qed

theorem bounded_read_decides_as_whole_text_witness:
  "parse_workflow_file ascii_upper (\<lambda>_. (sample_file, None)) (\<lambda>_. []) [] (Inr (as_bytes (lit ''on: push'')))
    = parse_workflow ascii_upper (\<lambda>_. (sample_file, None)) [] (lit ''on: push'')"
  by (rule bounded_read_decides_as_whole_text) code_simp

end
