(* ===== verification/Store_Layout.thy ===== *)
theory Store_Layout
  imports Utf8 "HOL-Library.Word"
begin

text \<open>
  The on-disk conventions the stores share (\<open>greenlit-store/src/layout.rs\<close>, \<open>error.rs\<close>): ids are
  allocated by creating a directory, uploads happen in a pending area, and a rename publishes one. The
  locale \<open>staged_store\<close> says what follows for any store whose operations make only such moves; the
  cache and the artifact store interpret it. Names chosen by a client are hashed before they become
  part of a path.
\<close>

unbundle bit_operations_syntax

section \<open>Errors and ids\<close>

datatype store_error =
    HomeDirUnavailable
  | InvalidHomeDir
  | StoreIo string nat
  | CorruptMetadata nat
  | InvalidComponent ustr
  | UnknownReservation nat
  | AlreadyReserved ustr

text \<open>Directories by id, in the order of creation: the uploads in flight and what is visible.\<close>

record 'd area =
  a_pending :: "(nat \<times> 'd) list"
  a_published :: "(nat \<times> 'd) list"

definition highest_id :: "(nat \<times> 'd) list \<Rightarrow> nat" where
  "highest_id ds = max_list0 (map fst ds)"

function create_first_free :: "nat \<Rightarrow> nat list \<Rightarrow> nat" where
  "create_first_free candidate taken = (if candidate \<in> set taken then create_first_free (candidate + 1) taken else candidate)"
  by pat_completeness auto
termination
proof (relation "measure (\<lambda>(candidate, taken). card {i \<in> set taken. candidate \<le> i})", goal_cases)
  case (2 candidate taken)
  then have "candidate \<in> {i \<in> set taken. candidate \<le> i} - {i \<in> set taken. candidate + 1 \<le> i}" by simp
  moreover have "{i \<in> set taken. candidate + 1 \<le> i} \<subseteq> {i \<in> set taken. candidate \<le> i}" by auto
  ultimately have "{i \<in> set taken. candidate + 1 \<le> i} \<subset> {i \<in> set taken. candidate \<le> i}" by blast
  then show ?case by (simp add: psubset_card_mono)
qed simp

declare create_first_free.simps [simp del]

text \<open>
  \<open>seen\<close> is the store when its directories were listed, which another process may have changed by
  the time the new directory is created.
\<close>

definition allocate_id :: "'d area \<Rightarrow> 'd area \<Rightarrow> nat" where
  "allocate_id seen_area s =
     create_first_free (max (highest_id (a_pending seen_area)) (highest_id (a_published seen_area)) + 1) (map fst (a_pending s))"

section \<open>Hashed names\<close>

definition fnv_offset :: "64 word" where
  "fnv_offset = 0xcbf29ce484222325"

definition fnv_prime :: "64 word" where
  "fnv_prime = 0x00000100000001b3"

definition fnv_hash :: "ustr \<Rightarrow> 64 word" where
  "fnv_hash name = fold (\<lambda>b hash. (hash XOR of_nat b) * fnv_prime) (as_bytes name) fnv_offset"

definition hex_char :: "nat \<Rightarrow> uchar" where
  "hex_char d = (if d < 10 then 48 + d else 87 + d)"

text \<open>\<open>format!("{hash:016x}")\<close>\<close>

definition hex16 :: "64 word \<Rightarrow> ustr" where
  "hex16 w = map (\<lambda>k. hex_char (unat w div 16 ^ k mod 16)) (rev [0..<16])"

definition name_hash :: "ustr \<Rightarrow> ustr" where
  "name_hash name = hex16 (fnv_hash name)"

lemma name_hash_safe: "length (name_hash name) = 16 \<and> (\<forall>c\<in>set (name_hash name). is_ascii_hexdigit c)"
proof -
  have "is_ascii_hexdigit (hex_char d)" if "d < 16" for d
    using that by (auto simp: hex_char_def is_ascii_hexdigit_def is_ascii_digit_def)
  then show ?thesis by (auto simp: name_hash_def hex16_def)
qed

section \<open>Directories\<close>

definition update_dir :: "nat \<Rightarrow> ('d \<Rightarrow> 'd) \<Rightarrow> (nat \<times> 'd) list \<Rightarrow> (nat \<times> 'd) list" where
  "update_dir i f ds = map (\<lambda>e. if fst e = i then (i, f (snd e)) else e) ds"

definition remove_dir :: "nat \<Rightarrow> (nat \<times> 'd) list \<Rightarrow> (nat \<times> 'd) list" where
  "remove_dir i ds = filter (\<lambda>e. fst e \<noteq> i) ds"

lemma map_of_update_dir: "map_of (update_dir i f ds) j = (if j = i then map_option f (map_of ds i) else map_of ds j)"
  by (induction ds) (auto simp: update_dir_def)

lemma map_of_remove_dir: "map_of (remove_dir i ds) j = (if j = i then None else map_of ds j)"
  by (induction ds) (auto simp: remove_dir_def)

lemma keys_update_dir [simp]: "map fst (update_dir i f ds) = map fst ds"
  by (simp add: update_dir_def)

lemma keys_remove_dir [simp]: "set (map fst (remove_dir i ds)) = set (map fst ds) - {i}"
  by (auto simp: remove_dir_def)

lemma distinct_remove_dir: "distinct (map fst ds) \<Longrightarrow> distinct (map fst (remove_dir i ds))"
  by (simp add: remove_dir_def distinct_map_filter)

lemma map_of_snoc: "i \<notin> set (map fst ds) \<Longrightarrow> map_of (ds @ [(i, d)]) j = (if j = i then Some d else map_of ds j)"
  by (induction ds) auto

section \<open>Moves\<close>

definition area_ok :: "'d area \<Rightarrow> bool" where
  "area_ok s \<longleftrightarrow> distinct (map fst (a_pending s)) \<and> distinct (map fst (a_published s)) \<and>
     set (map fst (a_pending s)) \<inter> set (map fst (a_published s)) = {}"

inductive area_move :: "(nat \<Rightarrow> bool) \<Rightarrow> 'd area \<Rightarrow> 'd area \<Rightarrow> bool" for removes where
  stay: "area_move removes s s"
| create: "i \<notin> set (map fst (a_pending s)) \<Longrightarrow> i \<notin> set (map fst (a_published s)) \<Longrightarrow>
    area_move removes s (s\<lparr>a_pending := a_pending s @ [(i, d)]\<rparr>)"
| edit: "area_move removes s (s\<lparr>a_pending := update_dir i f (a_pending s)\<rparr>)"
| publish: "map_of (a_pending s) i = Some d \<Longrightarrow>
    area_move removes s (s\<lparr>a_pending := remove_dir i (a_pending s), a_published := a_published s @ [(i, f d)]\<rparr>)"
| remove: "removes i \<Longrightarrow> area_move removes s (s\<lparr>a_published := remove_dir i (a_published s)\<rparr>)"

lemma area_move_ok: "area_move removes s s' \<Longrightarrow> area_ok s \<Longrightarrow> area_ok s'"
proof (induction rule: area_move.induct)
  case (publish s i d f)
  then have "i \<in> set (map fst (a_pending s))" by (force dest: map_of_SomeD)
  with publish.prems show ?case using distinct_remove_dir [of "a_pending s" i] by (auto simp: area_ok_def remove_dir_def)
next
  case (remove i s)
  then show ?case using distinct_remove_dir [of "a_published s" i] by (auto simp: area_ok_def remove_dir_def)
qed (auto simp: area_ok_def)

lemma area_move_published:
  assumes "area_move removes s s'" "area_ok s" "map_of (a_published s) i = Some d" "\<not> removes i"
  shows "map_of (a_published s') i = Some d"
  using assms
proof (induction rule: area_move.induct)
  case (publish s j e f)
  then have "i \<in> set (map fst (a_published s))" "j \<in> set (map fst (a_pending s))"
    by (force dest: map_of_SomeD)+
  with publish.prems show ?case by (auto simp: area_ok_def map_add_def)
next
  case (remove j s)
  then show ?case by (auto simp: map_of_remove_dir)
qed simp_all

text \<open>
  The contract of a store with a pending and a published area: every operation is one of the moves.
  Clients may then rely on ids that never clash and on published directories that never change.
\<close>

locale staged_store =
  fixes run_op :: "'op \<Rightarrow> 's \<Rightarrow> 's"
    and area_of :: "'s \<Rightarrow> 'd area"
    and removes :: "'op \<Rightarrow> nat \<Rightarrow> bool"
  assumes moves: "area_ok (area_of s) \<Longrightarrow> area_move (removes oper) (area_of s) (area_of (run_op oper s))"
begin

lemma run_ok: "area_ok (area_of s) \<Longrightarrow> area_ok (area_of (fold run_op ops s))"
  by (induction ops arbitrary: s) (auto intro: area_move_ok [OF moves])

lemma published_stays:
  "area_ok (area_of s) \<Longrightarrow> map_of (a_published (area_of s)) i = Some d \<Longrightarrow> \<forall>oper\<in>set ops. \<not> removes oper i \<Longrightarrow>
    map_of (a_published (area_of (fold run_op ops s))) i = Some d"
  by (induction ops arbitrary: s) (auto intro: area_move_ok [OF moves] area_move_published [OF moves])

end

section \<open>Allocation\<close>

lemma create_first_free_fresh: "create_first_free c taken \<notin> set taken \<and> c \<le> create_first_free c taken"
proof (induction c taken rule: create_first_free.induct)
  case (1 c taken)
  then show ?case by (cases "c \<in> set taken") (auto simp: create_first_free.simps [of c taken])
qed

lemma highest_id_ge: "i \<in> set (map fst ds) \<Longrightarrow> i \<le> highest_id ds"
  by (auto simp: highest_id_def max_list0_ge)

lemma allocate_id_fresh:
  "allocate_id s s \<notin> set (map fst (a_pending s))" "allocate_id s s \<notin> set (map fst (a_published s))"
proof -
  let ?i = "allocate_id s s" and ?n = "max (highest_id (a_pending s)) (highest_id (a_published s)) + 1"
  have i: "?i \<notin> set (map fst (a_pending s)) \<and> ?n \<le> ?i" unfolding allocate_id_def by (rule create_first_free_fresh)
  then show "?i \<notin> set (map fst (a_pending s))" by blast
  from i have "highest_id (a_published s) < ?i" by linarith
  then show "?i \<notin> set (map fst (a_published s))" using highest_id_ge by (metis not_le)
qed

text \<open>
  Two processes may be handed the same id: one lists the directories, the other reserves the next id
  and publishes it, and the first then finds the pending directory free.
\<close>

lemma stale_listing_reuses_id:
  "\<exists>s1 s2 s3 :: unit area. s1 = \<lparr>a_pending = [], a_published = []\<rparr> \<and>
     s2 = s1\<lparr>a_pending := a_pending s1 @ [(allocate_id s1 s1, ())]\<rparr> \<and>
     s3 = \<lparr>a_pending = [], a_published = [(allocate_id s1 s1, ())]\<rparr> \<and> area_move (\<lambda>_. False) s2 s3 \<and>
     allocate_id s1 s3 \<in> set (map fst (a_published s3))"
proof -
  have a: "allocate_id \<lparr>a_pending = [], a_published = []\<rparr> s = create_first_free 1 (map fst (a_pending s))" for s :: "unit area"
    by (simp add: allocate_id_def highest_id_def max_list0_def)
  have f: "create_first_free (Suc 0) [] = Suc 0" by (subst create_first_free.simps) simp
  have "area_move (\<lambda>_. False) \<lparr>a_pending = [(1::nat, ())], a_published = []\<rparr> \<lparr>a_pending = [], a_published = [(1, ())]\<rparr>"
    using area_move.publish [of "\<lparr>a_pending = [(1::nat, ())], a_published = []\<rparr>" 1 "()" "\<lambda>_. False" id]
    by (simp add: remove_dir_def)
  then show ?thesis by (simp add: a f)
qed

end
