(* ===== verification/Cache_Store.thy ===== *)
theory Cache_Store
  imports Store_Layout "HOL-Library.List_Lexorder" "HOL-Library.Multiset"
begin

text \<open>
  The store behind \<open>actions/cache\<close> (\<open>greenlit-store/src/cache/\<close>): which entry a list of keys
  restores, and the life of an upload from its reservation over its chunks to the commit. The order in
  which a directory is listed is a parameter.
\<close>

section \<open>Selection\<close>

record cache_candidate =
  cd_key :: ustr
  cd_version :: ustr
  cd_created :: nat

record key_match =
  km_key :: ustr
  km_exact :: bool

definition key_matches :: "bool \<Rightarrow> ustr \<Rightarrow> cache_candidate \<Rightarrow> bool" where
  "key_matches exact key c = (if exact then cd_key c = key else prefix key (cd_key c))"

definition no_later :: "cache_candidate \<Rightarrow> cache_candidate \<Rightarrow> bool" where
  "no_later c d \<longleftrightarrow> cd_created c < cd_created d \<or> (cd_created c = cd_created d \<and> cd_key c \<le> cd_key d)"

text \<open>\<open>Iterator::max_by\<close>, which returns the last of several greatest elements.\<close>

definition max_by_age :: "cache_candidate list \<Rightarrow> cache_candidate option" where
  "max_by_age cs = (case cs of [] \<Rightarrow> None | c # cs \<Rightarrow> Some (fold (\<lambda>d best. if no_later best d then d else best) cs c))"

fun select_from :: "bool \<Rightarrow> ustr list \<Rightarrow> cache_candidate list \<Rightarrow> key_match option" where
  "select_from exact [] scoped = None"
| "select_from exact (key # keys) scoped = (case max_by_age (filter (key_matches exact key) scoped) of
     Some c \<Rightarrow> Some \<lparr>km_key = cd_key c, km_exact = exact\<rparr>
   | None \<Rightarrow> select_from False keys scoped)"

definition select :: "ustr list \<Rightarrow> ustr \<Rightarrow> cache_candidate list \<Rightarrow> key_match option" where
  "select keys version candidates = select_from True keys (filter (\<lambda>c. cd_version c = version) candidates)"

section \<open>The store\<close>

record entry_meta =
  em_key :: ustr
  em_version :: ustr
  em_size :: nat
  em_created :: nat

text \<open>One directory: its metadata, if they can be read, and its bytes, if any were written.\<close>

record entry_dir =
  ed_meta :: "entry_meta option"
  ed_blob :: "nat list option"

record cache_store =
  cache_area :: "entry_dir area"
  cache_hits :: "64 word"
  cache_misses :: "64 word"
  cache_bytes_written :: "64 word"

record restored =
  rs_id :: nat
  rs_key :: ustr
  rs_exact :: bool

type_synonym listing = "(nat \<times> entry_dir) list \<Rightarrow> (nat \<times> entry_dir) list"

definition committed :: "listing \<Rightarrow> cache_store \<Rightarrow> (nat \<times> entry_meta) list" where
  "committed ls st = concat (map (\<lambda>e. case ed_meta (snd e) of Some m \<Rightarrow> [(fst e, m)] | None \<Rightarrow> [])
     (ls (a_published (cache_area st))))"

definition candidate_of :: "entry_meta \<Rightarrow> cache_candidate" where
  "candidate_of m = \<lparr>cd_key = em_key m, cd_version = em_version m, cd_created = em_created m\<rparr>"

definition lookup :: "listing \<Rightarrow> ustr list \<Rightarrow> ustr \<Rightarrow> cache_store \<Rightarrow> restored option \<times> cache_store" where
  "lookup ls keys version st = (let found_entries = committed ls st in
     case select keys version (map (candidate_of \<circ> snd) found_entries) of
       None \<Rightarrow> (None, st\<lparr>cache_misses := cache_misses st + 1\<rparr>)
     | Some m \<Rightarrow> (map_option (\<lambda>e. \<lparr>rs_id = fst e, rs_key = km_key m, rs_exact = km_exact m\<rparr>)
           (List.find (\<lambda>e. em_key (snd e) = km_key m \<and> em_version (snd e) = version) found_entries),
         st\<lparr>cache_hits := cache_hits st + 1\<rparr>))"

definition reserve :: "listing \<Rightarrow> nat \<Rightarrow> ustr \<Rightarrow> ustr \<Rightarrow> cache_store \<Rightarrow> store_error + nat \<times> cache_store" where
  "reserve ls now key version st =
    (if list_ex (\<lambda>e. em_key (snd e) = key \<and> em_version (snd e) = version) (committed ls st) then Inl (AlreadyReserved key)
     else (let i = allocate_id (cache_area st) (cache_area st);
         d = \<lparr>ed_meta = Some \<lparr>em_key = key, em_version = version, em_size = 0, em_created = now\<rparr>, ed_blob = None\<rparr>
       in Inr (i, st\<lparr>cache_area := (cache_area st)\<lparr>a_pending := a_pending (cache_area st) @ [(i, d)]\<rparr>\<rparr>)))"

text \<open>A write behind the end of the file leaves zeroes in between; an empty write changes nothing.\<close>

definition write_at :: "nat list \<Rightarrow> nat \<Rightarrow> nat list \<Rightarrow> nat list" where
  "write_at blob offset chunk = (if chunk = [] then blob
     else take offset (blob @ replicate (offset - length blob) 0) @ chunk @ drop (offset + length chunk) blob)"

definition add_chunk :: "nat \<Rightarrow> nat list \<Rightarrow> entry_dir \<Rightarrow> entry_dir" where
  "add_chunk offset chunk d = d\<lparr>ed_blob := Some (write_at (case ed_blob d of Some b \<Rightarrow> b | None \<Rightarrow> []) offset chunk)\<rparr>"

definition write_chunk :: "nat \<Rightarrow> nat \<Rightarrow> nat list \<Rightarrow> cache_store \<Rightarrow> store_error + cache_store" where
  "write_chunk i offset chunk st = (case map_of (a_pending (cache_area st)) i of
     None \<Rightarrow> Inl (UnknownReservation i)
   | Some _ \<Rightarrow> Inr (st\<lparr>cache_area := (cache_area st)\<lparr>a_pending := update_dir i (add_chunk offset chunk) (a_pending (cache_area st))\<rparr>\<rparr>))"

text \<open>The bytes are counted before the metadata are read; a rename over an existing entry fails.\<close>

definition commit :: "nat \<Rightarrow> nat \<Rightarrow> nat \<Rightarrow> cache_store \<Rightarrow> store_error option \<times> cache_store" where
  "commit now i n_bytes st = (case map_of (a_pending (cache_area st)) i of
     None \<Rightarrow> (Some (UnknownReservation i), st)
   | Some d \<Rightarrow> (let st = st\<lparr>cache_bytes_written := cache_bytes_written st + of_nat n_bytes\<rparr>; a = cache_area st in
       case ed_meta d of
         None \<Rightarrow> (Some (CorruptMetadata i), st)
       | Some m \<Rightarrow> (let f = (\<lambda>d. d\<lparr>ed_meta := Some (m\<lparr>em_size := n_bytes, em_created := now\<rparr>)\<rparr>) in
           if map_of (a_published a) i \<noteq> None
           then (Some (StoreIo ''commit the cache entry'' i), st\<lparr>cache_area := a\<lparr>a_pending := update_dir i f (a_pending a)\<rparr>\<rparr>)
           else (None, st\<lparr>cache_area := a\<lparr>a_pending := remove_dir i (a_pending a),
             a_published := a_published a @ [(i, f d)]\<rparr>\<rparr>))))"

definition blob_path :: "nat \<Rightarrow> cache_store \<Rightarrow> store_error + nat list" where
  "blob_path i st = (case map_of (a_published (cache_area st)) i of
     Some d \<Rightarrow> (case ed_blob d of Some b \<Rightarrow> Inr b | None \<Rightarrow> Inl (UnknownReservation i))
   | None \<Rightarrow> Inl (UnknownReservation i))"

section \<open>Requests\<close>

text \<open>The requests of the clients, as the server passes them on, and their effect on the store.\<close>

datatype cache_op =
    LookupOp "ustr list" ustr
  | ReserveOp nat ustr ustr
  | WriteOp nat nat "nat list"
  | CommitOp nat nat nat

fun cache_run :: "listing \<Rightarrow> cache_op \<Rightarrow> cache_store \<Rightarrow> cache_store" where
  "cache_run ls (LookupOp keys version) st = snd (lookup ls keys version st)"
| "cache_run ls (ReserveOp now key version) st = (case reserve ls now key version st of Inr r \<Rightarrow> snd r | Inl _ \<Rightarrow> st)"
| "cache_run ls (WriteOp i offset chunk) st = (case write_chunk i offset chunk st of Inr st' \<Rightarrow> st' | Inl _ \<Rightarrow> st)"
| "cache_run ls (CommitOp now i n_bytes) st = snd (commit now i n_bytes st)"

lemma area_update_self [simp]: "st\<lparr>cache_area := cache_area st\<rparr> = st" "s\<lparr>a_pending := a_pending s\<rparr> = s"
  by simp_all

lemma cache_moves: "area_ok (cache_area st) \<Longrightarrow> area_move (\<lambda>_. False) (cache_area st) (cache_area (cache_run ls oper st))"
proof (cases oper)
  case (LookupOp keys version)
  then show ?thesis by (auto simp: lookup_def Let_def intro: area_move.stay split: option.splits)
next
  case (ReserveOp now key version)
  then show ?thesis
    using area_move.create [of "allocate_id (cache_area st) (cache_area st)" "cache_area st"] allocate_id_fresh [of "cache_area st"]
    by (auto simp: reserve_def Let_def intro: area_move.stay)
next
  case (WriteOp i offset chunk)
  then show ?thesis by (auto simp: write_chunk_def intro: area_move.stay area_move.edit split: option.splits)
next
  case (CommitOp now i n_bytes)
  show ?thesis
  proof (cases "map_of (a_pending (cache_area st)) i")
    case (Some d)
    then show ?thesis
      using CommitOp area_move.publish [OF Some] by (auto simp: commit_def Let_def intro: area_move.stay area_move.edit split: option.splits)
  qed (simp add: CommitOp commit_def area_move.stay)
qed

interpretation cache: staged_store "cache_run ls" cache_area "\<lambda>_ _. False"
  by unfold_locales (rule cache_moves)

end
