(* ===== verification/Cache_Laws.thy ===== *)
theory Cache_Laws
  imports Cache_Store
begin

text \<open>
  What the cache promises: the selection is the documented rule; what was uploaded, in chunks of any
  order and among any other requests, is what is restored, for as long as the store lives. Two uploads
  of one key that overlap break the uniqueness the lookup assumes.
\<close>

section \<open>The rule of selection\<close>

lemma no_later_total: "no_later c d \<or> no_later d c"
  by (auto simp: no_later_def)

lemma no_later_trans: "no_later a b \<Longrightarrow> no_later b c \<Longrightarrow> no_later a c"
  by (auto simp: no_later_def)

lemma no_later_antisym: "no_later a b \<Longrightarrow> no_later b a \<Longrightarrow> cd_key a = cd_key b"
  by (auto simp: no_later_def)

lemma fold_max_by_age:
  "let m = fold (\<lambda>d best. if no_later best d then d else best) cs c in m \<in> set (c # cs) \<and> (\<forall>d\<in>set (c # cs). no_later d m)"
proof (induction cs arbitrary: c)
  case Nil
  then show ?case using no_later_total by auto
next
  case (Cons d cs)
  let ?c = "if no_later c d then d else c"
  let ?m = "fold (\<lambda>d best. if no_later best d then d else best) cs ?c"
  from Cons [of ?c] have m: "?m \<in> set (?c # cs)" "\<forall>x\<in>set (?c # cs). no_later x ?m" by (simp_all add: Let_def)
  have "no_later c ?c" "no_later d ?c" using no_later_total [of c d] no_later_total [of c c] no_later_total [of d d] by auto
  then have "no_later c ?m" "no_later d ?m" using m(2) no_later_trans by (meson list.set_intros(1))+
  with m show ?case by (auto simp: Let_def split: if_splits)
qed

lemma max_by_age_Some: "max_by_age cs = Some c \<Longrightarrow> c \<in> set cs \<and> (\<forall>d\<in>set cs. no_later d c)"
  using fold_max_by_age by (cases cs) (auto simp: max_by_age_def Let_def)

lemma max_by_age_None: "max_by_age cs = None \<longleftrightarrow> cs = []"
  by (simp add: max_by_age_def split: list.splits)

definition selects_at :: "bool \<Rightarrow> ustr \<Rightarrow> cache_candidate list \<Rightarrow> key_match \<Rightarrow> bool" where
  "selects_at exact key cs m \<longleftrightarrow> (\<exists>c\<in>set cs. key_matches exact key c \<and> m = \<lparr>km_key = cd_key c, km_exact = exact\<rparr> \<and>
     (\<forall>d\<in>set cs. key_matches exact key d \<longrightarrow> no_later d c))"

text \<open>The first key of the list that matches anything, exactly at the first place and by prefix later.\<close>

definition selects :: "bool \<Rightarrow> ustr list \<Rightarrow> cache_candidate list \<Rightarrow> key_match \<Rightarrow> bool" where
  "selects first_exact keys cs m \<longleftrightarrow> (\<exists>i<length keys. selects_at (first_exact \<and> i = 0) (keys ! i) cs m \<and>
     (\<forall>j<i. \<forall>d\<in>set cs. \<not> key_matches (first_exact \<and> j = 0) (keys ! j) d))"

lemma selects_at_unique: "selects_at e k cs m \<Longrightarrow> selects_at e k cs m' \<Longrightarrow> m = m'"
  by (auto simp: selects_at_def dest: no_later_antisym)

lemma max_selects_at: "max_by_age (filter (key_matches e k) cs) = Some c \<Longrightarrow> selects_at e k cs \<lparr>km_key = cd_key c, km_exact = e\<rparr>"
  by (drule max_by_age_Some) (auto simp: selects_at_def)

lemma selects_Cons: "selects e (key # keys) cs m \<longleftrightarrow> selects_at e key cs m \<or>
    ((\<forall>d\<in>set cs. \<not> key_matches e key d) \<and> selects False keys cs m)"
proof
  assume "selects e (key # keys) cs m"
  then obtain i where i: "i < length (key # keys)" "selects_at (e \<and> i = 0) ((key # keys) ! i) cs m"
    "\<forall>j<i. \<forall>d\<in>set cs. \<not> key_matches (e \<and> j = 0) ((key # keys) ! j) d" by (auto simp: selects_def)
  show "selects_at e key cs m \<or> ((\<forall>d\<in>set cs. \<not> key_matches e key d) \<and> selects False keys cs m)"
  proof (cases i)
    case 0
    with i(2) show ?thesis by simp
  next
    case (Suc k)
    have "\<forall>j<k. \<forall>d\<in>set cs. \<not> key_matches False (keys ! j) d" using i(3) Suc by fastforce
    moreover have "\<forall>d\<in>set cs. \<not> key_matches e key d" using i(3) Suc by fastforce
    ultimately show ?thesis using i(1,2) Suc by (auto simp: selects_def)
  qed
next
  assume "selects_at e key cs m \<or> ((\<forall>d\<in>set cs. \<not> key_matches e key d) \<and> selects False keys cs m)"
  then show "selects e (key # keys) cs m"
  proof
    assume "(\<forall>d\<in>set cs. \<not> key_matches e key d) \<and> selects False keys cs m"
    then obtain i where "i < length keys" "selects_at False (keys ! i) cs m"
      "\<forall>j<i. \<forall>d\<in>set cs. \<not> key_matches False (keys ! j) d" "\<forall>d\<in>set cs. \<not> key_matches e key d"
      by (auto simp: selects_def)
    then show ?thesis unfolding selects_def by (intro exI [of _ "Suc i"]) (auto simp: nth_Cons' less_Suc_eq_0_disj)
  qed (auto simp: selects_def)
qed

lemma select_from_rule: "select_from e keys cs = Some m \<longleftrightarrow> selects e keys cs m"
proof (induction e keys cs rule: select_from.induct)
  case (1 e cs)
  show ?case by (simp add: selects_def)
next
  case (2 e key keys cs)
  show ?case
  proof (cases "max_by_age (filter (key_matches e key) cs)")
    case None
    then have no: "\<forall>d\<in>set cs. \<not> key_matches e key d" by (simp add: max_by_age_None filter_empty_conv)
    then have "\<not> selects_at e key cs m" by (auto simp: selects_at_def)
    with 2 None no show ?thesis by (simp add: selects_Cons)
  next
    case (Some c)
    have "c \<in> set cs \<and> key_matches e key c" using max_by_age_Some [OF Some] by simp
    then show ?thesis using Some max_selects_at [OF Some] selects_at_unique by (auto simp: selects_Cons)
  qed
qed

section \<open>Lookups\<close>

lemma committed_member:
  assumes "\<And>xs. mset (ls xs) = mset xs"
  shows "set (committed ls st) = {(i, m). \<exists>d. (i, d) \<in> set (a_published (cache_area st)) \<and> ed_meta d = Some m}"
proof -
  have "set (ls (a_published (cache_area st))) = set (a_published (cache_area st))"
    using assms by (metis set_mset_mset)
  then show ?thesis by (force simp: committed_def split: option.splits)
qed

text \<open>No two entries were committed under one key and version.\<close>

definition keys_unique :: "cache_store \<Rightarrow> bool" where
  "keys_unique st \<longleftrightarrow> (\<forall>i d j e m n. (i, d) \<in> set (a_published (cache_area st)) \<and> ed_meta d = Some m \<and>
     (j, e) \<in> set (a_published (cache_area st)) \<and> ed_meta e = Some n \<and> em_key m = em_key n \<and> em_version m = em_version n \<longrightarrow>
     i = j)"

definition visible :: "ustr \<Rightarrow> cache_store \<Rightarrow> cache_candidate set" where
  "visible version st = {candidate_of m | i d m. (i, d) \<in> set (a_published (cache_area st)) \<and> ed_meta d = Some m \<and> em_version m = version}"

text \<open>
  C14: A lookup restores the entry the documented rule names, whatever order the directory is listed in. If no
  two entries were committed under the same key and version, the result is the entry of that version for
  which: the key at the earliest possible place of the list matches (the first key exactly, later ones by
  prefix), and no entry that matches there is newer (a tie goes to the greater key); there is no result
  just when nothing of that version matches any key. Uploads in flight are never seen.
\<close>

theorem lookup_follows_the_rule:
  assumes ls: "\<And>xs. mset (ls xs) = mset xs" and "keys_unique st"
  shows "fst (lookup ls keys version st) = Some r \<longleftrightarrow>
    (\<exists>d m. (rs_id r, d) \<in> set (a_published (cache_area st)) \<and> ed_meta d = Some m \<and> em_key m = rs_key r \<and> em_version m = version \<and>
       (\<exists>cs. set cs = visible version st \<and> selects True keys cs \<lparr>km_key = rs_key r, km_exact = rs_exact r\<rparr>))"
proof -
  let ?es = "committed ls st"
  let ?cs = "filter (\<lambda>c. cd_version c = version) (map (candidate_of \<circ> snd) ?es)"
  have es: "set ?es = {(i, m). \<exists>d. (i, d) \<in> set (a_published (cache_area st)) \<and> ed_meta d = Some m}"
    by (rule committed_member [OF ls])
  have cs: "set ?cs = visible version st"
    by (force simp: es visible_def candidate_of_def image_iff)
  have any: "selects True keys cs m \<longleftrightarrow> selects True keys ?cs m" if "set cs = visible version st" for cs m
    unfolding selects_def selects_at_def that cs by simp
  have sel: "select keys version (map (candidate_of \<circ> snd) ?es) = Some m \<longleftrightarrow> selects True keys ?cs m" for m
    by (simp add: select_def select_from_rule)
  show ?thesis
  proof (cases "select keys version (map (candidate_of \<circ> snd) ?es)")
    case None
    then have "\<not> selects True keys ?cs m" for m using sel by simp
    then show ?thesis using None any by (auto simp: lookup_def Let_def)
  next
    case (Some m)
    then have m: "selects True keys ?cs m" using sel by blast
    then obtain c where "c \<in> set ?cs" "km_key m = cd_key c"
      unfolding selects_def selects_at_def by (metis key_match.select_convs(1))
    then obtain i n where n: "(i, n) \<in> set ?es" "em_key n = km_key m" "em_version n = version"
      by (auto simp: candidate_of_def)
    have uniq: "j = i" if "(j, n') \<in> set ?es" "em_key n' = km_key m" "em_version n' = version" for j n'
      using that n assms(2) by (auto simp: es keys_unique_def) metis
    let ?P = "\<lambda>e. em_key (snd e) = km_key m \<and> em_version (snd e) = version"
    have "\<not> (\<nexists>e. e \<in> set ?es \<and> ?P e)" using n by auto
    then have "List.find ?P ?es \<noteq> None" unfolding find_None_iff .
    then obtain e where e: "List.find ?P ?es = Some e" by blast
    then have "e \<in> set ?es" "?P e" by (auto simp: find_Some_iff)
    then have fe: "fst e = i" using uniq [of "fst e" "snd e"] by simp
    have res: "fst (lookup ls keys version st) = Some \<lparr>rs_id = i, rs_key = km_key m, rs_exact = km_exact m\<rparr>"
      using Some e fe by (simp add: lookup_def Let_def)
    have same: "m' = m" if "selects True keys cs m'" "set cs = visible version st" for cs m'
      by (metis any sel Some option.inject that)
    show ?thesis
    proof
      assume "fst (lookup ls keys version st) = Some r"
      then have r: "r = \<lparr>rs_id = i, rs_key = km_key m, rs_exact = km_exact m\<rparr>" using res by simp
      from n(1) obtain d where d: "(i, d) \<in> set (a_published (cache_area st))" "ed_meta d = Some n" by (auto simp: es)
      have "\<exists>cs. set cs = visible version st \<and> selects True keys cs \<lparr>km_key = rs_key r, km_exact = rs_exact r\<rparr>"
        using m by (intro exI [of _ ?cs] conjI cs) (cases m, simp add: r)
      with d n(2,3) r show "\<exists>d m. (rs_id r, d) \<in> set (a_published (cache_area st)) \<and> ed_meta d = Some m \<and> em_key m = rs_key r \<and>
          em_version m = version \<and> (\<exists>cs. set cs = visible version st \<and> selects True keys cs \<lparr>km_key = rs_key r, km_exact = rs_exact r\<rparr>)"
        by (intro exI [of _ d] exI [of _ n]) simp
    next
      assume "\<exists>d m. (rs_id r, d) \<in> set (a_published (cache_area st)) \<and> ed_meta d = Some m \<and> em_key m = rs_key r \<and>
          em_version m = version \<and> (\<exists>cs. set cs = visible version st \<and> selects True keys cs \<lparr>km_key = rs_key r, km_exact = rs_exact r\<rparr>)"
      then obtain d n' cs where d: "(rs_id r, d) \<in> set (a_published (cache_area st))" "ed_meta d = Some n'" "em_key n' = rs_key r"
        "em_version n' = version" and "set cs = visible version st" "selects True keys cs \<lparr>km_key = rs_key r, km_exact = rs_exact r\<rparr>"
        by blast
      then have r: "\<lparr>km_key = rs_key r, km_exact = rs_exact r\<rparr> = m" by (intro same [of cs])
      then have k: "rs_key r = km_key m" "rs_exact r = km_exact m" by auto
      have "(rs_id r, n') \<in> set ?es" using d by (auto simp: es)
      then have "rs_id r = i" using d k uniq [of "rs_id r" n'] by simp
      with k res show "fst (lookup ls keys version st) = Some r" by simp
    qed
  qed
qed

definition two_entries :: cache_store where
  "two_entries = \<lparr>cache_area = \<lparr>a_pending = [], a_published =
     [(1, \<lparr>ed_meta = Some \<lparr>em_key = [107, 49], em_version = [118], em_size = 1, em_created = 5\<rparr>, ed_blob = Some [1]\<rparr>),
      (2, \<lparr>ed_meta = Some \<lparr>em_key = [107, 50], em_version = [118], em_size = 1, em_created = 6\<rparr>, ed_blob = Some [2]\<rparr>)]\<rparr>,
     cache_hits = 0, cache_misses = 0, cache_bytes_written = 0\<rparr>"

theorem lookup_follows_the_rule_witness:
  "keys_unique two_entries \<and> (\<exists>cs. set cs = visible [118] two_entries \<and>
     selects True [[107, 51], [107]] cs \<lparr>km_key = [107, 50], km_exact = False\<rparr>)"
proof -
  have u: "keys_unique two_entries" by (auto simp: keys_unique_def two_entries_def)
  have "fst (lookup id [[107, 51], [107]] [118] two_entries) = Some \<lparr>rs_id = 2, rs_key = [107, 50], rs_exact = False\<rparr>"
    by (simp add: two_entries_def lookup_def select_def committed_def candidate_of_def max_by_age_def key_matches_def no_later_def)
  then show ?thesis using u lookup_follows_the_rule [OF _ u, of id "[[107, 51], [107]]" "[118]"] by auto
qed

lemma exact_lookup:
  assumes "(i, m) \<in> set (committed ls st)"
  shows "\<exists>r. fst (lookup ls [em_key m] (em_version m) st) = Some r \<and> rs_key r = em_key m \<and> rs_exact r"
proof -
  let ?cs = "filter (\<lambda>c. cd_version c = em_version m) (map (candidate_of \<circ> snd) (committed ls st))"
  have "candidate_of m \<in> set (filter (key_matches True (em_key m)) ?cs)"
    using assms by (force simp: candidate_of_def key_matches_def image_iff)
  then obtain c where c: "max_by_age (filter (key_matches True (em_key m)) ?cs) = Some c"
    by (metis max_by_age_None empty_iff empty_set not_None_eq)
  then have "cd_key c = em_key m" using max_by_age_Some by (fastforce simp: key_matches_def)
  with c have sel: "select [em_key m] (em_version m) (map (candidate_of \<circ> snd) (committed ls st)) =
      Some \<lparr>km_key = em_key m, km_exact = True\<rparr>" by (simp add: select_def)
  let ?P = "\<lambda>e. em_key (snd e) = em_key m \<and> em_version (snd e) = em_version m"
  have "\<not> (\<nexists>e. e \<in> set (committed ls st) \<and> ?P e)" using assms by auto
  then have "List.find ?P (committed ls st) \<noteq> None" unfolding find_None_iff .
  with sel show ?thesis by (auto simp: lookup_def Let_def)
qed

section \<open>Uploads\<close>

definition chunks_for :: "nat \<Rightarrow> cache_op list \<Rightarrow> (nat \<times> nat list) list" where
  "chunks_for i ops = concat (map (\<lambda>oper. case oper of WriteOp j offset chunk \<Rightarrow> if j = i then [(offset, chunk)] else [] | _ \<Rightarrow> []) ops)"

definition covered :: "(nat \<times> nat list) list \<Rightarrow> nat \<Rightarrow> bool" where
  "covered chunks k \<longleftrightarrow> (\<exists>c\<in>set chunks. fst c \<le> k \<and> k < fst c + length (snd c))"

text \<open>Chunks that carry a content: pieces of it at their offsets, in any order, that leave no gap.\<close>

definition carries :: "nat list \<Rightarrow> (nat \<times> nat list) list \<Rightarrow> bool" where
  "carries content chunks \<longleftrightarrow> chunks \<noteq> [] \<and>
     (\<forall>c\<in>set chunks. fst c + length (snd c) \<le> length content \<and> (\<forall>k<length (snd c). snd c ! k = content ! (fst c + k))) \<and>
     (\<forall>k<length content. covered chunks k)"

lemma write_at_length: "chunk \<noteq> [] \<Longrightarrow> length (write_at b offset chunk) = max (length b) (offset + length chunk)"
  by (auto simp: write_at_def max_def)

lemma write_at_nth:
  assumes "k < length (write_at b offset chunk)"
  shows "write_at b offset chunk ! k =
    (if offset \<le> k \<and> k < offset + length chunk then chunk ! (k - offset) else if k < length b then b ! k else 0)"
proof (cases "chunk = []")
  case True
  with assms show ?thesis by (simp add: write_at_def)
next
  case False
  with assms show ?thesis by (auto simp: write_at_def nth_append min_def)
qed

lemma written_content:
  assumes "\<forall>c\<in>set chunks. fst c + length (snd c) \<le> length content \<and> (\<forall>k<length (snd c). snd c ! k = content ! (fst c + k))"
  defines "b \<equiv> fold (\<lambda>c b. write_at b (fst c) (snd c)) chunks []"
  shows "length b \<le> length content \<and> (\<forall>k. covered chunks k \<longrightarrow> k < length b \<and> b ! k = content ! k)"
  using assms(1) unfolding b_def
proof (induction chunks rule: rev_induct)
  case (snoc c chunks)
  let ?b = "fold (\<lambda>c b. write_at b (fst c) (snd c)) chunks []"
  from snoc have ih: "length ?b \<le> length content" "\<And>k. covered chunks k \<Longrightarrow> k < length ?b \<and> ?b ! k = content ! k" by simp_all
  show ?case
  proof (cases "snd c = []")
    case True
    with ih show ?thesis by (auto simp: write_at_def covered_def)
  next
    case False
    have len: "length (write_at ?b (fst c) (snd c)) = max (length ?b) (fst c + length (snd c))" by (rule write_at_length [OF False])
    have "k < length (write_at ?b (fst c) (snd c)) \<and> write_at ?b (fst c) (snd c) ! k = content ! k" if k: "covered (chunks @ [c]) k" for k
    proof (cases "fst c \<le> k \<and> k < fst c + length (snd c)")
      case True
      then have l: "k < length (write_at ?b (fst c) (snd c))" using len by linarith
      have "snd c ! (k - fst c) = content ! (fst c + (k - fst c))" using snoc.prems True by (auto simp: less_diff_conv2)
      with True l show ?thesis by (simp add: write_at_nth)
    next
      case False
      with k have "covered chunks k" by (auto simp: covered_def)
      with ih(2) [OF this] len have "k < length (write_at ?b (fst c) (snd c))" by linarith
      with False ih(2) [OF \<open>covered chunks k\<close>] show ?thesis by (auto simp: write_at_nth)
    qed
    with ih(1) len snoc.prems show ?thesis by simp
  qed
qed (simp add: covered_def)

lemma carried_content:
  assumes "carries content chunks"
  shows "fold (\<lambda>c b. write_at b (fst c) (snd c)) chunks [] = content"
proof (rule nth_equalityI)
  let ?b = "fold (\<lambda>c b. write_at b (fst c) (snd c)) chunks []"
  have w: "length ?b \<le> length content" "\<And>k. k < length content \<Longrightarrow> k < length ?b \<and> ?b ! k = content ! k"
    using written_content [of chunks content] assms by (auto simp: carries_def)
  have "\<not> length ?b < length content" using w(2) [of "length ?b"] by blast
  then show "length ?b = length content" using w(1) by linarith
  then show "?b ! k = content ! k" if "k < length ?b" for k using w(2) that by simp
qed

section \<open>What is restored\<close>

definition commits :: "nat \<Rightarrow> cache_op \<Rightarrow> bool" where
  "commits i oper \<longleftrightarrow> (\<exists>now n. oper = CommitOp now i n)"

lemma commit_other:
  assumes "j \<noteq> i"
  shows "map_of (a_pending (cache_area (snd (commit now j n st)))) i = map_of (a_pending (cache_area st)) i"
  using assms by (auto simp: commit_def Let_def map_of_update_dir map_of_remove_dir split: option.splits)

lemma pending_step:
  assumes "area_ok (cache_area st)" "map_of (a_pending (cache_area st)) i = Some d" "\<not> commits i oper"
  shows "map_of (a_pending (cache_area (cache_run ls oper st))) i = Some (fold (\<lambda>c. add_chunk (fst c) (snd c)) (chunks_for i [oper]) d)"
proof (cases oper)
  case (LookupOp keys version)
  with assms show ?thesis by (auto simp: lookup_def chunks_for_def Let_def split: option.splits)
next
  case (ReserveOp now key version)
  have "i \<in> set (map fst (a_pending (cache_area st)))" using assms(2) by (force dest: map_of_SomeD)
  then have "allocate_id (cache_area st) (cache_area st) \<noteq> i" using allocate_id_fresh(1) [of "cache_area st"] by blast
  with ReserveOp assms(2) allocate_id_fresh(1) [of "cache_area st"] show ?thesis
    by (auto simp: reserve_def Let_def chunks_for_def map_of_snoc)
next
  case (WriteOp j offset chunk)
  with assms(2) show ?thesis by (auto simp: write_chunk_def chunks_for_def map_of_update_dir split: option.splits)
next
  case (CommitOp now j n)
  with assms(2,3) have "j \<noteq> i" by (auto simp: commits_def)
  with CommitOp assms(2) show ?thesis by (simp add: commit_other chunks_for_def)
qed

lemma chunks_for_Cons: "chunks_for i (oper # ops) = chunks_for i [oper] @ chunks_for i ops"
  by (simp add: chunks_for_def)

lemma pending_run:
  "area_ok (cache_area st) \<Longrightarrow> map_of (a_pending (cache_area st)) i = Some d \<Longrightarrow> \<forall>oper\<in>set ops. \<not> commits i oper \<Longrightarrow>
    map_of (a_pending (cache_area (fold (cache_run ls) ops st))) i = Some (fold (\<lambda>c. add_chunk (fst c) (snd c)) (chunks_for i ops) d)"
proof (induction ops arbitrary: st d)
  case (Cons oper ops)
  have "area_ok (cache_area (cache_run ls oper st))"
    using cache.run_ok [OF Cons.prems(1), of ls "[oper]"] by simp
  from Cons.IH [OF this pending_step [OF Cons.prems(1,2)]] Cons.prems show ?case
    by (simp add: chunks_for_Cons [of i oper ops])
qed (simp add: chunks_for_def)

lemma add_chunks:
  "fold (\<lambda>c. add_chunk (fst c) (snd c)) chunks d = d\<lparr>ed_blob := (if chunks = [] then ed_blob d
     else Some (fold (\<lambda>c b. write_at b (fst c) (snd c)) chunks (case ed_blob d of Some b \<Rightarrow> b | None \<Rightarrow> [])))\<rparr>"
  by (induction chunks arbitrary: d) (auto simp: add_chunk_def)

text \<open>
  C13: What was uploaded is what is restored. After a reservation, let any requests follow, of this
  and of other clients, among which the chunks written to the reservation carry a content (in
  any order, overlapping or not) and which do not commit it. Then its commit succeeds, and from
  then on, after any further requests, downloading the entry gives exactly that content, under the key, the
  version, the size and the time of its commit, and a lookup of its key and version is an exact hit.
\<close>

theorem cache_restores_what_was_saved:
  assumes ls: "\<And>xs. mset (ls xs) = mset xs"
    and "area_ok (cache_area st)" "reserve ls now key version st = Inr (i, st1)"
    and ops: "\<forall>oper\<in>set ops. \<not> commits i oper" "carries content (chunks_for i ops)"
  shows "\<exists>st3. commit now' i n (fold (cache_run ls) ops st1) = (None, st3) \<and>
    (let final_store = fold (cache_run ls) later st3 in
     blob_path i final_store = Inr content \<and>
     (\<exists>d. map_of (a_published (cache_area final_store)) i = Some d \<and>
       ed_meta d = Some \<lparr>em_key = key, em_version = version, em_size = n, em_created = now'\<rparr>) \<and>
     (\<exists>r. fst (lookup ls [key] version final_store) = Some r \<and> rs_key r = key \<and> rs_exact r))"
proof -
  let ?a = "cache_area st" and ?m = "\<lparr>em_key = key, em_version = version, em_size = n, em_created = now'\<rparr>"
  let ?d0 = "\<lparr>ed_meta = Some \<lparr>em_key = key, em_version = version, em_size = 0, em_created = now\<rparr>, ed_blob = None\<rparr>"
  let ?st2 = "fold (cache_run ls) ops st1"
  have r: "i = allocate_id ?a ?a \<and> st1 = st\<lparr>cache_area := ?a\<lparr>a_pending := a_pending ?a @ [(i, ?d0)]\<rparr>\<rparr>"
    using assms(3) unfolding reserve_def Let_def by (auto split: if_splits)
  then have i: "i = allocate_id ?a ?a" and st1: "st1 = cache_run ls (ReserveOp now key version) st"
    and a1: "a_pending (cache_area st1) = a_pending ?a @ [(i, ?d0)]"
    using assms(3) by simp_all
  have ok1: "area_ok (cache_area st1)" using cache.run_ok [OF assms(2), of ls "[ReserveOp now key version]"] st1 by simp
  have "map_of (a_pending (cache_area st1)) i = Some ?d0"
    using allocate_id_fresh(1) [of ?a] unfolding i [symmetric] a1 by (simp only: map_of_snoc simp_thms if_True)
  from pending_run [OF ok1 this ops(1), of ls] have p: "map_of (a_pending (cache_area ?st2)) i = Some (?d0\<lparr>ed_blob := Some content\<rparr>)"
    using ops(2) carried_content [OF ops(2)] by (simp add: add_chunks carries_def)
  have ok2: "area_ok (cache_area ?st2)" by (rule cache.run_ok [OF ok1])
  have "i \<in> set (map fst (a_pending (cache_area ?st2)))" using p by (force dest: map_of_SomeD)
  then have "i \<notin> set (map fst (a_published (cache_area ?st2)))" using ok2 by (auto simp: area_ok_def)
  then have none: "map_of (a_published (cache_area ?st2)) i = None" by (simp add: map_of_eq_None_iff)
  obtain st3 where c: "commit now' i n ?st2 = (None, st3)"
    and pub: "map_of (a_published (cache_area st3)) i = Some \<lparr>ed_meta = Some ?m, ed_blob = Some content\<rparr>"
    using p none by (simp add: commit_def Let_def map_add_def)
  have ok3: "area_ok (cache_area st3)" using cache.run_ok [OF ok2, of ls "[CommitOp now' i n]"] c by simp
  let ?f = "fold (cache_run ls) later st3"
  have f: "map_of (a_published (cache_area ?f)) i = Some \<lparr>ed_meta = Some ?m, ed_blob = Some content\<rparr>"
    by (rule cache.published_stays [OF ok3 pub]) simp
  then have "(i, ?m) \<in> set (committed ls ?f)" by (auto simp: committed_member [OF ls] dest!: map_of_SomeD)
  from exact_lookup [OF this] c f show ?thesis by (auto simp: Let_def blob_path_def)
qed

text \<open>Two chunks, the second first, between a lookup and a foreign reservation.\<close>

definition two_chunks :: "cache_op list" where
  "two_chunks = [WriteOp 1 2 [7, 8], LookupOp [[107]] [118], ReserveOp 4 [120] [118], WriteOp 1 0 [5, 6]]"

definition empty_cache :: cache_store where
  "empty_cache = \<lparr>cache_area = \<lparr>a_pending = [], a_published = []\<rparr>, cache_hits = 0, cache_misses = 0, cache_bytes_written = 0\<rparr>"

lemma empty_cache_reserve:
  "reserve id now key version empty_cache = Inr (1, empty_cache\<lparr>cache_area := \<lparr>a_pending =
     [(1, \<lparr>ed_meta = Some \<lparr>em_key = key, em_version = version, em_size = 0, em_created = now\<rparr>, ed_blob = None\<rparr>)], a_published = []\<rparr>\<rparr>)"
  by (simp add: reserve_def committed_def empty_cache_def allocate_id_def highest_id_def max_list0_def create_first_free.simps)

lemma two_chunks_carry: "\<forall>oper\<in>set two_chunks. \<not> commits 1 oper" "carries [5, 6, 7, 8] (chunks_for 1 two_chunks)"
proof -
  show "\<forall>oper\<in>set two_chunks. \<not> commits 1 oper" by (simp add: two_chunks_def commits_def)
  have "chunks_for 1 two_chunks = [(2, [7, 8]), (0, [5, 6])]" by (simp add: two_chunks_def chunks_for_def)
  then show "carries [5, 6, 7, 8] (chunks_for 1 two_chunks)" by (auto simp: carries_def covered_def less_Suc_eq)
qed

theorem cache_restores_what_was_saved_witness:
  "\<exists>st1 st3. reserve id 3 [107] [118] empty_cache = Inr (1, st1) \<and>
     commit 9 1 4 (fold (cache_run id) two_chunks st1) = (None, st3) \<and>
     blob_path 1 (fold (cache_run id) [ReserveOp 10 [107] [119]] st3) = Inr [5, 6, 7, 8]"
proof -
  have "area_ok (cache_area empty_cache)" by (simp add: empty_cache_def area_ok_def)
  from cache_restores_what_was_saved [OF _ this empty_cache_reserve [of 3 "[107]" "[118]"] two_chunks_carry, where now' = 9 and n = 4 and later = "[ReserveOp 10 [107] [119]]"]
  show ?thesis using empty_cache_reserve [of 3 "[107]" "[118]"] by (auto simp: Let_def)
qed

section \<open>Overlapping uploads\<close>

text \<open>
  A reservation looks only at what is committed, so two uploads of one key and version may be in flight;
  both commits succeed, the keys are no longer unique, and a lookup then returns the older content although
  the selection named the newer entry.
\<close>

definition overlapping :: "cache_op list" where
  "overlapping = [ReserveOp 1 [107] [118], ReserveOp 2 [107] [118], WriteOp 1 0 [1], WriteOp 2 0 [2], CommitOp 5 1 1, CommitOp 6 2 1]"

lemma overlapping_uploads_return_older:
  "\<not> keys_unique (fold (cache_run id) overlapping empty_cache) \<and>
   (\<exists>r. fst (lookup id [[107]] [118] (fold (cache_run id) overlapping empty_cache)) = Some r \<and>
      blob_path (rs_id r) (fold (cache_run id) overlapping empty_cache) = Inr [1])"
proof -
  have f: "create_first_free 1 [] = 1" "create_first_free 2 [1] = 2" by (simp_all add: create_first_free.simps)
  have "cache_area (fold (cache_run id) overlapping empty_cache) = \<lparr>a_pending = [], a_published =
     [(1, \<lparr>ed_meta = Some \<lparr>em_key = [107], em_version = [118], em_size = 1, em_created = 5\<rparr>, ed_blob = Some [1]\<rparr>),
      (2, \<lparr>ed_meta = Some \<lparr>em_key = [107], em_version = [118], em_size = 1, em_created = 6\<rparr>, ed_blob = Some [2]\<rparr>)]\<rparr>"
    using f by (simp add: overlapping_def empty_cache_def reserve_def committed_def allocate_id_def highest_id_def max_list0_def
      write_chunk_def update_dir_def add_chunk_def write_at_def commit_def remove_dir_def numeral_2_eq_2)
  then show ?thesis
    by (force simp: keys_unique_def lookup_def select_def committed_def candidate_of_def max_by_age_def key_matches_def no_later_def blob_path_def)
qed

end
