(* ===== verification/Artifact_Store.thy ===== *)
theory Artifact_Store
  imports Store_Layout Step_Env "HOL-Library.List_Lexorder" "HOL-Library.Product_Lexorder" "HOL-Library.AList" "HOL-Library.Multiset"
begin

text \<open>
  The store behind \<open>upload-artifact\<close> and \<open>download-artifact\<close> (\<open>greenlit-store/src/artifacts/\<close>): blocks are
  staged under ids the client chooses, a commit names the order in which they are assembled, and
  finalizing an artifact makes it visible. The order of a directory listing and the clock are parameters.
\<close>

section \<open>The order of the blocks\<close>

definition block_elements :: "ustr list" where
  "block_elements = [lit ''Latest'', lit ''Committed'', lit ''Uncommitted'']"

definition tag_name :: "ustr \<Rightarrow> ustr" where
  "tag_name tag = (case split_whitespace tag of w # _ \<Rightarrow> w | [] \<Rightarrow> tag)"

text \<open>The id behind an opening tag, if the tag is one of the three and text up to the next tag follows.\<close>

definition block_id_of :: "ustr \<Rightarrow> ustr \<Rightarrow> ustr list" where
  "block_id_of tag body_start = (if tag_name tag \<in> set block_elements
     then (case split_once [60] body_start of
         Some (t, _) \<Rightarrow> if trim t = [] then [] else [trim t]
       | None \<Rightarrow> [])
     else [])"

function parse_blocks :: "ustr \<Rightarrow> ustr list" where
  "parse_blocks rest = (case split_once [60] rest of
     None \<Rightarrow> []
   | Some (_, after_open) \<Rightarrow> (case split_once [62] after_open of
       None \<Rightarrow> []
     | Some (tag, body_start) \<Rightarrow> block_id_of tag body_start @ parse_blocks body_start))"
  by pat_completeness auto
termination
  by (relation "measure length") (auto dest!: split_once_Some)

declare parse_blocks.simps [simp del]

section \<open>The store\<close>

record artifact_meta =
  am_scope :: ustr
  am_name :: ustr
  am_size :: nat
  am_created :: nat

record artifact =
  ar_id :: nat
  ar_scope :: ustr
  ar_name :: ustr
  ar_size :: nat
  ar_created :: nat

text \<open>One directory: its metadata, if they can be read, the files of its blocks, and its blob.\<close>

record artifact_dir =
  ad_meta :: "artifact_meta option"
  ad_blocks :: "(ustr \<times> nat list) list"
  ad_blob :: "nat list option"

type_synonym artifact_store = "artifact_dir area"
type_synonym artifact_listing = "(nat \<times> artifact_dir) list \<Rightarrow> (nat \<times> artifact_dir) list"

text \<open>The directories of a listing whose metadata can be read.\<close>

definition readable :: "(nat \<times> artifact_dir) list \<Rightarrow> (nat \<times> artifact_meta) list" where
  "readable ds = concat (map (\<lambda>e. case ad_meta (snd e) of Some m \<Rightarrow> [(fst e, m)] | None \<Rightarrow> []) ds)"

definition finalized :: "artifact_listing \<Rightarrow> artifact_store \<Rightarrow> (nat \<times> artifact_meta) list" where
  "finalized ls st = readable (ls (a_published st))"

definition is_named :: "ustr \<Rightarrow> ustr \<Rightarrow> artifact_meta \<Rightarrow> bool" where
  "is_named scope name m \<longleftrightarrow> am_scope m = scope \<and> am_name m = name"

definition create_artifact :: "artifact_listing \<Rightarrow> nat \<Rightarrow> ustr \<Rightarrow> ustr \<Rightarrow> artifact_store \<Rightarrow> store_error + nat \<times> artifact_store" where
  "create_artifact ls now scope name st =
    (if list_ex (\<lambda>e. is_named scope name (snd e)) (finalized ls st) then Inl (AlreadyReserved name)
     else (let i = allocate_id st st;
         d = \<lparr>ad_meta = Some \<lparr>am_scope = scope, am_name = name, am_size = 0, am_created = now\<rparr>, ad_blocks = [], ad_blob = None\<rparr>
       in Inr (i, st\<lparr>a_pending := a_pending st @ [(i, d)]\<rparr>)))"

definition block_file :: "ustr \<Rightarrow> ustr" where
  "block_file block_id = lit ''block-'' @ name_hash block_id"

definition put_block :: "ustr \<Rightarrow> nat list \<Rightarrow> artifact_dir \<Rightarrow> artifact_dir" where
  "put_block block_id body d = d\<lparr>ad_blocks := AList.update (block_file block_id) body (ad_blocks d)\<rparr>"

definition stage_block :: "nat \<Rightarrow> ustr \<Rightarrow> nat list \<Rightarrow> artifact_store \<Rightarrow> store_error + artifact_store" where
  "stage_block i block_id body st = (if map_of (a_pending st) i = None then Inl (UnknownReservation i)
     else Inr (st\<lparr>a_pending := update_dir i (put_block block_id body) (a_pending st)\<rparr>))"

fun assemble :: "nat \<Rightarrow> (ustr \<times> nat list) list \<Rightarrow> nat list \<Rightarrow> ustr list \<Rightarrow> store_error + nat list" where
  "assemble i files assembled [] = Inr assembled"
| "assemble i files assembled (b # bs) = (case map_of files (block_file b) of
     None \<Rightarrow> Inl (StoreIo ''read a staged artifact block'' i)
   | Some block \<Rightarrow> assemble i files (assembled @ block) bs)"

definition commit_blocks :: "nat \<Rightarrow> ustr list \<Rightarrow> artifact_store \<Rightarrow> store_error + artifact_store" where
  "commit_blocks i block_ids st = (case map_of (a_pending st) i of
     None \<Rightarrow> Inl (UnknownReservation i)
   | Some d \<Rightarrow> rbind (assemble i (ad_blocks d) [] block_ids) (\<lambda>assembled.
       Inr (st\<lparr>a_pending := update_dir i (\<lambda>d. d\<lparr>ad_blob := Some assembled\<rparr>) (a_pending st)\<rparr>)))"

definition put_whole :: "nat \<Rightarrow> nat list \<Rightarrow> artifact_store \<Rightarrow> store_error + artifact_store" where
  "put_whole i body st = (if map_of (a_pending st) i = None then Inl (UnknownReservation i)
     else Inr (st\<lparr>a_pending := update_dir i (\<lambda>d. d\<lparr>ad_blob := Some body\<rparr>) (a_pending st)\<rparr>))"

text \<open>A rename over an existing directory fails, after the metadata were rewritten.\<close>

definition finalize :: "nat \<Rightarrow> nat \<Rightarrow> nat \<Rightarrow> artifact_store \<Rightarrow> store_error option \<times> artifact_store" where
  "finalize now i n_bytes st = (case map_of (a_pending st) i of
     None \<Rightarrow> (Some (UnknownReservation i), st)
   | Some d \<Rightarrow> (case ad_meta d of
       None \<Rightarrow> (Some (CorruptMetadata i), st)
     | Some m \<Rightarrow> (let f = (\<lambda>d. d\<lparr>ad_meta := Some (m\<lparr>am_size := n_bytes, am_created := now\<rparr>)\<rparr>) in
         if map_of (a_published st) i \<noteq> None
         then (Some (StoreIo ''finalize the artifact'' i), st\<lparr>a_pending := update_dir i f (a_pending st)\<rparr>)
         else (None, st\<lparr>a_pending := remove_dir i (a_pending st), a_published := a_published st @ [(i, f d)]\<rparr>))))"

definition artifact_of :: "nat \<times> artifact_meta \<Rightarrow> artifact" where
  "artifact_of e = \<lparr>ar_id = fst e, ar_scope = am_scope (snd e), ar_name = am_name (snd e),
     ar_size = am_size (snd e), ar_created = am_created (snd e)\<rparr>"

definition list_artifacts :: "artifact_listing \<Rightarrow> ustr \<Rightarrow> ustr option \<Rightarrow> artifact_store \<Rightarrow> artifact list" where
  "list_artifacts ls scope name st = sort_key (\<lambda>a. (ar_name a, ar_id a)) (map artifact_of
     (filter (\<lambda>e. case name of Some wanted \<Rightarrow> am_name (snd e) = wanted | None \<Rightarrow> True)
       (filter (\<lambda>e. am_scope (snd e) = scope) (finalized ls st))))"

definition artifact_blob_path :: "nat \<Rightarrow> artifact_store \<Rightarrow> store_error + nat list" where
  "artifact_blob_path i st = (case map_of (a_published st) i of
     Some d \<Rightarrow> (case ad_blob d of Some b \<Rightarrow> Inr b | None \<Rightarrow> Inl (UnknownReservation i))
   | None \<Rightarrow> Inl (UnknownReservation i))"

definition delete_artifact :: "nat \<Rightarrow> artifact_store \<Rightarrow> store_error + artifact_store" where
  "delete_artifact i st = (if map_of (a_published st) i = None then Inl (UnknownReservation i)
     else Inr (st\<lparr>a_published := remove_dir i (a_published st)\<rparr>))"

definition pending_artifact :: "artifact_listing \<Rightarrow> ustr \<Rightarrow> ustr \<Rightarrow> artifact_store \<Rightarrow> nat option" where
  "pending_artifact ls scope name st =
     map_option fst (List.find (\<lambda>e. is_named scope name (snd e)) (readable (ls (a_pending st))))"

section \<open>Requests\<close>

datatype artifact_op =
    CreateOp nat ustr ustr
  | StageOp nat ustr "nat list"
  | CommitBlocksOp nat "ustr list"
  | PutOp nat "nat list"
  | FinalizeOp nat nat nat
  | DeleteOp nat

definition ok_state :: "store_error + 's \<Rightarrow> 's \<Rightarrow> 's" where
  "ok_state r st = (case r of Inr st' \<Rightarrow> st' | Inl _ \<Rightarrow> st)"

lemma ok_state_simps [simp]: "ok_state (Inr s) st = s" "ok_state (Inl e) st = st"
  by (simp_all add: ok_state_def)

fun artifact_run :: "artifact_listing \<Rightarrow> artifact_op \<Rightarrow> artifact_store \<Rightarrow> artifact_store" where
  "artifact_run ls (CreateOp now scope name) st = (case create_artifact ls now scope name st of Inr r \<Rightarrow> snd r | Inl _ \<Rightarrow> st)"
| "artifact_run ls (StageOp i b body) st = ok_state (stage_block i b body st) st"
| "artifact_run ls (CommitBlocksOp i bs) st = ok_state (commit_blocks i bs st) st"
| "artifact_run ls (PutOp i body) st = ok_state (put_whole i body st) st"
| "artifact_run ls (FinalizeOp now i n) st = snd (finalize now i n st)"
| "artifact_run ls (DeleteOp i) st = ok_state (delete_artifact i st) st"

lemma artifact_moves: "area_move (\<lambda>i. oper = DeleteOp i) st (artifact_run ls oper st)"
proof (cases oper)
  case (CreateOp now scope name)
  then show ?thesis
    using area_move.create [of "allocate_id st st" st] allocate_id_fresh [of st]
    by (auto simp: create_artifact_def Let_def intro: area_move.stay)
next
  case (StageOp i b body)
  then show ?thesis by (auto simp: stage_block_def intro: area_move.stay area_move.edit)
next
  case (CommitBlocksOp i bs)
  then show ?thesis
    by (cases "assemble i (ad_blocks (the (map_of (a_pending st) i))) [] bs")
       (auto simp: commit_blocks_def intro: area_move.stay area_move.edit split: option.splits)
next
  case (PutOp i body)
  then show ?thesis by (auto simp: put_whole_def intro: area_move.stay area_move.edit)
next
  case (FinalizeOp now i n)
  show ?thesis
  proof (cases "map_of (a_pending st) i")
    case (Some d)
    then show ?thesis
      using FinalizeOp area_move.publish [OF Some] by (auto simp: finalize_def Let_def intro: area_move.stay area_move.edit split: option.splits)
  qed (simp add: FinalizeOp finalize_def area_move.stay)
next
  case (DeleteOp i)
  then show ?thesis by (auto simp: delete_artifact_def intro: area_move.stay area_move.remove)
qed

interpretation artifacts: staged_store "artifact_run ls" "\<lambda>st. st" "\<lambda>oper i. oper = DeleteOp i"
  by unfold_locales (rule artifact_moves)

end
