(* ===== verification/Store_Server.thy ===== *)
theory Store_Server
  imports Artifact_Store Cache_Store Json
begin

text \<open>
  The server a job's actions talk to (\<open>greenlit-store/src/server/\<close>): the credentials it asks for, the
  routes of the cache and of the artifacts, and the state they share. Parsing a request and rendering a
  reply belong to the HTTP library, which also refuses what it cannot parse before a handler runs; the order of a directory listing and the clock are parameters.
\<close>

unbundle bit_operations_syntax

section \<open>Credentials\<close>

record shim =
  sh_cache :: cache_store
  sh_artifacts :: artifact_store
  sh_token :: ustr
  sh_signature :: ustr
  sh_base_url :: ustr

definition constant_time_eq :: "nat list \<Rightarrow> nat list \<Rightarrow> bool" where
  "constant_time_eq left right = (if length left \<noteq> length right then False
     else fold (\<lambda>(a, b) difference. difference OR (a XOR b)) (zip left right) 0 = 0)"

definition signature_matches :: "shim \<Rightarrow> ustr option \<Rightarrow> bool" where
  "signature_matches sh presented = (case presented of
     Some v \<Rightarrow> constant_time_eq (as_bytes v) (as_bytes (sh_signature sh))
   | None \<Rightarrow> False)"

text \<open>The header's text, if it is there and is text.\<close>

definition authorize :: "shim \<Rightarrow> ustr option \<Rightarrow> bool" where
  "authorize sh authorization =
    (let presented = (case authorization of
         Some v \<Rightarrow> (case strip_prefix (lit ''Bearer '') v of Some t \<Rightarrow> t | None \<Rightarrow> [])
       | None \<Rightarrow> [])
     in constant_time_eq (as_bytes presented) (as_bytes (sh_token sh)))"

definition with_trailing_slash :: "ustr \<Rightarrow> ustr" where
  "with_trailing_slash base = (if suffix (lit ''/'') base then base else base @ lit ''/'')"

definition blob_url :: "shim \<Rightarrow> nat \<Rightarrow> ustr" where
  "blob_url sh i = with_trailing_slash (sh_base_url sh) @ lit ''_apis/artifactcache/blobs/'' @ dec_string i @
     lit ''?sig='' @ sh_signature sh"

definition artifact_blob_url :: "shim \<Rightarrow> nat \<Rightarrow> ustr" where
  "artifact_blob_url sh i = with_trailing_slash (sh_base_url sh) @ lit ''greenlit/artifacts/'' @ dec_string i @
     lit ''?sig='' @ sh_signature sh"

section \<open>Requests and replies\<close>

datatype json_scalar = JsNumber "nat option" | JsString ustr | JsOther

record artifact_request =
  rq_scope :: ustr
  rq_name :: "ustr option"
  rq_size :: "json_scalar option"
  rq_name_filter :: "ustr option"
  rq_id_filter :: "json_scalar option"

record blob_query =
  bq_comp :: "ustr option"
  bq_blockid :: "ustr option"
  bq_sig :: "ustr option"

record listed_artifact =
  la_scope :: ustr
  la_database_id :: ustr
  la_name :: ustr
  la_size :: ustr

datatype reply =
    Status nat
  | CreateReply bool ustr
  | FinalizeReply bool ustr
  | ListReply "listed_artifact list"
  | SignedUrlReply ustr
  | DeleteReply bool ustr
  | BlobWritten
  | BlobReply "nat list"
  | CacheEntryReply ustr ustr
  | ReserveReply nat

text \<open>A failure of the store is the server's fault; what is missing is the client's.\<close>

definition failure :: "store_error \<Rightarrow> reply" where
  "failure e = Status 500"

definition missing_or_failure :: "store_error \<Rightarrow> reply" where
  "missing_or_failure e = (case e of UnknownReservation _ \<Rightarrow> Status 404 | _ \<Rightarrow> failure e)"

definition json_number :: "json_scalar \<Rightarrow> nat option" where
  "json_number v = (case v of JsNumber n \<Rightarrow> n | JsString s \<Rightarrow> u64_from_str_radix s 10 | JsOther \<Rightarrow> None)"

section \<open>Artifact routes\<close>

definition listed :: "artifact \<Rightarrow> listed_artifact" where
  "listed a = \<lparr>la_scope = ar_scope a, la_database_id = dec_string (ar_id a), la_name = ar_name a, la_size = dec_string (ar_size a)\<rparr>"

definition create_call :: "artifact_listing \<Rightarrow> nat \<Rightarrow> artifact_request \<Rightarrow> shim \<Rightarrow> reply \<times> shim" where
  "create_call ls now rq sh = (case rq_name rq of
     None \<Rightarrow> (Status 400, sh)
   | Some name \<Rightarrow> (case create_artifact ls now (rq_scope rq) name (sh_artifacts sh) of
       Inr (i, st) \<Rightarrow> (CreateReply True (artifact_blob_url sh i), sh\<lparr>sh_artifacts := st\<rparr>)
     | Inl (AlreadyReserved _) \<Rightarrow> (CreateReply False [], sh)
     | Inl e \<Rightarrow> (failure e, sh)))"

definition finalize_call :: "artifact_listing \<Rightarrow> nat \<Rightarrow> artifact_request \<Rightarrow> shim \<Rightarrow> reply \<times> shim" where
  "finalize_call ls now rq sh = (case rq_name rq of
     None \<Rightarrow> (Status 400, sh)
   | Some name \<Rightarrow> (case pending_artifact ls (rq_scope rq) name (sh_artifacts sh) of
       None \<Rightarrow> (Status 404, sh)
     | Some i \<Rightarrow> (let n_bytes = (case Option.bind (rq_size rq) json_number of Some n \<Rightarrow> n | None \<Rightarrow> 0) in
         case finalize now i n_bytes (sh_artifacts sh) of
           (None, st) \<Rightarrow> (FinalizeReply True (dec_string i), sh\<lparr>sh_artifacts := st\<rparr>)
         | (Some e, st) \<Rightarrow> (failure e, sh\<lparr>sh_artifacts := st\<rparr>))))"

definition signed_url_call :: "artifact_listing \<Rightarrow> artifact_request \<Rightarrow> shim \<Rightarrow> reply \<times> shim" where
  "signed_url_call ls rq sh = (case rq_name rq of
     None \<Rightarrow> (Status 400, sh)
   | Some name \<Rightarrow> (case list_artifacts ls (rq_scope rq) (Some name) (sh_artifacts sh) of
       a # _ \<Rightarrow> (SignedUrlReply (artifact_blob_url sh (ar_id a)), sh)
     | [] \<Rightarrow> (Status 404, sh)))"

definition i64_of_u64 :: "nat \<Rightarrow> nat option" where
  "i64_of_u64 n = (if n < 2 ^ 63 then Some n else None)"

text \<open>The artifact to delete: by its id, or else the first of that name.\<close>

definition delete_target :: "artifact_listing \<Rightarrow> artifact_request \<Rightarrow> artifact_store \<Rightarrow> reply + nat" where
  "delete_target ls rq st = (case Option.bind (Option.bind (rq_id_filter rq) json_number) i64_of_u64 of
     Some i \<Rightarrow> Inr i
   | None \<Rightarrow> (case rq_name rq of
       None \<Rightarrow> Inl (Status 400)
     | Some name \<Rightarrow> (case list_artifacts ls (rq_scope rq) (Some name) st of a # _ \<Rightarrow> Inr (ar_id a) | [] \<Rightarrow> Inl (Status 404))))"

definition delete_call :: "artifact_listing \<Rightarrow> artifact_request \<Rightarrow> shim \<Rightarrow> reply \<times> shim" where
  "delete_call ls rq sh = (case delete_target ls rq (sh_artifacts sh) of
     Inl r \<Rightarrow> (r, sh)
   | Inr i \<Rightarrow> (case delete_artifact i (sh_artifacts sh) of
       Inr st \<Rightarrow> (DeleteReply True (dec_string i), sh\<lparr>sh_artifacts := st\<rparr>)
     | Inl e \<Rightarrow> (missing_or_failure e, sh)))"

definition twirp :: "artifact_listing \<Rightarrow> nat \<Rightarrow> ustr option \<Rightarrow> ustr \<Rightarrow> artifact_request \<Rightarrow> shim \<Rightarrow> reply \<times> shim" where
  "twirp ls now authorization method rq sh =
    (if \<not> authorize sh authorization then (Status 401, sh)
     else if method = lit ''CreateArtifact'' then create_call ls now rq sh
     else if method = lit ''FinalizeArtifact'' then finalize_call ls now rq sh
     else if method = lit ''ListArtifacts'' then
       (ListReply (map listed (list_artifacts ls (rq_scope rq) (rq_name_filter rq) (sh_artifacts sh))), sh)
     else if method = lit ''GetSignedArtifactURL'' then signed_url_call ls rq sh
     else if method = lit ''DeleteArtifact'' then delete_call ls rq sh
     else (Status 404, sh))"

definition store_reply :: "store_error + artifact_store \<Rightarrow> shim \<Rightarrow> reply \<times> shim" where
  "store_reply r sh = (case r of Inr st \<Rightarrow> (BlobWritten, sh\<lparr>sh_artifacts := st\<rparr>) | Inl e \<Rightarrow> (missing_or_failure e, sh))"

definition blob_put :: "nat \<Rightarrow> blob_query \<Rightarrow> nat list \<Rightarrow> shim \<Rightarrow> reply \<times> shim" where
  "blob_put i q body sh =
    (if \<not> signature_matches sh (bq_sig q) then (Status 401, sh)
     else if bq_comp q = Some (lit ''block'') then
       (case bq_blockid q of
          Some b \<Rightarrow> store_reply (stage_block i b body (sh_artifacts sh)) sh
        | None \<Rightarrow> (Status 400, sh))
     else if bq_comp q = Some (lit ''blocklist'') then
       (let block_ids = parse_blocks (from_utf8_lossy body) in
        if block_ids = [] then (Status 400, sh) else store_reply (commit_blocks i block_ids (sh_artifacts sh)) sh)
     else store_reply (put_whole i body (sh_artifacts sh)) sh)"

definition blob_get :: "nat \<Rightarrow> blob_query \<Rightarrow> shim \<Rightarrow> reply \<times> shim" where
  "blob_get i q sh = (if \<not> signature_matches sh (bq_sig q) then (Status 401, sh)
     else (case artifact_blob_path i (sh_artifacts sh) of Inr b \<Rightarrow> (BlobReply b, sh) | Inl _ \<Rightarrow> (Status 404, sh)))"

section \<open>Cache routes\<close>

definition content_range_start :: "ustr option \<Rightarrow> nat option" where
  "content_range_start header = Option.bind header (\<lambda>v. Option.bind (strip_prefix (lit ''bytes '') v) (\<lambda>rest.
     Option.bind (split_once (lit ''-'') rest) (\<lambda>(start, _). u64_from_str_radix (trim start) 10)))"

definition cache_lookup :: "listing \<Rightarrow> ustr option \<Rightarrow> ustr \<Rightarrow> ustr \<Rightarrow> shim \<Rightarrow> reply \<times> shim" where
  "cache_lookup ls authorization keys version sh = (if \<not> authorize sh authorization then (Status 401, sh)
     else (case lookup ls (split_char 44 keys) version (sh_cache sh) of
         (None, st) \<Rightarrow> (Status 204, sh\<lparr>sh_cache := st\<rparr>)
       | (Some r, st) \<Rightarrow> (CacheEntryReply (rs_key r) (blob_url sh (rs_id r)), sh\<lparr>sh_cache := st\<rparr>)))"

definition cache_reserve :: "listing \<Rightarrow> nat \<Rightarrow> ustr option \<Rightarrow> ustr \<Rightarrow> ustr \<Rightarrow> shim \<Rightarrow> reply \<times> shim" where
  "cache_reserve ls now authorization key version sh = (if \<not> authorize sh authorization then (Status 401, sh)
     else (case reserve ls now key version (sh_cache sh) of
         Inr (i, st) \<Rightarrow> (ReserveReply i, sh\<lparr>sh_cache := st\<rparr>)
       | Inl (AlreadyReserved _) \<Rightarrow> (Status 409, sh)
       | Inl e \<Rightarrow> (failure e, sh)))"

definition cache_upload :: "ustr option \<Rightarrow> nat \<Rightarrow> ustr option \<Rightarrow> nat list \<Rightarrow> shim \<Rightarrow> reply \<times> shim" where
  "cache_upload authorization i content_range body sh = (if \<not> authorize sh authorization then (Status 401, sh)
     else (case content_range_start content_range of
         None \<Rightarrow> (Status 400, sh)
       | Some n \<Rightarrow> (case write_chunk i n body (sh_cache sh) of
           Inr st \<Rightarrow> (Status 200, sh\<lparr>sh_cache := st\<rparr>)
         | Inl e \<Rightarrow> (missing_or_failure e, sh))))"

definition cache_commit :: "nat \<Rightarrow> ustr option \<Rightarrow> nat \<Rightarrow> nat \<Rightarrow> shim \<Rightarrow> reply \<times> shim" where
  "cache_commit now authorization i n_bytes sh = (if \<not> authorize sh authorization then (Status 401, sh)
     else (case commit now i n_bytes (sh_cache sh) of
         (None, st) \<Rightarrow> (Status 200, sh\<lparr>sh_cache := st\<rparr>)
       | (Some e, st) \<Rightarrow> (missing_or_failure e, sh\<lparr>sh_cache := st\<rparr>)))"

definition cache_download :: "nat \<Rightarrow> ustr option \<Rightarrow> shim \<Rightarrow> reply \<times> shim" where
  "cache_download i sig sh = (if \<not> signature_matches sh sig then (Status 401, sh)
     else (case blob_path i (sh_cache sh) of Inr b \<Rightarrow> (BlobReply b, sh) | Inl _ \<Rightarrow> (Status 404, sh)))"

section \<open>The router\<close>

datatype shim_request =
    Twirp "ustr option" ustr artifact_request
  | BlobPut nat blob_query "nat list"
  | BlobGet nat blob_query
  | CacheLookup "ustr option" ustr ustr
  | CacheReserve "ustr option" ustr ustr
  | CacheUpload "ustr option" nat "ustr option" "nat list"
  | CacheCommit "ustr option" nat nat
  | CacheDownload nat "ustr option"

text \<open>What the file system and the clock contribute while one request is served.\<close>

record surroundings =
  su_artifacts :: artifact_listing
  su_cache :: listing
  su_now :: nat

text \<open>The dispatch of a request that was parsed and whose body was read.\<close>

fun serve :: "surroundings \<Rightarrow> shim_request \<Rightarrow> shim \<Rightarrow> reply \<times> shim" where
  "serve w (Twirp authorization method rq) sh = twirp (su_artifacts w) (su_now w) authorization method rq sh"
| "serve w (BlobPut i q body) sh = blob_put i q body sh"
| "serve w (BlobGet i q) sh = blob_get i q sh"
| "serve w (CacheLookup authorization keys version) sh = cache_lookup (su_cache w) authorization keys version sh"
| "serve w (CacheReserve authorization key version) sh = cache_reserve (su_cache w) (su_now w) authorization key version sh"
| "serve w (CacheUpload authorization i content_range body) sh = cache_upload authorization i content_range body sh"
| "serve w (CacheCommit authorization i n_bytes) sh = cache_commit (su_now w) authorization i n_bytes sh"
| "serve w (CacheDownload i sig) sh = cache_download i sig sh"

text \<open>
  The limit on bodies. The routes of the cache set their own; those of the artifacts keep the default of
  the HTTP library, a parameter here. A body over its limit is refused with 413 while it is read, before
  the handler runs; the routes that only read take no body. For a JSON body, which a request holds
  parsed, its number of bytes is given beside it.
\<close>

definition CACHE_UPLOAD_BODY_LIMIT :: nat where
  "CACHE_UPLOAD_BODY_LIMIT = 128 * 1024 * 1024"

fun body_within_limit :: "nat \<Rightarrow> nat \<Rightarrow> shim_request \<Rightarrow> bool" where
  "body_within_limit default_limit json_bytes (Twirp _ _ _) = (json_bytes \<le> default_limit)"
| "body_within_limit default_limit json_bytes (BlobPut _ _ body) = (length body \<le> default_limit)"
| "body_within_limit default_limit json_bytes (CacheReserve _ _ _) = (json_bytes \<le> CACHE_UPLOAD_BODY_LIMIT)"
| "body_within_limit default_limit json_bytes (CacheUpload _ _ _ body) = (length body \<le> CACHE_UPLOAD_BODY_LIMIT)"
| "body_within_limit default_limit json_bytes (CacheCommit _ _ _) = (json_bytes \<le> CACHE_UPLOAD_BODY_LIMIT)"
| "body_within_limit default_limit json_bytes _ = True"

definition receive :: "nat \<Rightarrow> nat \<Rightarrow> surroundings \<Rightarrow> shim_request \<Rightarrow> shim \<Rightarrow> reply \<times> shim" where
  "receive default_limit json_bytes w r sh =
     (if body_within_limit default_limit json_bytes r then serve w r sh else (Status 413, sh))"

end
