(* ===== verification/Artifact_Laws.thy ===== *)
theory Artifact_Laws
  imports Artifact_Store
begin

text \<open>
  Laws of the artifact store: the parser of block lists inverts the document the client sends; what an
  upload has staged survives every request of others; a published artifact is the only one of its name.
\<close>

section \<open>Block lists\<close>

definition block_item :: "ustr \<Rightarrow> ustr" where
  "block_item b = lit ''<Latest>'' @ b @ lit ''</Latest>''"

text \<open>The document the client's library writes.\<close>

definition block_list_document :: "ustr list \<Rightarrow> ustr" where
  "block_list_document bs = lit ''<?xml version=\"1.0\" encoding=\"utf-8\"?><BlockList>'' @ concat (map block_item bs) @ lit ''</BlockList>''"

definition block_id_ok :: "ustr \<Rightarrow> bool" where
  "block_id_ok b \<longleftrightarrow> b \<noteq> [] \<and> trim b = b \<and> 60 \<notin> set b \<and> valid_str b"

lemma parse_blocks_tag:
  assumes "60 \<notin> set pre" "62 \<notin> set tag"
  shows "parse_blocks (pre @ 60 # tag @ 62 # rest) = block_id_of tag rest @ parse_blocks rest"
proof -
  have "split_once [60] (pre @ 60 # tag @ 62 # rest) = Some (pre, tag @ 62 # rest)" using assms by (simp add: split_once_char_iff)
  moreover have "split_once [62] (tag @ 62 # rest) = Some (tag, rest)" using assms by (simp add: split_once_char_iff)
  ultimately show ?thesis by (subst parse_blocks.simps) simp
qed

lemma tag_names:
  "tag_name (lit ''Latest'') = lit ''Latest''" "tag_name (lit ''/Latest'') = lit ''/Latest''"
  "tag_name (lit ''BlockList'') = lit ''BlockList''" "tag_name (lit ''/BlockList'') = lit ''/BlockList''"
  "tag_name (lit ''?xml version=\"1.0\" encoding=\"utf-8\"?'') = lit ''?xml''"
  by code_simp+

lemma other_tags:
  "block_id_of (lit ''/Latest'') s = []" "block_id_of (lit ''BlockList'') s = []" "block_id_of (lit ''/BlockList'') s = []"
  "block_id_of (lit ''?xml version=\"1.0\" encoding=\"utf-8\"?'') s = []"
  unfolding block_id_of_def tag_names block_elements_def by (simp_all add: lit_def)

lemma latest_tag: "block_id_ok b \<Longrightarrow> block_id_of (lit ''Latest'') (b @ 60 # s) = [b]"
proof -
  assume b: "block_id_ok b"
  then have "split_once [60] (b @ 60 # s) = Some (b, s)" by (simp add: split_once_char_iff block_id_ok_def)
  with b show ?thesis unfolding block_id_of_def tag_names block_elements_def by (simp add: block_id_ok_def)
qed

lemma parse_block_item:
  assumes "block_id_ok b"
  shows "parse_blocks (block_item b @ s) = b # parse_blocks s"
proof -
  have i: "block_item b @ s = [] @ 60 # lit ''Latest'' @ 62 # (b @ 60 # lit ''/Latest'' @ 62 # s)"
    by (simp add: block_item_def lit_def)
  have b: "60 \<notin> set b" using assms by (simp add: block_id_ok_def)
  have t: "62 \<notin> set (lit ''Latest'')" "62 \<notin> set (lit ''/Latest'')" "60 \<notin> set ([] :: ustr)" by (simp_all add: lit_def)
  show ?thesis unfolding i parse_blocks_tag [OF t(3,1)] parse_blocks_tag [OF b t(2)] latest_tag [OF assms] other_tags by simp
qed

lemma parse_block_list:
  assumes "\<forall>b\<in>set bs. block_id_ok b"
  shows "parse_blocks (block_list_document bs) = bs"
proof -
  have "parse_blocks (concat (map block_item bs) @ s) = bs @ parse_blocks s" for s
    using assms by (induction bs) (simp_all add: parse_block_item)
  moreover have "parse_blocks (lit ''</BlockList>'') = []"
    using parse_blocks_tag [of "[]" "lit ''/BlockList''" "[]"] by (simp add: other_tags, simp add: lit_def parse_blocks.simps)
  moreover have "parse_blocks (lit ''<?xml version=\"1.0\" encoding=\"utf-8\"?><BlockList>'' @ s) = parse_blocks s" for s
    using parse_blocks_tag [of "[]" "lit ''?xml version=\"1.0\" encoding=\"utf-8\"?''" "lit ''<BlockList>'' @ s"]
      parse_blocks_tag [of "[]" "lit ''BlockList''" s]
    by (simp add: other_tags, simp add: lit_def)
  ultimately show ?thesis by (simp add: block_list_document_def)
qed

lemma valid_block_list: "\<forall>b\<in>set bs. block_id_ok b \<Longrightarrow> valid_str (block_list_document bs)"
  by (induction bs) (auto simp: block_list_document_def block_item_def valid_str_def block_id_ok_def lit_def is_scalar_def)

text \<open>A comment that contains a tag changes the result.\<close>

lemma comment_contributes_block:
  "parse_blocks (lit ''<BlockList><!-- <Latest>a</Latest><Latest>b</Latest> --><Latest>c</Latest></BlockList>'') = [lit ''b'', lit ''c'']"
  by code_simp

section \<open>Names\<close>

definition dirs :: "artifact_store \<Rightarrow> (nat \<times> artifact_dir) list" where
  "dirs st = a_pending st @ a_published st"

definition name_of :: "artifact_dir \<Rightarrow> (ustr \<times> ustr) option" where
  "name_of d = map_option (\<lambda>m. (am_scope m, am_name m)) (ad_meta d)"

text \<open>No directory but that of \<open>i\<close> has the name.\<close>

definition sole :: "nat \<Rightarrow> ustr \<times> ustr \<Rightarrow> artifact_store \<Rightarrow> bool" where
  "sole i sn st \<longleftrightarrow> (\<forall>j d. (j, d) \<in> set (dirs st) \<longrightarrow> name_of d = Some sn \<longrightarrow> j = i)"

lemma name_of_Some: "name_of d = Some sn \<longleftrightarrow> (\<exists>m. ad_meta d = Some m \<and> is_named (fst sn) (snd sn) m)"
  by (cases sn) (auto simp: name_of_def is_named_def)

lemma readable_set: "set (readable ds) = {(i, m). \<exists>d. (i, d) \<in> set ds \<and> ad_meta d = Some m}"
  by (force simp: readable_def split: option.splits)

lemma name_of_keep [simp]:
  "name_of (put_block b body d) = name_of d" "name_of (d\<lparr>ad_blob := x\<rparr>) = name_of d"
  "ad_meta d = Some m \<Longrightarrow> name_of (d'\<lparr>ad_meta := Some (m\<lparr>am_size := n, am_created := t\<rparr>)\<rparr>) = name_of d"
  by (simp_all add: name_of_def put_block_def)

lemma update_dir_set: "(j, d) \<in> set (update_dir i f ds) \<Longrightarrow> \<exists>d'. (j, d') \<in> set ds \<and> (d = d' \<or> j = i \<and> d = f d')"
  by (auto simp: update_dir_def split: if_splits)

lemma update_dir_names:
  assumes "(j, d) \<in> set (update_dir i f ds)" "\<And>d'. (i, d') \<in> set ds \<Longrightarrow> name_of (f d') = name_of d'"
  shows "\<exists>d'. (j, d') \<in> set ds \<and> name_of d = name_of d'"
  using update_dir_set [OF assms(1)] assms(2) by auto

lemma pending_unique: "area_ok st \<Longrightarrow> map_of (a_pending st) i = Some d \<longleftrightarrow> (i, d) \<in> set (a_pending st)"
  by (simp add: area_ok_def)

lemma published_unique: "area_ok st \<Longrightarrow> map_of (a_published st) i = Some d \<longleftrightarrow> (i, d) \<in> set (a_published st)"
  by (simp add: area_ok_def)

lemma run_names:
  assumes "area_ok st" "(j, d) \<in> set (dirs (artifact_run ls oper st))"
  shows "(\<exists>d'. (j, d') \<in> set (dirs st) \<and> name_of d = name_of d') \<or>
    (\<exists>now scope name. oper = CreateOp now scope name \<and> name_of d = Some (scope, name) \<and>
       \<not> list_ex (\<lambda>e. is_named scope name (snd e)) (finalized ls st))"
proof (cases oper)
  case (CreateOp now scope name)
  with assms(2) show ?thesis
    by (auto simp: create_artifact_def Let_def dirs_def name_of_def split: if_splits)
next
  case (StageOp i b body)
  with assms(2) show ?thesis
    by (auto simp: stage_block_def dirs_def split: if_splits dest!: update_dir_names)
next
  case (CommitBlocksOp i bs)
  with assms(2) show ?thesis
    by (auto simp: commit_blocks_def dirs_def ok_state_def rbind_def split: option.splits sum.splits dest!: update_dir_names)
next
  case (PutOp i body)
  with assms(2) show ?thesis
    by (auto simp: put_whole_def dirs_def split: if_splits dest!: update_dir_names)
next
  case (FinalizeOp now i n)
  show ?thesis
  proof (cases "map_of (a_pending st) i")
    case None
    with FinalizeOp assms(2) show ?thesis by (auto simp: finalize_def)
  next
    case (Some e)
    then have e: "(i, e) \<in> set (a_pending st)" by (rule map_of_SomeD)
    have same: "d' = e" if "(i, d') \<in> set (a_pending st)" for d' using that Some pending_unique [OF assms(1), of i d'] by simp
    show ?thesis
    proof (cases "ad_meta e")
      case None
      with Some FinalizeOp assms(2) show ?thesis by (auto simp: finalize_def)
    next
      case (Some m)
      let ?f = "\<lambda>d. d\<lparr>ad_meta := Some (m\<lparr>am_size := n, am_created := now\<rparr>)\<rparr>"
      have f: "name_of (?f d') = name_of e" for d' using Some by simp
      show ?thesis
      proof (cases "map_of (a_published st) i = None")
        case True
        with Some \<open>map_of (a_pending st) i = Some e\<close> FinalizeOp assms(2) have "(j, d) \<in> set (dirs st) \<or> (j = i \<and> d = ?f e)"
          by (auto simp: finalize_def dirs_def remove_dir_def)
        with e f show ?thesis by (auto simp: dirs_def)
      next
        case False
        with Some \<open>map_of (a_pending st) i = Some e\<close> FinalizeOp assms(2)
        have "(j, d) \<in> set (update_dir i ?f (a_pending st)) \<or> (j, d) \<in> set (a_published st)"
          by (auto simp: finalize_def dirs_def)
        moreover have "\<exists>d'. (j, d') \<in> set (a_pending st) \<and> name_of d = name_of d'" if "(j, d) \<in> set (update_dir i ?f (a_pending st))"
          using that by (rule update_dir_names) (use f same in metis)
        ultimately show ?thesis by (auto simp: dirs_def)
      qed
    qed
  qed
next
  case (DeleteOp i)
  with assms(2) show ?thesis by (auto simp: delete_artifact_def dirs_def remove_dir_def split: if_splits)
qed

lemma sole_step:
  assumes "area_ok st" "sole i sn st"
    and "\<And>now. oper = CreateOp now (fst sn) (snd sn) \<Longrightarrow> list_ex (\<lambda>e. is_named (fst sn) (snd sn) (snd e)) (finalized ls st)"
  shows "sole i sn (artifact_run ls oper st)"
  unfolding sole_def using run_names [OF assms(1)] assms(2,3) by (fastforce simp: sole_def)

section \<open>An upload in flight\<close>

definition staging :: "nat \<Rightarrow> ustr \<times> ustr \<Rightarrow> (ustr \<rightharpoonup> nat list) \<Rightarrow> artifact_store \<Rightarrow> bool" where
  "staging i sn files st \<longleftrightarrow> area_ok st \<and> sole i sn st \<and>
     (\<exists>d. map_of (a_pending st) i = Some d \<and> name_of d = Some sn \<and> map_of (ad_blocks d) = files)"

fun staged_files :: "nat \<Rightarrow> artifact_op \<Rightarrow> (ustr \<rightharpoonup> nat list) \<Rightarrow> ustr \<rightharpoonup> nat list" where
  "staged_files i (StageOp j b body) files = (if j = i then files(block_file b \<mapsto> body) else files)"
| "staged_files i _ files = files"

lemma staging_step:
  assumes "staging i sn files st" "\<And>now n. oper \<noteq> FinalizeOp now i n" "\<And>now. oper \<noteq> CreateOp now (fst sn) (snd sn)"
  shows "staging i sn (staged_files i oper files) (artifact_run ls oper st)"
proof -
  from assms(1) obtain d where d: "map_of (a_pending st) i = Some d" "name_of d = Some sn" "map_of (ad_blocks d) = files"
    and ok: "area_ok st" "sole i sn st" by (auto simp: staging_def)
  have "area_ok (artifact_run ls oper st)" using artifacts.run_ok [OF ok(1), of ls "[oper]"] by simp
  moreover have "sole i sn (artifact_run ls oper st)" by (rule sole_step [OF ok]) (use assms(3) in blast)
  moreover have "\<exists>d. map_of (a_pending (artifact_run ls oper st)) i = Some d \<and> name_of d = Some sn \<and>
      map_of (ad_blocks d) = staged_files i oper files"
  proof (cases oper)
    case (CreateOp now scope name)
    have "i \<in> set (map fst (a_pending st))" using d(1) by (force dest: map_of_SomeD)
    then have "allocate_id st st \<noteq> i" using allocate_id_fresh(1) [of st] by blast
    with CreateOp d allocate_id_fresh(1) [of st] show ?thesis by (auto simp: create_artifact_def Let_def map_of_snoc)
  next
    case (StageOp j b body)
    with d show ?thesis by (auto simp: stage_block_def map_of_update_dir put_block_def name_of_def update_conv')
  next
    case (CommitBlocksOp j bs)
    with d show ?thesis
      by (auto simp: commit_blocks_def map_of_update_dir ok_state_def rbind_def split: option.splits sum.splits)
  next
    case (PutOp j body)
    with d show ?thesis by (auto simp: put_whole_def map_of_update_dir)
  next
    case (FinalizeOp now j n)
    with assms(2) have "j \<noteq> i" by blast
    with FinalizeOp d show ?thesis
      by (auto simp: finalize_def Let_def map_of_update_dir map_of_remove_dir split: option.splits)
  next
    case (DeleteOp j)
    with d show ?thesis by (auto simp: delete_artifact_def)
  qed
  ultimately show ?thesis by (simp add: staging_def)
qed

section \<open>A published artifact\<close>

definition published :: "nat \<Rightarrow> ustr \<times> ustr \<Rightarrow> artifact_dir \<Rightarrow> artifact_store \<Rightarrow> bool" where
  "published i sn d st \<longleftrightarrow> area_ok st \<and> sole i sn st \<and> map_of (a_published st) i = Some d \<and> name_of d = Some sn"

lemma finalized_set:
  assumes "\<And>xs. mset (ls xs) = mset xs"
  shows "set (finalized ls st) = {(i, m). \<exists>d. (i, d) \<in> set (a_published st) \<and> ad_meta d = Some m}"
  by (simp add: finalized_def readable_set assms mset_eq_setD [OF assms])

lemma published_step:
  assumes ls: "\<And>xs. mset (ls xs) = mset xs" and "published i sn d st" "oper \<noteq> DeleteOp i"
  shows "published i sn d (artifact_run ls oper st)"
proof -
  from assms(2) have p: "area_ok st" "sole i sn st" "map_of (a_published st) i = Some d" "name_of d = Some sn"
    by (auto simp: published_def)
  from p(4) obtain m where m: "ad_meta d = Some m" "is_named (fst sn) (snd sn) m" by (auto simp: name_of_Some)
  then have "(i, m) \<in> set (finalized ls st)" using p(3) by (auto simp: finalized_set [OF ls] dest: map_of_SomeD)
  with m have "list_ex (\<lambda>e. is_named (fst sn) (snd sn) (snd e)) (finalized ls st)" by (force simp: list_ex_iff)
  then have "sole i sn (artifact_run ls oper st)" by (intro sole_step [OF p(1,2)])
  moreover have "map_of (a_published (artifact_run ls oper st)) i = Some d"
    using artifacts.published_stays [OF p(1,3), of "[oper]" ls] assms(3) by simp
  moreover have "area_ok (artifact_run ls oper st)" using artifacts.run_ok [OF p(1), of ls "[oper]"] by simp
  ultimately show ?thesis using p(4) by (simp add: published_def)
qed

lemma published_listed:
  assumes ls: "\<And>xs. mset (ls xs) = mset xs" and "published i (scope, name) d st"
  shows "\<exists>a as. list_artifacts ls scope (Some name) st = a # as \<and> ar_id a = i"
proof -
  from assms(2) have p: "sole i (scope, name) st" "map_of (a_published st) i = Some d" "name_of d = Some (scope, name)"
    by (auto simp: published_def)
  let ?es = "filter (\<lambda>e. am_name (snd e) = name) (filter (\<lambda>e. am_scope (snd e) = scope) (finalized ls st))"
  from p(3) obtain m where m: "ad_meta d = Some m" "is_named scope name m" by (auto simp: name_of_Some)
  then have "(i, m) \<in> set ?es" using p(2) by (auto simp: finalized_set [OF ls] is_named_def dest: map_of_SomeD)
  then have ne: "set (list_artifacts ls scope (Some name) st) \<noteq> {}" by (auto simp: list_artifacts_def)
  have "ar_id a = i" if a: "a \<in> set (list_artifacts ls scope (Some name) st)" for a
  proof -
    from a obtain j n d' where "ar_id a = j" "(j, d') \<in> set (a_published st)" "ad_meta d' = Some n" "is_named scope name n"
      by (auto simp: list_artifacts_def finalized_set [OF ls] artifact_of_def is_named_def)
    then have "(j, d') \<in> set (dirs st)" "name_of d' = Some (scope, name)" by (auto simp: dirs_def name_of_Some)
    with p(1) \<open>ar_id a = j\<close> show ?thesis by (auto simp: sole_def)
  qed
  with ne show ?thesis by (cases "list_artifacts ls scope (Some name) st") auto
qed

lemma published_download: "published i sn d st \<Longrightarrow> ad_blob d = Some b \<Longrightarrow> artifact_blob_path i st = Inr b"
  by (simp add: published_def artifact_blob_path_def)

section \<open>From staging to published\<close>

lemma assemble_all:
  "\<forall>b\<in>set bs. map_of files (block_file b) \<noteq> None \<Longrightarrow>
    assemble i files acc bs = Inr (acc @ concat (map (\<lambda>b. the (map_of files (block_file b))) bs))"
  by (induction bs arbitrary: acc) auto

text \<open>A block that was never staged is a failure of the file system, not an unknown reservation.\<close>

lemma missing_block_is_io_error:
  "map_of (a_pending st) i = Some d \<Longrightarrow> map_of (ad_blocks d) (block_file b) = None \<Longrightarrow>
    commit_blocks i (b # bs) st = Inl (StoreIo ''read a staged artifact block'' i)"
  by (simp add: commit_blocks_def rbind_def)

lemma commit_staged:
  assumes "staging i sn files st" "\<forall>b\<in>set bs. files (block_file b) \<noteq> None"
  shows "\<exists>st' d. commit_blocks i bs st = Inr st' \<and> staging i sn files st' \<and>
    map_of (a_pending st') i = Some d \<and> ad_blob d = Some (concat (map (\<lambda>b. the (files (block_file b))) bs))"
proof -
  from assms(1) obtain d where d: "map_of (a_pending st) i = Some d" "map_of (ad_blocks d) = files" by (auto simp: staging_def)
  let ?blob = "concat (map (\<lambda>b. the (files (block_file b))) bs)"
  let ?st = "st\<lparr>a_pending := update_dir i (\<lambda>d. d\<lparr>ad_blob := Some ?blob\<rparr>) (a_pending st)\<rparr>"
  have "commit_blocks i bs st = Inr ?st"
    using d assms(2) by (simp add: commit_blocks_def assemble_all rbind_def)
  moreover have "staging i sn files ?st"
    using staging_step [OF assms(1), of "CommitBlocksOp i bs" undefined] calculation by simp
  ultimately show ?thesis using d by (auto simp: map_of_update_dir)
qed

lemma pending_found:
  assumes ls: "\<And>xs. mset (ls xs) = mset xs" and "staging i (scope, name) files st"
  shows "pending_artifact ls scope name st = Some i"
proof -
  from assms(2) obtain d where d: "map_of (a_pending st) i = Some d" "name_of d = Some (scope, name)" and so: "sole i (scope, name) st"
    by (auto simp: staging_def)
  let ?es = "readable (ls (a_pending st))"
  have es: "set ?es = {(i, m). \<exists>d. (i, d) \<in> set (a_pending st) \<and> ad_meta d = Some m}"
    by (simp add: readable_set mset_eq_setD [OF ls])
  from d obtain m where "(i, m) \<in> set ?es" "is_named scope name m" by (auto simp: es name_of_Some dest: map_of_SomeD)
  then have "\<not> (\<nexists>e. e \<in> set ?es \<and> is_named scope name (snd e))" by auto
  then have "List.find (\<lambda>e. is_named scope name (snd e)) ?es \<noteq> None" unfolding find_None_iff .
  then obtain e where e: "List.find (\<lambda>e. is_named scope name (snd e)) ?es = Some e" by blast
  then have "e \<in> set ?es" "is_named scope name (snd e)" by (auto simp: find_Some_iff)
  then have "(fst e, snd e) \<in> {(i, m). \<exists>d. (i, d) \<in> set (a_pending st) \<and> ad_meta d = Some m}" unfolding es by simp
  then obtain d' where "(fst e, d') \<in> set (a_pending st)" "ad_meta d' = Some (snd e)" by blast
  then have "(fst e, d') \<in> set (dirs st)" "name_of d' = Some (scope, name)"
    using \<open>is_named scope name (snd e)\<close> by (auto simp: dirs_def name_of_Some)
  with so e show ?thesis by (auto simp: sole_def pending_artifact_def)
qed

lemma finalize_staged:
  assumes "staging i sn files st" "map_of (a_pending st) i = Some d" "ad_blob d = Some b"
  shows "\<exists>st' d'. finalize now i n st = (None, st') \<and> published i sn d' st' \<and> ad_blob d' = Some b"
proof -
  from assms have ok: "area_ok st" "sole i sn st" "name_of d = Some sn" by (auto simp: staging_def)
  then obtain m where m: "ad_meta d = Some m" by (auto simp: name_of_Some)
  let ?d = "d\<lparr>ad_meta := Some (m\<lparr>am_size := n, am_created := now\<rparr>)\<rparr>"
  let ?st = "st\<lparr>a_pending := remove_dir i (a_pending st), a_published := a_published st @ [(i, ?d)]\<rparr>"
  have "i \<in> set (map fst (a_pending st))" using assms(2) by (force dest: map_of_SomeD)
  then have fresh: "i \<notin> set (map fst (a_published st))" using ok(1) by (auto simp: area_ok_def)
  then have f: "finalize now i n st = (None, ?st)" using assms(2) m by (simp add: finalize_def map_of_eq_None_iff)
  have "area_ok ?st" using artifacts.run_ok [OF ok(1), of undefined "[FinalizeOp now i n]"] f by simp
  moreover have "sole i sn ?st" using sole_step [OF ok(1,2), of "FinalizeOp now i n" undefined] f by simp
  moreover have "map_of (a_published ?st) i = Some ?d" using fresh by (simp add: map_of_snoc del: map_of_append)
  moreover have "name_of ?d = Some sn" using m ok(3) by simp
  ultimately have "published i sn ?d ?st" unfolding published_def by blast
  with f assms(3) show ?thesis by (intro exI [of _ ?st] exI [of _ ?d]) simp
qed

section \<open>Two uploads of one name\<close>

text \<open>
  A second artifact of a name can be created while the first is still in flight: finalizing by name
  then publishes whichever is listed first, and afterwards the other one too.
\<close>

lemma two_pending_artifacts_of_one_name:
  "\<exists>st1 st2 :: artifact_store. create_artifact id 1 [115] [110] \<lparr>a_pending = [], a_published = []\<rparr> = Inr (1, st1) \<and>
     create_artifact id 2 [115] [110] st1 = Inr (2, st2) \<and>
     pending_artifact id [115] [110] st2 = Some 1 \<and> pending_artifact rev [115] [110] st2 = Some 2"
proof -
  have f: "create_first_free (Suc 0) [] = Suc 0" "create_first_free (Suc (Suc 0)) [Suc 0] = 2" by (simp_all add: create_first_free.simps)
  then show ?thesis
    by (simp add: create_artifact_def finalized_def readable_def allocate_id_def highest_id_def max_list0_def pending_artifact_def is_named_def)
qed

end
