(* ===== verification/Server_Laws.thy ===== *)
theory Server_Laws
  imports Store_Server Artifact_Laws
begin

text \<open>
  The server as a whole: no request without its credential has an effect, and an artifact uploaded in
  blocks over the wire is downloaded as it was, whatever else is requested meanwhile.
\<close>

unbundle bit_operations_syntax

section \<open>Credentials\<close>

lemma fold_difference:
  "fold (\<lambda>(a, b) difference. difference OR (a XOR b)) ps d = (0::nat) \<longleftrightarrow> d = 0 \<and> (\<forall>(a, b)\<in>set ps. a = b)"
proof (induction ps arbitrary: d)
  case (Cons p ps)
  have "(x XOR y = 0) = (x = y)" for x y :: nat by (metis bit.xor_self xor_nat_def bit_eq_iff bit_xor_iff bit_0_eq bot_apply bot_bool_def)
  with Cons show ?case by (cases p) (auto simp: or_eq_0_iff)
qed simp

lemma constant_time_eq_iff: "constant_time_eq l r \<longleftrightarrow> l = r"
  unfolding constant_time_eq_def fold_difference
  by (auto simp: list_eq_iff_zip_eq)

lemma as_bytes_eq: "valid_str a \<Longrightarrow> valid_str b \<Longrightarrow> as_bytes a = as_bytes b \<longleftrightarrow> a = b"
  by (metis from_utf8_lossy_as_bytes)

text \<open>The text a request presents, and what the server wants to see there.\<close>

fun presented :: "shim_request \<Rightarrow> ustr option" where
  "presented (Twirp a _ _) = a"
| "presented (BlobPut _ q _) = bq_sig q"
| "presented (BlobGet _ q) = bq_sig q"
| "presented (CacheLookup a _ _) = a"
| "presented (CacheReserve a _ _) = a"
| "presented (CacheUpload a _ _ _) = a"
| "presented (CacheCommit a _ _) = a"
| "presented (CacheDownload _ s) = s"

fun wanted :: "shim_request \<Rightarrow> shim \<Rightarrow> ustr" where
  "wanted (BlobPut _ _ _) sh = sh_signature sh"
| "wanted (BlobGet _ _) sh = sh_signature sh"
| "wanted (CacheDownload _ _) sh = sh_signature sh"
| "wanted _ sh = lit ''Bearer '' @ sh_token sh"

lemma signature_matches_iff:
  "valid_str (sh_signature sh) \<Longrightarrow> pred_option valid_str p \<Longrightarrow> signature_matches sh p \<longleftrightarrow> p = Some (sh_signature sh)"
  by (cases p) (auto simp: signature_matches_def constant_time_eq_iff as_bytes_eq)

lemma authorize_iff:
  assumes "valid_str (sh_token sh)" "sh_token sh \<noteq> []" "pred_option valid_str p"
  shows "authorize sh p \<longleftrightarrow> p = Some (lit ''Bearer '' @ sh_token sh)"
proof (cases "Option.bind p (strip_prefix (lit ''Bearer ''))")
  case None
  have "as_bytes (sh_token sh) \<noteq> []" using assms(2) as_bytes_eq [of "sh_token sh" "[]"] assms(1) by (simp add: valid_str_def)
  with None show ?thesis by (cases p) (auto simp: authorize_def constant_time_eq_iff strip_prefix_def)
next
  case (Some t)
  then obtain v where v: "p = Some v" "v = lit ''Bearer '' @ t" by (cases p) (auto simp: strip_prefix_Some)
  with assms(3) have "valid_str t" by (simp add: valid_str_def)
  with v assms(1) show ?thesis by (simp add: authorize_def constant_time_eq_iff as_bytes_eq strip_prefix_def)
qed

lemma replies_not_401:
  "failure e \<noteq> Status 401" "missing_or_failure e \<noteq> Status 401"
  by (simp_all add: failure_def missing_or_failure_def split: store_error.splits)

lemma calls_not_401:
  "fst (create_call ls now rq sh) \<noteq> Status 401" "fst (finalize_call ls now rq sh) \<noteq> Status 401"
  "fst (signed_url_call ls rq sh) \<noteq> Status 401" "fst (delete_call ls rq sh) \<noteq> Status 401"
  "fst (store_reply r sh) \<noteq> Status 401"
  by (auto simp: create_call_def finalize_call_def signed_url_call_def delete_call_def delete_target_def store_reply_def replies_not_401 Let_def
      split: option.splits sum.splits prod.splits store_error.splits list.splits)

lemma serve_credential:
  assumes "valid_str (sh_token sh)" "sh_token sh \<noteq> []" "valid_str (sh_signature sh)" "pred_option valid_str (presented r)"
  shows "(fst (serve w r sh) = Status 401 \<longleftrightarrow> presented r \<noteq> Some (wanted r sh)) \<and>
    (presented r \<noteq> Some (wanted r sh) \<longrightarrow> snd (serve w r sh) = sh)"
proof -
  note a = authorize_iff [OF assms(1,2)] and s = signature_matches_iff [OF assms(3)]
  show ?thesis
  proof (cases r)
    case (Twirp au m rq)
    with assms(4) a [of au] show ?thesis by (auto simp: twirp_def calls_not_401)
  next
    case (BlobPut i q body)
    with assms(4) s [of "bq_sig q"] show ?thesis by (auto simp: blob_put_def calls_not_401 Let_def split: option.splits)
  next
    case (BlobGet i q)
    with assms(4) s [of "bq_sig q"] show ?thesis by (auto simp: blob_get_def split: sum.splits)
  next
    case (CacheLookup au keys version)
    with assms(4) a [of au] show ?thesis by (auto simp: cache_lookup_def split: prod.splits option.splits)
  next
    case (CacheReserve au key version)
    with assms(4) a [of au] show ?thesis
      by (auto simp: cache_reserve_def replies_not_401 split: prod.splits sum.splits store_error.splits)
  next
    case (CacheUpload au i cr body)
    with assms(4) a [of au] show ?thesis
      by (auto simp: cache_upload_def replies_not_401 split: option.splits sum.splits)
  next
    case (CacheCommit au i n)
    with assms(4) a [of au] show ?thesis
      by (auto simp: cache_commit_def replies_not_401 split: prod.splits option.splits)
  next
    case (CacheDownload i sg)
    with assms(4) s [of sg] show ?thesis by (auto simp: cache_download_def split: sum.splits)
  qed
qed

text \<open>
  C12: The credential of a request is checked before anything is done with it. The run has a token that
  is not empty, the request could be parsed (what the HTTP library cannot parse it answers itself, before
  any handler), and it is not the cache's download route, which the module's documentation describes
  differently from the code. A request whose body is over the limit of its route is answered with 413; any other
  is answered with 401 just when it does not present exactly the run's token as a bearer or, on the
  routes of artifact blobs, the run's signature. In all these cases nothing changes, neither a store nor a
  counter. The comparison that does not stop at the first difference is equality.
\<close>

theorem credential_guards_requests:
  assumes "valid_str (sh_token sh)" "sh_token sh \<noteq> []" "valid_str (sh_signature sh)" "pred_option valid_str (presented r)"
    and "\<nexists>i sg. r = CacheDownload i sg"
  shows "(fst (receive default_limit json_bytes w r sh) = Status 401 \<longleftrightarrow>
       body_within_limit default_limit json_bytes r \<and> presented r \<noteq> Some (wanted r sh)) \<and>
    (\<not> body_within_limit default_limit json_bytes r \<longrightarrow> receive default_limit json_bytes w r sh = (Status 413, sh)) \<and>
    (presented r \<noteq> Some (wanted r sh) \<longrightarrow> snd (receive default_limit json_bytes w r sh) = sh)"
  using serve_credential [OF assms(1-4), of w] by (simp add: receive_def)

definition fresh_shim :: shim where
  "fresh_shim = \<lparr>sh_cache = \<lparr>cache_area = \<lparr>a_pending = [], a_published = []\<rparr>, cache_hits = 0, cache_misses = 0, cache_bytes_written = 0\<rparr>,
     sh_artifacts = \<lparr>a_pending = [], a_published = []\<rparr>, sh_token = lit ''token'', sh_signature = lit ''sig'', sh_base_url = lit ''http://host''\<rparr>"

definition in_order :: surroundings where
  "in_order = \<lparr>su_artifacts = id, su_cache = id, su_now = 7\<rparr>"

theorem credential_guards_requests_witness:
  "receive 2097152 20 in_order (CacheReserve (Some (lit ''Bearer tokem'')) [107] [118]) fresh_shim = (Status 401, fresh_shim) \<and>
   fst (receive 2097152 20 in_order (CacheReserve (Some (lit ''Bearer token'')) [107] [118]) fresh_shim) \<noteq> Status 401"
proof -
  have v: "valid_str (sh_token fresh_shim)" "sh_token fresh_shim \<noteq> []" "valid_str (sh_signature fresh_shim)"
    by (simp_all add: fresh_shim_def valid_str_def is_scalar_def lit_def)
  have p: "pred_option valid_str (presented (CacheReserve (Some (lit ''Bearer tokem'')) [107] [118]))"
    "pred_option valid_str (presented (CacheReserve (Some (lit ''Bearer token'')) [107] [118]))"
    by (simp_all add: valid_str_def is_scalar_def lit_def)
  have ne: "lit ''Bearer tokem'' \<noteq> lit ''Bearer '' @ sh_token fresh_shim" "lit ''Bearer token'' = lit ''Bearer '' @ sh_token fresh_shim"
    by (simp_all add: fresh_shim_def lit_def)
  show ?thesis
    using credential_guards_requests [OF v p(1), of 2097152 20 in_order] credential_guards_requests [OF v p(2), of 2097152 20 in_order] ne
    by (auto simp: prod_eq_iff CACHE_UPLOAD_BODY_LIMIT_def)
qed

section \<open>Requests as operations of the store\<close>

fun op_of :: "surroundings \<Rightarrow> shim_request \<Rightarrow> shim \<Rightarrow> artifact_op option" where
  "op_of w (Twirp a m rq) sh = (if \<not> authorize sh a then None
     else if m = lit ''CreateArtifact'' then map_option (CreateOp (su_now w) (rq_scope rq)) (rq_name rq)
     else if m = lit ''FinalizeArtifact'' then Option.bind (rq_name rq) (\<lambda>name.
       map_option (\<lambda>i. FinalizeOp (su_now w) i (case Option.bind (rq_size rq) json_number of Some n \<Rightarrow> n | None \<Rightarrow> 0))
         (pending_artifact (su_artifacts w) (rq_scope rq) name (sh_artifacts sh)))
     else if m = lit ''DeleteArtifact'' then
       (case delete_target (su_artifacts w) rq (sh_artifacts sh) of Inr i \<Rightarrow> Some (DeleteOp i) | Inl _ \<Rightarrow> None)
     else None)"
| "op_of w (BlobPut i q body) sh = (if \<not> signature_matches sh (bq_sig q) then None
     else if bq_comp q = Some (lit ''block'') then map_option (\<lambda>b. StageOp i b body) (bq_blockid q)
     else if bq_comp q = Some (lit ''blocklist'') then
       (if parse_blocks (from_utf8_lossy body) = [] then None else Some (CommitBlocksOp i (parse_blocks (from_utf8_lossy body))))
     else Some (PutOp i body))"
| "op_of w _ sh = None"

lemma store_reply_state: "sh_artifacts (snd (store_reply r sh)) = ok_state r (sh_artifacts sh)"
  by (simp add: store_reply_def ok_state_def split: sum.splits)

lemma serve_runs:
  "sh_artifacts (snd (serve w r sh)) = (case op_of w r sh of None \<Rightarrow> sh_artifacts sh
     | Some oper \<Rightarrow> artifact_run (su_artifacts w) oper (sh_artifacts sh))"
proof (cases r)
  case (Twirp a m rq)
  then show ?thesis
    by (auto simp: twirp_def create_call_def finalize_call_def signed_url_call_def delete_call_def Let_def ok_state_def lit_inj
        split: option.splits sum.splits prod.splits list.splits store_error.splits)
next
  case (BlobPut i q body)
  then show ?thesis by (auto simp: blob_put_def store_reply_state Let_def split: option.splits)
qed (auto simp: blob_get_def cache_lookup_def cache_reserve_def cache_upload_def cache_commit_def cache_download_def
    split: option.splits sum.splits prod.splits store_error.splits)

definition same_run :: "shim \<Rightarrow> shim \<Rightarrow> bool" where
  "same_run sh sh' \<longleftrightarrow> sh_token sh' = sh_token sh \<and> sh_signature sh' = sh_signature sh \<and> sh_base_url sh' = sh_base_url sh"

lemma serve_same_run: "same_run sh (snd (serve w r sh))"
  by (cases r) (auto simp: same_run_def twirp_def create_call_def finalize_call_def signed_url_call_def delete_call_def blob_put_def store_reply_def
      blob_get_def cache_lookup_def cache_reserve_def cache_upload_def cache_commit_def cache_download_def Let_def
      split: option.splits sum.splits prod.splits list.splits store_error.splits)

definition serve_all :: "(surroundings \<times> shim_request) list \<Rightarrow> shim \<Rightarrow> shim" where
  "serve_all rs = fold (\<lambda>(w, r) sh. snd (serve w r sh)) rs"

lemma serve_all_simps [simp]: "serve_all [] sh = sh" "serve_all ((w, r) # rs) sh = serve_all rs (snd (serve w r sh))"
  by (simp_all add: serve_all_def)

text \<open>A listing shows every directory once, in some order.\<close>

definition faithful :: "surroundings \<Rightarrow> bool" where
  "faithful w \<longleftrightarrow> (\<forall>xs. mset (su_artifacts w xs) = mset xs) \<and> (\<forall>xs. mset (su_cache w xs) = mset xs)"

section \<open>An upload over the wire\<close>

text \<open>Requests that create or finalize an artifact of the name.\<close>

fun competes :: "ustr \<times> ustr \<Rightarrow> shim_request \<Rightarrow> bool" where
  "competes sn (Twirp a m rq) \<longleftrightarrow> (m = lit ''CreateArtifact'' \<or> m = lit ''FinalizeArtifact'') \<and> rq_scope rq = fst sn \<and> rq_name rq = Some (snd sn)"
| "competes sn _ \<longleftrightarrow> False"

text \<open>Requests that delete it, by id or by name.\<close>

fun discards :: "nat \<Rightarrow> ustr \<times> ustr \<Rightarrow> shim_request \<Rightarrow> bool" where
  "discards i sn (Twirp a m rq) \<longleftrightarrow> m = lit ''DeleteArtifact'' \<and>
     (case Option.bind (Option.bind (rq_id_filter rq) json_number) i64_of_u64 of
        Some j \<Rightarrow> j = i
      | None \<Rightarrow> rq_scope rq = fst sn \<and> rq_name rq = Some (snd sn))"
| "discards i sn _ \<longleftrightarrow> False"

text \<open>The blocks a request stages for the artifact.\<close>

fun staged_by :: "shim \<Rightarrow> nat \<Rightarrow> shim_request \<Rightarrow> (ustr \<times> nat list) list" where
  "staged_by sh i (BlobPut j q body) = (if j = i \<and> signature_matches sh (bq_sig q) \<and> bq_comp q = Some (lit ''block'')
     then (case bq_blockid q of Some b \<Rightarrow> [(b, body)] | None \<Rightarrow> []) else [])"
| "staged_by sh i _ = []"

definition staged_blocks :: "shim \<Rightarrow> nat \<Rightarrow> (surroundings \<times> shim_request) list \<Rightarrow> (ustr \<times> nat list) list" where
  "staged_blocks sh i rs = concat (map (staged_by sh i \<circ> snd) rs)"

definition written :: "(ustr \<times> nat list) list \<Rightarrow> (ustr \<rightharpoonup> nat list) \<Rightarrow> ustr \<rightharpoonup> nat list" where
  "written bs files = fold (\<lambda>(b, body) f. f(block_file b \<mapsto> body)) bs files"

lemma same_run_matches: "same_run sh sh' \<Longrightarrow> signature_matches sh' = signature_matches sh \<and> authorize sh' = authorize sh"
  by (auto simp: same_run_def signature_matches_def authorize_def fun_eq_iff split: option.splits)

lemma same_run_staged: "same_run sh sh' \<Longrightarrow> staged_by sh' i r = staged_by sh i r"
  by (cases r) (simp_all add: same_run_matches)

lemma op_of_staged:
  "(case op_of w r sh of None \<Rightarrow> files | Some oper \<Rightarrow> staged_files i oper files) = written (staged_by sh i r) files"
proof (cases r)
  case (BlobPut j q body)
  then show ?thesis by (auto simp: written_def split: option.splits)
next
  case (Twirp a m rq)
  then show ?thesis by (auto simp: written_def split: option.splits sum.splits bind_splits)
qed (simp_all add: written_def)

lemma op_of_finalize_other:
  assumes "faithful w" "staging i sn files (sh_artifacts sh)" "\<not> competes sn r"
  shows "op_of w r sh \<noteq> Some (FinalizeOp now i n)" "op_of w r sh \<noteq> Some (CreateOp now (fst sn) (snd sn))"
proof -
  let ?st = "sh_artifacts sh" and ?ls = "su_artifacts w"
  from assms(2) obtain d where ok: "area_ok ?st" and d: "map_of (a_pending ?st) i = Some d" "name_of d = Some sn"
    by (auto simp: staging_def)
  have f: "pending_artifact ?ls scope name ?st \<noteq> Some i" if "(scope, name) \<noteq> sn" for scope name
  proof
    assume "pending_artifact ?ls scope name ?st = Some i"
    then obtain m where "(i, m) \<in> set (readable (?ls (a_pending ?st)))" "is_named scope name m"
      by (auto simp: pending_artifact_def find_Some_iff) (metis nth_mem snd_conv)
    then obtain d' where "(i, d') \<in> set (a_pending ?st)" "ad_meta d' = Some m"
      using assms(1) by (auto simp: readable_set faithful_def dest: mset_eq_setD)
    then have "d' = d" using d(1) pending_unique [OF ok, of i d'] by simp
    with \<open>is_named scope name m\<close> \<open>ad_meta d' = Some m\<close> d(2) that show False by (auto simp: name_of_def is_named_def)
  qed
  show "op_of w r sh \<noteq> Some (FinalizeOp now i n)"
  proof (cases r)
    case (Twirp a m rq)
    with assms(3) f show ?thesis by (cases sn) (auto split: option.splits sum.splits bind_splits)
  qed (auto split: option.splits)
  show "op_of w r sh \<noteq> Some (CreateOp now (fst sn) (snd sn))"
  proof (cases r)
    case (Twirp a m rq)
    with assms(3) show ?thesis by (auto split: option.splits sum.splits bind_splits)
  qed (auto split: option.splits)
qed

lemma staging_serve:
  assumes "faithful w" "staging i sn files (sh_artifacts sh)" "\<not> competes sn r"
  shows "staging i sn (written (staged_by sh i r) files) (sh_artifacts (snd (serve w r sh)))"
proof (cases "op_of w r sh")
  case None
  with assms(2) op_of_staged [where w = w and r = r and sh = sh and files = files and i = i] show ?thesis by (simp add: serve_runs)
next
  case (Some oper)
  have "staging i sn (staged_files i oper files) (artifact_run (su_artifacts w) oper (sh_artifacts sh))"
    by (rule staging_step [OF assms(2)]) (use op_of_finalize_other [OF assms] Some in auto)
  with Some op_of_staged [where w = w and r = r and sh = sh and files = files and i = i] show ?thesis by (simp add: serve_runs)
qed

lemma staging_serve_all:
  "staging i sn files (sh_artifacts sh) \<Longrightarrow> \<forall>(w, r)\<in>set rs. faithful w \<and> \<not> competes sn r \<Longrightarrow>
    staging i sn (written (staged_blocks sh i rs) files) (sh_artifacts (serve_all rs sh)) \<and> same_run sh (serve_all rs sh)"
proof (induction rs arbitrary: sh files)
  case Nil
  then show ?case by (simp add: staged_blocks_def written_def same_run_def)
next
  case (Cons p rs)
  obtain w r where p: "p = (w, r)" by fastforce
  let ?sh = "snd (serve w r sh)"
  have same: "same_run sh ?sh" by (rule serve_same_run)
  have "staged_blocks ?sh i rs = staged_blocks sh i rs"
    by (simp add: staged_blocks_def same_run_staged [OF same] comp_def)
  with Cons.IH [OF staging_serve [of w, OF _ Cons.prems(1)], of r] Cons.prems(2) p same show ?case
    by (auto simp: staged_blocks_def written_def same_run_def)
qed

lemma published_serve:
  assumes "faithful w" "published i sn d (sh_artifacts sh)" "\<not> discards i sn r"
  shows "published i sn d (sh_artifacts (snd (serve w r sh)))"
proof (cases "op_of w r sh")
  case None
  with assms(2) show ?thesis by (simp add: serve_runs)
next
  case (Some oper)
  let ?st = "sh_artifacts sh" and ?ls = "su_artifacts w"
  have ls: "mset (?ls xs) = mset xs" for xs using assms(1) by (simp add: faithful_def)
  from assms(2) have p: "area_ok ?st" "map_of (a_published ?st) i = Some d" "name_of d = Some sn" by (auto simp: published_def)
  have other: "ar_id a \<noteq> i" if "list_artifacts ?ls scope (Some name) ?st = a # as" "(scope, name) \<noteq> sn" for scope name a as
  proof
    assume "ar_id a = i"
    have "a \<in> set (list_artifacts ?ls scope (Some name) ?st)" using that(1) by simp
    then obtain d' n where "(i, d') \<in> set (a_published ?st)" "ad_meta d' = Some n" "is_named scope name n"
      using \<open>ar_id a = i\<close> by (auto simp: list_artifacts_def finalized_set [OF ls] artifact_of_def is_named_def)
    moreover from this have "d' = d" using p published_unique [OF p(1), of i d'] by simp
    ultimately show False using p(3) that(2) by (auto simp: name_of_def is_named_def)
  qed
  have "oper \<noteq> DeleteOp i"
  proof (cases r)
    case (Twirp a m rq)
    show ?thesis
    proof (cases "m = lit ''DeleteArtifact''")
      case True
      with Twirp Some assms(3) other show ?thesis
        by (cases sn) (auto simp: delete_target_def split: option.splits sum.splits list.splits if_splits)
    next
      case False
      with Twirp Some show ?thesis by (auto split: if_splits option.splits bind_splits)
    qed
  qed (use Some in \<open>auto split: if_splits option.splits\<close>)
  with Some published_step [OF ls assms(2)] show ?thesis by (simp add: serve_runs)
qed

lemma published_serve_all:
  "published i sn d (sh_artifacts sh) \<Longrightarrow> \<forall>(w, r)\<in>set rs. faithful w \<and> \<not> discards i sn r \<Longrightarrow>
    published i sn d (sh_artifacts (serve_all rs sh)) \<and> same_run sh (serve_all rs sh)"
proof (induction rs arbitrary: sh)
  case Nil
  then show ?case by (simp add: same_run_def)
next
  case (Cons p rs)
  obtain w r where p: "p = (w, r)" by fastforce
  from Cons.IH [OF published_serve [of w, OF _ Cons.prems(1)], of r] Cons.prems(2) p serve_same_run [of sh w r] show ?case
    by (auto simp: same_run_def)
qed

text \<open>What was staged last under each id, provided no two of the ids hash alike.\<close>

lemma written_lookup:
  assumes "inj_on name_hash (fst ` set bs)" "b \<in> fst ` set bs"
  shows "written bs Map.empty (block_file b) = map_of (rev bs) b"
  using assms
proof (induction bs rule: rev_induct)
  case (snoc x bs)
  obtain c body where x: "x = (c, body)" by fastforce
  have inj: "block_file b = block_file c \<longleftrightarrow> b = c" using snoc.prems x by (auto simp: block_file_def inj_on_def)
  show ?case
  proof (cases "b = c")
    case True
    with x show ?thesis by (simp add: written_def)
  next
    case False
    with snoc.prems x have "b \<in> fst ` set bs" "inj_on name_hash (fst ` set bs)" by (auto simp: inj_on_def)
    with snoc.IH False x inj show ?thesis by (simp add: written_def)
  qed
qed simp

text \<open>The requests of the client.\<close>

definition artifact_call :: "shim \<Rightarrow> string \<Rightarrow> ustr \<Rightarrow> ustr \<Rightarrow> shim_request" where
  "artifact_call sh method scope name = Twirp (Some (lit ''Bearer '' @ sh_token sh)) (lit method)
     \<lparr>rq_scope = scope, rq_name = Some name, rq_size = None, rq_name_filter = None, rq_id_filter = None\<rparr>"

definition put_block_list :: "shim \<Rightarrow> nat \<Rightarrow> ustr list \<Rightarrow> shim_request" where
  "put_block_list sh i bs = BlobPut i \<lparr>bq_comp = Some (lit ''blocklist''), bq_blockid = None, bq_sig = Some (sh_signature sh)\<rparr>
     (as_bytes (block_list_document bs))"

definition get_blob :: "shim \<Rightarrow> nat \<Rightarrow> shim_request" where
  "get_blob sh i = BlobGet i \<lparr>bq_comp = None, bq_blockid = None, bq_sig = Some (sh_signature sh)\<rparr>"

lemma own_credentials: "authorize sh (Some (lit ''Bearer '' @ sh_token sh))" "signature_matches sh (Some (sh_signature sh))"
  by (simp_all add: authorize_def signature_matches_def constant_time_eq_iff strip_prefix_def)

lemma created_is_staging:
  assumes "faithful w" "area_ok (sh_artifacts sh)" "\<forall>(j, d)\<in>set (a_pending (sh_artifacts sh)). name_of d \<noteq> Some (scope, name)"
    and "serve w (artifact_call sh ''CreateArtifact'' scope name) sh = (CreateReply True url, sh1)"
  defines "i \<equiv> allocate_id (sh_artifacts sh) (sh_artifacts sh)"
  shows "url = artifact_blob_url sh i" "staging i (scope, name) Map.empty (sh_artifacts sh1)" "same_run sh sh1"
proof -
  let ?st = "sh_artifacts sh" and ?ls = "su_artifacts w"
  have ls: "mset (?ls xs) = mset xs" for xs using assms(1) by (simp add: faithful_def)
  let ?d = "\<lparr>ad_meta = Some \<lparr>am_scope = scope, am_name = name, am_size = 0, am_created = su_now w\<rparr>, ad_blocks = [], ad_blob = None\<rparr>"
  let ?st1 = "?st\<lparr>a_pending := a_pending ?st @ [(i, ?d)]\<rparr>"
  have c: "\<not> list_ex (\<lambda>e. is_named scope name (snd e)) (finalized ?ls ?st) \<and> url = artifact_blob_url sh i \<and> sh1 = sh\<lparr>sh_artifacts := ?st1\<rparr>"
    using assms(4) by (auto simp: artifact_call_def twirp_def own_credentials create_call_def create_artifact_def i_def Let_def split: if_splits)
  then show "url = artifact_blob_url sh i" and "same_run sh sh1" by (auto simp: same_run_def)
  have "artifact_run ?ls (CreateOp (su_now w) scope name) ?st = ?st1" using c by (simp add: create_artifact_def i_def Let_def)
  then have ok: "area_ok ?st1" using artifacts.run_ok [OF assms(2), of ?ls "[CreateOp (su_now w) scope name]"] by simp
  have "name_of d \<noteq> Some (scope, name)" if "(j, d) \<in> set (a_published ?st)" for j d
  proof
    assume "name_of d = Some (scope, name)"
    then obtain m where m: "ad_meta d = Some m" "is_named scope name m" by (auto simp: name_of_Some)
    with that have "(j, m) \<in> set (finalized ?ls ?st)" by (auto simp: finalized_set [OF ls])
    with c m(2) show False by (auto simp: list_ex_iff)
  qed
  then have so: "sole i (scope, name) ?st1" using assms(3) by (auto simp: sole_def dirs_def)
  have "map_of (a_pending ?st1) i = Some ?d"
    using allocate_id_fresh(1) [of ?st] unfolding i_def [symmetric] by (simp add: map_of_snoc del: map_of_append)
  with ok so c show "staging i (scope, name) Map.empty (sh_artifacts sh1)" by (simp add: staging_def name_of_def)
qed

lemma block_list_serve:
  assumes "staging i sn files (sh_artifacts sh)" "same_run sh0 sh" "bs \<noteq> []" "\<forall>b\<in>set bs. block_id_ok b \<and> files (block_file b) \<noteq> None"
  shows "\<exists>sh' d. serve w (put_block_list sh0 i bs) sh = (BlobWritten, sh') \<and> same_run sh0 sh' \<and> staging i sn files (sh_artifacts sh') \<and>
    map_of (a_pending (sh_artifacts sh')) i = Some d \<and> ad_blob d = Some (concat (map (\<lambda>b. the (files (block_file b))) bs))"
proof -
  have "parse_blocks (from_utf8_lossy (as_bytes (block_list_document bs))) = bs"
    using assms(4) by (simp add: from_utf8_lossy_as_bytes valid_block_list parse_block_list)
  moreover obtain st' d where "commit_blocks i bs (sh_artifacts sh) = Inr st'" "staging i sn files st'"
    "map_of (a_pending st') i = Some d" "ad_blob d = Some (concat (map (\<lambda>b. the (files (block_file b))) bs))"
    using commit_staged [OF assms(1)] assms(4) by blast
  moreover have "signature_matches sh (Some (sh_signature sh0))"
    using own_credentials(2) [of sh] assms(2) by (simp add: same_run_def)
  ultimately show ?thesis using assms(2,3)
    by (auto simp: put_block_list_def blob_put_def store_reply_def lit_inj same_run_def)
qed

lemma finalize_serve:
  assumes "faithful w" "staging i (scope, name) files (sh_artifacts sh)" "same_run sh0 sh"
    and "map_of (a_pending (sh_artifacts sh)) i = Some d" "ad_blob d = Some b"
  shows "\<exists>sh' d'. serve w (artifact_call sh0 ''FinalizeArtifact'' scope name) sh = (FinalizeReply True (dec_string i), sh') \<and>
    same_run sh0 sh' \<and> published i (scope, name) d' (sh_artifacts sh') \<and> ad_blob d' = Some b"
proof -
  have "pending_artifact (su_artifacts w) scope name (sh_artifacts sh) = Some i"
    by (rule pending_found [OF _ assms(2)]) (use assms(1) in \<open>simp add: faithful_def\<close>)
  moreover obtain st' d' where "finalize (su_now w) i 0 (sh_artifacts sh) = (None, st')" "published i (scope, name) d' st'" "ad_blob d' = Some b"
    using finalize_staged [OF assms(2,4,5)] by blast
  moreover have "authorize sh (Some (lit ''Bearer '' @ sh_token sh0))"
    using own_credentials(1) [of sh] assms(3) by (simp add: same_run_def)
  ultimately show ?thesis using assms(3)
    by (auto simp: artifact_call_def twirp_def finalize_call_def lit_inj same_run_def)
qed

text \<open>
  C11: What was uploaded over the wire is what is downloaded. No upload of a name is in flight, and an
  artifact of that name is created. Then requests of any clients follow, concurrent uploads and deletions of other
  artifacts and bad ones among them, as long as none creates or finalizes an artifact of that name;
  some of them stage blocks, in any order and repeatedly, under ids no two of which hash alike. Sending the list
  of the blocks as the client's library writes it is accepted; finalizing by name finds the upload; and after any
  further requests that do not delete the artifact, the URL handed out for the name is the one of the upload,
  and it serves the blocks in the order of the list, each as staged last.
\<close>

theorem uploaded_artifact_is_downloaded:
  assumes "area_ok (sh_artifacts sh)" "\<forall>(j, d)\<in>set (a_pending (sh_artifacts sh)). name_of d \<noteq> Some (scope, name)"
    and create: "faithful w1" "serve w1 (artifact_call sh ''CreateArtifact'' scope name) sh = (CreateReply True url, sh1)"
    and rs: "\<forall>(w, r)\<in>set rs. faithful w \<and> \<not> competes (scope, name) r"
  defines "i \<equiv> allocate_id (sh_artifacts sh) (sh_artifacts sh)"
  defines "staged \<equiv> staged_blocks sh i rs"
  assumes blocks: "inj_on name_hash (fst ` set staged)" "bs \<noteq> []" "\<forall>b\<in>set bs. block_id_ok b \<and> b \<in> fst ` set staged"
    and w34: "faithful w3" "faithful w4" and later: "\<forall>(w, r)\<in>set later. faithful w \<and> \<not> discards i (scope, name) r"
  shows "url = artifact_blob_url sh i \<and>
    (\<exists>sh2 sh3. serve w2 (put_block_list sh i bs) (serve_all rs sh1) = (BlobWritten, sh2) \<and>
      serve w3 (artifact_call sh ''FinalizeArtifact'' scope name) sh2 = (FinalizeReply True (dec_string i), sh3) \<and>
      fst (serve w4 (artifact_call sh ''GetSignedArtifactURL'' scope name) (serve_all later sh3)) = SignedUrlReply url \<and>
      fst (serve w4 (get_blob sh i) (serve_all later sh3)) = BlobReply (concat (map (\<lambda>b. the (map_of (rev staged) b)) bs)))"
proof -
  note c = created_is_staging [OF create(1) assms(1,2) create(2), folded i_def]
  let ?files = "written staged Map.empty"
  have "staged_blocks sh1 i rs = staged" unfolding staged_def staged_blocks_def
    using same_run_staged [OF c(3)] by (simp add: comp_def)
  then have s: "staging i (scope, name) ?files (sh_artifacts (serve_all rs sh1))" "same_run sh (serve_all rs sh1)"
    using staging_serve_all [OF c(2) rs] c(3) by (auto simp: same_run_def)
  have f: "?files (block_file b) = map_of (rev staged) b" "map_of (rev staged) b \<noteq> None" if "b \<in> set bs" for b
    using that blocks(3) written_lookup [OF blocks(1), of b] by (auto simp: map_of_eq_None_iff)
  have content: "concat (map (\<lambda>b. the (?files (block_file b))) bs) = concat (map (\<lambda>b. the (map_of (rev staged) b)) bs)"
    using f(1) by (simp cong: map_cong)
  obtain sh2 d where 2: "serve w2 (put_block_list sh i bs) (serve_all rs sh1) = (BlobWritten, sh2)" "same_run sh sh2"
      "staging i (scope, name) ?files (sh_artifacts sh2)" "map_of (a_pending (sh_artifacts sh2)) i = Some d"
      "ad_blob d = Some (concat (map (\<lambda>b. the (map_of (rev staged) b)) bs))"
    using block_list_serve [OF s blocks(2), where w = w2] blocks(3) f unfolding content by metis
  obtain sh3 d' where 3: "serve w3 (artifact_call sh ''FinalizeArtifact'' scope name) sh2 = (FinalizeReply True (dec_string i), sh3)"
      "same_run sh sh3" "published i (scope, name) d' (sh_artifacts sh3)" "ad_blob d' = Some (concat (map (\<lambda>b. the (map_of (rev staged) b)) bs))"
    using finalize_serve [OF w34(1) 2(3,2,4,5)] by blast
  let ?sh4 = "serve_all later sh3"
  have 4: "published i (scope, name) d' (sh_artifacts ?sh4)" "same_run sh ?sh4"
    using published_serve_all [OF 3(3) later] 3(2) by (auto simp: same_run_def)
  then obtain a as where "list_artifacts (su_artifacts w4) scope (Some name) (sh_artifacts ?sh4) = a # as" "ar_id a = i"
    using published_listed [OF _ 4(1), of "su_artifacts w4"] w34(2) by (auto simp: faithful_def)
  moreover have "artifact_blob_url ?sh4 i = url" using c(1) 4(2) by (simp add: artifact_blob_url_def same_run_def)
  moreover have "authorize ?sh4 (Some (lit ''Bearer '' @ sh_token sh))" "signature_matches ?sh4 (Some (sh_signature sh))"
    using own_credentials [of ?sh4] 4(2) by (simp_all add: same_run_def)
  ultimately have "fst (serve w4 (artifact_call sh ''GetSignedArtifactURL'' scope name) ?sh4) = SignedUrlReply url"
    "fst (serve w4 (get_blob sh i) ?sh4) = BlobReply (concat (map (\<lambda>b. the (map_of (rev staged) b)) bs))"
    using published_download [OF 4(1) 3(4)] by (simp_all add: artifact_call_def twirp_def signed_url_call_def lit_inj get_blob_def blob_get_def)
  with c(1) 2(1) 3(1) show ?thesis by blast
qed

text \<open>Two blocks, the second one first, and a foreign artifact created in between.\<close>

definition put_block_request :: "ustr \<Rightarrow> nat list \<Rightarrow> shim_request" where
  "put_block_request b body = BlobPut 1 \<lparr>bq_comp = Some (lit ''block''), bq_blockid = Some b, bq_sig = Some (lit ''sig'')\<rparr> body"

definition two_blocks :: "(surroundings \<times> shim_request) list" where
  "two_blocks = [(in_order, put_block_request [98] [3, 4]), (in_order, artifact_call fresh_shim ''CreateArtifact'' [115] [120]),
     (in_order, put_block_request [97] [1, 2])]"

lemma two_hashes: "name_hash [97] \<noteq> name_hash [98]"
  by code_simp

lemma first_artifact_id: "allocate_id (sh_artifacts fresh_shim) (sh_artifacts fresh_shim) = 1"
  by (simp add: fresh_shim_def allocate_id_def highest_id_def max_list0_def create_first_free.simps)

lemma two_blocks_staged: "staged_blocks fresh_shim 1 two_blocks = [([98], [3, 4]), ([97], [1, 2])]"
  by (simp add: staged_blocks_def two_blocks_def put_block_request_def artifact_call_def signature_matches_def constant_time_eq_iff fresh_shim_def)

lemma fresh_create: "\<exists>url sh1. serve in_order (artifact_call fresh_shim ''CreateArtifact'' [115] [110]) fresh_shim = (CreateReply True url, sh1)"
proof -
  have "finalized id (sh_artifacts fresh_shim) = []" by (simp add: fresh_shim_def finalized_def readable_def)
  then show ?thesis
    by (simp add: artifact_call_def twirp_def own_credentials create_call_def create_artifact_def in_order_def Let_def)
qed

theorem uploaded_artifact_is_downloaded_witness:
  "\<exists>url sh1 sh2 sh3. serve in_order (artifact_call fresh_shim ''CreateArtifact'' [115] [110]) fresh_shim = (CreateReply True url, sh1) \<and>
     serve in_order (put_block_list fresh_shim 1 [[97], [98]]) (serve_all two_blocks sh1) = (BlobWritten, sh2) \<and>
     serve in_order (artifact_call fresh_shim ''FinalizeArtifact'' [115] [110]) sh2 = (FinalizeReply True (dec_string 1), sh3) \<and>
     fst (serve in_order (get_blob fresh_shim 1) (serve_all [(in_order, artifact_call fresh_shim ''DeleteArtifact'' [115] [120])] sh3)) =
       BlobReply [1, 2, 3, 4]"
proof -
  obtain url sh1 where c: "serve in_order (artifact_call fresh_shim ''CreateArtifact'' [115] [110]) fresh_shim = (CreateReply True url, sh1)"
    using fresh_create by blast
  have w: "faithful in_order" by (simp add: faithful_def in_order_def)
  have ok: "area_ok (sh_artifacts fresh_shim)" "\<forall>(j, d)\<in>set (a_pending (sh_artifacts fresh_shim)). name_of d \<noteq> Some ([115], [110])"
    by (simp_all add: fresh_shim_def area_ok_def)
  have rs: "\<forall>(w, r)\<in>set two_blocks. faithful w \<and> \<not> competes ([115], [110]) r"
    using w by (simp add: two_blocks_def put_block_request_def artifact_call_def)
  have b: "inj_on name_hash (fst ` set [([98::nat], [3::nat, 4]), ([97], [1, 2])])" using two_hashes by auto
  have "trim [97] = [97]" "trim [98] = [98]" by code_simp+
  then have bs: "\<forall>b\<in>set [[97], [98]]. block_id_ok b \<and> b \<in> fst ` set [([98], [3, 4]), ([97], [1::nat, 2])]"
    by (simp add: block_id_ok_def valid_str_def is_scalar_def)
  have l: "\<forall>(w, r)\<in>set [(in_order, artifact_call fresh_shim ''DeleteArtifact'' [115] [120])]. faithful w \<and> \<not> discards 1 ([115], [110]) r"
    using w by (simp add: artifact_call_def)
  show ?thesis
    using c uploaded_artifact_is_downloaded [OF ok w c rs, unfolded first_artifact_id two_blocks_staged, OF b _ bs w w l, of in_order]
    by auto
qed

end
