(* ===== verification/Spec2Isabelle.thy ===== *)
theory Spec2Isabelle
  imports Json_Round_Trip Eval_Laws Matrix Log_Laws Command_Files Uses_Ref Job_Body Scheduler_Chain
    Container_Laws Lifecycle_Laws Planned_Run Env_Chain Extract_Laws Parse_Laws Cache_Laws Server_Laws
begin

text \<open>
  \<^bold>\<open>Greenlit\<close> runs GitHub Actions workflows on a developer's machine. This library models the
  parts of it that decide what a workflow means, and proves that they do what they promise. It
  follows the code under \<^verbatim>\<open>src/crates/\<close>, one theory per component, with the names of the source.

  \<^bold>\<open>How the program works.\<close> A workflow file is read and validated (crate \<^verbatim>\<open>greenlit-workflow\<close>). The
  engine (\<^verbatim>\<open>greenlit-engine\<close>) builds the graph of its jobs, expands matrices and folds every
  expression as far as it can be known before anything runs; what is left is a residual expression
  with the reasons it has to wait. The runtime (\<^verbatim>\<open>greenlit-runtime\<close>) runs the plan: it schedules
  the waves of jobs and the legs of a matrix, creates a job's containers, runs its steps one after
  the other, resolves planned values against run-time contexts, reads the files and log lines by
  which steps talk back, and releases what it created. Expressions are lexed, parsed and evaluated by
  \<^verbatim>\<open>greenlit-expr\<close>, whose evaluator counts the bytes of what it computes.

  \<^bold>\<open>The prelude.\<close> \<open>Prelude\<close> has the error monad (a sum, the error on the left), the insertion-ordered
  map with its \<^emph>\<open>locale\<close> \<open>keyed_map\<close>, checked arithmetic at 64 bits; \<open>Rust_Text\<close> the string
  operations of Rust's standard library on lists of code points; \<open>Utf8\<close> the encoding and its lossy
  decoding; \<open>F64\<close> doubles as exact rationals with correct rounding. The Unicode tables for
  upper-casing and for general categories are parameters (third-party code).

  \<^bold>\<open>Expressions\<close> (\<^verbatim>\<open>greenlit-expr\<close>). \<open>Value\<close>, \<open>Coercion\<close>, \<open>Comparison\<close>: values, conversions, the
  relational operators; an object value is shown to refine an ordered dictionary. \<open>Ast\<close>, \<open>Lexer\<close>,
  \<open>Parser\<close>: the syntax tree and its depth checks, the lexer, the parser with its explicit frames.
  \<open>Memory\<close>, \<open>Json\<close>, \<open>Functions\<close>, \<open>Eval\<close>: the byte accounting, \<open>toJSON\<close> and \<open>fromJSON\<close>, the
  functions with lazily evaluated arguments, the evaluator. \<open>Json_Laws\<close> and \<open>Json_Round_Trip\<close> show
  that reading ends and reads back what writing wrote. \<open>Eval_Laws\<close> has the \<^emph>\<open>locale\<close>
  \<open>evaluation_contract\<close>: a property of results that every function and access keeps holds of the whole
  evaluator; it is interpreted for the memory bound and for the absence of registry errors.
  \<open>Ideal_Eval\<close> is a helper of the proofs, not a model of code: the evaluator without the accounting, which
  the real one is shown to compute unless it runs out of memory or depth.

  \<^bold>\<open>Workflow files\<close> (\<^verbatim>\<open>greenlit-workflow\<close>). \<open>Yaml_Scalar\<close>: the resolution of plain scalars and tags;
  a plain scalar has the value that the relation \<open>spells\<close> gives its spelling, form by form. \<open>Yaml_Tree\<close>: the builder that turns the
  events of a scanner (a parameter: third-party code) into a tree with anchors and aliases; every
  accepted tree is within the limits on depth, events and bytes as if its aliases were written out, and
  no mapping repeats a key up to case. \<open>Workflow_Model\<close>: the typed workflow. \<open>Workflow_Expr\<close> and
  \<open>Workflow_Validate\<close>: the templates of every field and the contexts it may use. \<open>Workflow_Parse\<close> and
  \<open>Parse_Laws\<close>: reading the tree into the typed workflow; an accepted file has at least one job, distinct
  ids, jobs and triggers of the right shape, and the cap on the bytes read from disk never changes the
  answer. \<open>Static_Extract\<close> and
  \<open>Extract_Laws\<close>: what a workflow refers to; an accepted workflow can be scanned, and the scan finds
  exactly what its fields mention, unless an expression stands in a concurrency setting, which the scan
  leaves out.

  \<^bold>\<open>Planning\<close> (\<^verbatim>\<open>greenlit-engine\<close>). \<open>Engine_Base\<close>: locations and warnings. \<open>Matrix\<close>: the expansion
  with \<open>include\<close> and \<open>exclude\<close>, equal to a declarative reference. \<open>Graph\<close> and \<open>Graph_Tarjan\<close>,
  \<open>Graph_Search\<close>, \<open>Graph_Order\<close>, \<open>Graph_Laws\<close>: the dependency graph; the iterative component search,
  the displayed cycle, the least topological order and the waves, with the \<^emph>\<open>locale\<close>
  \<open>component_decomposition\<close> between the search and its clients. \<open>Partial_Eval\<close>: folding and the
  classification of run-time references. \<open>Fold_Rules\<close> has the \<^emph>\<open>locale\<close> \<open>fold_rules\<close>, the rules by
  which a fold may proceed, and shows that the folder only proceeds by them; \<open>Fold_Sound\<close> interprets it
  twice, for the shape of residuals and for their meaning. \<open>Plan_Fields\<close> and \<open>Env_Chain\<close>: templates,
  scalars, conditions and the layers of \<open>env\<close>; what is planned and then resolved is what evaluating the
  source at run time gives, for expressions whose operands are scalars. \<open>Static_Skip\<close>: which jobs a
  plan marks as skipped.

  \<^bold>\<open>Running\<close> (\<^verbatim>\<open>greenlit-engine/src/execution\<close>, \<^verbatim>\<open>greenlit-runtime/src/executor\<close>). \<open>Resolve\<close>,
  \<open>Step_Env\<close>, \<open>Job_Status\<close>: planned values at run time, environments and shells, results and outputs.
  \<open>Log_Commands\<close>, \<open>Log_Laws\<close>, \<open>Command_Files\<close>: workflow commands in log lines, masking (with the
  transport encodings equal to their definition by bits), the files of a step. \<open>Step_Exec\<close>, \<open>Job_Body\<close>, \<open>Step_Ids\<close>, \<open>Uses_Ref\<close>: the step loop with its hooks, the ids of
  steps, action references. \<open>Scheduler\<close>, \<open>Scheduler_Laws\<close>, \<open>Scheduler_Chain\<close>: the waves and the
  pool of legs as a step relation with its reachable states. \<open>Container\<close>, \<open>Container_Laws\<close>: what a
  workflow may ask of a container; the check of destinations is exact for clean paths. \<open>Job_Lifecycle\<close>,
  \<open>Lifecycle_Laws\<close>: the requests a job makes to the container engine on every path, the paths on which
  everything is released, and paths on which something is left. \<open>Planned_Run\<close> and this theory: the run of a planned workflow.

  \<^bold>\<open>Bounds and fuel.\<close> Loops are structural or have a measure. One has fuel: the
  reader of JSON, for which the length of the text is shown to be enough. The three iterative graph
  searches are \<open>while_option\<close> loops shown to end. Byte counts are natural
  numbers with the 64-bit overflow checks of the source written out. References of shared values are
  numbered by a counter that is threaded through, because arrays and objects compare by reference.

  \<^bold>\<open>Parameters.\<close> The container engine, the action runtimes, the terminal and the file system appear as
  functions or scripts of outcomes that the definitions take; the theorems hold for all of them, with
  the hypotheses they need written out (for instance that a request to remove a container succeeds).

  \<^bold>\<open>Where the code departs from its comments\<close> is shown by lemmas next to the theorems: networks that
  leak, a mask that is not applied to one warning, reserved destinations that can be reached, options
  glued together, folded arrays that turn into the word \<open>Array\<close>, and others.

  \<^bold>\<open>Stores\<close> (\<^verbatim>\<open>greenlit-store\<close>). \<open>Store_Layout\<close>: ids, hashed names and the \<^emph>\<open>locale\<close>
  \<open>staged_store\<close>, the contract of a store that publishes a directory by renaming it. \<open>Cache_Store\<close> and
  \<open>Cache_Laws\<close>: the store of \<open>actions/cache\<close>; the selection is the documented rule, and what was uploaded,
  in chunks of any order and among any other requests, is what is restored. \<open>Artifact_Store\<close> and
  \<open>Artifact_Laws\<close>: the store of artifacts and the reader of block lists. \<open>Store_Server\<close> and \<open>Server_Laws\<close>:
  the server in front of both stores, with its limits on bodies; a request without its credential has no
  effect, and an artifact uploaded in blocks is downloaded as it was, under the name it was created with.

  \<^bold>\<open>Not modelled.\<close> Input and output proper: the Docker client, the HTTP library and the sockets of the server, file trees, processes and
  mounts, the command line and its rendering. The fetching and unpacking of actions. The traversal of
  \<open>hashFiles\<close>. The scanner of YAML text (third-party code). Concurrency inside the runtime is
  modelled where it decides an outcome (the legs of a matrix job, the two streams of a step) and left
  out where it only delays (worker permits, polling).
\<close>

section \<open>A run of a planned workflow\<close>

text \<open>The plans of a workflow's jobs as the planner leaves them for the scheduler.\<close>

definition ready_to_run :: "job list \<Rightarrow> job_graph \<Rightarrow> job_plan list \<Rightarrow> bool" where
  "ready_to_run jobs g plans \<longleftrightarrow> distinct (names_of jobs) \<and> build_graph jobs = Some (Inr g) \<and>
     planned_from jobs plans \<and> waves_from g plans"

text \<open>
  C1: Planning and scheduling fit together. When the run of an accepted workflow completes, its report
  lists the reports of every job exactly once, in the topological order of the graph, and the run fails
  if one of them failed and else is cancelled if one was cancelled. Every job was run with one record per job
  it needs, in the order of its \<open>needs\<close>, and the record holds the conclusion and the outputs the legs
  of that job returned. The status its condition saw is decided by what its dependencies returned: cancelled if a
  direct or transitive one was cancelled, otherwise failure if one of them failed, otherwise success
  exactly if all direct needs succeeded.
\<close>

theorem run_follows_the_graph:
  assumes "ready_to_run jobs g plans"
    and "run_plan legs (expand plans (plan_order g)) = Inr (reports, overall)"
  shows "\<exists>records outcome results. reports = concat (map results (plan_order g)) \<and>
    overall = (if \<exists>r \<in> set reports. jp_result r = CFailure then CFailure
      else if \<exists>r \<in> set reports. jp_result r = CCancelled then CCancelled else CSuccess) \<and>
    distinct (plan_order g) \<and> set (plan_order g) = set (names_of jobs) \<and>
    (\<forall>h \<in> set (expand plans (plan_order g)).
      legs h (records h) = Inr (outcome (jg_id h), results (jg_id h)) \<and>
      map (\<lambda>r. (nr_job r, nr_result r, nr_outputs r)) (records h) = map (\<lambda>n. (n, outcome n)) (jg_needs h) \<and>
      needs_status (records h) =
        (if \<exists>a. (jg_id h, a) \<in> (needs_edges (expand plans (plan_order g)))\<^sup>+ \<and> fst (outcome a) = CCancelled then Cancelled
         else if \<exists>a. (jg_id h, a) \<in> (needs_edges (expand plans (plan_order g)))\<^sup>+ \<and> fst (outcome a) = CFailure then Failure
         else if \<forall>n \<in> set (jg_needs h). fst (outcome n) = CSuccess then Success
         else Blocked))"
proof -
  have graph: "distinct (names_of jobs)" "build_graph jobs = Some (Inr g)" "planned_from jobs plans"
    and waves: "waves_from g plans" using assms(1) by (auto simp: ready_to_run_def)
  let ?gs = "expand plans (plan_order g)"
  have ok: "waves_ok ?gs" using expand_waves_ok [OF graph waves] .
  note expanded_ids = expand_of_graph(2) [OF graph]
  obtain completed by_group where
    run: "run_waves legs ?gs [0 ..< max_wave ?gs + 1] (Map.empty, Map.empty) = Inr (completed, by_group)"
    and reports: "reports = collect_reports ?gs by_group" "overall = overall_of reports"
    using assms(2) by (auto simp: run_plan_def rbind_eq_Inr Let_def)
  note each = outcomes_of_run [OF ok _ run]
  let ?results = "\<lambda>x. the (by_group x)"
  have some: "by_group (jg_id h) = Some (?results (jg_id h))" if "h \<in> set ?gs" for h using each [OF that] by auto
  then have "reports = concat (map (\<lambda>h. ?results (jg_id h)) ?gs)"
    unfolding reports(1) using ok by (intro collect_reports_all) (simp_all add: waves_ok_def)
  then have listed: "reports = concat (map ?results (plan_order g))"
    using arg_cong [OF expanded_ids, of "map ?results"] by (simp add: comp_def)
  have distinct: "distinct (plan_order g)" using ok expanded_ids by (simp add: waves_ok_def)
  have all: "set (plan_order g) = set (names_of jobs)"
  proof -
    note order = accepted_order [OF graph]
    have "set (plan_order g) = (\<lambda>i. ids g ! i) ` {..<length (ids g)}"
      using order(1,3) by (simp add: plan_order_def)
    also have "\<dots> = set (ids g)" by (auto simp: set_conv_nth)
    also have "ids g = names_of jobs" using order(1) graph(3) unfolding planned_from_def by (elim conjE) (rule trans)
    finally show ?thesis .
  qed
  have overall: "overall = (if \<exists>r \<in> set reports. jp_result r = CFailure then CFailure
      else if \<exists>r \<in> set reports. jp_result r = CCancelled then CCancelled else CSuccess)"
    by (simp add: reports(2) overall_of_def list_ex_iff)
  show ?thesis
  proof (rule exI [of _ "\<lambda>h. needs_records (jg_needs h) completed"], rule exI [of _ "outcome_of completed"],
      rule exI [of _ ?results], intro conjI ballI listed overall distinct all)
    fix h assume h: "h \<in> set ?gs"
    from each [OF h] show "legs h (needs_records (jg_needs h) completed) = Inr (outcome_of completed (jg_id h), ?results (jg_id h))"
      and "map (\<lambda>r. (nr_job r, nr_result r, nr_outputs r)) (needs_records (jg_needs h) completed) =
        map (\<lambda>n. (n, outcome_of completed n)) (jg_needs h)"
      and "needs_status (needs_records (jg_needs h) completed) =
        (if \<exists>a. (jg_id h, a) \<in> (needs_edges ?gs)\<^sup>+ \<and> fst (outcome_of completed a) = CCancelled then Cancelled
         else if \<exists>a. (jg_id h, a) \<in> (needs_edges ?gs)\<^sup>+ \<and> fst (outcome_of completed a) = CFailure then Failure
         else if \<forall>n \<in> set (jg_needs h). fst (outcome_of completed n) = CSuccess then Success
         else Blocked)" by auto
  qed
qed

definition sample_run_plans :: "job_plan list" where
  "sample_run_plans = map (\<lambda>(j, w). (sample_plan j None True)\<lparr>pj_wave := w\<rparr>) (zip sample_jobs [2, 0, 1])"

theorem run_follows_the_graph_witness:
  "\<exists>g reports overall records outcome. build_graph sample_jobs = Some (Inr g) \<and>
     run_plan sample_legs (expand sample_run_plans (plan_order g)) = Inr (reports, overall) \<and>
     plan_order g = [lit ''build'', lit ''test'', lit ''deploy''] \<and>
     set (plan_order g) = set (names_of sample_jobs) \<and> overall = CSuccess \<and>
     list_all (\<lambda>h. map (\<lambda>r :: need_record. (nr_job r, nr_result r, nr_outputs r)) (records h) = map (\<lambda>n. (n, outcome n)) (jg_needs h))
       (expand sample_run_plans (plan_order g))"
proof -
  have "(case build_graph sample_jobs of Some (Inr g) \<Rightarrow>
      waves_from g sample_run_plans \<and> plan_order g = [lit ''build'', lit ''test'', lit ''deploy''] \<and>
      (case run_plan sample_legs (expand sample_run_plans (plan_order g)) of Inr (rs, _) \<Rightarrow> rs = [] | Inl _ \<Rightarrow> False)
    | _ \<Rightarrow> False)"
    by code_simp
  then obtain g reports overall where g: "build_graph sample_jobs = Some (Inr g)"
    "waves_from g sample_run_plans" "plan_order g = [lit ''build'', lit ''test'', lit ''deploy'']"
    "case run_plan sample_legs (expand sample_run_plans (plan_order g)) of Inr (rs, _) \<Rightarrow> rs = [] | Inl _ \<Rightarrow> False"
    and run: "run_plan sample_legs (expand sample_run_plans (plan_order g)) = Inr (reports, overall)"
    by (auto split: option.splits sum.splits)
  have "planned_from sample_jobs sample_run_plans"
    by (simp add: planned_from_def sample_run_plans_def sample_plan_def sample_jobs_def names_of_def)
  then have "ready_to_run sample_jobs g sample_run_plans"
    using sample_jobs_distinct(1) g by (simp add: ready_to_run_def)
  from run_follows_the_graph [OF this run] obtain records outcome results where
    r: "reports = concat (map results (plan_order g))" "set (plan_order g) = set (names_of sample_jobs)"
      "overall = (if \<exists>r \<in> set reports. jp_result r = CFailure then CFailure
        else if \<exists>r \<in> set reports. jp_result r = CCancelled then CCancelled else CSuccess)"
    and each: "\<forall>h \<in> set (expand sample_run_plans (plan_order g)).
       sample_legs h (records h) = Inr (outcome (jg_id h), results (jg_id h)) \<and>
       map (\<lambda>r. (nr_job r, nr_result r, nr_outputs r)) (records h) = map (\<lambda>n. (n, outcome n)) (jg_needs h)"
    by blast
  have "reports = []" using g(4) run by simp
  then have "overall = CSuccess" using r(3) by simp
  moreover have "\<forall>h \<in> set (expand sample_run_plans (plan_order g)).
      map (\<lambda>r. (nr_job r, nr_result r, nr_outputs r)) (records h) = map (\<lambda>n. (n, outcome n)) (jg_needs h)" using each by blast
  ultimately show ?thesis using g(1,3) run r(2) unfolding list_all_iff by blast
qed

end
